(* ===== verification/Prelude.thy ===== *)
theory Prelude
  imports Main "HOL-Library.Char_ord" "HOL-Library.List_Lexorder"
begin

text \<open>
  What every component shares: the result type of code that may throw, strings, JSON values with
  \<open>JSON.stringify\<close>, the own-key order of JavaScript objects, first-occurrence
  de-duplication, and the fact collections the component theories add to.

  A JavaScript string is a \<open>string\<close> holding its UTF-8 bytes. The code measures strings by their
  UTF-8 length (\<open>TextEncoder\<close>), so \<open>length\<close> is that measure; where the code uses
  \<open>String.prototype.length\<close> it compares with zero or slices off a prefix it has just
  matched, and both readings agree there.
\<close>

named_theorems wf_intros "introduction rules for the well-formedness predicates"
named_theorems frame_simps "which fields an operation leaves unchanged"

subsection \<open>Results of code that may throw\<close>

text \<open>\<open>Inl\<close> is the thrown value, \<open>Inr\<close> the returned one.\<close>

fun rbind :: "'e + 'a \<Rightarrow> ('a \<Rightarrow> 'e + 'b) \<Rightarrow> 'e + 'b" where
  "rbind (Inl e) f = Inl e"
| "rbind (Inr a) f = f a"

lemma rbind_Inr_iff [simp]: "rbind r f = Inr b \<longleftrightarrow> (\<exists>a. r = Inr a \<and> f a = Inr b)"
  by (cases r) auto

lemma rbind_Inl_iff: "rbind r f = Inl e \<longleftrightarrow> r = Inl e \<or> (\<exists>a. r = Inr a \<and> f a = Inl e)"
  by (cases r) auto

fun rmap :: "('a \<Rightarrow> 'e + 'b) \<Rightarrow> 'a list \<Rightarrow> 'e + 'b list" where
  "rmap f [] = Inr []"
| "rmap f (x # xs) = rbind (f x) (\<lambda>y. rbind (rmap f xs) (\<lambda>ys. Inr (y # ys)))"

lemma rmap_Inr_length: "rmap f xs = Inr ys \<Longrightarrow> length ys = length xs"
  by (induction xs arbitrary: ys) auto

lemma rmap_Inr_set:
  "rmap f xs = Inr ys \<Longrightarrow> y \<in> set ys \<Longrightarrow> \<exists>x\<in>set xs. f x = Inr y"
  by (induction xs arbitrary: ys) auto

lemma rmap_Inr_all2: "rmap f xs = Inr ys \<Longrightarrow> list_all2 (\<lambda>x y. f x = Inr y) xs ys"
  by (induction xs arbitrary: ys) auto

subsection \<open>Strings\<close>

definition starts_with :: "string \<Rightarrow> string \<Rightarrow> bool" where
  "starts_with p s \<longleftrightarrow> take (length p) s = p"

lemma starts_with_append [simp]: "starts_with p (p @ s)"
  by (simp add: starts_with_def)

lemma starts_with_iff: "starts_with p s \<longleftrightarrow> (\<exists>t. s = p @ t)"
  by (metis append_take_drop_id append_eq_conv_conj starts_with_def)

lemma starts_with_drop: "starts_with p s \<Longrightarrow> p @ drop (length p) s = s"
  by (auto simp: starts_with_iff)

definition newline :: string where
  "newline = [CHR 0x0A]"

definition dquote :: string where
  "dquote = [CHR 0x22]"

fun nat_digits :: "nat \<Rightarrow> string" where
  "nat_digits n =
     (if n < 10 then [char_of (48 + n)] else nat_digits (n div 10) @ [char_of (48 + n mod 10)])"

declare nat_digits.simps [simp del]

text \<open>\<open>String(n)\<close> for an integer.\<close>

definition int_text :: "int \<Rightarrow> string" where
  "int_text i = (if i < 0 then ''-'' @ nat_digits (nat (- i)) else nat_digits (nat i))"

text \<open>
  A string as its code points, each with its UTF-8 bytes. The lead byte gives the length of the
  sequence.
\<close>

definition cp_len :: "char \<Rightarrow> nat" where
  "cp_len a = (let n = (of_char a :: nat) in
     if n < 0xC0 then 1 else if n < 0xE0 then 2 else if n < 0xF0 then 3 else 4)"

definition cp_value :: "string \<Rightarrow> nat" where
  "cp_value bs = (case map of_char bs of
     [] \<Rightarrow> 0
   | a # r \<Rightarrow>
       foldl (\<lambda>v b. v * 64 + b mod 64)
         (if a < 0xC0 then a else if a < 0xE0 then a - 0xC0 else if a < 0xF0 then a - 0xE0
          else a - 0xF0) r)"

fun code_points :: "string \<Rightarrow> (nat \<times> string) list" where
  "code_points [] = []"
| "code_points (a # r) =
     (let bs = take (cp_len a) (a # r)
      in (cp_value bs, bs) # code_points (drop (cp_len a - 1) r))"

lemma concat_code_points: "concat (map snd (code_points s)) = s"
proof (induction s rule: code_points.induct)
  case (2 a r)
  have "take (cp_len a) (a # r) = a # take (cp_len a - 1) r"
    by (simp add: take_Cons' cp_len_def Let_def)
  with 2 show ?case by (simp add: Let_def)
qed simp

text \<open>The white space \<open>trim()\<close> removes.\<close>

definition is_js_ws :: "nat \<Rightarrow> bool" where
  "is_js_ws n \<longleftrightarrow>
     9 \<le> n \<and> n \<le> 13 \<or> n = 32 \<or> n = 0xA0 \<or> n = 0x1680 \<or> 0x2000 \<le> n \<and> n \<le> 0x200A \<or>
     n = 0x2028 \<or> n = 0x2029 \<or> n = 0x202F \<or> n = 0x205F \<or> n = 0x3000 \<or> n = 0xFEFF"

definition trim_cps :: "(nat \<times> string) list \<Rightarrow> (nat \<times> string) list" where
  "trim_cps cs = rev (dropWhile (\<lambda>c. is_js_ws (fst c)) (rev (dropWhile (\<lambda>c. is_js_ws (fst c)) cs)))"

definition trim :: "string \<Rightarrow> string" where
  "trim s = concat (map snd (trim_cps (code_points s)))"

text \<open>\<open>s.trim().length > 0\<close> is the negation of \<open>is_blank s\<close>.\<close>

definition is_blank :: "string \<Rightarrow> bool" where
  "is_blank s \<longleftrightarrow> list_all (\<lambda>c. is_js_ws (fst c)) (code_points s)"

lemma is_blank_Nil [simp]: "is_blank []"
  by (simp add: is_blank_def)

lemma trim_blank: "is_blank s \<Longrightarrow> trim s = []"
proof -
  assume "is_blank s"
  then have eq: "dropWhile (\<lambda>c. is_js_ws (fst c)) (code_points s) = []"
    by (simp add: is_blank_def list_all_iff)
  show ?thesis unfolding trim_def trim_cps_def eq by simp
qed

text \<open>\<open>String.prototype.length\<close>: UTF-16 code units.\<close>

definition utf16_len :: "(nat \<times> string) list \<Rightarrow> nat" where
  "utf16_len cs = (\<Sum>c\<leftarrow>cs. if fst c < 0x10000 then 1 else 2)"

text \<open>The UTF-16 code units of a string, which \<open>compareStrings\<close> of \<open>comparators.ts\<close> orders strings by.\<close>

definition cp_units :: "nat \<Rightarrow> nat list" where
  "cp_units n = (if n < 0x10000 then [n] else [0xD800 + (n - 0x10000) div 1024, 0xDC00 + (n - 0x10000) mod 1024])"

text \<open>The bound is compared as an integer when the definition is evaluated, which keeps its numeral binary.\<close>

lemma cp_units_code [code]:
  "cp_units n =
     (if int n < 0x10000 then [n] else [0xD800 + (n - 0x10000) div 1024, 0xDC00 + (n - 0x10000) mod 1024])"
  by (simp add: cp_units_def)

definition js_units :: "string \<Rightarrow> nat list" where
  "js_units s = concat (map (cp_units \<circ> fst) (code_points s))"

definition is_alnum :: "char \<Rightarrow> bool" where
  "is_alnum c = (let n = (of_char c :: nat) in
     48 \<le> n \<and> n \<le> 57 \<or> 65 \<le> n \<and> n \<le> 90 \<or> 97 \<le> n \<and> n \<le> 122)"

text \<open>The identifier patterns \<open>^[A-Za-z0-9<extra>]{1,128}$\<close>.\<close>

definition matches_id :: "char list \<Rightarrow> string \<Rightarrow> bool" where
  "matches_id extra s \<longleftrightarrow>
     1 \<le> length s \<and> length s \<le> 128 \<and> list_all (\<lambda>c. is_alnum c \<or> c \<in> set extra) s"

subsection \<open>First occurrences\<close>

text \<open>
  The loops \<open>if (file.length > 0 && !out.includes(file)) out.push(file)\<close>: \<open>add_new\<close> is one
  step, \<open>add_all\<close> the loop over a list.
\<close>

definition add_new :: "'a list list \<Rightarrow> 'a list \<Rightarrow> 'a list list" where
  "add_new out x = (if x \<noteq> [] \<and> x \<notin> set out then out @ [x] else out)"

definition add_all :: "'a list list \<Rightarrow> 'a list list \<Rightarrow> 'a list list" where
  "add_all out xs = foldl add_new out xs"

lemma add_all_Nil [simp]: "add_all out [] = out"
  by (simp add: add_all_def)

lemma add_all_Cons [simp]: "add_all out (x # xs) = add_all (add_new out x) xs"
  by (simp add: add_all_def)

lemma add_all_append [simp]: "add_all out (xs @ ys) = add_all (add_all out xs) ys"
  by (simp add: add_all_def)

lemma set_add_new: "set (add_new out x) = set out \<union> ({x} - {[]})"
  by (auto simp: add_new_def)

lemma set_add_all: "set (add_all out xs) = set out \<union> (set xs - {[]})"
  by (induction xs arbitrary: out) (auto simp: set_add_new)

lemma distinct_add_new: "distinct out \<Longrightarrow> distinct (add_new out x)"
  by (auto simp: add_new_def)

lemma distinct_add_all: "distinct out \<Longrightarrow> distinct (add_all out xs)"
  by (induction xs arbitrary: out) (auto simp: distinct_add_new)

lemma add_new_absorb: "x \<in> set out \<Longrightarrow> add_new out x = out"
  by (simp add: add_new_def)

lemma add_all_absorb: "set xs \<subseteq> insert [] (set out) \<Longrightarrow> add_all out xs = out"
proof (induction xs)
  case (Cons x xs)
  then have "add_new out x = out" by (auto simp: add_new_def)
  with Cons show ?case by simp
qed simp

lemma add_all_distinct:
  "distinct (out @ xs) \<Longrightarrow> [] \<notin> set xs \<Longrightarrow> add_all out xs = out @ xs"
  by (induction xs arbitrary: out) (auto simp: add_new_def)

lemma add_all_self: "distinct xs \<Longrightarrow> [] \<notin> set xs \<Longrightarrow> add_all [] xs = xs"
  using add_all_distinct [of "[]" xs] by simp

lemma length_add_all: "length (add_all out xs) \<le> length out + length xs"
proof (induction xs arbitrary: out)
  case (Cons x xs)
  have "length (add_new out x) \<le> Suc (length out)" by (simp add: add_new_def)
  with Cons.IH [of "add_new out x"] show ?case by simp
qed simp

subsection \<open>JavaScript objects\<close>

text \<open>
  A plain object is the list of its own properties in own-key order: array-index keys first, in
  ascending order, then the other keys in the order they were created.
\<close>

type_synonym 'v obj = "(string \<times> 'v) list"

definition is_digit :: "char \<Rightarrow> bool" where
  "is_digit c = (let n = (of_char c :: nat) in 48 \<le> n \<and> n \<le> 57)"

definition digits_value :: "string \<Rightarrow> nat" where
  "digits_value s = foldl (\<lambda>a c. a * 10 + (of_char c - 48)) 0 s"

definition is_index_key :: "string \<Rightarrow> bool" where
  "is_index_key s \<longleftrightarrow>
     s \<noteq> [] \<and> list_all is_digit s \<and> (length s = 1 \<or> hd s \<noteq> CHR ''0'') \<and>
     digits_value s < 4294967295"

fun obj_insert_index :: "string \<Rightarrow> 'v \<Rightarrow> 'v obj \<Rightarrow> 'v obj" where
  "obj_insert_index k v [] = [(k, v)]"
| "obj_insert_index k v ((k', v') # o') =
     (if is_index_key k' \<and> digits_value k' < digits_value k
      then (k', v') # obj_insert_index k v o' else (k, v) # (k', v') # o')"

fun obj_replace :: "string \<Rightarrow> 'v \<Rightarrow> 'v obj \<Rightarrow> 'v obj" where
  "obj_replace k v [] = []"
| "obj_replace k v ((k', v') # o') =
     (if k' = k then (k, v) # o' else (k', v') # obj_replace k v o')"

definition obj_keys :: "'v obj \<Rightarrow> string list" where
  "obj_keys ob = map fst ob"

text \<open>\<open>obj[k] = v\<close> on an object without a prototype.\<close>

definition obj_put :: "string \<Rightarrow> 'v \<Rightarrow> 'v obj \<Rightarrow> 'v obj" where
  "obj_put k v ob =
     (if k \<in> set (obj_keys ob) then obj_replace k v ob
      else if is_index_key k then obj_insert_index k v ob
      else ob @ [(k, v)])"

definition obj_get :: "'v obj \<Rightarrow> string \<Rightarrow> 'v option" where
  "obj_get ob k = map_of ob k"

lemma obj_get_Nil [simp]: "obj_get [] k = None"
  by (simp add: obj_get_def)

lemma map_of_obj_insert_index:
  "k \<notin> fst ` set ob \<Longrightarrow> map_of (obj_insert_index k v ob) = (map_of ob)(k \<mapsto> v)"
proof (induction ob)
  case (Cons a ob)
  then show ?case by (cases a) (auto simp: fun_eq_iff)
qed simp

lemma map_of_obj_replace:
  "k \<in> fst ` set ob \<Longrightarrow> map_of (obj_replace k v ob) = (map_of ob)(k \<mapsto> v)"
proof (induction ob)
  case (Cons a ob)
  show ?case
  proof (cases "fst a = k")
    case True
    then show ?thesis by (cases a) (auto simp: fun_eq_iff)
  next
    case False
    with Cons.prems have "k \<in> fst ` set ob" by auto
    from Cons.IH [OF this] False show ?thesis by (cases a) (auto simp: fun_eq_iff)
  qed
qed simp

lemma keys_obj_replace [simp]: "map fst (obj_replace k v ob) = map fst ob"
  by (induction ob) auto

lemma set_keys_insert_index [simp]:
  "fst ` set (obj_insert_index k v ob) = insert k (fst ` set ob)"
proof (induction ob)
  case (Cons a ob)
  then show ?case by (cases a) auto
qed simp

lemma distinct_insert_index:
  "distinct (map fst ob) \<Longrightarrow> k \<notin> fst ` set ob \<Longrightarrow> distinct (map fst (obj_insert_index k v ob))"
proof (induction ob)
  case (Cons a ob)
  then show ?case by (cases a) auto
qed simp

lemma map_of_snoc: "k \<notin> fst ` set ob \<Longrightarrow> map_of (ob @ [(k, v)]) = (map_of ob)(k \<mapsto> v)"
  by (induction ob) (auto simp: fun_eq_iff)

lemma obj_get_put: "obj_get (obj_put k v ob) k' = (if k' = k then Some v else obj_get ob k')"
  by (cases "k \<in> fst ` set ob")
     (simp_all add: obj_get_def obj_put_def obj_keys_def map_of_obj_replace
        map_of_obj_insert_index map_of_snoc del: map_of_append)

lemma set_keys_replace [simp]: "fst ` set (obj_replace k v ob) = fst ` set ob"
  using keys_obj_replace [of k v ob] by (metis set_map)

lemma set_keys_put [simp]: "set (obj_keys (obj_put k v ob)) = insert k (set (obj_keys ob))"
  by (auto simp: obj_put_def obj_keys_def)

lemma distinct_keys_put: "distinct (obj_keys ob) \<Longrightarrow> distinct (obj_keys (obj_put k v ob))"
  by (auto simp: obj_put_def obj_keys_def distinct_insert_index)

lemma obj_get_None_iff: "obj_get ob k = None \<longleftrightarrow> k \<notin> set (obj_keys ob)"
  by (simp add: obj_get_def obj_keys_def map_of_eq_None_iff)

lemma obj_get_Some_in: "obj_get ob k = Some v \<Longrightarrow> (k, v) \<in> set ob"
  by (simp add: obj_get_def map_of_SomeD)

lemma obj_get_in_distinct:
  "distinct (obj_keys ob) \<Longrightarrow> (k, v) \<in> set ob \<Longrightarrow> obj_get ob k = Some v"
  by (simp add: obj_get_def obj_keys_def)

lemma obj_put_same: "obj_get ps i = Some p \<Longrightarrow> obj_put i p ps = ps"
proof -
  have "obj_replace i p ps = ps" if "map_of ps i = Some p"
    using that by (induction ps) (auto split: if_splits)
  then show "obj_get ps i = Some p \<Longrightarrow> ?thesis"
    by (auto simp: obj_put_def obj_get_def obj_keys_def dest: map_of_SomeD)
      (metis map_of_eq_None_iff option.distinct(1))+
qed

subsection \<open>JSON\<close>

text \<open>
  JSON values. The type of numbers is a parameter: code that only prints numbers keeps the text
  \<open>Number::toString\<close> gives, code that computes with them keeps their value.
\<close>

datatype 'n json =
    JNull
  | JBool bool
  | JNum 'n
  | JStr string
  | JArr "'n json list"
  | JObj "(string \<times> 'n json) list"

text \<open>Numbers kept as their printed text.\<close>

type_synonym jtext = "string json"

definition hex_digit :: "nat \<Rightarrow> char" where
  "hex_digit n = (if n < 10 then char_of (48 + n) else char_of (87 + n))"

text \<open>The escapes of \<open>JSON.stringify\<close>; bytes from 0x80 belong to multi-byte characters.\<close>

definition json_escape :: "char \<Rightarrow> string" where
  "json_escape c = (let n = (of_char c :: nat) in
     if n = 0x22 then [CHR 0x5C, CHR 0x22]
     else if n = 0x5C then [CHR 0x5C, CHR 0x5C]
     else if n = 0x08 then [CHR 0x5C, CHR ''b'']
     else if n = 0x09 then [CHR 0x5C, CHR ''t'']
     else if n = 0x0A then [CHR 0x5C, CHR ''n'']
     else if n = 0x0C then [CHR 0x5C, CHR ''f'']
     else if n = 0x0D then [CHR 0x5C, CHR ''r'']
     else if n < 0x20 then
       [CHR 0x5C, CHR ''u'', CHR ''0'', CHR ''0'', hex_digit (n div 16), hex_digit (n mod 16)]
     else [c])"

definition json_quote :: "string \<Rightarrow> string" where
  "json_quote s = dquote @ concat (map json_escape s) @ dquote"

fun join :: "string \<Rightarrow> string list \<Rightarrow> string" where
  "join sep [] = []"
| "join sep [x] = x"
| "join sep (x # y # xs) = x @ sep @ join sep (y # xs)"

fun stringify :: "jtext \<Rightarrow> string" where
  "stringify JNull = ''null''"
| "stringify (JBool b) = (if b then ''true'' else ''false'')"
| "stringify (JNum n) = n"
| "stringify (JStr s) = json_quote s"
| "stringify (JArr xs) = ''['' @ join '','' (map stringify xs) @ '']''"
| "stringify (JObj kvs) =
     CHR 0x7B # join '','' (map (\<lambda>kv. json_quote (fst kv) @ '':'' @ stringify (snd kv)) kvs) @ [CHR 0x7D]"

text \<open>\<open>JSON.stringify(v, null, 2)\<close>, at indentation \<open>ind\<close>.\<close>

definition pad :: "nat \<Rightarrow> string" where
  "pad n = newline @ replicate n (CHR '' '')"

fun stringify_pretty :: "nat \<Rightarrow> jtext \<Rightarrow> string" where
  "stringify_pretty ind (JArr xs) =
     (if xs = [] then ''[]''
      else ''['' @ pad (ind + 2) @
        join ('','' @ pad (ind + 2)) (map (stringify_pretty (ind + 2)) xs) @ pad ind @ '']'')"
| "stringify_pretty ind (JObj kvs) =
     (if kvs = [] then [CHR 0x7B, CHR 0x7D]
      else CHR 0x7B # pad (ind + 2) @
        join ('','' @ pad (ind + 2))
          (map (\<lambda>kv. json_quote (fst kv) @ '': '' @ stringify_pretty (ind + 2) (snd kv)) kvs)
        @ pad ind @ [CHR 0x7D])"
| "stringify_pretty ind JNull = stringify JNull"
| "stringify_pretty ind (JBool b) = stringify (JBool b)"
| "stringify_pretty ind (JNum n) = stringify (JNum n)"
| "stringify_pretty ind (JStr s) = stringify (JStr s)"

text \<open>
  Canonical JSON (\<open>canonicalise\<close> of \<open>canonical-json.ts\<close>) of a JSON value: own keys sorted by their code
  units, array order kept.
\<close>

fun sorted_json :: "jtext \<Rightarrow> jtext" where
  "sorted_json (JArr xs) = JArr (map sorted_json xs)"
| "sorted_json (JObj kvs) = JObj (sort_key (js_units \<circ> fst) (map (\<lambda>kv. (fst kv, sorted_json (snd kv))) kvs))"
| "sorted_json JNull = JNull"
| "sorted_json (JBool b) = JBool b"
| "sorted_json (JNum n) = JNum n"
| "sorted_json (JStr s) = JStr s"

definition canonicalise :: "jtext \<Rightarrow> string" where
  "canonicalise v = stringify (sorted_json v)"

lemma length_join:
  "length (join sep xs) = (\<Sum>x\<leftarrow>xs. length x) + length sep * (length xs - 1)"
  by (induction sep xs rule: join.induct) (auto simp: algebra_simps)

subsection \<open>Operations that keep an invariant\<close>

text \<open>
  The contract several components share: every operation keeps an invariant. It then holds after
  any sequence of operations.
\<close>

locale invariant_ops =
  fixes inv :: "'s \<Rightarrow> bool"
    and op :: "'a \<Rightarrow> 's \<Rightarrow> 's"
  assumes op_inv: "inv s \<Longrightarrow> inv (op a s)"
begin

lemma ops_inv: "inv s \<Longrightarrow> inv (fold op as s)"
  by (induction as arbitrary: s) (auto intro: op_inv)

lemma ops_inv_prefix: "inv s \<Longrightarrow> inv (fold op (take n as) s)"
  by (rule ops_inv)

end

text \<open>
  The same contract for steps that may throw: a step on a legal input that returns keeps the
  invariant, so a loop over such steps that returns has kept it.
\<close>

fun rfold :: "('s \<Rightarrow> 'a \<Rightarrow> 'e + 's) \<Rightarrow> 's \<Rightarrow> 'a list \<Rightarrow> 'e + 's" where
  "rfold step s [] = Inr s"
| "rfold step s (x # xs) = rbind (step s x) (\<lambda>t. rfold step t xs)"

lemma rfold_append: "rfold step s (xs @ ys) = rbind (rfold step s xs) (\<lambda>t. rfold step t ys)"
proof (induction xs arbitrary: s)
  case (Cons x xs)
  then show ?case by (cases "step s x") simp_all
qed simp

locale checked_ops =
  fixes inv :: "'s \<Rightarrow> bool"
    and legal :: "'a \<Rightarrow> bool"
    and step :: "'s \<Rightarrow> 'a \<Rightarrow> 'e + 's"
  assumes step_inv: "inv s \<Longrightarrow> legal a \<Longrightarrow> step s a = Inr t \<Longrightarrow> inv t"
begin

lemma steps_inv: "inv s \<Longrightarrow> (\<And>x. x \<in> set xs \<Longrightarrow> legal x) \<Longrightarrow> rfold step s xs = Inr t \<Longrightarrow> inv t"
proof (induction xs arbitrary: s)
  case (Cons x xs)
  then obtain u where u: "step s x = Inr u" and rest: "rfold step u xs = Inr t" by auto
  have "inv u" using Cons.prems(1,2) u by (auto intro: step_inv)
  from this _ rest show ?case by (rule Cons.IH) (simp add: Cons.prems(2))
qed simp

end

end
