(* ===== verification/Harness_Types.thy ===== *)
theory Harness_Types
  imports Prelude
begin

text \<open>
  The harness contract (\<open>packages/keiko-contracts/src/harness.ts\<close>) with the gateway and tool
  types the harness exchanges (\<open>gateway.ts\<close>, \<open>tools.ts\<close>, \<open>governed-tool-lifecycle.ts\<close>): states,
  limits, tasks, counters, failures, messages and the event union. Counts, limits and times are
  \<open>int\<close>.
\<close>

subsection \<open>State machine\<close>

datatype harness_state =
    Intake
  | Planning
  | ContextSelection
  | ModelCall
  | ToolCall
  | PatchProposal
  | Verification
  | Reporting
  | Completed
  | Cancelled
  | Failed
  | LimitExceeded

definition terminal_states :: "harness_state list" where
  "terminal_states = [Completed, Cancelled, Failed, LimitExceeded]"

definition is_terminal :: "harness_state \<Rightarrow> bool" where
  "is_terminal st \<longleftrightarrow> st \<in> set terminal_states"

lemma is_terminal_simps [simp]:
  "\<not> is_terminal Intake" "\<not> is_terminal Planning" "\<not> is_terminal ContextSelection"
  "\<not> is_terminal ModelCall" "\<not> is_terminal ToolCall" "\<not> is_terminal PatchProposal"
  "\<not> is_terminal Verification" "\<not> is_terminal Reporting"
  "is_terminal Completed" "is_terminal Cancelled" "is_terminal Failed" "is_terminal LimitExceeded"
  by (simp_all add: is_terminal_def terminal_states_def)

subsection \<open>Limits\<close>

record harness_limits =
  maxIterations :: int
  maxModelCalls :: int
  maxToolCalls :: int
  maxCommandExecutions :: int
  maxContextBytes :: int
  maxPatchBytes :: int
  maxWallTimeMs :: int
  maxFailureAttempts :: int

definition governed_patch_max_bytes :: int where
  "governed_patch_max_bytes = 8 * 1048576"

definition default_limits :: harness_limits where
  "default_limits = \<lparr>
     maxIterations = 10,
     maxModelCalls = 20,
     maxToolCalls = 30,
     maxCommandExecutions = 10,
     maxContextBytes = 512000,
     maxPatchBytes = governed_patch_max_bytes,
     maxWallTimeMs = 300000,
     maxFailureAttempts = 3 \<rparr>"

subsection \<open>Tasks\<close>

datatype task_type =
  GenerateUnitTests | InvestigateBug | ExplainPlan | Verify | EditorAgentTurn

text \<open>The fields of a retrieved excerpt the harness reads (\<open>CodingContextExcerpt\<close>).\<close>

datatype source_kind =
    FilesFocus | RepoSearch | ConnectedContext | LocalKnowledge | MemorySource
  | QualityIntelligence | WorkflowContext | EditorState | GitContext

record coding_excerpt =
  x_kind :: source_kind
  x_tier :: string
  x_id :: string
  x_ref :: "string option"
  x_text :: string

record unit_test_input =
  ut_file :: string
  ut_function :: "string option"
  ut_context :: "string option"
  ut_retrieved :: "coding_excerpt list option"

record bug_input =
  bug_description :: string
  bug_files :: "string list option"
  bug_context :: "string option"

record explain_input =
  ex_file :: string
  ex_question :: "string option"
  ex_context :: "string option"

record verify_input =
  vf_root :: string
  vf_targets :: "string list option"

record agent_turn_input =
  at_goal :: string
  at_session :: string

datatype task_input =
    TaskUnitTests unit_test_input
  | TaskInvestigate bug_input
  | TaskExplain explain_input
  | TaskVerify verify_input
  | TaskAgentTurn agent_turn_input

fun task_type_of :: "task_input \<Rightarrow> task_type" where
  "task_type_of (TaskUnitTests _) = GenerateUnitTests"
| "task_type_of (TaskInvestigate _) = InvestigateBug"
| "task_type_of (TaskExplain _) = ExplainPlan"
| "task_type_of (TaskVerify _) = Verify"
| "task_type_of (TaskAgentTurn _) = EditorAgentTurn"

subsection \<open>Counters\<close>

record run_counters =
  iterations :: int
  modelCalls :: int
  toolCalls :: int
  commandExecutions :: int
  failureAttempts :: int
  browserNavigations :: int

subsection \<open>Failure taxonomy\<close>

datatype harness_code =
    LimitIterations
  | LimitModelCalls
  | LimitToolCalls
  | LimitCommandExec
  | LimitContextSize
  | LimitPatchSize
  | LimitWallTime
  | LimitFailureAttempts
  | ModelError
  | ToolError
  | InternalError

fun harness_code_text :: "harness_code \<Rightarrow> string" where
  "harness_code_text LimitIterations = ''HARNESS_LIMIT_ITERATIONS''"
| "harness_code_text LimitModelCalls = ''HARNESS_LIMIT_MODEL_CALLS''"
| "harness_code_text LimitToolCalls = ''HARNESS_LIMIT_TOOL_CALLS''"
| "harness_code_text LimitCommandExec = ''HARNESS_LIMIT_COMMAND_EXECUTIONS''"
| "harness_code_text LimitContextSize = ''HARNESS_LIMIT_CONTEXT_SIZE''"
| "harness_code_text LimitPatchSize = ''HARNESS_LIMIT_PATCH_SIZE''"
| "harness_code_text LimitWallTime = ''HARNESS_LIMIT_WALL_TIME''"
| "harness_code_text LimitFailureAttempts = ''HARNESS_LIMIT_FAILURE_ATTEMPTS''"
| "harness_code_text ModelError = ''HARNESS_MODEL_ERROR''"
| "harness_code_text ToolError = ''HARNESS_TOOL_ERROR''"
| "harness_code_text InternalError = ''HARNESS_INTERNAL''"

text \<open>\<open>code.startsWith("HARNESS_LIMIT_")\<close>, by which errors are routed to their terminal state.\<close>

definition is_limit_code :: "harness_code \<Rightarrow> bool" where
  "is_limit_code c \<longleftrightarrow> starts_with ''HARNESS_LIMIT_'' (harness_code_text c)"

lemma is_limit_code_iff: "is_limit_code c \<longleftrightarrow> c \<notin> {ModelError, ToolError, InternalError}"
  by (cases c) (simp_all add: is_limit_code_def starts_with_def)

record harness_failure =
  f_category :: harness_code
  f_message :: string
  f_detail :: "string option"

definition to_failure :: "harness_code \<Rightarrow> string \<Rightarrow> harness_failure" where
  "to_failure c m = \<lparr> f_category = c, f_message = m, f_detail = None \<rparr>"

lemma to_failure_simps [simp]:
  "f_category (to_failure c m) = c" "f_message (to_failure c m) = m" "f_detail (to_failure c m) = None"
  by (simp_all add: to_failure_def)

subsection \<open>What the ports throw\<close>

text \<open>
  The error classes the harness tells apart: \<open>CancelledError\<close>, the other \<open>GatewayError\<close>s with
  their code and \<open>retryable\<close> flag, \<open>HarnessCatalogError\<close>, \<open>ToolError\<close> and
  \<open>WorkspaceError\<close> with their code, any other \<open>Error\<close>, and a thrown value that is no \<open>Error\<close>.
\<close>

datatype thrown =
    CancelledThrown string
  | GatewayThrown string string bool
  | CatalogThrown harness_code string
  | ToolThrown string string
  | WorkspaceThrown string string
  | ErrorThrown string
  | ValueThrown

fun thrown_message :: "string \<Rightarrow> thrown \<Rightarrow> string" where
  "thrown_message d (CancelledThrown m) = m"
| "thrown_message d (GatewayThrown c m r) = m"
| "thrown_message d (CatalogThrown c m) = m"
| "thrown_message d (ToolThrown c m) = m"
| "thrown_message d (WorkspaceThrown c m) = m"
| "thrown_message d (ErrorThrown m) = m"
| "thrown_message d ValueThrown = d"

subsection \<open>Messages, tool calls and responses\<close>

record tool_invocation =
  inv_tool_ref :: jtext
  inv_projection :: string
  inv_offer :: string
  inv_arguments :: jtext

record tool_call =
  tc_invocation :: "tool_invocation option"
  tc_id :: string
  tc_name :: string
  tc_arguments :: jtext

datatype role = System | User | Assistant | Tool

record chat_message =
  m_role :: role
  m_content :: string
  m_tool_call_id :: "string option"
  m_tool_calls :: "tool_call list option"

definition plain_message :: "role \<Rightarrow> string \<Rightarrow> chat_message" where
  "plain_message r c = \<lparr> m_role = r, m_content = c, m_tool_call_id = None, m_tool_calls = None \<rparr>"

definition tool_message :: "string \<Rightarrow> string \<Rightarrow> chat_message" where
  "tool_message i c = \<lparr> m_role = Tool, m_content = c, m_tool_call_id = Some i, m_tool_calls = None \<rparr>"

datatype finish_reason = Stop | ToolCalls | LengthReached | ContentFilter | FinishError | FinishCancelled

record usage =
  u_request_id :: string
  u_prompt_tokens :: int
  u_completion_tokens :: int
  u_latency_ms :: int

record model_response =
  r_content :: string
  r_finish :: finish_reason
  r_tool_calls :: "tool_call list"
  r_usage :: usage

text \<open>The keys \<open>JSON.stringify\<close> prints for a message; absent optional fields print nothing.\<close>

fun role_text :: "role \<Rightarrow> string" where
  "role_text System = ''system''"
| "role_text User = ''user''"
| "role_text Assistant = ''assistant''"
| "role_text Tool = ''tool''"

definition invocation_json :: "tool_invocation \<Rightarrow> jtext" where
  "invocation_json i = JObj [(''kind'', JStr ''bound''), (''toolRef'', inv_tool_ref i),
     (''projectionDigest'', JStr (inv_projection i)), (''offerId'', JStr (inv_offer i)),
     (''arguments'', inv_arguments i)]"

definition tool_call_json :: "tool_call \<Rightarrow> jtext" where
  "tool_call_json c = JObj (
     (case tc_invocation c of None \<Rightarrow> [] | Some i \<Rightarrow> [(''invocation'', invocation_json i)]) @
     [(''id'', JStr (tc_id c)), (''name'', JStr (tc_name c)), (''arguments'', tc_arguments c)])"

definition message_json :: "chat_message \<Rightarrow> jtext" where
  "message_json m = JObj (
     [(''role'', JStr (role_text (m_role m))), (''content'', JStr (m_content m))] @
     (case m_tool_call_id m of None \<Rightarrow> [] | Some i \<Rightarrow> [(''toolCallId'', JStr i)]) @
     (case m_tool_calls m of None \<Rightarrow> [] | Some cs \<Rightarrow> [(''toolCalls'', JArr (map tool_call_json cs))]))"

subsection \<open>Tool results and their audit metadata\<close>

datatype network_policy = InheritNetwork | NoNetwork

record sandbox_snapshot =
  sb_env_allowlist :: "string list"
  sb_network :: network_policy
  sb_max_output :: int
  sb_timeout :: int
  sb_grace :: int
  sb_cwd_requested :: bool

datatype tool_metadata =
    CommandMetadata string int "int option" bool sandbox_snapshot
  | PatchMetadata int int int

text \<open>
  A shaped observation (\<open>ContextToolObservation\<close>): the lane of its rehydration handle, and its
  JSON value, \<open>None\<close> when \<open>JSON.stringify\<close> would throw on it.
\<close>

record observation =
  ob_lane :: "string option"
  ob_json :: "jtext option"

record tool_result =
  tr_call_id :: string
  tr_output :: string
  tr_duration :: int
  tr_metadata :: "tool_metadata option"
  tr_observation :: "observation option"

subsection \<open>Events\<close>

datatype shaping_reason = ShaperThrew | UnserializableObservation

datatype browser_close_reason = ExplicitClose | ProcessExit | ChromeDisconnected | IdleTimeout

datatype event_body =
    RunStarted task_type string harness_limits
  | StateTransition harness_state harness_state string
  | ModelCallStarted string int int
  | ModelCallCompleted string finish_reason int usage
  | ModelCallFailed string string string
  | ToolCallStarted string string
  | ToolCallCompleted string string int
  | ToolCallFailed string string string string
  | CommandExecuted string int "int option" bool int
  | SandboxConfigured sandbox_snapshot
  | PatchApplied int int int
  | ReasoningTrace harness_state string "string option"
  | PatchProposed string int string
  | VerificationResult bool string
  | RunCompleted string "string option"
  | RunCancelled "string option" harness_state
  | RunFailed harness_failure harness_state
  | BrowserSessionOpened string int string
  | BrowserNavigated string string "int option"
  | BrowserScreenshot string int bool int int "string option"
  | BrowserPageContent string int int
  | BrowserSessionClosed string browser_close_reason
  | BrowserTrustWarning string string
  | BrowserError string string string
  | ToolShapingDegraded string string shaping_reason
  | SinkDegraded nat
  | ContextCompacted int int int

record harness_event =
  ev_run_id :: string
  ev_fingerprint :: string
  ev_seq :: nat
  ev_ts :: int
  ev_body :: event_body

end
