(* ===== verification/Event_Emitter.thy ===== *)
theory Event_Emitter
  imports Harness_Types
begin

text \<open>
  The event emitter (\<open>packages/keiko-harness/src/emitter.ts\<close>) and the in-memory sink
  (\<open>sinks.ts\<close>). An emitter owns its sequence number and its quarantine set; the sinks and the
  clock are the environment: \<open>clock_at n\<close> is the value of the \<open>n\<close>-th read of the injected clock,
  \<open>sink_throws i e\<close> says whether the external sink object \<open>i\<close> throws when handed the event \<open>e\<close>
  (every event has its own sequence number, so a sink may behave differently each time), and
  \<open>redact_text\<close> is \<open>redact\<close> of \<open>keiko-security\<close>.

  The state keeps one record of the world besides the fields of the class: \<open>em_log\<close>, the
  deliveries a sink accepted, in order, from which the events a sink holds are read off.
\<close>

record emitter_env =
  clock_at :: "nat \<Rightarrow> int"
  sink_throws :: "nat \<Rightarrow> harness_event \<Rightarrow> bool"
  redact_text :: "string \<Rightarrow> string"

text \<open>
  A sink object, by identity; the second argument of an external sink is its
  \<open>retainsRawContent\<close>. A \<open>MemoryEventSink\<close> retains raw content and appends to its list, which
  does not throw.
\<close>

datatype sink = MemorySink nat | ExternalSink nat bool

fun sink_id :: "sink \<Rightarrow> nat" where
  "sink_id (MemorySink i) = i"
| "sink_id (ExternalSink i r) = i"

fun retains_raw :: "sink \<Rightarrow> bool" where
  "retains_raw (MemorySink i) = True"
| "retains_raw (ExternalSink i r) = r"

fun emit_throws :: "'a emitter_env_scheme \<Rightarrow> sink \<Rightarrow> harness_event \<Rightarrow> bool" where
  "emit_throws env (MemorySink i) e = False"
| "emit_throws env (ExternalSink i r) e = sink_throws env i e"

record emitter =
  em_sinks :: "sink list"
  em_run_id :: string
  em_fingerprint :: string
  em_seq :: nat
  em_poisoned :: "nat list"
  em_clock_reads :: nat
  em_log :: "(sink \<times> harness_event) list"

definition new_emitter :: "sink list \<Rightarrow> string \<Rightarrow> string \<Rightarrow> nat \<Rightarrow> emitter" where
  "new_emitter sinks run fp reads = \<lparr>
     em_sinks = sinks, em_run_id = run, em_fingerprint = fp, em_seq = 0, em_poisoned = [],
     em_clock_reads = reads, em_log = [] \<rparr>"

subsection \<open>Redaction\<close>

definition redact_failure :: "'a emitter_env_scheme \<Rightarrow> harness_failure \<Rightarrow> harness_failure" where
  "redact_failure env f = f\<lparr> f_message := redact_text env (f_message f),
     f_detail := map_option (redact_text env) (f_detail f) \<rparr>"

fun redact_body :: "'a emitter_env_scheme \<Rightarrow> event_body \<Rightarrow> event_body" where
  "redact_body env (ReasoningTrace p r m) =
     ReasoningTrace p (redact_text env r) (map_option (redact_text env) m)"
| "redact_body env (PatchProposed t n d) = PatchProposed t n (redact_text env d)"
| "redact_body env (ModelCallFailed m c t) = ModelCallFailed m c (redact_text env t)"
| "redact_body env (ToolCallFailed n i c t) = ToolCallFailed n i c (redact_text env t)"
| "redact_body env (BrowserTrustWarning s w) = BrowserTrustWarning s (redact_text env w)"
| "redact_body env (BrowserError s c m) = BrowserError s c (redact_text env m)"
| "redact_body env (VerificationResult p d) = VerificationResult p (redact_text env d)"
| "redact_body env (RunCompleted r d) =
     RunCompleted (redact_text env r) (map_option (redact_text env) d)"
| "redact_body env (RunCancelled r s) = RunCancelled (map_option (redact_text env) r) s"
| "redact_body env (RunFailed f s) = RunFailed (redact_failure env f) s"
| "redact_body env b = b"

definition redact_sensitive :: "'a emitter_env_scheme \<Rightarrow> harness_event \<Rightarrow> harness_event" where
  "redact_sensitive env e = e\<lparr> ev_body := redact_body env (ev_body e) \<rparr>"

subsection \<open>Delivery\<close>

text \<open>
  \<open>deliverToSinks\<close>: the loop over the sinks, with the position of the current one. The list of
  positions that failed is returned with the state.
\<close>

fun deliver_loop ::
  "'a emitter_env_scheme \<Rightarrow> harness_event \<Rightarrow> harness_event \<Rightarrow> nat \<Rightarrow> sink list \<Rightarrow> emitter \<Rightarrow> nat list \<times> emitter"
where
  "deliver_loop env event redacted i [] em = ([], em)"
| "deliver_loop env event redacted i (s # ss) em =
     (if sink_id s \<in> set (em_poisoned em) then deliver_loop env event redacted (i + 1) ss em
      else
        let e = (if retains_raw s then event else redacted)
        in if emit_throws env s e
           then (let r = deliver_loop env event redacted (i + 1) ss
                       (em\<lparr> em_poisoned := em_poisoned em @ [sink_id s] \<rparr>)
                 in (i # fst r, snd r))
           else deliver_loop env event redacted (i + 1) ss
                  (em\<lparr> em_log := em_log em @ [(s, e)] \<rparr>))"

definition deliver_to_sinks ::
  "'a emitter_env_scheme \<Rightarrow> harness_event \<Rightarrow> emitter \<Rightarrow> nat list \<times> emitter" where
  "deliver_to_sinks env event em =
     deliver_loop env event (redact_sensitive env event) 0 (em_sinks em) em"

text \<open>\<open>nextEnvelope\<close>: one sequence number and one clock read.\<close>

definition next_envelope ::
  "'a emitter_env_scheme \<Rightarrow> event_body \<Rightarrow> emitter \<Rightarrow> harness_event \<times> emitter" where
  "next_envelope env body em =
     (\<lparr> ev_run_id = em_run_id em, ev_fingerprint = em_fingerprint em, ev_seq = em_seq em + 1,
        ev_ts = clock_at env (em_clock_reads em), ev_body = body \<rparr>,
      em\<lparr> em_seq := em_seq em + 1, em_clock_reads := em_clock_reads em + 1 \<rparr>)"

definition announce_degraded :: "'a emitter_env_scheme \<Rightarrow> nat \<Rightarrow> emitter \<Rightarrow> emitter" where
  "announce_degraded env i em =
     (let r = next_envelope env (SinkDegraded i) em
      in snd (deliver_to_sinks env (fst r) (snd r)))"

definition emit :: "'a emitter_env_scheme \<Rightarrow> event_body \<Rightarrow> emitter \<Rightarrow> emitter" where
  "emit env body em =
     (let r = next_envelope env body em;
          d = deliver_to_sinks env (fst r) (snd r)
      in fold (announce_degraded env) (fst d) (snd d))"

subsection \<open>What a sink holds\<close>

definition collected :: "sink \<Rightarrow> emitter \<Rightarrow> harness_event list" where
  "collected s em = map snd (filter (\<lambda>d. fst d = s) (em_log em))"

text \<open>\<open>CliEventSink\<close> writes failures to the error stream.\<close>

fun is_failure_event :: "event_body \<Rightarrow> bool" where
  "is_failure_event (RunFailed f s) = True"
| "is_failure_event (ModelCallFailed m c t) = True"
| "is_failure_event (ToolCallFailed n i c t) = True"
| "is_failure_event b = False"

subsection \<open>Delivery lemmas\<close>

lemma redact_sensitive_simps [simp]:
  "ev_seq (redact_sensitive env e) = ev_seq e" "ev_run_id (redact_sensitive env e) = ev_run_id e"
  "ev_ts (redact_sensitive env e) = ev_ts e"
  "ev_body (redact_sensitive env e) = redact_body env (ev_body e)"
  by (simp_all add: redact_sensitive_def)

text \<open>The events one delivery appends for each sink that accepts it.\<close>

definition delivered_form :: "'a emitter_env_scheme \<Rightarrow> harness_event \<Rightarrow> sink \<Rightarrow> harness_event" where
  "delivered_form env event s = (if retains_raw s then event else redact_sensitive env event)"

lemma deliver_loop_spec:
  assumes "deliver_loop env event (redact_sensitive env event) i ss em = (failed, em')"
  shows "\<exists>new bad. em' = em\<lparr> em_poisoned := em_poisoned em @ bad, em_log := em_log em @ new \<rparr> \<and>
    (\<forall>d\<in>set new. fst d \<in> set ss \<and> snd d = delivered_form env event (fst d) \<and>
       sink_id (fst d) \<notin> set (em_poisoned em)) \<and>
    length bad = length failed \<and>
    (\<forall>j\<in>set failed. i \<le> j \<and> j < i + length ss) \<and>
    (\<forall>x\<in>set bad. x \<notin> set (em_poisoned em) \<and>
       (\<exists>s\<in>set ss. sink_id s = x \<and> emit_throws env s (delivered_form env event s))) \<and>
    distinct bad"
  using assms
proof (induction ss arbitrary: i em failed em')
  case Nil
  then have "failed = []" "em' = em" by simp_all
  then show ?case by (intro exI [of _ "[]"]) simp
next
  case (Cons s ss)
  let ?e = "delivered_form env event s"
  consider (skip) "sink_id s \<in> set (em_poisoned em)"
    | (throw) "sink_id s \<notin> set (em_poisoned em)" "emit_throws env s ?e"
    | (accept) "sink_id s \<notin> set (em_poisoned em)" "\<not> emit_throws env s ?e"
    by blast
  then show ?case
  proof cases
    case skip
    with Cons.prems have
      "deliver_loop env event (redact_sensitive env event) (i + 1) ss em = (failed, em')" by simp
    from Cons.IH [OF this] show ?thesis by fastforce
  next
    case throw
    let ?em1 = "em\<lparr> em_poisoned := em_poisoned em @ [sink_id s] \<rparr>"
    from throw Cons.prems obtain failed1 where
      run: "deliver_loop env event (redact_sensitive env event) (i + 1) ss ?em1 = (failed1, em')"
      and failed: "failed = i # failed1"
      by (cases "deliver_loop env event (redact_sensitive env event) (i + 1) ss ?em1")
         (auto simp: delivered_form_def Let_def)
    from Cons.IH [OF run] obtain new bad where
      *: "em' = ?em1\<lparr> em_poisoned := em_poisoned ?em1 @ bad, em_log := em_log ?em1 @ new \<rparr>"
      and new: "\<forall>d\<in>set new. fst d \<in> set ss \<and> snd d = delivered_form env event (fst d) \<and>
        sink_id (fst d) \<notin> set (em_poisoned ?em1)"
      and len: "length bad = length failed1"
      and pos: "\<forall>j\<in>set failed1. i + 1 \<le> j \<and> j < i + 1 + length ss"
      and bad: "\<forall>x\<in>set bad. x \<notin> set (em_poisoned ?em1) \<and>
        (\<exists>s\<in>set ss. sink_id s = x \<and> emit_throws env s (delivered_form env event s))"
      and dist: "distinct bad"
      by blast
    show ?thesis
    proof (intro exI [of _ new] exI [of _ "sink_id s # bad"] conjI)
      show "em' = em\<lparr> em_poisoned := em_poisoned em @ sink_id s # bad, em_log := em_log em @ new \<rparr>"
        using * by simp
      show "\<forall>d\<in>set new. fst d \<in> set (s # ss) \<and> snd d = delivered_form env event (fst d) \<and>
        sink_id (fst d) \<notin> set (em_poisoned em)" using new by auto
      show "length (sink_id s # bad) = length failed" using len failed by simp
      show "\<forall>j\<in>set failed. i \<le> j \<and> j < i + length (s # ss)" using pos failed by auto
      show "\<forall>x\<in>set (sink_id s # bad). x \<notin> set (em_poisoned em) \<and>
        (\<exists>s'\<in>set (s # ss). sink_id s' = x \<and> emit_throws env s' (delivered_form env event s'))"
        using bad throw by auto
      show "distinct (sink_id s # bad)" using bad dist by auto
    qed
  next
    case accept
    let ?em1 = "em\<lparr> em_log := em_log em @ [(s, ?e)] \<rparr>"
    from accept Cons.prems have
      run: "deliver_loop env event (redact_sensitive env event) (i + 1) ss ?em1 = (failed, em')"
      by (simp add: delivered_form_def Let_def)
    from Cons.IH [OF run] obtain new bad where
      *: "em' = ?em1\<lparr> em_poisoned := em_poisoned ?em1 @ bad, em_log := em_log ?em1 @ new \<rparr>"
      and rest: "\<forall>d\<in>set new. fst d \<in> set ss \<and> snd d = delivered_form env event (fst d) \<and>
        sink_id (fst d) \<notin> set (em_poisoned ?em1)"
        "length bad = length failed"
        "\<forall>j\<in>set failed. i + 1 \<le> j \<and> j < i + 1 + length ss"
        "\<forall>x\<in>set bad. x \<notin> set (em_poisoned ?em1) \<and>
          (\<exists>s\<in>set ss. sink_id s = x \<and> emit_throws env s (delivered_form env event s))"
        "distinct bad"
      by blast
    show ?thesis
      by (rule exI [of _ "(s, ?e) # new"], rule exI [of _ bad]) (use * rest accept in auto)
  qed
qed

text \<open>
  Delivery to one sink object of a list without aliases: it holds the event in its own form
  exactly when it is listed, not quarantined and does not throw.
\<close>

definition accepts :: "'a emitter_env_scheme \<Rightarrow> sink \<Rightarrow> harness_event \<Rightarrow> emitter \<Rightarrow> bool" where
  "accepts env s event em \<longleftrightarrow>
     s \<in> set (em_sinks em) \<and> sink_id s \<notin> set (em_poisoned em) \<and>
     \<not> emit_throws env s (delivered_form env event s)"

lemma collected_poison [simp]: "collected s (em\<lparr> em_poisoned := xs \<rparr>) = collected s em"
  by (simp add: collected_def)

lemma collected_log_snoc [simp]:
  "collected s (em\<lparr> em_log := em_log em @ [(s', e)] \<rparr>) =
     collected s em @ (if s' = s then [e] else [])"
  by (simp add: collected_def)

lemma snd_deliver_loop_Cons:
  "snd (deliver_loop env event (redact_sensitive env event) i (s # ss) em) =
     snd (deliver_loop env event (redact_sensitive env event) (i + 1) ss
       (if sink_id s \<in> set (em_poisoned em) then em
        else if emit_throws env s (delivered_form env event s)
        then em\<lparr> em_poisoned := em_poisoned em @ [sink_id s] \<rparr>
        else em\<lparr> em_log := em_log em @ [(s, delivered_form env event s)] \<rparr>))"
  by (simp add: delivered_form_def Let_def split: prod.splits)

lemma collected_deliver_loop:
  assumes "distinct (map sink_id ss)"
  shows "collected s (snd (deliver_loop env event (redact_sensitive env event) i ss em)) =
    collected s em @ (if s \<in> set ss \<and> sink_id s \<notin> set (em_poisoned em) \<and>
      \<not> emit_throws env s (delivered_form env event s) then [delivered_form env event s] else [])"
  using assms
proof (induction ss arbitrary: i em)
  case (Cons s' ss)
  then have ids: "sink_id s' \<notin> sink_id ` set ss" "distinct (map sink_id ss)" by simp_all
  show ?case
  proof (cases "s' = s")
    case True
    with ids(1) have "s \<notin> set ss" by (metis imageI)
    with True show ?thesis
      unfolding snd_deliver_loop_Cons Cons.IH [OF ids(2)] by simp
  next
    case False
    have "s \<in> set ss \<Longrightarrow> sink_id s \<noteq> sink_id s'" using ids(1) by (metis imageI)
    with False show ?thesis
      unfolding snd_deliver_loop_Cons Cons.IH [OF ids(2)] by auto
  qed
qed simp

lemma deliver_loop_frame [frame_simps]:
  "em_sinks (snd (deliver_loop env event red i ss em)) = em_sinks em"
  "em_seq (snd (deliver_loop env event red i ss em)) = em_seq em"
  "em_run_id (snd (deliver_loop env event red i ss em)) = em_run_id em"
  "em_fingerprint (snd (deliver_loop env event red i ss em)) = em_fingerprint em"
  "em_clock_reads (snd (deliver_loop env event red i ss em)) = em_clock_reads em"
  by (induction ss arbitrary: i em) (simp_all add: Let_def)

text \<open>Emitter facts: the state between two emissions, and what one emission adds.\<close>

definition emitter_ok :: "emitter \<Rightarrow> bool" where
  "emitter_ok em \<longleftrightarrow>
     distinct (map sink_id (em_sinks em)) \<and>
     (\<forall>d\<in>set (em_log em). fst d \<in> set (em_sinks em) \<and> ev_seq (snd d) \<le> em_seq em \<and>
        ev_run_id (snd d) = em_run_id em \<and> ev_fingerprint (snd d) = em_fingerprint em) \<and>
     (\<forall>s\<in>set (em_sinks em). sorted_wrt (<) (map ev_seq (collected s em)))"

lemma next_envelope_simps [simp]:
  "ev_seq (fst (next_envelope env b em)) = em_seq em + 1"
  "ev_body (fst (next_envelope env b em)) = b"
  "ev_run_id (fst (next_envelope env b em)) = em_run_id em"
  "ev_fingerprint (fst (next_envelope env b em)) = em_fingerprint em"
  "ev_ts (fst (next_envelope env b em)) = clock_at env (em_clock_reads em)"
  "em_sinks (snd (next_envelope env b em)) = em_sinks em"
  "em_seq (snd (next_envelope env b em)) = em_seq em + 1"
  "em_poisoned (snd (next_envelope env b em)) = em_poisoned em"
  "em_log (snd (next_envelope env b em)) = em_log em"
  "em_run_id (snd (next_envelope env b em)) = em_run_id em"
  "em_fingerprint (snd (next_envelope env b em)) = em_fingerprint em"
  "em_clock_reads (snd (next_envelope env b em)) = em_clock_reads em + 1"
  "collected s (snd (next_envelope env b em)) = collected s em"
  by (simp_all add: next_envelope_def collected_def)

text \<open>One event handed to every healthy sink, as both \<open>emit\<close> and \<open>announceDegraded\<close> do.\<close>

definition deliver_body :: "'a emitter_env_scheme \<Rightarrow> event_body \<Rightarrow> emitter \<Rightarrow> emitter" where
  "deliver_body env b em =
     snd (deliver_to_sinks env (fst (next_envelope env b em)) (snd (next_envelope env b em)))"

definition failed_sinks :: "'a emitter_env_scheme \<Rightarrow> event_body \<Rightarrow> emitter \<Rightarrow> nat list" where
  "failed_sinks env b em =
     fst (deliver_to_sinks env (fst (next_envelope env b em)) (snd (next_envelope env b em)))"

lemma announce_degraded_deliver: "announce_degraded env i em = deliver_body env (SinkDegraded i) em"
  by (simp add: announce_degraded_def deliver_body_def Let_def)

lemma emit_deliver:
  "emit env b em = fold (\<lambda>i. deliver_body env (SinkDegraded i)) (failed_sinks env b em)
     (deliver_body env b em)"
proof -
  have "announce_degraded env = (\<lambda>i. deliver_body env (SinkDegraded i))"
    by (simp add: fun_eq_iff announce_degraded_deliver)
  then show ?thesis by (simp add: emit_def deliver_body_def failed_sinks_def Let_def)
qed

lemma deliver_body_frame [simp]:
  "em_sinks (deliver_body env b em) = em_sinks em"
  "em_seq (deliver_body env b em) = em_seq em + 1"
  "em_run_id (deliver_body env b em) = em_run_id em"
  "em_fingerprint (deliver_body env b em) = em_fingerprint em"
  "em_clock_reads (deliver_body env b em) = em_clock_reads em + 1"
  by (simp_all add: deliver_body_def deliver_to_sinks_def frame_simps)

lemma collected_deliver_body:
  assumes "distinct (map sink_id (em_sinks em))"
  shows "collected s (deliver_body env b em) = collected s em @
    (if accepts env s (fst (next_envelope env b em)) em
     then [delivered_form env (fst (next_envelope env b em)) s] else [])"
  using collected_deliver_loop [of "em_sinks em" s env "fst (next_envelope env b em)" 0
      "snd (next_envelope env b em)"] assms
  by (simp add: deliver_body_def deliver_to_sinks_def accepts_def)

text \<open>One delivery, seen from the log and the quarantine list.\<close>

lemma deliver_body_log:
  obtains new bad where
    "em_log (deliver_body env b em) = em_log em @ new"
    "em_poisoned (deliver_body env b em) = em_poisoned em @ bad"
    "\<forall>d\<in>set new. fst d \<in> set (em_sinks em) \<and>
       snd d = delivered_form env (fst (next_envelope env b em)) (fst d)"
    "length bad = length (failed_sinks env b em)"
    "\<forall>x\<in>set bad. x \<notin> set (em_poisoned em) \<and> (\<exists>s\<in>set (em_sinks em). sink_id s = x \<and>
       emit_throws env s (delivered_form env (fst (next_envelope env b em)) s))"
    "\<forall>j\<in>set (failed_sinks env b em). j < length (em_sinks em)"
    "distinct bad"
proof -
  let ?e = "fst (next_envelope env b em)" and ?em = "snd (next_envelope env b em)"
  have "deliver_loop env ?e (redact_sensitive env ?e) 0 (em_sinks em) ?em =
      (failed_sinks env b em, deliver_body env b em)"
    by (simp add: failed_sinks_def deliver_body_def deliver_to_sinks_def)
  from deliver_loop_spec [OF this] obtain new bad where
    "deliver_body env b em = ?em\<lparr> em_poisoned := em_poisoned ?em @ bad, em_log := em_log ?em @ new \<rparr>"
    and rest: "\<forall>d\<in>set new. fst d \<in> set (em_sinks em) \<and> snd d = delivered_form env ?e (fst d) \<and>
        sink_id (fst d) \<notin> set (em_poisoned ?em)"
      "length bad = length (failed_sinks env b em)"
      "\<forall>j\<in>set (failed_sinks env b em). 0 \<le> j \<and> j < 0 + length (em_sinks em)"
      "\<forall>x\<in>set bad. x \<notin> set (em_poisoned ?em) \<and>
        (\<exists>s\<in>set (em_sinks em). sink_id s = x \<and> emit_throws env s (delivered_form env ?e s))"
      "distinct bad"
    by blast
  then show ?thesis by (intro that [of new bad]) auto
qed

lemma delivered_form_simps [simp]:
  "ev_seq (delivered_form env e s) = ev_seq e"
  "ev_run_id (delivered_form env e s) = ev_run_id e"
  by (simp_all add: delivered_form_def)

lemma delivered_form_fingerprint [simp]:
  "ev_fingerprint (delivered_form env e s) = ev_fingerprint e"
  by (simp add: delivered_form_def redact_sensitive_def)

lemma collected_seq_le:
  "emitter_ok em \<Longrightarrow> e \<in> set (collected s em) \<Longrightarrow> ev_seq e \<le> em_seq em"
  by (auto simp: emitter_ok_def collected_def)

lemma emitter_ok_deliver_body [wf_intros]:
  assumes "emitter_ok em"
  shows "emitter_ok (deliver_body env b em)"
proof -
  let ?em = "deliver_body env b em"
  obtain new bad where log: "em_log ?em = em_log em @ new"
    and new: "\<forall>d\<in>set new. fst d \<in> set (em_sinks em) \<and>
       snd d = delivered_form env (fst (next_envelope env b em)) (fst d)"
    using deliver_body_log [of env b em] by metis
  from assms have ids: "distinct (map sink_id (em_sinks em))" by (simp add: emitter_ok_def)
  have "sorted_wrt (<) (map ev_seq (collected s ?em))" if "s \<in> set (em_sinks em)" for s
    using assms that collected_seq_le [OF assms, of _ s]
    by (auto simp: collected_deliver_body [OF ids] sorted_wrt_append emitter_ok_def less_Suc_eq_le)
  with assms log new show ?thesis
    by (fastforce simp: emitter_ok_def)
qed

lemma emitter_ok_fold:
  "emitter_ok em \<Longrightarrow> emitter_ok (fold (\<lambda>i. deliver_body env (SinkDegraded i)) is em)"
  by (induction "is" arbitrary: em) (auto intro: wf_intros)

lemma emitter_ok_emit [wf_intros]: "emitter_ok em \<Longrightarrow> emitter_ok (emit env b em)"
  by (simp add: emit_deliver emitter_ok_fold emitter_ok_deliver_body)

lemma fold_deliver_frame [simp]:
  "em_sinks (fold (\<lambda>i. deliver_body env (f i)) is em) = em_sinks em"
  "em_seq (fold (\<lambda>i. deliver_body env (f i)) is em) = em_seq em + length is"
  "em_clock_reads (fold (\<lambda>i. deliver_body env (f i)) is em) = em_clock_reads em + length is"
  by (induction "is" arbitrary: em) simp_all

lemma emit_frame [simp]:
  "em_sinks (emit env b em) = em_sinks em"
  by (simp add: emit_deliver)

lemma poisoned_deliver_mono: "set (em_poisoned em) \<subseteq> set (em_poisoned (deliver_body env b em))"
  using deliver_body_log [of env b em] by (metis set_append Un_upper1)

lemma poisoned_fold_mono:
  "set (em_poisoned em) \<subseteq> set (em_poisoned (fold (\<lambda>i. deliver_body env (f i)) is em))"
proof (induction "is" arbitrary: em)
  case (Cons i "is")
  from Cons.IH [of "deliver_body env (f i) em"] poisoned_deliver_mono [of em env "f i"]
  show ?case by auto
qed simp

lemma poisoned_emit_mono: "set (em_poisoned em) \<subseteq> set (em_poisoned (emit env b em))"
  using poisoned_deliver_mono [of em env b]
    poisoned_fold_mono [of "deliver_body env b em" env SinkDegraded "failed_sinks env b em"]
  by (auto simp: emit_deliver)

text \<open>A quarantined sink takes part in no later delivery.\<close>

lemma collected_deliver_poisoned:
  "distinct (map sink_id (em_sinks em)) \<Longrightarrow> sink_id s \<in> set (em_poisoned em) \<Longrightarrow>
     collected s (deliver_body env b em) = collected s em"
  by (simp add: collected_deliver_body accepts_def)

lemma collected_fold_poisoned:
  "distinct (map sink_id (em_sinks em)) \<Longrightarrow> sink_id s \<in> set (em_poisoned em) \<Longrightarrow>
     collected s (fold (\<lambda>i. deliver_body env (f i)) is em) = collected s em"
proof (induction "is" arbitrary: em)
  case (Cons i "is")
  moreover have "sink_id s \<in> set (em_poisoned (deliver_body env (f i) em))"
    using Cons.prems(2) poisoned_deliver_mono [of em env "f i"] by auto
  ultimately show ?case by (simp add: collected_deliver_poisoned)
qed simp

lemma collected_emit_poisoned:
  assumes "emitter_ok em" and "sink_id s \<in> set (em_poisoned em)"
  shows "collected s (emit env b em) = collected s em"
proof -
  have ids: "distinct (map sink_id (em_sinks em))" using assms(1) by (simp add: emitter_ok_def)
  have "sink_id s \<in> set (em_poisoned (deliver_body env b em))"
    using assms(2) poisoned_deliver_mono [of em env b] by auto
  with ids assms(2) show ?thesis
    by (simp add: emit_deliver collected_fold_poisoned collected_deliver_poisoned)
qed

subsection \<open>The in-memory sink\<close>

text \<open>
  The run's own memory sink never throws, so it is never quarantined and holds every event in raw
  form: what it collects is the run's record.
\<close>

definition memory_ok :: "nat \<Rightarrow> emitter \<Rightarrow> bool" where
  "memory_ok m em \<longleftrightarrow>
     emitter_ok em \<and> MemorySink m \<in> set (em_sinks em) \<and> m \<notin> set (em_poisoned em)"

definition record_of :: "nat \<Rightarrow> emitter \<Rightarrow> event_body list" where
  "record_of m em = map ev_body (collected (MemorySink m) em)"

lemma sink_id_inj:
  "distinct (map sink_id ss) \<Longrightarrow> s \<in> set ss \<Longrightarrow> t \<in> set ss \<Longrightarrow> sink_id s = sink_id t \<Longrightarrow> s = t"
  by (auto simp: distinct_map inj_on_def)

lemma memory_ok_deliver_body [wf_intros]:
  assumes "memory_ok m em"
  shows "memory_ok m (deliver_body env b em)"
proof -
  have ok: "emitter_ok em" and ids: "distinct (map sink_id (em_sinks em))"
    and mem: "MemorySink m \<in> set (em_sinks em)"
    using assms by (simp_all add: memory_ok_def emitter_ok_def)
  obtain new bad where bad: "em_poisoned (deliver_body env b em) = em_poisoned em @ bad"
    "\<forall>x\<in>set bad. x \<notin> set (em_poisoned em) \<and> (\<exists>s\<in>set (em_sinks em). sink_id s = x \<and>
       emit_throws env s (delivered_form env (fst (next_envelope env b em)) s))"
    using deliver_body_log [of env b em] by metis
  have "m \<notin> set bad"
  proof
    assume "m \<in> set bad"
    with bad(2) obtain s where s: "s \<in> set (em_sinks em)" "sink_id s = m"
      "emit_throws env s (delivered_form env (fst (next_envelope env b em)) s)" by auto
    with sink_id_inj [OF ids s(1) mem] have "s = MemorySink m" by simp
    with s(3) show False by simp
  qed
  with assms bad(1) show ?thesis
    using emitter_ok_deliver_body [OF ok] by (simp add: memory_ok_def)
qed

lemma record_deliver_body:
  assumes "memory_ok m em"
  shows "record_of m (deliver_body env b em) = record_of m em @ [b]"
proof -
  have "distinct (map sink_id (em_sinks em))" using assms by (simp add: memory_ok_def emitter_ok_def)
  with assms show ?thesis
    by (simp add: record_of_def collected_deliver_body accepts_def memory_ok_def delivered_form_def)
qed

lemma record_fold_deliver:
  "memory_ok m em \<Longrightarrow> memory_ok m (fold (\<lambda>i. deliver_body env (f i)) is em) \<and>
     record_of m (fold (\<lambda>i. deliver_body env (f i)) is em) = record_of m em @ map f is"
proof (induction "is" arbitrary: em)
  case (Cons i "is")
  then have ok: "memory_ok m (deliver_body env (f i) em)" by (blast intro: wf_intros)
  from Cons.IH [OF this] show ?case using Cons.prems by (simp add: record_deliver_body)
qed simp

lemma memory_ok_emit [wf_intros]: "memory_ok m em \<Longrightarrow> memory_ok m (emit env b em)"
  by (simp add: emit_deliver record_fold_deliver memory_ok_deliver_body)

lemma record_emit:
  "memory_ok m em \<Longrightarrow>
     record_of m (emit env b em) = record_of m em @ b # map SinkDegraded (failed_sinks env b em)"
  by (simp add: emit_deliver record_fold_deliver memory_ok_deliver_body record_deliver_body)

text \<open>The run's record without the notices about failing sinks: what the harness itself emitted.\<close>

fun is_notice :: "event_body \<Rightarrow> bool" where
  "is_notice (SinkDegraded i) = True"
| "is_notice b = False"

definition run_record :: "nat \<Rightarrow> emitter \<Rightarrow> event_body list" where
  "run_record m em = filter (\<lambda>b. \<not> is_notice b) (record_of m em)"

lemma run_record_emit:
  "memory_ok m em \<Longrightarrow> run_record m (emit env b em) = run_record m em @ (if is_notice b then [] else [b])"
  by (simp add: run_record_def record_emit filter_empty_conv)

text \<open>
  The interface the run loop relies on: an emission appends its event, and nothing else the
  harness emitted, to the run's record.
\<close>

locale event_record =
  fixes ok :: "'s \<Rightarrow> bool"
    and emit_op :: "event_body \<Rightarrow> 's \<Rightarrow> 's"
    and recorded :: "'s \<Rightarrow> event_body list"
  assumes ok_emit: "ok s \<Longrightarrow> ok (emit_op b s)"
    and recorded_emit: "ok s \<Longrightarrow> \<not> is_notice b \<Longrightarrow> recorded (emit_op b s) = recorded s @ [b]"
begin

lemma emit_all:
  "ok s \<Longrightarrow> list_all (\<lambda>b. \<not> is_notice b) bs \<Longrightarrow>
     ok (fold emit_op bs s) \<and> recorded (fold emit_op bs s) = recorded s @ bs"
  by (induction bs arbitrary: s) (auto simp: ok_emit recorded_emit)

lemma last_recorded: "ok s \<Longrightarrow> \<not> is_notice b \<Longrightarrow> last (recorded (emit_op b s)) = b"
  by (simp add: recorded_emit)

lemma recorded_mono: "ok s \<Longrightarrow> \<not> is_notice b \<Longrightarrow> set (recorded s) \<subseteq> set (recorded (emit_op b s))"
  by (auto simp: recorded_emit)

end

interpretation emitter_log: event_record "memory_ok m" "emit env" "run_record m"
  for m and env :: "'a emitter_env_scheme"
  by unfold_locales (simp_all add: memory_ok_emit run_record_emit)

subsection \<open>Properties of the emitter\<close>

lemma new_emitter_simps [simp]:
  "em_sinks (new_emitter ss r f n) = ss" "em_poisoned (new_emitter ss r f n) = []"
  "em_log (new_emitter ss r f n) = []" "em_seq (new_emitter ss r f n) = 0"
  "em_clock_reads (new_emitter ss r f n) = n" "collected s (new_emitter ss r f n) = []"
  by (simp_all add: new_emitter_def collected_def)

lemma emitter_ok_new: "distinct (map sink_id ss) \<Longrightarrow> emitter_ok (new_emitter ss r f n)"
  by (simp add: emitter_ok_def)

lemma memory_ok_new:
  "distinct (map sink_id ss) \<Longrightarrow> MemorySink m \<in> set ss \<Longrightarrow> memory_ok m (new_emitter ss r f n)"
  by (simp add: memory_ok_def emitter_ok_new)

lemma emitter_ok_emits: "emitter_ok em \<Longrightarrow> emitter_ok (fold (emit env) bs em)"
  by (induction bs arbitrary: em) (auto intro: wf_intros)

lemma emits_sinks [simp]: "em_sinks (fold (emit env) bs em) = em_sinks em"
  by (induction bs arbitrary: em) simp_all

text \<open>
  Whatever events a run emits and however its sinks misbehave, the sequence numbers of
  the events each sink holds strictly increase.
\<close>

theorem emitted_seq_strictly_increases:
  assumes "distinct (map sink_id sinks)"
  shows "sorted_wrt (<) (map ev_seq (collected s (fold (emit env) bs (new_emitter sinks run fp n))))"
proof -
  let ?em = "fold (emit env) bs (new_emitter sinks run fp n)"
  have ok: "emitter_ok ?em" by (simp add: emitter_ok_emits emitter_ok_new assms)
  show ?thesis
  proof (cases "s \<in> set (em_sinks ?em)")
    case True
    with ok show ?thesis by (simp add: emitter_ok_def)
  next
    case False
    with ok have "collected s ?em = []"
      by (auto simp: emitter_ok_def collected_def filter_empty_conv)
    then show ?thesis by simp
  qed
qed

definition quiet_env :: emitter_env where
  "quiet_env = \<lparr> clock_at = int, sink_throws = (\<lambda>i e. i = 1 \<and> ev_seq e = 2),
     redact_text = (\<lambda>s. ''***'') \<rparr>"

theorem emitted_seq_strictly_increases_witness:
  "sorted_wrt (<) (map ev_seq (collected (ExternalSink 2 False)
     (fold (emit quiet_env) [PatchApplied 1 0 0, PatchApplied 2 0 0]
       (new_emitter [MemorySink 0, ExternalSink 1 False, ExternalSink 2 False] ''r'' ''f'' 0))))"
  by (rule emitted_seq_strictly_increases) simp

text \<open>
  A sink whose \<open>emit\<close> has thrown is quarantined for the rest of the run: it stays
  quarantined and receives none of the later events.
\<close>

theorem quarantine_is_permanent:
  assumes "emitter_ok em" and "sink_id s \<in> set (em_poisoned em)"
  shows "sink_id s \<in> set (em_poisoned (fold (emit env) bs em)) \<and>
    collected s (fold (emit env) bs em) = collected s em"
  using assms
proof (induction bs arbitrary: em)
  case (Cons b bs)
  have "sink_id s \<in> set (em_poisoned (emit env b em))"
    using Cons.prems(2) poisoned_emit_mono [of em env b] by auto
  with Cons show ?case by (simp add: emitter_ok_emit collected_emit_poisoned)
qed simp

theorem quarantine_is_permanent_witness:
  "collected (ExternalSink 1 False) (fold (emit quiet_env) [PatchApplied 1 0 0]
     ((new_emitter [MemorySink 0, ExternalSink 1 False] ''r'' ''f'' 0)\<lparr> em_poisoned := [1] \<rparr>)) = []"
  using quarantine_is_permanent [of
      "(new_emitter [MemorySink 0, ExternalSink 1 False] ''r'' ''f'' 0)\<lparr> em_poisoned := [1] \<rparr>"
      "ExternalSink 1 False" quiet_env "[PatchApplied 1 0 0]"]
  by (simp add: emitter_ok_def new_emitter_def collected_def)

text \<open>What a sink that does not retain raw content may hold, when the bodies \<open>B\<close> were emitted.\<close>

definition only_redacted :: "'a emitter_env_scheme \<Rightarrow> event_body set \<Rightarrow> emitter \<Rightarrow> bool" where
  "only_redacted env B em \<longleftrightarrow>
     (\<forall>d\<in>set (em_log em). \<not> retains_raw (fst d) \<longrightarrow>
        (\<exists>b. (b \<in> B \<or> is_notice b) \<and> ev_body (snd d) = redact_body env b))"

lemma only_redacted_deliver [wf_intros]:
  assumes "only_redacted env B em" and "b \<in> B \<or> is_notice b"
  shows "only_redacted env B (deliver_body env b em)"
proof -
  obtain new bad where log: "em_log (deliver_body env b em) = em_log em @ new"
    and new: "\<forall>d\<in>set new. fst d \<in> set (em_sinks em) \<and>
       snd d = delivered_form env (fst (next_envelope env b em)) (fst d)"
    using deliver_body_log [of env b em] by metis
  have "\<exists>b. (b \<in> B \<or> is_notice b) \<and> ev_body (snd d) = redact_body env b"
    if "d \<in> set new" "\<not> retains_raw (fst d)" for d
    using new that assms(2) by (intro exI [of _ b]) (auto simp: delivered_form_def)
  with assms(1) log show ?thesis by (auto simp: only_redacted_def)
qed

lemma only_redacted_emit [wf_intros]:
  assumes "only_redacted env B em" and "b \<in> B"
  shows "only_redacted env B (emit env b em)"
proof -
  have "only_redacted env B (fold (\<lambda>i. deliver_body env (SinkDegraded i)) is e)"
    if "only_redacted env B e" for "is" e
    using that by (induction "is" arbitrary: e) (simp_all add: only_redacted_deliver)
  with assms show ?thesis by (simp add: emit_deliver only_redacted_deliver)
qed

lemma only_redacted_emits:
  "only_redacted env B em \<Longrightarrow> set bs \<subseteq> B \<Longrightarrow> only_redacted env B (fold (emit env) bs em)"
  by (induction bs arbitrary: em) (auto intro: wf_intros)

text \<open>
  A sink that does not declare \<open>retainsRawContent\<close> only ever receives redacted events:
  the body of each event it holds is the redaction of an emitted body or of a \<open>sink:degraded\<close>
  notice.
\<close>

theorem unretained_sinks_get_redacted_events:
  assumes "\<not> retains_raw s"
    and "e \<in> set (collected s (fold (emit env) bs (new_emitter sinks run fp n)))"
  shows "\<exists>b. (b \<in> set bs \<or> is_notice b) \<and> ev_body e = redact_body env b"
proof -
  have "only_redacted env (set bs) (new_emitter sinks run fp n)" by (simp add: only_redacted_def)
  then have "only_redacted env (set bs) (fold (emit env) bs (new_emitter sinks run fp n))"
    by (rule only_redacted_emits) simp
  with assms show ?thesis by (auto simp: only_redacted_def collected_def)
qed

theorem unretained_sinks_get_redacted_events_witness:
  "\<exists>b. (b \<in> {PatchProposed ''a.ts'' 3 ''+x''} \<or> is_notice b) \<and>
     PatchProposed ''a.ts'' 3 ''***'' = redact_body quiet_env b"
proof -
  let ?e = "\<lparr> ev_run_id = ''r'', ev_fingerprint = ''f'', ev_seq = 1, ev_ts = 0,
      ev_body = PatchProposed ''a.ts'' 3 ''***'' \<rparr>"
  have "?e \<in> set (collected (ExternalSink 2 False) (fold (emit quiet_env)
      [PatchProposed ''a.ts'' 3 ''+x''] (new_emitter [ExternalSink 2 False] ''r'' ''f'' 0)))"
    by (simp add: emit_def next_envelope_def deliver_to_sinks_def new_emitter_def collected_def
        quiet_env_def redact_sensitive_def Let_def)
  from unretained_sinks_get_redacted_events [OF _ this] show ?thesis by simp
qed

text \<open>
  The run's own record is complete: after an emission the memory sink holds what it held
  before, the new event, and one \<open>sink:degraded\<close> notice for each sink that threw on it, whose
  index is a position of the sink list.
\<close>

theorem memory_sink_holds_everything:
  assumes "memory_ok m em"
  shows "\<exists>is. record_of m (emit env b em) = record_of m em @ b # map SinkDegraded is \<and>
    (\<forall>i\<in>set is. i < length (em_sinks em)) \<and>
    length is \<le> length (em_sinks em)"
proof (intro exI conjI)
  show "record_of m (emit env b em) = record_of m em @ b # map SinkDegraded (failed_sinks env b em)"
    by (rule record_emit [OF assms])
  obtain new bad where "length bad = length (failed_sinks env b em)"
    and bad: "\<forall>x\<in>set bad. x \<notin> set (em_poisoned em) \<and> (\<exists>s\<in>set (em_sinks em). sink_id s = x \<and>
       emit_throws env s (delivered_form env (fst (next_envelope env b em)) s))"
    and "\<forall>j\<in>set (failed_sinks env b em). j < length (em_sinks em)"
    and dist: "distinct bad"
    using deliver_body_log [of env b em] by metis
  then show "\<forall>i\<in>set (failed_sinks env b em). i < length (em_sinks em)" by simp
  have "set bad \<subseteq> sink_id ` set (em_sinks em)" using bad by auto
  then have "card (set bad) \<le> card (sink_id ` set (em_sinks em))" by (simp add: card_mono)
  also have "\<dots> \<le> length (em_sinks em)"
    using card_image_le [of "set (em_sinks em)" sink_id] card_length [of "em_sinks em"] by simp
  finally show "length (failed_sinks env b em) \<le> length (em_sinks em)"
    using dist \<open>length bad = _\<close> by (simp add: distinct_card)
qed

theorem memory_sink_holds_everything_witness:
  "\<exists>is. record_of 0 (emit quiet_env (PatchApplied 1 0 0)
      (new_emitter [MemorySink 0, ExternalSink 1 False] ''r'' ''f'' 0)) =
    [] @ PatchApplied 1 0 0 # map SinkDegraded is"
  using memory_sink_holds_everything
      [of 0 "new_emitter [MemorySink 0, ExternalSink 1 False] ''r'' ''f'' 0" quiet_env "PatchApplied 1 0 0"]
  by (auto simp: memory_ok_new record_of_def)

end
