(* ===== verification/Harness_Context.thy ===== *)
theory Harness_Context
  imports Event_Emitter Task_Plans
begin

text \<open>
  The mutable run state (\<open>packages/keiko-harness/src/context.ts\<close>), the ports the harness is
  handed (\<open>ports.ts\<close>, \<open>shaper-port.ts\<close>, \<open>context-compaction-port.ts\<close>, the catalog port of
  \<open>catalog-runtime.ts\<close>) and the events that can run while the loop awaits (\<open>session.ts\<close>).

  The ports are parameters: fields of \<open>harness_env\<close>. A port that may answer differently each
  time takes as its first argument the number of awaits the run has made, so any behaviour of the
  port over a run is an instance. JavaScript runs other code only while the loop awaits:
  \<open>async_at n\<close> is what runs during the \<open>n\<close>-th await.
\<close>

subsection \<open>Catalog state\<close>

record tool_descriptor =
  d_digest :: string
  d_effects :: "string list"

datatype charge_state = Reserved | Committed | Released

record charge =
  ch_reservation :: string
  ch_digest :: string
  ch_command :: bool
  ch_state :: charge_state

text \<open>\<open>HarnessCounterBudget\<close>; its owner's counters, limits, signal and clock are the run's own.\<close>

record budget =
  bg_run_id :: string
  bg_deadline :: int
  bg_charges :: "(string \<times> charge) list"
  bg_failed :: bool
  bg_last_now :: int

record tool_evidence =
  te_tool_ref :: jtext
  te_call_id :: string
  te_duration :: int
  te_command :: bool
  te_metadata :: "tool_metadata option"

record active_call =
  ac_id :: string
  ac_descriptor :: tool_descriptor
  ac_evidence :: "tool_evidence option"
  ac_violation :: "thrown option"

text \<open>The normalizer of the last offer is kept by its handle.\<close>

record catalog_runtime =
  ct_normalizer :: "nat option"
  ct_budget :: budget
  ct_active :: "active_call option"

subsection \<open>What the catalog port returns\<close>

datatype tool_status =
  StCompleted | StDenied | StInvalid | StBusy | StCancelled | StTimeout | StFailed

datatype disposition =
  DpCommitted | DpReleased | DpNotReserved | DpCommitUncertain | DpReleaseUncertain

record tool_receipt =
  rc_invocation :: string
  rc_reservation :: "string option"
  rc_settlement :: string
  rc_disposition :: disposition
  rc_effect_started :: bool
  rc_status :: tool_status

record result_envelope =
  re_invocation :: string
  re_status :: tool_status
  re_reason :: string
  re_effect_started :: bool
  re_data :: jtext
  re_duration :: int

datatype dispatch_outcome = Replayed tool_receipt | Settled result_envelope tool_receipt

text \<open>The context a caller of the budget port names.\<close>

record budget_context =
  bc_run_id :: string
  bc_aborted :: bool

datatype async_event = DeadlineFires | CancelRequested "string option"

text \<open>
  What the port does between being called and answering: calls of the budget port, evidence it
  reports, other code that runs while it awaits.
\<close>

datatype port_action =
    PAvailable tool_descriptor budget_context
  | PReserve tool_descriptor budget_context string
  | PCheck string budget_context
  | PCommit string
  | PRelease string
  | PObserve tool_evidence
  | PAsync async_event

subsection \<open>Ports\<close>

record gateway_request =
  gq_model :: string
  gq_scope :: string
  gq_messages :: "chat_message list"
  gq_catalog :: "nat option"

text \<open>\<open>messagesEvicted\<close> of an untrusted port: an integer, or some other number.\<close>

datatype evicted_report = EvictedCount int | EvictedOther

record compaction_result =
  cr_messages :: "chat_message list"
  cr_evicted :: "evicted_report option"

record harness_env = emitter_env +
  model_port :: "nat \<Rightarrow> gateway_request \<Rightarrow> thrown + model_response"
  async_at :: "nat \<Rightarrow> async_event list"
  shaper_port :: "(nat \<Rightarrow> tool_result \<Rightarrow> tool_call \<Rightarrow> thrown + observation option) option"
  compaction_port :: "(nat \<Rightarrow> chat_message list \<Rightarrow> int \<Rightarrow> thrown + compaction_result option) option"
  catalog_offer :: "nat \<Rightarrow> thrown + nat"
  catalog_tools :: "nat \<Rightarrow> int \<Rightarrow> thrown + unit"
  catalog_lookup :: "nat \<Rightarrow> jtext \<Rightarrow> tool_descriptor option"
  catalog_normalize :: "nat \<Rightarrow> tool_invocation \<Rightarrow> int \<Rightarrow> thrown + tool_invocation"
  catalog_bind_alias :: "nat \<Rightarrow> string \<Rightarrow> jtext \<Rightarrow> int \<Rightarrow> thrown + tool_invocation"
  capture_call :: "tool_call \<Rightarrow> thrown + tool_call"
  capture_calls :: "tool_call list \<Rightarrow> thrown + tool_call list"
  catalog_execute :: "nat \<Rightarrow> string \<Rightarrow> tool_invocation \<Rightarrow> port_action list \<times> (thrown + dispatch_outcome)"
  verify_descriptor :: "tool_descriptor \<Rightarrow> thrown + tool_descriptor"
  validate_envelope :: "result_envelope \<Rightarrow> tool_descriptor \<Rightarrow> string \<Rightarrow> thrown + result_envelope"

subsection \<open>Run context\<close>

record run_ctx =
  reasoning_scope :: string
  model_id :: string
  task_type :: task_type
  plan :: task_plan
  limits :: harness_limits
  started_at :: int
  counters :: run_counters
  emitter :: emitter
  catalog :: "catalog_runtime option"
  aborted :: bool
  shaped_observations :: "observation list"
  compacted_messages :: "(string \<times> chat_message) list"
  messages :: "chat_message list"
  last_response :: "model_response option"
  patch_diff :: "string option"
  report :: "string option"
  failure :: "harness_failure option"
  cancel_reason :: "string option"
  cancelled_at :: "harness_state option"
  awaits :: nat

record state_step =
  step_to :: harness_state
  step_reason :: string

definition to_step :: "harness_state \<Rightarrow> string \<Rightarrow> state_step" where
  "to_step s r = \<lparr> step_to = s, step_reason = r \<rparr>"

lemma to_step_simps [simp]: "step_to (to_step s r) = s" "step_reason (to_step s r) = r"
  by (simp_all add: to_step_def)

definition new_counters :: run_counters where
  "new_counters = \<lparr> iterations = 0, modelCalls = 0, toolCalls = 0, commandExecutions = 0,
     failureAttempts = 0, browserNavigations = 0 \<rparr>"

text \<open>UTF-8 length of the serialised message array.\<close>

definition context_bytes :: "chat_message list \<Rightarrow> int" where
  "context_bytes ms = int (length (stringify (JArr (map message_json ms))))"

lemma context_bytes_nonneg [simp]: "0 \<le> context_bytes ms"
  by (simp add: context_bytes_def)

text \<open>Emitting and reading the clock, which the emitter shares with the loop.\<close>

definition ctx_emit :: "'a emitter_env_scheme \<Rightarrow> event_body \<Rightarrow> run_ctx \<Rightarrow> run_ctx" where
  "ctx_emit env b ctx = ctx\<lparr> emitter := emit env b (emitter ctx) \<rparr>"

definition ctx_now :: "'a emitter_env_scheme \<Rightarrow> run_ctx \<Rightarrow> int" where
  "ctx_now env ctx = clock_at env (em_clock_reads (emitter ctx))"

definition ctx_tick :: "run_ctx \<Rightarrow> run_ctx" where
  "ctx_tick ctx = ctx\<lparr> emitter := (emitter ctx)\<lparr> em_clock_reads := em_clock_reads (emitter ctx) + 1 \<rparr> \<rparr>"

definition set_failure :: "harness_code \<Rightarrow> string \<Rightarrow> run_ctx \<Rightarrow> run_ctx" where
  "set_failure c m ctx = ctx\<lparr> failure := Some (to_failure c m) \<rparr>"

text \<open>\<open>ctx.failure ??= ...\<close>: the slot is only claimed while unclaimed.\<close>

definition claim_failure :: "harness_code \<Rightarrow> string \<Rightarrow> run_ctx \<Rightarrow> run_ctx" where
  "claim_failure c m ctx = (case failure ctx of None \<Rightarrow> set_failure c m ctx | Some f \<Rightarrow> ctx)"

subsection \<open>Code that runs during an await (\<open>session.ts\<close>)\<close>

text \<open>
  The wall-time deadline callback and \<open>cancel()\<close>, while the run has not settled. Both abort the
  run's signal; an abort signal never resets.
\<close>

definition deadline_fires :: "run_ctx \<Rightarrow> run_ctx" where
  "deadline_fires ctx =
     (if aborted ctx then ctx
      else (claim_failure LimitWallTime ''wall-time budget exhausted'' ctx)
        \<lparr> cancel_reason := Some ''maxWallTimeMs exceeded'', aborted := True \<rparr>)"

definition cancel_run :: "string option \<Rightarrow> run_ctx \<Rightarrow> run_ctx" where
  "cancel_run reason ctx = ctx\<lparr> cancel_reason := reason, aborted := True \<rparr>"

fun async_step :: "async_event \<Rightarrow> run_ctx \<Rightarrow> run_ctx" where
  "async_step DeadlineFires ctx = deadline_fires ctx"
| "async_step (CancelRequested r) ctx = cancel_run r ctx"

definition await_point :: "'a harness_env_scheme \<Rightarrow> run_ctx \<Rightarrow> run_ctx" where
  "await_point env ctx = (fold async_step (async_at env (awaits ctx)) ctx)\<lparr> awaits := awaits ctx + 1 \<rparr>"

subsection \<open>Frames\<close>

text \<open>
  The fields the bounds and the route of a run rest on: code that runs during an await changes
  none of them.
\<close>

definition same_core :: "run_ctx \<Rightarrow> run_ctx \<Rightarrow> bool" where
  "same_core a b \<longleftrightarrow>
     plan b = plan a \<and> limits b = limits a \<and> started_at b = started_at a \<and>
     counters b = counters a \<and> messages b = messages a \<and> last_response b = last_response a \<and>
     emitter b = emitter a \<and> patch_diff b = patch_diff a \<and> report b = report a \<and>
     catalog b = catalog a \<and> compacted_messages b = compacted_messages a"

lemma same_core_refl [simp]: "same_core a a"
  by (simp add: same_core_def)

lemma same_core_trans: "same_core a b \<Longrightarrow> same_core b c \<Longrightarrow> same_core a c"
  by (simp add: same_core_def)

lemma same_core_async: "same_core ctx (async_step e ctx)"
  by (cases e) (auto simp: same_core_def deadline_fires_def cancel_run_def claim_failure_def
      set_failure_def split: option.splits)

lemma same_core_fold_async: "same_core ctx (fold async_step es ctx)"
proof (induction es arbitrary: ctx)
  case (Cons e es)
  show ?case
    using same_core_trans [OF same_core_async Cons.IH [of "async_step e ctx"]] by simp
qed simp

lemma same_core_awaits: "same_core a (b\<lparr> awaits := n \<rparr>) = same_core a b"
  by (simp add: same_core_def)

lemma same_core_await: "same_core ctx (await_point env ctx)"
  by (simp add: await_point_def same_core_awaits same_core_fold_async)

lemmas await_frame [simp] = same_core_await [unfolded same_core_def, THEN conjunct1]
  same_core_await [unfolded same_core_def, THEN conjunct2, THEN conjunct1]
  same_core_await [unfolded same_core_def, THEN conjunct2, THEN conjunct2, THEN conjunct1]
  same_core_await [unfolded same_core_def, THEN conjunct2, THEN conjunct2, THEN conjunct2, THEN conjunct1]
  same_core_await [unfolded same_core_def, THEN conjunct2, THEN conjunct2, THEN conjunct2, THEN conjunct2, THEN conjunct1]

lemma emitter_await [simp]: "emitter (await_point env ctx) = emitter ctx"
  and last_response_await [simp]: "last_response (await_point env ctx) = last_response ctx"
  and patch_diff_await [simp]: "patch_diff (await_point env ctx) = patch_diff ctx"
  and catalog_await [simp]: "catalog (await_point env ctx) = catalog ctx"
  and report_await [simp]: "report (await_point env ctx) = report ctx"
  and compacted_await [simp]: "compacted_messages (await_point env ctx) = compacted_messages ctx"
  using same_core_await [of ctx env] by (simp_all add: same_core_def)

lemma aborted_async: "aborted ctx \<Longrightarrow> aborted (async_step e ctx)"
  by (cases e) (auto simp: deadline_fires_def cancel_run_def)

lemma aborted_await: "aborted ctx \<Longrightarrow> aborted (await_point env ctx)"
proof -
  have "aborted c \<Longrightarrow> aborted (fold async_step es c)" for es c
    by (induction es arbitrary: c) (auto simp: aborted_async)
  then show "aborted ctx \<Longrightarrow> ?thesis" by (simp add: await_point_def)
qed

lemma ctx_emit_simps [simp]:
  "plan (ctx_emit env b ctx) = plan ctx" "limits (ctx_emit env b ctx) = limits ctx"
  "started_at (ctx_emit env b ctx) = started_at ctx" "counters (ctx_emit env b ctx) = counters ctx"
  "messages (ctx_emit env b ctx) = messages ctx" "last_response (ctx_emit env b ctx) = last_response ctx"
  "patch_diff (ctx_emit env b ctx) = patch_diff ctx" "report (ctx_emit env b ctx) = report ctx"
  "failure (ctx_emit env b ctx) = failure ctx" "aborted (ctx_emit env b ctx) = aborted ctx"
  "catalog (ctx_emit env b ctx) = catalog ctx" "awaits (ctx_emit env b ctx) = awaits ctx"
  "compacted_messages (ctx_emit env b ctx) = compacted_messages ctx"
  "cancel_reason (ctx_emit env b ctx) = cancel_reason ctx"
  "cancelled_at (ctx_emit env b ctx) = cancelled_at ctx"
  "emitter (ctx_emit env b ctx) = emit env b (emitter ctx)"
  "model_id (ctx_emit env b ctx) = model_id ctx" "task_type (ctx_emit env b ctx) = task_type ctx"
  by (simp_all add: ctx_emit_def)

lemma ctx_tick_simps [simp]:
  "plan (ctx_tick ctx) = plan ctx" "limits (ctx_tick ctx) = limits ctx"
  "started_at (ctx_tick ctx) = started_at ctx" "counters (ctx_tick ctx) = counters ctx"
  "messages (ctx_tick ctx) = messages ctx" "last_response (ctx_tick ctx) = last_response ctx"
  "patch_diff (ctx_tick ctx) = patch_diff ctx" "report (ctx_tick ctx) = report ctx"
  "failure (ctx_tick ctx) = failure ctx" "aborted (ctx_tick ctx) = aborted ctx"
  "catalog (ctx_tick ctx) = catalog ctx" "awaits (ctx_tick ctx) = awaits ctx"
  "compacted_messages (ctx_tick ctx) = compacted_messages ctx"
  "cancelled_at (ctx_tick ctx) = cancelled_at ctx"
  by (simp_all add: ctx_tick_def)

lemma set_failure_simps [simp]:
  "failure (set_failure c m ctx) = Some (to_failure c m)"
  "plan (set_failure c m ctx) = plan ctx" "limits (set_failure c m ctx) = limits ctx"
  "started_at (set_failure c m ctx) = started_at ctx" "counters (set_failure c m ctx) = counters ctx"
  "messages (set_failure c m ctx) = messages ctx" "last_response (set_failure c m ctx) = last_response ctx"
  "patch_diff (set_failure c m ctx) = patch_diff ctx" "report (set_failure c m ctx) = report ctx"
  "aborted (set_failure c m ctx) = aborted ctx" "catalog (set_failure c m ctx) = catalog ctx"
  "awaits (set_failure c m ctx) = awaits ctx" "emitter (set_failure c m ctx) = emitter ctx"
  "compacted_messages (set_failure c m ctx) = compacted_messages ctx"
  by (simp_all add: set_failure_def)

lemma claim_failure_simps [simp]:
  "plan (claim_failure c m ctx) = plan ctx" "limits (claim_failure c m ctx) = limits ctx"
  "started_at (claim_failure c m ctx) = started_at ctx" "counters (claim_failure c m ctx) = counters ctx"
  "messages (claim_failure c m ctx) = messages ctx" "last_response (claim_failure c m ctx) = last_response ctx"
  "patch_diff (claim_failure c m ctx) = patch_diff ctx" "report (claim_failure c m ctx) = report ctx"
  "aborted (claim_failure c m ctx) = aborted ctx" "catalog (claim_failure c m ctx) = catalog ctx"
  "awaits (claim_failure c m ctx) = awaits ctx" "emitter (claim_failure c m ctx) = emitter ctx"
  "failure (claim_failure c m ctx) \<noteq> None"
  by (auto simp: claim_failure_def split: option.splits)

text \<open>The run's record is unaffected by reading the clock.\<close>

lemma memory_ok_clock [simp]:
  "memory_ok m (em\<lparr> em_clock_reads := n \<rparr>) = memory_ok m em"
  "run_record m (em\<lparr> em_clock_reads := n \<rparr>) = run_record m em"
  by (simp_all add: memory_ok_def emitter_ok_def collected_def run_record_def record_of_def)

definition log_ok :: "nat \<Rightarrow> run_ctx \<Rightarrow> bool" where
  "log_ok m ctx \<longleftrightarrow> memory_ok m (emitter ctx)"

definition run_log :: "nat \<Rightarrow> run_ctx \<Rightarrow> event_body list" where
  "run_log m ctx = run_record m (emitter ctx)"

lemma log_ok_emit [simp]: "log_ok m ctx \<Longrightarrow> log_ok m (ctx_emit env b ctx)"
  by (simp add: log_ok_def memory_ok_emit)

lemma run_log_emit [simp]:
  "log_ok m ctx \<Longrightarrow> run_log m (ctx_emit env b ctx) = run_log m ctx @ (if is_notice b then [] else [b])"
  by (simp add: log_ok_def run_log_def run_record_emit)

lemma log_tick [simp]: "log_ok m (ctx_tick ctx) = log_ok m ctx" "run_log m (ctx_tick ctx) = run_log m ctx"
  by (simp_all add: log_ok_def run_log_def ctx_tick_def)

lemma log_await [simp]:
  "log_ok m (await_point env ctx) = log_ok m ctx" "run_log m (await_point env ctx) = run_log m ctx"
  by (simp_all add: log_ok_def run_log_def)

interpretation ctx_log: event_record "log_ok m" "ctx_emit env" "run_log m"
  for m and env :: "'a emitter_env_scheme"
  by unfold_locales simp_all

end
