(* ===== verification/Catalog_Budget.thy ===== *)
theory Catalog_Budget
  imports Harness_Context
begin

text \<open>
  Run accounting (\<open>packages/keiko-harness/src/catalog-budget.ts\<close>) and the receipt contract it
  accepts (\<open>governed-tool-lifecycle.ts\<close>). The budget charges the run's own counters: a
  reservation adds to them, a release before any effect refunds it, and a settlement happens once.
  Operations take and return the budget together with the run, whose counters, signal and clock
  they share.
\<close>

definition is_safe_integer :: "int \<Rightarrow> bool" where
  "is_safe_integer n \<longleftrightarrow> - 9007199254740991 \<le> n \<and> n \<le> 9007199254740991"

definition descriptor_runs_command :: "'a harness_env_scheme \<Rightarrow> tool_descriptor \<Rightarrow> thrown + bool" where
  "descriptor_runs_command env d =
     rbind (verify_descriptor env d) (\<lambda>v. Inr (''command-execution'' \<in> set (d_effects v)))"

definition clock_live :: "'a harness_env_scheme \<Rightarrow> budget \<Rightarrow> run_ctx \<Rightarrow> bool \<times> budget \<times> run_ctx" where
  "clock_live env bg ctx =
     (if bg_failed bg then (False, bg, ctx)
      else
        let now = ctx_now env ctx
        in if \<not> is_safe_integer now \<or> now < bg_last_now bg \<or> \<not> is_safe_integer (bg_deadline bg)
              \<or> now \<ge> bg_deadline bg
           then (False, bg\<lparr> bg_failed := True \<rparr>, ctx_tick ctx)
           else (True, bg\<lparr> bg_last_now := now \<rparr>, ctx_tick ctx))"

definition new_budget :: "'a harness_env_scheme \<Rightarrow> string \<Rightarrow> run_ctx \<Rightarrow> budget \<times> run_ctx" where
  "new_budget env run ctx =
     snd (clock_live env \<lparr> bg_run_id = run, bg_deadline = started_at ctx + maxWallTimeMs (limits ctx),
       bg_charges = [], bg_failed = False, bg_last_now = 0 \<rparr> ctx)"

definition budget_live ::
  "'a harness_env_scheme \<Rightarrow> budget_context \<Rightarrow> budget \<Rightarrow> run_ctx \<Rightarrow> bool \<times> budget \<times> run_ctx" where
  "budget_live env bc bg ctx =
     (let r = clock_live env bg ctx
      in (fst r \<and> \<not> aborted ctx \<and> \<not> bc_aborted bc \<and> bc_run_id bc = bg_run_id bg, snd r))"

definition budget_available ::
  "'a harness_env_scheme \<Rightarrow> tool_descriptor \<Rightarrow> budget_context \<Rightarrow> budget \<Rightarrow> run_ctx
     \<Rightarrow> (thrown + bool) \<times> budget \<times> run_ctx" where
  "budget_available env d bc bg ctx =
     (let r = budget_live env bc bg ctx
      in (if fst r \<and> toolCalls (counters ctx) < maxToolCalls (limits ctx)
          then rbind (descriptor_runs_command env d) (\<lambda>c.
            Inr (\<not> c \<or> commandExecutions (counters ctx) < maxCommandExecutions (limits ctx)))
          else Inr False, snd r))"

definition charge_counters :: "bool \<Rightarrow> run_counters \<Rightarrow> run_counters" where
  "charge_counters command c =
     (let c1 = c\<lparr> toolCalls := toolCalls c + 1 \<rparr>
      in if command then c1\<lparr> commandExecutions := commandExecutions c1 + 1 \<rparr> else c1)"

definition refund_counters :: "bool \<Rightarrow> run_counters \<Rightarrow> run_counters" where
  "refund_counters command c =
     (let c1 = c\<lparr> toolCalls := toolCalls c - 1 \<rparr>
      in if command then c1\<lparr> commandExecutions := commandExecutions c1 - 1 \<rparr> else c1)"

text \<open>\<open>reserve\<close>: \<open>Inr None\<close> is the refusal \<open>undefined\<close>, \<open>Inr (Some i)\<close> the reservation.\<close>

definition budget_reserve ::
  "'a harness_env_scheme \<Rightarrow> tool_descriptor \<Rightarrow> budget_context \<Rightarrow> string \<Rightarrow> budget \<Rightarrow> run_ctx
     \<Rightarrow> (thrown + string option) \<times> budget \<times> run_ctx" where
  "budget_reserve env d bc i bg ctx =
     (if \<not> matches_id ''_-'' i then (Inr None, bg, ctx)
      else case budget_available env d bc bg ctx of
        (Inl e, bg1, ctx1) \<Rightarrow> (Inl e, bg1, ctx1)
      | (Inr ok, bg1, ctx1) \<Rightarrow>
          if \<not> ok \<or> map_of (bg_charges bg1) i \<noteq> None
             \<or> int (length (bg_charges bg1)) \<ge> maxToolCalls (limits ctx1)
          then (Inr None, bg1, ctx1)
          else case verify_descriptor env d of
            Inl e \<Rightarrow> (Inl e, bg1, ctx1)
          | Inr v \<Rightarrow>
              (case descriptor_runs_command env v of
                Inl e \<Rightarrow> (Inl e, bg1, ctx1)
              | Inr command \<Rightarrow>
                  (Inr (Some i),
                   bg1\<lparr> bg_charges := bg_charges bg1 @
                     [(i, \<lparr> ch_reservation = i, ch_digest = d_digest v, ch_command = command,
                            ch_state = Reserved \<rparr>)] \<rparr>,
                   ctx1\<lparr> counters := charge_counters command (counters ctx1) \<rparr>)))"

definition budget_check ::
  "'a harness_env_scheme \<Rightarrow> string \<Rightarrow> budget_context \<Rightarrow> budget \<Rightarrow> run_ctx \<Rightarrow> bool \<times> budget \<times> run_ctx" where
  "budget_check env i bc bg ctx =
     (let r = budget_live env bc bg ctx
      in (fst r \<and>
          (case map_of (bg_charges bg) i of
             None \<Rightarrow> False
           | Some ch \<Rightarrow> ch_state ch = Reserved \<and>
               toolCalls (counters ctx) \<le> maxToolCalls (limits ctx) \<and>
               (\<not> ch_command ch \<or> commandExecutions (counters ctx) \<le> maxCommandExecutions (limits ctx))),
          snd r))"

definition set_charge_state :: "string \<Rightarrow> charge_state \<Rightarrow> budget \<Rightarrow> budget" where
  "set_charge_state i st bg = bg\<lparr> bg_charges :=
     map (\<lambda>kc. if fst kc = i then (fst kc, (snd kc)\<lparr> ch_state := st \<rparr>) else kc) (bg_charges bg) \<rparr>"

text \<open>\<open>settle\<close>, the body of \<open>commit\<close> and \<open>release\<close>.\<close>

definition budget_settle ::
  "string \<Rightarrow> charge_state \<Rightarrow> budget \<Rightarrow> run_ctx \<Rightarrow> (thrown + unit) \<times> budget \<times> run_ctx" where
  "budget_settle i st bg ctx =
     (case map_of (bg_charges bg) i of
        Some ch \<Rightarrow>
          if ch_state ch \<noteq> Reserved
          then (Inl (ErrorThrown ''Invalid harness budget settlement''), bg, ctx)
          else (Inr (), set_charge_state i st bg,
            if st = Released
            then ctx\<lparr> counters := refund_counters (ch_command ch) (counters ctx) \<rparr> else ctx)
      | None \<Rightarrow> (Inl (ErrorThrown ''Invalid harness budget settlement''), bg, ctx))"

subsection \<open>Receipts\<close>

text \<open>\<open>captureToolInvocationReceipt\<close>: \<open>None\<close> is the \<open>TypeError\<close> it throws.\<close>

definition disposition_commits :: "disposition \<Rightarrow> bool" where
  "disposition_commits d \<longleftrightarrow> d = DpCommitted \<or> d = DpCommitUncertain"

definition disposition_uncertain :: "disposition \<Rightarrow> bool" where
  "disposition_uncertain d \<longleftrightarrow> d = DpCommitUncertain \<or> d = DpReleaseUncertain"

definition receipt_accounting_ok :: "tool_receipt \<Rightarrow> bool" where
  "receipt_accounting_ok r \<longleftrightarrow>
     (if rc_disposition r = DpNotReserved then rc_reservation r = None \<and> \<not> rc_effect_started r
      else (case rc_reservation r of None \<Rightarrow> False | Some i \<Rightarrow> matches_id ''_.-'' i) \<and>
        rc_effect_started r = disposition_commits (rc_disposition r)) \<and>
     (disposition_uncertain (rc_disposition r) \<longrightarrow> rc_status r = StFailed)"

definition capture_receipt :: "tool_receipt \<Rightarrow> tool_receipt option" where
  "capture_receipt r =
     (if matches_id ''_.-'' (rc_invocation r) \<and> matches_id ''_.-'' (rc_settlement r) \<and>
         receipt_accounting_ok r
      then Some r else None)"

definition invalid_receipt :: thrown where
  "invalid_receipt = ErrorThrown ''Invalid tool invocation receipt''"

definition charge_matches :: "charge_state \<Rightarrow> disposition \<Rightarrow> bool" where
  "charge_matches st d \<longleftrightarrow>
     st = Committed \<and> d = DpCommitted \<or> st = Released \<and> d = DpReleased"

definition settlement_mismatch :: thrown where
  "settlement_mismatch = ErrorThrown ''Uncertain or mismatched harness budget settlement''"

text \<open>\<open>acceptReceipt\<close>: a failure to reconcile also fails the budget for the rest of the run.\<close>

definition reconcile_receipt ::
  "'a harness_env_scheme \<Rightarrow> tool_receipt \<Rightarrow> tool_descriptor \<Rightarrow> budget \<Rightarrow> thrown + budget" where
  "reconcile_receipt env input d bg =
     (case capture_receipt input of
        None \<Rightarrow> Inl invalid_receipt
      | Some r \<Rightarrow>
          if rc_disposition r = DpNotReserved then
            (if rc_status r = StCompleted \<or> map_of (bg_charges bg) (rc_invocation r) \<noteq> None
             then Inl (ErrorThrown ''Unacknowledged harness budget reservation'')
             else Inr bg)
          else (case map_of (bg_charges bg) (rc_invocation r) of
              None \<Rightarrow> Inl settlement_mismatch
            | Some ch \<Rightarrow>
                if Some (ch_reservation ch) \<noteq> rc_reservation r then Inl settlement_mismatch
                else (case verify_descriptor env d of
                    Inl e \<Rightarrow> Inl e
                  | Inr v \<Rightarrow>
                      if ch_digest ch \<noteq> d_digest v \<or> \<not> charge_matches (ch_state ch) (rc_disposition r)
                      then Inl settlement_mismatch
                      else Inr (bg\<lparr> bg_charges :=
                        filter (\<lambda>kc. fst kc \<noteq> rc_invocation r) (bg_charges bg) \<rparr>))))"

definition accept_receipt ::
  "'a harness_env_scheme \<Rightarrow> tool_receipt \<Rightarrow> tool_descriptor \<Rightarrow> budget \<Rightarrow> (thrown + unit) \<times> budget" where
  "accept_receipt env r d bg =
     (case reconcile_receipt env r d bg of
        Inl e \<Rightarrow> (Inl e, bg\<lparr> bg_failed := True \<rparr>)
      | Inr bg' \<Rightarrow> (Inr (), bg'))"

subsection \<open>The operations of the port\<close>

text \<open>
  The reservation port a catalog is handed (\<open>HarnessCounterBudget.port\<close>), as one operation per
  call; what a call answers is the first component of the operation it names.
\<close>

fun budget_call :: "'a harness_env_scheme \<Rightarrow> port_action \<Rightarrow> budget \<times> run_ctx \<Rightarrow> budget \<times> run_ctx" where
  "budget_call env (PAvailable d bc) s = snd (budget_available env d bc (fst s) (snd s))"
| "budget_call env (PReserve d bc i) s = snd (budget_reserve env d bc i (fst s) (snd s))"
| "budget_call env (PCheck i bc) s = snd (budget_check env i bc (fst s) (snd s))"
| "budget_call env (PCommit i) s = snd (budget_settle i Committed (fst s) (snd s))"
| "budget_call env (PRelease i) s = snd (budget_settle i Released (fst s) (snd s))"
| "budget_call env (PObserve e) s = s"
| "budget_call env (PAsync a) s = (fst s, async_step a (snd s))"

subsection \<open>Accounting invariant\<close>

definition charged :: "bool \<Rightarrow> (string \<times> charge) list \<Rightarrow> nat" where
  "charged command chs = length (filter (\<lambda>kc. ch_state (snd kc) \<noteq> Released \<and>
     (command \<longrightarrow> ch_command (snd kc))) chs)"

text \<open>
  A ledger agrees with the counters when it has one charge per invocation, every charge not
  released is counted, and the counted invocations stay within the limit.
\<close>

definition budget_ok :: "budget \<times> run_ctx \<Rightarrow> bool" where
  "budget_ok s \<longleftrightarrow>
     distinct (map fst (bg_charges (fst s))) \<and>
     int (charged False (bg_charges (fst s))) \<le> toolCalls (counters (snd s)) \<and>
     int (charged True (bg_charges (fst s))) \<le> commandExecutions (counters (snd s)) \<and>
     toolCalls (counters (snd s)) \<le> max 0 (maxToolCalls (limits (snd s)))"

lemma charged_simps [simp]:
  "charged c [] = 0"
  "charged c (kc # chs) =
     (if ch_state (snd kc) \<noteq> Released \<and> (c \<longrightarrow> ch_command (snd kc)) then 1 else 0) + charged c chs"
  "charged c (xs @ ys) = charged c xs + charged c ys"
  by (simp_all add: charged_def)

lemma charged_filter_le: "charged c (filter P chs) \<le> charged c chs"
  by (induction chs) auto

text \<open>Settling one reserved charge.\<close>

definition settle_charge :: "string \<Rightarrow> charge_state \<Rightarrow> (string \<times> charge) list \<Rightarrow> (string \<times> charge) list" where
  "settle_charge i st chs =
     map (\<lambda>kc. if fst kc = i then (fst kc, (snd kc)\<lparr> ch_state := st \<rparr>) else kc) chs"

lemma bg_charges_set_state [simp]:
  "bg_charges (set_charge_state i st bg) = settle_charge i st (bg_charges bg)"
  by (simp add: set_charge_state_def settle_charge_def)

lemma keys_settle_charge [simp]: "map fst (settle_charge i st chs) = map fst chs"
  by (induction chs) (simp_all add: settle_charge_def)

lemma settle_charge_other: "i \<notin> fst ` set chs \<Longrightarrow> settle_charge i st chs = chs"
  unfolding settle_charge_def by (rule map_idI) (metis imageI)

lemma charged_pos:
  assumes "map_of chs i = Some ch" and "ch_state ch = Reserved" and "c \<longrightarrow> ch_command ch"
  shows "0 < charged c chs"
proof -
  have "(i, ch) \<in> set (filter (\<lambda>kc. ch_state (snd kc) \<noteq> Released \<and> (c \<longrightarrow> ch_command (snd kc))) chs)"
    using map_of_SomeD [OF assms(1)] assms(2, 3) by simp
  then show ?thesis unfolding charged_def by (rule length_pos_if_in_set)
qed

lemma charged_settle:
  assumes "distinct (map fst chs)" and "map_of chs i = Some ch" and "ch_state ch = Reserved"
  shows "charged c (settle_charge i st chs) =
    charged c chs - (if st = Released \<and> (c \<longrightarrow> ch_command ch) then 1 else 0)"
  using assms
proof (induction chs)
  case (Cons kc chs)
  show ?case
  proof (cases "fst kc = i")
    case True
    with Cons.prems have ch: "snd kc = ch" and "i \<notin> fst ` set chs" by auto
    then have "settle_charge i st (kc # chs) = (i, ch\<lparr> ch_state := st \<rparr>) # chs"
      using settle_charge_other [of i chs st] True by (simp add: settle_charge_def)
    with ch Cons.prems(3) show ?thesis by simp
  next
    case False
    with Cons have IH: "charged c (settle_charge i st chs) =
        charged c chs - (if st = Released \<and> (c \<longrightarrow> ch_command ch) then 1 else 0)"
      and found: "map_of chs i = Some ch" by (auto split: if_splits)
    have "st = Released \<and> (c \<longrightarrow> ch_command ch) \<Longrightarrow> 0 < charged c chs"
      using charged_pos [OF found] Cons.prems(3) by simp
    then show ?thesis using False IH by (simp add: settle_charge_def)
  qed
qed simp

lemma charge_refund_simps [simp]:
  "toolCalls (charge_counters b c) = toolCalls c + 1"
  "commandExecutions (charge_counters b c) = commandExecutions c + (if b then 1 else 0)"
  "toolCalls (refund_counters b c) = toolCalls c - 1"
  "commandExecutions (refund_counters b c) = commandExecutions c - (if b then 1 else 0)"
  "iterations (charge_counters b c) = iterations c" "iterations (refund_counters b c) = iterations c"
  "modelCalls (charge_counters b c) = modelCalls c" "modelCalls (refund_counters b c) = modelCalls c"
  "failureAttempts (charge_counters b c) = failureAttempts c"
  "failureAttempts (refund_counters b c) = failureAttempts c"
  by (simp_all add: charge_counters_def refund_counters_def Let_def)

text \<open>Reading the clock changes the ledger's clock and failure flag only.\<close>

lemma clock_live_frame [simp]:
  "bg_charges (fst (snd (clock_live env bg ctx))) = bg_charges bg"
  "bg_run_id (fst (snd (clock_live env bg ctx))) = bg_run_id bg"
  "counters (snd (snd (clock_live env bg ctx))) = counters ctx"
  "limits (snd (snd (clock_live env bg ctx))) = limits ctx"
  by (simp_all add: clock_live_def Let_def)

lemma budget_live_frame [simp]: "snd (budget_live env bc bg ctx) = snd (clock_live env bg ctx)"
  by (simp add: budget_live_def Let_def)

lemma budget_available_frame [simp]:
  "snd (budget_available env d bc bg ctx) = snd (clock_live env bg ctx)"
  by (simp add: budget_available_def Let_def)

lemma budget_check_frame [simp]: "snd (budget_check env i bc bg ctx) = snd (clock_live env bg ctx)"
  by (simp add: budget_check_def Let_def)

lemma budget_ok_clock_live: "budget_ok (bg, ctx) \<Longrightarrow> budget_ok (snd (clock_live env bg ctx))"
  by (simp add: budget_ok_def)

lemma budget_ok_async: "budget_ok (bg, ctx) \<Longrightarrow> budget_ok (bg, async_step a ctx)"
  using same_core_async [of ctx a] by (simp add: budget_ok_def same_core_def)

text \<open>What a reservation does: it is refused with the ledger as the clock left it, or it adds one charge.\<close>

lemma budget_reserve_cases:
  obtains (refused) "snd (budget_reserve env d bc i bg ctx) \<in> {(bg, ctx), snd (clock_live env bg ctx)}"
      "\<forall>j. fst (budget_reserve env d bc i bg ctx) \<noteq> Inr (Some j)"
    | (granted) v command where
      "verify_descriptor env d = Inr v" "descriptor_runs_command env v = Inr command"
      "fst (budget_live env bc bg ctx)" "toolCalls (counters ctx) < maxToolCalls (limits ctx)"
      "map_of (bg_charges bg) i = None"
      "budget_reserve env d bc i bg ctx =
         (Inr (Some i),
          (fst (snd (clock_live env bg ctx)))\<lparr> bg_charges := bg_charges bg @
            [(i, \<lparr> ch_reservation = i, ch_digest = d_digest v, ch_command = command,
                   ch_state = Reserved \<rparr>)] \<rparr>,
          (snd (snd (clock_live env bg ctx)))\<lparr> counters := charge_counters command (counters ctx) \<rparr>)"
proof (cases "matches_id ''_-'' i")
  case False
  then show ?thesis by (intro refused) (simp_all add: budget_reserve_def)
next
  case id: True
  obtain r bg1 ctx1 where av: "budget_available env d bc bg ctx = (r, bg1, ctx1)"
    by (metis prod.exhaust)
  then have st: "(bg1, ctx1) = snd (clock_live env bg ctx)"
    by (metis budget_available_frame snd_conv)
  then have fr: "bg_charges bg1 = bg_charges bg" "counters ctx1 = counters ctx" "limits ctx1 = limits ctx"
    by (metis clock_live_frame fst_conv snd_conv)+
  show ?thesis
  proof (cases "r = Inr True \<and> map_of (bg_charges bg) i = None \<and>
      int (length (bg_charges bg)) < maxToolCalls (limits ctx) \<and>
      (\<exists>v command. verify_descriptor env d = Inr v \<and> descriptor_runs_command env v = Inr command)")
    case False
    then show ?thesis
      by (intro refused)
         (auto simp: budget_reserve_def id av fr st [symmetric] split: sum.splits if_splits)
  next
    case True
    then obtain v command where v: "verify_descriptor env d = Inr v"
      "descriptor_runs_command env v = Inr command" by blast
    from True av have "fst (budget_live env bc bg ctx)" "toolCalls (counters ctx) < maxToolCalls (limits ctx)"
      by (auto simp: budget_available_def Let_def split: if_splits)
    moreover have "budget_reserve env d bc i bg ctx =
       (Inr (Some i), bg1\<lparr> bg_charges := bg_charges bg @
            [(i, \<lparr> ch_reservation = i, ch_digest = d_digest v, ch_command = command,
                   ch_state = Reserved \<rparr>)] \<rparr>,
          ctx1\<lparr> counters := charge_counters command (counters ctx) \<rparr>)"
      using True by (simp add: budget_reserve_def id av fr v)
    moreover have "bg1 = fst (snd (clock_live env bg ctx))" "ctx1 = snd (snd (clock_live env bg ctx))"
      using st by (metis fst_conv, metis snd_conv)
    ultimately show ?thesis using True v by (intro granted) simp_all
  qed
qed

lemma budget_ok_reserve: "budget_ok (bg, ctx) \<Longrightarrow> budget_ok (snd (budget_reserve env d bc i bg ctx))"
proof (cases rule: budget_reserve_cases [of env d bc i bg ctx])
  case refused
  assume "budget_ok (bg, ctx)"
  with refused(1) budget_ok_clock_live [of bg ctx env] show ?thesis by auto
next
  case (granted v command)
  assume "budget_ok (bg, ctx)"
  with granted show ?thesis by (auto simp: budget_ok_def map_of_eq_None_iff)
qed

lemma budget_settle_cases:
  obtains (refused) "budget_settle i st bg ctx = (Inl (ErrorThrown ''Invalid harness budget settlement''), bg, ctx)"
      "\<forall>ch. map_of (bg_charges bg) i = Some ch \<longrightarrow> ch_state ch \<noteq> Reserved"
    | (settled) ch where "map_of (bg_charges bg) i = Some ch" "ch_state ch = Reserved"
      "budget_settle i st bg ctx = (Inr (), set_charge_state i st bg,
         if st = Released
         then ctx\<lparr> counters := refund_counters (ch_command ch) (counters ctx) \<rparr> else ctx)"
  by (cases "map_of (bg_charges bg) i") (auto simp: budget_settle_def split: if_splits)

lemma budget_ok_settle:
  assumes "budget_ok (bg, ctx)"
  shows "budget_ok (snd (budget_settle i st bg ctx))"
proof (cases rule: budget_settle_cases [of i st bg ctx])
  case refused
  with assms show ?thesis by simp
next
  case (settled ch)
  note s = charged_settle [of "bg_charges bg" i ch _ st, OF _ settled(1, 2)]
    and p = charged_pos [OF settled(1, 2)]
  from assms have d: "distinct (map fst (bg_charges bg))" by (simp add: budget_ok_def)
  show ?thesis
    using assms p [of False] p [of True] settled(3)
    by (auto simp: budget_ok_def s [OF d] of_nat_diff)
qed

lemma budget_ok_call: "budget_ok s \<Longrightarrow> budget_ok (budget_call env a s)"
  by (cases s; cases a) (simp_all add: budget_ok_clock_live budget_ok_reserve budget_ok_settle budget_ok_async)

interpretation budget_ops: invariant_ops budget_ok "budget_call env"
  for env :: "'a harness_env_scheme"
  by unfold_locales (rule budget_ok_call)

subsection \<open>The command budget\<close>

text \<open>
  \<open>verifyToolDescriptor\<close> of \<open>keiko-tool-catalog\<close> is a parameter; a descriptor it has returned
  passes verification unchanged.
\<close>

definition verify_stable :: "'a harness_env_scheme \<Rightarrow> bool" where
  "verify_stable env \<longleftrightarrow> (\<forall>d v. verify_descriptor env d = Inr v \<longrightarrow> verify_descriptor env v = Inr v)"

text \<open>\<open>k\<close> is an allowance on top of the limit.\<close>

definition commands_ok :: "nat \<Rightarrow> budget \<times> run_ctx \<Rightarrow> bool" where
  "commands_ok k s \<longleftrightarrow>
     commandExecutions (counters (snd s)) \<le> max 0 (maxCommandExecutions (limits (snd s))) + int k"

lemma available_command:
  assumes "verify_stable env" and "fst (budget_available env d bc bg ctx) = Inr True"
    and "verify_descriptor env d = Inr v" and "descriptor_runs_command env v = Inr True"
  shows "commandExecutions (counters ctx) < maxCommandExecutions (limits ctx)"
  using assms
  by (auto simp: budget_available_def Let_def descriptor_runs_command_def verify_stable_def split: if_splits)

lemma granted_available:
  "fst (budget_reserve env d bc i bg ctx) = Inr (Some j) \<Longrightarrow>
     fst (budget_available env d bc bg ctx) = Inr True"
  by (auto simp: budget_reserve_def split: if_splits prod.splits sum.splits)

lemma commands_ok_call:
  assumes "verify_stable env" and "commands_ok k (bg, ctx)"
  shows "commands_ok k (budget_call env a (bg, ctx))"
proof (cases a)
  case (PReserve d bc i)
  show ?thesis
  proof (cases rule: budget_reserve_cases [of env d bc i bg ctx])
    case refused
    with assms PReserve show ?thesis by (auto simp: commands_ok_def)
  next
    case (granted v command)
    with granted_available [of env d bc i bg ctx i] available_command [OF assms(1), of d bc bg ctx v]
      assms(2) PReserve
    show ?thesis by (cases command) (auto simp: commands_ok_def)
  qed
next
  case (PRelease i)
  show ?thesis using assms(2) PRelease
    by (cases rule: budget_settle_cases [of i Released bg ctx]) (auto simp: commands_ok_def)
next
  case (PCommit i)
  show ?thesis using assms(2) PCommit
    by (cases rule: budget_settle_cases [of i Committed bg ctx]) (auto simp: commands_ok_def)
next
  case (PAsync x)
  with assms(2) same_core_async [of ctx x] show ?thesis by (simp add: commands_ok_def same_core_def)
qed (use assms(2) in \<open>simp_all add: commands_ok_def\<close>)

lemma commands_ok_calls:
  "verify_stable env \<Longrightarrow> commands_ok k s \<Longrightarrow> commands_ok k (fold (budget_call env) as s)"
proof (induction as arbitrary: s)
  case (Cons a as)
  have "commands_ok k (budget_call env a s)"
    using commands_ok_call [of env k "fst s" "snd s" a] Cons.prems by simp
  with Cons show ?case by simp
qed simp

lemma new_budget_facts [simp]:
  "bg_charges (fst (new_budget env run ctx)) = []" "counters (snd (new_budget env run ctx)) = counters ctx"
  "limits (snd (new_budget env run ctx)) = limits ctx"
  by (simp_all add: new_budget_def)

subsection \<open>Failure\<close>

lemma failed_clock_live: "bg_failed bg \<Longrightarrow> clock_live env bg ctx = (False, bg, ctx)"
  by (simp add: clock_live_def)

lemma failed_reserve:
  "bg_failed bg \<Longrightarrow> snd (budget_reserve env d bc i bg ctx) = (bg, ctx) \<and>
     fst (budget_reserve env d bc i bg ctx) \<noteq> Inr (Some j)"
  by (cases rule: budget_reserve_cases [of env d bc i bg ctx])
     (auto simp: failed_clock_live budget_live_def)

lemma failed_call: "bg_failed (fst s) \<Longrightarrow> bg_failed (fst (budget_call env a s))"
proof (cases a)
  case (PReserve d bc i)
  assume "bg_failed (fst s)"
  with failed_reserve [of "fst s" env d bc i "snd s"] PReserve show ?thesis by simp
next
  case (PCommit i)
  assume "bg_failed (fst s)"
  with PCommit show ?thesis
    by (cases rule: budget_settle_cases [of i Committed "fst s" "snd s"]) (simp_all add: set_charge_state_def)
next
  case (PRelease i)
  assume "bg_failed (fst s)"
  with PRelease show ?thesis
    by (cases rule: budget_settle_cases [of i Released "fst s" "snd s"]) (simp_all add: set_charge_state_def)
qed (simp_all add: failed_clock_live)

interpretation budget_failure: invariant_ops "\<lambda>s. bg_failed (fst s)" "budget_call env"
  for env :: "'a harness_env_scheme"
  by unfold_locales (rule failed_call)

subsection \<open>Properties of the budget\<close>

text \<open>
  Claim C24. From a new budget on, whatever a catalog calls on its port and whatever else runs
  meanwhile, the run's counters account for the ledger: every charge that has not been released is
  counted, and no more tool calls are counted than the limit allows.
\<close>

theorem budget_accounts_for_every_charge:
  assumes "toolCalls (counters ctx) = 0" and "commandExecutions (counters ctx) = 0"
  shows "let s = fold (budget_call env) as (new_budget env run ctx) in
    int (charged False (bg_charges (fst s))) \<le> toolCalls (counters (snd s)) \<and>
    int (charged True (bg_charges (fst s))) \<le> commandExecutions (counters (snd s)) \<and>
    toolCalls (counters (snd s)) \<le> max 0 (maxToolCalls (limits (snd s)))"
proof -
  have "budget_ok (new_budget env run ctx)" using assms by (simp add: budget_ok_def)
  then have "budget_ok (fold (budget_call env) as (new_budget env run ctx))"
    by (rule budget_ops.ops_inv)
  then show ?thesis by (simp add: budget_ok_def Let_def)
qed

text \<open>
  When descriptor verification is stable, the port never lets the run exceed its command
  budget.
\<close>

theorem commands_stay_within_budget:
  assumes "verify_stable env" and "commandExecutions (counters ctx) = 0"
  shows "commandExecutions (counters (snd (fold (budget_call env) as (new_budget env run ctx))))
    \<le> max 0 (maxCommandExecutions (limits (snd (fold (budget_call env) as (new_budget env run ctx)))))"
  using commands_ok_calls [OF assms(1), of 0 "new_budget env run ctx" as] assms(2)
  by (simp add: commands_ok_def)

text \<open>
  A granted reservation charges one tool call, and one command execution exactly when the
  verified descriptor declares command execution; releasing it gives back exactly what it charged,
  and settling it a second time throws without changing anything.
\<close>

theorem release_refunds_reservation:
  assumes "budget_reserve env d bc i bg ctx = (Inr (Some i), bg1, ctx1)"
    and "distinct (map fst (bg_charges bg))"
  shows "(\<exists>v command. verify_descriptor env d = Inr v \<and> descriptor_runs_command env v = Inr command \<and>
      counters ctx1 = charge_counters command (counters ctx)) \<and>
    (\<exists>bg2 ctx2. budget_settle i Released bg1 ctx1 = (Inr (), bg2, ctx2) \<and>
      counters ctx2 = counters ctx \<and>
      (\<forall>st. budget_settle i st bg2 ctx2 =
        (Inl (ErrorThrown ''Invalid harness budget settlement''), bg2, ctx2)))"
proof (cases rule: budget_reserve_cases [of env d bc i bg ctx])
  case refused
  with assms show ?thesis by simp
next
  case (granted v command)
  let ?ch = "\<lparr> ch_reservation = i, ch_digest = d_digest v, ch_command = command, ch_state = Reserved \<rparr>"
  from granted assms(1) have ctx1: "counters ctx1 = charge_counters command (counters ctx)"
    and chs: "bg_charges bg1 = bg_charges bg @ [(i, ?ch)]" by auto
  have new: "i \<notin> fst ` set (bg_charges bg)" using granted(5) by (simp add: map_of_eq_None_iff)
  have found: "map_of (bg_charges bg1) i = Some ?ch"
    unfolding chs using map_of_snoc [OF new] by (simp del: map_of_append)
  define bg2 where "bg2 = set_charge_state i Released bg1"
  define ctx2 where "ctx2 = ctx1\<lparr> counters := refund_counters command (counters ctx1) \<rparr>"
  have settle: "budget_settle i Released bg1 ctx1 = (Inr (), bg2, ctx2)"
    using found by (simp add: budget_settle_def bg2_def ctx2_def)
  have "bg_charges bg2 = bg_charges bg @ [(i, ?ch\<lparr> ch_state := Released \<rparr>)]"
    using settle_charge_other [OF new] by (simp add: bg2_def chs settle_charge_def)
  then have "map_of (bg_charges bg2) i = Some (?ch\<lparr> ch_state := Released \<rparr>)"
    using map_of_snoc [OF new] by (simp del: map_of_append)
  then have "budget_settle i st bg2 ctx2 =
      (Inl (ErrorThrown ''Invalid harness budget settlement''), bg2, ctx2)" for st
    by (simp add: budget_settle_def)
  moreover have "counters ctx2 = counters ctx"
    by (simp add: ctx2_def ctx1 charge_counters_def refund_counters_def Let_def)
  ultimately show ?thesis using settle granted(1, 2) ctx1 by blast
qed

text \<open>
  A budget that has failed - its clock went backwards or past the deadline, or a receipt
  did not reconcile - stays failed through any later calls and grants no reservation.
\<close>

theorem failed_budget_grants_nothing:
  assumes "bg_failed (fst s)"
  shows "let t = fold (budget_call env) as s in
    bg_failed (fst t) \<and> fst (budget_reserve env d bc i (fst t) (snd t)) \<noteq> Inr (Some j)"
  using budget_failure.ops_inv [of s env as, OF assms]
    failed_reserve [of "fst (fold (budget_call env) as s)" env d bc i "snd (fold (budget_call env) as s)" j]
  by (simp add: Let_def)

subsection \<open>Concrete runs\<close>

text \<open>
  A clock that advances one millisecond per read, well-behaved ports, a run with the default
  limits: the instances at which the properties are applied.
\<close>

definition ok_response :: "model_response" where
  "ok_response = \<lparr> r_content = ''done'', r_finish = Stop, r_tool_calls = [],
     r_usage = \<lparr> u_request_id = ''q'', u_prompt_tokens = 1, u_completion_tokens = 1, u_latency_ms = 1 \<rparr> \<rparr>"

definition calm_env :: harness_env where
  "calm_env = \<lparr> clock_at = int, sink_throws = (\<lambda>i e. False), redact_text = (\<lambda>s. s),
     model_port = (\<lambda>n q. Inr ok_response), async_at = (\<lambda>n. []), shaper_port = None,
     compaction_port = None, catalog_offer = (\<lambda>n. Inr 0), catalog_tools = (\<lambda>n t. Inr ()), catalog_lookup = (\<lambda>n j. None),
     catalog_normalize = (\<lambda>n i t. Inr i), catalog_bind_alias = (\<lambda>n s j t. Inl ValueThrown),
     capture_call = Inr, capture_calls = Inr, catalog_execute = (\<lambda>n i v. ([], Inl ValueThrown)), verify_descriptor = Inr,
     validate_envelope = (\<lambda>e d s. Inr e) \<rparr>"

definition calm_ctx :: run_ctx where
  "calm_ctx = \<lparr> reasoning_scope = ''harness:r'', model_id = ''m'', task_type = Verify,
     plan = resolve_task_plan (TaskVerify \<lparr> vf_root = ''/w'', vf_targets = None \<rparr>),
     limits = default_limits, started_at = 0, counters = new_counters,
     emitter = new_emitter [MemorySink 0, ExternalSink 1 False] ''r'' ''f'' 1, catalog = None,
     aborted = False, shaped_observations = [], compacted_messages = [], messages = [],
     last_response = None, patch_diff = None, report = None, failure = None, cancel_reason = None,
     cancelled_at = None, awaits = 0 \<rparr>"

definition shell_tool :: tool_descriptor where
  "shell_tool = \<lparr> d_digest = ''d'', d_effects = [''command-execution''] \<rparr>"

definition calm_bc :: budget_context where
  "calm_bc = \<lparr> bc_run_id = ''r'', bc_aborted = False \<rparr>"

lemmas calm_defs = calm_env_def calm_ctx_def calm_bc_def shell_tool_def new_counters_def
  default_limits_def new_emitter_def

theorem budget_accounts_for_every_charge_witness:
  "int (charged False (bg_charges (fst (fold (budget_call calm_env)
      [PReserve shell_tool calm_bc ''c1'', PCommit ''c1''] (new_budget calm_env ''r'' calm_ctx))))) \<le>
    toolCalls (counters (snd (fold (budget_call calm_env)
      [PReserve shell_tool calm_bc ''c1'', PCommit ''c1''] (new_budget calm_env ''r'' calm_ctx))))"
proof -
  have "toolCalls (counters calm_ctx) = 0" "commandExecutions (counters calm_ctx) = 0"
    by (simp_all add: calm_defs)
  from budget_accounts_for_every_charge [OF this, of calm_env
      "[PReserve shell_tool calm_bc ''c1'', PCommit ''c1'']" "''r''"]
  show ?thesis unfolding Let_def by (rule conjunct1)
qed

theorem commands_stay_within_budget_witness:
  "commandExecutions (counters (snd (fold (budget_call calm_env)
      [PReserve shell_tool calm_bc ''c1'', PCommit ''c1''] (new_budget calm_env ''r'' calm_ctx)))) \<le>
    max 0 (maxCommandExecutions (limits (snd (fold (budget_call calm_env)
      [PReserve shell_tool calm_bc ''c1'', PCommit ''c1''] (new_budget calm_env ''r'' calm_ctx)))))"
  by (rule commands_stay_within_budget) (simp_all add: verify_stable_def calm_defs)

lemma calm_reserve:
  "fst (budget_reserve calm_env shell_tool calm_bc ''c1'' (fst (new_budget calm_env ''r'' calm_ctx))
     (snd (new_budget calm_env ''r'' calm_ctx))) = Inr (Some ''c1'')"
  by (simp add: budget_reserve_def budget_available_def budget_live_def clock_live_def new_budget_def
      descriptor_runs_command_def is_safe_integer_def matches_id_def is_alnum_def ctx_now_def ctx_tick_def
      calm_defs Let_def)

theorem release_refunds_reservation_witness:
  "\<exists>bg2 ctx2. counters ctx2 = new_counters \<and>
    budget_settle ''c1'' Released
      (fst (snd (budget_reserve calm_env shell_tool calm_bc ''c1''
        (fst (new_budget calm_env ''r'' calm_ctx)) (snd (new_budget calm_env ''r'' calm_ctx)))))
      (snd (snd (budget_reserve calm_env shell_tool calm_bc ''c1''
        (fst (new_budget calm_env ''r'' calm_ctx)) (snd (new_budget calm_env ''r'' calm_ctx))))) =
      (Inr (), bg2, ctx2)"
proof -
  let ?r = "budget_reserve calm_env shell_tool calm_bc ''c1''
      (fst (new_budget calm_env ''r'' calm_ctx)) (snd (new_budget calm_env ''r'' calm_ctx))"
  have "?r = (Inr (Some ''c1''), fst (snd ?r), snd (snd ?r))"
    using calm_reserve by (metis prod.collapse)
  from release_refunds_reservation [OF this] show ?thesis
    by (auto simp: calm_ctx_def)
qed

theorem failed_budget_grants_nothing_witness:
  "fst (budget_reserve calm_env shell_tool calm_bc ''c1''
     \<lparr> bg_run_id = ''r'', bg_deadline = 100, bg_charges = [], bg_failed = True, bg_last_now = 0 \<rparr>
     calm_ctx) \<noteq> Inr (Some ''c1'')"
  using failed_budget_grants_nothing
    [of "(\<lparr> bg_run_id = ''r'', bg_deadline = 100, bg_charges = [], bg_failed = True, bg_last_now = 0 \<rparr>,
       calm_ctx)" calm_env "[]" shell_tool calm_bc "''c1''" "''c1''"]
  by (simp add: Let_def)

end
