(* ===== verification/Catalog_Runtime.thy ===== *)
theory Catalog_Runtime
  imports Catalog_Budget
begin

text \<open>
  The governed tool catalog of a run (\<open>packages/keiko-harness/src/catalog-runtime.ts\<close>,
  \<open>catalog-call.ts\<close>, \<open>tool-audit.ts\<close>). The catalog port, the invocation normalizer and the
  validators of \<open>keiko-tool-catalog\<close> are parameters of the environment. While \<open>execute\<close> is
  awaited the port calls the budget port and reports evidence; what it does is the list of
  \<open>port_action\<close>s of \<open>catalog_execute\<close>, run in order. The port is taken to make these calls only
  between being called and answering.
\<close>

subsection \<open>Audit events\<close>

definition emit_tool_metadata ::
  "'a emitter_env_scheme \<Rightarrow> tool_metadata option \<Rightarrow> int \<Rightarrow> run_ctx \<Rightarrow> run_ctx" where
  "emit_tool_metadata env md duration ctx = (case md of
     None \<Rightarrow> ctx
   | Some (CommandMetadata executable arg_count exit_code timed_out sandbox) \<Rightarrow>
       ctx_emit env (CommandExecuted executable arg_count exit_code timed_out duration)
         (ctx_emit env (SandboxConfigured sandbox) ctx)
   | Some (PatchMetadata changed created deleted) \<Rightarrow>
       ctx_emit env (PatchApplied changed created deleted) ctx)"

subsection \<open>Binding and advertisement\<close>

definition bind_harness_catalog :: "'a harness_env_scheme \<Rightarrow> string \<Rightarrow> run_ctx \<Rightarrow> run_ctx" where
  "bind_harness_catalog env run ctx =
     (let s = new_budget env run ctx
      in (snd s)\<lparr> catalog := Some \<lparr> ct_normalizer = None, ct_budget = fst s, ct_active = None \<rparr> \<rparr>)"

definition catalog_advertisement ::
  "'a harness_env_scheme \<Rightarrow> run_ctx \<Rightarrow> (thrown + nat option) \<times> run_ctx" where
  "catalog_advertisement env ctx = (case catalog ctx of
     None \<Rightarrow> (Inr None, ctx)
   | Some rt \<Rightarrow>
       (case catalog_offer env (awaits ctx) of
          Inl e \<Rightarrow> (Inl e, ctx)
        | Inr h \<Rightarrow>
            (case catalog_tools env h (ctx_now env ctx) of
               Inl e \<Rightarrow> (Inl e, ctx_tick ctx)
             | Inr u \<Rightarrow>
                 (Inr (Some h), (ctx_tick ctx)\<lparr> catalog := Some (rt\<lparr> ct_normalizer := Some h \<rparr>) \<rparr>))))"

definition descriptor_for ::
  "'a harness_env_scheme \<Rightarrow> catalog_runtime option \<Rightarrow> jtext \<Rightarrow> thrown + tool_descriptor" where
  "descriptor_for env rt ref =
     (case (case rt of None \<Rightarrow> None | Some r \<Rightarrow>
              (case ct_normalizer r of None \<Rightarrow> None | Some h \<Rightarrow> catalog_lookup env h ref)) of
        None \<Rightarrow> Inl (CatalogThrown InternalError ''Unknown catalog tool identity'')
      | Some d \<Rightarrow> Inr d)"

subsection \<open>Bound tool calls\<close>

definition canonical_invocation :: "tool_invocation \<Rightarrow> string" where
  "canonical_invocation i = canonicalise (invocation_json i)"

definition capture_harness_tool_call ::
  "'a harness_env_scheme \<Rightarrow> nat \<Rightarrow> tool_call \<Rightarrow> int \<Rightarrow> thrown + (tool_call \<times> tool_invocation)" where
  "capture_harness_tool_call env h input now =
     rbind (capture_call env input) (\<lambda>captured.
       case tc_invocation captured of
         None \<Rightarrow> Inl (CatalogThrown InternalError ''Invalid bound provider call'')
       | Some bound \<Rightarrow>
           if \<not> matches_id ''_-'' (tc_id captured)
           then Inl (CatalogThrown InternalError ''Invalid bound provider call'')
           else
             rbind (catalog_normalize env h bound now) (\<lambda>ivk.
             rbind (catalog_bind_alias env h (tc_name captured) (tc_arguments captured) now) (\<lambda>alias_view.
               if canonical_invocation ivk \<noteq> canonical_invocation alias_view
               then Inl (CatalogThrown InternalError
                 ''Provider alias or argument view disagrees with bound invocation'')
               else Inr (captured\<lparr> tc_invocation := Some ivk \<rparr>, ivk))))"

fun capture_each ::
  "'a harness_env_scheme \<Rightarrow> nat \<Rightarrow> tool_call list \<Rightarrow> run_ctx \<Rightarrow> (thrown + tool_call list) \<times> run_ctx" where
  "capture_each env h [] ctx = (Inr [], ctx)"
| "capture_each env h (c # cs) ctx =
     (case capture_harness_tool_call env h c (ctx_now env ctx) of
        Inl e \<Rightarrow> (Inl e, ctx_tick ctx)
      | Inr d \<Rightarrow>
          (let r = capture_each env h cs (ctx_tick ctx)
           in (rbind (fst r) (\<lambda>ds. Inr (fst d # ds)), snd r)))"

definition capture_model_tool_calls ::
  "'a harness_env_scheme \<Rightarrow> model_response \<Rightarrow> run_ctx \<Rightarrow> (thrown + model_response) \<times> run_ctx" where
  "capture_model_tool_calls env response ctx =
     (if \<not> allows_tools (plan ctx) \<or> r_tool_calls response = [] then (Inr response, ctx)
      else case (case catalog ctx of None \<Rightarrow> None | Some rt \<Rightarrow> ct_normalizer rt) of
        None \<Rightarrow> (Inl (CatalogThrown ToolError ''Catalog handler unavailable''), ctx)
      | Some h \<Rightarrow>
          (case capture_calls env (r_tool_calls response) of
             Inl e \<Rightarrow> (Inl e, ctx)
           | Inr calls \<Rightarrow>
               (let r = capture_each env h calls ctx
                in (rbind (fst r) (\<lambda>captured.
                      if distinct (map tc_id captured) then Inr (response\<lparr> r_tool_calls := captured \<rparr>)
                      else Inl (CatalogThrown InternalError ''Duplicate provider tool call identity'')),
                    snd r))))"

subsection \<open>Execution\<close>

definition undeclared_command :: thrown where
  "undeclared_command =
     CatalogThrown InternalError ''Tool executed a command outside its declared effects''"

definition observe_execution ::
  "'a harness_env_scheme \<Rightarrow> tool_evidence \<Rightarrow> run_ctx \<Rightarrow> (thrown + unit) \<times> run_ctx" where
  "observe_execution env evidence ctx =
     (case descriptor_for env (catalog ctx) (te_tool_ref evidence) of
        Inl e \<Rightarrow> (Inl e, ctx)
      | Inr d \<Rightarrow>
          (case catalog ctx of
             None \<Rightarrow> (Inl (CatalogThrown InternalError ''Tool execution evidence identity mismatch''), ctx)
           | Some rt \<Rightarrow>
               (case ct_active rt of
                  None \<Rightarrow> (Inl (CatalogThrown InternalError ''Tool execution evidence identity mismatch''), ctx)
                | Some ac \<Rightarrow>
                    if ac_id ac \<noteq> te_call_id evidence \<or> ac_evidence ac \<noteq> None
                       \<or> d_digest (ac_descriptor ac) \<noteq> d_digest d
                    then (Inl (CatalogThrown InternalError ''Tool execution evidence identity mismatch''), ctx)
                    else
                      let seen = ac\<lparr> ac_evidence := Some evidence \<rparr>;
                          ctx1 = ctx\<lparr> catalog := Some (rt\<lparr> ct_active := Some seen \<rparr>) \<rparr>
                      in (case (if te_command evidence then descriptor_runs_command env d else Inr True) of
                            Inl e \<Rightarrow> (Inl e, ctx1)
                          | Inr True \<Rightarrow>
                              (Inr (), emit_tool_metadata env (te_metadata evidence) (te_duration evidence) ctx1)
                          | Inr False \<Rightarrow>
                              (Inl undeclared_command,
                               ctx\<lparr> counters := (counters ctx)
                                       \<lparr> commandExecutions := commandExecutions (counters ctx) + 1 \<rparr>,
                                     catalog := Some (rt\<lparr> ct_active :=
                                       Some (seen\<lparr> ac_violation := Some undeclared_command \<rparr>) \<rparr>) \<rparr>)))))"

definition require_tool_budget :: "'a harness_env_scheme \<Rightarrow> tool_descriptor \<Rightarrow> run_ctx \<Rightarrow> thrown + unit" where
  "require_tool_budget env d ctx =
     (if toolCalls (counters ctx) \<ge> maxToolCalls (limits ctx)
      then Inl (CatalogThrown LimitToolCalls ''Tool invocation budget exhausted'')
      else rbind (descriptor_runs_command env d) (\<lambda>c.
        if c \<and> commandExecutions (counters ctx) \<ge> maxCommandExecutions (limits ctx)
        then Inl (CatalogThrown LimitCommandExec ''Command execution budget exhausted'')
        else Inr ()))"

text \<open>The port's calls on the budget act on the run's own runtime and counters.\<close>

definition port_step :: "'a harness_env_scheme \<Rightarrow> port_action \<Rightarrow> run_ctx \<Rightarrow> run_ctx" where
  "port_step env a ctx = (case a of
     PObserve evidence \<Rightarrow> snd (observe_execution env evidence ctx)
   | PAsync x \<Rightarrow> async_step x ctx
   | _ \<Rightarrow> (case catalog ctx of
        None \<Rightarrow> ctx
      | Some rt \<Rightarrow>
          (let s = budget_call env a (ct_budget rt, ctx)
           in (snd s)\<lparr> catalog := Some (rt\<lparr> ct_budget := fst s \<rparr>) \<rparr>)))"

fun status_text :: "tool_status \<Rightarrow> string" where
  "status_text StCompleted = ''completed''"
| "status_text StDenied = ''denied''"
| "status_text StInvalid = ''invalid''"
| "status_text StBusy = ''busy''"
| "status_text StCancelled = ''cancelled''"
| "status_text StTimeout = ''timeout''"
| "status_text StFailed = ''failed''"

fun data_text :: "jtext \<Rightarrow> string" where
  "data_text (JStr s) = s"
| "data_text v = stringify v"

definition render_tool_result :: "result_envelope \<Rightarrow> string \<Rightarrow> tool_metadata option \<Rightarrow> tool_result" where
  "render_tool_result result call_id md = \<lparr> tr_call_id = call_id, tr_output = data_text (re_data result),
     tr_duration = re_duration result, tr_metadata = md, tr_observation = None \<rparr>"

definition settled_result ::
  "'a harness_env_scheme \<Rightarrow> tool_descriptor \<Rightarrow> tool_invocation \<Rightarrow> dispatch_outcome \<Rightarrow> string
     \<Rightarrow> catalog_runtime \<Rightarrow> (thrown + tool_result) \<times> catalog_runtime" where
  "settled_result env d ivk outcome call_id rt = (case outcome of
     Replayed receipt \<Rightarrow>
       ((case capture_receipt receipt of
           None \<Rightarrow> Inl invalid_receipt
         | Some r \<Rightarrow> Inl (CatalogThrown ToolError ''Previous invocation settled; replay output unavailable'')),
        rt)
   | Settled result receipt \<Rightarrow>
       (case capture_receipt receipt of
          None \<Rightarrow> (Inl invalid_receipt, rt)
        | Some r \<Rightarrow>
            (case validate_envelope env result d (inv_projection ivk) of
               Inl e \<Rightarrow> (Inl e, rt)
             | Inr env_result \<Rightarrow>
                 (let acc = accept_receipt env r d (ct_budget rt);
                      rt1 = rt\<lparr> ct_budget := snd acc \<rparr>;
                      active = ct_active rt1
                  in (rbind (fst acc) (\<lambda>u.
                        case (case active of None \<Rightarrow> None | Some ac \<Rightarrow> ac_violation ac) of
                          Some v \<Rightarrow> Inl v
                        | None \<Rightarrow>
                            if re_invocation env_result \<noteq> rc_invocation r \<or> re_status env_result \<noteq> rc_status r
                               \<or> re_effect_started env_result \<noteq> rc_effect_started r
                            then Inl (CatalogThrown InternalError ''Tool settlement identity mismatch'')
                            else if re_status env_result \<noteq> StCompleted
                            then Inl (CatalogThrown ToolError
                              (''Tool invocation '' @ status_text (re_status env_result) @ '': '' @ re_reason env_result))
                            else Inr (render_tool_result env_result call_id
                              (case active of None \<Rightarrow> None | Some ac \<Rightarrow>
                                (case ac_evidence ac of None \<Rightarrow> None | Some e \<Rightarrow> te_metadata e)))),
                      rt1)))))"

text \<open>The \<open>finally\<close> block of \<open>executeCatalogCall\<close>.\<close>

definition clear_active :: "run_ctx \<Rightarrow> run_ctx" where
  "clear_active ctx = ctx\<lparr> catalog := map_option (\<lambda>rt. rt\<lparr> ct_active := None \<rparr>) (catalog ctx) \<rparr>"

text \<open>The run while the port executes: its script, then the answer is awaited no longer.\<close>

definition await_port :: "'a harness_env_scheme \<Rightarrow> string \<Rightarrow> tool_invocation \<Rightarrow> run_ctx \<Rightarrow> run_ctx" where
  "await_port env call_id ivk ctx =
     (fold (port_step env) (fst (catalog_execute env (awaits ctx) call_id ivk)) ctx)
       \<lparr> awaits := awaits ctx + 1 \<rparr>"

definition run_port ::
  "'a harness_env_scheme \<Rightarrow> string \<Rightarrow> string \<Rightarrow> tool_descriptor \<Rightarrow> tool_invocation
     \<Rightarrow> catalog_runtime \<Rightarrow> run_ctx \<Rightarrow> (thrown + tool_result) \<times> run_ctx" where
  "run_port env call_id captured_id d ivk runtime ctx =
     (let ctx1 = await_port env call_id ivk ctx
      in (case snd (catalog_execute env (awaits ctx) call_id ivk) of
            Inl e \<Rightarrow> (Inl e, clear_active ctx1)
          | Inr outcome \<Rightarrow>
              (let rt = (case catalog ctx1 of None \<Rightarrow> runtime | Some rt \<Rightarrow> rt);
                   r = settled_result env d ivk outcome captured_id rt
               in (fst r, clear_active (ctx1\<lparr> catalog := Some (snd r) \<rparr>)))))"

definition enter_call :: "catalog_runtime \<Rightarrow> string \<Rightarrow> tool_descriptor \<Rightarrow> run_ctx \<Rightarrow> run_ctx" where
  "enter_call rt call_id d ctx = ctx\<lparr> catalog := Some (rt\<lparr> ct_active := Some
     \<lparr> ac_id = call_id, ac_descriptor = d, ac_evidence = None, ac_violation = None \<rparr> \<rparr>) \<rparr>"

definition execute_catalog_call ::
  "'a harness_env_scheme \<Rightarrow> tool_call \<Rightarrow> run_ctx \<Rightarrow> (thrown + tool_result) \<times> run_ctx" where
  "execute_catalog_call env call ctx =
     (case catalog ctx of
        None \<Rightarrow> (Inl (CatalogThrown ToolError ''Catalog handler unavailable or invocation unbound''), ctx)
      | Some rt \<Rightarrow>
          (case (ct_normalizer rt, tc_invocation call) of
             (Some h, Some bound) \<Rightarrow>
               (let ctx1 = ctx_tick ctx
                in (case rbind (capture_harness_tool_call env h call (ctx_now env ctx)) (\<lambda>captured.
                      rbind (descriptor_for env (Some rt) (inv_tool_ref (snd captured))) (\<lambda>d.
                      rbind (require_tool_budget env d ctx1) (\<lambda>u. Inr (captured, d)))) of
                      Inl e \<Rightarrow> (Inl e, ctx1)
                    | Inr r \<Rightarrow>
                        run_port env (tc_id call) (tc_id (fst (fst r))) (snd r) (snd (fst r)) rt
                          (enter_call rt (tc_id call) (snd r) ctx1)))
           | _ \<Rightarrow> (Inl (CatalogThrown ToolError ''Catalog handler unavailable or invocation unbound''), ctx)))"

subsection \<open>What a tool execution leaves unchanged\<close>

text \<open>
  The events that trace a run's control flow. Tool execution adds none of them, and changes neither
  the conversation nor the counters of the loop.
\<close>

fun is_flow :: "event_body \<Rightarrow> bool" where
  "is_flow (StateTransition a b r) = True"
| "is_flow (ModelCallStarted m n k) = True"
| "is_flow (ToolCallStarted n i) = True"
| "is_flow (ToolCallCompleted n i d) = True"
| "is_flow (ToolCallFailed n i c t) = True"
| "is_flow (RunCompleted r d) = True"
| "is_flow (RunCancelled r s) = True"
| "is_flow (RunFailed f s) = True"
| "is_flow b = False"

definition flow :: "nat \<Rightarrow> run_ctx \<Rightarrow> event_body list" where
  "flow m ctx = filter is_flow (run_log m ctx)"

text \<open>
  While the run goes on its failure slot is empty or holds the claim of the wall-time deadline.
\<close>

definition clean_failure :: "run_ctx \<Rightarrow> bool" where
  "clean_failure ctx \<longleftrightarrow> (\<forall>f. failure ctx = Some f \<longrightarrow> f_category f = LimitWallTime)"

lemma clean_failure_update [simp]:
  "clean_failure (ctx\<lparr> counters := c \<rparr>) = clean_failure ctx"
  "clean_failure (ctx\<lparr> catalog := k \<rparr>) = clean_failure ctx"
  "clean_failure (ctx\<lparr> awaits := n \<rparr>) = clean_failure ctx"
  "clean_failure (ctx\<lparr> messages := ms \<rparr>) = clean_failure ctx"
  "clean_failure (ctx\<lparr> last_response := r \<rparr>) = clean_failure ctx"
  "clean_failure (ctx\<lparr> patch_diff := d \<rparr>) = clean_failure ctx"
  "clean_failure (ctx\<lparr> report := p \<rparr>) = clean_failure ctx"
  "clean_failure (ctx\<lparr> cancelled_at := s \<rparr>) = clean_failure ctx"
  "clean_failure (ctx\<lparr> shaped_observations := so \<rparr>) = clean_failure ctx"
  "clean_failure (ctx\<lparr> compacted_messages := cm \<rparr>) = clean_failure ctx"
  "clean_failure (ctx_emit env b ctx) = clean_failure ctx" "clean_failure (ctx_tick ctx) = clean_failure ctx"
  by (simp_all add: clean_failure_def)

lemma clean_failure_async: "clean_failure ctx \<Longrightarrow> clean_failure (async_step x ctx)"
  by (cases x) (auto simp: clean_failure_def deadline_fires_def cancel_run_def claim_failure_def split: option.splits)

lemma clean_failure_await: "clean_failure ctx \<Longrightarrow> clean_failure (await_point env ctx)"
proof -
  have "clean_failure c \<Longrightarrow> clean_failure (fold async_step es c)" for es c
    by (induction es arbitrary: c) (simp_all add: clean_failure_async)
  then show "clean_failure ctx \<Longrightarrow> ?thesis" by (simp add: await_point_def)
qed

definition run_frame :: "nat \<Rightarrow> run_ctx \<Rightarrow> run_ctx \<Rightarrow> bool" where
  "run_frame m a b \<longleftrightarrow>
     plan b = plan a \<and> limits b = limits a \<and> started_at b = started_at a \<and>
     messages b = messages a \<and> last_response b = last_response a \<and> patch_diff b = patch_diff a \<and>
     report b = report a \<and> (catalog b = None) = (catalog a = None) \<and>
     iterations (counters b) = iterations (counters a) \<and>
     modelCalls (counters b) = modelCalls (counters a) \<and>
     failureAttempts (counters b) = failureAttempts (counters a) \<and>
     (aborted a \<longrightarrow> aborted b) \<and> (clean_failure a \<longrightarrow> clean_failure b) \<and>
     (log_ok m a \<longrightarrow> log_ok m b \<and> flow m b = flow m a)"

lemma run_frame_refl [simp]: "run_frame m a a"
  by (simp add: run_frame_def)

lemma run_frame_trans [trans]: "run_frame m a b \<Longrightarrow> run_frame m b c \<Longrightarrow> run_frame m a c"
  by (simp add: run_frame_def)

lemma is_notice_not_flow: "is_flow b \<Longrightarrow> \<not> is_notice b"
  by (cases b) simp_all

lemma flow_emit [simp]:
  "log_ok m ctx \<Longrightarrow> flow m (ctx_emit env b ctx) = flow m ctx @ (if is_flow b then [b] else [])"
  by (auto simp: flow_def is_notice_not_flow)

lemma flow_tick [simp]: "flow m (ctx_tick ctx) = flow m ctx"
  by (simp add: flow_def)

lemma flow_update [simp]:
  "flow m (ctx\<lparr> counters := c \<rparr>) = flow m ctx" "flow m (ctx\<lparr> catalog := k \<rparr>) = flow m ctx"
  "flow m (ctx\<lparr> awaits := n \<rparr>) = flow m ctx" "flow m (ctx\<lparr> aborted := b \<rparr>) = flow m ctx"
  "flow m (ctx\<lparr> messages := ms \<rparr>) = flow m ctx" "flow m (ctx\<lparr> last_response := r \<rparr>) = flow m ctx"
  "flow m (ctx\<lparr> patch_diff := d \<rparr>) = flow m ctx" "flow m (ctx\<lparr> report := p \<rparr>) = flow m ctx"
  "flow m (ctx\<lparr> failure := f \<rparr>) = flow m ctx" "flow m (ctx\<lparr> cancelled_at := s \<rparr>) = flow m ctx"
  "flow m (ctx\<lparr> shaped_observations := so \<rparr>) = flow m ctx"
  "flow m (ctx\<lparr> compacted_messages := cm \<rparr>) = flow m ctx"
  by (simp_all add: flow_def run_log_def)

lemma log_ok_update [simp]:
  "log_ok m (ctx\<lparr> counters := c \<rparr>) = log_ok m ctx" "log_ok m (ctx\<lparr> catalog := k \<rparr>) = log_ok m ctx"
  "log_ok m (ctx\<lparr> awaits := n \<rparr>) = log_ok m ctx" "log_ok m (ctx\<lparr> aborted := b \<rparr>) = log_ok m ctx"
  "log_ok m (ctx\<lparr> messages := ms \<rparr>) = log_ok m ctx" "log_ok m (ctx\<lparr> last_response := r \<rparr>) = log_ok m ctx"
  "log_ok m (ctx\<lparr> patch_diff := d \<rparr>) = log_ok m ctx" "log_ok m (ctx\<lparr> report := p \<rparr>) = log_ok m ctx"
  "log_ok m (ctx\<lparr> failure := f \<rparr>) = log_ok m ctx" "log_ok m (ctx\<lparr> cancelled_at := s \<rparr>) = log_ok m ctx"
  "log_ok m (ctx\<lparr> shaped_observations := so \<rparr>) = log_ok m ctx"
  "log_ok m (ctx\<lparr> compacted_messages := cm \<rparr>) = log_ok m ctx"
  by (simp_all add: log_ok_def)

lemma run_frame_emit: "\<not> is_flow b \<Longrightarrow> run_frame m ctx (ctx_emit env b ctx)"
  by (simp add: run_frame_def)

lemma run_frame_tick: "run_frame m ctx (ctx_tick ctx)"
  by (simp add: run_frame_def)

lemma run_frame_core:
  assumes "same_core a b" and "aborted a \<Longrightarrow> aborted b" and "clean_failure a \<Longrightarrow> clean_failure b"
  shows "run_frame m a b"
proof -
  have "log_ok m b = log_ok m a" "flow m b = flow m a"
    using assms(1) by (simp_all add: same_core_def log_ok_def flow_def run_log_def)
  with assms show ?thesis by (simp add: run_frame_def same_core_def)
qed

lemma run_frame_async: "run_frame m ctx (async_step x ctx)"
  by (intro run_frame_core same_core_async aborted_async clean_failure_async)

lemma run_frame_await: "run_frame m ctx (await_point env ctx)"
  by (intro run_frame_core same_core_await aborted_await clean_failure_await)

lemma run_frame_catalog: "catalog ctx \<noteq> None \<Longrightarrow> run_frame m ctx (ctx\<lparr> catalog := Some rt \<rparr>)"
  by (simp add: run_frame_def)

lemma run_frame_clock_live: "run_frame m ctx (snd (snd (clock_live env bg ctx)))"
  using run_frame_tick [of m ctx] by (simp add: clock_live_def Let_def)

lemma run_frame_charge:
  "run_frame m a b \<Longrightarrow> iterations c = iterations (counters b) \<Longrightarrow> modelCalls c = modelCalls (counters b) \<Longrightarrow>
     failureAttempts c = failureAttempts (counters b) \<Longrightarrow> run_frame m a (b\<lparr> counters := c \<rparr>)"
  by (simp add: run_frame_def)

lemma run_frame_settle: "run_frame m ctx (snd (snd (budget_settle i st bg ctx)))"
  by (cases rule: budget_settle_cases [of i st bg ctx]) (simp_all add: run_frame_charge)

lemma run_frame_reserve: "run_frame m ctx (snd (snd (budget_reserve env d bc i bg ctx)))"
proof (cases rule: budget_reserve_cases [of env d bc i bg ctx])
  case refused
  then show ?thesis using run_frame_clock_live [of m ctx env bg] by auto
next
  case (granted v command)
  then show ?thesis using run_frame_clock_live [of m ctx env bg]
    by (simp add: run_frame_charge)
qed

lemma run_frame_budget_call: "run_frame m ctx (snd (budget_call env a (bg, ctx)))"
  by (cases a) (simp_all add: run_frame_clock_live run_frame_reserve run_frame_settle run_frame_async)

lemma catalog_clock_live [simp]: "catalog (snd (snd (clock_live env bg ctx))) = catalog ctx"
  by (simp add: clock_live_def Let_def)

lemma run_frame_metadata: "run_frame m ctx (emit_tool_metadata env md n ctx)"
  unfolding emit_tool_metadata_def
  by (auto split: option.splits tool_metadata.splits intro: run_frame_emit
      run_frame_trans [OF run_frame_emit run_frame_emit])

text \<open>Evidence is refused, accepted, or accepted as a violation.\<close>

lemma observe_cases:
  obtains (refused) e where "observe_execution env ev ctx = (Inl e, ctx)"
    | (seen) rt ac d where "catalog ctx = Some rt" "ct_active rt = Some ac" "ac_evidence ac = None"
      "ac_id ac = te_call_id ev" "te_command ev \<Longrightarrow> \<exists>e. descriptor_runs_command env d = Inl e"
      "snd (observe_execution env ev ctx) =
         ctx\<lparr> catalog := Some (rt\<lparr> ct_active := Some (ac\<lparr> ac_evidence := Some ev \<rparr>) \<rparr>) \<rparr>"
    | (accepted) rt ac where "catalog ctx = Some rt" "ct_active rt = Some ac" "ac_evidence ac = None"
      "ac_id ac = te_call_id ev"
      "observe_execution env ev ctx =
         (Inr (), emit_tool_metadata env (te_metadata ev) (te_duration ev)
           (ctx\<lparr> catalog := Some (rt\<lparr> ct_active := Some (ac\<lparr> ac_evidence := Some ev \<rparr>) \<rparr>) \<rparr>))"
    | (violation) rt ac d where "catalog ctx = Some rt" "ct_active rt = Some ac" "ac_evidence ac = None"
      "te_command ev" "descriptor_runs_command env d = Inr False"
      "observe_execution env ev ctx =
         (Inl undeclared_command,
          ctx\<lparr> counters := (counters ctx)\<lparr> commandExecutions := commandExecutions (counters ctx) + 1 \<rparr>,
               catalog := Some (rt\<lparr> ct_active := Some (ac\<lparr> ac_evidence := Some ev,
                 ac_violation := Some undeclared_command \<rparr>) \<rparr>) \<rparr>)"
proof (cases "descriptor_for env (catalog ctx) (te_tool_ref ev)")
  case (Inl e)
  then show ?thesis by (intro refused) (simp add: observe_execution_def)
next
  case (Inr d)
  then obtain rt where rt: "catalog ctx = Some rt"
    by (cases "catalog ctx") (simp_all add: descriptor_for_def)
  note Inr = Inr [unfolded rt]
  show ?thesis
  proof (cases "\<exists>ac. ct_active rt = Some ac \<and> ac_id ac = te_call_id ev \<and> ac_evidence ac = None \<and>
      d_digest (ac_descriptor ac) = d_digest d")
    case False
    then show ?thesis
      by (intro refused [of "CatalogThrown InternalError ''Tool execution evidence identity mismatch''"])
         (auto simp: observe_execution_def Inr rt split: option.splits)
  next
    case True
    then obtain ac where ac: "ct_active rt = Some ac" "ac_id ac = te_call_id ev" "ac_evidence ac = None"
      "d_digest (ac_descriptor ac) = d_digest d" by blast
    consider "\<not> te_command ev \<or> descriptor_runs_command env d = Inr True"
      | "te_command ev" "descriptor_runs_command env d = Inr False"
      | e where "te_command ev" "descriptor_runs_command env d = Inl e"
      by (cases "descriptor_runs_command env d") auto
    then show ?thesis
    proof cases
      case 1
      with ac rt Inr show ?thesis
        by (intro accepted [of rt ac]) (auto simp: observe_execution_def Let_def)
    next
      case 2
      with ac rt Inr show ?thesis
        by (intro violation [of rt ac d]) (auto simp: observe_execution_def Let_def)
    next
      case 3
      with ac rt Inr show ?thesis
        by (intro seen [of rt ac d]) (auto simp: observe_execution_def Let_def)
    qed
  qed
qed

lemma run_frame_observe: "run_frame m ctx (snd (observe_execution env ev ctx))"
proof (cases rule: observe_cases [of env ev ctx])
  case (accepted rt ac)
  have "run_frame m ctx (ctx\<lparr> catalog := Some (rt\<lparr> ct_active := Some (ac\<lparr> ac_evidence := Some ev \<rparr>) \<rparr>) \<rparr>)"
    using accepted(1) by (simp add: run_frame_catalog)
  from run_frame_trans [OF this run_frame_metadata] show ?thesis by (simp add: accepted(5))
next
  case (violation rt ac d)
  let ?c = "(counters ctx)\<lparr> commandExecutions := commandExecutions (counters ctx) + 1 \<rparr>"
  have "run_frame m ctx (ctx\<lparr> counters := ?c \<rparr>)"
    by (rule run_frame_charge [OF run_frame_refl]) simp_all
  from run_frame_trans [OF this run_frame_catalog] violation(1) show ?thesis
    by (simp add: violation(6))
qed (simp_all add: run_frame_catalog)

lemma budget_call_catalog: "catalog (snd (budget_call env a (bg, ctx))) = catalog ctx"
proof (cases a)
  case (PReserve d bc i)
  then show ?thesis by (cases rule: budget_reserve_cases [of env d bc i bg ctx]) auto
next
  case (PCommit i)
  then show ?thesis by (cases rule: budget_settle_cases [of i Committed bg ctx]) simp_all
next
  case (PRelease i)
  then show ?thesis by (cases rule: budget_settle_cases [of i Released bg ctx]) simp_all
next
  case (PAsync x)
  then show ?thesis using same_core_async [of ctx x] by (simp add: same_core_def)
qed simp_all

lemma run_frame_port_step: "run_frame m ctx (port_step env a ctx)"
proof -
  have budget: "run_frame m ctx ((snd (budget_call env a' (ct_budget rt, ctx)))\<lparr> catalog := Some rt' \<rparr>)"
    if "catalog ctx = Some rt" for rt rt' a'
    using that
    by (intro run_frame_trans [OF run_frame_budget_call run_frame_catalog]) (simp add: budget_call_catalog)
  show ?thesis
    by (cases a) (auto simp: port_step_def Let_def run_frame_observe run_frame_async
        intro!: budget split: option.splits simp del: budget_call.simps)
qed

lemma run_frame_script: "run_frame m ctx (fold (port_step env) as ctx)"
proof (induction as arbitrary: ctx)
  case (Cons a as)
  from run_frame_trans [OF run_frame_port_step Cons.IH] show ?case by simp
qed simp

lemma run_frame_clear: "run_frame m ctx (clear_active ctx)"
  by (simp add: run_frame_def clear_active_def)

lemma run_frame_awaits: "run_frame m a b \<Longrightarrow> run_frame m a (b\<lparr> awaits := n \<rparr>)"
  by (simp add: run_frame_def)

lemma run_frame_run_port:
  assumes "catalog ctx \<noteq> None"
  shows "run_frame m ctx (snd (run_port env i c d v rt ctx))"
proof -
  define ctx1 where "ctx1 = await_port env i v ctx"
  have fr: "run_frame m ctx ctx1"
    unfolding ctx1_def await_port_def by (intro run_frame_awaits run_frame_script)
  with assms have "catalog ctx1 \<noteq> None" by (simp add: run_frame_def)
  then have "run_frame m ctx1 (clear_active (ctx1\<lparr> catalog := Some k \<rparr>))" for k
    by (rule run_frame_trans [OF run_frame_catalog run_frame_clear])
  with fr show ?thesis
    by (auto simp: run_port_def Let_def ctx1_def [symmetric] split: sum.splits
        intro: run_frame_trans [OF fr run_frame_clear] run_frame_trans)
qed

lemma run_frame_enter: "catalog ctx = Some rt \<Longrightarrow> run_frame m ctx (enter_call rt i d ctx)"
  unfolding enter_call_def by (rule run_frame_catalog) simp

lemma enter_call_simps [simp]:
  "catalog (enter_call rt i d ctx) = Some (rt\<lparr> ct_active := Some
     \<lparr> ac_id = i, ac_descriptor = d, ac_evidence = None, ac_violation = None \<rparr> \<rparr>)"
  "counters (enter_call rt i d ctx) = counters ctx" "limits (enter_call rt i d ctx) = limits ctx"
  by (simp_all add: enter_call_def)

lemma run_frame_execute: "run_frame m ctx (snd (execute_catalog_call env call ctx))"
proof -
  have "run_frame m ctx (snd (run_port env i c d v rt (enter_call rt j d' (ctx_tick ctx))))"
    if "catalog ctx = Some rt" for i c d v rt j d'
  proof -
    have "run_frame m ctx (enter_call rt j d' (ctx_tick ctx))"
      using that by (intro run_frame_trans [OF run_frame_tick run_frame_enter]) simp
    also have "run_frame m \<dots> (snd (run_port env i c d v rt \<dots>))"
      by (rule run_frame_run_port) simp
    finally show ?thesis .
  qed
  then show ?thesis
    by (auto simp: execute_catalog_call_def Let_def run_frame_tick split: option.splits sum.splits)
qed

lemma run_frame_capture_each: "run_frame m ctx (snd (capture_each env h cs ctx))"
proof (induction cs arbitrary: ctx)
  case (Cons c cs)
  from run_frame_trans [OF run_frame_tick Cons.IH] show ?case
    by (auto simp: run_frame_tick Let_def split: sum.splits)
qed simp

lemma run_frame_capture_model: "run_frame m ctx (snd (capture_model_tool_calls env r ctx))"
  by (auto simp: capture_model_tool_calls_def Let_def run_frame_capture_each
      split: option.splits sum.splits)

lemma run_frame_advertisement: "run_frame m ctx (snd (catalog_advertisement env ctx))"
  using run_frame_trans [OF run_frame_tick run_frame_catalog]
  by (auto simp: catalog_advertisement_def run_frame_tick split: option.splits sum.splits)

subsection \<open>Accounting through the runtime\<close>

definition tools_ok :: "run_ctx \<Rightarrow> bool" where
  "tools_ok ctx \<longleftrightarrow>
     0 \<le> toolCalls (counters ctx) \<and> toolCalls (counters ctx) \<le> max 0 (maxToolCalls (limits ctx)) \<and>
     (\<forall>rt. catalog ctx = Some rt \<longrightarrow> budget_ok (ct_budget rt, ctx))"

definition violated :: "run_ctx \<Rightarrow> bool" where
  "violated ctx \<longleftrightarrow> (case catalog ctx of None \<Rightarrow> False | Some rt \<Rightarrow>
     (case ct_active rt of None \<Rightarrow> False | Some ac \<Rightarrow> ac_violation ac \<noteq> None))"

text \<open>An undeclared command is counted once, on top of the limit, and only with its evidence.\<close>

definition commands_within :: "run_ctx \<Rightarrow> bool" where
  "commands_within ctx \<longleftrightarrow>
     commandExecutions (counters ctx) \<le>
       max 0 (maxCommandExecutions (limits ctx)) + (if violated ctx then 1 else 0) \<and>
     (\<forall>rt ac. catalog ctx = Some rt \<longrightarrow> ct_active rt = Some ac \<longrightarrow> ac_violation ac \<noteq> None \<longrightarrow>
        ac_evidence ac \<noteq> None)"

lemma budget_ok_catalog [simp]: "budget_ok (bg, ctx\<lparr> catalog := k \<rparr>) = budget_ok (bg, ctx)"
  by (simp add: budget_ok_def)

lemma budget_ok_awaits [simp]: "budget_ok (bg, ctx\<lparr> awaits := n \<rparr>) = budget_ok (bg, ctx)"
  by (simp add: budget_ok_def)

lemma budget_ok_tick [simp]: "budget_ok (bg, ctx_tick ctx) = budget_ok (bg, ctx)"
  by (simp add: budget_ok_def)

lemma budget_ok_emit [simp]: "budget_ok (bg, ctx_emit env b ctx) = budget_ok (bg, ctx)"
  by (simp add: budget_ok_def)

lemma emit_tool_metadata_frame [simp]:
  "counters (emit_tool_metadata env md n ctx) = counters ctx"
  "limits (emit_tool_metadata env md n ctx) = limits ctx"
  "catalog (emit_tool_metadata env md n ctx) = catalog ctx"
  by (auto simp: emit_tool_metadata_def split: option.splits tool_metadata.splits)

lemma budget_ok_metadata [simp]:
  "budget_ok (bg, emit_tool_metadata env md n ctx) = budget_ok (bg, ctx)"
  by (simp add: budget_ok_def)

lemma tools_ok_of_budget:
  "budget_ok (ct_budget rt, ctx) \<Longrightarrow> catalog ctx = Some rt \<Longrightarrow> tools_ok ctx"
  by (auto simp: tools_ok_def budget_ok_def)

lemma tools_ok_async: "tools_ok ctx \<Longrightarrow> tools_ok (async_step x ctx)"
  using same_core_async [of ctx x] by (simp add: tools_ok_def budget_ok_def same_core_def)

lemma tools_ok_observe: "tools_ok ctx \<Longrightarrow> tools_ok (snd (observe_execution env ev ctx))"
  by (cases rule: observe_cases [of env ev ctx]) (auto simp: tools_ok_def budget_ok_def)

lemma tools_ok_port_step: "tools_ok ctx \<Longrightarrow> tools_ok (port_step env a ctx)"
proof -
  assume ok: "tools_ok ctx"
  have budget: "tools_ok ((snd (budget_call env b (ct_budget rt, ctx)))
      \<lparr> catalog := Some (rt\<lparr> ct_budget := fst (budget_call env b (ct_budget rt, ctx)) \<rparr>) \<rparr>)"
    if "catalog ctx = Some rt" for rt b
  proof (rule tools_ok_of_budget)
    have "budget_ok (budget_call env b (ct_budget rt, ctx))"
      using ok that by (intro budget_ok_call) (simp add: tools_ok_def)
    then show "budget_ok (ct_budget (rt\<lparr> ct_budget := fst (budget_call env b (ct_budget rt, ctx)) \<rparr>),
        (snd (budget_call env b (ct_budget rt, ctx)))
        \<lparr> catalog := Some (rt\<lparr> ct_budget := fst (budget_call env b (ct_budget rt, ctx)) \<rparr>) \<rparr>)"
      by simp
  qed simp
  show ?thesis
    by (cases a) (auto simp: port_step_def Let_def tools_ok_observe tools_ok_async ok
        intro!: budget split: option.splits simp del: budget_call.simps)
qed

interpretation tool_ops: invariant_ops tools_ok "port_step env"
  for env :: "'a harness_env_scheme"
  by unfold_locales (rule tools_ok_port_step)

lemma commands_within_violated:
  "commands_within ctx \<longleftrightarrow>
     (\<forall>rt. catalog ctx = Some rt \<longrightarrow> commands_ok (if violated ctx then 1 else 0) (ct_budget rt, ctx)) \<and>
     (catalog ctx = None \<longrightarrow> commandExecutions (counters ctx) \<le> max 0 (maxCommandExecutions (limits ctx))) \<and>
     (\<forall>rt ac. catalog ctx = Some rt \<longrightarrow> ct_active rt = Some ac \<longrightarrow> ac_violation ac \<noteq> None \<longrightarrow>
        ac_evidence ac \<noteq> None)"
  by (cases "catalog ctx") (auto simp: commands_within_def commands_ok_def violated_def)

lemma commands_within_observe:
  assumes "commands_within ctx"
  shows "commands_within (snd (observe_execution env ev ctx))"
  using assms
  by (cases rule: observe_cases [of env ev ctx])
     (auto simp: commands_within_def violated_def split: if_splits option.splits)

lemma commands_within_port_step:
  assumes "verify_stable env" and "commands_within ctx"
  shows "commands_within (port_step env a ctx)"
proof -
  have budget: "commands_within ((snd (budget_call env b (ct_budget rt, ctx)))
      \<lparr> catalog := Some (rt\<lparr> ct_budget := fst (budget_call env b (ct_budget rt, ctx)) \<rparr>) \<rparr>)"
    if "catalog ctx = Some rt" for rt b
  proof -
    let ?k = "if violated ctx then 1 else 0 :: nat"
    have "commands_ok ?k (ct_budget rt, ctx)" using assms(2) that by (simp add: commands_within_violated)
    from commands_ok_call [OF assms(1) this, of b] assms(2) that show ?thesis
      by (auto simp: commands_within_def commands_ok_def violated_def split: if_splits option.splits)
  qed
  have "commands_within (async_step x ctx)" for x
    using same_core_async [of ctx x] assms(2)
    by (simp add: commands_within_def violated_def same_core_def)
  then show ?thesis
    by (cases a) (auto simp: port_step_def Let_def commands_within_observe assms(2)
        intro!: budget split: option.splits simp del: budget_call.simps)
qed

lemma commands_within_script:
  "verify_stable env \<Longrightarrow> commands_within ctx \<Longrightarrow> commands_within (fold (port_step env) as ctx)"
  by (induction as arbitrary: ctx) (simp_all add: commands_within_port_step)

subsection \<open>Settlement\<close>

lemma capture_receipt_Some: "capture_receipt x = Some r \<Longrightarrow> r = x \<and> receipt_accounting_ok x"
  by (simp add: capture_receipt_def split: if_splits)

lemma accept_receipt_charges: "budget_ok (bg, ctx) \<Longrightarrow> budget_ok (snd (accept_receipt env r d bg), ctx)"
proof -
  have "budget_ok (bg\<lparr> bg_charges := filter P (bg_charges bg) \<rparr>, ctx)" if "budget_ok (bg, ctx)" for P
    using that charged_filter_le [of False P "bg_charges bg"] charged_filter_le [of True P "bg_charges bg"]
    by (simp add: budget_ok_def distinct_map_filter)
  moreover have "budget_ok (bg\<lparr> bg_failed := True \<rparr>, ctx) = budget_ok (bg, ctx)"
    by (simp add: budget_ok_def)
  ultimately show "budget_ok (bg, ctx) \<Longrightarrow> ?thesis"
    by (auto simp: accept_receipt_def reconcile_receipt_def split: option.splits sum.splits if_splits)
qed

lemma settled_active [simp]: "ct_active (snd (settled_result env d v oc i rt)) = ct_active rt"
  by (auto simp: settled_result_def Let_def split: dispatch_outcome.splits option.splits sum.splits)

lemma settled_budget_ok:
  "budget_ok (ct_budget rt, ctx) \<Longrightarrow> budget_ok (ct_budget (snd (settled_result env d v oc i rt)), ctx)"
  by (auto simp: settled_result_def Let_def accept_receipt_charges
      split: dispatch_outcome.splits option.splits sum.splits)

lemma settled_violation:
  assumes "ct_active rt = Some ac" and "ac_violation ac \<noteq> None"
  shows "\<exists>e. fst (settled_result env d v oc i rt) = Inl e"
proof -
  have "\<exists>e. rbind x (\<lambda>u. Inl w) = Inl e" for x :: "thrown + unit" and w :: thrown
    by (cases x) auto
  with assms show ?thesis
    by (auto simp: settled_result_def Let_def split: dispatch_outcome.splits option.splits sum.splits)
qed

text \<open>What a successful settlement needs.\<close>

lemma settled_success:
  assumes "fst (settled_result env d v oc i rt) = Inr res"
  obtains result receipt env_result where
    "oc = Settled result receipt" "capture_receipt receipt = Some receipt"
    "validate_envelope env result d (inv_projection v) = Inr env_result"
    "fst (accept_receipt env receipt d (ct_budget rt)) = Inr ()"
    "re_status env_result = StCompleted" "rc_status receipt = StCompleted"
    "re_invocation env_result = rc_invocation receipt"
    "re_effect_started env_result = rc_effect_started receipt"
    "tr_call_id res = i" "tr_output res = data_text (re_data env_result)"
proof -
  obtain result receipt where oc: "oc = Settled result receipt"
    using assms by (cases oc) (auto simp: settled_result_def split: option.splits)
  obtain env_result where *: "capture_receipt receipt = Some receipt"
    "validate_envelope env result d (inv_projection v) = Inr env_result"
    using assms capture_receipt_Some
    by (auto simp: settled_result_def oc split: option.splits sum.splits)
  show thesis
    using assms by (intro that [OF oc *])
      (auto simp: settled_result_def oc * Let_def render_tool_result_def split: option.splits if_splits)
qed

lemma accepted_receipt:
  assumes "fst (accept_receipt env r d bg) = Inr ()" and "capture_receipt r = Some r"
    and "rc_status r = StCompleted"
  obtains ch where "map_of (bg_charges bg) (rc_invocation r) = Some ch"
    "rc_disposition r = DpCommitted \<and> ch_state ch = Committed \<and> rc_effect_started r \<or>
     rc_disposition r = DpReleased \<and> ch_state ch = Released \<and> \<not> rc_effect_started r"
    "map_of (bg_charges (snd (accept_receipt env r d bg))) (rc_invocation r) = None"
proof -
  have none: "map_of (filter (\<lambda>kc. fst kc \<noteq> k) xs) k = None" for k and xs :: "(string \<times> charge) list"
    by (auto simp: map_of_eq_None_iff)
  from capture_receipt_Some [OF assms(2)] have acc: "receipt_accounting_ok r" by simp
  from assms obtain ch where "map_of (bg_charges bg) (rc_invocation r) = Some ch"
    by (auto simp: accept_receipt_def reconcile_receipt_def split: option.splits sum.splits if_splits)
  with assms acc show ?thesis
    by (intro that [of ch])
       (auto simp: accept_receipt_def reconcile_receipt_def receipt_accounting_ok_def charge_matches_def
          disposition_commits_def none split: option.splits sum.splits if_splits)
qed

subsection \<open>One catalog call\<close>

definition idle :: "run_ctx \<Rightarrow> bool" where
  "idle ctx \<longleftrightarrow> (\<forall>rt. catalog ctx = Some rt \<longrightarrow> ct_active rt = None)"

lemma clear_active_simps [simp]:
  "counters (clear_active ctx) = counters ctx" "limits (clear_active ctx) = limits ctx"
  "idle (clear_active ctx)" "aborted (clear_active ctx) = aborted ctx"
  by (auto simp: clear_active_def idle_def)

lemma tools_ok_clear: "tools_ok ctx \<Longrightarrow> tools_ok (clear_active ctx)"
  by (auto simp: tools_ok_def clear_active_def)

lemma tools_ok_awaits [simp]: "tools_ok (ctx\<lparr> awaits := n \<rparr>) = tools_ok ctx"
  by (simp add: tools_ok_def)

lemma tools_ok_await_port: "tools_ok ctx \<Longrightarrow> tools_ok (await_port env i v ctx)"
  by (simp add: await_port_def tool_ops.ops_inv)

lemma await_port_catalog: "catalog ctx \<noteq> None \<Longrightarrow> catalog (await_port env i v ctx) \<noteq> None"
  using run_frame_script [of 0 ctx env "fst (catalog_execute env (awaits ctx) i v)"]
  by (simp add: await_port_def run_frame_def)

lemma await_port_limits [simp]: "limits (await_port env i v ctx) = limits ctx"
  using run_frame_script [of 0 ctx env "fst (catalog_execute env (awaits ctx) i v)"]
  by (simp add: await_port_def run_frame_def)

lemma tools_ok_run_port:
  assumes "tools_ok ctx" and "catalog ctx \<noteq> None"
  shows "tools_ok (snd (run_port env i c d v rt ctx))"
proof -
  have ok: "tools_ok (await_port env i v ctx)" by (rule tools_ok_await_port [OF assms(1)])
  obtain k where k: "catalog (await_port env i v ctx) = Some k"
    using await_port_catalog [OF assms(2), of env i v] by auto
  have "tools_ok ((await_port env i v ctx)\<lparr> catalog := Some (snd (settled_result env d v oc c k)) \<rparr>)" for oc
    using ok k settled_budget_ok [of k "await_port env i v ctx" env d v oc c]
    by (simp add: tools_ok_def)
  then show ?thesis
    by (auto simp: run_port_def k Let_def intro: tools_ok_clear ok split: sum.splits)
qed

lemma tools_ok_tick [simp]: "tools_ok (ctx_tick ctx) = tools_ok ctx"
  by (simp add: tools_ok_def)

lemma tools_ok_execute: "tools_ok ctx \<Longrightarrow> tools_ok (snd (execute_catalog_call env call ctx))"
proof -
  assume ok: "tools_ok ctx"
  have "tools_ok (snd (run_port env i c d v rt (enter_call rt j d' (ctx_tick ctx))))"
    if "catalog ctx = Some rt" for i c d v rt j d'
    using ok that by (intro tools_ok_run_port) (simp_all add: tools_ok_def budget_ok_def)
  with ok show ?thesis
    by (auto simp: execute_catalog_call_def Let_def split: option.splits sum.splits)
qed

text \<open>The command bound, before and after a call.\<close>

definition commands_bound :: "nat \<Rightarrow> run_ctx \<Rightarrow> bool" where
  "commands_bound k ctx \<longleftrightarrow>
     commandExecutions (counters ctx) \<le> max 0 (maxCommandExecutions (limits ctx)) + int k"

lemma commands_run_port:
  assumes "verify_stable env" and "commands_bound 0 ctx" and "catalog ctx = Some rt"
    and "ct_active rt = Some ac" and "ac_violation ac = None"
  shows "commands_bound 1 (snd (run_port env i c d v rt0 ctx))"
    and "fst (run_port env i c d v rt0 ctx) = Inr res \<Longrightarrow> commands_bound 0 (snd (run_port env i c d v rt0 ctx))"
proof -
  let ?ctx1 = "await_port env i v ctx"
  have "commands_within ctx"
    using assms(2-5) by (simp add: commands_within_def violated_def commands_bound_def)
  then have "commands_within (fold (port_step env) (fst (catalog_execute env (awaits ctx) i v)) ctx)"
    by (rule commands_within_script [OF assms(1)])
  then have within: "commands_within ?ctx1"
    by (simp add: commands_within_def await_port_def violated_def)
  obtain k where k: "catalog ?ctx1 = Some k"
    using await_port_catalog [of ctx env i v] assms(3) by auto
  have cnt: "counters (snd (run_port env i c d v rt0 ctx)) = counters ?ctx1"
    "limits (snd (run_port env i c d v rt0 ctx)) = limits ?ctx1"
    by (simp_all add: run_port_def k Let_def split: sum.splits)
  show "commands_bound 1 (snd (run_port env i c d v rt0 ctx))"
    using within unfolding commands_bound_def cnt commands_within_def by (simp split: if_splits)
  assume res: "fst (run_port env i c d v rt0 ctx) = Inr res"
  then obtain oc where "fst (settled_result env d v oc c k) = Inr res"
    by (auto simp: run_port_def k Let_def split: sum.splits)
  then have "\<not> violated ?ctx1"
    using settled_violation [of k _ env d v oc c] by (force simp: violated_def k split: option.splits)
  then show "commands_bound 0 (snd (run_port env i c d v rt0 ctx))"
    using within unfolding commands_bound_def cnt commands_within_def by simp
qed

lemma commands_execute:
  assumes "verify_stable env" and "commands_bound 0 ctx"
  shows "commands_bound 1 (snd (execute_catalog_call env call ctx))"
    and "fst (execute_catalog_call env call ctx) = Inr res \<Longrightarrow>
      commands_bound 0 (snd (execute_catalog_call env call ctx))"
proof -
  have enter: "commands_bound 0 (enter_call rt j d (ctx_tick ctx))" for rt j d
    using assms(2) by (simp add: commands_bound_def)
  have run1: "commands_bound 1 (snd (run_port env i c d v rt0 (enter_call rt j d' (ctx_tick ctx))))"
    for i c d v rt0 rt j d'
    by (rule commands_run_port(1) [OF assms(1) enter enter_call_simps(1)], simp, simp)
  have run0: "commands_bound 0 (snd (run_port env i c d v rt0 (enter_call rt j d' (ctx_tick ctx))))"
    if "fst (run_port env i c d v rt0 (enter_call rt j d' (ctx_tick ctx))) = Inr res"
    for i c d v rt0 rt j d' res
    by (rule commands_run_port(2) [OF assms(1) enter enter_call_simps(1) _ _ that], simp, simp)
  have tick: "commands_bound 1 ctx" "commands_bound 1 (ctx_tick ctx)"
    using assms(2) by (simp_all add: commands_bound_def)
  show "commands_bound 1 (snd (execute_catalog_call env call ctx))"
    by (simp add: execute_catalog_call_def Let_def tick run1 del: One_nat_def split: option.splits sum.splits)
  show "fst (execute_catalog_call env call ctx) = Inr res \<Longrightarrow>
      commands_bound 0 (snd (execute_catalog_call env call ctx))"
    by (auto simp: execute_catalog_call_def Let_def intro: run0 split: option.splits sum.splits)
qed

subsection \<open>Captured calls\<close>

text \<open>What the loop later executes is what the provider named: the alias view agrees with it.\<close>

definition bound_call :: "'a harness_env_scheme \<Rightarrow> tool_call \<Rightarrow> bool" where
  "bound_call env c \<longleftrightarrow> matches_id ''_-'' (tc_id c) \<and>
     (\<exists>ivk h now av. tc_invocation c = Some ivk \<and>
        catalog_bind_alias env h (tc_name c) (tc_arguments c) now = Inr av \<and>
        canonical_invocation ivk = canonical_invocation av)"

lemma capture_harness_tool_call_bound:
  assumes "capture_harness_tool_call env h c now = Inr (d, ivk)"
  shows "bound_call env d \<and> tc_invocation d = Some ivk"
proof -
  obtain cap where cap: "capture_call env c = Inr cap"
    using assms by (auto simp: capture_harness_tool_call_def)
  then obtain b av where "tc_invocation cap = Some b" "matches_id ''_-'' (tc_id cap)"
    "catalog_normalize env h b now = Inr ivk"
    "catalog_bind_alias env h (tc_name cap) (tc_arguments cap) now = Inr av"
    "canonical_invocation ivk = canonical_invocation av" "d = cap\<lparr> tc_invocation := Some ivk \<rparr>"
    using assms by (auto simp: capture_harness_tool_call_def split: option.splits if_splits)
  then show ?thesis
    by (auto simp: bound_call_def intro!: exI [of _ ivk] exI [of _ h] exI [of _ now] exI [of _ av])
qed

lemma capture_each_bound:
  "fst (capture_each env h cs ctx) = Inr ds \<Longrightarrow> list_all (bound_call env) ds \<and> length ds = length cs"
proof (induction cs arbitrary: ctx ds)
  case (Cons c cs)
  then obtain d ivk ds' where *: "capture_harness_tool_call env h c (ctx_now env ctx) = Inr (d, ivk)"
    "fst (capture_each env h cs (ctx_tick ctx)) = Inr ds'" "ds = d # ds'"
    by (auto simp: Let_def split: sum.splits)
  with Cons.IH [OF *(2)] capture_harness_tool_call_bound [OF *(1)] show ?case by simp
qed simp

lemma capture_model_bound:
  assumes "fst (capture_model_tool_calls env r ctx) = Inr r'" and "allows_tools (plan ctx)"
  shows "list_all (bound_call env) (r_tool_calls r') \<and> distinct (map tc_id (r_tool_calls r'))"
proof (cases "r_tool_calls r = []")
  case True
  with assms show ?thesis by (simp add: capture_model_tool_calls_def)
next
  case False
  with assms obtain h calls ds where "fst (capture_each env h calls ctx) = Inr ds"
    "distinct (map tc_id ds)" "r' = r\<lparr> r_tool_calls := ds \<rparr>"
    by (auto simp: capture_model_tool_calls_def Let_def split: option.splits sum.splits if_splits)
  with capture_each_bound show ?thesis by fastforce
qed

subsection \<open>Properties of the catalog runtime\<close>

definition listing_tool :: tool_descriptor where
  "listing_tool = \<lparr> d_digest = ''l'', d_effects = [''workspace-read''] \<rparr>"

definition shell_call :: tool_invocation where
  "shell_call = \<lparr> inv_tool_ref = JStr ''shell'', inv_projection = ''p'', inv_offer = ''o'', inv_arguments = JObj [] \<rparr>"

definition provider_call :: tool_call where
  "provider_call = \<lparr> tc_invocation = Some shell_call, tc_id = ''c1'', tc_name = ''shell'', tc_arguments = JObj [] \<rparr>"

definition done_receipt :: tool_receipt where
  "done_receipt = \<lparr> rc_invocation = ''i1'', rc_reservation = Some ''i1'', rc_settlement = ''s1'',
     rc_disposition = DpCommitted, rc_effect_started = True, rc_status = StCompleted \<rparr>"

definition done_result :: result_envelope where
  "done_result = \<lparr> re_invocation = ''i1'', re_status = StCompleted, re_reason = ''ok'',
     re_effect_started = True, re_data = JStr ''out'', re_duration = 7 \<rparr>"

definition ran_command :: tool_evidence where
  "ran_command = \<lparr> te_tool_ref = JStr ''shell'', te_call_id = ''c1'', te_duration = 7, te_command = True,
     te_metadata = None \<rparr>"

text \<open>A catalog whose only tool declares command execution, and one whose tool does not but runs one.\<close>

definition shell_env :: harness_env where
  "shell_env = calm_env\<lparr> catalog_lookup := (\<lambda>h j. Some shell_tool),
     catalog_bind_alias := (\<lambda>h a j t. Inr shell_call),
     catalog_execute := (\<lambda>n i v. ([PReserve shell_tool calm_bc ''i1'', PCommit ''i1''],
       Inr (Settled done_result done_receipt))) \<rparr>"

definition sneaky_env :: harness_env where
  "sneaky_env = shell_env\<lparr> catalog_lookup := (\<lambda>h j. Some listing_tool),
     catalog_execute := (\<lambda>n i v. ([PReserve listing_tool calm_bc ''i1'', PCommit ''i1'', PObserve ran_command],
       Inr (Settled done_result done_receipt))) \<rparr>"

definition catalog_ctx :: "'a harness_env_scheme \<Rightarrow> run_ctx" where
  "catalog_ctx env = (let ctx = bind_harness_catalog env ''r'' calm_ctx
     in ctx\<lparr> catalog := map_option (\<lambda>rt. rt\<lparr> ct_normalizer := Some 0 \<rparr>) (catalog ctx) \<rparr>)"

text \<open>
  A tool that runs a command its descriptor does not declare never yields a result: a call
  that succeeds leaves the command count within the limit, and a call that fails exceeds it by at
  most the one undeclared command.
\<close>

theorem undeclared_command_fails_call:
  assumes "verify_stable env"
    and "commandExecutions (counters ctx) \<le> max 0 (maxCommandExecutions (limits ctx))"
  shows "let out = execute_catalog_call env call ctx in
    commandExecutions (counters (snd out)) \<le> max 0 (maxCommandExecutions (limits (snd out))) + 1 \<and>
    ((\<exists>res. fst out = Inr res) \<longrightarrow>
      commandExecutions (counters (snd out)) \<le> max 0 (maxCommandExecutions (limits (snd out))))"
proof -
  have "commands_bound 0 ctx" using assms(2) by (simp add: commands_bound_def)
  from commands_execute [OF assms(1) this] show ?thesis
    by (auto simp: Let_def commands_bound_def)
qed

theorem undeclared_command_fails_call_witness:
  "commandExecutions (counters (snd (execute_catalog_call sneaky_env provider_call (catalog_ctx sneaky_env)))) \<le>
     max 0 (maxCommandExecutions (limits (snd (execute_catalog_call sneaky_env provider_call (catalog_ctx sneaky_env))))) + 1"
proof -
  have "verify_stable sneaky_env" by (simp add: verify_stable_def sneaky_env_def shell_env_def calm_env_def)
  moreover have "commandExecutions (counters (catalog_ctx sneaky_env)) \<le>
      max 0 (maxCommandExecutions (limits (catalog_ctx sneaky_env)))"
    by (simp add: catalog_ctx_def bind_harness_catalog_def Let_def calm_defs)
  ultimately show ?thesis
    using undeclared_command_fails_call [of sneaky_env "catalog_ctx sneaky_env" provider_call]
    by (simp add: Let_def)
qed

text \<open>
  A result is only returned for a settled invocation: the catalog answered with a
  completed envelope and a matching receipt, the ledger held a charge for the invocation that was
  committed when its effect started and released when it did not, that charge is then closed, and
  no command violation was recorded.
\<close>

theorem tool_result_needs_settled_charge:
  assumes "settled_result env d ivk outcome call_id rt = (Inr res, rt')"
  shows "\<exists>result receipt ch. outcome = Settled result receipt \<and> rc_status receipt = StCompleted \<and>
    map_of (bg_charges (ct_budget rt)) (rc_invocation receipt) = Some ch \<and>
    ch_state ch = (if rc_effect_started receipt then Committed else Released) \<and>
    map_of (bg_charges (ct_budget rt')) (rc_invocation receipt) = None \<and>
    (\<forall>ac. ct_active rt = Some ac \<longrightarrow> ac_violation ac = None)"
proof -
  have res: "fst (settled_result env d ivk outcome call_id rt) = Inr res" using assms by simp
  obtain result receipt env_result where s: "outcome = Settled result receipt"
      "capture_receipt receipt = Some receipt"
      "validate_envelope env result d (inv_projection ivk) = Inr env_result"
      "fst (accept_receipt env receipt d (ct_budget rt)) = Inr ()" "rc_status receipt = StCompleted"
    using settled_success [OF res] by metis
  have rt': "ct_budget rt' = snd (accept_receipt env receipt d (ct_budget rt))"
    using assms s by (auto simp: settled_result_def Let_def)
  obtain ch where "map_of (bg_charges (ct_budget rt)) (rc_invocation receipt) = Some ch"
    "rc_disposition receipt = DpCommitted \<and> ch_state ch = Committed \<and> rc_effect_started receipt \<or>
     rc_disposition receipt = DpReleased \<and> ch_state ch = Released \<and> \<not> rc_effect_started receipt"
    "map_of (bg_charges (snd (accept_receipt env receipt d (ct_budget rt)))) (rc_invocation receipt) = None"
    using accepted_receipt [OF s(4) s(2) s(5)] by metis
  moreover have "\<forall>ac. ct_active rt = Some ac \<longrightarrow> ac_violation ac = None"
    using settled_violation [of rt _ env d ivk outcome call_id] res by force
  ultimately show ?thesis using s(1, 5) rt' by (intro exI [of _ result] exI [of _ receipt] exI [of _ ch]) auto
qed

definition charged_rt :: catalog_runtime where
  "charged_rt = \<lparr> ct_normalizer = Some 0, ct_budget = \<lparr> bg_run_id = ''r'', bg_deadline = 100,
     bg_charges = [(''i1'', \<lparr> ch_reservation = ''i1'', ch_digest = ''d'', ch_command = True,
       ch_state = Committed \<rparr>)], bg_failed = False, bg_last_now = 0 \<rparr>, ct_active = None \<rparr>"

theorem tool_result_needs_settled_charge_witness:
  "\<exists>ch. map_of (bg_charges (ct_budget charged_rt)) ''i1'' = Some ch \<and> ch_state ch = Committed"
proof -
  have "\<exists>res rt'. settled_result shell_env shell_tool shell_call (Settled done_result done_receipt) ''c1'' charged_rt =
      (Inr res, rt')"
    by (simp add: settled_result_def charged_rt_def done_result_def done_receipt_def shell_env_def calm_env_def
        shell_tool_def shell_call_def capture_receipt_def matches_id_def is_alnum_def receipt_accounting_ok_def
        disposition_commits_def disposition_uncertain_def accept_receipt_def reconcile_receipt_def
        charge_matches_def Let_def)
  then obtain res rt' where "settled_result shell_env shell_tool shell_call
      (Settled done_result done_receipt) ''c1'' charged_rt = (Inr res, rt')" by blast
  from tool_result_needs_settled_charge [OF this] show ?thesis by (auto simp: done_receipt_def)
qed

text \<open>
  On a plan that allows tools, a model response is only accepted when all its tool calls
  have distinct well-formed ids and each is bound to the invocation that the provider's own alias
  and arguments name.
\<close>

theorem accepted_calls_are_bound:
  assumes "fst (capture_model_tool_calls env response ctx) = Inr response'"
    and "allows_tools (plan ctx)"
  shows "distinct (map tc_id (r_tool_calls response')) \<and>
    (\<forall>c\<in>set (r_tool_calls response'). matches_id ''_-'' (tc_id c) \<and>
      (\<exists>ivk h now av. tc_invocation c = Some ivk \<and>
        catalog_bind_alias env h (tc_name c) (tc_arguments c) now = Inr av \<and>
        canonical_invocation ivk = canonical_invocation av))"
  using capture_model_bound [OF assms] by (simp add: list_all_iff bound_call_def)

definition tool_plan_ctx :: run_ctx where
  "tool_plan_ctx = (catalog_ctx shell_env)\<lparr> plan := (plan calm_ctx)\<lparr> allows_tools := True \<rparr> \<rparr>"

theorem accepted_calls_are_bound_witness:
  "fst (capture_model_tool_calls shell_env (ok_response\<lparr> r_tool_calls := [provider_call] \<rparr>) tool_plan_ctx) =
      Inr (ok_response\<lparr> r_tool_calls := [provider_call] \<rparr>) \<and>
   matches_id ''_-'' (tc_id provider_call) \<and> (\<exists>ivk. tc_invocation provider_call = Some ivk)"
proof -
  have run: "fst (capture_model_tool_calls shell_env (ok_response\<lparr> r_tool_calls := [provider_call] \<rparr>)
      tool_plan_ctx) = Inr (ok_response\<lparr> r_tool_calls := [provider_call] \<rparr>)"
    by (simp add: capture_model_tool_calls_def capture_harness_tool_call_def tool_plan_ctx_def catalog_ctx_def
        bind_harness_catalog_def shell_env_def calm_env_def provider_call_def ok_response_def
        matches_id_def is_alnum_def Let_def)
  from accepted_calls_are_bound [OF this] have "matches_id ''_-'' (tc_id provider_call) \<and>
      (\<exists>ivk. tc_invocation provider_call = Some ivk)"
    by (auto simp: tool_plan_ctx_def)
  with run show ?thesis by blast
qed

end
