(* ===== verification/Context_Compaction.thy ===== *)
theory Context_Compaction
  imports Catalog_Runtime
begin

text \<open>
  History compaction as the harness runs it (\<open>tryCompact\<close> in \<open>packages/keiko-harness/src/loop.ts\<close>)
  and the contract of the injected port (\<open>context-compaction-port.ts\<close>). \<open>tryCompact\<close> trusts no port:
  its lemmas hold for every one. The contract says what a run gains from a port that keeps it.
\<close>

text \<open>The count reported on the event: the port's own when it is plausible, net shrinkage otherwise.\<close>

definition messages_dropped :: "nat \<Rightarrow> nat \<Rightarrow> evicted_report option \<Rightarrow> int" where
  "messages_dropped before after reported =
     (let net = max 0 (int before - int after)
      in case reported of
           Some (EvictedCount n) \<Rightarrow> if 0 \<le> n \<and> n \<le> int before then n else net
         | _ \<Rightarrow> net)"

definition try_compact :: "'a harness_env_scheme \<Rightarrow> run_ctx \<Rightarrow> bool \<times> run_ctx" where
  "try_compact env ctx = (case compaction_port env of
     None \<Rightarrow> (False, ctx)
   | Some port \<Rightarrow>
       (case port (awaits ctx) (messages ctx) (maxContextBytes (limits ctx)) of
          Inl e \<Rightarrow> (False, ctx)
        | Inr None \<Rightarrow> (False, ctx)
        | Inr (Some result) \<Rightarrow>
            (let bytes_before = context_bytes (messages ctx);
                 bytes_after = context_bytes (cr_messages result)
             in if bytes_after > maxContextBytes (limits ctx) then (False, ctx)
                else (True, ctx_emit env
                  (ContextCompacted
                    (messages_dropped (length (messages ctx)) (length (cr_messages result)) (cr_evicted result))
                    bytes_before bytes_after)
                  (ctx\<lparr> messages := cr_messages result \<rparr>)))))"

lemma messages_dropped_bounds: "0 \<le> messages_dropped b a r \<and> messages_dropped b a r \<le> int b"
  by (auto simp: messages_dropped_def Let_def split: option.splits evicted_report.splits)

text \<open>Compaction either leaves the run alone or replaces its history by one that fits.\<close>

lemma try_compact_cases:
  obtains (declined) "try_compact env ctx = (False, ctx)"
    | (compacted) ms n where "0 \<le> n" "n \<le> int (length (messages ctx))"
      "context_bytes ms \<le> maxContextBytes (limits ctx)"
      "try_compact env ctx = (True, ctx_emit env
         (ContextCompacted n (context_bytes (messages ctx)) (context_bytes ms)) (ctx\<lparr> messages := ms \<rparr>))"
proof (cases "try_compact env ctx = (False, ctx)")
  case False
  then obtain port result where "compaction_port env = Some port"
    "port (awaits ctx) (messages ctx) (maxContextBytes (limits ctx)) = Inr (Some result)"
    "context_bytes (cr_messages result) \<le> maxContextBytes (limits ctx)"
    by (auto simp: try_compact_def Let_def split: option.splits sum.splits if_splits)
  then show ?thesis
    using messages_dropped_bounds [of "length (messages ctx)" "length (cr_messages result)" "cr_evicted result"]
    by (intro compacted [of _ "cr_messages result"]) (auto simp: try_compact_def Let_def)
qed

subsection \<open>The contract of a compaction port\<close>

text \<open>
  A conversation is well paired when every tool message answers a call of the last assistant message
  before it.
\<close>

definition call_ids :: "chat_message \<Rightarrow> string list" where
  "call_ids m = (case m_tool_calls m of None \<Rightarrow> [] | Some cs \<Rightarrow> map tc_id cs)"

fun paired :: "string list \<Rightarrow> chat_message list \<Rightarrow> bool" where
  "paired ids [] \<longleftrightarrow> True"
| "paired ids (m # ms) \<longleftrightarrow>
     (if m_role m = Assistant then paired (call_ids m) ms
      else (m_role m = Tool \<longrightarrow> (case m_tool_call_id m of None \<Rightarrow> False | Some i \<Rightarrow> i \<in> set ids)) \<and> paired ids ms)"

definition tool_messages :: "chat_message list \<Rightarrow> chat_message list" where
  "tool_messages ms = filter (\<lambda>m. m_role m = Tool) ms"

locale compaction_contract =
  fixes compact :: "chat_message list \<Rightarrow> int \<Rightarrow> (chat_message list \<times> nat) option"
  assumes compact_fits: "compact ms b = Some (ms', k) \<Longrightarrow> context_bytes ms' \<le> b"
    and compact_evicted: "compact ms b = Some (ms', k) \<Longrightarrow> k \<le> length ms"
    and compact_paired: "compact ms b = Some (ms', k) \<Longrightarrow> paired [] ms \<Longrightarrow> paired [] ms'"
    and compact_tools: "compact ms b = Some (ms', k) \<Longrightarrow> set (tool_messages ms') \<subseteq> set (tool_messages ms)"
begin

definition port_result :: "chat_message list \<Rightarrow> int \<Rightarrow> thrown + compaction_result option" where
  "port_result ms b = Inr (map_option (\<lambda>r. \<lparr> cr_messages = fst r,
     cr_evicted = Some (EvictedCount (int (snd r))) \<rparr>) (compact ms b))"

text \<open>With a port that keeps the contract, the harness adopts exactly what the port returns.\<close>

lemma adopts:
  assumes "compaction_port env = Some (\<lambda>n. port_result)"
    and "compact (messages ctx) (maxContextBytes (limits ctx)) = Some (ms', k)"
  shows "try_compact env ctx = (True, ctx_emit env
    (ContextCompacted (int k) (context_bytes (messages ctx)) (context_bytes ms')) (ctx\<lparr> messages := ms' \<rparr>))"
  using assms compact_fits [OF assms(2)] compact_evicted [OF assms(2)]
  by (auto simp: try_compact_def port_result_def messages_dropped_def Let_def)

lemma declines:
  assumes "compaction_port env = Some (\<lambda>n. port_result)"
    and "compact (messages ctx) (maxContextBytes (limits ctx)) = None"
  shows "try_compact env ctx = (False, ctx)"
  using assms by (simp add: try_compact_def port_result_def)

lemma keeps_pairing:
  assumes "compaction_port env = Some (\<lambda>n. port_result)" and "paired [] (messages ctx)"
  shows "paired [] (messages (snd (try_compact env ctx)))"
proof (cases "compact (messages ctx) (maxContextBytes (limits ctx))")
  case None
  with declines [OF assms(1)] assms(2) show ?thesis by simp
next
  case (Some r)
  obtain ms' k where r: "r = (ms', k)" by (cases r)
  with adopts [OF assms(1)] compact_paired assms(2) Some show ?thesis by simp
qed

end

end
