(* ===== verification/Executor.thy ===== *)
theory Executor
  imports Context_Compaction
begin

text \<open>
  The handlers of the model-call and tool-call states (\<open>packages/keiko-harness/src/executor.ts\<close>) and
  of the states without ports (\<open>planner.ts\<close>, \<open>patcher.ts\<close>). A handler takes the run and returns its
  step and the run. Every \<open>await\<close> is an \<open>await_point\<close>, where the deadline or a cancellation may
  intervene.
\<close>

subsection \<open>Planning and context selection (\<open>planner.ts\<close>)\<close>

definition handle_planning :: "'a emitter_env_scheme \<Rightarrow> run_ctx \<Rightarrow> state_step \<times> run_ctx" where
  "handle_planning env ctx =
     (to_step ContextSelection ''plan constructed'',
      ctx_emit env (ReasoningTrace Planning (rationale (plan ctx)) None) ctx)"

definition context_exceeds :: "int \<Rightarrow> run_ctx \<Rightarrow> string" where
  "context_exceeds bytes ctx = ''context '' @ int_text bytes @ '' bytes exceeds limit '' @
     int_text (maxContextBytes (limits ctx))"

definition handle_context_selection :: "run_ctx \<Rightarrow> state_step \<times> run_ctx" where
  "handle_context_selection ctx =
     (let bytes = context_bytes (messages ctx)
      in if bytes > maxContextBytes (limits ctx)
         then (to_step LimitExceeded ''maxContextBytes exceeded'',
               set_failure LimitContextSize (context_exceeds bytes ctx) ctx)
         else (to_step ModelCall ''context assembled within byte budget'', ctx))"

subsection \<open>Patch proposal, verification and reporting (\<open>patcher.ts\<close>)\<close>

definition response_content :: "string \<Rightarrow> run_ctx \<Rightarrow> string" where
  "response_content d ctx = (case last_response ctx of None \<Rightarrow> d | Some r \<Rightarrow> r_content r)"

definition handle_patch_proposal :: "'a emitter_env_scheme \<Rightarrow> run_ctx \<Rightarrow> state_step \<times> run_ctx" where
  "handle_patch_proposal env ctx =
     (let diff = response_content [] ctx;
          bytes = int (length diff)
      in if bytes > maxPatchBytes (limits ctx)
         then (to_step LimitExceeded ''maxPatchBytes exceeded'',
               set_failure LimitPatchSize (''patch '' @ int_text bytes @ '' bytes exceeds limit '' @
                 int_text (maxPatchBytes (limits ctx))) ctx)
         else (to_step Verification ''patch assembled and proposed (not applied)'',
               ctx_emit env (PatchProposed (target_file (plan ctx)) bytes diff)
                 (ctx\<lparr> patch_diff := Some diff \<rparr>)))"

definition count_failure :: "run_ctx \<Rightarrow> run_ctx" where
  "count_failure ctx =
     ctx\<lparr> counters := (counters ctx)\<lparr> failureAttempts := failureAttempts (counters ctx) + 1 \<rparr> \<rparr>"

definition handle_verification :: "'a emitter_env_scheme \<Rightarrow> run_ctx \<Rightarrow> state_step \<times> run_ctx" where
  "handle_verification env ctx =
     (let passed = \<not> is_blank (case patch_diff ctx of None \<Rightarrow> [] | Some d \<Rightarrow> d);
          ctx1 = ctx_emit env (VerificationResult passed
            (if passed then ''non-empty patch produced'' else ''empty patch'')) ctx
      in if passed then (to_step Reporting ''verification passed'', ctx1)
         else
           let ctx2 = count_failure ctx1
           in if failureAttempts (counters ctx2) \<ge> maxFailureAttempts (limits ctx2)
              then (to_step LimitExceeded ''maxFailureAttempts exceeded after verification'',
                    set_failure LimitFailureAttempts ''verification kept failing'' ctx2)
              else (to_step Planning ''verification failed; re-planning'', ctx2))"

definition handle_reporting :: "run_ctx \<Rightarrow> state_step \<times> run_ctx" where
  "handle_reporting ctx =
     (to_step Completed ''report generated'',
      ctx\<lparr> report := Some (response_content ''no model output'' ctx) \<rparr>)"

subsection \<open>Model call\<close>

definition build_request ::
  "'a harness_env_scheme \<Rightarrow> run_ctx \<Rightarrow> (thrown + gateway_request) \<times> run_ctx" where
  "build_request env ctx =
     (let r = (if allows_tools (plan ctx) then catalog_advertisement env ctx else (Inr None, ctx))
      in (rbind (fst r) (\<lambda>offer. Inr \<lparr> gq_model = model_id ctx, gq_scope = reasoning_scope ctx,
            gq_messages = messages ctx, gq_catalog = offer \<rparr>), snd r))"

definition route_after_model :: "model_response \<Rightarrow> run_ctx \<Rightarrow> state_step \<times> run_ctx" where
  "route_after_model response ctx =
     (if r_finish response = ToolCalls then
        (if \<not> allows_tools (plan ctx)
         then (to_step Failed ''tool_calls finishReason forbidden for this task type'',
               set_failure InternalError ''model requested tool calls on a read-only task type'' ctx)
         else (to_step ToolCall ''model requested tool calls'', ctx))
      else if allows_patch (plan ctx)
      then (to_step PatchProposal ''model produced final content; assembling patch'', ctx)
      else (to_step Reporting ''model produced final content; read-only task'', ctx))"

definition on_catalog_dispatch_error :: "harness_code \<Rightarrow> string \<Rightarrow> run_ctx \<Rightarrow> state_step \<times> run_ctx" where
  "on_catalog_dispatch_error category message ctx =
     (to_step (if is_limit_code category then LimitExceeded else Failed)
        ''catalog dispatch failed before the model call completed'',
      set_failure category message ctx)"

definition wall_time_claimed :: "run_ctx \<Rightarrow> bool" where
  "wall_time_claimed ctx \<longleftrightarrow>
     (case failure ctx of None \<Rightarrow> False | Some f \<Rightarrow> f_category f = LimitWallTime)"

definition on_model_call_aborted :: "run_ctx \<Rightarrow> state_step" where
  "on_model_call_aborted ctx =
     (if wall_time_claimed ctx then to_step LimitExceeded ''maxWallTimeMs exceeded during model call''
      else to_step Cancelled ''abort detected during model call'')"

fun is_cancelled_error :: "thrown \<Rightarrow> bool" where
  "is_cancelled_error (CancelledThrown m) = True"
| "is_cancelled_error e = False"

text \<open>\<open>CancelledError\<close> is a \<open>GatewayError\<close> too, but returns before its code is read.\<close>

fun gateway_code :: "thrown \<Rightarrow> string" where
  "gateway_code (GatewayThrown c m r) = c"
| "gateway_code e = ''UNKNOWN''"

fun is_retryable :: "thrown \<Rightarrow> bool" where
  "is_retryable (GatewayThrown c m r) = r"
| "is_retryable e = False"

definition on_model_error :: "'a emitter_env_scheme \<Rightarrow> thrown \<Rightarrow> run_ctx \<Rightarrow> state_step \<times> run_ctx" where
  "on_model_error env e ctx =
     (if aborted ctx \<or> is_cancelled_error e then (on_model_call_aborted ctx, ctx)
      else
        let message = thrown_message ''model call failed'' e;
            ctx1 = ctx_emit env (ModelCallFailed (model_id ctx) (gateway_code e) message) ctx
        in case e of
             CatalogThrown category m \<Rightarrow> on_catalog_dispatch_error category m ctx1
           | _ \<Rightarrow>
               if \<not> is_retryable e
               then (to_step Failed ''non-retryable model error'', set_failure ModelError message ctx1)
               else
                 let ctx2 = count_failure ctx1
                 in if failureAttempts (counters ctx2) \<ge> maxFailureAttempts (limits ctx2)
                    then (to_step LimitExceeded ''maxFailureAttempts exceeded'',
                          set_failure LimitFailureAttempts ''max failure attempts reached'' ctx2)
                    else (to_step Planning ''retryable model error; re-planning'', ctx2))"

definition assistant_message :: "model_response \<Rightarrow> chat_message" where
  "assistant_message response = \<lparr> m_role = Assistant, m_content = r_content response, m_tool_call_id = None,
     m_tool_calls = (if r_tool_calls response = [] then None else Some (r_tool_calls response)) \<rparr>"

definition record_response :: "'a emitter_env_scheme \<Rightarrow> model_response \<Rightarrow> run_ctx \<Rightarrow> run_ctx" where
  "record_response env response ctx =
     (ctx_emit env (ReasoningTrace ModelCall ''evaluated model response and selected next state''
        (Some (r_content response)))
      (ctx_emit env (ModelCallCompleted (model_id ctx) (r_finish response)
        (int (length (r_tool_calls response))) (r_usage response)) ctx))
      \<lparr> messages := messages ctx @ [assistant_message response], last_response := Some response \<rparr>"

definition start_model_call :: "'a emitter_env_scheme \<Rightarrow> run_ctx \<Rightarrow> run_ctx" where
  "start_model_call env ctx =
     ctx_emit env (ModelCallStarted (model_id ctx) (int (length (messages ctx))) (context_bytes (messages ctx)))
       (ctx\<lparr> counters := (counters ctx)\<lparr> modelCalls := modelCalls (counters ctx) + 1 \<rparr> \<rparr>)"

definition call_model ::
  "'a harness_env_scheme \<Rightarrow> run_ctx \<Rightarrow> (thrown + model_response) \<times> run_ctx" where
  "call_model env ctx =
     (let r = build_request env ctx
      in case fst r of
           Inl e \<Rightarrow> (Inl e, snd r)
         | Inr request \<Rightarrow>
             (case model_port env (awaits (snd r)) request of
                Inl e \<Rightarrow> (Inl e, await_point env (snd r))
              | Inr response \<Rightarrow> capture_model_tool_calls env response (await_point env (snd r))))"

definition handle_model_call :: "'a harness_env_scheme \<Rightarrow> run_ctx \<Rightarrow> state_step \<times> run_ctx" where
  "handle_model_call env ctx =
     (let r = call_model env (start_model_call env ctx)
      in case fst r of
           Inl e \<Rightarrow> on_model_error env e (snd r)
         | Inr response \<Rightarrow> route_after_model response (record_response env response (snd r)))"

subsection \<open>Tool results\<close>

record tool_candidate =
  cand_raw :: chat_message
  cand_compact :: "chat_message option"

definition enrich_with_observation ::
  "'a harness_env_scheme \<Rightarrow> tool_call \<Rightarrow> tool_result \<Rightarrow> run_ctx \<Rightarrow> thrown + tool_result" where
  "enrich_with_observation env call result ctx = (case shaper_port env of
     None \<Rightarrow> Inr result
   | Some port \<Rightarrow> rbind (port (awaits ctx) result call) (\<lambda>obs.
       Inr (case obs of None \<Rightarrow> result | Some ob \<Rightarrow> result\<lparr> tr_observation := Some ob \<rparr>)))"

definition compacted_summary :: string where
  "compacted_summary = ''Raw tool output exceeded the live harness context budget; this bounded '' @
     ''observation preserves failure facts and rehydration metadata.''"

text \<open>\<open>None\<close> when \<open>JSON.stringify\<close> throws on the observation.\<close>

definition compact_observation_content :: "observation \<Rightarrow> string option" where
  "compact_observation_content ob = map_option (\<lambda>v. stringify_pretty 0 (JObj
     [(''kind'', JStr ''keiko.compactedToolObservation''), (''summary'', JStr compacted_summary),
      (''laneId'', JStr (case ob_lane ob of None \<Rightarrow> ''tool-observations'' | Some l \<Rightarrow> l)),
      (''observation'', v)])) (ob_json ob)"

definition stringify_error :: thrown where
  "stringify_error = ErrorThrown ''Converting circular structure to JSON''"

definition tool_message_candidate :: "tool_result \<Rightarrow> thrown + tool_candidate" where
  "tool_message_candidate result =
     (let raw = tool_message (tr_call_id result) (tr_output result)
      in case tr_observation result of
           None \<Rightarrow> Inr \<lparr> cand_raw = raw, cand_compact = None \<rparr>
         | Some ob \<Rightarrow>
             (case compact_observation_content ob of
                None \<Rightarrow> Inl stringify_error
              | Some c \<Rightarrow> Inr \<lparr> cand_raw = raw, cand_compact = Some (tool_message (tr_call_id result) c) \<rparr>))"

definition emit_shaping_degraded :: "'a emitter_env_scheme \<Rightarrow> tool_call \<Rightarrow> shaping_reason \<Rightarrow> run_ctx \<Rightarrow> run_ctx" where
  "emit_shaping_degraded env call reason ctx =
     ctx_emit env (ToolShapingDegraded (tc_id call) (tc_name call) reason) ctx"

text \<open>The map of compacted messages is read by key only; the newest entry of a key comes first.\<close>

definition shape_or_fall_back_to_raw ::
  "'a harness_env_scheme \<Rightarrow> tool_call \<Rightarrow> tool_result \<Rightarrow> run_ctx \<Rightarrow> (thrown + tool_candidate) \<times> run_ctx" where
  "shape_or_fall_back_to_raw env call result ctx =
     (case enrich_with_observation env call result ctx of
        Inl e \<Rightarrow> (tool_message_candidate result, emit_shaping_degraded env call ShaperThrew ctx)
      | Inr enriched \<Rightarrow>
          (case tool_message_candidate enriched of
             Inl e \<Rightarrow> (tool_message_candidate result,
                       emit_shaping_degraded env call UnserializableObservation ctx)
           | Inr cand \<Rightarrow>
               (Inr cand,
                ctx\<lparr> shaped_observations := shaped_observations ctx @
                        (case tr_observation enriched of None \<Rightarrow> [] | Some ob \<Rightarrow> [ob]),
                     compacted_messages :=
                        (case cand_compact cand of None \<Rightarrow> [] | Some m \<Rightarrow> [(tc_id call, m)]) @
                        compacted_messages ctx \<rparr>)))"

definition complete_tool_call ::
  "'a harness_env_scheme \<Rightarrow> tool_call \<Rightarrow> tool_result \<Rightarrow> run_ctx \<Rightarrow> (thrown + tool_candidate) \<times> run_ctx" where
  "complete_tool_call env call result ctx =
     shape_or_fall_back_to_raw env call result
       (ctx_emit env (ToolCallCompleted (tc_name call) (tc_id call) (tr_duration result)) ctx)"

subsection \<open>Selection under the context budget\<close>

definition compact_one :: "(string \<times> chat_message) list \<Rightarrow> chat_message \<Rightarrow> chat_message" where
  "compact_one compacted m =
     (if m_role m \<noteq> Tool then m
      else case m_tool_call_id m of
        None \<Rightarrow> m
      | Some i \<Rightarrow>
          (case map_of compacted i of
             None \<Rightarrow> m
           | Some c \<Rightarrow> if m_content c = m_content m then m else c))"

text \<open>\<open>changed\<close> is set exactly when some message is replaced by one with other content.\<close>

definition compact_tool_messages ::
  "(string \<times> chat_message) list \<Rightarrow> chat_message list \<Rightarrow> chat_message list \<times> bool" where
  "compact_tool_messages compacted ms =
     (map (compact_one compacted) ms,
      list_ex (\<lambda>m. m_content (compact_one compacted m) \<noteq> m_content m) ms)"

record tool_selection =
  sel_messages :: "chat_message list"
  sel_results :: "chat_message list"
  sel_message :: chat_message

definition select_if_fits ::
  "run_ctx \<Rightarrow> chat_message list \<Rightarrow> chat_message list \<Rightarrow> chat_message \<Rightarrow> tool_selection option" where
  "select_if_fits ctx ms results m =
     (if context_bytes (ms @ results @ [m]) > maxContextBytes (limits ctx) then None
      else Some \<lparr> sel_messages = ms, sel_results = results, sel_message = m \<rparr>)"

definition tool_output_budget_exceeded :: "int \<Rightarrow> run_ctx \<Rightarrow> state_step \<times> run_ctx" where
  "tool_output_budget_exceeded bytes ctx =
     (to_step LimitExceeded ''maxContextBytes exceeded after tool output'',
      set_failure LimitContextSize (context_exceeds bytes ctx) ctx)"

definition select_tool_message ::
  "chat_message list \<Rightarrow> tool_candidate \<Rightarrow> run_ctx \<Rightarrow> (state_step + tool_selection) \<times> run_ctx" where
  "select_tool_message results cand ctx =
     (case select_if_fits ctx (messages ctx) results (cand_raw cand) of
        Some s \<Rightarrow> (Inr s, ctx)
      | None \<Rightarrow>
          (let raw_bytes = context_bytes (messages ctx @ results @ [cand_raw cand]);
               cms = compact_tool_messages (compacted_messages ctx) (messages ctx);
               crs = compact_tool_messages (compacted_messages ctx) results;
               changed = snd cms \<or> snd crs;
               raw_after = select_if_fits ctx (fst cms) (fst crs) (cand_raw cand);
               compact = (case cand_compact cand of
                 None \<Rightarrow> None | Some m \<Rightarrow> select_if_fits ctx (fst cms) (fst crs) m)
           in case (if changed then raw_after else None) of
                Some s \<Rightarrow> (Inr s, ctx)
              | None \<Rightarrow>
                  (case compact of
                     Some s \<Rightarrow> (Inr s, ctx)
                   | None \<Rightarrow>
                       (let r = tool_output_budget_exceeded raw_bytes ctx
                        in (Inl (fst r), snd r)))))"

subsection \<open>Tool calls\<close>

fun tool_failure_code :: "thrown \<Rightarrow> string" where
  "tool_failure_code (ToolThrown c m) = c"
| "tool_failure_code (WorkspaceThrown c m) = c"
| "tool_failure_code e = ''TOOL_ERROR''"

fun tool_failure_category :: "thrown \<Rightarrow> harness_code" where
  "tool_failure_category (CatalogThrown c m) = c"
| "tool_failure_category e = ToolError"

definition abort_step :: "run_ctx \<Rightarrow> string \<Rightarrow> state_step" where
  "abort_step ctx reason =
     (if wall_time_claimed ctx then to_step LimitExceeded ''maxWallTimeMs exceeded during tool call''
      else to_step Cancelled reason)"

definition on_tool_error ::
  "'a emitter_env_scheme \<Rightarrow> tool_call \<Rightarrow> thrown \<Rightarrow> run_ctx \<Rightarrow> state_step \<times> run_ctx" where
  "on_tool_error env call e ctx =
     (let message = thrown_message ''tool execution failed'' e;
          ctx1 = ctx_emit env (ToolCallFailed (tc_name call) (tc_id call) (tool_failure_code e) message) ctx
      in if aborted ctx1 \<or> is_cancelled_error e
         then (abort_step ctx1 ''abort detected during tool call'', ctx1)
         else (to_step (if is_limit_code (tool_failure_category e) then LimitExceeded else Failed)
                 ''tool execution failed'',
               set_failure (tool_failure_category e) message ctx1))"

definition run_one_tool ::
  "'a harness_env_scheme \<Rightarrow> tool_call \<Rightarrow> run_ctx \<Rightarrow> (state_step + tool_candidate) \<times> run_ctx" where
  "run_one_tool env call ctx =
     (let x = execute_catalog_call env call (ctx_emit env (ToolCallStarted (tc_name call) (tc_id call)) ctx);
          ctx1 = await_point env (snd x);
          r = (case fst x of
                 Inl e \<Rightarrow> (Inl e, ctx1)
               | Inr result \<Rightarrow> complete_tool_call env call result ctx1)
      in case fst r of
           Inr cand \<Rightarrow> (Inr cand, snd r)
         | Inl e \<Rightarrow>
             (let f = on_tool_error env call e (snd r) in (Inl (fst f), snd f)))"

fun tool_loop ::
  "'a harness_env_scheme \<Rightarrow> tool_call list \<Rightarrow> chat_message list \<Rightarrow> run_ctx \<Rightarrow> state_step \<times> run_ctx" where
  "tool_loop env [] results ctx =
     (to_step ModelCall ''tool results fed back to model'', ctx\<lparr> messages := messages ctx @ results \<rparr>)"
| "tool_loop env (c # cs) results ctx =
     (if aborted ctx then (abort_step ctx ''abort detected before tool call'', ctx)
      else
        let r = run_one_tool env c ctx;
            ctx1 = await_point env (snd r)
        in case fst r of
             Inl step \<Rightarrow> (step, ctx1)
           | Inr cand \<Rightarrow>
               (let s = select_tool_message results cand ctx1
                in case fst s of
                     Inl step \<Rightarrow> (step, snd s)
                   | Inr sel \<Rightarrow>
                       tool_loop env cs (sel_results sel @ [sel_message sel])
                         ((snd s)\<lparr> messages := sel_messages sel \<rparr>)))"

definition pending_calls :: "run_ctx \<Rightarrow> tool_call list" where
  "pending_calls ctx = (case last_response ctx of None \<Rightarrow> [] | Some r \<Rightarrow> r_tool_calls r)"

definition handle_tool_call :: "'a harness_env_scheme \<Rightarrow> run_ctx \<Rightarrow> state_step \<times> run_ctx" where
  "handle_tool_call env ctx = tool_loop env (pending_calls ctx) [] ctx"

subsection \<open>Frames of the handlers\<close>

text \<open>
  What every handler leaves to the loop: the plan, the limits, the iteration count, the transitions
  and model calls recorded so far. A signal once aborted stays aborted.
\<close>

fun is_route :: "event_body \<Rightarrow> bool" where
  "is_route (StateTransition a b r) = True"
| "is_route (ModelCallStarted m n k) = True"
| "is_route (RunCompleted r d) = True"
| "is_route (RunCancelled r s) = True"
| "is_route (RunFailed f s) = True"
| "is_route b = False"

definition route :: "nat \<Rightarrow> run_ctx \<Rightarrow> event_body list" where
  "route m ctx = filter is_route (run_log m ctx)"

lemma is_route_flow: "is_route b \<Longrightarrow> is_flow b"
  by (cases b) simp_all

lemma route_flow: "route m ctx = filter is_route (flow m ctx)"
proof -
  have "(\<lambda>b. is_flow b \<and> is_route b) = is_route" using is_route_flow by (auto simp: fun_eq_iff)
  then show ?thesis by (simp add: route_def flow_def)
qed

definition loop_frame :: "nat \<Rightarrow> run_ctx \<Rightarrow> run_ctx \<Rightarrow> bool" where
  "loop_frame m a b \<longleftrightarrow>
     plan b = plan a \<and> limits b = limits a \<and> started_at b = started_at a \<and>
     iterations (counters b) = iterations (counters a) \<and> (aborted a \<longrightarrow> aborted b) \<and>
     (catalog b = None) = (catalog a = None) \<and>
     (log_ok m a \<longrightarrow> log_ok m b \<and> route m b = route m a)"

lemma loop_frame_refl [simp]: "loop_frame m a a"
  by (simp add: loop_frame_def)

lemma loop_frame_trans [trans]: "loop_frame m a b \<Longrightarrow> loop_frame m b c \<Longrightarrow> loop_frame m a c"
  by (simp add: loop_frame_def)

lemma run_loop_frame: "run_frame m a b \<Longrightarrow> loop_frame m a b"
  by (simp add: run_frame_def loop_frame_def route_flow)

lemma route_emit [simp]:
  "log_ok m ctx \<Longrightarrow> route m (ctx_emit env b ctx) = route m ctx @ (if is_route b then [b] else [])"
  using is_route_flow [of b] by (auto simp: route_flow)

lemma route_tick [simp]: "route m (ctx_tick ctx) = route m ctx"
  by (simp add: route_flow)

lemma route_update [simp]:
  "route m (ctx\<lparr> counters := c \<rparr>) = route m ctx" "route m (ctx\<lparr> messages := ms \<rparr>) = route m ctx"
  "route m (ctx\<lparr> last_response := r \<rparr>) = route m ctx" "route m (ctx\<lparr> patch_diff := d \<rparr>) = route m ctx"
  "route m (ctx\<lparr> report := p \<rparr>) = route m ctx" "route m (ctx\<lparr> failure := f \<rparr>) = route m ctx"
  "route m (ctx\<lparr> cancelled_at := s \<rparr>) = route m ctx" "route m (ctx\<lparr> shaped_observations := so \<rparr>) = route m ctx"
  "route m (ctx\<lparr> compacted_messages := cm \<rparr>) = route m ctx"
  by (simp_all add: route_flow)

lemma loop_frame_emit: "\<not> is_route b \<Longrightarrow> loop_frame m ctx (ctx_emit env b ctx)"
  by (simp add: loop_frame_def)

lemma log_set_failure [simp]:
  "log_ok m (set_failure c t ctx) = log_ok m ctx" "route m (set_failure c t ctx) = route m ctx"
  "flow m (set_failure c t ctx) = flow m ctx"
  by (simp_all add: set_failure_def)

lemma loop_frame_set_failure: "loop_frame m a b \<Longrightarrow> loop_frame m a (set_failure c t b)"
  by (simp add: loop_frame_def)

lemma loop_frame_count: "loop_frame m a b \<Longrightarrow> loop_frame m a (count_failure b)"
  by (simp add: loop_frame_def count_failure_def)

lemma loop_frame_update:
  "loop_frame m a b \<Longrightarrow> loop_frame m a (b\<lparr> messages := ms \<rparr>)"
  "loop_frame m a b \<Longrightarrow> loop_frame m a (b\<lparr> last_response := r \<rparr>)"
  "loop_frame m a b \<Longrightarrow> loop_frame m a (b\<lparr> patch_diff := d \<rparr>)"
  "loop_frame m a b \<Longrightarrow> loop_frame m a (b\<lparr> report := p \<rparr>)"
  "loop_frame m a b \<Longrightarrow> loop_frame m a (b\<lparr> shaped_observations := so \<rparr>)"
  "loop_frame m a b \<Longrightarrow> loop_frame m a (b\<lparr> compacted_messages := cm \<rparr>)"
  "loop_frame m a b \<Longrightarrow> iterations c = iterations (counters b) \<Longrightarrow> loop_frame m a (b\<lparr> counters := c \<rparr>)"
  by (simp_all add: loop_frame_def)

lemma loop_frame_emit': "loop_frame m a b \<Longrightarrow> \<not> is_route x \<Longrightarrow> loop_frame m a (ctx_emit env x b)"
  by (blast intro: loop_frame_trans loop_frame_emit)

lemmas loop_frames = loop_frame_refl loop_frame_set_failure loop_frame_count loop_frame_update
  loop_frame_emit'

lemma loop_frame_planning: "loop_frame m ctx (snd (handle_planning env ctx))"
  by (simp add: handle_planning_def loop_frames)

lemma loop_frame_selection: "loop_frame m ctx (snd (handle_context_selection ctx))"
  by (simp add: handle_context_selection_def Let_def loop_frames)

lemma loop_frame_proposal: "loop_frame m ctx (snd (handle_patch_proposal env ctx))"
  by (simp add: handle_patch_proposal_def Let_def loop_frames)

lemma loop_frame_verification: "loop_frame m ctx (snd (handle_verification env ctx))"
  by (simp add: handle_verification_def Let_def loop_frames)

lemma loop_frame_reporting: "loop_frame m ctx (snd (handle_reporting ctx))"
  by (simp add: handle_reporting_def loop_frames)

text \<open>The model call: its port calls change the catalog and the signal only.\<close>

lemma run_frame_build: "run_frame m ctx (snd (build_request env ctx))"
  by (simp add: build_request_def Let_def run_frame_advertisement)

lemma run_frame_call_model: "run_frame m ctx (snd (call_model env ctx))"
proof -
  have wait: "run_frame m ctx (await_point env (snd (build_request env ctx)))"
    by (rule run_frame_trans [OF run_frame_build run_frame_await])
  then show ?thesis
    using run_frame_trans [OF wait run_frame_capture_model]
    by (auto simp: call_model_def Let_def run_frame_build split: sum.splits)
qed

text \<open>The start of a model call is the one event of this kind that a handler records.\<close>

definition model_start :: "run_ctx \<Rightarrow> event_body" where
  "model_start ctx =
     ModelCallStarted (model_id ctx) (int (length (messages ctx))) (context_bytes (messages ctx))"

lemma start_model_call_route:
  "log_ok m ctx \<Longrightarrow> log_ok m (start_model_call env ctx) \<and>
     route m (start_model_call env ctx) = route m ctx @ [model_start ctx]"
  by (simp add: start_model_call_def model_start_def)

lemma loop_frame_model_error: "loop_frame m a b \<Longrightarrow> loop_frame m a (snd (on_model_error env e b))"
  by (auto simp: on_model_error_def on_catalog_dispatch_error_def Let_def loop_frames split: thrown.splits)

lemma loop_frame_route: "loop_frame m a b \<Longrightarrow> loop_frame m a (snd (route_after_model r b))"
  by (simp add: route_after_model_def loop_frames)

lemma loop_frame_record: "loop_frame m a b \<Longrightarrow> loop_frame m a (record_response env r b)"
  unfolding record_response_def by (intro loop_frames) simp_all

lemma loop_frame_model_call: "loop_frame m (start_model_call env ctx) (snd (handle_model_call env ctx))"
proof -
  have "loop_frame m (start_model_call env ctx) (snd (call_model env (start_model_call env ctx)))"
    by (rule run_loop_frame [OF run_frame_call_model])
  then show ?thesis
    by (auto simp: handle_model_call_def Let_def loop_frame_model_error loop_frame_route loop_frame_record
        split: sum.splits)
qed

text \<open>Tool calls.\<close>

lemma loop_frame_complete: "loop_frame m a b \<Longrightarrow> loop_frame m a (snd (complete_tool_call env c r b))"
  by (auto simp: complete_tool_call_def shape_or_fall_back_to_raw_def emit_shaping_degraded_def loop_frames
      split: sum.splits)

lemma loop_frame_tool_error: "loop_frame m a b \<Longrightarrow> loop_frame m a (snd (on_tool_error env c e b))"
  by (simp add: on_tool_error_def Let_def loop_frames)

lemma loop_frame_one_tool: "loop_frame m ctx (snd (run_one_tool env c ctx))"
proof -
  let ?ctx0 = "ctx_emit env (ToolCallStarted (tc_name c) (tc_id c)) ctx"
  have "loop_frame m ctx ?ctx0" by (rule loop_frame_emit) simp
  also have "loop_frame m ?ctx0 (await_point env (snd (execute_catalog_call env c ?ctx0)))"
    by (intro run_loop_frame run_frame_trans [OF run_frame_execute run_frame_await])
  finally show ?thesis
    by (auto simp: run_one_tool_def Let_def loop_frame_complete loop_frame_tool_error split: sum.splits)
qed

lemma select_cases:
  obtains (selected) sel where "select_tool_message rs cand ctx = (Inr sel, ctx)"
    | (exceeded) bytes where "select_tool_message rs cand ctx =
        (Inl (fst (tool_output_budget_exceeded bytes ctx)), snd (tool_output_budget_exceeded bytes ctx))"
  by (cases "fst (select_tool_message rs cand ctx)")
     (auto simp: select_tool_message_def Let_def split: option.splits if_splits)

lemma loop_frame_select: "loop_frame m a b \<Longrightarrow> loop_frame m a (snd (select_tool_message rs cand b))"
  by (cases rule: select_cases [of rs cand b]) (simp_all add: tool_output_budget_exceeded_def loop_frames)

lemma loop_frame_tool_loop: "loop_frame m ctx (snd (tool_loop env cs rs ctx))"
proof (induction cs arbitrary: rs ctx)
  case (Cons c cs)
  have one: "loop_frame m ctx (await_point env (snd (run_one_tool env c ctx)))"
    by (rule loop_frame_trans [OF loop_frame_one_tool run_loop_frame [OF run_frame_await]])
  have "loop_frame m ctx (snd (tool_loop env cs rs' ((snd (select_tool_message rs cand
      (await_point env (snd (run_one_tool env c ctx)))))\<lparr> messages := ms \<rparr>)))" for rs' cand ms
    by (rule loop_frame_trans [OF _ Cons.IH]) (intro loop_frames loop_frame_select one)
  with one show ?case
    by (auto simp: Let_def loop_frame_select split: sum.splits)
qed (simp add: loop_frames)

lemma loop_frame_tool_call: "loop_frame m ctx (snd (handle_tool_call env ctx))"
  by (simp add: handle_tool_call_def loop_frame_tool_loop)

subsection \<open>Routes of the handlers\<close>

text \<open>
  Where a handler may send the run, that a failure step has its record, and that re-planning is
  counted.
\<close>

definition handler_ok :: "harness_state set \<Rightarrow> run_ctx \<Rightarrow> state_step \<times> run_ctx \<Rightarrow> bool" where
  "handler_ok targets ctx out \<longleftrightarrow>
     step_to (fst out) \<in> targets \<and>
     (step_to (fst out) \<in> {Failed, LimitExceeded} \<longrightarrow> failure (snd out) \<noteq> None) \<and>
     failureAttempts (counters ctx) \<le> failureAttempts (counters (snd out)) \<and>
     failureAttempts (counters (snd out)) \<le> failureAttempts (counters ctx) + 1 \<and>
     (step_to (fst out) = Planning \<longrightarrow>
        failureAttempts (counters (snd out)) = failureAttempts (counters ctx) + 1 \<and>
        failureAttempts (counters (snd out)) < maxFailureAttempts (limits (snd out))) \<and>
     (failureAttempts (counters (snd out)) \<noteq> failureAttempts (counters ctx) \<longrightarrow>
        step_to (fst out) = Planning \<or> step_to (fst out) = LimitExceeded)"

lemma count_failure_simps [simp]:
  "failureAttempts (counters (count_failure ctx)) = failureAttempts (counters ctx) + 1"
  "modelCalls (counters (count_failure ctx)) = modelCalls (counters ctx)"
  "limits (count_failure ctx) = limits ctx" "plan (count_failure ctx) = plan ctx"
  "messages (count_failure ctx) = messages ctx" "catalog (count_failure ctx) = catalog ctx"
  by (simp_all add: count_failure_def)

lemma planning_ok: "handler_ok {ContextSelection} ctx (handle_planning env ctx)"
  by (simp add: handler_ok_def handle_planning_def)

lemma selection_ok: "handler_ok {ModelCall, LimitExceeded} ctx (handle_context_selection ctx)"
  by (simp add: handler_ok_def handle_context_selection_def Let_def)

lemma proposal_ok: "handler_ok {Verification, LimitExceeded} ctx (handle_patch_proposal env ctx)"
  by (simp add: handler_ok_def handle_patch_proposal_def Let_def)

lemma verification_ok: "handler_ok {Reporting, Planning, LimitExceeded} ctx (handle_verification env ctx)"
  by (simp add: handler_ok_def handle_verification_def Let_def)

lemma reporting_ok: "handler_ok {Completed} ctx (handle_reporting ctx)"
  by (simp add: handler_ok_def handle_reporting_def)

lemma wall_time_claimed_failure: "wall_time_claimed ctx \<Longrightarrow> failure ctx \<noteq> None"
  by (auto simp: wall_time_claimed_def split: option.splits)

lemma handler_ok_start:
  "counters ctx' = counters ctx \<or> (failureAttempts (counters ctx') = failureAttempts (counters ctx)) \<Longrightarrow>
     handler_ok t ctx' out \<Longrightarrow> handler_ok t ctx out"
  by (auto simp: handler_ok_def)

lemma model_error_ok:
  "handler_ok {Planning, Failed, LimitExceeded, Cancelled} ctx (on_model_error env e ctx)"
  using wall_time_claimed_failure [of ctx]
  by (cases e) (auto simp: handler_ok_def on_model_error_def on_model_call_aborted_def
      on_catalog_dispatch_error_def Let_def)

lemma route_after_ok:
  "handler_ok {Reporting, Failed} ctx (route_after_model r ctx) \<or>
   handler_ok {ToolCall} ctx (route_after_model r ctx) \<and> allows_tools (plan ctx) \<or>
   handler_ok {PatchProposal} ctx (route_after_model r ctx) \<and> allows_patch (plan ctx)"
  by (auto simp: handler_ok_def route_after_model_def)

text \<open>The targets of a model call under a plan.\<close>

definition model_targets :: "task_plan \<Rightarrow> harness_state set" where
  "model_targets p = {Planning, Reporting, Failed, LimitExceeded, Cancelled} \<union>
     (if allows_tools p then {ToolCall} else {}) \<union> (if allows_patch p then {PatchProposal} else {})"

lemma handler_ok_mono: "handler_ok t ctx out \<Longrightarrow> t \<subseteq> u \<Longrightarrow> handler_ok u ctx out"
  by (auto simp: handler_ok_def)

lemma call_model_frame [simp]:
  "failureAttempts (counters (snd (call_model env ctx))) = failureAttempts (counters ctx)"
  "modelCalls (counters (snd (call_model env ctx))) = modelCalls (counters ctx)"
  "limits (snd (call_model env ctx)) = limits ctx" "plan (snd (call_model env ctx)) = plan ctx"
  "messages (snd (call_model env ctx)) = messages ctx"
  using run_frame_call_model [of 0 ctx env] by (simp_all add: run_frame_def)

lemma record_response_simps [simp]:
  "counters (record_response env r ctx) = counters ctx" "limits (record_response env r ctx) = limits ctx"
  "plan (record_response env r ctx) = plan ctx" "catalog (record_response env r ctx) = catalog ctx"
  "failure (record_response env r ctx) = failure ctx"
  "messages (record_response env r ctx) = messages ctx @ [assistant_message r]"
  "last_response (record_response env r ctx) = Some r"
  by (simp_all add: record_response_def)

lemma start_model_call_simps [simp]:
  "failureAttempts (counters (start_model_call env ctx)) = failureAttempts (counters ctx)"
  "modelCalls (counters (start_model_call env ctx)) = modelCalls (counters ctx) + 1"
  "limits (start_model_call env ctx) = limits ctx" "plan (start_model_call env ctx) = plan ctx"
  "messages (start_model_call env ctx) = messages ctx" "catalog (start_model_call env ctx) = catalog ctx"
  "toolCalls (counters (start_model_call env ctx)) = toolCalls (counters ctx)"
  "commandExecutions (counters (start_model_call env ctx)) = commandExecutions (counters ctx)"
  by (simp_all add: start_model_call_def)

lemma model_call_ok: "handler_ok (model_targets (plan ctx)) ctx (handle_model_call env ctx)"
proof (cases "fst (call_model env (start_model_call env ctx))")
  case (Inl e)
  have "handler_ok (model_targets (plan ctx)) (snd (call_model env (start_model_call env ctx)))
      (on_model_error env e (snd (call_model env (start_model_call env ctx))))"
    by (rule handler_ok_mono [OF model_error_ok]) (auto simp: model_targets_def)
  then have "handler_ok (model_targets (plan ctx)) ctx
      (on_model_error env e (snd (call_model env (start_model_call env ctx))))"
    by (rule handler_ok_start [rotated]) simp
  with Inl show ?thesis by (simp add: handle_model_call_def Let_def)
next
  case (Inr r)
  let ?ctx = "record_response env r (snd (call_model env (start_model_call env ctx)))"
  have "handler_ok (model_targets (plan ctx)) ?ctx (route_after_model r ?ctx)"
    using route_after_ok [of ?ctx r]
    by (elim disjE conjE) (erule handler_ok_mono, simp add: model_targets_def)+
  then have "handler_ok (model_targets (plan ctx)) ctx (route_after_model r ?ctx)"
    by (rule handler_ok_start [rotated]) simp
  with Inr show ?thesis by (simp add: handle_model_call_def Let_def)
qed

lemma route_after_frame [simp]:
  "counters (snd (route_after_model r ctx)) = counters ctx" "messages (snd (route_after_model r ctx)) = messages ctx"
  "catalog (snd (route_after_model r ctx)) = catalog ctx" "limits (snd (route_after_model r ctx)) = limits ctx"
  by (simp_all add: route_after_model_def)

lemma model_error_frame [simp]:
  "modelCalls (counters (snd (on_model_error env e ctx))) = modelCalls (counters ctx)"
  "toolCalls (counters (snd (on_model_error env e ctx))) = toolCalls (counters ctx)"
  "commandExecutions (counters (snd (on_model_error env e ctx))) = commandExecutions (counters ctx)"
  "catalog (snd (on_model_error env e ctx)) = catalog ctx" "limits (snd (on_model_error env e ctx)) = limits ctx"
  "messages (snd (on_model_error env e ctx)) = messages ctx"
  by (auto simp: on_model_error_def on_catalog_dispatch_error_def Let_def count_failure_def split: thrown.splits)

lemma model_call_counts: "modelCalls (counters (snd (handle_model_call env ctx))) = modelCalls (counters ctx) + 1"
  by (simp add: handle_model_call_def Let_def split: sum.splits)

subsubsection \<open>Tool calls\<close>

lemma complete_counters [simp]:
  "counters (snd (complete_tool_call env c r ctx)) = counters ctx"
  "catalog (snd (complete_tool_call env c r ctx)) = catalog ctx"
  "limits (snd (complete_tool_call env c r ctx)) = limits ctx"
  "messages (snd (complete_tool_call env c r ctx)) = messages ctx"
  by (simp_all add: complete_tool_call_def shape_or_fall_back_to_raw_def emit_shaping_degraded_def split: sum.splits)

lemma tool_error_counters [simp]:
  "counters (snd (on_tool_error env c e ctx)) = counters ctx"
  "catalog (snd (on_tool_error env c e ctx)) = catalog ctx"
  "limits (snd (on_tool_error env c e ctx)) = limits ctx"
  by (simp_all add: on_tool_error_def Let_def)

lemma tool_error_step:
  "step_to (fst (on_tool_error env c e ctx)) \<in> {LimitExceeded, Failed, Cancelled} \<and>
   (step_to (fst (on_tool_error env c e ctx)) \<in> {Failed, LimitExceeded} \<longrightarrow>
      failure (snd (on_tool_error env c e ctx)) \<noteq> None)"
  using wall_time_claimed_failure [of ctx]
  by (auto simp: on_tool_error_def abort_step_def wall_time_claimed_def Let_def)

lemma one_tool_step:
  assumes "fst (run_one_tool env c ctx) = Inl step"
  shows "step_to step \<in> {LimitExceeded, Failed, Cancelled} \<and>
    (step_to step \<in> {Failed, LimitExceeded} \<longrightarrow> failure (snd (run_one_tool env c ctx)) \<noteq> None)"
proof -
  obtain e ctx' where "run_one_tool env c ctx = (Inl (fst (on_tool_error env c e ctx')), snd (on_tool_error env c e ctx'))"
    using assms by (auto simp: run_one_tool_def Let_def split: sum.splits)
  with assms tool_error_step [of env c e ctx'] show ?thesis by auto
qed

lemma failure_await: "failure ctx \<noteq> None \<Longrightarrow> failure (await_point env ctx) \<noteq> None"
proof -
  have "failure c \<noteq> None \<Longrightarrow> failure (fold async_step es c) \<noteq> None" for es c
  proof (induction es arbitrary: c)
    case (Cons e es)
    have "failure (async_step e c) \<noteq> None"
      using Cons.prems by (cases e) (auto simp: deadline_fires_def cancel_run_def claim_failure_def)
    then show ?case using Cons.IH [of "async_step e c"] by simp
  qed simp
  then show "failure ctx \<noteq> None \<Longrightarrow> ?thesis" by (simp add: await_point_def)
qed

lemma select_frame [simp]:
  "counters (snd (select_tool_message rs cand ctx)) = counters ctx"
  "catalog (snd (select_tool_message rs cand ctx)) = catalog ctx"
  "limits (snd (select_tool_message rs cand ctx)) = limits ctx"
  by (cases rule: select_cases [of rs cand ctx]; simp add: tool_output_budget_exceeded_def)+

lemma execute_frame [simp]:
  "modelCalls (counters (snd (execute_catalog_call env c ctx))) = modelCalls (counters ctx)"
  "failureAttempts (counters (snd (execute_catalog_call env c ctx))) = failureAttempts (counters ctx)"
  "limits (snd (execute_catalog_call env c ctx)) = limits ctx"
  using run_frame_execute [of 0 ctx env c] by (simp_all add: run_frame_def)

lemma one_tool_counts [simp]:
  "modelCalls (counters (snd (run_one_tool env c ctx))) = modelCalls (counters ctx)"
  "failureAttempts (counters (snd (run_one_tool env c ctx))) = failureAttempts (counters ctx)"
  "limits (snd (run_one_tool env c ctx)) = limits ctx"
  by (simp_all add: run_one_tool_def Let_def split: sum.splits)

lemma tool_loop_ok:
  "handler_ok {ModelCall, LimitExceeded, Failed, Cancelled} ctx (tool_loop env cs rs ctx) \<and>
   modelCalls (counters (snd (tool_loop env cs rs ctx))) = modelCalls (counters ctx) \<and>
   failureAttempts (counters (snd (tool_loop env cs rs ctx))) = failureAttempts (counters ctx)"
proof (induction cs arbitrary: rs ctx)
  case Nil
  show ?case by (simp add: handler_ok_def)
next
  case (Cons c cs)
  let ?ctx1 = "await_point env (snd (run_one_tool env c ctx))"
  consider (aborted) "aborted ctx"
    | (failed) step where "\<not> aborted ctx" "fst (run_one_tool env c ctx) = Inl step"
    | (ran) cand where "\<not> aborted ctx" "fst (run_one_tool env c ctx) = Inr cand"
    by (cases "fst (run_one_tool env c ctx)") auto
  then show ?case
  proof cases
    case aborted
    then show ?thesis using wall_time_claimed_failure [of ctx]
      by (auto simp: handler_ok_def abort_step_def)
  next
    case failed
    then show ?thesis using one_tool_step [OF failed(2)] failure_await
      by (auto simp: handler_ok_def Let_def)
  next
    case (ran cand)
    show ?thesis
    proof (cases rule: select_cases [of rs cand ?ctx1])
      case (selected sel)
      have "handler_ok {ModelCall, LimitExceeded, Failed, Cancelled} ctx
          (tool_loop env cs (sel_results sel @ [sel_message sel]) (?ctx1\<lparr> messages := sel_messages sel \<rparr>))"
        by (rule handler_ok_start [OF _ conjunct1 [OF Cons.IH]]) simp
      with ran selected Cons.IH show ?thesis by (simp add: Let_def)
    next
      case (exceeded bytes)
      with ran show ?thesis by (simp add: Let_def handler_ok_def tool_output_budget_exceeded_def)
    qed
  qed
qed

lemma tool_call_ok: "handler_ok {ModelCall, LimitExceeded, Failed, Cancelled} ctx (handle_tool_call env ctx)"
  and tool_call_counts: "modelCalls (counters (snd (handle_tool_call env ctx))) = modelCalls (counters ctx)"
  by (simp_all add: handle_tool_call_def tool_loop_ok)

end
