(* ===== verification/Executor_Properties.thy ===== *)
theory Executor_Properties
  imports Executor
begin

text \<open>
  What the model-call and tool-call handlers guarantee: accounting of tool calls and commands, tool
  results that fit the context budget, one answer per tool call, one outcome event per tool call.
\<close>

subsection \<open>Accounting\<close>

lemma tools_ok_cong:
  "counters b = counters a \<Longrightarrow> limits b = limits a \<Longrightarrow> catalog b = catalog a \<Longrightarrow> tools_ok b = tools_ok a"
  by (simp add: tools_ok_def budget_ok_def)

lemma tools_ok_await [simp]: "tools_ok (await_point env ctx) = tools_ok ctx"
  by (rule tools_ok_cong) simp_all

lemma capture_each_core [simp]:
  "counters (snd (capture_each env h cs ctx)) = counters ctx"
  "limits (snd (capture_each env h cs ctx)) = limits ctx"
  "catalog (snd (capture_each env h cs ctx)) = catalog ctx"
  by (induction cs arbitrary: ctx) (simp_all add: Let_def split: sum.splits)

lemma capture_model_core [simp]:
  "counters (snd (capture_model_tool_calls env r ctx)) = counters ctx"
  "limits (snd (capture_model_tool_calls env r ctx)) = limits ctx"
  "catalog (snd (capture_model_tool_calls env r ctx)) = catalog ctx"
  by (simp_all add: capture_model_tool_calls_def Let_def split: option.splits sum.splits)

lemma build_request_core [simp]:
  "counters (snd (build_request env ctx)) = counters ctx"
  "limits (snd (build_request env ctx)) = limits ctx"
  by (simp_all add: build_request_def catalog_advertisement_def Let_def split: option.splits sum.splits)

lemma tools_ok_build: "tools_ok ctx \<Longrightarrow> tools_ok (snd (build_request env ctx))"
  by (auto simp: build_request_def catalog_advertisement_def Let_def tools_ok_def budget_ok_def
      split: option.splits sum.splits)

lemma call_model_counters [simp]: "counters (snd (call_model env ctx)) = counters ctx"
  by (simp add: call_model_def Let_def split: sum.splits)

lemma tools_ok_call_model: "tools_ok ctx \<Longrightarrow> tools_ok (snd (call_model env ctx))"
proof -
  assume "tools_ok ctx"
  then have "tools_ok (snd (build_request env ctx))" by (rule tools_ok_build)
  moreover have "tools_ok (snd (capture_model_tool_calls env r c)) = tools_ok c" for r c
    by (rule tools_ok_cong) simp_all
  ultimately show ?thesis by (simp add: call_model_def Let_def split: sum.splits)
qed

lemma tools_ok_start: "tools_ok ctx \<Longrightarrow> tools_ok (start_model_call env ctx)"
  by (simp add: tools_ok_def budget_ok_def)

lemma tools_ok_model_error: "tools_ok ctx \<Longrightarrow> tools_ok (snd (on_model_error env e ctx))"
  by (simp add: tools_ok_def budget_ok_def)

lemma tools_ok_model_call: "tools_ok ctx \<Longrightarrow> tools_ok (snd (handle_model_call env ctx))"
proof -
  assume "tools_ok ctx"
  then have ok: "tools_ok (snd (call_model env (start_model_call env ctx)))"
    by (intro tools_ok_call_model tools_ok_start)
  have "tools_ok (snd (route_after_model r (record_response env r c))) = tools_ok c" for r c
    by (rule tools_ok_cong) simp_all
  with ok show ?thesis by (simp add: handle_model_call_def Let_def tools_ok_model_error split: sum.splits)
qed

lemma commands_bound_cong:
  "counters b = counters a \<Longrightarrow> limits b = limits a \<Longrightarrow> commands_bound k b = commands_bound k a"
  by (simp add: commands_bound_def)

lemma commands_model_call: "commands_bound k ctx \<Longrightarrow> commands_bound k (snd (handle_model_call env ctx))"
  by (simp add: handle_model_call_def Let_def commands_bound_def split: sum.splits)

text \<open>One tool call.\<close>

lemma tools_ok_emit [simp]: "tools_ok (ctx_emit env b ctx) = tools_ok ctx"
  by (rule tools_ok_cong) simp_all

lemma tools_ok_one_tool: "tools_ok ctx \<Longrightarrow> tools_ok (snd (run_one_tool env c ctx))"
proof -
  assume "tools_ok ctx"
  then have ok: "tools_ok (await_point env (snd (execute_catalog_call env c
      (ctx_emit env (ToolCallStarted (tc_name c) (tc_id c)) ctx))))"
    by (simp add: tools_ok_execute)
  have "tools_ok (snd (complete_tool_call env c r x)) = tools_ok x"
    "tools_ok (snd (on_tool_error env c e x)) = tools_ok x" for r x e
    by (rule tools_ok_cong; simp)+
  with ok show ?thesis by (simp add: run_one_tool_def Let_def split: sum.splits)
qed

lemma commands_one_tool:
  assumes "verify_stable env" and "commands_bound 0 ctx"
  shows "commands_bound 1 (snd (run_one_tool env c ctx))"
    and "fst (run_one_tool env c ctx) = Inr cand \<Longrightarrow> commands_bound 0 (snd (run_one_tool env c ctx))"
proof -
  let ?ctx0 = "ctx_emit env (ToolCallStarted (tc_name c) (tc_id c)) ctx"
  have start: "commands_bound 0 ?ctx0" using assms(2) by (simp add: commands_bound_def)
  note run = commands_execute [OF assms(1) start, of c]
  have same: "commands_bound k (snd (complete_tool_call env c r x)) = commands_bound k x"
    "commands_bound k (snd (on_tool_error env c e x)) = commands_bound k x"
    "commands_bound k (await_point env x) = commands_bound k x" for k r x e
    by (rule commands_bound_cong; simp)+
  show "commands_bound 1 (snd (run_one_tool env c ctx))"
    using run(1) by (simp add: run_one_tool_def Let_def same del: One_nat_def split: sum.splits)
  show "fst (run_one_tool env c ctx) = Inr cand \<Longrightarrow> commands_bound 0 (snd (run_one_tool env c ctx))"
    using run(2) by (auto simp: run_one_tool_def Let_def same split: sum.splits)
qed

lemma tools_ok_tool_loop: "tools_ok ctx \<Longrightarrow> tools_ok (snd (tool_loop env cs rs ctx))"
proof (induction cs arbitrary: rs ctx)
  case Nil
  then show ?case by (simp add: tools_ok_def budget_ok_def)
next
  case (Cons c cs)
  let ?ctx1 = "await_point env (snd (run_one_tool env c ctx))"
  have one: "tools_ok ?ctx1" using Cons.prems by (simp add: tools_ok_one_tool)
  have sel: "tools_ok (snd (select_tool_message rs cand ?ctx1))" for cand
    using one tools_ok_cong [of "snd (select_tool_message rs cand ?ctx1)" ?ctx1] by simp
  then have "tools_ok ((snd (select_tool_message rs cand ?ctx1))\<lparr> messages := ms \<rparr>)" for cand ms
    using tools_ok_cong [of "(snd (select_tool_message rs cand ?ctx1))\<lparr> messages := ms \<rparr>"
        "snd (select_tool_message rs cand ?ctx1)"] by simp
  with Cons one sel show ?case by (simp add: Let_def split: sum.splits)
qed

lemma tools_ok_tool_call: "tools_ok ctx \<Longrightarrow> tools_ok (snd (handle_tool_call env ctx))"
  by (simp add: handle_tool_call_def tools_ok_tool_loop)

lemma commands_tool_loop:
  assumes "verify_stable env" and "commands_bound 0 ctx"
  shows "commands_bound 1 (snd (tool_loop env cs rs ctx)) \<and>
    (step_to (fst (tool_loop env cs rs ctx)) = ModelCall \<longrightarrow> commands_bound 0 (snd (tool_loop env cs rs ctx)))"
  using assms(2)
proof (induction cs arbitrary: rs ctx)
  case Nil
  then show ?case by (simp add: commands_bound_def)
next
  case (Cons c cs)
  let ?ctx1 = "await_point env (snd (run_one_tool env c ctx))"
  have wait: "commands_bound k (await_point env x) = commands_bound k x" for k x
    by (rule commands_bound_cong) simp_all
  have aborts: "step_to (abort_step x t) \<noteq> ModelCall" for x t by (simp add: abort_step_def)
  show ?case
  proof (cases "fst (run_one_tool env c ctx)")
    case (Inl step)
    have "commands_bound 1 ctx" using Cons.prems by (simp add: commands_bound_def)
    with Inl show ?thesis
      using one_tool_step [OF Inl] commands_one_tool(1) [OF assms(1) Cons.prems, of c] aborts
      by (auto simp: Let_def wait simp del: One_nat_def)
  next
    case (Inr cand)
    have b0: "commands_bound 0 ?ctx1"
      using commands_one_tool(2) [OF assms(1) Cons.prems Inr] by (simp add: wait)
    then have b1: "commands_bound 1 ?ctx1" by (simp add: commands_bound_def)
    have "commands_bound 1 ctx" using Cons.prems by (simp add: commands_bound_def)
    moreover have "commands_bound 0 (?ctx1\<lparr> messages := ms \<rparr>)" for ms
      using b0 by (simp add: commands_bound_def)
    moreover have "commands_bound 1 (snd (tool_output_budget_exceeded n ?ctx1))" for n
      using b1 by (simp add: commands_bound_def tool_output_budget_exceeded_def)
    ultimately show ?thesis using Inr Cons.IH aborts
      by (cases rule: select_cases [of rs cand ?ctx1])
         (simp_all add: Let_def tool_output_budget_exceeded_def del: One_nat_def)
  qed
qed

lemma commands_tool_call:
  assumes "verify_stable env" and "commands_bound 0 ctx"
  shows "commands_bound 1 (snd (handle_tool_call env ctx))"
    and "step_to (fst (handle_tool_call env ctx)) = ModelCall \<Longrightarrow> commands_bound 0 (snd (handle_tool_call env ctx))"
  using commands_tool_loop [OF assms] by (simp_all add: handle_tool_call_def)

subsection \<open>Failure categories\<close>

text \<open>
  A step to \<open>limit-exceeded\<close> records a limit, a step to \<open>failed\<close> records anything else, and a run
  that goes on, completes or is cancelled has at most the deadline's claim in its failure slot.
\<close>

definition failure_ok :: "harness_state \<Rightarrow> run_ctx \<Rightarrow> bool" where
  "failure_ok st ctx \<longleftrightarrow>
     (st = Failed \<longrightarrow> (\<exists>f. failure ctx = Some f \<and> \<not> is_limit_code (f_category f))) \<and>
     (st = LimitExceeded \<longrightarrow> (\<exists>f. failure ctx = Some f \<and> is_limit_code (f_category f))) \<and>
     (st \<notin> {Failed, LimitExceeded} \<longrightarrow> clean_failure ctx)"

lemma clean_run_frame: "run_frame m a b \<Longrightarrow> clean_failure a \<Longrightarrow> clean_failure b"
  by (simp add: run_frame_def)

lemma clean_claimed: "wall_time_claimed ctx \<Longrightarrow> \<exists>f. failure ctx = Some f \<and> is_limit_code (f_category f)"
  by (auto simp: wall_time_claimed_def is_limit_code_iff split: option.splits)

lemma clean_count [simp]: "clean_failure (count_failure ctx) = clean_failure ctx"
  by (simp add: count_failure_def)

lemma failure_set [simp]:
  "failure_ok LimitExceeded (set_failure c t ctx) = is_limit_code c"
  "failure_ok Failed (set_failure c t ctx) = (\<not> is_limit_code c)"
  by (simp_all add: failure_ok_def)

lemma failure_ok_nonfailure:
  "st \<notin> {Failed, LimitExceeded} \<Longrightarrow> failure_ok st ctx = clean_failure ctx"
  by (auto simp: failure_ok_def)

lemma planning_failure: "clean_failure ctx \<Longrightarrow> failure_ok (step_to (fst (handle_planning env ctx))) (snd (handle_planning env ctx))"
  by (simp add: handle_planning_def failure_ok_nonfailure)

lemma selection_failure:
  "clean_failure ctx \<Longrightarrow> failure_ok (step_to (fst (handle_context_selection ctx))) (snd (handle_context_selection ctx))"
  by (simp add: handle_context_selection_def Let_def failure_ok_nonfailure is_limit_code_iff)

lemma proposal_failure:
  "clean_failure ctx \<Longrightarrow> failure_ok (step_to (fst (handle_patch_proposal env ctx))) (snd (handle_patch_proposal env ctx))"
  by (simp add: handle_patch_proposal_def Let_def failure_ok_nonfailure is_limit_code_iff)

lemma verification_failure:
  "clean_failure ctx \<Longrightarrow> failure_ok (step_to (fst (handle_verification env ctx))) (snd (handle_verification env ctx))"
  by (simp add: handle_verification_def Let_def failure_ok_nonfailure is_limit_code_iff)

lemma reporting_failure:
  "clean_failure ctx \<Longrightarrow> failure_ok (step_to (fst (handle_reporting ctx))) (snd (handle_reporting ctx))"
  by (simp add: handle_reporting_def failure_ok_nonfailure)

lemma model_error_failure:
  assumes "clean_failure ctx"
  shows "failure_ok (step_to (fst (on_model_error env e ctx))) (snd (on_model_error env e ctx))"
proof (cases "aborted ctx \<or> is_cancelled_error e")
  case True
  then show ?thesis using assms clean_claimed [of ctx]
    by (auto simp: on_model_error_def on_model_call_aborted_def failure_ok_def)
next
  case False
  then show ?thesis using assms
    by (cases e) (simp_all add: on_model_error_def on_catalog_dispatch_error_def Let_def failure_ok_nonfailure
        is_limit_code_iff)
qed

lemma clean_record [simp]: "clean_failure (record_response env r ctx) = clean_failure ctx"
  by (simp add: clean_failure_def)

lemma model_call_failure:
  assumes "clean_failure ctx"
  shows "failure_ok (step_to (fst (handle_model_call env ctx))) (snd (handle_model_call env ctx))"
proof -
  have "clean_failure (start_model_call env ctx)" using assms by (simp add: start_model_call_def)
  then have ok: "clean_failure (snd (call_model env (start_model_call env ctx)))"
    by (rule clean_run_frame [OF run_frame_call_model [of 0]])
  have "failure_ok (step_to (fst (route_after_model r x))) (snd (route_after_model r x))"
    if "clean_failure x" for r x
    using that by (simp add: route_after_model_def failure_ok_nonfailure is_limit_code_iff)
  with ok show ?thesis
    by (simp add: handle_model_call_def Let_def model_error_failure split: sum.splits)
qed

lemma tool_error_failure:
  assumes "clean_failure ctx"
  shows "failure_ok (step_to (fst (on_tool_error env c e ctx))) (snd (on_tool_error env c e ctx))"
  using assms clean_claimed [of ctx]
  by (auto simp: on_tool_error_def abort_step_def wall_time_claimed_def Let_def failure_ok_def)

lemma clean_complete: "clean_failure (snd (complete_tool_call env c r ctx)) = clean_failure ctx"
  by (simp add: complete_tool_call_def shape_or_fall_back_to_raw_def emit_shaping_degraded_def split: sum.splits)

lemma one_tool_failure:
  assumes "clean_failure ctx"
  shows "case fst (run_one_tool env c ctx) of
      Inl step \<Rightarrow> failure_ok (step_to step) (snd (run_one_tool env c ctx))
    | Inr cand \<Rightarrow> clean_failure (snd (run_one_tool env c ctx))"
proof -
  let ?ctx0 = "ctx_emit env (ToolCallStarted (tc_name c) (tc_id c)) ctx"
  have "clean_failure (await_point env (snd (execute_catalog_call env c ?ctx0)))"
    using assms clean_run_frame [OF run_frame_trans [OF run_frame_execute [of 0] run_frame_await], of ?ctx0] by simp
  then show ?thesis
    by (auto simp: run_one_tool_def Let_def clean_complete tool_error_failure split: sum.splits)
qed

lemma async_keeps_failure:
  "failure ctx = Some f \<Longrightarrow> failure (await_point env ctx) = Some f"
proof -
  have "failure c = Some f \<Longrightarrow> failure (fold async_step es c) = Some f" for es c
  proof (induction es arbitrary: c)
    case (Cons e es)
    have "failure (async_step e c) = Some f"
      using Cons.prems by (cases e) (auto simp: deadline_fires_def cancel_run_def claim_failure_def)
    then show ?case using Cons.IH [of "async_step e c"] by simp
  qed simp
  then show "failure ctx = Some f \<Longrightarrow> ?thesis" by (simp add: await_point_def)
qed

lemma failure_ok_await: "failure_ok st ctx \<Longrightarrow> failure_ok st (await_point env ctx)"
  by (auto simp: failure_ok_def clean_failure_await dest: async_keeps_failure [of _ _ env])

lemma abort_failure: "clean_failure ctx \<Longrightarrow> failure_ok (step_to (abort_step ctx t)) ctx"
  using clean_claimed [of ctx] by (auto simp: abort_step_def failure_ok_def)

lemma tool_loop_failure:
  assumes "clean_failure ctx"
  shows "failure_ok (step_to (fst (tool_loop env cs rs ctx))) (snd (tool_loop env cs rs ctx))"
  using assms
proof (induction cs arbitrary: rs ctx)
  case Nil
  then show ?case by (simp add: failure_ok_nonfailure)
next
  case (Cons c cs)
  show ?case
  proof (cases "fst (run_one_tool env c ctx)")
    case (Inl step)
    with one_tool_failure [OF Cons.prems, of env c] abort_failure [OF Cons.prems] show ?thesis
      by (simp add: Let_def failure_ok_await)
  next
    case (Inr cand)
    let ?ctx1 = "await_point env (snd (run_one_tool env c ctx))"
    have "clean_failure ?ctx1"
      using one_tool_failure [OF Cons.prems, of env c] Inr by (simp add: clean_failure_await)
    then show ?thesis using Inr Cons.IH abort_failure [OF Cons.prems]
      by (cases rule: select_cases [of rs cand ?ctx1])
         (simp_all add: Let_def tool_output_budget_exceeded_def is_limit_code_iff)
  qed
qed

lemma tool_call_failure:
  "clean_failure ctx \<Longrightarrow> failure_ok (step_to (fst (handle_tool_call env ctx))) (snd (handle_tool_call env ctx))"
  by (simp add: handle_tool_call_def tool_loop_failure)

subsection \<open>Tool results fit the context budget\<close>

lemma select_fits:
  "select_tool_message rs cand ctx = (Inr sel, ctx') \<Longrightarrow>
     context_bytes (sel_messages sel @ sel_results sel @ [sel_message sel]) \<le> maxContextBytes (limits ctx)"
  by (auto simp: select_tool_message_def select_if_fits_def Let_def split: option.splits if_splits)

lemma await_limits [simp]: "limits (await_point env ctx) = limits ctx"
  by simp

lemma tool_loop_fits:
  assumes "step_to (fst (tool_loop env cs rs ctx)) = ModelCall"
    and "cs \<noteq> [] \<or> context_bytes (messages ctx @ rs) \<le> maxContextBytes (limits ctx)"
  shows "context_bytes (messages (snd (tool_loop env cs rs ctx))) \<le> maxContextBytes (limits ctx)"
  using assms
proof (induction cs arbitrary: rs ctx)
  case (Cons c cs)
  let ?ctx1 = "await_point env (snd (run_one_tool env c ctx))"
  have nab: "\<not> aborted ctx" using Cons.prems(1) by (auto simp: abort_step_def split: if_splits)
  show ?case
  proof (cases "fst (run_one_tool env c ctx)")
    case (Inl step)
    with Cons.prems(1) nab one_tool_step [OF Inl] show ?thesis by (auto simp: Let_def)
  next
    case (Inr cand)
    show ?thesis
    proof (cases rule: select_cases [of rs cand ?ctx1])
      case (selected sel)
      let ?ctx2 = "?ctx1\<lparr> messages := sel_messages sel \<rparr>"
      have run: "tool_loop env (c # cs) rs ctx = tool_loop env cs (sel_results sel @ [sel_message sel]) ?ctx2"
        using nab Inr selected by (simp add: Let_def)
      have "context_bytes (messages (snd (tool_loop env cs (sel_results sel @ [sel_message sel]) ?ctx2))) \<le>
          maxContextBytes (limits ?ctx2)"
        using Cons.prems(1) select_fits [OF selected] unfolding run by (intro Cons.IH) auto
      then show ?thesis unfolding run by simp
    next
      case (exceeded bytes)
      with Cons.prems(1) nab Inr show ?thesis by (simp add: Let_def tool_output_budget_exceeded_def)
    qed
  qed
qed simp

subsection \<open>Every tool call is answered once\<close>

text \<open>
  \<open>captureCatalogJson\<close> of \<open>keiko-tool-catalog\<close> is a parameter: it validates a call and returns a
  detached copy of it.
\<close>

definition capture_keeps_id :: "'a harness_env_scheme \<Rightarrow> bool" where
  "capture_keeps_id env \<longleftrightarrow> (\<forall>c d. capture_call env c = Inr d \<longrightarrow> tc_id d = tc_id c)"

definition compacted_ok :: "run_ctx \<Rightarrow> bool" where
  "compacted_ok ctx \<longleftrightarrow> (\<forall>(k, c)\<in>set (compacted_messages ctx). c = tool_message k (m_content c))"

lemma capture_harness_id:
  "capture_keeps_id env \<Longrightarrow> capture_harness_tool_call env h c now = Inr (d, ivk) \<Longrightarrow> tc_id d = tc_id c"
  by (auto simp: capture_harness_tool_call_def capture_keeps_id_def split: option.splits if_splits)

lemma settled_result_id:
  assumes "fst (settled_result env d v oc i rt) = Inr res"
  shows "tr_call_id res = i \<and> tr_observation res = None"
  using assms
  by (auto simp: settled_result_def Let_def render_tool_result_def
      split: dispatch_outcome.splits option.splits sum.splits if_splits)

lemma run_port_id:
  "fst (run_port env i j d v rt ctx) = Inr res \<Longrightarrow> tr_call_id res = j \<and> tr_observation res = None"
  by (auto simp: run_port_def Let_def dest: settled_result_id split: sum.splits)

lemma execute_result_id:
  assumes "fst (execute_catalog_call env c ctx) = Inr res" and "capture_keeps_id env"
  shows "tr_call_id res = tc_id c"
  using assms capture_harness_id [OF assms(2)] run_port_id
  by (fastforce simp: execute_catalog_call_def Let_def split: option.splits sum.splits)

lemma execute_result_raw:
  "fst (execute_catalog_call env c ctx) = Inr res \<Longrightarrow> tr_observation res = None"
  using run_port_id by (fastforce simp: execute_catalog_call_def Let_def split: option.splits sum.splits)

text \<open>The candidate of a completed call is the tool message of that call, raw or compacted.\<close>

definition candidate_for :: "string \<Rightarrow> tool_candidate \<Rightarrow> bool" where
  "candidate_for i cand \<longleftrightarrow> cand_raw cand = tool_message i (m_content (cand_raw cand)) \<and>
     (\<forall>m. cand_compact cand = Some m \<longrightarrow> m = tool_message i (m_content m))"

lemma tool_message_simps [simp]:
  "m_role (tool_message i c) = Tool" "m_content (tool_message i c) = c"
  "m_tool_call_id (tool_message i c) = Some i" "m_tool_calls (tool_message i c) = None"
  by (simp_all add: tool_message_def)

lemma candidate_of_result:
  "tool_message_candidate r = Inr cand \<Longrightarrow> candidate_for (tr_call_id r) cand"
  by (auto simp: tool_message_candidate_def candidate_for_def Let_def split: option.splits)

lemma enrich_id: "enrich_with_observation env c r ctx = Inr r' \<Longrightarrow> tr_call_id r' = tr_call_id r"
  by (auto simp: enrich_with_observation_def split: option.splits)

lemma complete_candidate:
  assumes "complete_tool_call env c r ctx = (Inr cand, ctx')" and "tr_call_id r = tc_id c"
    and "compacted_ok ctx"
  shows "candidate_for (tc_id c) cand \<and> compacted_ok ctx'"
proof -
  have keep: "compacted_messages (ctx_emit env b x) = compacted_messages x" for b x by simp
  from assms show ?thesis
    by (auto simp: complete_tool_call_def shape_or_fall_back_to_raw_def emit_shaping_degraded_def
        compacted_ok_def keep dest!: enrich_id candidate_of_result split: sum.splits option.splits)
       (auto simp: candidate_for_def)
qed

lemma compacted_core:
  "compacted_messages b = compacted_messages a \<Longrightarrow> compacted_ok b = compacted_ok a"
  by (simp add: compacted_ok_def)

text \<open>The port's calls leave the compacted messages alone.\<close>

lemma budget_call_compacted [simp]:
  "compacted_messages (snd (budget_call env a (bg, ctx))) = compacted_messages ctx"
proof -
  have clock: "compacted_messages (snd (snd (clock_live env bg ctx))) = compacted_messages ctx"
    by (simp add: clock_live_def Let_def)
  show ?thesis
  proof (cases a)
    case (PReserve d bc i)
    with clock show ?thesis by (cases rule: budget_reserve_cases [of env d bc i bg ctx]) auto
  next
    case (PCommit i)
    then show ?thesis by (cases rule: budget_settle_cases [of i Committed bg ctx]) simp_all
  next
    case (PRelease i)
    then show ?thesis by (cases rule: budget_settle_cases [of i Released bg ctx]) simp_all
  next
    case (PAsync x)
    then show ?thesis using same_core_async [of ctx x] by (simp add: same_core_def)
  qed (simp_all add: clock)
qed

lemma observe_compacted [simp]:
  "compacted_messages (snd (observe_execution env ev ctx)) = compacted_messages ctx"
proof -
  have "compacted_messages (emit_tool_metadata env md n c) = compacted_messages c" for md n c
    by (auto simp: emit_tool_metadata_def split: option.splits tool_metadata.splits)
  then show ?thesis by (cases rule: observe_cases [of env ev ctx]) simp_all
qed

lemma port_step_compacted [simp]: "compacted_messages (port_step env a ctx) = compacted_messages ctx"
  using same_core_async [of ctx]
  by (cases a) (auto simp: port_step_def Let_def same_core_def split: option.splits simp del: budget_call.simps)

lemma script_compacted [simp]: "compacted_messages (fold (port_step env) as ctx) = compacted_messages ctx"
  by (induction as arbitrary: ctx) simp_all

lemma execute_compacted [simp]:
  "compacted_messages (snd (execute_catalog_call env c ctx)) = compacted_messages ctx"
proof -
  have "compacted_messages (snd (run_port env i j d v rt x)) = compacted_messages x" for i j d v rt x
    by (simp add: run_port_def await_port_def clear_active_def Let_def split: sum.splits)
  then show ?thesis
    by (simp add: execute_catalog_call_def enter_call_def Let_def split: option.splits sum.splits)
qed

lemma one_tool_candidate:
  assumes "capture_keeps_id env" and "fst (run_one_tool env c ctx) = Inr cand" and "compacted_ok ctx"
  shows "candidate_for (tc_id c) cand \<and> compacted_ok (snd (run_one_tool env c ctx)) \<and>
    messages (snd (run_one_tool env c ctx)) = messages ctx"
proof -
  define x where "x = execute_catalog_call env c (ctx_emit env (ToolCallStarted (tc_name c) (tc_id c)) ctx)"
  obtain r where r: "fst x = Inr r" and done_: "complete_tool_call env c r (await_point env (snd x)) =
      (Inr cand, snd (run_one_tool env c ctx))"
    using assms(2) unfolding run_one_tool_def x_def [symmetric] Let_def
    by (auto split: sum.splits) (metis fst_conv prod.collapse)
  have "compacted_ok (await_point env (snd x))"
    using assms(3) by (simp add: compacted_ok_def x_def)
  moreover have "tr_call_id r = tc_id c"
    using execute_result_id [OF _ assms(1)] r by (simp add: x_def)
  moreover have "messages (await_point env (snd x)) = messages ctx"
    using run_frame_execute [of 0 "ctx_emit env (ToolCallStarted (tc_name c) (tc_id c)) ctx" env c]
    by (simp add: x_def run_frame_def)
  ultimately show ?thesis
    using complete_candidate [OF done_] complete_counters(4) [of env c r "await_point env (snd x)"]
    by (simp add: done_)
qed

text \<open>Compaction of the history keeps everything of a message but the content of tool messages.\<close>

definition same_shape :: "chat_message \<Rightarrow> chat_message \<Rightarrow> bool" where
  "same_shape a b \<longleftrightarrow> m_role b = m_role a \<and> m_tool_call_id b = m_tool_call_id a \<and>
     (m_role a \<noteq> Tool \<longrightarrow> b = a)"

lemma same_shape_refl [simp]: "same_shape m m"
  by (simp add: same_shape_def)

lemma compacted_lookup:
  assumes "\<forall>(k, c)\<in>set cs. c = tool_message k (m_content c)" and "map_of cs i = Some c"
  shows "m_role c = Tool \<and> m_tool_call_id c = Some i"
proof -
  have "c = tool_message i (m_content c)" using assms(1) map_of_SomeD [OF assms(2)] by blast
  then obtain t where "c = tool_message i t" by blast
  then show ?thesis by simp
qed

lemma compact_one_shape:
  assumes "\<forall>(k, c)\<in>set cs. c = tool_message k (m_content c)"
  shows "same_shape m (compact_one cs m)"
  using compacted_lookup [OF assms] by (auto simp: compact_one_def same_shape_def split: option.splits)

lemma shapes_tools:
  "list_all2 same_shape xs ys \<Longrightarrow> map m_tool_call_id ys = map m_tool_call_id xs \<and>
     ((\<forall>m\<in>set xs. m_role m = Tool) \<longrightarrow> (\<forall>m\<in>set ys. m_role m = Tool))"
  by (induction rule: list_all2_induct) (auto simp: same_shape_def)

lemma select_shape:
  assumes "select_tool_message rs cand ctx = (Inr sel, ctx')" and "compacted_ok ctx"
    and "candidate_for i cand"
  shows "list_all2 same_shape (messages ctx) (sel_messages sel) \<and> list_all2 same_shape rs (sel_results sel) \<and>
    m_role (sel_message sel) = Tool \<and> m_tool_call_id (sel_message sel) = Some i"
proof -
  have shape: "list_all2 same_shape xs (fst (compact_tool_messages (compacted_messages ctx) xs))" for xs
    using assms(2) compact_one_shape [of "compacted_messages ctx"]
    by (simp add: compact_tool_messages_def compacted_ok_def list_all2_conv_all_nth)
  have refl: "list_all2 same_shape xs xs" for xs by (simp add: list_all2_conv_all_nth)
  have cand: "m_role (cand_raw cand) = Tool" "m_tool_call_id (cand_raw cand) = Some i"
    "\<And>m. cand_compact cand = Some m \<Longrightarrow> m_role m = Tool \<and> m_tool_call_id m = Some i"
    using assms(3) unfolding candidate_for_def by (metis tool_message_simps)+
  show ?thesis using assms(1) shape refl cand
    by (auto simp: select_tool_message_def select_if_fits_def Let_def split: option.splits if_splits)
qed

lemma same_shape_trans: "same_shape a b \<Longrightarrow> same_shape b c \<Longrightarrow> same_shape a c"
  by (auto simp: same_shape_def)

lemma shapes_trans: "list_all2 same_shape a b \<Longrightarrow> list_all2 same_shape b c \<Longrightarrow> list_all2 same_shape a c"
  using list_all2_trans [of same_shape same_shape same_shape a b c] same_shape_trans by blast

lemma tool_loop_answers:
  assumes "capture_keeps_id env" and "compacted_ok ctx"
    and "step_to (fst (tool_loop env cs rs ctx)) = ModelCall"
    and "\<forall>m\<in>set rs. m_role m = Tool"
  shows "\<exists>ms answers. messages (snd (tool_loop env cs rs ctx)) = ms @ answers \<and>
    list_all2 same_shape (messages ctx) ms \<and> (\<forall>m\<in>set answers. m_role m = Tool) \<and>
    map m_tool_call_id answers = map m_tool_call_id rs @ map (\<lambda>c. Some (tc_id c)) cs"
  using assms(2-4)
proof (induction cs arbitrary: rs ctx)
  case Nil
  then show ?case
    by (intro exI [of _ "messages ctx"] exI [of _ rs]) (simp add: list_all2_conv_all_nth)
next
  case (Cons c cs)
  let ?ctx1 = "await_point env (snd (run_one_tool env c ctx))"
  have nab: "\<not> aborted ctx" using Cons.prems(2) by (auto simp: abort_step_def split: if_splits)
  show ?case
  proof (cases "fst (run_one_tool env c ctx)")
    case (Inl step)
    with Cons.prems(2) nab one_tool_step [OF Inl] show ?thesis by (auto simp: Let_def)
  next
    case (Inr cand)
    from one_tool_candidate [OF assms(1) Inr Cons.prems(1)]
    have cand: "candidate_for (tc_id c) cand" and ok: "compacted_ok ?ctx1"
      and ms: "messages ?ctx1 = messages ctx" by (simp_all add: compacted_ok_def)
    show ?thesis
    proof (cases rule: select_cases [of rs cand ?ctx1])
      case (selected sel)
      let ?ctx2 = "?ctx1\<lparr> messages := sel_messages sel \<rparr>" and ?rs = "sel_results sel @ [sel_message sel]"
      have run: "tool_loop env (c # cs) rs ctx = tool_loop env cs ?rs ?ctx2"
        using nab Inr selected by (simp add: Let_def)
      note shape = select_shape [OF selected ok cand]
      have tools: "\<forall>m\<in>set (sel_results sel). m_role m = Tool" "map m_tool_call_id (sel_results sel) = map m_tool_call_id rs"
        using shape shapes_tools [of rs "sel_results sel"] Cons.prems(3) by simp_all
      have "compacted_ok ?ctx2" using ok by (simp add: compacted_ok_def)
      then obtain ms answers where rec: "messages (snd (tool_loop env cs ?rs ?ctx2)) = ms @ answers"
        "list_all2 same_shape (messages ?ctx2) ms" "\<forall>m\<in>set answers. m_role m = Tool"
        "map m_tool_call_id answers = map m_tool_call_id ?rs @ map (\<lambda>c. Some (tc_id c)) cs"
        using Cons.IH [of ?ctx2 ?rs] Cons.prems(2) shape tools unfolding run by auto
      have "list_all2 same_shape (messages ctx) ms"
        using shape rec(2) shapes_trans ms by fastforce
      with rec shape tools show ?thesis unfolding run
        by (intro exI [of _ ms] exI [of _ answers]) simp
    next
      case (exceeded bytes)
      with Cons.prems(2) nab Inr show ?thesis by (simp add: Let_def tool_output_budget_exceeded_def)
    qed
  qed
qed

subsection \<open>One outcome per tool call\<close>

lemma flow_run_frame: "run_frame m a b \<Longrightarrow> log_ok m a \<Longrightarrow> flow m b = flow m a \<and> log_ok m b"
  by (simp add: run_frame_def)

lemma complete_raw:
  assumes "tr_observation r = None"
  shows "\<exists>cand. fst (complete_tool_call env c r ctx) = Inr cand"
    and "log_ok m ctx \<Longrightarrow> flow m (snd (complete_tool_call env c r ctx)) =
      flow m ctx @ [ToolCallCompleted (tc_name c) (tc_id c) (tr_duration r)] \<and>
      log_ok m (snd (complete_tool_call env c r ctx))"
  using assms
  by (auto simp: complete_tool_call_def shape_or_fall_back_to_raw_def emit_shaping_degraded_def
      tool_message_candidate_def Let_def split: sum.splits)

lemma one_tool_flow:
  assumes "log_ok m ctx"
  shows "\<exists>out. flow m (snd (run_one_tool env c ctx)) = flow m ctx @ [ToolCallStarted (tc_name c) (tc_id c), out] \<and>
    (case fst (run_one_tool env c ctx) of
       Inr cand \<Rightarrow> \<exists>d. out = ToolCallCompleted (tc_name c) (tc_id c) d
     | Inl step \<Rightarrow> \<exists>code t. out = ToolCallFailed (tc_name c) (tc_id c) code t)"
proof -
  let ?ctx0 = "ctx_emit env (ToolCallStarted (tc_name c) (tc_id c)) ctx"
  define x where "x = execute_catalog_call env c ?ctx0"
  have "run_frame m ?ctx0 (await_point env (snd x))"
    unfolding x_def by (rule run_frame_trans [OF run_frame_execute run_frame_await])
  from flow_run_frame [OF this] assms have log: "log_ok m (await_point env (snd x))"
    "flow m (await_point env (snd x)) = flow m ctx @ [ToolCallStarted (tc_name c) (tc_id c)]" by simp_all
  show ?thesis
  proof (cases "fst x")
    case (Inl e)
    then have run: "run_one_tool env c ctx = (Inl (fst (on_tool_error env c e (await_point env (snd x)))),
        snd (on_tool_error env c e (await_point env (snd x))))"
      by (simp add: run_one_tool_def x_def [symmetric] Let_def)
    have "flow m (snd (on_tool_error env c e (await_point env (snd x)))) = flow m (await_point env (snd x)) @
        [ToolCallFailed (tc_name c) (tc_id c) (tool_failure_code e) (thrown_message ''tool execution failed'' e)]"
      using log(1) by (simp add: on_tool_error_def Let_def)
    then show ?thesis unfolding run by (simp add: log)
  next
    case (Inr r)
    then have raw: "tr_observation r = None" by (simp add: x_def execute_result_raw)
    show ?thesis
    proof (cases "shaper_port env")
      case None
      with raw log Inr show ?thesis
        by (simp add: run_one_tool_def x_def [symmetric] Let_def complete_tool_call_def
            shape_or_fall_back_to_raw_def enrich_with_observation_def tool_message_candidate_def)
    next
      case (Some port)
      with raw log Inr show ?thesis
        by (auto simp: run_one_tool_def x_def [symmetric] Let_def complete_tool_call_def
            shape_or_fall_back_to_raw_def enrich_with_observation_def tool_message_candidate_def
            emit_shaping_degraded_def split: sum.splits option.splits)
    qed
  qed
qed

subsection \<open>Properties of the tool-call handler\<close>

definition tool_ctx :: run_ctx where
  "tool_ctx = (catalog_ctx shell_env)\<lparr> last_response := Some (ok_response\<lparr> r_tool_calls := [provider_call] \<rparr>) \<rparr>"

lemma tool_ctx_runs: "step_to (fst (handle_tool_call shell_env tool_ctx)) = ModelCall"
  by code_simp

text \<open>
  When the tool-call state hands the run back to the model after at least one tool call,
  the conversation with the tool results in it fits the context budget.
\<close>

theorem tool_results_fit_context:
  assumes "handle_tool_call env ctx = (step, ctx')" and "step_to step = ModelCall"
    and "pending_calls ctx \<noteq> []"
  shows "context_bytes (messages ctx') \<le> maxContextBytes (limits ctx)"
  using tool_loop_fits [of env "pending_calls ctx" "[]" ctx] assms by (simp add: handle_tool_call_def)

theorem tool_results_fit_context_witness:
  "context_bytes (messages (snd (handle_tool_call shell_env tool_ctx))) \<le> 512000"
proof -
  have "limits tool_ctx = default_limits" by code_simp
  moreover have "pending_calls tool_ctx \<noteq> []" by (simp add: tool_ctx_def pending_calls_def ok_response_def)
  ultimately show ?thesis
    using tool_results_fit_context [of shell_env tool_ctx "fst (handle_tool_call shell_env tool_ctx)"
        "snd (handle_tool_call shell_env tool_ctx)"] tool_ctx_runs
    by (simp add: default_limits_def)
qed

text \<open>
  Claim C23. When the tool-call state hands the run back to the model, the conversation is the old
  one, with at most the content of tool messages compacted, followed by exactly one tool message per
  requested call, in the order of the calls and under their ids. The capture of a call must keep its
  id (\<open>capture_keeps_id\<close>: the capture is a port of the model), and every message
  compacted before is the tool message of its call (\<open>compacted_ok\<close>).
\<close>

theorem every_call_is_answered_once:
  assumes "capture_keeps_id env" and "compacted_ok ctx"
    and "handle_tool_call env ctx = (step, ctx')" and "step_to step = ModelCall"
  shows "\<exists>ms answers. messages ctx' = ms @ answers \<and> list_all2 same_shape (messages ctx) ms \<and>
    (\<forall>m\<in>set answers. m_role m = Tool) \<and>
    map m_tool_call_id answers = map (\<lambda>c. Some (tc_id c)) (pending_calls ctx)"
  using tool_loop_answers [OF assms(1, 2), of "pending_calls ctx" "[]"] assms(3, 4)
  by (simp add: handle_tool_call_def)

theorem every_call_is_answered_once_witness:
  "\<exists>ms answers. messages (snd (handle_tool_call shell_env tool_ctx)) = ms @ answers \<and>
    map m_tool_call_id answers = [Some ''c1'']"
proof -
  have "capture_keeps_id shell_env" by (simp add: capture_keeps_id_def shell_env_def calm_env_def)
  moreover have "compacted_messages tool_ctx = []" by code_simp
  then have "compacted_ok tool_ctx" by (simp add: compacted_ok_def)
  moreover have "pending_calls tool_ctx = [provider_call]"
    by (simp add: tool_ctx_def pending_calls_def ok_response_def)
  ultimately obtain ms answers where "messages (snd (handle_tool_call shell_env tool_ctx)) = ms @ answers"
      "map m_tool_call_id answers = map (\<lambda>c. Some (tc_id c)) [provider_call]"
    using every_call_is_answered_once [of shell_env tool_ctx "fst (handle_tool_call shell_env tool_ctx)"
        "snd (handle_tool_call shell_env tool_ctx)"] tool_ctx_runs
    by (metis prod.collapse)
  then show ?thesis by (intro exI [of _ ms] exI [of _ answers]) (simp add: provider_call_def)
qed

text \<open>
  Every tool call the run makes is recorded by its start and exactly one outcome: completed
  when it yields a result for the model - whatever the shaper port does - and failed otherwise.
\<close>

theorem tool_call_has_one_outcome:
  assumes "log_ok m ctx"
  shows "\<exists>out. flow m (snd (run_one_tool env c ctx)) = flow m ctx @ [ToolCallStarted (tc_name c) (tc_id c), out] \<and>
    (case fst (run_one_tool env c ctx) of
       Inr cand \<Rightarrow> \<exists>d. out = ToolCallCompleted (tc_name c) (tc_id c) d
     | Inl step \<Rightarrow> \<exists>code t. out = ToolCallFailed (tc_name c) (tc_id c) code t)"
  using one_tool_flow [OF assms] .

lemma calm_log: "log_ok 0 calm_ctx"
  by (simp add: log_ok_def memory_ok_def emitter_ok_def calm_ctx_def new_emitter_def collected_def)

theorem tool_call_has_one_outcome_witness:
  "\<exists>out. flow 0 (snd (run_one_tool shell_env provider_call calm_ctx)) =
    flow 0 calm_ctx @ [ToolCallStarted ''shell'' ''c1'', out]"
  using tool_call_has_one_outcome [OF calm_log, of shell_env provider_call]
  by (auto simp: provider_call_def)

end
