(* ===== verification/Harness_Loop.thy ===== *)
theory Harness_Loop
  imports Executor_Properties
begin

text \<open>
  The driver of the state machine (\<open>packages/keiko-harness/src/loop.ts\<close>). The guards, \<open>dispatch\<close>
  and \<open>transition\<close> are the functions of the source; \<open>loop_step\<close> is the body of its \<open>for\<close> loop and
  \<open>loop_steps\<close> the loop, with the bound of the source as its fuel. The abstract machine a run follows
  is the relation \<open>edge\<close>; the loop is shown to follow it, to stay within the run's limits and to end
  well before its bound.
\<close>

subsection \<open>Guards\<close>

definition max_loop_steps :: nat where
  "max_loop_steps = 10000"

definition check_wall_time :: "'a emitter_env_scheme \<Rightarrow> run_ctx \<Rightarrow> state_step option \<times> run_ctx" where
  "check_wall_time env ctx =
     (if ctx_now env ctx - started_at ctx > maxWallTimeMs (limits ctx)
      then (Some (to_step LimitExceeded ''maxWallTimeMs exceeded''),
            set_failure LimitWallTime ''wall-time budget exhausted'' (ctx_tick ctx))
      else (None, ctx_tick ctx))"

definition protected_states :: "harness_state list" where
  "protected_states = [Failed, Cancelled]"

definition check_wall_time_post_dispatch ::
  "'a emitter_env_scheme \<Rightarrow> state_step \<Rightarrow> run_ctx \<Rightarrow> state_step option \<times> run_ctx" where
  "check_wall_time_post_dispatch env dispatched ctx =
     (if step_to dispatched \<in> set protected_states then (None, ctx)
      else if ctx_now env ctx - started_at ctx \<le> maxWallTimeMs (limits ctx) then (None, ctx_tick ctx)
      else (Some (to_step LimitExceeded ''maxWallTimeMs exceeded''),
            claim_failure LimitWallTime ''wall-time budget exhausted'' (ctx_tick ctx)))"

definition check_loop_limits :: "'a emitter_env_scheme \<Rightarrow> run_ctx \<Rightarrow> state_step option \<times> run_ctx" where
  "check_loop_limits env ctx =
     (let r = check_wall_time env ctx
      in if fst r \<noteq> None then r
         else if iterations (counters (snd r)) \<ge> maxIterations (limits (snd r))
         then (Some (to_step LimitExceeded ''maxIterations exceeded''),
               set_failure LimitIterations ''iteration budget exhausted'' (snd r))
         else (None, snd r))"

definition check_model_call_limits :: "'a harness_env_scheme \<Rightarrow> run_ctx \<Rightarrow> state_step option \<times> run_ctx" where
  "check_model_call_limits env ctx =
     (if modelCalls (counters ctx) \<ge> maxModelCalls (limits ctx)
      then (Some (to_step LimitExceeded ''maxModelCalls exceeded''),
            set_failure LimitModelCalls ''model-call budget exhausted'' ctx)
      else
        let bytes = context_bytes (messages ctx)
        in if bytes \<le> maxContextBytes (limits ctx) then (None, ctx)
           else
             let c = try_compact env ctx
             in if fst c then (None, snd c)
                else (Some (to_step LimitExceeded ''maxContextBytes exceeded''),
                      set_failure LimitContextSize (context_exceeds bytes (snd c)) (snd c)))"

definition check_tool_limits :: "run_ctx \<Rightarrow> state_step option \<times> run_ctx" where
  "check_tool_limits ctx =
     (if toolCalls (counters ctx) + int (length (pending_calls ctx)) > maxToolCalls (limits ctx)
      then (Some (to_step LimitExceeded ''maxToolCalls exceeded''),
            set_failure LimitToolCalls ''tool-call budget exhausted'' ctx)
      else (None, ctx))"

definition check_entry_guards ::
  "'a harness_env_scheme \<Rightarrow> harness_state \<Rightarrow> run_ctx \<Rightarrow> state_step option \<times> run_ctx" where
  "check_entry_guards env st ctx =
     (let r = check_wall_time env ctx
      in if fst r \<noteq> None then r
         else if aborted (snd r) then (Some (to_step Cancelled ''abort detected before state entry''), snd r)
         else if st = ModelCall then check_model_call_limits env (snd r)
         else if st = ToolCall then check_tool_limits (snd r)
         else (None, snd r))"

subsection \<open>Dispatch and transition\<close>

fun state_text :: "harness_state \<Rightarrow> string" where
  "state_text Intake = ''intake''"
| "state_text Planning = ''planning''"
| "state_text ContextSelection = ''context-selection''"
| "state_text ModelCall = ''model-call''"
| "state_text ToolCall = ''tool-call''"
| "state_text PatchProposal = ''patch-proposal''"
| "state_text Verification = ''verification''"
| "state_text Reporting = ''reporting''"
| "state_text Completed = ''completed''"
| "state_text Cancelled = ''cancelled''"
| "state_text Failed = ''failed''"
| "state_text LimitExceeded = ''limit-exceeded''"

definition count_iteration :: "run_ctx \<Rightarrow> run_ctx" where
  "count_iteration ctx = ctx\<lparr> counters := (counters ctx)\<lparr> iterations := iterations (counters ctx) + 1 \<rparr> \<rparr>"

definition handler :: "'a harness_env_scheme \<Rightarrow> harness_state \<Rightarrow> run_ctx \<Rightarrow> state_step \<times> run_ctx" where
  "handler env st ctx = (case st of
     Planning \<Rightarrow> handle_planning env (count_iteration ctx)
   | ContextSelection \<Rightarrow> handle_context_selection ctx
   | ModelCall \<Rightarrow> handle_model_call env ctx
   | ToolCall \<Rightarrow> handle_tool_call env ctx
   | PatchProposal \<Rightarrow> handle_patch_proposal env ctx
   | Verification \<Rightarrow> handle_verification env ctx
   | Reporting \<Rightarrow> handle_reporting ctx
   | _ \<Rightarrow> (to_step Failed ''internal: unhandled state'',
           set_failure InternalError (''no handler for state '' @ state_text st) ctx))"

text \<open>\<open>dispatch\<close> is asynchronous: its result is awaited.\<close>

definition dispatch :: "'a harness_env_scheme \<Rightarrow> harness_state \<Rightarrow> run_ctx \<Rightarrow> state_step \<times> run_ctx" where
  "dispatch env st ctx =
     (let r = handler env st ctx in (fst r, await_point env (snd r)))"

definition transition ::
  "'a emitter_env_scheme \<Rightarrow> harness_state \<Rightarrow> state_step \<Rightarrow> run_ctx \<Rightarrow> harness_state \<times> run_ctx" where
  "transition env from_state step ctx =
     (let ctx1 = (if step_to step = Cancelled then ctx\<lparr> cancelled_at := Some from_state \<rparr> else ctx)
      in (step_to step, ctx_emit env (StateTransition from_state (step_to step) (step_reason step)) ctx1))"

definition terminal_failure :: "harness_failure option \<Rightarrow> harness_state \<Rightarrow> harness_failure option" where
  "terminal_failure f st =
     (if st \<noteq> Failed \<and> st \<noteq> LimitExceeded then None
      else Some (case f of Some g \<Rightarrow> g
        | None \<Rightarrow> to_failure InternalError ''run failed without a failure record''))"

definition emit_terminal :: "'a emitter_env_scheme \<Rightarrow> harness_state \<Rightarrow> run_ctx \<Rightarrow> run_ctx" where
  "emit_terminal env st ctx =
     (if st = Completed then
        ctx_emit env (RunCompleted
          (case report ctx of None \<Rightarrow> ''no model output'' | Some r \<Rightarrow> r) (patch_diff ctx)) ctx
      else if st = Cancelled then
        ctx_emit env (RunCancelled (cancel_reason ctx)
          (case cancelled_at ctx of None \<Rightarrow> st | Some s \<Rightarrow> s)) ctx
      else (case terminal_failure (failure ctx) st of
          None \<Rightarrow> ctx
        | Some f \<Rightarrow> ctx_emit env (RunFailed f st) (ctx\<lparr> failure := Some f \<rparr>)))"

subsection \<open>The loop\<close>

definition guard :: "'a harness_env_scheme \<Rightarrow> harness_state \<Rightarrow> run_ctx \<Rightarrow> state_step option \<times> run_ctx" where
  "guard env st ctx =
     (if st = Planning then check_loop_limits env ctx else check_entry_guards env st ctx)"

definition loop_step :: "'a harness_env_scheme \<Rightarrow> harness_state \<Rightarrow> run_ctx \<Rightarrow> harness_state \<times> run_ctx" where
  "loop_step env st ctx =
     (if aborted ctx then transition env st (to_step Cancelled ''abort detected at top of loop'') ctx
      else
        let g = guard env st ctx
        in case fst g of
             Some step \<Rightarrow> transition env st step (snd g)
           | None \<Rightarrow>
               (let d = dispatch env st (snd g);
                    p = check_wall_time_post_dispatch env (fst d) (snd d)
                in transition env st (case fst p of Some s \<Rightarrow> s | None \<Rightarrow> fst d) (snd p)))"

fun loop_steps :: "'a harness_env_scheme \<Rightarrow> nat \<Rightarrow> harness_state \<Rightarrow> run_ctx \<Rightarrow> harness_state \<times> run_ctx" where
  "loop_steps env 0 st ctx = (st, ctx)"
| "loop_steps env (Suc n) st ctx =
     (if is_terminal st then (st, ctx)
      else let r = loop_step env st ctx in loop_steps env n (fst r) (snd r))"

definition run_loop :: "'a harness_env_scheme \<Rightarrow> run_ctx \<Rightarrow> harness_state \<times> run_ctx" where
  "run_loop env ctx =
     (let start = transition env Intake (to_step Planning ''task validated'') ctx;
          r = loop_steps env max_loop_steps (fst start) (snd start);
          stop = (if is_terminal (fst r) then r
                  else transition env (fst r) (to_step Failed ''internal: state-machine step limit exceeded'')
                    (set_failure InternalError ''state-machine safety step limit exceeded'' (snd r)))
      in (fst stop, emit_terminal env (fst stop) (snd stop)))"

subsection \<open>The abstract machine\<close>

text \<open>
  The transitions a run under a plan may take. Every state the driver enters may also end in
  \<open>limit-exceeded\<close> or \<open>cancelled\<close>; only the two states that call ports may fail.
\<close>

inductive edge :: "task_plan \<Rightarrow> harness_state \<Rightarrow> harness_state \<Rightarrow> bool" for p where
  accept: "edge p Intake Planning"
| plan_context: "edge p Planning ContextSelection"
| assemble: "edge p ContextSelection ModelCall"
| replan: "edge p ModelCall Planning"
| use_tools: "allows_tools p \<Longrightarrow> edge p ModelCall ToolCall"
| propose: "allows_patch p \<Longrightarrow> edge p ModelCall PatchProposal"
| answer: "edge p ModelCall Reporting"
| feed_back: "edge p ToolCall ModelCall"
| verify: "edge p PatchProposal Verification"
| verified: "edge p Verification Reporting"
| rework: "edge p Verification Planning"
| complete: "edge p Reporting Completed"
| fails: "st \<in> {ModelCall, ToolCall} \<Longrightarrow> edge p st Failed"
| exceeds: "\<not> is_terminal st \<Longrightarrow> st \<noteq> Intake \<Longrightarrow> edge p st LimitExceeded"
| cancels: "\<not> is_terminal st \<Longrightarrow> st \<noteq> Intake \<Longrightarrow> edge p st Cancelled"

inductive_simps edge_from_terminal [simp]: "edge p Completed st" "edge p Failed st"
  "edge p Cancelled st" "edge p LimitExceeded st"
inductive_simps edge_to_tool [simp]: "edge p st ToolCall"
inductive_simps edge_to_proposal [simp]: "edge p st PatchProposal"
inductive_simps edge_to_verification [simp]: "edge p st Verification"
inductive_cases edge_from_intake: "edge p Intake st"

lemmas edges = edge.intros

text \<open>
  A recorded sequence of transitions that follows the machine; a model call is only started in its
  state, with a conversation of at most \<open>k\<close> bytes.
\<close>

fun path :: "task_plan \<Rightarrow> int \<Rightarrow> harness_state \<Rightarrow> event_body list \<Rightarrow> harness_state \<Rightarrow> bool" where
  "path p k s [] t \<longleftrightarrow> s = t"
| "path p k s (StateTransition a b r # es) t \<longleftrightarrow> a = s \<and> edge p a b \<and> path p k b es t"
| "path p k s (ModelCallStarted m n bytes # es) t \<longleftrightarrow> s = ModelCall \<and> bytes \<le> k \<and> path p k s es t"
| "path p k s (e # es) t \<longleftrightarrow> False"

lemma path_append: "path p k s xs t \<Longrightarrow> path p k t ys u \<Longrightarrow> path p k s (xs @ ys) u"
  by (induction p k s xs t rule: path.induct) auto

lemma path_snoc: "path p k s xs t \<Longrightarrow> edge p t u \<Longrightarrow> path p k s (xs @ [StateTransition t u r]) u"
  by (rule path_append) simp_all

lemma path_start:
  "path p k s xs ModelCall \<Longrightarrow> context_bytes (messages ctx) \<le> k \<Longrightarrow>
     path p k s (xs @ [model_start ctx]) ModelCall"
  by (rule path_append) (simp_all add: model_start_def)

subsection \<open>Guards and handlers, for the loop\<close>

lemma set_failure_counters [simp]: "catalog (set_failure c t ctx) = catalog ctx" by simp

lemma clean_tick: "clean_failure (ctx_tick ctx) = clean_failure ctx" by simp

lemma wall_time_cases:
  obtains (past) "check_wall_time env ctx = (Some (to_step LimitExceeded ''maxWallTimeMs exceeded''),
      set_failure LimitWallTime ''wall-time budget exhausted'' (ctx_tick ctx))"
    | (within) "check_wall_time env ctx = (None, ctx_tick ctx)"
  by (cases "ctx_now env ctx - started_at ctx > maxWallTimeMs (limits ctx)") (simp_all add: check_wall_time_def)

text \<open>What a guard leaves: the counters, and the run it is about to dispatch or to end.\<close>

definition guard_frame :: "nat \<Rightarrow> run_ctx \<Rightarrow> run_ctx \<Rightarrow> bool" where
  "guard_frame m a b \<longleftrightarrow> loop_frame m a b \<and> counters b = counters a \<and> catalog b = catalog a"

lemma guard_frame_refl [simp]: "guard_frame m a a"
  by (simp add: guard_frame_def)

lemma guard_frame_tick: "guard_frame m ctx (ctx_tick ctx)"
  by (simp add: guard_frame_def run_loop_frame run_frame_tick)

lemma guard_frame_failure: "guard_frame m a b \<Longrightarrow> guard_frame m a (set_failure c t b)"
  by (simp add: guard_frame_def loop_frame_set_failure)

lemma guard_frame_claim: "guard_frame m a b \<Longrightarrow> guard_frame m a (claim_failure c t b)"
  by (auto simp: claim_failure_def guard_frame_failure split: option.splits)

lemma guard_frame_trans: "guard_frame m a b \<Longrightarrow> guard_frame m b c \<Longrightarrow> guard_frame m a c"
  using loop_frame_trans by (auto simp: guard_frame_def)

lemma guard_frame_wall: "guard_frame m ctx (snd (check_wall_time env ctx))"
  by (simp add: check_wall_time_def guard_frame_failure guard_frame_tick)

lemma guard_frame_compact: "guard_frame m ctx (snd (try_compact env ctx))"
proof (cases rule: try_compact_cases [of env ctx])
  case (compacted ms n)
  then show ?thesis by (simp add: guard_frame_def loop_frames)
qed simp

lemma guard_frame_model: "guard_frame m ctx (snd (check_model_call_limits env ctx))"
  using guard_frame_compact [of m ctx env]
  by (simp add: check_model_call_limits_def Let_def guard_frame_failure)

lemma guard_frame_guard: "guard_frame m ctx (snd (guard env st ctx))"
proof -
  have "guard_frame m ctx (snd (check_model_call_limits env (snd (check_wall_time env ctx))))"
    by (rule guard_frame_trans [OF guard_frame_wall guard_frame_model])
  moreover have "guard_frame m ctx (snd (check_tool_limits (snd (check_wall_time env ctx))))"
    by (simp add: check_tool_limits_def guard_frame_failure guard_frame_wall)
  ultimately show ?thesis
    by (simp add: guard_def check_loop_limits_def check_entry_guards_def Let_def guard_frame_wall
        guard_frame_failure)
qed

lemma clean_compact: "clean_failure ctx \<Longrightarrow> clean_failure (snd (try_compact env ctx))"
  by (cases rule: try_compact_cases [of env ctx]) simp_all

lemma guard_stop:
  assumes "fst (guard env st ctx) = Some s" and "clean_failure ctx"
  shows "step_to s \<in> {LimitExceeded, Cancelled} \<and> failure_ok (step_to s) (snd (guard env st ctx))"
  using assms clean_compact [of "ctx_tick ctx" env]
  by (cases rule: wall_time_cases [of env ctx])
     (auto simp: guard_def check_loop_limits_def check_entry_guards_def check_model_call_limits_def
        check_tool_limits_def Let_def is_limit_code_iff failure_ok_nonfailure split: if_splits)

lemma guard_pass:
  assumes "fst (guard env st ctx) = None" and "clean_failure ctx"
  shows "clean_failure (snd (guard env st ctx))"
    and "st = Planning \<Longrightarrow> iterations (counters ctx) < maxIterations (limits ctx)"
    and "st = ModelCall \<Longrightarrow> modelCalls (counters ctx) < maxModelCalls (limits ctx) \<and>
      context_bytes (messages (snd (guard env st ctx))) \<le> maxContextBytes (limits ctx)"
proof -
  have wall: "check_wall_time env ctx = (None, ctx_tick ctx)"
    using assms(1) by (cases rule: wall_time_cases [of env ctx])
      (auto simp: guard_def check_loop_limits_def check_entry_guards_def Let_def split: if_splits)
  show "clean_failure (snd (guard env st ctx))"
    using assms wall clean_compact [of "ctx_tick ctx" env]
    by (auto simp: guard_def check_loop_limits_def check_entry_guards_def check_model_call_limits_def
        check_tool_limits_def Let_def split: if_splits)
  show "st = Planning \<Longrightarrow> iterations (counters ctx) < maxIterations (limits ctx)"
    using assms wall by (auto simp: guard_def check_loop_limits_def Let_def split: if_splits)
  assume st: "st = ModelCall"
  show "modelCalls (counters ctx) < maxModelCalls (limits ctx) \<and>
      context_bytes (messages (snd (guard env st ctx))) \<le> maxContextBytes (limits ctx)"
    using assms wall st
    by (cases rule: try_compact_cases [of env "ctx_tick ctx"])
       (auto simp: guard_def check_entry_guards_def check_model_call_limits_def Let_def split: if_splits)
qed

text \<open>The states the loop dispatches.\<close>

definition active :: "harness_state \<Rightarrow> bool" where
  "active st \<longleftrightarrow> \<not> is_terminal st \<and> st \<noteq> Intake"

lemma active_cases:
  "active st \<Longrightarrow> st \<in> {Planning, ContextSelection, ModelCall, ToolCall, PatchProposal, Verification, Reporting}"
  by (cases st) (simp_all add: active_def)

definition handler_targets :: "task_plan \<Rightarrow> harness_state \<Rightarrow> harness_state set" where
  "handler_targets p st = (case st of
     Planning \<Rightarrow> {ContextSelection}
   | ContextSelection \<Rightarrow> {ModelCall, LimitExceeded}
   | ModelCall \<Rightarrow> model_targets p
   | ToolCall \<Rightarrow> {ModelCall, LimitExceeded, Failed, Cancelled}
   | PatchProposal \<Rightarrow> {Verification, LimitExceeded}
   | Verification \<Rightarrow> {Reporting, Planning, LimitExceeded}
   | Reporting \<Rightarrow> {Completed}
   | _ \<Rightarrow> {})"

lemma count_iteration_simps [simp]:
  "iterations (counters (count_iteration ctx)) = iterations (counters ctx) + 1"
  "modelCalls (counters (count_iteration ctx)) = modelCalls (counters ctx)"
  "failureAttempts (counters (count_iteration ctx)) = failureAttempts (counters ctx)"
  "limits (count_iteration ctx) = limits ctx" "plan (count_iteration ctx) = plan ctx"
  "log_ok m (count_iteration ctx) = log_ok m ctx" "route m (count_iteration ctx) = route m ctx"
  "clean_failure (count_iteration ctx) = clean_failure ctx" "aborted (count_iteration ctx) = aborted ctx"
  "started_at (count_iteration ctx) = started_at ctx"
  by (simp_all add: count_iteration_def)

lemma handler_ok_handler: "active st \<Longrightarrow> handler_ok (handler_targets (plan ctx) st) ctx (handler env st ctx)"
  using active_cases [of st] model_call_ok [of ctx env] tool_call_ok [of ctx env] selection_ok [of ctx]
    proposal_ok [of ctx env] verification_ok [of ctx env] reporting_ok [of ctx]
    handler_ok_start [OF _ planning_ok [of "count_iteration ctx" env], of ctx]
  by (auto simp: handler_targets_def handler_def)

lemma targets_edge: "t \<in> handler_targets p st \<Longrightarrow> edge p st t"
  by (cases st) (auto simp: handler_targets_def model_targets_def intro: edges split: if_splits)

lemma handler_edge: "active st \<Longrightarrow> edge (plan ctx) st (step_to (fst (handler env st ctx)))"
  using handler_ok_handler [of st ctx env] targets_edge by (simp add: handler_ok_def)

lemma handler_failure:
  "active st \<Longrightarrow> clean_failure ctx \<Longrightarrow> failure_ok (step_to (fst (handler env st ctx))) (snd (handler env st ctx))"
  using active_cases [of st] planning_failure [of "count_iteration ctx" env] selection_failure [of ctx]
    model_call_failure [of ctx env] tool_call_failure [of ctx env] proposal_failure [of ctx env]
    verification_failure [of ctx env] reporting_failure [of ctx]
  by (auto simp: handler_def)

text \<open>What a handler records and counts.\<close>

definition entry_run :: "'a harness_env_scheme \<Rightarrow> harness_state \<Rightarrow> run_ctx \<Rightarrow> run_ctx" where
  "entry_run env st ctx =
     (if st = Planning then count_iteration ctx
      else if st = ModelCall then start_model_call env ctx else ctx)"

lemma loop_frame_handler: "active st \<Longrightarrow> loop_frame m (entry_run env st ctx) (snd (handler env st ctx))"
  using active_cases [of st] loop_frame_planning [of m "count_iteration ctx" env] loop_frame_selection [of m ctx]
    loop_frame_model_call [of m env ctx] loop_frame_tool_call [of m ctx env] loop_frame_proposal [of m ctx env]
    loop_frame_verification [of m ctx env] loop_frame_reporting [of m ctx]
  by (auto simp: handler_def entry_run_def)

lemma entry_run_simps [simp]:
  "limits (entry_run env st ctx) = limits ctx" "plan (entry_run env st ctx) = plan ctx"
  "started_at (entry_run env st ctx) = started_at ctx"
  "iterations (counters (entry_run env st ctx)) = iterations (counters ctx) + (if st = Planning then 1 else 0)"
  by (simp_all add: entry_run_def start_model_call_def count_iteration_def)

lemma entry_run_log:
  "log_ok m ctx \<Longrightarrow> log_ok m (entry_run env st ctx) \<and>
     route m (entry_run env st ctx) = route m ctx @ (if st = ModelCall then [model_start ctx] else [])"
  using start_model_call_route [of m ctx env] by (simp add: entry_run_def)

lemma simple_handlers_counts:
  "modelCalls (counters (snd (handle_planning env ctx))) = modelCalls (counters ctx)"
  "modelCalls (counters (snd (handle_context_selection ctx))) = modelCalls (counters ctx)"
  "modelCalls (counters (snd (handle_patch_proposal env ctx))) = modelCalls (counters ctx)"
  "modelCalls (counters (snd (handle_verification env ctx))) = modelCalls (counters ctx)"
  "modelCalls (counters (snd (handle_reporting ctx))) = modelCalls (counters ctx)"
  by (simp_all add: handle_planning_def handle_context_selection_def handle_patch_proposal_def
      handle_verification_def handle_reporting_def Let_def)

lemma handler_model_calls:
  "active st \<Longrightarrow> modelCalls (counters (snd (handler env st ctx))) =
     modelCalls (counters ctx) + (if st = ModelCall then 1 else 0)"
  using active_cases [of st] model_call_counts [of env ctx] tool_call_counts [of env ctx]
  by (auto simp: handler_def simple_handlers_counts)

lemma simple_handlers_tools:
  assumes "st \<in> {Planning, ContextSelection, PatchProposal, Verification, Reporting}"
  shows "tools_ok (snd (handler env st ctx)) = tools_ok ctx"
    and "commands_bound k (snd (handler env st ctx)) = commands_bound k ctx"
proof -
  have "toolCalls (counters (snd (handler env st ctx))) = toolCalls (counters ctx) \<and>
    commandExecutions (counters (snd (handler env st ctx))) = commandExecutions (counters ctx) \<and>
    catalog (snd (handler env st ctx)) = catalog ctx \<and> limits (snd (handler env st ctx)) = limits ctx"
    using assms by (auto simp: handler_def handle_planning_def handle_context_selection_def
        handle_patch_proposal_def handle_verification_def handle_reporting_def count_failure_def
        count_iteration_def Let_def)
  then show "tools_ok (snd (handler env st ctx)) = tools_ok ctx"
    "commands_bound k (snd (handler env st ctx)) = commands_bound k ctx"
    by (simp_all add: tools_ok_def budget_ok_def commands_bound_def)
qed

lemma handler_tools: "active st \<Longrightarrow> tools_ok ctx \<Longrightarrow> tools_ok (snd (handler env st ctx))"
  using active_cases [of st] tools_ok_model_call [of ctx env] tools_ok_tool_call [of ctx env]
    simple_handlers_tools(1) [of st env ctx]
  by (auto simp: handler_def)

lemma handler_commands:
  assumes "active st" and "verify_stable env" and "commands_bound 0 ctx"
  shows "commands_bound (if is_terminal (step_to (fst (handler env st ctx))) then 1 else 0)
    (snd (handler env st ctx))"
proof -
  have up: "commands_bound 0 x \<Longrightarrow> commands_bound 1 x" for x by (simp add: commands_bound_def)
  show ?thesis
  proof (cases "st = ToolCall")
    case True
    have "step_to (fst (handle_tool_call env ctx)) \<in> {ModelCall, LimitExceeded, Failed, Cancelled}"
      using tool_call_ok [of ctx env] by (simp add: handler_ok_def)
    with True commands_tool_call [OF assms(2, 3)] show ?thesis
      by (auto simp: handler_def simp del: One_nat_def)
  next
    case False
    then have "commands_bound 0 (snd (handler env st ctx))"
      using active_cases [OF assms(1)] simple_handlers_tools(2) [of st 0 env ctx] assms(3)
        commands_model_call [OF assms(3), of env]
      by (auto simp: handler_def)
    then show ?thesis using up by simp
  qed
qed

subsection \<open>The loop invariant\<close>

text \<open>
  The counts of a run against its limits. A run that has just ended may have counted one failed
  attempt and one undeclared command more than a run that goes on.
\<close>

definition counts_ok :: "'a harness_env_scheme \<Rightarrow> nat \<Rightarrow> run_ctx \<Rightarrow> bool" where
  "counts_ok env k ctx \<longleftrightarrow>
     iterations (counters ctx) \<le> max 0 (maxIterations (limits ctx)) \<and>
     modelCalls (counters ctx) \<le> max 0 (maxModelCalls (limits ctx)) \<and>
     failureAttempts (counters ctx) \<le> max 0 (maxFailureAttempts (limits ctx) - 1) + int k \<and>
     tools_ok ctx \<and> (verify_stable env \<longrightarrow> commands_bound k ctx)"

definition ended :: "harness_state \<Rightarrow> nat" where
  "ended st = (if is_terminal st then 1 else 0)"

lemma counts_ok_cong:
  "counters b = counters a \<Longrightarrow> limits b = limits a \<Longrightarrow> catalog b = catalog a \<Longrightarrow>
     counts_ok env k b = counts_ok env k a"
  using tools_ok_cong [of b a] commands_bound_cong [of b a k] by (simp add: counts_ok_def)

lemma counts_ok_mono: "counts_ok env 0 ctx \<Longrightarrow> counts_ok env k ctx"
  by (auto simp: counts_ok_def commands_bound_def)

lemma handler_counts:
  assumes "active st" and "counts_ok env 0 ctx"
    and "st = Planning \<Longrightarrow> iterations (counters ctx) < maxIterations (limits ctx)"
    and "st = ModelCall \<Longrightarrow> modelCalls (counters ctx) < maxModelCalls (limits ctx)"
  shows "counts_ok env (ended (step_to (fst (handler env st ctx)))) (snd (handler env st ctx))"
proof -
  let ?out = "handler env st ctx"
  have frame: "limits (snd ?out) = limits ctx"
    "iterations (counters (snd ?out)) = iterations (counters ctx) + (if st = Planning then 1 else 0)"
    using loop_frame_handler [OF assms(1), of 0 env ctx] by (simp_all add: loop_frame_def)
  have "failureAttempts (counters (snd ?out)) \<le>
      max 0 (maxFailureAttempts (limits ctx) - 1) + int (ended (step_to (fst ?out)))"
  proof (cases "failureAttempts (counters (snd ?out)) = failureAttempts (counters ctx)")
    case True
    with assms(2) show ?thesis by (simp add: counts_ok_def)
  next
    case False
    with handler_ok_handler [OF assms(1), of ctx env]
    have "step_to (fst ?out) = Planning \<and> failureAttempts (counters (snd ?out)) < maxFailureAttempts (limits ctx) \<or>
        step_to (fst ?out) = LimitExceeded \<and>
        failureAttempts (counters (snd ?out)) \<le> failureAttempts (counters ctx) + 1"
      by (auto simp: handler_ok_def frame)
    with assms(2) show ?thesis by (auto simp: ended_def counts_ok_def)
  qed
  moreover have "iterations (counters (snd ?out)) \<le> max 0 (maxIterations (limits ctx))"
    "modelCalls (counters (snd ?out)) \<le> max 0 (maxModelCalls (limits ctx))"
    using assms frame handler_model_calls [OF assms(1), of env ctx] by (auto simp: counts_ok_def)
  ultimately show ?thesis
    using assms(2) handler_tools [OF assms(1), of ctx env] handler_commands [OF assms(1), of env ctx] frame
    by (simp add: counts_ok_def ended_def)
qed

text \<open>
  The invariant between iterations: the run's constants, the path it has recorded, the state of its
  failure slot, its counts.
\<close>

definition loop_inv :: "nat \<Rightarrow> 'a harness_env_scheme \<Rightarrow> run_ctx \<Rightarrow> harness_state \<times> run_ctx \<Rightarrow> bool" where
  "loop_inv m env c0 s \<longleftrightarrow>
     plan (snd s) = plan c0 \<and> limits (snd s) = limits c0 \<and> started_at (snd s) = started_at c0 \<and>
     log_ok m (snd s) \<and> fst s \<noteq> Intake \<and>
     path (plan c0) (maxContextBytes (limits c0)) Intake (route m (snd s)) (fst s) \<and>
     failure_ok (fst s) (snd s) \<and> counts_ok env (ended (fst s)) (snd s)"

text \<open>The same just before a transition from \<open>st\<close> to \<open>t\<close>.\<close>

definition mid_inv :: "nat \<Rightarrow> 'a harness_env_scheme \<Rightarrow> run_ctx \<Rightarrow> harness_state \<Rightarrow> harness_state \<Rightarrow> run_ctx \<Rightarrow> bool" where
  "mid_inv m env c0 st t ctx \<longleftrightarrow>
     plan ctx = plan c0 \<and> limits ctx = limits c0 \<and> started_at ctx = started_at c0 \<and>
     log_ok m ctx \<and> path (plan c0) (maxContextBytes (limits c0)) Intake (route m ctx) st \<and>
     edge (plan c0) st t \<and> failure_ok t ctx \<and> counts_ok env (ended t) ctx"

lemma failure_ok_cong: "failure b = failure a \<Longrightarrow> failure_ok st b = failure_ok st a"
  by (simp add: failure_ok_def clean_failure_def)

lemma transition_inv:
  assumes "mid_inv m env c0 st (step_to step) ctx"
  shows "loop_inv m env c0 (transition env st step ctx)"
proof -
  let ?ctx1 = "if step_to step = Cancelled then ctx\<lparr> cancelled_at := Some st \<rparr> else ctx"
  let ?ctx2 = "ctx_emit env (StateTransition st (step_to step) (step_reason step)) ?ctx1"
  have t: "transition env st step ctx = (step_to step, ?ctx2)" by (simp add: transition_def)
  have log: "log_ok m ?ctx1" "route m ?ctx1 = route m ctx" using assms by (simp_all add: mid_inv_def)
  have "path (plan c0) (maxContextBytes (limits c0)) Intake
      (route m ctx @ [StateTransition st (step_to step) (step_reason step)]) (step_to step)"
    using assms by (intro path_snoc) (simp_all add: mid_inv_def)
  moreover have "counts_ok env (ended (step_to step)) ?ctx2 = counts_ok env (ended (step_to step)) ctx"
    by (rule counts_ok_cong) simp_all
  moreover have "failure_ok (step_to step) ?ctx2 = failure_ok (step_to step) ctx"
    by (rule failure_ok_cong) simp
  moreover have "step_to step \<noteq> Intake" using assms by (auto simp: mid_inv_def elim: edge.cases)
  ultimately show ?thesis using assms log unfolding t by (simp add: loop_inv_def mid_inv_def)
qed

lemma mid_inv_guard:
  assumes "loop_inv m env c0 (st, ctx)" and "active st" and "guard_frame m ctx ctx'"
    and "edge (plan c0) st t" and "failure_ok t ctx'"
  shows "mid_inv m env c0 st t ctx'"
proof -
  have "counts_ok env 0 ctx" using assms(1, 2) by (simp add: loop_inv_def active_def ended_def)
  moreover have "counts_ok env 0 ctx' = counts_ok env 0 ctx"
    using assms(3) by (intro counts_ok_cong) (simp_all add: guard_frame_def loop_frame_def)
  ultimately have "counts_ok env (ended t) ctx'" by (simp add: counts_ok_mono)
  with assms show ?thesis by (simp add: loop_inv_def mid_inv_def guard_frame_def loop_frame_def)
qed

lemma loop_inv_clean: "loop_inv m env c0 (st, ctx) \<Longrightarrow> active st \<Longrightarrow> clean_failure ctx"
  by (cases st) (simp_all add: loop_inv_def failure_ok_def active_def)

text \<open>A dispatched state, its result awaited.\<close>

lemma mid_inv_dispatch:
  assumes inv: "loop_inv m env c0 (st, ctx)" and act: "active st" and pass: "fst (guard env st ctx) = None"
  shows "mid_inv m env c0 st (step_to (fst (dispatch env st (snd (guard env st ctx)))))
    (snd (dispatch env st (snd (guard env st ctx))))"
proof -
  define g where "g = snd (guard env st ctx)"
  have clean: "clean_failure ctx" by (rule loop_inv_clean [OF inv act])
  note gp = guard_pass [OF pass clean]
  have gf: "guard_frame m ctx g" unfolding g_def by (rule guard_frame_guard)
  then have g: "plan g = plan c0" "limits g = limits c0" "started_at g = started_at c0" "log_ok m g"
    "route m g = route m ctx" "counters g = counters ctx" "catalog g = catalog ctx" "limits ctx = limits c0"
    using inv by (simp_all add: guard_frame_def loop_frame_def loop_inv_def)
  have "counts_ok env 0 g = counts_ok env 0 ctx" by (rule counts_ok_cong) (simp_all add: g)
  then have cnt: "counts_ok env 0 g" using inv act by (simp add: loop_inv_def active_def ended_def)
  let ?h = "handler env st g"
  have counts: "counts_ok env (ended (step_to (fst ?h))) (snd ?h)"
    using gp by (intro handler_counts [OF act cnt]) (simp_all add: g)
  have frame: "loop_frame m (entry_run env st g) (snd ?h)" by (rule loop_frame_handler [OF act])
  have "path (plan c0) (maxContextBytes (limits c0)) Intake
      (route m ctx @ (if st = ModelCall then [model_start g] else [])) st"
    using inv gp(3) g_def g(8) by (auto simp: loop_inv_def intro: path_start)
  then have path: "path (plan c0) (maxContextBytes (limits c0)) Intake (route m (snd ?h)) st"
    using frame entry_run_log [OF g(4), of env st] by (simp add: loop_frame_def g(5))
  have fail: "failure_ok (step_to (fst ?h)) (snd ?h)" using gp(1) by (intro handler_failure act) (simp add: g_def)
  have wait: "counts_ok env k (await_point env x) = counts_ok env k x" for k x
    by (rule counts_ok_cong) simp_all
  have route: "route m (await_point env x) = route m x" for x by (simp add: route_def)
  have "mid_inv m env c0 st (step_to (fst ?h)) (await_point env (snd ?h))"
    using frame entry_run_log [OF g(4), of env st] path handler_edge [OF act, of g env]
    by (simp add: mid_inv_def loop_frame_def g wait route counts failure_ok_await [OF fail])
  then show ?thesis by (simp add: dispatch_def g_def Let_def)
qed

lemma late_failure:
  assumes "failure_ok t ctx" and "t \<notin> set protected_states"
  shows "failure_ok LimitExceeded (claim_failure LimitWallTime msg ctx)"
  using assms by (auto simp: failure_ok_def protected_states_def claim_failure_def clean_failure_def
      is_limit_code_iff split: option.splits)

lemma mid_inv_tick: "mid_inv m env c0 st t (ctx_tick ctx) = mid_inv m env c0 st t ctx"
proof -
  have "counts_ok env k (ctx_tick ctx) = counts_ok env k ctx" for k by (rule counts_ok_cong) simp_all
  moreover have "failure_ok t (ctx_tick ctx) = failure_ok t ctx" by (rule failure_ok_cong) simp
  ultimately show ?thesis by (simp add: mid_inv_def)
qed

lemma claim_failure_log [simp]:
  "log_ok m (claim_failure c t ctx) = log_ok m ctx" "route m (claim_failure c t ctx) = route m ctx"
  by (simp_all add: claim_failure_def split: option.splits)

lemma mid_inv_late:
  assumes "mid_inv m env c0 st t ctx" and "active st" and "t \<notin> set protected_states"
  shows "mid_inv m env c0 st LimitExceeded (claim_failure LimitWallTime msg ctx)"
proof -
  have "counts_ok env (ended t) ctx" using assms(1) by (simp add: mid_inv_def)
  then have "counts_ok env 1 ctx" by (auto simp: ended_def counts_ok_mono split: if_splits)
  moreover have "counts_ok env 1 (claim_failure LimitWallTime msg ctx) = counts_ok env 1 ctx"
    by (rule counts_ok_cong) simp_all
  ultimately show ?thesis
    using assms late_failure [of t ctx msg] by (simp add: mid_inv_def ended_def active_def exceeds)
qed

lemma loop_step_inv:
  assumes inv: "loop_inv m env c0 (st, ctx)" and act: "active st"
  shows "loop_inv m env c0 (loop_step env st ctx)"
proof -
  have clean: "clean_failure ctx" by (rule loop_inv_clean [OF inv act])
  have ends: "edge p st LimitExceeded" "edge p st Cancelled" for p
    using act by (simp_all add: active_def exceeds cancels)
  consider (abort) "aborted ctx"
    | (stop) s where "\<not> aborted ctx" "fst (guard env st ctx) = Some s"
    | (run) "\<not> aborted ctx" "fst (guard env st ctx) = None" by fastforce
  then show ?thesis
  proof cases
    case abort
    have "mid_inv m env c0 st Cancelled ctx"
      using clean by (intro mid_inv_guard [OF inv act guard_frame_refl]) (simp_all add: ends failure_ok_nonfailure)
    with abort show ?thesis by (simp add: loop_step_def transition_inv)
  next
    case (stop s)
    note gs = guard_stop [OF stop(2) clean]
    have "mid_inv m env c0 st (step_to s) (snd (guard env st ctx))"
      using gs ends by (intro mid_inv_guard [OF inv act guard_frame_guard]) auto
    with stop show ?thesis by (simp add: loop_step_def Let_def transition_inv)
  next
    case run
    let ?d = "dispatch env st (snd (guard env st ctx))"
    note mid = mid_inv_dispatch [OF inv act run(2)]
    have "loop_inv m env c0 (transition env st (fst ?d) (snd ?d))"
      "loop_inv m env c0 (transition env st (fst ?d) (ctx_tick (snd ?d)))"
      using mid by (simp_all add: transition_inv mid_inv_tick)
    moreover have "loop_inv m env c0 (transition env st (to_step LimitExceeded ''maxWallTimeMs exceeded'')
        (claim_failure LimitWallTime ''wall-time budget exhausted'' (ctx_tick (snd ?d))))"
      if "step_to (fst ?d) \<notin> set protected_states"
    proof -
      have "mid_inv m env c0 st (step_to (fst ?d)) (ctx_tick (snd ?d))" using mid by (simp add: mid_inv_tick)
      from mid_inv_late [OF this act that] show ?thesis by (simp add: transition_inv)
    qed
    ultimately show ?thesis
      using run by (simp add: loop_step_def check_wall_time_post_dispatch_def Let_def)
  qed
qed

lemma loop_steps_inv:
  "loop_inv m env c0 s \<Longrightarrow> loop_inv m env c0 (loop_steps env n (fst s) (snd s))"
proof (induction n arbitrary: s)
  case (Suc n)
  show ?case
  proof (cases "is_terminal (fst s)")
    case True
    with Suc.prems show ?thesis by simp
  next
    case False
    with Suc.prems have "active (fst s)" by (simp add: active_def loop_inv_def)
    with Suc.prems have "loop_inv m env c0 (loop_step env (fst s) (snd s))"
      by (intro loop_step_inv) simp_all
    from Suc.IH [OF this] False show ?thesis by (simp add: Let_def)
  qed
qed simp

subsection \<open>The loop ends\<close>

text \<open>
  What is left to do: two for each iteration not yet begun, three for each model call not yet made,
  and the distance of the state from the next of them.
\<close>

fun weight :: "harness_state \<Rightarrow> nat" where
  "weight ContextSelection = 1"
| "weight ToolCall = 1"
| "weight Verification = 1"
| "weight PatchProposal = 2"
| "weight st = 0"

definition potential :: "harness_state \<times> run_ctx \<Rightarrow> nat" where
  "potential s = 2 * nat (maxIterations (limits (snd s)) - iterations (counters (snd s))) +
     3 * nat (maxModelCalls (limits (snd s)) - modelCalls (counters (snd s))) + weight (fst s)"

lemma transition_simps [simp]:
  "fst (transition env st step ctx) = step_to step"
  "counters (snd (transition env st step ctx)) = counters ctx"
  "limits (snd (transition env st step ctx)) = limits ctx"
  by (simp_all add: transition_def Let_def)

lemma potential_transition:
  "potential (transition env st step ctx) = potential (step_to step, ctx)"
  by (simp add: potential_def)

lemma potential_cong:
  "counters b = counters a \<Longrightarrow> limits b = limits a \<Longrightarrow> potential (t, b) = potential (t, a)"
  by (simp add: potential_def)

lemma potential_handler:
  assumes act: "active st" and "clean_failure ctx"
    and "st = Planning \<Longrightarrow> iterations (counters ctx) < maxIterations (limits ctx)"
    and "st = ModelCall \<Longrightarrow> modelCalls (counters ctx) < maxModelCalls (limits ctx)"
  shows "potential (step_to (fst (handler env st ctx)), snd (handler env st ctx)) < potential (st, ctx) \<or>
    is_terminal (step_to (fst (handler env st ctx)))"
proof -
  have frame: "limits (snd (handler env st ctx)) = limits ctx"
    "iterations (counters (snd (handler env st ctx))) = iterations (counters ctx) + (if st = Planning then 1 else 0)"
    using loop_frame_handler [OF act, of 0 env ctx] by (simp_all add: loop_frame_def)
  have target: "step_to (fst (handler env st ctx)) \<in> handler_targets (plan ctx) st"
    using handler_ok_handler [OF act, of ctx env] by (simp add: handler_ok_def)
  show ?thesis
    using active_cases [OF act] target assms(3, 4) frame handler_model_calls [OF act, of env ctx]
    by (auto simp: potential_def handler_targets_def model_targets_def split: if_splits)
qed

lemma potential_loop_step:
  assumes act: "active st" and clean: "clean_failure ctx"
  shows "potential (loop_step env st ctx) < potential (st, ctx) \<or> is_terminal (fst (loop_step env st ctx))"
proof -
  consider (abort) "aborted ctx"
    | (stop) s where "\<not> aborted ctx" "fst (guard env st ctx) = Some s"
    | (run) "\<not> aborted ctx" "fst (guard env st ctx) = None" by fastforce
  then show ?thesis
  proof cases
    case abort
    then show ?thesis by (simp add: loop_step_def)
  next
    case (stop s)
    with guard_stop [OF stop(2) clean] show ?thesis by (auto simp: loop_step_def Let_def)
  next
    case run
    define g where "g = snd (guard env st ctx)"
    note gp = guard_pass [OF run(2) clean]
    have same: "counters g = counters ctx" "limits g = limits ctx"
      using guard_frame_guard [of 0 ctx env st] by (simp_all add: g_def guard_frame_def loop_frame_def)
    have pot: "potential (st, g) = potential (st, ctx)" by (rule potential_cong) (rule same)+
    have h: "potential (step_to (fst (handler env st g)), snd (handler env st g)) < potential (st, ctx) \<or>
        is_terminal (step_to (fst (handler env st g)))"
      unfolding pot [symmetric] using gp same by (intro potential_handler [OF act]) (simp_all add: g_def)
    have wait: "potential (t, await_point env x) = potential (t, x)"
      "potential (t, ctx_tick x) = potential (t, x)" for t x
      by (rule potential_cong; simp)+
    show ?thesis
      using h run by (auto simp: loop_step_def dispatch_def check_wall_time_post_dispatch_def Let_def
          potential_transition wait g_def)
  qed
qed

lemma loop_steps_end:
  assumes "loop_inv m env c0 s" and "potential s < n"
  shows "is_terminal (fst (loop_steps env n (fst s) (snd s)))"
  using assms
proof (induction n arbitrary: s)
  case (Suc n)
  show ?case
  proof (cases "is_terminal (fst s)")
    case True
    then show ?thesis by simp
  next
    case False
    obtain st ctx where s: "s = (st, ctx)" by (cases s)
    have act: "active st" using False Suc.prems(1) s by (simp add: active_def loop_inv_def)
    have inv: "loop_inv m env c0 (loop_step env st ctx)"
      using loop_step_inv [OF _ act] Suc.prems(1) s by simp
    have "potential (loop_step env st ctx) < n \<or> is_terminal (fst (loop_step env st ctx))"
      using potential_loop_step [OF act loop_inv_clean [OF _ act], of m env c0 ctx env] Suc.prems s by auto
    then show ?thesis
    proof
      assume "potential (loop_step env st ctx) < n"
      from Suc.IH [OF inv this] False s show ?thesis by (simp add: Let_def)
    next
      assume t: "is_terminal (fst (loop_step env st ctx))"
      then show ?thesis using False s by (cases n) (simp_all add: Let_def)
    qed
  qed
qed simp

text \<open>The limits under which the loop's own bound is never reached; the default limits are among them.\<close>

definition step_budget :: "harness_limits \<Rightarrow> int" where
  "step_budget l = 2 * max 0 (maxIterations l) + 3 * max 0 (maxModelCalls l)"

subsection \<open>A whole run\<close>

text \<open>The run as \<open>runLoop\<close> receives it: nothing counted, nothing recorded of its route.\<close>

definition fresh_run :: "nat \<Rightarrow> run_ctx \<Rightarrow> bool" where
  "fresh_run m ctx \<longleftrightarrow> log_ok m ctx \<and> route m ctx = [] \<and> counters ctx = new_counters \<and>
     clean_failure ctx \<and> (\<forall>rt. catalog ctx = Some rt \<longrightarrow> bg_charges (ct_budget rt) = [])"

lemma fresh_start:
  assumes "fresh_run m ctx"
  shows "loop_inv m env ctx (transition env Intake (to_step Planning ''task validated'') ctx)"
proof (rule transition_inv)
  have "tools_ok ctx"
    using assms by (auto simp: fresh_run_def tools_ok_def budget_ok_def new_counters_def)
  then have "counts_ok env 0 ctx"
    using assms by (simp add: fresh_run_def counts_ok_def new_counters_def commands_bound_def)
  then show "mid_inv m env ctx Intake (step_to (to_step Planning ''task validated'')) ctx"
    using assms by (simp add: mid_inv_def fresh_run_def accept failure_ok_nonfailure counts_ok_mono)
qed

lemma fresh_potential:
  assumes "fresh_run m ctx" and "step_budget (limits ctx) < 10000"
  shows "potential (transition env Intake (to_step Planning ''task validated'') ctx) < max_loop_steps"
  using assms by (simp add: potential_transition potential_def fresh_run_def new_counters_def
      step_budget_def max_loop_steps_def)

text \<open>The run before its terminal event.\<close>

lemma run_loop_inv:
  assumes "fresh_run m ctx" and "step_budget (limits ctx) < 10000"
  obtains st ctx' where "run_loop env ctx = (st, emit_terminal env st ctx')" "is_terminal st"
    "loop_inv m env ctx (st, ctx')"
proof -
  let ?s = "transition env Intake (to_step Planning ''task validated'') ctx"
  let ?r = "loop_steps env max_loop_steps (fst ?s) (snd ?s)"
  have inv: "loop_inv m env ctx ?r" by (rule loop_steps_inv [OF fresh_start [OF assms(1)]])
  have fin: "is_terminal (fst ?r)"
    by (rule loop_steps_end [OF fresh_start [OF assms(1)] fresh_potential [OF assms]])
  show thesis
    using inv fin by (intro that [of "fst ?r" "snd ?r"]) (simp_all add: run_loop_def Let_def)
qed

text \<open>
  The transitions before the terminal event: a path of the machine to the outcome or, when the limits
  let the loop take its 10,000 steps, a path to some state and the move of the safety net to \<open>failed\<close>.
\<close>

definition safety_move :: "harness_state \<Rightarrow> event_body" where
  "safety_move st = StateTransition st Failed ''internal: state-machine step limit exceeded''"

definition loop_path :: "task_plan \<Rightarrow> harness_limits \<Rightarrow> event_body list \<Rightarrow> harness_state \<Rightarrow> bool" where
  "loop_path p l es outcome \<longleftrightarrow> path p (maxContextBytes l) Intake es outcome \<or>
     10000 \<le> step_budget l \<and> outcome = Failed \<and>
     (\<exists>es' st. es = es' @ [safety_move st] \<and> path p (maxContextBytes l) Intake es' st \<and> \<not> is_terminal st)"

lemma run_loop_ends:
  assumes "fresh_run m ctx"
  obtains st ctx1 where "run_loop env ctx = (st, emit_terminal env st ctx1)" "is_terminal st"
    "log_ok m ctx1" "failure_ok st ctx1" "counts_ok env 1 ctx1" "limits ctx1 = limits ctx"
    "loop_path (plan ctx) (limits ctx) (route m ctx1) st"
proof -
  define s where "s = transition env Intake (to_step Planning ''task validated'') ctx"
  define r where "r = loop_steps env max_loop_steps (fst s) (snd s)"
  have inv: "loop_inv m env ctx r" unfolding r_def s_def by (rule loop_steps_inv [OF fresh_start [OF assms]])
  then have k: "log_ok m (snd r)" "failure_ok (fst r) (snd r)" "limits (snd r) = limits ctx"
    "path (plan ctx) (maxContextBytes (limits ctx)) Intake (route m (snd r)) (fst r)"
    "counts_ok env (ended (fst r)) (snd r)"
    by (simp_all add: loop_inv_def)
  then have cnt: "counts_ok env 1 (snd r)" by (auto simp: ended_def counts_ok_mono split: if_splits)
  show thesis
  proof (cases "is_terminal (fst r)")
    case True
    then have "run_loop env ctx = (fst r, emit_terminal env (fst r) (snd r))"
      by (simp add: run_loop_def s_def [symmetric] r_def [symmetric] Let_def)
    with True k cnt show thesis by (intro that [of "fst r" "snd r"]) (simp_all add: loop_path_def)
  next
    case False
    define c where "c = set_failure InternalError ''state-machine safety step limit exceeded'' (snd r)"
    define t where "t = transition env (fst r) (to_step Failed ''internal: state-machine step limit exceeded'') c"
    have big: "10000 \<le> step_budget (limits ctx)"
    proof (rule ccontr)
      assume "\<not> 10000 \<le> step_budget (limits ctx)"
      then have "is_terminal (fst r)"
        unfolding r_def s_def using assms by (intro loop_steps_end [OF fresh_start] fresh_potential) simp_all
      with False show False by contradiction
    qed
    have t: "t = (Failed, ctx_emit env (safety_move (fst r)) c)" by (simp add: t_def transition_def safety_move_def)
    have run: "run_loop env ctx = (Failed, emit_terminal env Failed (snd t))"
      using False by (simp add: run_loop_def s_def [symmetric] r_def [symmetric] c_def [symmetric] t_def [symmetric] t Let_def)
    have c: "log_ok m c" "route m c = route m (snd r)" "failure_ok Failed c" "limits c = limits ctx"
      using k by (simp_all add: c_def is_limit_code_iff)
    have "counts_ok env 1 c = counts_ok env 1 (snd r)" unfolding c_def by (rule counts_ok_cong) simp_all
    moreover have "counts_ok env 1 (snd t) = counts_ok env 1 c" unfolding t by (rule counts_ok_cong) simp_all
    moreover have "failure_ok Failed (snd t) = failure_ok Failed c" unfolding t by (rule failure_ok_cong) simp
    moreover have "log_ok m (snd t) \<and> route m (snd t) = route m (snd r) @ [safety_move (fst r)]"
      using c by (simp add: t safety_move_def)
    ultimately show thesis
      using c cnt k(4) False big by (intro that [OF run]) (auto simp: t loop_path_def)
  qed
qed

text \<open>The terminal event that goes with an outcome.\<close>

fun terminal_event :: "harness_state \<Rightarrow> event_body \<Rightarrow> bool" where
  "terminal_event st (RunCompleted r d) \<longleftrightarrow> st = Completed"
| "terminal_event st (RunCancelled r s) \<longleftrightarrow> st = Cancelled"
| "terminal_event st (RunFailed f s) \<longleftrightarrow> s = st \<and>
     (st = Failed \<and> \<not> is_limit_code (f_category f) \<or> st = LimitExceeded \<and> is_limit_code (f_category f))"
| "terminal_event st ev \<longleftrightarrow> False"

lemma emit_terminal_route:
  assumes "log_ok m ctx" and "is_terminal st" and "failure_ok st ctx"
  shows "\<exists>ev. route m (emit_terminal env st ctx) = route m ctx @ [ev] \<and> terminal_event st ev \<and>
    log_ok m (emit_terminal env st ctx)"
  using assms by (cases st) (auto simp: emit_terminal_def terminal_failure_def failure_ok_def)

lemma emit_terminal_frame [simp]:
  "counters (emit_terminal env st ctx) = counters ctx" "limits (emit_terminal env st ctx) = limits ctx"
  "catalog (emit_terminal env st ctx) = catalog ctx"
  by (simp_all add: emit_terminal_def split: option.splits)

lemma emit_terminal_failure:
  "failure_ok st ctx \<Longrightarrow> is_terminal st \<Longrightarrow> failure (emit_terminal env st ctx) = failure ctx"
  by (cases st) (auto simp: emit_terminal_def terminal_failure_def failure_ok_def)

lemma path_avoids_tools:
  "\<not> allows_tools p \<Longrightarrow> path p k s es t \<Longrightarrow> StateTransition a ToolCall r \<notin> set es"
  by (induction p k s es t rule: path.induct) auto

lemma edge_no_patch: "edge p s b \<Longrightarrow> \<not> allows_patch p \<Longrightarrow> b \<noteq> PatchProposal"
  by auto

lemma path_avoids_patches:
  "\<not> allows_patch p \<Longrightarrow> path p k s es t \<Longrightarrow> s \<noteq> PatchProposal \<Longrightarrow>
     StateTransition a PatchProposal r \<notin> set es \<and> StateTransition a Verification r \<notin> set es"
  by (induction p k s es t rule: path.induct) (auto dest: edge_no_patch)

subsection \<open>Properties of a run\<close>

lemma calm_fresh: "fresh_run 0 calm_ctx"
proof -
  have "route 0 calm_ctx = []"
    by (simp add: route_def run_log_def run_record_def record_of_def collected_def calm_ctx_def new_emitter_def)
  then show ?thesis using calm_log
    by (simp add: fresh_run_def clean_failure_def) (simp add: calm_ctx_def)
qed

lemma calm_budget: "step_budget (limits calm_ctx) < 10000"
  by (simp add: calm_ctx_def default_limits_def step_budget_def)

text \<open>
  Claim C2. Every run ends in a terminal state, and under limits whose step budget is below the
  loop's bound - the default limits are - the loop reaches it by itself: the safety net of
  \<open>runLoop\<close> is not used.
\<close>

theorem run_ends_before_safety_net:
  assumes "fresh_run m ctx" and "step_budget (limits ctx) < 10000"
  shows "is_terminal (fst (run_loop env ctx)) \<and>
    is_terminal (fst (loop_steps env max_loop_steps Planning
      (snd (transition env Intake (to_step Planning ''task validated'') ctx)))) \<and>
    step_budget default_limits < 10000"
proof -
  have "is_terminal (fst (loop_steps env max_loop_steps
      (fst (transition env Intake (to_step Planning ''task validated'') ctx))
      (snd (transition env Intake (to_step Planning ''task validated'') ctx))))"
    by (rule loop_steps_end [OF fresh_start [OF assms(1)] fresh_potential [OF assms]])
  then have "is_terminal (fst (loop_steps env max_loop_steps Planning
      (snd (transition env Intake (to_step Planning ''task validated'') ctx))))" by simp
  moreover have "is_terminal (fst (run_loop env ctx))" by (simp add: run_loop_def Let_def)
  ultimately show ?thesis by (simp add: default_limits_def step_budget_def)
qed

theorem run_ends_before_safety_net_witness:
  "is_terminal (fst (run_loop calm_env calm_ctx))"
  using run_ends_before_safety_net [OF calm_fresh calm_budget, of calm_env] by simp

text \<open>
  Claim C1. The transitions a run records follow the harness state machine from \<open>intake\<close> to the
  outcome, model calls start only in their state and with a conversation within the context budget,
  and exactly one terminal event, the one that belongs to the outcome, closes the record. The one
  exception is the safety net of \<open>runLoop\<close>: limits whose step budget reaches 10,000 may let the loop
  use up its steps, and then the path is followed by the net's move to \<open>failed\<close>, which the machine
  does not have from every state (\<open>loop_path\<close>). Below that budget there is no exception.
\<close>

theorem run_follows_the_machine:
  assumes "fresh_run m ctx" and "run_loop env ctx = (outcome, ctx')"
  shows "\<exists>es ev. route m ctx' = es @ [ev] \<and> loop_path (plan ctx) (limits ctx) es outcome \<and>
    (step_budget (limits ctx) < 10000 \<longrightarrow> path (plan ctx) (maxContextBytes (limits ctx)) Intake es outcome) \<and>
    is_terminal outcome \<and> terminal_event outcome ev"
proof -
  obtain ctx1 where run: "ctx' = emit_terminal env outcome ctx1" "is_terminal outcome"
    "log_ok m ctx1" "failure_ok outcome ctx1" "loop_path (plan ctx) (limits ctx) (route m ctx1) outcome"
    using run_loop_ends [OF assms(1), of env] assms(2) by (metis prod.inject)
  obtain ev where "route m ctx' = route m ctx1 @ [ev]" "terminal_event outcome ev"
    using emit_terminal_route [OF run(3, 2, 4), of env] run(1) by blast
  with run(2, 5) show ?thesis by (auto simp: loop_path_def)
qed

theorem run_follows_the_machine_witness:
  "\<exists>es ev. route 0 (snd (run_loop calm_env calm_ctx)) = es @ [ev] \<and>
    path (plan calm_ctx) 512000 Intake es (fst (run_loop calm_env calm_ctx))"
  using run_follows_the_machine [OF calm_fresh, of calm_env "fst (run_loop calm_env calm_ctx)"
      "snd (run_loop calm_env calm_ctx)"] calm_budget
  by (auto simp: calm_ctx_def default_limits_def)

text \<open>
  Claim C3. No run exceeds its limits on iterations, model calls and tool calls; its failed attempts
  stay below their limit until the attempt that ends the run; and when descriptors that verify keep
  their effects (\<open>verify_stable\<close>) it counts at most one command above the limit, the undeclared one
  that ends it.
\<close>

theorem run_stays_within_limits:
  assumes "fresh_run m ctx" and "run_loop env ctx = (outcome, ctx')"
  shows "iterations (counters ctx') \<le> max 0 (maxIterations (limits ctx)) \<and>
    modelCalls (counters ctx') \<le> max 0 (maxModelCalls (limits ctx)) \<and>
    toolCalls (counters ctx') \<le> max 0 (maxToolCalls (limits ctx)) \<and>
    failureAttempts (counters ctx') \<le> max 1 (maxFailureAttempts (limits ctx)) \<and>
    (verify_stable env \<longrightarrow>
      commandExecutions (counters ctx') \<le> max 0 (maxCommandExecutions (limits ctx)) + 1)"
proof -
  obtain ctx1 where run: "ctx' = emit_terminal env outcome ctx1" "counts_ok env 1 ctx1" "limits ctx1 = limits ctx"
    using run_loop_ends [OF assms(1), of env] assms(2) by (metis prod.inject)
  then show ?thesis by (auto simp: counts_ok_def tools_ok_def commands_bound_def)
qed

theorem run_stays_within_limits_witness:
  "modelCalls (counters (snd (run_loop calm_env calm_ctx))) \<le> 20"
  using run_stays_within_limits [OF calm_fresh, of calm_env "fst (run_loop calm_env calm_ctx)"
      "snd (run_loop calm_env calm_ctx)"]
  by (simp add: calm_ctx_def default_limits_def)

text \<open>
  A run that ends in \<open>limit-exceeded\<close> has recorded a limit as its failure, one that ends in
  \<open>failed\<close> has recorded a failure that is no limit: the record is never made up at the end, and a
  limit is never reported as an ordinary failure.
\<close>

theorem failure_record_matches_outcome:
  assumes "fresh_run m ctx" and "step_budget (limits ctx) < 10000"
    and "run_loop env ctx = (outcome, ctx')"
  shows "(outcome = LimitExceeded \<longrightarrow> (\<exists>f. failure ctx' = Some f \<and> is_limit_code (f_category f))) \<and>
    (outcome = Failed \<longrightarrow> (\<exists>f. failure ctx' = Some f \<and> \<not> is_limit_code (f_category f))) \<and>
    (outcome \<in> {Completed, Cancelled} \<longrightarrow>
      (\<forall>f. failure ctx' = Some f \<longrightarrow> f_category f = LimitWallTime))"
proof -
  obtain ctx1 where run: "ctx' = emit_terminal env outcome ctx1" "is_terminal outcome"
    "loop_inv m env ctx (outcome, ctx1)"
    using run_loop_inv [OF assms(1, 2), of env] assms(3) by (metis prod.inject)
  then have ok: "failure_ok outcome ctx1" by (simp add: loop_inv_def)
  have "failure ctx' = failure ctx1" unfolding run(1) by (rule emit_terminal_failure [OF ok run(2)])
  with ok show ?thesis by (auto simp: failure_ok_def clean_failure_def)
qed

definition spent_ctx :: run_ctx where
  "spent_ctx = calm_ctx\<lparr> limits := default_limits\<lparr> maxModelCalls := 0 \<rparr> \<rparr>"

lemma spent_fresh: "fresh_run 0 spent_ctx"
  using calm_fresh by (simp add: fresh_run_def spent_ctx_def log_ok_def route_def run_log_def clean_failure_def)

lemma spent_budget: "step_budget (limits spent_ctx) < 10000"
  by (simp add: spent_ctx_def default_limits_def step_budget_def)

theorem failure_record_matches_outcome_witness:
  "fst (run_loop calm_env spent_ctx) = LimitExceeded \<and>
   (\<exists>f. failure (snd (run_loop calm_env spent_ctx)) = Some f \<and> is_limit_code (f_category f))"
proof -
  have "fst (run_loop calm_env spent_ctx) = LimitExceeded" by code_simp
  then show ?thesis
    using failure_record_matches_outcome [OF spent_fresh spent_budget prod.collapse [symmetric], of calm_env]
    by simp
qed

text \<open>
  Claim C22. A run of a read-only task never enters the tool-call, patch-proposal or verification
  state, whatever the model answers and whatever its limits.
\<close>

theorem read_only_run_stays_read_only:
  assumes "fresh_run m ctx" and "\<not> allows_tools (plan ctx)" and "\<not> allows_patch (plan ctx)"
    and "StateTransition a b r \<in> set (route m (snd (run_loop env ctx)))"
  shows "b \<notin> {ToolCall, PatchProposal, Verification}"
proof -
  obtain st ctx1 where run: "run_loop env ctx = (st, emit_terminal env st ctx1)" "is_terminal st"
    "log_ok m ctx1" "failure_ok st ctx1" "loop_path (plan ctx) (limits ctx) (route m ctx1) st"
    using run_loop_ends [OF assms(1), of env] by metis
  then obtain ev where ev: "route m (snd (run_loop env ctx)) = route m ctx1 @ [ev]" "terminal_event st ev"
    using emit_terminal_route [OF run(3, 2, 4), of env] by auto
  then have mem: "StateTransition a b r \<in> set (route m ctx1)" using assms(4) by (cases st; cases ev) auto
  have "StateTransition a b r \<notin> set es" if "b \<in> {ToolCall, PatchProposal, Verification}"
    "path (plan ctx) (maxContextBytes (limits ctx)) Intake es t" for es t
    using that path_avoids_tools [OF assms(2)] path_avoids_patches [OF assms(3)] by blast
  with run(5) mem show ?thesis by (auto simp: loop_path_def safety_move_def)
qed

text \<open>A run cancelled before its loop starts.\<close>

lemma aborted_run:
  assumes "aborted ctx" and "log_ok m ctx"
  shows "fst (run_loop env ctx) = Cancelled \<and>
    route m (snd (run_loop env ctx)) = route m ctx @
      [StateTransition Intake Planning ''task validated'',
       StateTransition Planning Cancelled ''abort detected at top of loop'',
       RunCancelled (cancel_reason ctx) Planning]"
proof -
  let ?s = "transition env Intake (to_step Planning ''task validated'') ctx"
  have stay: "loop_steps env n Cancelled c = (Cancelled, c)" for n c by (cases n) simp_all
  have "0 < max_loop_steps" by (simp add: max_loop_steps_def)
  then obtain n where n: "max_loop_steps = Suc n" by (cases max_loop_steps) simp_all
  have "loop_steps env max_loop_steps (fst ?s) (snd ?s) =
      transition env Planning (to_step Cancelled ''abort detected at top of loop'') (snd ?s)"
    unfolding n using assms(1) by (simp add: loop_step_def transition_def Let_def stay)
  with assms show ?thesis
    by (simp add: run_loop_def transition_def emit_terminal_def Let_def)
qed

text \<open>A model that asks for a tool, which the plan of a verify task does not allow.\<close>

definition asking_env :: harness_env where
  "asking_env = calm_env\<lparr> model_port := (\<lambda>n q. Inr (ok_response\<lparr> r_finish := ToolCalls, r_tool_calls := [provider_call] \<rparr>)) \<rparr>"

lemma asking_run:
  "StateTransition ModelCall Failed ''tool_calls finishReason forbidden for this task type'' \<in> set (route 0 (snd (run_loop asking_env calm_ctx)))"
  by code_simp

theorem read_only_run_stays_read_only_witness:
  "(\<lambda>(a, b). b) ` {(a, b). \<exists>r. StateTransition a b r \<in> set (route 0 (snd (run_loop asking_env calm_ctx)))} \<inter>
     {ToolCall, PatchProposal, Verification} = {} \<and>
   StateTransition ModelCall Failed ''tool_calls finishReason forbidden for this task type'' \<in> set (route 0 (snd (run_loop asking_env calm_ctx)))"
proof -
  have "\<not> allows_tools (plan calm_ctx)" "\<not> allows_patch (plan calm_ctx)"
    by (simp_all add: calm_ctx_def plan_defs)
  from read_only_run_stays_read_only [OF calm_fresh this, of _ _ _ asking_env] asking_run show ?thesis by auto
qed

text \<open>
  A cancellation issued before the loop starts is honoured before any work: the run ends in
  \<open>cancelled\<close> from \<open>planning\<close>, no model call is recorded, and its terminal event carries the reason.
\<close>

theorem early_cancellation_does_no_work:
  assumes "log_ok m ctx" and "route m ctx = []"
  shows "fst (run_loop env (cancel_run reason ctx)) = Cancelled \<and>
    route m (snd (run_loop env (cancel_run reason ctx))) =
      [StateTransition Intake Planning ''task validated'',
       StateTransition Planning Cancelled ''abort detected at top of loop'',
       RunCancelled reason Planning]"
proof -
  have "log_ok m (cancel_run reason ctx)" "route m (cancel_run reason ctx) = []"
    using assms by (simp_all add: cancel_run_def log_ok_def route_def run_log_def)
  with aborted_run [of "cancel_run reason ctx" m env] show ?thesis
    by (simp add: cancel_run_def)
qed

theorem early_cancellation_does_no_work_witness:
  "fst (run_loop calm_env (cancel_run (Some ''stop'') calm_ctx)) = Cancelled"
  using early_cancellation_does_no_work [OF calm_log, of calm_env "Some ''stop''"] calm_fresh
  by (simp add: fresh_run_def)

end
