(* ===== verification/Harness_Session.thy ===== *)
theory Harness_Session
  imports Harness_Loop
begin

text \<open>
  Sessions (\<open>packages/keiko-harness/src/session.ts\<close>): the run's context, the events around the loop,
  and the result. The id source and the fingerprinter are parameters. The run's memory sink is the
  sink object 0; the sink handed in is another object.
\<close>

subsection \<open>Configuration\<close>

record partial_limits =
  pl_iterations :: "int option"
  pl_model_calls :: "int option"
  pl_tool_calls :: "int option"
  pl_commands :: "int option"
  pl_context_bytes :: "int option"
  pl_patch_bytes :: "int option"
  pl_wall_time :: "int option"
  pl_failures :: "int option"

record agent_config =
  cf_model :: string
  cf_limits :: "partial_limits option"
  cf_dry_run :: "bool option"

definition or_default :: "int option \<Rightarrow> int \<Rightarrow> int" where
  "or_default x d = (case x of None \<Rightarrow> d | Some n \<Rightarrow> n)"

definition resolve_limits :: "agent_config \<Rightarrow> harness_limits" where
  "resolve_limits cfg = (case cf_limits cfg of
     None \<Rightarrow> default_limits
   | Some l \<Rightarrow> \<lparr>
       maxIterations = or_default (pl_iterations l) (maxIterations default_limits),
       maxModelCalls = or_default (pl_model_calls l) (maxModelCalls default_limits),
       maxToolCalls = or_default (pl_tool_calls l) (maxToolCalls default_limits),
       maxCommandExecutions = or_default (pl_commands l) (maxCommandExecutions default_limits),
       maxContextBytes = or_default (pl_context_bytes l) (maxContextBytes default_limits),
       maxPatchBytes = or_default (pl_patch_bytes l) (maxPatchBytes default_limits),
       maxWallTimeMs = or_default (pl_wall_time l) (maxWallTimeMs default_limits),
       maxFailureAttempts = or_default (pl_failures l) (maxFailureAttempts default_limits) \<rparr>)"

definition resolve_dry_run :: "agent_config \<Rightarrow> bool" where
  "resolve_dry_run cfg = (case cf_dry_run cfg of None \<Rightarrow> True | Some b \<Rightarrow> b)"

subsection \<open>The context of a run\<close>

definition build_context ::
  "'a harness_env_scheme \<Rightarrow> task_input \<Rightarrow> agent_config \<Rightarrow> sink \<Rightarrow> bool \<Rightarrow> string \<Rightarrow> string \<Rightarrow> run_ctx" where
  "build_context env task cfg out_sink has_catalog run_id fp =
     (let ctx = \<lparr> reasoning_scope = ''harness:'' @ run_id, model_id = cf_model cfg,
            task_type = task_type_of task, plan = resolve_task_plan task, limits = resolve_limits cfg,
            started_at = clock_at env 0, counters = new_counters,
            emitter = new_emitter [MemorySink 0, out_sink] run_id fp 1, catalog = None, aborted = False,
            shaped_observations = [], compacted_messages = [],
            messages = plan_messages (resolve_task_plan task), last_response = None, patch_diff = None,
            report = None, failure = None, cancel_reason = None, cancelled_at = None, awaits = 0 \<rparr>
      in if \<not> resolve_dry_run cfg \<and> has_catalog then bind_harness_catalog env run_id ctx else ctx)"

subsection \<open>Result\<close>

record run_result =
  rr_run_id :: string
  rr_fingerprint :: string
  rr_outcome :: harness_state
  rr_task_type :: task_type
  rr_report :: "string option"
  rr_patch_diff :: "string option"
  rr_failure :: "harness_failure option"
  rr_started_at :: int
  rr_finished_at :: int
  rr_events :: "harness_event list"

definition build_result ::
  "'a emitter_env_scheme \<Rightarrow> run_ctx \<Rightarrow> harness_state \<Rightarrow> string \<Rightarrow> string \<Rightarrow> run_result" where
  "build_result env ctx outcome run_id fp = \<lparr>
     rr_run_id = run_id, rr_fingerprint = fp, rr_outcome = outcome, rr_task_type = task_type ctx,
     rr_report = report ctx, rr_patch_diff = patch_diff ctx,
     rr_failure = terminal_failure (failure ctx) outcome,
     rr_started_at = started_at ctx, rr_finished_at = ctx_now env ctx,
     rr_events = collected (MemorySink 0) (emitter ctx) \<rparr>"

text \<open>
  \<open>createSession\<close> and what its promise resolves to: \<open>run:started\<close> is emitted synchronously, the loop
  starts a microtask later, and until the run is marked as settled the deadline or a cancellation may
  still write to the context of the finished run.
\<close>

definition start_session ::
  "'a harness_env_scheme \<Rightarrow> task_input \<Rightarrow> agent_config \<Rightarrow> sink \<Rightarrow> bool \<Rightarrow> string \<Rightarrow> string \<Rightarrow> run_ctx" where
  "start_session env task cfg out_sink has_catalog run_id fp =
     (let ctx = build_context env task cfg out_sink has_catalog run_id fp
      in ctx_emit env (RunStarted (task_type_of task) (cf_model cfg) (resolve_limits cfg)) ctx)"

definition session_loop ::
  "'a harness_env_scheme \<Rightarrow> task_input \<Rightarrow> agent_config \<Rightarrow> sink \<Rightarrow> bool \<Rightarrow> string \<Rightarrow> string
     \<Rightarrow> harness_state \<times> run_ctx" where
  "session_loop env task cfg out_sink has_catalog run_id fp =
     run_loop env (await_point env (start_session env task cfg out_sink has_catalog run_id fp))"

definition run_session ::
  "'a harness_env_scheme \<Rightarrow> task_input \<Rightarrow> agent_config \<Rightarrow> sink \<Rightarrow> bool \<Rightarrow> string \<Rightarrow> string \<Rightarrow> run_result" where
  "run_session env task cfg out_sink has_catalog run_id fp =
     (let r = session_loop env task cfg out_sink has_catalog run_id fp
      in build_result env (await_point env (snd r)) (fst r) run_id fp)"

subsection \<open>A session's run is fresh\<close>

lemma build_context_facts:
  assumes "sink_id out_sink \<noteq> 0"
  shows "log_ok 0 (build_context env task cfg out_sink c r f)"
    and "run_log 0 (build_context env task cfg out_sink c r f) = []"
    and "counters (build_context env task cfg out_sink c r f) = new_counters"
    and "clean_failure (build_context env task cfg out_sink c r f)"
    and "catalog (build_context env task cfg out_sink c r f) = Some rt \<Longrightarrow> bg_charges (ct_budget rt) = []"
    and "limits (build_context env task cfg out_sink c r f) = resolve_limits cfg"
    and "plan (build_context env task cfg out_sink c r f) = resolve_task_plan task"
proof -
  have mem: "memory_ok 0 (new_emitter [MemorySink 0, out_sink] r f 1)"
    using assms by (intro memory_ok_new) simp_all
  have empty: "run_record 0 (new_emitter [MemorySink 0, out_sink] r f n) = []" for n
    by (simp add: run_record_def record_of_def)
  have bind: "emitter (bind_harness_catalog env r ctx) = emitter ctx \<or>
      emitter (bind_harness_catalog env r ctx) = (emitter ctx)\<lparr> em_clock_reads := em_clock_reads (emitter ctx) + 1 \<rparr>"
    "failure (bind_harness_catalog env r ctx) = failure ctx" "plan (bind_harness_catalog env r ctx) = plan ctx"
    "counters (bind_harness_catalog env r ctx) = counters ctx" "limits (bind_harness_catalog env r ctx) = limits ctx"
    "catalog (bind_harness_catalog env r ctx) = Some rt \<Longrightarrow> bg_charges (ct_budget rt) = []" for ctx rt
    by (auto simp: bind_harness_catalog_def new_budget_def clock_live_def ctx_tick_def Let_def)
  note b = bind(1) [of "\<lparr> reasoning_scope = ''harness:'' @ r, model_id = cf_model cfg,
            task_type = task_type_of task, plan = resolve_task_plan task, limits = resolve_limits cfg,
            started_at = clock_at env 0, counters = new_counters,
            emitter = new_emitter [MemorySink 0, out_sink] r f 1, catalog = None, aborted = False,
            shaped_observations = [], compacted_messages = [],
            messages = plan_messages (resolve_task_plan task), last_response = None, patch_diff = None,
            report = None, failure = None, cancel_reason = None, cancelled_at = None, awaits = 0 \<rparr>"]
  show "log_ok 0 (build_context env task cfg out_sink c r f)"
    "run_log 0 (build_context env task cfg out_sink c r f) = []"
    using b mem empty by (auto simp: build_context_def log_ok_def run_log_def Let_def)
  show "counters (build_context env task cfg out_sink c r f) = new_counters"
    "clean_failure (build_context env task cfg out_sink c r f)"
    "limits (build_context env task cfg out_sink c r f) = resolve_limits cfg"
    "plan (build_context env task cfg out_sink c r f) = resolve_task_plan task"
    by (simp_all add: build_context_def clean_failure_def bind Let_def)
  show "catalog (build_context env task cfg out_sink c r f) = Some rt \<Longrightarrow> bg_charges (ct_budget rt) = []"
    by (auto simp: build_context_def Let_def dest: bind(6) split: if_splits)
qed

lemma start_session_facts:
  assumes "sink_id out_sink \<noteq> 0"
  shows "fresh_run 0 (await_point env (start_session env task cfg out_sink c r f))"
    and "limits (await_point env (start_session env task cfg out_sink c r f)) = resolve_limits cfg"
    and "plan (await_point env (start_session env task cfg out_sink c r f)) = resolve_task_plan task"
    and "run_log 0 (await_point env (start_session env task cfg out_sink c r f)) =
      [RunStarted (task_type_of task) (cf_model cfg) (resolve_limits cfg)]"
  using build_context_facts [OF assms, of env task cfg c r f]
  by (simp_all add: start_session_def fresh_run_def route_def clean_failure_await Let_def)

subsection \<open>Runs without a catalog\<close>

text \<open>Without a catalog no tool runs: the counts of tools and commands stay what they are.\<close>

definition no_tools :: "run_ctx \<Rightarrow> bool" where
  "no_tools ctx \<longleftrightarrow> catalog ctx = None \<and> toolCalls (counters ctx) = 0 \<and> commandExecutions (counters ctx) = 0"

lemma no_tools_cong:
  "counters b = counters a \<Longrightarrow> catalog b = catalog a \<Longrightarrow> no_tools b = no_tools a"
  by (simp add: no_tools_def)

lemma no_tools_one_tool: "no_tools ctx \<Longrightarrow> no_tools (snd (run_one_tool env c ctx)) \<and> (\<exists>s. fst (run_one_tool env c ctx) = Inl s)"
  by (simp add: run_one_tool_def execute_catalog_call_def no_tools_def Let_def)

lemma no_tools_tool_call: "no_tools ctx \<Longrightarrow> no_tools (snd (handle_tool_call env ctx))"
proof -
  have "no_tools (snd (tool_loop env cs rs ctx))" if none: "no_tools ctx" for cs rs
  proof (cases cs)
    case Nil
    with none show ?thesis by (simp add: no_tools_def)
  next
    case (Cons c cs')
    obtain step where "fst (run_one_tool env c ctx) = Inl step" using no_tools_one_tool [OF none] by blast
    with no_tools_one_tool [OF none, of env c] none Cons show ?thesis
      by (simp add: Let_def no_tools_def)
  qed
  then show "no_tools ctx \<Longrightarrow> ?thesis" by (simp add: handle_tool_call_def)
qed

lemma no_tools_handler: "active st \<Longrightarrow> no_tools ctx \<Longrightarrow> no_tools (snd (handler env st ctx))"
proof -
  assume act: "active st" and none: "no_tools ctx"
  have cat: "catalog (snd (handler env st ctx)) = None"
    using loop_frame_handler [OF act, of 0 env ctx] none
    by (simp add: loop_frame_def no_tools_def entry_run_def count_iteration_def)
  have "toolCalls (counters (snd (handle_model_call env ctx))) = toolCalls (counters ctx) \<and>
    commandExecutions (counters (snd (handle_model_call env ctx))) = commandExecutions (counters ctx)"
    by (simp add: handle_model_call_def Let_def split: sum.splits)
  then show ?thesis
    using active_cases [OF act] none cat no_tools_tool_call [OF none, of env]
    by (auto simp: no_tools_def handler_def handle_planning_def handle_context_selection_def
        handle_patch_proposal_def handle_verification_def handle_reporting_def count_failure_def
        count_iteration_def Let_def)
qed

lemma no_tools_loop_step: "active st \<Longrightarrow> no_tools ctx \<Longrightarrow> no_tools (snd (loop_step env st ctx))"
proof -
  assume act: "active st" and none: "no_tools ctx"
  have g: "no_tools (snd (guard env st ctx))"
    using guard_frame_guard [of 0 ctx env st] none by (simp add: guard_frame_def no_tools_def)
  have h: "no_tools (snd (dispatch env st (snd (guard env st ctx))))"
    using no_tools_handler [OF act g, of env] by (simp add: dispatch_def Let_def no_tools_def)
  have "no_tools (snd (transition env s step x)) = no_tools x" for s step x
    by (rule no_tools_cong) (simp_all add: transition_def)
  moreover have "no_tools (snd (check_wall_time_post_dispatch env d x)) = no_tools x" for d x
    by (rule no_tools_cong) (simp_all add: check_wall_time_post_dispatch_def)
  ultimately show ?thesis using g h none by (simp add: loop_step_def Let_def split: option.splits)
qed

lemma no_tools_loop: "st \<noteq> Intake \<Longrightarrow> loop_inv m env c0 (st, ctx) \<Longrightarrow> no_tools ctx \<Longrightarrow>
    no_tools (snd (loop_steps env n st ctx))"
proof (induction n arbitrary: st ctx)
  case (Suc n)
  show ?case
  proof (cases "is_terminal st")
    case False
    then have act: "active st" using Suc.prems by (simp add: active_def)
    have inv: "loop_inv m env c0 (loop_step env st ctx)" by (rule loop_step_inv [OF Suc.prems(2) act])
    then have "fst (loop_step env st ctx) \<noteq> Intake" by (simp add: loop_inv_def)
    from Suc.IH [OF this] inv no_tools_loop_step [OF act Suc.prems(3), of env] False show ?thesis
      by (simp add: Let_def)
  qed (use Suc.prems in simp)
qed simp

lemma no_tools_run:
  assumes "fresh_run m ctx" and "no_tools ctx"
  shows "no_tools (snd (run_loop env ctx))"
proof -
  let ?s = "transition env Intake (to_step Planning ''task validated'') ctx"
  have tr: "no_tools (snd (transition env s step x)) = no_tools x" for s step x
    by (rule no_tools_cong) (simp_all add: transition_def)
  have fin: "no_tools (emit_terminal env st x) = no_tools x" for st x
    by (rule no_tools_cong) simp_all
  have "no_tools (set_failure c t x) = no_tools x" for c t x by (rule no_tools_cong) simp_all
  moreover have inv: "loop_inv m env ctx (fst ?s, snd ?s)"
    using fresh_start [OF assms(1), of env] by (simp only: prod.collapse)
  have "no_tools (snd (loop_steps env max_loop_steps (fst ?s) (snd ?s)))"
    by (rule no_tools_loop [OF _ inv]) (simp_all add: tr assms(2))
  ultimately show ?thesis by (simp add: run_loop_def Let_def fin tr)
qed

subsection \<open>Properties of a session\<close>

lemma route_record: "route m ctx = filter is_route (map ev_body (collected (MemorySink m) (emitter ctx)))"
proof -
  have "(\<lambda>b. \<not> is_notice b \<and> is_route b) = is_route"
    by (auto simp: fun_eq_iff dest: is_route_flow is_notice_not_flow)
  then show ?thesis by (simp add: route_def run_log_def run_record_def record_of_def)
qed

text \<open>
  Claim C4. For limits whose step budget is below the loop's bound, as the default limits are, the
  result of a session agrees with the events it carries: they follow the harness state machine from
  \<open>intake\<close> to the outcome and end with the terminal event of that outcome; a failure is
  reported exactly for the failure outcomes and is the one of that event, even when the deadline or
  a cancellation writes to the run after it has finished.
\<close>

theorem session_result_agrees_with_events:
  assumes "sink_id out_sink \<noteq> 0" and "step_budget (resolve_limits cfg) < 10000"
    and "res = run_session env task cfg out_sink has_catalog run_id fp"
  shows "\<exists>es ev. filter is_route (map ev_body (rr_events res)) = es @ [ev] \<and>
    path (resolve_task_plan task) (maxContextBytes (resolve_limits cfg)) Intake es (rr_outcome res) \<and>
    terminal_event (rr_outcome res) ev \<and>
    (rr_failure res \<noteq> None \<longleftrightarrow> rr_outcome res \<in> {Failed, LimitExceeded}) \<and>
    (\<forall>f. rr_failure res = Some f \<longrightarrow> ev = RunFailed f (rr_outcome res))"
proof -
  note start = start_session_facts [OF assms(1), of env task cfg has_catalog run_id fp]
  let ?ctx = "await_point env (start_session env task cfg out_sink has_catalog run_id fp)"
  obtain st ctx1 where run: "run_loop env ?ctx = (st, emit_terminal env st ctx1)" "is_terminal st"
    and inv: "loop_inv 0 env ?ctx (st, ctx1)"
    using run_loop_inv [OF start(1), of env] assms(2) start(2) by metis
  let ?fin = "await_point env (emit_terminal env st ctx1)"
  have res: "res = build_result env ?fin st run_id fp"
    using assms(3) run(1) by (simp add: run_session_def session_loop_def)
  have ok: "failure_ok st ctx1" "log_ok 0 ctx1" using inv by (simp_all add: loop_inv_def)
  obtain ev where ev: "route 0 (emit_terminal env st ctx1) = route 0 ctx1 @ [ev]" "terminal_event st ev"
    using emit_terminal_route [OF ok(2) run(2) ok(1), of env] by blast
  have events: "filter is_route (map ev_body (rr_events res)) = route 0 ctx1 @ [ev]"
    using ev(1) by (simp add: res build_result_def route_record)
  have path: "path (resolve_task_plan task) (maxContextBytes (resolve_limits cfg)) Intake (route 0 ctx1) st"
    using inv start by (simp add: loop_inv_def)
  have fail: "f = g \<and> ev = RunFailed f st"
    if f: "rr_failure res = Some f" and g: "failure ctx1 = Some g" and st: "st \<in> {Failed, LimitExceeded}" for f g
  proof -
    have e: "emit_terminal env st ctx1 = ctx_emit env (RunFailed g st) (ctx1\<lparr> failure := Some g \<rparr>)"
      using g st by (auto simp: emit_terminal_def terminal_failure_def)
    then have "failure ?fin = Some g" by (intro async_keeps_failure) simp
    with f st have "f = g" by (auto simp: res build_result_def terminal_failure_def)
    moreover have "route 0 (emit_terminal env st ctx1) = route 0 ctx1 @ [RunFailed g st]"
      unfolding e using ok(2) by simp
    ultimately show ?thesis using ev(1) by simp
  qed
  have some: "st \<in> {Failed, LimitExceeded} \<Longrightarrow> \<exists>g. failure ctx1 = Some g" using ok(1) by (auto simp: failure_ok_def)
  have outcome: "rr_outcome res = st" by (simp add: res build_result_def)
  have present: "rr_failure res \<noteq> None \<longleftrightarrow> st \<in> {Failed, LimitExceeded}"
    by (auto simp: res build_result_def terminal_failure_def)
  show ?thesis
    unfolding outcome using events path ev(2) present fail some
    by (intro exI [of _ "route 0 ctx1"] exI [of _ ev]) blast
qed

definition verify_task :: task_input where
  "verify_task = TaskVerify \<lparr> vf_root = ''/w'', vf_targets = None \<rparr>"

definition plain_config :: agent_config where
  "plain_config = \<lparr> cf_model = ''m'', cf_limits = None, cf_dry_run = None \<rparr>"

lemma plain_limits: "resolve_limits plain_config = default_limits"
  by (simp add: resolve_limits_def plain_config_def)

lemma default_budget: "step_budget default_limits < 10000"
  by (simp add: step_budget_def default_limits_def)

theorem session_result_agrees_with_events_witness:
  "\<exists>es ev. filter is_route (map ev_body (rr_events
      (run_session calm_env verify_task plain_config (ExternalSink 1 False) False ''r'' ''f''))) = es @ [ev]"
  using session_result_agrees_with_events [of "ExternalSink 1 False" plain_config _ calm_env verify_task
      False "''r''" "''f''"] default_budget
  by (auto simp: plain_limits)

text \<open>
  A session is dry by default, and a dry session - or one without a catalog - executes no
  tool and no command, whatever the model asks for.
\<close>

theorem dry_session_runs_no_tools:
  assumes "sink_id out_sink \<noteq> 0" and "resolve_dry_run cfg \<or> \<not> has_catalog"
  shows "let ctx = snd (session_loop env task cfg out_sink has_catalog run_id fp) in
    toolCalls (counters ctx) = 0 \<and> commandExecutions (counters ctx) = 0 \<and>
    (cf_dry_run cfg = None \<longrightarrow> resolve_dry_run cfg)"
proof -
  note start = start_session_facts [OF assms(1), of env task cfg has_catalog run_id fp]
  let ?ctx = "await_point env (start_session env task cfg out_sink has_catalog run_id fp)"
  have "no_tools ?ctx"
    using assms(2) by (auto simp: no_tools_def start_session_def build_context_def new_counters_def Let_def)
  from no_tools_run [OF start(1) this, of env] show ?thesis
    by (simp add: no_tools_def session_loop_def resolve_dry_run_def Let_def)
qed

theorem dry_session_runs_no_tools_witness:
  "toolCalls (counters (snd (session_loop calm_env verify_task plain_config (ExternalSink 1 False) True ''r'' ''f''))) = 0"
  using dry_session_runs_no_tools [of "ExternalSink 1 False" plain_config True calm_env verify_task "''r''" "''f''"]
  by (simp add: resolve_dry_run_def plain_config_def Let_def)

end
