(* ===== verification/Json_Text.thy ===== *)
theory Json_Text
  imports Complex_Main Prelude
begin

text \<open>
  \<open>JSON.parse\<close> over UTF-8 bytes, giving JSON values whose numbers are the exact value of their
  literal, and the printing of numbers. The code rounds a literal to a double; the two agree for
  integers below 2^53 and for the decimals doubles are printed as. A \<open>SyntaxError\<close> is \<open>None\<close>.
  Recursion is on fuel; twice the length of the text is enough, since each value or member consumes a
  character. What was printed is parsed back, for every decimal.
\<close>

type_synonym jvalue = "rat json"

subsection \<open>Numbers\<close>

definition is_json_ws :: "char \<Rightarrow> bool" where
  "is_json_ws c \<longleftrightarrow> c = CHR 0x20 \<or> c = CHR 0x09 \<or> c = CHR 0x0A \<or> c = CHR 0x0D"

definition skip_ws :: "string \<Rightarrow> string" where
  "skip_ws s = dropWhile is_json_ws s"

definition digits_of :: "string \<Rightarrow> string" where
  "digits_of s = takeWhile is_digit s"

definition after_digits :: "string \<Rightarrow> string" where
  "after_digits s = dropWhile is_digit s"

definition starts_char :: "char \<Rightarrow> string \<Rightarrow> bool" where
  "starts_char c s \<longleftrightarrow> s \<noteq> [] \<and> hd s = c"

definition parse_fraction :: "string \<Rightarrow> (rat \<times> string) option" where
  "parse_fraction s =
     (if \<not> starts_char (CHR ''.'') s then Some (0, s)
      else let fs = digits_of (tl s) in
        if fs = [] then None
        else Some (of_nat (digits_value fs) / 10 ^ length fs, after_digits (tl s)))"

definition parse_exponent :: "string \<Rightarrow> (rat \<times> string) option" where
  "parse_exponent s =
     (if \<not> starts_char (CHR ''e'') s \<and> \<not> starts_char (CHR ''E'') s then Some (1, s)
      else
        let r = tl s;
            negative = starts_char (CHR ''-'') r;
            r1 = (if negative \<or> starts_char (CHR ''+'') r then tl r else r);
            es = digits_of r1
        in if es = [] then None
           else Some (if negative then 1 / 10 ^ digits_value es else 10 ^ digits_value es, after_digits r1))"

definition parse_number :: "string \<Rightarrow> (rat \<times> string) option" where
  "parse_number s =
     (let negative = starts_char (CHR ''-'') s;
          s1 = (if negative then tl s else s);
          ds = digits_of s1
      in if ds = [] \<or> (1 < length ds \<and> hd ds = CHR ''0'') then None
         else (case parse_fraction (after_digits s1) of None \<Rightarrow> None | Some (f, s2) \<Rightarrow>
           (case parse_exponent s2 of None \<Rightarrow> None | Some (e, s3) \<Rightarrow>
             Some ((if negative then - 1 else 1) * (of_nat (digits_value ds) + f) * e, s3))))"

text \<open>
  \<open>Number::toString\<close>. A number is the shortest decimal its double is written with: its digits \<open>ds\<close>, first
  and last not zero, and the position \<open>n\<close> of the point counted from the first digit. Integers below
  10^21 and fractions from 10^(-6) on are printed plainly, the others with an exponent. 350 places are
  enough for every double.
\<close>

definition max_places :: nat where
  "max_places = 350"

fun places :: "nat \<Rightarrow> rat \<Rightarrow> nat" where
  "places 0 r = 0"
| "places (Suc m) r = (if of_int \<lfloor>r\<rfloor> = r then 0 else Suc (places m (r * 10)))"

definition strip_zeros :: "string \<Rightarrow> string" where
  "strip_zeros ds = rev (dropWhile (\<lambda>c. c = CHR ''0'') (rev ds))"

definition point_layout :: "string \<Rightarrow> int \<Rightarrow> string" where
  "point_layout ds n =
     (let k = int (length ds) in
      if k \<le> n \<and> n \<le> 21 then ds @ replicate (nat (n - k)) (CHR ''0'')
      else if 0 < n \<and> n \<le> 21 then take (nat n) ds @ ''.'' @ drop (nat n) ds
      else if - 6 < n \<and> n \<le> 0 then ''0.'' @ replicate (nat (- n)) (CHR ''0'') @ ds
      else take 1 ds @ (if k = 1 then [] else ''.'' @ drop 1 ds) @ ''e'' @
        (if n - 1 < 0 then ''-'' else ''+'') @ int_text \<bar>n - 1\<bar>)"

definition unsigned_text :: "rat \<Rightarrow> string" where
  "unsigned_text x =
     (let e = places max_places x;
          ds = nat_digits (nat \<lfloor>x * 10 ^ e\<rfloor>)
      in point_layout (strip_zeros ds) (int (length ds) - int e))"

definition number_text :: "rat \<Rightarrow> string" where
  "number_text r = (if r = 0 then ''0'' else (if r < 0 then ''-'' else []) @ unsigned_text \<bar>r\<bar>)"

fun json_text :: "jvalue \<Rightarrow> jtext" where
  "json_text JNull = JNull"
| "json_text (JBool b) = JBool b"
| "json_text (JNum r) = JNum (number_text r)"
| "json_text (JStr s) = JStr s"
| "json_text (JArr xs) = JArr (map json_text xs)"
| "json_text (JObj kvs) = JObj (map (\<lambda>kv. (fst kv, json_text (snd kv))) kvs)"

definition stringify_value :: "jvalue \<Rightarrow> string" where
  "stringify_value v = stringify (json_text v)"

subsection \<open>Strings\<close>

definition hex_value :: "char \<Rightarrow> nat option" where
  "hex_value c = (let n = (of_char c :: nat) in
     if 48 \<le> n \<and> n \<le> 57 then Some (n - 48)
     else if 97 \<le> n \<and> n \<le> 102 then Some (n - 87)
     else if 65 \<le> n \<and> n \<le> 70 then Some (n - 55)
     else None)"

definition hex4 :: "string \<Rightarrow> nat option" where
  "hex4 s = (if length s < 4 then None
     else foldl (\<lambda>a c. case a of None \<Rightarrow> None | Some n \<Rightarrow> map_option (\<lambda>d. n * 16 + d) (hex_value c))
       (Some 0) (take 4 s))"

definition utf8_encode :: "nat \<Rightarrow> string" where
  "utf8_encode n =
     (if n < 0x80 then [char_of n]
      else if n < 0x800 then [char_of (0xC0 + n div 64), char_of (0x80 + n mod 64)]
      else if n < 0x10000 then
        [char_of (0xE0 + n div 4096), char_of (0x80 + n div 64 mod 64), char_of (0x80 + n mod 64)]
      else [char_of (0xF0 + n div 262144), char_of (0x80 + n div 4096 mod 64),
            char_of (0x80 + n div 64 mod 64), char_of (0x80 + n mod 64)])"

text \<open>The unit after \<open>\u\<close>, joined with a following low surrogate; how many characters it took.\<close>

definition unicode_escape :: "string \<Rightarrow> (string \<times> nat) option" where
  "unicode_escape s = (case hex4 s of None \<Rightarrow> None | Some hi \<Rightarrow>
     (if 0xD800 \<le> hi \<and> hi < 0xDC00 \<and> take 2 (drop 4 s) = [CHR 0x5C, CHR ''u''] then
        (case hex4 (drop 6 s) of
           Some lo \<Rightarrow>
             if 0xDC00 \<le> lo \<and> lo < 0xE000
             then Some (utf8_encode (0x10000 + (hi - 0xD800) * 1024 + (lo - 0xDC00)), 10)
             else Some (utf8_encode hi, 4)
         | None \<Rightarrow> None)
      else Some (utf8_encode hi, 4)))"

definition simple_escape :: "char \<Rightarrow> string option" where
  "simple_escape c =
     (if c = CHR 0x22 \<or> c = CHR 0x5C \<or> c = CHR ''/'' then Some [c]
      else if c = CHR ''b'' then Some [CHR 0x08]
      else if c = CHR ''f'' then Some [CHR 0x0C]
      else if c = CHR ''n'' then Some [CHR 0x0A]
      else if c = CHR ''r'' then Some [CHR 0x0D]
      else if c = CHR ''t'' then Some [CHR 0x09]
      else None)"

function parse_chars :: "string \<Rightarrow> (string \<times> string) option" where
  "parse_chars s =
     (if s = [] then None
      else if hd s = CHR 0x22 then Some ([], tl s)
      else if hd s = CHR 0x5C then
        (if tl s = [] then None
         else if hd (tl s) = CHR ''u'' then
           (case unicode_escape (drop 2 s) of None \<Rightarrow> None | Some (bs, n) \<Rightarrow>
             map_option (\<lambda>(t, r). (bs @ t, r)) (parse_chars (drop (2 + n) s)))
         else (case simple_escape (hd (tl s)) of None \<Rightarrow> None | Some bs \<Rightarrow>
             map_option (\<lambda>(t, r). (bs @ t, r)) (parse_chars (drop 2 s))))
      else if of_char (hd s) < (0x20 :: nat) then None
      else map_option (\<lambda>(t, r). (hd s # t, r)) (parse_chars (tl s)))"
  by pat_completeness auto
termination
  by (relation "measure length") (auto simp: neq_Nil_conv)

declare parse_chars.simps [simp del]

subsection \<open>Values\<close>

fun parse_value :: "nat \<Rightarrow> string \<Rightarrow> (jvalue \<times> string) option"
  and parse_elements :: "nat \<Rightarrow> jvalue list \<Rightarrow> string \<Rightarrow> (jvalue \<times> string) option"
  and parse_members :: "nat \<Rightarrow> jvalue obj \<Rightarrow> string \<Rightarrow> (jvalue \<times> string) option"
where
  "parse_value 0 s0 = None"
| "parse_value (Suc n) s0 =
     (let s = skip_ws s0 in
      if s = [] then None
      else if hd s = CHR 0x7B then
        (if starts_char (CHR 0x7D) (skip_ws (tl s)) then Some (JObj [], tl (skip_ws (tl s)))
         else parse_members n [] (tl s))
      else if hd s = CHR ''['' then
        (if starts_char (CHR '']'') (skip_ws (tl s)) then Some (JArr [], tl (skip_ws (tl s)))
         else parse_elements n [] (tl s))
      else if hd s = CHR 0x22 then map_option (\<lambda>(t, r). (JStr t, r)) (parse_chars (tl s))
      else if starts_with ''true'' s then Some (JBool True, drop 4 s)
      else if starts_with ''false'' s then Some (JBool False, drop 5 s)
      else if starts_with ''null'' s then Some (JNull, drop 4 s)
      else map_option (\<lambda>(x, r). (JNum x, r)) (parse_number s))"
| "parse_elements 0 acc s0 = None"
| "parse_elements (Suc n) acc s0 =
     (case parse_value n s0 of
        None \<Rightarrow> None
      | Some (v, r) \<Rightarrow>
          (let s = skip_ws r in
           if starts_char (CHR '','') s then parse_elements n (acc @ [v]) (tl s)
           else if starts_char (CHR '']'') s then Some (JArr (acc @ [v]), tl s)
           else None))"
| "parse_members 0 acc s0 = None"
| "parse_members (Suc n) acc s0 =
     (let s = skip_ws s0 in
      if \<not> starts_char (CHR 0x22) s then None
      else case parse_chars (tl s) of
        None \<Rightarrow> None
      | Some (k, r1) \<Rightarrow>
          if \<not> starts_char (CHR '':'') (skip_ws r1) then None
          else case parse_value n (tl (skip_ws r1)) of
            None \<Rightarrow> None
          | Some (v, r2) \<Rightarrow>
              (let t = skip_ws r2; acc' = obj_put k v acc in
               if starts_char (CHR '','') t then parse_members n acc' (tl t)
               else if starts_char (CHR 0x7D) t then Some (JObj acc', tl t)
               else None))"

definition json_parse :: "string \<Rightarrow> jvalue option" where
  "json_parse s = (case parse_value (2 * length s + 2) s of
     None \<Rightarrow> None
   | Some (v, r) \<Rightarrow> if skip_ws r = [] then Some v else None)"

subsection \<open>Parsing what was printed\<close>

lemma is_digit_ascii: "is_digit c \<longleftrightarrow> 48 \<le> (of_char c :: nat) \<and> (of_char c :: nat) \<le> 57"
  by (simp add: is_digit_def Let_def)

lemma is_digit_char_of [simp]: "(n :: nat) < 10 \<Longrightarrow> is_digit (char_of (48 + n))"
  by (simp add: is_digit_ascii)

lemma of_char_digit: "(n :: nat) < 10 \<Longrightarrow> (of_char (char_of (48 + n) :: char) :: nat) = 48 + n"
  by simp

lemma digits_value_snoc: "digits_value (s @ [c]) = digits_value s * 10 + (of_char c - 48)"
  by (simp add: digits_value_def)

lemma nat_digits_value: "digits_value (nat_digits n) = n \<and> list_all is_digit (nat_digits n) \<and>
    nat_digits n \<noteq> [] \<and> (10 \<le> n \<longrightarrow> hd (nat_digits n) \<noteq> CHR ''0'') \<and> (0 < n \<longrightarrow> hd (nat_digits n) \<noteq> CHR ''0'')
    \<and> (n < 10 \<longrightarrow> length (nat_digits n) = 1)"
proof (induction n rule: less_induct)
  case (less n)
  show ?case
  proof (cases "n < 10")
    case True
    have "char_of (48 + n) \<noteq> CHR ''0''" if "0 < n"
    proof
      assume "char_of (48 + n) = CHR ''0''"
      from arg_cong [OF this, of "of_char :: char \<Rightarrow> nat"] True that show False by simp
    qed
    with True show ?thesis
      by (simp add: nat_digits.simps [of n] digits_value_def)
  next
    case False
    with less.IH [of "n div 10"] show ?thesis
      by (simp add: nat_digits.simps [of n] digits_value_snoc)
  qed
qed


text \<open>The texts a number may be followed by.\<close>

definition number_end :: "string \<Rightarrow> bool" where
  "number_end r \<longleftrightarrow> (r = [] \<or> \<not> is_digit (hd r) \<and> hd r \<notin> {CHR ''.'', CHR ''e'', CHR ''E''})"

lemma number_end_stops:
  "number_end r \<Longrightarrow> parse_fraction r = Some (0, r)" "number_end r \<Longrightarrow> parse_exponent r = Some (1, r)"
  by (auto simp: number_end_def parse_fraction_def parse_exponent_def starts_char_def)

subsubsection \<open>Numbers\<close>

lemma nat_digits_length: "n < 10 ^ m \<Longrightarrow> 0 < m \<Longrightarrow> length (nat_digits n) \<le> m"
proof (induction m arbitrary: n)
  case (Suc m)
  show ?case
  proof (cases "n < 10")
    case False
    then have "0 < m" using Suc.prems by (cases m) auto
    moreover have "n div 10 < 10 ^ m" using Suc.prems by (simp add: less_mult_imp_div_less)
    ultimately show ?thesis using False Suc.IH by (simp add: nat_digits.simps [of n])
  qed (simp add: nat_digits.simps [of n])
qed simp

lemma digits_value_append: "digits_value (a @ b) = digits_value a * 10 ^ length b + digits_value b"
proof (induction b rule: rev_induct)
  case (snoc c b)
  have "digits_value (a @ b @ [c]) = digits_value (a @ b) * 10 + (of_char c - 48)"
    using digits_value_snoc [of "a @ b" c] by simp
  with snoc show ?case by (simp add: digits_value_snoc algebra_simps)
qed (simp add: digits_value_def)

lemma digits_value_zeros [simp]: "digits_value (replicate z (CHR ''0'')) = 0"
  by (induction z) (simp_all add: digits_value_def)

lemma zeros_digits [simp]: "list_all is_digit (replicate z (CHR ''0''))"
  by (simp add: list_all_iff is_digit_def)

lemma digits_stop:
  assumes "list_all is_digit ds" "t = [] \<or> \<not> is_digit (hd t)"
  shows "digits_of (ds @ t) = ds" "after_digits (ds @ t) = t"
proof -
  have "takeWhile is_digit t = []" "dropWhile is_digit t = t"
    using assms(2) by (cases t; simp)+
  with assms(1) show "digits_of (ds @ t) = ds" "after_digits (ds @ t) = t"
    by (simp_all add: digits_of_def after_digits_def list_all_iff takeWhile_append2 dropWhile_append2)
qed

lemma mark_no_digit [simp]: "\<not> is_digit (CHR ''.'')" "\<not> is_digit (CHR ''e'')" "\<not> is_digit (CHR ''-'')" "\<not> is_digit (CHR ''+'')"
  by (simp_all add: is_digit_def)

text \<open>A fraction part and an exponent part, each with its value.\<close>

definition fraction_part :: "string \<Rightarrow> rat \<Rightarrow> bool" where
  "fraction_part f v \<longleftrightarrow> (f = [] \<and> v = 0) \<or>
     (\<exists>fs. f = CHR ''.'' # fs \<and> fs \<noteq> [] \<and> list_all is_digit fs \<and> v = of_nat (digits_value fs) / 10 ^ length fs)"

definition exponent_part :: "string \<Rightarrow> rat \<Rightarrow> bool" where
  "exponent_part x v \<longleftrightarrow> (x = [] \<and> v = 1) \<or>
     (\<exists>sg es. x = CHR ''e'' # sg # es \<and> es \<noteq> [] \<and> list_all is_digit es \<and>
        (sg = CHR ''-'' \<and> v = 1 / 10 ^ digits_value es \<or> sg = CHR ''+'' \<and> v = 10 ^ digits_value es))"

lemma parse_exponent_part: "exponent_part x v \<Longrightarrow> number_end r \<Longrightarrow> parse_exponent (x @ r) = Some (v, r)"
  unfolding exponent_part_def
proof (elim disjE exE conjE)
  fix sg es assume x: "x = CHR ''e'' # sg # es" "es \<noteq> []" "list_all is_digit es" and r: "number_end r"
  have "r = [] \<or> \<not> is_digit (hd r)" using r by (auto simp: number_end_def)
  from digits_stop [OF x(3) this] x(1,2)
  show "sg = CHR ''-'' \<Longrightarrow> v = 1 / 10 ^ digits_value es \<Longrightarrow> ?thesis" "sg = CHR ''+'' \<Longrightarrow> v = 10 ^ digits_value es \<Longrightarrow> ?thesis"
    by (simp_all add: parse_exponent_def starts_char_def Let_def)
qed (simp add: number_end_stops)

lemma exponent_follows:
  "exponent_part x v \<Longrightarrow> number_end r \<Longrightarrow> x @ r = [] \<or> \<not> is_digit (hd (x @ r)) \<and> hd (x @ r) \<noteq> CHR ''.''"
  by (auto simp: exponent_part_def number_end_def)

lemma parse_fraction_part:
  assumes "fraction_part f v" "exponent_part x w" "number_end r"
  shows "parse_fraction (f @ x @ r) = Some (v, x @ r)"
  using assms(1) unfolding fraction_part_def
proof (elim disjE exE conjE)
  fix fs assume f: "f = CHR ''.'' # fs" "fs \<noteq> []" "list_all is_digit fs" "v = of_nat (digits_value fs) / 10 ^ length fs"
  have "x @ r = [] \<or> \<not> is_digit (hd (x @ r))" using exponent_follows [OF assms(2,3)] by blast
  from digits_stop [OF f(3) this] f show ?thesis by (simp add: parse_fraction_def starts_char_def)
qed (use exponent_follows [OF assms(2,3)] in \<open>auto simp: parse_fraction_def starts_char_def\<close>)

lemma parse_number_parts:
  assumes "list_all is_digit ds" "ds \<noteq> []" "length ds = 1 \<or> hd ds \<noteq> CHR ''0''"
    and f: "fraction_part f v" and x: "exponent_part x w" and r: "number_end r"
  shows "parse_number ((if neg then ''-'' else []) @ ds @ f @ x @ r) =
    Some ((if neg then - 1 else 1) * (of_nat (digits_value ds) + v) * w, r)"
proof -
  have "f @ x @ r = [] \<or> \<not> is_digit (hd (f @ x @ r))"
    using f exponent_follows [OF x r] by (auto simp: fraction_part_def)
  note stop = digits_stop [OF assms(1) this]
  have "is_digit (hd ds)" using assms(1,2) by (cases ds) auto
  then have "hd ds \<noteq> CHR ''-''" by auto
  then have "\<not> starts_char (CHR ''-'') (ds @ f @ x @ r)" using assms(2) by (simp add: starts_char_def)
  with assms(2,3) stop parse_fraction_part [OF f x r] parse_exponent_part [OF x r] show ?thesis
    by (auto simp: parse_number_def Let_def starts_char_def)
qed

lemma parse_point_layout:
  assumes ds: "list_all is_digit ds" "ds \<noteq> []" "hd ds \<noteq> CHR ''0''" and r: "number_end r"
  shows "parse_number ((if neg then ''-'' else []) @ point_layout ds n @ r) =
    Some ((if neg then - 1 else 1) * (of_nat (digits_value ds) * 10 powi (n - int (length ds))), r)"
proof -
  have sub: "list_all is_digit (take m ds)" "list_all is_digit (drop m ds)" for m
    using ds(1) by (auto simp: list_all_iff dest: in_set_takeD in_set_dropD)
  have split: "of_nat (digits_value ds) = (of_nat (digits_value (take m ds)) :: rat) * 10 ^ (length ds - m) + of_nat (digits_value (drop m ds))"
    for m using digits_value_append [of "take m ds" "drop m ds"] by simp
  have none: "fraction_part [] 0" "exponent_part [] 1" by (simp_all add: fraction_part_def exponent_part_def)
  consider (whole) "int (length ds) \<le> n" "n \<le> 21" | (point) "0 < n" "n < int (length ds)" "n \<le> 21"
    | (small) "- 6 < n" "n \<le> 0" | (exponent) "\<not> (int (length ds) \<le> n \<and> n \<le> 21)" "\<not> (0 < n \<and> n \<le> 21)" "\<not> (- 6 < n \<and> n \<le> 0)"
    by linarith
  then show ?thesis
  proof cases
    case whole
    let ?z = "nat (n - int (length ds))"
    have "10 powi (n - int (length ds)) = (10 :: rat) ^ ?z" using whole by (simp add: power_int_def)
    with parse_number_parts [of "ds @ replicate ?z (CHR ''0'')", OF _ _ _ none r, of neg] ds whole show ?thesis
      by (simp add: point_layout_def Let_def digits_value_append)
  next
    case point
    let ?m = "nat n"
    have m: "0 < ?m" "?m < length ds" using point by auto
    then have f: "fraction_part (''.'' @ drop ?m ds) (of_nat (digits_value (drop ?m ds)) / 10 ^ (length ds - ?m))"
      using sub by (auto simp: fraction_part_def)
    have "10 powi (n - int (length ds)) = (1 :: rat) / 10 ^ (length ds - ?m)"
      using point m by (simp add: power_int_def nat_diff_distrib field_simps)
    then have "of_nat (digits_value ds) * 10 powi (n - int (length ds)) =
        (of_nat (digits_value (take ?m ds)) :: rat) + of_nat (digits_value (drop ?m ds)) / 10 ^ (length ds - ?m)"
      unfolding split [of ?m] by (simp add: field_simps)
    with parse_number_parts [of "take ?m ds", OF sub(1) _ _ f none(2) r, of neg] ds m point show ?thesis
      by (simp add: point_layout_def Let_def hd_take)
  next
    case small
    let ?z = "nat (- n)"
    have f: "fraction_part (''.'' @ replicate ?z (CHR ''0'') @ ds)
        (of_nat (digits_value ds) / 10 ^ (?z + length ds))"
      using ds by (auto simp: fraction_part_def digits_value_append)
    have "n - int (length ds) = - int (?z + length ds)" using small by simp
    then have "10 powi (n - int (length ds)) = (1 :: rat) / 10 ^ (?z + length ds)"
      by (simp only: power_int_minus power_int_of_nat) (simp add: field_simps)
    moreover have "\<not> int (length ds) \<le> n" "\<not> 0 < n" using small ds(2) by (cases ds; simp)+
    ultimately show ?thesis using parse_number_parts [of "''0''", OF _ _ _ f none(2) r, of neg] small
      by (simp add: point_layout_def is_digit_def digits_value_def [of "''0''"])
  next
    case exponent
    note d = nat_digits_value [of "nat \<bar>n - 1\<bar>"]
    have x: "exponent_part (''e'' @ (if n - 1 < 0 then ''-'' else ''+'') @ int_text \<bar>n - 1\<bar>) (10 powi (n - 1))"
      using d by (auto simp: exponent_part_def int_text_def power_int_def field_simps)
    have f: "fraction_part (if int (length ds) = 1 then [] else ''.'' @ drop 1 ds) (of_nat (digits_value (drop 1 ds)) / 10 ^ (length ds - 1))"
    proof (cases "length ds = 1")
      case True
      then have "drop 1 ds = []" by simp
      then show ?thesis using True by (simp add: fraction_part_def digits_value_def)
    next
      case False
      then have "drop 1 ds \<noteq> []" using ds(2) by (cases ds) auto
      then show ?thesis using False sub(2) [of 1] by (auto simp: fraction_part_def)
    qed
    have "10 powi (n - int (length ds)) = (10 :: rat) powi (n - 1) / 10 ^ (length ds - 1)"
      using ds(2) power_int_diff [of "10 :: rat" "n - 1" "int (length ds - 1)"]
      by (cases ds) (auto simp: power_int_of_nat algebra_simps)
    then have val: "of_nat (digits_value ds) * 10 powi (n - int (length ds)) =
        ((of_nat (digits_value (take 1 ds)) :: rat) + of_nat (digits_value (drop 1 ds)) / 10 ^ (length ds - 1)) * 10 powi (n - 1)"
      unfolding split [of 1] by (simp add: field_simps)
    have layout: "point_layout ds n = take 1 ds @ (if int (length ds) = 1 then [] else ''.'' @ drop 1 ds) @
        ''e'' @ (if n - 1 < 0 then ''-'' else ''+'') @ int_text \<bar>n - 1\<bar>"
      unfolding point_layout_def Let_def by (simp only: exponent if_False)
    have first: "take 1 ds \<noteq> []" "length (take 1 ds) = 1 \<or> hd (take 1 ds) \<noteq> CHR ''0''" using ds by (cases ds; simp)+
    show ?thesis
      unfolding layout val using parse_number_parts [OF sub(1) first f x r, of neg]
      by (simp only: append_assoc mult.assoc)
  qed
qed

text \<open>The numbers a decimal text can name: all integers and all finite doubles are among them.\<close>

definition is_decimal :: "rat \<Rightarrow> bool" where
  "is_decimal r \<longleftrightarrow> of_int \<lfloor>r * 10 ^ max_places\<rfloor> = r * 10 ^ max_places"

lemma whole_floor: "x = of_int k \<Longrightarrow> of_int \<lfloor>x\<rfloor> = x"
  by simp

lemma is_decimal_int: "of_int \<lfloor>r\<rfloor> = r \<Longrightarrow> is_decimal r"
proof -
  assume "of_int \<lfloor>r\<rfloor> = r"
  then have "r * 10 ^ max_places = of_int (\<lfloor>r\<rfloor> * 10 ^ max_places)"
    by (simp only: of_int_mult of_int_power of_int_numeral)
  then show ?thesis unfolding is_decimal_def by (rule whole_floor)
qed

lemma is_decimal_whole [simp]: "is_decimal (of_int i)" "is_decimal (of_nat n)" "is_decimal (numeral k)" "is_decimal 1" "is_decimal 0"
  by (auto intro!: is_decimal_int)

lemma places_integer:
  "of_int \<lfloor>r * 10 ^ m\<rfloor> = r * 10 ^ m \<Longrightarrow> of_int \<lfloor>r * 10 ^ places m r\<rfloor> = r * 10 ^ places m r"
proof (induction m arbitrary: r)
  case (Suc m)
  from Suc.IH [of "r * 10"] Suc.prems show ?case by (simp add: mult.assoc)
qed simp

lemma strip_zeros_split: "\<exists>z. ds = strip_zeros ds @ replicate z (CHR ''0'')"
proof -
  let ?z = "takeWhile (\<lambda>c. c = CHR ''0'') (rev ds)"
  have "rev ds = ?z @ dropWhile (\<lambda>c. c = CHR ''0'') (rev ds)" by simp
  then have "ds = strip_zeros ds @ rev ?z" unfolding strip_zeros_def by (metis rev_append rev_rev_ident)
  moreover have "rev ?z = replicate (length ?z) (CHR ''0'')"
    by (intro replicate_eqI) (auto dest: set_takeWhileD)
  ultimately show ?thesis by metis
qed

lemma unsigned_parses:
  assumes x: "0 < x" "is_decimal x" and r: "number_end r"
  shows "parse_number ((if neg then ''-'' else []) @ unsigned_text x @ r) = Some ((if neg then - 1 else 1) * x, r)"
proof -
  define e where "e = places max_places x"
  define N where "N = nat \<lfloor>x * 10 ^ e\<rfloor>"
  define s where "s = strip_zeros (nat_digits N)"
  have "of_int \<lfloor>x * 10 ^ e\<rfloor> = x * 10 ^ e"
    using places_integer [of x max_places] x(2) by (simp add: is_decimal_def e_def)
  moreover have "0 < x * 10 ^ e" using x(1) by simp
  ultimately have pos: "0 < \<lfloor>x * 10 ^ e\<rfloor>" by (metis of_int_0_less_iff)
  then have N: "of_nat N = x * 10 ^ e" "0 < N"
    using \<open>of_int \<lfloor>x * 10 ^ e\<rfloor> = x * 10 ^ e\<close> by (simp_all add: N_def)
  note d = nat_digits_value [of N]
  obtain z where z: "nat_digits N = s @ replicate z (CHR ''0'')"
    unfolding s_def using strip_zeros_split by blast
  have ne: "s \<noteq> []" using d N(2) z by (cases z) auto
  have s: "list_all is_digit s" "hd s \<noteq> CHR ''0''" using d N(2) z ne by (auto simp: list_all_iff)
  have "digits_value s * 10 ^ z = N" using d unfolding z by (simp add: digits_value_append)
  then have v: "of_nat (digits_value s) * 10 ^ z = x * 10 ^ e"
    using N(1) by (metis of_nat_mult of_nat_numeral of_nat_power)
  have "int (length (nat_digits N)) - int e - int (length s) = int z - int e" unfolding z by simp
  then have "of_nat (digits_value s) * 10 powi (int (length (nat_digits N)) - int e - int (length s)) = x"
    using v by (simp add: power_int_diff field_simps)
  with parse_point_layout [OF s(1) ne s(2) r, of neg "int (length (nat_digits N)) - int e"]
  show ?thesis by (simp add: unsigned_text_def e_def [symmetric] N_def [symmetric] s_def [symmetric])
qed

lemma number_parses:
  assumes "is_decimal q" and r: "number_end r"
  shows "parse_number (number_text q @ r) = Some (q, r)"
proof -
  have "is_decimal (- q)"
  proof -
    have "- q * 10 ^ max_places = of_int (- \<lfloor>q * 10 ^ max_places\<rfloor>)"
      using assms(1) by (simp only: is_decimal_def of_int_minus mult_minus_left)
    then show ?thesis unfolding is_decimal_def by (rule whole_floor)
  qed
  moreover have "parse_number (''0'' @ r) = Some (0, r)"
    using parse_number_parts [of "''0''" "[]" 0 "[]" 1 r False] r
    by (simp add: fraction_part_def exponent_part_def is_digit_def digits_value_def)
  ultimately show ?thesis
    using unsigned_parses [of q r False] unsigned_parses [of "- q" r True] assms
    by (cases q "0 :: rat" rule: linorder_cases) (simp_all add: number_text_def)
qed

lemma number_text_hd:
  assumes "is_decimal q"
  obtains a t where "number_text q = a # t" "is_digit a \<or> a = CHR ''-''"
proof -
  have "parse_number (number_text q) = Some (q, [])"
    using number_parses [OF assms, of "[]"] by (simp add: number_end_def)
  then have "starts_char (CHR ''-'') (number_text q) \<or> digits_of (number_text q) \<noteq> []"
    by (auto simp: parse_number_def Let_def split: if_splits)
  then show thesis
    by (cases "number_text q") (auto simp: starts_char_def digits_of_def split: if_splits intro: that)
qed

text \<open>Integers below 10^21 are printed with their digits.\<close>

lemma number_text_int:
  assumes "\<bar>i\<bar> < 10 ^ 21"
  shows "number_text (of_int i) = int_text i"
proof (cases "i = 0")
  case False
  define ds where "ds = nat_digits (nat \<bar>i\<bar>)"
  obtain z where z: "ds = strip_zeros ds @ replicate z (CHR ''0'')" using strip_zeros_split by blast
  have "places m (of_int \<bar>i\<bar> :: rat) = 0" for m by (cases m) (simp_all only: places.simps floor_of_int if_True refl)
  moreover have len: "length ds \<le> 21"
    using nat_digits_length [of "nat \<bar>i\<bar>" 21] assms unfolding ds_def by (simp add: nat_less_iff)
  moreover have "length ds = length (strip_zeros ds) + z" using arg_cong [OF z, of length] by simp
  then have "int (length (strip_zeros ds)) \<le> int (length ds)" "nat (int (length ds) - int (length (strip_zeros ds))) = z" by simp_all
  moreover have "strip_zeros ds @ replicate z (CHR ''0'') = ds" using z by simp
  ultimately have "unsigned_text (of_int \<bar>i\<bar>) = ds"
    by (simp add: unsigned_text_def point_layout_def ds_def [symmetric] del: of_int_abs)
  with False show ?thesis by (auto simp: number_text_def int_text_def ds_def simp flip: of_int_abs)
next
  case True
  have "char_of (48 :: nat) = CHR ''0''"
    using char_of_char [of "CHR ''0''", where ?'a = nat] by simp
  with True show ?thesis by (simp add: number_text_def int_text_def nat_digits.simps)
qed

subsubsection \<open>Strings\<close>

lemma hex_value_digit: "n < 16 \<Longrightarrow> hex_value (hex_digit n) = Some n"
  by (auto simp: hex_value_def hex_digit_def Let_def)

lemma unicode_escape_low:
  assumes "n < 32"
  shows "unicode_escape (CHR ''0'' # CHR ''0'' # hex_digit (n div 16) # hex_digit (n mod 16) # r) =
    Some ([char_of n], 4)"
proof -
  have z: "hex_value CHR ''0'' = Some 0" by (simp add: hex_value_def Let_def)
  have "hex4 (CHR ''0'' # CHR ''0'' # hex_digit (n div 16) # hex_digit (n mod 16) # r) = Some n"
    using assms by (simp add: hex4_def z hex_value_digit)
  with assms show ?thesis by (simp add: unicode_escape_def utf8_encode_def)
qed

lemma parse_chars_simple:
  assumes "simple_escape a = Some bs" and "a \<noteq> CHR ''u''"
  shows "parse_chars (CHR 0x5C # a # r) = map_option (\<lambda>(t, r). (bs @ t, r)) (parse_chars r)"
  by (subst parse_chars.simps) (simp add: assms)

lemma parse_chars_unicode:
  "unicode_escape s = Some (bs, n) \<Longrightarrow>
     parse_chars (CHR 0x5C # CHR ''u'' # s) = map_option (\<lambda>(t, r). (bs @ t, r)) (parse_chars (drop n s))"
  by (subst parse_chars.simps) simp

lemma parse_chars_plain:
  "\<not> of_char a < (0x20 :: nat) \<Longrightarrow> a \<noteq> CHR 0x22 \<Longrightarrow> a \<noteq> CHR 0x5C \<Longrightarrow>
     parse_chars (a # r) = map_option (\<lambda>(t, r). (a # t, r)) (parse_chars r)"
  by (subst parse_chars.simps) simp

lemma json_escape_cases:
  obtains (short) a where "json_escape c = [CHR 0x5C, a]" "simple_escape a = Some [c]" "a \<noteq> CHR ''u''"
    | (control) n where "n < 32" "c = char_of n"
      "json_escape c = [CHR 0x5C, CHR ''u'', CHR ''0'', CHR ''0'', hex_digit (n div 16), hex_digit (n mod 16)]"
    | (plain) "json_escape c = [c]" "\<not> of_char c < (0x20 :: nat)" "c \<noteq> CHR 0x22" "c \<noteq> CHR 0x5C"
proof -
  define n where "n = (of_char c :: nat)"
  have c: "c = char_of n" by (simp add: n_def)
  have e: "json_escape c = (if n = 0x22 then [CHR 0x5C, CHR 0x22]
     else if n = 0x5C then [CHR 0x5C, CHR 0x5C]
     else if n = 0x08 then [CHR 0x5C, CHR ''b'']
     else if n = 0x09 then [CHR 0x5C, CHR ''t'']
     else if n = 0x0A then [CHR 0x5C, CHR ''n'']
     else if n = 0x0C then [CHR 0x5C, CHR ''f'']
     else if n = 0x0D then [CHR 0x5C, CHR ''r'']
     else if n < 0x20 then
       [CHR 0x5C, CHR ''u'', CHR ''0'', CHR ''0'', hex_digit (n div 16), hex_digit (n mod 16)]
     else [c])"
    by (simp add: json_escape_def n_def Let_def)
  have q: "n = of_char d \<Longrightarrow> c = d" for d by (simp add: n_def)
  consider "n = 0x22" | "n = 0x5C" | "n = 0x08" | "n = 0x09" | "n = 0x0A" | "n = 0x0C" | "n = 0x0D"
    | "n < 0x20" "n \<notin> {8, 9, 10, 12, 13}"
    | "0x20 \<le> n" "n \<noteq> 0x22" "n \<noteq> 0x5C" by fastforce
  then show thesis
  proof cases
    case 1
    have c': "c = CHR 0x22" by (rule q) (simp add: 1)
    have "json_escape c = [CHR 0x5C, CHR 0x22]" unfolding e by (simp add: 1)
    then show thesis by (rule short) (simp_all add: c' simple_escape_def)
  next
    case 2
    have c': "c = CHR 0x5C" by (rule q) (simp add: 2)
    have "json_escape c = [CHR 0x5C, CHR 0x5C]" unfolding e by (simp add: 2)
    then show thesis by (rule short) (simp_all add: c' simple_escape_def)
  next
    case 3
    have c': "c = CHR 0x08" by (rule q) (simp add: 3)
    have "json_escape c = [CHR 0x5C, CHR ''b'']" unfolding e by (simp add: 3)
    then show thesis by (rule short) (simp_all add: c' simple_escape_def)
  next
    case 4
    have c': "c = CHR 0x09" by (rule q) (simp add: 4)
    have "json_escape c = [CHR 0x5C, CHR ''t'']" unfolding e by (simp add: 4)
    then show thesis by (rule short) (simp_all add: c' simple_escape_def)
  next
    case 5
    have c': "c = CHR 0x0A" by (rule q) (simp add: 5)
    have "json_escape c = [CHR 0x5C, CHR ''n'']" unfolding e by (simp add: 5)
    then show thesis by (rule short) (simp_all add: c' simple_escape_def)
  next
    case 6
    have c': "c = CHR 0x0C" by (rule q) (simp add: 6)
    have "json_escape c = [CHR 0x5C, CHR ''f'']" unfolding e by (simp add: 6)
    then show thesis by (rule short) (simp_all add: c' simple_escape_def)
  next
    case 7
    have c': "c = CHR 0x0D" by (rule q) (simp add: 7)
    have "json_escape c = [CHR 0x5C, CHR ''r'']" unfolding e by (simp add: 7)
    then show thesis by (rule short) (simp_all add: c' simple_escape_def)
  next
    case 8
    then have "json_escape c = [CHR 0x5C, CHR ''u'', CHR ''0'', CHR ''0'', hex_digit (n div 16), hex_digit (n mod 16)]"
      unfolding e by simp
    with 8(1) c show thesis by (intro control [of n]) simp_all
  next
    case 9
    then show thesis by (intro plain) (auto simp: e n_def)
  qed
qed

lemma parse_chars_escape:
  "parse_chars (json_escape c @ r) = map_option (\<lambda>(t, r). (c # t, r)) (parse_chars r)"
proof (cases rule: json_escape_cases [of c])
  case (short a)
  then show ?thesis by (simp add: parse_chars_simple)
next
  case (control n)
  with parse_chars_unicode [OF unicode_escape_low [OF control(1)]] show ?thesis by simp
next
  case plain
  then show ?thesis by (simp add: parse_chars_plain)
qed

lemma parse_chars_quoted:
  "parse_chars (concat (map json_escape s) @ CHR 0x22 # r) = Some (s, r)"
proof (induction s)
  case Nil
  show ?case by (subst parse_chars.simps) simp
next
  case (Cons c s)
  then show ?case by (simp add: parse_chars_escape)
qed


subsubsection \<open>Values\<close>

text \<open>
  The values JSON text determines: their numbers are decimals and their objects are in own-key order
  without duplicates.
\<close>

fun plain_value :: "jvalue \<Rightarrow> bool" where
  "plain_value (JNum r) \<longleftrightarrow> is_decimal r"
| "plain_value (JArr xs) \<longleftrightarrow> list_all plain_value xs"
| "plain_value (JObj kvs) \<longleftrightarrow>
     foldl (\<lambda>a kv. obj_put (fst kv) (snd kv) a) [] kvs = kvs \<and> list_all (\<lambda>kv. plain_value (snd kv)) kvs"
| "plain_value v \<longleftrightarrow> True"

abbreviation value_text :: "jvalue \<Rightarrow> string" where
  "value_text v \<equiv> stringify (json_text v)"

definition member_text :: "string \<times> jvalue \<Rightarrow> string" where
  "member_text kv = json_quote (fst kv) @ '':'' @ value_text (snd kv)"

lemma value_text_simps:
  "value_text (JArr xs) = CHR ''['' # join '','' (map value_text xs) @ [CHR '']'']"
  "value_text (JObj kvs) = CHR 0x7B # join '','' (map member_text kvs) @ [CHR 0x7D]"
  by (simp_all add: member_text_def [abs_def] comp_def)

text \<open>What the text of a value starts with.\<close>

lemma value_text_hd:
  assumes "plain_value v"
  obtains a t where "value_text v = a # t" "\<not> is_json_ws a" "a \<noteq> CHR '']''" "a \<noteq> CHR '',''"
proof (cases v)
  case (JNum r)
  with assms obtain a t where "number_text r = a # t" "is_digit a \<or> a = CHR ''-''"
    by (auto elim: number_text_hd)
  with JNum show thesis by (auto intro!: that simp: is_digit_ascii is_json_ws_def)
next
  case (JBool b)
  then show thesis by (cases b) (auto intro!: that simp: is_json_ws_def)
qed (auto intro!: that simp: is_json_ws_def json_quote_def dquote_def)

lemma skip_ws_stop: "\<not> is_json_ws a \<Longrightarrow> skip_ws (a # t) = a # t"
  by (simp add: skip_ws_def)

text \<open>What follows a value inside a text: nothing, or a separator.\<close>

definition value_end :: "string \<Rightarrow> bool" where
  "value_end r \<longleftrightarrow> r = [] \<or> hd r \<in> {CHR '','', CHR '']'', CHR 0x7D}"

lemma value_end_number: "value_end r \<Longrightarrow> number_end r"
  by (auto simp: value_end_def number_end_def is_digit_ascii)

definition parses :: "jvalue \<Rightarrow> bool" where
  "parses v \<longleftrightarrow> (\<forall>n r. 2 * length (value_text v) \<le> n \<longrightarrow> value_end r \<longrightarrow>
     parse_value n (value_text v @ r) = Some (v, r))"

lemma parse_elements_text:
  assumes "xs \<noteq> []" and "list_all parses xs"
    and "2 * length (join '','' (map value_text xs)) < n"
  shows "parse_elements n acc (join '','' (map value_text xs) @ CHR '']'' # r) = Some (JArr (acc @ xs), r)"
  using assms
proof (induction xs arbitrary: n acc)
  case (Cons x xs)
  then obtain m where n: "n = Suc m" by (cases n) auto
  show ?case
  proof (cases xs)
    case Nil
    with Cons.prems n have "parse_value m (value_text x @ CHR '']'' # r) = Some (x, CHR '']'' # r)"
      by (simp add: parses_def value_end_def)
    with Nil n show ?thesis by (simp add: starts_char_def skip_ws_stop is_json_ws_def)
  next
    case (Cons y ys)
    let ?rest = "join '','' (map value_text xs) @ CHR '']'' # r"
    from Cons.prems Cons n have "parse_value m (value_text x @ CHR '','' # ?rest) = Some (x, CHR '','' # ?rest)"
      by (simp add: parses_def value_end_def)
    moreover have "parse_elements m (acc @ [x]) ?rest = Some (JArr ((acc @ [x]) @ xs), r)"
      using Cons.prems Cons n by (intro Cons.IH) simp_all
    ultimately show ?thesis using Cons n
      by (simp add: starts_char_def skip_ws_stop is_json_ws_def)
  qed
qed simp

lemma parse_members_text:
  assumes "kvs \<noteq> []" and "list_all (\<lambda>kv. parses (snd kv)) kvs"
    and "2 * length (join '','' (map member_text kvs)) < n"
  shows "parse_members n acc (join '','' (map member_text kvs) @ CHR 0x7D # r) =
    Some (JObj (foldl (\<lambda>a kv. obj_put (fst kv) (snd kv) a) acc kvs), r)"
  using assms
proof (induction kvs arbitrary: n acc)
  case (Cons kv kvs)
  then obtain m where n: "n = Suc m" by (cases n) auto
  have head: "skip_ws (member_text kv @ q) = CHR 0x22 # concat (map json_escape (fst kv)) @ CHR 0x22 # CHR '':'' #
      value_text (snd kv) @ q" for q
    by (simp add: member_text_def json_quote_def dquote_def skip_ws_stop is_json_ws_def)
  show ?case
  proof (cases kvs)
    case Nil
    with Cons.prems n have "parse_value m (value_text (snd kv) @ CHR 0x7D # r) = Some (snd kv, CHR 0x7D # r)"
      by (simp add: parses_def value_end_def member_text_def)
    with Nil n show ?thesis
      by (simp add: head parse_chars_quoted starts_char_def skip_ws_stop is_json_ws_def Let_def)
  next
    case (Cons kv' kvs')
    let ?rest = "join '','' (map member_text kvs) @ CHR 0x7D # r"
    from Cons.prems Cons n have "parse_value m (value_text (snd kv) @ CHR '','' # ?rest) = Some (snd kv, CHR '','' # ?rest)"
      by (simp add: parses_def value_end_def member_text_def)
    moreover have "parse_members m (obj_put (fst kv) (snd kv) acc) ?rest =
        Some (JObj (foldl (\<lambda>a kv. obj_put (fst kv) (snd kv) a) (obj_put (fst kv) (snd kv) acc) kvs), r)"
      using Cons.prems Cons n by (intro Cons.IH) simp_all
    ultimately show ?thesis using Cons n
      by (simp add: head parse_chars_quoted starts_char_def skip_ws_stop is_json_ws_def Let_def)
  qed
qed simp

lemma starts_with_hd: "starts_with (c # p) (d # t) \<Longrightarrow> c = d"
  by (simp add: starts_with_def)

lemma parse_value_number:
  "is_decimal q \<Longrightarrow> value_end r \<Longrightarrow> parse_value (Suc n) (number_text q @ r) = Some (JNum q, r)"
proof -
  assume q: "is_decimal q" and r: "value_end r"
  obtain a t where a: "number_text q = a # t" "is_digit a \<or> a = CHR ''-''"
    using q by (rule number_text_hd)
  then have other: "a \<noteq> CHR 0x7B" "a \<noteq> CHR ''[''" "a \<noteq> CHR 0x22" "\<not> is_json_ws a"
    "a \<noteq> CHR ''t''" "a \<noteq> CHR ''f''" "a \<noteq> CHR ''n''"
    by (auto simp: is_digit_ascii is_json_ws_def)
  then have kw: "\<not> starts_with ''true'' (a # t @ r)" "\<not> starts_with ''false'' (a # t @ r)"
    "\<not> starts_with ''null'' (a # t @ r)"
    using starts_with_hd by blast+
  have "parse_number (a # t @ r) = Some (q, r)"
    using number_parses [OF q value_end_number [OF r]] a by simp
  with other kw show ?thesis by (simp add: a skip_ws_stop Let_def)
qed

lemma parses_scalar:
  assumes "\<And>m r. parse_value (Suc m) (value_text v @ r) = Some (v, r)" and "value_text v \<noteq> []"
  shows "parses v"
  unfolding parses_def
proof (intro allI impI)
  fix n r
  assume "2 * length (value_text v) \<le> n"
  with assms(2) obtain m where "n = Suc m" by (cases n) auto
  with assms(1) show "parse_value n (value_text v @ r) = Some (v, r)" by simp
qed

lemma plain_parses: "plain_value v \<Longrightarrow> parses v"
proof (induction v)
  case (JNum q)
  have "parse_value n (value_text (JNum q) @ r) = Some (JNum q, r)"
    if n: "2 * length (value_text (JNum q)) \<le> n" and r: "value_end r" for n r
  proof -
    have q: "is_decimal q" using JNum by simp
    obtain a t where "number_text q = a # t" using q by (rule number_text_hd)
    then obtain m where "n = Suc m" using n by (cases n) auto
    with parse_value_number [OF q r, of m] show ?thesis by simp
  qed
  then show ?case by (simp add: parses_def)
next
  case (JArr xs)
  have ok: "list_all parses xs" using JArr by (auto simp: list_all_iff)
  have "parse_value n (value_text (JArr xs) @ r) = Some (JArr xs, r)"
    if n: "2 * length (value_text (JArr xs)) \<le> n" for n r
  proof (cases "xs = []")
    case True
    with n show ?thesis by (cases n) (simp_all add: skip_ws_stop is_json_ws_def starts_char_def Let_def)
  next
    case False
    obtain m where m: "n = Suc m" using n by (cases n) (auto simp: value_text_simps)
    obtain x ys where xs: "xs = x # ys" using False by (cases xs) auto
    then obtain a t where a: "value_text x = a # t" "\<not> is_json_ws a" "a \<noteq> CHR '']''"
      using JArr.prems by (auto intro: value_text_hd [of x])
    have first: "\<exists>u. join '','' (map value_text xs) @ CHR '']'' # r = a # u"
      using a xs by (cases ys) auto
    have "parse_elements m [] (join '','' (map value_text xs) @ CHR '']'' # r) = Some (JArr ([] @ xs), r)"
      using n m by (intro parse_elements_text False ok) (simp add: value_text_simps del: json_text.simps)
    with first a show ?thesis
      unfolding value_text_simps m
      by (auto simp: skip_ws_stop is_json_ws_def [of "CHR ''[''"] starts_char_def Let_def)
  qed
  then show ?case by (simp add: parses_def del: json_text.simps)
next
  case (JObj kvs)
  have ok: "list_all (\<lambda>kv. parses (snd kv)) kvs" using JObj by (fastforce simp: list_all_iff snds.simps)
  have "parse_value n (value_text (JObj kvs) @ r) = Some (JObj kvs, r)"
    if n: "2 * length (value_text (JObj kvs)) \<le> n" for n r
  proof (cases "kvs = []")
    case True
    with n show ?thesis by (cases n) (simp_all add: skip_ws_stop is_json_ws_def starts_char_def Let_def)
  next
    case False
    obtain m where m: "n = Suc m" using n by (cases n) (auto simp: value_text_simps)
    obtain kv kvs' where "kvs = kv # kvs'" using False by (cases kvs) auto
    then have first: "\<exists>u. join '','' (map member_text kvs) @ CHR 0x7D # r = CHR 0x22 # u"
      by (cases kvs') (auto simp: member_text_def json_quote_def dquote_def)
    have "parse_members m [] (join '','' (map member_text kvs) @ CHR 0x7D # r) =
        Some (JObj (foldl (\<lambda>a kv. obj_put (fst kv) (snd kv) a) [] kvs), r)"
      using n m by (intro parse_members_text False ok) (simp add: value_text_simps del: json_text.simps)
    with first JObj.prems show ?thesis
      unfolding value_text_simps m
      by (auto simp: skip_ws_stop is_json_ws_def starts_char_def Let_def)
  qed
  then show ?case by (simp add: parses_def del: json_text.simps)
next
  case JNull
  show ?case
    by (rule parses_scalar) (simp_all add: skip_ws_stop is_json_ws_def starts_with_def Let_def)
next
  case (JBool b)
  show ?case
    by (rule parses_scalar; cases b) (simp_all add: skip_ws_stop is_json_ws_def starts_with_def Let_def)
next
  case (JStr s)
  show ?case
    by (rule parses_scalar)
       (simp_all add: skip_ws_stop is_json_ws_def json_quote_def dquote_def parse_chars_quoted Let_def)
qed

text \<open>\<open>JSON.parse(JSON.stringify(v))\<close> gives the value back.\<close>

theorem json_parse_stringify:
  assumes "plain_value v"
  shows "json_parse (stringify_value v) = Some v"
proof -
  have "parse_value (2 * length (value_text v) + 2) (value_text v @ []) = Some (v, [])"
    by (rule plain_parses [OF assms, unfolded parses_def, rule_format]) (simp_all add: value_end_def)
  then have "parse_value (2 * length (value_text v) + 2) (value_text v) = Some (v, [])"
    by (simp only: append_Nil2)
  then show ?thesis by (simp add: json_parse_def stringify_value_def skip_ws_def del: parse_value.simps)
qed

end
