(* ===== verification/Server_Compactor.thy ===== *)
theory Server_Compactor
  imports Context_Compaction Json_Text
begin

text \<open>
  The server's compaction port (\<open>packages/keiko-server/src/harness-context-compactor.ts\<close>): it evicts
  whole turns, oldest first, until the history fits, and leaves one notice with the number of turns
  dropped over all passes. Its interpretation of the compaction contract is at the end.
\<close>

definition notice_kind :: string where
  "notice_kind = ''keiko.compactedHistoryNotice''"

subsection \<open>Segmentation\<close>

definition split_leading_seed :: "chat_message list \<Rightarrow> chat_message list \<times> chat_message list" where
  "split_leading_seed ms =
     (takeWhile (\<lambda>m. m_role m \<noteq> Assistant) ms, dropWhile (\<lambda>m. m_role m \<noteq> Assistant) ms)"

fun turns_loop :: "chat_message list list \<Rightarrow> chat_message list \<Rightarrow> chat_message list \<Rightarrow> chat_message list list" where
  "turns_loop turns current [] = (if current \<noteq> [] then turns @ [current] else turns)"
| "turns_loop turns current (m # ms) =
     (if m_role m = Assistant \<and> current \<noteq> [] then turns_loop (turns @ [current]) [m] ms
      else turns_loop turns (current @ [m]) ms)"

definition split_turns :: "chat_message list \<Rightarrow> chat_message list list" where
  "split_turns ms = turns_loop [] [] ms"

subsection \<open>Notices\<close>

definition parse_notice :: "string \<Rightarrow> rat option" where
  "parse_notice content = (case json_parse content of
     Some (JObj kvs) \<Rightarrow>
       if obj_get kvs ''kind'' = Some (JStr notice_kind)
       then Some (case obj_get kvs ''droppedTurns'' of Some (JNum n) \<Rightarrow> n | _ \<Rightarrow> 0)
       else None
   | _ \<Rightarrow> None)"

definition message_notice :: "chat_message \<Rightarrow> rat option" where
  "message_notice m = (if m_role m = System then parse_notice (m_content m) else None)"

fun strip_notices :: "chat_message list \<Rightarrow> chat_message list \<times> rat" where
  "strip_notices [] = ([], 0)"
| "strip_notices (m # ms) =
     (let r = strip_notices ms
      in case message_notice m of
           None \<Rightarrow> (m # fst r, snd r)
         | Some n \<Rightarrow> (fst r, n + snd r))"

definition notice_json :: "rat \<Rightarrow> jvalue" where
  "notice_json dropped = JObj [(''kind'', JStr notice_kind), (''droppedTurns'', JNum dropped)]"

definition dropped_notice_message :: "rat \<Rightarrow> chat_message" where
  "dropped_notice_message dropped = plain_message System (stringify_value (notice_json dropped))"

subsection \<open>Eviction\<close>

text \<open>The candidate of one step of the loop: the head, the notice, and the turns not dropped.\<close>

definition candidate ::
  "chat_message list \<Rightarrow> chat_message list list \<Rightarrow> chat_message list list \<Rightarrow> rat \<Rightarrow> nat \<Rightarrow> chat_message list" where
  "candidate head evictable protected_tail prior k =
     (let dropped = prior + of_nat k;
          notice = (if dropped > 0 then [dropped_notice_message dropped] else [])
      in head @ notice @ concat (drop k evictable) @ concat protected_tail)"

fun fit_loop ::
  "chat_message list \<Rightarrow> chat_message list list \<Rightarrow> chat_message list list \<Rightarrow> rat \<Rightarrow> int \<Rightarrow> nat list
     \<Rightarrow> (chat_message list \<times> nat) option" where
  "fit_loop head evictable protected_tail prior max_bytes [] = None"
| "fit_loop head evictable protected_tail prior max_bytes (k # ks) =
     (let c = candidate head evictable protected_tail prior k
      in if context_bytes c \<le> max_bytes then Some (c, length (concat (take k evictable)))
         else fit_loop head evictable protected_tail prior max_bytes ks)"

definition fit_under_bytes ::
  "chat_message list \<Rightarrow> chat_message list list \<Rightarrow> chat_message list list \<Rightarrow> rat \<Rightarrow> int
     \<Rightarrow> (chat_message list \<times> nat) option" where
  "fit_under_bytes head evictable protected_tail prior max_bytes =
     fit_loop head evictable protected_tail prior max_bytes [1..<length evictable + 1]"

definition server_compactor :: "chat_message list \<Rightarrow> int \<Rightarrow> (chat_message list \<times> nat) option" where
  "server_compactor ms max_bytes =
     (let stripped = strip_notices ms;
          seed = split_leading_seed (fst stripped);
          turns = split_turns (snd seed)
      in if length turns < 2 then None
         else fit_under_bytes (fst seed) (butlast turns) [last turns] (snd stripped) max_bytes)"

subsection \<open>Segmentation lemmas\<close>

text \<open>A turn opens with an assistant message and holds no other.\<close>

definition is_turn :: "chat_message list \<Rightarrow> bool" where
  "is_turn t \<longleftrightarrow> t \<noteq> [] \<and> m_role (hd t) = Assistant \<and> (\<forall>m\<in>set (tl t). m_role m \<noteq> Assistant)"

lemma turns_loop_concat: "concat (turns_loop turns cur ms) = concat turns @ cur @ ms"
  by (induction turns cur ms rule: turns_loop.induct) auto

lemma is_turn_snoc: "is_turn t \<Longrightarrow> m_role m \<noteq> Assistant \<Longrightarrow> is_turn (t @ [m])"
  by (auto simp: is_turn_def)

lemma turns_loop_turns:
  "list_all is_turn turns \<Longrightarrow> is_turn cur \<Longrightarrow> list_all is_turn (turns_loop turns cur ms)"
proof (induction turns cur ms rule: turns_loop.induct)
  case (2 turns cur m ms)
  show ?case
  proof (cases "m_role m = Assistant \<and> cur \<noteq> []")
    case True
    moreover have "is_turn [m]" using True by (simp add: is_turn_def)
    ultimately show ?thesis using 2 by simp
  next
    case False
    with 2 have m: "m_role m \<noteq> Assistant" by (auto simp: is_turn_def)
    with 2 have "is_turn (cur @ [m])" by (intro is_turn_snoc)
    with 2 m show ?thesis by simp
  qed
qed simp

lemma split_seed_concat: "fst (split_leading_seed ms) @ concat (split_turns (snd (split_leading_seed ms))) = ms"
  by (simp add: split_leading_seed_def split_turns_def turns_loop_concat)

lemma split_seed_head: "m \<in> set (fst (split_leading_seed ms)) \<Longrightarrow> m_role m \<noteq> Assistant"
  by (auto simp: split_leading_seed_def dest: set_takeWhileD)

lemma split_seed_turns: "list_all is_turn (split_turns (snd (split_leading_seed ms)))"
proof (cases "snd (split_leading_seed ms)")
  case Nil
  then show ?thesis by (simp add: split_turns_def)
next
  case (Cons m rest)
  then have "m_role m = Assistant"
    using hd_dropWhile [of "\<lambda>m. m_role m \<noteq> Assistant" ms] by (auto simp: split_leading_seed_def)
  then have "is_turn [m]" by (simp add: is_turn_def)
  then show ?thesis using turns_loop_turns [of "[]" "[m]" rest] Cons by (simp add: split_turns_def)
qed

subsection \<open>Notice lemmas\<close>

lemma strip_notices_fst: "fst (strip_notices ms) = filter (\<lambda>m. message_notice m = None) ms"
  by (induction ms) (auto simp: Let_def split: option.splits)

lemma strip_notices_snd: "snd (strip_notices ms) = (\<Sum>m\<leftarrow>ms. case message_notice m of None \<Rightarrow> 0 | Some n \<Rightarrow> n)"
  by (induction ms) (auto simp: Let_def split: option.splits)

lemma message_notice_System: "message_notice m = Some n \<Longrightarrow> m_role m = System"
  by (simp add: message_notice_def split: if_splits)

lemma parse_own_notice: "message_notice (dropped_notice_message (of_int n)) = Some (of_int n)"
proof -
  have "\<not> is_index_key ''kind''" "\<not> is_index_key ''droppedTurns''"
    by (simp_all add: is_index_key_def is_digit_def Let_def)
  then have "plain_value (notice_json (of_int n))"
    by (simp add: notice_json_def obj_put_def obj_keys_def)
  from json_parse_stringify [OF this] show ?thesis
    by (simp add: message_notice_def parse_notice_def dropped_notice_message_def plain_message_def
        notice_json_def obj_get_def)
qed

subsection \<open>Eviction lemmas\<close>

lemma fit_loop_Some:
  assumes "fit_loop h e t p b ks = Some (ms, n)"
  obtains us k vs where "ks = us @ k # vs" "ms = candidate h e t p k"
    "n = length (concat (take k e))" "context_bytes ms \<le> b"
    "\<forall>j\<in>set us. b < context_bytes (candidate h e t p j)"
proof -
  have "\<exists>us k vs. ks = us @ k # vs \<and> ms = candidate h e t p k \<and> n = length (concat (take k e)) \<and>
      context_bytes ms \<le> b \<and> (\<forall>j\<in>set us. b < context_bytes (candidate h e t p j))"
    using assms
  proof (induction ks)
    case (Cons k ks)
    show ?case
    proof (cases "context_bytes (candidate h e t p k) \<le> b")
      case True
      with Cons.prems show ?thesis by (intro exI [of _ "[]"]) (auto simp: Let_def)
    next
      case False
      with Cons obtain us j vs where "ks = us @ j # vs" "ms = candidate h e t p j"
        "n = length (concat (take j e))" "context_bytes ms \<le> b"
        "\<forall>j\<in>set us. b < context_bytes (candidate h e t p j)" by (auto simp: Let_def)
      with False show ?thesis by (intro exI [of _ "k # us"]) auto
    qed
  qed simp
  then show ?thesis using that by blast
qed

lemma fit_loop_None:
  "fit_loop h e t p b ks = None \<Longrightarrow> j \<in> set ks \<Longrightarrow> b < context_bytes (candidate h e t p j)"
  by (induction ks) (auto simp: Let_def split: if_splits)

text \<open>
  What the compactor returns: the first candidate that fits, where the history without notices is a
  head followed by turns of which the last is kept.
\<close>

definition segments :: "chat_message list \<Rightarrow> chat_message list \<times> chat_message list list" where
  "segments ms = (fst (split_leading_seed (fst (strip_notices ms))),
     split_turns (snd (split_leading_seed (fst (strip_notices ms)))))"

lemma segments_concat: "fst (segments ms) @ concat (snd (segments ms)) = fst (strip_notices ms)"
  by (simp add: segments_def split_seed_concat)

lemma segments_turns: "list_all is_turn (snd (segments ms))"
  by (simp add: segments_def split_seed_turns)

lemma server_compactor_Some:
  assumes "server_compactor ms b = Some (ms', n)"
  obtains k where "0 < k" "k < length (snd (segments ms))"
    "ms' = candidate (fst (segments ms)) (butlast (snd (segments ms))) [last (snd (segments ms))]
       (snd (strip_notices ms)) k"
    "n = length (concat (take k (snd (segments ms))))" "context_bytes ms' \<le> b"
    "\<forall>j. 0 < j \<and> j < k \<longrightarrow> b < context_bytes (candidate (fst (segments ms)) (butlast (snd (segments ms)))
       [last (snd (segments ms))] (snd (strip_notices ms)) j)"
proof -
  let ?t = "snd (segments ms)"
  have two: "2 \<le> length ?t" and fit0: "fit_under_bytes (fst (segments ms)) (butlast ?t) [last ?t]
      (snd (strip_notices ms)) b = Some (ms', n)"
    using assms by (auto simp: server_compactor_def segments_def Let_def split: if_splits)
  have "length (butlast ?t) + 1 = length ?t" using two by simp
  with fit0 have fit: "fit_loop (fst (segments ms)) (butlast ?t) [last ?t]
      (snd (strip_notices ms)) b [1..<length ?t] = Some (ms', n)"
    unfolding fit_under_bytes_def by metis
  obtain us k vs where ks: "[1..<length ?t] = us @ k # vs"
    and r: "ms' = candidate (fst (segments ms)) (butlast ?t) [last ?t] (snd (strip_notices ms)) k"
      "n = length (concat (take k (butlast ?t)))" "context_bytes ms' \<le> b"
      "\<forall>j\<in>set us. b < context_bytes (candidate (fst (segments ms)) (butlast ?t) [last ?t]
         (snd (strip_notices ms)) j)"
    using fit_loop_Some [OF fit] by metis
  have "k \<in> set [1..<length ?t]" unfolding ks by simp
  then have k: "0 < k" "k < length ?t" by auto
  have "j \<in> set us" if "0 < j" "j < k" for j
  proof -
    have "sorted_wrt (<) (us @ k # vs)" using sorted_wrt_upt ks by metis
    moreover have "j \<in> set (us @ k # vs)" using that k arg_cong [OF ks, of set] by auto
    ultimately show ?thesis using that by (auto simp: sorted_wrt_append)
  qed
  moreover have "take k (butlast ?t) = take k ?t" using k by (simp add: butlast_conv_take)
  ultimately show thesis using k r by (intro that [of k]) auto
qed

text \<open>The candidate that keeps all but the first \<open>k\<close> turns.\<close>

definition notice_part :: "rat \<Rightarrow> chat_message list" where
  "notice_part dropped = (if dropped > 0 then [dropped_notice_message dropped] else [])"

lemma candidate_turns:
  assumes "k < length ts"
  shows "candidate h (butlast ts) [last ts] p k = h @ notice_part (p + of_nat k) @ concat (drop k ts)"
proof (cases ts rule: rev_cases)
  case (snoc us u)
  with assms show ?thesis by (simp add: candidate_def notice_part_def Let_def)
qed (use assms in simp)

subsection \<open>Pairing of tool results\<close>

lemma paired_no_assistant:
  "(\<forall>m\<in>set xs. m_role m \<noteq> Assistant) \<Longrightarrow> paired ids (xs @ ys) \<longleftrightarrow> paired ids xs \<and> paired ids ys"
  by (induction xs) auto

lemma paired_suffix:
  "paired ids (xs @ ys) \<Longrightarrow> ys = [] \<or> m_role (hd ys) = Assistant \<Longrightarrow> paired ids' ys"
proof (induction ids xs rule: paired.induct)
  case (1 ids)
  then show ?case by (cases ys) auto
qed (auto split: if_splits)

lemma paired_filter:
  "(\<And>m. m \<in> set ms \<Longrightarrow> \<not> P m \<Longrightarrow> m_role m = System) \<Longrightarrow> paired ids (filter P ms) \<longleftrightarrow> paired ids ms"
  by (induction ids ms rule: paired.induct) auto

lemma turns_start: "list_all is_turn ts \<Longrightarrow> concat ts = [] \<or> m_role (hd (concat ts)) = Assistant"
  by (cases ts) (auto simp: is_turn_def)

lemma paired_drop_turns:
  assumes "paired ids (h @ concat ts)" and "\<forall>m\<in>set h. m_role m \<noteq> Assistant" and "list_all is_turn ts"
  shows "paired ids (h @ notice_part d @ concat (drop k ts))"
proof -
  have "paired ids h" "paired ids (concat ts)" using assms(1) paired_no_assistant [OF assms(2)] by simp_all
  moreover have "concat ts = concat (take k ts) @ concat (drop k ts)"
    by (metis append_take_drop_id concat_append)
  moreover have "list_all is_turn (drop k ts)" using assms(3) by (auto simp: list_all_iff dest: in_set_dropD)
  ultimately have "paired ids h" "paired ids (concat (drop k ts))"
    using paired_suffix [of ids "concat (take k ts)" "concat (drop k ts)" ids] turns_start by auto
  moreover have "paired ids (notice_part d @ zs) = paired ids zs" for zs
    by (simp add: notice_part_def dropped_notice_message_def plain_message_def)
  ultimately show ?thesis using paired_no_assistant [OF assms(2)] by simp
qed

lemma segments_head: "\<forall>m\<in>set (fst (segments ms)). m_role m \<noteq> Assistant"
  by (auto simp: segments_def dest: split_seed_head)

lemma paired_strip: "paired ids (fst (strip_notices ms)) = paired ids ms"
  unfolding strip_notices_fst by (rule paired_filter) (auto dest: message_notice_System)

lemma server_compactor_shape:
  assumes "server_compactor ms b = Some (ms', n)"
  obtains k where "0 < k" "k < length (snd (segments ms))"
    "ms' = fst (segments ms) @ notice_part (snd (strip_notices ms) + of_nat k) @ concat (drop k (snd (segments ms)))"
    "n = length (concat (take k (snd (segments ms))))" "context_bytes ms' \<le> b"
    "\<forall>j. 0 < j \<and> j < k \<longrightarrow> b < context_bytes
       (fst (segments ms) @ notice_part (snd (strip_notices ms) + of_nat j) @ concat (drop j (snd (segments ms))))"
proof -
  obtain k where k: "0 < k" "k < length (snd (segments ms))"
    "ms' = candidate (fst (segments ms)) (butlast (snd (segments ms))) [last (snd (segments ms))]
       (snd (strip_notices ms)) k"
    "n = length (concat (take k (snd (segments ms))))" "context_bytes ms' \<le> b"
    "\<forall>j. 0 < j \<and> j < k \<longrightarrow> b < context_bytes (candidate (fst (segments ms)) (butlast (snd (segments ms)))
       [last (snd (segments ms))] (snd (strip_notices ms)) j)"
    by (rule server_compactor_Some [OF assms])
  with candidate_turns [of _ "snd (segments ms)"] show thesis by (intro that [of k]) auto
qed

lemma tool_messages_simps:
  "tool_messages (xs @ ys) = tool_messages xs @ tool_messages ys" "tool_messages (notice_part d) = []"
  by (simp_all add: tool_messages_def notice_part_def dropped_notice_message_def plain_message_def)

interpretation server_port: compaction_contract server_compactor
proof unfold_locales
  fix ms b ms' n
  assume run: "server_compactor ms b = Some (ms', n)"
  obtain k where k: "k < length (snd (segments ms))"
    "ms' = fst (segments ms) @ notice_part (snd (strip_notices ms) + of_nat k) @ concat (drop k (snd (segments ms)))"
    "n = length (concat (take k (snd (segments ms))))" "context_bytes ms' \<le> b"
    by (rule server_compactor_shape [OF run])
  have all: "fst (strip_notices ms) = fst (segments ms) @ concat (take k (snd (segments ms))) @ concat (drop k (snd (segments ms)))"
    using segments_concat [of ms] by (metis append_take_drop_id concat_append)
  show "context_bytes ms' \<le> b" by (rule k(4))
  have "length (fst (strip_notices ms)) \<le> length ms" by (simp add: strip_notices_fst)
  then show "n \<le> length ms" by (simp add: k(3) all)
  show "paired [] ms'" if "paired [] ms"
    using that paired_drop_turns [OF _ segments_head segments_turns] paired_strip segments_concat
    unfolding k(2) by metis
  have "set (tool_messages (fst (strip_notices ms))) \<subseteq> set (tool_messages ms)"
    by (auto simp: strip_notices_fst tool_messages_def)
  then show "set (tool_messages ms') \<subseteq> set (tool_messages ms)"
    by (simp add: all k(2) tool_messages_simps)
qed

subsection \<open>Properties of the compactor\<close>

text \<open>
  Claim C34. When the compactor answers, the history it returns fits the byte budget and consists of
  the seed, at most one notice and all turns but the oldest \<open>k\<close>; the newest turn is among them, the
  reported number is that of the messages of the dropped turns, and dropping fewer turns would not
  have fitted.
\<close>

theorem compactor_evicts_fewest_turns:
  assumes "server_compactor ms b = Some (ms', n)"
  shows "\<exists>k. 0 < k \<and> k < length (snd (segments ms)) \<and>
    fst (segments ms) @ concat (snd (segments ms)) = fst (strip_notices ms) \<and>
    ms' = fst (segments ms) @ notice_part (snd (strip_notices ms) + of_nat k) @
      concat (drop k (snd (segments ms))) \<and>
    last (snd (segments ms)) \<in> set (drop k (snd (segments ms))) \<and>
    n = length (concat (take k (snd (segments ms)))) \<and> context_bytes ms' \<le> b \<and>
    (\<forall>j. 0 < j \<and> j < k \<longrightarrow> b < context_bytes (fst (segments ms) @
       notice_part (snd (strip_notices ms) + of_nat j) @ concat (drop j (snd (segments ms)))))"
proof -
  obtain k where k: "0 < k" "k < length (snd (segments ms))"
    "ms' = fst (segments ms) @ notice_part (snd (strip_notices ms) + of_nat k) @ concat (drop k (snd (segments ms)))"
    "n = length (concat (take k (snd (segments ms))))" "context_bytes ms' \<le> b"
    "\<forall>j. 0 < j \<and> j < k \<longrightarrow> b < context_bytes
       (fst (segments ms) @ notice_part (snd (strip_notices ms) + of_nat j) @ concat (drop j (snd (segments ms))))"
    by (rule server_compactor_shape [OF assms])
  then have "drop k (snd (segments ms)) \<noteq> []" "last (drop k (snd (segments ms))) = last (snd (segments ms))"
    by simp_all
  then have "last (snd (segments ms)) \<in> set (drop k (snd (segments ms)))" by (metis last_in_set)
  with k segments_concat show ?thesis by (intro exI [of _ k]) simp
qed

definition long_history :: "chat_message list" where
  "long_history = [plain_message System ''s'', plain_message User ''u'',
     plain_message Assistant ''aaaaaaaaaaaaaaaaaaaaaaaaaaaaaaaaaaaaaaaaaaaaaaaaaaaaaaaaaaaaaaaaaaaaaaaaaaaaaaaa'',
     plain_message Assistant ''b'']"

definition short_history :: "chat_message list" where
  "short_history = [plain_message System ''s'', plain_message User ''u'', dropped_notice_message 1,
     plain_message Assistant ''b'']"

lemma not_a_notice: "parse_notice ''s'' = None"
proof -
  have "\<not> starts_with ''true'' ''s''" "\<not> starts_with ''false'' ''s''" "\<not> starts_with ''null'' ''s''"
    by (simp_all add: starts_with_def)
  then have "json_parse ''s'' = None"
    by (simp add: json_parse_def numeral_eq_Suc skip_ws_stop is_json_ws_def Let_def parse_number_def starts_char_def
        digits_of_def is_digit_def)
  then show ?thesis by (simp add: parse_notice_def)
qed

lemma long_history_strip: "strip_notices long_history = (long_history, 0)"
  by (simp add: long_history_def message_notice_def plain_message_def not_a_notice Let_def)

lemma long_history_segments: "segments long_history =
    (take 2 long_history, [[long_history ! 2], [long_history ! 3]])"
  unfolding segments_def long_history_strip
  by (simp add: long_history_def split_leading_seed_def split_turns_def plain_message_def)

lemma long_history_compacted: "\<exists>ms n. server_compactor long_history 200 = Some (ms, n)"
proof -
  have seed: "split_leading_seed long_history = (take 2 long_history, drop 2 long_history)"
    by (simp add: split_leading_seed_def long_history_def plain_message_def)
  have turns: "split_turns (drop 2 long_history) = [[long_history ! 2], [long_history ! 3]]"
    by (simp add: split_turns_def long_history_def plain_message_def)
  have cand: "candidate (take 2 long_history) [[long_history ! 2]] [[long_history ! 3]] 0 1 = short_history"
    by (simp add: candidate_def long_history_def short_history_def Let_def)
  have one: "char_of (49 :: nat) = CHR ''1''"
    using char_of_char [of "CHR ''1''", where ?'a = nat] by simp
  have printed: "stringify_value (notice_json 1) = CHR 0x7B # json_quote ''kind'' @ '':'' @ json_quote notice_kind @
      '','' @ json_quote ''droppedTurns'' @ '':1'' @ [CHR 0x7D]"
    using number_text_int [of 1] by (simp add: stringify_value_def notice_json_def int_text_def nat_digits.simps one)
  have "context_bytes short_history \<le> 200"
    unfolding short_history_def dropped_notice_message_def printed
    by (simp add: context_bytes_def plain_message_def message_json_def json_quote_def dquote_def
        json_escape_def notice_kind_def Let_def)
  then show ?thesis
    using cand by (auto simp: server_compactor_def long_history_strip seed turns fit_under_bytes_def Let_def)
qed

theorem compactor_evicts_fewest_turns_witness:
  "\<exists>ms n. server_compactor long_history 200 = Some (ms, n) \<and> context_bytes ms \<le> 200"
proof -
  obtain ms n where run: "server_compactor long_history 200 = Some (ms, n)"
    using long_history_compacted by blast
  from compactor_evicts_fewest_turns [OF run] run show ?thesis by blast
qed

text \<open>
  Over repeated passes the history carries one notice only, and it states the number of
  turns dropped over all passes: stripping the notices of the result gives the kept history and the
  earlier total plus the turns dropped now.
\<close>

theorem compactor_notice_is_cumulative:
  assumes "server_compactor ms b = Some (ms', n)" and "snd (strip_notices ms) = of_nat p"
  shows "\<exists>k. 0 < k \<and> k < length (snd (segments ms)) \<and>
    strip_notices ms' = (fst (segments ms) @ concat (drop k (snd (segments ms))), of_nat (p + k)) \<and>
    length (filter (\<lambda>m. message_notice m \<noteq> None) ms') = 1"
proof -
  obtain k where k: "0 < k" "k < length (snd (segments ms))"
    "ms' = fst (segments ms) @ notice_part (snd (strip_notices ms) + of_nat k) @ concat (drop k (snd (segments ms)))"
    by (rule server_compactor_shape [OF assms(1)])
  let ?notice = "dropped_notice_message (of_nat (p + k))"
  have part: "notice_part (snd (strip_notices ms) + of_nat k) = [?notice]"
    using k(1) by (simp add: notice_part_def assms(2))
  have own: "message_notice ?notice = Some (of_nat (p + k))"
    using parse_own_notice [of "int (p + k)"] by simp
  have all: "fst (strip_notices ms) = fst (segments ms) @ concat (take k (snd (segments ms))) @ concat (drop k (snd (segments ms)))"
    using segments_concat [of ms] by (metis append_take_drop_id concat_append)
  have "\<forall>m\<in>set (fst (strip_notices ms)). message_notice m = None" by (simp add: strip_notices_fst)
  then have none: "\<forall>m\<in>set (fst (segments ms)) \<union> set (concat (drop k (snd (segments ms)))). message_notice m = None"
    unfolding all by (simp add: ball_Un)
  have keep: "filter (\<lambda>m. message_notice m = None) xs = xs" "filter (\<lambda>m. message_notice m \<noteq> None) xs = []"
    "(\<Sum>m\<leftarrow>xs. case message_notice m of None \<Rightarrow> 0 | Some n \<Rightarrow> n) = (0 :: rat)"
    if "\<forall>m\<in>set xs. message_notice m = None" for xs
    using that by (induction xs) auto
  let ?h = "fst (segments ms)" and ?t = "concat (drop k (snd (segments ms)))"
  have h: "\<forall>m\<in>set ?h. message_notice m = None" and t: "\<forall>m\<in>set ?t. message_notice m = None"
    using none by blast+
  have ms': "ms' = ?h @ ?notice # ?t" using k(3) part by simp
  have "fst (strip_notices ms') = ?h @ ?t" "snd (strip_notices ms') = of_nat (p + k)"
    unfolding strip_notices_fst strip_notices_snd ms'
    by (simp_all only: filter_append filter.simps map_append list.map sum_list_append sum_list.Cons own keep [OF h] keep [OF t])
       simp_all
  moreover have "length (filter (\<lambda>m. message_notice m \<noteq> None) ms') = 1"
    unfolding ms' filter_append keep(2) [OF h] using keep(2) [OF t] own by simp
  ultimately show ?thesis using k by (intro exI [of _ k]) (simp add: prod_eq_iff)
qed

theorem compactor_notice_is_cumulative_witness:
  "\<exists>ms n k. server_compactor long_history 200 = Some (ms, n) \<and> snd (strip_notices ms) = of_nat (0 + k) \<and> 0 < k"
proof -
  obtain ms n where run: "server_compactor long_history 200 = Some (ms, n)"
    using long_history_compacted by blast
  have "snd (strip_notices long_history) = of_nat 0" by (simp add: long_history_strip)
  from compactor_notice_is_cumulative [OF run this] run show ?thesis by (metis snd_conv)
qed

text \<open>
  With the server's compactor as its port, compaction in the harness never separates a
  tool result from the assistant message that called the tool, and adds no tool message.
\<close>

theorem compaction_keeps_tool_results_paired:
  assumes "compaction_port env = Some (\<lambda>n. server_port.port_result)" and "paired [] (messages ctx)"
  shows "paired [] (messages (snd (try_compact env ctx)))"
  using assms by (rule server_port.keeps_pairing)

definition compacting_env :: harness_env where
  "compacting_env = calm_env\<lparr> compaction_port := Some (\<lambda>n. server_port.port_result) \<rparr>"

theorem compaction_keeps_tool_results_paired_witness:
  "paired [] (messages (snd (try_compact compacting_env (calm_ctx\<lparr> messages := long_history \<rparr>))))"
  by (rule compaction_keeps_tool_results_paired)
     (simp_all add: compacting_env_def long_history_def plain_message_def)

text \<open>
  With the server's compactor as its port, the harness adopts what the compactor returns
  as it is, and its \<open>context:compacted\<close> event reports the exact number of evicted messages.
\<close>

theorem compaction_event_reports_evictions:
  assumes "compaction_port env = Some (\<lambda>n. server_port.port_result)"
    and "server_compactor (messages ctx) (maxContextBytes (limits ctx)) = Some (ms', n)"
  shows "try_compact env ctx = (True, ctx_emit env
    (ContextCompacted (int n) (context_bytes (messages ctx)) (context_bytes ms')) (ctx\<lparr> messages := ms' \<rparr>))"
  using assms by (rule server_port.adopts)

theorem compaction_event_reports_evictions_witness:
  "fst (try_compact compacting_env
     (calm_ctx\<lparr> messages := long_history, limits := default_limits\<lparr> maxContextBytes := 200 \<rparr> \<rparr>))"
proof -
  obtain ms n where "server_compactor long_history 200 = Some (ms, n)"
    using long_history_compacted by blast
  then show ?thesis
    using compaction_event_reports_evictions [of compacting_env
        "calm_ctx\<lparr> messages := long_history, limits := default_limits\<lparr> maxContextBytes := 200 \<rparr> \<rparr>" ms n]
    by (simp add: compacting_env_def)
qed

end
