(* ===== verification/Editor_Layout.thy ===== *)
theory Editor_Layout
  imports Json_Text
begin

text \<open>
  The editor's tab and split layout (\<open>packages/keiko-contracts/src/editor-layout.ts\<close>): the layout
  tree, the panes it shows, and the pure reducer that is the only authority over both. Numbers of an
  action are \<open>js_number\<close>s, \<open>None\<close> standing for NaN and the infinities; the numbers of a state are
  rational. A pane record is an object without a prototype, so its keys are just its own keys.
  Reading persisted layouts is in the theory of their persistence.
\<close>

subsection \<open>State\<close>

datatype split_direction = Row | Column

datatype drop_zone = ZoneLeft | ZoneRight | ZoneTop | ZoneBottom | ZoneCenter

datatype layout_node =
    PaneNode string
  | SplitNode string split_direction rat layout_node layout_node

record pane_state =
  pane_id :: string
  open_files :: "string list"
  active_file :: string
  tab_order :: "string list"

record layout_state =
  layout_root :: string
  active_pane :: string
  layout_tree :: layout_node
  layout_panes :: "pane_state obj"
  sidebar_width :: rat
  sidebar_collapsed :: bool
  outline_visible :: bool

type_synonym js_number = "rat option"

record drag_intent =
  drag_file :: string
  drag_from :: string
  drag_to :: string
  drag_zone :: drop_zone
  drag_index :: "js_number option"

datatype layout_action =
    OpenFile string string
  | SelectFile string string
  | CloseTab string string
  | ReorderTab string string js_number
  | ClosePane string
  | MoveTab string string string "js_number option"
  | DropTab drag_intent
  | SplitPane string split_direction "string option"
  | SetActivePane string
  | ResizeSplit string js_number
  | SetSidebar "js_number option" "bool option"
  | SetOutlinePanel bool
  | ReplaceRoot string "js_number option"
  | RenameFile string string
  | RemoveFile string

subsection \<open>Numbers\<close>

definition min_split_ratio :: rat where "min_split_ratio = 15"

definition max_split_ratio :: rat where "max_split_ratio = 85"

definition clamp_number :: "js_number \<Rightarrow> rat \<Rightarrow> rat \<Rightarrow> rat" where
  "clamp_number v lo hi = (case v of None \<Rightarrow> lo | Some r \<Rightarrow> min hi (max lo r))"

definition clamp_sidebar_width :: "js_number \<Rightarrow> rat" where
  "clamp_sidebar_width w = clamp_number w 0 4096"

definition js_round :: "rat \<Rightarrow> rat" where
  "js_round r = of_int \<lfloor>r + 1 / 2\<rfloor>"

definition clamp_ratio :: "js_number \<Rightarrow> rat" where
  "clamp_ratio v = clamp_number (map_option js_round v) min_split_ratio max_split_ratio"

subsection \<open>Panes\<close>

text \<open>\<open>xs[i]\<close>, undefined out of range; \<open>indexOf\<close>; \<open>xs[0] ?? ""\<close>.\<close>

definition elem_at :: "'a list \<Rightarrow> int \<Rightarrow> 'a option" where
  "elem_at xs i = (if 0 \<le> i \<and> nat i < length xs then Some (xs ! nat i) else None)"

definition index_of :: "'a list \<Rightarrow> 'a \<Rightarrow> int" where
  "index_of xs x = (if x \<in> set xs then int (length (takeWhile (\<lambda>y. y \<noteq> x) xs)) else - 1)"

definition first_file :: "string list \<Rightarrow> string" where
  "first_file xs = (case xs of [] \<Rightarrow> '''' | x # r \<Rightarrow> x)"

definition ordered_files :: "string \<Rightarrow> string list \<Rightarrow> string list \<Rightarrow> string list" where
  "ordered_files active files tabs = add_new (add_all (add_all [] tabs) files) active"

definition create_pane :: "string \<Rightarrow> string \<Rightarrow> string list \<Rightarrow> pane_state" where
  "create_pane i active files =
     (let tabs = ordered_files active files []
      in \<lparr> pane_id = i, open_files = tabs,
           active_file = (if active \<noteq> '''' then active else first_file tabs), tab_order = tabs \<rparr>)"

definition with_pane_files :: "pane_state \<Rightarrow> string list \<Rightarrow> string \<Rightarrow> pane_state" where
  "with_pane_files p files active =
     (let tabs = ordered_files active files []
      in p\<lparr> open_files := tabs, tab_order := tabs,
            active_file := (if active \<noteq> '''' then active else first_file tabs) \<rparr>)"

definition without_file :: "string list \<Rightarrow> string \<Rightarrow> string list" where
  "without_file files f = filter (\<lambda>e. e \<noteq> f) files"

definition insert_file :: "string list \<Rightarrow> string \<Rightarrow> js_number option \<Rightarrow> string list" where
  "insert_file files f index =
     (let rest = without_file files f;
          n = (case index of None \<Rightarrow> length rest
               | Some v \<Rightarrow> nat \<lfloor>clamp_number v 0 (of_nat (length rest))\<rfloor>)
      in take n rest @ f # drop n rest)"

subsection \<open>The tree\<close>

fun pane_ids_from_tree :: "layout_node \<Rightarrow> string list" where
  "pane_ids_from_tree (PaneNode i) = [i]"
| "pane_ids_from_tree (SplitNode s d r a b) = pane_ids_from_tree a @ pane_ids_from_tree b"

fun split_ids :: "layout_node \<Rightarrow> string list" where
  "split_ids (PaneNode i) = []"
| "split_ids (SplitNode s d r a b) = s # split_ids a @ split_ids b"

fun replace_pane_node :: "string \<Rightarrow> layout_node \<Rightarrow> layout_node \<Rightarrow> layout_node" where
  "replace_pane_node i new (PaneNode j) = (if j = i then new else PaneNode j)"
| "replace_pane_node i new (SplitNode s d r a b) =
     SplitNode s d r (replace_pane_node i new a) (replace_pane_node i new b)"

fun remove_pane_node :: "string \<Rightarrow> layout_node \<Rightarrow> layout_node option" where
  "remove_pane_node i (PaneNode j) = (if j = i then None else Some (PaneNode j))"
| "remove_pane_node i (SplitNode s d r a b) =
     (case remove_pane_node i a of
        None \<Rightarrow> remove_pane_node i b
      | Some a' \<Rightarrow>
          (case remove_pane_node i b of
             None \<Rightarrow> Some a'
           | Some b' \<Rightarrow> Some (SplitNode s d r a' b')))"

fun resize_split_node :: "string \<Rightarrow> js_number \<Rightarrow> layout_node \<Rightarrow> layout_node" where
  "resize_split_node i v (PaneNode j) = PaneNode j"
| "resize_split_node i v (SplitNode s d r a b) =
     SplitNode s d (if s = i then clamp_ratio v else r) (resize_split_node i v a) (resize_split_node i v b)"

text \<open>The search for the next free name: it ends because the names in use are finitely many.\<close>

lemma nat_digits_inj: "nat_digits m = nat_digits n \<Longrightarrow> m = n"
  using nat_digits_value [of m] nat_digits_value [of n] by metis

lemma finite_used: "finite {k. n \<le> k \<and> p @ nat_digits k \<in> set used}"
proof -
  have "inj (\<lambda>k. p @ nat_digits k)" by (rule injI) (simp add: nat_digits_inj)
  then have "finite {k. p @ nat_digits k \<in> set used}"
    using finite_vimageI [OF finite_set, of "\<lambda>k. p @ nat_digits k" used] by (simp add: vimage_def)
  then show ?thesis by (rule finite_subset [rotated]) auto
qed

function free_index :: "string \<Rightarrow> string list \<Rightarrow> nat \<Rightarrow> nat" where
  "free_index p used n = (if p @ nat_digits n \<in> set used then free_index p used (n + 1) else n)"
  by auto

termination free_index
proof (relation "measure (\<lambda>(p, used, n). card {k. n \<le> k \<and> p @ nat_digits k \<in> set used})")
  fix p n and used :: "string list"
  assume used: "p @ nat_digits n \<in> set used"
  have "n \<in> {k. n \<le> k \<and> p @ nat_digits k \<in> set used}" using used by simp
  moreover have "n \<notin> {k. n + 1 \<le> k \<and> p @ nat_digits k \<in> set used}" by simp
  moreover have "{k. n + 1 \<le> k \<and> p @ nat_digits k \<in> set used} \<subseteq> {k. n \<le> k \<and> p @ nat_digits k \<in> set used}"
    by auto
  ultimately have "{k. n + 1 \<le> k \<and> p @ nat_digits k \<in> set used} \<subset> {k. n \<le> k \<and> p @ nat_digits k \<in> set used}"
    by blast
  then show "((p, used, n + 1), (p, used, n)) \<in> measure (\<lambda>(p, used, n).
      card {k. n \<le> k \<and> p @ nat_digits k \<in> set used})"
    by (simp add: psubset_card_mono finite_used del: One_nat_def)
qed simp

declare free_index.simps [simp del]

lemma free_index_free: "p @ nat_digits (free_index p used n) \<notin> set used"
  by (induction p used n rule: free_index.induct) (subst free_index.simps, auto)

definition next_pane_id :: "layout_state \<Rightarrow> string" where
  "next_pane_id l = ''pane-'' @ nat_digits
     (free_index ''pane-'' (obj_keys (layout_panes l)) (length (obj_keys (layout_panes l)) + 1))"

definition next_split_id :: "layout_node \<Rightarrow> string" where
  "next_split_id t = ''split-'' @ nat_digits
     (free_index ''split-'' (split_ids t) (length (remdups (split_ids t)) + 1))"

subsection \<open>Operations on a layout\<close>

definition get_pane :: "layout_state \<Rightarrow> string \<Rightarrow> pane_state option" where
  "get_pane l i = obj_get (layout_panes l) i"

definition editor_layout_pane_ids :: "layout_state \<Rightarrow> string list" where
  "editor_layout_pane_ids l = pane_ids_from_tree (layout_tree l)"

definition editor_layout_panes :: "layout_state \<Rightarrow> pane_state list" where
  "editor_layout_panes l = List.map_filter (get_pane l) (editor_layout_pane_ids l)"

definition active_editor_pane :: "layout_state \<Rightarrow> pane_state" where
  "active_editor_pane l = (case get_pane l (active_pane l) of
     Some p \<Rightarrow> p
   | None \<Rightarrow> (case editor_layout_panes l of p # ps \<Rightarrow> p | [] \<Rightarrow> create_pane ''pane-1'' '''' []))"

definition update_pane :: "layout_state \<Rightarrow> string \<Rightarrow> (pane_state \<Rightarrow> pane_state) \<Rightarrow> layout_state" where
  "update_pane l i f = (case get_pane l i of
     None \<Rightarrow> l
   | Some p \<Rightarrow> l\<lparr> layout_panes := obj_put i (f p) (layout_panes l) \<rparr>)"

definition remove_pane :: "layout_state \<Rightarrow> string \<Rightarrow> layout_state" where
  "remove_pane l i =
     (if get_pane l i = None \<or> length (editor_layout_pane_ids l) \<le> 1 then l
      else case remove_pane_node i (layout_tree l) of
        None \<Rightarrow> l
      | Some t \<Rightarrow> l\<lparr> layout_tree := t,
          layout_panes := filter (\<lambda>kv. fst kv \<noteq> i) (layout_panes l),
          active_pane := (if active_pane l = i then hd (pane_ids_from_tree t) else active_pane l) \<rparr>)"

definition close_tab :: "layout_state \<Rightarrow> string \<Rightarrow> string \<Rightarrow> layout_state" where
  "close_tab l i f = (case get_pane l i of
     None \<Rightarrow> l
   | Some p \<Rightarrow>
       if f \<notin> set (open_files p) then l
       else
         let closing = index_of (tab_order p) f;
             next_files = without_file (open_files p) f
         in if next_files = [] then
              (if length (editor_layout_pane_ids l) > 1 then remove_pane l i
               else update_pane l i (\<lambda>q. with_pane_files q [] ''''))
            else
              let next_active =
                (if active_file p = f then
                   (case elem_at next_files closing of
                      Some g \<Rightarrow> g
                    | None \<Rightarrow> (case elem_at next_files (closing - 1) of
                        Some g \<Rightarrow> g | None \<Rightarrow> first_file next_files))
                 else active_file p)
              in update_pane l i (\<lambda>q. with_pane_files q next_files next_active))"

definition insert_split_pane ::
  "layout_state \<Rightarrow> string \<Rightarrow> split_direction \<Rightarrow> string \<Rightarrow> bool \<Rightarrow> layout_state" where
  "insert_split_pane l target d f before =
     (if get_pane l target = None \<or> f = '''' then l
      else
        let new = next_pane_id l;
            a = PaneNode (if before then new else target);
            b = PaneNode (if before then target else new)
        in l\<lparr> active_pane := new,
              layout_tree := replace_pane_node target
                (SplitNode (next_split_id (layout_tree l)) d 50 a b) (layout_tree l),
              layout_panes := obj_put new (create_pane new f [f]) (layout_panes l) \<rparr>)"

definition split_pane ::
  "layout_state \<Rightarrow> string \<Rightarrow> split_direction \<Rightarrow> string option \<Rightarrow> bool \<Rightarrow> layout_state" where
  "split_pane l i d file before = (case get_pane l i of
     None \<Rightarrow> l
   | Some p \<Rightarrow>
       let f = (case file of Some g \<Rightarrow> g | None \<Rightarrow> active_file p)
       in if f = '''' \<or> f \<notin> set (open_files p) then l
          else if without_file (open_files p) f = [] then l
          else insert_split_pane (close_tab l i f) i d f before)"

definition move_tab ::
  "layout_state \<Rightarrow> string \<Rightarrow> string \<Rightarrow> string \<Rightarrow> js_number option \<Rightarrow> layout_state" where
  "move_tab l i j f index =
     (if i = j then
        (case get_pane l j of
           None \<Rightarrow> l
         | Some p \<Rightarrow>
             if f \<notin> set (open_files p) then l
             else update_pane l j (\<lambda>q. with_pane_files q (insert_file (tab_order q) f index) f))
      else case get_pane l i of
        None \<Rightarrow> l
      | Some p \<Rightarrow>
          if get_pane l j = None \<or> f \<notin> set (open_files p) then l
          else
            let l1 = close_tab l i f
            in if get_pane l1 j = None then l1
               else (update_pane l1 j (\<lambda>q. with_pane_files q (insert_file (tab_order q) f index) f))
                      \<lparr> active_pane := j \<rparr>)"

text \<open>Renaming on disk: \<open>dedupeFiles\<close> is the loop \<open>add_all\<close>.\<close>

definition rename_path :: "string \<Rightarrow> string \<Rightarrow> string \<Rightarrow> string" where
  "rename_path old new f =
     (if f = old then new
      else if starts_with (old @ ''/'') f then new @ drop (length old) f else f)"

definition rename_file_in_pane :: "string \<Rightarrow> string \<Rightarrow> pane_state \<Rightarrow> pane_state" where
  "rename_file_in_pane old new p =
     (let files = add_all [] (map (rename_path old new) (open_files p));
          tabs = add_all [] (map (rename_path old new) (tab_order p));
          active = rename_path old new (active_file p)
      in if files = open_files p \<and> active = active_file p then p
         else p\<lparr> open_files := files, tab_order := tabs,
                 active_file := (if active \<noteq> '''' then active
                   else case tabs of t # ts \<Rightarrow> t | [] \<Rightarrow> first_file files) \<rparr>)"

definition rename_file_everywhere :: "layout_state \<Rightarrow> string \<Rightarrow> string \<Rightarrow> layout_state" where
  "rename_file_everywhere l old new =
     (if old = '''' \<or> new = '''' \<or> old = new then l
      else l\<lparr> layout_panes := map (\<lambda>kv. (fst kv, rename_file_in_pane old new (snd kv))) (layout_panes l) \<rparr>)"

definition remove_targets :: "layout_state \<Rightarrow> string \<Rightarrow> (string \<times> string) list" where
  "remove_targets l f = concat (map (\<lambda>p. map (\<lambda>g. (pane_id p, g))
     (filter (\<lambda>g. g = f \<or> starts_with (f @ ''/'') g) (open_files p))) (editor_layout_panes l))"

definition remove_file_everywhere :: "layout_state \<Rightarrow> string \<Rightarrow> layout_state" where
  "remove_file_everywhere l f =
     (if f = '''' then l
      else foldl (\<lambda>acc t. close_tab acc (fst t) (snd t)) l (remove_targets l f))"

subsection \<open>The reducer\<close>

definition reduce_drop_tab :: "layout_state \<Rightarrow> drag_intent \<Rightarrow> layout_state" where
  "reduce_drop_tab l x =
     (if drag_zone x = ZoneCenter
      then move_tab l (drag_from x) (drag_to x) (drag_file x) (drag_index x)
      else case get_pane l (drag_from x) of
        None \<Rightarrow> l
      | Some p \<Rightarrow>
          if drag_file x \<notin> set (open_files p) then l
          else
            let d = (if drag_zone x = ZoneTop \<or> drag_zone x = ZoneBottom then Column else Row);
                before = (drag_zone x = ZoneTop \<or> drag_zone x = ZoneLeft)
            in if drag_from x = drag_to x
               then split_pane l (drag_to x) d (Some (drag_file x)) before
               else insert_split_pane (close_tab l (drag_from x) (drag_file x))
                      (drag_to x) d (drag_file x) before)"

definition replace_root :: "layout_state \<Rightarrow> string \<Rightarrow> js_number option \<Rightarrow> layout_state" where
  "replace_root l new_root width =
     (let p = create_pane ''pane-1'' '''' []
      in \<lparr> layout_root = new_root, active_pane = pane_id p, layout_tree = PaneNode (pane_id p),
           layout_panes = [(pane_id p, p)],
           sidebar_width = (case width of None \<Rightarrow> sidebar_width l | Some w \<Rightarrow> clamp_sidebar_width w),
           sidebar_collapsed = False, outline_visible = outline_visible l \<rparr>)"

fun editor_layout_reducer :: "layout_action \<Rightarrow> layout_state \<Rightarrow> layout_state" where
  "editor_layout_reducer (OpenFile i f) l =
     update_pane l i (\<lambda>p. with_pane_files p (ordered_files f (open_files p) []) f)"
| "editor_layout_reducer (SelectFile i f) l =
     update_pane (l\<lparr> active_pane := i \<rparr>) i
       (\<lambda>p. if f \<in> set (open_files p) then with_pane_files p (open_files p) f else p)"
| "editor_layout_reducer (CloseTab i f) l = close_tab l i f"
| "editor_layout_reducer (ReorderTab i f n) l =
     update_pane l i (\<lambda>p. if f \<in> set (open_files p)
       then with_pane_files p (insert_file (tab_order p) f (Some n)) f else p)"
| "editor_layout_reducer (ClosePane i) l = remove_pane l i"
| "editor_layout_reducer (MoveTab i j f n) l = move_tab l i j f n"
| "editor_layout_reducer (DropTab x) l = reduce_drop_tab l x"
| "editor_layout_reducer (SplitPane i d f) l = split_pane l i d f False"
| "editor_layout_reducer (SetActivePane i) l =
     (if get_pane l i = None then l else l\<lparr> active_pane := i \<rparr>)"
| "editor_layout_reducer (ResizeSplit i r) l =
     l\<lparr> layout_tree := resize_split_node i r (layout_tree l) \<rparr>"
| "editor_layout_reducer (SetSidebar w c) l =
     l\<lparr> sidebar_width := (case w of None \<Rightarrow> sidebar_width l | Some v \<Rightarrow> clamp_sidebar_width v),
        sidebar_collapsed := (case c of None \<Rightarrow> sidebar_collapsed l | Some b \<Rightarrow> b) \<rparr>"
| "editor_layout_reducer (SetOutlinePanel b) l = l\<lparr> outline_visible := b \<rparr>"
| "editor_layout_reducer (ReplaceRoot r w) l = replace_root l r w"
| "editor_layout_reducer (RenameFile old new) l = rename_file_everywhere l old new"
| "editor_layout_reducer (RemoveFile f) l = remove_file_everywhere l f"

definition editor_layout_open_files :: "layout_state \<Rightarrow> string list" where
  "editor_layout_open_files l = add_all [] (concat (map open_files (editor_layout_panes l)))"

end
