(* ===== verification/Layout_Invariant.thy ===== *)
theory Layout_Invariant
  imports Editor_Layout "HOL-Library.Multiset"
begin

text \<open>
  The structural invariant of an editor layout and its preservation by every action of the reducer:
  the tree and the pane record show the same panes, ids are unique, a pane's tab order is lossless,
  an empty pane stands alone, and split ratios stay in their range.
\<close>

subsection \<open>Invariant\<close>

definition pane_ok :: "pane_state \<Rightarrow> bool" where
  "pane_ok p \<longleftrightarrow> tab_order p = open_files p \<and> distinct (open_files p) \<and> '''' \<notin> set (open_files p) \<and>
     (if open_files p = [] then active_file p = '''' else active_file p \<in> set (open_files p))"

fun ratios :: "layout_node \<Rightarrow> rat list" where
  "ratios (PaneNode i) = []"
| "ratios (SplitNode s d r a b) = r # ratios a @ ratios b"

definition ratio_ok :: "rat \<Rightarrow> bool" where
  "ratio_ok r \<longleftrightarrow> min_split_ratio \<le> r \<and> r \<le> max_split_ratio \<and> of_int \<lfloor>r\<rfloor> = r"

definition panes_ok :: "nat \<Rightarrow> pane_state obj \<Rightarrow> bool" where
  "panes_ok n ps \<longleftrightarrow> distinct (obj_keys ps) \<and>
     list_all (\<lambda>kv. pane_id (snd kv) = fst kv \<and> pane_ok (snd kv) \<and> (1 < n \<longrightarrow> open_files (snd kv) \<noteq> [])) ps"

definition tree_ok :: "layout_node \<Rightarrow> bool" where
  "tree_ok t \<longleftrightarrow> distinct (pane_ids_from_tree t) \<and> distinct (split_ids t) \<and> list_all ratio_ok (ratios t)"

definition layout_ok :: "layout_state \<Rightarrow> bool" where
  "layout_ok l \<longleftrightarrow> tree_ok (layout_tree l) \<and>
     panes_ok (length (editor_layout_pane_ids l)) (layout_panes l) \<and>
     set (obj_keys (layout_panes l)) = set (editor_layout_pane_ids l)"

text \<open>The pane record read by lookup.\<close>

lemma panes_ok_iff:
  "panes_ok n ps \<longleftrightarrow> distinct (obj_keys ps) \<and>
     (\<forall>i p. obj_get ps i = Some p \<longrightarrow> pane_id p = i \<and> pane_ok p \<and> (1 < n \<longrightarrow> open_files p \<noteq> []))"
proof -
  have "(\<forall>kv\<in>set ps. P (fst kv) (snd kv)) \<longleftrightarrow> (\<forall>i p. obj_get ps i = Some p \<longrightarrow> P i p)"
    if "distinct (obj_keys ps)" for P
    using that obj_get_Some_in [of ps] obj_get_in_distinct [of ps] by (metis prod.collapse fst_conv snd_conv)
  from this [of "\<lambda>i p. pane_id p = i \<and> pane_ok p \<and> (1 < n \<longrightarrow> open_files p \<noteq> [])"]
  show ?thesis by (auto simp: panes_ok_def list_all_iff)
qed

lemma panes_ok_get:
  "panes_ok n ps \<Longrightarrow> obj_get ps i = Some p \<Longrightarrow> pane_id p = i \<and> pane_ok p \<and> (1 < n \<longrightarrow> open_files p \<noteq> [])"
  by (simp add: panes_ok_iff)

lemma panes_ok_mono: "panes_ok n ps \<Longrightarrow> m \<le> n \<or> m \<le> 1 \<Longrightarrow> panes_ok m ps"
  by (auto simp: panes_ok_def list_all_iff)

lemma panes_ok_put:
  assumes "panes_ok n ps" and "pane_id p = i" and "pane_ok p" and "1 < n \<longrightarrow> open_files p \<noteq> []"
  shows "panes_ok n (obj_put i p ps)"
  using assms by (auto simp: panes_ok_iff distinct_keys_put obj_get_put)

lemma obj_get_filter_key: "obj_get (filter (\<lambda>kv. fst kv \<noteq> i) ps) j = (if j = i then None else obj_get ps j)"
  by (induction ps) (auto simp: obj_get_def)

lemma keys_filter_key: "obj_keys (filter (\<lambda>kv. fst kv \<noteq> i) ps) = filter (\<lambda>k. k \<noteq> i) (obj_keys ps)"
  by (induction ps) (auto simp: obj_keys_def)

lemma panes_ok_filter: "panes_ok n ps \<Longrightarrow> panes_ok n (filter (\<lambda>kv. fst kv \<noteq> i) ps)"
  by (auto simp: panes_ok_iff obj_get_filter_key keys_filter_key)

lemma get_pane_id: "layout_ok l \<Longrightarrow> get_pane l i = Some p \<Longrightarrow> pane_id p = i"
  and get_pane_ok: "layout_ok l \<Longrightarrow> get_pane l i = Some p \<Longrightarrow> pane_ok p"
  and get_pane_nonempty: "layout_ok l \<Longrightarrow> get_pane l i = Some p \<Longrightarrow>
    1 < length (editor_layout_pane_ids l) \<Longrightarrow> open_files p \<noteq> []"
  unfolding layout_ok_def get_pane_def using panes_ok_get by blast+

lemma get_pane_iff: "layout_ok l \<Longrightarrow> get_pane l i = None \<longleftrightarrow> i \<notin> set (editor_layout_pane_ids l)"
  by (simp add: layout_ok_def get_pane_def obj_get_None_iff)

subsection \<open>Panes\<close>

lemma elem_at_in: "elem_at xs i = Some x \<Longrightarrow> x \<in> set xs"
  by (auto simp: elem_at_def split: if_splits)

lemma ordered_files_simps [simp]:
  "distinct (ordered_files a fs ts)" "'''' \<notin> set (ordered_files a fs ts)"
  "set (ordered_files a fs ts) = (insert a (set fs \<union> set ts)) - {''''}"
  by (auto simp: ordered_files_def distinct_add_new distinct_add_all set_add_new set_add_all)

lemma ordered_files_known:
  "distinct fs \<Longrightarrow> '''' \<notin> set fs \<Longrightarrow> a \<in> set fs \<or> a = '''' \<Longrightarrow> ordered_files a fs [] = fs"
  by (auto simp: ordered_files_def add_all_self add_new_def)

lemma first_file_in: "fs \<noteq> [] \<Longrightarrow> first_file fs \<in> set fs"
  and first_file_Nil [simp]: "first_file [] = ''''"
  by (auto simp: first_file_def split: list.splits)

lemma pane_ok_tabs:
  assumes "distinct ts" and "'''' \<notin> set ts" and "a = '''' \<or> a \<in> set ts"
    and "tab_order p = ts" and "open_files p = ts"
    and "active_file p = (if a \<noteq> '''' then a else first_file ts)"
  shows "pane_ok p"
  using assms by (cases ts) (auto simp: pane_ok_def first_file_def)

lemma pane_ok_with_files [simp]: "pane_ok (with_pane_files p fs a)"
  by (rule pane_ok_tabs [of "ordered_files a fs []" a]) (simp_all add: with_pane_files_def Let_def)

lemma pane_ok_create [simp]: "pane_ok (create_pane i a fs)"
  by (rule pane_ok_tabs [of "ordered_files a fs []" a]) (simp_all add: create_pane_def Let_def)

lemma with_pane_files_simps [simp]:
  "pane_id (with_pane_files p fs a) = pane_id p"
  "open_files (with_pane_files p fs a) = ordered_files a fs []"
  by (simp_all add: with_pane_files_def Let_def)

lemma create_pane_simps [simp]:
  "pane_id (create_pane i a fs) = i" "open_files (create_pane i a fs) = ordered_files a fs []"
  by (simp_all add: create_pane_def Let_def)

lemma without_file_simps [simp]:
  "set (without_file fs f) = set fs - {f}" "distinct fs \<Longrightarrow> distinct (without_file fs f)"
  by (auto simp: without_file_def)

lemma set_insert_file [simp]: "set (insert_file fs f index) = insert f (set fs)"
proof -
  have "set (take n xs @ f # drop n xs) = insert f (set xs)" for n and xs :: "string list"
    by (metis append_take_drop_id insert_is_Un list.simps(15) set_append sup_left_commute)
  then show ?thesis by (auto simp: insert_file_def Let_def)
qed

lemma distinct_insert_file: "distinct fs \<Longrightarrow> distinct (insert_file fs f index)"
proof -
  have "f \<notin> set xs \<Longrightarrow> distinct xs \<Longrightarrow> distinct (take n xs @ f # drop n xs)" for n and xs :: "string list"
    using set_take_disj_set_drop_if_distinct [of xs n n] by (auto dest: in_set_takeD in_set_dropD)
  then show "distinct fs \<Longrightarrow> ?thesis" by (auto simp: insert_file_def Let_def without_file_def)
qed

subsection \<open>Trees\<close>

lemma pane_ids_nonempty [simp]: "pane_ids_from_tree t \<noteq> []"
  by (induction t) auto

lemma replace_pane_ids:
  "pane_ids_from_tree (replace_pane_node i new t) =
     concat (map (\<lambda>j. if j = i then pane_ids_from_tree new else [j]) (pane_ids_from_tree t))"
  by (induction t) auto

lemma replace_missing [simp]: "i \<notin> set (pane_ids_from_tree t) \<Longrightarrow> replace_pane_node i new t = t"
  by (induction t) auto

lemma replace_once:
  "distinct (pane_ids_from_tree t) \<Longrightarrow> i \<in> set (pane_ids_from_tree t) \<Longrightarrow>
     mset (pane_ids_from_tree (replace_pane_node i new t)) + {#i#} =
       mset (pane_ids_from_tree t) + mset (pane_ids_from_tree new) \<and>
     mset (split_ids (replace_pane_node i new t)) = mset (split_ids t) + mset (split_ids new) \<and>
     mset (ratios (replace_pane_node i new t)) = mset (ratios t) + mset (ratios new)"
proof (induction t)
  case (SplitNode s d r a b)
  show ?case
  proof (cases "i \<in> set (pane_ids_from_tree a)")
    case True
    moreover from True SplitNode.prems have "i \<notin> set (pane_ids_from_tree b)" by auto
    ultimately show ?thesis using SplitNode by (auto simp: ac_simps)
  next
    case False
    with SplitNode show ?thesis by (auto simp: ac_simps)
  qed
qed simp

lemma remove_pane_node_None: "remove_pane_node i t = None \<longleftrightarrow> set (pane_ids_from_tree t) = {i}"
proof (induction t)
  case (SplitNode s d r a b)
  have "set xs \<union> set ys = {i} \<longleftrightarrow> set xs = {i} \<and> set ys = {i}" if "xs \<noteq> []" "ys \<noteq> []" for xs ys :: "string list"
    using that by (cases xs; cases ys) auto
  with SplitNode show ?case by (auto split: option.splits)
qed auto

lemma remove_pane_node_Some:
  "remove_pane_node i t = Some t' \<Longrightarrow>
     pane_ids_from_tree t' = filter (\<lambda>j. j \<noteq> i) (pane_ids_from_tree t) \<and>
     mset (split_ids t') \<subseteq># mset (split_ids t) \<and> set (ratios t') \<subseteq> set (ratios t)"
proof (induction t arbitrary: t')
  case (SplitNode s d r a b)
  have none: "filter (\<lambda>j. j \<noteq> i) (pane_ids_from_tree u) = []" if "remove_pane_node i u = None" for u
    using that by (auto simp: remove_pane_node_None filter_empty_conv)
  have sub: "mset (split_ids u) \<subseteq># add_mset s (mset (split_ids a) + mset (split_ids b))"
    if "mset (split_ids u) \<subseteq># mset (split_ids a) \<or> mset (split_ids u) \<subseteq># mset (split_ids b)" for u
    using that by (metis mset_subset_eq_add_left mset_subset_eq_add_right subset_mset.order_trans
        add_mset_add_single union_commute)
  show ?case
  proof (cases "remove_pane_node i a")
    case None
    with SplitNode sub [of t'] none [of a] show ?thesis by auto
  next
    case (Some a')
    show ?thesis
    proof (cases "remove_pane_node i b")
      case None
      with Some SplitNode sub [of t'] none [of b] show ?thesis by auto
    next
      case (Some b')
      with \<open>remove_pane_node i a = Some a'\<close> SplitNode show ?thesis
        by (auto intro: subset_mset.add_mono)
    qed
  qed
qed (auto split: if_splits)

lemma distinct_msubset:
  assumes "mset xs \<subseteq># mset ys" and "distinct ys"
  shows "distinct xs"
proof -
  have "count (mset xs) a = (if a \<in> set xs then 1 else 0)" for a
  proof -
    have "count (mset ys) a \<le> 1" using assms(2) by (cases "a \<in> set ys") (simp_all add: distinct_count_atmost_1)
    with mset_subset_eq_count [OF assms(1), of a] have "count (mset xs) a \<le> 1" by simp
    moreover have "count (mset xs) a \<noteq> 0 \<longleftrightarrow> a \<in> set xs" by (simp add: count_mset_0_iff)
    moreover have "c = (if P then 1 else 0)" if "c \<le> 1" "c \<noteq> 0 \<longleftrightarrow> P" for c :: nat and P using that by auto
    ultimately show ?thesis by blast
  qed
  then show ?thesis by (simp add: distinct_count_atmost_1)
qed

lemma resize_same [simp]:
  "pane_ids_from_tree (resize_split_node i v t) = pane_ids_from_tree t"
  "split_ids (resize_split_node i v t) = split_ids t"
  by (induction t) auto

lemma ratio_ok_clamp [simp]: "ratio_ok (clamp_ratio v)"
proof (cases v)
  case (Some r)
  define k where "k = \<lfloor>r + 1 / 2\<rfloor>"
  have "min 85 (max 15 (of_int k)) = (of_int (min 85 (max 15 k)) :: rat)" by (simp add: of_int_min of_int_max)
  with Some show ?thesis
    by (simp add: clamp_ratio_def clamp_number_def js_round_def ratio_ok_def min_split_ratio_def
        max_split_ratio_def k_def [symmetric])
qed (simp add: clamp_ratio_def clamp_number_def ratio_ok_def min_split_ratio_def max_split_ratio_def)

lemma resize_ratios: "list_all ratio_ok (ratios t) \<Longrightarrow> list_all ratio_ok (ratios (resize_split_node i v t))"
  by (induction t) auto

subsection \<open>Operations\<close>

text \<open>What a pane of a valid layout is like, and how replacing one keeps the layout valid.\<close>

lemma get_pane_update [simp]:
  "get_pane (update_pane l i f) j = (if j = i then map_option f (get_pane l i) else get_pane l j)"
  by (auto simp: update_pane_def get_pane_def obj_get_put split: option.splits)

lemma update_pane_frame [simp]:
  "layout_tree (update_pane l i f) = layout_tree l" "active_pane (update_pane l i f) = active_pane l"
  "layout_root (update_pane l i f) = layout_root l" "sidebar_width (update_pane l i f) = sidebar_width l"
  "editor_layout_pane_ids (update_pane l i f) = editor_layout_pane_ids l"
  by (simp_all add: update_pane_def editor_layout_pane_ids_def split: option.splits)

lemma layout_ok_update:
  assumes ok: "layout_ok l"
    and f: "\<And>p. get_pane l i = Some p \<Longrightarrow> pane_ok p \<Longrightarrow> pane_id p = i \<Longrightarrow>
      pane_ok (f p) \<and> pane_id (f p) = i \<and>
      (1 < length (editor_layout_pane_ids l) \<longrightarrow> open_files p \<noteq> [] \<longrightarrow> open_files (f p) \<noteq> [])"
  shows "layout_ok (update_pane l i f)"
proof (cases "get_pane l i")
  case None
  with ok show ?thesis by (simp add: update_pane_def)
next
  case (Some p)
  note p = Some get_pane_ok [OF ok Some] get_pane_id [OF ok Some]
  have "i \<in> set (editor_layout_pane_ids l)" using get_pane_iff [OF ok, of i] Some by simp
  moreover have "panes_ok (length (editor_layout_pane_ids l)) (obj_put i (f p) (layout_panes l))"
    using ok f [OF p] get_pane_nonempty [OF ok Some] by (intro panes_ok_put) (auto simp: layout_ok_def)
  ultimately show ?thesis using ok Some
    by (auto simp: layout_ok_def update_pane_def editor_layout_pane_ids_def)
qed

lemma layout_ok_frame:
  "layout_tree l' = layout_tree l \<Longrightarrow> layout_panes l' = layout_panes l \<Longrightarrow> layout_ok l' = layout_ok l"
  by (simp add: layout_ok_def editor_layout_pane_ids_def)

lemma layout_ok_active [simp]: "layout_ok (l\<lparr> active_pane := i \<rparr>) = layout_ok l"
  by (rule layout_ok_frame) simp_all

lemma get_pane_active [simp]: "get_pane (l\<lparr> active_pane := i \<rparr>) = get_pane l"
  and pane_ids_active [simp]: "editor_layout_pane_ids (l\<lparr> active_pane := i \<rparr>) = editor_layout_pane_ids l"
  by (simp_all add: get_pane_def [abs_def] editor_layout_pane_ids_def)

text \<open>Removing a pane leaves the other panes, in the order of the tree.\<close>

lemma remove_pane_cases:
  assumes ok: "layout_ok l"
  obtains (same) "remove_pane l i = l"
      "get_pane l i = None \<or> length (editor_layout_pane_ids l) \<le> 1"
  | (removed) t where "remove_pane_node i (layout_tree l) = Some t"
      "pane_ids_from_tree t = filter (\<lambda>j. j \<noteq> i) (editor_layout_pane_ids l)"
      "remove_pane l i = l\<lparr> layout_tree := t, layout_panes := filter (\<lambda>kv. fst kv \<noteq> i) (layout_panes l),
        active_pane := (if active_pane l = i then hd (pane_ids_from_tree t) else active_pane l) \<rparr>"
      "get_pane l i \<noteq> None" "1 < length (editor_layout_pane_ids l)"
proof (cases "get_pane l i = None \<or> length (editor_layout_pane_ids l) \<le> 1")
  case True
  then show thesis by (intro same) (auto simp: remove_pane_def)
next
  case False
  have d: "distinct (editor_layout_pane_ids l)"
    using ok by (simp add: layout_ok_def tree_ok_def editor_layout_pane_ids_def)
  have "remove_pane_node i (layout_tree l) \<noteq> None"
  proof
    assume "remove_pane_node i (layout_tree l) = None"
    then have "set (editor_layout_pane_ids l) = {i}"
      by (simp add: remove_pane_node_None editor_layout_pane_ids_def)
    then show False using distinct_card [OF d] False by simp
  qed
  then obtain t where t: "remove_pane_node i (layout_tree l) = Some t" by auto
  with False remove_pane_node_Some [OF t] show thesis
    by (intro removed [of t]) (auto simp: remove_pane_def editor_layout_pane_ids_def)
qed

lemma layout_ok_remove_pane:
  assumes ok: "layout_ok l"
  shows "layout_ok (remove_pane l i)"
  using ok
proof (cases rule: remove_pane_cases [where i = i])
  case same
  with ok show ?thesis by simp
next
  case (removed t)
  note r = remove_pane_node_Some [OF removed(1)]
  have "tree_ok t"
    using ok r removed(2) distinct_msubset [of "split_ids t" "split_ids (layout_tree l)"]
    by (auto simp: layout_ok_def tree_ok_def editor_layout_pane_ids_def list_all_iff)
  moreover have "panes_ok (length (pane_ids_from_tree t)) (filter (\<lambda>kv. fst kv \<noteq> i) (layout_panes l))"
  proof (rule panes_ok_filter, rule panes_ok_mono)
    show "panes_ok (length (editor_layout_pane_ids l)) (layout_panes l)" using ok by (simp add: layout_ok_def)
  qed (simp add: removed(2))
  ultimately show ?thesis using ok removed(2, 3)
    by (auto simp: layout_ok_def editor_layout_pane_ids_def keys_filter_key)
qed

lemma get_remove_pane:
  assumes ok: "layout_ok l"
  shows "get_pane (remove_pane l i) j =
    (if j = i \<and> 1 < length (editor_layout_pane_ids l) then None else get_pane l j)"
  using ok
proof (cases rule: remove_pane_cases [where i = i])
  case same
  then show ?thesis by auto
next
  case (removed t)
  then show ?thesis by (simp add: get_pane_def obj_get_filter_key)
qed

text \<open>The files of a pane, in order.\<close>

definition files_of :: "layout_state \<Rightarrow> string \<Rightarrow> string list" where
  "files_of l i = (case get_pane l i of None \<Rightarrow> [] | Some p \<Rightarrow> open_files p)"

lemma files_of_active [simp]: "files_of (l\<lparr> active_pane := i \<rparr>) = files_of l"
  by (simp add: files_of_def [abs_def])

lemma files_of_update:
  "files_of (update_pane l i f) j =
     (if j = i then (case get_pane l i of None \<Rightarrow> [] | Some p \<Rightarrow> open_files (f p)) else files_of l j)"
  by (simp add: files_of_def split: option.splits)

lemma files_of_ok: "layout_ok l \<Longrightarrow> distinct (files_of l i) \<and> '''' \<notin> set (files_of l i)"
  using get_pane_ok [of l i] by (auto simp: files_of_def pane_ok_def split: option.splits)

lemma files_of_nonempty:
  assumes "layout_ok l" and "get_pane l i \<noteq> None" and "1 < length (editor_layout_pane_ids l)"
  shows "files_of l i \<noteq> []"
  using assms get_pane_nonempty [OF assms(1) _ assms(3)] by (auto simp: files_of_def)

text \<open>
  Closing a tab: the pane loses the file and nothing else changes; a pane that loses its last file
  disappears when there are others, and otherwise stays empty.
\<close>

lemma close_tab_cases:
  obtains (absent) "close_tab l i f = l" "f \<notin> set (files_of l i)"
  | (collapse) p where "get_pane l i = Some p" "f \<in> set (open_files p)" "without_file (open_files p) f = []"
      "1 < length (editor_layout_pane_ids l)" "close_tab l i f = remove_pane l i"
  | (emptied) p where "get_pane l i = Some p" "f \<in> set (open_files p)" "without_file (open_files p) f = []"
      "length (editor_layout_pane_ids l) \<le> 1"
      "close_tab l i f = update_pane l i (\<lambda>q. with_pane_files q [] '''')"
  | (kept) p a where "get_pane l i = Some p" "f \<in> set (open_files p)" "without_file (open_files p) f \<noteq> []"
      "a \<in> set (without_file (open_files p) f) \<or> active_file p \<noteq> f \<and> a = active_file p"
      "close_tab l i f = update_pane l i (\<lambda>q. with_pane_files q (without_file (open_files p) f) a)"
proof (cases "f \<in> set (files_of l i)")
  case False
  then show thesis by (intro absent) (auto simp: close_tab_def files_of_def split: option.splits)
next
  case True
  then obtain p where p: "get_pane l i = Some p" "f \<in> set (open_files p)"
    by (cases "get_pane l i") (auto simp: files_of_def)
  show thesis
  proof (cases "without_file (open_files p) f = []")
    case True
    with p show thesis
      by (cases "1 < length (editor_layout_pane_ids l)") (auto simp: close_tab_def intro: collapse emptied)
  next
    case False
    define a where "a = (if active_file p = f then
        (case elem_at (without_file (open_files p) f) (index_of (tab_order p) f) of Some g \<Rightarrow> g
         | None \<Rightarrow> (case elem_at (without_file (open_files p) f) (index_of (tab_order p) f - 1) of
            Some g \<Rightarrow> g | None \<Rightarrow> first_file (without_file (open_files p) f)))
        else active_file p)"
    have "a \<in> set (without_file (open_files p) f) \<or> active_file p \<noteq> f \<and> a = active_file p"
      using first_file_in [OF False] by (auto simp: a_def dest: elem_at_in split: option.split)
    with False p show thesis
      by (intro kept [of p a]) (simp_all add: close_tab_def a_def [symmetric] Let_def)
  qed
qed

lemma close_tab_files:
  assumes ok: "layout_ok l"
  shows "files_of (close_tab l i f) j = (if j = i then without_file (files_of l i) f else files_of l j)"
proof (cases rule: close_tab_cases [of l i f])
  case absent
  then show ?thesis by (auto simp: without_file_def intro!: filter_True [symmetric])
next
  case (collapse p)
  then show ?thesis using get_remove_pane [OF ok, of i] by (auto simp: files_of_def)
next
  case (emptied p)
  then show ?thesis by (auto simp: files_of_update ordered_files_def add_new_def files_of_def)
next
  case (kept p a)
  have "ordered_files a (without_file (open_files p) f) [] = without_file (open_files p) f"
    using get_pane_ok [OF ok kept(1)] kept(3, 4)
    by (intro ordered_files_known) (auto simp: pane_ok_def split: if_splits)
  with kept show ?thesis by (auto simp: files_of_update files_of_def)
qed

lemma layout_ok_close_tab:
  assumes ok: "layout_ok l"
  shows "layout_ok (close_tab l i f)"
proof (cases rule: close_tab_cases [of l i f])
  case (kept p a)
  have "set (without_file (open_files p) f) - {''''} \<noteq> {}"
    using kept(3) get_pane_ok [OF ok kept(1)] by (auto simp: pane_ok_def without_file_def filter_empty_conv)
  then have "ordered_files a (without_file (open_files p) f) [] \<noteq> []"
    using ordered_files_simps(3) [of a "without_file (open_files p) f" "[]"] by fastforce
  then show ?thesis unfolding kept(5) by (intro layout_ok_update [OF ok]) simp
qed (use ok in \<open>auto intro: layout_ok_remove_pane layout_ok_update\<close>)

subsection \<open>Splitting\<close>

lemma next_pane_id_free: "next_pane_id l \<notin> set (obj_keys (layout_panes l))"
  using free_index_free [of "''pane-''"] by (simp add: next_pane_id_def)

lemma next_split_id_free: "next_split_id t \<notin> set (split_ids t)"
  using free_index_free [of "''split-''"] by (simp add: next_split_id_def)

lemma get_next_pane [simp]: "get_pane l (next_pane_id l) = None"
  using next_pane_id_free [of l] by (simp add: get_pane_def obj_get_None_iff)

lemma insert_split_pane_same [simp]:
  "get_pane l i = None \<or> f = '''' \<Longrightarrow> insert_split_pane l i d f before = l"
  by (auto simp: insert_split_pane_def)

lemma get_insert_split:
  assumes "get_pane l i \<noteq> None" and "f \<noteq> ''''"
  shows "get_pane (insert_split_pane l i d f before) j =
    (if j = next_pane_id l then Some (create_pane (next_pane_id l) f [f]) else get_pane l j)"
  using assms by (cases "obj_get (layout_panes l) i")
    (simp_all add: insert_split_pane_def get_pane_def obj_get_put Let_def)

lemma insert_split_tree:
  assumes ok: "layout_ok l" and i: "get_pane l i \<noteq> None" and f: "f \<noteq> ''''"
  shows "mset (editor_layout_pane_ids (insert_split_pane l i d f before)) =
      add_mset (next_pane_id l) (mset (editor_layout_pane_ids l))"
    and "tree_ok (layout_tree (insert_split_pane l i d f before))"
proof -
  define n where "n = SplitNode (next_split_id (layout_tree l)) d 50
      (PaneNode (if before then next_pane_id l else i)) (PaneNode (if before then i else next_pane_id l))"
  have t: "layout_tree (insert_split_pane l i d f before) = replace_pane_node i n (layout_tree l)"
    using i f by (cases "get_pane l i") (simp_all add: insert_split_pane_def n_def Let_def)
  have dist: "distinct (pane_ids_from_tree (layout_tree l))" "distinct (split_ids (layout_tree l))"
    and r: "set (ratios (layout_tree l)) \<subseteq> Collect ratio_ok"
    using ok by (auto simp: layout_ok_def tree_ok_def list_all_iff)
  have "i \<in> set (pane_ids_from_tree (layout_tree l))"
    using get_pane_iff [OF ok, of i] i by (simp add: editor_layout_pane_ids_def)
  from replace_once [OF dist(1) this, of n]
  have m: "mset (pane_ids_from_tree (replace_pane_node i n (layout_tree l))) =
      add_mset (next_pane_id l) (mset (pane_ids_from_tree (layout_tree l)))"
    "mset (split_ids (replace_pane_node i n (layout_tree l))) =
      add_mset (next_split_id (layout_tree l)) (mset (split_ids (layout_tree l)))"
    "mset (ratios (replace_pane_node i n (layout_tree l))) = add_mset 50 (mset (ratios (layout_tree l)))"
    by (auto simp: n_def)
  then show "mset (editor_layout_pane_ids (insert_split_pane l i d f before)) =
      add_mset (next_pane_id l) (mset (editor_layout_pane_ids l))"
    by (simp add: editor_layout_pane_ids_def t)
  have "next_pane_id l \<notin> set (pane_ids_from_tree (layout_tree l))"
    using get_pane_iff [OF ok, of "next_pane_id l"] by (simp add: editor_layout_pane_ids_def)
  then have "distinct (pane_ids_from_tree (replace_pane_node i n (layout_tree l)))"
    using dist(1) mset_eq_imp_distinct_iff [of _ "next_pane_id l # pane_ids_from_tree (layout_tree l)"] m(1)
    by simp
  moreover have "distinct (split_ids (replace_pane_node i n (layout_tree l)))"
    using dist(2) mset_eq_imp_distinct_iff [of _ "next_split_id (layout_tree l) # split_ids (layout_tree l)"]
      m(2) next_split_id_free [of "layout_tree l"] by simp
  moreover have "ratio_ok 50" by (simp add: ratio_ok_def min_split_ratio_def max_split_ratio_def)
  then have "list_all ratio_ok (ratios (replace_pane_node i n (layout_tree l)))"
    using arg_cong [OF m(3), of set_mset] r by (auto simp: list_all_iff)
  ultimately show "tree_ok (layout_tree (insert_split_pane l i d f before))" by (simp add: tree_ok_def t)
qed

lemma layout_ok_insert_split:
  assumes ok: "layout_ok l" and ne: "files_of l i \<noteq> []"
  shows "layout_ok (insert_split_pane l i d f before)"
proof (cases "get_pane l i = None \<or> f = ''''")
  case True
  with ok show ?thesis by auto
next
  case False
  then have i: "get_pane l i \<noteq> None" and f: "f \<noteq> ''''" by auto
  have all: "open_files p \<noteq> []" if p: "get_pane l j = Some p" for j p
  proof (cases "1 < length (editor_layout_pane_ids l)")
    case True
    with get_pane_nonempty [OF ok p] show ?thesis by blast
  next
    case False
    have "i \<in> set (editor_layout_pane_ids l)" "j \<in> set (editor_layout_pane_ids l)"
      using get_pane_iff [OF ok, of i] get_pane_iff [OF ok, of j] i p by auto
    with False have "i = j" by (cases "editor_layout_pane_ids l") auto
    with p ne show ?thesis by (simp add: files_of_def)
  qed
  define l1 where "l1 = insert_split_pane l i d f before"
  note m = insert_split_tree [OF ok i f, of d before, folded l1_def]
  have "ordered_files f [f] [] \<noteq> []" using f by (simp add: ordered_files_def add_new_def)
  then have "panes_ok (length (editor_layout_pane_ids l1)) (layout_panes l1)"
    using ok all get_insert_split [OF i f, of d before, folded l1_def]
    by (auto simp: panes_ok_iff get_pane_def l1_def insert_split_pane_def i [unfolded get_pane_def] f Let_def
        distinct_keys_put obj_get_put layout_ok_def split: if_splits)
  moreover have "set (obj_keys (layout_panes l1)) = set (editor_layout_pane_ids l1)"
    using ok arg_cong [OF m(1), of set_mset] i f
    by (simp add: layout_ok_def l1_def [unfolded insert_split_pane_def] Let_def)
  ultimately show ?thesis using m(2) by (simp add: layout_ok_def l1_def)
qed

lemma insert_split_files:
  assumes "get_pane l i \<noteq> None" and "f \<noteq> ''''"
  shows "files_of (insert_split_pane l i d f before) j = (if j = next_pane_id l then [f] else files_of l j)"
  using assms by (simp add: files_of_def get_insert_split ordered_files_def add_new_def)

end
