(* ===== verification/Layout_Reducer.thy ===== *)
theory Layout_Reducer
  imports Layout_Invariant
begin

text \<open>
  What the actions of the layout reducer do: the effect of each on the files of every pane, and the
  properties the reducer promises.
\<close>

subsection \<open>Moving tabs\<close>

lemma ordered_insert_file:
  assumes "distinct fs" and "'''' \<notin> set fs" and "f \<noteq> ''''"
  shows "ordered_files f (insert_file fs f index) [] = insert_file fs f index"
  using assms by (intro ordered_files_known) (auto simp: distinct_insert_file)

lemma get_close_tab_other:
  assumes ok: "layout_ok l" and ij: "i \<noteq> j"
  shows "get_pane (close_tab l i f) j = get_pane l j"
  using ij by (cases rule: close_tab_cases [of l i f]) (auto simp: get_remove_pane [OF ok])

lemma files_tab_order: "layout_ok l \<Longrightarrow> get_pane l i = Some p \<Longrightarrow> tab_order p = files_of l i"
  using get_pane_ok [of l i p] by (simp add: pane_ok_def files_of_def)

lemma files_of_Some: "get_pane l i = Some p \<Longrightarrow> open_files p = files_of l i"
  by (simp add: files_of_def)

lemma in_files_of: "f \<in> set (files_of l i) \<longleftrightarrow> (\<exists>p. get_pane l i = Some p \<and> f \<in> set (open_files p))"
  by (cases "get_pane l i") (simp_all add: files_of_def)

lemma insert_tab_files:
  assumes ok: "layout_ok l" and f: "f \<noteq> ''''" and j: "get_pane l j \<noteq> None"
  shows "files_of (update_pane l j (\<lambda>q. with_pane_files q (insert_file (tab_order q) f index) f)) k =
    (if k = j then insert_file (files_of l j) f index else files_of l k)"
proof -
  obtain p where p: "get_pane l j = Some p" using j by auto
  show ?thesis
    using files_of_ok [OF ok, of j] f files_tab_order [OF ok p] p
    by (simp add: files_of_update ordered_insert_file)
qed

lemma layout_ok_insert_tab:
  assumes ok: "layout_ok l"
  shows "layout_ok (update_pane l j (\<lambda>q. with_pane_files q (insert_file (tab_order q) f index) f))"
proof (rule layout_ok_update [OF ok])
  fix p assume p: "pane_ok p" "pane_id p = j"
  have "ordered_files f (insert_file (tab_order p) f index) [] \<noteq> []" if "open_files p \<noteq> []"
  proof -
    have "open_files p \<noteq> []" "'''' \<notin> set (open_files p)" "tab_order p = open_files p"
      using p that by (auto simp: pane_ok_def)
    then have "set (ordered_files f (insert_file (tab_order p) f index) []) \<noteq> {}"
      by (cases "open_files p") auto
    then show ?thesis by force
  qed
  with p show "pane_ok (with_pane_files p (insert_file (tab_order p) f index) f) \<and>
      pane_id (with_pane_files p (insert_file (tab_order p) f index) f) = j \<and>
      (1 < length (editor_layout_pane_ids l) \<longrightarrow> open_files p \<noteq> [] \<longrightarrow>
        open_files (with_pane_files p (insert_file (tab_order p) f index) f) \<noteq> [])" by simp
qed

lemma move_tab_absent:
  "f \<notin> set (files_of l i) \<or> get_pane l j = None \<Longrightarrow> move_tab l i j f index = l"
  by (auto simp: move_tab_def in_files_of split: option.splits)

lemma move_tab_moves:
  assumes ok: "layout_ok l" and f: "f \<in> set (files_of l i)" and j: "get_pane l j \<noteq> None"
  defines "base \<equiv> (if i = j then l else close_tab l i f)"
    and "put \<equiv> (\<lambda>index q. with_pane_files q (insert_file (tab_order q) f index) f)"
  shows "move_tab l i j f index =
      (update_pane base j (put index))\<lparr> active_pane := (if i = j then active_pane l else j) \<rparr>"
    and "layout_ok base" and "get_pane base j \<noteq> None" and "f \<noteq> ''''"
proof -
  obtain p q where p: "get_pane l i = Some p" "f \<in> set (open_files p)" and q: "get_pane l j = Some q"
    using f j by (auto simp: in_files_of)
  have g: "get_pane base j = get_pane l j" using get_close_tab_other [OF ok] by (auto simp: base_def)
  then show "get_pane base j \<noteq> None" using j by simp
  show "layout_ok base" using ok by (simp add: base_def layout_ok_close_tab)
  show "f \<noteq> ''''" using f files_of_ok [OF ok, of i] by auto
  show "move_tab l i j f index =
      (update_pane base j (put index))\<lparr> active_pane := (if i = j then active_pane l else j) \<rparr>"
    using p q g by (auto simp: move_tab_def base_def put_def Let_def)
qed

lemma layout_ok_move_tab: "layout_ok l \<Longrightarrow> layout_ok (move_tab l i j f index)"
  by (cases "f \<notin> set (files_of l i) \<or> get_pane l j = None")
     (auto simp: move_tab_absent move_tab_moves(1) intro!: layout_ok_insert_tab layout_ok_close_tab)

lemma move_tab_files:
  assumes ok: "layout_ok l" and f: "f \<in> set (files_of l i)" and j: "get_pane l j \<noteq> None"
  shows "files_of (move_tab l i j f index) k =
    (if k = j then insert_file (files_of l j) f index
     else if k = i then without_file (files_of l i) f else files_of l k)"
  using insert_tab_files [OF move_tab_moves(2, 4, 3) [OF ok f j], of index k]
  by (auto simp: move_tab_moves(1) [OF ok f j] close_tab_files [OF ok])

subsection \<open>Splitting\<close>

lemma split_pane_cases:
  assumes ok: "layout_ok l"
  obtains (same) "split_pane l i d name before = l"
  | (split) f where "f \<in> set (files_of l i)" "f \<noteq> ''''" "without_file (files_of l i) f \<noteq> []"
      "split_pane l i d name before = insert_split_pane (close_tab l i f) i d f before"
proof (cases "get_pane l i")
  case None
  then show thesis by (intro same) (simp add: split_pane_def)
next
  case (Some p)
  define f where "f = (case name of Some g \<Rightarrow> g | None \<Rightarrow> active_file p)"
  show thesis
  proof (cases "f = '''' \<or> f \<notin> set (open_files p) \<or> without_file (open_files p) f = []")
    case True
    with Some show thesis by (intro same) (auto simp: split_pane_def f_def Let_def)
  next
    case False
    with Some show thesis by (intro split [of f]) (auto simp: split_pane_def f_def files_of_def Let_def)
  qed
qed

text \<open>A pane that keeps a file still exists after one of its tabs is closed.\<close>

lemma close_tab_keeps_pane:
  assumes ok: "layout_ok l" and "without_file (files_of l i) f \<noteq> []"
  shows "get_pane (close_tab l i f) i \<noteq> None"
  using close_tab_files [OF ok, of i f i] assms(2) by (metis files_of_def option.simps(4))

lemma layout_ok_split_pane:
  assumes ok: "layout_ok l"
  shows "layout_ok (split_pane l i d name before)"
  using ok
proof (cases rule: split_pane_cases [where i = i and d = d and name = name and before = before])
  case (split f)
  then show ?thesis
    using layout_ok_insert_split [OF layout_ok_close_tab [OF ok]] by (simp add: close_tab_files [OF ok])
qed (use ok in simp)

lemma close_insert_files:
  assumes ok: "layout_ok l" and f: "f \<in> set (files_of l i)"
    and j: "get_pane (close_tab l i f) j \<noteq> None"
  shows "(\<Union>k. set (files_of (insert_split_pane (close_tab l i f) j d f before) k)) = (\<Union>k. set (files_of l k))"
proof -
  define l1 where "l1 = close_tab l i f"
  have f0: "f \<noteq> ''''" using f files_of_ok [OF ok, of i] by auto
  have new: "files_of l1 (next_pane_id l1) = []" by (simp add: files_of_def)
  have "(\<Union>k. set (files_of (insert_split_pane l1 j d f before) k)) = insert f (\<Union>k. set (files_of l1 k))"
    using new by (auto simp: insert_split_files [OF j [folded l1_def] f0] split: if_splits)
      (metis empty_iff list.set(1))
  also have "\<dots> = (\<Union>k. set (files_of l k))"
    using f by (auto simp: l1_def close_tab_files [OF ok] split: if_splits)
  finally show ?thesis by (simp add: l1_def)
qed

subsection \<open>Dropping tabs\<close>

lemma reduce_drop_absent: "drag_file x \<notin> set (files_of l (drag_from x)) \<Longrightarrow> reduce_drop_tab l x = l"
  by (auto simp: reduce_drop_tab_def move_tab_absent in_files_of split: option.splits)

lemma reduce_drop_cases:
  assumes ok: "layout_ok l"
  obtains (absent) "reduce_drop_tab l x = l"
  | (center) "drag_zone x = ZoneCenter"
      "reduce_drop_tab l x = move_tab l (drag_from x) (drag_to x) (drag_file x) (drag_index x)"
  | (split) d before where "drag_zone x \<noteq> ZoneCenter" "drag_from x = drag_to x"
      "reduce_drop_tab l x = split_pane l (drag_to x) d (Some (drag_file x)) before"
  | (across) d before where "drag_zone x \<noteq> ZoneCenter" "drag_from x \<noteq> drag_to x"
      "drag_file x \<in> set (files_of l (drag_from x))"
      "reduce_drop_tab l x =
         insert_split_pane (close_tab l (drag_from x) (drag_file x)) (drag_to x) d (drag_file x) before"
proof (cases "drag_file x \<in> set (files_of l (drag_from x))")
  case False
  then show thesis by (intro absent reduce_drop_absent)
next
  case True
  then obtain p where "get_pane l (drag_from x) = Some p" "drag_file x \<in> set (open_files p)"
    by (auto simp: in_files_of)
  with True show thesis
    by (cases "drag_zone x = ZoneCenter"; cases "drag_from x = drag_to x")
       (auto simp: reduce_drop_tab_def Let_def intro: center split across)
qed

lemma layout_ok_drop_tab:
  assumes ok: "layout_ok l"
  shows "layout_ok (reduce_drop_tab l x)"
  using ok
proof (cases rule: reduce_drop_cases [where x = x])
  case (across d before)
  define l1 where "l1 = close_tab l (drag_from x) (drag_file x)"
  have ok1: "layout_ok l1" using ok by (simp add: l1_def layout_ok_close_tab)
  have "layout_ok (insert_split_pane l1 (drag_to x) d (drag_file x) before)"
  proof (cases "get_pane l (drag_to x)")
    case None
    then have "get_pane l1 (drag_to x) = None"
      using get_close_tab_other [OF ok across(2)] by (simp add: l1_def)
    with ok1 show ?thesis by simp
  next
    case (Some q)
    have two: "drag_from x \<in> set (editor_layout_pane_ids l)" "drag_to x \<in> set (editor_layout_pane_ids l)"
      using get_pane_iff [OF ok, of "drag_from x"] get_pane_iff [OF ok, of "drag_to x"] Some across(3)
      by (auto simp: in_files_of)
    have "1 < length (editor_layout_pane_ids l)"
    proof (rule ccontr)
      assume "\<not> ?thesis"
      with two across(2) show False by (cases "editor_layout_pane_ids l") auto
    qed
    then have "files_of l (drag_to x) \<noteq> []" using Some by (intro files_of_nonempty [OF ok]) simp_all
    with across(2) have "files_of l1 (drag_to x) \<noteq> []" by (simp add: l1_def close_tab_files [OF ok])
    from layout_ok_insert_split [OF ok1 this] show ?thesis .
  qed
  then show ?thesis by (simp add: across(4) l1_def)
qed (use ok in \<open>auto intro: layout_ok_move_tab layout_ok_split_pane\<close>)

subsection \<open>Files moved and deleted on disk\<close>

lemma rename_path_nonempty: "new \<noteq> '''' \<Longrightarrow> f \<noteq> '''' \<Longrightarrow> rename_path old new f \<noteq> ''''"
  by (auto simp: rename_path_def)

lemma rename_no_empty:
  assumes "new \<noteq> ''''" and "'''' \<notin> set fs"
  shows "'''' \<notin> rename_path old new ` set fs"
proof
  assume "'''' \<in> rename_path old new ` set fs"
  then obtain g where "g \<in> set fs" "rename_path old new g = ''''" by (metis imageE)
  with assms rename_path_nonempty [OF assms(1), of g old] show False by auto
qed

lemma rename_path_empty: "old \<noteq> '''' \<Longrightarrow> rename_path old new '''' = ''''"
  by (auto simp: rename_path_def starts_with_def)

lemma rename_in_pane:
  assumes ok: "pane_ok p" and names: "old \<noteq> ''''" "new \<noteq> ''''"
  shows "open_files (rename_file_in_pane old new p) = add_all [] (map (rename_path old new) (open_files p))"
    and "pane_ok (rename_file_in_pane old new p)" and "pane_id (rename_file_in_pane old new p) = pane_id p"
proof -
  define fs where "fs = add_all [] (map (rename_path old new) (open_files p))"
  have set_fs: "set fs = rename_path old new ` set (open_files p)"
    using ok rename_no_empty [OF names(2), of "open_files p" old] by (simp add: fs_def set_add_all pane_ok_def)
  have "pane_ok (p\<lparr> open_files := fs, tab_order := fs, active_file :=
      (if rename_path old new (active_file p) \<noteq> '''' then rename_path old new (active_file p)
       else first_file fs) \<rparr>)"
    using ok set_fs rename_path_empty [OF names(1)] rename_no_empty [OF names(2), of "open_files p" old]
    by (intro pane_ok_tabs [of fs "rename_path old new (active_file p)"])
       (auto simp: fs_def distinct_add_all pane_ok_def split: if_splits)
  moreover have "first_file fs = (case fs of t # ts \<Rightarrow> t | [] \<Rightarrow> first_file fs)"
    by (simp add: first_file_def split: list.splits)
  ultimately show "pane_ok (rename_file_in_pane old new p)"
    and "open_files (rename_file_in_pane old new p) = add_all [] (map (rename_path old new) (open_files p))"
    and "pane_id (rename_file_in_pane old new p) = pane_id p"
    using ok by (auto simp: rename_file_in_pane_def Let_def fs_def [symmetric] pane_ok_def)
qed

lemma obj_get_map: "obj_get (map (\<lambda>kv. (fst kv, f (snd kv))) ps) i = map_option f (obj_get ps i)"
  by (induction ps) (auto simp: obj_get_def)

lemma get_rename:
  "get_pane (rename_file_everywhere l old new) i =
     (if old = '''' \<or> new = '''' \<or> old = new then get_pane l i
      else map_option (rename_file_in_pane old new) (get_pane l i))"
  by (simp add: rename_file_everywhere_def get_pane_def obj_get_map)

lemma rename_ids [simp]:
  "editor_layout_pane_ids (rename_file_everywhere l old new) = editor_layout_pane_ids l"
  "layout_tree (rename_file_everywhere l old new) = layout_tree l"
  "active_pane (rename_file_everywhere l old new) = active_pane l"
  by (simp_all add: rename_file_everywhere_def editor_layout_pane_ids_def)

lemma add_all_nonempty: "set xs - {''''} \<noteq> {} \<Longrightarrow> add_all [] xs \<noteq> []"
  using set_add_all [of "[]" xs] by force

lemma layout_ok_rename:
  assumes ok: "layout_ok l"
  shows "layout_ok (rename_file_everywhere l old new)"
proof (cases "old = '''' \<or> new = '''' \<or> old = new")
  case True
  with ok show ?thesis by (simp add: rename_file_everywhere_def)
next
  case False
  have keys: "obj_keys (layout_panes (rename_file_everywhere l old new)) = obj_keys (layout_panes l)"
    by (simp add: rename_file_everywhere_def obj_keys_def)
  have "open_files (rename_file_in_pane old new p) \<noteq> []" if "pane_ok p" "open_files p \<noteq> []" for p
  proof -
    have "'''' \<notin> set (map (rename_path old new) (open_files p))"
      using that False rename_no_empty [of new "open_files p" old] by (simp add: pane_ok_def)
    then have "set (map (rename_path old new) (open_files p)) - {''''} \<noteq> {}" using that(2) by simp
    then have "add_all [] (map (rename_path old new) (open_files p)) \<noteq> []" by (rule add_all_nonempty)
    with that False show ?thesis by (simp add: rename_in_pane)
  qed
  then have "panes_ok (length (editor_layout_pane_ids l)) (layout_panes (rename_file_everywhere l old new))"
    using ok False keys get_rename [of l old new] rename_in_pane(2, 3) [of _ old new]
    by (auto simp: panes_ok_iff layout_ok_def get_pane_def)
  with ok show ?thesis by (simp add: layout_ok_def keys)
qed

lemma rename_files:
  assumes ok: "layout_ok l" and "old \<noteq> ''''" and "new \<noteq> ''''" and "old \<noteq> new"
  shows "files_of (rename_file_everywhere l old new) i = add_all [] (map (rename_path old new) (files_of l i))"
  using assms get_pane_ok [OF ok, of i]
  by (cases "get_pane l i") (simp_all add: files_of_def get_rename rename_in_pane)

text \<open>Deleting closes tabs one by one.\<close>

lemma close_tabs:
  assumes "layout_ok l"
  shows "layout_ok (foldl (\<lambda>acc t. close_tab acc (fst t) (snd t)) l ts) \<and>
    files_of (foldl (\<lambda>acc t. close_tab acc (fst t) (snd t)) l ts) i =
      filter (\<lambda>g. (i, g) \<notin> set ts) (files_of l i)"
  using assms
proof (induction ts arbitrary: l)
  case (Cons t ts)
  obtain k g where t: "t = (k, g)" by (cases t)
  show ?case
    using Cons.IH [OF layout_ok_close_tab [OF Cons.prems], of k g] close_tab_files [OF Cons.prems, of k g i]
    by (auto simp: t without_file_def intro!: filter_cong)
qed simp

definition under :: "string \<Rightarrow> string \<Rightarrow> bool" where
  "under f g \<longleftrightarrow> g = f \<or> starts_with (f @ ''/'') g"

lemma set_editor_panes:
  "p \<in> set (editor_layout_panes l) \<longleftrightarrow> (\<exists>k\<in>set (editor_layout_pane_ids l). get_pane l k = Some p)"
  by (force simp: editor_layout_panes_def map_filter_def image_iff)

lemma get_pane_in: "layout_ok l \<Longrightarrow> get_pane l i \<noteq> None \<Longrightarrow> i \<in> set (editor_layout_pane_ids l)"
  by (metis get_pane_iff)

lemma get_pane_Some_in: "layout_ok l \<Longrightarrow> get_pane l i = Some p \<Longrightarrow> i \<in> set (editor_layout_pane_ids l)"
  using get_pane_in by fastforce

lemma remove_targets_iff:
  assumes ok: "layout_ok l"
  shows "(i, g) \<in> set (remove_targets l f) \<longleftrightarrow> g \<in> set (files_of l i) \<and> under f g"
proof -
  have shown: "p \<in> set (editor_layout_panes l) \<longleftrightarrow> get_pane l (pane_id p) = Some p" for p
    using get_pane_id [OF ok] get_pane_iff [OF ok] unfolding set_editor_panes by (metis option.distinct(1))
  have "(i, g) \<in> set (remove_targets l f) \<longleftrightarrow>
      (\<exists>p\<in>set (editor_layout_panes l). pane_id p = i \<and> g \<in> set (open_files p) \<and> under f g)"
    by (auto simp: remove_targets_def under_def)
  also have "\<dots> \<longleftrightarrow> (\<exists>p. get_pane l i = Some p \<and> g \<in> set (open_files p) \<and> under f g)"
    unfolding Bex_def shown using get_pane_id [OF ok] by metis
  finally show ?thesis by (auto simp: in_files_of)
qed

lemma remove_file_ok: "layout_ok l \<Longrightarrow> layout_ok (remove_file_everywhere l f)"
  using close_tabs by (simp add: remove_file_everywhere_def)

lemma remove_file_files:
  assumes ok: "layout_ok l" and "f \<noteq> ''''"
  shows "files_of (remove_file_everywhere l f) i = filter (\<lambda>g. \<not> under f g) (files_of l i)"
  using assms(2) close_tabs [OF ok, of "remove_targets l f" i]
  by (auto simp: remove_file_everywhere_def remove_targets_iff [OF ok] intro!: filter_cong)

subsection \<open>Every action keeps the invariant\<close>

lemma pane_ok_replaced: "layout_ok (replace_root l r w)"
  by (simp add: replace_root_def layout_ok_def tree_ok_def editor_layout_pane_ids_def Let_def
      panes_ok_def obj_keys_def)

lemma with_files_nonempty:
  assumes "fs \<noteq> []" and "'''' \<notin> set fs"
  shows "ordered_files a fs [] \<noteq> []"
  using assms ordered_files_simps(3) [of a fs "[]"] by (cases fs) fastforce+

lemma pane_ok_tab_order: "pane_ok p \<Longrightarrow> tab_order p = open_files p"
  and pane_ok_no_empty: "pane_ok p \<Longrightarrow> '''' \<notin> set (open_files p)"
  by (simp_all add: pane_ok_def)

lemma pane_ok_reorder: "pane_ok p \<Longrightarrow> open_files p \<noteq> [] \<Longrightarrow> ordered_files a (open_files p) [] \<noteq> []"
  by (simp add: with_files_nonempty pane_ok_no_empty)

lemma layout_ok_reducer:
  assumes ok: "layout_ok l"
  shows "layout_ok (editor_layout_reducer a l)"
proof (cases a)
  case (OpenFile i f)
  have "ordered_files f (ordered_files f fs []) [] \<noteq> []" if "fs \<noteq> []" "'''' \<notin> set fs" for fs
    by (rule with_files_nonempty [OF with_files_nonempty [OF that]]) simp
  with OpenFile show ?thesis by (auto intro!: layout_ok_update [OF ok] simp: pane_ok_tab_order pane_ok_no_empty)
next
  case (SelectFile i f)
  have "layout_ok (l\<lparr> active_pane := i \<rparr>)" using ok by simp
  then show ?thesis unfolding SelectFile editor_layout_reducer.simps
    by (rule layout_ok_update) (auto simp: pane_ok_reorder)
next
  case (ReorderTab i f n)
  have "ordered_files f (insert_file fs f (Some n)) [] \<noteq> []" if "fs \<noteq> []" "'''' \<notin> set fs" "f \<in> set fs" for fs
  proof (rule with_files_nonempty)
    show "insert_file fs f (Some n) \<noteq> []" by (metis set_insert_file insert_not_empty list.set(1))
  qed (use that in auto)
  with ReorderTab show ?thesis
    by (auto intro!: layout_ok_update [OF ok] simp: pane_ok_tab_order pane_ok_no_empty split: if_splits)
next
  case (ResizeSplit i v)
  with ok show ?thesis
    by (simp add: layout_ok_def tree_ok_def editor_layout_pane_ids_def resize_ratios)
next
  case (SetActivePane i)
  with ok show ?thesis by simp
next
  case (SetSidebar w c)
  with ok show ?thesis by (simp add: layout_ok_def editor_layout_pane_ids_def)
next
  case (SetOutlinePanel b)
  with ok show ?thesis by (simp add: layout_ok_def editor_layout_pane_ids_def)
qed (use ok in \<open>auto intro: layout_ok_close_tab layout_ok_remove_pane layout_ok_move_tab layout_ok_drop_tab
  layout_ok_split_pane layout_ok_rename remove_file_ok pane_ok_replaced\<close>)

interpretation layout_ops: invariant_ops layout_ok editor_layout_reducer
  by unfold_locales (rule layout_ok_reducer)

subsection \<open>The active pane\<close>

lemma without_file_single:
  assumes "distinct fs" and "f \<in> set fs" and "without_file fs f = []"
  shows "fs = [f]"
proof -
  have "set fs - {f} = {}" using without_file_simps(1) [of fs f] assms(3) by simp
  then have "set fs = {f}" using assms(2) by blast
  moreover from this have "length fs = 1" using distinct_card [OF assms(1)] by simp
  ultimately show ?thesis by (cases fs) simp_all
qed

lemma pane_ids_close:
  assumes ok: "layout_ok l"
  shows "editor_layout_pane_ids (close_tab l i f) =
    (if files_of l i = [f] \<and> 1 < length (editor_layout_pane_ids l)
     then filter (\<lambda>k. k \<noteq> i) (editor_layout_pane_ids l) else editor_layout_pane_ids l)"
proof (cases rule: close_tab_cases [of l i f])
  case (collapse p)
  have "files_of l i = [f]"
    using get_pane_ok [OF ok collapse(1)] collapse(1, 2, 3)
    by (simp add: files_of_def pane_ok_def without_file_single)
  moreover have "editor_layout_pane_ids (remove_pane l i) = filter (\<lambda>k. k \<noteq> i) (editor_layout_pane_ids l)"
    using ok
  proof (cases rule: remove_pane_cases [where i = i])
    case same
    with collapse show ?thesis by simp
  next
    case (removed t)
    then show ?thesis by (simp add: editor_layout_pane_ids_def)
  qed
  ultimately show ?thesis using collapse(4, 5) by simp
next
  case absent
  then show ?thesis by auto
next
  case (kept p a)
  then have "files_of l i \<noteq> [f]" by (auto simp: files_of_def without_file_def)
  with kept show ?thesis by simp
qed simp

definition active_ok :: "layout_state \<Rightarrow> bool" where
  "active_ok l \<longleftrightarrow> active_pane l \<in> set (editor_layout_pane_ids l)"

lemma active_ok_get: "layout_ok l \<Longrightarrow> active_ok l \<longleftrightarrow> get_pane l (active_pane l) \<noteq> None"
  by (simp add: active_ok_def get_pane_iff)

lemma active_ok_update [simp]: "active_ok (update_pane l i f) = active_ok l"
  by (simp add: active_ok_def)

lemma active_ok_remove:
  assumes ok: "layout_ok l" and act: "active_ok l"
  shows "active_ok (remove_pane l i)"
  using ok
proof (cases rule: remove_pane_cases [where i = i])
  case same
  with act show ?thesis by simp
next
  case (removed t)
  have "hd (pane_ids_from_tree t) \<in> set (pane_ids_from_tree t)" by (rule hd_in_set) simp
  with act removed show ?thesis by (auto simp: active_ok_def editor_layout_pane_ids_def)
qed

lemma active_ok_close: "layout_ok l \<Longrightarrow> active_ok l \<Longrightarrow> active_ok (close_tab l i f)"
  by (cases rule: close_tab_cases [of l i f]) (auto intro: active_ok_remove)

lemma active_ok_insert_split:
  assumes ok: "layout_ok l" and act: "active_ok l"
  shows "active_ok (insert_split_pane l i d f before)"
proof (cases "get_pane l i = None \<or> f = ''''")
  case True
  with act show ?thesis by auto
next
  case False
  then have i: "get_pane l i \<noteq> None" "f \<noteq> ''''" by auto
  have "active_pane (insert_split_pane l i d f before) = next_pane_id l"
    using i by (cases "get_pane l i") (simp_all add: insert_split_pane_def Let_def)
  with arg_cong [OF insert_split_tree(1) [OF ok i], of set_mset] show ?thesis
    by (auto simp: active_ok_def)
qed

lemma active_ok_move:
  assumes ok: "layout_ok l" and act: "active_ok l"
  shows "active_ok (move_tab l i j f index)"
proof (cases "f \<in> set (files_of l i) \<and> get_pane l j \<noteq> None")
  case True
  then have m: "f \<in> set (files_of l i)" "get_pane l j \<noteq> None" by auto
  have "j \<in> set (editor_layout_pane_ids (if i = j then l else close_tab l i f))"
    by (rule get_pane_in [OF move_tab_moves(2, 3) [OF ok m]])
  with act show ?thesis by (auto simp: move_tab_moves(1) [OF ok m] active_ok_def)
next
  case False
  with act show ?thesis by (auto simp: move_tab_absent)
qed

lemma active_ok_split:
  assumes ok: "layout_ok l" and act: "active_ok l"
  shows "active_ok (split_pane l i d name before)"
  using ok
proof (cases rule: split_pane_cases [where i = i and d = d and name = name and before = before])
  case (split f)
  then show ?thesis using active_ok_insert_split [OF layout_ok_close_tab [OF ok] active_ok_close [OF ok act]] by simp
qed (use act in simp)

lemma active_ok_close_tabs:
  "layout_ok l \<Longrightarrow> active_ok l \<Longrightarrow> active_ok (foldl (\<lambda>acc t. close_tab acc (fst t) (snd t)) l ts)"
  by (induction ts arbitrary: l) (auto intro: layout_ok_close_tab active_ok_close)

lemma active_ok_reducer:
  assumes ok: "layout_ok l" and act: "active_ok l" and a: "\<forall>i f. a = SelectFile i f \<longrightarrow> get_pane l i \<noteq> None"
  shows "active_ok (editor_layout_reducer a l)"
proof (cases a)
  case (SelectFile i f)
  with a get_pane_in [OF ok, of i] show ?thesis by (simp add: active_ok_def)
next
  case (SetActivePane i)
  with act get_pane_in [OF ok, of i] show ?thesis by (simp add: active_ok_def)
next
  case (DropTab x)
  have "active_ok (reduce_drop_tab l x)" using ok
  proof (cases rule: reduce_drop_cases [where x = x])
    case (across d before)
    then show ?thesis
      using active_ok_insert_split [OF layout_ok_close_tab [OF ok] active_ok_close [OF ok act]] by simp
  qed (use ok act in \<open>auto intro: active_ok_move active_ok_split\<close>)
  then show ?thesis by (simp add: DropTab)
next
  case (RenameFile old new)
  with act show ?thesis by (simp add: active_ok_def)
next
  case (ReplaceRoot r w)
  then show ?thesis by (simp add: active_ok_def replace_root_def editor_layout_pane_ids_def Let_def)
next
  case (RemoveFile f)
  with ok act show ?thesis by (simp add: remove_file_everywhere_def active_ok_close_tabs)
next
  case (ResizeSplit i v)
  with act show ?thesis by (simp add: active_ok_def editor_layout_pane_ids_def)
next
  case (SetSidebar w c)
  with act show ?thesis by (simp add: active_ok_def editor_layout_pane_ids_def)
next
  case (SetOutlinePanel b)
  with act show ?thesis by (simp add: active_ok_def editor_layout_pane_ids_def)
qed (use ok act in \<open>auto intro: active_ok_close active_ok_remove active_ok_move active_ok_split\<close>)

subsection \<open>The files that are open\<close>

lemma open_files_UN:
  assumes ok: "layout_ok l"
  shows "set (editor_layout_open_files l) = (\<Union>i. set (files_of l i))"
proof -
  have "set (editor_layout_open_files l) =
      (\<Union>p\<in>set (editor_layout_panes l). set (open_files p)) - {''''}"
    by (auto simp: editor_layout_open_files_def set_add_all)
  also have "(\<Union>p\<in>set (editor_layout_panes l). set (open_files p)) = (\<Union>i. set (files_of l i))"
  proof (intro equalityI subsetI)
    fix x assume "x \<in> (\<Union>p\<in>set (editor_layout_panes l). set (open_files p))"
    then obtain p k where "get_pane l k = Some p" "x \<in> set (open_files p)" using set_editor_panes by blast
    then have "x \<in> set (files_of l k)" by (simp add: files_of_def)
    then show "x \<in> (\<Union>i. set (files_of l i))" by blast
  next
    fix x assume "x \<in> (\<Union>i. set (files_of l i))"
    then obtain k p where "get_pane l k = Some p" "x \<in> set (open_files p)" using in_files_of by blast
    then show "x \<in> (\<Union>p\<in>set (editor_layout_panes l). set (open_files p))"
      using set_editor_panes get_pane_Some_in [OF ok] by blast
  qed
  also have "(\<Union>i. set (files_of l i)) - {''''} = (\<Union>i. set (files_of l i))"
    using files_of_ok [OF ok] by auto
  finally show ?thesis .
qed

end
