(* ===== verification/Layout_Properties.thy ===== *)
theory Layout_Properties
  imports Layout_Reducer
begin

text \<open>
  The promises of the layout reducer (\<open>packages/keiko-contracts/src/editor-layout.ts\<close>), each over an
  arbitrary valid layout: which pane is active, that rearranging tabs loses no file, where a moved
  tab lands, how closing collapses panes, and that tabs follow files on disk.
\<close>

subsection \<open>Helper facts\<close>

lemma files_of_cong: "layout_panes l' = layout_panes l \<Longrightarrow> files_of l' = files_of l"
  by (simp add: files_of_def [abs_def] get_pane_def)

lemma files_of_simps [simp]:
  "files_of (l\<lparr> layout_tree := t \<rparr>) = files_of l"
  "files_of (l\<lparr> sidebar_width := w, sidebar_collapsed := c \<rparr>) = files_of l"
  "files_of (l\<lparr> outline_visible := b \<rparr>) = files_of l"
  by (rule files_of_cong, simp)+

lemma move_keeps_files:
  assumes ok: "layout_ok l"
  shows "(\<Union>k. set (files_of (move_tab l i j f index) k)) = (\<Union>k. set (files_of l k))"
proof (cases "f \<in> set (files_of l i) \<and> get_pane l j \<noteq> None")
  case True
  then have m: "f \<in> set (files_of l i)" "get_pane l j \<noteq> None" by auto
  show ?thesis
  proof (intro equalityI subsetI)
    fix x assume "x \<in> (\<Union>k. set (files_of (move_tab l i j f index) k))"
    then obtain k where "x \<in> set (files_of (move_tab l i j f index) k)" by blast
    with m(1) have "x \<in> set (files_of l k) \<or> x \<in> set (files_of l i)"
      by (auto simp: move_tab_files [OF ok m] split: if_splits)
    then show "x \<in> (\<Union>k. set (files_of l k))" by blast
  next
    fix x assume "x \<in> (\<Union>k. set (files_of l k))"
    then obtain k where "x \<in> set (files_of l k)" by blast
    then have "x \<in> set (files_of (move_tab l i j f index) k) \<or> x \<in> set (files_of (move_tab l i j f index) j)"
      by (auto simp: move_tab_files [OF ok m])
    then show "x \<in> (\<Union>k. set (files_of (move_tab l i j f index) k))" by blast
  qed
qed (auto simp: move_tab_absent)

lemma split_keeps_files:
  assumes ok: "layout_ok l"
  shows "(\<Union>k. set (files_of (split_pane l i d name before) k)) = (\<Union>k. set (files_of l k))"
  using ok
proof (cases rule: split_pane_cases [where i = i and d = d and name = name and before = before])
  case (split f)
  with close_insert_files [OF ok split(1) close_tab_keeps_pane [OF ok split(3)]] show ?thesis by simp
qed simp

lemma drop_keeps_files:
  assumes ok: "layout_ok l" and dest: "get_pane l (drag_to x) \<noteq> None \<or> drag_zone x = ZoneCenter"
  shows "(\<Union>k. set (files_of (reduce_drop_tab l x) k)) = (\<Union>k. set (files_of l k))"
  using ok
proof (cases rule: reduce_drop_cases [where x = x])
  case (across d before)
  have "get_pane (close_tab l (drag_from x) (drag_file x)) (drag_to x) \<noteq> None"
    using dest across(1) get_close_tab_other [OF ok across(2)] by simp
  from close_insert_files [OF ok across(3) this] show ?thesis by (simp add: across(4))
qed (use move_keeps_files [OF ok] split_keeps_files [OF ok] in simp_all)

lemma update_keeps_files:
  assumes "\<And>p. get_pane l i = Some p \<Longrightarrow> set (open_files (f p)) = set (open_files p)"
  shows "(\<Union>k. set (files_of (update_pane l i f) k)) = (\<Union>k. set (files_of l k))"
proof -
  have "set (files_of (update_pane l i f) k) = set (files_of l k)" for k
    using assms by (cases "get_pane l i") (simp_all add: files_of_update files_of_def)
  then show ?thesis by simp
qed

text \<open>Actions that rearrange tabs and panes, and change neither the root nor the set of files.\<close>

fun rearranges :: "layout_action \<Rightarrow> layout_state \<Rightarrow> bool" where
  "rearranges (SelectFile i f) l = True"
| "rearranges (ReorderTab i f n) l = True"
| "rearranges (MoveTab i j f n) l = True"
| "rearranges (DropTab x) l \<longleftrightarrow> get_pane l (drag_to x) \<noteq> None \<or> drag_zone x = ZoneCenter"
| "rearranges (SplitPane i d f) l = True"
| "rearranges (SetActivePane i) l = True"
| "rearranges (ResizeSplit i r) l = True"
| "rearranges (SetSidebar w c) l = True"
| "rearranges (SetOutlinePanel b) l = True"
| "rearranges a l = False"

lemma pane_ok_nonempty_set: "pane_ok p \<Longrightarrow> f \<in> set (open_files p) \<Longrightarrow>
    insert f (set (open_files p)) - {''''} = set (open_files p)"
  by (auto simp: pane_ok_def)

lemma rearranges_files:
  assumes ok: "layout_ok l" and a: "rearranges a l"
  shows "(\<Union>k. set (files_of (editor_layout_reducer a l) k)) = (\<Union>k. set (files_of l k))"
proof (cases a)
  case (SelectFile i f)
  have "(\<Union>k. set (files_of (editor_layout_reducer a l) k)) = (\<Union>k. set (files_of (l\<lparr> active_pane := i \<rparr>) k))"
    unfolding SelectFile editor_layout_reducer.simps
    using get_pane_ok [OF ok] by (intro update_keeps_files) (auto simp: pane_ok_def)
  then show ?thesis by simp
next
  case (ReorderTab i f n)
  show ?thesis unfolding ReorderTab editor_layout_reducer.simps
    using get_pane_ok [OF ok] by (intro update_keeps_files) (auto simp: pane_ok_def)
qed (use a move_keeps_files [OF ok] split_keeps_files [OF ok] drop_keeps_files [OF ok] in simp_all)

subsection \<open>Where an inserted tab lands\<close>

text \<open>The position an index of an action denotes in a list of \<open>n\<close> tabs.\<close>

definition lands_at :: "js_number option \<Rightarrow> nat \<Rightarrow> nat \<Rightarrow> bool" where
  "lands_at index n k \<longleftrightarrow> k \<le> n \<and> (index = None \<longrightarrow> k = n) \<and> (index = Some None \<longrightarrow> k = 0) \<and>
     (\<forall>r. index = Some (Some r) \<longrightarrow>
        (if r \<le> 0 then k = 0 else if of_nat n \<le> r then k = n else int k = \<lfloor>r\<rfloor>))"

lemma insert_file_lands:
  "\<exists>k. lands_at index (length (without_file fs f)) k \<and>
     insert_file fs f index = take k (without_file fs f) @ f # drop k (without_file fs f)"
proof -
  define n where "n = length (without_file fs f)"
  define k where "k = (case index of None \<Rightarrow> n | Some v \<Rightarrow> nat \<lfloor>clamp_number v 0 (of_nat n)\<rfloor>)"
  have "nat \<lfloor>min (of_nat n) (max 0 r)\<rfloor> \<le> n" for r :: rat
    by (simp add: floor_le_iff nat_le_iff min_le_iff_disj)
  moreover have "nat \<lfloor>min (of_nat n) (max 0 r)\<rfloor> = n" if "of_nat n \<le> r" for r :: rat
    using that by (simp add: min_absorb1 le_max_iff_disj)
  moreover have "min (of_nat n) (max 0 r) = r" if "\<not> r \<le> 0" "\<not> of_nat n \<le> r" for r :: rat
    using that by simp
  ultimately have "lands_at index n k"
    by (auto simp: lands_at_def k_def clamp_number_def split: option.splits)
  moreover have "insert_file fs f index = take k (without_file fs f) @ f # drop k (without_file fs f)"
    by (simp only: insert_file_def k_def n_def Let_def)
  ultimately show ?thesis by (auto simp: n_def)
qed

subsection \<open>Actions without a target\<close>

lemma update_pane_same: "(\<And>p. get_pane l i = Some p \<Longrightarrow> f p = p) \<Longrightarrow> update_pane l i f = l"
  by (simp add: update_pane_def get_pane_def obj_put_same split: option.splits)

lemma resize_missing: "i \<notin> set (split_ids t) \<Longrightarrow> resize_split_node i v t = t"
  by (induction t) auto

lemma rename_path_id: "\<not> under old f \<Longrightarrow> rename_path old new f = f"
  by (auto simp: rename_path_def under_def)

lemma rename_in_pane_id:
  assumes ok: "pane_ok p" and old: "old \<noteq> ''''" and none: "\<forall>f\<in>set (open_files p). \<not> under old f"
  shows "rename_file_in_pane old new p = p"
proof -
  have "map (rename_path old new) (open_files p) = open_files p"
    using none by (intro map_idI) (auto simp: rename_path_id)
  moreover have "rename_path old new (active_file p) = active_file p"
    using ok none rename_path_empty [OF old] by (auto simp: pane_ok_def rename_path_id split: if_splits)
  ultimately show ?thesis using ok by (simp add: rename_file_in_pane_def add_all_self pane_ok_def Let_def)
qed

text \<open>An action whose pane, split or file the layout does not have.\<close>

fun target_missing :: "layout_action \<Rightarrow> layout_state \<Rightarrow> bool" where
  "target_missing (OpenFile i f) l \<longleftrightarrow> get_pane l i = None"
| "target_missing (CloseTab i f) l \<longleftrightarrow> f \<notin> set (files_of l i)"
| "target_missing (ReorderTab i f n) l \<longleftrightarrow> f \<notin> set (files_of l i)"
| "target_missing (ClosePane i) l \<longleftrightarrow> get_pane l i = None"
| "target_missing (MoveTab i j f n) l \<longleftrightarrow> f \<notin> set (files_of l i) \<or> get_pane l j = None"
| "target_missing (DropTab x) l \<longleftrightarrow> drag_file x \<notin> set (files_of l (drag_from x))"
| "target_missing (SplitPane i d name) l \<longleftrightarrow>
     (case name of None \<Rightarrow> files_of l i = [] | Some f \<Rightarrow> f \<notin> set (files_of l i))"
| "target_missing (SetActivePane i) l \<longleftrightarrow> get_pane l i = None"
| "target_missing (ResizeSplit i r) l \<longleftrightarrow> i \<notin> set (split_ids (layout_tree l))"
| "target_missing (RenameFile old new) l \<longleftrightarrow> list_all (\<lambda>f. \<not> under old f) (editor_layout_open_files l)"
| "target_missing (RemoveFile f) l \<longleftrightarrow> list_all (\<lambda>g. \<not> under f g) (editor_layout_open_files l)"
| "target_missing a l = False"

lemma not_open_under:
  assumes ok: "layout_ok l" and "list_all (\<lambda>g. \<not> under f g) (editor_layout_open_files l)"
  shows "g \<in> set (files_of l i) \<Longrightarrow> \<not> under f g"
  using assms(2) open_files_UN [OF ok] by (auto simp: list_all_iff)

lemma split_missing:
  assumes ok: "layout_ok l" and "target_missing (SplitPane i d name) l"
  shows "split_pane l i d name before = l"
proof (cases "get_pane l i")
  case (Some p)
  with assms(2) get_pane_ok [OF ok Some] show ?thesis
    by (cases name) (auto simp: split_pane_def files_of_def pane_ok_def Let_def)
qed (simp add: split_pane_def)

lemma rename_missing:
  assumes ok: "layout_ok l" and none: "list_all (\<lambda>g. \<not> under old g) (editor_layout_open_files l)"
  shows "rename_file_everywhere l old new = l"
proof (cases "old = '''' \<or> new = '''' \<or> old = new")
  case False
  have "rename_file_in_pane old new p = p" if "(i, p) \<in> set (layout_panes l)" for i p
  proof -
    have "get_pane l i = Some p"
      using ok that by (auto simp: layout_ok_def panes_ok_def get_pane_def intro: obj_get_in_distinct)
    with False not_open_under [OF ok none, of _ i] get_pane_ok [OF ok this] show ?thesis
      by (intro rename_in_pane_id) (auto simp: files_of_def)
  qed
  then have "map (\<lambda>kv. (fst kv, rename_file_in_pane old new (snd kv))) (layout_panes l) = layout_panes l"
    by (intro map_idI) auto
  then show ?thesis by (simp add: rename_file_everywhere_def)
qed (simp add: rename_file_everywhere_def)

lemma remove_missing:
  assumes ok: "layout_ok l" and none: "list_all (\<lambda>g. \<not> under f g) (editor_layout_open_files l)"
  shows "remove_file_everywhere l f = l"
proof -
  have "set (remove_targets l f) = {}"
    using not_open_under [OF ok none] remove_targets_iff [OF ok] by (metis subrelI subset_empty empty_iff)
  then show ?thesis by (simp add: remove_file_everywhere_def)
qed

lemma missing_same:
  assumes ok: "layout_ok l" and a: "target_missing a l"
  shows "editor_layout_reducer a l = l"
proof (cases a)
  case (ReorderTab i f n)
  with a show ?thesis by (auto simp: files_of_def intro!: update_pane_same)
next
  case (CloseTab i f)
  with a show ?thesis by (cases rule: close_tab_cases [of l i f]) (auto simp: files_of_def)
next
  case (ResizeSplit i r)
  with a show ?thesis by (simp add: resize_missing)
qed (use a ok in \<open>auto simp: update_pane_def remove_pane_def move_tab_absent reduce_drop_absent
  rename_missing remove_missing simp del: target_missing.simps(7) intro: split_missing\<close>)

subsection \<open>Closing a tab\<close>

lemma index_of_split: "f \<notin> set xs \<Longrightarrow> index_of (xs @ f # ys) f = int (length xs)"
proof -
  have "f \<notin> set zs \<Longrightarrow> takeWhile (\<lambda>y. y \<noteq> f) (zs @ f # ys) = zs" for zs by (induction zs) auto
  then show "f \<notin> set xs \<Longrightarrow> ?thesis" by (simp add: index_of_def)
qed

lemma without_file_split: "f \<notin> set xs \<Longrightarrow> f \<notin> set ys \<Longrightarrow> without_file (xs @ f # ys) f = xs @ ys"
proof -
  have "f \<notin> set zs \<Longrightarrow> filter (\<lambda>e. e \<noteq> f) zs = zs" for zs by (induction zs) auto
  then show "f \<notin> set xs \<Longrightarrow> f \<notin> set ys \<Longrightarrow> ?thesis" by (simp add: without_file_def)
qed

lemma next_active_neighbour:
  assumes "xs @ ys \<noteq> []"
  shows "(case elem_at (xs @ ys) (int (length xs)) of Some g \<Rightarrow> g
      | None \<Rightarrow> (case elem_at (xs @ ys) (int (length xs) - 1) of Some g \<Rightarrow> g | None \<Rightarrow> first_file (xs @ ys))) =
    (if ys \<noteq> [] then hd ys else last xs)"
proof (cases ys)
  case Nil
  with assms have "xs \<noteq> []" by simp
  moreover from this have "nat (int (length xs) - 1) = length xs - 1" by simp
  ultimately show ?thesis using Nil by (simp add: elem_at_def last_conv_nth Suc_le_eq)
qed (simp add: elem_at_def nth_append)

lemma close_tab_pane:
  assumes ok: "layout_ok l" and p: "get_pane l i = Some p" and files: "open_files p = xs @ f # ys"
    and kept: "xs @ ys \<noteq> [] \<or> length (editor_layout_pane_ids l) \<le> 1"
  shows "map_option (\<lambda>q. (open_files q, active_file q)) (get_pane (close_tab l i f) i) =
    Some (xs @ ys, if xs @ ys = [] then '''' else if active_file p \<noteq> f then active_file p
      else if ys \<noteq> [] then hd ys else last xs)"
proof -
  have f: "f \<notin> set xs" "f \<notin> set ys" "tab_order p = xs @ f # ys"
    using get_pane_ok [OF ok p] files by (auto simp: pane_ok_def)
  have in_f: "f \<in> set (open_files p)" by (simp add: files)
  note w = without_file_split [OF f(1, 2)] index_of_split [OF f(1)]
  show ?thesis
  proof (cases "xs @ ys = []")
    case True
    with kept p in_f show ?thesis
      by (simp add: close_tab_def files f(3) without_file_def with_pane_files_def ordered_files_def add_new_def Let_def)
  next
    case False
    define a where "a = (if active_file p \<noteq> f then active_file p else if ys \<noteq> [] then hd ys else last xs)"
    have c: "close_tab l i f = update_pane l i (\<lambda>q. with_pane_files q (xs @ ys) a)"
    proof -
      have "without_file (open_files p) f \<noteq> []" unfolding files w using False .
      with p in_f have "close_tab l i f = update_pane l i (\<lambda>q. with_pane_files q (without_file (open_files p) f)
          (if active_file p = f then (case elem_at (without_file (open_files p) f) (index_of (tab_order p) f) of
              Some g \<Rightarrow> g | None \<Rightarrow> (case elem_at (without_file (open_files p) f) (index_of (tab_order p) f - 1) of
                Some g \<Rightarrow> g | None \<Rightarrow> first_file (without_file (open_files p) f)))
           else active_file p))"
        by (simp add: close_tab_def Let_def)
      then show ?thesis unfolding files f(3) w next_active_neighbour [OF False] by (auto simp: a_def)
    qed
    have a_in: "a \<in> set (xs @ ys)"
    proof (cases "active_file p = f")
      case True
      then show ?thesis using False by (cases ys) (simp_all add: a_def)
    next
      case ne: False
      have "active_file p \<in> set (xs @ f # ys)" using get_pane_ok [OF ok p] by (simp add: pane_ok_def files)
      with ne show ?thesis by (auto simp: a_def)
    qed
    moreover have "distinct (xs @ ys)" "'''' \<notin> set (xs @ ys)"
      using get_pane_ok [OF ok p] files by (auto simp: pane_ok_def)
    ultimately have "ordered_files a (xs @ ys) [] = xs @ ys" by (intro ordered_files_known) auto
    moreover have "a \<noteq> ''''" using a_in \<open>'''' \<notin> set (xs @ ys)\<close> by blast
    ultimately show ?thesis using p False by (simp add: c with_pane_files_def a_def Let_def)
  qed
qed

subsection \<open>Concrete layouts\<close>

definition two_panes :: layout_state where
  "two_panes = \<lparr> layout_root = ''r'', active_pane = ''pane-1'',
     layout_tree = SplitNode ''split-1'' Row 50 (PaneNode ''pane-1'') (PaneNode ''pane-2''),
     layout_panes = [(''pane-1'', \<lparr> pane_id = ''pane-1'', open_files = [''a'', ''src/b''],
        active_file = ''a'', tab_order = [''a'', ''src/b''] \<rparr>),
       (''pane-2'', \<lparr> pane_id = ''pane-2'', open_files = [''c''], active_file = ''c'', tab_order = [''c''] \<rparr>)],
     sidebar_width = 240, sidebar_collapsed = False, outline_visible = True \<rparr>"

lemma two_panes_ok: "layout_ok two_panes" "active_ok two_panes"
  by (simp_all add: two_panes_def layout_ok_def tree_ok_def editor_layout_pane_ids_def panes_ok_def obj_keys_def
      pane_ok_def ratio_ok_def min_split_ratio_def max_split_ratio_def active_ok_def)

lemma two_panes_get:
  "get_pane two_panes ''pane-1'' = Some \<lparr> pane_id = ''pane-1'', open_files = [''a'', ''src/b''],
     active_file = ''a'', tab_order = [''a'', ''src/b''] \<rparr>"
  "get_pane two_panes ''pane-2'' = Some \<lparr> pane_id = ''pane-2'', open_files = [''c''],
     active_file = ''c'', tab_order = [''c''] \<rparr>"
  "get_pane two_panes ''pane-9'' = None"
  by (simp_all add: get_pane_def two_panes_def obj_get_def)

lemma two_panes_files: "files_of two_panes ''pane-1'' = [''a'', ''src/b'']" "files_of two_panes ''pane-2'' = [''c'']"
  by (simp_all add: files_of_def two_panes_get)

subsection \<open>Properties\<close>

text \<open>
  The active pane stays a pane of the layout through every action except one: selecting a
  file in a pane that does not exist leaves the layout pointing at that missing pane. Even then the
  pane the editor shows is one of the layout's own.
\<close>

theorem active_pane_resolves:
  assumes "layout_ok l" and "active_ok l"
  shows "(active_ok (editor_layout_reducer a l) \<longleftrightarrow> \<not> (\<exists>i f. a = SelectFile i f \<and> get_pane l i = None)) \<and>
    (let l' = editor_layout_reducer a l
     in get_pane l' (pane_id (active_editor_pane l')) = Some (active_editor_pane l'))"
proof -
  have "\<not> active_ok (editor_layout_reducer (SelectFile i f) l)" if "get_pane l i = None" for i f
    using that get_pane_iff [OF assms(1), of i] by (simp add: active_ok_def)
  moreover have "active_ok (editor_layout_reducer a l)" if "\<not> (\<exists>i f. a = SelectFile i f \<and> get_pane l i = None)"
    using that by (intro active_ok_reducer [OF assms]) auto
  ultimately have "active_ok (editor_layout_reducer a l) \<longleftrightarrow> \<not> (\<exists>i f. a = SelectFile i f \<and> get_pane l i = None)"
    by blast
  moreover have "get_pane k (pane_id (active_editor_pane k)) = Some (active_editor_pane k)" if ok: "layout_ok k" for k
  proof (cases "get_pane k (active_pane k)")
    case None
    have "hd (editor_layout_pane_ids k) \<in> set (editor_layout_pane_ids k)"
      by (rule hd_in_set) (simp add: editor_layout_pane_ids_def)
    then obtain p where "p \<in> set (editor_layout_panes k)"
      using get_pane_iff [OF ok] set_editor_panes by (metis not_None_eq)
    then have "active_editor_pane k \<in> set (editor_layout_panes k)"
      using None by (cases "editor_layout_panes k") (simp_all add: active_editor_pane_def)
    then show ?thesis using set_editor_panes get_pane_id [OF ok] by metis
  next
    case (Some p)
    with get_pane_id [OF ok Some] show ?thesis by (simp add: active_editor_pane_def)
  qed
  ultimately show ?thesis using layout_ok_reducer [OF assms(1)] by (simp add: Let_def)
qed

theorem active_pane_resolves_witness:
  "\<not> active_ok (editor_layout_reducer (SelectFile ''pane-9'' ''a'') two_panes) \<and>
   active_ok (editor_layout_reducer (ClosePane ''pane-1'') two_panes)"
  using active_pane_resolves [OF two_panes_ok, of "SelectFile ''pane-9'' ''a''"]
    active_pane_resolves [OF two_panes_ok, of "ClosePane ''pane-1''"] two_panes_get(3) by blast

text \<open>
  Rearranging loses and invents no file: selecting, reordering, moving, dropping onto an
  existing pane, splitting, resizing and the panel settings leave the set of open files as it was.
\<close>

theorem rearranging_keeps_open_files:
  assumes "layout_ok l" and "rearranges a l"
  shows "set (editor_layout_open_files (editor_layout_reducer a l)) = set (editor_layout_open_files l)"
  using rearranges_files [OF assms] open_files_UN [OF assms(1)] open_files_UN [OF layout_ok_reducer [OF assms(1)]]
  by simp

definition drop_c :: drag_intent where
  "drop_c = \<lparr> drag_file = ''c'', drag_from = ''pane-2'', drag_to = ''pane-1'', drag_zone = ZoneTop, drag_index = None \<rparr>"

theorem rearranging_keeps_open_files_witness:
  "set (editor_layout_open_files (editor_layout_reducer (DropTab drop_c) two_panes)) =
    set (editor_layout_open_files two_panes)"
  by (rule rearranging_keeps_open_files [OF two_panes_ok(1)]) (simp add: drop_c_def two_panes_get)

text \<open>
  Closing a tab takes it out of its pane, keeping the order of the others; the active tab
  hands over to its right neighbour, or to the left one at the end. A pane that loses its last tab
  disappears from the tree when it is not the only pane, and no other pane changes.
\<close>

theorem close_tab_collapses_empty_pane:
  assumes "layout_ok l" and "get_pane l i = Some p" and "open_files p = xs @ f # ys"
  shows "let l' = editor_layout_reducer (CloseTab i f) l in
    (if xs @ ys = [] \<and> 1 < length (editor_layout_pane_ids l)
     then get_pane l' i = None \<and> editor_layout_pane_ids l' = filter (\<lambda>k. k \<noteq> i) (editor_layout_pane_ids l)
     else editor_layout_pane_ids l' = editor_layout_pane_ids l \<and>
       map_option (\<lambda>q. (open_files q, active_file q)) (get_pane l' i) =
         Some (xs @ ys, if xs @ ys = [] then '''' else if active_file p \<noteq> f then active_file p
           else if ys \<noteq> [] then hd ys else last xs)) \<and>
    (\<forall>j. j \<noteq> i \<longrightarrow> get_pane l' j = get_pane l j)"
proof -
  have single: "files_of l i = [f] \<longleftrightarrow> xs @ ys = []"
    using assms(2, 3) by (auto simp: files_of_def append_eq_Cons_conv)
  have ids: "editor_layout_pane_ids (close_tab l i f) =
      (if xs @ ys = [] \<and> 1 < length (editor_layout_pane_ids l)
       then filter (\<lambda>k. k \<noteq> i) (editor_layout_pane_ids l) else editor_layout_pane_ids l)"
    using pane_ids_close [OF assms(1), of i f] by (simp only: single)
  have gone: "get_pane (close_tab l i f) i = None" if "xs @ ys = [] \<and> 1 < length (editor_layout_pane_ids l)"
    using get_pane_iff [OF layout_ok_close_tab [OF assms(1), of i f], of i] that by (simp add: ids)
  show ?thesis
  proof (cases "xs @ ys = [] \<and> 1 < length (editor_layout_pane_ids l)")
    case True
    then show ?thesis using ids gone get_close_tab_other [OF assms(1)] by (simp add: Let_def)
  next
    case False
    then have "xs @ ys \<noteq> [] \<or> length (editor_layout_pane_ids l) \<le> 1" by linarith
    from close_tab_pane [OF assms this] False show ?thesis
      using ids get_close_tab_other [OF assms(1)] by (simp only: Let_def editor_layout_reducer.simps if_False) simp
  qed
qed

theorem close_tab_collapses_empty_pane_witness:
  "get_pane (editor_layout_reducer (CloseTab ''pane-2'' ''c'') two_panes) ''pane-2'' = None \<and>
   map_option active_file (get_pane (editor_layout_reducer (CloseTab ''pane-1'' ''a'') two_panes) ''pane-1'') = Some ''src/b''"
proof -
  have ids: "editor_layout_pane_ids two_panes = [''pane-1'', ''pane-2'']"
    by (simp add: editor_layout_pane_ids_def two_panes_def)
  show ?thesis
    using close_tab_collapses_empty_pane [OF two_panes_ok(1) two_panes_get(2), of "[]" "''c''" "[]"]
      close_tab_collapses_empty_pane [OF two_panes_ok(1) two_panes_get(1), of "[]" "''a''" "[''src/b'']"]
    by (auto simp: ids Let_def)
qed

text \<open>
  A tab moved into a pane, its own or another, lands at the position asked for, clamped to
  the pane; the other tabs keep their order, a different source pane loses the tab, no third pane
  changes, and the moved file is the active one of its pane.
\<close>

theorem moved_tab_lands_in_place:
  assumes "layout_ok l" and "f \<in> set (files_of l i)" and "get_pane l j \<noteq> None"
  shows "let l' = editor_layout_reducer (MoveTab i j f index) l in
    (\<exists>k. lands_at index (length (without_file (files_of l j) f)) k \<and>
      files_of l' j = take k (without_file (files_of l j) f) @ f # drop k (without_file (files_of l j) f)) \<and>
    (i \<noteq> j \<longrightarrow> files_of l' i = without_file (files_of l i) f \<and> active_pane l' = j) \<and>
    (\<forall>h. h \<noteq> i \<and> h \<noteq> j \<longrightarrow> files_of l' h = files_of l h) \<and>
    map_option active_file (get_pane l' j) = Some f"
proof -
  obtain k where k: "lands_at index (length (without_file (files_of l j) f)) k"
    "insert_file (files_of l j) f index = take k (without_file (files_of l j) f) @ f # drop k (without_file (files_of l j) f)"
    using insert_file_lands by blast
  note m = move_tab_moves [OF assms]
  have "map_option active_file (get_pane (move_tab l i j f index) j) = Some f"
    using m(3, 4) by (auto simp: m(1) with_pane_files_def Let_def)
  moreover have "active_pane (move_tab l i j f index) = j" if "i \<noteq> j" using that by (simp add: m(1))
  ultimately show ?thesis using k by (auto simp: move_tab_files [OF assms] Let_def)
qed

theorem moved_tab_lands_in_place_witness:
  "files_of (editor_layout_reducer (MoveTab ''pane-2'' ''pane-1'' ''c'' (Some (Some 1))) two_panes) ''pane-1'' =
    [''a'', ''c'', ''src/b'']"
  using moved_tab_lands_in_place [OF two_panes_ok(1), of "''c''" "''pane-2''" "''pane-1''" "Some (Some 1)"]
  by (auto simp: two_panes_files two_panes_get without_file_def lands_at_def Let_def)

text \<open>
  Tabs follow files on disk. After a rename every pane shows its files under their new
  names, in the same order and once each, and the panes themselves stay; after a deletion exactly the
  deleted file and everything below it has closed, in every pane.
\<close>

theorem tabs_follow_disk_changes:
  assumes "layout_ok l" and "old \<noteq> ''''"
  shows "(new \<noteq> '''' \<and> old \<noteq> new \<longrightarrow>
      files_of (editor_layout_reducer (RenameFile old new) l) i = add_all [] (map (rename_path old new) (files_of l i)) \<and>
      editor_layout_pane_ids (editor_layout_reducer (RenameFile old new) l) = editor_layout_pane_ids l) \<and>
    files_of (editor_layout_reducer (RemoveFile old) l) i =
      filter (\<lambda>g. \<not> (g = old \<or> starts_with (old @ ''/'') g)) (files_of l i)"
  using rename_files [OF assms] remove_file_files [OF assms] by (simp add: under_def)

theorem tabs_follow_disk_changes_witness:
  "files_of (editor_layout_reducer (RenameFile ''src'' ''lib'') two_panes) ''pane-1'' = [''a'', ''lib/b''] \<and>
   files_of (editor_layout_reducer (RemoveFile ''src'') two_panes) ''pane-1'' = [''a'']"
  using tabs_follow_disk_changes [OF two_panes_ok(1), of "''src''" "''lib''" "''pane-1''"]
  by (simp add: two_panes_files rename_path_def starts_with_def add_new_def)

text \<open>
  An action whose pane, tab, split or file the layout does not have changes nothing at
  all: the reducer returns the layout it was given.
\<close>

theorem missing_target_changes_nothing:
  assumes "layout_ok l" and "target_missing a l"
  shows "editor_layout_reducer a l = l"
  using assms by (rule missing_same)

theorem missing_target_changes_nothing_witness:
  "editor_layout_reducer (MoveTab ''pane-1'' ''pane-2'' ''c'' None) two_panes = two_panes"
  by (rule missing_target_changes_nothing [OF two_panes_ok(1)]) (simp add: two_panes_files)

text \<open>
  The two actions left out above do act on a missing pane: \<open>select-file\<close> points the layout at it, and
  a file dropped beside a missing pane is closed.
\<close>

lemma drop_on_missing_pane_loses_file:
  "editor_layout_open_files (editor_layout_reducer (DropTab (drop_c\<lparr> drag_to := ''pane-9'' \<rparr>)) two_panes) =
    [''a'', ''src/b'']"
  by code_simp

end
