(* ===== verification/Layout_Persistence.thy ===== *)
theory Layout_Persistence
  imports Layout_Properties
begin

text \<open>
  Persisted layouts (\<open>packages/keiko-contracts/src/editor-layout.ts\<close>): the layout of an untrusted JSON
  text, in either schema version, and its serialization. Numbers of JSON text are exact rationals;
  those too large for a double count as infinite.
\<close>

record layout_input =
  in_root :: string
  in_file :: string
  in_open_files :: "string list"
  in_layout_json :: "string option"
  in_default_width :: rat
  in_min_width :: rat
  in_max_width :: rat

subsection \<open>Reading JSON values\<close>

definition json_number :: "rat \<Rightarrow> js_number" where
  "json_number r = (if \<bar>r\<bar> < 2 ^ 1024 - 2 ^ 970 then Some r else None)"

definition finite_field :: "jvalue obj \<Rightarrow> string \<Rightarrow> rat option" where
  "finite_field kvs k = (case obj_get kvs k of Some (JNum r) \<Rightarrow> json_number r | _ \<Rightarrow> None)"

fun json_strings :: "jvalue list \<Rightarrow> string list" where
  "json_strings [] = []"
| "json_strings (JStr s # vs) = s # json_strings vs"
| "json_strings (v # vs) = json_strings vs"

definition string_array :: "jvalue option \<Rightarrow> string list" where
  "string_array v = (case v of Some (JArr vs) \<Rightarrow> add_all [] (json_strings vs) | _ \<Rightarrow> [])"

definition string_field :: "jvalue obj \<Rightarrow> string \<Rightarrow> string option" where
  "string_field kvs k = (case obj_get kvs k of Some (JStr s) \<Rightarrow> Some s | _ \<Rightarrow> None)"

definition normalized_active_file :: "jvalue obj \<Rightarrow> string" where
  "normalized_active_file kvs = (case string_field kvs ''activeFile'' of
     Some s \<Rightarrow> s
   | None \<Rightarrow> (case string_field kvs ''file'' of Some s \<Rightarrow> s | None \<Rightarrow> ''''))"

definition nonempty_field :: "jvalue obj \<Rightarrow> string \<Rightarrow> string \<Rightarrow> string" where
  "nonempty_field kvs k d =
     (case string_field kvs k of Some s \<Rightarrow> (if s \<noteq> '''' then s else d) | None \<Rightarrow> d)"

definition is_array :: "jvalue option \<Rightarrow> bool" where
  "is_array v = (case v of Some (JArr vs) \<Rightarrow> True | _ \<Rightarrow> False)"

definition normalize_pane :: "jvalue \<Rightarrow> string \<Rightarrow> pane_state option" where
  "normalize_pane v fallback = (case v of
     JObj kvs \<Rightarrow>
       (let active = normalized_active_file kvs;
            p = create_pane (nonempty_field kvs ''id'' fallback) active
              (ordered_files active (string_array (obj_get kvs ''openFiles''))
                 (string_array (obj_get kvs ''tabOrder'')));
            explicitly_empty = (is_array (obj_get kvs ''openFiles'') \<and>
              (string_field kvs ''activeFile'' \<noteq> None \<or> string_field kvs ''file'' \<noteq> None))
        in if open_files p \<noteq> [] \<or> active_file p \<noteq> '''' \<or> explicitly_empty then Some p else None)
   | _ \<Rightarrow> None)"

definition parse_direction :: "jvalue option \<Rightarrow> split_direction" where
  "parse_direction v = (if v = Some (JStr ''column'') then Column else Row)"

subsection \<open>Panes\<close>

definition unsafe_pane_ids :: "string list" where
  "unsafe_pane_ids = [''__proto__'', ''constructor'', ''prototype'']"

definition is_safe_pane_id :: "string \<Rightarrow> bool" where
  "is_safe_pane_id i \<longleftrightarrow> i \<noteq> '''' \<and> i \<notin> set unsafe_pane_ids"

definition normalize_pane_record :: "jvalue option \<Rightarrow> pane_state obj" where
  "normalize_pane_record v = (case v of
     Some (JObj kvs) \<Rightarrow>
       foldl (\<lambda>ps kv.
         if \<not> is_safe_pane_id (fst kv) then ps
         else case normalize_pane (snd kv) (fst kv) of
           None \<Rightarrow> ps
         | Some p \<Rightarrow> if is_safe_pane_id (pane_id p) then obj_put (pane_id p) p ps else ps) [] kvs
   | _ \<Rightarrow> [])"

fun normalize_panes_from :: "nat \<Rightarrow> jvalue list \<Rightarrow> pane_state list" where
  "normalize_panes_from n [] = []"
| "normalize_panes_from n (v # vs) =
     (case normalize_pane v (''pane-'' @ nat_digits n) of
        None \<Rightarrow> normalize_panes_from (n + 1) vs
      | Some p \<Rightarrow> p # normalize_panes_from (n + 1) vs)"

definition normalize_pane_list :: "jvalue option \<Rightarrow> pane_state list" where
  "normalize_pane_list v = (case v of Some (JArr vs) \<Rightarrow> normalize_panes_from 1 vs | _ \<Rightarrow> [])"

definition structurally_useful_panes :: "pane_state list \<Rightarrow> jvalue option \<Rightarrow> pane_state list" where
  "structurally_useful_panes ps preferred =
     (let populated = filter (\<lambda>p. open_files p \<noteq> []) ps
      in if populated \<noteq> [] then populated
         else case (case preferred of Some (JStr i) \<Rightarrow> find (\<lambda>p. pane_id p = i) ps | _ \<Rightarrow> None) of
           Some p \<Rightarrow> [p]
         | None \<Rightarrow> (case ps of [] \<Rightarrow> [] | p # r \<Rightarrow> [p]))"

definition pane_record :: "pane_state list \<Rightarrow> pane_state obj" where
  "pane_record ps = foldl (\<lambda>r p. if is_safe_pane_id (pane_id p) then obj_put (pane_id p) p r else r) [] ps"

subsection \<open>The tree\<close>

definition normalize_pane_node :: "jvalue obj \<Rightarrow> pane_state obj \<Rightarrow> layout_node option" where
  "normalize_pane_node kvs ps =
     (if obj_get kvs ''type'' = Some (JStr ''pane'') then
        (case string_field kvs ''paneId'' of
           Some i \<Rightarrow> if is_safe_pane_id i \<and> obj_get ps i \<noteq> None then Some (PaneNode i) else None
         | None \<Rightarrow> None)
      else None)"

lemma obj_get_size:
  assumes "obj_get kvs k = Some v"
  shows "size v < size (JObj kvs :: jvalue)"
proof -
  have "size v \<le> size_list (size_prod (\<lambda>c. 0) size) kvs"
    by (rule size_list_estimation' [of "(k, v)"]) (use assms in \<open>simp_all add: obj_get_Some_in\<close>)
  then show ?thesis by simp
qed

function (sequential) normalize_tree :: "pane_state obj \<Rightarrow> jvalue \<Rightarrow> layout_node option" where
  "normalize_tree ps (JObj kvs) =
     (case normalize_pane_node kvs ps of
        Some n \<Rightarrow> Some n
      | None \<Rightarrow>
          if obj_get kvs ''type'' \<noteq> Some (JStr ''split'') then None
          else
            let a = (case obj_get kvs ''first'' of None \<Rightarrow> None | Some v \<Rightarrow> normalize_tree ps v);
                b = (case obj_get kvs ''second'' of None \<Rightarrow> None | Some v \<Rightarrow> normalize_tree ps v)
            in case a of
                 None \<Rightarrow> b
               | Some x \<Rightarrow>
                   (case b of
                      None \<Rightarrow> Some x
                    | Some y \<Rightarrow> Some (SplitNode (nonempty_field kvs ''id'' ''split-1'')
                        (parse_direction (obj_get kvs ''direction''))
                        (clamp_ratio (Some (case finite_field kvs ''ratio'' of Some r \<Rightarrow> r | None \<Rightarrow> 50))) x y)))"
| "normalize_tree ps v = None"
  by pat_completeness auto

termination normalize_tree
  by (relation "measure (\<lambda>(ps, v). size v)") (auto dest: obj_get_size)

text \<open>The panes a tree shows; a repeated id writes the same entry again.\<close>

definition visible_panes_for_tree :: "layout_node \<Rightarrow> pane_state obj \<Rightarrow> pane_state obj" where
  "visible_panes_for_tree t ps = foldl (\<lambda>r i. case obj_get ps i of None \<Rightarrow> r | Some p \<Rightarrow> obj_put i p r) []
     (pane_ids_from_tree t)"

subsection \<open>Layouts\<close>

definition persisted_sidebar_width :: "jvalue obj \<Rightarrow> layout_input \<Rightarrow> rat" where
  "persisted_sidebar_width kvs inp = (case finite_field kvs ''sidebarWidth'' of
     Some r \<Rightarrow> clamp_number (Some r) (in_min_width inp) (in_max_width inp)
   | None \<Rightarrow> in_default_width inp)"

definition active_pane_id_from_record :: "jvalue obj \<Rightarrow> pane_state obj \<Rightarrow> string \<Rightarrow> string" where
  "active_pane_id_from_record kvs ps fallback = (case string_field kvs ''activePaneId'' of
     Some i \<Rightarrow> if obj_get ps i \<noteq> None then i else fallback
   | None \<Rightarrow> fallback)"

definition parse_v2 :: "string \<Rightarrow> jvalue obj \<Rightarrow> layout_input \<Rightarrow> layout_state option" where
  "parse_v2 r kvs inp =
     (let ps = pane_record (structurally_useful_panes
                 (map snd (normalize_pane_record (obj_get kvs ''panes''))) (obj_get kvs ''activePaneId''))
      in case obj_keys ps of
           [] \<Rightarrow> None
         | first_id # rest \<Rightarrow>
             let t = (case (case obj_get kvs ''tree'' of None \<Rightarrow> None | Some v \<Rightarrow> normalize_tree ps v) of
                        Some n \<Rightarrow> n | None \<Rightarrow> PaneNode first_id);
                 visible = visible_panes_for_tree t ps
             in Some \<lparr> layout_root = r,
                  active_pane = active_pane_id_from_record kvs visible (hd (pane_ids_from_tree t)),
                  layout_tree = t, layout_panes = visible,
                  sidebar_width = persisted_sidebar_width kvs inp,
                  sidebar_collapsed = (obj_get kvs ''sidebarCollapsed'' = Some (JBool True)),
                  outline_visible = (obj_get kvs ''outlinePanelVisible'' \<noteq> Some (JBool False)) \<rparr>)"

definition v1_tree :: "pane_state \<Rightarrow> pane_state option \<Rightarrow> jvalue obj \<Rightarrow> layout_node" where
  "v1_tree p q kvs = (case q of
     None \<Rightarrow> PaneNode (pane_id p)
   | Some q \<Rightarrow> SplitNode ''split-1'' (parse_direction (obj_get kvs ''direction''))
       (case finite_field kvs ''splitRatio'' of Some r \<Rightarrow> clamp_ratio (Some r) | None \<Rightarrow> 50)
       (PaneNode (pane_id p)) (PaneNode (pane_id q)))"

definition parse_v1 :: "string \<Rightarrow> jvalue obj \<Rightarrow> layout_input \<Rightarrow> layout_state option" where
  "parse_v1 r kvs inp =
     (case structurally_useful_panes (normalize_pane_list (obj_get kvs ''panes'')) (obj_get kvs ''activePaneId'') of
        [] \<Rightarrow> None
      | p # rest \<Rightarrow>
          let ps = pane_record (p # rest)
          in Some \<lparr> layout_root = r, active_pane = active_pane_id_from_record kvs ps (pane_id p),
               layout_tree = v1_tree p (case rest of [] \<Rightarrow> None | q # qs \<Rightarrow> Some q) kvs, layout_panes = ps,
               sidebar_width = persisted_sidebar_width kvs inp,
               sidebar_collapsed = (obj_get kvs ''sidebarCollapsed'' = Some (JBool True)),
               outline_visible = (obj_get kvs ''outlinePanelVisible'' \<noteq> Some (JBool False)) \<rparr>)"

text \<open>\<open>a ?? b\<close> on a possibly missing or null field.\<close>

definition schema_version :: "jvalue obj \<Rightarrow> jvalue option" where
  "schema_version kvs = (case obj_get kvs ''schemaVersion'' of
     None \<Rightarrow> obj_get kvs ''version''
   | Some JNull \<Rightarrow> obj_get kvs ''version''
   | Some v \<Rightarrow> Some v)"

definition parse_persisted_layout :: "layout_input \<Rightarrow> layout_state option" where
  "parse_persisted_layout inp = (case in_layout_json inp of
     None \<Rightarrow> None
   | Some text_in \<Rightarrow>
       if is_blank text_in then None
       else case json_parse text_in of
         Some (JObj kvs) \<Rightarrow>
           (if schema_version kvs = Some (JNum 2) \<or> schema_version kvs = Some (JStr ''2'')
            then parse_v2 (in_root inp) kvs inp else parse_v1 (in_root inp) kvs inp)
       | _ \<Rightarrow> None)"

definition create_editor_layout_state :: "layout_input \<Rightarrow> layout_state" where
  "create_editor_layout_state inp = (case parse_persisted_layout inp of
     Some l \<Rightarrow> l
   | None \<Rightarrow>
       let active = (if in_file inp \<noteq> '''' then in_file inp else first_file (in_open_files inp));
           p = create_pane ''pane-1'' active (in_open_files inp)
       in \<lparr> layout_root = in_root inp, active_pane = pane_id p, layout_tree = PaneNode (pane_id p),
            layout_panes = [(pane_id p, p)], sidebar_width = in_default_width inp,
            sidebar_collapsed = False, outline_visible = True \<rparr>)"

subsection \<open>Serialization\<close>

fun direction_text :: "split_direction \<Rightarrow> string" where
  "direction_text Row = ''row''"
| "direction_text Column = ''column''"

fun node_json :: "layout_node \<Rightarrow> jvalue" where
  "node_json (PaneNode i) = JObj [(''type'', JStr ''pane''), (''paneId'', JStr i)]"
| "node_json (SplitNode s d r a b) = JObj [(''type'', JStr ''split''), (''id'', JStr s),
     (''direction'', JStr (direction_text d)), (''ratio'', JNum r),
     (''first'', node_json a), (''second'', node_json b)]"

definition pane_json :: "pane_state \<Rightarrow> jvalue" where
  "pane_json p = JObj [(''id'', JStr (pane_id p)), (''openFiles'', JArr (map JStr (open_files p))),
     (''activeFile'', JStr (active_file p)), (''tabOrder'', JArr (map JStr (tab_order p)))]"

definition layout_json :: "layout_state \<Rightarrow> jvalue" where
  "layout_json l = JObj [(''schemaVersion'', JNum 2), (''root'', JStr (layout_root l)),
     (''activePaneId'', JStr (active_pane l)), (''tree'', node_json (layout_tree l)),
     (''panes'', JObj (map (\<lambda>kv. (fst kv, pane_json (snd kv))) (layout_panes l))),
     (''sidebarWidth'', JNum (js_round (sidebar_width l))),
     (''sidebarCollapsed'', JBool (sidebar_collapsed l)),
     (''outlinePanelVisible'', JBool (outline_visible l))]"

definition serialize_layout :: "layout_state \<Rightarrow> string" where
  "serialize_layout l = stringify_value (layout_json l)"

end
