(* ===== verification/Layout_Roundtrip.thy ===== *)
theory Layout_Roundtrip
  imports Layout_Persistence
begin

text \<open>
  What persistence of editor layouts promises: a written layout is read back as it was, whatever text
  is read yields panes the tree can show, and every layout the editor reaches is valid.
\<close>

subsection \<open>Objects in own-key order\<close>

definition rebuilt :: "'v obj \<Rightarrow> 'v obj" where
  "rebuilt ob = foldl (\<lambda>a kv. obj_put (fst kv) (snd kv) a) [] ob"

lemma obj_insert_map: "obj_insert_index k (f v) (map (\<lambda>kv. (fst kv, f (snd kv))) ob) =
    map (\<lambda>kv. (fst kv, f (snd kv))) (obj_insert_index k v ob)"
  by (induction k v ob rule: obj_insert_index.induct) auto

lemma obj_replace_map: "obj_replace k (f v) (map (\<lambda>kv. (fst kv, f (snd kv))) ob) =
    map (\<lambda>kv. (fst kv, f (snd kv))) (obj_replace k v ob)"
  by (induction k v ob rule: obj_replace.induct) auto

lemma obj_put_map: "obj_put k (f v) (map (\<lambda>kv. (fst kv, f (snd kv))) ob) =
    map (\<lambda>kv. (fst kv, f (snd kv))) (obj_put k v ob)"
  by (simp add: obj_put_def obj_keys_def obj_insert_map obj_replace_map comp_def)

lemma rebuilt_map: "rebuilt (map (\<lambda>kv. (fst kv, f (snd kv))) ob) = map (\<lambda>kv. (fst kv, f (snd kv))) (rebuilt ob)"
proof -
  have "foldl (\<lambda>a kv. obj_put (fst kv) (snd kv) a) (map (\<lambda>kv. (fst kv, f (snd kv))) acc)
      (map (\<lambda>kv. (fst kv, f (snd kv))) ob) =
    map (\<lambda>kv. (fst kv, f (snd kv))) (foldl (\<lambda>a kv. obj_put (fst kv) (snd kv) a) acc ob)" for acc
    by (induction ob arbitrary: acc) (simp_all add: obj_put_map)
  from this [of "[]"] show ?thesis by (simp add: rebuilt_def)
qed

lemma foldl_put_get:
  "obj_get (foldl (\<lambda>r i. case g i of None \<Rightarrow> r | Some p \<Rightarrow> obj_put i p r) acc is) i =
    (if i \<in> set is \<and> g i \<noteq> None then g i else obj_get acc i)"
  by (induction "is" arbitrary: acc) (auto simp: obj_get_put split: option.splits)

lemma foldl_put_keys:
  "distinct (obj_keys acc) \<Longrightarrow>
    distinct (obj_keys (foldl (\<lambda>r i. case g i of None \<Rightarrow> r | Some p \<Rightarrow> obj_put i p r) acc is))"
  by (induction "is" arbitrary: acc) (auto simp: distinct_keys_put split: option.splits)

lemma visible_get:
  "obj_get (visible_panes_for_tree t ps) i = (if i \<in> set (pane_ids_from_tree t) then obj_get ps i else None)"
  by (auto simp: visible_panes_for_tree_def foldl_put_get)

subsection \<open>The layout of a text\<close>

definition panes_named :: "pane_state obj \<Rightarrow> bool" where
  "panes_named ps \<longleftrightarrow> (\<forall>i p. obj_get ps i = Some p \<longrightarrow> pane_id p = i \<and> pane_ok p)"

lemma normalize_pane_ok:
  assumes "normalize_pane v k = Some p"
  shows "pane_ok p"
proof (cases v)
  case (JObj kvs)
  define q where "q = create_pane (nonempty_field kvs ''id'' k) (normalized_active_file kvs)
      (ordered_files (normalized_active_file kvs) (string_array (obj_get kvs ''openFiles''))
        (string_array (obj_get kvs ''tabOrder'')))"
  have "normalize_pane v k \<in> {Some q, None}"
    unfolding JObj normalize_pane_def json.case Let_def q_def [symmetric] by simp
  then have "p = q" unfolding assms by blast
  then show ?thesis unfolding q_def using pane_ok_create by blast
qed (use assms in \<open>simp_all add: normalize_pane_def\<close>)

lemma panes_named_put: "panes_named ps \<Longrightarrow> pane_ok p \<Longrightarrow> panes_named (obj_put (pane_id p) p ps)"
  by (simp add: panes_named_def obj_get_put)

lemma pane_record_named:
  assumes "\<forall>p\<in>set xs. pane_ok p"
  shows "panes_named (pane_record xs)"
proof -
  have "panes_named (foldl (\<lambda>r p. if is_safe_pane_id (pane_id p) then obj_put (pane_id p) p r else r) acc xs)"
    if "panes_named acc" for acc
    using assms that
  proof (induction xs arbitrary: acc)
    case (Cons p xs)
    then show ?case by (simp add: panes_named_put)
  qed simp
  from this [of "[]"] show ?thesis by (simp add: pane_record_def panes_named_def)
qed

lemma normalize_record_ok: "p \<in> set (map snd (normalize_pane_record v)) \<Longrightarrow> pane_ok p"
proof -
  have put: "q \<in> snd ` set (obj_put k p ob) \<Longrightarrow> q = p \<or> q \<in> snd ` set ob" for q k p and ob :: "pane_state obj"
  proof -
    have "q \<in> snd ` set (obj_insert_index k p ob) \<Longrightarrow> q = p \<or> q \<in> snd ` set ob"
      by (induction k p ob rule: obj_insert_index.induct) (auto split: if_splits)
    moreover have "q \<in> snd ` set (obj_replace k p ob) \<Longrightarrow> q = p \<or> q \<in> snd ` set ob"
      by (induction k p ob rule: obj_replace.induct) (auto split: if_splits)
    ultimately show "q \<in> snd ` set (obj_put k p ob) \<Longrightarrow> q = p \<or> q \<in> snd ` set ob"
      by (auto simp: obj_put_def split: if_splits)
  qed
  define step where "step = (\<lambda>ps kv. if \<not> is_safe_pane_id (fst kv) then ps
      else case normalize_pane (snd kv) (fst kv) of None \<Rightarrow> ps
        | Some p \<Rightarrow> if is_safe_pane_id (pane_id p) then obj_put (pane_id p) p ps else ps)"
  have one: "\<forall>q\<in>snd ` set (step ps kv). pane_ok q" if "\<forall>q\<in>snd ` set ps. pane_ok q" for ps kv
  proof (cases "normalize_pane (snd kv) (fst kv)")
    case (Some p)
    then have "step ps kv = ps \<or> step ps kv = obj_put (pane_id p) p ps" by (simp add: step_def)
    moreover have "\<forall>q\<in>snd ` set (obj_put (pane_id p) p ps). pane_ok q"
      using normalize_pane_ok [OF Some] that put by blast
    ultimately show ?thesis using that by metis
  qed (use that in \<open>simp add: step_def\<close>)
  have "\<forall>q\<in>snd ` set (foldl step acc kvs). pane_ok q" if "\<forall>q\<in>snd ` set acc. pane_ok q" for acc kvs
    using that
  proof (induction kvs arbitrary: acc)
    case (Cons kv kvs)
    from Cons.IH [OF one [OF Cons.prems]] show ?case by simp
  qed simp
  from this [of "[]"] have steps: "\<forall>q\<in>snd ` set (foldl step [] kvs). pane_ok q" for kvs by simp
  have "normalize_pane_record v = (case v of Some (JObj kvs) \<Rightarrow> foldl step [] kvs | _ \<Rightarrow> [])"
    unfolding normalize_pane_record_def step_def by (rule refl)
  moreover assume "p \<in> set (map snd (normalize_pane_record v))"
  ultimately obtain kvs where "p \<in> set (map snd (foldl step [] kvs))"
    by (auto split: option.splits json.splits)
  then have "p \<in> snd ` set (foldl step [] kvs)" by simp
  then show ?thesis using steps [of kvs] by blast
qed

lemma useful_subset: "set (structurally_useful_panes ps v) \<subseteq> set ps"
  by (auto simp: structurally_useful_panes_def Let_def find_Some_iff split: option.splits json.splits list.splits if_splits)

lemma normalize_tree_facts:
  "normalize_tree ps v = Some t \<Longrightarrow>
     (\<forall>i\<in>set (pane_ids_from_tree t). obj_get ps i \<noteq> None) \<and> list_all ratio_ok (ratios t)"
proof (induction ps v arbitrary: t rule: normalize_tree.induct)
  case (1 ps kvs)
  show ?case
  proof (cases "normalize_pane_node kvs ps")
    case (Some n)
    with 1(3) have "t = n" by simp
    with Some show ?thesis by (auto simp: normalize_pane_node_def split: option.splits if_splits)
  next
    case None
    have a: "(\<forall>i\<in>set (pane_ids_from_tree x). obj_get ps i \<noteq> None) \<and> list_all ratio_ok (ratios x)"
      if "obj_get kvs ''type'' = Some (JStr ''split'')" "obj_get kvs ''first'' = Some w" "normalize_tree ps w = Some x" for w x
      using 1(1) [OF None] that by blast
    have b: "(\<forall>i\<in>set (pane_ids_from_tree x). obj_get ps i \<noteq> None) \<and> list_all ratio_ok (ratios x)"
      if "obj_get kvs ''type'' = Some (JStr ''split'')" "obj_get kvs ''second'' = Some w" "normalize_tree ps w = Some x" for w x
      using 1(2) [OF None] that by blast
    show ?thesis using 1(3) None a b
      by (auto simp: Let_def split: if_splits option.splits)
  qed
qed simp_all

text \<open>The panes a version-2 text is read with.\<close>

definition v2_panes :: "jvalue obj \<Rightarrow> pane_state obj" where
  "v2_panes kvs = pane_record (structurally_useful_panes
     (map snd (normalize_pane_record (obj_get kvs ''panes''))) (obj_get kvs ''activePaneId''))"

lemma v2_panes_named: "panes_named (v2_panes kvs)"
  unfolding v2_panes_def
  using pane_record_named normalize_record_ok useful_subset by (meson subsetD)

definition v2_tree :: "jvalue obj \<Rightarrow> string \<Rightarrow> layout_node" where
  "v2_tree kvs first_id = (case (case obj_get kvs ''tree'' of None \<Rightarrow> None | Some v \<Rightarrow> normalize_tree (v2_panes kvs) v) of
     Some n \<Rightarrow> n | None \<Rightarrow> PaneNode first_id)"

lemma v2_tree_facts:
  assumes "obj_keys (v2_panes kvs) = first_id # rest"
  shows "\<forall>i\<in>set (pane_ids_from_tree (v2_tree kvs first_id)). obj_get (v2_panes kvs) i \<noteq> None"
    and "list_all ratio_ok (ratios (v2_tree kvs first_id))"
proof -
  have "obj_get (v2_panes kvs) first_id \<noteq> None"
    using obj_get_None_iff [of "v2_panes kvs" first_id] assms by simp
  then have "(\<forall>i\<in>set (pane_ids_from_tree (v2_tree kvs first_id)). obj_get (v2_panes kvs) i \<noteq> None) \<and>
      list_all ratio_ok (ratios (v2_tree kvs first_id))"
    using normalize_tree_facts [of "v2_panes kvs"] by (auto simp: v2_tree_def split: option.splits)
  then show "\<forall>i\<in>set (pane_ids_from_tree (v2_tree kvs first_id)). obj_get (v2_panes kvs) i \<noteq> None"
    and "list_all ratio_ok (ratios (v2_tree kvs first_id))" by blast+
qed

lemma parse_v2_cases:
  assumes "parse_v2 r kvs inp = Some l"
  obtains first_id rest where "obj_keys (v2_panes kvs) = first_id # rest"
    "layout_tree l = v2_tree kvs first_id"
    "layout_panes l = visible_panes_for_tree (v2_tree kvs first_id) (v2_panes kvs)"
    "active_pane l = active_pane_id_from_record kvs (layout_panes l) (hd (pane_ids_from_tree (v2_tree kvs first_id)))"
    "sidebar_width l = persisted_sidebar_width kvs inp" "layout_root l = r"
    "sidebar_collapsed l = (obj_get kvs ''sidebarCollapsed'' = Some (JBool True))"
    "outline_visible l = (obj_get kvs ''outlinePanelVisible'' \<noteq> Some (JBool False))"
proof (cases "obj_keys (v2_panes kvs)")
  case Nil
  with assms show thesis by (simp add: parse_v2_def v2_panes_def [symmetric])
next
  case (Cons first_id rest)
  from assms show thesis
    unfolding parse_v2_def v2_panes_def [symmetric] Let_def Cons list.case v2_tree_def [symmetric] option.inject
    by (intro that [OF Cons]) auto
qed

lemma active_from_record:
  assumes "obj_get ps fallback \<noteq> None"
  shows "obj_get ps (active_pane_id_from_record kvs ps fallback) \<noteq> None"
  using assms by (simp add: active_pane_id_from_record_def split: option.splits)

lemma parse_v2_shown:
  assumes "parse_v2 r kvs inp = Some l"
  shows "(\<forall>i. get_pane l i \<noteq> None \<longleftrightarrow> i \<in> set (editor_layout_pane_ids l)) \<and>
    (\<forall>i p. get_pane l i = Some p \<longrightarrow> pane_id p = i \<and> pane_ok p) \<and>
    active_ok l \<and> list_all ratio_ok (ratios (layout_tree l))"
  using assms
proof (cases rule: parse_v2_cases)
  case (1 first_id rest)
  note t = v2_tree_facts [OF 1(1)]
  have get: "get_pane l i = (if i \<in> set (editor_layout_pane_ids l) then obj_get (v2_panes kvs) i else None)" for i
    by (simp add: get_pane_def editor_layout_pane_ids_def 1(2, 3) visible_get)
  then have shown: "get_pane l i \<noteq> None \<longleftrightarrow> i \<in> set (editor_layout_pane_ids l)" for i
    using t(1) by (auto simp: editor_layout_pane_ids_def 1(2))
  have "hd (pane_ids_from_tree (v2_tree kvs first_id)) \<in> set (editor_layout_pane_ids l)"
    by (simp add: editor_layout_pane_ids_def 1(2))
  then have "get_pane l (active_pane l) \<noteq> None"
    using shown active_from_record [of "layout_panes l"] by (simp add: 1(4) get_pane_def)
  then have "active_ok l" using shown by (simp add: active_ok_def)
  with shown get v2_panes_named [of kvs] t(2) show ?thesis by (auto simp: panes_named_def 1(2) split: if_splits)
qed

subsection \<open>Reading back what was written\<close>

text \<open>The layouts a program can hold: valid, with ids a persisted text may name.\<close>

definition finite_width :: "rat \<Rightarrow> bool" where
  "finite_width w \<longleftrightarrow> \<bar>js_round w\<bar> < 2 ^ 1024 - 2 ^ 970"

definition persistable :: "layout_state \<Rightarrow> bool" where
  "persistable l \<longleftrightarrow> layout_ok l \<and> rebuilt (layout_panes l) = layout_panes l \<and>
     list_all is_safe_pane_id (editor_layout_pane_ids l) \<and> '''' \<notin> set (split_ids (layout_tree l)) \<and>
     finite_width (sidebar_width l)"

lemma rebuilt_names:
  assumes "distinct (map fst kvs)" and "list_all (\<lambda>kv. \<not> is_index_key (fst kv)) kvs"
  shows "rebuilt kvs = kvs"
  using assms
proof (induction kvs rule: rev_induct)
  case (snoc kv kvs)
  then show ?case by (auto simp: rebuilt_def obj_put_def obj_keys_def)
qed (simp add: rebuilt_def)

lemma plain_object:
  "plain_value (JObj kvs) \<longleftrightarrow> rebuilt kvs = kvs \<and> list_all (\<lambda>kv. plain_value (snd kv)) kvs"
  by (simp add: rebuilt_def)

lemma letter_key: "\<not> is_digit c \<Longrightarrow> \<not> is_index_key (c # s)"
  by (simp add: is_index_key_def)

lemmas name_keys = rebuilt_names letter_key is_digit_def

lemma plain_strings: "plain_value (JArr (map JStr fs))"
  by (simp add: list_all_iff)

lemma plain_pane: "plain_value (pane_json p)"
proof -
  have "rebuilt [(''id'', a), (''openFiles'', b), (''activeFile'', c), (''tabOrder'', d)] =
      [(''id'', a), (''openFiles'', b), (''activeFile'', c), (''tabOrder'', d)]" for a b c d :: jvalue
    by (rule rebuilt_names) (simp_all add: letter_key is_digit_def)
  then show ?thesis unfolding pane_json_def plain_object by (simp add: list_all_iff)
qed

lemma plain_node: "list_all ratio_ok (ratios t) \<Longrightarrow> plain_value (node_json t)"
proof (induction t)
  case (PaneNode i)
  have "rebuilt [(''type'', a), (''paneId'', b)] = [(''type'', a), (''paneId'', b)]" for a b :: jvalue
    by (rule rebuilt_names) (simp_all add: letter_key is_digit_def)
  then show ?case by (simp add: plain_object del: plain_value.simps(3))
next
  case (SplitNode s d r a b)
  have "rebuilt [(''type'', a), (''id'', b), (''direction'', c), (''ratio'', e), (''first'', f), (''second'', g)] =
      [(''type'', a), (''id'', b), (''direction'', c), (''ratio'', e), (''first'', f), (''second'', g)]"
    for a b c e f g :: jvalue
    by (rule rebuilt_names) (simp_all add: letter_key is_digit_def)
  moreover have "is_decimal r" using SplitNode.prems by (auto simp: ratio_ok_def intro: is_decimal_int)
  ultimately show ?case using SplitNode by (simp add: plain_object del: plain_value.simps(3))
qed

lemma plain_layout:
  assumes "persistable l"
  shows "plain_value (layout_json l)"
proof -
  have names: "rebuilt [(''schemaVersion'', a), (''root'', b), (''activePaneId'', c), (''tree'', d), (''panes'', e),
        (''sidebarWidth'', f), (''sidebarCollapsed'', g), (''outlinePanelVisible'', h)] =
      [(''schemaVersion'', a), (''root'', b), (''activePaneId'', c), (''tree'', d), (''panes'', e),
        (''sidebarWidth'', f), (''sidebarCollapsed'', g), (''outlinePanelVisible'', h)]" for a b c d e f g h :: jvalue
    by (rule rebuilt_names) (simp_all add: letter_key is_digit_def)
  have "plain_value (JObj (map (\<lambda>kv. (fst kv, pane_json (snd kv))) (layout_panes l)))"
    using assms plain_pane by (simp add: plain_object rebuilt_map persistable_def list_all_iff del: plain_value.simps(3))
  moreover have "plain_value (node_json (layout_tree l))"
    using assms by (intro plain_node) (simp add: persistable_def layout_ok_def tree_ok_def)
  ultimately show ?thesis unfolding layout_json_def
    by (simp add: plain_object names js_round_def del: plain_value.simps(3))
qed

lemma json_strings_map [simp]: "json_strings (map JStr fs) = fs"
  by (induction fs) simp_all

lemma normalize_pane_json:
  assumes ok: "pane_ok p" and "pane_id p \<noteq> ''''"
  shows "normalize_pane (pane_json p) k = Some p"
proof -
  have fs: "add_all [] (open_files p) = open_files p" "tab_order p = open_files p"
    "add_all (open_files p) (open_files p) = open_files p"
    using ok by (simp_all add: pane_ok_def add_all_self add_all_absorb subset_insertI)
  have active: "active_file p \<in> set (open_files p) \<or> active_file p = ''''" "active_file p = '''' \<longrightarrow> open_files p = []"
    using ok by (auto simp: pane_ok_def split: if_splits)
  have known: "ordered_files (active_file p) (open_files p) ts = open_files p" if "ts = [] \<or> ts = open_files p" for ts
    using that ok active(1) by (auto simp: ordered_files_def fs add_all_absorb add_new_def pane_ok_def)
  have "create_pane (pane_id p) (active_file p) (open_files p) = p"
    using active(2) by (intro pane_state.equality) (auto simp: create_pane_def known fs(2) Let_def)
  then show ?thesis
    using assms(2) by (simp add: normalize_pane_def pane_json_def obj_get_def normalized_active_file_def
        string_field_def nonempty_field_def string_array_def fs known is_array_def Let_def del: create_pane_simps)
qed

lemma normalize_record_json:
  assumes "\<forall>kv\<in>set ps. is_safe_pane_id (fst kv) \<and> pane_id (snd kv) = fst kv \<and> pane_ok (snd kv)"
  shows "normalize_pane_record (Some (JObj (map (\<lambda>kv. (fst kv, pane_json (snd kv))) ps))) = rebuilt ps"
proof -
  have "foldl (\<lambda>ps kv. if \<not> is_safe_pane_id (fst kv) then ps
      else case normalize_pane (snd kv) (fst kv) of None \<Rightarrow> ps
        | Some p \<Rightarrow> if is_safe_pane_id (pane_id p) then obj_put (pane_id p) p ps else ps) acc
      (map (\<lambda>kv. (fst kv, pane_json (snd kv))) ps) = foldl (\<lambda>a kv. obj_put (fst kv) (snd kv) a) acc ps" for acc
    using assms
  proof (induction ps arbitrary: acc)
    case (Cons kv ps)
    have "normalize_pane (pane_json (snd kv)) (fst kv) = Some (snd kv)"
      using Cons.prems by (intro normalize_pane_json) (auto simp: is_safe_pane_id_def)
    with Cons show ?case by simp
  qed simp
  then show ?thesis by (simp add: normalize_pane_record_def rebuilt_def)
qed

lemma pane_record_rebuilt:
  assumes "\<forall>kv\<in>set ps. is_safe_pane_id (fst kv) \<and> pane_id (snd kv) = fst kv"
  shows "pane_record (map snd ps) = rebuilt ps"
proof -
  have "foldl (\<lambda>r p. if is_safe_pane_id (pane_id p) then obj_put (pane_id p) p r else r) acc (map snd ps) =
      foldl (\<lambda>a kv. obj_put (fst kv) (snd kv) a) acc ps" for acc
    using assms by (induction ps arbitrary: acc) simp_all
  then show ?thesis by (simp add: pane_record_def rebuilt_def)
qed

lemma find_first_same: "xs = [p] \<Longrightarrow> (case find P xs of Some q \<Rightarrow> [q] | None \<Rightarrow> xs) = xs"
  by simp

lemma useful_all:
  assumes "ps \<noteq> []" and "(\<forall>p\<in>set ps. open_files p \<noteq> []) \<or> length ps = 1"
  shows "structurally_useful_panes ps v = ps"
proof (cases "\<forall>p\<in>set ps. open_files p \<noteq> []")
  case True
  then have "filter (\<lambda>p. open_files p \<noteq> []) ps = ps" by (simp add: filter_True)
  with assms(1) show ?thesis by (simp add: structurally_useful_panes_def)
next
  case False
  with assms(2) obtain p where "ps = [p]" "open_files p = []" by (auto simp: length_Suc_conv)
  then show ?thesis by (auto simp: structurally_useful_panes_def split: option.splits json.splits)
qed

lemma direction_json [simp]: "parse_direction (Some (JStr (direction_text d))) = d"
  by (cases d) (simp_all add: parse_direction_def)

lemma clamp_ratio_ok:
  assumes "ratio_ok r"
  shows "clamp_ratio (Some r) = r"
proof -
  have "\<lfloor>r + 1 / 2\<rfloor> = \<lfloor>r\<rfloor>"
    using assms by (intro floor_unique) (auto simp: ratio_ok_def floor_less_iff)
  moreover have "of_int \<lfloor>r\<rfloor> = r" "min_split_ratio \<le> r" "r \<le> max_split_ratio"
    using assms by (simp_all add: ratio_ok_def)
  ultimately show ?thesis
    by (simp only: clamp_ratio_def clamp_number_def js_round_def option.map option.case max_absorb2 min_absorb2)
qed

lemma normalize_tree_json:
  assumes "\<forall>i\<in>set (pane_ids_from_tree t). is_safe_pane_id i \<and> obj_get ps i \<noteq> None"
    and "list_all ratio_ok (ratios t)" and "'''' \<notin> set (split_ids t)"
  shows "normalize_tree ps (node_json t) = Some t"
  using assms
proof (induction t)
  case (PaneNode i)
  then show ?case by (simp add: normalize_pane_node_def obj_get_def string_field_def)
next
  case (SplitNode s d r a b)
  have r: "ratio_ok r" "json_number r = Some r"
    using SplitNode.prems(2) by (auto simp: ratio_ok_def json_number_def min_split_ratio_def max_split_ratio_def)
  from SplitNode have ab: "normalize_tree ps (node_json a) = Some a" "normalize_tree ps (node_json b) = Some b"
    by auto
  have "s \<noteq> ''''" using SplitNode.prems(3) by auto
  then show ?case by (simp add: ab normalize_pane_node_def obj_get_def string_field_def finite_field_def
        nonempty_field_def r(2) clamp_ratio_ok [OF r(1)] Let_def)
qed

lemma layout_panes_written:
  assumes "persistable l"
  shows "normalize_pane_record (Some (JObj (map (\<lambda>kv. (fst kv, pane_json (snd kv))) (layout_panes l)))) = layout_panes l"
    and "pane_record (structurally_useful_panes (map snd (layout_panes l)) v) = layout_panes l"
    and "obj_keys (layout_panes l) \<noteq> []"
proof -
  have ok: "layout_ok l" and reb: "rebuilt (layout_panes l) = layout_panes l"
    and safe: "\<forall>i\<in>set (editor_layout_pane_ids l). is_safe_pane_id i"
    using assms by (auto simp: persistable_def list_all_iff)
  have keys: "set (obj_keys (layout_panes l)) = set (editor_layout_pane_ids l)"
    and d: "distinct (obj_keys (layout_panes l))" "distinct (editor_layout_pane_ids l)"
    and panes: "list_all (\<lambda>kv. pane_id (snd kv) = fst kv \<and> pane_ok (snd kv) \<and>
      (1 < length (editor_layout_pane_ids l) \<longrightarrow> open_files (snd kv) \<noteq> [])) (layout_panes l)"
    using ok by (auto simp: layout_ok_def panes_ok_def tree_ok_def editor_layout_pane_ids_def)
  have in_keys: "fst kv \<in> set (editor_layout_pane_ids l)" if "kv \<in> set (layout_panes l)" for kv
    using that keys by (auto simp: obj_keys_def)
  have each: "\<forall>kv\<in>set (layout_panes l). is_safe_pane_id (fst kv) \<and> pane_id (snd kv) = fst kv \<and> pane_ok (snd kv)"
    using panes in_keys safe by (auto simp: list_all_iff)
  from normalize_record_json [OF this] reb
  show "normalize_pane_record (Some (JObj (map (\<lambda>kv. (fst kv, pane_json (snd kv))) (layout_panes l)))) = layout_panes l"
    by simp
  show ne: "obj_keys (layout_panes l) \<noteq> []"
    using keys by (metis editor_layout_pane_ids_def pane_ids_nonempty set_empty)
  have len: "length (layout_panes l) = length (editor_layout_pane_ids l)"
    using d keys by (metis distinct_card length_map obj_keys_def)
  have "(\<forall>p\<in>set (map snd (layout_panes l)). open_files p \<noteq> []) \<or> length (map snd (layout_panes l)) = 1"
  proof (cases "1 < length (editor_layout_pane_ids l)")
    case True
    with panes show ?thesis by (auto simp: list_all_iff)
  next
    case False
    with ne len show ?thesis by (cases "layout_panes l") (auto simp: obj_keys_def)
  qed
  then have "structurally_useful_panes (map snd (layout_panes l)) v = map snd (layout_panes l)"
    using ne by (intro useful_all) (auto simp: obj_keys_def)
  with pane_record_rebuilt [of "layout_panes l"] each reb
  show "pane_record (structurally_useful_panes (map snd (layout_panes l)) v) = layout_panes l" by simp
qed

lemma parse_written:
  assumes pers: "persistable l" and act: "active_ok l" and kvs: "layout_json l = JObj kvs"
  shows "parse_v2 r kvs inp = Some (l\<lparr> layout_root := r,
    layout_panes := visible_panes_for_tree (layout_tree l) (layout_panes l),
    sidebar_width := clamp_number (Some (js_round (sidebar_width l))) (in_min_width inp) (in_max_width inp) \<rparr>)"
proof -
  have ok: "layout_ok l" using pers by (simp add: persistable_def)
  note get = kvs [unfolded layout_json_def, simplified, symmetric]
  have fields: "obj_get kvs ''panes'' = Some (JObj (map (\<lambda>kv. (fst kv, pane_json (snd kv))) (layout_panes l)))"
    "obj_get kvs ''activePaneId'' = Some (JStr (active_pane l))" "obj_get kvs ''tree'' = Some (node_json (layout_tree l))"
    "obj_get kvs ''sidebarWidth'' = Some (JNum (js_round (sidebar_width l)))"
    "obj_get kvs ''sidebarCollapsed'' = Some (JBool (sidebar_collapsed l))"
    "obj_get kvs ''outlinePanelVisible'' = Some (JBool (outline_visible l))"
    by (simp_all add: get obj_get_def)
  have ps: "v2_panes kvs = layout_panes l"
    unfolding v2_panes_def fields layout_panes_written(1) [OF pers] by (rule layout_panes_written(2) [OF pers])
  have shown: "obj_get (layout_panes l) i \<noteq> None" if "i \<in> set (pane_ids_from_tree (layout_tree l))" for i
    using get_pane_iff [OF ok, of i] that by (simp add: get_pane_def editor_layout_pane_ids_def)
  have tree: "normalize_tree (layout_panes l) (node_json (layout_tree l)) = Some (layout_tree l)"
    using pers shown by (intro normalize_tree_json)
      (auto simp: persistable_def layout_ok_def tree_ok_def list_all_iff editor_layout_pane_ids_def)
  obtain first_id rest where keys: "obj_keys (layout_panes l) = first_id # rest"
    using layout_panes_written(3) [OF pers] by (cases "obj_keys (layout_panes l)") auto
  have "obj_get (visible_panes_for_tree (layout_tree l) (layout_panes l)) (active_pane l) \<noteq> None"
    using act shown by (simp add: visible_get active_ok_def editor_layout_pane_ids_def)
  then have active: "active_pane_id_from_record kvs (visible_panes_for_tree (layout_tree l) (layout_panes l)) d =
      active_pane l" for d
    by (simp add: active_pane_id_from_record_def string_field_def fields)
  have width: "persisted_sidebar_width kvs inp =
      clamp_number (Some (js_round (sidebar_width l))) (in_min_width inp) (in_max_width inp)"
    using pers by (simp add: persisted_sidebar_width_def finite_field_def fields json_number_def persistable_def finite_width_def)
  show ?thesis
    unfolding parse_v2_def v2_panes_def [symmetric]
    unfolding ps keys list.case Let_def fields option.case tree
    unfolding option.case active width
    by (cases l) simp
qed

lemma brace_not_blank: "\<not> is_blank (CHR 0x7B # s)"
  by (simp add: is_blank_def cp_value_def cp_len_def is_js_ws_def)

lemma serialized_brace: "layout_json l = JObj kvs \<Longrightarrow> \<exists>s. serialize_layout l = CHR 0x7B # s"
  by (simp add: serialize_layout_def stringify_value_def)

subsection \<open>Layouts edited from a fresh one\<close>

text \<open>
  The layouts that actions make of a fresh one, as long as no action selects a file in a pane that the
  layout does not have (which would leave the active pane dangling).
\<close>

inductive edited :: "layout_state \<Rightarrow> bool" where
  fresh: "in_layout_json inp = None \<Longrightarrow> finite_width (in_default_width inp) \<Longrightarrow> edited (create_editor_layout_state inp)"
| edit: "edited l \<Longrightarrow> \<forall>i f. a = SelectFile i f \<longrightarrow> get_pane l i \<noteq> None \<Longrightarrow> edited (editor_layout_reducer a l)"

text \<open>Their panes and splits have the names the reducer gives.\<close>

definition named_ok :: "layout_state \<Rightarrow> bool" where
  "named_ok l \<longleftrightarrow> (\<forall>k\<in>set (obj_keys (layout_panes l)). starts_with ''pane-'' k) \<and>
     (\<forall>k\<in>set (split_ids (layout_tree l)). starts_with ''split-'' k) \<and> finite_width (sidebar_width l)"

lemma named_update [simp]: "named_ok (update_pane l i f) = named_ok l"
proof (cases "get_pane l i")
  case (Some p)
  then have "i \<in> set (obj_keys (layout_panes l))" using obj_get_None_iff [of "layout_panes l" i] by (simp add: get_pane_def)
  with Some show ?thesis by (simp add: update_pane_def named_ok_def insert_absorb)
qed (simp add: update_pane_def)

lemma named_remove: "named_ok l \<Longrightarrow> named_ok (remove_pane l i)"
proof (cases "remove_pane_node i (layout_tree l)")
  case (Some t)
  then have "set (split_ids t) \<subseteq> set (split_ids (layout_tree l))" using remove_pane_node_Some by (metis set_mset_mono set_mset_mset)
  moreover assume "named_ok l"
  ultimately show ?thesis using Some by (auto simp: named_ok_def remove_pane_def keys_filter_key)
qed (simp add: remove_pane_def)

lemma named_close: "named_ok l \<Longrightarrow> named_ok (close_tab l i f)"
  by (cases rule: close_tab_cases [of l i f]) (auto intro: named_remove)

lemma named_insert_split: "named_ok l \<Longrightarrow> named_ok (insert_split_pane l i d f before)"
proof -
  assume ok: "named_ok l"
  have "set (split_ids (replace_pane_node i (SplitNode s d 50 (PaneNode j) (PaneNode k)) t)) \<subseteq> insert s (set (split_ids t))" for s j k t
    by (induction t) auto
  note tree = subsetD [OF this]
  have new: "starts_with ''pane-'' (next_pane_id l)" "starts_with ''split-'' (next_split_id (layout_tree l))"
    unfolding next_pane_id_def next_split_id_def by (rule starts_with_append)+
  show ?thesis
  proof (cases "get_pane l i = None \<or> f = ''''")
    case True
    with ok show ?thesis by (simp add: insert_split_pane_def)
  next
    case False
    let ?new = "insert_split_pane l i d f before"
    have panes: "starts_with ''pane-'' k" if "k \<in> set (obj_keys (layout_panes ?new))" for k
      using that False ok new(1) by (auto simp: insert_split_pane_def named_ok_def Let_def)
    have "starts_with ''split-'' k" if "k \<in> set (split_ids (layout_tree ?new))" for k
    proof -
      have "k \<in> insert (next_split_id (layout_tree l)) (set (split_ids (layout_tree l)))"
        using that False by (intro tree) (simp add: insert_split_pane_def Let_def)
      then show ?thesis using ok new(2) by (auto simp: named_ok_def)
    qed
    with panes ok False show ?thesis by (simp add: named_ok_def insert_split_pane_def Let_def)
  qed
qed

lemma named_split: "named_ok l \<Longrightarrow> named_ok (split_pane l i d name before)"
  by (auto simp: split_pane_def Let_def intro: named_insert_split named_close split: option.split)

lemma named_active [simp]: "named_ok (l\<lparr> active_pane := i \<rparr>) = named_ok l"
  by (simp add: named_ok_def)

lemma named_move: "named_ok l \<Longrightarrow> named_ok (move_tab l i j f index)"
  by (auto simp: move_tab_def Let_def intro: named_close split: option.split)

lemma named_close_tabs: "named_ok l \<Longrightarrow> named_ok (foldl (\<lambda>acc t. close_tab acc (fst t) (snd t)) l ts)"
  by (induction ts arbitrary: l) (auto intro: named_close)

lemma finite_sidebar: "finite_width (clamp_sidebar_width w)"
proof -
  have "0 \<le> clamp_sidebar_width w \<and> clamp_sidebar_width w \<le> 4096"
    by (auto simp: clamp_sidebar_width_def clamp_number_def split: option.split)
  then have "0 \<le> \<lfloor>clamp_sidebar_width w + 1 / 2\<rfloor>" "\<lfloor>clamp_sidebar_width w + 1 / 2\<rfloor> \<le> 4097" by linarith+
  then show ?thesis by (simp add: finite_width_def js_round_def flip: of_int_abs)
qed

lemma named_reducer: "named_ok l \<Longrightarrow> named_ok (editor_layout_reducer a l)"
proof (cases a)
  case (DropTab x)
  moreover assume "named_ok l"
  ultimately show ?thesis
    by (auto simp: reduce_drop_tab_def Let_def intro: named_move named_split named_insert_split named_close split: option.split)
next
  case (RenameFile old new)
  moreover assume "named_ok l"
  ultimately show ?thesis by (auto simp: rename_file_everywhere_def named_ok_def obj_keys_def comp_def)
next
  case (RemoveFile f)
  moreover assume "named_ok l"
  ultimately show ?thesis by (simp add: remove_file_everywhere_def named_close_tabs)
next
  case (ReplaceRoot r w)
  moreover assume "named_ok l"
  ultimately show ?thesis
    by (auto simp: replace_root_def named_ok_def obj_keys_def starts_with_def finite_sidebar Let_def split: option.split)
next
  case (ResizeSplit i v)
  moreover assume "named_ok l"
  ultimately show ?thesis by (simp add: named_ok_def)
next
  case (SetSidebar w c)
  moreover assume "named_ok l"
  ultimately show ?thesis by (auto simp: named_ok_def finite_sidebar split: option.split)
next
  case (SetOutlinePanel b)
  moreover assume "named_ok l"
  ultimately show ?thesis by (simp add: named_ok_def)
qed (auto intro: named_close named_remove named_move named_split)

lemma edited_ok: "edited l \<Longrightarrow> layout_ok l \<and> active_ok l \<and> named_ok l"
proof (induction rule: edited.induct)
  case (fresh inp)
  then show ?case
    by (simp add: create_editor_layout_state_def parse_persisted_layout_def layout_ok_def tree_ok_def active_ok_def
        editor_layout_pane_ids_def panes_ok_def obj_keys_def named_ok_def starts_with_def Let_def)
next
  case (edit l a)
  then show ?case using layout_ok_reducer active_ok_reducer named_reducer by blast
qed

lemma edited_persistable:
  assumes "edited l"
  shows "persistable l" "active_ok l"
proof -
  have ok: "layout_ok l" "active_ok l" "named_ok l" using edited_ok [OF assms] by blast+
  have name: "\<not> is_index_key k \<and> is_safe_pane_id k" if pane: "starts_with ''pane-'' k" for k
  proof -
    have "starts_with p k \<Longrightarrow> \<exists>s. k = p @ s" for p unfolding starts_with_def by (metis append_take_drop_id)
    from this [OF pane] obtain s where "k = ''pane-'' @ s" by blast
    moreover have "\<not> is_index_key (CHR ''p'' # t)" for t by (rule letter_key) (simp add: is_digit_def)
    ultimately show ?thesis by (simp add: is_safe_pane_id_def unsafe_pane_ids_def)
  qed
  have "distinct (map fst (layout_panes l))" using ok(1) by (simp add: layout_ok_def panes_ok_def obj_keys_def)
  moreover have "list_all (\<lambda>kv. \<not> is_index_key (fst kv)) (layout_panes l)"
    using ok(3) name by (auto simp: named_ok_def obj_keys_def list_all_iff)
  ultimately have "rebuilt (layout_panes l) = layout_panes l" by (rule rebuilt_names)
  moreover have "list_all is_safe_pane_id (editor_layout_pane_ids l)"
    using ok(1,3) name by (auto simp: layout_ok_def named_ok_def list_all_iff)
  moreover have "'''' \<notin> set (split_ids (layout_tree l))"
    using ok(3) by (auto simp: named_ok_def starts_with_def)
  ultimately show "persistable l" using ok by (simp add: persistable_def named_ok_def)
  show "active_ok l" by (rule ok(2))
qed

subsection \<open>Properties\<close>

text \<open>
  Claim C36. A layout written by \<open>serializeEditorLayoutStateV2\<close> is read back as it was:
  the same tree, the same panes with their tabs in order, the same active pane and panel settings.
  Only the root is taken from the caller and the sidebar width is rounded and clamped to the
  caller's range. This holds for every layout the actions make of a fresh one, provided no action
  selects a file in a pane the layout does not have (which leaves an active pane that is not shown),
  and for any other valid layout whose active pane is shown, whose pane record is in own-key order
  and whose pane ids and split ids are ones a persisted text may name (\<open>persistable\<close>).
\<close>

theorem persisted_layout_reads_back:
  assumes "edited l \<or> persistable l \<and> active_ok l" and "in_layout_json inp = Some (serialize_layout l)"
  shows "let l' = create_editor_layout_state inp in
    layout_tree l' = layout_tree l \<and> (\<forall>i. get_pane l' i = get_pane l i) \<and> active_pane l' = active_pane l \<and>
    sidebar_collapsed l' = sidebar_collapsed l \<and> outline_visible l' = outline_visible l \<and>
    layout_root l' = in_root inp \<and>
    sidebar_width l' = clamp_number (Some (js_round (sidebar_width l))) (in_min_width inp) (in_max_width inp)"
proof -
  have ok: "persistable l" "active_ok l" using assms(1) edited_persistable by blast+
  obtain kvs where kvs: "layout_json l = JObj kvs" by (simp add: layout_json_def)
  have "json_parse (serialize_layout l) = Some (JObj kvs)"
    unfolding serialize_layout_def kvs [symmetric] by (rule json_parse_stringify [OF plain_layout [OF ok(1)]])
  moreover have "\<not> is_blank (serialize_layout l)" using serialized_brace [OF kvs] brace_not_blank by auto
  moreover have "schema_version kvs = Some (JNum 2)"
    using kvs by (auto simp: layout_json_def schema_version_def obj_get_def)
  ultimately have "create_editor_layout_state inp = l\<lparr> layout_root := in_root inp,
      layout_panes := visible_panes_for_tree (layout_tree l) (layout_panes l),
      sidebar_width := clamp_number (Some (js_round (sidebar_width l))) (in_min_width inp) (in_max_width inp) \<rparr>"
    by (simp add: create_editor_layout_state_def parse_persisted_layout_def assms(2)
        parse_written [OF ok kvs])
  moreover have "get_pane l i = None" if "i \<notin> set (pane_ids_from_tree (layout_tree l))" for i
    using get_pane_iff [of l i] ok(1) that by (simp add: persistable_def editor_layout_pane_ids_def)
  ultimately show ?thesis by (simp add: get_pane_def visible_get Let_def)
qed

definition fresh_input :: layout_input where
  "fresh_input = \<lparr> in_root = ''r'', in_file = ''a'', in_open_files = [''a'', ''b''], in_layout_json = None,
     in_default_width = 240, in_min_width = 160, in_max_width = 480 \<rparr>"

lemma two_panes_persistable: "persistable two_panes"
  unfolding persistable_def using two_panes_ok(1)
  by (auto simp: two_panes_def rebuilt_def obj_put_def obj_keys_def is_index_key_def is_digit_def
      editor_layout_pane_ids_def is_safe_pane_id_def unsafe_pane_ids_def js_round_def finite_width_def)

definition split_layout :: layout_state where
  "split_layout = editor_layout_reducer (SplitPane ''pane-1'' Column (Some ''b'')) (create_editor_layout_state fresh_input)"

theorem persisted_layout_reads_back_witness:
  "let l' = create_editor_layout_state (fresh_input\<lparr> in_layout_json := Some (serialize_layout split_layout) \<rparr>) in
     layout_tree l' = SplitNode ''split-1'' Column 50 (PaneNode ''pane-1'') (PaneNode ''pane-2'') \<and> active_pane l' = ''pane-2''"
proof -
  have "edited (create_editor_layout_state fresh_input)"
    by (rule fresh) (simp_all add: fresh_input_def finite_width_def js_round_def)
  then have "edited split_layout" unfolding split_layout_def by (rule edit) simp
  moreover have "layout_tree split_layout = SplitNode ''split-1'' Column 50 (PaneNode ''pane-1'') (PaneNode ''pane-2'')"
    "active_pane split_layout = ''pane-2''" by code_simp+
  ultimately show ?thesis
    using persisted_layout_reads_back [of split_layout "fresh_input\<lparr> in_layout_json := Some (serialize_layout split_layout) \<rparr>"]
    by (simp add: Let_def)
qed

text \<open>
  Whatever a persisted version-2 text holds, the layout read from it can be shown: its
  panes are exactly the ones its tree names, each under its own id with a lossless tab order, the
  active pane is one of them, and every split ratio is in range.
\<close>

theorem persisted_text_yields_shown_panes:
  assumes "parse_v2 r kvs inp = Some l"
  shows "(\<forall>i. get_pane l i \<noteq> None \<longleftrightarrow> i \<in> set (editor_layout_pane_ids l)) \<and>
    (\<forall>i p. get_pane l i = Some p \<longrightarrow> pane_id p = i \<and> pane_ok p) \<and>
    active_ok l \<and> list_all ratio_ok (ratios (layout_tree l))"
  using assms by (rule parse_v2_shown)

definition hostile_text :: "jvalue obj" where
  "hostile_text = [(''panes'', JObj [(''p'', JObj [(''id'', JStr ''p''), (''openFiles'', JArr [JStr ''a'', JNull, JStr ''a'']),
      (''activeFile'', JStr ''z'')])]), (''activePaneId'', JStr ''__proto__''),
     (''tree'', JObj [(''type'', JStr ''split''), (''ratio'', JNum 900),
        (''first'', JObj [(''type'', JStr ''pane''), (''paneId'', JStr ''constructor'')]),
        (''second'', JObj [(''type'', JStr ''pane''), (''paneId'', JStr ''p'')])])]"

theorem persisted_text_yields_shown_panes_witness:
  "\<exists>l. parse_v2 ''r'' hostile_text fresh_input = Some l \<and> active_ok l"
proof -
  have "parse_v2 ''r'' hostile_text fresh_input \<noteq> None" by code_simp
  then obtain l where "parse_v2 ''r'' hostile_text fresh_input = Some l" by auto
  with persisted_text_yields_shown_panes [OF this] show ?thesis by blast
qed

text \<open>
  Claim C35. Every layout the editor reaches from a fresh one is valid: after any sequence of actions,
  with any indices, ratios and names, tree and pane record agree, ids are unique, tab orders are
  lossless, empty panes stand alone and ratios are in range.
\<close>

theorem reached_layouts_are_valid:
  assumes "in_layout_json inp = None"
  shows "layout_ok (fold editor_layout_reducer as (create_editor_layout_state inp))"
proof (rule layout_ops.ops_inv)
  show "layout_ok (create_editor_layout_state inp)"
    by (simp add: create_editor_layout_state_def parse_persisted_layout_def assms layout_ok_def tree_ok_def
        editor_layout_pane_ids_def panes_ok_def obj_keys_def Let_def)
qed

theorem reached_layouts_are_valid_witness:
  "layout_ok (fold editor_layout_reducer
     [SplitPane ''pane-1'' Column (Some ''b''), ResizeSplit ''split-1'' None, MoveTab ''pane-2'' ''pane-1'' ''b'' None,
      RemoveFile ''a''] (create_editor_layout_state fresh_input))"
  by (rule reached_layouts_are_valid) (simp add: fresh_input_def)

text \<open>
  A version-1 text can name a pane \<open>constructor\<close>: the pane list keeps it, the pane record refuses it,
  and the layout shows a pane it does not have.
\<close>

lemma v1_unsafe_pane_is_missing:
  "map_option (\<lambda>l. (editor_layout_pane_ids l, layout_panes l))
     (parse_v1 ''r'' [(''panes'', JArr [JObj [(''id'', JStr ''constructor''), (''openFiles'', JArr [JStr ''a'']),
       (''activeFile'', JStr ''a'')]])] fresh_input) = Some ([''constructor''], [])"
  by code_simp

end
