(* ===== verification/Patch_Types.thy ===== *)
theory Patch_Types
  imports Json_Text
begin

text \<open>
  The data of the patch workflow (\<open>packages/keiko-contracts/src/tools.ts\<close>): hunks, file changes,
  rejections, conflicts, validation reports and limits, and the text operations on lines that the
  parser, the normalizer and the hunk application share. Line counts and positions are natural
  numbers: they come from decimal digits that the parser checks against the safe-integer range.
\<close>

subsection \<open>Data\<close>

datatype change_kind = ChangeCreate | ChangeModify | ChangeDelete

record patch_hunk =
  old_start :: nat
  old_lines :: nat
  new_start :: nat
  new_lines :: nat
  hunk_lines :: "string list"

record patch_file =
  change_path :: string
  change_kind :: change_kind
  change_hunks :: "patch_hunk list"
  added_lines :: nat
  removed_lines :: nat

datatype rejection_code =
    SizeLimit | BinaryPatch | PathUnsafe | PathDenied | LineLimit | FileLimit | Malformed

record patch_rejection =
  rej_code :: rejection_code
  rej_message :: string
  rej_path :: "string option"

record patch_conflict =
  con_path :: string
  con_hunk :: nat
  con_reason :: string

record patch_validation =
  val_ok :: bool
  val_files :: "patch_file list"
  val_changed_lines :: nat
  val_bytes :: nat
  val_normalized :: "string option"
  val_reasons :: "patch_rejection list"
  val_conflicts :: "patch_conflict list"

record patch_limits =
  max_patch_bytes :: int
  max_changed_lines :: int
  max_files_changed :: int

definition governed_patch_max_bytes :: int where
  "governed_patch_max_bytes = 8 * 1048576"

definition default_patch_limits :: patch_limits where
  "default_patch_limits = \<lparr> max_patch_bytes = governed_patch_max_bytes,
     max_changed_lines = 2000, max_files_changed = 50 \<rparr>"

record patch_apply_result =
  changed_files :: "string list"
  created_files :: "string list"
  deleted_files :: "string list"

subsection \<open>Lines of a text\<close>

text \<open>\<open>s.split(c)\<close> for a one-character separator.\<close>

fun split_on :: "char \<Rightarrow> string \<Rightarrow> string list" where
  "split_on c [] = [[]]"
| "split_on c (x # xs) =
     (if x = c then [] # split_on c xs
      else case split_on c xs of [] \<Rightarrow> [[x]] | l # ls \<Rightarrow> (x # l) # ls)"

abbreviation newline_char :: char where
  "newline_char \<equiv> CHR 0x0A"

definition split_lines :: "string \<Rightarrow> string list" where
  "split_lines s = split_on newline_char s"

definition join_lines :: "string list \<Rightarrow> string" where
  "join_lines ls = join newline ls"

text \<open>\<open>s.includes(p)\<close>.\<close>

fun contains :: "string \<Rightarrow> string \<Rightarrow> bool" where
  "contains p [] \<longleftrightarrow> p = []"
| "contains p (c # s) \<longleftrightarrow> starts_with p (c # s) \<or> contains p s"

lemma split_on_not_Nil [simp]: "split_on c s \<noteq> []"
  by (induction s) (auto split: list.splits)

lemma split_on_free: "l \<in> set (split_on c s) \<Longrightarrow> c \<notin> set l"
proof (induction s arbitrary: l)
  case (Cons x s)
  then show ?case by (cases "split_on c s") (auto split: if_splits)
qed simp

lemma split_on_no_sep: "c \<notin> set s \<Longrightarrow> split_on c s = [s]"
  by (induction s) auto

lemma split_on_append: "c \<notin> set l \<Longrightarrow> split_on c (l @ c # s) = l # split_on c s"
  by (induction l) auto

lemma split_on_join:
  "ls \<noteq> [] \<Longrightarrow> \<forall>l\<in>set ls. c \<notin> set l \<Longrightarrow> split_on c (join [c] ls) = ls"
  by (induction "[c]" ls rule: join.induct) (auto simp: split_on_append split_on_no_sep)

lemma join_Cons: "xs \<noteq> [] \<Longrightarrow> join sep (x # xs) = x @ sep @ join sep xs"
  by (cases xs) auto

lemma join_split_on [simp]: "join [c] (split_on c s) = s"
proof (induction s)
  case (Cons x s)
  then show ?case
    by (cases "split_on c s"; cases "tl (split_on c s)") (auto simp: join_Cons)
qed simp

lemma split_lines_join:
  "ls \<noteq> [] \<Longrightarrow> \<forall>l\<in>set ls. newline_char \<notin> set l \<Longrightarrow> split_lines (join_lines ls) = ls"
  by (simp add: split_lines_def join_lines_def newline_def split_on_join)

lemma join_split_lines [simp]: "join_lines (split_lines s) = s"
  by (simp add: split_lines_def join_lines_def newline_def)

lemma split_lines_free: "l \<in> set (split_lines s) \<Longrightarrow> newline_char \<notin> set l"
  unfolding split_lines_def by (rule split_on_free)

lemma split_lines_not_Nil [simp]: "split_lines s \<noteq> []"
  by (simp add: split_lines_def)

end
