(* ===== verification/Unified_Diff.thy ===== *)
theory Unified_Diff
  imports Patch_Types
begin

text \<open>
  The unified-diff parser (\<open>packages/keiko-contracts/src/unified-diff.ts\<close>): the accumulators of the
  parse as records, one definition per function of the parser, and a thrown \<open>PatchParseError\<close> as its
  message on the left of a sum. The optional observer of source ranges is not modelled; the patch
  engine parses without one.
\<close>

subsection \<open>Quoted paths\<close>

definition backslash :: char where
  "backslash = CHR 0x5C"

definition path_escapes :: "(char \<times> nat) list" where
  "path_escapes = [(CHR ''a'', 7), (CHR ''b'', 8), (CHR ''t'', 9), (CHR ''n'', 10), (CHR ''v'', 11),
     (CHR ''f'', 12), (CHR ''r'', 13), (CHR 0x22, 34), (backslash, 92)]"

definition is_octal :: "char \<Rightarrow> bool" where
  "is_octal c = (let n = (of_char c :: nat) in 48 \<le> n \<and> n \<le> 55)"

definition octal_value :: "string \<Rightarrow> nat" where
  "octal_value s = foldl (\<lambda>a c. a * 8 + (of_char c - 48)) 0 s"

text \<open>The bytes a quoted path stands for; a byte of an octal escape is taken modulo 256.\<close>

fun unescape_path :: "string \<Rightarrow> string option" where
  "unescape_path [] = Some []"
| "unescape_path (c # r) =
     (if c \<noteq> backslash then map_option ((#) c) (unescape_path r)
      else if length (take 3 r) = 3 \<and> list_all is_octal (take 3 r)
      then map_option ((#) (char_of (octal_value (take 3 r)))) (unescape_path (drop 3 r))
      else case r of [] \<Rightarrow> None
        | e # s \<Rightarrow> (case map_of path_escapes e of None \<Rightarrow> None
            | Some b \<Rightarrow> map_option ((#) (char_of b)) (unescape_path s)))"

definition utf8_tail :: "nat \<Rightarrow> bool" where
  "utf8_tail b \<longleftrightarrow> 0x80 \<le> b \<and> b \<le> 0xBF"

text \<open>Whether bytes are well-formed UTF-8, so that decoding them yields no replacement character.\<close>

fun utf8_ok :: "nat list \<Rightarrow> bool" where
  "utf8_ok [] = True"
| "utf8_ok (a # r) =
     (if a < 0x80 then utf8_ok r
      else if 0xC2 \<le> a \<and> a \<le> 0xDF then
        (case r of b # s \<Rightarrow> utf8_tail b \<and> utf8_ok s | _ \<Rightarrow> False)
      else if 0xE0 \<le> a \<and> a \<le> 0xEF then
        (case r of b # c # s \<Rightarrow>
           utf8_tail b \<and> (a = 0xE0 \<longrightarrow> 0xA0 \<le> b) \<and> (a = 0xED \<longrightarrow> b \<le> 0x9F) \<and> utf8_tail c \<and> utf8_ok s
         | _ \<Rightarrow> False)
      else if 0xF0 \<le> a \<and> a \<le> 0xF4 then
        (case r of b # c # d # s \<Rightarrow>
           utf8_tail b \<and> (a = 0xF0 \<longrightarrow> 0x90 \<le> b) \<and> (a = 0xF4 \<longrightarrow> b \<le> 0x8F) \<and> utf8_tail c \<and>
           utf8_tail d \<and> utf8_ok s
         | _ \<Rightarrow> False)
      else False)"

definition replacement_char :: string where
  "replacement_char = [CHR 0xEF, CHR 0xBF, CHR 0xBD]"

definition byte_order_mark :: string where
  "byte_order_mark = [CHR 0xEF, CHR 0xBB, CHR 0xBF]"

text \<open>\<open>new TextDecoder("utf-8").decode\<close>, with \<open>None\<close> for a result that has a replacement character.\<close>

definition decode_utf8 :: "string \<Rightarrow> string option" where
  "decode_utf8 bs =
     (if \<not> utf8_ok (map of_char bs) then None
      else let t = (if starts_with byte_order_mark bs then drop 3 bs else bs)
           in if contains replacement_char t then None else Some t)"

definition decode_git_quoted_path :: "string \<Rightarrow> string option" where
  "decode_git_quoted_path raw =
     (if length raw < 2 \<or> \<not> starts_char (CHR 0x22) raw \<or> last raw \<noteq> CHR 0x22 then None
      else case unescape_path (butlast (tl raw)) of
        None \<Rightarrow> None
      | Some bs \<Rightarrow> decode_utf8 bs)"

subsection \<open>File headers\<close>

definition dev_null :: string where
  "dev_null = ''/dev/null''"

definition strip_prefix :: "string \<Rightarrow> string" where
  "strip_prefix raw =
     (if raw = dev_null then raw
      else if starts_with ''a/'' raw \<or> starts_with ''b/'' raw then drop 2 raw else raw)"

definition header_path :: "string \<Rightarrow> string \<Rightarrow> string + string" where
  "header_path line marker =
     (let raw = trim (takeWhile (\<lambda>c. c \<noteq> CHR 0x09) (drop (length marker) line))
      in if \<not> starts_char (CHR 0x22) raw then Inr (strip_prefix raw)
         else case decode_git_quoted_path raw of
           None \<Rightarrow> Inl ''malformed quoted path in file header''
         | Some p \<Rightarrow> Inr (strip_prefix p))"

definition classify :: "string \<Rightarrow> string \<Rightarrow> change_kind \<times> string" where
  "classify old_path new_path =
     (if old_path = dev_null then (ChangeCreate, new_path)
      else if new_path = dev_null then (ChangeDelete, old_path)
      else (ChangeModify, new_path))"

subsection \<open>Accumulators\<close>

record hunk_acc =
  acc_old_start :: nat
  acc_old_lines :: nat
  acc_new_start :: nat
  acc_new_lines :: nat
  acc_lines :: "string list"
  old_remaining :: nat
  new_remaining :: nat

record file_acc =
  acc_old_path :: "string option"
  acc_new_path :: "string option"
  acc_hunks :: "patch_hunk list"
  acc_current :: "hunk_acc option"
  acc_added :: nat
  acc_removed :: nat

record parse_state =
  ps_files :: "patch_file list"
  ps_current :: "file_acc option"

definition to_hunk :: "hunk_acc \<Rightarrow> patch_hunk" where
  "to_hunk acc = \<lparr> old_start = acc_old_start acc, old_lines = acc_old_lines acc,
     new_start = acc_new_start acc, new_lines = acc_new_lines acc, hunk_lines = acc_lines acc \<rparr>"

definition max_safe_integer :: nat where
  "max_safe_integer = 9007199254740991"

definition line_number :: "string \<Rightarrow> string + nat" where
  "line_number digits =
     (if digits_value digits \<le> max_safe_integer then Inr (digits_value digits)
      else Inl ''hunk header number out of range'')"

text \<open>One range of a hunk header, \<open>(\d+)(?:,(\d+))?\<close>, and what follows it.\<close>

definition range_fields :: "string \<Rightarrow> (string \<times> string option \<times> string) option" where
  "range_fields s =
     (let a = digits_of s; r = after_digits s
      in if a = [] then None
         else if starts_char (CHR '','') r \<and> digits_of (tl r) \<noteq> []
         then Some (a, Some (digits_of (tl r)), after_digits (tl r))
         else Some (a, None, r))"

text \<open>The groups of \<open>HUNK_HEADER\<close> and the text after the match.\<close>

definition hunk_header_match ::
  "string \<Rightarrow> (string \<times> string option \<times> string \<times> string option \<times> string) option" where
  "hunk_header_match line =
     (if \<not> starts_with ''@@ -'' line then None
      else case range_fields (drop 4 line) of
        None \<Rightarrow> None
      | Some (a, b, r) \<Rightarrow>
          if \<not> starts_with '' +'' r then None
          else (case range_fields (drop 2 r) of
            None \<Rightarrow> None
          | Some (c, d, t) \<Rightarrow>
              if starts_with '' @@'' t then Some (a, b, c, d, drop 3 t) else None))"

definition optional_count :: "string option \<Rightarrow> string + nat" where
  "optional_count d = (case d of None \<Rightarrow> Inr 1 | Some s \<Rightarrow> line_number s)"

definition parse_hunk_header :: "string \<Rightarrow> string + hunk_acc" where
  "parse_hunk_header line =
     (case hunk_header_match line of
        None \<Rightarrow> Inl ''malformed hunk header''
      | Some (a, b, c, d, r) \<Rightarrow>
          rbind (optional_count b) (\<lambda>ol. rbind (optional_count d) (\<lambda>nl.
          rbind (line_number a) (\<lambda>os. rbind (line_number c) (\<lambda>ns.
            Inr \<lparr> acc_old_start = os, acc_old_lines = ol, acc_new_start = ns, acc_new_lines = nl,
                  acc_lines = [], old_remaining = ol, new_remaining = nl \<rparr>)))))"

definition new_file_accumulator :: file_acc where
  "new_file_accumulator = \<lparr> acc_old_path = None, acc_new_path = None, acc_hunks = [],
     acc_current = None, acc_added = 0, acc_removed = 0 \<rparr>"

definition finish_hunk :: "file_acc \<Rightarrow> string + file_acc" where
  "finish_hunk f =
     (case acc_current f of
        None \<Rightarrow> Inr f
      | Some h \<Rightarrow>
          if old_remaining h \<noteq> 0 \<or> new_remaining h \<noteq> 0
          then Inl ''hunk body has fewer lines than declared''
          else Inr (f\<lparr> acc_hunks := acc_hunks f @ [to_hunk h], acc_current := None \<rparr>))"

definition finish_file :: "patch_file list \<Rightarrow> file_acc \<Rightarrow> string + patch_file list" where
  "finish_file files f0 = rbind (finish_hunk f0) (\<lambda>f.
     case (acc_old_path f, acc_new_path f) of
       (Some p, Some q) \<Rightarrow>
         Inr (files @ [\<lparr> change_path = snd (classify p q), change_kind = fst (classify p q),
           change_hunks = acc_hunks f, added_lines = acc_added f, removed_lines = acc_removed f \<rparr>])
     | _ \<Rightarrow> if acc_hunks f \<noteq> [] then Inl ''file header has no +++ line'' else Inr files)"

definition count_body :: "string \<Rightarrow> file_acc \<Rightarrow> file_acc" where
  "count_body line f =
     (if starts_char (CHR ''+'') line then f\<lparr> acc_added := acc_added f + 1 \<rparr>
      else if starts_char (CHR ''-'') line then f\<lparr> acc_removed := acc_removed f + 1 \<rparr> else f)"

definition start_new_file :: "string \<Rightarrow> parse_state \<Rightarrow> string + parse_state" where
  "start_new_file old_path st =
     rbind (case ps_current st of None \<Rightarrow> Inr (ps_files st) | Some f \<Rightarrow> finish_file (ps_files st) f)
       (\<lambda>files. Inr \<lparr> ps_files = files,
          ps_current = Some (new_file_accumulator\<lparr> acc_old_path := Some old_path \<rparr>) \<rparr>)"

subsection \<open>Body lines\<close>

definition is_hunk_body_line :: "string \<Rightarrow> bool" where
  "is_hunk_body_line line \<longleftrightarrow>
     starts_char (CHR '' '') line \<or> starts_char (CHR ''+'') line \<or> starts_char (CHR ''-'') line"

definition hunk_active :: "file_acc \<Rightarrow> bool" where
  "hunk_active f = (case acc_current f of None \<Rightarrow> False
     | Some h \<Rightarrow> old_remaining h > 0 \<or> new_remaining h > 0)"

definition is_old_side :: "string \<Rightarrow> bool" where
  "is_old_side line \<longleftrightarrow> starts_char (CHR '' '') line \<or> starts_char (CHR ''-'') line"

definition is_new_side :: "string \<Rightarrow> bool" where
  "is_new_side line \<longleftrightarrow> starts_char (CHR '' '') line \<or> starts_char (CHR ''+'') line"

definition assert_budget_available :: "hunk_acc \<Rightarrow> string \<Rightarrow> string + unit" where
  "assert_budget_available h line =
     (if old_remaining h < (if is_old_side line then 1 else 0) \<or>
         new_remaining h < (if is_new_side line then 1 else 0)
      then Inl ''hunk body has more lines than declared'' else Inr ())"

definition consume_budget :: "string \<Rightarrow> hunk_acc \<Rightarrow> hunk_acc" where
  "consume_budget line h =
     (if starts_char (CHR '' '') line
      then h\<lparr> old_remaining := old_remaining h - 1, new_remaining := new_remaining h - 1 \<rparr>
      else if starts_char (CHR ''-'') line then h\<lparr> old_remaining := old_remaining h - 1 \<rparr>
      else if starts_char (CHR ''+'') line then h\<lparr> new_remaining := new_remaining h - 1 \<rparr>
      else h)"

definition attach_no_newline_marker :: "hunk_acc option \<Rightarrow> string \<Rightarrow> string + hunk_acc" where
  "attach_no_newline_marker hunk line =
     (case hunk of
        None \<Rightarrow> Inl ''no-newline marker must follow a hunk body line''
      | Some h \<Rightarrow>
          if acc_lines h = [] \<or> \<not> is_hunk_body_line (last (acc_lines h))
          then Inl ''no-newline marker must follow a hunk body line''
          else Inr (h\<lparr> acc_lines := acc_lines h @ [line] \<rparr>))"

definition handle_body_line :: "string \<Rightarrow> file_acc \<Rightarrow> string + file_acc" where
  "handle_body_line line f =
     (if starts_char backslash line then
        rbind (attach_no_newline_marker (acc_current f) line) (\<lambda>h. Inr (f\<lparr> acc_current := Some h \<rparr>))
      else case acc_current f of
        None \<Rightarrow>
          if acc_new_path f \<noteq> None \<and> acc_hunks f = [] \<and> is_hunk_body_line line
          then Inl ''body line outside a hunk'' else Inr f
      | Some h \<Rightarrow>
          if \<not> is_hunk_body_line line then finish_hunk f
          else rbind (assert_budget_available h line) (\<lambda>_.
            Inr ((count_body line f)\<lparr> acc_current :=
              Some (consume_budget line (h\<lparr> acc_lines := acc_lines h @ [line] \<rparr>)) \<rparr>)))"

definition is_signature_delimiter :: "string \<Rightarrow> bool" where
  "is_signature_delimiter line \<longleftrightarrow> line = ''-- '' \<or> line = ''--''"

subsection \<open>The parser\<close>

definition with_current :: "parse_state \<Rightarrow> string + file_acc \<Rightarrow> string + parse_state" where
  "with_current st r = rbind r (\<lambda>f. Inr (st\<lparr> ps_current := Some f \<rparr>))"

definition handle_line :: "parse_state \<Rightarrow> string \<Rightarrow> string + parse_state" where
  "handle_line st line =
     (let active = (case ps_current st of None \<Rightarrow> False | Some f \<Rightarrow> hunk_active f)
      in if \<not> (active \<and> is_hunk_body_line line) \<and> starts_with ''--- '' line
         then rbind (header_path line ''--- '') (\<lambda>p. start_new_file p st)
         else case ps_current st of
           None \<Rightarrow> Inr st
         | Some f \<Rightarrow>
             if active \<and> is_hunk_body_line line then with_current st (handle_body_line line f)
             else if is_signature_delimiter line then with_current st (finish_hunk f)
             else if starts_with ''+++ '' line
             then with_current st (rbind (header_path line ''+++ '') (\<lambda>p.
               Inr (f\<lparr> acc_new_path := Some p \<rparr>)))
             else if starts_with ''@@'' line
             then with_current st (rbind (finish_hunk f) (\<lambda>g.
               rbind (parse_hunk_header line) (\<lambda>h. Inr (g\<lparr> acc_current := Some h \<rparr>))))
             else with_current st (handle_body_line line f))"

definition parse_unified_diff :: "string \<Rightarrow> string + patch_file list" where
  "parse_unified_diff diff =
     rbind (rfold handle_line \<lparr> ps_files = [], ps_current = None \<rparr> (split_lines diff)) (\<lambda>st.
       case ps_current st of None \<Rightarrow> Inr (ps_files st) | Some f \<Rightarrow> finish_file (ps_files st) f)"

end
