(* ===== verification/Patch_Normalize.thy ===== *)
theory Patch_Normalize
  imports Unified_Diff
begin

text \<open>
  The repair of shorthand diffs (\<open>packages/keiko-tools/src/patch-normalize.ts\<close>): hunk headers are
  rewritten from their bodies and empty lines between body lines become context lines. A header
  number is printed as \<open>String(Number(digits))\<close> prints it.
\<close>

subsection \<open>Numbers read from digits\<close>

fun bit_length :: "nat \<Rightarrow> nat" where
  "bit_length n = (if n = 0 then 0 else Suc (bit_length (n div 2)))"

declare bit_length.simps [simp del]

text \<open>The double nearest to a natural number, ties to the even mantissa.\<close>

definition round_double :: "nat \<Rightarrow> nat" where
  "round_double v =
     (let e = bit_length v - 53; q = v div 2 ^ e; r = v mod 2 ^ e
      in if e = 0 then v
         else if 2 * r > 2 ^ e \<or> (2 * r = 2 ^ e \<and> odd q) then (q + 1) * 2 ^ e else q * 2 ^ e)"

text \<open>
  The shortest digits that read back as the double \<open>d\<close>, of the two candidates with that many digits
  the one closer to \<open>d\<close>; the result is the digits and the power of ten they are multiplied with.
\<close>

fun shortest_digits :: "nat \<Rightarrow> nat \<Rightarrow> nat \<times> nat" where
  "shortest_digits d 0 = (d, 0)"
| "shortest_digits d (Suc p) =
     (let lo = d div 10 ^ Suc p; hi = lo + 1;
          ok = (\<lambda>s. s > 0 \<and> round_double (s * 10 ^ Suc p) = d)
      in if ok lo \<and> (\<not> ok hi \<or> 2 * (d - lo * 10 ^ Suc p) \<le> 10 ^ Suc p) then (lo, Suc p)
         else if ok hi then (hi, Suc p)
         else shortest_digits d p)"

definition strip_zeros :: "nat \<times> nat \<Rightarrow> nat \<times> nat" where
  "strip_zeros sp = (let ds = nat_digits (fst sp); z = length (takeWhile (\<lambda>c. c = CHR ''0'') (rev ds))
     in (fst sp div 10 ^ z, snd sp + z))"

definition double_text :: "nat \<Rightarrow> string" where
  "double_text d =
     (if d \<ge> 2 ^ 1024 then ''Infinity''
      else
        let sp = strip_zeros (shortest_digits d (length (nat_digits d) - 1));
            ds = nat_digits (fst sp);
            n = length ds + snd sp
        in if n \<le> 21 then ds @ replicate (snd sp) (CHR ''0'')
           else [hd ds] @ (if tl ds = [] then [] else CHR ''.'' # tl ds) @ ''e+'' @ nat_digits (n - 1))"

definition digits_text :: "string \<Rightarrow> string" where
  "digits_text s =
     (let v = digits_value s in if v \<le> max_safe_integer then nat_digits v else double_text (round_double v))"

subsection \<open>Hunk bodies\<close>

fun hunk_end :: "string list \<Rightarrow> nat" where
  "hunk_end [] = 0"
| "hunk_end (l # ls) =
     (if starts_with ''@@'' l \<or> (starts_with ''--- '' l \<and> ls \<noteq> [] \<and> starts_with ''+++ '' (hd ls))
      then 0 else Suc (hunk_end ls))"

lemma hunk_end_le: "hunk_end ls \<le> length ls"
  by (induction ls) auto

definition count_old_lines :: "string list \<Rightarrow> nat" where
  "count_old_lines ls = length (filter is_old_side ls)"

definition count_new_lines :: "string list \<Rightarrow> nat" where
  "count_new_lines ls = length (filter is_new_side ls)"

text \<open>
  The two scans of \<open>normalizeBlankContextLines\<close>: \<open>seen\<close> says that a body line came before, and the
  rest of the list is searched for one after.
\<close>

fun normalize_blank_context_lines :: "bool \<Rightarrow> string list \<Rightarrow> string list" where
  "normalize_blank_context_lines seen [] = []"
| "normalize_blank_context_lines seen (l # ls) =
     (if l = [] \<and> seen \<and> list_ex is_hunk_body_line ls then '' '' else l) #
     normalize_blank_context_lines (seen \<or> is_hunk_body_line l) ls"

subsection \<open>Hunk headers\<close>

definition has_line_terminator :: "string \<Rightarrow> bool" where
  "has_line_terminator s \<longleftrightarrow> newline_char \<in> set s \<or> CHR 0x0D \<in> set s \<or>
     contains [CHR 0xE2, CHR 0x80, CHR 0xA8] s \<or> contains [CHR 0xE2, CHR 0x80, CHR 0xA9] s"

definition parse_starts :: "string \<Rightarrow> (string \<times> string \<times> string) option" where
  "parse_starts line =
     (case hunk_header_match line of
        Some (a, b, c, d, suffix) \<Rightarrow>
          if has_line_terminator suffix
          then (if trim line = ''@@'' then Some (''0'', ''1'', '''') else None)
          else Some (digits_text a, digits_text c, suffix)
      | None \<Rightarrow> if trim line = ''@@'' then Some (''0'', ''1'', '''') else None)"

definition format_range :: "string \<Rightarrow> nat \<Rightarrow> string" where
  "format_range start count = start @ '','' @ nat_digits count"

definition normalize_hunk_header :: "string \<Rightarrow> string list \<Rightarrow> string" where
  "normalize_hunk_header header body =
     (case parse_starts header of
        None \<Rightarrow> header
      | Some (os, ns, suffix) \<Rightarrow>
          ''@@ -'' @ format_range os (count_old_lines body) @ '' +'' @
          format_range ns (count_new_lines body) @ '' @@'' @ suffix)"

subsection \<open>The normalizer\<close>

function normalize_lines :: "string list \<Rightarrow> string list" where
  "normalize_lines [] = []"
| "normalize_lines (l # ls) =
     (if \<not> starts_with ''@@'' l then l # normalize_lines ls
      else let body = normalize_blank_context_lines False (take (hunk_end ls) ls)
           in normalize_hunk_header l (filter is_hunk_body_line body) # body @
              normalize_lines (drop (hunk_end ls) ls))"
  by pat_completeness auto
termination by (relation "measure length") auto

definition normalize_unified_diff_hunks :: "string \<Rightarrow> string" where
  "normalize_unified_diff_hunks diff = join_lines (normalize_lines (split_lines diff))"

end
