(* ===== verification/Patch_Content.thy ===== *)
theory Patch_Content
  imports Patch_Normalize
begin

text \<open>
  Applying the hunks of one file change to the current content of the file
  (\<open>packages/keiko-tools/src/patch-content.ts\<close>). A hunk that does not match is a conflict, on the
  left of a sum where the code returns a failed hunk.
\<close>

record hunk_conflict =
  hc_index :: nat
  hc_reason :: string

record apply_outcome =
  out_content :: "string option"
  out_conflicts :: "hunk_conflict list"

definition no_newline_marker :: char where
  "no_newline_marker = backslash"

definition marker_not_last :: string where
  "marker_not_last = ''no-newline marker is not on the file'' @ [CHR 0x27] @ ''s last line''"

definition conflict_only :: "nat \<Rightarrow> string \<Rightarrow> apply_outcome" where
  "conflict_only i reason = \<lparr> out_content = None, out_conflicts = [\<lparr> hc_index = i, hc_reason = reason \<rparr>] \<rparr>"

subsection \<open>Lines of a file\<close>

record original =
  orig_lines :: "string list"
  orig_missing_newline :: bool

definition to_original :: "string \<Rightarrow> original" where
  "to_original content =
     (if content = [] then \<lparr> orig_lines = [], orig_missing_newline = False \<rparr>
      else let ls = split_lines content; missing = (last ls \<noteq> [])
           in \<lparr> orig_lines = (if missing then ls else butlast ls), orig_missing_newline = missing \<rparr>)"

definition render_lines :: "string list \<Rightarrow> bool \<Rightarrow> string" where
  "render_lines ls missing =
     (if ls = [] then [] else if missing then join_lines ls else join_lines ls @ newline)"

subsection \<open>One hunk\<close>

record produced =
  prod_lines :: "string list"
  marked_at :: "nat option"

definition mark_last_produced :: "produced \<Rightarrow> string + produced" where
  "mark_last_produced p =
     (if marked_at p \<noteq> None then Inl ''duplicate no-newline marker''
      else Inr (p\<lparr> marked_at := Some (length (prod_lines p) - 1) \<rparr>))"

definition marked_line_not_last :: "produced \<Rightarrow> bool" where
  "marked_line_not_last p \<longleftrightarrow> marked_at p \<noteq> None \<and> marked_at p \<noteq> Some (length (prod_lines p) - 1)"

definition apply_marker :: "original \<Rightarrow> string \<Rightarrow> nat \<Rightarrow> produced \<Rightarrow> string + produced" where
  "apply_marker org previous pos p =
     (if \<not> is_hunk_body_line previous then Inl ''no-newline marker without a preceding line''
      else if \<not> starts_char (CHR ''+'') previous \<and>
        (pos \<noteq> length (orig_lines org) \<or> \<not> orig_missing_newline org)
      then Inl (''no-newline marker does not match original line '' @ nat_digits pos)
      else if starts_char (CHR ''-'') previous then Inr p else mark_last_produced p)"

definition line_at :: "string list \<Rightarrow> nat \<Rightarrow> string option" where
  "line_at ls i = (if i < length ls then Some (ls ! i) else None)"

text \<open>The loop of \<open>applyHunk\<close>; it yields what was produced and the position reached.\<close>

fun hunk_loop :: "original \<Rightarrow> string list \<Rightarrow> produced \<Rightarrow> nat \<Rightarrow> string \<Rightarrow> string + (produced \<times> nat)" where
  "hunk_loop org [] p pos previous = Inr (p, pos)"
| "hunk_loop org (raw # ls) p pos previous =
     (if starts_char no_newline_marker raw
      then rbind (apply_marker org previous pos p) (\<lambda>q. hunk_loop org ls q pos raw)
      else if starts_char (CHR ''+'') raw
      then hunk_loop org ls (p\<lparr> prod_lines := prod_lines p @ [tl raw] \<rparr>) pos raw
      else if line_at (orig_lines org) pos = Some (tl raw)
      then hunk_loop org ls
        (if starts_char (CHR '' '') raw then p\<lparr> prod_lines := prod_lines p @ [tl raw] \<rparr> else p)
        (pos + 1) raw
      else Inl (''context mismatch at original line '' @ nat_digits (pos + 1)))"

record hunk_result =
  res_lines :: "string list"
  res_consumed :: nat
  res_missing_newline :: bool

definition apply_hunk :: "original \<Rightarrow> patch_hunk \<Rightarrow> nat \<Rightarrow> string + hunk_result" where
  "apply_hunk org h cursor =
     rbind (hunk_loop org (hunk_lines h) \<lparr> prod_lines = [], marked_at = None \<rparr> cursor '''') (\<lambda>r.
       if marked_line_not_last (fst r) then Inl marker_not_last
       else Inr \<lparr> res_lines = prod_lines (fst r), res_consumed = snd r - cursor,
                  res_missing_newline = (marked_at (fst r) \<noteq> None) \<rparr>)"

subsection \<open>Modified files\<close>

record modify_state =
  ms_out :: "string list"
  ms_conflicts :: "hunk_conflict list"
  ms_cursor :: nat
  ms_missing_newline :: bool

definition add_conflict :: "nat \<Rightarrow> string \<Rightarrow> modify_state \<Rightarrow> modify_state" where
  "add_conflict i reason st = st\<lparr> ms_conflicts := ms_conflicts st @ [\<lparr> hc_index = i, hc_reason = reason \<rparr>] \<rparr>"

definition slice_lines :: "string list \<Rightarrow> nat \<Rightarrow> nat \<Rightarrow> string list" where
  "slice_lines ls i j = take (j - i) (drop i ls)"

definition apply_modify_hunk :: "original \<Rightarrow> patch_hunk \<Rightarrow> nat \<Rightarrow> modify_state \<Rightarrow> modify_state" where
  "apply_modify_hunk org h i st =
     (let anchor = old_start h - 1;
          between = slice_lines (orig_lines org) (ms_cursor st) (min anchor (length (orig_lines org)))
      in if anchor < ms_cursor st then add_conflict i ''overlapping or out-of-order hunk'' st
         else case apply_hunk org h anchor of
           Inl reason \<Rightarrow> add_conflict i reason st
         | Inr r \<Rightarrow>
             if ms_missing_newline st \<and> length between + length (res_lines r) > 0
             then (add_conflict i marker_not_last st)\<lparr> ms_missing_newline := False \<rparr>
             else st\<lparr> ms_out := ms_out st @ between @ res_lines r,
                     ms_cursor := anchor + res_consumed r,
                     ms_missing_newline := res_missing_newline r \<rparr>)"

fun apply_modify_hunks :: "original \<Rightarrow> nat \<Rightarrow> patch_hunk list \<Rightarrow> modify_state \<Rightarrow> modify_state" where
  "apply_modify_hunks org i [] st = st"
| "apply_modify_hunks org i (h # hs) st = apply_modify_hunks org (i + 1) hs (apply_modify_hunk org h i st)"

definition apply_modify :: "original \<Rightarrow> patch_hunk list \<Rightarrow> apply_outcome" where
  "apply_modify org hunks =
     (let st = apply_modify_hunks org 0 hunks
            \<lparr> ms_out = [], ms_conflicts = [], ms_cursor = 0, ms_missing_newline = False \<rparr>;
          tail = drop (ms_cursor st) (orig_lines org);
          st1 = (if ms_missing_newline st \<and> tail \<noteq> []
                 then add_conflict (length hunks - 1) marker_not_last st else st)
      in if ms_conflicts st1 \<noteq> [] then \<lparr> out_content = None, out_conflicts = ms_conflicts st1 \<rparr>
         else \<lparr> out_content = Some (render_lines (ms_out st1 @ tail)
                  (if tail \<noteq> [] then orig_missing_newline org else ms_missing_newline st1)),
                out_conflicts = [] \<rparr>)"

subsection \<open>Created and deleted files\<close>

fun created_lines :: "string list \<Rightarrow> produced \<Rightarrow> string \<Rightarrow> string + (produced \<times> string)" where
  "created_lines [] p previous = Inr (p, previous)"
| "created_lines (raw # ls) p previous =
     (if starts_char no_newline_marker raw
      then (if starts_char (CHR ''+'') previous
            then rbind (mark_last_produced p) (\<lambda>q. created_lines ls q raw)
            else Inl ''no-newline marker without a preceding line'')
      else if starts_char (CHR ''+'') raw
      then created_lines ls (p\<lparr> prod_lines := prod_lines p @ [tl raw] \<rparr>) raw
      else created_lines ls p raw)"

fun created_hunks :: "nat \<Rightarrow> patch_hunk list \<Rightarrow> produced \<Rightarrow> string \<Rightarrow> hunk_conflict + produced" where
  "created_hunks i [] p previous = Inr p"
| "created_hunks i (h # hs) p previous =
     (case created_lines (hunk_lines h) p previous of
        Inl reason \<Rightarrow> Inl \<lparr> hc_index = i, hc_reason = reason \<rparr>
      | Inr r \<Rightarrow> created_hunks (i + 1) hs (fst r) (snd r))"

definition created_content :: "patch_hunk list \<Rightarrow> apply_outcome" where
  "created_content hunks =
     (case created_hunks 0 hunks \<lparr> prod_lines = [], marked_at = None \<rparr> '''' of
        Inl c \<Rightarrow> \<lparr> out_content = None, out_conflicts = [c] \<rparr>
      | Inr p \<Rightarrow>
          if marked_line_not_last p then conflict_only (length hunks - 1) marker_not_last
          else \<lparr> out_content = Some (render_lines (prod_lines p) (marked_at p \<noteq> None)),
                 out_conflicts = [] \<rparr>)"

definition verify_delete_pre_image :: "patch_hunk list \<Rightarrow> string \<Rightarrow> apply_outcome" where
  "verify_delete_pre_image hunks current =
     (let pre = map tl (filter is_old_side (concat (map hunk_lines hunks)))
      in if pre = [] \<or> render_lines pre False = current \<or> render_lines pre True = current
         then \<lparr> out_content = None, out_conflicts = [] \<rparr>
         else conflict_only 0 ''delete pre-image does not match current content'')"

definition compute_file_content :: "patch_file \<Rightarrow> string option \<Rightarrow> bool \<Rightarrow> apply_outcome" where
  "compute_file_content change current allow_overwrite =
     (case change_kind change of
        ChangeCreate \<Rightarrow>
          if current \<noteq> None \<and> \<not> allow_overwrite then conflict_only 0 ''create target already exists''
          else created_content (change_hunks change)
      | ChangeDelete \<Rightarrow>
          (case current of
             None \<Rightarrow> conflict_only 0 ''delete target does not exist''
           | Some c \<Rightarrow> verify_delete_pre_image (change_hunks change) c)
      | ChangeModify \<Rightarrow>
          (case current of
             None \<Rightarrow> conflict_only 0 ''modify target does not exist''
           | Some c \<Rightarrow> apply_modify (to_original c) (change_hunks change)))"

end
