(* ===== verification/Workspace_Paths.thy ===== *)
theory Workspace_Paths
  imports Patch_Types
begin

text \<open>
  Lexical containment of paths (\<open>packages/keiko-workspace/src/paths.ts\<close>) with the POSIX functions
  \<open>resolve\<close> and \<open>relative\<close> of \<open>node:path\<close> it is built on. An absolute path is kept as its segments.
\<close>

datatype path_error = EscapeError | DeniedError | OtherPathError

subsection \<open>The path functions of the runtime\<close>

definition slash :: char where
  "slash = CHR ''/''"

text \<open>One segment of a path: empty and dot segments vanish, a parent segment drops the last one.\<close>

definition push_segment :: "string list \<Rightarrow> string \<Rightarrow> string list" where
  "push_segment acc s =
     (if s = [] \<or> s = ''.'' then acc else if s = ''..'' then butlast acc else acc @ [s])"

definition is_absolute :: "string \<Rightarrow> bool" where
  "is_absolute p \<longleftrightarrow> starts_char slash p"

text \<open>The segments of \<open>resolve(cwd, p)\<close> for an absolute \<open>cwd\<close>.\<close>

definition resolve_segments :: "string \<Rightarrow> string \<Rightarrow> string list" where
  "resolve_segments cwd p =
     (if is_absolute p then foldl push_segment [] (split_on slash p)
      else foldl push_segment (foldl push_segment [] (split_on slash cwd)) (split_on slash p))"

definition absolute_path :: "string list \<Rightarrow> string" where
  "absolute_path segs = slash # join [slash] segs"

fun common_prefix :: "string list \<Rightarrow> string list \<Rightarrow> nat" where
  "common_prefix (a # as) (b # bs) = (if a = b then Suc (common_prefix as bs) else 0)"
| "common_prefix _ _ = 0"

text \<open>\<open>relative(from, to)\<close> of resolved paths.\<close>

definition relative_segments :: "string list \<Rightarrow> string list \<Rightarrow> string list" where
  "relative_segments from to =
     (let n = common_prefix from to in replicate (length from - n) ''..'' @ drop n to)"

definition relative_path :: "string list \<Rightarrow> string list \<Rightarrow> string" where
  "relative_path from to = join [slash] (relative_segments from to)"

subsection \<open>Containment\<close>

definition has_nul :: "string \<Rightarrow> bool" where
  "has_nul s \<longleftrightarrow> CHR 0x00 \<in> set s"

text \<open>
  \<open>resolveWithinWorkspace\<close>; \<open>cwd\<close> is the working directory of the process, which a relative root is
  resolved against.
\<close>

definition resolve_within_workspace :: "string \<Rightarrow> string \<Rightarrow> string \<Rightarrow> path_error + string" where
  "resolve_within_workspace cwd base candidate =
     (if has_nul base \<or> has_nul candidate then Inl EscapeError
      else
        let absolute_root = resolve_segments cwd base;
            absolute_candidate = resolve_segments (absolute_path absolute_root) candidate;
            rel = relative_path absolute_root absolute_candidate
        in if rel = [] then Inr (absolute_path absolute_root)
           else if rel = ''..'' \<or> starts_with ''../'' rel \<or> is_absolute rel then Inl EscapeError
           else Inr (absolute_path absolute_candidate))"

definition is_within_workspace :: "string \<Rightarrow> string \<Rightarrow> string \<Rightarrow> bool" where
  "is_within_workspace cwd base candidate \<longleftrightarrow>
     (case resolve_within_workspace cwd base candidate of Inl e \<Rightarrow> False | Inr p \<Rightarrow> True)"

subsection \<open>Resolved paths\<close>

text \<open>A clean segment is neither empty nor a dot segment and has no separator.\<close>

definition clean_segment :: "string \<Rightarrow> bool" where
  "clean_segment s \<longleftrightarrow> s \<noteq> [] \<and> s \<noteq> ''.'' \<and> s \<noteq> ''..'' \<and> slash \<notin> set s"

lemma clean_push: "list_all clean_segment acc \<Longrightarrow> slash \<notin> set s \<Longrightarrow> list_all clean_segment (push_segment acc s)"
  by (auto simp: push_segment_def clean_segment_def list_all_iff dest: in_set_butlastD)

lemma clean_fold:
  "list_all clean_segment acc \<Longrightarrow> (\<And>s. s \<in> set xs \<Longrightarrow> slash \<notin> set s) \<Longrightarrow>
   list_all clean_segment (foldl push_segment acc xs)"
  by (induction xs arbitrary: acc) (simp_all add: clean_push)

lemma clean_resolve: "list_all clean_segment (resolve_segments cwd p)"
  by (auto simp: resolve_segments_def intro!: clean_fold dest: split_on_free)

lemma split_clean: "list_all clean_segment segs \<Longrightarrow> segs \<noteq> [] \<Longrightarrow> split_on slash (join [slash] segs) = segs"
  by (rule split_on_join) (auto simp: list_all_iff clean_segment_def)

lemma push_clean: "clean_segment s \<Longrightarrow> push_segment acc s = acc @ [s]"
  by (auto simp: push_segment_def clean_segment_def)

lemma fold_clean: "list_all clean_segment xs \<Longrightarrow> foldl push_segment acc xs = acc @ xs"
  by (induction xs arbitrary: acc) (auto simp: push_clean)

lemma resolve_absolute_path: "list_all clean_segment segs \<Longrightarrow> resolve_segments cwd (absolute_path segs) = segs"
proof -
  assume c: "list_all clean_segment segs"
  have "split_on slash (absolute_path segs) = [] # split_on slash (join [slash] segs)"
    by (simp add: absolute_path_def)
  moreover have "foldl push_segment [] (split_on slash (join [slash] segs)) = segs"
    using c by (cases "segs = []") (simp_all add: split_clean fold_clean push_segment_def)
  ultimately show ?thesis
    by (simp add: resolve_segments_def is_absolute_def absolute_path_def starts_char_def push_segment_def)
qed

lemma common_prefix_le: "common_prefix xs ys \<le> length xs"
  by (induction xs ys rule: common_prefix.induct) auto

lemma common_prefix_take: "take (common_prefix xs ys) xs = take (common_prefix xs ys) ys"
  by (induction xs ys rule: common_prefix.induct) auto

lemma common_prefix_full: "common_prefix xs ys = length xs \<Longrightarrow> ys = xs @ drop (length xs) ys"
  using common_prefix_take [of xs ys] by (metis append_take_drop_id take_all order_refl)

lemma join_hd_dots: "join [slash] (''..'' # xs) = ''..'' \<or> starts_with ''../'' (join [slash] (''..'' # xs))"
  by (cases xs) (auto simp: starts_with_def slash_def)

lemma relative_inside:
  assumes "\<not> (relative_path src dst = ''..'' \<or> starts_with ''../'' (relative_path src dst))"
  shows "common_prefix src dst = length src"
proof (rule ccontr)
  assume "common_prefix src dst \<noteq> length src"
  with common_prefix_le [of src dst] obtain k where "length src - common_prefix src dst = Suc k"
    by (metis Suc_diff_Suc le_neq_implies_less)
  then have "relative_segments src dst = ''..'' # replicate k ''..'' @ drop (common_prefix src dst) dst"
    by (simp add: relative_segments_def Let_def)
  then have "relative_path src dst = ''..'' \<or> starts_with ''../'' (relative_path src dst)"
    unfolding relative_path_def by (simp only: join_hd_dots)
  with assms show False by blast
qed

text \<open>An accepted path is the root followed by clean segments only.\<close>

lemma resolve_within_inside:
  assumes "resolve_within_workspace cwd base candidate = Inr p"
  obtains segs where "list_all clean_segment segs" and "p = absolute_path (resolve_segments cwd base @ segs)"
proof -
  define r where "r = resolve_segments cwd base"
  define c where "c = resolve_segments (absolute_path r) candidate"
  consider (eq) "p = absolute_path r"
    | (inside) "p = absolute_path c" "\<not> (relative_path r c = ''..'' \<or> starts_with ''../'' (relative_path r c))"
    using assms
    unfolding resolve_within_workspace_def r_def [symmetric] c_def [symmetric] Let_def by (auto split: if_splits)
  then show thesis
  proof cases
    case eq
    then show ?thesis using that [of "[]"] by (simp add: r_def)
  next
    case inside
    then have "c = r @ drop (length r) c"
      using relative_inside [OF inside(2)] by (metis common_prefix_full)
    moreover have "list_all clean_segment c" unfolding c_def by (rule clean_resolve)
    then have "list_all clean_segment (drop (length r) c)"
      by (auto simp: list_all_iff dest: in_set_dropD)
    ultimately show ?thesis using that [of "drop (length r) c"] inside(1) by (simp add: r_def)
  qed
qed

end
