(* ===== verification/Patch_Engine.thy ===== *)
theory Patch_Engine
  imports Patch_Content Workspace_Paths
begin

text \<open>
  Inspection of a patch (\<open>packages/keiko-tools/src/patch.ts\<close>): its paths, limits and sources, the
  alignment of its hunks with the current content, rendering, projection, inversion and the previews.
  The read-only file system is a record of functions, constant during one inspection; the deny list
  and the real-path check of the workspace package are two of them.
\<close>

subsection \<open>The read-only file system\<close>

text \<open>
  A size that is not finite is \<open>None\<close>, as is a link count or a modification time that is absent or
  not finite.
\<close>

record file_stat =
  st_size :: "rat option"
  st_is_file :: bool
  st_is_directory :: bool
  st_is_link :: bool
  st_hard_links :: "rat option"
  st_mtime :: "rat option"

record patch_fs =
  fs_is_denied :: "string \<Rightarrow> bool"
  fs_real_relative :: "string \<Rightarrow> path_error + string"
  fs_exists :: "string \<Rightarrow> bool"
  fs_stat :: "string \<Rightarrow> path_error + file_stat"
  fs_read :: "string \<Rightarrow> path_error + string"
  fs_sha256 :: "string \<Rightarrow> string"

record workspace =
  ws_cwd :: string
  ws_root :: string

record source_version =
  sv_size :: rat
  sv_modified :: rat
  sv_hash :: string

record source_snapshot =
  src_absolute :: string
  src_content :: "string option"
  src_hash :: string
  src_version :: "source_version option"

definition patch_source_max_file_bytes :: nat where
  "patch_source_max_file_bytes = 1000000"

definition patch_source_max_total_bytes :: nat where
  "patch_source_max_total_bytes = 4000000"

subsection \<open>Whole-diff checks\<close>

fun unify_line_breaks :: "string \<Rightarrow> string" where
  "unify_line_breaks [] = []"
| "unify_line_breaks (c # r) =
     (if c = CHR 0x0D then newline_char # unify_line_breaks r
      else if c = CHR 0xE2 \<and> (take 2 r = [CHR 0x80, CHR 0xA8] \<or> take 2 r = [CHR 0x80, CHR 0xA9])
      then newline_char # unify_line_breaks (drop 2 r)
      else c # unify_line_breaks r)"

definition binary_files_line :: "string \<Rightarrow> bool" where
  "binary_files_line l \<longleftrightarrow> (let p = ''Binary files ''; q = '' differ''
     in length p + length q \<le> length l \<and> starts_with p l \<and> drop (length l - length q) l = q)"

definition is_binary_diff :: "string \<Rightarrow> bool" where
  "is_binary_diff diff \<longleftrightarrow> contains ''GIT binary patch'' diff \<or>
     list_ex binary_files_line (split_lines (unify_line_breaks diff)) \<or> has_nul diff"

definition has_escaped_diff_line_break :: "string \<Rightarrow> bool" where
  "has_escaped_diff_line_break diff \<longleftrightarrow> contains (backslash # ''n+'') diff \<or>
     contains (backslash # ''n-'') diff \<or> contains (backslash # ''n '') diff"

record inspection_policy =
  ip_limits :: patch_limits
  ip_allow_overwrite :: bool
  ip_verbatim :: bool

subsection \<open>Paths\<close>

definition rejection :: "rejection_code \<Rightarrow> string \<Rightarrow> patch_rejection" where
  "rejection code message = \<lparr> rej_code = code, rej_message = message, rej_path = None \<rparr>"

definition path_rejection :: "string \<Rightarrow> rejection_code \<Rightarrow> string \<Rightarrow> patch_rejection" where
  "path_rejection path code message = \<lparr> rej_code = code, rej_message = message, rej_path = Some path \<rparr>"

definition strip_leading_separator :: "string \<Rightarrow> string" where
  "strip_leading_separator s =
     (if starts_char slash s \<or> starts_char backslash s then tl s else s)"

definition real_path_matches_lexical_target :: "patch_fs \<Rightarrow> string \<Rightarrow> string \<Rightarrow> string \<Rightarrow> bool" where
  "real_path_matches_lexical_target fs absolute rel real_relative =
     (if fs_exists fs absolute then real_relative = rel
      else real_relative = [] \<or> rel = real_relative \<or> starts_with (real_relative @ ''/'') rel)"

definition more_than_one_link :: "file_stat \<Rightarrow> bool" where
  "more_than_one_link st = (case st_hard_links st of Some n \<Rightarrow> n > 1 | None \<Rightarrow> False)"

definition enforce_path :: "workspace \<Rightarrow> patch_fs \<Rightarrow> string \<Rightarrow> path_error + string" where
  "enforce_path ws fs path =
     rbind (resolve_within_workspace (ws_cwd ws) (ws_root ws) path) (\<lambda>resolved.
       let rel = strip_leading_separator (drop (length (ws_root ws)) resolved)
       in if fs_is_denied fs (if rel = [] then path else rel) then Inl DeniedError
          else rbind (fs_real_relative fs resolved) (\<lambda>real_relative.
            if \<not> real_path_matches_lexical_target fs resolved rel real_relative then Inl DeniedError
            else rbind (if fs_exists fs resolved
                        then rbind (fs_stat fs resolved) (\<lambda>st. Inr (more_than_one_link st))
                        else Inr False) (\<lambda>linked.
              if linked \<or> fs_is_denied fs real_relative then Inl DeniedError else Inr resolved)))"

text \<open>What a path error becomes in a report; \<open>normalizeSourceReadError\<close> and \<open>safePath\<close> agree.\<close>

definition path_error_rejection :: "string \<Rightarrow> path_error \<Rightarrow> patch_rejection" where
  "path_error_rejection path e = (case e of
     EscapeError \<Rightarrow> path_rejection path PathUnsafe ''path escapes the workspace''
   | DeniedError \<Rightarrow> path_rejection path PathDenied ''path matches an always-on deny pattern''
   | OtherPathError \<Rightarrow> path_rejection path PathDenied ''source file could not be inspected safely'')"

definition safe_path :: "workspace \<Rightarrow> patch_fs \<Rightarrow> string \<Rightarrow> patch_rejection option" where
  "safe_path ws fs path = (case enforce_path ws fs path of
     Inr p \<Rightarrow> None | Inl e \<Rightarrow> Some (path_error_rejection path e))"

definition collect_path_reasons :: "workspace \<Rightarrow> patch_fs \<Rightarrow> patch_file list \<Rightarrow> patch_rejection list" where
  "collect_path_reasons ws fs files = List.map_filter (\<lambda>f. safe_path ws fs (change_path f)) files"

subsection \<open>Sources\<close>

text \<open>The size as a natural number, when it is a safe non-negative integer.\<close>

definition safe_size :: "rat option \<Rightarrow> nat option" where
  "safe_size r = (case r of None \<Rightarrow> None
     | Some q \<Rightarrow> if of_int \<lfloor>q\<rfloor> = q \<and> 0 \<le> q \<and> q \<le> of_nat max_safe_integer then Some (nat \<lfloor>q\<rfloor>) else None)"

definition reserve_source_bytes :: "file_stat \<Rightarrow> nat \<Rightarrow> string \<Rightarrow> patch_rejection + (nat \<times> nat)" where
  "reserve_source_bytes st budget path =
     (case safe_size (st_size st) of
        None \<Rightarrow> Inl (path_rejection path PathDenied ''source file could not be inspected safely'')
      | Some n \<Rightarrow>
          if n > patch_source_max_file_bytes
          then Inl (path_rejection path SizeLimit ''source file exceeds the per-file byte limit'')
          else if budget + n > patch_source_max_total_bytes
          then Inl (path_rejection path SizeLimit ''source files exceed the aggregate byte limit'')
          else Inr (n, budget + n))"

definition verify_source_bytes :: "string \<Rightarrow> nat \<Rightarrow> nat \<Rightarrow> string \<Rightarrow> patch_rejection + unit" where
  "verify_source_bytes content size_before budget path =
     (let bytes = length content
      in if bytes > patch_source_max_file_bytes
         then Inl (path_rejection path SizeLimit ''source file exceeds the per-file byte limit'')
         else if budget - size_before + bytes > patch_source_max_total_bytes
         then Inl (path_rejection path SizeLimit ''source files exceed the aggregate byte limit'')
         else if bytes \<noteq> size_before
         then Inl (path_rejection path PathDenied ''source file changed during validation'')
         else Inr ())"

definition source_version_from_stat :: "file_stat \<Rightarrow> string \<Rightarrow> source_version option" where
  "source_version_from_stat st h = (case (st_mtime st, st_size st) of
     (Some m, Some n) \<Rightarrow>
       if m < 0 then None else Some \<lparr> sv_size = n, sv_modified = m, sv_hash = h \<rparr>
   | _ \<Rightarrow> None)"

definition inspect_source ::
  "workspace \<Rightarrow> patch_fs \<Rightarrow> string \<Rightarrow> nat \<Rightarrow> patch_rejection + (source_snapshot \<times> nat)" where
  "inspect_source ws fs path budget =
     (case enforce_path ws fs path of
        Inl e \<Rightarrow> Inl (path_error_rejection path e)
      | Inr absolute \<Rightarrow>
          if \<not> fs_exists fs absolute
          then Inr (\<lparr> src_absolute = absolute, src_content = None, src_hash = fs_sha256 fs [],
                      src_version = None \<rparr>, budget)
          else (case fs_stat fs absolute of
              Inl e \<Rightarrow> Inl (path_rejection path PathDenied ''source file could not be inspected safely'')
            | Inr st \<Rightarrow>
                if \<not> st_is_file st \<or> st_is_directory st \<or> st_is_link st
                then Inl (path_rejection path PathDenied ''source target is not a regular file'')
                else if more_than_one_link st
                then Inl (path_rejection path PathDenied ''path matches an always-on deny pattern'')
                else rbind (reserve_source_bytes st budget path) (\<lambda>nb.
                  case fs_read fs absolute of
                    Inl e \<Rightarrow> Inl (path_rejection path PathDenied ''source file could not be read safely'')
                  | Inr content \<Rightarrow>
                      rbind (verify_source_bytes content (fst nb) (snd nb) path) (\<lambda>_.
                        Inr (\<lparr> src_absolute = absolute, src_content = Some content,
                               src_hash = fs_sha256 fs content,
                               src_version = source_version_from_stat st (fs_sha256 fs content) \<rparr>,
                             snd nb)))))"

text \<open>The loop of \<open>prepareSources\<close>; each path is inspected once. The sources are an association list.\<close>

fun prepare_loop ::
  "workspace \<Rightarrow> patch_fs \<Rightarrow> patch_file list \<Rightarrow> (string \<times> source_snapshot) list \<Rightarrow> nat
     \<Rightarrow> patch_rejection + (string \<times> source_snapshot) list" where
  "prepare_loop ws fs [] sources budget = Inr sources"
| "prepare_loop ws fs (f # files) sources budget =
     (if map_of sources (change_path f) \<noteq> None then prepare_loop ws fs files sources budget
      else rbind (inspect_source ws fs (change_path f) budget) (\<lambda>sb.
        prepare_loop ws fs files (sources @ [(change_path f, fst sb)]) (snd sb)))"

definition prepare_sources ::
  "workspace \<Rightarrow> patch_fs \<Rightarrow> patch_file list \<Rightarrow> patch_rejection + (string \<times> source_snapshot) list" where
  "prepare_sources ws fs files = prepare_loop ws fs files [] 0"

definition source_content :: "(string \<times> source_snapshot) list \<Rightarrow> string \<Rightarrow> string option" where
  "source_content sources path =
     (case map_of sources path of None \<Rightarrow> None | Some s \<Rightarrow> src_content s)"

subsection \<open>Alignment\<close>

definition to_lines :: "string \<Rightarrow> string list" where
  "to_lines content =
     (if content = [] then []
      else let ls = split_lines content in if last ls = [] then butlast ls else ls)"

definition hunk_preimage_lines :: "patch_hunk \<Rightarrow> string list" where
  "hunk_preimage_lines h = map tl (filter is_old_side (hunk_lines h))"

definition starts_with_sequence :: "string list \<Rightarrow> nat \<Rightarrow> string list \<Rightarrow> bool" where
  "starts_with_sequence ls i needle \<longleftrightarrow> take (length needle) (drop i ls) = needle"

definition unique_sequence_index :: "string list \<Rightarrow> string list \<Rightarrow> nat option" where
  "unique_sequence_index ls needle =
     (if needle = [] \<or> length needle > length ls then None
      else case filter (\<lambda>i. starts_with_sequence ls i needle) [0..<length ls - length needle + 1] of
        [i] \<Rightarrow> Some i | _ \<Rightarrow> None)"

definition is_create_only_modify :: "patch_file \<Rightarrow> bool" where
  "is_create_only_modify f \<longleftrightarrow> change_hunks f \<noteq> [] \<and>
     list_all (\<lambda>h. old_lines h = 0 \<and>
       list_all (\<lambda>l. starts_char (CHR ''+'') l \<or> starts_char backslash l) (hunk_lines h)) (change_hunks f)"

definition align_hunk :: "string list \<Rightarrow> patch_hunk \<Rightarrow> patch_hunk" where
  "align_hunk ls h =
     (let pre = hunk_preimage_lines h
      in if old_start h > 0 \<and> starts_with_sequence ls (old_start h - 1) pre then h
         else case unique_sequence_index ls pre of
           None \<Rightarrow> h
         | Some i \<Rightarrow> h\<lparr> old_start := i + 1, new_start := i + 1 \<rparr>)"

text \<open>
  \<open>alignFileHunks\<close>: \<open>None\<close> stands for the unchanged file object, which the caller tells apart by
  identity from a new one.
\<close>

definition align_file_hunks :: "patch_file \<Rightarrow> string option \<Rightarrow> patch_file option" where
  "align_file_hunks f current =
     (if change_kind f \<noteq> ChangeModify then None
      else case current of
        None \<Rightarrow> if is_create_only_modify f then Some (f\<lparr> change_kind := ChangeCreate \<rparr>) else None
      | Some c \<Rightarrow>
          if c = [] \<and> is_create_only_modify f
          then Some (f\<lparr> change_hunks := map (\<lambda>h. h\<lparr> old_start := 1, new_start := 1 \<rparr>) (change_hunks f) \<rparr>)
          else let hs = map (align_hunk (to_lines c)) (change_hunks f)
               in if hs = change_hunks f then None else Some (f\<lparr> change_hunks := hs \<rparr>))"

definition aligned_file :: "(string \<times> source_snapshot) list \<Rightarrow> patch_file \<Rightarrow> patch_file" where
  "aligned_file sources f =
     (case align_file_hunks f (source_content sources (change_path f)) of None \<Rightarrow> f | Some g \<Rightarrow> g)"

definition align_hunks_to_current_content ::
  "patch_file list \<Rightarrow> (string \<times> source_snapshot) list \<Rightarrow> patch_file list" where
  "align_hunks_to_current_content files sources = map (aligned_file sources) files"

definition unanchored_modify_reasons :: "patch_file list \<Rightarrow> patch_rejection list" where
  "unanchored_modify_reasons files =
     map (\<lambda>f. path_rejection (change_path f) Malformed ''modify hunk has no unique anchor'')
       (filter (\<lambda>f. change_kind f = ChangeModify \<and> list_ex (\<lambda>h. old_start h = 0) (change_hunks f)) files)"

definition collect_conflicts ::
  "patch_file list \<Rightarrow> (string \<times> source_snapshot) list \<Rightarrow> bool \<Rightarrow> patch_conflict list" where
  "collect_conflicts files sources allow_overwrite =
     concat (map (\<lambda>f. map (\<lambda>c. \<lparr> con_path = change_path f, con_hunk = hc_index c, con_reason = hc_reason c \<rparr>)
       (out_conflicts (compute_file_content f (source_content sources (change_path f)) allow_overwrite))) files)"

subsection \<open>Limits\<close>

definition size_and_count_reasons ::
  "string \<Rightarrow> patch_file list \<Rightarrow> nat \<Rightarrow> inspection_policy \<Rightarrow> nat \<Rightarrow> patch_rejection list" where
  "size_and_count_reasons diff files total_changed policy total_bytes =
     (let lim = ip_limits policy in
        (if \<not> is_blank diff \<and> files = []
         then [rejection Malformed ''diff does not contain any file changes''] else []) @
        (if int total_bytes > max_patch_bytes lim
         then [rejection SizeLimit (''patch exceeds '' @ int_text (max_patch_bytes lim) @ '' bytes'')] else []) @
        (if is_binary_diff diff then [rejection BinaryPatch ''binary patches are not supported''] else []) @
        (if \<not> ip_verbatim policy \<and> has_escaped_diff_line_break diff
         then [rejection Malformed ''diff contains escaped newline markers; use real line breaks''] else []) @
        (if int total_changed > max_changed_lines lim
         then [rejection LineLimit (''changed lines exceed '' @ int_text (max_changed_lines lim))] else []) @
        (if int (length files) > max_files_changed lim
         then [rejection FileLimit (''files changed exceed '' @ int_text (max_files_changed lim))] else []))"

subsection \<open>Rendering\<close>

definition render_header :: "patch_file \<Rightarrow> string list" where
  "render_header f = (case change_kind f of
     ChangeCreate \<Rightarrow> [''--- /dev/null'', ''+++ b/'' @ change_path f]
   | ChangeDelete \<Rightarrow> [''--- a/'' @ change_path f, ''+++ /dev/null'']
   | ChangeModify \<Rightarrow> [''--- a/'' @ change_path f, ''+++ b/'' @ change_path f])"

definition render_hunk_header :: "patch_hunk \<Rightarrow> string" where
  "render_hunk_header h = ''@@ -'' @ nat_digits (old_start h) @ '','' @ nat_digits (old_lines h) @
     '' +'' @ nat_digits (new_start h) @ '','' @ nat_digits (new_lines h) @ '' @@''"

definition render_file_lines :: "patch_file \<Rightarrow> string list" where
  "render_file_lines f = render_header f @
     concat (map (\<lambda>h. render_hunk_header h # hunk_lines h) (change_hunks f))"

definition render_parsed_patch :: "patch_file list \<Rightarrow> string" where
  "render_parsed_patch files = join_lines (concat (map render_file_lines files))"

subsection \<open>Inspection\<close>

record parsed_diff =
  pd_files :: "patch_file list"
  pd_effective :: string
  pd_normalized :: bool

definition parse_diff_for_validation :: "string \<Rightarrow> string + parsed_diff" where
  "parse_diff_for_validation diff =
     (case parse_unified_diff diff of
        Inr files \<Rightarrow> Inr \<lparr> pd_files = files, pd_effective = diff, pd_normalized = False \<rparr>
      | Inl e \<Rightarrow>
          let n = normalize_unified_diff_hunks diff
          in if n = diff then Inl e
             else rbind (parse_unified_diff n) (\<lambda>files.
               Inr \<lparr> pd_files = files, pd_effective = n, pd_normalized = True \<rparr>))"

definition malformed_validation :: "string \<Rightarrow> string \<Rightarrow> patch_validation" where
  "malformed_validation diff message = \<lparr> val_ok = False, val_files = [], val_changed_lines = 0,
     val_bytes = length diff, val_normalized = None, val_reasons = [rejection Malformed message],
     val_conflicts = [] \<rparr>"

definition validation_result ::
  "string \<Rightarrow> string \<Rightarrow> patch_file list \<Rightarrow> nat \<Rightarrow> patch_rejection list \<Rightarrow> patch_conflict list \<Rightarrow> patch_validation" where
  "validation_result diff effective files total_changed reasons conflicts =
     \<lparr> val_ok = (reasons = [] \<and> conflicts = []), val_files = files, val_changed_lines = total_changed,
       val_bytes = length effective, val_normalized = (if effective = diff then None else Some effective),
       val_reasons = reasons, val_conflicts = conflicts \<rparr>"

definition validation_reasons ::
  "workspace \<Rightarrow> patch_fs \<Rightarrow> inspection_policy \<Rightarrow> parsed_diff \<Rightarrow> nat \<Rightarrow> patch_rejection list" where
  "validation_reasons ws fs policy parsed total_changed =
     size_and_count_reasons (pd_effective parsed) (pd_files parsed) total_changed policy
       (length (pd_effective parsed)) @
     collect_path_reasons ws fs (pd_files parsed)"

record inspection_file =
  if_change :: patch_file
  if_original :: "string option"
  if_outcome :: apply_outcome
  if_hash :: string
  if_version :: "source_version option"

text \<open>
  \<open>patchInspectionFile\<close>; a change without a source cannot happen, as every path was prepared, and the
  model gives it the snapshot of an absent file.
\<close>

definition snapshot_of :: "(string \<times> source_snapshot) list \<Rightarrow> string \<Rightarrow> source_snapshot" where
  "snapshot_of sources path = (case map_of sources path of Some s \<Rightarrow> s
     | None \<Rightarrow> \<lparr> src_absolute = [], src_content = None, src_hash = [], src_version = None \<rparr>)"

definition patch_inspection_file ::
  "patch_file \<Rightarrow> (string \<times> source_snapshot) list \<Rightarrow> bool \<Rightarrow> inspection_file" where
  "patch_inspection_file change sources allow_overwrite =
     (let s = snapshot_of sources (change_path change)
      in \<lparr> if_change = change, if_original = src_content s,
           if_outcome = compute_file_content change (src_content s) allow_overwrite,
           if_hash = src_hash s, if_version = src_version s \<rparr>)"

record patch_inspection =
  ins_validation :: patch_validation
  ins_files :: "inspection_file list option"

definition rejected_inspection ::
  "string \<Rightarrow> parsed_diff \<Rightarrow> nat \<Rightarrow> patch_rejection list \<Rightarrow> patch_inspection" where
  "rejected_inspection diff parsed total_changed reasons =
     \<lparr> ins_validation = validation_result diff (pd_effective parsed) (pd_files parsed) total_changed reasons [],
       ins_files = None \<rparr>"

definition total_changed_lines :: "patch_file list \<Rightarrow> nat" where
  "total_changed_lines files = (\<Sum>f\<leftarrow>files. added_lines f + removed_lines f)"

definition complete_inspection ::
  "workspace \<Rightarrow> patch_fs \<Rightarrow> inspection_policy \<Rightarrow> string \<Rightarrow> parsed_diff \<Rightarrow> patch_inspection" where
  "complete_inspection ws fs policy diff parsed =
     (let files = pd_files parsed;
          total_changed = total_changed_lines files;
          initial = validation_reasons ws fs policy parsed total_changed
      in if initial \<noteq> [] then rejected_inspection diff parsed total_changed initial
         else case prepare_sources ws fs files of
           Inl r \<Rightarrow> rejected_inspection diff parsed total_changed [r]
         | Inr sources \<Rightarrow>
             let aligned = align_hunks_to_current_content files sources;
                 changed = list_ex (\<lambda>f. align_file_hunks f (source_content sources (change_path f)) \<noteq> None) files;
                 effective = (if pd_normalized parsed \<or> changed then render_parsed_patch aligned else diff);
                 reasons = unanchored_modify_reasons aligned;
                 conflicts = (if reasons = [] then collect_conflicts aligned sources (ip_allow_overwrite policy) else [])
             in \<lparr> ins_validation = validation_result diff effective aligned total_changed reasons conflicts,
                  ins_files = Some (map (\<lambda>f. patch_inspection_file f sources (ip_allow_overwrite policy)) aligned) \<rparr>)"

definition inspect_patch :: "workspace \<Rightarrow> patch_fs \<Rightarrow> inspection_policy \<Rightarrow> string \<Rightarrow> patch_inspection" where
  "inspect_patch ws fs policy diff =
     (case parse_diff_for_validation diff of
        Inl message \<Rightarrow> \<lparr> ins_validation = malformed_validation diff message, ins_files = None \<rparr>
      | Inr parsed \<Rightarrow> complete_inspection ws fs policy diff parsed)"

definition validate_patch :: "workspace \<Rightarrow> patch_fs \<Rightarrow> inspection_policy \<Rightarrow> string \<Rightarrow> patch_validation" where
  "validate_patch ws fs policy diff = ins_validation (inspect_patch ws fs policy diff)"

subsection \<open>Projection onto selected paths\<close>

definition normalize_projection_path :: "string \<Rightarrow> string" where
  "normalize_projection_path path =
     join [slash] (filter (\<lambda>s. s \<noteq> [] \<and> s \<noteq> ''.'')
       (split_on slash (map (\<lambda>c. if c = backslash then slash else c) path)))"

definition is_letter :: "char \<Rightarrow> bool" where
  "is_letter c = (let n = (of_char c :: nat) in 65 \<le> n \<and> n \<le> 90 \<or> 97 \<le> n \<and> n \<le> 122)"

definition projection_path_is_contained :: "string \<Rightarrow> bool" where
  "projection_path_is_contained path \<longleftrightarrow> path \<noteq> [] \<and> \<not> starts_char slash path \<and>
     \<not> (is_letter (hd path) \<and> starts_char (CHR '':'') (tl path)) \<and>
     ''..'' \<notin> set (split_on slash (map (\<lambda>c. if c = backslash then slash else c) path))"

datatype patch_error =
    ApplyDisabled
  | ValidationError string "patch_rejection list" "patch_conflict list"
  | CancelledError string
  | ApplyError string string
  | ParseError string
  | WriterThrew "string option"

definition projection_failure :: "string \<Rightarrow> patch_error" where
  "projection_failure message =
     ValidationError ''patch projection failed'' [rejection Malformed message] []"

definition project_validated_patch :: "patch_validation \<Rightarrow> string list \<Rightarrow> patch_error + string" where
  "project_validated_patch v selected_paths =
     (if \<not> val_ok v
      then Inl (ValidationError ''source patch must pass full validation before projection''
             (val_reasons v) (val_conflicts v))
      else if selected_paths = [] \<or> \<not> list_all projection_path_is_contained selected_paths
      then Inl (projection_failure ''selected paths must be a non-empty contained path list'')
      else
        let available = map (\<lambda>f. normalize_projection_path (change_path f)) (val_files v);
            selected = map normalize_projection_path selected_paths
        in if \<not> distinct available \<or> \<not> distinct selected
           then Inl (projection_failure ''patch projection paths must be unique after normalization'')
           else if list_ex (\<lambda>p. p \<notin> set available) selected
           then Inl (projection_failure ''selected paths must belong to the validated patch'')
           else Inr (render_parsed_patch
             (filter (\<lambda>f. normalize_projection_path (change_path f) \<in> set selected) (val_files v))))"

subsection \<open>The inverse patch\<close>

definition invert_hunk_line :: "string \<Rightarrow> string" where
  "invert_hunk_line line =
     (if starts_char (CHR ''+'') line then CHR ''-'' # tl line
      else if starts_char (CHR ''-'') line then CHR ''+'' # tl line else line)"

definition invert_hunk :: "patch_hunk \<Rightarrow> patch_hunk" where
  "invert_hunk h = \<lparr> old_start = new_start h, old_lines = new_lines h, new_start = old_start h,
     new_lines = old_lines h, hunk_lines = map invert_hunk_line (hunk_lines h) \<rparr>"

fun inverse_kind :: "change_kind \<Rightarrow> change_kind" where
  "inverse_kind ChangeCreate = ChangeDelete"
| "inverse_kind ChangeDelete = ChangeCreate"
| "inverse_kind ChangeModify = ChangeModify"

definition invert_file_change :: "patch_file \<Rightarrow> patch_file" where
  "invert_file_change f = \<lparr> change_path = change_path f, change_kind = inverse_kind (change_kind f),
     change_hunks = map invert_hunk (change_hunks f), added_lines = removed_lines f,
     removed_lines = added_lines f \<rparr>"

definition invert_patch :: "string \<Rightarrow> patch_error + string" where
  "invert_patch diff = (case parse_unified_diff diff of
     Inl message \<Rightarrow> Inl (ParseError message)
   | Inr files \<Rightarrow> Inr (render_parsed_patch (map invert_file_change files)))"

definition throw_patch_source_validation :: "patch_rejection \<Rightarrow> patch_error" where
  "throw_patch_source_validation r = ValidationError ''patch failed validation'' [r] []"

definition has_create_overwrite ::
  "workspace \<Rightarrow> patch_fs \<Rightarrow> patch_file list \<Rightarrow> patch_rejection + bool" where
  "has_create_overwrite ws fs files =
     (let creates = filter (\<lambda>f. change_kind f = ChangeCreate) files
      in rbind (prepare_sources ws fs creates) (\<lambda>sources.
        Inr (list_ex (\<lambda>f. source_content sources (change_path f) \<noteq> None) creates)))"

text \<open>\<open>fs\<close> is the file system during validation, \<open>fs1\<close> during the check for overwritten files.\<close>

definition build_restore_patch ::
  "workspace \<Rightarrow> patch_fs \<Rightarrow> patch_fs \<Rightarrow> inspection_policy \<Rightarrow> string \<Rightarrow> patch_error + string option" where
  "build_restore_patch ws fs fs1 policy diff =
     (let v = validate_patch ws fs policy diff;
          forward = (case val_normalized v of None \<Rightarrow> diff | Some d \<Rightarrow> d);
          restore = rbind (invert_patch forward) (\<lambda>d. Inr (Some d))
      in if \<not> val_ok v
         then Inl (ValidationError ''patch failed validation'' (val_reasons v) (val_conflicts v))
         else if \<not> ip_allow_overwrite policy then restore
         else case has_create_overwrite ws fs1 (val_files v) of
           Inl r \<Rightarrow> Inl (throw_patch_source_validation r)
         | Inr overwrites \<Rightarrow> if overwrites then Inr None else restore)"

end
