(* ===== verification/Patch_Apply.thy ===== *)
theory Patch_Apply
  imports Patch_Engine
begin

text \<open>
  Applying a validated patch (\<open>packages/keiko-tools/src/patch.ts\<close>): planning the writes, the write
  phase with its rollback, and \<open>applyPatch\<close>. The writer is a record of operations on a state of its
  own that may throw; what the write phase needs of it is a locale.
\<close>

subsection \<open>The writer\<close>

text \<open>An operation yields the message of a thrown \<open>Error\<close>, \<open>None\<close> for another thrown value.\<close>

record 'w writer =
  wr_write :: "string \<Rightarrow> string \<Rightarrow> 'w \<Rightarrow> (string option + unit) \<times> 'w"
  wr_mkdirp :: "string \<Rightarrow> 'w \<Rightarrow> (string option + unit) \<times> 'w"
  wr_remove :: "string \<Rightarrow> 'w \<Rightarrow> (string option + unit) \<times> 'w"

text \<open>The state of a write phase: the writer's, and how often the effect guard has been asked.\<close>

record 'w effects =
  ef_writer :: 'w
  ef_guards :: nat

definition write_call :: "('w \<Rightarrow> (string option + unit) \<times> 'w) \<Rightarrow> 'w effects \<Rightarrow> (patch_error + unit) \<times> 'w effects" where
  "write_call op ef = (case op (ef_writer ef) of
     (Inl m, w) \<Rightarrow> (Inl (WriterThrew m), ef\<lparr> ef_writer := w \<rparr>)
   | (Inr u, w) \<Rightarrow> (Inr u, ef\<lparr> ef_writer := w \<rparr>))"

fun then_do ::
  "(patch_error + unit) \<times> 'w effects \<Rightarrow> ('w effects \<Rightarrow> (patch_error + unit) \<times> 'w effects)
     \<Rightarrow> (patch_error + unit) \<times> 'w effects" where
  "then_do (Inl e, ef) k = (Inl e, ef)"
| "then_do (Inr u, ef) k = k ef"

subsection \<open>Planning\<close>

record planned_write =
  pw_path :: string
  pw_absolute :: string
  pw_kind :: change_kind
  pw_new_content :: "string option"
  pw_original :: "string option"

definition required_source ::
  "(string \<times> source_snapshot) list \<Rightarrow> string \<Rightarrow> patch_error + source_snapshot" where
  "required_source sources path = (case map_of sources path of
     Some s \<Rightarrow> Inr s
   | None \<Rightarrow> Inl (throw_patch_source_validation
       (path_rejection path PathDenied ''source file could not be inspected safely'')))"

definition plan_write :: "patch_file \<Rightarrow> source_snapshot \<Rightarrow> bool \<Rightarrow> patch_error + planned_write" where
  "plan_write f s allow_overwrite =
     (let outcome = compute_file_content f (src_content s) allow_overwrite
      in if out_conflicts outcome \<noteq> []
         then Inl (ValidationError ''patch failed commit-time validation'' []
           (map (\<lambda>c. \<lparr> con_path = change_path f, con_hunk = hc_index c, con_reason = hc_reason c \<rparr>)
              (out_conflicts outcome)))
         else Inr \<lparr> pw_path = change_path f, pw_absolute = src_absolute s, pw_kind = change_kind f,
                    pw_new_content = out_content outcome, pw_original = src_content s \<rparr>)"

definition plan_writes ::
  "workspace \<Rightarrow> patch_fs \<Rightarrow> patch_file list \<Rightarrow> bool \<Rightarrow> patch_error + planned_write list" where
  "plan_writes ws fs files allow_overwrite =
     (case prepare_sources ws fs files of
        Inl r \<Rightarrow> Inl (throw_patch_source_validation r)
      | Inr sources \<Rightarrow> rmap (\<lambda>f. rbind (required_source sources (change_path f))
          (\<lambda>s. plan_write f s allow_overwrite)) files)"

subsection \<open>The write phase\<close>

definition require_effect :: "(nat \<Rightarrow> bool) \<Rightarrow> 'w effects \<Rightarrow> (patch_error + unit) \<times> 'w effects" where
  "require_effect guard ef =
     (if guard (ef_guards ef) then Inr () else Inl (CancelledError ''apply cancelled during write phase''),
      ef\<lparr> ef_guards := ef_guards ef + 1 \<rparr>)"

definition parent_directory :: "string \<Rightarrow> string" where
  "parent_directory path =
     (if list_ex (\<lambda>c. c = slash \<or> c = backslash) path
      then butlast (rev (dropWhile (\<lambda>c. c \<noteq> slash \<and> c \<noteq> backslash) (rev path)))
      else path)"

definition apply_one ::
  "'w writer \<Rightarrow> (nat \<Rightarrow> bool) \<Rightarrow> planned_write \<Rightarrow> 'w effects \<Rightarrow> (patch_error + unit) \<times> 'w effects" where
  "apply_one wr guard p ef =
     then_do (require_effect guard ef) (\<lambda>ef1.
       if pw_kind p = ChangeDelete then write_call (wr_remove wr (pw_absolute p)) ef1
       else then_do (write_call (wr_mkdirp wr (parent_directory (pw_absolute p))) ef1) (\<lambda>ef2.
         then_do (require_effect guard ef2) (\<lambda>ef3.
           write_call (wr_write wr (pw_absolute p)
             (case pw_new_content p of Some c \<Rightarrow> c | None \<Rightarrow> [])) ef3)))"

fun rollback :: "'w writer \<Rightarrow> planned_write list \<Rightarrow> 'w effects \<Rightarrow> (patch_error + unit) \<times> 'w effects" where
  "rollback wr [] ef = (Inr (), ef)"
| "rollback wr (p # ps) ef =
     then_do (write_call (case pw_original p of
         None \<Rightarrow> wr_remove wr (pw_absolute p)
       | Some c \<Rightarrow> wr_write wr (pw_absolute p) c) ef) (rollback wr ps)"

text \<open>The error after a rollback: a cancellation as it is, a thrown value wrapped.\<close>

fun after_rollback :: "patch_error \<Rightarrow> string \<Rightarrow> patch_error" where
  "after_rollback (WriterThrew (Some m)) path = ApplyError (''apply failed, rolled back: '' @ m) path"
| "after_rollback (WriterThrew None) path = ApplyError ''apply failed, rolled back: write failed'' path"
| "after_rollback e path = e"

definition fail_with_rollback ::
  "'w writer \<Rightarrow> planned_write list \<Rightarrow> planned_write \<Rightarrow> patch_error \<Rightarrow> 'w effects
     \<Rightarrow> (patch_error + unit) \<times> 'w effects" where
  "fail_with_rollback wr done_plans p e ef =
     then_do (rollback wr done_plans ef) (\<lambda>ef1. (Inl (after_rollback e (pw_path p)), ef1))"

fun commit_loop ::
  "'w writer \<Rightarrow> (nat \<Rightarrow> bool) \<Rightarrow> planned_write list \<Rightarrow> planned_write list \<Rightarrow> 'w effects
     \<Rightarrow> (patch_error + unit) \<times> 'w effects" where
  "commit_loop wr guard [] done_plans ef = (Inr (), ef)"
| "commit_loop wr guard (p # ps) done_plans ef =
     (case apply_one wr guard p ef of
        (Inl e, ef1) \<Rightarrow> fail_with_rollback wr done_plans p e ef1
      | (Inr u, ef1) \<Rightarrow>
          (case require_effect guard ef1 of
             (Inl e, ef2) \<Rightarrow> fail_with_rollback wr (done_plans @ [p]) p e ef2
           | (Inr v, ef2) \<Rightarrow> commit_loop wr guard ps (done_plans @ [p]) ef2))"

definition commit ::
  "'w writer \<Rightarrow> (nat \<Rightarrow> bool) \<Rightarrow> planned_write list \<Rightarrow> 'w effects \<Rightarrow> (patch_error + unit) \<times> 'w effects" where
  "commit wr guard plans ef = commit_loop wr guard plans [] ef"

definition summarize :: "planned_write list \<Rightarrow> patch_apply_result" where
  "summarize plans = \<lparr> changed_files = map pw_path plans,
     created_files = map pw_path (filter (\<lambda>p. pw_kind p = ChangeCreate) plans),
     deleted_files = map pw_path (filter (\<lambda>p. pw_kind p = ChangeDelete) plans) \<rparr>"

subsection \<open>Applying a patch\<close>

text \<open>
  The file system \<open>fs\<close> is the one validation sees and \<open>fs1\<close> the one planning sees; \<open>aborted\<close> is the
  state of the signal when validation has returned, and planning, which runs synchronously, sees the
  same. \<open>guard n\<close> says whether the n-th question of the effect guard is answered with yes.
\<close>

definition apply_patch ::
  "workspace \<Rightarrow> patch_fs \<Rightarrow> patch_fs \<Rightarrow> inspection_policy \<Rightarrow> bool \<Rightarrow> bool \<Rightarrow> (nat \<Rightarrow> bool) \<Rightarrow> 'w writer
     \<Rightarrow> string \<Rightarrow> 'w \<Rightarrow> (patch_error + patch_apply_result) \<times> 'w" where
  "apply_patch ws fs fs1 policy apply_enabled aborted guard wr diff w =
     (if \<not> apply_enabled then (Inl ApplyDisabled, w)
      else
        let v = validate_patch ws fs policy diff
        in if \<not> val_ok v
           then (Inl (ValidationError ''patch failed validation'' (val_reasons v) (val_conflicts v)), w)
           else if aborted then (Inl (CancelledError ''apply cancelled before write phase''), w)
           else case plan_writes ws fs1 (val_files v) (ip_allow_overwrite policy) of
             Inl e \<Rightarrow> (Inl e, w)
           | Inr plans \<Rightarrow>
               (case commit wr guard plans \<lparr> ef_writer = w, ef_guards = 0 \<rparr> of
                  (Inl e, ef) \<Rightarrow> (Inl e, ef_writer ef)
                | (Inr u, ef) \<Rightarrow> (Inr (summarize plans), ef_writer ef)))"

end
