(* ===== verification/Patch_Commit.thy ===== *)
theory Patch_Commit
  imports Patch_Apply
begin

text \<open>
  The write phase against the contract of its writer: a file operation either takes effect on its one
  file or throws and changes no file. A phase that succeeds has written every planned file; one that
  fails and could roll back has changed nothing.
\<close>

subsection \<open>The contract of a writer\<close>

text \<open>What a planned write leaves in its file.\<close>

definition written :: "planned_write \<Rightarrow> string option" where
  "written p = (if pw_kind p = ChangeDelete then None
     else Some (case pw_new_content p of Some c \<Rightarrow> c | None \<Rightarrow> []))"

text \<open>
  \<open>view s\<close> is the content of every file, by the name the writer resolves a path to (\<open>key\<close>);
  \<open>target\<close> are the paths a patch may name.
\<close>

locale workspace_writer =
  fixes wr :: "'w writer"
    and view :: "'w \<Rightarrow> string \<Rightarrow> string option"
    and key :: "string \<Rightarrow> string"
    and target :: "string \<Rightarrow> bool"
  assumes write_done: "target p \<Longrightarrow> wr_write wr p c s = (Inr u, s') \<Longrightarrow> view s' = (view s)(key p := Some c)"
    and write_failed: "target p \<Longrightarrow> wr_write wr p c s = (Inl e, s') \<Longrightarrow> view s' = view s"
    and remove_done: "target p \<Longrightarrow> wr_remove wr p s = (Inr u, s') \<Longrightarrow> view s' = (view s)(key p := None)"
    and remove_failed: "target p \<Longrightarrow> wr_remove wr p s = (Inl e, s') \<Longrightarrow> view s' = view s"
    and mkdirp_view: "view (snd (wr_mkdirp wr d s)) = view s"
begin

definition plan_key :: "planned_write \<Rightarrow> string" where
  "plan_key p = key (pw_absolute p)"

abbreviation ef_view :: "'w effects \<Rightarrow> string \<Rightarrow> string option" where
  "ef_view ef \<equiv> view (ef_writer ef)"

lemma then_do_cases:
  assumes "then_do r k = (x, ef)"
  obtains (fails) e where "r = (Inl e, ef)" "x = Inl e" | (goes_on) u ef1 where "r = (Inr u, ef1)" "k ef1 = (x, ef)"
  using assms by (cases r rule: prod.exhaust; cases "fst r") auto

lemma write_call_cases:
  assumes "write_call op ef = (x, ef')"
  obtains (fails) m where "op (ef_writer ef) = (Inl m, ef_writer ef')" "x = Inl (WriterThrew m)"
    | (returns) u where "op (ef_writer ef) = (Inr u, ef_writer ef')" "x = Inr u"
  using assms by (auto simp: write_call_def split: prod.splits sum.splits)

lemma require_effect_view: "require_effect guard ef = (x, ef') \<Longrightarrow> ef_view ef' = ef_view ef"
  by (auto simp: require_effect_def)

lemma write_call_write:
  assumes "target p" and "write_call (wr_write wr p c) ef = (x, ef')"
  shows "ef_view ef' = (if isl x then ef_view ef else (ef_view ef)(key p := Some c))"
  using assms(2) by (cases rule: write_call_cases) (auto dest: write_done [OF assms(1)] write_failed [OF assms(1)])

lemma write_call_remove:
  assumes "target p" and "write_call (wr_remove wr p) ef = (x, ef')"
  shows "ef_view ef' = (if isl x then ef_view ef else (ef_view ef)(key p := None))"
  using assms(2) by (cases rule: write_call_cases) (auto dest: remove_done [OF assms(1)] remove_failed [OF assms(1)])

lemma write_call_mkdirp:
  assumes "write_call (wr_mkdirp wr d) ef = (x, ef')"
  shows "ef_view ef' = ef_view ef"
  using assms mkdirp_view [of d "ef_writer ef"] by (cases rule: write_call_cases) auto

lemma apply_one_view:
  assumes "target (pw_absolute p)" and "apply_one wr guard p ef = (x, ef')"
  shows "ef_view ef' = (if isl x then ef_view ef else (ef_view ef)(plan_key p := written p))"
proof (cases "pw_kind p = ChangeDelete")
  case True
  then have "then_do (require_effect guard ef) (write_call (wr_remove wr (pw_absolute p))) = (x, ef')"
    using assms(2) by (simp add: apply_one_def)
  then show ?thesis
  proof (cases rule: then_do_cases)
    case (fails e)
    with require_effect_view show ?thesis by fastforce
  next
    case (goes_on u ef1)
    with require_effect_view write_call_remove [OF assms(1) goes_on(2)] True show ?thesis
      by (auto simp: written_def plan_key_def)
  qed
next
  case False
  let ?c = "case pw_new_content p of Some c \<Rightarrow> c | None \<Rightarrow> []"
  let ?w = "\<lambda>ef3. write_call (wr_write wr (pw_absolute p) ?c) ef3"
  from assms(2) False have "then_do (require_effect guard ef) (\<lambda>ef1.
      then_do (write_call (wr_mkdirp wr (parent_directory (pw_absolute p))) ef1) (\<lambda>ef2.
        then_do (require_effect guard ef2) ?w)) = (x, ef')" by (simp add: apply_one_def)
  then show ?thesis
  proof (cases rule: then_do_cases)
    case (fails e)
    with require_effect_view show ?thesis by fastforce
  next
    case (goes_on u1 ef1)
    from goes_on(2) show ?thesis
    proof (cases rule: then_do_cases)
      case fails2: (fails e)
      from require_effect_view [OF goes_on(1)] write_call_mkdirp [OF fails2(1)] fails2(2) show ?thesis by simp
    next
      case goes_on2: (goes_on u2 ef2)
      from goes_on2(2) show ?thesis
      proof (cases rule: then_do_cases)
        case fails3: (fails e)
        from require_effect_view [OF goes_on(1)] write_call_mkdirp [OF goes_on2(1)]
          require_effect_view [OF fails3(1)] fails3(2) show ?thesis by simp
      next
        case goes_on3: (goes_on u3 ef3)
        from require_effect_view [OF goes_on(1)] write_call_mkdirp [OF goes_on2(1)]
          require_effect_view [OF goes_on3(1)] write_call_write [OF assms(1) goes_on3(2)] False
        show ?thesis by (simp add: written_def plan_key_def)
      qed
    qed
  qed
qed

lemma rollback_view:
  assumes "\<And>p. p \<in> set ps \<Longrightarrow> target (pw_absolute p) \<and> v0 (plan_key p) = pw_original p"
    and "rollback wr ps ef = (Inr u, ef')"
  shows "ef_view ef' = (\<lambda>k. if k \<in> plan_key ` set ps then v0 k else ef_view ef k)"
  using assms
proof (induction ps arbitrary: ef)
  case (Cons p ps)
  have t: "target (pw_absolute p)" and o: "v0 (plan_key p) = pw_original p" using Cons.prems(1) [of p] by auto
  let ?op = "case pw_original p of None \<Rightarrow> wr_remove wr (pw_absolute p) | Some c \<Rightarrow> wr_write wr (pw_absolute p) c"
  from Cons.prems(2) obtain u1 ef1 where 1: "write_call ?op ef = (Inr u1, ef1)" and 2: "rollback wr ps ef1 = (Inr u, ef')"
    by (auto elim: then_do_cases)
  have "ef_view ef1 = (ef_view ef)(plan_key p := v0 (plan_key p))"
  proof (cases "pw_original p")
    case None
    with 1 have "write_call (wr_remove wr (pw_absolute p)) ef = (Inr u1, ef1)" by simp
    from write_call_remove [OF t this] None o show ?thesis by (simp add: plan_key_def)
  next
    case (Some c)
    with 1 have "write_call (wr_write wr (pw_absolute p) c) ef = (Inr u1, ef1)" by simp
    from write_call_write [OF t this] Some o show ?thesis by (simp add: plan_key_def)
  qed
  moreover have "ef_view ef' = (\<lambda>k. if k \<in> plan_key ` set ps then v0 k else ef_view ef1 k)"
    using Cons.prems(1) by (intro Cons.IH [OF _ 2]) auto
  ultimately show ?case by (auto simp: fun_eq_iff)
qed auto

text \<open>A failure whose rollback succeeds leaves every file as it was before the phase.\<close>

lemma fail_with_rollback_view:
  assumes "\<And>q. q \<in> set done_plans \<Longrightarrow> target (pw_absolute q) \<and> v0 (plan_key q) = pw_original q"
    and "\<And>k. k \<notin> plan_key ` set done_plans \<Longrightarrow> ef_view ef k = v0 k"
    and "fail_with_rollback wr done_plans p e ef = (Inl e', ef')" and "\<And>m. e' \<noteq> WriterThrew m"
  shows "ef_view ef' = v0"
proof -
  from assms(3) show ?thesis unfolding fail_with_rollback_def
  proof (cases rule: then_do_cases)
    case (fails e1)
    have "\<exists>m. e1 = WriterThrew m" using fails(1)
    proof (induction done_plans arbitrary: ef)
      case (Cons q qs)
      then show ?case by (auto elim!: then_do_cases write_call_cases)
    qed simp
    with fails assms(4) show ?thesis by auto
  next
    case (goes_on u ef1)
    with rollback_view [OF assms(1) goes_on(1)] assms(2) show ?thesis by (auto simp: fun_eq_iff)
  qed
qed

lemma commit_loop_fails:
  assumes "\<And>q. q \<in> set (done_plans @ ps) \<Longrightarrow> target (pw_absolute q) \<and> v0 (plan_key q) = pw_original q"
    and "\<And>k. k \<notin> plan_key ` set done_plans \<Longrightarrow> ef_view ef k = v0 k"
    and "commit_loop wr guard ps done_plans ef = (Inl e, ef')" and "\<And>m. e \<noteq> WriterThrew m"
  shows "ef_view ef' = v0"
  using assms
proof (induction ps arbitrary: done_plans ef)
  case (Cons p ps)
  have t: "target (pw_absolute p)" using Cons.prems(1) [of p] by simp
  obtain x ef1 where one: "apply_one wr guard p ef = (x, ef1)" by (cases "apply_one wr guard p ef")
  note view1 = apply_one_view [OF t one]
  show ?case
  proof (cases x)
    case (Inl e1)
    with Cons.prems(3) one have "fail_with_rollback wr done_plans p e1 ef1 = (Inl e, ef')" by simp
    then show ?thesis
      by (rule fail_with_rollback_view [of done_plans v0, rotated 2]) (use Cons.prems view1 Inl in auto)
  next
    case (Inr u)
    obtain y ef2 where req: "require_effect guard ef1 = (y, ef2)" by (cases "require_effect guard ef1")
    have here: "ef_view ef2 k = v0 k" if "k \<notin> plan_key ` set (done_plans @ [p])" for k
      using view1 Inr require_effect_view [OF req] Cons.prems(2) that by auto
    show ?thesis
    proof (cases y)
      case (Inl e1)
      with Cons.prems(3) one Inr req have "fail_with_rollback wr (done_plans @ [p]) p e1 ef2 = (Inl e, ef')" by simp
      then show ?thesis
        by (rule fail_with_rollback_view [of "done_plans @ [p]" v0, rotated 2]) (use Cons.prems here in auto)
    next
      case (Inr u2)
      with Cons.prems(3) one \<open>x = Inr u\<close> req have "commit_loop wr guard ps (done_plans @ [p]) ef2 = (Inl e, ef')" by simp
      then show ?thesis
        by (intro Cons.IH [of "done_plans @ [p]" ef2]) (use Cons.prems here in auto)
    qed
  qed
qed simp

lemma commit_loop_succeeds:
  assumes "\<And>q. q \<in> set ps \<Longrightarrow> target (pw_absolute q)" and "commit_loop wr guard ps done_plans ef = (Inr u, ef')"
  shows "ef_view ef' = foldl (\<lambda>v p. v(plan_key p := written p)) (ef_view ef) ps"
  using assms
proof (induction ps arbitrary: done_plans ef)
  case (Cons p ps)
  have t: "target (pw_absolute p)" using Cons.prems(1) [of p] by simp
  have no_rollback: "fail_with_rollback wr ds p e1 ef1 \<noteq> (Inr u, ef')" for ds e1 ef1
    by (auto simp: fail_with_rollback_def elim: then_do_cases)
  from Cons.prems(2) no_rollback obtain u1 ef1 u2 ef2 where one: "apply_one wr guard p ef = (Inr u1, ef1)"
    and req: "require_effect guard ef1 = (Inr u2, ef2)" and rest: "commit_loop wr guard ps (done_plans @ [p]) ef2 = (Inr u, ef')"
    by (auto split: prod.splits sum.splits)
  have "ef_view ef2 = (ef_view ef)(plan_key p := written p)"
    using apply_one_view [OF t one] require_effect_view [OF req] by simp
  with Cons.IH [OF _ rest] Cons.prems(1) show ?case by simp
qed simp

end

end
