(* ===== verification/Workspace_Writer.thy ===== *)
theory Workspace_Writer
  imports Patch_Commit "HOL-Library.Word"
begin

text \<open>
  The contained writer of the workspace (\<open>packages/keiko-tools/src/writer.ts\<close>) on POSIX. Regular files
  are the state; what the operating system says of links, directories, faults and partial writes is a
  parameter that may depend on the state and on the number of calls made before. Real paths are
  absolute and normalised, so they and resolved paths are kept as their segments.
\<close>

subsection \<open>The operating system\<close>

record node_fs =
  nf_files :: "string \<Rightarrow> string option"
  nf_calls :: nat

datatype thrown = Errno string string | Refused string

fun thrown_message :: "thrown \<Rightarrow> string" where
  "thrown_message (Errno code m) = m"
| "thrown_message (Refused m) = m"

definition has_code :: "string \<Rightarrow> thrown \<Rightarrow> bool" where
  "has_code code e = (case e of Errno c m \<Rightarrow> c = code | Refused m \<Rightarrow> False)"

record file_stats =
  fs_link :: bool
  fs_dir :: bool
  fs_mode :: "32 word"

text \<open>
  \<open>os_fault\<close> is an error that stops the next call from taking effect, \<open>os_accepts s n\<close> how many of
  \<open>n\<close> bytes a write takes.
\<close>

record os_env =
  os_cwd :: string
  os_pid :: string
  os_uuid :: "node_fs \<Rightarrow> string"
  os_fault :: "node_fs \<Rightarrow> thrown option"
  os_lstat :: "node_fs \<Rightarrow> string \<Rightarrow> thrown + file_stats"
  os_realpath :: "node_fs \<Rightarrow> string \<Rightarrow> thrown + string list"
  os_exists :: "node_fs \<Rightarrow> string \<Rightarrow> bool"
  os_accepts :: "node_fs \<Rightarrow> nat \<Rightarrow> nat"

subsection \<open>Effects that may throw\<close>

type_synonym 'a io = "node_fs \<Rightarrow> (thrown + 'a) \<times> node_fs"

definition io_return :: "'a \<Rightarrow> 'a io" where
  "io_return a s = (Inr a, s)"

definition io_throw :: "thrown \<Rightarrow> 'a io" where
  "io_throw e s = (Inl e, s)"

definition io_bind :: "'a io \<Rightarrow> ('a \<Rightarrow> 'b io) \<Rightarrow> 'b io" where
  "io_bind m k s = (case m s of (Inl e, s1) \<Rightarrow> (Inl e, s1) | (Inr a, s1) \<Rightarrow> k a s1)"

definition io_catch :: "'a io \<Rightarrow> (thrown \<Rightarrow> 'a io) \<Rightarrow> 'a io" where
  "io_catch m h s = (case m s of (Inl e, s1) \<Rightarrow> h e s1 | (Inr a, s1) \<Rightarrow> (Inr a, s1))"

text \<open>A call that asks, and one that changes the files unless the environment faults it.\<close>

definition ask :: "(node_fs \<Rightarrow> thrown + 'a) \<Rightarrow> 'a io" where
  "ask f s = (f s, s\<lparr> nf_calls := nf_calls s + 1 \<rparr>)"

definition change_files ::
  "os_env \<Rightarrow> ((string \<Rightarrow> string option) \<Rightarrow> thrown + (string \<Rightarrow> string option)) \<Rightarrow> unit io" where
  "change_files env f s = (case os_fault env s of
     Some e \<Rightarrow> (Inl e, s\<lparr> nf_calls := nf_calls s + 1 \<rparr>)
   | None \<Rightarrow> (case f (nf_files s) of
       Inl e \<Rightarrow> (Inl e, s\<lparr> nf_calls := nf_calls s + 1 \<rparr>)
     | Inr files \<Rightarrow> (Inr (), \<lparr> nf_files = files, nf_calls = nf_calls s + 1 \<rparr>)))"

definition lstat_sync :: "os_env \<Rightarrow> string \<Rightarrow> file_stats io" where
  "lstat_sync env path = ask (\<lambda>s. os_lstat env s path)"

definition realpath_sync :: "os_env \<Rightarrow> string \<Rightarrow> string list io" where
  "realpath_sync env path = ask (\<lambda>s. os_realpath env s path)"

definition exists_sync :: "os_env \<Rightarrow> string \<Rightarrow> bool io" where
  "exists_sync env path = ask (\<lambda>s. Inr (os_exists env s path))"

text \<open>A call of which only the fault is observed here: \<open>mkdir\<close>, \<open>fsync\<close>, \<open>close\<close> and opening a directory.\<close>

definition plain_call :: "os_env \<Rightarrow> unit io" where
  "plain_call env = change_files env Inr"

definition open_exclusive :: "os_env \<Rightarrow> string \<Rightarrow> 32 word \<Rightarrow> unit io" where
  "open_exclusive env path mode = change_files env (\<lambda>files.
     if files path = None then Inr (files(path := Some []))
     else Inl (Errno ''EEXIST'' ''file already exists''))"

definition write_sync :: "os_env \<Rightarrow> string \<Rightarrow> string \<Rightarrow> unit io" where
  "write_sync env path content s =
     (let n = os_accepts env s (length content)
      in change_files env (\<lambda>files. Inr (files(path := Some (take n content)))) s)"

definition rename_sync :: "os_env \<Rightarrow> string \<Rightarrow> string \<Rightarrow> unit io" where
  "rename_sync env src dst = change_files env (\<lambda>files. case files src of
     None \<Rightarrow> Inl (Errno ''ENOENT'' ''no such file or directory'')
   | Some c \<Rightarrow> Inr (if src = dst then files else files(src := None, dst := Some c)))"

definition remove_sync :: "os_env \<Rightarrow> string \<Rightarrow> unit io" where
  "remove_sync env path = change_files env (\<lambda>files. Inr (files(path := None)))"

subsection \<open>Containment\<close>

text \<open>\<open>isContained\<close>; a name that begins with two dots counts as an escape.\<close>

definition is_contained :: "string list \<Rightarrow> string list \<Rightarrow> bool" where
  "is_contained base target =
     (let rel = relative_path base target
      in rel = [] \<or> (\<not> starts_with ''..'' rel \<and> \<not> is_absolute rel))"

definition assert_contained :: "string list \<Rightarrow> string list \<Rightarrow> unit io" where
  "assert_contained base target =
     (if is_contained base target then io_return ()
      else io_throw (Refused ''workspace writer path escaped the workspace root''))"

definition assert_no_symlink :: "os_env \<Rightarrow> string \<Rightarrow> unit io" where
  "assert_no_symlink env path = io_bind (lstat_sync env path) (\<lambda>st.
     if fs_link st then io_throw (Refused ''workspace writer refused a symbolic link'') else io_return ())"

definition same_native_path :: "string list \<Rightarrow> string list \<Rightarrow> bool" where
  "same_native_path a b \<longleftrightarrow> absolute_path a = absolute_path b"

definition assert_contained_parent :: "os_env \<Rightarrow> string list \<Rightarrow> string list \<Rightarrow> unit io" where
  "assert_contained_parent env base path =
     io_bind (assert_contained base path) (\<lambda>_.
     io_bind (realpath_sync env (absolute_path (butlast path))) (\<lambda>real_parent.
       if \<not> same_native_path (butlast path) real_parent
       then io_throw (Refused ''workspace writer refused a redirected parent directory'')
       else assert_contained base real_parent))"

subsection \<open>Replacing a file\<close>

definition existing_file_mode :: "os_env \<Rightarrow> string \<Rightarrow> 32 word io" where
  "existing_file_mode env path = io_catch
     (io_bind (lstat_sync env path) (\<lambda>st.
        if fs_link st then io_throw (Refused ''workspace writer refused a symbolic link'')
        else io_return (and (fs_mode st) 511)))
     (\<lambda>e. if has_code ''ENOENT'' e then io_return 438 else io_throw e)"

definition quietly :: "unit io \<Rightarrow> unit io" where
  "quietly m = io_catch m (\<lambda>e. io_return ())"

definition fsync_directory :: "os_env \<Rightarrow> unit io" where
  "fsync_directory env =
     io_bind (io_catch (io_bind (plain_call env) (\<lambda>_. io_return True)) (\<lambda>e. io_return False)) (\<lambda>opened.
       if opened then io_bind (quietly (plain_call env)) (\<lambda>_. quietly (plain_call env))
       else io_return ())"

definition temp_path :: "os_env \<Rightarrow> string list \<Rightarrow> string \<Rightarrow> string" where
  "temp_path env path uuid = absolute_path (butlast path @
     [''.'' @ (if path = [] then [] else last path) @ ''.keiko-write.'' @ os_pid env @ ''.'' @ uuid @ ''.tmp''])"

text \<open>The \<open>finally\<close> block: \<open>opened\<close> says whether the descriptor is still open.\<close>

definition clean_up :: "os_env \<Rightarrow> string \<Rightarrow> bool \<Rightarrow> unit io" where
  "clean_up env temp opened =
     io_bind (if opened then quietly (plain_call env) else io_return ()) (\<lambda>_.
     io_bind (exists_sync env temp) (\<lambda>there.
       if there then quietly (remove_sync env temp) else io_return ()))"

definition with_finally :: "'a io \<Rightarrow> unit io \<Rightarrow> 'a io" where
  "with_finally m cleanup s = (let r = m s in (fst r, snd (cleanup (snd r))))"

definition replace_target :: "os_env \<Rightarrow> string list \<Rightarrow> string \<Rightarrow> unit io" where
  "replace_target env path temp =
     io_bind (exists_sync env (absolute_path path)) (\<lambda>there.
     io_bind (if there then assert_no_symlink env (absolute_path path) else io_return ()) (\<lambda>_.
     io_bind (rename_sync env temp (absolute_path path)) (\<lambda>_. fsync_directory env)))"

definition flush_content :: "os_env \<Rightarrow> string \<Rightarrow> string \<Rightarrow> unit io" where
  "flush_content env temp content =
     io_bind (write_sync env temp content) (\<lambda>_.
     io_bind (plain_call env) (\<lambda>_. plain_call env))"

text \<open>The \<open>try\<close> block in its three stretches, by what the \<open>finally\<close> block finds when one throws.\<close>

definition through_temp :: "os_env \<Rightarrow> string list \<Rightarrow> string \<Rightarrow> 32 word \<Rightarrow> string \<Rightarrow> unit io" where
  "through_temp env path content mode temp s =
     (case open_exclusive env temp mode s of
        (Inl e, s1) \<Rightarrow> with_finally (io_throw e) (clean_up env temp False) s1
      | (Inr u, s1) \<Rightarrow> (case flush_content env temp content s1 of
          (Inl e, s2) \<Rightarrow> with_finally (io_throw e) (clean_up env temp True) s2
        | (Inr v, s2) \<Rightarrow> with_finally (replace_target env path temp) (clean_up env temp False) s2))"

definition write_file_no_follow :: "os_env \<Rightarrow> string list \<Rightarrow> string \<Rightarrow> unit io" where
  "write_file_no_follow env path content =
     io_bind (existing_file_mode env (absolute_path path)) (\<lambda>mode.
     io_bind (ask (\<lambda>s. Inr (os_uuid env s))) (\<lambda>uuid.
       through_temp env path content mode (temp_path env path uuid)))"

subsection \<open>Directories\<close>

definition non_directory :: thrown where
  "non_directory = Refused ''workspace writer refused a non-directory path segment''"

definition create_missing_segment :: "os_env \<Rightarrow> string \<Rightarrow> unit io" where
  "create_missing_segment env current =
     io_bind (io_catch (plain_call env)
       (\<lambda>e. if has_code ''EEXIST'' e then io_return () else io_throw e)) (\<lambda>_.
     io_bind (lstat_sync env current) (\<lambda>st.
       if fs_link st \<or> \<not> fs_dir st then io_throw non_directory else io_return ()))"

definition ensure_directory_segment :: "os_env \<Rightarrow> string list \<Rightarrow> string list \<Rightarrow> unit io" where
  "ensure_directory_segment env base current =
     io_bind (assert_contained base current) (\<lambda>_.
     io_bind (io_catch
       (io_bind (lstat_sync env (absolute_path current)) (\<lambda>st.
          if fs_link st \<or> \<not> fs_dir st then io_throw non_directory else io_return ()))
       (\<lambda>e. if has_code ''ENOENT'' e then create_missing_segment env (absolute_path current) else io_throw e)) (\<lambda>_.
     io_bind (realpath_sync env (absolute_path current)) (assert_contained base)))"

fun ensure_segments :: "os_env \<Rightarrow> string list \<Rightarrow> string list \<Rightarrow> string list \<Rightarrow> unit io" where
  "ensure_segments env base current [] = io_return ()"
| "ensure_segments env base current (s # segs) =
     io_bind (ensure_directory_segment env base (push_segment current s)) (\<lambda>_.
       ensure_segments env base (push_segment current s) segs)"

subsection \<open>The contained writer\<close>

text \<open>\<open>lexical\<close> is the resolved workspace root, \<open>base\<close> its real path.\<close>

definition resolve_workspace_path ::
  "os_env \<Rightarrow> string list \<Rightarrow> string list \<Rightarrow> string \<Rightarrow> thrown + string list" where
  "resolve_workspace_path env lexical base path =
     (let resolved = resolve_segments (os_cwd env) path
      in if is_contained base resolved then Inr resolved
         else if \<not> is_contained lexical resolved
         then Inl (Refused ''workspace writer path escaped the workspace root'')
         else Inr (foldl push_segment base (relative_segments lexical resolved)))"

definition io_of :: "thrown + 'a \<Rightarrow> 'a io" where
  "io_of r s = (r, s)"

definition mkdirp_contained :: "os_env \<Rightarrow> string list \<Rightarrow> string list \<Rightarrow> string \<Rightarrow> unit io" where
  "mkdirp_contained env lexical base dir =
     io_bind (io_of (resolve_workspace_path env lexical base dir)) (\<lambda>resolved.
     io_bind (assert_contained base resolved) (\<lambda>_.
       let rel = relative_path base resolved
       in if rel = [] then io_return ()
          else ensure_segments env base base (filter (\<lambda>s. s \<noteq> [])
            (split_on slash (map (\<lambda>c. if c = backslash then slash else c) rel)))))"

definition write_contained :: "os_env \<Rightarrow> string list \<Rightarrow> string list \<Rightarrow> string \<Rightarrow> string \<Rightarrow> unit io" where
  "write_contained env lexical base path content =
     io_bind (io_of (resolve_workspace_path env lexical base path)) (\<lambda>resolved.
     io_bind (assert_contained_parent env base resolved) (\<lambda>_.
       write_file_no_follow env resolved content))"

definition remove_contained :: "os_env \<Rightarrow> string list \<Rightarrow> string list \<Rightarrow> string \<Rightarrow> unit io" where
  "remove_contained env lexical base path =
     io_bind (io_of (resolve_workspace_path env lexical base path)) (\<lambda>resolved.
     io_bind (assert_contained base resolved) (\<lambda>_.
     io_bind (assert_no_symlink env (absolute_path resolved)) (\<lambda>_.
       remove_sync env (absolute_path resolved))))"

definition rename_contained :: "os_env \<Rightarrow> string list \<Rightarrow> string list \<Rightarrow> string \<Rightarrow> string \<Rightarrow> unit io" where
  "rename_contained env lexical base src dst =
     io_bind (io_of (resolve_workspace_path env lexical base src)) (\<lambda>s.
     io_bind (io_of (resolve_workspace_path env lexical base dst)) (\<lambda>d.
     io_bind (assert_contained_parent env base s) (\<lambda>_.
     io_bind (assert_contained_parent env base d) (\<lambda>_.
     io_bind (assert_no_symlink env (absolute_path s)) (\<lambda>_.
       rename_sync env (absolute_path s) (absolute_path d))))))"

text \<open>An operation as the write phase calls it: a thrown value with its message.\<close>

definition thrown_text :: "'a io \<Rightarrow> node_fs \<Rightarrow> (string option + 'a) \<times> node_fs" where
  "thrown_text m s = (case m s of (Inl e, s1) \<Rightarrow> (Inl (Some (thrown_message e)), s1) | (Inr a, s1) \<Rightarrow> (Inr a, s1))"

definition contained_writer :: "os_env \<Rightarrow> string list \<Rightarrow> string list \<Rightarrow> node_fs writer" where
  "contained_writer env lexical base = \<lparr>
     wr_write = (\<lambda>p c. thrown_text (write_contained env lexical base p c)),
     wr_mkdirp = (\<lambda>d. thrown_text (mkdirp_contained env lexical base d)),
     wr_remove = (\<lambda>p. thrown_text (remove_contained env lexical base p)) \<rparr>"

text \<open>\<open>createContainedNodeWorkspaceWriter\<close>\<close>

definition create_contained_writer :: "os_env \<Rightarrow> string \<Rightarrow> node_fs writer io" where
  "create_contained_writer env workspace_root =
     io_bind (realpath_sync env workspace_root) (\<lambda>base.
       io_return (contained_writer env (resolve_segments (os_cwd env) workspace_root) base))"

text \<open>
  \<open>nodeWorkspaceWriter\<close>, which checks nothing, at absolute normalised paths; its \<open>rename\<close> is
  \<open>rename_sync\<close>.
\<close>

definition node_workspace_writer :: "os_env \<Rightarrow> node_fs writer" where
  "node_workspace_writer env = \<lparr>
     wr_write = (\<lambda>p c. thrown_text (write_file_no_follow env (resolve_segments (os_cwd env) p) c)),
     wr_mkdirp = (\<lambda>d. thrown_text (plain_call env)),
     wr_remove = (\<lambda>p. thrown_text (remove_sync env p)) \<rparr>"

end
