(* ===== verification/Writer_Contract.thy ===== *)
theory Writer_Contract
  imports Workspace_Writer
begin

text \<open>
  The contained writer keeps the contract of the write phase, for every environment that takes writes
  in full: an operation changes its own file, or none when it throws. Temporary files are not files of
  the workspace; the clean-up that removes them is best effort in the code.
\<close>

subsection \<open>The files of the workspace\<close>

definition is_temp_name :: "string \<Rightarrow> bool" where
  "is_temp_name path \<longleftrightarrow> contains ''.keiko-write.'' path"

definition shown :: "(string \<Rightarrow> string option) \<Rightarrow> string \<Rightarrow> string option" where
  "shown files path = (if is_temp_name path then None else files path)"

definition visible :: "node_fs \<Rightarrow> string \<Rightarrow> string option" where
  "visible s = shown (nf_files s)"

text \<open>The file a path of a patch stands for, and the paths whose file is not a temporary one.\<close>

definition writer_key :: "os_env \<Rightarrow> string list \<Rightarrow> string list \<Rightarrow> string \<Rightarrow> string" where
  "writer_key env lexical base path = (case resolve_workspace_path env lexical base path of
     Inl e \<Rightarrow> path | Inr segs \<Rightarrow> absolute_path segs)"

definition lasting_path :: "os_env \<Rightarrow> string list \<Rightarrow> string list \<Rightarrow> string \<Rightarrow> bool" where
  "lasting_path env lexical base path \<longleftrightarrow> \<not> is_temp_name (writer_key env lexical base path)"

subsection \<open>Operations that preserve a view of the files\<close>

definition preserves :: "((string \<Rightarrow> string option) \<Rightarrow> 'v) \<Rightarrow> 'a io \<Rightarrow> bool" where
  "preserves g m \<longleftrightarrow> (\<forall>s. g (nf_files (snd (m s))) = g (nf_files s))"

named_theorems preserving \<open>operations that preserve a view of the files\<close>

lemma preservesD: "preserves g m \<Longrightarrow> m s = (r, s') \<Longrightarrow> g (nf_files s') = g (nf_files s)"
  unfolding preserves_def by (metis snd_conv)

lemma preserves_return [preserving]: "preserves g (io_return a)"
  by (simp add: preserves_def io_return_def)

lemma preserves_throw [preserving]: "preserves g (io_throw e)"
  by (simp add: preserves_def io_throw_def)

lemma preserves_of [preserving]: "preserves g (io_of r)"
  by (simp add: preserves_def io_of_def)

lemma preserves_ask [preserving]: "preserves g (ask f)"
  by (simp add: preserves_def ask_def)

lemma preserves_bind [preserving]: "preserves g m \<Longrightarrow> (\<And>a. preserves g (k a)) \<Longrightarrow> preserves g (io_bind m k)"
  by (auto simp: preserves_def io_bind_def split: prod.splits sum.splits) (metis snd_conv)+

lemma preserves_catch [preserving]: "preserves g m \<Longrightarrow> (\<And>e. preserves g (h e)) \<Longrightarrow> preserves g (io_catch m h)"
  by (auto simp: preserves_def io_catch_def split: prod.splits sum.splits) (metis snd_conv)+

lemma preserves_finally [preserving]: "preserves g m \<Longrightarrow> preserves g c \<Longrightarrow> preserves g (with_finally m c)"
  by (simp add: preserves_def with_finally_def Let_def)

lemma preserves_if [preserving]: "preserves g a \<Longrightarrow> preserves g b \<Longrightarrow> preserves g (if c then a else b)"
  by simp

lemma preserves_change: "(\<And>fs fs'. f fs = Inr fs' \<Longrightarrow> g fs' = g fs) \<Longrightarrow> preserves g (change_files env f)"
  by (auto simp: preserves_def change_files_def split: option.splits sum.splits)

lemma preserves_plain [preserving]: "preserves g (plain_call env)"
  unfolding plain_call_def by (rule preserves_change) simp

lemma preserves_quietly [preserving]: "preserves g m \<Longrightarrow> preserves g (quietly m)"
  unfolding quietly_def by (intro preserving)

lemma preserves_lstat [preserving]: "preserves g (lstat_sync env path)"
  unfolding lstat_sync_def by (rule preserving)

lemma preserves_realpath [preserving]: "preserves g (realpath_sync env path)"
  unfolding realpath_sync_def by (rule preserving)

lemma preserves_exists [preserving]: "preserves g (exists_sync env path)"
  unfolding exists_sync_def by (rule preserving)

lemma preserves_checks [preserving]:
  "preserves g (assert_contained base p)" "preserves g (assert_no_symlink env path)"
  "preserves g (assert_contained_parent env base p)" "preserves g (existing_file_mode env path)"
  "preserves g (fsync_directory env)"
  unfolding assert_contained_def assert_no_symlink_def assert_contained_parent_def existing_file_mode_def
    fsync_directory_def by (intro preserving)+

lemma preserves_ensure [preserving]: "preserves g (ensure_directory_segment env base p)"
  unfolding ensure_directory_segment_def create_missing_segment_def by (intro preserving)

lemma preserves_segments [preserving]: "preserves g (ensure_segments env base p segs)"
proof (induction segs arbitrary: p)
  case Nil
  show ?case unfolding ensure_segments.simps by (rule preserving)
next
  case (Cons x segs)
  show ?case unfolding ensure_segments.simps by (intro preserving Cons.IH)
qed

lemma preserves_mkdirp [preserving]: "preserves g (mkdirp_contained env lexical base dir)"
  unfolding mkdirp_contained_def Let_def by (intro preserving)

subsection \<open>Temporary files\<close>

lemma contains_infix: "contains p (a @ p @ b)"
proof (induction a)
  case Nil
  show ?case
  proof (cases "p @ b")
    case (Cons c r)
    then have "contains p (p @ b) \<longleftrightarrow> starts_with p (p @ b) \<or> contains p r" by simp
    then show ?thesis by simp
  qed simp
qed simp

lemma join_snoc: "\<exists>front. join sep (xs @ [x]) = front @ x"
proof (induction xs)
  case (Cons y ys)
  then obtain front where f: "join sep (ys @ [x]) = front @ x" by blast
  have "join sep ((y # ys) @ [x]) = (y @ sep @ front) @ x" using f by (cases ys) auto
  then show ?case by blast
qed simp

lemma temp_is_temp: "is_temp_name (temp_path env path uuid)"
proof -
  let ?b = "''.'' @ (if path = [] then [] else last path)" and ?e = "os_pid env @ ''.'' @ uuid @ ''.tmp''"
  obtain front where "join [slash] (butlast path @ [?b @ ''.keiko-write.'' @ ?e]) = front @ ?b @ ''.keiko-write.'' @ ?e"
    using join_snoc by blast
  then have "temp_path env path uuid = (slash # front @ ?b) @ ''.keiko-write.'' @ ?e"
    by (simp add: temp_path_def absolute_path_def)
  then show ?thesis unfolding is_temp_name_def by (simp only: contains_infix)
qed

lemma shown_temp [simp]: "is_temp_name t \<Longrightarrow> shown (fs(t := c)) = shown fs"
  by (auto simp: shown_def fun_eq_iff)

lemma shown_lasting [simp]: "\<not> is_temp_name t \<Longrightarrow> shown (fs(t := c)) = (shown fs)(t := c)"
  by (auto simp: shown_def fun_eq_iff)

lemma preserves_temp [preserving]:
  assumes "is_temp_name t"
  shows "preserves shown (open_exclusive env t mode)" "preserves shown (write_sync env t c)"
    "preserves shown (remove_sync env t)"
proof -
  show "preserves shown (open_exclusive env t mode)" "preserves shown (remove_sync env t)"
    using assms unfolding open_exclusive_def remove_sync_def
    by (auto intro!: preserves_change split: if_splits)
  show "preserves shown (write_sync env t c)"
    using assms unfolding preserves_def write_sync_def Let_def
    by (auto simp: change_files_def split: option.splits)
qed

lemma preserves_clean_up [preserving]: "is_temp_name t \<Longrightarrow> preserves shown (clean_up env t opened)"
  unfolding clean_up_def by (intro preserving)

lemma preserves_flush [preserving]: "is_temp_name t \<Longrightarrow> preserves shown (flush_content env t c)"
  unfolding flush_content_def by (intro preserving)

subsection \<open>Writing through a temporary file\<close>

lemma io_bind_cases:
  assumes "io_bind m k s = (x, s')"
  obtains (throws) e where "m s = (Inl e, s')" "x = Inl e" | (goes_on) a s1 where "m s = (Inr a, s1)" "k a s1 = (x, s')"
  using assms by (auto simp: io_bind_def split: prod.splits sum.splits)

lemma flushed:
  assumes "flush_content env t c s = (Inr u, s')" and "os_accepts env s (length c) = length c"
  shows "nf_files s' = (nf_files s)(t := Some c)"
proof -
  from assms(1) obtain s1 where 1: "write_sync env t c s = (Inr (), s1)"
    and 2: "io_bind (plain_call env) (\<lambda>_. plain_call env) s1 = (Inr u, s')"
    unfolding flush_content_def by (cases rule: io_bind_cases [OF assms(1) [unfolded flush_content_def]]) auto
  have "preserves id (io_bind (plain_call env) (\<lambda>_. plain_call env))" by (intro preserving)
  from preservesD [OF this 2] 1 assms(2) show ?thesis
    by (auto simp: write_sync_def change_files_def Let_def split: option.splits)
qed

lemma replaced:
  assumes "replace_target env path t s = (x, s')" and "nf_files s t = Some c"
    and "is_temp_name t" and "\<not> is_temp_name (absolute_path path)"
  shows "shown (nf_files s') =
    (if isl x then shown (nf_files s) else (shown (nf_files s))(absolute_path path \<mapsto> c))"
proof -
  let ?p = "absolute_path path"
  have ne: "t \<noteq> ?p" using assms(3,4) by blast
  have quiet: "preserves id (if b then assert_no_symlink env ?p else io_return ())" for b by (intro preserving)
  have no_throw: "fsync_directory env s1 \<noteq> (Inl e, s2)" for s1 s2 e
    by (auto simp: fsync_directory_def quietly_def io_bind_def io_catch_def io_return_def split: prod.splits sum.splits)
  from assms(1) show ?thesis unfolding replace_target_def
  proof (cases rule: io_bind_cases)
    case (throws e)
    with preservesD [OF preserves_exists [of id] throws(1)] show ?thesis by simp
  next
    case (goes_on there s1)
    note f1 = preservesD [OF preserves_exists [of id] goes_on(1)]
    from goes_on(2) show ?thesis
    proof (cases rule: io_bind_cases)
      case (throws e)
      with preservesD [OF quiet throws(1)] f1 show ?thesis by simp
    next
      case (goes_on a s2)
      note f2 = preservesD [OF quiet goes_on(1)]
      from goes_on(2) show ?thesis
      proof (cases rule: io_bind_cases)
        case (throws e)
        then have "nf_files s' = nf_files s2"
          by (auto simp: rename_sync_def change_files_def split: option.splits sum.splits)
        with f1 f2 throws show ?thesis by simp
      next
        case (goes_on b s3)
        then have "nf_files s3 = (nf_files s)(t := None, ?p \<mapsto> c)"
          using f1 f2 assms(2) ne by (auto simp: rename_sync_def change_files_def split: option.splits sum.splits if_splits)
        moreover have "nf_files s' = nf_files s3"
          using preservesD [OF preserves_checks(5) [of id] goes_on(2)] by simp
        moreover have "\<not> isl x" using goes_on(2) no_throw by (cases x) auto
        ultimately show ?thesis using assms(3,4) by simp
      qed
    qed
  qed
qed


lemma finally_view:
  assumes "with_finally m c s = (x, s')" and "preserves g c"
  shows "g (nf_files s') = g (nf_files (snd (m s)))" and "m s = (x, snd (m s))"
  using assms by (auto simp: with_finally_def Let_def preserves_def prod_eq_iff)

text \<open>The file is replaced as a whole, or left alone.\<close>

lemma through_temp_view:
  assumes full: "\<And>s n. os_accepts env s n = n"
    and tmp: "is_temp_name t" and lasting: "\<not> is_temp_name (absolute_path path)"
    and run: "through_temp env path content mode t s = (x, s')"
  shows "visible s' = (if isl x then visible s else (visible s)(absolute_path path \<mapsto> content))"
proof -
  obtain r1 s1 where 1: "open_exclusive env t mode s = (r1, s1)" by (cases "open_exclusive env t mode s")
  note v1 = preservesD [OF preserves_temp(1) [OF tmp] 1]
  show ?thesis
  proof (cases r1)
    case (Inl e)
    with run 1 have "with_finally (io_throw e) (clean_up env t False) s1 = (x, s')" by (simp add: through_temp_def)
    from finally_view [OF this preserves_clean_up [OF tmp]] v1 show ?thesis
      by (auto simp: io_throw_def visible_def)
  next
    case (Inr u)
    obtain r2 s2 where 2: "flush_content env t content s1 = (r2, s2)" by (cases "flush_content env t content s1")
    note v2 = preservesD [OF preserves_flush [OF tmp] 2]
    show ?thesis
    proof (cases r2)
      case (Inl e)
      with run 1 2 \<open>r1 = Inr u\<close> have "with_finally (io_throw e) (clean_up env t True) s2 = (x, s')"
        by (simp add: through_temp_def)
      from finally_view [OF this preserves_clean_up [OF tmp]] v1 v2 show ?thesis
        by (auto simp: io_throw_def visible_def)
    next
      case (Inr v)
      with run 1 2 \<open>r1 = Inr u\<close> have "with_finally (replace_target env path t) (clean_up env t False) s2 = (x, s')"
        by (simp add: through_temp_def)
      note v3 = finally_view(1) [OF this preserves_clean_up [OF tmp]]
        and 3 = finally_view(2) [OF this preserves_clean_up [OF tmp]]
      have "nf_files s2 t = Some content" using flushed [OF 2 [unfolded Inr] full] by simp
      from replaced [OF 3 this tmp lasting] v1 v2 v3 show ?thesis by (simp add: visible_def)
    qed
  qed
qed

lemma write_no_follow_view:
  assumes full: "\<And>s n. os_accepts env s n = n" and lasting: "\<not> is_temp_name (absolute_path path)"
    and run: "write_file_no_follow env path content s = (x, s')"
  shows "visible s' = (if isl x then visible s else (visible s)(absolute_path path \<mapsto> content))"
  using run unfolding write_file_no_follow_def
proof (cases rule: io_bind_cases)
  case (throws e)
  with preservesD [OF preserves_checks(4) [of shown] throws(1)] show ?thesis by (simp add: visible_def)
next
  case (goes_on mode s1)
  note v1 = preservesD [OF preserves_checks(4) [of shown] goes_on(1)]
  from goes_on(2) show ?thesis
  proof (cases rule: io_bind_cases)
    case (throws e)
    with preservesD [OF preserves_ask [of shown] throws(1)] v1 show ?thesis by (simp add: visible_def)
  next
    case (goes_on uuid s2)
    from through_temp_view [OF full temp_is_temp lasting goes_on(2)] v1
      preservesD [OF preserves_ask [of shown] goes_on(1)] show ?thesis by (simp add: visible_def)
  qed
qed

subsection \<open>The contract\<close>

lemma io_of_cases:
  assumes "io_bind (io_of r) k s = (x, s')"
  obtains (refused) e where "r = Inl e" "x = Inl e" "s' = s" | (resolved) a where "r = Inr a" "k a s = (x, s')"
  using assms by (cases r) (auto simp: io_bind_def io_of_def)

lemma write_contained_view:
  assumes full: "\<And>s n. os_accepts env s n = n" and lasting: "lasting_path env lexical base p"
    and run: "write_contained env lexical base p content s = (x, s')"
  shows "visible s' = (if isl x then visible s else (visible s)(writer_key env lexical base p \<mapsto> content))"
  using run unfolding write_contained_def
proof (cases rule: io_of_cases)
  case (resolved segs)
  then have key: "writer_key env lexical base p = absolute_path segs" by (simp add: writer_key_def)
  from resolved(2) show ?thesis
  proof (cases rule: io_bind_cases)
    case (throws e)
    with preservesD [OF preserves_checks(3) [of shown] throws(1)] show ?thesis by (simp add: visible_def)
  next
    case (goes_on u s1)
    with write_no_follow_view [OF full _ goes_on(2)] preservesD [OF preserves_checks(3) [of shown] goes_on(1)]
      lasting key show ?thesis by (simp add: visible_def lasting_path_def)
  qed
qed simp

lemma remove_contained_view:
  assumes lasting: "lasting_path env lexical base p"
    and run: "remove_contained env lexical base p s = (x, s')"
  shows "visible s' = (if isl x then visible s else (visible s)(writer_key env lexical base p := None))"
  using run unfolding remove_contained_def
proof (cases rule: io_of_cases)
  case (resolved segs)
  then have key: "writer_key env lexical base p = absolute_path segs" by (simp add: writer_key_def)
  from resolved(2) show ?thesis
  proof (cases rule: io_bind_cases)
    case (throws e)
    with preservesD [OF preserves_checks(1) [of shown] throws(1)] show ?thesis by (simp add: visible_def)
  next
    case (goes_on u s1)
    note v1 = preservesD [OF preserves_checks(1) [of shown] goes_on(1)]
    from goes_on(2) show ?thesis
    proof (cases rule: io_bind_cases)
      case (throws e)
      with preservesD [OF preserves_checks(2) [of shown] throws(1)] v1 show ?thesis by (simp add: visible_def)
    next
      case (goes_on u s2)
      with preservesD [OF preserves_checks(2) [of shown] goes_on(1)] v1 lasting key show ?thesis
        by (auto simp: remove_sync_def change_files_def visible_def lasting_path_def split: option.splits)
    qed
  qed
qed simp

lemma thrown_text_cases:
  assumes "thrown_text m s = (x, s')"
  obtains y where "m s = (y, s')" and "isl y = isl x"
  using assms by (cases "m s") (auto simp: thrown_text_def split: sum.splits)

text \<open>An environment like \<open>env\<close> that takes every write in full.\<close>

definition taking_all :: "os_env \<Rightarrow> os_env" where
  "taking_all env = env\<lparr> os_accepts := \<lambda>s n. n \<rparr>"

lemma taking_all_accepts: "os_accepts (taking_all env) s n = n"
  by (simp add: taking_all_def)

lemma contained_write_view:
  assumes "lasting_path (taking_all env) lexical base p"
    and "wr_write (contained_writer (taking_all env) lexical base) p c s = (x, s')"
  shows "visible s' = (if isl x then visible s else (visible s)(writer_key (taking_all env) lexical base p \<mapsto> c))"
  using assms(2) write_contained_view [OF taking_all_accepts assms(1)]
  by (auto simp: contained_writer_def elim!: thrown_text_cases)

lemma contained_remove_view:
  assumes "lasting_path env lexical base p" and "wr_remove (contained_writer env lexical base) p s = (x, s')"
  shows "visible s' = (if isl x then visible s else (visible s)(writer_key env lexical base p := None))"
  using assms(2) remove_contained_view [OF assms(1)]
  by (auto simp: contained_writer_def elim!: thrown_text_cases)

lemma contained_mkdirp_view: "visible (snd (wr_mkdirp (contained_writer env lexical base) d s)) = visible s"
proof -
  obtain x s' where "wr_mkdirp (contained_writer env lexical base) d s = (x, s')"
    by (cases "wr_mkdirp (contained_writer env lexical base) d s")
  then show ?thesis using preservesD [OF preserves_mkdirp [of shown]]
    by (auto simp: contained_writer_def visible_def elim!: thrown_text_cases)
qed

interpretation contained: workspace_writer "contained_writer (taking_all env) lexical base" visible
  "writer_key (taking_all env) lexical base" "lasting_path (taking_all env) lexical base"
  for env lexical base
  by unfold_locales (auto dest: contained_write_view contained_remove_view simp: contained_mkdirp_view)

end
