(* ===== verification/Patch_Semantics.thy ===== *)
theory Patch_Semantics
  imports Patch_Apply
begin

text \<open>
  What the hunk application means: a reference edit of the lines of a file, which keeps every line
  outside the hunks and replaces the old side of each hunk by its new side. The engine's
  \<open>applyModify\<close> implements it, and the inverse patch undoes it.
\<close>

subsection \<open>The two sides of a hunk\<close>

abbreviation old_side :: "patch_hunk \<Rightarrow> string list" where
  "old_side h \<equiv> hunk_preimage_lines h"

definition new_side :: "patch_hunk \<Rightarrow> string list" where
  "new_side h = map tl (filter is_new_side (hunk_lines h))"

text \<open>The lines the parser keeps in a hunk, and hunks without a no-newline marker.\<close>

definition hunk_line_ok :: "string \<Rightarrow> bool" where
  "hunk_line_ok l \<longleftrightarrow> is_hunk_body_line l \<or> starts_char backslash l"

definition plain_hunk :: "patch_hunk \<Rightarrow> bool" where
  "plain_hunk h \<longleftrightarrow> list_all (\<lambda>l. is_hunk_body_line l \<and> newline_char \<notin> set l) (hunk_lines h)"

lemma plain_hunk_lines: "plain_hunk h \<Longrightarrow> list_all is_hunk_body_line (hunk_lines h)"
  by (auto simp: plain_hunk_def list_all_iff)

subsection \<open>The reference edit\<close>

text \<open>
  The reference anchors a hunk after its first \<open>old_start - 1\<close> lines, as the comment on the engine says.
  A hunk without old lines is the exception to the unified format: there the header names the line the
  insertion follows, so the format's own edit, \<open>unified_edit_from\<close>, anchors it one line later and needs
  that line to exist. The two agree for hunks with an old line (\<open>edit_from_unified\<close>); for the others the
  reference follows the code (the findings on insertions in \<open>Patch_Findings\<close>).
\<close>

fun edit_from :: "nat \<Rightarrow> patch_hunk list \<Rightarrow> string list \<Rightarrow> string list option" where
  "edit_from cursor [] ls = Some (drop cursor ls)"
| "edit_from cursor (h # hs) ls =
     (let a = old_start h - 1
      in if cursor \<le> a \<and> starts_with_sequence ls a (old_side h)
         then map_option (\<lambda>r. take (a - cursor) (drop cursor ls) @ new_side h @ r)
           (edit_from (a + length (old_side h)) hs ls)
         else None)"

fun unified_edit_from :: "nat \<Rightarrow> patch_hunk list \<Rightarrow> string list \<Rightarrow> string list option" where
  "unified_edit_from cursor [] ls = Some (drop cursor ls)"
| "unified_edit_from cursor (h # hs) ls =
     (let a = (if old_side h = [] then old_start h else old_start h - 1)
      in if cursor \<le> a \<and> a \<le> length ls \<and> starts_with_sequence ls a (old_side h)
         then map_option (\<lambda>r. take (a - cursor) (drop cursor ls) @ new_side h @ r)
           (unified_edit_from (a + length (old_side h)) hs ls)
         else None)"

lemma edit_from_unified:
  "list_all (\<lambda>h. old_side h \<noteq> []) hs \<Longrightarrow> edit_from cursor hs ls = unified_edit_from cursor hs ls"
proof (induction hs arbitrary: cursor)
  case (Cons h hs)
  have "starts_with_sequence ls a (old_side h) \<Longrightarrow> a \<le> length ls" for a
    using Cons.prems by (cases "a \<le> length ls") (auto simp: starts_with_sequence_def)
  with Cons show ?case by (auto simp: Let_def)
qed simp

fun edit_end :: "nat \<Rightarrow> patch_hunk list \<Rightarrow> nat" where
  "edit_end cursor [] = cursor"
| "edit_end cursor (h # hs) = edit_end (old_start h - 1 + length (old_side h)) hs"

subsection \<open>One hunk\<close>

lemma body_line_cases:
  assumes "is_hunk_body_line l"
  obtains (context_line) "starts_char (CHR '' '') l" | (added) "starts_char (CHR ''+'') l"
    | (removed) "starts_char (CHR ''-'') l"
  using assms by (auto simp: is_hunk_body_line_def)

lemma starts_char_unique: "starts_char c l \<Longrightarrow> starts_char d l \<longleftrightarrow> c = d"
  by (auto simp: starts_char_def)

lemma backslash_chars [simp]: "backslash \<noteq> CHR '' ''" "backslash \<noteq> CHR ''+''" "backslash \<noteq> CHR ''-''"
  "CHR '' '' \<noteq> backslash" "CHR ''+'' \<noteq> backslash" "CHR ''-'' \<noteq> backslash"
  by (auto simp: backslash_def)

lemma body_not_marker: "is_hunk_body_line l \<Longrightarrow> \<not> starts_char backslash l"
  by (auto simp: is_hunk_body_line_def starts_char_def)

lemma line_at_match:
  "line_at ls i = Some x \<longleftrightarrow> take (Suc 0) (drop i ls) = [x]"
  by (cases "i < length ls") (auto simp: line_at_def take_Suc hd_drop_conv_nth)

lemma match_Cons:
  "starts_with_sequence ls i (x # xs) \<longleftrightarrow> line_at ls i = Some x \<and> starts_with_sequence ls (Suc i) xs"
proof (cases "i < length ls")
  case True
  then have "drop i ls = ls ! i # drop (Suc i) ls" by (simp add: Cons_nth_drop_Suc)
  with True show ?thesis by (auto simp: starts_with_sequence_def line_at_def)
qed (simp add: starts_with_sequence_def line_at_def)

lemma match_Nil [simp]: "starts_with_sequence ls i []"
  by (simp add: starts_with_sequence_def)

lemma match_length: "starts_with_sequence ls i xs \<Longrightarrow> xs \<noteq> [] \<Longrightarrow> i + length xs \<le> length ls"
proof -
  assume m: "starts_with_sequence ls i xs" and n: "xs \<noteq> []"
  have "length (take (length xs) (drop i ls)) = length xs"
    using m by (simp add: starts_with_sequence_def)
  then show ?thesis using n by (cases "i \<le> length ls") auto
qed

lemma plain_loop:
  assumes "list_all is_hunk_body_line ls"
  shows "hunk_loop org ls p pos previous =
    (if starts_with_sequence (orig_lines org) pos (map tl (filter is_old_side ls))
     then Inr (p\<lparr> prod_lines := prod_lines p @ map tl (filter is_new_side ls) \<rparr>,
               pos + length (filter is_old_side ls))
     else hunk_loop org ls p pos previous) \<and>
   (\<not> starts_with_sequence (orig_lines org) pos (map tl (filter is_old_side ls)) \<longrightarrow>
     isl (hunk_loop org ls p pos previous))"
  using assms
proof (induction ls arbitrary: p pos previous)
  case (Cons l ls)
  then have l: "is_hunk_body_line l" and ls: "list_all is_hunk_body_line ls" by auto
  note IH = Cons.IH [OF ls]
  have nm: "\<not> starts_char no_newline_marker l"
    using body_not_marker [OF l] by (simp add: no_newline_marker_def)
  from l show ?case
  proof (cases rule: body_line_cases)
    case context_line
    then have s: "is_old_side l" "is_new_side l" "\<not> starts_char (CHR ''+'') l"
      by (auto simp: is_old_side_def is_new_side_def starts_char_def)
    show ?thesis
      using IH [of "p\<lparr> prod_lines := prod_lines p @ [tl l] \<rparr>" "Suc pos" l] s nm context_line
      by (auto simp: match_Cons)
  next
    case added
    then have s: "\<not> is_old_side l" "is_new_side l"
      by (auto simp: is_old_side_def is_new_side_def starts_char_def)
    show ?thesis
      using IH [of "p\<lparr> prod_lines := prod_lines p @ [tl l] \<rparr>" pos l] s nm added by auto
  next
    case removed
    then have s: "is_old_side l" "\<not> is_new_side l" "\<not> starts_char (CHR ''+'') l" "\<not> starts_char (CHR '' '') l"
      by (auto simp: is_old_side_def is_new_side_def starts_char_def)
    show ?thesis
      using IH [of p "Suc pos" l] s nm by (auto simp: match_Cons)
  qed
qed simp

lemma apply_plain_hunk:
  assumes "plain_hunk h"
  shows "starts_with_sequence (orig_lines org) a (old_side h) \<Longrightarrow>
      apply_hunk org h a = Inr \<lparr> res_lines = new_side h, res_consumed = length (old_side h), res_missing_newline = False \<rparr>"
    and "\<not> starts_with_sequence (orig_lines org) a (old_side h) \<Longrightarrow> isl (apply_hunk org h a)"
proof -
  let ?ls = "hunk_lines h" and ?p = "\<lparr> prod_lines = [], marked_at = None \<rparr>"
  have ls: "list_all is_hunk_body_line ?ls" using assms by (rule plain_hunk_lines)
  note L = plain_loop [OF ls, of org ?p a "''''"]
  {
    assume "starts_with_sequence (orig_lines org) a (old_side h)"
    then have "hunk_loop org ?ls ?p a '''' = Inr (\<lparr> prod_lines = new_side h, marked_at = None \<rparr>, a + length (old_side h))"
      using L by (simp add: hunk_preimage_lines_def new_side_def)
    then show "apply_hunk org h a = Inr \<lparr> res_lines = new_side h, res_consumed = length (old_side h), res_missing_newline = False \<rparr>"
      by (simp add: apply_hunk_def marked_line_not_last_def)
  next
    assume "\<not> starts_with_sequence (orig_lines org) a (old_side h)"
    then have "isl (hunk_loop org ?ls ?p a '''')"
      using L by (simp add: hunk_preimage_lines_def)
    then show "isl (apply_hunk org h a)"
      by (cases "hunk_loop org ?ls ?p a ''''") (simp_all add: apply_hunk_def)
  }
qed

subsection \<open>A modified file\<close>

lemma slice_to: "slice_lines ls c (min a (length ls)) = take (a - c) (drop c ls)"
  by (cases "a \<le> length ls") (simp_all add: slice_lines_def)

lemma modify_hunk_hit:
  assumes "plain_hunk h" and "\<not> ms_missing_newline st" and "ms_cursor st \<le> old_start h - 1"
    and "starts_with_sequence (orig_lines org) (old_start h - 1) (old_side h)"
  shows "apply_modify_hunk org h i st =
    st\<lparr> ms_out := ms_out st @ take (old_start h - 1 - ms_cursor st) (drop (ms_cursor st) (orig_lines org)) @ new_side h,
        ms_cursor := old_start h - 1 + length (old_side h), ms_missing_newline := False \<rparr>"
  using assms apply_plain_hunk(1) [OF assms(1,4)]
  by (simp add: apply_modify_hunk_def slice_to Let_def)

lemma modify_hunk_miss:
  assumes "plain_hunk h"
    and "\<not> (ms_cursor st \<le> old_start h - 1 \<and> starts_with_sequence (orig_lines org) (old_start h - 1) (old_side h))"
  shows "ms_conflicts (apply_modify_hunk org h i st) \<noteq> []"
proof (cases "old_start h - 1 < ms_cursor st")
  case False
  with assms(2) have "\<not> starts_with_sequence (orig_lines org) (old_start h - 1) (old_side h)" by simp
  from apply_plain_hunk(2) [OF assms(1) this] obtain e where "apply_hunk org h (old_start h - 1) = Inl e"
    by (auto simp: isl_def)
  with False show ?thesis by (simp add: apply_modify_hunk_def add_conflict_def Let_def)
qed (simp add: apply_modify_hunk_def add_conflict_def Let_def)

lemma modify_hunk_conflicts: "ms_conflicts st \<noteq> [] \<Longrightarrow> ms_conflicts (apply_modify_hunk org h i st) \<noteq> []"
  by (auto simp: apply_modify_hunk_def add_conflict_def Let_def split: sum.splits)

lemma modify_hunks_conflicts: "ms_conflicts st \<noteq> [] \<Longrightarrow> ms_conflicts (apply_modify_hunks org i hs st) \<noteq> []"
  by (induction hs arbitrary: i st) (simp_all add: modify_hunk_conflicts)

lemma modify_hunks_edit:
  assumes "list_all plain_hunk hs" and "\<not> ms_missing_newline st"
    and "edit_from (ms_cursor st) hs (orig_lines org) = Some r"
  shows "let st' = apply_modify_hunks org i hs st
    in ms_conflicts st' = ms_conflicts st \<and> \<not> ms_missing_newline st' \<and>
       ms_out st' @ drop (ms_cursor st') (orig_lines org) = ms_out st @ r \<and>
       ms_cursor st' = edit_end (ms_cursor st) hs"
  using assms
proof (induction hs arbitrary: i st r)
  case (Cons h hs)
  let ?a = "old_start h - 1"
  from Cons.prems have h: "plain_hunk h" and hs: "list_all plain_hunk hs" by auto
  from Cons.prems(3) obtain r2 where
    hit: "ms_cursor st \<le> ?a" "starts_with_sequence (orig_lines org) ?a (old_side h)" and
    r2: "edit_from (?a + length (old_side h)) hs (orig_lines org) = Some r2" and
    r: "r = take (?a - ms_cursor st) (drop (ms_cursor st) (orig_lines org)) @ new_side h @ r2"
    by (auto simp: Let_def split: if_splits)
  note step = modify_hunk_hit [OF h Cons.prems(2) hit]
  have "edit_from (ms_cursor (apply_modify_hunk org h i st)) hs (orig_lines org) = Some r2"
    unfolding step using r2 by simp
  from Cons.IH [OF hs _ this, of "i + 1"] show ?case
    by (auto simp: step r Let_def)
qed (simp add: Let_def)

lemma modify_hunks_refused:
  assumes "list_all plain_hunk hs" and "\<not> ms_missing_newline st"
    and "edit_from (ms_cursor st) hs (orig_lines org) = None"
  shows "ms_conflicts (apply_modify_hunks org i hs st) \<noteq> []"
  using assms
proof (induction hs arbitrary: i st)
  case (Cons h hs)
  let ?a = "old_start h - 1"
  from Cons.prems have h: "plain_hunk h" and hs: "list_all plain_hunk hs" by auto
  show ?case
  proof (cases "ms_cursor st \<le> ?a \<and> starts_with_sequence (orig_lines org) ?a (old_side h)")
    case True
    then have hit: "ms_cursor st \<le> ?a" "starts_with_sequence (orig_lines org) ?a (old_side h)" by auto
    note step = modify_hunk_hit [OF h Cons.prems(2) hit]
    have "edit_from (ms_cursor (apply_modify_hunk org h i st)) hs (orig_lines org) = None"
      unfolding step using Cons.prems(3) True by (simp add: Let_def)
    from Cons.IH [OF hs _ this, of "i + 1"] show ?thesis by (simp add: step)
  next
    case False
    from modify_hunks_conflicts [OF modify_hunk_miss [OF h False]] show ?thesis by simp
  qed
qed simp

text \<open>The engine and the reference edit agree on hunks without no-newline markers.\<close>

lemma apply_modify_edit:
  assumes "list_all plain_hunk hs"
  shows "apply_modify org hs = (case edit_from 0 hs (orig_lines org) of
      Some r \<Rightarrow> \<lparr> out_content = Some (render_lines r
          (edit_end 0 hs < length (orig_lines org) \<and> orig_missing_newline org)), out_conflicts = [] \<rparr>
    | None \<Rightarrow> apply_modify org hs)"
    and "edit_from 0 hs (orig_lines org) = None \<Longrightarrow>
      out_content (apply_modify org hs) = None \<and> out_conflicts (apply_modify org hs) \<noteq> []"
proof -
  let ?s0 = "\<lparr> ms_out = [], ms_conflicts = [], ms_cursor = 0, ms_missing_newline = False \<rparr>"
  let ?st = "apply_modify_hunks org 0 hs ?s0"
  show "apply_modify org hs = (case edit_from 0 hs (orig_lines org) of
      Some r \<Rightarrow> \<lparr> out_content = Some (render_lines r
          (edit_end 0 hs < length (orig_lines org) \<and> orig_missing_newline org)), out_conflicts = [] \<rparr>
    | None \<Rightarrow> apply_modify org hs)"
  proof (cases "edit_from 0 hs (orig_lines org)")
    case (Some r)
    then have run: "ms_conflicts ?st = []" "\<not> ms_missing_newline ?st"
      "ms_out ?st @ drop (edit_end 0 hs) (orig_lines org) = r" "ms_cursor ?st = edit_end 0 hs"
      using modify_hunks_edit [OF assms, of ?s0 org r 0] by (auto simp: Let_def)
    then show ?thesis
      by (simp add: Some apply_modify_def Let_def not_le)
  qed simp
  assume "edit_from 0 hs (orig_lines org) = None"
  then have "ms_conflicts ?st \<noteq> []"
    using modify_hunks_refused [OF assms, of ?s0 org 0] by simp
  then show "out_content (apply_modify org hs) = None \<and> out_conflicts (apply_modify org hs) \<noteq> []"
    by (auto simp: apply_modify_def Let_def add_conflict_def)
qed

subsection \<open>Undoing an edit\<close>

text \<open>
  The new start of every hunk is its old start moved by what the hunks before it added, as diff tools
  write them.
\<close>

fun new_starts_from :: "int \<Rightarrow> patch_hunk list \<Rightarrow> bool" where
  "new_starts_from shift [] = True"
| "new_starts_from shift (h # hs) \<longleftrightarrow>
     int (new_start h) = int (old_start h) + shift \<and>
     new_starts_from (shift + int (length (new_side h)) - int (length (old_side h))) hs"

lemma invert_line_sides:
  assumes "is_hunk_body_line l"
  shows "is_hunk_body_line (invert_hunk_line l)" "tl (invert_hunk_line l) = tl l"
    "is_old_side (invert_hunk_line l) = is_new_side l" "is_new_side (invert_hunk_line l) = is_old_side l"
  using assms by (cases l rule: body_line_cases;
      auto simp: invert_hunk_line_def is_hunk_body_line_def is_old_side_def is_new_side_def starts_char_def)+

lemma invert_lines_sides:
  assumes "list_all is_hunk_body_line ls"
  shows "list_all is_hunk_body_line (map invert_hunk_line ls)"
    "map tl (filter is_old_side (map invert_hunk_line ls)) = map tl (filter is_new_side ls)"
    "map tl (filter is_new_side (map invert_hunk_line ls)) = map tl (filter is_old_side ls)"
  using assms by (induction ls) (auto simp: invert_line_sides)

lemma invert_line_free: "newline_char \<notin> set l \<Longrightarrow> newline_char \<notin> set (invert_hunk_line l)"
  by (cases l) (auto simp: invert_hunk_line_def)

lemma invert_hunk_sides:
  assumes "plain_hunk h"
  shows "plain_hunk (invert_hunk h)" "old_side (invert_hunk h) = new_side h"
    "new_side (invert_hunk h) = old_side h"
  using invert_lines_sides [OF plain_hunk_lines [OF assms]] assms
  by (auto simp: plain_hunk_def invert_hunk_def hunk_preimage_lines_def new_side_def list_all_iff invert_line_free)

lemma match_inside: "length xs = i \<Longrightarrow> starts_with_sequence (xs @ ys @ zs) i ys"
  by (simp add: starts_with_sequence_def)

lemma match_drop: "starts_with_sequence ls i xs \<Longrightarrow> drop i ls = xs @ drop (i + length xs) ls"
  unfolding starts_with_sequence_def by (metis append_take_drop_id drop_drop add.commute)

lemma edit_undone:
  assumes "list_all plain_hunk hs" and "edit_from cursor hs ls = Some r"
    and "list_all (\<lambda>h. 0 < old_start h \<and> old_start h \<le> length ls + 1) hs"
    and "new_starts_from (int (length pre) - int cursor) hs"
  shows "edit_from (length pre) (map invert_hunk hs) (pre @ r) = Some (drop cursor ls)"
  using assms
proof (induction hs arbitrary: cursor r pre)
  case (Cons h hs)
  let ?a = "old_start h - 1" and ?b = "new_start h - 1"
  define g where "g = take (?a - cursor) (drop cursor ls)"
  from Cons.prems have h: "plain_hunk h" and hs: "list_all plain_hunk hs" by auto
  note inv = invert_hunk_sides [OF h]
  from Cons.prems(2) obtain r2 where
    hit: "cursor \<le> ?a" "starts_with_sequence ls ?a (old_side h)" and
    r2: "edit_from (?a + length (old_side h)) hs ls = Some r2" and
    r: "r = g @ new_side h @ r2"
    by (auto simp: Let_def g_def split: if_splits)
  have len: "length g = ?a - cursor" using Cons.prems(3) hit(1) by (auto simp: g_def)
  have new: "new_start h = old_start h + length pre - cursor"
    and shift: "new_starts_from (int (length (pre @ g @ new_side h)) - int (?a + length (old_side h))) hs"
    using Cons.prems(3,4) hit(1) len by (auto simp: algebra_simps of_nat_diff)
  have b: "?b = length pre + length g"
    using new len hit(1) Cons.prems(3) by auto
  from Cons.prems(3) have rest: "list_all (\<lambda>h. 0 < old_start h \<and> old_start h \<le> length ls + 1) hs" by simp
  have undo: "edit_from (length (pre @ g @ new_side h)) (map invert_hunk hs) (pre @ r) =
      Some (drop (?a + length (old_side h)) ls)"
    using Cons.IH [OF hs r2 rest shift] by (simp add: r)
  have found: "starts_with_sequence (pre @ r) ?b (new_side h)"
    using match_inside [of "pre @ g" ?b "new_side h" r2] b by (simp add: r)
  have "?a - cursor + cursor = ?a" using hit(1) by simp
  then have "drop cursor ls = g @ drop ?a ls"
    unfolding g_def using append_take_drop_id [of "?a - cursor" "drop cursor ls"] by (metis drop_drop)
  then have whole: "drop cursor ls = g @ old_side h @ drop (?a + length (old_side h)) ls"
    using match_drop [OF hit(2)] by simp
  have gap: "take (length g) r = g"
    by (simp add: r)
  have start: "old_start (invert_hunk h) = new_start h" by (simp add: invert_hunk_def)
  show ?case
    using undo found gap b
    by (simp add: start inv whole Let_def add.assoc [symmetric])
qed (simp add: assms)

subsection \<open>Lines and text\<close>

definition newline_free :: "string list \<Rightarrow> bool" where
  "newline_free ls \<longleftrightarrow> (\<forall>l\<in>set ls. newline_char \<notin> set l)"

lemma join_lines_snoc: "xs \<noteq> [] \<Longrightarrow> join_lines (xs @ [x]) = join_lines xs @ newline @ x"
proof (induction xs)
  case (Cons a xs)
  then show ?case by (cases xs) (auto simp: join_lines_def join_Cons)
qed simp

lemma to_original_render:
  assumes "newline_free ls"
  shows "to_original (render_lines ls False) = \<lparr> orig_lines = ls, orig_missing_newline = False \<rparr>"
proof (cases "ls = []")
  case False
  then have "render_lines ls False = join_lines (ls @ [[]])"
    by (simp add: render_lines_def join_lines_snoc)
  moreover have "split_lines (join_lines (ls @ [[]])) = ls @ [[]]"
    using assms by (intro split_lines_join) (auto simp: newline_free_def)
  moreover have "render_lines ls False \<noteq> []" using False by (simp add: render_lines_def newline_def)
  ultimately show ?thesis by (simp add: to_original_def Let_def)
qed (simp add: render_lines_def to_original_def)

lemma last_join_lines: "last ls \<noteq> [] \<Longrightarrow> ls \<noteq> [] \<Longrightarrow> last (join_lines ls) = last (last ls)"
proof -
  assume l: "last ls \<noteq> []" and n: "ls \<noteq> []"
  have "join_lines (butlast ls @ [last ls]) = (if butlast ls = [] then last ls else join_lines (butlast ls) @ newline @ last ls)"
    by (simp add: join_lines_snoc) (simp add: join_lines_def)
  with l n show ?thesis by (simp split: if_splits)
qed

lemma original_ends_with_newline:
  assumes "c = [] \<or> last c = newline_char"
  shows "\<not> orig_missing_newline (to_original c)"
    and "render_lines (orig_lines (to_original c)) False = c"
    and "newline_free (orig_lines (to_original c))"
proof -
  let ?ls = "split_lines c"
  have last_empty: "last ?ls = []" if "c \<noteq> []"
  proof (rule ccontr)
    assume ne: "last ?ls \<noteq> []"
    then have "last c = last (last ?ls)" using last_join_lines [of ?ls] by simp
    moreover have "newline_char \<notin> set (last ?ls)" by (rule split_lines_free [of _ c]) simp
    ultimately show False using ne assms that by (metis last_in_set)
  qed
  then show "\<not> orig_missing_newline (to_original c)" by (simp add: to_original_def Let_def)
  show "newline_free (orig_lines (to_original c))"
    by (auto simp: to_original_def newline_free_def Let_def dest: in_set_butlastD split_lines_free)
  show "render_lines (orig_lines (to_original c)) False = c"
  proof (cases "c = []")
    case False
    with last_empty have "?ls = butlast ?ls @ [[]]" by (metis append_butlast_last_id split_lines_not_Nil)
    then have c: "c = join_lines (butlast ?ls @ [[]])" by (metis join_split_lines)
    have "butlast ?ls \<noteq> []"
    proof
      assume "butlast ?ls = []"
      with c have "c = join_lines [[]]" by simp
      with False show False by (simp add: join_lines_def)
    qed
    then have "c = join_lines (butlast ?ls) @ newline" by (subst c) (simp add: join_lines_snoc)
    with False last_empty \<open>butlast ?ls \<noteq> []\<close> show ?thesis
      by (simp add: to_original_def render_lines_def Let_def)
  qed (simp add: to_original_def render_lines_def)
qed

lemma edit_from_free:
  assumes "list_all plain_hunk hs" and "edit_from cursor hs ls = Some r" and "newline_free ls"
  shows "newline_free r"
  using assms
proof (induction hs arbitrary: cursor r)
  case Nil
  then show ?case by (auto simp: newline_free_def dest: in_set_dropD)
next
  case (Cons h hs)
  from Cons.prems(2) obtain r2 where
    r2: "edit_from (old_start h - 1 + length (old_side h)) hs ls = Some r2" and
    r: "r = take (old_start h - 1 - cursor) (drop cursor ls) @ new_side h @ r2"
    by (auto simp: Let_def split: if_splits)
  have "newline_free r2" using Cons.IH [OF _ r2] Cons.prems by simp
  moreover have "newline_free (new_side h)"
    using Cons.prems(1)
    by (fastforce simp: plain_hunk_def list_all_iff new_side_def newline_free_def is_hunk_body_line_def starts_char_def
        dest: list.set_sel(2))
  ultimately show ?case
    using Cons.prems(3) by (auto simp: r newline_free_def dest!: in_set_takeD in_set_dropD)
qed

end
