(* ===== verification/Diff_Invariant.thy ===== *)
theory Diff_Invariant
  imports Patch_Semantics
begin

text \<open>
  What the parser guarantees of every diff it accepts: hunks whose bodies have exactly the lines their
  headers declare, markers only after body lines, and line totals that count those bodies. It is an
  invariant of the parse state, kept by every line.
\<close>

subsection \<open>The invariant\<close>

text \<open>A no-newline marker follows a body line.\<close>

fun markers_ok :: "bool \<Rightarrow> string list \<Rightarrow> bool" where
  "markers_ok after_body [] = True"
| "markers_ok after_body (l # ls) \<longleftrightarrow>
     (is_hunk_body_line l \<or> (starts_char backslash l \<and> after_body)) \<and> markers_ok (is_hunk_body_line l) ls"

definition plus_lines :: "string list \<Rightarrow> nat" where
  "plus_lines ls = length (filter (starts_char (CHR ''+'')) ls)"

definition minus_lines :: "string list \<Rightarrow> nat" where
  "minus_lines ls = length (filter (starts_char (CHR ''-'')) ls)"

definition hunk_ok :: "patch_hunk \<Rightarrow> bool" where
  "hunk_ok h \<longleftrightarrow> old_lines h = count_old_lines (hunk_lines h) \<and> new_lines h = count_new_lines (hunk_lines h) \<and>
     markers_ok False (hunk_lines h) \<and> newline_free (hunk_lines h) \<and>
     old_start h \<le> max_safe_integer \<and> new_start h \<le> max_safe_integer \<and>
     old_lines h \<le> max_safe_integer \<and> new_lines h \<le> max_safe_integer"

definition file_ok :: "patch_file \<Rightarrow> bool" where
  "file_ok f \<longleftrightarrow> list_all hunk_ok (change_hunks f) \<and>
     added_lines f = (\<Sum>h\<leftarrow>change_hunks f. plus_lines (hunk_lines h)) \<and>
     removed_lines f = (\<Sum>h\<leftarrow>change_hunks f. minus_lines (hunk_lines h))"

definition acc_ok :: "hunk_acc \<Rightarrow> bool" where
  "acc_ok h \<longleftrightarrow> acc_old_lines h = count_old_lines (acc_lines h) + old_remaining h \<and>
     acc_new_lines h = count_new_lines (acc_lines h) + new_remaining h \<and>
     markers_ok False (acc_lines h) \<and> newline_free (acc_lines h) \<and>
     acc_old_start h \<le> max_safe_integer \<and> acc_new_start h \<le> max_safe_integer \<and>
     acc_old_lines h \<le> max_safe_integer \<and> acc_new_lines h \<le> max_safe_integer"

definition current_lines :: "file_acc \<Rightarrow> string list" where
  "current_lines f = (case acc_current f of None \<Rightarrow> [] | Some h \<Rightarrow> acc_lines h)"

definition file_acc_ok :: "file_acc \<Rightarrow> bool" where
  "file_acc_ok f \<longleftrightarrow> list_all hunk_ok (acc_hunks f) \<and>
     (case acc_current f of None \<Rightarrow> True | Some h \<Rightarrow> acc_ok h) \<and>
     acc_added f = (\<Sum>h\<leftarrow>acc_hunks f. plus_lines (hunk_lines h)) + plus_lines (current_lines f) \<and>
     acc_removed f = (\<Sum>h\<leftarrow>acc_hunks f. minus_lines (hunk_lines h)) + minus_lines (current_lines f)"

definition parse_ok :: "parse_state \<Rightarrow> bool" where
  "parse_ok st \<longleftrightarrow> list_all file_ok (ps_files st) \<and>
     (case ps_current st of None \<Rightarrow> True | Some f \<Rightarrow> file_acc_ok f)"

subsection \<open>Counting\<close>

lemma count_snoc [simp]:
  "count_old_lines (ls @ [l]) = count_old_lines ls + (if is_old_side l then 1 else 0)"
  "count_new_lines (ls @ [l]) = count_new_lines ls + (if is_new_side l then 1 else 0)"
  "plus_lines (ls @ [l]) = plus_lines ls + (if starts_char (CHR ''+'') l then 1 else 0)"
  "minus_lines (ls @ [l]) = minus_lines ls + (if starts_char (CHR ''-'') l then 1 else 0)"
  by (auto simp: count_old_lines_def count_new_lines_def plus_lines_def minus_lines_def)

lemma count_Nil [simp]:
  "count_old_lines [] = 0" "count_new_lines [] = 0" "plus_lines [] = 0" "minus_lines [] = 0"
  by (auto simp: count_old_lines_def count_new_lines_def plus_lines_def minus_lines_def)

lemma newline_free_snoc [simp]: "newline_free (ls @ [l]) \<longleftrightarrow> newline_free ls \<and> newline_char \<notin> set l"
  by (auto simp: newline_free_def)

lemma newline_free_Nil [simp]: "newline_free []"
  by (simp add: newline_free_def)

lemma markers_snoc:
  "markers_ok b (ls @ [l]) \<longleftrightarrow> markers_ok b ls \<and>
     (is_hunk_body_line l \<or> (starts_char backslash l \<and> (if ls = [] then b else is_hunk_body_line (last ls))))"
  by (induction ls arbitrary: b) auto

lemma marker_sides:
  "starts_char backslash l \<Longrightarrow> \<not> is_old_side l \<and> \<not> is_new_side l \<and> \<not> starts_char (CHR ''+'') l \<and> \<not> starts_char (CHR ''-'') l"
  by (auto simp: is_old_side_def is_new_side_def starts_char_def)

subsection \<open>Every line keeps the invariant\<close>

lemma acc_ok_marker:
  assumes "acc_ok h" and "starts_char backslash l" and "newline_char \<notin> set l"
    and "attach_no_newline_marker (Some h) l = Inr h'"
  shows "acc_ok h' \<and> plus_lines (acc_lines h') = plus_lines (acc_lines h) \<and>
    minus_lines (acc_lines h') = minus_lines (acc_lines h)"
  using assms marker_sides [OF assms(2)]
  by (auto simp: attach_no_newline_marker_def acc_ok_def markers_snoc split: if_splits)

lemma acc_ok_body:
  assumes "acc_ok h" and "is_hunk_body_line l" and "newline_char \<notin> set l" and "assert_budget_available h l = Inr u"
  shows "acc_ok (consume_budget l (h\<lparr> acc_lines := acc_lines h @ [l] \<rparr>))"
  using assms(2)
proof (cases rule: body_line_cases)
  case context_line
  then show ?thesis using assms
    by (auto simp: assert_budget_available_def consume_budget_def acc_ok_def markers_snoc is_old_side_def
        is_new_side_def starts_char_def split: if_splits)
next
  case added
  then show ?thesis using assms
    by (auto simp: assert_budget_available_def consume_budget_def acc_ok_def markers_snoc is_old_side_def
        is_new_side_def starts_char_def split: if_splits)
next
  case removed
  then show ?thesis using assms
    by (auto simp: assert_budget_available_def consume_budget_def acc_ok_def markers_snoc is_old_side_def
        is_new_side_def starts_char_def split: if_splits)
qed

lemma consume_lines [simp]: "acc_lines (consume_budget l h) = acc_lines h"
  by (simp add: consume_budget_def)

lemma finish_hunk_ok:
  assumes "file_acc_ok f" and "finish_hunk f = Inr g"
  shows "file_acc_ok g \<and> acc_current g = None"
proof (cases "acc_current f")
  case (Some h)
  with assms(2) have g: "g = f\<lparr> acc_hunks := acc_hunks f @ [to_hunk h], acc_current := None \<rparr>"
    and rem: "old_remaining h = 0" "new_remaining h = 0"
    by (auto simp: finish_hunk_def split: if_splits)
  have "acc_ok h" using assms(1) Some by (simp add: file_acc_ok_def)
  then have "hunk_ok (to_hunk h)" using rem by (simp add: acc_ok_def hunk_ok_def to_hunk_def)
  moreover have "current_lines f = acc_lines h" "current_lines g = []" "hunk_lines (to_hunk h) = acc_lines h"
    using Some by (simp_all add: current_lines_def g to_hunk_def)
  ultimately show ?thesis using assms(1) by (simp add: file_acc_ok_def g)
qed (use assms in \<open>auto simp: finish_hunk_def\<close>)

lemma finish_file_ok:
  assumes "list_all file_ok files" and "file_acc_ok f" and "finish_file files f = Inr files'"
  shows "list_all file_ok files'"
proof -
  from assms(3) obtain g where g: "finish_hunk f = Inr g" by (auto simp: finish_file_def)
  from finish_hunk_ok [OF assms(2) g] have "file_acc_ok g" "current_lines g = []"
    by (auto simp: current_lines_def)
  then have "file_ok \<lparr> change_path = p, change_kind = k, change_hunks = acc_hunks g,
      added_lines = acc_added g, removed_lines = acc_removed g \<rparr>" for p k
    by (simp add: file_acc_ok_def file_ok_def)
  with assms(1,3) g show ?thesis
    by (auto simp: finish_file_def split: option.splits if_splits)
qed

lemma handle_body_line_ok:
  assumes "file_acc_ok f" and "newline_char \<notin> set l" and "handle_body_line l f = Inr g"
  shows "file_acc_ok g"
proof (cases "starts_char backslash l")
  case True
  with assms(3) obtain h h' where h: "acc_current f = Some h" "attach_no_newline_marker (Some h) l = Inr h'"
    and g: "g = f\<lparr> acc_current := Some h' \<rparr>"
    by (cases "acc_current f") (auto simp: handle_body_line_def attach_no_newline_marker_def)
  have "acc_ok h" using assms(1) h by (simp add: file_acc_ok_def)
  from acc_ok_marker [OF this True assms(2) h(2)] assms(1) h(1) show ?thesis
    by (simp add: file_acc_ok_def g current_lines_def)
next
  case False
  show ?thesis
  proof (cases "acc_current f")
    case None
    with False assms(1,3) show ?thesis by (auto simp: handle_body_line_def split: if_splits)
  next
    case (Some h)
    then have h: "acc_ok h" using assms(1) by (simp add: file_acc_ok_def)
    show ?thesis
    proof (cases "is_hunk_body_line l")
      case True
      with False Some assms(3) obtain u where u: "assert_budget_available h l = Inr u"
        and g: "g = (count_body l f)\<lparr> acc_current := Some (consume_budget l (h\<lparr> acc_lines := acc_lines h @ [l] \<rparr>)) \<rparr>"
        by (auto simp: handle_body_line_def)
      from acc_ok_body [OF h True assms(2) u] assms(1) Some show ?thesis
        by (auto simp: file_acc_ok_def g current_lines_def count_body_def starts_char_def)
    next
      case False2: False
      with False Some assms(3) have "finish_hunk f = Inr g" by (simp add: handle_body_line_def)
      with finish_hunk_ok [OF assms(1)] show ?thesis by blast
    qed
  qed
qed

lemma optional_count_le: "optional_count d = Inr n \<Longrightarrow> n \<le> max_safe_integer"
  by (auto simp: optional_count_def line_number_def max_safe_integer_def split: option.splits if_splits)

lemma line_number_le: "line_number d = Inr n \<Longrightarrow> n \<le> max_safe_integer"
  by (auto simp: line_number_def split: if_splits)

lemma parse_hunk_header_ok: "parse_hunk_header l = Inr h \<Longrightarrow> acc_ok h \<and> acc_lines h = []"
  unfolding parse_hunk_header_def
  by (auto simp: acc_ok_def optional_count_le line_number_le split: option.splits)

lemma with_current_ok:
  assumes "parse_ok st" and "with_current st r = Inr st'" and "\<And>f. r = Inr f \<Longrightarrow> file_acc_ok f"
  shows "parse_ok st'"
  using assms by (auto simp: with_current_def parse_ok_def)

lemma handle_line_ok:
  assumes "parse_ok st" and "newline_char \<notin> set l" and "handle_line st l = Inr st'"
  shows "parse_ok st'"
proof -
  define active where "active = (case ps_current st of None \<Rightarrow> False | Some f \<Rightarrow> hunk_active f)"
  note step = assms(3) [unfolded handle_line_def Let_def active_def [symmetric]]
  show ?thesis
  proof (cases "\<not> (active \<and> is_hunk_body_line l) \<and> starts_with ''--- '' l")
    case True
    with step obtain p files where "(case ps_current st of None \<Rightarrow> Inr (ps_files st)
        | Some f \<Rightarrow> finish_file (ps_files st) f) = Inr files"
      and st': "st' = \<lparr> ps_files = files, ps_current = Some (new_file_accumulator\<lparr> acc_old_path := Some p \<rparr>) \<rparr>"
      by (auto simp: start_new_file_def)
    then have "list_all file_ok files"
      using assms(1) finish_file_ok by (auto simp: parse_ok_def split: option.splits)
    then show ?thesis
      by (simp add: st' parse_ok_def file_acc_ok_def new_file_accumulator_def current_lines_def)
  next
    case no_header: False
    show ?thesis
    proof (cases "ps_current st")
      case None
      with no_header step assms(1) show ?thesis by auto
    next
      case (Some f)
      then have f: "file_acc_ok f" using assms(1) by (simp add: parse_ok_def)
      note fin = finish_hunk_ok [OF f]
      consider (body) "with_current st (handle_body_line l f) = Inr st'"
        | (sig) "with_current st (finish_hunk f) = Inr st'"
        | (new) "with_current st (rbind (header_path l ''+++ '') (\<lambda>p. Inr (f\<lparr> acc_new_path := Some p \<rparr>))) = Inr st'"
        | (hunk) "with_current st (rbind (finish_hunk f) (\<lambda>g.
            rbind (parse_hunk_header l) (\<lambda>h. Inr (g\<lparr> acc_current := Some h \<rparr>)))) = Inr st'"
        using step no_header Some by (auto split: if_splits)
      then show ?thesis
      proof cases
        case body
        with assms(1) show ?thesis
          by (rule with_current_ok) (rule handle_body_line_ok [OF f assms(2)])
      next
        case sig
        with assms(1) show ?thesis by (rule with_current_ok) (simp add: fin)
      next
        case new
        with assms(1) show ?thesis
          by (rule with_current_ok) (use f in \<open>auto simp: file_acc_ok_def current_lines_def\<close>)
      next
        case hunk
        with assms(1) show ?thesis
        proof (rule with_current_ok)
          fix k assume "rbind (finish_hunk f) (\<lambda>g. rbind (parse_hunk_header l) (\<lambda>h. Inr (g\<lparr> acc_current := Some h \<rparr>))) = Inr k"
          then obtain g h where g: "finish_hunk f = Inr g" and h: "parse_hunk_header l = Inr h"
            and k: "k = g\<lparr> acc_current := Some h \<rparr>" by auto
          from fin [OF g] parse_hunk_header_ok [OF h] show "file_acc_ok k"
            by (simp add: file_acc_ok_def k current_lines_def)
        qed
      qed
    qed
  qed
qed

text \<open>A line of a diff has no line break, as the diff was split there.\<close>

interpretation diff_parser: checked_ops parse_ok "\<lambda>l. newline_char \<notin> set l" handle_line
  by unfold_locales (rule handle_line_ok)

lemma parsed_files_ok:
  assumes "parse_unified_diff diff = Inr files"
  shows "list_all file_ok files"
proof -
  let ?s = "\<lparr> ps_files = [], ps_current = None \<rparr>"
  from assms obtain st where st: "rfold handle_line ?s (split_lines diff) = Inr st"
    and fin: "(case ps_current st of None \<Rightarrow> Inr (ps_files st) | Some f \<Rightarrow> finish_file (ps_files st) f) = Inr files"
    unfolding parse_unified_diff_def by auto
  have "parse_ok st" by (rule diff_parser.steps_inv [OF _ _ st]) (simp_all add: parse_ok_def split_lines_free)
  with fin show ?thesis by (auto simp: parse_ok_def finish_file_ok split: option.splits)
qed

end
