(* ===== verification/Diff_Roundtrip.thy ===== *)
theory Diff_Roundtrip
  imports Diff_Invariant
begin

text \<open>
  Rendering a parsed patch and parsing it again gives the same files, for paths that a plain header
  can carry. The normalized diff of a validation, the projection and the inverse patch are rendered
  this way.
\<close>

subsection \<open>Hunk headers\<close>

lemma range_fields_text:
  assumes "starts_char (CHR '' '') r"
  shows "range_fields (nat_digits a @ '','' @ nat_digits b @ r) = Some (nat_digits a, Some (nat_digits b), r)"
proof -
  have r: "r = [] \<or> \<not> is_digit (hd r)" using assms by (auto simp: starts_char_def is_digit_ascii)
  have comma: "CHR '','' # nat_digits b @ r = [] \<or> \<not> is_digit (hd (CHR '','' # nat_digits b @ r))" by (simp add: is_digit_ascii)
  have d: "list_all is_digit (nat_digits n)" "nat_digits n \<noteq> []" for n using nat_digits_value by auto
  have "digits_of (nat_digits a @ CHR '','' # nat_digits b @ r) = nat_digits a"
    "after_digits (nat_digits a @ CHR '','' # nat_digits b @ r) = CHR '','' # nat_digits b @ r"
    by (rule digits_stop [OF d(1) comma])+
  moreover have "digits_of (nat_digits b @ r) = nat_digits b" "after_digits (nat_digits b @ r) = r"
    by (rule digits_stop [OF d(1) r])+
  ultimately show ?thesis using d(2) by (simp add: range_fields_def starts_char_def Let_def)
qed

lemma header_match_text:
  "hunk_header_match (render_hunk_header h) = Some (nat_digits (old_start h), Some (nat_digits (old_lines h)),
     nat_digits (new_start h), Some (nat_digits (new_lines h)), '''')"
proof -
  let ?t = "'' +'' @ nat_digits (new_start h) @ '','' @ nat_digits (new_lines h) @ '' @@''"
  have 1: "range_fields (nat_digits (old_start h) @ '','' @ nat_digits (old_lines h) @ ?t) =
      Some (nat_digits (old_start h), Some (nat_digits (old_lines h)), ?t)"
    by (rule range_fields_text) (simp add: starts_char_def)
  have 2: "range_fields (nat_digits (new_start h) @ '','' @ nat_digits (new_lines h) @ '' @@'') =
      Some (nat_digits (new_start h), Some (nat_digits (new_lines h)), '' @@'')"
    by (rule range_fields_text) (simp add: starts_char_def)
  have "render_hunk_header h = ''@@ -'' @ nat_digits (old_start h) @ '','' @ nat_digits (old_lines h) @ ?t"
    by (simp add: render_hunk_header_def)
  moreover have "drop 4 (''@@ -'' @ s) = s" "starts_with ''@@ -'' (''@@ -'' @ s)" for s
    by (simp, rule starts_with_append)
  moreover have "drop 2 ?t = nat_digits (new_start h) @ '','' @ nat_digits (new_lines h) @ '' @@''"
    "starts_with '' +'' ?t" "starts_with '' @@'' '' @@''" "drop 3 '' @@'' = ''''"
    by (simp_all add: starts_with_def)
  ultimately show ?thesis unfolding hunk_header_match_def using 1 2 by simp
qed

lemma parse_rendered_header:
  assumes "hunk_ok h"
  shows "parse_hunk_header (render_hunk_header h) = Inr \<lparr> acc_old_start = old_start h,
    acc_old_lines = old_lines h, acc_new_start = new_start h, acc_new_lines = new_lines h, acc_lines = [],
    old_remaining = old_lines h, new_remaining = new_lines h \<rparr>"
  using assms nat_digits_value
  by (simp add: parse_hunk_header_def header_match_text optional_count_def line_number_def hunk_ok_def)

subsection \<open>Hunk bodies\<close>

definition with_body :: "file_acc \<Rightarrow> hunk_acc \<Rightarrow> string list \<Rightarrow> file_acc" where
  "with_body f h ls = f\<lparr> acc_current := Some (h\<lparr> acc_lines := acc_lines h @ ls, old_remaining := 0, new_remaining := 0 \<rparr>),
     acc_added := acc_added f + plus_lines ls, acc_removed := acc_removed f + minus_lines ls \<rparr>"

lemma count_Cons:
  "count_old_lines (l # ls) = (if is_old_side l then 1 else 0) + count_old_lines ls"
  "count_new_lines (l # ls) = (if is_new_side l then 1 else 0) + count_new_lines ls"
  "plus_lines (l # ls) = (if starts_char (CHR ''+'') l then 1 else 0) + plus_lines ls"
  "minus_lines (l # ls) = (if starts_char (CHR ''-'') l then 1 else 0) + minus_lines ls"
  by (auto simp: count_old_lines_def count_new_lines_def plus_lines_def minus_lines_def)

lemma marker_line_kind:
  assumes "starts_char backslash l"
  shows "\<not> starts_with ''--- '' l" "\<not> is_signature_delimiter l" "\<not> starts_with ''+++ '' l"
    "\<not> starts_with ''@@'' l" "\<not> is_hunk_body_line l"
  using assms by (cases l; auto simp: starts_char_def starts_with_def is_signature_delimiter_def
      is_hunk_body_line_def backslash_def)+

lemma handle_body:
  assumes "acc_current f = Some h" and "is_hunk_body_line l"
    and "old_remaining h = (if is_old_side l then 1 else 0) + m" and "new_remaining h = (if is_new_side l then 1 else 0) + n"
  shows "handle_line \<lparr> ps_files = fs, ps_current = Some f \<rparr> l = Inr \<lparr> ps_files = fs,
    ps_current = Some ((count_body l f)\<lparr> acc_current :=
      Some (h\<lparr> acc_lines := acc_lines h @ [l], old_remaining := m, new_remaining := n \<rparr>) \<rparr>) \<rparr>"
proof -
  have "hunk_active f" using assms
    by (cases rule: body_line_cases [OF assms(2)]) (auto simp: hunk_active_def is_old_side_def is_new_side_def)
  moreover have "consume_budget l (h\<lparr> acc_lines := acc_lines h @ [l] \<rparr>) =
      h\<lparr> acc_lines := acc_lines h @ [l], old_remaining := m, new_remaining := n \<rparr>"
    using assms(3,4)
    by (cases rule: body_line_cases [OF assms(2)])
       (auto simp: consume_budget_def is_old_side_def is_new_side_def starts_char_def)
  ultimately show ?thesis
    using assms body_not_marker [OF assms(2)]
    by (simp add: handle_line_def handle_body_line_def with_current_def assert_budget_available_def)
qed

lemma handle_marker:
  assumes "acc_current f = Some h" and "starts_char backslash l" and "acc_lines h \<noteq> []" "is_hunk_body_line (last (acc_lines h))"
  shows "handle_line \<lparr> ps_files = fs, ps_current = Some f \<rparr> l = Inr \<lparr> ps_files = fs,
    ps_current = Some (f\<lparr> acc_current := Some (h\<lparr> acc_lines := acc_lines h @ [l] \<rparr>) \<rparr>) \<rparr>"
  using assms marker_line_kind [OF assms(2)]
  by (simp add: handle_line_def handle_body_line_def with_current_def attach_no_newline_marker_def)

lemma count_body_record:
  "count_body l f = f\<lparr> acc_added := acc_added f + (if starts_char (CHR ''+'') l then 1 else 0),
     acc_removed := acc_removed f + (if starts_char (CHR ''-'') l then 1 else 0) \<rparr>"
  by (auto simp: count_body_def starts_char_def)

lemma handle_body_lines:
  assumes "acc_current f = Some h" and "old_remaining h = count_old_lines ls" and "new_remaining h = count_new_lines ls"
    and "markers_ok (acc_lines h \<noteq> [] \<and> is_hunk_body_line (last (acc_lines h))) ls"
  shows "rfold handle_line \<lparr> ps_files = fs, ps_current = Some f \<rparr> ls =
    Inr \<lparr> ps_files = fs, ps_current = Some (with_body f h ls) \<rparr>"
  using assms
proof (induction ls arbitrary: f h)
  case Nil
  then show ?case by (simp add: with_body_def)
next
  case (Cons l ls)
  show ?case
  proof (cases "is_hunk_body_line l")
    case True
    let ?h = "h\<lparr> acc_lines := acc_lines h @ [l], old_remaining := count_old_lines ls, new_remaining := count_new_lines ls \<rparr>"
    let ?f = "(count_body l f)\<lparr> acc_current := Some ?h \<rparr>"
    have step: "handle_line \<lparr> ps_files = fs, ps_current = Some f \<rparr> l = Inr \<lparr> ps_files = fs, ps_current = Some ?f \<rparr>"
      using Cons.prems by (intro handle_body [OF Cons.prems(1) True]) (simp_all add: count_Cons)
    have "rfold handle_line \<lparr> ps_files = fs, ps_current = Some ?f \<rparr> ls =
        Inr \<lparr> ps_files = fs, ps_current = Some (with_body ?f ?h ls) \<rparr>"
      by (rule Cons.IH) (use Cons.prems(4) True in auto)
    moreover have "with_body ?f ?h ls = with_body f h (l # ls)"
      by (simp add: with_body_def count_Cons count_body_record)
    ultimately show ?thesis using step by simp
  next
    case False
    with Cons.prems(4) have m: "starts_char backslash l" "acc_lines h \<noteq> []" "is_hunk_body_line (last (acc_lines h))"
      and rest: "markers_ok False ls" by auto
    let ?h = "h\<lparr> acc_lines := acc_lines h @ [l] \<rparr>"
    let ?f = "f\<lparr> acc_current := Some ?h \<rparr>"
    note sides = marker_sides [OF m(1)]
    have step: "handle_line \<lparr> ps_files = fs, ps_current = Some f \<rparr> l = Inr \<lparr> ps_files = fs, ps_current = Some ?f \<rparr>"
      using Cons.prems(1) m by (rule handle_marker)
    have "rfold handle_line \<lparr> ps_files = fs, ps_current = Some ?f \<rparr> ls =
        Inr \<lparr> ps_files = fs, ps_current = Some (with_body ?f ?h ls) \<rparr>"
      by (rule Cons.IH) (use Cons.prems(2,3) rest False sides in \<open>auto simp: count_Cons\<close>)
    moreover have "with_body ?f ?h ls = with_body f h (l # ls)"
      using sides by (simp add: with_body_def count_Cons)
    ultimately show ?thesis using step by simp
  qed
qed

subsection \<open>Hunks of a file\<close>

definition add_hunk :: "patch_hunk \<Rightarrow> file_acc \<Rightarrow> file_acc" where
  "add_hunk h g = g\<lparr> acc_hunks := acc_hunks g @ [h], acc_added := acc_added g + plus_lines (hunk_lines h),
     acc_removed := acc_removed g + minus_lines (hunk_lines h) \<rparr>"

lemma header_line_kind:
  "\<not> starts_with ''--- '' (render_hunk_header h)" "\<not> is_signature_delimiter (render_hunk_header h)"
  "\<not> starts_with ''+++ '' (render_hunk_header h)" "starts_with ''@@'' (render_hunk_header h)"
  "\<not> is_hunk_body_line (render_hunk_header h)"
  by (simp_all add: render_hunk_header_def starts_with_def is_signature_delimiter_def is_hunk_body_line_def starts_char_def)

lemma handle_hunk:
  assumes "hunk_ok h" and "finish_hunk f = Inr g" and "acc_current g = None"
  shows "\<exists>f'. rfold handle_line \<lparr> ps_files = fs, ps_current = Some f \<rparr> (render_hunk_header h # hunk_lines h) =
      Inr \<lparr> ps_files = fs, ps_current = Some f' \<rparr> \<and> finish_hunk f' = Inr (add_hunk h g) \<and> \<not> hunk_active f'"
proof -
  define a where "a = \<lparr> acc_old_start = old_start h, acc_old_lines = old_lines h, acc_new_start = new_start h,
    acc_new_lines = new_lines h, acc_lines = [], old_remaining = old_lines h, new_remaining = new_lines h \<rparr>"
  let ?f = "g\<lparr> acc_current := Some a \<rparr>"
  let ?f' = "with_body ?f a (hunk_lines h)"
  have "handle_line \<lparr> ps_files = fs, ps_current = Some f \<rparr> (render_hunk_header h) =
      Inr \<lparr> ps_files = fs, ps_current = Some ?f \<rparr>"
    using parse_rendered_header [OF assms(1)] assms(2) header_line_kind [of h]
    by (simp add: handle_line_def with_current_def a_def)
  moreover have "rfold handle_line \<lparr> ps_files = fs, ps_current = Some ?f \<rparr> (hunk_lines h) =
      Inr \<lparr> ps_files = fs, ps_current = Some ?f' \<rparr>"
    by (rule handle_body_lines) (use assms(1) in \<open>simp_all add: a_def hunk_ok_def\<close>)
  moreover have "finish_hunk ?f' = Inr (add_hunk h g)" and "\<not> hunk_active ?f'"
    using assms(3) by (simp_all add: with_body_def finish_hunk_def add_hunk_def to_hunk_def a_def hunk_active_def)
  ultimately show ?thesis by auto
qed

lemma handle_hunks:
  assumes "list_all hunk_ok hs" and "finish_hunk f = Inr g" and "acc_current g = None" and "\<not> hunk_active f"
  shows "\<exists>f'. rfold handle_line \<lparr> ps_files = fs, ps_current = Some f \<rparr>
      (concat (map (\<lambda>h. render_hunk_header h # hunk_lines h) hs)) = Inr \<lparr> ps_files = fs, ps_current = Some f' \<rparr> \<and>
    finish_hunk f' = Inr (fold add_hunk hs g) \<and> \<not> hunk_active f'"
  using assms
proof (induction hs arbitrary: f g)
  case (Cons h hs)
  then have h: "hunk_ok h" and hs: "list_all hunk_ok hs" by auto
  obtain f1 where f1: "rfold handle_line \<lparr> ps_files = fs, ps_current = Some f \<rparr> (render_hunk_header h # hunk_lines h) =
      Inr \<lparr> ps_files = fs, ps_current = Some f1 \<rparr>" "finish_hunk f1 = Inr (add_hunk h g)" "\<not> hunk_active f1"
    using handle_hunk [OF h Cons.prems(2,3)] by blast
  have "acc_current (add_hunk h g) = None" using Cons.prems(3) by (simp add: add_hunk_def)
  note IH = Cons.IH [OF hs f1(2) this f1(3)]
  have eq: "concat (map (\<lambda>h. render_hunk_header h # hunk_lines h) (h # hs)) =
      (render_hunk_header h # hunk_lines h) @ concat (map (\<lambda>h. render_hunk_header h # hunk_lines h) hs)" by simp
  show ?case unfolding eq rfold_append f1(1) using IH by simp
qed auto

lemma fold_add_hunk:
  "acc_hunks (fold add_hunk hs g) = acc_hunks g @ hs"
  "acc_added (fold add_hunk hs g) = acc_added g + (\<Sum>h\<leftarrow>hs. plus_lines (hunk_lines h))"
  "acc_removed (fold add_hunk hs g) = acc_removed g + (\<Sum>h\<leftarrow>hs. minus_lines (hunk_lines h))"
  "acc_old_path (fold add_hunk hs g) = acc_old_path g" "acc_new_path (fold add_hunk hs g) = acc_new_path g"
  by (induction hs arbitrary: g) (simp_all add: add_hunk_def)

subsection \<open>Files\<close>

text \<open>A path that a header can carry without quoting.\<close>

definition renderable_path :: "string \<Rightarrow> bool" where
  "renderable_path p \<longleftrightarrow> newline_char \<notin> set p \<and> CHR 0x09 \<notin> set p \<and> p \<noteq> dev_null \<and>
     trim (''a/'' @ p) = ''a/'' @ p \<and> trim (''b/'' @ p) = ''b/'' @ p"

text \<open>The file that the parse state would finish next.\<close>

definition finishes :: "parse_state \<Rightarrow> patch_file list \<Rightarrow> bool" where
  "finishes st files \<longleftrightarrow> (case ps_current st of
     None \<Rightarrow> ps_files st = files
   | Some f \<Rightarrow> finish_file (ps_files st) f = Inr files \<and> \<not> hunk_active f)"

lemma header_path_prefix:
  assumes "renderable_path p" and "length m = 4"
  shows "header_path (m @ ''a/'' @ p) m = Inr p" "header_path (m @ ''b/'' @ p) m = Inr p"
    "header_path (m @ dev_null) m = Inr dev_null"
proof -
  have "\<forall>c\<in>set p. c \<noteq> CHR 0x09"
    using assms(1) by (auto simp: renderable_path_def)
  then have t: "takeWhile (\<lambda>c. c \<noteq> CHR 0x09) (CHR ''a'' # CHR ''/'' # p) = CHR ''a'' # CHR ''/'' # p"
    "takeWhile (\<lambda>c. c \<noteq> CHR 0x09) (CHR ''b'' # CHR ''/'' # p) = CHR ''b'' # CHR ''/'' # p"
    by (simp_all add: takeWhile_eq_all_conv)
  have plain: "header_path (m @ x) m = Inr (strip_prefix x)"
    if "takeWhile (\<lambda>c. c \<noteq> CHR 0x09) x = x" "trim x = x" "\<not> starts_char (CHR 0x22) x" for x
    using that(2,3) assms(2) by (simp add: header_path_def Let_def that(1))
  have tr: "trim (CHR ''a'' # CHR ''/'' # p) = CHR ''a'' # CHR ''/'' # p"
    "trim (CHR ''b'' # CHR ''/'' # p) = CHR ''b'' # CHR ''/'' # p"
    using assms(1) by (simp_all add: renderable_path_def)
  have sp: "strip_prefix (''a/'' @ p) = p" "strip_prefix (''b/'' @ p) = p"
    by (simp_all add: strip_prefix_def starts_with_def dev_null_def)
  have "header_path (m @ ''a/'' @ p) m = Inr (strip_prefix (''a/'' @ p))"
    using plain [OF t(1) tr(1)] by (simp add: starts_char_def)
  then show "header_path (m @ ''a/'' @ p) m = Inr p" unfolding sp .
  have "header_path (m @ ''b/'' @ p) m = Inr (strip_prefix (''b/'' @ p))"
    using plain [OF t(2) tr(2)] by (simp add: starts_char_def)
  then show "header_path (m @ ''b/'' @ p) m = Inr p" unfolding sp .
  have "takeWhile (\<lambda>c. c \<noteq> CHR 0x09) dev_null = dev_null" "\<not> starts_char (CHR 0x22) dev_null"
    by (simp_all add: dev_null_def starts_char_def)
  moreover have "trim dev_null = dev_null"
    by (simp add: dev_null_def trim_def trim_cps_def cp_len_def cp_value_def is_js_ws_def Let_def)
  ultimately have "header_path (m @ dev_null) m = Inr (strip_prefix dev_null)" by (intro plain)
  then show "header_path (m @ dev_null) m = Inr dev_null" by (simp add: strip_prefix_def)
qed

lemma handle_headers:
  assumes "finishes st files" and "header_path (''--- '' @ a) ''--- '' = Inr p" and "header_path (''+++ '' @ b) ''+++ '' = Inr q"
  shows "rfold handle_line st [''--- '' @ a, ''+++ '' @ b] = Inr \<lparr> ps_files = files,
    ps_current = Some (new_file_accumulator\<lparr> acc_old_path := Some p, acc_new_path := Some q \<rparr>) \<rparr>"
proof -
  have "handle_line st (''--- '' @ a) = Inr \<lparr> ps_files = files,
      ps_current = Some (new_file_accumulator\<lparr> acc_old_path := Some p \<rparr>) \<rparr>"
    using assms(1,2)
    by (auto simp: finishes_def handle_line_def start_new_file_def starts_with_def split: option.splits)
  moreover have "handle_line \<lparr> ps_files = files, ps_current = Some (new_file_accumulator\<lparr> acc_old_path := Some p \<rparr>) \<rparr>
      (''+++ '' @ b) = Inr \<lparr> ps_files = files,
        ps_current = Some (new_file_accumulator\<lparr> acc_old_path := Some p, acc_new_path := Some q \<rparr>) \<rparr>"
    using assms(3)
    by (simp add: handle_line_def with_current_def hunk_active_def new_file_accumulator_def starts_with_def
        is_signature_delimiter_def)
  ultimately show ?thesis by simp
qed

lemma render_header_paths:
  assumes "renderable_path (change_path f)"
  obtains a b p q where "render_header f = [''--- '' @ a, ''+++ '' @ b]"
    and "header_path (''--- '' @ a) ''--- '' = Inr p" and "header_path (''+++ '' @ b) ''+++ '' = Inr q"
    and "classify p q = (change_kind f, change_path f)"
proof -
  note old = header_path_prefix [OF assms, of "''--- ''", unfolded dev_null_def, simplified]
  note new = header_path_prefix [OF assms, of "''+++ ''", unfolded dev_null_def, simplified]
  show thesis
  proof (cases "change_kind f")
  case ChangeCreate
  show thesis
    by (rule that [of dev_null "''b/'' @ change_path f" dev_null "change_path f"])
       (use ChangeCreate old new in \<open>simp_all add: render_header_def classify_def dev_null_def\<close>)
next
  case ChangeDelete
  show thesis
    by (rule that [of "''a/'' @ change_path f" dev_null "change_path f" dev_null])
       (use ChangeDelete assms old new in \<open>simp_all add: render_header_def classify_def renderable_path_def dev_null_def\<close>)
next
  case ChangeModify
  show thesis
    by (rule that [of "''a/'' @ change_path f" "''b/'' @ change_path f" "change_path f" "change_path f"])
       (use ChangeModify assms old new
         in \<open>simp_all add: render_header_def classify_def renderable_path_def dev_null_def\<close>)
  qed
qed

lemma handle_file:
  assumes "file_ok f" and "renderable_path (change_path f)" and "finishes st files"
  shows "\<exists>st'. rfold handle_line st (render_file_lines f) = Inr st' \<and> finishes st' (files @ [f])"
proof -
  obtain a b p q where hd: "render_header f = [''--- '' @ a, ''+++ '' @ b]"
    and pq: "header_path (''--- '' @ a) ''--- '' = Inr p" "header_path (''+++ '' @ b) ''+++ '' = Inr q"
    and cl: "classify p q = (change_kind f, change_path f)"
    by (rule render_header_paths [OF assms(2)])
  define g where "g = new_file_accumulator\<lparr> acc_old_path := Some p, acc_new_path := Some q \<rparr>"
  have g: "acc_current g = None" "finish_hunk g = Inr g" "\<not> hunk_active g"
    by (simp_all add: g_def new_file_accumulator_def finish_hunk_def hunk_active_def)
  have hunks: "list_all hunk_ok (change_hunks f)" using assms(1) by (simp add: file_ok_def)
  obtain f' where f': "rfold handle_line \<lparr> ps_files = files, ps_current = Some g \<rparr>
      (concat (map (\<lambda>h. render_hunk_header h # hunk_lines h) (change_hunks f))) =
      Inr \<lparr> ps_files = files, ps_current = Some f' \<rparr>"
    and fin: "finish_hunk f' = Inr (fold add_hunk (change_hunks f) g)" and act: "\<not> hunk_active f'"
    using handle_hunks [OF hunks g(2,1,3)] by blast
  have "finish_file files f' = Inr (files @ [f])"
    using assms(1) cl
    by (simp add: finish_file_def fin fold_add_hunk file_ok_def g_def new_file_accumulator_def)
  then have "finishes \<lparr> ps_files = files, ps_current = Some f' \<rparr> (files @ [f])"
    using act by (simp add: finishes_def)
  moreover have "rfold handle_line st (render_file_lines f) = Inr \<lparr> ps_files = files, ps_current = Some f' \<rparr>"
    unfolding render_file_lines_def hd rfold_append handle_headers [OF assms(3) pq] g_def [symmetric]
    using f' by simp
  ultimately show ?thesis by blast
qed

lemma handle_files:
  assumes "list_all file_ok fs" and "list_all (\<lambda>f. renderable_path (change_path f)) fs" and "finishes st files"
  shows "\<exists>st'. rfold handle_line st (concat (map render_file_lines fs)) = Inr st' \<and> finishes st' (files @ fs)"
  using assms
proof (induction fs arbitrary: st files)
  case (Cons f fs)
  then obtain st1 where "rfold handle_line st (render_file_lines f) = Inr st1" "finishes st1 (files @ [f])"
    using handle_file [of f st files] by auto
  with Cons.IH [of st1 "files @ [f]"] Cons.prems show ?case by (simp add: rfold_append)
qed simp

lemma nat_digits_free: "newline_char \<notin> set (nat_digits n)"
proof
  assume "newline_char \<in> set (nat_digits n)"
  then have "is_digit newline_char" using nat_digits_value [of n] by (auto simp: list_all_iff)
  then show False by (simp add: is_digit_ascii)
qed

lemma render_free:
  assumes "file_ok f" and "renderable_path (change_path f)"
  shows "newline_free (render_file_lines f)"
proof -
  have "newline_free (render_header f)"
    using assms(2) by (cases "change_kind f") (auto simp: render_header_def newline_free_def renderable_path_def)
  moreover have "newline_char \<notin> set (render_hunk_header h)" for h
    by (simp add: render_hunk_header_def nat_digits_free)
  ultimately show ?thesis
    using assms(1) by (auto simp: render_file_lines_def newline_free_def file_ok_def hunk_ok_def list_all_iff)
qed

lemma parse_rendered:
  assumes "list_all file_ok files" and "list_all (\<lambda>f. renderable_path (change_path f)) files"
  shows "parse_unified_diff (render_parsed_patch files) = Inr files"
proof (cases "files = []")
  case True
  then show ?thesis
    by (simp add: render_parsed_patch_def join_lines_def parse_unified_diff_def split_lines_def handle_line_def starts_with_def)
next
  case False
  let ?ls = "concat (map render_file_lines files)" and ?s = "\<lparr> ps_files = [], ps_current = None \<rparr>"
  have "?ls \<noteq> []" using False by (cases files) (auto simp: render_file_lines_def render_header_def split: change_kind.splits)
  moreover have "\<forall>l\<in>set ?ls. newline_char \<notin> set l"
    using assms render_free by (fastforce simp: newline_free_def list_all_iff)
  ultimately have split: "split_lines (render_parsed_patch files) = ?ls"
    unfolding render_parsed_patch_def by (rule split_lines_join)
  have "finishes ?s []" by (simp add: finishes_def)
  from handle_files [OF assms this] obtain st where "rfold handle_line ?s ?ls = Inr st" "finishes st files" by auto
  then show ?thesis
    unfolding parse_unified_diff_def split by (auto simp: finishes_def split: option.splits)
qed

subsection \<open>Inverted files\<close>

lemma invert_line_chars:
  "starts_char (CHR ''+'') (invert_hunk_line l) = starts_char (CHR ''-'') l"
  "starts_char (CHR ''-'') (invert_hunk_line l) = starts_char (CHR ''+'') l"
  "starts_char (CHR '' '') (invert_hunk_line l) = starts_char (CHR '' '') l"
  "starts_char backslash (invert_hunk_line l) = starts_char backslash l"
  "is_hunk_body_line (invert_hunk_line l) = is_hunk_body_line l"
  "is_old_side (invert_hunk_line l) = is_new_side l" "is_new_side (invert_hunk_line l) = is_old_side l"
  by (auto simp: invert_hunk_line_def starts_char_def is_hunk_body_line_def is_old_side_def is_new_side_def backslash_def)

lemma invert_counts:
  "count_old_lines (map invert_hunk_line ls) = count_new_lines ls"
  "count_new_lines (map invert_hunk_line ls) = count_old_lines ls"
  "plus_lines (map invert_hunk_line ls) = minus_lines ls"
  "minus_lines (map invert_hunk_line ls) = plus_lines ls"
  "markers_ok b (map invert_hunk_line ls) = markers_ok b ls"
  by (induction ls arbitrary: b) (auto simp: count_Cons invert_line_chars)

lemma invert_file_ok: "file_ok f \<Longrightarrow> file_ok (invert_file_change f)"
  by (auto simp: file_ok_def invert_file_change_def invert_hunk_def hunk_ok_def list_all_iff invert_counts
      newline_free_def invert_line_free comp_def)

lemma invert_line_twice: "invert_hunk_line (invert_hunk_line l) = l"
  by (cases l) (auto simp: invert_hunk_line_def starts_char_def)

lemma invert_twice: "invert_file_change (invert_file_change f) = f"
proof -
  have "invert_hunk (invert_hunk h) = h" for h
    by (simp add: invert_hunk_def comp_def invert_line_twice)
  then show ?thesis by (cases "change_kind f") (simp_all add: invert_file_change_def comp_def)
qed

end
