(* ===== verification/Patch_Properties.thy ===== *)
theory Patch_Properties
  imports Diff_Roundtrip
begin

text \<open>
  The promises of the patch engine: hunk application is the reference edit, the inverse patch
  restores the file, and instances of where the engine departs from what its comments say.
\<close>

text \<open>
  Claim C14. Every diff the parser accepts is consistent: each hunk's header declares exactly the old
  and new lines of its body, no-newline markers only follow body lines, and the line totals that the
  change limit is checked against count the added and removed lines of those bodies.
\<close>

theorem parsed_hunks_match_headers:
  assumes "parse_unified_diff diff = Inr files"
  shows "list_all (\<lambda>f. added_lines f = (\<Sum>h\<leftarrow>change_hunks f. plus_lines (hunk_lines h)) \<and>
      removed_lines f = (\<Sum>h\<leftarrow>change_hunks f. minus_lines (hunk_lines h)) \<and>
      list_all (\<lambda>h. old_lines h = length (old_side h) \<and> new_lines h = length (new_side h) \<and>
        markers_ok False (hunk_lines h)) (change_hunks f)) files"
  using parsed_files_ok [OF assms]
  by (auto simp: list_all_iff file_ok_def hunk_ok_def count_old_lines_def count_new_lines_def
      hunk_preimage_lines_def new_side_def)

text \<open>The text of a diff in the examples below, one string per line.\<close>

definition diff_text :: "string list \<Rightarrow> string" where
  "diff_text ls = join_lines (ls @ [[]])"

definition sample_file :: patch_file where
  "sample_file = \<lparr> change_path = ''f'', change_kind = ChangeModify,
     change_hunks = [
       \<lparr> old_start = 1, old_lines = 2, new_start = 1, new_lines = 3, hunk_lines = ['' a'', ''+x'', '' b''] \<rparr>,
       \<lparr> old_start = 4, old_lines = 2, new_start = 5, new_lines = 1, hunk_lines = [''-d'', '' e''] \<rparr>],
     added_lines = 1, removed_lines = 1 \<rparr>"

definition sample_diff :: string where
  "sample_diff = render_parsed_patch [sample_file]"

lemma sample_renderable: "list_all (\<lambda>f. renderable_path (change_path f)) [sample_file]"
  by (simp add: sample_file_def renderable_path_def dev_null_def trim_def trim_cps_def cp_len_def cp_value_def
      is_js_ws_def Let_def)

lemma sample_diff_parses: "parse_unified_diff sample_diff = Inr [sample_file]"
  unfolding sample_diff_def
proof (rule parse_rendered [OF _ sample_renderable])
  show "list_all file_ok [sample_file]"
    by (simp add: file_ok_def hunk_ok_def sample_file_def count_old_lines_def count_new_lines_def plus_lines_def
        minus_lines_def is_old_side_def is_new_side_def is_hunk_body_line_def starts_char_def newline_free_def
        max_safe_integer_def)
qed

theorem parsed_hunks_match_headers_witness:
  "list_all (\<lambda>h. old_lines h = length (old_side h) \<and> new_lines h = length (new_side h)) (change_hunks sample_file) \<and>
   added_lines sample_file = (\<Sum>h\<leftarrow>change_hunks sample_file. plus_lines (hunk_lines h))"
  using parsed_hunks_match_headers [OF sample_diff_parses] by (simp add: list_all_iff)

text \<open>
  Claim C13. A parsed patch whose paths a plain header can carry (\<open>renderable_path\<close>: no
  tab, line break or trailing blank, and not \<open>/dev/null\<close>) renders to text that parses
  back to it, and so does its inverse; inverting twice gives the parsed patch back. Other paths,
  which only quoted headers can name, need not survive (\<open>rendered_tab_path_changes\<close> in
  \<open>Patch_Findings\<close>).
\<close>

theorem rendered_patch_parses_back:
  assumes "parse_unified_diff diff = Inr files" and "list_all (\<lambda>f. renderable_path (change_path f)) files"
  shows "parse_unified_diff (render_parsed_patch files) = Inr files \<and>
    (\<exists>inverse. invert_patch diff = Inr inverse \<and>
      parse_unified_diff inverse = Inr (map invert_file_change files) \<and>
      invert_patch inverse = Inr (render_parsed_patch files))"
proof -
  let ?inv = "map invert_file_change files"
  have ok: "list_all file_ok files" by (rule parsed_files_ok [OF assms(1)])
  then have "list_all file_ok ?inv" by (auto simp: list_all_iff invert_file_ok)
  moreover have "list_all (\<lambda>f. renderable_path (change_path f)) ?inv"
    using assms(2) by (auto simp: list_all_iff invert_file_change_def)
  ultimately have "parse_unified_diff (render_parsed_patch ?inv) = Inr ?inv" by (rule parse_rendered)
  then show ?thesis
    using parse_rendered [OF ok assms(2)] assms(1) by (simp add: invert_patch_def invert_twice comp_def)
qed

theorem rendered_patch_parses_back_witness:
  "parse_unified_diff (render_parsed_patch [sample_file]) = Inr [sample_file]"
  using rendered_patch_parses_back [OF sample_diff_parses sample_renderable] by blast

lemma modify_is_edit:
  assumes "change_kind f = ChangeModify" and "list_all plain_hunk (change_hunks f)"
  shows "let outcome = compute_file_content f (Some c) overwrite; org = to_original c;
      edit = edit_from 0 (change_hunks f) (orig_lines org)
    in (out_conflicts outcome = [] \<longleftrightarrow> edit \<noteq> None) \<and>
       out_content outcome = map_option (\<lambda>r. render_lines r
         (edit_end 0 (change_hunks f) < length (orig_lines org) \<and> orig_missing_newline org)) edit"
proof (cases "edit_from 0 (change_hunks f) (orig_lines (to_original c))")
  case None
  then show ?thesis
    using apply_modify_edit(2) [OF assms(2) None] by (simp add: compute_file_content_def assms(1) Let_def)
next
  case (Some r)
  then show ?thesis
    using apply_modify_edit(1) [OF assms(2), of "to_original c"] by (simp add: compute_file_content_def assms(1) Let_def)
qed

text \<open>
  Claim C7. Applying a modify change is the reference edit: with hunks as the parser yields them and
  no no-newline marker, the engine reports a conflict exactly when some hunk's old side is not at
  its place or the hunks overlap, and otherwise the new content has every line outside the hunks as
  it was and each hunk's new side in place of its old side. When every hunk has an old line (context
  or removed) the reference is the edit of the unified format itself; a hunk that only inserts is
  placed where the engine's comment says, after the first \<open>oldStart - 1\<close> lines, which
  the findings on bare insertions show to be one line early and not to conflict past the end of the
  file.
\<close>

theorem modify_implements_reference_edit:
  assumes "change_kind f = ChangeModify" and "list_all plain_hunk (change_hunks f)"
  shows "let outcome = compute_file_content f (Some c) overwrite; org = to_original c;
      edit = edit_from 0 (change_hunks f) (orig_lines org)
    in (out_conflicts outcome = [] \<longleftrightarrow> edit \<noteq> None) \<and>
       out_content outcome = map_option (\<lambda>r. render_lines r
         (edit_end 0 (change_hunks f) < length (orig_lines org) \<and> orig_missing_newline org)) edit \<and>
       (list_all (\<lambda>h. old_side h \<noteq> []) (change_hunks f) \<longrightarrow>
         edit = unified_edit_from 0 (change_hunks f) (orig_lines org))"
  using modify_is_edit [OF assms, of c overwrite] edit_from_unified by (simp only: Let_def) blast

definition sample_text :: string where
  "sample_text = diff_text [''a'', ''b'', ''c'', ''d'', ''e'']"

theorem modify_implements_reference_edit_witness:
  "out_conflicts (compute_file_content sample_file (Some sample_text) False) = [] \<and>
   out_content (compute_file_content sample_file (Some sample_text) False) =
     Some (diff_text [''a'', ''x'', ''b'', ''c'', ''e''])"
proof -
  have "change_kind sample_file = ChangeModify" "list_all plain_hunk (change_hunks sample_file)"
    by code_simp+
  note P = modify_implements_reference_edit [OF this, of sample_text False]
  have "edit_from 0 (change_hunks sample_file) (orig_lines (to_original sample_text)) =
      Some [''a'', ''x'', ''b'', ''c'', ''e'']" by code_simp
  moreover have "render_lines [''a'', ''x'', ''b'', ''c'', ''e''] False = diff_text [''a'', ''x'', ''b'', ''c'', ''e'']"
    by code_simp
  moreover have "\<not> orig_missing_newline (to_original sample_text)" by code_simp
  ultimately show ?thesis using P by (simp add: Let_def)
qed




end
