(* ===== verification/Patch_Plan.thy ===== *)
theory Patch_Plan
  imports Writer_Contract Patch_Properties
begin

text \<open>
  What the planned writes of a patch are: one per change, at the path the policy accepted, carrying
  the content computed from what the file holds; and what the write phase may do with a writer.
\<close>

subsection \<open>Planned writes\<close>

definition current_content :: "patch_fs \<Rightarrow> string \<Rightarrow> string option" where
  "current_content fs path =
     (if fs_exists fs path then (case fs_read fs path of Inl e \<Rightarrow> None | Inr c \<Rightarrow> Some c) else None)"

text \<open>A snapshot of the file at an accepted path.\<close>

definition snapshot_ok :: "workspace \<Rightarrow> patch_fs \<Rightarrow> string \<Rightarrow> source_snapshot \<Rightarrow> bool" where
  "snapshot_ok ws fs path s \<longleftrightarrow> enforce_path ws fs path = Inr (src_absolute s) \<and>
     src_content s = current_content fs (src_absolute s) \<and>
     (fs_exists fs (src_absolute s) \<longrightarrow> src_content s \<noteq> None)"

lemma inspect_source_ok:
  assumes "inspect_source ws fs path budget = Inr sb"
  shows "snapshot_ok ws fs path (fst sb)"
proof -
  obtain absolute where e: "enforce_path ws fs path = Inr absolute"
    using assms by (cases "enforce_path ws fs path") (simp_all add: inspect_source_def)
  show ?thesis
  proof (cases "fs_exists fs absolute")
    case True
    have simps: "inspect_source ws fs path budget = (case fs_stat fs absolute of
              Inl e \<Rightarrow> Inl (path_rejection path PathDenied ''source file could not be inspected safely'')
            | Inr st \<Rightarrow>
                if \<not> st_is_file st \<or> st_is_directory st \<or> st_is_link st
                then Inl (path_rejection path PathDenied ''source target is not a regular file'')
                else if more_than_one_link st
                then Inl (path_rejection path PathDenied ''path matches an always-on deny pattern'')
                else rbind (reserve_source_bytes st budget path) (\<lambda>nb.
                  case fs_read fs absolute of
                    Inl e \<Rightarrow> Inl (path_rejection path PathDenied ''source file could not be read safely'')
                  | Inr content \<Rightarrow>
                      rbind (verify_source_bytes content (fst nb) (snd nb) path) (\<lambda>_.
                        Inr (\<lparr> src_absolute = absolute, src_content = Some content,
                               src_hash = fs_sha256 fs content,
                               src_version = source_version_from_stat st (fs_sha256 fs content) \<rparr>, snd nb))))"
      using e True by (simp add: inspect_source_def)
    note simps = assms [unfolded simps]
    obtain st where st: "fs_stat fs absolute = Inr st" using simps by (cases "fs_stat fs absolute") simp_all
    obtain c where c: "fs_read fs absolute = Inr c"
      using simps st by (cases "fs_read fs absolute") (auto split: if_splits)
    have "src_absolute (fst sb) = absolute \<and> src_content (fst sb) = Some c"
      using simps st c by (auto split: if_splits)
    with e True c show ?thesis by (simp add: snapshot_ok_def current_content_def)
  next
    case False
    with assms e show ?thesis by (auto simp: inspect_source_def snapshot_ok_def current_content_def)
  qed
qed

lemma prepare_loop_ok:
  assumes "prepare_loop ws fs files sources budget = Inr result"
    and "\<And>k s. map_of sources k = Some s \<Longrightarrow> snapshot_ok ws fs k s"
    and "map_of result k = Some s"
  shows "snapshot_ok ws fs k s"
  using assms
proof (induction files arbitrary: sources budget)
  case (Cons f files)
  show ?case
  proof (cases "map_of sources (change_path f)")
    case None
    then obtain sb where i: "inspect_source ws fs (change_path f) budget = Inr sb"
      and r: "prepare_loop ws fs files (sources @ [(change_path f, fst sb)]) (snd sb) = Inr result"
      using Cons.prems(1) by auto
    have "snapshot_ok ws fs k' s'" if "map_of (sources @ [(change_path f, fst sb)]) k' = Some s'" for k' s'
      using that inspect_source_ok [OF i] Cons.prems(2) [of k' s']
      by (auto simp: map_add_def split: option.splits if_splits)
    from Cons.IH [OF r this Cons.prems(3)] show ?thesis .
  next
    case (Some s')
    with Cons.prems(1) have "prepare_loop ws fs files sources budget = Inr result" by simp
    from Cons.IH [OF this Cons.prems(2,3)] show ?thesis .
  qed
qed simp

definition plan_for :: "workspace \<Rightarrow> patch_fs \<Rightarrow> bool \<Rightarrow> patch_file \<Rightarrow> planned_write \<Rightarrow> bool" where
  "plan_for ws fs ow f p \<longleftrightarrow> enforce_path ws fs (change_path f) = Inr (pw_absolute p) \<and>
     pw_original p = current_content fs (pw_absolute p) \<and>
     (fs_exists fs (pw_absolute p) \<longrightarrow> pw_original p \<noteq> None) \<and> pw_path p = change_path f \<and>
     pw_kind p = change_kind f \<and>
     (let outcome = compute_file_content f (pw_original p) ow
      in out_conflicts outcome = [] \<and> pw_new_content p = out_content outcome)"

lemma plan_writes_each:
  assumes "plan_writes ws fs files ow = Inr plans"
  shows "list_all2 (plan_for ws fs ow) files plans"
proof -
  from assms obtain sources where s: "prepare_sources ws fs files = Inr sources"
    and r: "rmap (\<lambda>f. rbind (required_source sources (change_path f)) (\<lambda>s. plan_write f s ow)) files = Inr plans"
    by (auto simp: plan_writes_def split: sum.splits)
  have ok: "snapshot_ok ws fs k s'" if "map_of sources k = Some s'" for k s'
    using prepare_loop_ok [OF s [unfolded prepare_sources_def] _ that] by simp
  have "plan_for ws fs ow f p"
    if "rbind (required_source sources (change_path f)) (\<lambda>s. plan_write f s ow) = Inr p" for f p
  proof -
    from that obtain s' where k: "map_of sources (change_path f) = Some s'" and w: "plan_write f s' ow = Inr p"
      by (auto simp: required_source_def split: option.splits)
    from w ok [OF k] show ?thesis
      unfolding plan_for_def snapshot_ok_def plan_write_def Let_def by (simp split: if_splits) (erule subst, simp)
  qed
  with rmap_Inr_all2 [OF r] show ?thesis by (rule list_all2_mono)
qed

lemma plan_writes_of:
  assumes "plan_writes ws fs files ow = Inr plans" and "p \<in> set plans"
  obtains f where "f \<in> set files" and "plan_for ws fs ow f p"
proof -
  from assms(2) obtain i where i: "i < length plans" "p = plans ! i" by (auto simp: in_set_conv_nth)
  with plan_writes_each [OF assms(1)] have "files ! i \<in> set files" "plan_for ws fs ow (files ! i) p"
    by (auto simp: list_all2_conv_all_nth)
  with that show thesis by blast
qed

text \<open>What a plan writes is what the change computes: nothing exactly for a deletion.\<close>

lemma delete_content: "out_content (verify_delete_pre_image hs c) = None"
  by (simp add: verify_delete_pre_image_def conflict_only_def Let_def)

lemma created_some: "out_conflicts (created_content hs) = [] \<Longrightarrow> \<exists>c. out_content (created_content hs) = Some c"
  by (auto simp: created_content_def conflict_only_def split: sum.splits)

lemma modified_some: "out_conflicts (apply_modify org hs) = [] \<Longrightarrow> \<exists>c. out_content (apply_modify org hs) = Some c"
  by (auto simp: apply_modify_def Let_def add_conflict_def split: if_splits)

lemma computed_none:
  assumes "out_conflicts (compute_file_content f c ow) = []"
  shows "out_content (compute_file_content f c ow) = None \<longleftrightarrow> change_kind f = ChangeDelete"
proof (cases "change_kind f")
  case ChangeCreate
  with assms created_some [of "change_hunks f"] show ?thesis
    by (auto simp: compute_file_content_def conflict_only_def split: if_splits)
next
  case ChangeModify
  with assms modified_some [of _ "change_hunks f"] show ?thesis
    by (cases c) (auto simp: compute_file_content_def conflict_only_def)
next
  case ChangeDelete
  with assms show ?thesis by (cases c) (simp_all add: compute_file_content_def conflict_only_def delete_content)
qed

lemma computed_written:
  assumes "plan_for ws fs ow f p"
  shows "written p = out_content (compute_file_content f (pw_original p) ow)"
proof -
  let ?o = "compute_file_content f (pw_original p) ow"
  from assms have "out_conflicts ?o = []" "pw_new_content p = out_content ?o" "pw_kind p = change_kind f"
    unfolding plan_for_def Let_def by blast+
  with computed_none [of f "pw_original p" ow] show ?thesis by (auto simp: written_def)
qed

subsection \<open>A sample\<close>

text \<open>
  A workspace with one file on a disk that answers consistently, and the sample patch validated and
  planned there: the concrete runs the properties of applying a patch are instantiated at.
\<close>

definition disk_fs :: "(string \<Rightarrow> string option) \<Rightarrow> patch_fs" where
  "disk_fs files = \<lparr> fs_is_denied = (\<lambda>p. p = ''.env''), fs_real_relative = (\<lambda>p. Inr (drop 3 p)),
     fs_exists = (\<lambda>p. files p \<noteq> None),
     fs_stat = (\<lambda>p. case files p of None \<Rightarrow> Inl OtherPathError
       | Some c \<Rightarrow> Inr \<lparr> st_size = Some (of_nat (length c)), st_is_file = True, st_is_directory = False,
           st_is_link = False, st_hard_links = Some 1, st_mtime = None \<rparr>),
     fs_read = (\<lambda>p. case files p of None \<Rightarrow> Inl OtherPathError | Some c \<Rightarrow> Inr c),
     fs_sha256 = (\<lambda>c. []) \<rparr>"

definition disk_ws :: workspace where
  "disk_ws = \<lparr> ws_cwd = ''/'', ws_root = ''/w'' \<rparr>"

definition disk_policy :: inspection_policy where
  "disk_policy = \<lparr> ip_limits = default_patch_limits, ip_allow_overwrite = False, ip_verbatim = False \<rparr>"

definition disk_files :: "string \<Rightarrow> string option" where
  "disk_files = [''/w/f'' \<mapsto> sample_text]"

lemma disk_fs_simps [simp]:
  "fs_exists (disk_fs files) p = (files p \<noteq> None)"
  "fs_stat (disk_fs files) p = (case files p of None \<Rightarrow> Inl OtherPathError
     | Some c \<Rightarrow> Inr \<lparr> st_size = Some (of_nat (length c)), st_is_file = True, st_is_directory = False,
         st_is_link = False, st_hard_links = Some 1, st_mtime = None \<rparr>)"
  "fs_read (disk_fs files) p = (case files p of None \<Rightarrow> Inl OtherPathError | Some c \<Rightarrow> Inr c)"
  "fs_sha256 (disk_fs files) c = []"
  by (simp_all add: disk_fs_def)

lemma sample_enforced: "enforce_path disk_ws (disk_fs disk_files) ''f'' = Inr ''/w/f''"
  by code_simp

lemma sample_text_length: "length sample_text = 10"
  by code_simp

lemma sample_sources: "prepare_sources disk_ws (disk_fs disk_files) [sample_file] = Inr [(''f'',
    \<lparr> src_absolute = ''/w/f'', src_content = Some sample_text, src_hash = [], src_version = None \<rparr>)]"
  using sample_enforced
  by (simp add: prepare_sources_def inspect_source_def disk_files_def sample_file_def reserve_source_bytes_def
      safe_size_def verify_source_bytes_def source_version_from_stat_def patch_source_max_file_bytes_def
      patch_source_max_total_bytes_def max_safe_integer_def more_than_one_link_def sample_text_length)

lemma sample_lines: "sample_diff = join_lines [''--- a/f'', ''+++ b/f'', ''@@ -1,2 +1,3 @@'', '' a'', ''+x'', '' b'',
    ''@@ -4,2 +5,1 @@'', ''-d'', '' e'']"
  by code_simp

lemma sample_aligned: "map (aligned_file [(''f'',
    \<lparr> src_absolute = ''/w/f'', src_content = Some sample_text, src_hash = [], src_version = None \<rparr>)]) [sample_file]
    = [sample_file]" by code_simp

lemma sample_reasons:
  "validation_reasons disk_ws (disk_fs disk_files) disk_policy
     \<lparr> pd_files = [sample_file], pd_effective = sample_diff, pd_normalized = False \<rparr> n = []" if "n \<le> 10"
proof -
  have "length sample_diff = 62" by code_simp
  moreover have "\<not> is_binary_diff sample_diff" "\<not> has_escaped_diff_line_break sample_diff" by code_simp+
  moreover have "collect_path_reasons disk_ws (disk_fs disk_files) [sample_file] = []" by code_simp
  ultimately show ?thesis using that
   by (simp add: validation_reasons_def size_and_count_reasons_def disk_policy_def default_patch_limits_def governed_patch_max_bytes_def Let_def)
qed


lemma sample_validation:
  "validate_patch disk_ws (disk_fs disk_files) disk_policy sample_diff = \<lparr> val_ok = True, val_files = [sample_file],
     val_changed_lines = 2, val_bytes = 62, val_normalized = None, val_reasons = [], val_conflicts = [] \<rparr>"
proof -
  let ?s = "[(''f'', \<lparr> src_absolute = ''/w/f'', src_content = Some sample_text, src_hash = [], src_version = None \<rparr>)]"
  have "parse_diff_for_validation sample_diff = Inr \<lparr> pd_files = [sample_file], pd_effective = sample_diff, pd_normalized = False \<rparr>"
    by (simp add: parse_diff_for_validation_def sample_diff_parses)
  moreover have "total_changed_lines [sample_file] = 2" "length sample_diff = 62" by code_simp+
  moreover have "align_file_hunks sample_file (source_content ?s ''f'') = None" "change_path sample_file = ''f''"
     "unanchored_modify_reasons [sample_file] = []" "collect_conflicts [sample_file] ?s False = []" by code_simp+
  ultimately show ?thesis
    using sample_aligned by (simp add: validate_patch_def inspect_patch_def complete_inspection_def sample_reasons sample_sources
      align_hunks_to_current_content_def validation_result_def disk_policy_def [THEN arg_cong, of ip_allow_overwrite])
qed

definition disk_env :: os_env where
  "disk_env = \<lparr> os_cwd = ''/'', os_pid = ''7'', os_uuid = (\<lambda>s. ''u''), os_fault = (\<lambda>s. None),
     os_lstat = (\<lambda>s p. if nf_files s p \<noteq> None then Inr \<lparr> fs_link = False, fs_dir = False, fs_mode = 420 \<rparr>
       else if p = ''/w'' then Inr \<lparr> fs_link = False, fs_dir = True, fs_mode = 493 \<rparr>
       else Inl (Errno ''ENOENT'' ''no such file'')),
     os_realpath = (\<lambda>s p. Inr (resolve_segments ''/'' p)),
     os_exists = (\<lambda>s p. nf_files s p \<noteq> None), os_accepts = (\<lambda>s n. 1) \<rparr>"


definition disk_state :: node_fs where
  "disk_state = \<lparr> nf_files = disk_files, nf_calls = 0 \<rparr>"

definition disk_writer :: "node_fs writer" where
  "disk_writer = contained_writer (taking_all disk_env) [''w''] [''w'']"

definition sample_plan :: planned_write where
  "sample_plan = \<lparr> pw_path = ''f'', pw_absolute = ''/w/f'', pw_kind = ChangeModify,
     pw_new_content = Some (diff_text [''a'', ''x'', ''b'', ''c'', ''e'']), pw_original = Some sample_text \<rparr>"

lemma sample_plans: "plan_writes disk_ws (disk_fs disk_files) [sample_file] False = Inr [sample_plan]"
proof -
  let ?s = "\<lparr> src_absolute = ''/w/f'', src_content = Some sample_text, src_hash = [], src_version = None \<rparr>"
  have "plan_write sample_file ?s False = Inr sample_plan" "change_path sample_file = ''f''" by code_simp+
  then show ?thesis by (simp add: plan_writes_def sample_sources required_source_def)
qed

lemma disk_key:
  assumes "list_all clean_segment segs"
  shows "writer_key env base base (absolute_path segs) = absolute_path segs"
  by (simp add: writer_key_def resolve_workspace_path_def resolve_absolute_path [OF assms] Let_def split: sum.splits)

lemma disk_visible: "visible disk_state = disk_files"
proof -
  have "\<not> is_temp_name ''/w/f''" by code_simp
  then show ?thesis by (auto simp: visible_def shown_def disk_state_def disk_files_def fun_eq_iff)
qed

end
