(* ===== verification/Patch_Safety.thy ===== *)
theory Patch_Safety
  imports Patch_Plan
begin

text \<open>
  What applying a patch may do to a workspace: nothing unless every gate is open, only at accepted
  paths, all of it or none of it.
\<close>

subsection \<open>The gates of an apply\<close>

lemma apply_patch_cases:
  assumes "apply_patch ws fs fs1 policy enabled aborted guard wr diff w = (r, w')"
  obtains (refused) e where "r = Inl e" and "w' = w"
    | (planned) plans x ef where "enabled" and "val_ok (validate_patch ws fs policy diff)" and "\<not> aborted"
      and "plan_writes ws fs1 (val_files (validate_patch ws fs policy diff)) (ip_allow_overwrite policy) = Inr plans"
      and "commit wr guard plans \<lparr> ef_writer = w, ef_guards = 0 \<rparr> = (x, ef)" and "w' = ef_writer ef"
      and "r = (case x of Inl e \<Rightarrow> Inl e | Inr u \<Rightarrow> Inr (summarize plans))"
  using assms
  by (auto simp: apply_patch_def Let_def split: if_splits sum.splits prod.splits)

lemma aligned_file_keeps:
  "change_path (aligned_file sources f) = change_path f"
  "added_lines (aligned_file sources f) = added_lines f" "removed_lines (aligned_file sources f) = removed_lines f"
  by (auto simp: aligned_file_def align_file_hunks_def Let_def split: option.splits if_splits)

lemma validated_cases:
  assumes "val_ok (validate_patch ws fs policy diff)"
  obtains parsed sources where "parse_diff_for_validation diff = Inr parsed"
    and "validation_reasons ws fs policy parsed (total_changed_lines (pd_files parsed)) = []"
    and "prepare_sources ws fs (pd_files parsed) = Inr sources"
    and "val_files (validate_patch ws fs policy diff) = map (aligned_file sources) (pd_files parsed)"
    and "val_changed_lines (validate_patch ws fs policy diff) = total_changed_lines (pd_files parsed)"
    and "collect_conflicts (map (aligned_file sources) (pd_files parsed)) sources (ip_allow_overwrite policy) = []"
    and "unanchored_modify_reasons (map (aligned_file sources) (pd_files parsed)) = []"
proof (cases "parse_diff_for_validation diff")
  case (Inl m)
  with assms show thesis by (simp add: validate_patch_def inspect_patch_def malformed_validation_def)
next
  case parsed: (Inr parsed)
  let ?t = "total_changed_lines (pd_files parsed)"
  note v = assms [unfolded validate_patch_def inspect_patch_def parsed sum.case]
  have r: "validation_reasons ws fs policy parsed ?t = []"
    using v by (rule contrapos_pp) (simp add: complete_inspection_def rejected_inspection_def validation_result_def Let_def)
  obtain sources where s: "prepare_sources ws fs (pd_files parsed) = Inr sources"
    using v r by (cases "prepare_sources ws fs (pd_files parsed)")
      (simp_all add: complete_inspection_def rejected_inspection_def validation_result_def Let_def)
  let ?a = "map (aligned_file sources) (pd_files parsed)"
  have "unanchored_modify_reasons ?a = []"
    "collect_conflicts ?a sources (ip_allow_overwrite policy) = []"
    using v r s by (auto simp: complete_inspection_def validation_result_def Let_def align_hunks_to_current_content_def
        split: if_splits)
  moreover have "val_files (validate_patch ws fs policy diff) = ?a"
    "val_changed_lines (validate_patch ws fs policy diff) = ?t"
    using r s parsed by (simp_all add: validate_patch_def inspect_patch_def complete_inspection_def validation_result_def
        Let_def align_hunks_to_current_content_def)
  ultimately show thesis using that [OF parsed r s] by blast
qed

lemma unguarded_commit:
  assumes "\<not> guard 0" and "commit wr guard plans \<lparr> ef_writer = w, ef_guards = 0 \<rparr> = (x, ef)"
  shows "ef_writer ef = w"
  using assms by (cases plans)
    (auto simp: commit_def apply_one_def require_effect_def fail_with_rollback_def)

lemma collected_reasons:
  assumes "validation_reasons ws fs policy parsed n = []"
  shows "int (length (pd_effective parsed)) \<le> max_patch_bytes (ip_limits policy)"
    and "int n \<le> max_changed_lines (ip_limits policy)"
    and "int (length (pd_files parsed)) \<le> max_files_changed (ip_limits policy)"
    and "\<not> is_binary_diff (pd_effective parsed)"
    and "f \<in> set (pd_files parsed) \<Longrightarrow> \<exists>p. enforce_path ws fs (change_path f) = Inr p"
proof -
  from assms have s: "size_and_count_reasons (pd_effective parsed) (pd_files parsed) n policy (length (pd_effective parsed)) = []"
    and p: "collect_path_reasons ws fs (pd_files parsed) = []" by (simp_all add: validation_reasons_def)
  from s show "int (length (pd_effective parsed)) \<le> max_patch_bytes (ip_limits policy)"
    "int n \<le> max_changed_lines (ip_limits policy)"
    "int (length (pd_files parsed)) \<le> max_files_changed (ip_limits policy)"
    "\<not> is_binary_diff (pd_effective parsed)"
    by (auto simp: size_and_count_reasons_def Let_def split: if_splits)
  from p show "f \<in> set (pd_files parsed) \<Longrightarrow> \<exists>p. enforce_path ws fs (change_path f) = Inr p"
    by (cases "enforce_path ws fs (change_path f)")
      (auto simp: collect_path_reasons_def map_filter_def safe_path_def filter_empty_conv split: sum.splits)
qed

lemma prepared_source:
  assumes "prepare_loop ws fs files sources budget = Inr result" and "f \<in> set files \<or> map_of sources (change_path f) \<noteq> None"
  shows "map_of result (change_path f) \<noteq> None"
  using assms
proof (induction files arbitrary: sources budget)
  case (Cons g files)
  show ?case
  proof (cases "map_of sources (change_path g)")
    case None
    then obtain sb where r: "prepare_loop ws fs files (sources @ [(change_path g, fst sb)]) (snd sb) = Inr result"
      using Cons.prems(1) by auto
    have "f \<in> set files \<or> map_of (sources @ [(change_path g, fst sb)]) (change_path f) \<noteq> None"
      using Cons.prems(2) by (auto simp: map_add_def split: option.splits)
    from Cons.IH [OF r this] show ?thesis .
  next
    case (Some s')
    with Cons.prems(1) have r: "prepare_loop ws fs files sources budget = Inr result" by simp
    have "f \<in> set files \<or> map_of sources (change_path f) \<noteq> None" using Cons.prems(2) Some by auto
    from Cons.IH [OF r this] show ?thesis .
  qed
qed simp

text \<open>
  Claim C11. The write phase is reached only through every gate: if an apply has called its writer to
  any effect, apply was enabled, the run was not aborted and the first question of the effect guard
  was answered with yes, the patch is within its byte, line and file limits and not binary, and the
  path policy accepted every path and every change fits what the file held at validation.
\<close>

theorem apply_needs_every_gate:
  assumes "snd (apply_patch ws fs fs1 policy enabled aborted guard wr diff w) \<noteq> w"
  shows "enabled \<and> \<not> aborted \<and> guard 0 \<and>
    (\<exists>parsed. parse_diff_for_validation diff = Inr parsed \<and> \<not> is_binary_diff (pd_effective parsed) \<and>
      int (length (pd_effective parsed)) \<le> max_patch_bytes (ip_limits policy)) \<and>
    (let v = validate_patch ws fs policy diff in
      int (val_changed_lines v) \<le> max_changed_lines (ip_limits policy) \<and>
      int (length (val_files v)) \<le> max_files_changed (ip_limits policy) \<and>
      list_all (\<lambda>f. \<exists>p. enforce_path ws fs (change_path f) = Inr p \<and>
        out_conflicts (compute_file_content f (current_content fs p) (ip_allow_overwrite policy)) = []) (val_files v))"
proof -
  obtain r w' where run: "apply_patch ws fs fs1 policy enabled aborted guard wr diff w = (r, w')"
    by (cases "apply_patch ws fs fs1 policy enabled aborted guard wr diff w")
  with assms have "w' \<noteq> w" by simp
  with run show ?thesis
  proof (cases rule: apply_patch_cases)
    case (planned plans x ef)
    have "guard 0" using unguarded_commit [OF _ planned(5)] planned(6) \<open>w' \<noteq> w\<close> by blast
    from planned(2) show ?thesis
    proof (cases rule: validated_cases)
      case (1 parsed sources)
      note limits = collected_reasons [OF 1(2)]
      have "\<exists>p. enforce_path ws fs (change_path f) = Inr p \<and>
          out_conflicts (compute_file_content f (current_content fs p) (ip_allow_overwrite policy)) = []"
        if "f \<in> set (map (aligned_file sources) (pd_files parsed))" for f
      proof -
        from that obtain g where g: "g \<in> set (pd_files parsed)" "f = aligned_file sources g" by auto
        then obtain s where s: "map_of sources (change_path f) = Some s"
          using prepared_source [OF 1(3) [unfolded prepare_sources_def]] by (fastforce simp: aligned_file_keeps)
        have "snapshot_ok ws fs (change_path f) s"
          using prepare_loop_ok [OF 1(3) [unfolded prepare_sources_def] _ s] by simp
        moreover have "out_conflicts (compute_file_content f (src_content s) (ip_allow_overwrite policy)) = []"
          using 1(6) that s by (auto simp: collect_conflicts_def source_content_def)
        ultimately show ?thesis by (auto simp: snapshot_ok_def)
      qed
      with limits 1 planned(1,3) \<open>guard 0\<close> show ?thesis by (auto simp: Let_def list_all_iff)
    qed
  qed blast
qed

text \<open>The sample patch applied to the sample disk.\<close>

definition disk_apply :: "(nat \<Rightarrow> bool) \<Rightarrow> (patch_error + patch_apply_result) \<times> node_fs" where
  "disk_apply guard = apply_patch disk_ws (disk_fs disk_files) (disk_fs disk_files) disk_policy True False guard
     disk_writer sample_diff disk_state"

lemma disk_apply_runs:
  "disk_apply guard = (case commit disk_writer guard [sample_plan] \<lparr> ef_writer = disk_state, ef_guards = 0 \<rparr> of
     (Inl e, ef) \<Rightarrow> (Inl e, ef_writer ef) | (Inr u, ef) \<Rightarrow> (Inr (summarize [sample_plan]), ef_writer ef))"
  by (simp add: disk_apply_def apply_patch_def sample_validation sample_plans disk_policy_def [THEN arg_cong, of ip_allow_overwrite])

theorem apply_needs_every_gate_witness:
  "let v = validate_patch disk_ws (disk_fs disk_files) disk_policy sample_diff in
     int (val_changed_lines v) \<le> max_changed_lines (ip_limits disk_policy) \<and>
     int (length (val_files v)) \<le> max_files_changed (ip_limits disk_policy)"
proof -
  have "nf_calls (snd (disk_apply (\<lambda>n. True))) \<noteq> nf_calls disk_state"
    unfolding disk_apply_runs by code_simp
  then have "snd (disk_apply (\<lambda>n. True)) \<noteq> disk_state" by metis
  from apply_needs_every_gate [OF this [unfolded disk_apply_def]] show ?thesis by (simp add: Let_def)
qed

subsection \<open>Where an apply may write\<close>

text \<open>
  A path under the root, with a real path the deny list does not match and at most one link.
\<close>

definition touchable :: "workspace \<Rightarrow> patch_fs \<Rightarrow> string \<Rightarrow> bool" where
  "touchable ws fs p \<longleftrightarrow>
     (\<exists>segs. list_all clean_segment segs \<and> p = absolute_path (resolve_segments (ws_cwd ws) (ws_root ws) @ segs)) \<and>
     (\<exists>real. fs_real_relative fs p = Inr real \<and> \<not> fs_is_denied fs real) \<and>
     (fs_exists fs p \<longrightarrow> (\<exists>st. fs_stat fs p = Inr st \<and> \<not> more_than_one_link st))"

lemma enforced_touchable:
  assumes "enforce_path ws fs path = Inr p"
  shows "touchable ws fs p"
proof -
  from assms have r: "resolve_within_workspace (ws_cwd ws) (ws_root ws) path = Inr p"
    and d: "\<exists>real. fs_real_relative fs p = Inr real \<and> \<not> fs_is_denied fs real"
    and l: "fs_exists fs p \<longrightarrow> (\<exists>st. fs_stat fs p = Inr st \<and> \<not> more_than_one_link st)"
    by (auto simp: enforce_path_def Let_def split: if_splits)
  from resolve_within_inside [OF r] d l show ?thesis unfolding touchable_def by metis
qed

definition kept_by :: "('w \<Rightarrow> bool) \<Rightarrow> 'w writer \<Rightarrow> (string \<Rightarrow> bool) \<Rightarrow> bool" where
  "kept_by P wr ok \<longleftrightarrow> (\<forall>p w. ok p \<longrightarrow> P w \<longrightarrow>
     (\<forall>c. P (snd (wr_write wr p c w))) \<and> P (snd (wr_remove wr p w)) \<and> P (snd (wr_mkdirp wr (parent_directory p) w)))"


named_theorems keeping \<open>steps of the write phase that keep a property of the writer\<close>

definition ef_keeps :: "('w \<Rightarrow> bool) \<Rightarrow> ('w effects \<Rightarrow> (patch_error + 'a) \<times> 'w effects) \<Rightarrow> bool" where
  "ef_keeps P step \<longleftrightarrow> (\<forall>ef. P (ef_writer ef) \<longrightarrow> P (ef_writer (snd (step ef))))"

lemma keeps_then [keeping]:
  "ef_keeps P m \<Longrightarrow> ef_keeps P k \<Longrightarrow> ef_keeps P (\<lambda>ef. then_do (m ef) k)"
  unfolding ef_keeps_def
proof (intro allI impI, goal_cases)
  case (1 ef)
  then show ?case
    by (cases "m ef" rule: prod.exhaust; cases "fst (m ef)") (fastforce dest: spec [of _ ef])+
qed

lemma keeps_guard [keeping]: "ef_keeps P (require_effect guard)"
  by (simp add: ef_keeps_def require_effect_def)

lemma keeps_call [keeping]: "(\<And>w. P w \<Longrightarrow> P (snd (op w))) \<Longrightarrow> ef_keeps P (write_call op)"
  unfolding ef_keeps_def write_call_def by (auto split: prod.splits sum.splits) (metis snd_conv)+

lemma keeps_if [keeping]: "(c \<Longrightarrow> ef_keeps P a) \<Longrightarrow> (\<not> c \<Longrightarrow> ef_keeps P b) \<Longrightarrow> ef_keeps P (if c then a else b)"
  by simp

lemma keeps_apply_one:
  assumes "kept_by P wr ok" and "ok (pw_absolute p)"
  shows "ef_keeps P (apply_one wr guard p)"
proof -
  have calls: "ef_keeps P (write_call (wr_remove wr (pw_absolute p)))"
    "ef_keeps P (write_call (wr_mkdirp wr (parent_directory (pw_absolute p))))"
    "ef_keeps P (write_call (wr_write wr (pw_absolute p) c))" for c
    using assms by (auto intro!: keeps_call simp: kept_by_def)
  show ?thesis
  proof (cases "pw_kind p = ChangeDelete")
    case True
    then have "apply_one wr guard p = (\<lambda>ef. then_do (require_effect guard ef) (write_call (wr_remove wr (pw_absolute p))))"
      by (simp add: apply_one_def fun_eq_iff)
    then show ?thesis by (simp add: keeping calls)
  next
    case False
    then show ?thesis unfolding apply_one_def by (simp add: keeping calls)
  qed
qed

lemma keeps_rollback:
  assumes "kept_by P wr ok" and "\<And>p. p \<in> set ps \<Longrightarrow> ok (pw_absolute p)"
  shows "ef_keeps P (rollback wr ps)"
  using assms(2)
proof (induction ps)
  case (Cons p ps)
  have "ok (pw_absolute p)" using Cons.prems by simp
  with assms(1) have "ef_keeps P (write_call (case pw_original p of None \<Rightarrow> wr_remove wr (pw_absolute p)
      | Some c \<Rightarrow> wr_write wr (pw_absolute p) c))"
    by (intro keeps_call) (auto simp: kept_by_def split: option.splits)
  then have "ef_keeps P (\<lambda>ef. then_do (write_call (case pw_original p of None \<Rightarrow> wr_remove wr (pw_absolute p)
      | Some c \<Rightarrow> wr_write wr (pw_absolute p) c) ef) (rollback wr ps))"
    by (rule keeps_then) (use Cons in simp)
  then show ?case by (simp add: ef_keeps_def)
qed (simp add: ef_keeps_def)

lemma keeps_commit:
  assumes "kept_by P wr ok" and "\<And>p. p \<in> set (ds @ ps) \<Longrightarrow> ok (pw_absolute p)" and "P (ef_writer ef)"
  shows "P (ef_writer (snd (commit_loop wr guard ps ds ef)))"
  using assms(2,3)
proof (induction ps arbitrary: ds ef)
  case (Cons p ps)
  obtain x ef1 where one: "apply_one wr guard p ef = (x, ef1)" by (cases "apply_one wr guard p ef")
  obtain y ef2 where g: "require_effect guard ef1 = (y, ef2)" by (cases "require_effect guard ef1")
  have fail: "P (ef_writer (snd (fail_with_rollback wr qs p e ef')))"
    if "P (ef_writer ef')" "\<And>q. q \<in> set qs \<Longrightarrow> ok (pw_absolute q)" for qs e ef'
  proof -
    have "ef_keeps P (\<lambda>ef. then_do (rollback wr qs ef) (\<lambda>ef1. (Inl (after_rollback e (pw_path p)), ef1)))"
      by (intro keeps_then keeps_rollback [OF assms(1) that(2)]) (auto simp: ef_keeps_def)
    with that(1) show ?thesis unfolding ef_keeps_def fail_with_rollback_def by blast
  qed
  have 1: "P (ef_writer ef1)"
    using keeps_apply_one [OF assms(1), of p guard] Cons.prems one unfolding ef_keeps_def
    by (metis snd_conv in_set_conv_decomp)
  then have 2: "P (ef_writer ef2)" using keeps_guard [of P guard] g unfolding ef_keeps_def by (metis snd_conv)
  show ?case
  proof (cases x)
    case (Inl e)
    with one fail [OF 1] Cons.prems(1) show ?thesis by simp
  next
    case x: (Inr u)
    show ?thesis
    proof (cases y)
      case (Inl e)
      have "P (ef_writer (snd (fail_with_rollback wr (ds @ [p]) p e ef2)))"
        by (rule fail [OF 2]) (use Cons.prems(1) in auto)
      with one g x Inl show ?thesis by simp
    next
      case (Inr v)
      with one g x Cons.IH [OF _ 2, of "ds @ [p]"] Cons.prems(1) show ?thesis by simp
    qed
  qed
qed simp

text \<open>
  Claim C12. Every write, removal and creation of a parent directory, those of a rollback included,
  is for a path under the workspace root whose real path the deny list does not match and which is
  not a hard link: whatever such operations keep of the writer's state is kept by applying any
  patch. (The deny list is also checked on the path as written; that check is not part of this
  statement.)
\<close>

theorem apply_stays_in_workspace:
  assumes "kept_by P wr (touchable ws fs1)" and "P w"
  shows "P (snd (apply_patch ws fs fs1 policy enabled aborted guard wr diff w))"
proof -
  obtain r w' where run: "apply_patch ws fs fs1 policy enabled aborted guard wr diff w = (r, w')"
    by (cases "apply_patch ws fs fs1 policy enabled aborted guard wr diff w")
  then show ?thesis
  proof (cases rule: apply_patch_cases)
    case (planned plans x ef)
    have "touchable ws fs1 (pw_absolute p)" if "p \<in> set plans" for p
      using plan_writes_of [OF planned(4) that] by (auto simp: plan_for_def intro: enforced_touchable)
    with keeps_commit [OF assms(1), of "[]" plans "\<lparr> ef_writer = w, ef_guards = 0 \<rparr>" guard] assms(2) planned(5,6) run
    show ?thesis by (simp add: commit_def)
  qed (use run assms(2) in simp)
qed

text \<open>A writer that only records the paths it is asked to write or remove.\<close>

definition recording_writer :: "string list writer" where
  "recording_writer = \<lparr> wr_write = (\<lambda>p c log. (Inr (), log @ [p])), wr_mkdirp = (\<lambda>d log. (Inr (), log)),
     wr_remove = (\<lambda>p log. (Inr (), log @ [p])) \<rparr>"

lemma under_root: "starts_with ''/w'' (absolute_path ([''w''] @ segs))"
  by (cases segs) (simp_all add: absolute_path_def starts_with_def slash_def)

theorem apply_stays_in_workspace_witness:
  "list_all (starts_with ''/w'') (snd (apply_patch disk_ws (disk_fs disk_files) (disk_fs disk_files) disk_policy True
     False (\<lambda>n. True) recording_writer sample_diff []))"
proof -
  have "resolve_segments (ws_cwd disk_ws) (ws_root disk_ws) = [''w'']" by code_simp
  then have "kept_by (list_all (starts_with ''/w'')) recording_writer (touchable disk_ws (disk_fs disk_files))"
    using under_root by (auto simp: kept_by_def touchable_def recording_writer_def)
  from apply_stays_in_workspace [OF this, of "[]"] show ?thesis by simp
qed

subsection \<open>All of a patch or nothing\<close>

lemma foldl_all2:
  assumes "list_all2 R xs ys" and "\<And>x y v. R x y \<Longrightarrow> g v y = h v x"
  shows "foldl g v ys = foldl h v xs"
  using assms(1) by (induction arbitrary: v rule: list_all2_induct) (simp_all add: assms(2))

lemma list_all2_mono_strong:
  "list_all2 R xs ys \<Longrightarrow> (\<And>x y. R x y \<Longrightarrow> x \<in> set xs \<Longrightarrow> Q x y) \<Longrightarrow> list_all2 Q xs ys"
  by (simp add: list_all2_conv_all_nth)

lemma writer_key_taking_all: "writer_key (taking_all env) = writer_key env"
  by (simp add: writer_key_def resolve_workspace_path_def taking_all_def fun_eq_iff)

text \<open>
  The file a change stands for, as the contained writer resolves it, and the agreement of the
  read-only file system that planning sees with the files the writer changes.
\<close>

definition patch_target :: "workspace \<Rightarrow> patch_fs \<Rightarrow> os_env \<Rightarrow> string list \<Rightarrow> string list \<Rightarrow> patch_file \<Rightarrow> string" where
  "patch_target ws fs env lexical base f =
     (case enforce_path ws fs (change_path f) of Inl e \<Rightarrow> [] | Inr p \<Rightarrow> writer_key env lexical base p)"

definition reads_as :: "patch_fs \<Rightarrow> os_env \<Rightarrow> string list \<Rightarrow> string list \<Rightarrow> (string \<Rightarrow> string option) \<Rightarrow> bool" where
  "reads_as fs env lexical base files \<longleftrightarrow> (\<forall>segs. list_all clean_segment segs \<longrightarrow>
     (let p = absolute_path segs; now = files (writer_key env lexical base p)
      in if fs_exists fs p then (\<forall>c. fs_read fs p = Inr c \<longrightarrow> now = Some c) else now = None))"

lemma planned_target:
  assumes "plan_for ws fs ow f p" and "reads_as fs env lexical base files"
  shows "patch_target ws fs env lexical base f = writer_key env lexical base (pw_absolute p)"
    and "files (writer_key env lexical base (pw_absolute p)) = pw_original p"
proof -
  from assms(1) have e: "enforce_path ws fs (change_path f) = Inr (pw_absolute p)"
    and c: "pw_original p = current_content fs (pw_absolute p)"
    and x: "fs_exists fs (pw_absolute p) \<longrightarrow> pw_original p \<noteq> None" unfolding plan_for_def by blast+
  from enforced_touchable [OF e] obtain segs where segs: "list_all clean_segment segs"
    "pw_absolute p = absolute_path (resolve_segments (ws_cwd ws) (ws_root ws) @ segs)" unfolding touchable_def by blast
  then have "list_all clean_segment (resolve_segments (ws_cwd ws) (ws_root ws) @ segs)" by (simp add: clean_resolve)
  with assms(2) segs(2) c x show "files (writer_key env lexical base (pw_absolute p)) = pw_original p"
    unfolding reads_as_def Let_def by (auto simp: current_content_def split: if_splits sum.splits)
  from e show "patch_target ws fs env lexical base f = writer_key env lexical base (pw_absolute p)"
    by (simp add: patch_target_def)
qed


text \<open>
  Claim C5. An apply that fails leaves every file of the workspace as it was, whenever it is
  cancelled and whichever system calls fail. It is stated for the contained writer on a system whose
  write calls take all the bytes they are given (\<open>taking_all\<close>;
  \<open>short_write_truncates\<close> in \<open>Patch_Findings\<close> shows the writer leaving a
  truncated file where they do not), for a patch none of whose targets is named like the writer's
  temporary files, and with the files read before the apply being those on disk. The exception is
  the writer's own error (\<open>WriterThrew\<close>), which the caller sees when the rollback
  itself failed.
\<close>

theorem failed_apply_changes_nothing:
  assumes "reads_as fs1 env lexical base (visible s)"
    and "list_all (\<lambda>f. \<not> is_temp_name (patch_target ws fs1 (taking_all env) lexical base f))
      (val_files (validate_patch ws fs policy diff))"
    and "apply_patch ws fs fs1 policy enabled aborted guard (contained_writer (taking_all env) lexical base) diff s
      = (Inl e, s')"
    and "\<And>m. e \<noteq> WriterThrew m"
  shows "visible s' = visible s"
  using assms(3)
proof (cases rule: apply_patch_cases)
  case (planned plans x ef)
  let ?key = "writer_key (taking_all env) lexical base"
  have reads: "reads_as fs1 (taking_all env) lexical base (visible s)"
    using assms(1) by (simp add: reads_as_def writer_key_taking_all)
  have "lasting_path (taking_all env) lexical base (pw_absolute p) \<and> visible s (?key (pw_absolute p)) = pw_original p"
    if "p \<in> set plans" for p
    using plan_writes_of [OF planned(4) that] planned_target [OF _ reads] assms(2)
    by (metis lasting_path_def list_all_iff)
  moreover have "commit_loop (contained_writer (taking_all env) lexical base) guard plans []
      \<lparr> ef_writer = s, ef_guards = 0 \<rparr> = (Inl e, ef)"
    using planned(5,7) by (auto simp: commit_def split: sum.splits)
  ultimately have "visible (ef_writer ef) = visible s"
    by (intro contained.commit_loop_fails [where ps = plans and done_plans = "[]" and e = e])
      (simp_all add: contained.plan_key_def assms(4))
  with planned(6) show ?thesis by simp
qed simp

lemma disk_reads: "reads_as (disk_fs disk_files) env [''w''] [''w''] (visible disk_state)"
  by (auto simp: reads_as_def disk_key disk_visible Let_def split: option.splits)

lemma disk_lasting:
  "list_all (\<lambda>f. \<not> is_temp_name (patch_target disk_ws (disk_fs disk_files) (taking_all disk_env) [''w''] [''w''] f))
     (val_files (validate_patch disk_ws (disk_fs disk_files) disk_policy sample_diff))"
  unfolding sample_validation by code_simp

text \<open>The witness cancels after the file has been written, so that it is rolled back.\<close>

theorem failed_apply_changes_nothing_witness:
  "visible (snd (disk_apply (\<lambda>n. n < 2))) ''/w/f'' = Some sample_text"
proof -
  let ?m = "CancelledError ''apply cancelled during write phase''"
  have "fst (disk_apply (\<lambda>n. n < 2)) = Inl ?m" unfolding disk_apply_runs by code_simp
  then have "apply_patch disk_ws (disk_fs disk_files) (disk_fs disk_files) disk_policy True False (\<lambda>n. n < 2)
      (contained_writer (taking_all disk_env) [''w''] [''w'']) sample_diff disk_state
    = (Inl ?m, snd (disk_apply (\<lambda>n. n < 2)))"
    by (simp add: disk_apply_def disk_writer_def prod_eq_iff)
  from failed_apply_changes_nothing [OF disk_reads disk_lasting this] show ?thesis
    by (simp add: disk_visible disk_files_def)
qed

text \<open>
  Claim C6. An apply that succeeds, under the conditions of the failed one (writes that take all
  their bytes, targets not named like temporary files, reads of what is on disk), has written the
  changes of the patch in order and nothing else: every change fitted the file as it was before the
  apply, its content is computed from that file, a file deleted is gone, and every other file is as
  before. Of several changes of one file only the last remains, for each is computed from the file
  before the apply (\<open>later_section_discards_earlier\<close> in \<open>Patch_Findings\<close>);
  for distinct files every change is there.
\<close>

theorem successful_apply_writes_patch:
  assumes "reads_as fs1 env lexical base (visible s)"
    and "list_all (\<lambda>f. \<not> is_temp_name (patch_target ws fs1 (taking_all env) lexical base f))
      (val_files (validate_patch ws fs policy diff))"
    and "apply_patch ws fs fs1 policy enabled aborted guard (contained_writer (taking_all env) lexical base) diff s
      = (Inr result, s')"
  shows "let files = val_files (validate_patch ws fs policy diff);
      target = patch_target ws fs1 (taking_all env) lexical base;
      outcome = (\<lambda>f. compute_file_content f (visible s (target f)) (ip_allow_overwrite policy))
    in changed_files result = map change_path files \<and> list_all (\<lambda>f. out_conflicts (outcome f) = []) files \<and>
       visible s' = foldl (\<lambda>v f. v(target f := out_content (outcome f))) (visible s) files"
  using assms(3)
proof (cases rule: apply_patch_cases)
  case (planned plans x ef)
  let ?files = "val_files (validate_patch ws fs policy diff)"
  let ?target = "patch_target ws fs1 (taking_all env) lexical base"
  let ?outcome = "\<lambda>f. compute_file_content f (visible s (?target f)) (ip_allow_overwrite policy)"
  let ?ok = "\<lambda>f p. contained.plan_key env lexical base p = ?target f \<and> written p = out_content (?outcome f) \<and>
    out_conflicts (?outcome f) = [] \<and> pw_path p = change_path f \<and> lasting_path (taking_all env) lexical base (pw_absolute p)"
  have reads: "reads_as fs1 (taking_all env) lexical base (visible s)"
    using assms(1) by (simp add: reads_as_def writer_key_taking_all)
  have "?ok f p" if "plan_for ws fs1 (ip_allow_overwrite policy) f p" "f \<in> set ?files" for f p
    using planned_target [OF that(1) reads] computed_written [OF that(1)] that assms(2)
    by (auto simp: plan_for_def Let_def contained.plan_key_def lasting_path_def list_all_iff)
  then have all: "list_all2 ?ok ?files plans"
    using list_all2_mono_strong [OF plan_writes_each [OF planned(4)], of ?ok] by blast
  obtain u where c: "commit_loop (contained_writer (taking_all env) lexical base) guard plans []
      \<lparr> ef_writer = s, ef_guards = 0 \<rparr> = (Inr u, ef)" and r: "result = summarize plans"
    using planned(5,7) by (auto simp: commit_def split: sum.splits)
  have "visible (ef_writer ef) = foldl (\<lambda>v p. v(contained.plan_key env lexical base p := written p)) (visible s) plans"
    using contained.commit_loop_succeeds [OF _ c] all by (fastforce simp: list_all2_conv_all_nth in_set_conv_nth)
  also have "\<dots> = foldl (\<lambda>v f. v(?target f := out_content (?outcome f))) (visible s) ?files"
    using all by (rule foldl_all2) auto
  finally have "visible s' = foldl (\<lambda>v f. v(?target f := out_content (?outcome f))) (visible s) ?files"
    using planned(6) by simp
  moreover have "changed_files result = map change_path ?files"
    using all r by (auto simp: summarize_def list_all2_conv_all_nth intro!: nth_equalityI)
  moreover have "list_all (\<lambda>f. out_conflicts (?outcome f) = []) ?files"
    using all by (auto simp: list_all2_conv_all_nth list_all_length)
  ultimately show ?thesis unfolding Let_def by blast
qed simp

theorem successful_apply_writes_patch_witness:
  "visible (snd (disk_apply (\<lambda>n. True))) ''/w/f'' = Some (diff_text [''a'', ''x'', ''b'', ''c'', ''e''])"
proof -
  let ?r = "summarize [sample_plan]"
  have "\<not> isl (fst (disk_apply (\<lambda>n. True)))" unfolding disk_apply_runs by code_simp
  then have "apply_patch disk_ws (disk_fs disk_files) (disk_fs disk_files) disk_policy True False (\<lambda>n. True)
      (contained_writer (taking_all disk_env) [''w''] [''w'']) sample_diff disk_state
    = (Inr ?r, snd (disk_apply (\<lambda>n. True)))"
    by (auto simp: disk_apply_runs disk_apply_def [symmetric] disk_writer_def [symmetric] split: prod.splits sum.splits)
  note P = successful_apply_writes_patch [OF disk_reads disk_lasting this]
  have t: "patch_target disk_ws (disk_fs disk_files) (taking_all disk_env) [''w''] [''w''] sample_file = ''/w/f''"
    by code_simp
  have c: "out_content (compute_file_content sample_file (Some sample_text) False) =
      Some (diff_text [''a'', ''x'', ''b'', ''c'', ''e''])" by code_simp
  have "disk_files ''/w/f'' = Some sample_text" "\<not> ip_allow_overwrite disk_policy" by code_simp+
  with P c show ?thesis by (simp add: sample_validation t disk_visible Let_def)
qed

end
