(* ===== verification/Patch_Findings.thy ===== *)
theory Patch_Findings
  imports Patch_Safety
begin

text \<open>
  Inputs on which the patch engine departs from what its comments and the unified-diff format say,
  each by evaluation of the model.
\<close>

definition modify_of :: "patch_hunk list \<Rightarrow> patch_file" where
  "modify_of hs = \<lparr> change_path = ''f'', change_kind = ChangeModify, change_hunks = hs, added_lines = 0, removed_lines = 0 \<rparr>"

definition hunk_of :: "nat \<Rightarrow> nat \<Rightarrow> nat \<Rightarrow> nat \<Rightarrow> string list \<Rightarrow> patch_hunk" where
  "hunk_of a b c d ls = \<lparr> old_start = a, old_lines = b, new_start = c, new_lines = d, hunk_lines = ls \<rparr>"

text \<open>
  A hunk that removes nothing names the line it goes after; it is put before that line instead, and
  so is the inverse of a deletion without context.
\<close>

lemma bare_insertion_lands_early:
  "out_content (compute_file_content (modify_of [hunk_of 2 0 3 1 [''+x'']]) (Some (diff_text [''a'', ''b'', ''c''])) False) =
     Some (diff_text [''a'', ''x'', ''b'', ''c''])"
  by code_simp

lemma bare_deletion_restored_elsewhere:
  "out_content (compute_file_content (modify_of [hunk_of 3 1 2 0 [''-c'']]) (Some (diff_text [''a'', ''b'', ''c'', ''d''])) False) =
     Some (diff_text [''a'', ''b'', ''d'']) \<and>
   out_content (compute_file_content (invert_file_change (modify_of [hunk_of 3 1 2 0 [''-c'']]))
     (Some (diff_text [''a'', ''b'', ''d''])) False) = Some (diff_text [''a'', ''c'', ''b'', ''d''])"
  by code_simp

text \<open>An insertion anchored past the end of the file is appended instead of being refused.\<close>

lemma insertion_past_end_appends:
  "compute_file_content (modify_of [hunk_of 9 0 9 1 [''+x'']]) (Some (diff_text [''a''])) False =
     \<lparr> out_content = Some (diff_text [''a'', ''x'']), out_conflicts = [] \<rparr>"
  by code_simp

text \<open>
  Realigned hunks get the old position as their new one, though an earlier hunk shifts it; so the
  inverse of the aligned patch does not fit the file the patch produced.
\<close>

lemma realigned_patch_not_invertible:
  "let file = diff_text [''p'', ''a'', ''b'', ''q'', ''c'', ''d''];
       given = modify_of [hunk_of 7 2 7 4 ['' a'', ''+x'', ''+y'', '' b''], hunk_of 9 2 11 1 ['' c'', ''-d'']];
       aligned = (case align_file_hunks given (Some file) of Some g \<Rightarrow> g | None \<Rightarrow> given);
       outcome = compute_file_content aligned (Some file) False
   in out_conflicts outcome = [] \<and>
      (case out_content outcome of None \<Rightarrow> False
       | Some c \<Rightarrow> out_conflicts (compute_file_content (invert_file_change aligned) (Some c) False) \<noteq> [])"
  by code_simp

text \<open>
  Two sections of one diff for the same file are both computed from the file as it was: the first
  one's change is lost though both are reported as applied.
\<close>

definition first_section :: patch_file where
  "first_section = modify_of [hunk_of 1 1 1 1 [''-a'', ''+A'']]"

definition second_section :: patch_file where
  "second_section = modify_of [hunk_of 5 1 5 1 [''-e'', ''+E'']]"

lemma later_section_discards_earlier:
  "let plans = plan_writes disk_ws (disk_fs disk_files) [first_section, second_section] False
   in case plans of Inl e \<Rightarrow> False
      | Inr ps \<Rightarrow> visible (ef_writer (snd (commit disk_writer (\<lambda>n. True) ps
            \<lparr> ef_writer = disk_state, ef_guards = 0 \<rparr>))) ''/w/f'' = Some (diff_text [''a'', ''b'', ''c'', ''d'', ''E''])"
proof -
  let ?s = "\<lparr> src_absolute = ''/w/f'', src_content = Some sample_text, src_hash = [], src_version = None \<rparr>"
  have "prepare_sources disk_ws (disk_fs disk_files) [first_section, second_section] = Inr [(''f'', ?s)]"
    using sample_sources by (simp add: prepare_sources_def first_section_def second_section_def modify_of_def sample_file_def)
  moreover have "rmap (\<lambda>f. rbind (required_source [(''f'', ?s)] (change_path f)) (\<lambda>s. plan_write f s False))
      [first_section, second_section] = Inr [
        sample_plan\<lparr> pw_new_content := Some (diff_text [''A'', ''b'', ''c'', ''d'', ''e'']) \<rparr>,
        sample_plan\<lparr> pw_new_content := Some (diff_text [''a'', ''b'', ''c'', ''d'', ''E'']) \<rparr>]"
    by code_simp
  ultimately have "plan_writes disk_ws (disk_fs disk_files) [first_section, second_section] False = Inr [
        sample_plan\<lparr> pw_new_content := Some (diff_text [''A'', ''b'', ''c'', ''d'', ''e'']) \<rparr>,
        sample_plan\<lparr> pw_new_content := Some (diff_text [''a'', ''b'', ''c'', ''d'', ''E'']) \<rparr>]"
    by (simp add: plan_writes_def)
  moreover have "visible (ef_writer (snd (commit disk_writer (\<lambda>n. True) [
        sample_plan\<lparr> pw_new_content := Some (diff_text [''A'', ''b'', ''c'', ''d'', ''e'']) \<rparr>,
        sample_plan\<lparr> pw_new_content := Some (diff_text [''a'', ''b'', ''c'', ''d'', ''E'']) \<rparr>]
      \<lparr> ef_writer = disk_state, ef_guards = 0 \<rparr>))) ''/w/f'' = Some (diff_text [''a'', ''b'', ''c'', ''d'', ''E''])"
    by code_simp
  ultimately show ?thesis by simp
qed

text \<open>A path with a tab, as a quoted header gives it, is rendered bare and read back as another path.\<close>

lemma rendered_tab_path_changes:
  "header_path (hd (render_header ((modify_of [])\<lparr> change_path := [CHR ''x'', CHR 0x09, CHR ''y''] \<rparr>))) ''--- '' = Inr ''x''"
  by (simp add: header_path_def render_header_def modify_of_def trim_def trim_cps_def cp_len_def cp_value_def
      is_js_ws_def strip_prefix_def dev_null_def starts_char_def starts_with_def Let_def)

text \<open>
  The count of bytes a write took is ignored: where the system takes only some, the file is replaced
  by a truncated one and the write reported as done.
\<close>

lemma short_write_truncates:
  "(case wr_write (contained_writer disk_env [''w''] [''w'']) ''/w/f'' ''abc'' disk_state of
     (r, s) \<Rightarrow> \<not> isl r \<and> visible s ''/w/f'' = Some ''a'')"
  by code_simp

text \<open>
  A name in the workspace that begins with two dots is accepted by the path policy and refused by
  the writer.
\<close>

lemma dotted_name_refused_by_writer:
  "resolve_within_workspace ''/'' ''/w'' ''..f'' = Inr ''/w/..f'' \<and>
   resolve_workspace_path disk_env [''w''] [''w''] ''/w/..f'' =
     Inl (Refused ''workspace writer path escaped the workspace root'')"
  by code_simp

end
