(* ===== verification/Patch_Preview.thy ===== *)
theory Patch_Preview
  imports Patch_Engine
begin

text \<open>
  What the model sees of a proposed patch (\<open>packages/keiko-tools/src/patch.ts\<close>): the preview text and
  the bounded result of \<open>propose_patch\<close>.
\<close>

subsection \<open>The preview\<close>

fun kind_text :: "change_kind \<Rightarrow> string" where
  "kind_text ChangeCreate = ''create''"
| "kind_text ChangeModify = ''modify''"
| "kind_text ChangeDelete = ''delete''"

fun code_text :: "rejection_code \<Rightarrow> string" where
  "code_text SizeLimit = ''size-limit''"
| "code_text BinaryPatch = ''binary''"
| "code_text PathUnsafe = ''path-unsafe''"
| "code_text PathDenied = ''path-denied''"
| "code_text LineLimit = ''line-limit''"
| "code_text FileLimit = ''file-limit''"
| "code_text Malformed = ''malformed''"

definition ellipsis :: string where
  "ellipsis = [CHR 0xE2, CHR 0x80, CHR 0xA6]"

definition em_dash :: string where
  "em_dash = [CHR 0xE2, CHR 0x80, CHR 0x94]"

definition render_file_line :: "patch_file \<Rightarrow> string" where
  "render_file_line f = kind_text (change_kind f) @ '' '' @ change_path f @ '' (+'' @ nat_digits (added_lines f) @
     '' -'' @ nat_digits (removed_lines f) @ '')''"

text \<open>\<open>None\<close> is the unbounded list.\<close>

definition listed_lines :: "string list \<Rightarrow> nat option \<Rightarrow> string \<Rightarrow> string list" where
  "listed_lines ls max_entries what = (case max_entries of
     None \<Rightarrow> ls
   | Some n \<Rightarrow> if length ls \<le> n then ls
       else take n ls @ [ellipsis @ '' '' @ nat_digits (length ls - n) @ '' more '' @ what])"

definition reason_line :: "patch_rejection \<Rightarrow> string" where
  "reason_line r = ''reject['' @ code_text (rej_code r) @ '']: '' @ rej_message r @
     (case rej_path r of None \<Rightarrow> [] | Some p \<Rightarrow> '' ('' @ p @ '')'')"

definition conflict_line :: "patch_conflict \<Rightarrow> string" where
  "conflict_line c = ''conflict: '' @ con_path c @ '' hunk#'' @ nat_digits (con_hunk c) @ '': '' @ con_reason c"

definition dry_run_header :: "patch_validation \<Rightarrow> string" where
  "dry_run_header v =
     (if val_ok v then ''PATCH OK '' @ em_dash @ '' '' @ nat_digits (length (val_files v)) @ '' file(s), '' @
        nat_digits (val_changed_lines v) @ '' changed line(s)''
      else ''PATCH REJECTED'')"

definition render_dry_run :: "patch_validation \<Rightarrow> nat option \<Rightarrow> string" where
  "render_dry_run v max_entries = join_lines
     (dry_run_header v # listed_lines (map render_file_line (val_files v)) max_entries ''file(s)'' @
      listed_lines (map reason_line (val_reasons v)) max_entries ''rejection(s)'' @
      listed_lines (map conflict_line (val_conflicts v)) max_entries ''conflict(s)'')"

subsection \<open>The result of a proposal\<close>

definition json_nat :: "nat \<Rightarrow> jtext" where
  "json_nat n = JNum (nat_digits n)"

definition json_file :: "patch_file \<Rightarrow> jtext" where
  "json_file f = JObj [(''path'', JStr (change_path f)), (''kind'', JStr (kind_text (change_kind f))),
     (''addedLines'', json_nat (added_lines f)), (''removedLines'', json_nat (removed_lines f))]"

definition json_rejection :: "patch_rejection \<Rightarrow> jtext" where
  "json_rejection r = JObj ([(''code'', JStr (code_text (rej_code r))), (''message'', JStr (rej_message r))] @
     (case rej_path r of None \<Rightarrow> [] | Some p \<Rightarrow> [(''path'', JStr p)]))"

definition json_conflict :: "patch_conflict \<Rightarrow> jtext" where
  "json_conflict c = JObj [(''path'', JStr (con_path c)), (''hunkIndex'', json_nat (con_hunk c)),
     (''reason'', JStr (con_reason c))]"

definition proposal_listed_entries :: nat where
  "proposal_listed_entries = 50"

definition max_string_bytes :: nat where
  "max_string_bytes = 65536"

definition proposal_summary :: "patch_validation \<Rightarrow> nat \<Rightarrow> jtext" where
  "proposal_summary v listed = JObj [
     (''ok'', JBool (val_ok v)), (''totalBytes'', json_nat (val_bytes v)),
     (''totalChangedLines'', json_nat (val_changed_lines v)), (''fileCount'', json_nat (length (val_files v))),
     (''files'', JArr (map json_file (take listed (val_files v)))),
     (''reasonCount'', json_nat (length (val_reasons v))),
     (''reasons'', JArr (map json_rejection (take listed (val_reasons v)))),
     (''conflictCount'', json_nat (length (val_conflicts v))),
     (''conflicts'', JArr (map json_conflict (take listed (val_conflicts v))))]"

definition proposal_json :: "patch_validation \<Rightarrow> nat \<Rightarrow> string" where
  "proposal_json v listed = stringify (JObj [(''validation'', proposal_summary v listed),
     (''preview'', JStr (render_dry_run v (Some listed)))])"

definition render_patch_proposal :: "patch_validation \<Rightarrow> string" where
  "render_patch_proposal v =
     (let full = proposal_json v proposal_listed_entries
      in if length full \<le> max_string_bytes then full else proposal_json v 0)"

subsection \<open>The ceiling\<close>

lemma quoted_length: "length (json_quote s) \<le> 6 * length s + 2"
proof -
  have "length (json_escape c) \<le> 6" for c by (simp add: json_escape_def Let_def)
  then have "length (concat (map json_escape s)) \<le> 6 * length s"
    by (induction s) (auto simp: add_mono order_trans)
  then show ?thesis by (simp add: json_quote_def dquote_def)
qed

lemma digits_short: "n < 10 ^ Suc k \<Longrightarrow> length (nat_digits n) \<le> Suc k"
proof (induction k arbitrary: n)
  case 0
  then show ?case by (subst nat_digits.simps) simp
next
  case (Suc k)
  show ?case
  proof (cases "n < 10")
    case True
    then show ?thesis by (subst nat_digits.simps) simp
  next
    case False
    have "n div 10 < 10 ^ Suc k" using Suc.prems by (simp add: less_mult_imp_div_less)
    from Suc.IH [OF this] False show ?thesis by (subst nat_digits.simps) simp
  qed
qed

lemma listed_none:
  assumes "length ls < 10 ^ 16"
  shows "length (listed_lines ls (Some 0) what) \<le> 1"
    and "(\<Sum>l\<leftarrow>listed_lines ls (Some 0) what. length l) \<le> 26 + length what"
  using digits_short [of "length ls" 15] assms by (auto simp: listed_lines_def ellipsis_def)

lemma counts_preview_short:
  assumes "length (val_files v) < 10 ^ 16" "length (val_reasons v) < 10 ^ 16" "length (val_conflicts v) < 10 ^ 16"
    and "val_changed_lines v < 10 ^ 16"
  shows "length (render_dry_run v (Some 0)) \<le> 250"
proof -
  have h: "length (dry_run_header v) \<le> 72"
    using digits_short [of "length (val_files v)" 15] digits_short [of "val_changed_lines v" 15] assms
    by (auto simp: dry_run_header_def em_dash_def)
  note l = listed_none [of "map render_file_line (val_files v)" "''file(s)''"]
    listed_none [of "map reason_line (val_reasons v)" "''rejection(s)''"]
    listed_none [of "map conflict_line (val_conflicts v)" "''conflict(s)''"]
  show ?thesis
    using h l assms by (simp add: render_dry_run_def join_lines_def length_join newline_def)
qed

text \<open>
  The result of proposing a patch always fits the string ceiling of the tool catalog,
  whatever the paths and reasons are: with counts in the range of exact integers, the reduced result
  is small enough whenever the full one is not.
\<close>

theorem proposal_fits_ceiling:
  assumes "length (val_files v) < 10 ^ 16" "length (val_reasons v) < 10 ^ 16" "length (val_conflicts v) < 10 ^ 16"
    and "val_changed_lines v < 10 ^ 16" and "val_bytes v < 10 ^ 16"
  shows "length (render_patch_proposal v) \<le> max_string_bytes"
proof (cases "length (proposal_json v proposal_listed_entries) \<le> max_string_bytes")
  case True
  then show ?thesis by (simp add: render_patch_proposal_def)
next
  case False
  have n: "length (nat_digits (length (val_files v))) \<le> 16" "length (nat_digits (length (val_reasons v))) \<le> 16"
    "length (nat_digits (length (val_conflicts v))) \<le> 16" "length (nat_digits (val_changed_lines v)) \<le> 16"
    "length (nat_digits (val_bytes v)) \<le> 16"
    using assms digits_short [of _ 15] by simp_all
  have "length (json_quote (render_dry_run v (Some 0))) \<le> 1502"
    using quoted_length [of "render_dry_run v (Some 0)"] counts_preview_short [OF assms(1-4)] by simp
  moreover have "length (stringify (proposal_summary v 0)) \<le> 500"
    using n by (simp add: proposal_summary_def json_nat_def json_quote_def dquote_def json_escape_def Let_def)
  ultimately have "length (proposal_json v 0) \<le> 2100"
    by (simp add: proposal_json_def json_quote_def [of "''validation''"] json_quote_def [of "''preview''"] dquote_def
        json_escape_def Let_def)
  with False show ?thesis by (simp add: render_patch_proposal_def max_string_bytes_def Let_def)
qed

text \<open>The witness has too many long rejections to list, so that the reduced result is taken.\<close>

definition long_validation :: patch_validation where
  "long_validation = \<lparr> val_ok = False, val_files = [], val_changed_lines = 0, val_bytes = 9, val_normalized = None,
     val_reasons = [path_rejection (replicate 65536 (CHR ''x'')) PathDenied ''denied''], val_conflicts = [] \<rparr>"

theorem proposal_fits_ceiling_witness:
  "length (render_patch_proposal long_validation) \<le> max_string_bytes"
  by (rule proposal_fits_ceiling) (simp_all add: long_validation_def)

end
