(* ===== verification/Circuit_Breaker.thy ===== *)
theory Circuit_Breaker
  imports Complex_Main Prelude
begin

text \<open>
  The circuit breaker of the model gateway (\<open>keiko-model-gateway/src/resilience.ts\<close>, class
  \<open>CircuitBreaker\<close>): its state, the admissions it hands out, and waiting for one. Times are rational
  milliseconds; an operation runs at one reading \<open>now\<close> of the clock. The lines it logs are kept in the
  state without the model's name and the correlation id.
\<close>

subsection \<open>Data\<close>

text \<open>A number of milliseconds that may be the runtime's positive infinity.\<close>

datatype millis = Finite rat | Infinite

instantiation millis :: linorder
begin

fun less_eq_millis :: "millis \<Rightarrow> millis \<Rightarrow> bool" where
  "Finite a \<le> Finite b \<longleftrightarrow> a \<le> b"
| "Infinite \<le> Finite b \<longleftrightarrow> False"
| "a \<le> Infinite \<longleftrightarrow> True"

definition less_millis :: "millis \<Rightarrow> millis \<Rightarrow> bool" where
  "a < b \<longleftrightarrow> a \<le> b \<and> \<not> b \<le> (a :: millis)"

instance
proof
  fix x y z :: millis
  show "x < y \<longleftrightarrow> x \<le> y \<and> \<not> y \<le> x" by (rule less_millis_def)
  show "x \<le> x" by (cases x) auto
  show "x \<le> y \<Longrightarrow> y \<le> z \<Longrightarrow> x \<le> z" by (cases x; cases y; cases z) auto
  show "x \<le> y \<Longrightarrow> y \<le> x \<Longrightarrow> x = y" by (cases x; cases y) auto
  show "x \<le> y \<or> y \<le> x" by (cases x; cases y) auto
qed

end

lemma finite_less [simp]: "Finite a < Finite b \<longleftrightarrow> a < b" "Finite a < Infinite" "\<not> Infinite < m"
  by (auto simp: less_millis_def)

definition max_timer_delay_ms :: rat where
  "max_timer_delay_ms = 2147483647"

datatype circuit_state = Closed | Open | HalfOpen

record circuit_config =
  failure_threshold :: int
  cooldown_ms :: rat
  half_open_probes :: int

datatype refusal_reason = InCooldown | SaturatedProbes

text \<open>
  The log lines with their fields: a refusal (whether it is a warning, state, reason, probes in flight,
  refusals so far) and the three transitions, each ending with the refusals since the one before.
\<close>

datatype circuit_event =
    RefusedCall bool circuit_state refusal_reason int nat
  | HalfOpened int nat
  | Opened circuit_state int rat nat
  | Recovered circuit_state nat

record breaker =
  br_state :: circuit_state
  br_generation :: nat
  br_failures :: int
  br_opened_at :: "rat option"
  br_remaining :: int
  br_in_flight :: int
  br_cooldown_until :: rat
  br_rejected :: nat
  br_log :: "circuit_event list"

definition new_breaker :: breaker where
  "new_breaker = \<lparr> br_state = Closed, br_generation = 0, br_failures = 0, br_opened_at = None,
     br_remaining = 0, br_in_flight = 0, br_cooldown_until = 0, br_rejected = 0, br_log = [] \<rparr>"

record admission =
  ad_generation :: nat
  ad_half_open :: bool
  ad_settled :: bool

datatype settlement = ProviderSuccess | ProviderFailure | NonProviderFault

text \<open>What of an error the breaker looks at: whether it is a retryable provider error, and its cooldown.\<close>

record provider_fault =
  pf_provider :: bool
  pf_retryable :: bool
  pf_retry_after :: "millis option"

subsection \<open>Refusals\<close>

definition write_log :: "circuit_event \<Rightarrow> breaker \<Rightarrow> breaker" where
  "write_log e b = b\<lparr> br_log := br_log b @ [e] \<rparr>"

text \<open>\<open>debug\<close> says whether the sink takes debug lines; only the first refusal is a warning.\<close>

definition note_rejection :: "bool \<Rightarrow> circuit_state \<Rightarrow> refusal_reason \<Rightarrow> breaker \<Rightarrow> breaker" where
  "note_rejection debug st reason b =
     (let b1 = b\<lparr> br_rejected := br_rejected b + 1 \<rparr>; first = (br_rejected b1 = 1)
      in if \<not> first \<and> \<not> debug then b1
         else write_log (RefusedCall first st reason (br_in_flight b1) (br_rejected b1)) b1)"

definition take_rejected_count :: "breaker \<Rightarrow> nat \<times> breaker" where
  "take_rejected_count b = (br_rejected b, b\<lparr> br_rejected := 0 \<rparr>)"

subsection \<open>Transitions\<close>

definition open_circuit :: "circuit_config \<Rightarrow> rat \<Rightarrow> breaker \<Rightarrow> breaker" where
  "open_circuit cfg now b =
     (let b1 = b\<lparr> br_state := Open, br_generation := br_generation b + 1, br_opened_at := Some now,
            br_remaining := 0, br_in_flight := 0 \<rparr>;
          t = take_rejected_count b1
      in write_log (Opened (br_state b) (br_failures b1) (cooldown_ms cfg) (fst t)) (snd t))"

definition close_circuit :: "breaker \<Rightarrow> breaker" where
  "close_circuit b =
     (let b1 = b\<lparr> br_state := Closed, br_generation := br_generation b + 1, br_failures := 0,
            br_opened_at := None, br_remaining := 0, br_in_flight := 0 \<rparr>;
          t = take_rejected_count b1
      in write_log (Recovered (br_state b) (fst t)) (snd t))"

definition cooled_down :: "circuit_config \<Rightarrow> rat \<Rightarrow> breaker \<Rightarrow> bool" where
  "cooled_down cfg now b \<longleftrightarrow>
     (case br_opened_at b of None \<Rightarrow> False | Some t \<Rightarrow> cooldown_ms cfg \<le> now - t)"

text \<open>An operation that refuses yields the message of its \<open>CircuitOpenError\<close>, as the state it names.\<close>

definition enter_half_open_or_reject ::
  "circuit_config \<Rightarrow> bool \<Rightarrow> rat \<Rightarrow> breaker \<Rightarrow> (circuit_state + unit) \<times> breaker" where
  "enter_half_open_or_reject cfg debug now b =
     (if cooled_down cfg now b
      then let b1 = b\<lparr> br_state := HalfOpen, br_generation := br_generation b + 1,
                  br_remaining := half_open_probes cfg, br_in_flight := 0 \<rparr>;
               t = take_rejected_count b1
           in (Inr (), write_log (HalfOpened (half_open_probes cfg) (fst t)) (snd t))
      else (Inl Open, note_rejection debug Open InCooldown b))"

definition admit_probe_or_reject ::
  "circuit_config \<Rightarrow> bool \<Rightarrow> breaker \<Rightarrow> (circuit_state + unit) \<times> breaker" where
  "admit_probe_or_reject cfg debug b =
     (if br_in_flight b \<ge> half_open_probes cfg then (Inl HalfOpen, note_rejection debug HalfOpen SaturatedProbes b)
      else (Inr (), b\<lparr> br_in_flight := br_in_flight b + 1 \<rparr>))"

definition create_admission :: "breaker \<Rightarrow> admission" where
  "create_admission b = \<lparr> ad_generation = br_generation b, ad_half_open = (br_state b = HalfOpen), ad_settled = False \<rparr>"

definition assert_allowed ::
  "circuit_config \<Rightarrow> bool \<Rightarrow> rat \<Rightarrow> breaker \<Rightarrow> (circuit_state + admission) \<times> breaker" where
  "assert_allowed cfg debug now b =
     (case (if br_state b = Open then enter_half_open_or_reject cfg debug now b else (Inr (), b)) of
        (Inl e, b1) \<Rightarrow> (Inl e, b1)
      | (Inr u, b1) \<Rightarrow>
          (case (if br_state b1 = HalfOpen then admit_probe_or_reject cfg debug b1 else (Inr (), b1)) of
             (Inl e, b2) \<Rightarrow> (Inl e, b2)
           | (Inr v, b2) \<Rightarrow> (Inr (create_admission b2), b2)))"

subsection \<open>Settling an admission\<close>

definition record_success :: "breaker \<Rightarrow> breaker" where
  "record_success b =
     (if br_state b = HalfOpen
      then let b1 = b\<lparr> br_in_flight := max 0 (br_in_flight b - 1), br_remaining := br_remaining b - 1 \<rparr>
           in if br_remaining b1 \<le> 0 then close_circuit b1 else b1
      else b\<lparr> br_failures := 0 \<rparr>)"

definition record_failure :: "circuit_config \<Rightarrow> rat \<Rightarrow> breaker \<Rightarrow> breaker" where
  "record_failure cfg now b =
     (if br_state b = HalfOpen then open_circuit cfg now (b\<lparr> br_in_flight := max 0 (br_in_flight b - 1) \<rparr>)
      else let b1 = b\<lparr> br_failures := br_failures b + 1 \<rparr>
           in if br_failures b1 \<ge> failure_threshold cfg then open_circuit cfg now b1 else b1)"

definition record_non_provider_fault :: "breaker \<Rightarrow> breaker" where
  "record_non_provider_fault b =
     (if br_state b \<noteq> HalfOpen then b else b\<lparr> br_in_flight := max 0 (br_in_flight b - 1) \<rparr>)"

definition announce_provider_cooldown :: "rat \<Rightarrow> settlement \<Rightarrow> provider_fault \<Rightarrow> breaker \<Rightarrow> breaker" where
  "announce_provider_cooldown now outcome e b =
     (if outcome \<noteq> ProviderFailure \<or> \<not> pf_provider e \<or> \<not> pf_retryable e then b
      else case pf_retry_after e of
        Some (Finite c) \<Rightarrow>
          if c \<le> 0 then b
          else b\<lparr> br_cooldown_until := max (br_cooldown_until b) (now + min c max_timer_delay_ms) \<rparr>
      | _ \<Rightarrow> b)"

definition can_extend_closed_generation_outage :: "admission \<Rightarrow> breaker \<Rightarrow> bool" where
  "can_extend_closed_generation_outage a b \<longleftrightarrow>
     \<not> ad_half_open a \<and> br_state b = Open \<and> br_generation b = ad_generation a + 1"

definition admission_state :: "breaker \<Rightarrow> circuit_state \<times> rat option \<times> int \<times> rat" where
  "admission_state b = (br_state b, br_opened_at b, br_in_flight b, br_cooldown_until b)"

text \<open>The flag says whether the waiting calls are notified.\<close>

definition settle_admission ::
  "circuit_config \<Rightarrow> rat \<Rightarrow> admission \<Rightarrow> settlement \<Rightarrow> provider_fault \<Rightarrow> breaker \<Rightarrow> breaker \<times> bool" where
  "settle_admission cfg now a outcome e b =
     (let current = (ad_generation a = br_generation b)
      in if \<not> current \<and> \<not> can_extend_closed_generation_outage a b then (b, False)
         else
           let b1 = announce_provider_cooldown now outcome e b;
               b2 = (if \<not> current then b1
                     else case outcome of
                       ProviderSuccess \<Rightarrow> record_success b1
                     | ProviderFailure \<Rightarrow> record_failure cfg now b1
                     | NonProviderFault \<Rightarrow> record_non_provider_fault b1)
           in (b2, admission_state b \<noteq> admission_state b2))"

definition settle ::
  "circuit_config \<Rightarrow> rat \<Rightarrow> settlement \<Rightarrow> provider_fault \<Rightarrow> admission \<Rightarrow> breaker \<Rightarrow> admission \<times> breaker \<times> bool" where
  "settle cfg now outcome e a b =
     (if ad_settled a then (a, b, False)
      else (a\<lparr> ad_settled := True \<rparr>, settle_admission cfg now a outcome e b))"

definition breaker_status :: "breaker \<Rightarrow> circuit_state \<times> int \<times> rat option" where
  "breaker_status b = (br_state b, br_failures b, br_opened_at b)"

subsection \<open>Waiting for an admission\<close>

datatype wait_reason = ProviderCooldown | CircuitCooldown | ProbeSaturated

definition blocked_wait ::
  "circuit_config \<Rightarrow> rat \<Rightarrow> bool \<Rightarrow> rat \<Rightarrow> breaker \<Rightarrow> (wait_reason \<times> millis) option" where
  "blocked_wait cfg now allow_circuit_wait jitter b =
     (let cooldown = br_cooldown_until b - now in
      if cooldown > 0
      then Some (ProviderCooldown, Finite (min (cooldown + max 1 jitter) max_timer_delay_ms))
      else if \<not> allow_circuit_wait then None
      else
        let left = (case br_opened_at b of None \<Rightarrow> 0 | Some t \<Rightarrow> cooldown_ms cfg - (now - t))
        in if br_state b = Open \<and> br_opened_at b \<noteq> None \<and> left > 0 then Some (CircuitCooldown, Finite left)
           else if br_state b = HalfOpen \<and> br_in_flight b \<ge> half_open_probes cfg
           then Some (ProbeSaturated, Infinite) else None)"

record wait_options =
  wo_remaining :: millis
  wo_previous_retry_after :: bool
  wo_outage_window :: bool

datatype wait_outcome =
    WaitCancelled
  | BudgetExhausted
  | AdmissionRefused wait_reason
  | CircuitRefused circuit_state
  | Admitted admission millis
  | Waits wait_reason millis

definition minus_elapsed :: "millis \<Rightarrow> rat \<Rightarrow> millis" where
  "minus_elapsed m e = (case m of Infinite \<Rightarrow> Infinite | Finite r \<Rightarrow> Finite (max 0 (r - e)))"

definition wait_recovering :: "wait_options \<Rightarrow> rat \<Rightarrow> breaker \<Rightarrow> bool" where
  "wait_recovering opts start b \<longleftrightarrow>
     br_cooldown_until b > start \<or> wo_outage_window opts \<or> wo_previous_retry_after opts"

text \<open>
  One round of \<open>waitForAdmission\<close>, at time \<open>now\<close> for a call that began to wait at \<open>start\<close>; a round that
  waits is followed by another when the breaker changes or the timer fires.
\<close>

definition wait_advance ::
  "circuit_config \<Rightarrow> bool \<Rightarrow> wait_options \<Rightarrow> bool \<Rightarrow> rat \<Rightarrow> bool \<Rightarrow> rat \<Rightarrow> rat \<Rightarrow> breaker \<Rightarrow> wait_outcome \<times> breaker" where
  "wait_advance cfg debug opts recovering start aborted jitter now b =
     (if aborted then (WaitCancelled, b)
      else
        let remaining = minus_elapsed (wo_remaining opts) (now - start);
            blocked = blocked_wait cfg now recovering jitter b
        in if remaining \<le> Finite 0
           then (case blocked of None \<Rightarrow> BudgetExhausted | Some (r, d) \<Rightarrow> AdmissionRefused r, b)
           else case blocked of
             None \<Rightarrow>
               (case assert_allowed cfg debug now b of
                  (Inl e, b1) \<Rightarrow> (CircuitRefused e, b1)
                | (Inr a, b1) \<Rightarrow> (Admitted a remaining, b1))
           | Some (r, d) \<Rightarrow>
               if d \<ge> remaining \<and> r \<noteq> ProbeSaturated then (AdmissionRefused r, b)
               else (Waits r (min d remaining), b))"

end
