(* ===== verification/Circuit_Invariant.thy ===== *)
theory Circuit_Invariant
  imports Circuit_Breaker
begin

text \<open>
  The breaker together with the admissions its callers hold, under any sequence of requests and
  settlements at any times: its invariant, what a refusal and an outage mean, and recovery.
\<close>

subsection \<open>The breaker and its callers\<close>

text \<open>\<open>gt_refused\<close> counts the requests that were refused.\<close>

record gate =
  gt_breaker :: breaker
  gt_admissions :: "admission list"
  gt_refused :: nat

definition new_gate :: gate where
  "new_gate = \<lparr> gt_breaker = new_breaker, gt_admissions = [], gt_refused = 0 \<rparr>"

datatype gate_action = Request bool | Settle nat settlement provider_fault

definition request :: "circuit_config \<Rightarrow> bool \<Rightarrow> rat \<Rightarrow> gate \<Rightarrow> gate" where
  "request cfg debug now g = (case assert_allowed cfg debug now (gt_breaker g) of
     (Inl e, b) \<Rightarrow> g\<lparr> gt_breaker := b, gt_refused := gt_refused g + 1 \<rparr>
   | (Inr a, b) \<Rightarrow> g\<lparr> gt_breaker := b, gt_admissions := gt_admissions g @ [a] \<rparr>)"

definition settle_at :: "circuit_config \<Rightarrow> rat \<Rightarrow> nat \<Rightarrow> settlement \<Rightarrow> provider_fault \<Rightarrow> gate \<Rightarrow> gate" where
  "settle_at cfg now i outcome e g =
     (if i < length (gt_admissions g)
      then let r = settle cfg now outcome e (gt_admissions g ! i) (gt_breaker g)
           in g\<lparr> gt_breaker := fst (snd r), gt_admissions := (gt_admissions g)[i := fst r] \<rparr>
      else g)"

fun gate_op :: "circuit_config \<Rightarrow> rat \<times> gate_action \<Rightarrow> gate \<Rightarrow> gate" where
  "gate_op cfg (now, Request debug) g = request cfg debug now g"
| "gate_op cfg (now, Settle i outcome e) g = settle_at cfg now i outcome e g"

subsection \<open>What each operation does to the breaker\<close>

lemma note_rejection_simps [simp]:
  "br_state (note_rejection debug st reason b) = br_state b"
  "br_generation (note_rejection debug st reason b) = br_generation b"
  "br_failures (note_rejection debug st reason b) = br_failures b"
  "br_opened_at (note_rejection debug st reason b) = br_opened_at b"
  "br_remaining (note_rejection debug st reason b) = br_remaining b"
  "br_in_flight (note_rejection debug st reason b) = br_in_flight b"
  "br_cooldown_until (note_rejection debug st reason b) = br_cooldown_until b"
  "br_rejected (note_rejection debug st reason b) = br_rejected b + 1"
  by (simp_all add: note_rejection_def write_log_def Let_def)

lemma open_circuit_simps [simp]:
  "br_state (open_circuit cfg now b) = Open" "br_generation (open_circuit cfg now b) = br_generation b + 1"
  "br_failures (open_circuit cfg now b) = br_failures b" "br_opened_at (open_circuit cfg now b) = Some now"
  "br_in_flight (open_circuit cfg now b) = 0" "br_rejected (open_circuit cfg now b) = 0"
  "br_cooldown_until (open_circuit cfg now b) = br_cooldown_until b"
  by (simp_all add: open_circuit_def write_log_def take_rejected_count_def Let_def)

lemma close_circuit_simps [simp]:
  "br_state (close_circuit b) = Closed" "br_generation (close_circuit b) = br_generation b + 1"
  "br_failures (close_circuit b) = 0" "br_opened_at (close_circuit b) = None"
  "br_in_flight (close_circuit b) = 0" "br_rejected (close_circuit b) = 0"
  by (simp_all add: close_circuit_def write_log_def take_rejected_count_def Let_def)

lemma announce_simps [simp]:
  "br_state (announce_provider_cooldown now outcome e b) = br_state b"
  "br_generation (announce_provider_cooldown now outcome e b) = br_generation b"
  "br_failures (announce_provider_cooldown now outcome e b) = br_failures b"
  "br_opened_at (announce_provider_cooldown now outcome e b) = br_opened_at b"
  "br_remaining (announce_provider_cooldown now outcome e b) = br_remaining b"
  "br_in_flight (announce_provider_cooldown now outcome e b) = br_in_flight b"
  "br_rejected (announce_provider_cooldown now outcome e b) = br_rejected b"
  "br_log (announce_provider_cooldown now outcome e b) = br_log b"
  by (auto simp: announce_provider_cooldown_def split: option.splits millis.splits)

text \<open>The refusals a log reports.\<close>

fun reported :: "circuit_event \<Rightarrow> nat" where
  "reported (RefusedCall first st reason probes n) = 0"
| "reported (HalfOpened probes n) = n"
| "reported (Opened st failures cooldown n) = n"
| "reported (Recovered st n) = n"

definition accounted :: "breaker \<Rightarrow> nat" where
  "accounted b = br_rejected b + (\<Sum>e\<leftarrow>br_log b. reported e)"

lemma accounted_simps [simp]:
  "accounted (note_rejection debug st reason b) = accounted b + 1"
  "accounted (open_circuit cfg now b) = accounted b" "accounted (close_circuit b) = accounted b"
  "accounted (announce_provider_cooldown now outcome e b) = accounted b"
  "accounted (b\<lparr> br_in_flight := n \<rparr>) = accounted b" "accounted (b\<lparr> br_remaining := n \<rparr>) = accounted b"
  "accounted (b\<lparr> br_failures := n \<rparr>) = accounted b"
  by (simp_all add: accounted_def note_rejection_def open_circuit_def close_circuit_def write_log_def
      take_rejected_count_def Let_def)

lemma assert_allowed_cases:
  assumes "assert_allowed cfg debug now b = (r, b')"
  obtains (refused) st reason where "r = Inl st" and "br_state b \<noteq> Closed"
      and "b' = note_rejection debug st reason b" and "br_state b = Open \<longrightarrow> \<not> cooled_down cfg now b"
      and "br_state b = HalfOpen \<longrightarrow> half_open_probes cfg \<le> br_in_flight b"
    | (dead_end) "r = Inl HalfOpen" and "br_state b = Open" and "half_open_probes cfg \<le> 0"
      and "br_state b' = HalfOpen" and "br_generation b' = br_generation b + 1" and "br_in_flight b' = 0"
      and "br_failures b' = br_failures b" and "br_opened_at b' = br_opened_at b" and "br_opened_at b \<noteq> None"
      and "br_remaining b' = half_open_probes cfg" and "accounted b' = accounted b + 1"
    | (passes) "r = Inr \<lparr> ad_generation = br_generation b, ad_half_open = False, ad_settled = False \<rparr>"
      and "br_state b = Closed" and "b' = b"
    | (probes) "r = Inr \<lparr> ad_generation = br_generation b, ad_half_open = True, ad_settled = False \<rparr>"
      and "br_state b = HalfOpen" and "br_in_flight b < half_open_probes cfg"
      and "b' = b\<lparr> br_in_flight := br_in_flight b + 1 \<rparr>"
    | (enters) "r = Inr \<lparr> ad_generation = br_generation b + 1, ad_half_open = True, ad_settled = False \<rparr>"
      and "br_state b = Open" and "cooled_down cfg now b" and "0 < half_open_probes cfg"
      and "br_state b' = HalfOpen" and "br_generation b' = br_generation b + 1" and "br_in_flight b' = 1"
      and "br_failures b' = br_failures b" and "br_opened_at b' = br_opened_at b" and "br_opened_at b \<noteq> None"
      and "br_remaining b' = half_open_probes cfg" and "accounted b' = accounted b"
proof -
  have unpack: "r = x \<and> b' = y" if "assert_allowed cfg debug now b = (x, y)" for x y
    using that assms by simp
  show thesis
  proof (cases "br_state b")
    case Closed
    then have "assert_allowed cfg debug now b =
        (Inr \<lparr> ad_generation = br_generation b, ad_half_open = False, ad_settled = False \<rparr>, b)"
      by (simp add: assert_allowed_def create_admission_def)
    from unpack [OF this] Closed show thesis by (intro passes) auto
  next
    case HalfOpen
    show thesis
    proof (cases "half_open_probes cfg \<le> br_in_flight b")
      case True
      with HalfOpen have "assert_allowed cfg debug now b = (Inl HalfOpen, note_rejection debug HalfOpen SaturatedProbes b)"
        by (simp add: assert_allowed_def admit_probe_or_reject_def)
      from unpack [OF this] HalfOpen True show thesis by (intro refused) auto
    next
      case False
      with HalfOpen have "assert_allowed cfg debug now b =
          (Inr \<lparr> ad_generation = br_generation b, ad_half_open = True, ad_settled = False \<rparr>,
           b\<lparr> br_in_flight := br_in_flight b + 1 \<rparr>)"
        by (simp add: assert_allowed_def admit_probe_or_reject_def create_admission_def)
      from unpack [OF this] HalfOpen False show thesis by (intro probes) auto
    qed
  next
    case Open
    show thesis
    proof (cases "cooled_down cfg now b")
      case False
      with Open have "assert_allowed cfg debug now b = (Inl Open, note_rejection debug Open InCooldown b)"
        by (simp add: assert_allowed_def enter_half_open_or_reject_def)
      from unpack [OF this] Open False show thesis by (intro refused) auto
    next
      case True
      then have some: "br_opened_at b \<noteq> None" by (auto simp: cooled_down_def split: option.splits)
      define h where "h = snd (enter_half_open_or_reject cfg debug now b)"
      have h: "enter_half_open_or_reject cfg debug now b = (Inr (), h)" "br_state h = HalfOpen"
        "br_generation h = br_generation b + 1" "br_in_flight h = 0" "br_failures h = br_failures b"
        "br_opened_at h = br_opened_at b" "br_remaining h = half_open_probes cfg" "accounted h = accounted b"
        using True by (simp_all add: h_def enter_half_open_or_reject_def write_log_def take_rejected_count_def
            accounted_def Let_def)
      show thesis
      proof (cases "half_open_probes cfg \<le> 0")
        case le: True
        with Open h have "assert_allowed cfg debug now b = (Inl HalfOpen, note_rejection debug HalfOpen SaturatedProbes h)"
          by (simp add: assert_allowed_def admit_probe_or_reject_def)
        from unpack [OF this] Open le some h show thesis by (intro dead_end) auto
      next
        case gt: False
        with Open h have "assert_allowed cfg debug now b =
            (Inr \<lparr> ad_generation = br_generation b + 1, ad_half_open = True, ad_settled = False \<rparr>,
             h\<lparr> br_in_flight := 1 \<rparr>)"
          by (simp add: assert_allowed_def admit_probe_or_reject_def create_admission_def)
        from unpack [OF this] Open True gt some h show thesis by (intro enters) auto
      qed
    qed
  qed
qed

text \<open>What settling an unsettled admission does, as one of nine ways.\<close>

lemma settle_cases:
  assumes "settle_admission cfg now a outcome e b = (b', notify)"
  obtains (stale) "ad_generation a \<noteq> br_generation b" and "b' = b"
    | (extends) "ad_generation a \<noteq> br_generation b" and "br_state b = Open"
      and "b' = announce_provider_cooldown now outcome e b"
    | (counts_success) "ad_generation a = br_generation b" and "br_state b \<noteq> HalfOpen" and "outcome = ProviderSuccess"
      and "b' = b\<lparr> br_failures := 0 \<rparr>"
    | (probe_success) "ad_generation a = br_generation b" and "br_state b = HalfOpen" and "outcome = ProviderSuccess"
      and "1 < br_remaining b"
      and "b' = b\<lparr> br_in_flight := max 0 (br_in_flight b - 1), br_remaining := br_remaining b - 1 \<rparr>"
    | (recovers) b1 where "ad_generation a = br_generation b" and "br_state b = HalfOpen" and "outcome = ProviderSuccess"
      and "br_remaining b \<le> 1" and "b' = close_circuit b1" and "br_generation b1 = br_generation b"
      and "accounted b1 = accounted b"
    | (counts_failure) b1 where "ad_generation a = br_generation b" and "br_state b \<noteq> HalfOpen" and "outcome = ProviderFailure"
      and "br_failures b + 1 < failure_threshold cfg"
      and "b1 = announce_provider_cooldown now outcome e b" and "b' = b1\<lparr> br_failures := br_failures b + 1 \<rparr>"
    | (opens) b1 where "ad_generation a = br_generation b" and "outcome = ProviderFailure"
      and "br_state b \<noteq> HalfOpen \<longrightarrow> failure_threshold cfg \<le> br_failures b + 1"
      and "b' = open_circuit cfg now b1" and "br_generation b1 = br_generation b"
      and "accounted b1 = accounted b" and "br_failures b \<le> br_failures b1"
    | (fault_probe) "ad_generation a = br_generation b" and "br_state b = HalfOpen" and "outcome = NonProviderFault"
      and "b' = b\<lparr> br_in_flight := max 0 (br_in_flight b - 1) \<rparr>"
    | (fault) "ad_generation a = br_generation b" and "br_state b \<noteq> HalfOpen" and "outcome = NonProviderFault" and "b' = b"
proof -
  let ?a = "announce_provider_cooldown now outcome e b"
  have quiet: "?a = b" if "outcome \<noteq> ProviderFailure" using that by (simp add: announce_provider_cooldown_def)
  show thesis
  proof (cases "ad_generation a = br_generation b")
    case False
    show thesis
    proof (cases "can_extend_closed_generation_outage a b")
      case True
      with False assms have "b' = ?a" by (simp add: settle_admission_def Let_def)
      with False True show thesis by (intro extends) (simp_all add: can_extend_closed_generation_outage_def)
    next
      case not_extending: False
      with False assms have "b' = b" by (simp add: settle_admission_def Let_def)
      with False show thesis by (intro stale)
    qed
  next
    case True
    show thesis
    proof (cases outcome)
      case ProviderSuccess
      with True assms quiet have b': "b' = record_success b" by (simp add: settle_admission_def Let_def)
      show thesis
      proof (cases "br_state b = HalfOpen")
        case half: True
        let ?b1 = "b\<lparr> br_in_flight := max 0 (br_in_flight b - 1), br_remaining := br_remaining b - 1 \<rparr>"
        show thesis
        proof (cases "br_remaining b \<le> 1")
          case le: True
          with b' half have "b' = close_circuit ?b1" by (simp add: record_success_def Let_def)
          from recovers [OF True half ProviderSuccess le this] show thesis by (simp add: accounted_def)
        next
          case gt: False
          with b' half have "b' = ?b1" by (simp add: record_success_def Let_def)
          with True half ProviderSuccess gt show thesis by (intro probe_success) auto
        qed
      next
        case closed: False
        with b' have "b' = b\<lparr> br_failures := 0 \<rparr>" by (simp add: record_success_def)
        from counts_success [OF True closed ProviderSuccess this] show thesis .
      qed
    next
      case ProviderFailure
      with True assms have b': "b' = record_failure cfg now ?a" by (simp add: settle_admission_def Let_def)
      show thesis
      proof (cases "br_state b = HalfOpen")
        case half: True
        with b' have "b' = open_circuit cfg now (?a\<lparr> br_in_flight := max 0 (br_in_flight ?a - 1) \<rparr>)"
          by (simp add: record_failure_def)
        from opens [OF True ProviderFailure _ this] half show thesis by simp
      next
        case closed: False
        let ?b1 = "?a\<lparr> br_failures := br_failures b + 1 \<rparr>"
        show thesis
        proof (cases "failure_threshold cfg \<le> br_failures b + 1")
          case le: True
          with b' closed have "b' = open_circuit cfg now ?b1" by (simp add: record_failure_def Let_def)
          from opens [OF True ProviderFailure _ this] le show thesis by simp
        next
          case lt: False
          with b' closed have "b' = ?b1" by (simp add: record_failure_def Let_def)
          with True closed ProviderFailure lt show thesis by (intro counts_failure [OF _ _ _ _ refl]) auto
        qed
      qed
    next
      case NonProviderFault
      with True assms quiet have b': "b' = record_non_provider_fault b" by (simp add: settle_admission_def Let_def)
      show thesis
      proof (cases "br_state b = HalfOpen")
        case half: True
        with b' have "b' = b\<lparr> br_in_flight := max 0 (br_in_flight b - 1) \<rparr>" by (simp add: record_non_provider_fault_def)
        from fault_probe [OF True half NonProviderFault this] show thesis .
      next
        case closed: False
        with b' have "b' = b" by (simp add: record_non_provider_fault_def)
        from fault [OF True closed NonProviderFault this] show thesis .
      qed
    qed
  qed
qed

subsection \<open>The invariant\<close>

definition open_probe :: "nat \<Rightarrow> admission \<Rightarrow> bool" where
  "open_probe gen a \<longleftrightarrow> ad_generation a = gen \<and> ad_half_open a \<and> \<not> ad_settled a"

definition admissions_ok :: "breaker \<Rightarrow> admission list \<Rightarrow> bool" where
  "admissions_ok b as \<longleftrightarrow> list_all (\<lambda>a. ad_generation a \<le> br_generation b \<and>
     (ad_generation a = br_generation b \<longrightarrow> br_state b \<noteq> Open \<and> (ad_half_open a \<longleftrightarrow> br_state b = HalfOpen))) as"

definition breaker_ok :: "circuit_config \<Rightarrow> breaker \<Rightarrow> bool" where
  "breaker_ok cfg b \<longleftrightarrow> 0 \<le> br_in_flight b \<and> br_in_flight b \<le> max 0 (half_open_probes cfg) \<and>
     (br_state b = Closed \<longleftrightarrow> br_opened_at b = None) \<and> 0 \<le> br_failures b \<and>
     (br_state b = Closed \<longrightarrow> br_failures b = 0 \<or> br_failures b < failure_threshold cfg) \<and>
     (br_state b = HalfOpen \<longrightarrow> br_remaining b \<le> half_open_probes cfg \<and>
        (0 < half_open_probes cfg \<longrightarrow> 0 < br_remaining b))"

definition gate_ok :: "circuit_config \<Rightarrow> gate \<Rightarrow> bool" where
  "gate_ok cfg g \<longleftrightarrow> breaker_ok cfg (gt_breaker g) \<and> admissions_ok (gt_breaker g) (gt_admissions g) \<and>
     br_in_flight (gt_breaker g) = int (length (filter (open_probe (br_generation (gt_breaker g))) (gt_admissions g))) \<and>
     gt_refused g = accounted (gt_breaker g)"

lemma filter_updated:
  assumes "i < length xs"
  shows "int (length (filter P (xs[i := y]))) = int (length (filter P xs)) - of_bool (P (xs ! i)) + of_bool (P y)"
  using assms
proof (induction xs arbitrary: i)
  case (Cons x xs)
  then show ?case by (cases i) auto
qed simp


lemma no_later_probes:
  assumes "admissions_ok b as" and "br_generation b < gen"
  shows "filter (open_probe gen) as = []"
  using assms by (auto simp: admissions_ok_def list_all_iff open_probe_def filter_empty_conv)

lemma later_admissions:
  assumes "admissions_ok b as" and "br_generation b < br_generation b'"
  shows "admissions_ok b' as"
  using assms by (fastforce simp: admissions_ok_def list_all_iff)

lemma admissions_same:
  assumes "admissions_ok b as" and "br_generation b' = br_generation b" and "br_state b' = br_state b"
  shows "admissions_ok b' as"
  using assms by (simp add: admissions_ok_def)

lemma accounted_cooldown [simp]:
  "accounted (b\<lparr> br_in_flight := n, br_remaining := m \<rparr>) = accounted b"
  by (simp add: accounted_def)

lemma request_ok:
  assumes "gate_ok cfg g"
  shows "gate_ok cfg (request cfg debug now g)"
proof -
  obtain r b' where a: "assert_allowed cfg debug now (gt_breaker g) = (r, b')"
    by (cases "assert_allowed cfg debug now (gt_breaker g)")
  note ok = assms [unfolded gate_ok_def breaker_ok_def]
  have adm: "admissions_ok (gt_breaker g) (gt_admissions g)" using ok by blast
  from a show ?thesis
  proof (cases rule: assert_allowed_cases)
    case (refused st)
    with a ok show ?thesis
      by (simp add: request_def gate_ok_def breaker_ok_def admissions_ok_def)
  next
    case dead_end
    with a ok no_later_probes [OF adm, of "br_generation b'"] later_admissions [OF adm, of b'] show ?thesis
      by (simp add: request_def gate_ok_def breaker_ok_def)
  next
    case passes
    with a ok show ?thesis
      by (simp add: request_def gate_ok_def breaker_ok_def admissions_ok_def open_probe_def)
  next
    case probes
    with a ok show ?thesis
      by (auto simp: request_def gate_ok_def breaker_ok_def admissions_ok_def open_probe_def accounted_def)
  next
    case enters
    with a ok no_later_probes [OF adm, of "br_generation b'"] later_admissions [OF adm, of b'] show ?thesis
      by (auto simp: request_def gate_ok_def breaker_ok_def open_probe_def admissions_ok_def)
  qed
qed

lemma settle_at_ok:
  assumes "gate_ok cfg g"
  shows "gate_ok cfg (settle_at cfg now i outcome e g)"
proof (cases "i < length (gt_admissions g) \<and> \<not> ad_settled (gt_admissions g ! i)")
  case False
  then show ?thesis
    using assms by (cases g) (auto simp: settle_at_def settle_def list_update_id)
next
  case True
  let ?b = "gt_breaker g" and ?as = "gt_admissions g" and ?a = "gt_admissions g ! i"
  obtain b' n where s: "settle_admission cfg now ?a outcome e ?b = (b', n)" by (cases "settle_admission cfg now ?a outcome e ?b")
  let ?as' = "?as[i := ?a\<lparr> ad_settled := True \<rparr>]"
  have g': "settle_at cfg now i outcome e g = g\<lparr> gt_breaker := b', gt_admissions := ?as' \<rparr>"
    using True s by (simp add: settle_at_def settle_def Let_def)
  note ok = assms [unfolded gate_ok_def breaker_ok_def]
  have adm: "admissions_ok ?b ?as" using ok by blast
  have here: "?a \<in> set ?as" using True by simp
  have adm': "admissions_ok ?b ?as'"
    using adm True here by (auto simp: admissions_ok_def list_all_iff dest!: set_update_subset_insert [THEN subsetD])
  have probes: "int (length (filter (open_probe gen) ?as')) =
      int (length (filter (open_probe gen) ?as)) - of_bool (open_probe gen ?a)" for gen
    using filter_updated [of i ?as "open_probe gen"] True by (simp add: open_probe_def)
  have mine: "open_probe (br_generation ?b) ?a \<longleftrightarrow> ad_generation ?a = br_generation ?b \<and> br_state ?b = HalfOpen"
    using adm here True by (auto simp: admissions_ok_def list_all_iff open_probe_def)
  have flying: "open_probe (br_generation ?b) ?a \<Longrightarrow> 1 \<le> br_in_flight ?b"
    using ok here by (auto simp: filter_empty_conv Suc_le_eq) 
  have none': "filter (open_probe (Suc (br_generation ?b))) ?as' = []"
    using no_later_probes [OF adm'] by simp
  have "gate_ok cfg (g\<lparr> gt_breaker := b', gt_admissions := ?as' \<rparr>)" using s
  proof (cases rule: settle_cases)
    case stale
    with ok adm' probes mine show ?thesis by (simp add: gate_ok_def breaker_ok_def)
  next
    case extends
    with ok admissions_same [OF adm', of b'] probes mine show ?thesis by (simp add: gate_ok_def breaker_ok_def)
  next
    case counts_success
    with ok admissions_same [OF adm', of b'] probes mine show ?thesis by (simp add: gate_ok_def breaker_ok_def)
  next
    case probe_success
    with ok admissions_same [OF adm', of b'] probes mine flying show ?thesis
      by (simp add: gate_ok_def breaker_ok_def) linarith
  next
    case (recovers b1)
    with ok later_admissions [OF adm', of b'] none' show ?thesis by (simp add: gate_ok_def breaker_ok_def)
  next
    case (counts_failure b1)
    with ok admissions_same [OF adm', of b'] probes mine show ?thesis by (simp add: gate_ok_def breaker_ok_def)
  next
    case (opens b1)
    with ok later_admissions [OF adm', of b'] none' show ?thesis by (simp add: gate_ok_def breaker_ok_def)
  next
    case fault_probe
    with ok admissions_same [OF adm', of b'] probes mine flying show ?thesis
      by (simp add: gate_ok_def breaker_ok_def)
  next
    case fault
    with ok adm' probes mine show ?thesis by (simp add: gate_ok_def breaker_ok_def)
  qed
  then show ?thesis by (simp add: g')
qed

lemma gate_op_ok: "gate_ok cfg g \<Longrightarrow> gate_ok cfg (gate_op cfg a g)"
  by (cases a; cases "snd a") (simp_all add: request_ok settle_at_ok)

lemma new_gate_ok: "gate_ok cfg new_gate"
  by (simp add: gate_ok_def breaker_ok_def admissions_ok_def new_gate_def new_breaker_def accounted_def)

interpretation gate: invariant_ops "gate_ok cfg" "gate_op cfg" for cfg
  by unfold_locales (rule gate_op_ok)

end
