(* ===== verification/Circuit_Properties.thy ===== *)
theory Circuit_Properties
  imports Circuit_Invariant
begin

text \<open>What the circuit breaker promises its callers, in every state it can reach.\<close>

text \<open>A gate reached by any sequence of requests and settlements at any times.\<close>

definition reached :: "circuit_config \<Rightarrow> (rat \<times> gate_action) list \<Rightarrow> gate" where
  "reached cfg acts = fold (gate_op cfg) acts new_gate"

lemma reached_ok: "gate_ok cfg (reached cfg acts)"
  unfolding reached_def by (rule gate.ops_inv [OF new_gate_ok])

text \<open>
  Claim C20. Probe slots never leak: whatever callers do and whenever they settle, the slots in use
  are exactly the unsettled probes of the present half-open period, at most as many as configured; the
  breaker has an opening time just while it is not closed; and every refusal ever made is in the
  counts its transition lines report or still waiting for the next one.
\<close>

theorem probe_slots_never_leak:
  "let g = reached cfg acts; b = gt_breaker g
   in br_in_flight b = int (length (filter (\<lambda>a. ad_generation a = br_generation b \<and> ad_half_open a \<and> \<not> ad_settled a)
        (gt_admissions g))) \<and> br_in_flight b \<le> max 0 (half_open_probes cfg) \<and>
      (br_state b = Closed \<longleftrightarrow> br_opened_at b = None) \<and>
      gt_refused g = br_rejected b + (\<Sum>e\<leftarrow>br_log b. reported e)"
  using reached_ok [of cfg acts]
  by (simp add: gate_ok_def breaker_ok_def accounted_def open_probe_def [abs_def] Let_def)

subsection \<open>An outage\<close>

fun is_request :: "gate_action \<Rightarrow> bool" where
  "is_request (Request debug) = True"
| "is_request (Settle i outcome e) = False"

definition down_since :: "rat \<Rightarrow> gate \<Rightarrow> bool" where
  "down_since t g \<longleftrightarrow> br_state (gt_breaker g) = Open \<and> br_opened_at (gt_breaker g) = Some t"

lemma outage_step:
  assumes "gate_ok cfg g" and "down_since t g" and "fst a < t + cooldown_ms cfg"
  shows "down_since t (gate_op cfg a g) \<and> length (gt_admissions (gate_op cfg a g)) = length (gt_admissions g) \<and>
    gt_refused (gate_op cfg a g) = gt_refused g + of_bool (is_request (snd a))"
proof (cases a)
  case a: (Pair now act)
  have hot: "\<not> cooled_down cfg now (gt_breaker g)" using assms a by (simp add: down_since_def cooled_down_def)
  show ?thesis
  proof (cases act)
    case (Request debug)
    obtain r b' where r: "assert_allowed cfg debug now (gt_breaker g) = (r, b')"
      by (cases "assert_allowed cfg debug now (gt_breaker g)")
    then have "r = Inl Open" "b' = note_rejection debug Open InCooldown (gt_breaker g)"
      using assms(2) hot by (auto simp: assert_allowed_def down_since_def enter_half_open_or_reject_def)
    then show ?thesis using a Request r assms(2) by (simp add: request_def down_since_def)
  next
    case (Settle i outcome e)
    show ?thesis
    proof (cases "i < length (gt_admissions g) \<and> \<not> ad_settled (gt_admissions g ! i)")
      case False
      then show ?thesis using a Settle assms(2)
        by (cases g) (auto simp: settle_at_def settle_def down_since_def list_update_id)
    next
      case True
      let ?a = "gt_admissions g ! i"
      have "?a \<in> set (gt_admissions g)" using True by simp
      then have old: "ad_generation ?a \<noteq> br_generation (gt_breaker g)"
        using assms(1,2) by (auto simp: gate_ok_def admissions_ok_def list_all_iff down_since_def)
      obtain b' n where s: "settle_admission cfg now ?a outcome e (gt_breaker g) = (b', n)"
        by (cases "settle_admission cfg now ?a outcome e (gt_breaker g)")
      then have "br_state b' = Open \<and> br_opened_at b' = Some t"
        using assms(2) old by (cases rule: settle_cases) (auto simp: down_since_def)
      then show ?thesis using a Settle True s by (simp add: settle_at_def settle_def down_since_def Let_def)
    qed
  qed
qed

text \<open>
  Claim C21. During an outage nothing reaches the provider: from the moment the breaker opened until
  its cooldown has passed every request is refused, and no settlement, early or late, shortens the
  outage.
\<close>

theorem outage_admits_nothing:
  assumes "down_since t (reached cfg before)" and "\<And>a. a \<in> set acts \<Longrightarrow> fst a < t + cooldown_ms cfg"
  shows "let g = reached cfg before; g' = reached cfg (before @ acts)
    in down_since t g' \<and> length (gt_admissions g') = length (gt_admissions g) \<and>
       gt_refused g' = gt_refused g + length (filter (\<lambda>a. is_request (snd a)) acts)"
proof -
  let ?P = "\<lambda>g g' as. down_since t g' \<and> length (gt_admissions g') = length (gt_admissions g) \<and>
    gt_refused g' = gt_refused g + length (filter (\<lambda>a. is_request (snd a)) as)"
  have "?P g (fold (gate_op cfg) acts g) acts" if "gate_ok cfg g" "down_since t g" for g
    using assms(2) that
  proof (induction acts arbitrary: g)
    case (Cons a as)
    note step = outage_step [OF Cons.prems(2,3), of a]
    have "?P (gate_op cfg a g) (fold (gate_op cfg) as (gate_op cfg a g)) as"
      using Cons.prems step by (intro Cons.IH gate_op_ok) auto
    with step Cons.prems(1) show ?case by auto
  qed simp
  from this [OF reached_ok assms(1)] show ?thesis by (simp add: reached_def Let_def)
qed

text \<open>A breaker that opens at the first failure, for the examples.\<close>

definition brittle :: circuit_config where
  "brittle = \<lparr> failure_threshold = 1, cooldown_ms = 30, half_open_probes = 2 \<rparr>"

definition plain_fault :: provider_fault where
  "plain_fault = \<lparr> pf_provider = True, pf_retryable = True, pf_retry_after = None \<rparr>"

definition one_failure :: "(rat \<times> gate_action) list" where
  "one_failure = [(0, Request False), (5, Settle 0 ProviderFailure plain_fault)]"

lemma one_failure_down: "down_since 5 (reached brittle one_failure)"
  by (simp add: reached_def one_failure_def brittle_def plain_fault_def new_gate_def new_breaker_def request_def
      settle_at_def settle_def settle_admission_def record_failure_def announce_provider_cooldown_def assert_allowed_def
      create_admission_def down_since_def Let_def)

theorem outage_admits_nothing_witness:
  "gt_refused (reached brittle (one_failure @ [(6, Request False), (34, Request True)])) =
     gt_refused (reached brittle one_failure) + 2"
proof -
  let ?acts = "[(6, Request False), (34, Request True)]"
  have "fst a < 5 + cooldown_ms brittle" if "a \<in> set ?acts" for a
    using that by (auto simp: brittle_def)
  from outage_admits_nothing [of 5 brittle one_failure ?acts, OF one_failure_down this] show ?thesis
    by (simp add: Let_def)
qed

subsection \<open>Recovery\<close>

definition settle_all :: "circuit_config \<Rightarrow> rat \<Rightarrow> provider_fault \<Rightarrow> gate \<Rightarrow> gate" where
  "settle_all cfg now e g =
     fold (\<lambda>i. settle_at cfg now i ProviderSuccess e) [0..<length (gt_admissions g)] g"

text \<open>One request, and its admission settled as a success.\<close>

definition probe_round :: "circuit_config \<Rightarrow> rat \<Rightarrow> provider_fault \<Rightarrow> gate \<Rightarrow> gate" where
  "probe_round cfg now e g =
     settle_at cfg now (length (gt_admissions g)) ProviderSuccess e (request cfg False now g)"

definition ready :: "circuit_config \<Rightarrow> rat \<Rightarrow> gate \<Rightarrow> bool" where
  "ready cfg now g \<longleftrightarrow> gate_ok cfg g \<and> br_in_flight (gt_breaker g) = 0 \<and>
     (br_state (gt_breaker g) = Open \<longrightarrow> cooled_down cfg now (gt_breaker g))"

text \<open>How many successful probes the breaker still needs.\<close>

definition needed :: "circuit_config \<Rightarrow> gate \<Rightarrow> int" where
  "needed cfg g = (case br_state (gt_breaker g) of
     Closed \<Rightarrow> 0 | HalfOpen \<Rightarrow> br_remaining (gt_breaker g) | Open \<Rightarrow> half_open_probes cfg)"

lemma needed_le: "gate_ok cfg g \<Longrightarrow> 0 < half_open_probes cfg \<Longrightarrow> needed cfg g \<le> half_open_probes cfg"
  by (auto simp: needed_def gate_ok_def breaker_ok_def split: circuit_state.splits)

lemma needed_closed: "gate_ok cfg g \<Longrightarrow> 0 < half_open_probes cfg \<Longrightarrow> needed cfg g \<le> 0 \<Longrightarrow> br_state (gt_breaker g) = Closed"
  by (auto simp: needed_def gate_ok_def breaker_ok_def split: circuit_state.splits)

lemma settle_success_state:
  assumes "gate_ok cfg g"
  shows "br_state (gt_breaker (settle_at cfg now i ProviderSuccess e g)) = Open \<longleftrightarrow> br_state (gt_breaker g) = Open"
    and "br_state (gt_breaker g) = Open \<Longrightarrow>
      br_opened_at (gt_breaker (settle_at cfg now i ProviderSuccess e g)) = br_opened_at (gt_breaker g)"
proof -
  have "(br_state (gt_breaker (settle_at cfg now i ProviderSuccess e g)) = Open \<longleftrightarrow> br_state (gt_breaker g) = Open) \<and>
    (br_state (gt_breaker g) = Open \<longrightarrow>
      br_opened_at (gt_breaker (settle_at cfg now i ProviderSuccess e g)) = br_opened_at (gt_breaker g))"
  proof (cases "i < length (gt_admissions g) \<and> \<not> ad_settled (gt_admissions g ! i)")
    case False
    then show ?thesis by (auto simp: settle_at_def settle_def)
  next
    case True
    let ?a = "gt_admissions g ! i" and ?b = "gt_breaker g"
    have "?a \<in> set (gt_admissions g)" using True by simp
    then have adm: "ad_generation ?a = br_generation ?b \<longrightarrow> br_state ?b \<noteq> Open"
      using assms by (auto simp: gate_ok_def admissions_ok_def list_all_iff)
    obtain b' n where s: "settle_admission cfg now ?a ProviderSuccess e ?b = (b', n)"
      by (cases "settle_admission cfg now ?a ProviderSuccess e ?b")
    then have "gt_breaker (settle_at cfg now i ProviderSuccess e g) = b'"
      using True by (simp add: settle_at_def settle_def Let_def)
    moreover from s adm have "(br_state b' = Open \<longleftrightarrow> br_state ?b = Open) \<and>
        (br_state ?b = Open \<longrightarrow> br_opened_at b' = br_opened_at ?b)"
      by (cases rule: settle_cases) auto
    ultimately show ?thesis by simp
  qed
  then show "br_state (gt_breaker (settle_at cfg now i ProviderSuccess e g)) = Open \<longleftrightarrow> br_state (gt_breaker g) = Open"
    "br_state (gt_breaker g) = Open \<Longrightarrow>
      br_opened_at (gt_breaker (settle_at cfg now i ProviderSuccess e g)) = br_opened_at (gt_breaker g)" by blast+
qed

lemma settled_admissions:
  "gt_admissions (settle_at cfg now i outcome e g) =
     (if i < length (gt_admissions g) then (gt_admissions g)[i := (gt_admissions g ! i)\<lparr> ad_settled := True \<rparr>]
      else gt_admissions g)"
  by (auto simp: settle_at_def settle_def Let_def list_update_id intro!: nth_equalityI) (auto simp: nth_list_update)

lemma settle_all_ready:
  assumes "gate_ok cfg g" and "br_state (gt_breaker g) = Open \<longrightarrow> cooled_down cfg now (gt_breaker g)"
  shows "ready cfg now (settle_all cfg now e g)"
proof -
  have "gate_ok cfg h \<and> (br_state (gt_breaker h) = Open \<longrightarrow> cooled_down cfg now (gt_breaker h)) \<and>
      length (gt_admissions h) = length (gt_admissions g) \<and> (\<forall>j<k. ad_settled (gt_admissions h ! j))"
    if "h = fold (\<lambda>i. settle_at cfg now i ProviderSuccess e) [0..<k] g" "k \<le> length (gt_admissions g)" for h k
    using that
  proof (induction k arbitrary: h)
    case 0
    with assms show ?case by simp
  next
    case (Suc k)
    let ?h = "fold (\<lambda>i. settle_at cfg now i ProviderSuccess e) [0..<k] g"
    from Suc have ih: "gate_ok cfg ?h" "br_state (gt_breaker ?h) = Open \<longrightarrow> cooled_down cfg now (gt_breaker ?h)"
      "length (gt_admissions ?h) = length (gt_admissions g)" "\<forall>j<k. ad_settled (gt_admissions ?h ! j)" by auto
    have h: "h = settle_at cfg now k ProviderSuccess e ?h" using Suc.prems by simp
    have "br_state (gt_breaker h) = Open \<longrightarrow> cooled_down cfg now (gt_breaker h)"
      using settle_success_state [OF ih(1)] ih(2) by (simp add: h cooled_down_def)
    moreover have "\<forall>j<Suc k. ad_settled (gt_admissions h ! j)"
      using ih(3,4) Suc.prems(2) by (auto simp: h settled_admissions nth_list_update less_Suc_eq)
    ultimately show ?case using settle_at_ok [OF ih(1)] ih(3) by (simp add: h settled_admissions)
  qed
  from this [OF refl order_refl] show ?thesis
    by (auto simp: ready_def settle_all_def gate_ok_def open_probe_def filter_empty_conv in_set_conv_nth)
qed

lemma probe_round_step:
  assumes "ready cfg now g" and "0 < half_open_probes cfg"
  shows "ready cfg now (probe_round cfg now e g) \<and>
    needed cfg (probe_round cfg now e g) \<le> max 0 (needed cfg g - 1)"
proof -
  have ok: "gate_ok cfg g" and none: "br_in_flight (gt_breaker g) = 0" using assms(1) by (simp_all add: ready_def)
  obtain r b where a: "assert_allowed cfg False now (gt_breaker g) = (r, b)"
    by (cases "assert_allowed cfg False now (gt_breaker g)")
  have okp: "gate_ok cfg (probe_round cfg now e g)"
    unfolding probe_round_def by (intro settle_at_ok request_ok ok)
  have round: "gt_breaker (probe_round cfg now e g) = fst (settle_admission cfg now ad ProviderSuccess e b)"
    if "r = Inr ad" "\<not> ad_settled ad" for ad
    using that a by (simp add: probe_round_def request_def settle_at_def settle_def Let_def)
  from a show ?thesis
  proof (cases rule: assert_allowed_cases)
    case (refused st)
    with assms none show ?thesis by (cases "br_state (gt_breaker g)") (auto simp: ready_def)
  next
    case dead_end
    with assms(2) show ?thesis by simp
  next
    case passes
    with round okp none show ?thesis
      by (simp add: ready_def needed_def settle_admission_def record_success_def announce_provider_cooldown_def Let_def)
  next
    case probes
    with round okp none show ?thesis
      by (auto simp: ready_def needed_def settle_admission_def record_success_def announce_provider_cooldown_def Let_def)
  next
    case enters
    with round okp none show ?thesis
      by (auto simp: ready_def needed_def settle_admission_def record_success_def announce_provider_cooldown_def Let_def)
  qed
qed

text \<open>
  Claim C19. The breaker always recovers: from every reachable state, once the cooldown of an open
  breaker has passed, settling the calls in flight as successes and then as many successful requests
  as there are half-open probes closes it. No history of failures, cancellations or abandoned probes
  can wedge it.
\<close>

theorem breaker_recovers:
  assumes "0 < half_open_probes cfg"
    and "case br_opened_at (gt_breaker (reached cfg acts)) of None \<Rightarrow> True | Some t \<Rightarrow> t + cooldown_ms cfg \<le> now"
  shows "br_state (gt_breaker ((probe_round cfg now e ^^ nat (half_open_probes cfg))
    (settle_all cfg now e (reached cfg acts)))) = Closed"
proof -
  let ?g = "settle_all cfg now e (reached cfg acts)"
  have "br_state (gt_breaker (reached cfg acts)) = Open \<longrightarrow> cooled_down cfg now (gt_breaker (reached cfg acts))"
    using assms(2) reached_ok [of cfg acts]
    by (auto simp: gate_ok_def breaker_ok_def cooled_down_def algebra_simps split: option.splits)
  then have start: "ready cfg now ?g" by (rule settle_all_ready [OF reached_ok])
  have "ready cfg now ((probe_round cfg now e ^^ k) ?g) \<and>
      needed cfg ((probe_round cfg now e ^^ k) ?g) \<le> max 0 (half_open_probes cfg - int k)" for k
  proof (induction k)
    case 0
    from start needed_le assms(1) show ?case by (simp add: ready_def)
  next
    case (Suc k)
    let ?h = "(probe_round cfg now e ^^ k) ?g"
    note step = probe_round_step [OF conjunct1 [OF Suc] assms(1), of e]
    have "needed cfg (probe_round cfg now e ?h) \<le> max 0 (half_open_probes cfg - int (Suc k))"
      using conjunct2 [OF step] conjunct2 [OF Suc] by (simp add: max_def split: if_splits)
    with step show ?case by (simp only: funpow.simps(2) o_apply)
  qed
  from this [of "nat (half_open_probes cfg)"] assms(1) show ?thesis by (auto simp: ready_def intro: needed_closed)
qed

theorem breaker_recovers_witness:
  "br_state (gt_breaker ((probe_round brittle 40 plain_fault ^^ nat 2)
     (settle_all brittle 40 plain_fault (reached brittle one_failure)))) = Closed"
proof -
  have "case br_opened_at (gt_breaker (reached brittle one_failure)) of None \<Rightarrow> True | Some t \<Rightarrow> t + cooldown_ms brittle \<le> 40"
    using one_failure_down by (simp add: down_since_def brittle_def)
  from breaker_recovers [OF _ this] show ?thesis by (simp add: brittle_def)
qed

subsection \<open>Waiting\<close>

text \<open>
  Waiting is sound: a call that waits for the breaker is never refused by it when the wait
  says the way is free; it is admitted only with budget left and after a cooldown the provider
  announced, and it never waits beyond its budget.
\<close>

theorem waiting_is_sound:
  assumes "0 < half_open_probes cfg"
  shows "case fst (wait_advance cfg debug opts True start aborted jitter now (gt_breaker (reached cfg acts))) of
      CircuitRefused st \<Rightarrow> False
    | Admitted a left \<Rightarrow> Finite 0 < left \<and> br_cooldown_until (gt_breaker (reached cfg acts)) \<le> now \<and>
        \<not> ad_settled a
    | Waits reason delay \<Rightarrow> Finite 0 < delay \<and> delay \<le> minus_elapsed (wo_remaining opts) (now - start)
    | outcome \<Rightarrow> True"
proof -
  let ?b = "gt_breaker (reached cfg acts)" and ?left = "minus_elapsed (wo_remaining opts) (now - start)"
  have ok: "breaker_ok cfg ?b" using reached_ok [of cfg acts] by (simp add: gate_ok_def)
  show ?thesis
  proof (cases "aborted \<or> ?left \<le> Finite 0")
    case True
    then show ?thesis by (auto simp: wait_advance_def Let_def split: option.splits prod.splits)
  next
    case left: False
    show ?thesis
    proof (cases "blocked_wait cfg now True jitter ?b")
      case None
      obtain r b' where a: "assert_allowed cfg debug now ?b = (r, b')" by (cases "assert_allowed cfg debug now ?b")
      have cool: "br_cooldown_until ?b \<le> now" using None by (simp add: blocked_wait_def Let_def split: if_splits)
      from a have "\<exists>ad. r = Inr ad \<and> \<not> ad_settled ad"
      proof (cases rule: assert_allowed_cases)
        case (refused st)
        with None ok show ?thesis
          by (cases "br_state ?b")
            (auto simp: blocked_wait_def breaker_ok_def cooled_down_def Let_def split: if_splits option.splits)
      next
        case dead_end
        with assms show ?thesis by simp
      qed auto
      with a None left cool show ?thesis by (auto simp: wait_advance_def Let_def)
    next
      case (Some rd)
      then have "Finite 0 < snd rd"
        by (auto simp: blocked_wait_def max_timer_delay_ms_def Let_def split: if_splits)
      with Some left show ?thesis by (cases rd) (auto simp: wait_advance_def min_def Let_def)
    qed
  qed
qed

theorem waiting_is_sound_witness:
  "case fst (wait_advance brittle False \<lparr> wo_remaining = Finite 100, wo_previous_retry_after = False, wo_outage_window = True \<rparr>
       True 6 False 0 6 (gt_breaker (reached brittle one_failure))) of
      CircuitRefused st \<Rightarrow> False | outcome \<Rightarrow> True"
  using waiting_is_sound [where cfg = brittle and debug = False and start = 6 and aborted = False and jitter = 0
    and now = 6 and acts = one_failure and
    opts = "\<lparr> wo_remaining = Finite 100, wo_previous_retry_after = False, wo_outage_window = True \<rparr>"]
  by (simp add: brittle_def split: wait_outcome.splits)

end
