(* ===== verification/Retry_Loop.thy ===== *)
theory Retry_Loop
  imports Circuit_Breaker
begin

text \<open>
  The retry loop of the model gateway (\<open>keiko-model-gateway/src/resilience.ts\<close>): the errors it tells
  apart, the decision after a failed attempt, the budgets it runs under, what it tells the observer of
  a call, and the loop itself. Times are rational milliseconds.

  What the loop awaits is an environment: the n-th call of the operation and the n-th sleep answer as
  the environment says, the n-th reading of the clock is \<open>rv_lag\<close> later than the time before, and a sleep
  that ends lasts at least its milliseconds. The n-th call may tell the observer that its admission
  waits (\<open>rv_waits\<close>) before it answers. The signal is read as an answer to the n-th question, and
  the observer may throw at the n-th notice. The durations on the lines are not modelled.
\<close>

subsection \<open>Errors\<close>

text \<open>The error classes of the gateway, each with its subclasses but those listed on their own.\<close>

datatype fault_class =
    AuthenticationFault | TransportFault | ModelRefusalFault | MalformedToolCallFault | ContextOverflowFault
  | CallerAttemptAdmissionFault | RateLimitFault | TimeoutFault | CancelledFault | CircuitOpenFault
  | ProviderFault | OutputExhaustedFault | EmptyAnswerFault | ConfigInvalidFault | UnknownModelFault
  | GatewayEgressFault | OtherFault

record call_error =
  ce_class :: fault_class
  ce_retryable :: bool
  ce_retry_after :: "millis option"
  ce_after_reasoning :: bool
  ce_message :: string

definition cancelled_error :: "string \<Rightarrow> call_error" where
  "cancelled_error message = \<lparr> ce_class = CancelledFault, ce_retryable = False, ce_retry_after = None,
     ce_after_reasoning = False, ce_message = message \<rparr>"

datatype repair_reason = OutputExhaustedRepair | EmptyAnswerRepair

definition steered_answer_repair :: "call_error \<Rightarrow> repair_reason option" where
  "steered_answer_repair e =
     (if ce_class e = OutputExhaustedFault then Some OutputExhaustedRepair
      else if ce_class e = EmptyAnswerFault \<and> ce_after_reasoning e then Some EmptyAnswerRepair else None)"

definition non_provider_faults :: "fault_class list" where
  "non_provider_faults = [CallerAttemptAdmissionFault, CancelledFault, ConfigInvalidFault,
     MalformedToolCallFault, OutputExhaustedFault, EmptyAnswerFault]"

definition is_non_provider_fault :: "call_error \<Rightarrow> bool" where
  "is_non_provider_fault e \<longleftrightarrow> ce_class e \<in> set non_provider_faults"

definition is_retryable_error :: "call_error \<Rightarrow> bool" where
  "is_retryable_error e \<longleftrightarrow> ce_class e \<noteq> OtherFault \<and> ce_retryable e"

text \<open>The cooldown of \<open>providerErrorDetail\<close>: only rate limits and provider errors carry one.\<close>

definition error_retry_after :: "call_error \<Rightarrow> millis option" where
  "error_retry_after e =
     (if ce_class e \<in> {RateLimitFault, ProviderFault, OutputExhaustedFault, EmptyAnswerFault}
      then ce_retry_after e else None)"

subsection \<open>Configuration\<close>

text \<open>The count is None where the code has NaN, a bound None where it is undefined.\<close>

record retry_config =
  rt_should_retry :: "call_error \<Rightarrow> bool"
  rt_jitter_cooldown :: bool
  rt_max_retries :: "int option"
  rt_base_delay :: rat
  rt_timeout :: "rat option"
  rt_attempt_timeout :: "rat option"
  rt_window :: "rat option"
  rt_repair :: "call_error \<Rightarrow> repair_reason option"

datatype retry_policy = AttemptsPolicy | OutageWindowPolicy

definition decision_window :: "retry_config \<Rightarrow> call_error \<Rightarrow> rat option" where
  "decision_window cfg e = (if is_non_provider_fault e then None else rt_window cfg)"

definition retry_policy_for :: "retry_config \<Rightarrow> call_error \<Rightarrow> retry_policy" where
  "retry_policy_for cfg e = (if decision_window cfg e = None then AttemptsPolicy else OutageWindowPolicy)"

subsection \<open>State\<close>

text \<open>What the operation is called with.\<close>

record attempt_input =
  in_timeout :: "int option"
  in_remaining :: millis
  in_previous :: "call_error option"
  in_admission :: millis

text \<open>
  An attempt answers, fails, or is refused admission before the provider is called; a refusal carries
  the error the call had before, if any.
\<close>

datatype 'a attempt_outcome = Answered 'a | FailedWith call_error | RefusedAdmission "call_error option" call_error

record 'a retry_env =
  rv_lag :: "nat \<Rightarrow> rat"
  rv_random :: "nat \<Rightarrow> rat"
  rv_operation :: "nat \<Rightarrow> attempt_input \<Rightarrow> 'a attempt_outcome"
  rv_aborted :: "nat \<Rightarrow> bool"
  rv_sleep_fault :: "nat \<Rightarrow> call_error option"
  rv_waits :: "nat \<Rightarrow> (wait_reason \<times> retry_policy) list"
  rv_observed :: bool
  rv_observer_throws :: "nat \<Rightarrow> bool"

datatype retry_stop = StopTerminal | StopMaxRetries | StopBudget rat millis

datatype retry_decision = SleepFor rat "repair_reason option" | StopFor retry_stop

datatype retry_notice =
    NoticeScheduled int retry_policy
  | NoticeWaiting wait_reason retry_policy
  | NoticeSettled bool

datatype retry_event =
    RetryScheduled int rat "repair_reason option" call_error retry_policy
  | RetryExhausted int retry_stop call_error retry_policy
  | BudgetExhausted int bool call_error
  | ObserverFailed retry_notice

record retry_state =
  rs_now :: rat
  rs_start :: rat
  rs_attempt :: int
  rs_repairs :: int
  rs_last_error :: "call_error option"
  rs_readings :: nat
  rs_draws :: nat
  rs_questions :: nat
  rs_calls :: "attempt_input list"
  rs_sleeps :: "rat list"
  rs_owed :: bool
  rs_notices :: "retry_notice list"
  rs_log :: "retry_event list"

definition read_clock :: "'a retry_env \<Rightarrow> retry_state \<Rightarrow> rat \<times> retry_state" where
  "read_clock env st =
     (let now = rs_now st + rv_lag env (rs_readings st)
      in (now, st\<lparr> rs_now := now, rs_readings := rs_readings st + 1 \<rparr>))"

definition ask_aborted :: "'a retry_env \<Rightarrow> retry_state \<Rightarrow> bool \<times> retry_state" where
  "ask_aborted env st = (rv_aborted env (rs_questions st), st\<lparr> rs_questions := rs_questions st + 1 \<rparr>)"

definition draw_random :: "'a retry_env \<Rightarrow> retry_state \<Rightarrow> rat \<times> retry_state" where
  "draw_random env st = (rv_random env (rs_draws st), st\<lparr> rs_draws := rs_draws st + 1 \<rparr>)"

definition write_line :: "retry_event \<Rightarrow> retry_state \<Rightarrow> retry_state" where
  "write_line e st = st\<lparr> rs_log := rs_log st @ [e] \<rparr>"

subsection \<open>Delays and budgets\<close>

definition max_backoff_ms :: rat where
  "max_backoff_ms = 30000"

definition js_round :: "rat \<Rightarrow> rat" where
  "js_round x = of_int \<lfloor>x + 1 / 2\<rfloor>"

definition power_of_two :: "int \<Rightarrow> rat" where
  "power_of_two k = (if 0 \<le> k then 2 ^ nat k else 1 / 2 ^ nat (- k))"

definition max_backoff_delay :: "int \<Rightarrow> rat \<Rightarrow> rat" where
  "max_backoff_delay attempt base = min (base * power_of_two (attempt - 1)) max_backoff_ms"

definition backoff_delay :: "int \<Rightarrow> rat \<Rightarrow> rat \<Rightarrow> rat" where
  "backoff_delay attempt base r = js_round (max_backoff_delay attempt base * (1 / 2 + 1 / 2 * r))"

definition retry_delay :: "'a retry_env \<Rightarrow> retry_config \<Rightarrow> call_error \<Rightarrow> int \<Rightarrow> retry_state \<Rightarrow> rat \<times> retry_state" where
  "retry_delay env cfg e attempt st =
     (let backoff = (\<lambda>st. let (r, st1) = draw_random env st in (backoff_delay attempt (rt_base_delay cfg) r, st1))
      in case error_retry_after e of
           Some (Finite ms) \<Rightarrow>
             if ms > 0
             then let (jitter, st1) = (if rt_jitter_cooldown cfg then let (d, st2) = backoff st in (max 1 d, st2) else (0, st))
                  in (min (ms + jitter) max_timer_delay_ms, st1)
             else backoff st
         | _ \<Rightarrow> backoff st)"

definition remaining_budget :: "'a retry_env \<Rightarrow> retry_config \<Rightarrow> retry_state \<Rightarrow> millis \<times> retry_state" where
  "remaining_budget env cfg st =
     (case rt_timeout cfg of
        None \<Rightarrow> (Infinite, st)
      | Some t \<Rightarrow> let (now, st1) = read_clock env st in (Finite (max 0 (t - (now - rs_start st1))), st1))"

definition elapsed_ms :: "'a retry_env \<Rightarrow> retry_state \<Rightarrow> rat \<times> retry_state" where
  "elapsed_ms env st = (let (now, st1) = read_clock env st in (now - rs_start st1, st1))"

definition attempt_timeout_for :: "retry_config \<Rightarrow> millis \<Rightarrow> int option" where
  "attempt_timeout_for cfg remaining =
     (case min remaining (case rt_attempt_timeout cfg of None \<Rightarrow> Infinite | Some t \<Rightarrow> Finite t) of
        Finite bound \<Rightarrow> Some (max 1 \<lfloor>bound\<rfloor>)
      | Infinite \<Rightarrow> None)"

definition admission_budget_for :: "'a retry_env \<Rightarrow> retry_config \<Rightarrow> millis \<Rightarrow> retry_state \<Rightarrow> millis \<times> retry_state" where
  "admission_budget_for env cfg remaining st =
     (case rt_window cfg of
        None \<Rightarrow> (remaining, st)
      | Some w \<Rightarrow> let (elapsed, st1) = elapsed_ms env st
          in (max (Finite 1) (min remaining (Finite (w - elapsed))), st1))"

subsection \<open>Decisions\<close>

definition repair_decision :: "retry_config \<Rightarrow> call_error \<Rightarrow> millis \<Rightarrow> int \<Rightarrow> retry_decision option" where
  "repair_decision cfg e remaining repairs =
     (case (if repairs = 0 then rt_repair cfg e else None) of
        None \<Rightarrow> None
      | Some reason \<Rightarrow>
          if remaining \<le> Finite 0 then Some (StopFor (StopBudget 0 remaining)) else Some (SleepFor 0 (Some reason)))"

definition retry_decision ::
  "'a retry_env \<Rightarrow> retry_config \<Rightarrow> call_error \<Rightarrow> int \<Rightarrow> millis \<Rightarrow> retry_state \<Rightarrow> retry_decision \<times> retry_state" where
  "retry_decision env cfg e attempt remaining st =
     (if \<not> is_retryable_error e \<or> \<not> rt_should_retry cfg e then (StopFor StopTerminal, st)
      else if decision_window cfg e = None \<and> (case rt_max_retries cfg of None \<Rightarrow> False | Some m \<Rightarrow> attempt > m)
      then (StopFor StopMaxRetries, st)
      else
        let (delay, st1) = retry_delay env cfg e attempt st;
            (left, st2) = (case decision_window cfg e of
              None \<Rightarrow> (remaining, st1)
            | Some w \<Rightarrow> let (elapsed, st3) = elapsed_ms env st1
                in (max (Finite 0) (min remaining (Finite (w - elapsed))), st3))
        in (if Finite delay \<ge> left then StopFor (StopBudget delay left) else SleepFor delay None, st2))"

subsection \<open>The observer\<close>

definition tell :: "'a retry_env \<Rightarrow> retry_notice \<Rightarrow> retry_state \<Rightarrow> retry_state" where
  "tell env notice st =
     (let st1 = st\<lparr> rs_notices := rs_notices st @ [notice] \<rparr>
      in if rv_observer_throws env (length (rs_notices st)) then write_line (ObserverFailed notice) st1 else st1)"

definition announce_scheduled :: "'a retry_env \<Rightarrow> int \<Rightarrow> retry_policy \<Rightarrow> retry_state \<Rightarrow> retry_state" where
  "announce_scheduled env attempt policy st = tell env (NoticeScheduled attempt policy) (st\<lparr> rs_owed := True \<rparr>)"

definition announce_wait :: "'a retry_env \<Rightarrow> wait_reason \<times> retry_policy \<Rightarrow> retry_state \<Rightarrow> retry_state" where
  "announce_wait env w st =
     (if rv_observed env then tell env (NoticeWaiting (fst w) (snd w)) (st\<lparr> rs_owed := True \<rparr>) else st)"

definition announce_provider_retry ::
  "'a retry_env \<Rightarrow> call_error \<Rightarrow> repair_reason option \<Rightarrow> retry_policy \<Rightarrow> retry_state \<Rightarrow> retry_state" where
  "announce_provider_retry env e repair policy st =
     (if repair \<noteq> None \<or> is_non_provider_fault e \<or> \<not> rv_observed env then st
      else announce_scheduled env (rs_attempt st - rs_repairs st) policy st)"

definition announce_settled :: "'a retry_env \<Rightarrow> bool \<Rightarrow> retry_state \<Rightarrow> retry_state" where
  "announce_settled env answered st =
     (if \<not> rv_observed env \<or> \<not> rs_owed st then st
      else tell env (NoticeSettled answered) (st\<lparr> rs_owed := False \<rparr>))"

subsection \<open>Attempts\<close>

datatype 'a attempt_result = AttemptDone 'a | AttemptAgain | AttemptThrew call_error

text \<open>None when the call may go on.\<close>

definition assert_not_aborted :: "'a retry_env \<Rightarrow> retry_state \<Rightarrow> call_error option \<times> retry_state" where
  "assert_not_aborted env st =
     (let (aborted, st1) = ask_aborted env st
      in (if aborted then Some (cancelled_error ''request cancelled during retry'') else None, st1))"

definition sleep_with_cancellation :: "'a retry_env \<Rightarrow> rat \<Rightarrow> retry_state \<Rightarrow> call_error option \<times> retry_state" where
  "sleep_with_cancellation env ms st =
     (case assert_not_aborted env st of
        (Some e, st1) \<Rightarrow> (Some e, st1)
      | (None, st1) \<Rightarrow>
          let st2 = st1\<lparr> rs_sleeps := rs_sleeps st1 @ [ms] \<rparr>
          in case rv_sleep_fault env (length (rs_sleeps st1)) of
               Some e \<Rightarrow>
                 let (aborted, st3) = ask_aborted env st2
                 in (Some (if aborted then cancelled_error ''request cancelled during retry backoff'' else e), st3)
             | None \<Rightarrow> assert_not_aborted env (st2\<lparr> rs_now := rs_now st2 + ms \<rparr>))"

definition record_failed_attempt ::
  "'a retry_env \<Rightarrow> retry_config \<Rightarrow> call_error \<Rightarrow> retry_state \<Rightarrow> 'a attempt_result \<times> retry_state" where
  "record_failed_attempt env cfg e st =
     (let (remaining, st1) = remaining_budget env cfg (st\<lparr> rs_last_error := Some e \<rparr>);
          (decision, st2) = (case repair_decision cfg e remaining (rs_repairs st1) of
            Some d \<Rightarrow> (d, st1)
          | None \<Rightarrow> retry_decision env cfg e (rs_attempt st1 - rs_repairs st1) remaining st1);
          policy = retry_policy_for cfg e
      in case decision of
           StopFor stop \<Rightarrow> (AttemptThrew e, write_line (RetryExhausted (rs_attempt st2) stop e policy) st2)
         | SleepFor ms repair \<Rightarrow>
             let st3 = (if repair \<noteq> None then st2\<lparr> rs_repairs := rs_repairs st2 + 1 \<rparr> else st2);
                 st4 = write_line (RetryScheduled (rs_attempt st3) ms repair e policy) st3;
                 st5 = announce_provider_retry env e repair policy st4
             in case sleep_with_cancellation env ms st5 of
                  (Some x, st6) \<Rightarrow> (AttemptThrew x, st6)
                | (None, st6) \<Rightarrow> (AttemptAgain, st6))"

definition or_cancelled :: "call_error option \<Rightarrow> string \<Rightarrow> call_error" where
  "or_cancelled e message = (case e of None \<Rightarrow> cancelled_error message | Some x \<Rightarrow> x)"

definition execute_retry_attempt ::
  "'a retry_env \<Rightarrow> retry_config \<Rightarrow> retry_state \<Rightarrow> 'a attempt_result \<times> retry_state" where
  "execute_retry_attempt env cfg st =
     (if (case rt_max_retries cfg of None \<Rightarrow> True
          | Some m \<Rightarrow> rt_window cfg = None \<and> rs_attempt st - rs_repairs st > m + 1)
      then (AttemptThrew (or_cancelled (rs_last_error st) ''request timeout budget exhausted after retries''), st)
      else case assert_not_aborted env st of
        (Some e, st1) \<Rightarrow> (AttemptThrew e, st1)
      | (None, st1) \<Rightarrow>
          let (remaining, st2) = remaining_budget env cfg st1
          in if remaining \<le> Finite 0
             then let e = or_cancelled (rs_last_error st2) ''request timeout budget exhausted before provider call''
                  in (AttemptThrew e, write_line (BudgetExhausted (rs_attempt st2) (rs_last_error st2 \<noteq> None) e) st2)
             else
               let (admission, st3) = admission_budget_for env cfg remaining st2;
                   input = \<lparr> in_timeout = attempt_timeout_for cfg remaining, in_remaining = remaining,
                     in_previous = rs_last_error st3, in_admission = admission \<rparr>;
                   st4 = fold (announce_wait env) (rv_waits env (length (rs_calls st3)))
                     (st3\<lparr> rs_calls := rs_calls st3 @ [input] \<rparr>)
               in case rv_operation env (length (rs_calls st3)) input of
                    Answered v \<Rightarrow> (AttemptDone v, st4)
                  | RefusedAdmission original e \<Rightarrow> (AttemptThrew (case original of None \<Rightarrow> e | Some x \<Rightarrow> x), st4)
                  | FailedWith e \<Rightarrow> record_failed_attempt env cfg e st4)"

subsection \<open>The loop\<close>

text \<open>The rounds of \<open>advance\<close>; None when the fuel is spent, which the theorems rule out.\<close>

fun advance ::
  "'a retry_env \<Rightarrow> retry_config \<Rightarrow> nat \<Rightarrow> retry_state \<Rightarrow> (call_error + 'a) option \<times> retry_state" where
  "advance env cfg 0 st = (None, st)"
| "advance env cfg (Suc n) st =
     (case execute_retry_attempt env cfg st of
        (AttemptDone v, st1) \<Rightarrow> (Some (Inr v), announce_settled env True st1)
      | (AttemptThrew e, st1) \<Rightarrow> (Some (Inl e), announce_settled env False st1)
      | (AttemptAgain, st1) \<Rightarrow> advance env cfg n (st1\<lparr> rs_attempt := rs_attempt st1 + 1 \<rparr>))"

record retry_resume =
  rm_failed :: call_error
  rm_attempts :: "int option"
  rm_repairs :: "int option"

definition new_retry_state :: "'a retry_env \<Rightarrow> rat \<Rightarrow> bool \<Rightarrow> retry_resume option \<Rightarrow> retry_state" where
  "new_retry_state env now owed resume =
     snd (let st = \<lparr> rs_now = now, rs_start = 0,
            rs_attempt = (case Option.bind resume rm_attempts of None \<Rightarrow> 1 | Some a \<Rightarrow> a),
            rs_repairs = (case Option.bind resume rm_repairs of None \<Rightarrow> 0 | Some r \<Rightarrow> r),
            rs_last_error = None, rs_readings = 0, rs_draws = 0, rs_questions = 0, rs_calls = [], rs_sleeps = [],
            rs_owed = owed, rs_notices = [], rs_log = [] \<rparr>;
          (t, st1) = read_clock env st
        in (t, st1\<lparr> rs_start := t \<rparr>))"

text \<open>
  A call from the clock's \<open>now\<close>; \<open>owed\<close> says whether the call's announcer already owes a settlement,
  as it does after an admission of a streamed call had to wait.
\<close>

definition execute_with_retry ::
  "'a retry_env \<Rightarrow> retry_config \<Rightarrow> rat \<Rightarrow> bool \<Rightarrow> retry_resume option \<Rightarrow> nat \<Rightarrow> (call_error + 'a) option \<times> retry_state" where
  "execute_with_retry env cfg now owed resume fuel =
     (let st = new_retry_state env now owed resume
      in case resume of
           None \<Rightarrow> advance env cfg fuel st
         | Some r \<Rightarrow>
             (case record_failed_attempt env cfg (rm_failed r) st of
                (AttemptThrew e, st1) \<Rightarrow> (Some (Inl e), announce_settled env False st1)
              | (_, st1) \<Rightarrow> advance env cfg fuel (st1\<lparr> rs_attempt := rs_attempt st1 + 1 \<rparr>)))"

subsection \<open>Budgets of a provider\<close>

record provider_policy =
  pp_timeout :: rat
  pp_max_retries :: int
  pp_base_delay :: rat

definition silence_floor_ms :: rat where
  "silence_floor_ms = 300000"

definition stream_budget_floor_ms :: rat where
  "stream_budget_floor_ms = 1800000"

definition buffered_budget_floor_ms :: rat where
  "buffered_budget_floor_ms = 600000"

definition coding_outage_window_ms :: rat where
  "coding_outage_window_ms = 600000"

definition min_stream_tokens_per_second :: rat where
  "min_stream_tokens_per_second = 4"

definition coding_workbench_provider_timeout :: "rat \<Rightarrow> rat" where
  "coding_workbench_provider_timeout t = max t silence_floor_ms"

text \<open>The tokens are None when no allowance or one that is not finite is stated.\<close>

definition stream_output_allowance :: "rat option \<Rightarrow> rat" where
  "stream_output_allowance tokens =
     (case tokens of
        None \<Rightarrow> 0
      | Some t \<Rightarrow> if t \<le> 0 then 0 else silence_floor_ms + of_int \<lceil>t / min_stream_tokens_per_second * 1000\<rceil>)"

definition stream_request_budget :: "rat \<Rightarrow> rat option \<Rightarrow> rat" where
  "stream_request_budget t tokens =
     min (max (max (max t silence_floor_ms) stream_budget_floor_ms) (stream_output_allowance tokens)) max_timer_delay_ms"

definition chat_attempt_timeout :: "provider_policy \<Rightarrow> rat" where
  "chat_attempt_timeout p = max (pp_timeout p) buffered_budget_floor_ms"

definition provider_request_budget :: "provider_policy \<Rightarrow> rat" where
  "provider_request_budget p =
     (let budget = (of_int (pp_max_retries p) + 1) * chat_attempt_timeout p + of_int (pp_max_retries p) * max_backoff_ms
      in min (max budget buffered_budget_floor_ms) max_timer_delay_ms)"

definition provider_retry_config :: "provider_policy \<Rightarrow> retry_config" where
  "provider_retry_config p = \<lparr> rt_should_retry = (\<lambda>e. True), rt_jitter_cooldown = False,
     rt_max_retries = Some (pp_max_retries p), rt_base_delay = pp_base_delay p,
     rt_timeout = Some (provider_request_budget p), rt_attempt_timeout = Some (chat_attempt_timeout p),
     rt_window = None, rt_repair = (\<lambda>e. None) \<rparr>"

definition call_outage_window :: "rat option \<Rightarrow> bool \<Rightarrow> rat" where
  "call_outage_window configured asked =
     (if asked then case configured of None \<Rightarrow> coding_outage_window_ms | Some w \<Rightarrow> w else 0)"

definition outage_call_budget :: "rat \<Rightarrow> rat \<Rightarrow> rat \<Rightarrow> rat" where
  "outage_call_budget budget window attempt_bound =
     (if window \<le> 0 then budget else min (max budget (window + attempt_bound)) max_timer_delay_ms)"

definition buffered_call_budget :: "provider_policy \<Rightarrow> rat \<Rightarrow> rat" where
  "buffered_call_budget p window = outage_call_budget (provider_request_budget p) window (chat_attempt_timeout p)"

definition streamed_call_budget :: "rat \<Rightarrow> rat \<Rightarrow> rat option \<Rightarrow> rat" where
  "streamed_call_budget t window tokens =
     (let budget = stream_request_budget t tokens in outage_call_budget budget window budget)"

definition coding_workbench_retry_config :: "provider_policy \<Rightarrow> rat \<Rightarrow> retry_config" where
  "coding_workbench_retry_config p window =
     (let cfg = provider_retry_config p
      in if window > 0 then cfg\<lparr> rt_window := Some window, rt_timeout := Some (buffered_call_budget p window) \<rparr> else cfg)"

end
