(* ===== verification/Retry_Frames.thy ===== *)
theory Retry_Frames
  imports Retry_Loop
begin

text \<open>
  What the steps of the retry loop change: readings, draws and questions leave everything but the clock
  and their own counters alone, and a failed attempt ends in one of three ways.
\<close>

subsection \<open>Quiet steps\<close>

definition forward :: "'a retry_env \<Rightarrow> bool" where
  "forward env \<longleftrightarrow> (\<forall>n. 0 \<le> rv_lag env n)"

definition quiet :: "'a retry_env \<Rightarrow> retry_state \<Rightarrow> retry_state \<Rightarrow> bool" where
  "quiet env st st' \<longleftrightarrow> rs_start st' = rs_start st \<and> rs_attempt st' = rs_attempt st \<and> rs_repairs st' = rs_repairs st \<and>
     rs_last_error st' = rs_last_error st \<and> rs_calls st' = rs_calls st \<and> rs_sleeps st' = rs_sleeps st \<and>
     rs_owed st' = rs_owed st \<and> rs_notices st' = rs_notices st \<and> rs_log st' = rs_log st \<and>
     (forward env \<longrightarrow> rs_now st \<le> rs_now st')"

lemma quiet_refl [simp]: "quiet env st st"
  by (simp add: quiet_def)

lemma quiet_trans: "quiet env a b \<Longrightarrow> quiet env b c \<Longrightarrow> quiet env a c"
  by (auto simp: quiet_def)

lemma read_clock_quiet:
  assumes "read_clock env st = (t, st')"
  shows "quiet env st st'" "t = rs_now st'"
  using assms by (auto simp: read_clock_def Let_def quiet_def forward_def)

lemma ask_aborted_quiet: "ask_aborted env st = (b, st') \<Longrightarrow> quiet env st st'"
  by (auto simp: ask_aborted_def quiet_def)

lemma draw_random_quiet: "draw_random env st = (r, st') \<Longrightarrow> quiet env st st' \<and> (\<exists>n. r = rv_random env n)"
  by (auto simp: draw_random_def quiet_def)

lemma elapsed_quiet:
  assumes "elapsed_ms env st = (t, st')"
  shows "quiet env st st'" "t = rs_now st' - rs_start st'"
proof -
  obtain now st1 where r: "read_clock env st = (now, st1)" by (cases "read_clock env st") auto
  from assms have "t = now - rs_start st1" "st' = st1" by (auto simp: elapsed_ms_def r)
  with read_clock_quiet [OF r] show "quiet env st st'" "t = rs_now st' - rs_start st'" by simp_all
qed

text \<open>What is left of the budget at the state's time.\<close>

definition budget_left :: "retry_config \<Rightarrow> retry_state \<Rightarrow> millis" where
  "budget_left cfg st = (case rt_timeout cfg of None \<Rightarrow> Infinite | Some t \<Rightarrow> Finite (max 0 (t - (rs_now st - rs_start st))))"

lemma remaining_quiet:
  assumes "remaining_budget env cfg st = (r, st')"
  shows "quiet env st st'" "r = budget_left cfg st'"
proof -
  obtain now st1 where c: "read_clock env st = (now, st1)" by (cases "read_clock env st") auto
  have "quiet env st st' \<and> r = budget_left cfg st'"
    using assms read_clock_quiet [OF c]
    by (cases "rt_timeout cfg") (auto simp: remaining_budget_def budget_left_def c)
  then show "quiet env st st'" "r = budget_left cfg st'" by blast+
qed

lemma assert_not_aborted_quiet:
  assumes "assert_not_aborted env st = (r, st')"
  shows "quiet env st st'"
proof -
  obtain b st1 where b: "ask_aborted env st = (b, st1)" by (cases "ask_aborted env st") auto
  with assms ask_aborted_quiet [OF b] show ?thesis by (simp add: assert_not_aborted_def)
qed

lemma admission_quiet:
  assumes "admission_budget_for env cfg remaining st = (r, st')"
  shows "quiet env st st'"
proof -
  obtain t st1 where t: "elapsed_ms env st = (t, st1)" by (cases "elapsed_ms env st") auto
  with assms elapsed_quiet(1) [OF t] show ?thesis
    by (cases "rt_window cfg") (simp_all add: admission_budget_for_def)
qed

subsection \<open>Delays\<close>

text \<open>Draws from the unit interval and a base delay that is not negative.\<close>

definition fair :: "'a retry_env \<Rightarrow> retry_config \<Rightarrow> bool" where
  "fair env cfg \<longleftrightarrow> (\<forall>n. 0 \<le> rv_random env n \<and> rv_random env n \<le> 1) \<and> 0 \<le> rt_base_delay cfg"

lemma power_of_two_pos: "0 < power_of_two k"
  by (simp add: power_of_two_def)

lemma power_of_two_ge: "0 \<le> k \<Longrightarrow> 1 \<le> power_of_two k"
  by (simp add: power_of_two_def)

lemma max_backoff_range: "0 \<le> base \<Longrightarrow> 0 \<le> max_backoff_delay attempt base \<and> max_backoff_delay attempt base \<le> max_backoff_ms"
  using power_of_two_pos [of "attempt - 1"] by (simp add: max_backoff_delay_def max_backoff_ms_def)

lemma js_round_mono: "x \<le> y \<Longrightarrow> js_round x \<le> js_round y"
  by (simp add: js_round_def floor_mono)

lemma backoff_range:
  assumes "0 \<le> base" and "0 \<le> r" "r \<le> 1"
  shows "0 \<le> backoff_delay attempt base r" "backoff_delay attempt base r \<le> max_backoff_ms"
proof -
  let ?m = "max_backoff_delay attempt base" and ?f = "1 / 2 + 1 / 2 * r"
  have m: "0 \<le> ?m" "?m \<le> max_backoff_ms" using max_backoff_range [OF assms(1)] by blast+
  have f: "0 \<le> ?f" "?f \<le> 1" using assms(2,3) by simp_all
  have low: "0 \<le> ?m * ?f" using m(1) f(1) by (rule mult_nonneg_nonneg)
  have "?m * ?f \<le> max_backoff_ms * 1"
    using m f by (intro mult_mono) (simp_all add: max_backoff_ms_def)
  then have "js_round (?m * ?f) \<le> js_round max_backoff_ms" by (intro js_round_mono) simp
  moreover have "js_round max_backoff_ms = max_backoff_ms" 
  proof -
    have "\<lfloor>(30000 :: rat) + 1 / 2\<rfloor> = 30000" by (subst floor_unique) simp_all
    then show ?thesis by (simp only: js_round_def max_backoff_ms_def of_int_numeral)
  qed
  ultimately show "backoff_delay attempt base r \<le> max_backoff_ms" by (simp add: backoff_delay_def)
  have "0 \<le> ?m * ?f + 1 / 2" using low by (rule add_nonneg_nonneg) simp
  then have "0 \<le> \<lfloor>?m * ?f + 1 / 2\<rfloor>" by (simp only: zero_le_floor)
  then show "0 \<le> backoff_delay attempt base r" by (simp only: backoff_delay_def js_round_def of_int_0_le_iff)
qed

lemma backoff_positive:
  assumes "1 \<le> base" and "0 \<le> r" and "1 \<le> attempt"
  shows "1 \<le> backoff_delay attempt base r"
proof -
  let ?m = "max_backoff_delay attempt base" and ?f = "1 / 2 + 1 / 2 * r"
  have "1 * 1 \<le> base * power_of_two (attempt - 1)"
    using assms(1,3) by (intro mult_mono) (simp_all add: power_of_two_ge)
  then have "1 \<le> ?m" by (simp add: max_backoff_delay_def max_backoff_ms_def)
  then have "1 * (1 / 2) \<le> ?m * ?f" using assms(2) by (intro mult_mono) simp_all
  then have "js_round (1 / 2) \<le> js_round (?m * ?f)" by (intro js_round_mono) simp
  then show ?thesis by (simp add: backoff_delay_def js_round_def)
qed

text \<open>A positive cooldown of the error, when it carries one.\<close>

definition cooldown_of :: "call_error \<Rightarrow> rat option" where
  "cooldown_of e = (case error_retry_after e of Some (Finite ms) \<Rightarrow> if ms > 0 then Some ms else None | _ \<Rightarrow> None)"

lemma retry_delay_cases:
  assumes "retry_delay env cfg e attempt st = (d, st')"
  shows "quiet env st st' \<and>
    (case cooldown_of e of
       None \<Rightarrow> \<exists>n. d = backoff_delay attempt (rt_base_delay cfg) (rv_random env n)
     | Some ms \<Rightarrow> \<exists>j. 0 \<le> j \<and> d = min (ms + j) max_timer_delay_ms)"
proof (cases "cooldown_of e")
  case None
  then have "retry_delay env cfg e attempt st = (let (r, st1) = draw_random env st in (backoff_delay attempt (rt_base_delay cfg) r, st1))"
    by (auto simp: cooldown_of_def retry_delay_def Let_def split: option.splits millis.splits if_splits)
  with assms None draw_random_quiet [of env st] show ?thesis by (auto split: prod.splits)
next
  case (Some ms)
  then have ms: "error_retry_after e = Some (Finite ms)" "0 < ms"
    by (auto simp: cooldown_of_def split: option.splits millis.splits if_splits)
  show ?thesis
  proof (cases "rt_jitter_cooldown cfg")
    case True
    obtain r st1 where r: "draw_random env st = (r, st1)" by (cases "draw_random env st") auto
    with assms ms True have "d = min (ms + max 1 (backoff_delay attempt (rt_base_delay cfg) r)) max_timer_delay_ms" "st' = st1"
      by (simp_all add: retry_delay_def Let_def)
    with draw_random_quiet [OF r] Some show ?thesis
      by (auto intro!: exI [of _ "max 1 (backoff_delay attempt (rt_base_delay cfg) r)"])
  next
    case False
    with assms ms have "d = min (ms + 0) max_timer_delay_ms" "st' = st" by (simp_all add: retry_delay_def Let_def)
    with Some show ?thesis by auto
  qed
qed

lemma retry_delay_range:
  assumes "retry_delay env cfg e attempt st = (d, st')" and "fair env cfg"
  shows "0 \<le> d"
proof (cases "cooldown_of e")
  case None
  with retry_delay_cases [OF assms(1)] assms(2) show ?thesis
    by (auto simp: fair_def intro: backoff_range(1))
next
  case (Some ms)
  then have "0 < ms" by (auto simp: cooldown_of_def split: option.splits millis.splits if_splits)
  with Some retry_delay_cases [OF assms(1)] show ?thesis by (auto simp: max_timer_delay_ms_def)
qed

subsection \<open>Decisions\<close>

lemma retry_decision_quiet:
  assumes "retry_decision env cfg e attempt remaining st = (d, st')"
  shows "quiet env st st'"
proof -
  obtain x st1 where x: "retry_delay env cfg e attempt st = (x, st1)" by (cases "retry_delay env cfg e attempt st") auto
  obtain t st2 where t: "elapsed_ms env st1 = (t, st2)" by (cases "elapsed_ms env st1") auto
  have "quiet env st st1" using retry_delay_cases [OF x] by blast
  moreover from this have "quiet env st st2" using elapsed_quiet(1) [OF t] by (rule quiet_trans)
  ultimately show ?thesis
    using assms by (auto simp: retry_decision_def x t split: if_splits option.splits)
qed

text \<open>A retry that is scheduled: the failure may be retried, the count or the window allows it, and its delay fits.\<close>

lemma retry_decision_sleeps:
  assumes "retry_decision env cfg e attempt remaining st = (SleepFor d repair, st')" and "fair env cfg"
  shows "repair = None" "0 \<le> d" "is_retryable_error e" "Finite d < remaining"
    "decision_window cfg e = None \<Longrightarrow> rt_max_retries cfg = Some m \<Longrightarrow> attempt \<le> m"
    "decision_window cfg e = Some w \<Longrightarrow> d < w - (rs_now st' - rs_start st')"
    "\<exists>st0 st1. retry_delay env cfg e attempt st0 = (d, st1)"
proof -
  obtain x st1 where x: "retry_delay env cfg e attempt st = (x, st1)" by (cases "retry_delay env cfg e attempt st") auto
  from assms(1) have retry: "is_retryable_error e" and count: "\<not> (decision_window cfg e = None \<and>
      (case rt_max_retries cfg of None \<Rightarrow> False | Some m \<Rightarrow> attempt > m))"
    by (auto simp: retry_decision_def split: if_splits)
  show "is_retryable_error e" by fact
  obtain t st2 where t: "elapsed_ms env st1 = (t, st2)" by (cases "elapsed_ms env st1") auto
  have fit: "repair = None \<and> d = x \<and> (case decision_window cfg e of
      None \<Rightarrow> Finite x < remaining
    | Some w \<Rightarrow> st' = st2 \<and> \<not> max (Finite 0) (min remaining (Finite (w - t))) \<le> Finite x)"
    using assms(1) by (auto simp: retry_decision_def x t not_le [of remaining] simp del: max.bounded_iff max.coboundedI1
        split: if_splits option.splits)
  then show "repair = None" "\<exists>st0 st1. retry_delay env cfg e attempt st0 = (d, st1)" using x by auto
  show "decision_window cfg e = None \<Longrightarrow> rt_max_retries cfg = Some m \<Longrightarrow> attempt \<le> m" using count by auto
  show d: "0 \<le> d" using fit retry_delay_range [OF x assms(2)] by simp
  show "Finite d < remaining"
  proof (cases "decision_window cfg e")
    case (Some w)
    with fit d show ?thesis by (auto simp: not_le less_max_iff_disj)
  qed (use fit in simp)
  show "d < w - (rs_now st' - rs_start st')" if "decision_window cfg e = Some w"
    using that fit d elapsed_quiet(2) [OF t] by (auto simp: not_le less_max_iff_disj)
qed

subsection \<open>A failed attempt\<close>

lemma tell_simps [simp]:
  "rs_notices (tell env x st) = rs_notices st @ [x]" "rs_owed (tell env x st) = rs_owed st"
  "rs_now (tell env x st) = rs_now st" "rs_start (tell env x st) = rs_start st"
  "rs_attempt (tell env x st) = rs_attempt st" "rs_repairs (tell env x st) = rs_repairs st"
  "rs_last_error (tell env x st) = rs_last_error st" "rs_calls (tell env x st) = rs_calls st"
  "rs_sleeps (tell env x st) = rs_sleeps st" "rs_readings (tell env x st) = rs_readings st"
  by (simp_all add: tell_def write_line_def Let_def)

lemma write_line_simps [simp]:
  "rs_notices (write_line x st) = rs_notices st" "rs_owed (write_line x st) = rs_owed st"
  "rs_now (write_line x st) = rs_now st" "rs_start (write_line x st) = rs_start st"
  "rs_attempt (write_line x st) = rs_attempt st" "rs_repairs (write_line x st) = rs_repairs st"
  "rs_last_error (write_line x st) = rs_last_error st" "rs_calls (write_line x st) = rs_calls st"
  "rs_sleeps (write_line x st) = rs_sleeps st" "rs_log (write_line x st) = rs_log st @ [x]"
  "rs_readings (write_line x st) = rs_readings st"
  by (simp_all add: write_line_def)

lemma announce_wait_simps [simp]:
  "rs_now (announce_wait env w st) = rs_now st" "rs_start (announce_wait env w st) = rs_start st"
  "rs_attempt (announce_wait env w st) = rs_attempt st" "rs_repairs (announce_wait env w st) = rs_repairs st"
  "rs_last_error (announce_wait env w st) = rs_last_error st" "rs_calls (announce_wait env w st) = rs_calls st"
  "rs_sleeps (announce_wait env w st) = rs_sleeps st" "rs_readings (announce_wait env w st) = rs_readings st"
  by (simp_all add: announce_wait_def)

lemma announce_waits_simps [simp]:
  "rs_now (fold (announce_wait env) ws st) = rs_now st" "rs_start (fold (announce_wait env) ws st) = rs_start st"
  "rs_attempt (fold (announce_wait env) ws st) = rs_attempt st" "rs_repairs (fold (announce_wait env) ws st) = rs_repairs st"
  "rs_last_error (fold (announce_wait env) ws st) = rs_last_error st" "rs_calls (fold (announce_wait env) ws st) = rs_calls st"
  "rs_sleeps (fold (announce_wait env) ws st) = rs_sleeps st" "rs_readings (fold (announce_wait env) ws st) = rs_readings st"
  by (induction ws arbitrary: st) simp_all

text \<open>The lines that are not about an observer that threw.\<close>

definition retry_lines :: "retry_state \<Rightarrow> retry_event list" where
  "retry_lines st = filter (\<lambda>e. \<forall>x. e \<noteq> ObserverFailed x) (rs_log st)"

lemma retry_lines_tell [simp]: "retry_lines (tell env x st) = retry_lines st"
  by (simp add: tell_def retry_lines_def Let_def)

lemma sleep_cases:
  assumes "sleep_with_cancellation env ms st = (r, st')"
  shows "(\<exists>e. r = Some e \<and> quiet env st st') \<or>
    (\<exists>e. r = Some e \<and> quiet env (st\<lparr> rs_sleeps := rs_sleeps st @ [ms] \<rparr>) st') \<or>
    (quiet env (st\<lparr> rs_sleeps := rs_sleeps st @ [ms], rs_now := rs_now st + ms \<rparr>) st')"
proof -
  obtain a st1 where a: "assert_not_aborted env st = (a, st1)" by (cases "assert_not_aborted env st") auto
  note q = assert_not_aborted_quiet [OF a]
  show ?thesis
  proof (cases a)
    case (Some e)
    with assms a q show ?thesis by (auto simp: sleep_with_cancellation_def)
  next
    case None
    let ?st2 = "st1\<lparr> rs_sleeps := rs_sleeps st1 @ [ms] \<rparr>"
    show ?thesis
    proof (cases "rv_sleep_fault env (length (rs_sleeps st1))")
      case (Some e)
      obtain b st3 where b: "ask_aborted env ?st2 = (b, st3)" by (cases "ask_aborted env ?st2") auto
      have "quiet env ?st2 st3" by (rule ask_aborted_quiet [OF b])
      with q have "quiet env (st\<lparr> rs_sleeps := rs_sleeps st @ [ms] \<rparr>) st3" by (auto simp: quiet_def)
      moreover have "st' = st3" "r \<noteq> None"
        using assms by (auto simp: sleep_with_cancellation_def a None Some b)
      ultimately show ?thesis by auto
    next
      case none: None
      let ?st3 = "?st2\<lparr> rs_now := rs_now ?st2 + ms \<rparr>"
      have "assert_not_aborted env ?st3 = (r, st')"
        using assms by (simp add: sleep_with_cancellation_def a None none)
      from assert_not_aborted_quiet [OF this] q
      have "quiet env (st\<lparr> rs_sleeps := rs_sleeps st @ [ms], rs_now := rs_now st + ms \<rparr>) st'"
        by (auto simp: quiet_def)
      then show ?thesis by blast
    qed
  qed
qed

text \<open>
  A failed attempt ends the call, with its line, or schedules a sleep, with its line, its repair when
  it is one, and its notice when the failure is the provider's.
\<close>

definition scheduled_state :: "'a retry_env \<Rightarrow> retry_config \<Rightarrow> call_error \<Rightarrow> rat \<Rightarrow> repair_reason option \<Rightarrow> retry_state \<Rightarrow> retry_state" where
  "scheduled_state env cfg e ms repair st =
     (let st3 = (if repair \<noteq> None then st\<lparr> rs_repairs := rs_repairs st + 1 \<rparr> else st);
          st4 = write_line (RetryScheduled (rs_attempt st3) ms repair e (retry_policy_for cfg e)) st3
      in announce_provider_retry env e repair (retry_policy_for cfg e) st4)"

definition allowed_sleep :: "'a retry_env \<Rightarrow> retry_config \<Rightarrow> call_error \<Rightarrow> rat \<Rightarrow> repair_reason option \<Rightarrow> retry_state \<Rightarrow> millis \<Rightarrow> bool" where
  "allowed_sleep env cfg e ms repair st remaining \<longleftrightarrow> Finite ms < remaining \<and>
     (case repair of
        Some reason \<Rightarrow> ms = 0 \<and> rs_repairs st = 0 \<and> rt_repair cfg e = Some reason
      | None \<Rightarrow> is_retryable_error e \<and> 0 \<le> ms \<and>
          (\<forall>m. decision_window cfg e = None \<and> rt_max_retries cfg = Some m \<longrightarrow> rs_attempt st - rs_repairs st \<le> m) \<and>
          (\<forall>w. decision_window cfg e = Some w \<longrightarrow> ms < w - (rs_now st - rs_start st)) \<and>
          (\<exists>st0 st1. retry_delay env cfg e (rs_attempt st - rs_repairs st) st0 = (ms, st1)))"

lemma record_failed_cases:
  assumes "record_failed_attempt env cfg e st = (r, st')" and "fair env cfg"
  obtains (stop) st2 s where "quiet env (st\<lparr> rs_last_error := Some e \<rparr>) st2" and "r = AttemptThrew e"
      and "st' = write_line (RetryExhausted (rs_attempt st2) s e (retry_policy_for cfg e)) st2"
  | (sleep) st1 st2 ms repair s where "quiet env (st\<lparr> rs_last_error := Some e \<rparr>) st1" and "quiet env st1 st2"
      and "allowed_sleep env cfg e ms repair st2 (budget_left cfg st1)"
      and "sleep_with_cancellation env ms (scheduled_state env cfg e ms repair st2) = (s, st')"
      and "r = (case s of Some x \<Rightarrow> AttemptThrew x | None \<Rightarrow> AttemptAgain)"
proof -
  let ?st0 = "st\<lparr> rs_last_error := Some e \<rparr>"
  obtain remaining st1 where rem: "remaining_budget env cfg ?st0 = (remaining, st1)" by (cases "remaining_budget env cfg ?st0") auto
  note q1 = remaining_quiet [OF rem]
  obtain d st2 where d: "(case repair_decision cfg e remaining (rs_repairs st1) of Some d \<Rightarrow> (d, st1)
      | None \<Rightarrow> retry_decision env cfg e (rs_attempt st1 - rs_repairs st1) remaining st1) = (d, st2)" by fastforce
  have q2: "quiet env st1 st2"
    using d retry_decision_quiet [of env cfg e "rs_attempt st1 - rs_repairs st1" remaining st1]
    by (auto split: option.splits)
  have run: "record_failed_attempt env cfg e st =
      (case d of
         StopFor stop \<Rightarrow> (AttemptThrew e, write_line (RetryExhausted (rs_attempt st2) stop e (retry_policy_for cfg e)) st2)
       | SleepFor ms repair \<Rightarrow> (case sleep_with_cancellation env ms (scheduled_state env cfg e ms repair st2) of
            (Some x, st6) \<Rightarrow> (AttemptThrew x, st6) | (None, st6) \<Rightarrow> (AttemptAgain, st6)))"
    unfolding record_failed_attempt_def rem d scheduled_state_def Let_def by (simp add: d split: retry_decision.splits)
  show thesis
  proof (cases d)
    case (StopFor s)
    with run assms(1) q1 q2 show thesis by (intro stop [of st2 s]) (auto intro: quiet_trans)
  next
    case (SleepFor ms repair)
    obtain s st6 where s: "sleep_with_cancellation env ms (scheduled_state env cfg e ms repair st2) = (s, st6)" by fastforce
    have same: "rs_attempt st2 = rs_attempt st1" "rs_repairs st2 = rs_repairs st1" using q2 by (auto simp: quiet_def)
    have "allowed_sleep env cfg e ms repair st2 remaining"
    proof (cases "repair_decision cfg e remaining (rs_repairs st1)")
      case (Some x)
      with d SleepFor show ?thesis
        by (auto simp: repair_decision_def allowed_sleep_def not_le split: option.splits if_splits)
    next
      case None
      with d SleepFor have "retry_decision env cfg e (rs_attempt st1 - rs_repairs st1) remaining st1 = (SleepFor ms repair, st2)" by simp
      from retry_decision_sleeps [OF this assms(2)] show ?thesis
        using same by (auto simp: allowed_sleep_def)
    qed
    then have allowed: "allowed_sleep env cfg e ms repair st2 (budget_left cfg st1)" using q1(2) by simp
    have "st' = st6" "r = (case s of Some x \<Rightarrow> AttemptThrew x | None \<Rightarrow> AttemptAgain)"
      using run assms(1) SleepFor s by (auto split: option.splits)
    with s show thesis by (intro sleep [OF q1(1) q2 allowed]) simp_all
  qed
qed

end
