(* ===== verification/Retry_Invariant.thy ===== *)
theory Retry_Invariant
  imports Retry_Frames
begin

text \<open>
  The facts behind what the retry loop promises: it ends, its sleeps and attempts stay inside the budget of the call and
  honour the cooldown a provider announced, and its observer hears exactly one settlement.
\<close>

subsection \<open>One round\<close>

lemma execute_cases:
  assumes "execute_retry_attempt env cfg st = (r, st')"
  obtains (refused) st2 e where "quiet env st st2" and "r = AttemptThrew e"
      and "st' = st2 \<or> (\<exists>a b x. st' = write_line (BudgetExhausted a b x) st2)"
  | (called) st2 st3 input where "quiet env st st2" "quiet env st2 st3"
      and "Finite 0 < in_remaining input" "in_remaining input = budget_left cfg st2"
      and "in_timeout input = attempt_timeout_for cfg (in_remaining input)"
      and "\<exists>m. rt_max_retries cfg = Some m \<and> (rt_window cfg = None \<longrightarrow> rs_attempt st - rs_repairs st \<le> m + 1)"
      and "(case rv_operation env (length (rs_calls st)) input of
          Answered v \<Rightarrow> (AttemptDone v, fold (announce_wait env) (rv_waits env (length (rs_calls st))) (st3\<lparr> rs_calls := rs_calls st @ [input] \<rparr>))
        | RefusedAdmission x e \<Rightarrow> (AttemptThrew (case x of None \<Rightarrow> e | Some y \<Rightarrow> y),
            fold (announce_wait env) (rv_waits env (length (rs_calls st))) (st3\<lparr> rs_calls := rs_calls st @ [input] \<rparr>))
        | FailedWith e \<Rightarrow> record_failed_attempt env cfg e
            (fold (announce_wait env) (rv_waits env (length (rs_calls st))) (st3\<lparr> rs_calls := rs_calls st @ [input] \<rparr>))) = (r, st')"
proof (cases "case rt_max_retries cfg of None \<Rightarrow> True
    | Some m \<Rightarrow> rt_window cfg = None \<and> rs_attempt st - rs_repairs st > m + 1")
  case True
  with assms show thesis by (intro refused [of st]) (auto simp: execute_retry_attempt_def)
next
  case False
  then have count: "\<exists>m. rt_max_retries cfg = Some m \<and> (rt_window cfg = None \<longrightarrow> rs_attempt st - rs_repairs st \<le> m + 1)"
    by (auto split: option.splits)
  obtain a st1 where a: "assert_not_aborted env st = (a, st1)" by (cases "assert_not_aborted env st") auto
  note q1 = assert_not_aborted_quiet [OF a]
  show thesis
  proof (cases a)
    case (Some e)
    with assms False a q1 show thesis by (intro refused [of st1 e]) (simp_all add: execute_retry_attempt_def)
  next
    case None
    obtain remaining st2 where rem: "remaining_budget env cfg st1 = (remaining, st2)" by (cases "remaining_budget env cfg st1") auto
    note q2 = remaining_quiet [OF rem]
    show thesis
    proof (cases "remaining \<le> Finite 0")
      case True
      with assms False a None rem q1 q2(1) show thesis
        by (intro refused [of st2]) (auto simp: execute_retry_attempt_def Let_def intro: quiet_trans)
    next
      case left: False
      obtain adm st3 where adm: "admission_budget_for env cfg remaining st2 = (adm, st3)"
        by (cases "admission_budget_for env cfg remaining st2") auto
      note q3 = admission_quiet [OF adm]
      have calls: "rs_calls st3 = rs_calls st" using q1 q2(1) q3 by (simp add: quiet_def)
      let ?input = "\<lparr> in_timeout = attempt_timeout_for cfg remaining, in_remaining = remaining,
        in_previous = rs_last_error st3, in_admission = adm \<rparr>"
      have run: "execute_retry_attempt env cfg st = (case rv_operation env (length (rs_calls st)) ?input of
          Answered v \<Rightarrow> (AttemptDone v, fold (announce_wait env) (rv_waits env (length (rs_calls st))) (st3\<lparr> rs_calls := rs_calls st @ [?input] \<rparr>))
        | RefusedAdmission x e \<Rightarrow> (AttemptThrew (case x of None \<Rightarrow> e | Some y \<Rightarrow> y),
            fold (announce_wait env) (rv_waits env (length (rs_calls st))) (st3\<lparr> rs_calls := rs_calls st @ [?input] \<rparr>))
        | FailedWith e \<Rightarrow> record_failed_attempt env cfg e
            (fold (announce_wait env) (rv_waits env (length (rs_calls st))) (st3\<lparr> rs_calls := rs_calls st @ [?input] \<rparr>)))"
        unfolding execute_retry_attempt_def if_not_P [OF False] a None rem adm Let_def prod.case option.case if_not_P [OF left] calls ..
      show thesis
        by (rule called [OF quiet_trans [OF q1 q2(1)] q3, of ?input])
          (use q2(2) left count run assms in \<open>simp_all add: not_le\<close>)
    qed
  qed
qed

subsection \<open>Ending\<close>

text \<open>A lower bound on every backoff: a base delay and cooldowns of at least one millisecond, and a clock that goes forward.\<close>

definition paced_error :: "call_error \<Rightarrow> bool" where
  "paced_error e \<longleftrightarrow> (\<forall>c. cooldown_of e = Some c \<longrightarrow> 1 \<le> c)"

definition pacing :: "'a retry_env \<Rightarrow> retry_config \<Rightarrow> bool" where
  "pacing env cfg \<longleftrightarrow> forward env \<and> 1 \<le> rt_base_delay cfg \<and>
     (\<forall>n i e. rv_operation env n i = FailedWith e \<longrightarrow> paced_error e)"

text \<open>The rounds that may still follow.\<close>

definition rounds_left :: "retry_config \<Rightarrow> int \<Rightarrow> retry_state \<Rightarrow> nat" where
  "rounds_left cfg m st = (case rt_window cfg of None \<Rightarrow> 0 | Some w \<Rightarrow> nat \<lceil>w - (rs_now st - rs_start st)\<rceil>) +
     nat (m + 1 - (rs_attempt st - rs_repairs st)) + (if rs_repairs st = 0 then 1 else 0)"

definition counted :: "retry_state \<Rightarrow> bool" where
  "counted st \<longleftrightarrow> 1 \<le> rs_attempt st - rs_repairs st \<and> 0 \<le> rs_repairs st"

lemma scheduled_state_simps [simp]:
  "rs_now (scheduled_state env cfg e ms repair st) = rs_now st"
  "rs_start (scheduled_state env cfg e ms repair st) = rs_start st"
  "rs_attempt (scheduled_state env cfg e ms repair st) = rs_attempt st"
  "rs_repairs (scheduled_state env cfg e ms repair st) = rs_repairs st + (if repair \<noteq> None then 1 else 0)"
  "rs_calls (scheduled_state env cfg e ms repair st) = rs_calls st"
  "rs_sleeps (scheduled_state env cfg e ms repair st) = rs_sleeps st"
  by (simp_all add: scheduled_state_def announce_provider_retry_def announce_scheduled_def Let_def)

lemma quiet_keeps:
  assumes "quiet env a b"
  shows "rs_start b = rs_start a" "rs_attempt b = rs_attempt a" "rs_repairs b = rs_repairs a"
    "rs_calls b = rs_calls a" "rs_sleeps b = rs_sleeps a" "rs_last_error b = rs_last_error a"
    "forward env \<Longrightarrow> rs_now a \<le> rs_now b"
  using assms by (simp_all add: quiet_def)

text \<open>What a failed attempt that goes on has done.\<close>

lemma again_record:
  assumes "record_failed_attempt env cfg e st = (AttemptAgain, st')" and "fair env cfg"
  obtains ms repair st1 st2 where "rs_calls st' = rs_calls st" "rs_sleeps st' = rs_sleeps st @ [ms]"
    and "rs_attempt st' = rs_attempt st" "rs_start st' = rs_start st"
    and "rs_repairs st' = rs_repairs st + (if repair \<noteq> None then 1 else 0)"
    and "allowed_sleep env cfg e ms repair st2 (budget_left cfg st1)"
    and "rs_attempt st2 = rs_attempt st" "rs_repairs st2 = rs_repairs st" "rs_start st2 = rs_start st" "rs_start st1 = rs_start st"
    and "forward env \<Longrightarrow> rs_now st \<le> rs_now st1 \<and> rs_now st1 \<le> rs_now st2 \<and> rs_now st2 + ms \<le> rs_now st'"
  using assms
proof (cases rule: record_failed_cases)
  case (stop st2 s)
  then show thesis by simp
next
  case (sleep st1 st2 ms repair s)
  then have none: "s = None" by (cases s) auto
  from sleep_cases [OF sleep(4)] none
  have slept: "quiet env ((scheduled_state env cfg e ms repair st2)\<lparr> rs_sleeps := rs_sleeps st2 @ [ms],
      rs_now := rs_now st2 + ms \<rparr>) st'" by auto
  note k1 = quiet_keeps [OF sleep(1)] and k2 = quiet_keeps [OF sleep(2)] and k3 = quiet_keeps [OF slept]
  show thesis
  proof (rule that [OF _ _ _ _ _ sleep(3)])
    show "forward env \<Longrightarrow> rs_now st \<le> rs_now st1 \<and> rs_now st1 \<le> rs_now st2 \<and> rs_now st2 + ms \<le> rs_now st'"
      using k1(7) k2(7) k3(7) by simp
  qed (auto simp: k1 k2 k3)
qed

text \<open>A round goes on only after a failed attempt.\<close>

lemma again_failed:
  assumes "execute_retry_attempt env cfg st = (AttemptAgain, st')"
  obtains e input sc where "rv_operation env (length (rs_calls st)) input = FailedWith e"
    and "record_failed_attempt env cfg e sc = (AttemptAgain, st')"
    and "rs_calls sc = rs_calls st @ [input]" "rs_sleeps sc = rs_sleeps st" "rs_attempt sc = rs_attempt st"
      "rs_repairs sc = rs_repairs st" "rs_start sc = rs_start st"
    and "forward env \<Longrightarrow> rs_now st \<le> rs_now sc"
  using assms
proof (cases rule: execute_cases)
  case (refused st2 e)
  then show thesis by simp
next
  case (called sa sb input)
  note k = quiet_keeps [OF quiet_trans [OF called(1,2)]]
  from called(7) obtain e where e: "rv_operation env (length (rs_calls st)) input = FailedWith e"
    and rec: "record_failed_attempt env cfg e (fold (announce_wait env) (rv_waits env (length (rs_calls st)))
      (sb\<lparr> rs_calls := rs_calls st @ [input] \<rparr>)) = (AttemptAgain, st')"
    by (auto split: attempt_outcome.splits)
  show thesis by (rule that [OF e rec]) (simp_all add: k)
qed

lemma ceiling_drop: "x' \<le> x - 1 \<Longrightarrow> 1 < x \<Longrightarrow> nat \<lceil>x'\<rceil> < nat \<lceil>x\<rceil>" for x x' :: rat
  by linarith

lemma record_decreases:
  assumes "record_failed_attempt env cfg e st = (AttemptAgain, st')" and "fair env cfg" and "counted st"
    and "rt_max_retries cfg = Some m" and "rt_window cfg = None \<or> pacing env cfg \<and> paced_error e"
  defines "next_st \<equiv> st'\<lparr> rs_attempt := rs_attempt st' + 1 \<rparr>"
  shows "rounds_left cfg m next_st < rounds_left cfg m st" "counted next_st" "rs_calls st' = rs_calls st"
proof -
  obtain ms repair st1 st2 where calls: "rs_calls st' = rs_calls st"
    and kept: "rs_attempt st' = rs_attempt st" "rs_start st' = rs_start st"
      "rs_repairs st' = rs_repairs st + (if repair \<noteq> None then 1 else 0)"
    and allowed: "allowed_sleep env cfg e ms repair st2 (budget_left cfg st1)"
    and same: "rs_attempt st2 = rs_attempt st" "rs_repairs st2 = rs_repairs st" "rs_start st2 = rs_start st"
    and time: "forward env \<Longrightarrow> rs_now st \<le> rs_now st1 \<and> rs_now st1 \<le> rs_now st2 \<and> rs_now st2 + ms \<le> rs_now st'"
    using again_record [OF assms(1,2)] by metis
  show "rs_calls st' = rs_calls st" by (rule calls)
  have nonneg: "0 \<le> ms" using allowed by (auto simp: allowed_sleep_def split: option.splits)
  have window: "(case rt_window cfg of None \<Rightarrow> 0 | Some w \<Rightarrow> nat \<lceil>w - (rs_now st' - rs_start st)\<rceil>) \<le>
      (case rt_window cfg of None \<Rightarrow> 0 | Some w \<Rightarrow> nat \<lceil>w - (rs_now st - rs_start st)\<rceil>)"
    using assms(5) time nonneg
    by (auto simp: pacing_def split: option.splits intro!: nat_mono ceiling_mono)
  show "counted next_st" using assms(3) kept by (auto simp: counted_def next_st_def)
  have next_rounds: "rounds_left cfg m next_st = (case rt_window cfg of None \<Rightarrow> 0 | Some w \<Rightarrow> nat \<lceil>w - (rs_now st' - rs_start st)\<rceil>) +
      nat (m + 1 - (rs_attempt st + 1 - rs_repairs st')) + (if rs_repairs st' = 0 then 1 else 0)"
    using kept(1,2) by (simp add: rounds_left_def next_st_def split: option.split)
  show "rounds_left cfg m next_st < rounds_left cfg m st"
  proof (cases repair)
    case (Some reason)
    with allowed have "rs_repairs st = 0" using same by (simp add: allowed_sleep_def)
    with Some window kept(3) show ?thesis unfolding next_rounds by (simp add: rounds_left_def)
  next
    case None
    show ?thesis
    proof (cases "decision_window cfg e")
      case none: None
      with None allowed assms(4) same have "rs_attempt st - rs_repairs st \<le> m" by (simp add: allowed_sleep_def)
      with None window kept(3) show ?thesis unfolding next_rounds by (simp add: rounds_left_def)
    next
      case (Some w)
      then have w: "rt_window cfg = Some w" by (auto simp: decision_window_def split: if_splits)
      with assms(5) have pace: "pacing env cfg" "paced_error e" by simp_all
      from None allowed Some same have fits: "ms < w - (rs_now st2 - rs_start st)"
        and "\<exists>st0 st1. retry_delay env cfg e (rs_attempt st - rs_repairs st) st0 = (ms, st1)"
        by (auto simp: allowed_sleep_def)
      then obtain st0 st3 where delay: "retry_delay env cfg e (rs_attempt st - rs_repairs st) st0 = (ms, st3)" by blast
      have "1 \<le> ms"
      proof (cases "cooldown_of e")
        case None
        then obtain n where "ms = backoff_delay (rs_attempt st - rs_repairs st) (rt_base_delay cfg) (rv_random env n)"
          using retry_delay_cases [OF delay] by auto
        moreover have "1 \<le> rt_base_delay cfg" "0 \<le> rv_random env n" using pace assms(2) by (simp_all add: pacing_def fair_def)
        ultimately show ?thesis using assms(3) by (auto simp: counted_def intro: backoff_positive)
      next
        case (Some c)
        then obtain j where "0 \<le> j" "ms = min (c + j) max_timer_delay_ms" using retry_delay_cases [OF delay] by auto
        moreover have "1 \<le> c" using pace(2) Some by (simp add: paced_error_def)
        ultimately show ?thesis by (simp add: max_timer_delay_ms_def)
      qed
      moreover have "rs_now st \<le> rs_now st2" "rs_now st2 + ms \<le> rs_now st'"
        using time pace(1) by (simp_all add: pacing_def)
      ultimately have "nat \<lceil>w - (rs_now st' - rs_start st)\<rceil> < nat \<lceil>w - (rs_now st - rs_start st)\<rceil>"
        using fits by (intro ceiling_drop) linarith+
      with w None kept(3) show ?thesis
        unfolding next_rounds by (simp add: rounds_left_def add_less_le_mono nat_mono del: zless_nat_conj)
    qed
  qed
qed

lemma again_decreases:
  assumes "execute_retry_attempt env cfg st = (AttemptAgain, st')" and "fair env cfg" and "counted st"
    and "rt_max_retries cfg = Some m" and "rt_window cfg = None \<or> pacing env cfg"
  defines "next_st \<equiv> st'\<lparr> rs_attempt := rs_attempt st' + 1 \<rparr>"
  shows "rounds_left cfg m next_st < rounds_left cfg m st" "counted next_st" "length (rs_calls st') = length (rs_calls st) + 1"
proof -
  obtain e input sc where e: "rv_operation env (length (rs_calls st)) input = FailedWith e"
    and rec: "record_failed_attempt env cfg e sc = (AttemptAgain, st')"
    and sc: "rs_calls sc = rs_calls st @ [input]" "rs_attempt sc = rs_attempt st" "rs_repairs sc = rs_repairs st" "rs_start sc = rs_start st"
    and now: "forward env \<Longrightarrow> rs_now st \<le> rs_now sc"
    using again_failed [OF assms(1)] by metis
  have pace: "rt_window cfg = None \<or> pacing env cfg \<and> paced_error e" using assms(5) e by (auto simp: pacing_def)
  have "counted sc" using assms(3) sc by (simp add: counted_def)
  note less = record_decreases [OF rec assms(2) this assms(4) pace]
  have "(case rt_window cfg of None \<Rightarrow> 0 | Some w \<Rightarrow> nat \<lceil>w - (rs_now sc - rs_start st)\<rceil>) \<le>
      (case rt_window cfg of None \<Rightarrow> 0 | Some w \<Rightarrow> nat \<lceil>w - (rs_now st - rs_start st)\<rceil>)"
    using pace now by (auto simp: pacing_def split: option.splits intro!: nat_mono ceiling_mono)
  then have "rounds_left cfg m sc \<le> rounds_left cfg m st" unfolding rounds_left_def sc by simp
  with less(1) show "rounds_left cfg m next_st < rounds_left cfg m st" by (simp add: next_st_def)
  show "counted next_st" using less(2) by (simp add: next_st_def)
  show "length (rs_calls st') = length (rs_calls st) + 1" using less(3) sc(1) by simp
qed

lemma round_calls: "execute_retry_attempt env cfg st = (r, st') \<Longrightarrow> fair env cfg \<Longrightarrow> length (rs_calls st') \<le> length (rs_calls st) + 1"
proof -
  assume run: "execute_retry_attempt env cfg st = (r, st')" and fair: "fair env cfg"
  from run show ?thesis
  proof (cases rule: execute_cases)
    case (refused st2 e)
    then show ?thesis by (auto simp: quiet_def)
  next
    case (called sa sb input)
    let ?sc = "fold (announce_wait env) (rv_waits env (length (rs_calls st))) (sb\<lparr> rs_calls := rs_calls st @ [input] \<rparr>)"
    show ?thesis
    proof (cases "rv_operation env (length (rs_calls st)) input")
      case (FailedWith e)
      with called(7) have "record_failed_attempt env cfg e ?sc = (r, st')" by simp
      from this fair have "rs_calls st' = rs_calls ?sc"
      proof (cases rule: record_failed_cases)
        case (stop st2 s)
        then show ?thesis by (simp add: quiet_def)
      next
        case (sleep st1 st2 ms repair s)
        from sleep_cases [OF sleep(4)] have "rs_calls st' = rs_calls st2" by (auto simp: quiet_def)
        with sleep(1,2) show ?thesis by (simp add: quiet_def)
      qed
      then show ?thesis by simp
    qed (use called(7) in auto)
  qed
qed

lemma announce_settled_calls [simp]: "rs_calls (announce_settled env b st) = rs_calls st"
  by (simp add: announce_settled_def)

lemma advance_ends:
  assumes "fair env cfg" and "rt_max_retries cfg = Some m" and "rt_window cfg = None \<or> pacing env cfg"
    and "counted st" and "rounds_left cfg m st < fuel"
  shows "\<exists>r st'. advance env cfg fuel st = (Some r, st') \<and> length (rs_calls st') \<le> length (rs_calls st) + rounds_left cfg m st + 1"
  using assms(4,5)
proof (induction fuel arbitrary: st)
  case (Suc n)
  obtain r st1 where run: "execute_retry_attempt env cfg st = (r, st1)" by (cases "execute_retry_attempt env cfg st") auto
  note calls = round_calls [OF run assms(1)]
  show ?case
  proof (cases r)
    case AttemptAgain
    let ?next = "st1\<lparr> rs_attempt := rs_attempt st1 + 1 \<rparr>"
    note less = again_decreases [OF run [unfolded AttemptAgain] assms(1) Suc.prems(1) assms(2,3)]
    have "rounds_left cfg m ?next < n" using less(1) Suc.prems(2) by simp
    from Suc.IH [OF less(2) this] obtain r' st' where "advance env cfg n ?next = (Some r', st')"
      "length (rs_calls st') \<le> length (rs_calls ?next) + rounds_left cfg m ?next + 1" by blast
    with run AttemptAgain less(1,3) show ?thesis by simp
  qed (use run calls in auto)
qed simp

subsection \<open>Budgets\<close>

text \<open>A scheduled retry waits at least the cooldown its failure announced, up to the longest timer.\<close>

definition honours_cooldown :: "retry_event \<Rightarrow> bool" where
  "honours_cooldown line \<longleftrightarrow> (\<forall>a ms e policy c. line = RetryScheduled a ms None e policy \<longrightarrow> cooldown_of e = Some c \<longrightarrow>
     min c max_timer_delay_ms \<le> ms)"

text \<open>An attempt runs under what is left of the call, and under its own bound, clipped to at least a millisecond.\<close>

definition bounded_input :: "retry_config \<Rightarrow> attempt_input \<Rightarrow> bool" where
  "bounded_input cfg i \<longleftrightarrow> Finite 0 < in_remaining i \<and>
     (case rt_timeout cfg of None \<Rightarrow> in_remaining i = Infinite | Some t \<Rightarrow> in_remaining i \<le> Finite t) \<and>
     (\<forall>b. in_timeout i = Some b \<longrightarrow> 1 \<le> b \<and> Finite (of_int b) \<le> max (Finite 1) (in_remaining i) \<and>
        (\<forall>a. rt_attempt_timeout cfg = Some a \<longrightarrow> of_int b \<le> max 1 a))"

definition within_budget :: "retry_config \<Rightarrow> retry_state \<Rightarrow> bool" where
  "within_budget cfg st \<longleftrightarrow> rs_sleeps st = [] \<or> (\<forall>t. rt_timeout cfg = Some t \<longrightarrow> sum_list (rs_sleeps st) < t)"

definition budget_ok_state :: "retry_config \<Rightarrow> retry_state \<Rightarrow> bool" where
  "budget_ok_state cfg st \<longleftrightarrow> within_budget cfg st \<and> list_all (bounded_input cfg) (rs_calls st) \<and>
     list_all honours_cooldown (rs_log st)"

text \<open>The sleeps are over at the state's time.\<close>

definition slept :: "retry_state \<Rightarrow> bool" where
  "slept st \<longleftrightarrow> sum_list (rs_sleeps st) \<le> rs_now st - rs_start st"

lemma attempt_timeout_bounded:
  assumes "Finite 0 < remaining" and "attempt_timeout_for cfg remaining = Some b"
  shows "1 \<le> b \<and> Finite (of_int b) \<le> max (Finite 1) remaining \<and> (\<forall>a. rt_attempt_timeout cfg = Some a \<longrightarrow> of_int b \<le> max 1 a)"
proof -
  obtain x where x: "min remaining (case rt_attempt_timeout cfg of None \<Rightarrow> Infinite | Some t \<Rightarrow> Finite t) = Finite x"
    and b: "b = max 1 \<lfloor>x\<rfloor>"
    using assms(2) by (auto simp: attempt_timeout_for_def split: millis.splits)
  have le: "Finite x \<le> remaining" "Finite x \<le> (case rt_attempt_timeout cfg of None \<Rightarrow> Infinite | Some t \<Rightarrow> Finite t)"
    unfolding x [symmetric] by simp_all
  have bx: "of_int b \<le> max 1 x" unfolding b by (simp add: le_max_iff_disj max_def)
  have "Finite (of_int b) \<le> max (Finite 1) remaining"
  proof (cases remaining)
    case (Finite y)
    with le(1) bx show ?thesis by (simp add: max_def split: if_splits)
  next
    case Infinite
    then show ?thesis by (simp add: max_def)
  qed
  moreover have "of_int b \<le> max 1 a" if "rt_attempt_timeout cfg = Some a" for a
    using that le(2) bx by (simp add: max_def split: if_splits)
  ultimately show ?thesis using b by simp
qed

lemma budget_left_le:
  assumes "rs_start st \<le> rs_now st" and "Finite 0 < budget_left cfg st"
  shows "case rt_timeout cfg of None \<Rightarrow> budget_left cfg st = Infinite | Some t \<Rightarrow> budget_left cfg st \<le> Finite t"
  using assms by (cases "rt_timeout cfg") (auto simp: budget_left_def max_def split: if_splits)

lemma allowed_sleep_in_budget:
  assumes "allowed_sleep env cfg e ms repair st2 (budget_left cfg st1)" and "slept st" and "rs_start st1 = rs_start st"
    and "rs_now st \<le> rs_now st1" and "rt_timeout cfg = Some t"
  shows "sum_list (rs_sleeps st) + ms < t"
proof -
  have "0 \<le> ms" "Finite ms < budget_left cfg st1" using assms(1) by (auto simp: allowed_sleep_def split: option.splits)
  then have "ms < t - (rs_now st1 - rs_start st)" using assms(3,5) by (auto simp: budget_left_def max_def split: if_splits)
  with assms(2,4) show ?thesis by (simp add: slept_def)
qed

lemma scheduled_line_honours:
  assumes "allowed_sleep env cfg e ms repair st2 left" and "fair env cfg"
  shows "honours_cooldown (RetryScheduled a ms repair e policy)"
proof (cases repair)
  case None
  have "min c max_timer_delay_ms \<le> ms" if "cooldown_of e = Some c" for c
  proof -
    obtain st0 st1 where "retry_delay env cfg e (rs_attempt st2 - rs_repairs st2) st0 = (ms, st1)"
      using assms(1) None by (auto simp: allowed_sleep_def)
    from retry_delay_cases [OF this] that show ?thesis by (auto intro: min.mono)
  qed
  then show ?thesis by (simp add: honours_cooldown_def)
qed (simp add: honours_cooldown_def)

lemma honours_tell: "list_all honours_cooldown (rs_log (tell env x st)) = list_all honours_cooldown (rs_log st)"
  by (simp add: tell_def write_line_def honours_cooldown_def Let_def)

lemma honours_waits:
  "list_all honours_cooldown (rs_log (fold (announce_wait env) ws st)) = list_all honours_cooldown (rs_log st)"
  by (induction ws arbitrary: st) (simp_all add: announce_wait_def honours_tell)

lemma quiet_log: "quiet env a b \<Longrightarrow> rs_log b = rs_log a"
  by (simp add: quiet_def)

lemma scheduled_log:
  assumes "allowed_sleep env cfg e ms repair st2 left" and "fair env cfg" and "list_all honours_cooldown (rs_log st2)"
  shows "list_all honours_cooldown (rs_log (scheduled_state env cfg e ms repair st2))"
  using scheduled_line_honours [OF assms(1,2)] assms(3)
  by (cases repair) (simp_all add: scheduled_state_def announce_provider_retry_def announce_scheduled_def honours_tell Let_def)

lemma record_budget:
  assumes run: "record_failed_attempt env cfg e st = (r, st')" and "fair env cfg" "forward env"
    and ok: "budget_ok_state cfg st" "slept st" "rs_start st \<le> rs_now st"
  shows "budget_ok_state cfg st' \<and> (r = AttemptAgain \<longrightarrow> slept st' \<and> rs_start st' \<le> rs_now st')"
  using run assms(2)
proof (cases rule: record_failed_cases)
  case (stop st2 s)
  with ok(1) show ?thesis by (simp add: budget_ok_state_def within_budget_def quiet_def honours_cooldown_def)
next
  case (sleep st1 st2 ms repair s)
  note k1 = quiet_keeps [OF sleep(1)] and k2 = quiet_keeps [OF sleep(2)]
  let ?sd = "scheduled_state env cfg e ms repair st2"
  have calls: "list_all (bounded_input cfg) (rs_calls st)" and log: "list_all honours_cooldown (rs_log st2)"
    using ok(1) quiet_log [OF sleep(1)] quiet_log [OF sleep(2)] by (simp_all add: budget_ok_state_def)
  have logd: "list_all honours_cooldown (rs_log ?sd)" by (rule scheduled_log [OF sleep(3) assms(2) log])
  have now: "rs_now st \<le> rs_now st1" "rs_now st1 \<le> rs_now st2" using k1(7) k2(7) assms(3) by simp_all
  have start: "rs_start st1 = rs_start st" "rs_start st2 = rs_start st" using k1(1) k2(1) by simp_all
  have sum: "sum_list (rs_sleeps st) + ms < t" if "rt_timeout cfg = Some t" for t
    by (rule allowed_sleep_in_budget [OF sleep(3) ok(2) start(1) now(1) that])
  have sd: "rs_calls st2 = rs_calls st" "rs_sleeps st2 = rs_sleeps st" using k1 k2 by simp_all
  have okd: "budget_ok_state cfg ?sd" "budget_ok_state cfg (?sd\<lparr> rs_sleeps := rs_sleeps ?sd @ [ms] \<rparr>)"
    using calls logd sum ok(1) unfolding budget_ok_state_def within_budget_def by (auto simp: sd)
  have keeps: "budget_ok_state cfg b" if "quiet env a b" "budget_ok_state cfg a" for a b
    using that by (simp add: quiet_def budget_ok_state_def within_budget_def)
  have "budget_ok_state cfg (?sd\<lparr> rs_sleeps := rs_sleeps ?sd @ [ms], rs_now := rs_now ?sd + ms \<rparr>)"
    using okd(2) by (simp add: budget_ok_state_def within_budget_def)
  then have kept: "budget_ok_state cfg st'" using sleep_cases [OF sleep(4)] keeps okd by blast
  have "slept st' \<and> rs_start st' \<le> rs_now st'" if "r = AttemptAgain"
  proof -
    from that sleep(5) have "s = None" by (cases s) auto
    with sleep_cases [OF sleep(4)]
    have w: "quiet env (?sd\<lparr> rs_sleeps := rs_sleeps ?sd @ [ms], rs_now := rs_now ?sd + ms \<rparr>) st'" by auto
    have "0 \<le> ms" using sleep(3) by (auto simp: allowed_sleep_def split: option.splits)
    with quiet_keeps [OF w] quiet_keeps(7) [OF w assms(3)] ok(2,3) now sd start show ?thesis by (simp add: slept_def)
  qed
  with kept show ?thesis by blast
qed

lemma round_budget:
  assumes run: "execute_retry_attempt env cfg st = (r, st')" and "fair env cfg" "forward env"
    and ok: "budget_ok_state cfg st" "slept st" "rs_start st \<le> rs_now st"
  shows "budget_ok_state cfg st' \<and> (r = AttemptAgain \<longrightarrow> slept st' \<and> rs_start st' \<le> rs_now st')"
  using run
proof (cases rule: execute_cases)
  case (refused st2 e)
  then show ?thesis using ok(1)
    by (auto simp: budget_ok_state_def within_budget_def quiet_def honours_cooldown_def)
next
  case (called sa sb input)
  note q = called(1,2)
  let ?sc = "fold (announce_wait env) (rv_waits env (length (rs_calls st))) (sb\<lparr> rs_calls := rs_calls st @ [input] \<rparr>)"
  note ka = quiet_keeps [OF q(1)] and kb = quiet_keeps [OF quiet_trans [OF q]]
  have "rs_start sa \<le> rs_now sa" using ka(1) ka(7) [OF assms(3)] ok(3) by simp
  then have "case rt_timeout cfg of None \<Rightarrow> in_remaining input = Infinite | Some t \<Rightarrow> in_remaining input \<le> Finite t"
    unfolding called(4) using called(3,4) by (intro budget_left_le) simp_all
  moreover have "\<forall>b. in_timeout input = Some b \<longrightarrow> 1 \<le> b \<and> Finite (of_int b) \<le> max (Finite 1) (in_remaining input) \<and>
      (\<forall>a. rt_attempt_timeout cfg = Some a \<longrightarrow> of_int b \<le> max 1 a)"
    using attempt_timeout_bounded [OF called(3)] called(5) by simp
  ultimately have "bounded_input cfg input" using called(3) unfolding bounded_input_def by blast
  then have calls: "list_all (bounded_input cfg) (rs_calls ?sc)" using ok(1) by (simp add: budget_ok_state_def)
  have log: "list_all honours_cooldown (rs_log ?sc)"
    using ok(1) quiet_log [OF quiet_trans [OF q]] by (simp add: budget_ok_state_def honours_waits)
  have okc: "budget_ok_state cfg ?sc" using calls log ok(1) kb(5) by (simp add: budget_ok_state_def within_budget_def)
  show ?thesis
  proof (cases "rv_operation env (length (rs_calls st)) input")
    case (FailedWith e)
    with called(7) have "record_failed_attempt env cfg e ?sc = (r, st')" by simp
    moreover have "slept ?sc" "rs_start ?sc \<le> rs_now ?sc" using ok(2,3) kb(1,5) kb(7) [OF assms(3)] by (simp_all add: slept_def)
    ultimately show ?thesis using okc by (intro record_budget [OF _ assms(2,3)])
  qed (use called(7) okc in auto)
qed

lemma advance_budget:
  assumes "fair env cfg" "forward env"
  shows "budget_ok_state cfg st \<Longrightarrow> slept st \<Longrightarrow> rs_start st \<le> rs_now st \<Longrightarrow> advance env cfg fuel st = (r, st') \<Longrightarrow> budget_ok_state cfg st'"
proof (induction fuel arbitrary: st)
  case (Suc n)
  obtain x st1 where run: "execute_retry_attempt env cfg st = (x, st1)" by (cases "execute_retry_attempt env cfg st") auto
  note ok = round_budget [OF run assms Suc.prems(1-3)]
  have settled: "budget_ok_state cfg (announce_settled env b st1)" for b
    using ok by (simp add: announce_settled_def budget_ok_state_def within_budget_def honours_tell)
  show ?case
  proof (cases x)
    case AttemptAgain
    let ?next = "st1\<lparr> rs_attempt := rs_attempt st1 + 1 \<rparr>"
    have "budget_ok_state cfg ?next" "slept ?next" "rs_start ?next \<le> rs_now ?next"
      using ok AttemptAgain by (simp_all add: budget_ok_state_def within_budget_def slept_def)
    from Suc.IH [OF this] Suc.prems(4) run AttemptAgain show ?thesis by simp
  qed (use run Suc.prems(4) settled in auto)
qed simp

subsection \<open>The observer\<close>

text \<open>While a call runs: no settlement is told yet, and one is owed exactly when something was told or waited for.\<close>

definition ear :: "'a retry_env \<Rightarrow> bool \<Rightarrow> retry_state \<Rightarrow> bool" where
  "ear env owed st \<longleftrightarrow> (\<forall>b. NoticeSettled b \<notin> set (rs_notices st)) \<and> rs_owed st = (owed \<or> rs_notices st \<noteq> []) \<and>
     (rv_observed env \<or> rs_notices st = [])"

lemma ear_quiet: "quiet env a b \<Longrightarrow> ear env owed a \<Longrightarrow> ear env owed b"
  by (simp add: quiet_def ear_def)

lemma ear_tell: "ear env owed st \<Longrightarrow> rv_observed env \<Longrightarrow> (\<forall>b. x \<noteq> NoticeSettled b) \<Longrightarrow> ear env owed (tell env x (st\<lparr> rs_owed := True \<rparr>))"
  by (auto simp: ear_def)

lemma ear_waits: "ear env owed st \<Longrightarrow> ear env owed (fold (announce_wait env) ws st)"
  by (induction ws arbitrary: st) (auto simp: announce_wait_def intro: ear_tell)

lemma ear_retry: "ear env owed st \<Longrightarrow> ear env owed (announce_provider_retry env e repair policy st)"
  by (auto simp: announce_provider_retry_def announce_scheduled_def intro: ear_tell)

lemma ear_sleep:
  assumes "sleep_with_cancellation env ms st = (r, st')" and "ear env owed st"
  shows "ear env owed st'"
  using sleep_cases [OF assms(1)] assms(2) by (auto simp: ear_def quiet_def)

lemma ear_record:
  assumes "record_failed_attempt env cfg e st = (r, st')" and "ear env owed st"
  shows "ear env owed st'"
proof -
  let ?st0 = "st\<lparr> rs_last_error := Some e \<rparr>"
  obtain remaining st1 where rem: "remaining_budget env cfg ?st0 = (remaining, st1)" by (cases "remaining_budget env cfg ?st0") auto
  obtain d st2 where d: "(case repair_decision cfg e remaining (rs_repairs st1) of Some d \<Rightarrow> (d, st1)
      | None \<Rightarrow> retry_decision env cfg e (rs_attempt st1 - rs_repairs st1) remaining st1) = (d, st2)" by fastforce
  have "quiet env st1 st2"
    using d retry_decision_quiet [of env cfg e "rs_attempt st1 - rs_repairs st1" remaining st1] by (auto split: option.splits)
  with remaining_quiet(1) [OF rem] have "quiet env ?st0 st2" by (rule quiet_trans)
  then have st2: "ear env owed st2" using assms(2) by (simp add: quiet_def ear_def)
  show ?thesis
  proof (cases d)
    case (StopFor s)
    with assms(1) rem d st2 show ?thesis by (auto simp: record_failed_attempt_def Let_def ear_def)
  next
    case (SleepFor ms repair)
    obtain s st6 where s: "sleep_with_cancellation env ms (scheduled_state env cfg e ms repair st2) = (s, st6)" by fastforce
    have "ear env owed (scheduled_state env cfg e ms repair st2)"
      unfolding scheduled_state_def Let_def by (rule ear_retry) (use st2 in \<open>simp add: ear_def\<close>)
    with ear_sleep [OF s] have "ear env owed st6" by blast
    moreover have "st' = st6"
      using assms(1) rem d SleepFor s by (auto simp: record_failed_attempt_def scheduled_state_def Let_def split: option.splits)
    ultimately show ?thesis by simp
  qed
qed

lemma ear_round:
  assumes "execute_retry_attempt env cfg st = (r, st')" and "ear env owed st"
  shows "ear env owed st'"
  using assms(1)
proof (cases rule: execute_cases)
  case (refused st2 e)
  with assms(2) show ?thesis by (auto simp: ear_def quiet_def)
next
  case (called sa sb input)
  let ?sc = "fold (announce_wait env) (rv_waits env (length (rs_calls st))) (sb\<lparr> rs_calls := rs_calls st @ [input] \<rparr>)"
  have "ear env owed sb" using ear_quiet [OF quiet_trans [OF called(1,2)] assms(2)] .
  then have "ear env owed ?sc" by (intro ear_waits) (simp add: ear_def)
  then show ?thesis
    using called(7) by (cases "rv_operation env (length (rs_calls st)) input") (auto intro: ear_record)
qed

text \<open>The notices of a call that has ended.\<close>

definition told_once :: "'a retry_env \<Rightarrow> bool \<Rightarrow> call_error + 'b \<Rightarrow> retry_state \<Rightarrow> bool" where
  "told_once env owed r st \<longleftrightarrow> (\<exists>ns. (\<forall>b. NoticeSettled b \<notin> set ns) \<and>
     rs_notices st = ns @ (if rv_observed env \<and> (owed \<or> ns \<noteq> []) then [NoticeSettled (\<not> isl r)] else []))"

lemma ear_settled: "ear env owed st \<Longrightarrow> told_once env owed r (announce_settled env (\<not> isl r) st)"
  unfolding told_once_def ear_def
  by (intro exI [of _ "rs_notices st"]) (auto simp: announce_settled_def)

lemma advance_told:
  "ear env owed st \<Longrightarrow> advance env cfg fuel st = (Some r, st') \<Longrightarrow> told_once env owed r st'"
proof (induction fuel arbitrary: st)
  case (Suc n)
  obtain x st1 where run: "execute_retry_attempt env cfg st = (x, st1)" by (cases "execute_retry_attempt env cfg st") auto
  note e = ear_round [OF run Suc.prems(1)]
  show ?case
  proof (cases x)
    case (AttemptDone v)
    with run Suc.prems(2) have "r = Inr v" "st' = announce_settled env True st1" by auto
    with ear_settled [OF e, of r] show ?thesis by simp
  next
    case (AttemptThrew z)
    with run Suc.prems(2) have "r = Inl z" "st' = announce_settled env False st1" by auto
    with ear_settled [OF e, of r] show ?thesis by simp
  next
    case AttemptAgain
    have "ear env owed (st1\<lparr> rs_attempt := rs_attempt st1 + 1 \<rparr>)" using e by (simp add: ear_def)
    from Suc.IH [OF this] Suc.prems(2) run AttemptAgain show ?thesis by simp
  qed
qed simp

subsection \<open>Starting a call\<close>

lemma new_state_simps [simp]:
  "rs_sleeps (new_retry_state env now owed resume) = []" "rs_calls (new_retry_state env now owed resume) = []"
  "rs_log (new_retry_state env now owed resume) = []" "rs_notices (new_retry_state env now owed resume) = []"
  "rs_owed (new_retry_state env now owed resume) = owed" "rs_readings (new_retry_state env now owed resume) = 1"
  "rs_start (new_retry_state env now owed resume) = rs_now (new_retry_state env now owed resume)"
  "rs_attempt (new_retry_state env now owed None) = 1" "rs_repairs (new_retry_state env now owed None) = 0"
  by (simp_all add: new_retry_state_def read_clock_def Let_def)

lemma new_state_ok:
  "budget_ok_state cfg (new_retry_state env now owed resume)" "slept (new_retry_state env now owed resume)"
  "ear env owed (new_retry_state env now owed resume)"
  by (simp_all add: budget_ok_state_def within_budget_def slept_def ear_def)

lemma call_budget:
  assumes "fair env cfg" "forward env" and "execute_with_retry env cfg now owed resume fuel = (r, st)"
  shows "budget_ok_state cfg st"
proof (cases resume)
  case None
  with assms(3) have "advance env cfg fuel (new_retry_state env now owed None) = (r, st)" by (simp add: execute_with_retry_def)
  from advance_budget [OF assms(1,2) new_state_ok(1,2) _ this] show ?thesis by simp
next
  case (Some rm)
  let ?st0 = "new_retry_state env now owed resume"
  obtain x st1 where rec: "record_failed_attempt env cfg (rm_failed rm) ?st0 = (x, st1)" by fastforce
  note ok = record_budget [OF rec assms(1,2) new_state_ok(1,2)]
  let ?next = "st1\<lparr> rs_attempt := rs_attempt st1 + 1 \<rparr>"
  show ?thesis
  proof (cases x)
    case AttemptAgain
    then have "advance env cfg fuel ?next = (r, st)" using assms(3) rec Some by (simp add: execute_with_retry_def)
    moreover have "budget_ok_state cfg ?next" "slept ?next" "rs_start ?next \<le> rs_now ?next"
      using ok AttemptAgain by (simp_all add: budget_ok_state_def within_budget_def slept_def)
    ultimately show ?thesis using advance_budget [OF assms(1,2)] by blast
  next
    case (AttemptThrew e)
    then have "st = announce_settled env False st1" using assms(3) rec Some by (simp add: execute_with_retry_def)
    with ok show ?thesis by (simp add: announce_settled_def budget_ok_state_def within_budget_def honours_tell)
  next
    case (AttemptDone v)
    then have False using rec by (auto simp: record_failed_attempt_def Let_def split: prod.splits retry_decision.splits option.splits)
    then show ?thesis ..
  qed
qed

end
