(* ===== verification/Retry_Properties.thy ===== *)
theory Retry_Properties
  imports Retry_Invariant
begin

text \<open>
  What the retry loop promises: it ends after a bounded number of attempts, it stays inside its budgets
  and honours cooldowns, its observer hears exactly one settlement, and the budget derived from a
  provider's settings leaves room for every configured attempt.
\<close>

subsection \<open>A sample call\<close>

text \<open>A provider that is rate limited, then spends its output on reasoning, then answers.\<close>

definition sample_limited :: call_error where
  "sample_limited = \<lparr> ce_class = RateLimitFault, ce_retryable = True, ce_retry_after = Some (Finite 2000),
     ce_after_reasoning = False, ce_message = ''slow down'' \<rparr>"

definition sample_empty :: call_error where
  "sample_empty = \<lparr> ce_class = EmptyAnswerFault, ce_retryable = False, ce_retry_after = None,
     ce_after_reasoning = True, ce_message = ''empty'' \<rparr>"

definition sample_down :: call_error where
  "sample_down = \<lparr> ce_class = TransportFault, ce_retryable = True, ce_retry_after = None,
     ce_after_reasoning = False, ce_message = ''down'' \<rparr>"

definition sample_env :: "string retry_env" where
  "sample_env = \<lparr> rv_lag = (\<lambda>n. 100), rv_random = (\<lambda>n. 1 / 2),
     rv_operation = (\<lambda>n i. if n = 0 then FailedWith sample_limited else if n = 1 then FailedWith sample_empty else Answered ''yes''),
     rv_aborted = (\<lambda>n. False), rv_sleep_fault = (\<lambda>n. None), rv_waits = (\<lambda>n. []), rv_observed = True,
     rv_observer_throws = (\<lambda>n. n = 0) \<rparr>"

definition sample_config :: retry_config where
  "sample_config = \<lparr> rt_should_retry = (\<lambda>e. True), rt_jitter_cooldown = False, rt_max_retries = Some 1, rt_base_delay = 500,
     rt_timeout = Some 60000, rt_attempt_timeout = Some 30000, rt_window = None, rt_repair = steered_answer_repair \<rparr>"

lemma sample_fair: "fair sample_env sample_config"
  by (simp add: fair_def sample_env_def sample_config_def)

lemma sample_forward: "forward sample_env"
  by (simp add: forward_def sample_env_def)

lemmas retry_defs = execute_with_retry_def new_retry_state_def read_clock_def execute_retry_attempt_def assert_not_aborted_def
  ask_aborted_def remaining_budget_def admission_budget_for_def elapsed_ms_def attempt_timeout_for_def record_failed_attempt_def
  repair_decision_def retry_decision_def retry_delay_def error_retry_after_def decision_window_def retry_policy_for_def
  is_non_provider_fault_def non_provider_faults_def is_retryable_error_def steered_answer_repair_def
  announce_provider_retry_def announce_scheduled_def announce_settled_def tell_def write_line_def
  sleep_with_cancellation_def max_timer_delay_ms_def or_cancelled_def Let_def

lemma sample_call:
  "\<exists>st. execute_with_retry sample_env sample_config 0 False None 4 = (Some (Inr ''yes''), st) \<and> length (rs_calls st) = 3 \<and>
     rs_sleeps st = [2000, 0] \<and> rs_notices st = [NoticeScheduled 1 AttemptsPolicy, NoticeSettled True]"
  by (simp add: retry_defs sample_env_def sample_config_def sample_limited_def sample_empty_def eval_nat_numeral)

subsection \<open>Termination\<close>

definition first_attempt :: "retry_resume option \<Rightarrow> int" where
  "first_attempt resume = (case Option.bind resume rm_attempts of None \<Rightarrow> 1 | Some a \<Rightarrow> a)"

definition first_repairs :: "retry_resume option \<Rightarrow> int" where
  "first_repairs resume = (case Option.bind resume rm_repairs of None \<Rightarrow> 0 | Some r \<Rightarrow> r)"

text \<open>A call may resume after a first failure if its counters are those of a call.\<close>

definition sound_resume :: "retry_resume option \<Rightarrow> bool" where
  "sound_resume resume \<longleftrightarrow> 1 \<le> first_attempt resume - first_repairs resume \<and> 0 \<le> first_repairs resume \<and>
     (case resume of None \<Rightarrow> True | Some r \<Rightarrow> paced_error (rm_failed r))"

text \<open>The rounds a call may take: its count, one repair, and a round for each millisecond of its window.\<close>

definition call_rounds :: "retry_config \<Rightarrow> int \<Rightarrow> retry_resume option \<Rightarrow> nat" where
  "call_rounds cfg m resume = (case rt_window cfg of None \<Rightarrow> 0 | Some w \<Rightarrow> nat \<lceil>w\<rceil>) +
     nat (m + 1 - (first_attempt resume - first_repairs resume)) + (if first_repairs resume = 0 then 1 else 0)"

lemma new_state_first:
  "rs_attempt (new_retry_state env now owed resume) = first_attempt resume"
  "rs_repairs (new_retry_state env now owed resume) = first_repairs resume"
  by (simp_all add: new_retry_state_def read_clock_def Let_def first_attempt_def first_repairs_def)

lemma new_state_rounds: "rounds_left cfg m (new_retry_state env now owed resume) = call_rounds cfg m resume"
  by (simp add: rounds_left_def call_rounds_def new_state_first split: option.split)

lemma record_result: "record_failed_attempt env cfg e st = (r, st') \<Longrightarrow> r = AttemptAgain \<or> (\<exists>x. r = AttemptThrew x)"
  by (auto simp: record_failed_attempt_def Let_def split: prod.splits retry_decision.splits option.splits)

lemma record_calls: "record_failed_attempt env cfg e st = (r, st') \<Longrightarrow> fair env cfg \<Longrightarrow> rs_calls st' = rs_calls st"
proof (erule record_failed_cases, assumption)
  fix st1 st2 ms repair s
  assume "quiet env (st\<lparr>rs_last_error := Some e\<rparr>) st1" "quiet env st1 st2"
    and "sleep_with_cancellation env ms (scheduled_state env cfg e ms repair st2) = (s, st')"
  then show ?thesis using sleep_cases [of env ms "scheduled_state env cfg e ms repair st2" s st'] by (auto simp: quiet_def)
qed (simp add: quiet_def)

text \<open>
  Claim C32. Every call ends. With draws from the unit interval, a base delay that is not negative and a
  configured count of \<open>m\<close> retries, a call without an outage window makes at most \<open>m + 2\<close> attempts (the
  first, the retries, and one steered repair), a resumed one the rest of them. With a window, a clock that
  goes forward, a base delay of a millisecond and cooldowns of at least one, there may be one more attempt
  for every millisecond of the window. No fault, abort, throwing observer or answer of the environment
  keeps the loop from ending.
\<close>

theorem every_call_ends:
  assumes "fair env cfg" and "rt_max_retries cfg = Some m" and "rt_window cfg = None \<or> pacing env cfg"
    and "sound_resume resume" and "call_rounds cfg m resume < fuel"
  shows "\<exists>r st. execute_with_retry env cfg now owed resume fuel = (Some r, st) \<and>
    length (rs_calls st) \<le> call_rounds cfg m resume + (if resume = None then 1 else 0)"
proof -
  let ?st0 = "new_retry_state env now owed resume"
  have counted: "counted ?st0" using assms(4) by (simp add: counted_def sound_resume_def new_state_first)
  have rounds: "rounds_left cfg m ?st0 = call_rounds cfg m resume" by (rule new_state_rounds)
  show ?thesis
  proof (cases resume)
    case None
    from advance_ends [OF assms(1-3) counted, of fuel] rounds assms(5) show ?thesis
      by (auto simp: None execute_with_retry_def)
  next
    case (Some rm)
    obtain x st1 where rec: "record_failed_attempt env cfg (rm_failed rm) ?st0 = (x, st1)" by fastforce
    note calls = record_calls [OF rec assms(1)]
    from record_result [OF rec] show ?thesis
    proof (elim disjE exE)
      assume x: "x = AttemptAgain"
      let ?next = "st1\<lparr> rs_attempt := rs_attempt st1 + 1 \<rparr>"
      have "rt_window cfg = None \<or> pacing env cfg \<and> paced_error (rm_failed rm)"
        using assms(3,4) by (simp add: sound_resume_def Some)
      note less = record_decreases [OF rec [unfolded x] assms(1) counted assms(2) this]
      have fuel: "rounds_left cfg m ?next < fuel" using less(1) rounds assms(5) by simp
      obtain r st where run: "advance env cfg fuel ?next = (Some r, st)"
        and len: "length (rs_calls st) \<le> length (rs_calls ?next) + rounds_left cfg m ?next + 1"
        using advance_ends [OF assms(1-3) less(2) fuel] by blast
      have "execute_with_retry env cfg now owed resume fuel = (Some r, st)"
        using rec run x by (simp add: execute_with_retry_def Some)
      moreover have "length (rs_calls st) \<le> call_rounds cfg m resume" using len less(1) rounds calls by simp
      ultimately show ?thesis by (simp add: Some)
    next
      fix e assume "x = AttemptThrew e"
      with rec have "execute_with_retry env cfg now owed resume fuel = (Some (Inl e), announce_settled env False st1)"
        by (simp add: execute_with_retry_def Some)
      with calls show ?thesis by (simp add: Some)
    qed
  qed
qed

theorem every_call_ends_witness:
  "\<exists>r st. execute_with_retry sample_env sample_config 0 False None 4 = (Some r, st) \<and> length (rs_calls st) \<le> 3"
proof -
  have rounds: "call_rounds sample_config 1 None = 2"
    by (simp add: call_rounds_def sample_config_def first_attempt_def first_repairs_def)
  have "rt_max_retries sample_config = Some 1" "rt_window sample_config = None \<or> pacing sample_env sample_config"
    "sound_resume None" "call_rounds sample_config 1 None < 4"
    unfolding rounds by (simp_all add: sample_config_def sound_resume_def first_attempt_def first_repairs_def)
  from every_call_ends [OF sample_fair this, where now = 0 and owed = False] rounds show ?thesis by simp
qed

subsection \<open>Safety\<close>

text \<open>
  Claim C33. A call stays inside its budget. On a clock that goes forward, whatever the operation answers
  and whenever the call is resumed or aborted: its sleeps together are shorter than the request budget;
  every attempt starts with time left, no more than the budget, under a timeout of at least one
  millisecond that exceeds neither the time left nor the bound of an attempt; and every retry it
  announces for a failure with a cooldown waits at least the cooldown, up to the longest timer.
\<close>

theorem calls_stay_in_budget:
  assumes "fair env cfg" and "forward env" and "execute_with_retry env cfg now owed resume fuel = (r, st)"
  shows "within_budget cfg st \<and> list_all (bounded_input cfg) (rs_calls st) \<and> list_all honours_cooldown (rs_log st)"
  using call_budget [OF assms] by (simp add: budget_ok_state_def)

theorem calls_stay_in_budget_witness:
  "\<exists>st. execute_with_retry sample_env sample_config 0 False None 4 = (Some (Inr ''yes''), st) \<and> length (rs_calls st) = 3 \<and>
     within_budget sample_config st \<and> list_all (bounded_input sample_config) (rs_calls st) \<and> list_all honours_cooldown (rs_log st)"
proof -
  obtain st where run: "execute_with_retry sample_env sample_config 0 False None 4 = (Some (Inr ''yes''), st)" "length (rs_calls st) = 3"
    using sample_call by blast
  from calls_stay_in_budget [OF sample_fair sample_forward run(1)] run show ?thesis by blast
qed

text \<open>
  The observer of a call hears one settlement. When a call has ended, its notices hold no
  settlement but a last one, which says whether the call was answered; it is told exactly when there is
  an observer that was told of a retry or a wait, or was owed a settlement when the call began. A call
  that was refused before its first attempt, aborted in a sleep or resumed is told alike, and an observer
  that throws loses no notice.
\<close>

theorem observer_hears_one_settlement:
  fixes env :: "'a retry_env"
  assumes "execute_with_retry env cfg now owed resume fuel = (Some r, st)"
  shows "told_once env owed r st"
proof -
  let ?st0 = "new_retry_state env now owed resume"
  note ear0 = new_state_ok(3) [of env owed now resume]
  show ?thesis
  proof (cases resume)
    case None
    with assms have "advance env cfg fuel ?st0 = (Some r, st)" by (simp add: execute_with_retry_def)
    with ear0 show ?thesis by (rule advance_told)
  next
    case (Some rm)
    obtain x :: "'a attempt_result" and st1 where rec: "record_failed_attempt env cfg (rm_failed rm) ?st0 = (x, st1)" by fastforce
    note ear1 = ear_record [OF rec ear0]
    from record_result [OF rec] show ?thesis
    proof (elim disjE exE)
      assume x: "x = AttemptAgain"
      with assms rec Some have "advance env cfg fuel (st1\<lparr> rs_attempt := rs_attempt st1 + 1 \<rparr>) = (Some r, st)"
        by (simp add: execute_with_retry_def)
      moreover have "ear env owed (st1\<lparr> rs_attempt := rs_attempt st1 + 1 \<rparr>)" using ear1 by (simp add: ear_def)
      ultimately show ?thesis using advance_told by blast
    next
      fix e assume "x = AttemptThrew e"
      with assms rec Some have "r = Inl e" "st = announce_settled env False st1" by (auto simp: execute_with_retry_def)
      with ear_settled [OF ear1, of r] show ?thesis by simp
    qed
  qed
qed

theorem observer_hears_one_settlement_witness:
  "\<exists>st. execute_with_retry sample_env sample_config 0 False None 4 = (Some (Inr ''yes''), st) \<and>
     rs_notices st = [NoticeScheduled 1 AttemptsPolicy, NoticeSettled True] \<and> told_once sample_env False (Inr ''yes'' :: call_error + string) st"
proof -
  obtain st where run: "execute_with_retry sample_env sample_config 0 False None 4 = (Some (Inr ''yes''), st)"
    "rs_notices st = [NoticeScheduled 1 AttemptsPolicy, NoticeSettled True]"
    using sample_call by blast
  from observer_hears_one_settlement [OF run(1)] run show ?thesis by blast
qed

subsection \<open>Liveness\<close>

text \<open>Nothing aborts the call and no sleep fails.\<close>

definition calm :: "'a retry_env \<Rightarrow> bool" where
  "calm env \<longleftrightarrow> (\<forall>n. \<not> rv_aborted env n \<and> rv_sleep_fault env n = None)"

lemma calm_assert: "calm env \<Longrightarrow> assert_not_aborted env st = (None, st\<lparr> rs_questions := rs_questions st + 1 \<rparr>)"
  by (simp add: calm_def assert_not_aborted_def ask_aborted_def)

lemma calm_sleep:
  assumes "calm env"
  shows "\<exists>st'. sleep_with_cancellation env ms st = (None, st') \<and> rs_now st' = rs_now st + ms \<and> rs_start st' = rs_start st \<and>
    rs_attempt st' = rs_attempt st \<and> rs_repairs st' = rs_repairs st \<and> rs_calls st' = rs_calls st \<and> rs_readings st' = rs_readings st"
  using assms by (simp add: sleep_with_cancellation_def calm_assert Let_def) (simp add: calm_def assert_not_aborted_def ask_aborted_def)

text \<open>A provider that is unavailable: every attempt fails with an error that may be retried and names no cooldown.\<close>

definition unavailable :: "'a retry_env \<Rightarrow> bool" where
  "unavailable env \<longleftrightarrow> (\<forall>n i. \<exists>e. rv_operation env n i = FailedWith e \<and> is_retryable_error e \<and> cooldown_of e = None)"

text \<open>An attempt, with what is late around it, takes less than its bound.\<close>

definition timely :: "'a retry_env \<Rightarrow> rat \<Rightarrow> bool" where
  "timely env t \<longleftrightarrow> forward env \<and> (\<forall>k. rv_lag env (2 * k + 1) + rv_lag env (2 * k + 2) < t)"

lemma retry_delay_backoff:
  assumes "cooldown_of e = None"
  shows "retry_delay env cfg e attempt st = (backoff_delay attempt (rt_base_delay cfg) (rv_random env (rs_draws st)), st\<lparr> rs_draws := rs_draws st + 1 \<rparr>)"
  using assms by (auto simp: cooldown_of_def retry_delay_def draw_random_def Let_def split: option.splits millis.splits if_splits)

text \<open>A failed attempt of the provider's configuration is tried again while retries are left and there is time.\<close>

lemma plain_retry:
  fixes env :: "'a retry_env"
  assumes calm: "calm env" and fair: "fair env (provider_retry_config p)" and e: "is_retryable_error e" "cooldown_of e = None"
    and "rs_repairs st = 0" and "rs_attempt st \<le> pp_max_retries p"
    and now: "t = rs_now st + rv_lag env (rs_readings st)" and left: "t - rs_start st + max_backoff_ms < provider_request_budget p"
  shows "\<exists>st'. record_failed_attempt env (provider_retry_config p) e st = (AttemptAgain :: 'a attempt_result, st') \<and>
    rs_attempt st' = rs_attempt st \<and> rs_repairs st' = 0 \<and> rs_start st' = rs_start st \<and> rs_calls st' = rs_calls st \<and>
    rs_readings st' = rs_readings st + 1 \<and> rs_now st' \<le> t + max_backoff_ms"
proof -
  let ?cfg = "provider_retry_config p" and ?B = "provider_request_budget p"
  let ?st1 = "st\<lparr> rs_last_error := Some e, rs_now := t, rs_readings := rs_readings st + 1 \<rparr>"
  let ?d = "backoff_delay (rs_attempt st) (pp_base_delay p) (rv_random env (rs_draws st))"
  let ?st2 = "?st1\<lparr> rs_draws := rs_draws st + 1 \<rparr>"
  have fields: "rt_timeout ?cfg = Some ?B" "rt_window ?cfg = None" "rt_base_delay ?cfg = pp_base_delay p" "rt_should_retry ?cfg e"
    "rt_max_retries ?cfg = Some (pp_max_retries p)" "rt_repair ?cfg e = None" by (simp_all add: provider_retry_config_def)
  have window: "decision_window ?cfg e = None" by (simp add: decision_window_def fields)
  have rem: "remaining_budget env ?cfg (st\<lparr> rs_last_error := Some e \<rparr>) = (Finite (max 0 (?B - (t - rs_start st))), ?st1)"
    by (simp add: remaining_budget_def fields read_clock_def Let_def now)
  have d: "0 \<le> ?d" "?d \<le> max_backoff_ms"
    using fair by (simp_all add: fair_def fields backoff_range)
  have "\<not> max 0 (?B - (t - rs_start st)) \<le> ?d" using d left by (simp add: max_backoff_ms_def)
  then have dec: "retry_decision env ?cfg e (rs_attempt st) (Finite (max 0 (?B - (t - rs_start st)))) ?st1 = (SleepFor ?d None, ?st2)"
    using e assms(6) by (simp add: retry_decision_def window fields retry_delay_backoff)
  let ?st4 = "announce_provider_retry env e None (retry_policy_for ?cfg e)
    (write_line (RetryScheduled (rs_attempt st) ?d None e (retry_policy_for ?cfg e)) ?st2)"
  obtain st6 where s: "sleep_with_cancellation env ?d ?st4 = (None, st6)" and st6: "rs_now st6 = rs_now ?st4 + ?d"
    "rs_start st6 = rs_start ?st4" "rs_attempt st6 = rs_attempt ?st4" "rs_repairs st6 = rs_repairs ?st4"
    "rs_calls st6 = rs_calls ?st4" "rs_readings st6 = rs_readings ?st4"
    using calm_sleep [OF calm] by blast
  have "record_failed_attempt env ?cfg e st = (AttemptAgain, st6)"
    unfolding record_failed_attempt_def rem using assms(5) dec s by (simp add: repair_decision_def fields)
  moreover have "rs_now ?st4 = t" "rs_start ?st4 = rs_start st" "rs_attempt ?st4 = rs_attempt st" "rs_repairs ?st4 = 0"
    "rs_calls ?st4 = rs_calls st" "rs_readings ?st4 = rs_readings st + 1"
    using assms(5) by (simp_all add: announce_provider_retry_def announce_scheduled_def)
  ultimately show ?thesis using st6 d(2) by (intro exI [of _ st6]) simp
qed

lemma last_retry:
  fixes env :: "'a retry_env"
  assumes "is_retryable_error e" and "rs_repairs st = 0" and "pp_max_retries p < rs_attempt st"
  shows "\<exists>st'. record_failed_attempt env (provider_retry_config p) e st = (AttemptThrew e :: 'a attempt_result, st') \<and> rs_calls st' = rs_calls st"
proof -
  let ?cfg = "provider_retry_config p"
  have fields: "rt_window ?cfg = None" "rt_should_retry ?cfg e" "rt_max_retries ?cfg = Some (pp_max_retries p)" "rt_repair ?cfg e = None"
    by (simp_all add: provider_retry_config_def)
  have window: "decision_window ?cfg e = None" by (simp add: decision_window_def fields)
  obtain remaining st1 where rem: "remaining_budget env ?cfg (st\<lparr> rs_last_error := Some e \<rparr>) = (remaining, st1)" by fastforce
  note k = quiet_keeps [OF remaining_quiet(1) [OF rem]]
  show ?thesis
    unfolding record_failed_attempt_def rem using assms k
    by (simp add: repair_decision_def fields retry_decision_def window Let_def)
qed

text \<open>The state when the \<open>k\<close>-th attempt begins, counted from zero.\<close>

definition at_round :: "provider_policy \<Rightarrow> nat \<Rightarrow> retry_state \<Rightarrow> bool" where
  "at_round p k st \<longleftrightarrow> rs_attempt st = int k + 1 \<and> rs_repairs st = 0 \<and> rs_readings st = 2 * k + 1 \<and> length (rs_calls st) = k \<and>
     rs_now st - rs_start st \<le> of_nat k * (chat_attempt_timeout p + max_backoff_ms)"

lemma room_left:
  assumes "(of_int (pp_max_retries p) + 1) * chat_attempt_timeout p + of_int (pp_max_retries p) * max_backoff_ms \<le> max_timer_delay_ms"
    and "int k \<le> pp_max_retries p"
  shows "of_nat k * (chat_attempt_timeout p + max_backoff_ms) + chat_attempt_timeout p \<le> provider_request_budget p"
    "int k < pp_max_retries p \<Longrightarrow>
      of_nat k * (chat_attempt_timeout p + max_backoff_ms) + chat_attempt_timeout p + max_backoff_ms \<le> provider_request_budget p"
proof -
  let ?T = "chat_attempt_timeout p" and ?M = max_backoff_ms and ?m = "pp_max_retries p"
  have pos: "0 \<le> ?T + ?M" "0 \<le> ?T" by (simp_all add: chat_attempt_timeout_def buffered_budget_floor_ms_def max_backoff_ms_def)
  have budget: "of_int ?m * (?T + ?M) + ?T \<le> provider_request_budget p"
  proof -
    have eq: "of_int ?m * (?T + ?M) + ?T = (of_int ?m + 1) * ?T + of_int ?m * ?M" by (simp only: distrib_left distrib_right)
    show ?thesis unfolding eq using assms(1) by (simp add: provider_request_budget_def Let_def)
  qed
  have "(of_nat k :: rat) = of_int (int k)" by simp
  also have "\<dots> \<le> of_int ?m" using assms(2) by (simp only: of_int_le_iff)
  finally have "of_nat k * (?T + ?M) \<le> of_int ?m * (?T + ?M)" using pos(1) by (rule mult_right_mono)
  with budget show "of_nat k * (?T + ?M) + ?T \<le> provider_request_budget p" by simp
  assume "int k < ?m"
  then have "int (k + 1) \<le> ?m" by simp
  then have "(of_int (int (k + 1)) :: rat) \<le> of_int ?m" by (simp only: of_int_le_iff)
  then have "of_int (int (k + 1)) * (?T + ?M) \<le> of_int ?m * (?T + ?M)" using pos(1) by (rule mult_right_mono)
  moreover have "(of_int (int (k + 1)) :: rat) * (?T + ?M) = of_nat k * (?T + ?M) + ?T + ?M" by (simp add: distrib_right)
  ultimately show "of_nat k * (?T + ?M) + ?T + ?M \<le> provider_request_budget p" using budget pos(2) by linarith
qed

lemma plain_round:
  fixes env :: "'a retry_env"
  assumes calm: "calm env" and down: "unavailable env" and timely: "timely env (chat_attempt_timeout p)"
    and room: "(of_int (pp_max_retries p) + 1) * chat_attempt_timeout p + of_int (pp_max_retries p) * max_backoff_ms \<le> max_timer_delay_ms"
    and at: "at_round p k st" and k: "int k \<le> pp_max_retries p"
  obtains e sc where "execute_retry_attempt env (provider_retry_config p) st = record_failed_attempt env (provider_retry_config p) e sc"
    and "is_retryable_error e" "cooldown_of e = None"
    and "rs_attempt sc = rs_attempt st" "rs_repairs sc = 0" "rs_start sc = rs_start st" "rs_readings sc = 2 * k + 2"
      "length (rs_calls sc) = k + 1" "rs_now sc = rs_now st + rv_lag env (2 * k + 1)"
proof -
  let ?cfg = "provider_retry_config p" and ?B = "provider_request_budget p"
  let ?st1 = "st\<lparr> rs_questions := rs_questions st + 1 \<rparr>"
  let ?now = "rs_now st + rv_lag env (2 * k + 1)"
  let ?st2 = "?st1\<lparr> rs_now := ?now, rs_readings := 2 * k + 2 \<rparr>"
  let ?left = "Finite (max 0 (?B - (?now - rs_start st)))"
  have fields: "rt_timeout ?cfg = Some ?B" "rt_window ?cfg = None" "rt_max_retries ?cfg = Some (pp_max_retries p)"
    by (simp_all add: provider_retry_config_def)
  have st: "rs_attempt st = int k + 1" "rs_repairs st = 0" "rs_readings st = 2 * k + 1" "length (rs_calls st) = k"
    "rs_now st - rs_start st \<le> of_nat k * (chat_attempt_timeout p + max_backoff_ms)"
    using at by (simp_all add: at_round_def)
  have "0 \<le> rv_lag env (2 * k + 2)" "rv_lag env (2 * k + 1) + rv_lag env (2 * k + 2) < chat_attempt_timeout p"
    using timely by (simp_all add: timely_def forward_def)
  with st(5) room_left(1) [OF room k] have left: "?now - rs_start st < ?B" by linarith
  have rem: "remaining_budget env ?cfg ?st1 = (?left, ?st2)"
    by (simp add: remaining_budget_def fields read_clock_def Let_def st)
  let ?input = "\<lparr> in_timeout = attempt_timeout_for ?cfg ?left, in_remaining = ?left, in_previous = rs_last_error st, in_admission = ?left \<rparr>"
  let ?sc = "fold (announce_wait env) (rv_waits env k) (?st2\<lparr> rs_calls := rs_calls st @ [?input] \<rparr>)"
  obtain e where e: "rv_operation env k ?input = FailedWith e" "is_retryable_error e" "cooldown_of e = None"
    using down unfolding unavailable_def by blast
  have count: "\<not> (case rt_max_retries ?cfg of None \<Rightarrow> True | Some m \<Rightarrow> rt_window ?cfg = None \<and> rs_attempt st - rs_repairs st > m + 1)"
    using k by (simp add: fields st(1,2))
  have time: "\<not> ?left \<le> Finite 0" using left by simp
  have adm: "admission_budget_for env ?cfg ?left ?st2 = (?left, ?st2)" by (simp add: admission_budget_for_def fields)
  have calls: "rs_calls ?st2 = rs_calls st" "rs_last_error ?st2 = rs_last_error st" by simp_all
  have "execute_retry_attempt env ?cfg st = record_failed_attempt env ?cfg e ?sc"
    unfolding execute_retry_attempt_def if_not_P [OF count] calm_assert [OF calm] prod.case option.case rem Let_def if_not_P [OF time]
      adm calls st(4) e(1) attempt_outcome.case ..
  then show thesis by (rule that [of e ?sc]) (use e(2,3) st in simp_all)
qed

lemma round_goes_on:
  fixes env :: "'a retry_env"
  assumes calm: "calm env" and fair: "fair env (provider_retry_config p)" and down: "unavailable env"
    and timely: "timely env (chat_attempt_timeout p)"
    and room: "(of_int (pp_max_retries p) + 1) * chat_attempt_timeout p + of_int (pp_max_retries p) * max_backoff_ms \<le> max_timer_delay_ms"
    and at: "at_round p k st" and k: "int k < pp_max_retries p"
  shows "\<exists>st'. execute_retry_attempt env (provider_retry_config p) st = (AttemptAgain, st') \<and>
    at_round p (k + 1) (st'\<lparr> rs_attempt := rs_attempt st' + 1 \<rparr>)"
proof -
  obtain e sc where run: "execute_retry_attempt env (provider_retry_config p) st = record_failed_attempt env (provider_retry_config p) e sc"
    and e: "is_retryable_error e" "cooldown_of e = None"
    and sc: "rs_attempt sc = rs_attempt st" "rs_repairs sc = 0" "rs_start sc = rs_start st" "rs_readings sc = 2 * k + 2"
      "length (rs_calls sc) = k + 1" "rs_now sc = rs_now st + rv_lag env (2 * k + 1)"
    using plain_round [OF calm down timely room at] k by (metis less_imp_le)
  let ?t = "rs_now sc + rv_lag env (rs_readings sc)" and ?T = "chat_attempt_timeout p"
  have st: "rs_attempt st = int k + 1" "rs_now st - rs_start st \<le> of_nat k * (?T + max_backoff_ms)"
    using at by (simp_all add: at_round_def)
  have lag: "rv_lag env (2 * k + 1) + rv_lag env (2 * k + 2) < ?T" using timely by (simp add: timely_def)
  have t: "?t - rs_start sc < of_nat k * (?T + max_backoff_ms) + ?T" using st(2) lag sc by simp
  with room_left(2) [OF room less_imp_le [OF k] k] have "?t - rs_start sc + max_backoff_ms < provider_request_budget p" by linarith
  from plain_retry [OF calm fair e sc(2) _ refl this] st(1) sc(1) k obtain st' where
    again: "record_failed_attempt env (provider_retry_config p) e sc = (AttemptAgain, st')"
    and st': "rs_attempt st' = rs_attempt sc" "rs_repairs st' = 0" "rs_start st' = rs_start sc" "rs_calls st' = rs_calls sc"
      "rs_readings st' = rs_readings sc + 1" "rs_now st' \<le> ?t + max_backoff_ms"
    by auto
  have "rs_now st' - rs_start st' \<le> of_nat (k + 1) * (?T + max_backoff_ms)"
    using t st'(3,6) by (simp add: distrib_right)
  then have "at_round p (k + 1) (st'\<lparr> rs_attempt := rs_attempt st' + 1 \<rparr>)"
    using st' sc st(1) by (simp add: at_round_def)
  with run again show ?thesis by auto
qed

lemma advance_all_attempts:
  fixes env :: "'a retry_env"
  assumes calm: "calm env" and fair: "fair env (provider_retry_config p)" and down: "unavailable env"
    and timely: "timely env (chat_attempt_timeout p)"
    and room: "(of_int (pp_max_retries p) + 1) * chat_attempt_timeout p + of_int (pp_max_retries p) * max_backoff_ms \<le> max_timer_delay_ms"
  shows "at_round p k st \<Longrightarrow> pp_max_retries p = int (k + n) \<Longrightarrow> n < fuel \<Longrightarrow>
    \<exists>e st'. advance env (provider_retry_config p) fuel st = (Some (Inl e), st') \<and> length (rs_calls st') = k + n + 1"
proof (induction n arbitrary: k st fuel)
  case 0
  then obtain f where fuel: "fuel = Suc f" by (cases fuel) auto
  have k: "int k \<le> pp_max_retries p" using 0 by simp
  obtain e sc where run: "execute_retry_attempt env (provider_retry_config p) st = record_failed_attempt env (provider_retry_config p) e sc"
    and e: "is_retryable_error e" and sc: "rs_attempt sc = rs_attempt st" "rs_repairs sc = 0" "length (rs_calls sc) = k + 1"
    using plain_round [OF calm down timely room 0(1) k] by metis
  have "pp_max_retries p < rs_attempt sc" using 0 sc(1) by (simp add: at_round_def)
  from last_retry [OF e sc(2) this, of env] obtain st' where
    "record_failed_attempt env (provider_retry_config p) e sc = (AttemptThrew e, st')" "rs_calls st' = rs_calls sc" by blast
  with run sc(3) fuel show ?case by simp
next
  case (Suc n)
  then obtain f where fuel: "fuel = Suc f" by (cases fuel) auto
  obtain st1 where run: "execute_retry_attempt env (provider_retry_config p) st = (AttemptAgain, st1)"
    and next_round: "at_round p (k + 1) (st1\<lparr> rs_attempt := rs_attempt st1 + 1 \<rparr>)"
    using round_goes_on [OF calm fair down timely room Suc.prems(1)] Suc.prems(2) by auto
  from Suc.IH [OF next_round, of f] Suc.prems(2,3) fuel run show ?case by simp
qed

text \<open>
  Claim C31. The budget of a call has room for every configured attempt. Under the configuration a
  provider's settings give, as long as the budget does not reach the longest timer: when the
  provider stays unavailable without naming a cooldown (\<open>unavailable\<close>; a longer named
  cooldown may leave fewer attempts, as the code says), nothing aborts the call
  (\<open>calm\<close>), and every attempt with what is late around it takes less than the bound of
  an attempt (\<open>timely\<close>), the call makes its first attempt and all of the configured
  retries before it fails; no backoff, however drawn, spends the time of a later attempt.
\<close>

theorem every_attempt_gets_its_turn:
  assumes "calm env" and "unavailable env" and "timely env (chat_attempt_timeout p)" and "fair env (provider_retry_config p)"
    and "(of_int (pp_max_retries p) + 1) * chat_attempt_timeout p + of_int (pp_max_retries p) * max_backoff_ms \<le> max_timer_delay_ms"
    and "0 \<le> pp_max_retries p" and "nat (pp_max_retries p) < fuel"
  shows "\<exists>e st. execute_with_retry env (provider_retry_config p) now owed None fuel = (Some (Inl e), st) \<and>
    int (length (rs_calls st)) = pp_max_retries p + 1"
proof -
  have "at_round p 0 (new_retry_state env now owed None)" by (simp add: at_round_def)
  from advance_all_attempts [OF assms(1,4,2,3,5) this, of "nat (pp_max_retries p)" fuel] assms(6,7)
  show ?thesis by (auto simp: execute_with_retry_def)
qed

definition sample_down_env :: "string retry_env" where
  "sample_down_env = sample_env\<lparr> rv_operation := (\<lambda>n i. FailedWith sample_down), rv_random := (\<lambda>n. 1) \<rparr>"

definition sample_policy :: provider_policy where
  "sample_policy = \<lparr> pp_timeout = 60000, pp_max_retries = 3, pp_base_delay = 500 \<rparr>"

theorem every_attempt_gets_its_turn_witness:
  "\<exists>e st. execute_with_retry sample_down_env (provider_retry_config sample_policy) 0 False None 4 = (Some (Inl e), st) \<and>
    int (length (rs_calls st)) = 4"
proof -
  have bound: "chat_attempt_timeout sample_policy = 600000" "pp_max_retries sample_policy = 3" "max_backoff_ms = 30000"
    by (simp_all add: chat_attempt_timeout_def sample_policy_def buffered_budget_floor_ms_def max_backoff_ms_def)
  have down: "unavailable sample_down_env"
    by (simp add: unavailable_def sample_down_env_def sample_down_def is_retryable_error_def cooldown_of_def error_retry_after_def)
  have "timely sample_down_env (chat_attempt_timeout sample_policy)"
    unfolding bound by (simp add: timely_def forward_def sample_down_env_def sample_env_def)
  moreover have "calm sample_down_env" "fair sample_down_env (provider_retry_config sample_policy)"
    by (simp_all add: calm_def fair_def sample_down_env_def sample_env_def provider_retry_config_def sample_policy_def)
  ultimately show ?thesis
    using every_attempt_gets_its_turn [of sample_down_env sample_policy 4 0 False] down by (simp add: bound max_timer_delay_ms_def)
qed

end
