(* ===== verification/Line_Diff.thy ===== *)
theory Line_Diff
  imports Patch_Types
begin

text \<open>
  The bounded line diff of \<open>keiko-server/src/gitDelivery/lineDiff.ts\<close>: Myers' greedy search between
  the common prefix and suffix of two files, cut short by two bounds, and the unified hunks rendered
  from the regions it finds. Typed arrays are lists; their entries and the indices into them are
  integers, and reading outside an array gives what \<open>??\<close> puts there.
\<close>

record line_side =
  sd_lines :: "string list"
  sd_missing :: bool

text \<open>Old lines \<open>[bk_old_start, bk_old_end)\<close> became new lines \<open>[bk_new_start, bk_new_end)\<close>.\<close>

record change_block =
  bk_old_start :: nat
  bk_old_end :: nat
  bk_new_start :: nat
  bk_new_end :: nat

definition max_edit_distance :: nat where
  "max_edit_distance = 1000"

definition max_comparisons :: int where
  "max_comparisons = 2000000"

datatype line_bound = DistanceBound | WorkBound

record line_search =
  lc_blocks :: "change_block list"
  lc_bound :: "line_bound option"

definition context_lines :: nat where
  "context_lines = 3"

definition no_newline_line :: string where
  "no_newline_line = [CHR 0x5C] @ '' No newline at end of file''"

datatype line_edit = Keep | Remove | Add

text \<open>\<open>text.replace(/\n$/u, "").split("\n")\<close>.\<close>

definition line_diff_side :: "string \<Rightarrow> line_side" where
  "line_diff_side s =
     \<lparr> sd_lines = (if s = [] then []
         else split_lines (if last s = newline_char then butlast s else s)),
       sd_missing = (s \<noteq> [] \<and> last s \<noteq> newline_char) \<rparr>"

definition comparison_keys :: "line_side \<Rightarrow> string list" where
  "comparison_keys side =
     (if \<not> sd_missing side \<or> sd_lines side = [] then sd_lines side
      else butlast (sd_lines side) @ [last (sd_lines side) @ newline])"

subsection \<open>Common ends\<close>

text \<open>The loop of \<open>commonPrefixLength\<close> and \<open>commonSuffixLength\<close>: count up while the test holds.\<close>

function common_run :: "nat \<Rightarrow> (nat \<Rightarrow> bool) \<Rightarrow> nat \<Rightarrow> nat" where
  "common_run limit same n = (if n < limit \<and> same n then common_run limit same (n + 1) else n)"
  by pat_completeness auto
termination by (relation "measure (\<lambda>(limit, same, n). limit - n)") auto

declare common_run.simps [simp del]

definition common_prefix_length :: "'a list \<Rightarrow> 'a list \<Rightarrow> nat" where
  "common_prefix_length a b = common_run (min (length a) (length b)) (\<lambda>i. a ! i = b ! i) 0"

definition common_suffix_length :: "'a list \<Rightarrow> 'a list \<Rightarrow> nat \<Rightarrow> nat" where
  "common_suffix_length a b prefix =
     common_run (min (length a) (length b) - prefix)
       (\<lambda>i. a ! (length a - 1 - i) = b ! (length b - 1 - i)) 0"

subsection \<open>The search\<close>

definition moves_down :: "int \<Rightarrow> int \<Rightarrow> int \<Rightarrow> int \<Rightarrow> bool" where
  "moves_down diagonal d left right \<longleftrightarrow> diagonal = - d \<or> (diagonal \<noteq> d \<and> left < right)"

text \<open>Each distinct line becomes one number, that of the distinct lines before it.\<close>

fun line_ids :: "string list \<Rightarrow> (string \<times> nat) list \<Rightarrow> nat list \<times> (string \<times> nat) list" where
  "line_ids [] ids = ([], ids)"
| "line_ids (l # ls) ids =
     (case map_of ids l of
        Some i \<Rightarrow> (let r = line_ids ls ids in (i # fst r, snd r))
      | None \<Rightarrow> (let r = line_ids ls (ids @ [(l, length ids)]) in (length ids # fst r, snd r)))"

definition entry :: "'a list \<Rightarrow> int \<Rightarrow> 'a option" where
  "entry xs i = (if 0 \<le> i \<and> i < int (length xs) then Some (xs ! nat i) else None)"

definition entry_or_zero :: "int list \<Rightarrow> int \<Rightarrow> int" where
  "entry_or_zero xs i = (case entry xs i of None \<Rightarrow> 0 | Some x \<Rightarrow> x)"

function snake_end :: "'a list \<Rightarrow> 'a list \<Rightarrow> int \<Rightarrow> int \<Rightarrow> int" where
  "snake_end a b x diagonal =
     (if x < int (length a) \<and> x - diagonal < int (length b) \<and> entry a x = entry b (x - diagonal)
      then snake_end a b (x + 1) diagonal else x)"
  by pat_completeness auto
termination by (relation "measure (\<lambda>(a, b, x, diagonal). nat (int (length a) - x))") auto

declare snake_end.simps [simp del]

datatype sweep = OutOfWork | Reached | Swept "int list" int

text \<open>The inner loop of \<open>forwardTrace\<close>: the diagonals of step \<open>d\<close> from \<open>diagonal\<close> on.\<close>

function sweep_diagonals :: "'a list \<Rightarrow> 'a list \<Rightarrow> int \<Rightarrow> int \<Rightarrow> int \<Rightarrow> int list \<Rightarrow> int \<Rightarrow> sweep" where
  "sweep_diagonals a b ofs d diagonal frontier budget =
     (if d < diagonal then Swept frontier budget
      else
        let left = entry_or_zero frontier (ofs + diagonal - 1);
            right = entry_or_zero frontier (ofs + diagonal + 1);
            start = (if moves_down diagonal d left right then right else left + 1);
            x = snake_end a b start diagonal;
            budget' = budget - (x - start + 1)
        in if budget' < 0 then OutOfWork
           else if int (length a) \<le> x \<and> int (length b) \<le> x - diagonal then Reached
           else sweep_diagonals a b ofs d (diagonal + 2) (frontier[nat (ofs + diagonal) := x]) budget')"
  by pat_completeness auto
termination by (relation "measure (\<lambda>(a, b, ofs, d, diagonal, frontier, budget). nat (d + 1 - diagonal))") auto

declare sweep_diagonals.simps [simp del]

text \<open>\<open>frontier.slice(from, to)\<close> for indices inside the array.\<close>

definition slice_entries :: "'a list \<Rightarrow> int \<Rightarrow> int \<Rightarrow> 'a list" where
  "slice_entries xs i j = take (nat (j - i)) (drop (nat i) xs)"

datatype trace_result = Stopped line_bound | Traced "int list list"

function trace_from :: "'a list \<Rightarrow> 'a list \<Rightarrow> nat \<Rightarrow> nat \<Rightarrow> int list \<Rightarrow> int \<Rightarrow> int list list \<Rightarrow> trace_result" where
  "trace_from a b max_distance d frontier budget trace =
     (if max_distance < d then Stopped DistanceBound
      else
        let ofs = int max_distance + 1;
            trace' = trace @ [slice_entries frontier (ofs - int d - 1) (ofs + int d + 2)]
        in case sweep_diagonals a b ofs (int d) (- int d) frontier budget of
             OutOfWork \<Rightarrow> Stopped WorkBound
           | Reached \<Rightarrow> Traced trace'
           | Swept frontier' budget' \<Rightarrow> trace_from a b max_distance (d + 1) frontier' budget' trace')"
  by pat_completeness auto
termination by (relation "measure (\<lambda>(a, b, max_distance, d, frontier, budget, trace). max_distance + 1 - d)") auto

declare trace_from.simps [simp del]

definition forward_trace :: "'a list \<Rightarrow> 'a list \<Rightarrow> nat \<Rightarrow> trace_result" where
  "forward_trace a b max_distance =
     trace_from a b max_distance 0 (replicate (2 * max_distance + 3) 0) max_comparisons []"

definition frontier_at :: "int list list \<Rightarrow> nat \<Rightarrow> int \<Rightarrow> int" where
  "frontier_at trace d diagonal =
     (if d < length trace then entry_or_zero (trace ! d) (diagonal + int d + 1) else 0)"

text \<open>The walk back; its argument is the number of steps left, so \<open>Suc d\<close> is the loop's \<open>d\<close>.\<close>

fun backtrack_edits :: "int list list \<Rightarrow> nat \<Rightarrow> int \<Rightarrow> int \<Rightarrow> line_edit list" where
  "backtrack_edits trace 0 x y = []"
| "backtrack_edits trace (Suc d) x y =
     (let diagonal = x - y;
          left = frontier_at trace d (diagonal - 1);
          down = moves_down diagonal (int d) left (frontier_at trace d (diagonal + 1));
          previous_diagonal = (if down then diagonal + 1 else diagonal - 1);
          previous_x = frontier_at trace d previous_diagonal;
          previous_y = previous_x - previous_diagonal
      in replicate (nat (min (x - previous_x) (y - previous_y))) Keep @
         (if d > 0 then [if down then Add else Remove] else []) @
         backtrack_edits trace d previous_x previous_y)"

subsection \<open>Blocks\<close>

definition close_block :: "(nat \<times> nat) option \<Rightarrow> nat \<Rightarrow> nat \<Rightarrow> change_block list" where
  "close_block opened i j = (case opened of
     None \<Rightarrow> []
   | Some (os, ns) \<Rightarrow> [\<lparr> bk_old_start = os, bk_old_end = i, bk_new_start = ns, bk_new_end = j \<rparr>])"

text \<open>The loop of \<open>editBlocks\<close>, over the edits in order.\<close>

fun block_loop :: "line_edit list \<Rightarrow> nat \<Rightarrow> nat \<Rightarrow> (nat \<times> nat) option \<Rightarrow> change_block list" where
  "block_loop [] i j opened = close_block opened i j"
| "block_loop (Keep # es) i j opened = close_block opened i j @ block_loop es (i + 1) (j + 1) None"
| "block_loop (Remove # es) i j opened =
     block_loop es (i + 1) j (Some (case opened of None \<Rightarrow> (i, j) | Some b \<Rightarrow> b))"
| "block_loop (Add # es) i j opened =
     block_loop es i (j + 1) (Some (case opened of None \<Rightarrow> (i, j) | Some b \<Rightarrow> b))"

definition edit_blocks :: "line_edit list \<Rightarrow> nat \<Rightarrow> change_block list" where
  "edit_blocks last_first base = block_loop (rev last_first) base base None"

definition search_line_changes :: "line_side \<Rightarrow> line_side \<Rightarrow> nat \<Rightarrow> line_search" where
  "search_line_changes before after max_distance =
     (let a = comparison_keys before;
          b = comparison_keys after;
          prefix = common_prefix_length a b;
          suffix = common_suffix_length a b prefix;
          whole = \<lparr> bk_old_start = prefix, bk_old_end = length a - suffix,
                    bk_new_start = prefix, bk_new_end = length b - suffix \<rparr>;
          old_empty = (bk_old_start whole = bk_old_end whole);
          new_empty = (bk_new_start whole = bk_new_end whole)
      in if old_empty \<and> new_empty then \<lparr> lc_blocks = [], lc_bound = None \<rparr>
         else if old_empty \<or> new_empty then \<lparr> lc_blocks = [whole], lc_bound = None \<rparr>
         else
           let olds = line_ids (take (bk_old_end whole - prefix) (drop prefix a)) [];
               news = line_ids (take (bk_new_end whole - prefix) (drop prefix b)) (snd olds)
           in case forward_trace (fst olds) (fst news) max_distance of
                Stopped bound \<Rightarrow> \<lparr> lc_blocks = [whole], lc_bound = Some bound \<rparr>
              | Traced trace \<Rightarrow>
                  \<lparr> lc_blocks = edit_blocks (backtrack_edits trace (length trace)
                      (int (length (fst olds))) (int (length (fst news)))) prefix,
                    lc_bound = None \<rparr>)"

definition line_change_blocks :: "line_side \<Rightarrow> line_side \<Rightarrow> nat \<Rightarrow> change_block list" where
  "line_change_blocks before after max_distance = lc_blocks (search_line_changes before after max_distance)"

text \<open>Added and deleted lines.\<close>

definition line_change_counts :: "change_block list \<Rightarrow> nat \<times> nat" where
  "line_change_counts blocks =
     (\<Sum>b\<leftarrow>blocks. bk_new_end b - bk_new_start b, \<Sum>b\<leftarrow>blocks. bk_old_end b - bk_old_start b)"

subsection \<open>Hunks\<close>

record hunk_group =
  hg_blocks :: "change_block list"
  hg_leading :: nat
  hg_trailing :: nat

text \<open>
  The loop of \<open>hunkGroups\<close> over the blocks after the first: the group being filled and the end of its
  last block are its arguments.
\<close>

fun group_loop :: "change_block list \<Rightarrow> hunk_group \<Rightarrow> nat \<Rightarrow> nat \<Rightarrow> hunk_group list" where
  "group_loop [] current previous_end old_length =
     [current\<lparr> hg_trailing := min context_lines (old_length - previous_end) \<rparr>]"
| "group_loop (b # bs) current previous_end old_length =
     (let gap = bk_old_start b - previous_end
      in if gap \<le> 2 * context_lines
         then group_loop bs (current\<lparr> hg_blocks := hg_blocks current @ [b] \<rparr>) (bk_old_end b) old_length
         else current\<lparr> hg_trailing := context_lines \<rparr> #
           group_loop bs \<lparr> hg_blocks = [b], hg_leading = min context_lines gap, hg_trailing = 0 \<rparr>
             (bk_old_end b) old_length)"

fun hunk_groups :: "change_block list \<Rightarrow> nat \<Rightarrow> hunk_group list" where
  "hunk_groups [] old_length = []"
| "hunk_groups (b # bs) old_length =
     group_loop bs \<lparr> hg_blocks = [b], hg_leading = min context_lines (bk_old_start b), hg_trailing = 0 \<rparr>
       (bk_old_end b) old_length"

definition hunk_range :: "nat \<Rightarrow> nat \<Rightarrow> string" where
  "hunk_range start stop =
     (let count = stop - start
      in nat_digits (if count = 0 then start else start + 1) @ '','' @ nat_digits count)"

definition side_line :: "line_side \<Rightarrow> char \<Rightarrow> nat \<Rightarrow> string list" where
  "side_line side marker i =
     (marker # (if i < length (sd_lines side) then sd_lines side ! i else [])) #
     (if i + 1 = length (sd_lines side) \<and> sd_missing side then [no_newline_line] else [])"

definition side_lines :: "line_side \<Rightarrow> nat \<Rightarrow> nat \<Rightarrow> char \<Rightarrow> string list" where
  "side_lines side start stop marker = concat (map (side_line side marker) [start..<stop])"

fun block_lines :: "line_side \<Rightarrow> line_side \<Rightarrow> nat \<Rightarrow> change_block list \<Rightarrow> nat \<Rightarrow> string list" where
  "block_lines before after position [] stop = side_lines before position stop (CHR '' '')"
| "block_lines before after position (b # bs) stop =
     side_lines before position (bk_old_start b) (CHR '' '') @
     side_lines before (bk_old_start b) (bk_old_end b) (CHR ''-'') @
     side_lines after (bk_new_start b) (bk_new_end b) (CHR ''+'') @
     block_lines before after (bk_old_end b) bs stop"

definition render_hunk :: "line_side \<Rightarrow> line_side \<Rightarrow> hunk_group \<Rightarrow> string list" where
  "render_hunk before after g =
     (if hg_blocks g = [] then []
      else
        let first = hd (hg_blocks g); final = last (hg_blocks g);
            old_start = bk_old_start first - hg_leading g;
            old_end = bk_old_end final + hg_trailing g;
            new_start = bk_new_start first - hg_leading g;
            new_end = bk_new_end final + hg_trailing g
        in (''@@ -'' @ hunk_range old_start old_end @ '' +'' @ hunk_range new_start new_end @ '' @@'') #
           block_lines before after old_start (hg_blocks g) old_end)"

definition unified_diff_hunks :: "line_side \<Rightarrow> line_side \<Rightarrow> change_block list \<Rightarrow> string list" where
  "unified_diff_hunks before after blocks =
     concat (map (render_hunk before after) (hunk_groups blocks (length (sd_lines before))))"

end
