(* ===== verification/Line_Diff_Search.thy ===== *)
theory Line_Diff_Search
  imports Line_Diff
begin

text \<open>
  The greedy search of the line diff: what its frontier holds, why the first point at which both ends
  are reached is the corner itself, what the walk back yields, and that no script has fewer edits.
\<close>

subsection \<open>Scripts\<close>

text \<open>\<open>turns es xs ys\<close>: the edits \<open>es\<close>, in order, turn \<open>xs\<close> into \<open>ys\<close>.\<close>

fun turns :: "line_edit list \<Rightarrow> 'a list \<Rightarrow> 'a list \<Rightarrow> bool" where
  "turns [] xs ys \<longleftrightarrow> xs = [] \<and> ys = []"
| "turns (Keep # es) xs ys \<longleftrightarrow> xs \<noteq> [] \<and> ys \<noteq> [] \<and> hd xs = hd ys \<and> turns es (tl xs) (tl ys)"
| "turns (Remove # es) xs ys \<longleftrightarrow> xs \<noteq> [] \<and> turns es (tl xs) ys"
| "turns (Add # es) xs ys \<longleftrightarrow> ys \<noteq> [] \<and> turns es xs (tl ys)"

definition edits :: "line_edit list \<Rightarrow> nat" where
  "edits es = length (filter (\<lambda>e. e \<noteq> Keep) es)"

lemma edits_simps [simp]:
  "edits [] = 0" "edits (Keep # es) = edits es" "edits (Remove # es) = Suc (edits es)"
  "edits (Add # es) = Suc (edits es)" "edits (es @ fs) = edits es + edits fs" "edits (rev es) = edits es"
  "edits (replicate n Keep) = 0"
  by (simp_all add: edits_def flip: rev_filter)

lemma turns_append: "turns es xs ys \<Longrightarrow> turns fs us vs \<Longrightarrow> turns (es @ fs) (xs @ us) (ys @ vs)"
proof (induction es xs ys rule: turns.induct)
  case (2 es xs ys)
  then show ?case by (cases xs; cases ys) auto
next
  case (3 es xs ys)
  then show ?case by (cases xs) auto
next
  case (4 es xs ys)
  then show ?case by (cases ys) auto
qed simp

lemma turns_keeps: "turns (replicate (length xs) Keep) xs xs"
  by (induction xs) auto

lemma turns_snoc:
  "turns (es @ [Keep]) xs ys \<longleftrightarrow> (\<exists>us vs z. xs = us @ [z] \<and> ys = vs @ [z] \<and> turns es us vs)"
  "turns (es @ [Remove]) xs ys \<longleftrightarrow> (\<exists>us z. xs = us @ [z] \<and> turns es us ys)"
  "turns (es @ [Add]) xs ys \<longleftrightarrow> (\<exists>vs z. ys = vs @ [z] \<and> turns es xs vs)"
proof -
  have "\<exists>us vs z. xs = us @ [z] \<and> ys = vs @ [z] \<and> turns es us vs" if "turns (es @ [Keep]) xs ys" for xs ys :: "'a list"
    using that
  proof (induction es xs ys rule: turns.induct)
    case (1 xs ys)
    then show ?case by (cases xs; cases ys) auto
  next
    case (2 es xs ys)
    then show ?case by (cases xs; cases ys) fastforce+
  next
    case (3 es xs ys)
    then show ?case by (cases xs) fastforce+
  next
    case (4 es xs ys)
    then show ?case by (cases ys) fastforce+
  qed
  then show "turns (es @ [Keep]) xs ys \<longleftrightarrow> (\<exists>us vs z. xs = us @ [z] \<and> ys = vs @ [z] \<and> turns es us vs)"
    using turns_append [where fs = "[Keep]"] by fastforce
  have "\<exists>us z. xs = us @ [z] \<and> turns es us ys" if "turns (es @ [Remove]) xs ys" for xs ys :: "'a list"
    using that
  proof (induction es xs ys rule: turns.induct)
    case (1 xs ys)
    then show ?case by (cases xs) auto
  next
    case (2 es xs ys)
    then show ?case by (cases xs; cases ys) fastforce+
  next
    case (3 es xs ys)
    then show ?case by (cases xs) fastforce+
  next
    case (4 es xs ys)
    then show ?case by (cases ys) fastforce+
  qed
  then show "turns (es @ [Remove]) xs ys \<longleftrightarrow> (\<exists>us z. xs = us @ [z] \<and> turns es us ys)"
    using turns_append [where fs = "[Remove]" and vs = "[]"] by fastforce
  have "\<exists>vs z. ys = vs @ [z] \<and> turns es xs vs" if "turns (es @ [Add]) xs ys" for xs ys :: "'a list"
    using that
  proof (induction es xs ys rule: turns.induct)
    case (1 xs ys)
    then show ?case by (cases ys) auto
  next
    case (2 es xs ys)
    then show ?case by (cases xs; cases ys) fastforce+
  next
    case (3 es xs ys)
    then show ?case by (cases xs) fastforce+
  next
    case (4 es xs ys)
    then show ?case by (cases ys) fastforce+
  qed
  then show "turns (es @ [Add]) xs ys \<longleftrightarrow> (\<exists>vs z. ys = vs @ [z] \<and> turns es xs vs)"
    using turns_append [where fs = "[Add]" and us = "[]"] by fastforce
qed

lemma turns_map:
  assumes "inj_on h (set xs \<union> set ys)"
  shows "turns es (map h xs) (map h ys) \<longleftrightarrow> turns es xs ys"
  using assms
proof (induction es xs ys rule: turns.induct)
  case (2 es xs ys)
  then show ?case
    by (cases xs; cases ys) (auto simp: inj_on_def)
next
  case (3 es xs ys)
  then show ?case by (cases xs) (auto simp: inj_on_def)
next
  case (4 es xs ys)
  then show ?case by (cases ys) (auto simp: inj_on_def)
qed simp

subsection \<open>Snakes\<close>

definition snake_goes :: "'a list \<Rightarrow> 'a list \<Rightarrow> int \<Rightarrow> int \<Rightarrow> bool" where
  "snake_goes a b x k \<longleftrightarrow> x < int (length a) \<and> x - k < int (length b) \<and> entry a x = entry b (x - k)"

lemma snake_end_if: "snake_end a b x k = (if snake_goes a b x k then snake_end a b (x + 1) k else x)"
  by (subst snake_end.simps) (simp add: snake_goes_def)

lemma snake_induct [case_names goes stops]:
  assumes "\<And>x. snake_goes a b x k \<Longrightarrow> snake_end a b x k = snake_end a b (x + 1) k \<Longrightarrow> P (x + 1) \<Longrightarrow> P x"
    and "\<And>x. \<not> snake_goes a b x k \<Longrightarrow> snake_end a b x k = x \<Longrightarrow> P x"
  shows "P x"
proof (induction "nat (int (length a) - x)" arbitrary: x rule: less_induct)
  case less
  show ?case
  proof (cases "snake_goes a b x k")
    case True
    then have next_ok: "P (x + 1)" by (intro less) (simp add: snake_goes_def)
    have "snake_end a b x k = snake_end a b (x + 1) k" using True snake_end_if [of a b x k] by argo
    with True next_ok show ?thesis using assms(1) by blast
  next
    case False
    have "snake_end a b x k = x" using False snake_end_if [of a b x k] by argo
    with False show ?thesis by (rule assms(2))
  qed
qed

lemma snake_ge: "x \<le> snake_end a b x k"
proof (induction x rule: snake_induct [of a b k])
  case (goes x)
  then show ?case by linarith
qed linarith

lemma snake_stop: "\<not> snake_goes a b (snake_end a b x k) k"
  by (induction x rule: snake_induct [of a b k]) simp_all

lemma snake_inside:
  "snake_end a b x k = x \<or> (snake_end a b x k \<le> int (length a) \<and> snake_end a b x k - k \<le> int (length b))"
  by (induction x rule: snake_induct [of a b k]) (auto simp: snake_goes_def)

lemma snake_same: "x \<le> i \<Longrightarrow> i < snake_end a b x k \<Longrightarrow> entry a i = entry b (i - k)"
proof (induction x rule: snake_induct [of a b k])
  case (goes x)
  then show ?case by (cases "i = x") (simp_all add: snake_goes_def)
qed simp

subsection \<open>The frontier\<close>

text \<open>
  How far step \<open>d - 1\<close> gets on each diagonal, as a recursion over the steps; only the diagonals in
  \<open>live d\<close> are ever read.
\<close>

fun furthest :: "'a list \<Rightarrow> 'a list \<Rightarrow> nat \<Rightarrow> int \<Rightarrow> int" where
  "furthest a b 0 k = 0"
| "furthest a b (Suc d) k =
     (let left = furthest a b d (k - 1); right = furthest a b d (k + 1)
      in snake_end a b (if moves_down k (int d) left right then right else left + 1) k)"

declare furthest.simps(2) [simp del]

definition live :: "nat \<Rightarrow> int \<Rightarrow> bool" where
  "live d k \<longleftrightarrow> (if d = 0 then k = 1 else \<bar>k\<bar> < int d \<and> odd (int d - k))"

lemma live_Suc: "live (Suc d) k \<longleftrightarrow> \<bar>k\<bar> \<le> int d \<and> even (int d - k)"
  by (auto simp: live_def)

lemma live_left: "live (Suc d) k \<Longrightarrow> k \<noteq> - int d \<Longrightarrow> live d (k - 1)"
  unfolding live_def by (simp split: if_splits) presburger

lemma live_right: "live (Suc d) k \<Longrightarrow> k \<noteq> int d \<or> d = 0 \<Longrightarrow> live d (k + 1)"
  unfolding live_def by (simp split: if_splits) presburger

lemma live_up: "live d k \<Longrightarrow> 0 < d \<Longrightarrow> live (Suc d) (k + 1) \<and> live (Suc d) (k - 1) \<and> k + 1 \<noteq> - int d \<and> k - 1 \<noteq> int d"
  by (auto simp: live_def)

text \<open>The start of the snake of one step, by the move that leads there.\<close>

lemma furthest_cases:
  assumes "live (Suc d) k"
  obtains (down) "live d (k + 1)" and "furthest a b (Suc d) k = snake_end a b (furthest a b d (k + 1)) k"
      and "moves_down k (int d) (furthest a b d (k - 1)) (furthest a b d (k + 1))" and "k \<noteq> int d \<or> d = 0"
    | (right) "0 < d" and "live d (k - 1)" and "furthest a b (Suc d) k = snake_end a b (furthest a b d (k - 1) + 1) k"
      and "\<not> moves_down k (int d) (furthest a b d (k - 1)) (furthest a b d (k + 1))" and "k \<noteq> - int d"
proof (cases "moves_down k (int d) (furthest a b d (k - 1)) (furthest a b d (k + 1))")
  case True
  then have "k \<noteq> int d \<or> d = 0" using assms by (auto simp: moves_down_def live_Suc)
  with True live_right [OF assms] show thesis by (intro down) (auto simp: furthest.simps(2) Let_def)
next
  case False
  then have "k \<noteq> - int d" by (simp add: moves_down_def)
  moreover from this assms have "0 < d" by (cases d) (auto simp: live_Suc)
  ultimately show thesis using False
    by (intro right) (auto simp: furthest.simps(2) Let_def intro: live_left [OF assms])
qed

lemma furthest_right: "live d k \<Longrightarrow> 0 < d \<Longrightarrow> furthest a b d k + 1 \<le> furthest a b (Suc d) (k + 1)"
  using live_up [of d k] snake_ge [of "furthest a b d k + 1" a b "k + 1"] snake_ge [of "furthest a b d (k + 2)" a b "k + 1"]
  by (auto simp: furthest.simps(2) Let_def moves_down_def add.assoc)

lemma furthest_down: "live d k \<Longrightarrow> 0 < d \<Longrightarrow> furthest a b d k \<le> furthest a b (Suc d) (k - 1)"
  using live_up [of d k] snake_ge [of "furthest a b d k" a b "k - 1"] snake_ge [of "furthest a b d (k - 2) + 1" a b "k - 1"]
  by (auto simp: furthest.simps(2) Let_def moves_down_def diff_diff_eq)

lemma furthest_nonneg: "live d k \<Longrightarrow> 0 < d \<Longrightarrow> 0 \<le> furthest a b d k \<and> k \<le> furthest a b d k"
proof (induction d arbitrary: k)
  case (Suc d)
  from Suc.prems(1) show ?case
  proof (cases rule: furthest_cases [of d k a b])
    case down
    have "0 \<le> furthest a b d (k + 1) \<and> k \<le> furthest a b d (k + 1)"
      using Suc.IH [OF down(1)] Suc.prems(1) by (cases d) (auto simp: live_Suc)
    with down(2) snake_ge [of "furthest a b d (k + 1)" a b k] show ?thesis by linarith
  next
    case right
    with Suc.IH [OF right(2,1)] snake_ge [of "furthest a b d (k - 1) + 1" a b k] show ?thesis by linarith
  qed
qed simp

text \<open>A point beyond the old side was no further from it one step earlier, and likewise for the new side.\<close>

lemma beyond_new:
  "live (Suc d) k \<Longrightarrow> int (length b) < furthest a b (Suc d) k - k \<Longrightarrow>
   0 < d \<and> live d (k + 1) \<and> furthest a b (Suc d) k \<le> furthest a b d (k + 1)"
proof (induction d arbitrary: k)
  case 0
  then show ?case using snake_inside [of a b 0 k] by (simp add: live_Suc furthest.simps(2) moves_down_def)
next
  case (Suc d)
  from Suc.prems(1) show ?case
  proof (cases rule: furthest_cases [of "Suc d" k a b])
    case down
    with Suc.prems snake_inside [of a b "furthest a b (Suc d) (k + 1)" k] show ?thesis by auto
  next
    case right
    with Suc.prems(2) snake_inside [of a b "furthest a b (Suc d) (k - 1) + 1" k]
    have x: "furthest a b (Suc (Suc d)) k = furthest a b (Suc d) (k - 1) + 1" by auto
    with Suc.prems(2) have ih: "0 < d" "live d k" "furthest a b (Suc d) (k - 1) \<le> furthest a b d k"
      using Suc.IH [OF right(2)] by auto
    with furthest_right [OF ih(2,1), of a b] live_up [OF ih(2,1)] x show ?thesis by auto
  qed
qed

lemma beyond_old:
  "live (Suc d) k \<Longrightarrow> int (length a) < furthest a b (Suc d) k \<Longrightarrow>
   0 < d \<and> live d (k - 1) \<and> furthest a b (Suc d) k \<le> furthest a b d (k - 1) + 1"
proof (induction d arbitrary: k)
  case 0
  then show ?case using snake_inside [of a b 0 k] by (simp add: live_Suc furthest.simps(2) moves_down_def)
next
  case (Suc d)
  from Suc.prems(1) show ?case
  proof (cases rule: furthest_cases [of "Suc d" k a b])
    case right
    with Suc.prems snake_inside [of a b "furthest a b (Suc d) (k - 1) + 1" k] show ?thesis by auto
  next
    case down
    with Suc.prems(2) snake_inside [of a b "furthest a b (Suc d) (k + 1)" k]
    have x: "furthest a b (Suc (Suc d)) k = furthest a b (Suc d) (k + 1)" by auto
    with Suc.prems(2) have ih: "0 < d" "live d k" "furthest a b (Suc d) (k + 1) \<le> furthest a b d k + 1"
      using Suc.IH [OF down(1)] by auto
    with furthest_down [OF ih(2,1), of a b] live_up [OF ih(2,1)] x show ?thesis by auto
  qed
qed

definition hits :: "'a list \<Rightarrow> 'a list \<Rightarrow> nat \<Rightarrow> int \<Rightarrow> bool" where
  "hits a b d k \<longleftrightarrow> live (Suc d) k \<and> int (length a) \<le> furthest a b (Suc d) k \<and>
     int (length b) \<le> furthest a b (Suc d) k - k"

lemma first_hit_is_corner:
  assumes "hits a b d k" and "\<And>d' k'. d' < d \<Longrightarrow> \<not> hits a b d' k'"
  shows "furthest a b (Suc d) k = int (length a)" and "furthest a b (Suc d) k - k = int (length b)"
proof -
  have y: "furthest a b (Suc d) k - k \<le> int (length b)"
  proof (rule ccontr)
    assume out: "\<not> ?thesis"
    with assms(1) beyond_new [of d k b a] have "0 < d" "live d (k + 1)" "furthest a b (Suc d) k \<le> furthest a b d (k + 1)"
      by (auto simp: hits_def)
    then have "hits a b (d - 1) (k + 1)" using assms(1) out by (cases d) (auto simp: hits_def)
    with \<open>0 < d\<close> assms(2) show False by simp
  qed
  have x: "furthest a b (Suc d) k \<le> int (length a)"
  proof (rule ccontr)
    assume out: "\<not> ?thesis"
    with assms(1) beyond_old [of d k a b] have "0 < d" "live d (k - 1)" "furthest a b (Suc d) k \<le> furthest a b d (k - 1) + 1"
      by (auto simp: hits_def)
    then have "hits a b (d - 1) (k - 1)" using assms(1) out by (cases d) (auto simp: hits_def)
    with \<open>0 < d\<close> assms(2) show False by simp
  qed
  show "furthest a b (Suc d) k = int (length a)" "furthest a b (Suc d) k - k = int (length b)"
    using assms(1) x y by (auto simp: hits_def)
qed

subsection \<open>The forward pass\<close>

lemma moves_down_agrees:
  assumes "\<And>j. live d j \<Longrightarrow> f j = furthest a b d j" and "live (Suc d) k"
  shows "moves_down k (int d) (f (k - 1)) (f (k + 1)) \<longleftrightarrow>
    moves_down k (int d) (furthest a b d (k - 1)) (furthest a b d (k + 1))"
  using assms(1) [OF live_left [OF assms(2)]] assms(1) [OF live_right [OF assms(2)]]
  by (auto simp: moves_down_def)

lemma start_agrees:
  assumes "\<And>j. live d j \<Longrightarrow> f j = furthest a b d j" and "live (Suc d) k"
  shows "snake_end a b (if moves_down k (int d) (f (k - 1)) (f (k + 1)) then f (k + 1) else f (k - 1) + 1) k =
    furthest a b (Suc d) k"
using assms(2)
proof (cases rule: furthest_cases [of d k a b])
  case down
  then have m: "moves_down k (int d) (f (k - 1)) (f (k + 1))" using moves_down_agrees [OF assms] by blast
  show ?thesis by (subst if_P [OF m]) (simp only: down(2) assms(1) [OF down(1)])
next
  case right
  then have m: "\<not> moves_down k (int d) (f (k - 1)) (f (k + 1))" using moves_down_agrees [OF assms] by blast
  show ?thesis by (subst if_not_P [OF m]) (simp only: right(3) assms(1) [OF right(2)])
qed

lemma entry_or_zero_update:
  "0 \<le> i \<Longrightarrow> entry_or_zero (xs[nat i := x]) j = (if j = i \<and> i < int (length xs) then x else entry_or_zero xs j)"
  by (auto simp: entry_or_zero_def entry_def nth_list_update)

lemma slice_entry:
  assumes "0 \<le> i" and "j \<le> int (length xs)" and "0 \<le> n" and "n < j - i"
  shows "entry_or_zero (slice_entries xs i j) n = entry_or_zero xs (i + n)"
  using assms by (simp add: entry_or_zero_def entry_def slice_entries_def nat_add_distrib)

definition row :: "nat \<Rightarrow> int list \<Rightarrow> int \<Rightarrow> int" where
  "row m frontier k = entry_or_zero frontier (int m + 1 + k)"

lemma row_update:
  assumes "length frontier = 2 * m + 3" and "\<bar>k\<bar> \<le> int m"
  shows "row m (frontier[nat (int m + 1 + k) := x]) j = (if j = k then x else row m frontier j)"
  using assms by (auto simp: row_def entry_or_zero_update)

lemma sweep_result:
  assumes "d \<le> m" and "length frontier = 2 * m + 3" and "- int d \<le> k" and "even (int d - k)"
    and "\<And>j. live d j \<Longrightarrow> row m frontier j = furthest a b d j"
    and "\<And>j. live (Suc d) j \<Longrightarrow> j < k \<Longrightarrow> row m frontier j = furthest a b (Suc d) j \<and> \<not> hits a b d j"
  shows "case sweep_diagonals a b (int m + 1) (int d) k frontier budget of
      OutOfWork \<Rightarrow> True
    | Reached \<Rightarrow> \<exists>j. hits a b d j
    | Swept frontier' budget' \<Rightarrow> length frontier' = 2 * m + 3 \<and>
        (\<forall>j. live (Suc d) j \<longrightarrow> row m frontier' j = furthest a b (Suc d) j) \<and> (\<forall>j. \<not> hits a b d j)"
  using assms
proof (induction "nat (int d + 1 - k)" arbitrary: k frontier budget rule: less_induct)
  case less
  show ?case
  proof (cases "int d < k")
    case True
    have all: "row m frontier j = furthest a b (Suc d) j \<and> \<not> hits a b d j" if "live (Suc d) j" for j
    proof (rule less.prems(6) [OF that])
      show "j < k" using that True unfolding live_Suc by linarith
    qed
    then have "\<not> hits a b d j" for j by (auto simp: hits_def)
    with True all less.prems(2) show ?thesis by (subst sweep_diagonals.simps) auto
  next
    case False
    then have k: "live (Suc d) k" using less.prems(3,4) by (simp add: live_Suc)
    let ?f = "row m frontier"
    let ?x = "furthest a b (Suc d) k"
    let ?start = "if moves_down k (int d) (?f (k - 1)) (?f (k + 1)) then ?f (k + 1) else ?f (k - 1) + 1"
    let ?budget = "budget - (?x - ?start + 1)" and ?frontier = "frontier[nat (int m + 1 + k) := ?x]"
    have x: "snake_end a b ?start k = ?x" by (rule start_agrees [OF less.prems(5) k])
    have cells: "entry_or_zero frontier (int m + 1 + k - 1) = ?f (k - 1)"
      "entry_or_zero frontier (int m + 1 + k + 1) = ?f (k + 1)" by (simp_all add: row_def algebra_simps)
    have "sweep_diagonals a b (int m + 1) (int d) k frontier budget =
        (if ?budget < 0 then OutOfWork
         else if int (length a) \<le> ?x \<and> int (length b) \<le> ?x - k then Reached
         else sweep_diagonals a b (int m + 1) (int d) (k + 2) ?frontier ?budget)"
      by (subst sweep_diagonals.simps) (simp only: Let_def if_not_P [OF False] cells x)
    moreover have "case sweep_diagonals a b (int m + 1) (int d) (k + 2) ?frontier ?budget of
        OutOfWork \<Rightarrow> True
      | Reached \<Rightarrow> \<exists>j. hits a b d j
      | Swept frontier' budget' \<Rightarrow> length frontier' = 2 * m + 3 \<and>
          (\<forall>j. live (Suc d) j \<longrightarrow> row m frontier' j = furthest a b (Suc d) j) \<and> (\<forall>j. \<not> hits a b d j)"
      if "\<not> (int (length a) \<le> ?x \<and> int (length b) \<le> ?x - k)"
    proof (rule less.hyps)
      have upd: "row m ?frontier j = (if j = k then ?x else row m frontier j)" for j
        using False less.prems by (intro row_update) auto
      show "row m ?frontier j = furthest a b d j" if "live d j" for j
        using that less.prems(4,5) upd by (auto simp: live_def split: if_splits)
      show "row m ?frontier j = furthest a b (Suc d) j \<and> \<not> hits a b d j" if "live (Suc d) j" "j < k + 2" for j
      proof (cases "j = k")
        case True
        with upd that \<open>\<not> (int (length a) \<le> ?x \<and> int (length b) \<le> ?x - k)\<close> show ?thesis by (simp add: hits_def)
      next
        case False
        have "j \<noteq> k + 1" using that(1) less.prems(4) by (auto simp: live_Suc)
        with False that have "j < k" by linarith
        with less.prems(6) [OF that(1)] upd False show ?thesis by simp
      qed
    qed (use False less.prems in auto)
    ultimately show ?thesis using k by (auto simp: hits_def)
  qed
qed

definition trace_ok :: "'a list \<Rightarrow> 'a list \<Rightarrow> int list list \<Rightarrow> nat \<Rightarrow> bool" where
  "trace_ok a b trace n \<longleftrightarrow> length trace = n \<and> (\<forall>i<n. \<forall>j. live i j \<longrightarrow> frontier_at trace i j = furthest a b i j)"

lemma trace_ok_snoc:
  assumes "trace_ok a b trace d" and "d \<le> m" and "length frontier = 2 * m + 3"
    and "\<And>j. live d j \<Longrightarrow> row m frontier j = furthest a b d j"
  shows "trace_ok a b (trace @ [slice_entries frontier (int m + 1 - int d - 1) (int m + 1 + int d + 2)]) (Suc d)"
proof -
  let ?s = "slice_entries frontier (int m + 1 - int d - 1) (int m + 1 + int d + 2)"
  have "entry_or_zero ?s (j + int d + 1) = furthest a b d j" if "live d j" for j
  proof -
    have "\<bar>j\<bar> \<le> int d + 1" using that by (auto simp: live_def split: if_splits)
    then have "entry_or_zero ?s (j + int d + 1) = row m frontier j"
      using assms(2,3) by (subst slice_entry) (auto simp: row_def algebra_simps)
    with assms(4) [OF that] show ?thesis by simp
  qed
  with assms(1) show ?thesis by (auto simp: trace_ok_def frontier_at_def nth_append less_Suc_eq)
qed

lemma trace_result:
  assumes "d \<le> Suc m" and "length frontier = 2 * m + 3" and "trace_ok a b trace d"
    and "\<And>j. live d j \<Longrightarrow> row m frontier j = furthest a b d j" and "\<And>d' k. d' < d \<Longrightarrow> \<not> hits a b d' k"
  shows "case trace_from a b m d frontier budget trace of
      Stopped bound \<Rightarrow> bound = DistanceBound \<longrightarrow> (\<forall>d'\<le>m. \<forall>k. \<not> hits a b d' k)
    | Traced trace' \<Rightarrow> \<exists>n\<le>m. (\<exists>k. hits a b n k) \<and> (\<forall>d'<n. \<forall>k. \<not> hits a b d' k) \<and> trace_ok a b trace' (Suc n)"
  using assms
proof (induction "Suc m - d" arbitrary: d frontier budget trace rule: less_induct)
  case less
  show ?case
  proof (cases "m < d")
    case True
    then show ?thesis using less.prems(5) by (subst trace_from.simps) auto
  next
    case False
    let ?trace = "trace @ [slice_entries frontier (int m + 1 - int d - 1) (int m + 1 + int d + 2)]"
    have tr: "trace_ok a b ?trace (Suc d)" using less.prems False by (intro trace_ok_snoc) auto
    let ?sweep = "sweep_diagonals a b (int m + 1) (int d) (- int d) frontier budget"
    have step: "trace_from a b m d frontier budget trace = (case ?sweep of
        OutOfWork \<Rightarrow> Stopped WorkBound | Reached \<Rightarrow> Traced ?trace
      | Swept frontier' budget' \<Rightarrow> trace_from a b m (d + 1) frontier' budget' ?trace)"
      using False by (subst trace_from.simps) (simp add: Let_def)
    have swept: "case ?sweep of OutOfWork \<Rightarrow> True | Reached \<Rightarrow> \<exists>j. hits a b d j
      | Swept frontier' budget' \<Rightarrow> length frontier' = 2 * m + 3 \<and>
          (\<forall>j. live (Suc d) j \<longrightarrow> row m frontier' j = furthest a b (Suc d) j) \<and> (\<forall>j. \<not> hits a b d j)"
      using False less.prems by (intro sweep_result) (auto simp: live_Suc)
    show ?thesis
    proof (cases ?sweep)
      case OutOfWork
      with step show ?thesis by simp
    next
      case Reached
      with step swept tr False less.prems(5) show ?thesis by (auto intro!: exI [of _ d])
    next
      case (Swept frontier' budget')
      have "case trace_from a b m (d + 1) frontier' budget' ?trace of
          Stopped bound \<Rightarrow> bound = DistanceBound \<longrightarrow> (\<forall>d'\<le>m. \<forall>k. \<not> hits a b d' k)
        | Traced trace' \<Rightarrow> \<exists>n\<le>m. (\<exists>k. hits a b n k) \<and> (\<forall>d'<n. \<forall>k. \<not> hits a b d' k) \<and> trace_ok a b trace' (Suc n)"
        using swept Swept False tr less.prems(5) by (intro less.hyps) (auto simp: less_Suc_eq)
      with step Swept show ?thesis by simp
    qed
  qed
qed

lemma forward_trace_result:
  "case forward_trace a b m of
      Stopped bound \<Rightarrow> bound = DistanceBound \<longrightarrow> (\<forall>d'\<le>m. \<forall>k. \<not> hits a b d' k)
    | Traced trace \<Rightarrow> \<exists>n\<le>m. (\<exists>k. hits a b n k) \<and> (\<forall>d'<n. \<forall>k. \<not> hits a b d' k) \<and> trace_ok a b trace (Suc n)"
  unfolding forward_trace_def
  by (rule trace_result) (auto simp: trace_ok_def row_def entry_or_zero_def entry_def)

subsection \<open>The walk back\<close>

lemma take_same:
  assumes "0 \<le> i" and "0 \<le> j" and "i + int n \<le> int (length a)" and "j + int n \<le> int (length b)"
    and "\<And>l. i \<le> l \<Longrightarrow> l < i + int n \<Longrightarrow> entry a l = entry b (l - i + j)"
  shows "take n (drop (nat i) a) = take n (drop (nat j) b)"
proof (rule nth_equalityI)
  show "length (take n (drop (nat i) a)) = length (take n (drop (nat j) b))" using assms(1-4) by simp
  fix l assume "l < length (take n (drop (nat i) a))"
  then have l: "l < n" by simp
  with assms(5) [of "i + int l"] assms(1-4) have "a ! nat (i + int l) = b ! nat (int l + j)"
    by (simp add: entry_def)
  with l assms(1-4) show "take n (drop (nat i) a) ! l = take n (drop (nat j) b) ! l"
    by (simp add: nat_add_distrib add.commute)
qed

lemma turns_snake:
  assumes "turns es (take (nat s) a) (take (nat (s - k)) b)" and "0 \<le> s" and "0 \<le> s - k"
    and "snake_end a b s k \<le> int (length a)" and "snake_end a b s k - k \<le> int (length b)"
  shows "turns (es @ replicate (nat (snake_end a b s k - s)) Keep)
    (take (nat (snake_end a b s k)) a) (take (nat (snake_end a b s k - k)) b)"
proof -
  let ?x = "snake_end a b s k"
  let ?n = "nat (?x - s)"
  have ge: "s \<le> ?x" by (rule snake_ge)
  have same: "take ?n (drop (nat s) a) = take ?n (drop (nat (s - k)) b)"
    using assms(2-5) ge by (intro take_same) (auto simp: algebra_simps intro!: snake_same [of s _ a b k])
  have len: "length (take ?n (drop (nat s) a)) = ?n" using assms(2,4) ge by simp
  have "turns (es @ replicate ?n Keep) (take (nat s) a @ take ?n (drop (nat s) a))
      (take (nat (s - k)) b @ take ?n (drop (nat (s - k)) b))"
    using turns_append [OF assms(1) turns_keeps [of "take ?n (drop (nat s) a)"]] len same by simp
  moreover have "nat s + ?n = nat ?x" "nat (s - k) + ?n = nat (?x - k)" using assms(2,3) ge by auto
  ultimately show ?thesis by (simp flip: take_add)
qed

lemma turns_add: "turns es xs ys \<Longrightarrow> turns (es @ [Add]) xs (ys @ [y])"
  using turns_append [of es xs ys "[Add]" "[]" "[y]"] by simp

lemma turns_remove: "turns es xs ys \<Longrightarrow> turns (es @ [Remove]) (xs @ [x]) ys"
  using turns_append [of es xs ys "[Remove]" "[x]" "[]"] by simp

lemma take_step: "0 \<le> i \<Longrightarrow> i < int (length a) \<Longrightarrow> take (nat (i + 1)) a = take (nat i) a @ [a ! nat i]"
  by (simp add: nat_add_distrib take_Suc_conv_app_nth)

declare backtrack_edits.simps(2) [simp del]

lemma backtrack_step:
  assumes "frontier_at trace (Suc d) j = s" and "s \<le> x"
    and "j = (if down then k + 1 else k - 1)" and "\<not> down \<longrightarrow> s < x"
    and "moves_down k (int (Suc d)) (frontier_at trace (Suc d) (k - 1)) (frontier_at trace (Suc d) (k + 1)) = down"
  shows "backtrack_edits trace (Suc (Suc d)) x (x - k) =
    replicate (nat (if down then x - s else x - (s + 1))) Keep @ [if down then Add else Remove] @
    backtrack_edits trace (Suc d) s (s - j)"
proof -
  have k: "x - (x - k) = k" by simp
  show ?thesis
    unfolding backtrack_edits.simps(2) [of trace "Suc d"] Let_def k assms(5)
    using assms(1-4) by (auto simp: min_def algebra_simps)
qed

lemma backtrack_result:
  assumes "trace_ok a b trace n" and "Suc d \<le> n" and "live (Suc d) k"
    and "furthest a b (Suc d) k \<le> int (length a)" and "furthest a b (Suc d) k - k \<le> int (length b)"
  shows "let x = furthest a b (Suc d) k; es = rev (backtrack_edits trace (Suc d) x (x - k))
    in turns es (take (nat x) a) (take (nat (x - k)) b) \<and> edits es = d"
  using assms(2-5)
proof (induction d arbitrary: k)
  case 0
  let ?x = "furthest a b (Suc 0) k"
  have k: "k = 0" using 0 by (simp add: live_Suc)
  have zero: "frontier_at trace 0 1 = 0"
    using assms(1) 0(1) by (auto simp: trace_ok_def live_def)
  have x: "furthest a b (Suc 0) 0 = snake_end a b 0 0" by (simp add: furthest.simps(2) moves_down_def)
  have es: "rev (backtrack_edits trace (Suc 0) ?x (?x - k)) = replicate (nat ?x) Keep"
    using zero by (simp add: k moves_down_def Let_def backtrack_edits.simps(2))
  have "turns ([] @ replicate (nat (snake_end a b 0 0 - 0)) Keep)
      (take (nat (snake_end a b 0 0)) a) (take (nat (snake_end a b 0 0 - 0)) b)"
    using 0(3,4) x k by (intro turns_snake) auto
  then have "turns (replicate (nat ?x) Keep) (take (nat ?x) a) (take (nat (?x - k)) b)"
    by (simp add: x k)
  then show ?case unfolding Let_def es by simp
next
  case (Suc d)
  let ?x = "furthest a b (Suc (Suc d)) k"
  have f: "frontier_at trace (Suc d) j = furthest a b (Suc d) j" if "live (Suc d) j" for j
    using assms(1) Suc.prems(1) that by (auto simp: trace_ok_def)
  note m = moves_down_agrees [where f = "frontier_at trace (Suc d)", OF f Suc.prems(2)]
  from Suc.prems(2) show ?case
  proof (cases rule: furthest_cases [of "Suc d" k a b])
    case down
    have mv: "moves_down k (int (Suc d)) (frontier_at trace (Suc d) (k - 1)) (frontier_at trace (Suc d) (k + 1)) = True"
      using m down(3) by blast
    let ?s = "furthest a b (Suc d) (k + 1)"
    have ge: "?s \<le> ?x" using down(2) snake_ge [of ?s a b k] by simp
    have lt: "\<not> True \<longrightarrow> ?s < ?x" and j: "k + 1 = (if True then k + 1 else k - 1)" by simp_all
    have pos: "0 \<le> ?s \<and> k + 1 \<le> ?s" using furthest_nonneg [OF down(1)] by simp
    let ?es = "rev (backtrack_edits trace (Suc d) ?s (?s - (k + 1)))"
    have "let x = ?s; es = ?es in turns es (take (nat x) a) (take (nat (x - (k + 1))) b) \<and> edits es = d"
      using Suc.IH [OF _ down(1)] Suc.prems ge by (simp add: Let_def)
    then have ih: "turns ?es (take (nat ?s) a) (take (nat (?s - (k + 1))) b)" "edits ?es = d" by (simp_all add: Let_def)
    have e: "?s - k = ?s - (k + 1) + 1" by simp
    have tk: "take (nat (?s - (k + 1) + 1)) b = take (nat (?s - (k + 1))) b @ [b ! nat (?s - (k + 1))]"
      using pos ge Suc.prems(4) by (intro take_step) auto
    have one: "turns (?es @ [Add]) (take (nat ?s) a) (take (nat (?s - k)) b)"
      unfolding e tk by (rule turns_add [OF ih(1)])
    have "turns ((?es @ [Add]) @ replicate (nat (?x - ?s)) Keep) (take (nat ?x) a) (take (nat (?x - k)) b)"
      using turns_snake [OF one] pos Suc.prems(3,4) down(2) by simp
    moreover have "rev (backtrack_edits trace (Suc (Suc d)) ?x (?x - k)) = (?es @ [Add]) @ replicate (nat (?x - ?s)) Keep"
      unfolding backtrack_step [OF f [OF down(1)] ge j lt mv] if_True by simp
    ultimately show ?thesis unfolding Let_def using ih(2) by simp
  next
    case right
    have mv: "moves_down k (int (Suc d)) (frontier_at trace (Suc d) (k - 1)) (frontier_at trace (Suc d) (k + 1)) = False"
      using m right(4) by blast
    let ?s = "furthest a b (Suc d) (k - 1)"
    have ge: "?s + 1 \<le> ?x" using right(3) snake_ge [of "?s + 1" a b k] by simp
    then have ge': "?s \<le> ?x" and lt: "\<not> False \<longrightarrow> ?s < ?x" by simp_all
    have j: "k - 1 = (if False then k + 1 else k - 1)" by simp
    have pos: "0 \<le> ?s \<and> k - 1 \<le> ?s" using furthest_nonneg [OF right(2)] by simp
    let ?es = "rev (backtrack_edits trace (Suc d) ?s (?s - (k - 1)))"
    have "let x = ?s; es = ?es in turns es (take (nat x) a) (take (nat (x - (k - 1))) b) \<and> edits es = d"
      using Suc.IH [OF _ right(2)] Suc.prems ge by (simp add: Let_def)
    then have ih: "turns ?es (take (nat ?s) a) (take (nat (?s - (k - 1))) b)" "edits ?es = d" by (simp_all add: Let_def)
    have tk: "take (nat (?s + 1)) a = take (nat ?s) a @ [a ! nat ?s]" using pos ge Suc.prems(3) by (intro take_step) auto
    have e: "?s + 1 - k = ?s - (k - 1)" by simp
    have one: "turns (?es @ [Remove]) (take (nat (?s + 1)) a) (take (nat (?s + 1 - k)) b)"
      unfolding e tk by (rule turns_remove [OF ih(1)])
    have "turns ((?es @ [Remove]) @ replicate (nat (?x - (?s + 1))) Keep) (take (nat ?x) a) (take (nat (?x - k)) b)"
      using turns_snake [OF one] pos Suc.prems(3,4) right(3) by simp
    moreover have "rev (backtrack_edits trace (Suc (Suc d)) ?x (?x - k)) = (?es @ [Remove]) @ replicate (nat (?x - (?s + 1))) Keep"
      unfolding backtrack_step [OF f [OF right(2)] ge' j lt mv] if_False by simp
    ultimately show ?thesis unfolding Let_def using ih(2) by simp
  qed
qed

subsection \<open>No script is shorter\<close>

lemma script_reached:
  "turns es (take i a) (take j b) \<Longrightarrow> i \<le> length a \<Longrightarrow> j \<le> length b \<Longrightarrow>
   live (Suc (edits es)) (int i - int j) \<and> int i \<le> furthest a b (Suc (edits es)) (int i - int j)"
proof (induction es arbitrary: i j rule: rev_induct)
  case Nil
  then show ?case using snake_ge [of 0 a b 0] by (auto simp: live_Suc furthest.simps(2) moves_down_def)
next
  case (snoc e es)
  show ?case
  proof (cases e)
    case Keep
    with snoc.prems obtain us vs z where s: "take i a = us @ [z]" "take j b = vs @ [z]" "turns es us vs"
      by (auto simp: turns_snoc)
    have "length us + 1 = i" "length vs + 1 = j" using arg_cong [OF s(1), of length] arg_cong [OF s(2), of length] snoc.prems(2,3) by simp_all
    then obtain i' j' where ij: "i = Suc i'" "j = Suc j'" "length us = i'" "length vs = j'" by auto
    with s have us: "us = take i' a" "a ! i' = z" and vs: "vs = take j' b" "b ! j' = z"
      using snoc.prems(2,3) by (auto simp: take_Suc_conv_app_nth)
    let ?k = "int i' - int j'" and ?d = "edits es"
    have ih: "live (Suc ?d) ?k" "int i' \<le> furthest a b (Suc ?d) ?k"
      using snoc.IH [of i' j'] s(3) us vs ij snoc.prems(2,3) by auto
    have "furthest a b (Suc ?d) ?k \<noteq> int i'"
    proof
      assume eq: "furthest a b (Suc ?d) ?k = int i'"
      obtain st where "furthest a b (Suc ?d) ?k = snake_end a b st ?k" by (simp add: furthest.simps(2) Let_def)
      with eq snake_stop [of a b st ?k] have "\<not> snake_goes a b (int i') ?k" by simp
      with us vs ij snoc.prems(2,3) show False by (simp add: snake_goes_def entry_def)
    qed
    with ih Keep ij show ?thesis by simp
  next
    case Remove
    with snoc.prems obtain us z where s: "take i a = us @ [z]" "turns es us (take j b)"
      by (auto simp: turns_snoc)
    have "length us + 1 = i" using arg_cong [OF s(1), of length] snoc.prems(2) by simp
    then obtain i' where i: "i = Suc i'" "length us = i'" by auto
    with s have us: "us = take i' a" using snoc.prems(2) by (auto simp: take_Suc_conv_app_nth)
    let ?k = "int i' - int j" and ?d = "edits es"
    have ih: "live (Suc ?d) ?k" "int i' \<le> furthest a b (Suc ?d) ?k"
      using snoc.IH [of i' j] s(2) us i snoc.prems(2,3) by auto
    have k: "int i - int j = ?k + 1" "edits (es @ [e]) = Suc ?d" using i Remove by simp_all
    show ?thesis unfolding k using furthest_right [OF ih(1), of a b] live_up [OF ih(1)] ih(2) i by auto
  next
    case Add
    with snoc.prems obtain vs z where s: "take j b = vs @ [z]" "turns es (take i a) vs"
      by (auto simp: turns_snoc)
    have "length vs + 1 = j" using arg_cong [OF s(1), of length] snoc.prems(3) by simp
    then obtain j' where j: "j = Suc j'" "length vs = j'" by auto
    with s have vs: "vs = take j' b" using snoc.prems(3) by (auto simp: take_Suc_conv_app_nth)
    let ?k = "int i - int j'" and ?d = "edits es"
    have ih: "live (Suc ?d) ?k" "int i \<le> furthest a b (Suc ?d) ?k"
      using snoc.IH [of i j'] s(2) vs j snoc.prems(2,3) by auto
    have k: "int i - int j = ?k - 1" "edits (es @ [e]) = Suc ?d" using j Add by simp_all
    show ?thesis unfolding k using furthest_down [OF ih(1), of a b] live_up [OF ih(1)] ih(2) j by auto
  qed
qed

lemma script_hits:
  assumes "turns es a b"
  shows "hits a b (edits es) (int (length a) - int (length b))"
  using script_reached [where i = "length a" and j = "length b" and es = es and a = a and b = b] assms by (auto simp: hits_def)

text \<open>
  What the search returns: a shortest script, or nothing within the distance searched.
\<close>

lemma traced_script:
  assumes "forward_trace a b m = Traced trace"
  defines "es \<equiv> rev (backtrack_edits trace (length trace) (int (length a)) (int (length b)))"
  shows "turns es a b" and "turns fs a b \<Longrightarrow> edits es \<le> edits fs" and "edits es \<le> m"
proof -
  obtain n k where n: "n \<le> m" and hit: "hits a b n k" and none: "\<And>d' k'. d' < n \<Longrightarrow> \<not> hits a b d' k'"
    and ok: "trace_ok a b trace (Suc n)"
    using forward_trace_result [where a = a and b = b and m = m] assms(1) by auto
  note corner = first_hit_is_corner [OF hit none]
  have "live (Suc n) k" using hit by (simp add: hits_def)
  from backtrack_result [OF ok order_refl this] corner ok
  have "turns es a b \<and> edits es = n" by (simp add: es_def trace_ok_def Let_def)
  then show "turns es a b" "edits es \<le> m" using n by simp_all
  show "edits es \<le> edits fs" if "turns fs a b"
    using script_hits [OF that] none \<open>turns es a b \<and> edits es = n\<close> by (meson linorder_not_le)
qed

lemma stopped_at_distance:
  assumes "forward_trace a b m = Stopped DistanceBound" and "turns es a b"
  shows "m < edits es"
  using forward_trace_result [where a = a and b = b and m = m] assms(1) script_hits [OF assms(2)] by (auto simp: not_le [symmetric])

end
