(* ===== verification/Line_Diff_Blocks.thy ===== *)
theory Line_Diff_Blocks
  imports Line_Diff_Search
begin

text \<open>
  The replaced regions the line diff reports: they replay one side into the other, and they are a
  shortest edit script whenever the search was not cut short.
\<close>

subsection \<open>The reference distance\<close>

text \<open>The least number of removed and added lines, by the textbook recursion.\<close>

fun edit_distance :: "'a list \<Rightarrow> 'a list \<Rightarrow> nat" where
  "edit_distance [] ys = length ys"
| "edit_distance xs [] = length xs"
| "edit_distance (x # xs) (y # ys) =
     (let m = Suc (min (edit_distance xs (y # ys)) (edit_distance (x # xs) ys))
      in if x = y then min m (edit_distance xs ys) else m)"

lemma distance_Nil [simp]: "edit_distance xs [] = length xs"
  by (cases xs) simp_all

lemma distance_Cons_left: "edit_distance (x # xs) ys \<le> Suc (edit_distance xs ys)"
  by (cases ys; cases xs) (auto simp: Let_def)

lemma distance_Cons_right: "edit_distance xs (y # ys) \<le> Suc (edit_distance xs ys)"
  by (cases xs) (auto simp: Let_def)

lemma distance_le: "turns es xs ys \<Longrightarrow> edit_distance xs ys \<le> edits es"
proof (induction es xs ys rule: turns.induct)
  case (2 es xs ys)
  then show ?case by (cases xs; cases ys) (auto simp: Let_def min_def)
next
  case (3 es xs ys)
  then show ?case by (cases xs) (auto intro: order_trans [OF distance_Cons_left])
next
  case (4 es xs ys)
  then show ?case by (cases ys) (auto intro: order_trans [OF distance_Cons_right])
qed simp

lemma distance_script: "\<exists>es. turns es xs ys \<and> edits es = edit_distance xs ys"
proof (induction xs ys rule: edit_distance.induct)
  case (1 ys)
  have "turns (replicate (length ys) Add) ([] :: 'a list) ys \<and> edits (replicate (length ys) Add) = length ys"
    by (induction ys) auto
  then show ?case by auto
next
  case (2 x xs)
  have "turns (replicate (length ys) Remove) ys [] \<and> edits (replicate (length ys) Remove) = length ys" for ys :: "'a list"
    by (induction ys) auto
  from this [of "x # xs"] show ?case by (auto intro!: exI [of _ "replicate (length (x # xs)) Remove"])
next
  case (3 x xs y ys)
  obtain es where es: "turns es xs (y # ys)" "edits es = edit_distance xs (y # ys)" using 3(1) by auto
  obtain fs where fs: "turns fs (x # xs) ys" "edits fs = edit_distance (x # xs) ys" using 3(2) by auto
  obtain gs where gs: "turns gs xs ys" "edits gs = edit_distance xs ys" if "x = y" using 3(3) by auto
  let ?d = "edit_distance (x # xs) (y # ys)"
  have "?d = Suc (edit_distance xs (y # ys)) \<or> ?d = Suc (edit_distance (x # xs) ys) \<or> x = y \<and> ?d = edit_distance xs ys"
    by (simp add: Let_def min_def)
  then consider "?d = Suc (edit_distance xs (y # ys))" | "?d = Suc (edit_distance (x # xs) ys)"
    | "x = y" "?d = edit_distance xs ys"
    by blast
  then show ?case
  proof cases
    case 1
    with es show ?thesis by (intro exI [of _ "Remove # es"]) simp
  next
    case 2
    with fs show ?thesis by (intro exI [of _ "Add # fs"]) simp
  next
    case 3
    with gs show ?thesis by (intro exI [of _ "Keep # gs"]) simp
  qed
qed

lemma distance_least: "edit_distance xs ys = n" if "turns es xs ys" "edits es = n" "\<And>fs. turns fs xs ys \<Longrightarrow> n \<le> edits fs"
  using distance_le [OF that(1)] distance_script [of xs ys] that(2,3) by fastforce

subsection \<open>Common ends do not matter\<close>

lemma distance_swap: "edit_distance xs ys = edit_distance ys xs"
  by (induction xs ys rule: edit_distance.induct) (auto simp: Let_def min.commute)

lemma script_without_head: "turns es xs (y # ys) \<Longrightarrow> \<exists>fs. turns fs xs ys \<and> edits fs \<le> Suc (edits es)"
proof (induction es arbitrary: xs)
  case (Cons e es)
  show ?case
  proof (cases e)
    case Keep
    with Cons.prems show ?thesis by (intro exI [of _ "Remove # es"]) simp
  next
    case Remove
    with Cons.prems Cons.IH [of "tl xs"] obtain fs where "turns fs (tl xs) ys" "edits fs \<le> Suc (edits es)" by auto
    with Remove Cons.prems show ?thesis by (intro exI [of _ "Remove # fs"]) simp
  next
    case Add
    with Cons.prems show ?thesis by (intro exI [of _ es]) simp
  qed
qed simp

lemma distance_tail_right: "edit_distance xs ys \<le> Suc (edit_distance xs (y # ys))"
proof -
  obtain es where es: "turns es xs (y # ys)" "edits es = edit_distance xs (y # ys)"
    using distance_script [of xs "y # ys"] by blast
  obtain fs where "turns fs xs ys" "edits fs \<le> Suc (edits es)" using script_without_head [OF es(1)] by blast
  with distance_le [of fs xs ys] show ?thesis unfolding es(2) by linarith
qed

lemma distance_tail_left: "edit_distance xs ys \<le> Suc (edit_distance (x # xs) ys)"
  using distance_tail_right [of ys xs x] by (simp only: distance_swap [of ys])

lemma distance_same_head: "edit_distance (x # xs) (x # ys) = edit_distance xs ys"
proof -
  have "edit_distance xs ys \<le> Suc (edit_distance xs (x # ys))" "edit_distance xs ys \<le> Suc (edit_distance (x # xs) ys)"
    by (rule distance_tail_right, rule distance_tail_left)
  then show ?thesis unfolding edit_distance.simps(3) Let_def if_P [OF refl] by linarith
qed

lemma distance_same_prefix: "edit_distance (ps @ xs) (ps @ ys) = edit_distance xs ys"
  by (induction ps) (simp_all add: distance_same_head del: edit_distance.simps(3))

lemma turns_rev: "turns es xs ys \<Longrightarrow> turns (rev es) (rev xs) (rev ys)"
proof (induction es xs ys rule: turns.induct)
  case (2 es xs ys)
  then show ?case
    by (cases xs; cases ys) (auto simp: turns_snoc)
next
  case (3 es xs ys)
  then show ?case by (cases xs) (auto simp: turns_snoc)
next
  case (4 es xs ys)
  then show ?case by (cases ys) (auto simp: turns_snoc)
qed simp

lemma distance_rev: "edit_distance (rev xs) (rev ys) = edit_distance xs ys"
proof -
  have le: "edit_distance (rev xs) (rev ys) \<le> edit_distance xs ys" for xs ys :: "'a list"
  proof -
    obtain es where es: "turns es xs ys" "edits es = edit_distance xs ys" using distance_script [of xs ys] by blast
    from distance_le [OF turns_rev [OF es(1)]] show ?thesis unfolding edits_simps es(2) .
  qed
  show ?thesis by (rule order_antisym [OF le le [of "rev xs" "rev ys", unfolded rev_rev_ident]])
qed

lemma distance_same_suffix: "edit_distance (xs @ ss) (ys @ ss) = edit_distance xs ys"
  using distance_same_prefix [of "rev ss" "rev xs" "rev ys"] by (simp add: distance_rev flip: rev_append)

subsection \<open>Interned lines\<close>

definition ids_ok :: "(string \<times> nat) list \<Rightarrow> bool" where
  "ids_ok ids \<longleftrightarrow> distinct (map fst ids) \<and> map snd ids = [0..<length ids]"

definition id_of :: "(string \<times> nat) list \<Rightarrow> string \<Rightarrow> nat" where
  "id_of ids l = the (map_of ids l)"

lemma ids_ok_inj: "ids_ok ids \<Longrightarrow> inj_on (id_of ids) (fst ` set ids)"
proof (rule inj_onI)
  fix x y assume ok: "ids_ok ids" and xy: "x \<in> fst ` set ids" "y \<in> fst ` set ids" "id_of ids x = id_of ids y"
  obtain i j where i: "i < length ids" "x = fst (ids ! i)" and j: "j < length ids" "y = fst (ids ! j)"
    using xy(1,2) by (auto simp: in_set_conv_nth)
  have "id_of ids (fst (ids ! n)) = n" if "n < length ids" for n
  proof -
    have "map snd ids ! n = [0..<length ids] ! n" using ok by (simp only: ids_ok_def)
    with that have "snd (ids ! n) = n" by simp
    moreover have "map_of ids (fst (ids ! n)) = Some (snd (ids ! n))"
      using ok that by (intro map_of_is_SomeI) (simp_all add: ids_ok_def)
    ultimately show ?thesis by (simp add: id_of_def)
  qed
  with i j xy(3) show "x = y" by metis
qed

lemma id_of_append:
  assumes "ids_ok (ids @ us)" and "map_of ids l = Some i"
  shows "id_of (ids @ us) l = i"
proof -
  have "l \<notin> fst ` set us" using assms by (force simp: ids_ok_def dest: map_of_SomeD)
  then have "map_of us l = None" by (simp add: map_of_eq_None_iff)
  with assms(2) show ?thesis by (simp add: id_of_def map_add_def)
qed

lemma line_ids_result:
  "ids_ok ids \<Longrightarrow> ids_ok (snd (line_ids ls ids)) \<and> (\<exists>more_ids. snd (line_ids ls ids) = ids @ more_ids) \<and>
    set ls \<subseteq> fst ` set (snd (line_ids ls ids)) \<and> fst (line_ids ls ids) = map (id_of (snd (line_ids ls ids))) ls"
proof (induction ls arbitrary: ids)
  case (Cons l ls)
  let ?ids = "case map_of ids l of Some i \<Rightarrow> ids | None \<Rightarrow> ids @ [(l, length ids)]"
  have ok: "ids_ok ?ids" and l: "l \<in> fst ` set ?ids" and i: "\<exists>us. ?ids = ids @ us"
    using Cons.prems by (auto simp: ids_ok_def map_of_eq_None_iff rev_image_eqI split: option.splits dest!: map_of_SomeD)
  from Cons.IH [OF ok] obtain us where ih: "ids_ok (snd (line_ids ls ?ids))" "snd (line_ids ls ?ids) = ?ids @ us"
    "set ls \<subseteq> fst ` set (snd (line_ids ls ?ids))" "fst (line_ids ls ?ids) = map (id_of (snd (line_ids ls ?ids))) ls"
    by auto
  have "id_of (?ids @ us) l = (case map_of ids l of Some i \<Rightarrow> i | None \<Rightarrow> length ids)"
    using id_of_append [OF ih(1) [unfolded ih(2)], of l] Cons.prems
    by (auto simp: map_add_def split: option.splits)
  moreover have "line_ids (l # ls) ids =
      ((case map_of ids l of Some i \<Rightarrow> i | None \<Rightarrow> length ids) # fst (line_ids ls ?ids), snd (line_ids ls ?ids))"
    by (simp add: Let_def split: option.splits)
  ultimately show ?case using ih l i by auto
qed simp

subsection \<open>Blocks\<close>

text \<open>
  \<open>blocks_match i j bs a b\<close>: from old position \<open>i\<close> and new position \<open>j\<close> on, the blocks are in order and
  inside both sides, each takes at least one line, and the lines before, between and after them are
  the same on both sides.
\<close>

fun blocks_match :: "nat \<Rightarrow> nat \<Rightarrow> change_block list \<Rightarrow> 'a list \<Rightarrow> 'a list \<Rightarrow> bool" where
  "blocks_match i j [] a b \<longleftrightarrow> drop i a = drop j b"
| "blocks_match i j (c # bs) a b \<longleftrightarrow>
     i \<le> bk_old_start c \<and> bk_new_start c = j + (bk_old_start c - i) \<and>
     take (bk_old_start c - i) (drop i a) = take (bk_old_start c - i) (drop j b) \<and>
     bk_old_start c \<le> bk_old_end c \<and> bk_old_end c \<le> length a \<and>
     bk_new_start c \<le> bk_new_end c \<and> bk_new_end c \<le> length b \<and>
     (bk_old_start c < bk_old_end c \<or> bk_new_start c < bk_new_end c) \<and>
     blocks_match (bk_old_end c) (bk_new_end c) bs a b"

text \<open>Replaying: old lines outside the blocks, new lines inside.\<close>

fun replay_blocks :: "nat \<Rightarrow> change_block list \<Rightarrow> 'a list \<Rightarrow> 'a list \<Rightarrow> 'a list" where
  "replay_blocks i [] a b = drop i a"
| "replay_blocks i (c # bs) a b =
     take (bk_old_start c - i) (drop i a) @ take (bk_new_end c - bk_new_start c) (drop (bk_new_start c) b) @
     replay_blocks (bk_old_end c) bs a b"

lemma blocks_replay: "blocks_match i j bs a b \<Longrightarrow> replay_blocks i bs a b = drop j b"
proof (induction bs arbitrary: i j)
  case (Cons c bs)
  let ?n = "bk_old_start c - i" and ?m = "bk_new_end c - bk_new_start c"
  have ih: "replay_blocks (bk_old_end c) bs a b = drop (bk_new_end c) b" using Cons by simp
  have ns: "bk_new_start c = j + ?n" and ne: "bk_new_end c = j + ?n + ?m" and same: "take ?n (drop i a) = take ?n (drop j b)"
    using Cons.prems by auto
  have "drop j b = take ?n (drop j b) @ take ?m (drop (j + ?n) b) @ drop (j + ?n + ?m) b"
    by (metis append_take_drop_id drop_drop add.commute)
  then show ?case unfolding replay_blocks.simps ih same using ns ne by metis
qed simp

lemma blocks_earlier:
  assumes "take n (drop i a) = take n (drop j b)" and "i + n \<le> length a" and "j + n \<le> length b"
    and "blocks_match (i + n) (j + n) bs a b"
  shows "blocks_match i j bs a b"
proof (cases bs)
  case Nil
  then have "drop n (drop i a) = drop n (drop j b)" using assms(4) by (simp add: add.commute)
  with assms(1) have "drop i a = drop j b" by (metis append_take_drop_id)
  with Nil show ?thesis by simp
next
  case (Cons c cs)
  then have c: "i + n \<le> bk_old_start c" using assms(4) by simp
  let ?m = "bk_old_start c - (i + n)"
  have "take (n + ?m) (drop i a) = take (n + ?m) (drop j b)"
    using assms(1,4) Cons unfolding take_add by (simp add: add.commute)
  moreover have "n + ?m = bk_old_start c - i" "j + n + ?m = j + (bk_old_start c - i)" using c by simp_all
  ultimately show ?thesis using assms(4) Cons c by auto
qed

lemma blocks_match_loop:
  "turns es (drop i a) (drop j b) \<Longrightarrow> i \<le> length a \<Longrightarrow> j \<le> length b \<Longrightarrow>
   (case opened of
      None \<Rightarrow> blocks_match i j (block_loop es i j opened) a b
    | Some (os, ns) \<Rightarrow> os \<le> i \<longrightarrow> ns \<le> j \<longrightarrow> os < i \<or> ns < j \<longrightarrow> blocks_match os ns (block_loop es i j opened) a b)"
proof (induction es i j opened rule: block_loop.induct)
  case (1 i j opened)
  then show ?case by (auto simp: close_block_def split: option.splits prod.splits)
next
  case (2 es i j opened)
  then have ij: "i < length a" "j < length b" "a ! i = b ! j" by (auto simp: hd_drop_conv_nth)
  have "blocks_match (i + 1) (j + 1) (block_loop es (i + 1) (j + 1) None) a b"
    using 2 ij by (simp add: drop_Suc tl_drop)
  moreover have "take 1 (drop i a) = take 1 (drop j b)" using ij by (simp add: take_Suc hd_drop_conv_nth)
  ultimately have here: "blocks_match i j (block_loop es (i + 1) (j + 1) None) a b"
    using blocks_earlier [of 1 i a j b] ij by simp
  then show ?case using ij by (auto simp: close_block_def split: option.splits prod.splits)
next
  case (3 es i j opened)
  then have i: "i < length a" by auto
  have "turns es (drop (i + 1) a) (drop j b)" using 3(2) by (simp add: drop_Suc tl_drop)
  from 3(1) [OF this] 3(4) i show ?case by (auto split: option.splits)
next
  case (4 es i j opened)
  then have j: "j < length b" by auto
  have "turns es (drop i a) (drop (j + 1) b)" using 4(2) by (simp add: drop_Suc tl_drop)
  from 4(1) [OF this] 4(3) j show ?case by (auto split: option.splits)
qed

lemma block_loop_keeps: "block_loop (es @ replicate n Keep) i j opened = block_loop es i j opened"
proof (induction es i j opened rule: block_loop.induct)
  case (1 i j opened)
  have none: "block_loop (replicate n Keep) i j None = []" for n i j
    by (induction n arbitrary: i j) (simp_all add: close_block_def)
  then show ?case by (cases n) (simp_all add: close_block_def)
qed simp_all

lemma sum_loop:
  "(case opened of None \<Rightarrow> True | Some (os, ns) \<Rightarrow> os \<le> i \<and> ns \<le> j) \<Longrightarrow>
   fst (line_change_counts (block_loop es i j opened)) + snd (line_change_counts (block_loop es i j opened)) =
   edits es + (case opened of None \<Rightarrow> 0 | Some (os, ns) \<Rightarrow> (i - os) + (j - ns))"
proof (induction es i j opened rule: block_loop.induct)
  case (1 i j opened)
  then show ?case by (auto simp: close_block_def line_change_counts_def split: option.splits)
next
  case (2 es i j opened)
  then show ?case by (auto simp: close_block_def line_change_counts_def split: option.splits)
next
  case (3 es i j opened)
  then show ?case by (auto simp del: block_loop.simps simp: block_loop.simps(3) split: option.splits)
next
  case (4 es i j opened)
  then show ?case by (auto simp del: block_loop.simps simp: block_loop.simps(4) split: option.splits)
qed

subsection \<open>The whole search\<close>

lemma common_run_result:
  "n \<le> limit \<Longrightarrow> n \<le> common_run limit same n \<and> common_run limit same n \<le> limit \<and>
   (\<forall>i. n \<le> i \<longrightarrow> i < common_run limit same n \<longrightarrow> same i) \<and>
   (common_run limit same n < limit \<longrightarrow> \<not> same (common_run limit same n))"
proof (induction limit same n rule: common_run.induct)
  case (1 limit same n)
  show ?case
  proof (cases "n < limit \<and> same n")
    case True
    then have eq: "common_run limit same n = common_run limit same (n + 1)" by (subst common_run.simps) simp
    have "n + 1 \<le> limit" using True by simp
    note ih = 1(1) [OF True this]
    have "same i" if "n \<le> i" "i < common_run limit same (n + 1)" for i
      using that ih True by (cases "i = n") auto
    with ih show ?thesis unfolding eq by auto
  next
    case False
    then have "common_run limit same n = n" by (subst common_run.simps) auto
    with 1(2) False show ?thesis by auto
  qed
qed

lemma common_prefix_result:
  "common_prefix_length a b \<le> length a" "common_prefix_length a b \<le> length b"
  "take (common_prefix_length a b) a = take (common_prefix_length a b) b"
proof -
  let ?p = "common_prefix_length a b"
  have p: "?p \<le> min (length a) (length b)" and same: "\<And>i. i < ?p \<Longrightarrow> a ! i = b ! i"
    using common_run_result [of 0 "min (length a) (length b)" "\<lambda>i. a ! i = b ! i"]
    by (auto simp: common_prefix_length_def)
  show "?p \<le> length a" "?p \<le> length b" using p by simp_all
  show "take ?p a = take ?p b" using p same by (intro nth_equalityI) simp_all
qed

lemma common_suffix_result:
  assumes "p \<le> length a" and "p \<le> length b"
  defines "s \<equiv> common_suffix_length a b p"
  shows "p + s \<le> length a" and "p + s \<le> length b" and "drop (length a - s) a = drop (length b - s) b"
proof -
  note r = common_run_result [of 0 "min (length a) (length b) - p" "\<lambda>i. a ! (length a - 1 - i) = b ! (length b - 1 - i)"]
  have s: "s \<le> min (length a) (length b) - p" and same: "\<And>i. i < s \<Longrightarrow> a ! (length a - 1 - i) = b ! (length b - 1 - i)"
    using r by (auto simp: s_def common_suffix_length_def)
  show "p + s \<le> length a" "p + s \<le> length b" using s assms(1,2) by auto
  show "drop (length a - s) a = drop (length b - s) b"
  proof (rule nth_equalityI)
    show "length (drop (length a - s) a) = length (drop (length b - s) b)" using s by auto
    fix i assume "i < length (drop (length a - s) a)"
    then have i: "i < s" using s by simp
    then have "a ! (length a - 1 - (s - 1 - i)) = b ! (length b - 1 - (s - 1 - i))" by (intro same) auto
    moreover have "length a - 1 - (s - 1 - i) = length a - s + i" "length b - 1 - (s - 1 - i) = length b - s + i"
      using i s by auto
    ultimately have "a ! (length a - s + i) = b ! (length b - s + i)" by argo
    then show "drop (length a - s) a ! i = drop (length b - s) b ! i" by (simp only: nth_drop diff_le_self)
  qed
qed

text \<open>Both sides are the common prefix, a middle and the common suffix.\<close>

definition whole_block :: "'a list \<Rightarrow> 'a list \<Rightarrow> change_block" where
  "whole_block a b =
     (let p = common_prefix_length a b; s = common_suffix_length a b p
      in \<lparr> bk_old_start = p, bk_old_end = length a - s, bk_new_start = p, bk_new_end = length b - s \<rparr>)"

definition old_middle :: "'a list \<Rightarrow> 'a list \<Rightarrow> 'a list" where
  "old_middle a b = (let w = whole_block a b in take (bk_old_end w - bk_old_start w) (drop (bk_old_start w) a))"

definition new_middle :: "'a list \<Rightarrow> 'a list \<Rightarrow> 'a list" where
  "new_middle a b = (let w = whole_block a b in take (bk_new_end w - bk_new_start w) (drop (bk_new_start w) b))"

lemma middle_split:
  fixes a b
  defines "w \<equiv> whole_block a b"
  shows "bk_new_start w = bk_old_start w" and "bk_old_start w \<le> bk_old_end w" and "bk_new_start w \<le> bk_new_end w"
    and "bk_old_end w \<le> length a" and "bk_new_end w \<le> length b"
    and "take (bk_old_start w) a = take (bk_old_start w) b"
    and "drop (bk_old_end w) a = drop (bk_new_end w) b"
    and "drop (bk_old_start w) a = old_middle a b @ drop (bk_old_end w) a"
    and "drop (bk_old_start w) b = new_middle a b @ drop (bk_old_end w) a"
    and "length (old_middle a b) = bk_old_end w - bk_old_start w"
    and "length (new_middle a b) = bk_new_end w - bk_new_start w"
proof -
  define p where "p = common_prefix_length a b"
  define s where "s = common_suffix_length a b p"
  note pre = common_prefix_result [of a b, folded p_def]
  note suf = common_suffix_result [OF pre(1,2), folded s_def]
  have w: "w = \<lparr> bk_old_start = p, bk_old_end = length a - s, bk_new_start = p, bk_new_end = length b - s \<rparr>"
    by (simp add: w_def whole_block_def p_def s_def Let_def)
  show "bk_new_start w = bk_old_start w" "bk_old_start w \<le> bk_old_end w" "bk_new_start w \<le> bk_new_end w"
    "bk_old_end w \<le> length a" "bk_new_end w \<le> length b" "take (bk_old_start w) a = take (bk_old_start w) b"
    "drop (bk_old_end w) a = drop (bk_new_end w) b"
    using pre suf by (simp_all add: w)
  have split: "drop i xs = take (j - i) (drop i xs) @ drop j xs" if "i \<le> j" for i j and xs :: "'a list"
    using that by (metis append_take_drop_id drop_drop le_add_diff_inverse2)
  show "drop (bk_old_start w) a = old_middle a b @ drop (bk_old_end w) a"
    unfolding old_middle_def Let_def w_def [symmetric] using suf by (intro split) (simp add: w)
  show "drop (bk_old_start w) b = new_middle a b @ drop (bk_old_end w) a"
    unfolding new_middle_def Let_def w_def [symmetric] using suf split [of p "length b - s" b] by (simp add: w)
  show "length (old_middle a b) = bk_old_end w - bk_old_start w" "length (new_middle a b) = bk_new_end w - bk_new_start w"
    unfolding old_middle_def new_middle_def Let_def w_def [symmetric] using suf by (simp_all add: w)
qed

lemma middle_distance: "edit_distance a b = edit_distance (old_middle a b) (new_middle a b)"
proof -
  let ?w = "whole_block a b"
  note m = middle_split [of a b]
  have "a = take (bk_old_start ?w) a @ old_middle a b @ drop (bk_old_end ?w) a"
    "b = take (bk_old_start ?w) a @ new_middle a b @ drop (bk_old_end ?w) a"
    using m(6,8,9) by (metis append_take_drop_id)+
  then have "edit_distance a b = edit_distance (take (bk_old_start ?w) a @ old_middle a b @ drop (bk_old_end ?w) a)
      (take (bk_old_start ?w) a @ new_middle a b @ drop (bk_old_end ?w) a)" by simp
  then show ?thesis unfolding distance_same_prefix distance_same_suffix .
qed

lemma middle_blocks:
  assumes "turns es (old_middle a b) (new_middle a b)"
  shows "blocks_match 0 0 (block_loop es (bk_old_start (whole_block a b)) (bk_old_start (whole_block a b)) None) a b"
proof -
  let ?w = "whole_block a b"
  note m = middle_split [of a b]
  let ?rest = "drop (bk_old_end ?w) a" and ?p = "bk_old_start ?w"
  let ?full = "es @ replicate (length ?rest) Keep"
  have "turns ?full (drop ?p a) (drop ?p b)"
    unfolding m(8,9) by (rule turns_append [OF assms turns_keeps])
  then have "blocks_match ?p ?p (block_loop ?full ?p ?p None) a b"
    using blocks_match_loop [of ?full ?p a ?p b None] m(1-5) by simp
  then have "blocks_match (0 + ?p) (0 + ?p) (block_loop es ?p ?p None) a b" unfolding block_loop_keeps by simp
  from blocks_earlier [OF _ _ _ this] show ?thesis using m(1-6) by simp
qed

lemma whole_blocks: "whole_block a b = w \<Longrightarrow> bk_old_start w < bk_old_end w \<or> bk_new_start w < bk_new_end w \<Longrightarrow>
    blocks_match 0 0 [w] a b"
  using middle_split [of a b] by auto

text \<open>The middles and their numbers have the same scripts.\<close>

lemma interned_scripts:
  fixes A B :: "string list"
  defines "olds \<equiv> line_ids A []"
  defines "news \<equiv> line_ids B (snd olds)"
  shows "turns es (fst olds) (fst news) \<longleftrightarrow> turns es A B"
proof -
  have "ids_ok []" by (simp add: ids_ok_def)
  from line_ids_result [OF this, of A] have olds: "ids_ok (snd olds)" "set A \<subseteq> fst ` set (snd olds)"
    "fst olds = map (id_of (snd olds)) A" by (simp_all add: olds_def)
  from line_ids_result [OF olds(1), of B] obtain us where news: "ids_ok (snd news)" "snd news = snd olds @ us"
    "set B \<subseteq> fst ` set (snd news)" "fst news = map (id_of (snd news)) B" by (auto simp: news_def)
  have "id_of (snd olds) l = id_of (snd news) l" if "l \<in> set A" for l
  proof -
    from that olds(2) obtain i where "map_of (snd olds) l = Some i" by (metis map_of_eq_None_iff not_Some_eq subsetD)
    with id_of_append [of "snd olds" us l i] news(1,2) show ?thesis by (simp add: id_of_def)
  qed
  with olds(3) have "fst olds = map (id_of (snd news)) A" by simp
  moreover have "inj_on (id_of (snd news)) (set A \<union> set B)"
    using ids_ok_inj [OF news(1)] by (rule inj_on_subset) (use olds(2) news(2,3) in auto)
  ultimately show ?thesis using turns_map news(4) by metis
qed

lemma search_cases:
  fixes before after m
  defines "a \<equiv> comparison_keys before" and "b \<equiv> comparison_keys after"
  defines "r \<equiv> search_line_changes before after m"
  obtains (same) "old_middle a b = []" and "new_middle a b = []" and "r = \<lparr> lc_blocks = [], lc_bound = None \<rparr>"
    | (one_side) "old_middle a b = [] \<longleftrightarrow> new_middle a b \<noteq> []" and "r = \<lparr> lc_blocks = [whole_block a b], lc_bound = None \<rparr>"
    | (stopped) bound where "old_middle a b \<noteq> []" and "r = \<lparr> lc_blocks = [whole_block a b], lc_bound = Some bound \<rparr>"
        and "\<And>es. bound = DistanceBound \<Longrightarrow> turns es (old_middle a b) (new_middle a b) \<Longrightarrow> m < edits es"
    | (found) es where "turns es (old_middle a b) (new_middle a b)"
        and "\<And>fs. turns fs (old_middle a b) (new_middle a b) \<Longrightarrow> edits es \<le> edits fs"
        and "r = \<lparr> lc_blocks = block_loop es (bk_old_start (whole_block a b)) (bk_old_start (whole_block a b)) None, lc_bound = None \<rparr>"
proof -
  let ?w = "whole_block a b" and ?A = "old_middle a b" and ?B = "new_middle a b"
  define olds where "olds = line_ids ?A []"
  define news where "news = line_ids ?B (snd olds)"
  note m = middle_split [of a b]
  have empty: "bk_old_start ?w = bk_old_end ?w \<longleftrightarrow> ?A = []" "bk_new_start ?w = bk_new_end ?w \<longleftrightarrow> ?B = []"
    using m(2,3,10,11) by (metis diff_is_0_eq le_antisym length_0_conv diff_self_eq_0)+
  define p where "p = common_prefix_length a b"
  have w: "?w = \<lparr> bk_old_start = p, bk_old_end = length a - common_suffix_length a b p,
      bk_new_start = p, bk_new_end = length b - common_suffix_length a b p \<rparr>"
    by (simp add: whole_block_def p_def Let_def)
  have p: "p = bk_old_start ?w" by (simp add: w)
  have olds': "olds = line_ids (take (bk_old_end ?w - p) (drop p a)) []"
    unfolding olds_def old_middle_def Let_def by (simp add: w)
  have news': "news = line_ids (take (bk_new_end ?w - p) (drop p b)) (snd olds)"
    unfolding news_def new_middle_def Let_def by (simp add: w)
  have "r = (if bk_old_start ?w = bk_old_end ?w \<and> bk_new_start ?w = bk_new_end ?w then \<lparr> lc_blocks = [], lc_bound = None \<rparr>
      else if bk_old_start ?w = bk_old_end ?w \<or> bk_new_start ?w = bk_new_end ?w then \<lparr> lc_blocks = [?w], lc_bound = None \<rparr>
      else case forward_trace (fst olds) (fst news) m of
        Stopped bound \<Rightarrow> \<lparr> lc_blocks = [?w], lc_bound = Some bound \<rparr>
      | Traced trace \<Rightarrow> \<lparr> lc_blocks = edit_blocks (backtrack_edits trace (length trace)
            (int (length (fst olds))) (int (length (fst news)))) p, lc_bound = None \<rparr>)"
    unfolding r_def search_line_changes_def Let_def a_def [symmetric] b_def [symmetric] p_def [symmetric]
      w [symmetric] olds' [symmetric] news' [symmetric] by (rule refl)
  then have r: "r = (if ?A = [] \<and> ?B = [] then \<lparr> lc_blocks = [], lc_bound = None \<rparr>
      else if ?A = [] \<or> ?B = [] then \<lparr> lc_blocks = [?w], lc_bound = None \<rparr>
      else case forward_trace (fst olds) (fst news) m of
        Stopped bound \<Rightarrow> \<lparr> lc_blocks = [?w], lc_bound = Some bound \<rparr>
      | Traced trace \<Rightarrow> \<lparr> lc_blocks = edit_blocks (backtrack_edits trace (length trace)
            (int (length (fst olds))) (int (length (fst news)))) (bk_old_start ?w), lc_bound = None \<rparr>)"
    unfolding empty p .
  note scripts = interned_scripts [of _ ?A ?B, folded olds_def, folded news_def]
  show thesis
  proof (cases "?A = [] \<or> ?B = []")
    case True
    then show thesis using r by (cases "?A = [] \<and> ?B = []") (auto intro: same one_side)
  next
    case False
    show thesis
    proof (cases "forward_trace (fst olds) (fst news) m")
      case (Stopped bound)
      with False r show thesis
        by (intro stopped [of bound]) (use stopped_at_distance [of "fst olds" "fst news" m] scripts in auto)
    next
      case (Traced trace)
      from traced_script [OF this] scripts False r Traced show thesis
        by (intro found) (auto simp: edit_blocks_def)
    qed
  qed
qed

lemma search_blocks_match:
  "blocks_match 0 0 (line_change_blocks before after m) (comparison_keys before) (comparison_keys after)"
proof -
  let ?a = "comparison_keys before" and ?b = "comparison_keys after"
  let ?w = "whole_block ?a ?b"
  note mid = middle_split [of ?a ?b]
  show ?thesis
  proof (cases rule: search_cases [of before after m])
    case same
    have "blocks_match 0 0 (block_loop [] (bk_old_start ?w) (bk_old_start ?w) None) ?a ?b"
      using same by (intro middle_blocks) simp
    with same show ?thesis by (simp add: line_change_blocks_def close_block_def)
  next
    case one_side
    then have "bk_old_start ?w < bk_old_end ?w \<or> bk_new_start ?w < bk_new_end ?w"
      using mid(10,11) by auto
    from whole_blocks [OF refl this] one_side show ?thesis by (simp only: line_change_blocks_def line_search.select_convs)
  next
    case (stopped bound)
    then have "0 < length (old_middle ?a ?b)" by simp
    then have "bk_old_start ?w < bk_old_end ?w \<or> bk_new_start ?w < bk_new_end ?w"
      unfolding mid(10) by simp
    from whole_blocks [OF refl this] stopped(2) show ?thesis by (simp only: line_change_blocks_def line_search.select_convs)
  next
    case (found es)
    from middle_blocks [OF found(1)] found(3) show ?thesis by (simp only: line_change_blocks_def line_search.select_convs)
  qed
qed

text \<open>
  The line diff is right, however it was found: its blocks are in order and non-empty, the
  lines outside them are the same on both sides, and replaying them turns the old side into the new.
\<close>

theorem line_diff_replays:
  "let a = comparison_keys before; b = comparison_keys after; bs = line_change_blocks before after m
   in blocks_match 0 0 bs a b \<and> replay_blocks 0 bs a b = b"
  using search_blocks_match [of before after m] blocks_replay by (fastforce simp: Let_def)

text \<open>
  Claim C16. The line diff is as short as it says: unless the search was cut short, the added and
  deleted lines it counts are the least number any edit script between the sides needs; and a search
  cut short by its distance bound means that every script is longer than that bound.
\<close>

theorem line_diff_is_shortest:
  "let r = search_line_changes before after m; counts = line_change_counts (lc_blocks r);
       distance = edit_distance (comparison_keys before) (comparison_keys after)
   in case lc_bound r of
        None \<Rightarrow> fst counts + snd counts = distance
      | Some DistanceBound \<Rightarrow> m < distance
      | Some WorkBound \<Rightarrow> True"
proof -
  let ?a = "comparison_keys before" and ?b = "comparison_keys after"
  note mid = middle_split [of ?a ?b]
  note dist = middle_distance [of ?a ?b]
  show ?thesis
  proof (cases rule: search_cases [of before after m])
    case same
    with dist show ?thesis by (simp add: line_change_counts_def Let_def)
  next
    case one_side
    have "edit_distance ?a ?b = length (old_middle ?a ?b) + length (new_middle ?a ?b)"
      using one_side(1) dist by (cases "old_middle ?a ?b = []") auto
    with one_side(2) mid(10,11) show ?thesis by (simp add: line_change_counts_def Let_def)
  next
    case (stopped bound)
    obtain es where "turns es (old_middle ?a ?b) (new_middle ?a ?b)"
      "edits es = edit_distance (old_middle ?a ?b) (new_middle ?a ?b)" using distance_script by blast
    with stopped(3) [of es] dist have "bound = DistanceBound \<Longrightarrow> m < edit_distance ?a ?b" by simp
    with stopped(2) show ?thesis by (cases bound) (simp_all add: Let_def)
  next
    case (found es)
    have "edit_distance (old_middle ?a ?b) (new_middle ?a ?b) = edits es"
      using found(1,2) by (intro distance_least) auto
    with found(3) dist sum_loop [where opened = None] show ?thesis by (simp add: Let_def)
  qed
qed

end
