(* ===== verification/Line_Diff_Groups.thy ===== *)
theory Line_Diff_Groups
  imports Line_Diff_Blocks
begin

text \<open>
  The hunks of the line diff as ranges: the groups that \<open>hunkGroups\<close> forms cover the blocks with their
  context, and lie apart.
\<close>

definition old_from :: "hunk_group \<Rightarrow> nat" where
  "old_from g = bk_old_start (hd (hg_blocks g)) - hg_leading g"

definition new_from :: "hunk_group \<Rightarrow> nat" where
  "new_from g = bk_new_start (hd (hg_blocks g)) - hg_leading g"

definition old_to :: "hunk_group \<Rightarrow> nat" where
  "old_to g = bk_old_end (last (hg_blocks g)) + hg_trailing g"

definition new_to :: "hunk_group \<Rightarrow> nat" where
  "new_to g = bk_new_end (last (hg_blocks g)) + hg_trailing g"

text \<open>\<open>same_run n i j a b\<close>: \<open>n\<close> lines from \<open>i\<close> on in \<open>a\<close> and from \<open>j\<close> on in \<open>b\<close> exist and are the same.\<close>

definition same_run :: "nat \<Rightarrow> nat \<Rightarrow> nat \<Rightarrow> 'a list \<Rightarrow> 'a list \<Rightarrow> bool" where
  "same_run n i j a b \<longleftrightarrow> i + n \<le> length a \<and> j + n \<le> length b \<and> (\<forall>l<n. a ! (i + l) = b ! (j + l))"

lemma same_run_0 [simp]: "same_run 0 i j a b \<longleftrightarrow> i \<le> length a \<and> j \<le> length b"
  by (simp add: same_run_def)

lemma same_run_take:
  assumes "i + n \<le> length a" and "j + n \<le> length b"
  shows "take n (drop i a) = take n (drop j b) \<longleftrightarrow> same_run n i j a b"
proof
  assume eq: "take n (drop i a) = take n (drop j b)"
  have "a ! (i + l) = b ! (j + l)" if "l < n" for l
    using arg_cong [OF eq, of "\<lambda>xs. xs ! l"] that assms by simp
  with assms show "same_run n i j a b" by (simp add: same_run_def)
next
  assume "same_run n i j a b"
  moreover have "length (take n (drop i a)) = n" "length (take n (drop j b)) = n" using assms by simp_all
  ultimately show "take n (drop i a) = take n (drop j b)"
    by (intro nth_equalityI) (simp_all add: same_run_def)
qed

lemma same_run_part: "same_run n i j a b \<Longrightarrow> p + m \<le> n \<Longrightarrow> same_run m (i + p) (j + p) a b"
  by (auto simp: same_run_def add.assoc)

lemma same_run_append: "same_run m i j a b \<Longrightarrow> same_run n (i + m) (j + m) a b \<Longrightarrow> same_run (m + n) i j a b"
proof -
  assume m: "same_run m i j a b" and n: "same_run n (i + m) (j + m) a b"
  have "a ! (i + l) = b ! (j + l)" if "l < m + n" for l
  proof (cases "l < m")
    case False
    then have "l - m < n" using that by simp
    then have "a ! (i + m + (l - m)) = b ! (j + m + (l - m))" using n unfolding same_run_def by blast
    with False show ?thesis by simp
  qed (use m in \<open>simp add: same_run_def\<close>)
  with m n show ?thesis by (simp add: same_run_def)
qed

lemma same_rest: "drop i a = drop j b \<Longrightarrow> i \<le> length a \<Longrightarrow> j \<le> length b \<Longrightarrow>
    length a - i = length b - j \<and> same_run (length a - i) i j a b"
  by (metis length_drop same_run_take le_add_diff_inverse order_refl take_all_iff)

text \<open>A stretch of both sides from \<open>(i, j)\<close> to \<open>(stop, stop')\<close> with the blocks inside it.\<close>

fun blocks_span :: "nat \<Rightarrow> nat \<Rightarrow> change_block list \<Rightarrow> nat \<Rightarrow> nat \<Rightarrow> 'a list \<Rightarrow> 'a list \<Rightarrow> bool" where
  "blocks_span i j [] stop stop' a b \<longleftrightarrow> i \<le> stop \<and> stop' = j + (stop - i) \<and> same_run (stop - i) i j a b"
| "blocks_span i j (c # bs) stop stop' a b \<longleftrightarrow>
     i \<le> bk_old_start c \<and> bk_new_start c = j + (bk_old_start c - i) \<and> same_run (bk_old_start c - i) i j a b \<and>
     bk_old_start c \<le> bk_old_end c \<and> bk_old_end c \<le> length a \<and>
     bk_new_start c \<le> bk_new_end c \<and> bk_new_end c \<le> length b \<and>
     (bk_old_start c < bk_old_end c \<or> bk_new_start c < bk_new_end c) \<and>
     blocks_span (bk_old_end c) (bk_new_end c) bs stop stop' a b"

lemma span_extend:
  "blocks_span i j bs stop stop' a b \<Longrightarrow> same_run n stop stop' a b \<Longrightarrow> blocks_span i j bs (stop + n) (stop' + n) a b"
proof (induction bs arbitrary: i j)
  case Nil
  then have "same_run (stop - i + n) i j a b" by (intro same_run_append) auto
  moreover have "stop - i + n = stop + n - i" using Nil by simp
  ultimately show ?case using Nil by simp
qed auto

lemma span_snoc:
  assumes "blocks_span i j bs stop stop' a b" and "stop \<le> bk_old_start c"
    and "bk_new_start c = stop' + (bk_old_start c - stop)" and "same_run (bk_old_start c - stop) stop stop' a b"
    and "bk_old_start c \<le> bk_old_end c" "bk_old_end c \<le> length a" "bk_new_start c \<le> bk_new_end c" "bk_new_end c \<le> length b"
    and "bk_old_start c < bk_old_end c \<or> bk_new_start c < bk_new_end c"
  shows "blocks_span i j (bs @ [c]) (bk_old_end c) (bk_new_end c) a b"
  using assms
proof (induction bs arbitrary: i j)
  case Nil
  then have "same_run (stop - i + (bk_old_start c - stop)) i j a b" by (intro same_run_append) auto
  moreover have "stop - i + (bk_old_start c - stop) = bk_old_start c - i" using Nil by simp
  ultimately show ?case using Nil by simp
qed auto

lemma span_bounds: "blocks_span i j bs stop stop' a b \<Longrightarrow> i \<le> stop \<and> j \<le> stop' \<and> stop \<le> length a \<and> stop' \<le> length b"
proof (induction bs arbitrary: i j)
  case Nil
  then show ?case by (auto simp: same_run_def)
next
  case (Cons c bs)
  then show ?case by fastforce
qed

text \<open>A list of hunks after \<open>(i, j)\<close>: each a stretch, what lies between them the same on both sides.\<close>

fun groups_match :: "nat \<Rightarrow> nat \<Rightarrow> hunk_group list \<Rightarrow> 'a list \<Rightarrow> 'a list \<Rightarrow> bool" where
  "groups_match i j [] a b \<longleftrightarrow> i \<le> length a \<and> j \<le> length b \<and> drop i a = drop j b"
| "groups_match i j (g # gs) a b \<longleftrightarrow>
     hg_blocks g \<noteq> [] \<and> i \<le> old_from g \<and> new_from g = j + (old_from g - i) \<and>
     same_run (old_from g - i) i j a b \<and>
     blocks_span (old_from g) (new_from g) (hg_blocks g) (old_to g) (new_to g) a b \<and>
     (hg_leading g = 0 \<longrightarrow> old_from g = 0 \<and> new_from g = 0) \<and>
     (hg_trailing g = 0 \<longrightarrow> old_to g = length a) \<and>
     (gs \<noteq> [] \<longrightarrow> old_to g < old_from (hd gs)) \<and> groups_match (old_to g) (new_to g) gs a b"

lemma group_loop_match:
  assumes "hg_blocks g \<noteq> []" and "i \<le> old_from g" and "new_from g = j + (old_from g - i)"
    and "same_run (old_from g - i) i j a b"
    and "blocks_span (old_from g) (new_from g) (hg_blocks g) (bk_old_end (last (hg_blocks g))) (bk_new_end (last (hg_blocks g))) a b"
    and "hg_leading g = 0 \<longrightarrow> old_from g = 0 \<and> new_from g = 0"
    and "blocks_match (bk_old_end (last (hg_blocks g))) (bk_new_end (last (hg_blocks g))) bs a b"
  shows "groups_match i j (group_loop bs g (bk_old_end (last (hg_blocks g))) (length a)) a b \<and>
    old_from (hd (group_loop bs g (bk_old_end (last (hg_blocks g))) (length a))) = old_from g"
  using assms
proof (induction bs arbitrary: g i j)
  case Nil
  let ?p = "bk_old_end (last (hg_blocks g))" and ?q = "bk_new_end (last (hg_blocks g))"
  let ?t = "min context_lines (length a - ?p)"
  let ?g = "g\<lparr> hg_trailing := ?t \<rparr>"
  have pq: "?p \<le> length a" "?q \<le> length b" using span_bounds [OF Nil.prems(5)] by simp_all
  from Nil.prems(7) have rest: "length a - ?p = length b - ?q" "same_run (length a - ?p) ?p ?q a b"
    using same_rest [OF _ pq] by auto
  have run: "same_run ?t ?p ?q a b" using same_run_part [OF rest(2), of 0 ?t] by simp
  have "drop ?t (drop ?p a) = drop ?t (drop ?q b)" using Nil.prems(7) by simp
  then have drops: "drop (?p + ?t) a = drop (?q + ?t) b" by (simp add: add.commute)
  have "?t = 0 \<longrightarrow> ?p = length a" using pq by (auto simp: context_lines_def min_def split: if_splits)
  moreover have "?q + ?t \<le> length b" using rest(1) pq by (auto simp: min_def)
  ultimately show ?case
    using Nil.prems span_extend [OF Nil.prems(5) run] drops pq
    by (simp add: old_from_def new_from_def old_to_def new_to_def)
next
  case (Cons c bs)
  let ?p = "bk_old_end (last (hg_blocks g))" and ?q = "bk_new_end (last (hg_blocks g))"
  let ?gap = "bk_old_start c - ?p"
  from Cons.prems(7) have c: "?p \<le> bk_old_start c" "bk_new_start c = ?q + ?gap"
    "take ?gap (drop ?p a) = take ?gap (drop ?q b)"
    "bk_old_start c \<le> bk_old_end c" "bk_old_end c \<le> length a" "bk_new_start c \<le> bk_new_end c" "bk_new_end c \<le> length b"
    "bk_old_start c < bk_old_end c \<or> bk_new_start c < bk_new_end c"
    "blocks_match (bk_old_end c) (bk_new_end c) bs a b" by auto
  have run: "same_run ?gap ?p ?q a b" using c by (subst same_run_take [symmetric]) auto
  show ?case
  proof (cases "?gap \<le> 2 * context_lines")
    case True
    let ?g = "g\<lparr> hg_blocks := hg_blocks g @ [c] \<rparr>"
    have from_eq: "old_from ?g = old_from g" "new_from ?g = new_from g"
      using Cons.prems(1) by (simp_all add: old_from_def new_from_def)
    have "blocks_span (old_from g) (new_from g) (hg_blocks g @ [c]) (bk_old_end c) (bk_new_end c) a b"
      by (rule span_snoc [OF Cons.prems(5) c(1,2) run c(4-8)])
    then have "groups_match i j (group_loop bs ?g (bk_old_end (last (hg_blocks ?g))) (length a)) a b \<and>
        old_from (hd (group_loop bs ?g (bk_old_end (last (hg_blocks ?g))) (length a))) = old_from ?g"
      using Cons.prems(2-4,6) c(9) by (intro Cons.IH) (auto simp: from_eq)
    with True show ?thesis by (simp add: from_eq)
  next
    case False
    let ?g = "g\<lparr> hg_trailing := context_lines \<rparr>"
    let ?h = "\<lparr> hg_blocks = [c], hg_leading = min context_lines ?gap, hg_trailing = 0 \<rparr>"
    have t: "same_run context_lines ?p ?q a b" using same_run_part [OF run, of 0 context_lines] False by simp
    have ext: "blocks_span (old_from ?g) (new_from ?g) (hg_blocks ?g) (old_to ?g) (new_to ?g) a b"
      using span_extend [OF Cons.prems(5) t] by (simp add: old_from_def new_from_def old_to_def new_to_def)
    have h: "old_from ?h = bk_old_start c - 3" "new_from ?h = bk_new_start c - 3" "hg_leading ?h = 3"
      using False by (simp_all add: old_from_def new_from_def context_lines_def)
    have to: "old_to ?g = ?p + 3" "new_to ?g = ?q + 3" by (simp_all add: old_to_def new_to_def context_lines_def)
    have mid: "same_run (bk_old_start c - 3 - (?p + 3)) (?p + 3) (?q + 3) a b"
      using False by (intro same_run_part [OF run]) (simp add: context_lines_def)
    have lead: "same_run 3 (bk_old_start c - 3) (bk_new_start c - 3) a b"
      using same_run_part [OF run, of "?gap - 3" 3] False c(1,2) by (simp add: context_lines_def)
    have span: "blocks_span (bk_old_start c - 3) (bk_new_start c - 3) [c] (bk_old_end c) (bk_new_end c) a b"
      using lead c False by (simp add: context_lines_def)
    have wide: "6 < ?gap" using False by (simp add: context_lines_def)
    have ih: "groups_match (?p + 3) (?q + 3) (group_loop bs ?h (bk_old_end (last (hg_blocks ?h))) (length a)) a b \<and>
        old_from (hd (group_loop bs ?h (bk_old_end (last (hg_blocks ?h))) (length a))) = old_from ?h"
    proof (rule Cons.IH)
      show "?p + 3 \<le> old_from ?h" "new_from ?h = ?q + 3 + (old_from ?h - (?p + 3))" unfolding h(1,2) using c(1,2) wide by auto
      show "same_run (old_from ?h - (?p + 3)) (?p + 3) (?q + 3) a b" unfolding h(1) by (rule mid)
      show "blocks_span (old_from ?h) (new_from ?h) (hg_blocks ?h) (bk_old_end (last (hg_blocks ?h)))
          (bk_new_end (last (hg_blocks ?h))) a b" unfolding h(1,2) using span by simp
    qed (use c(9) h(3) in simp_all)
    have loop: "group_loop (c # bs) g ?p (length a) = ?g # group_loop bs ?h (bk_old_end c) (length a)"
      using False by simp
    have "old_to ?g < old_from ?h" unfolding to(1) h(1) using c(1) wide by linarith
    moreover have "old_from ?g = old_from g" "new_from ?g = new_from g" by (simp_all add: old_from_def new_from_def)
    moreover have "hg_trailing ?g \<noteq> 0" by (simp add: context_lines_def)
    ultimately show ?thesis unfolding loop groups_match.simps list.sel(1)
      using ih ext to Cons.prems(1-4,6) by auto
  qed
qed

lemma hunk_groups_match:
  assumes "blocks_match 0 0 bs a b"
  shows "groups_match 0 0 (hunk_groups bs (length a)) a b"
proof (cases bs)
  case Nil
  with assms show ?thesis by simp
next
  case (Cons c cs)
  let ?l = "min context_lines (bk_old_start c)"
  let ?g = "\<lparr> hg_blocks = [c], hg_leading = ?l, hg_trailing = 0 \<rparr>"
  from assms Cons have c: "bk_new_start c = bk_old_start c" "take (bk_old_start c) a = take (bk_old_start c) b"
    "bk_old_start c \<le> bk_old_end c" "bk_old_end c \<le> length a" "bk_new_start c \<le> bk_new_end c" "bk_new_end c \<le> length b"
    "bk_old_start c < bk_old_end c \<or> bk_new_start c < bk_new_end c"
    "blocks_match (bk_old_end c) (bk_new_end c) cs a b" by auto
  have run: "same_run (bk_old_start c) 0 0 a b" using c by (subst same_run_take [symmetric]) auto
  have "same_run (bk_old_start c - ?l) 0 0 a b" using same_run_part [OF run, of 0 "bk_old_start c - ?l"] by simp
  moreover have "same_run ?l (bk_old_start c - ?l) (bk_old_start c - ?l) a b"
    using same_run_part [OF run, of "bk_old_start c - ?l" ?l] by simp
  ultimately have "groups_match 0 0 (group_loop cs ?g (bk_old_end c) (length a)) a b"
    using group_loop_match [of ?g 0 0 a b cs] c by (simp add: old_from_def new_from_def context_lines_def min_def)
  with Cons show ?thesis by simp
qed

end
