(* ===== verification/Line_Diff_Hunks.thy ===== *)
theory Line_Diff_Hunks
  imports Line_Diff_Groups Diff_Roundtrip
begin

text \<open>
  The hunks of the line diff as patches: what the patch engine makes of them is the other side.
\<close>

subsection \<open>Sides\<close>

definition side_ok :: "line_side \<Rightarrow> bool" where
  "side_ok s \<longleftrightarrow> newline_free (sd_lines s) \<and> (sd_missing s \<longrightarrow> sd_lines s \<noteq> [])"

definition side_original :: "line_side \<Rightarrow> original" where
  "side_original s = \<lparr> orig_lines = sd_lines s, orig_missing_newline = sd_missing s \<rparr>"

text \<open>Whether line \<open>i\<close> is the last one and lacks its newline.\<close>

definition unended :: "line_side \<Rightarrow> nat \<Rightarrow> bool" where
  "unended s i \<longleftrightarrow> i + 1 = length (sd_lines s) \<and> sd_missing s"

lemma length_keys [simp]: "length (comparison_keys s) = length (sd_lines s)"
  by (simp add: comparison_keys_def)

lemma key_nth:
  assumes "i < length (sd_lines s)"
  shows "comparison_keys s ! i = sd_lines s ! i @ (if unended s i then newline else [])"
proof (cases "sd_missing s")
  case True
  then have "comparison_keys s = butlast (sd_lines s) @ [last (sd_lines s) @ newline]"
    using assms by (auto simp: comparison_keys_def)
  moreover have "last (sd_lines s) = sd_lines s ! i" if "i + 1 = length (sd_lines s)"
    using that assms last_conv_nth [of "sd_lines s"] by (metis add_diff_cancel_right' list.size(3) not_less_zero)
  ultimately show ?thesis using assms True
    by (cases "i + 1 = length (sd_lines s)") (auto simp: unended_def nth_append nth_butlast)
qed (simp add: comparison_keys_def unended_def)

lemma key_line:
  assumes "side_ok s" and "i < length (sd_lines s)"
  shows "takeWhile (\<lambda>c. c \<noteq> newline_char) (comparison_keys s ! i) = sd_lines s ! i"
    and "newline_char \<in> set (comparison_keys s ! i) \<longleftrightarrow> unended s i"
proof -
  have "newline_char \<notin> set (sd_lines s ! i)" using assms by (simp add: side_ok_def newline_free_def)
  then have "\<forall>c\<in>set (sd_lines s ! i). c \<noteq> newline_char" by auto
  then show "takeWhile (\<lambda>c. c \<noteq> newline_char) (comparison_keys s ! i) = sd_lines s ! i"
    "newline_char \<in> set (comparison_keys s ! i) \<longleftrightarrow> unended s i"
    using assms(2) by (auto simp: key_nth newline_def takeWhile_append2)
qed

lemma same_keys:
  assumes "side_ok s" "side_ok t" "i < length (sd_lines s)" "j < length (sd_lines t)"
    and "comparison_keys s ! i = comparison_keys t ! j"
  shows "sd_lines s ! i = sd_lines t ! j" "unended s i \<longleftrightarrow> unended t j"
  using key_line [OF assms(1,3)] key_line [OF assms(2,4)] assms(5) by simp_all

lemma split_on_snoc: "split_on c (s @ [c]) = split_on c s @ [[]]"
  by (induction s) (auto split: list.splits)

lemma side_of_text:
  shows "to_original s = side_original (line_diff_side s)" and "side_ok (line_diff_side s)"
    and "render_lines (sd_lines (line_diff_side s)) (sd_missing (line_diff_side s)) = s"
proof -
  let ?d = "line_diff_side s"
  have "to_original s = side_original ?d \<and> side_ok ?d \<and> render_lines (sd_lines ?d) (sd_missing ?d) = s"
  proof (cases "s = []")
    case True
    then show ?thesis
      by (simp add: to_original_def side_original_def line_diff_side_def side_ok_def newline_free_def render_lines_def)
  next
    case nonempty: False
    show ?thesis
    proof (cases "last s = newline_char")
      case True
      then have s: "s = butlast s @ [newline_char]" using nonempty by (metis append_butlast_last_id)
      have split: "split_lines s = split_lines (butlast s) @ [[]]"
        by (subst s) (simp only: split_lines_def split_on_snoc)
      have "s = join_lines (split_lines (butlast s)) @ newline"
        by (subst s) (simp add: newline_def)
      then show ?thesis using split True nonempty
        by (simp add: to_original_def side_original_def line_diff_side_def side_ok_def newline_free_def
            render_lines_def split_lines_free Let_def)
    next
      case False
      have "last (split_lines s) \<noteq> []"
      proof
        assume e: "last (split_lines s) = []"
        then have p: "split_lines s = butlast (split_lines s) @ [[]]"
          by (metis append_butlast_last_id split_lines_not_Nil)
        then have s: "s = join_lines (butlast (split_lines s) @ [[]])" by (metis join_split_lines)
        show False
        proof (cases "butlast (split_lines s) = []")
          case True
          with s have "s = join_lines [[]]" by simp
          with nonempty show False by (simp add: join_lines_def)
        next
          case nonempty_init: False
          with s have "s = join_lines (butlast (split_lines s)) @ newline" by (simp add: join_lines_snoc)
          then have "last s = newline_char" by (metis last_snoc newline_def)
          with False show False ..
        qed
      qed
      with nonempty False show ?thesis
        by (auto simp: to_original_def side_original_def line_diff_side_def side_ok_def newline_free_def
            render_lines_def Let_def dest: split_lines_free)
    qed
  qed
  then show "to_original s = side_original ?d" "side_ok ?d" "render_lines (sd_lines ?d) (sd_missing ?d) = s" by auto
qed

subsection \<open>One line\<close>

lemma marker_line: "starts_char no_newline_marker no_newline_line"
  by (simp add: starts_char_def no_newline_marker_def backslash_def no_newline_line_def)

definition unmarked :: "string list \<Rightarrow> bool" where
  "unmarked ls \<longleftrightarrow> (case ls of [] \<Rightarrow> True | l # r \<Rightarrow> \<not> starts_char no_newline_marker l)"

lemma previous_irrelevant: "unmarked ls \<Longrightarrow> hunk_loop org ls p pos previous = hunk_loop org ls p pos []"
  by (cases ls) (simp_all add: unmarked_def)

text \<open>What a hunk has produced when new lines \<open>[ns, y)\<close> are out.\<close>

definition produced_to :: "line_side \<Rightarrow> nat \<Rightarrow> nat \<Rightarrow> produced" where
  "produced_to after ns y = \<lparr> prod_lines = take (y - ns) (drop ns (sd_lines after)),
     marked_at = (if ns < y \<and> unended after (y - 1) then Some (y - 1 - ns) else None) \<rparr>"

lemma produced_step:
  assumes "ns \<le> y" and "y < length (sd_lines after)"
  shows "prod_lines (produced_to after ns y) @ [sd_lines after ! y] = prod_lines (produced_to after ns (y + 1))"
    and "marked_at (produced_to after ns y) = None"
    and "marked_at (produced_to after ns (y + 1)) = (if unended after y then Some (y - ns) else None)"
    and "length (prod_lines (produced_to after ns y)) = y - ns"
proof -
  have "take (Suc (y - ns)) (drop ns (sd_lines after)) = take (y - ns) (drop ns (sd_lines after)) @ [sd_lines after ! y]"
    using assms by (simp add: take_Suc_conv_app_nth)
  then show "prod_lines (produced_to after ns y) @ [sd_lines after ! y] = prod_lines (produced_to after ns (y + 1))"
    using assms(1) by (simp add: produced_to_def Suc_diff_le)
qed (use assms in \<open>auto simp: produced_to_def unended_def\<close>)

lemma mark_produced:
  assumes "ns \<le> y" and "y < length (sd_lines after)"
  shows "(if unended after y then mark_last_produced ((produced_to after ns y)\<lparr> prod_lines := prod_lines (produced_to after ns y) @ [sd_lines after ! y] \<rparr>)
     else Inr ((produced_to after ns y)\<lparr> prod_lines := prod_lines (produced_to after ns y) @ [sd_lines after ! y] \<rparr>)) =
    Inr (produced_to after ns (y + 1))"
proof -
  note step = produced_step [OF assms]
  have "length (prod_lines (produced_to after ns (y + 1))) = y - ns + 1"
    using step(4) unfolding step(1) [symmetric] by simp
  then show ?thesis using step by (intro if_split [THEN iffD2]) (auto simp: mark_last_produced_def intro!: produced.equality)
qed

lemma side_line_if:
  "i < length (sd_lines s) \<Longrightarrow> side_line s m i = (m # sd_lines s ! i) # (if unended s i then [no_newline_line] else [])"
  by (simp add: side_line_def unended_def)

lemma context_line:
  assumes "side_ok before" "side_ok after" "i < length (sd_lines before)" "ns \<le> y" "y < length (sd_lines after)"
    and "comparison_keys before ! i = comparison_keys after ! y" and "unmarked rest"
  shows "hunk_loop (side_original before) (side_line before (CHR '' '') i @ rest) (produced_to after ns y) i previous =
    hunk_loop (side_original before) rest (produced_to after ns (y + 1)) (i + 1) []"
proof -
  let ?org = "side_original before" and ?p = "produced_to after ns y"
  let ?l = "CHR '' '' # sd_lines before ! i"
  let ?p' = "?p\<lparr> prod_lines := prod_lines ?p @ [sd_lines after ! y] \<rparr>"
  note same = same_keys [OF assms(1,2,3,5,6)]
  have chars: "\<not> starts_char no_newline_marker ?l" "\<not> starts_char (CHR ''+'') ?l" "starts_char (CHR '' '') ?l"
    by (simp_all add: starts_char_def no_newline_marker_def)
  have at: "line_at (orig_lines ?org) i = Some (tl ?l)" using assms(3) by (simp add: line_at_def side_original_def)
  have first: "hunk_loop ?org (?l # xs) ?p i previous = hunk_loop ?org xs ?p' (i + 1) ?l" for xs
    using chars at same(1) by simp
  show ?thesis
  proof (cases "unended before i")
    case True
    then have "apply_marker ?org ?l (i + 1) ?p' = mark_last_produced ?p'"
      by (simp add: apply_marker_def is_hunk_body_line_def starts_char_def side_original_def unended_def)
    then have "hunk_loop ?org (no_newline_line # rest) ?p' (i + 1) ?l =
        hunk_loop ?org rest (produced_to after ns (y + 1)) (i + 1) no_newline_line"
      using mark_produced [OF assms(4,5)] True same(2) marker_line by simp
    with True first assms(3) previous_irrelevant [OF assms(7)] show ?thesis by (simp add: side_line_if)
  next
    case False
    then have "?p' = produced_to after ns (y + 1)" using mark_produced [OF assms(4,5)] same(2) by simp
    with False first assms(3) previous_irrelevant [OF assms(7)] show ?thesis by (simp add: side_line_if)
  qed
qed

lemma removed_line:
  assumes "i < length (sd_lines before)" and "unmarked rest"
  shows "hunk_loop (side_original before) (side_line before (CHR ''-'') i @ rest) p i previous =
    hunk_loop (side_original before) rest p (i + 1) []"
proof -
  let ?org = "side_original before"
  let ?l = "CHR ''-'' # sd_lines before ! i"
  have chars: "\<not> starts_char no_newline_marker ?l" "\<not> starts_char (CHR ''+'') ?l" "\<not> starts_char (CHR '' '') ?l"
    by (simp_all add: starts_char_def no_newline_marker_def)
  have at: "line_at (orig_lines ?org) i = Some (tl ?l)" using assms(1) by (simp add: line_at_def side_original_def)
  have first: "hunk_loop ?org (?l # xs) p i previous = hunk_loop ?org xs p (i + 1) ?l" for xs
    using chars at by simp
  show ?thesis
  proof (cases "unended before i")
    case True
    then have "apply_marker ?org ?l (i + 1) p = Inr p"
      by (simp add: apply_marker_def is_hunk_body_line_def starts_char_def side_original_def unended_def)
    with True first assms previous_irrelevant [OF assms(2)] marker_line show ?thesis by (simp add: side_line_if)
  next
    case False
    with first assms(1) previous_irrelevant [OF assms(2)] show ?thesis by (simp add: side_line_if)
  qed
qed

lemma added_line:
  assumes "ns \<le> y" and "y < length (sd_lines after)" and "unmarked rest"
  shows "hunk_loop org (side_line after (CHR ''+'') y @ rest) (produced_to after ns y) pos previous =
    hunk_loop org rest (produced_to after ns (y + 1)) pos []"
proof -
  let ?p = "produced_to after ns y"
  let ?l = "CHR ''+'' # sd_lines after ! y"
  let ?p' = "?p\<lparr> prod_lines := prod_lines ?p @ [sd_lines after ! y] \<rparr>"
  have chars: "\<not> starts_char no_newline_marker ?l" "starts_char (CHR ''+'') ?l"
    by (simp_all add: starts_char_def no_newline_marker_def)
  have first: "hunk_loop org (?l # xs) ?p pos previous = hunk_loop org xs ?p' pos ?l" for xs
    using chars by simp
  show ?thesis
  proof (cases "unended after y")
    case True
    have "apply_marker org ?l pos ?p' = mark_last_produced ?p'"
      by (simp add: apply_marker_def is_hunk_body_line_def starts_char_def)
    then have "hunk_loop org (no_newline_line # rest) ?p' pos ?l =
        hunk_loop org rest (produced_to after ns (y + 1)) pos no_newline_line"
      using mark_produced [OF assms(1,2)] True marker_line by simp
    with True first assms(2) previous_irrelevant [OF assms(3)] show ?thesis by (simp add: side_line_if)
  next
    case False
    then have "?p' = produced_to after ns (y + 1)" using mark_produced [OF assms(1,2)] by simp
    with False first assms(2) previous_irrelevant [OF assms(3)] show ?thesis by (simp add: side_line_if)
  qed
qed

end
