(* ===== verification/Line_Diff_Patch.thy ===== *)
theory Line_Diff_Patch
  imports Line_Diff_Hunks
begin

text \<open>
  Applying the hunks of the line diff with the patch engine: a modified file becomes the other side,
  a created file is written out and a deleted one verified.
\<close>

subsection \<open>Segments\<close>

lemma side_lines_Cons: "i < j \<Longrightarrow> side_lines s i j m = side_line s m i @ side_lines s (i + 1) j m"
  by (simp add: side_lines_def upt_conv_Cons)

lemma side_lines_empty [simp]: "j \<le> i \<Longrightarrow> side_lines s i j m = []"
  by (simp add: side_lines_def)

lemma unmarked_side_lines:
  assumes "m \<noteq> no_newline_marker" and "unmarked rest"
  shows "unmarked (side_lines s i j m @ rest)"
  using assms by (cases "i < j") (auto simp: side_lines_Cons side_line_def unmarked_def starts_char_def)

lemma context_segment:
  assumes "side_ok before" "side_ok after" "ns \<le> y" "unmarked rest"
    and "same_run n i y (comparison_keys before) (comparison_keys after)"
  shows "hunk_loop (side_original before) (side_lines before i (i + n) (CHR '' '') @ rest) (produced_to after ns y) i [] =
    hunk_loop (side_original before) rest (produced_to after ns (y + n)) (i + n) []"
  using assms(3,5)
proof (induction n arbitrary: i y)
  case (Suc n)
  have here: "i < length (sd_lines before)" "y < length (sd_lines after)"
    "comparison_keys before ! i = comparison_keys after ! y"
    using Suc.prems(2) by (auto simp: same_run_def)
  have run: "same_run n (i + 1) (y + 1) (comparison_keys before) (comparison_keys after)"
    using same_run_part [OF Suc.prems(2), of 1 n] by simp
  have um: "unmarked (side_lines before (i + 1) (i + 1 + n) (CHR '' '') @ rest)"
    using assms(4) by (intro unmarked_side_lines) (simp_all add: no_newline_marker_def)
  have "i < i + Suc n" by simp
  then show ?case
    using context_line [OF assms(1,2) here(1) Suc.prems(1) here(2,3) um, of "[]"] Suc.IH [OF _ run] Suc.prems(1)
    by (simp add: side_lines_Cons)
qed simp

lemma removed_segment:
  assumes "unmarked rest" and "i + n \<le> length (sd_lines before)"
  shows "hunk_loop (side_original before) (side_lines before i (i + n) (CHR ''-'') @ rest) p i [] =
    hunk_loop (side_original before) rest p (i + n) []"
  using assms(2)
proof (induction n arbitrary: i)
  case (Suc n)
  have um: "unmarked (side_lines before (i + 1) (i + 1 + n) (CHR ''-'') @ rest)"
    using assms(1) by (intro unmarked_side_lines) (simp_all add: no_newline_marker_def)
  have "i < i + Suc n" by simp
  then show ?case
    using removed_line [OF _ um, of i before p "[]"] Suc.IH [of "i + 1"] Suc.prems by (simp add: side_lines_Cons)
qed simp

lemma added_segment:
  assumes "unmarked rest" and "ns \<le> y" and "y + n \<le> length (sd_lines after)"
  shows "hunk_loop org (side_lines after y (y + n) (CHR ''+'') @ rest) (produced_to after ns y) pos [] =
    hunk_loop org rest (produced_to after ns (y + n)) pos []"
  using assms(2,3)
proof (induction n arbitrary: y)
  case (Suc n)
  have um: "unmarked (side_lines after (y + 1) (y + 1 + n) (CHR ''+'') @ rest)"
    using assms(1) by (intro unmarked_side_lines) (simp_all add: no_newline_marker_def)
  have "y < y + Suc n" by simp
  then show ?case
    using added_line [OF _ _ um, where ns = ns and org = org and pos = pos and previous = "[]"] Suc.IH [of "y + 1"] Suc.prems by (simp add: side_lines_Cons)
qed simp

lemma unmarked_block_lines: "unmarked (block_lines before after position bs stop)"
proof (induction bs arbitrary: position)
  case Nil
  then show ?case using unmarked_side_lines [of _ "[]"]
    by (simp add: no_newline_marker_def backslash_def unmarked_def)
next
  case (Cons b bs)
  show ?case by (auto intro!: unmarked_side_lines Cons simp: no_newline_marker_def)
qed

lemma block_lines_loop:
  assumes "side_ok before" "side_ok after"
    and "blocks_span i y bs stop stop' (comparison_keys before) (comparison_keys after)" and "ns \<le> y"
  shows "hunk_loop (side_original before) (block_lines before after i bs stop) (produced_to after ns y) i [] =
    Inr (produced_to after ns stop', stop)"
  using assms(3,4)
proof (induction bs arbitrary: i y)
  case Nil
  then have run: "same_run (stop - i) i y (comparison_keys before) (comparison_keys after)"
    and le: "i \<le> stop" "stop' = y + (stop - i)" by auto
  show ?case
    using context_segment [OF assms(1,2) Nil.prems(2) _ run, of "[]"] le by (simp add: unmarked_def)
next
  case (Cons b bs)
  let ?n = "bk_old_start b - i" and ?m = "bk_old_end b - bk_old_start b" and ?k = "bk_new_end b - bk_new_start b"
  let ?rest = "block_lines before after (bk_old_end b) bs stop"
  from Cons.prems(1) have b: "i \<le> bk_old_start b" "bk_new_start b = y + ?n"
    "same_run ?n i y (comparison_keys before) (comparison_keys after)" "bk_old_start b \<le> bk_old_end b"
    "bk_old_end b \<le> length (sd_lines before)" "bk_new_start b \<le> bk_new_end b" "bk_new_end b \<le> length (sd_lines after)"
    and span: "blocks_span (bk_old_end b) (bk_new_end b) bs stop stop' (comparison_keys before) (comparison_keys after)"
    by auto
  let ?added = "side_lines after (bk_new_start b) (bk_new_end b) (CHR ''+'') @ ?rest"
  let ?removed = "side_lines before (bk_old_start b) (bk_old_end b) (CHR ''-'') @ ?added"
  have um: "unmarked ?rest" by (rule unmarked_block_lines)
  have um': "unmarked ?added" "unmarked ?removed"
    using um by (auto intro!: unmarked_side_lines simp: no_newline_marker_def)
  have "hunk_loop (side_original before) (side_lines before i (i + ?n) (CHR '' '') @ ?removed) (produced_to after ns y) i [] =
      hunk_loop (side_original before) ?removed (produced_to after ns (y + ?n)) (i + ?n) []"
    by (rule context_segment [OF assms(1,2) Cons.prems(2) um'(2) b(3)])
  moreover have "hunk_loop (side_original before) ?removed p (bk_old_start b) [] =
      hunk_loop (side_original before) ?added p (bk_old_end b) []" for p
    using removed_segment [OF um'(1), of "bk_old_start b" ?m before p] b by simp
  moreover have "hunk_loop (side_original before) ?added (produced_to after ns (bk_new_start b)) pos [] =
      hunk_loop (side_original before) ?rest (produced_to after ns (bk_new_end b)) pos []" for pos
    using added_segment [OF um, of ns "bk_new_start b" ?k after "side_original before" pos] b Cons.prems(2) by simp
  moreover have "hunk_loop (side_original before) ?rest (produced_to after ns (bk_new_end b)) (bk_old_end b) [] =
      Inr (produced_to after ns stop', stop)"
    using Cons.prems(2) b by (intro Cons.IH [OF span]) simp
  ultimately show ?case using b(1,2) by simp
qed

subsection \<open>Hunks\<close>

definition range_start :: "nat \<Rightarrow> nat \<Rightarrow> nat" where
  "range_start start stop = (if stop - start = 0 then start else start + 1)"

definition hunk_of :: "line_side \<Rightarrow> line_side \<Rightarrow> hunk_group \<Rightarrow> patch_hunk" where
  "hunk_of before after g = \<lparr> old_start = range_start (old_from g) (old_to g), old_lines = old_to g - old_from g,
     new_start = range_start (new_from g) (new_to g), new_lines = new_to g - new_from g,
     hunk_lines = block_lines before after (old_from g) (hg_blocks g) (old_to g) \<rparr>"

lemma render_hunk_of:
  "hg_blocks g \<noteq> [] \<Longrightarrow>
   render_hunk before after g = render_hunk_header (hunk_of before after g) # hunk_lines (hunk_of before after g)"
  by (simp add: render_hunk_def hunk_of_def render_hunk_header_def hunk_range_def range_start_def
      old_from_def old_to_def new_from_def new_to_def Let_def)

text \<open>A hunk that takes no old line starts at the front.\<close>

lemma group_front:
  assumes "groups_match i j (g # gs) a b"
  shows "old_to g = old_from g \<Longrightarrow> old_from g = 0" and "new_to g = new_from g \<Longrightarrow> new_from g = 0"
    and "old_from g \<le> old_to g" and "new_from g \<le> new_to g" and "old_to g \<le> length a" and "new_to g \<le> length b"
proof -
  from assms have g: "hg_blocks g \<noteq> []" "hg_leading g = 0 \<longrightarrow> old_from g = 0 \<and> new_from g = 0"
    and span: "blocks_span (old_from g) (new_from g) (hg_blocks g) (old_to g) (new_to g) a b"
    unfolding groups_match.simps by blast+
  show le: "old_from g \<le> old_to g" "new_from g \<le> new_to g" "old_to g \<le> length a" "new_to g \<le> length b"
    using span_bounds [OF span] by auto
  obtain c cs where c: "hg_blocks g = c # cs" using g(1) by (cases "hg_blocks g") auto
  with span have "bk_old_start c \<le> old_to g" "bk_new_start c \<le> new_to g"
    using span_bounds [of "bk_old_end c" "bk_new_end c" cs "old_to g" "new_to g" a b] by auto
  with g c show "old_to g = old_from g \<Longrightarrow> old_from g = 0" "new_to g = new_from g \<Longrightarrow> new_from g = 0"
    by (auto simp: old_from_def new_from_def)
qed

lemma group_anchor: "groups_match i j (g # gs) a b \<Longrightarrow> old_start (hunk_of before after g) - 1 = old_from g"
proof -
  assume m: "groups_match i j (g # gs) a b"
  show ?thesis using group_front(1,3) [OF m] by (cases "old_to g = old_from g") (simp_all add: hunk_of_def range_start_def)
qed

lemma apply_group:
  assumes "side_ok before" "side_ok after"
    and "groups_match i j (g # gs) (comparison_keys before) (comparison_keys after)"
  shows "apply_hunk (side_original before) (hunk_of before after g) (old_from g) =
    Inr \<lparr> res_lines = take (new_to g - new_from g) (drop (new_from g) (sd_lines after)),
      res_consumed = old_to g - old_from g,
      res_missing_newline = (new_from g < new_to g \<and> unended after (new_to g - 1)) \<rparr>"
proof -
  let ?ns = "new_from g" and ?ne = "new_to g"
  from assms(3) have span: "blocks_span (old_from g) ?ns (hg_blocks g) (old_to g) ?ne (comparison_keys before) (comparison_keys after)"
    unfolding groups_match.simps by blast
  have start: "\<lparr> prod_lines = [], marked_at = None \<rparr> = produced_to after ?ns ?ns" by (simp add: produced_to_def)
  note loop = block_lines_loop [OF assms(1,2) span order_refl]
  have len: "length (take (?ne - ?ns) (drop ?ns (sd_lines after))) = ?ne - ?ns"
    using group_front(4,6) [OF assms(3)] by simp
  then have "\<not> marked_line_not_last (produced_to after ?ns ?ne)"
    by (auto simp: marked_line_not_last_def produced_to_def)
  then show ?thesis
    using loop unfolding apply_hunk_def start by (simp add: hunk_of_def produced_to_def)
qed

subsection \<open>A modified file\<close>

text \<open>The position reached after a list of hunks.\<close>

fun groups_end :: "nat \<Rightarrow> nat \<Rightarrow> hunk_group list \<Rightarrow> nat \<times> nat" where
  "groups_end i j [] = (i, j)"
| "groups_end i j (g # gs) = groups_end (old_to g) (new_to g) gs"

lemma groups_end_rest:
  "groups_match i j gs a b \<Longrightarrow> drop (fst (groups_end i j gs)) a = drop (snd (groups_end i j gs)) b \<and>
     fst (groups_end i j gs) \<le> length a \<and> snd (groups_end i j gs) \<le> length b"
  by (induction gs arbitrary: i j) auto

lemma same_lines:
  assumes "side_ok before" "side_ok after" "same_run n i j (comparison_keys before) (comparison_keys after)"
  shows "take n (drop i (sd_lines before)) = take n (drop j (sd_lines after))"
    and "\<And>l. l < n \<Longrightarrow> unended before (i + l) \<longleftrightarrow> unended after (j + l)"
proof -
  have eq: "sd_lines before ! (i + l) = sd_lines after ! (j + l)" "unended before (i + l) \<longleftrightarrow> unended after (j + l)"
    if "l < n" for l
  proof -
    have "i + l < length (sd_lines before)" "j + l < length (sd_lines after)"
      "comparison_keys before ! (i + l) = comparison_keys after ! (j + l)"
      using assms(3) that by (auto simp: same_run_def)
    from same_keys [OF assms(1,2) this] show "sd_lines before ! (i + l) = sd_lines after ! (j + l)"
      "unended before (i + l) \<longleftrightarrow> unended after (j + l)" by simp_all
  qed
  have "same_run n i j (sd_lines before) (sd_lines after)" using assms(3) eq(1) by (simp add: same_run_def)
  then show "take n (drop i (sd_lines before)) = take n (drop j (sd_lines after))"
    using assms(3) by (subst same_run_take) (auto simp: same_run_def)
  show "\<And>l. l < n \<Longrightarrow> unended before (i + l) \<longleftrightarrow> unended after (j + l)" by (rule eq(2))
qed

lemma apply_group_step:
  assumes "side_ok before" "side_ok after"
    and "groups_match i j (g # gs) (comparison_keys before) (comparison_keys after)"
    and "ms_cursor st = i" "\<not> ms_missing_newline st" "ms_out st = take j (sd_lines after)"
  shows "apply_modify_hunk (side_original before) (hunk_of before after g) k st =
    st\<lparr> ms_out := take (new_to g) (sd_lines after), ms_cursor := old_to g,
      ms_missing_newline := (0 < new_to g \<and> unended after (new_to g - 1)) \<rparr>"
proof -
  let ?LA = "sd_lines before" and ?LB = "sd_lines after"
  note front = group_front [OF assms(3)]
  from assms(3) have from_g: "i \<le> old_from g" "new_from g = j + (old_from g - i)"
    and run: "same_run (old_from g - i) i j (comparison_keys before) (comparison_keys after)"
    unfolding groups_match.simps by blast+
  have anchor: "old_start (hunk_of before after g) - Suc 0 = old_from g" using group_anchor [OF assms(3)] by simp
  have flag: "(new_from g < new_to g \<and> unended after (new_to g - 1)) = (0 < new_to g \<and> unended after (new_to g - 1))"
    using front(2,4) by (cases "new_to g = new_from g") auto
  note hunk = apply_group [OF assms(1-3), unfolded flag]
  have "take j ?LB @ take (old_from g - i) (drop i ?LA) @ take (new_to g - new_from g) (drop (new_from g) ?LB) = take (new_to g) ?LB"
  proof -
    have "take (new_to g) ?LB = take (new_from g + (new_to g - new_from g)) ?LB" using front(4) by simp
    also have "\<dots> = take (new_from g) ?LB @ take (new_to g - new_from g) (drop (new_from g) ?LB)" by (simp only: take_add)
    also have "take (new_from g) ?LB = take j ?LB @ take (old_from g - i) (drop j ?LB)"
      unfolding from_g(2) by (simp only: take_add)
    finally show ?thesis using same_lines(1) [OF assms(1,2) run] by simp
  qed
  then show ?thesis
    using hunk assms(4-6) from_g(1) front(3)
    by (simp add: apply_modify_hunk_def anchor Let_def side_original_def slice_to)
qed

lemma apply_groups:
  assumes "side_ok before" "side_ok after"
    and "groups_match i j gs (comparison_keys before) (comparison_keys after)"
    and "ms_cursor st = i" "ms_conflicts st = []" "\<not> ms_missing_newline st" "ms_out st = take j (sd_lines after)"
  shows "let st' = apply_modify_hunks (side_original before) k (map (hunk_of before after) gs) st; e = groups_end i j gs
    in ms_conflicts st' = [] \<and> ms_cursor st' = fst e \<and> ms_out st' = take (snd e) (sd_lines after) \<and>
       (ms_missing_newline st' \<longleftrightarrow> gs \<noteq> [] \<and> 0 < snd e \<and> unended after (snd e - 1))"
  using assms(3-7)
proof (induction gs arbitrary: i j st k)
  case (Cons g gs)
  let ?st = "st\<lparr> ms_out := take (new_to g) (sd_lines after), ms_cursor := old_to g,
      ms_missing_newline := (0 < new_to g \<and> unended after (new_to g - 1)) \<rparr>"
  have step: "apply_modify_hunk (side_original before) (hunk_of before after g) k st = ?st"
    by (rule apply_group_step [OF assms(1,2) Cons.prems(1,2,4,5)])
  from Cons.prems(1) have rest: "groups_match (old_to g) (new_to g) gs (comparison_keys before) (comparison_keys after)"
    and apart: "gs \<noteq> [] \<longrightarrow> old_to g < old_from (hd gs)"
    unfolding groups_match.simps by blast+
  show ?case
  proof (cases gs)
    case Nil
    with step Cons.prems(3) show ?thesis by (simp add: Let_def)
  next
    case (Cons h hs)
    have "new_to g < new_from h" using rest apart unfolding Cons groups_match.simps by auto
    also have "new_from h \<le> length (sd_lines after)" using group_front(4,6) [OF rest [unfolded Cons]] by simp
    finally have open_end: "\<not> (0 < new_to g \<and> unended after (new_to g - 1))" by (auto simp: unended_def)
    have "let st' = apply_modify_hunks (side_original before) (k + 1) (map (hunk_of before after) gs) ?st;
        e = groups_end (old_to g) (new_to g) gs
      in ms_conflicts st' = [] \<and> ms_cursor st' = fst e \<and> ms_out st' = take (snd e) (sd_lines after) \<and>
         (ms_missing_newline st' \<longleftrightarrow> gs \<noteq> [] \<and> 0 < snd e \<and> unended after (snd e - 1))"
      using Cons.prems(3) open_end by (intro Cons.IH [OF rest]) simp_all
    then show ?thesis using step Cons by (simp add: Let_def)
  qed
qed (simp add: Let_def)

lemma apply_line_diff:
  assumes "side_ok before" "side_ok after" and "groups_match 0 0 gs (comparison_keys before) (comparison_keys after)"
  shows "apply_modify (side_original before) (map (hunk_of before after) gs) =
    \<lparr> out_content = Some (render_lines (sd_lines after) (sd_missing after)), out_conflicts = [] \<rparr>"
proof -
  let ?LA = "sd_lines before" and ?LB = "sd_lines after" and ?e = "groups_end 0 0 gs"
  let ?st0 = "\<lparr> ms_out = [], ms_conflicts = [], ms_cursor = 0, ms_missing_newline = False \<rparr>"
  define st where "st = apply_modify_hunks (side_original before) 0 (map (hunk_of before after) gs) ?st0"
  have st: "ms_conflicts st = []" "ms_cursor st = fst ?e" "ms_out st = take (snd ?e) ?LB"
    "ms_missing_newline st \<longleftrightarrow> gs \<noteq> [] \<and> 0 < snd ?e \<and> unended after (snd ?e - 1)"
    using apply_groups [OF assms, of ?st0 0] by (simp_all add: st_def Let_def)
  have rest: "drop (fst ?e) (comparison_keys before) = drop (snd ?e) (comparison_keys after)"
    "fst ?e \<le> length (comparison_keys before)" "snd ?e \<le> length (comparison_keys after)"
    using groups_end_rest [OF assms(3)] by auto
  let ?n = "length ?LA - fst ?e"
  from same_rest [OF rest] have n: "?n = length ?LB - snd ?e"
    and run: "same_run ?n (fst ?e) (snd ?e) (comparison_keys before) (comparison_keys after)"
    unfolding length_keys by blast+
  have tails: "drop (fst ?e) ?LA = drop (snd ?e) ?LB"
    using same_lines(1) [OF assms(1,2) run] n by simp
  have out: "ms_out st @ drop (ms_cursor st) ?LA = ?LB" by (simp add: st tails)
  show ?thesis
  proof (cases "drop (ms_cursor st) ?LA = []")
    case True
    then have "?n = 0" by (simp add: st)
    then have e: "snd ?e = length ?LB" using n rest(3) by simp
    have "render_lines ?LB (ms_missing_newline st) = render_lines ?LB (sd_missing after)"
    proof (cases "gs = []")
      case True
      with e have "?LB = []" by simp
      then show ?thesis by (simp add: render_lines_def)
    next
      case False
      with st(4) e assms(2) have "ms_missing_newline st \<longleftrightarrow> sd_missing after"
        by (auto simp: unended_def side_ok_def)
      then show ?thesis by simp
    qed
    with True out show ?thesis
      unfolding apply_modify_def st_def [symmetric] by (simp add: Let_def side_original_def st(1))
  next
    case False
    then have pos: "0 < ?n" by (simp add: st)
    then have "\<not> ms_missing_newline st" using st(4) n by (auto simp: unended_def)
    moreover have "sd_missing before \<longleftrightarrow> sd_missing after"
    proof -
      have "fst ?e + (?n - 1) + 1 = length ?LA" "snd ?e + (?n - 1) + 1 = length ?LB" using pos n rest(2,3) by auto
      then have "unended before (fst ?e + (?n - 1)) \<longleftrightarrow> sd_missing before" "unended after (snd ?e + (?n - 1)) \<longleftrightarrow> sd_missing after"
        by (simp_all only: unended_def simp_thms)
      moreover have "?n - 1 < ?n" using pos by simp
      ultimately show ?thesis using same_lines(2) [OF assms(1,2) run] by blast
    qed
    ultimately show ?thesis using False out
      unfolding apply_modify_def st_def [symmetric] by (simp add: Let_def side_original_def st(1))
  qed
qed

lemma line_diff_hunks_apply:
  fixes old new :: string
  defines "before \<equiv> line_diff_side old" and "after \<equiv> line_diff_side new"
  assumes "change_kind f = ChangeModify"
    and "change_hunks f = map (hunk_of before after) (hunk_groups (line_change_blocks before after m) (length (sd_lines before)))"
  shows "compute_file_content f (Some old) allow = \<lparr> out_content = Some new, out_conflicts = [] \<rparr>"
proof -
  have "blocks_match 0 0 (line_change_blocks before after m) (comparison_keys before) (comparison_keys after)"
    by (rule search_blocks_match)
  from hunk_groups_match [OF this] show ?thesis
    using assms(3,4) apply_line_diff [of before after] side_of_text
    by (simp add: compute_file_content_def before_def after_def)
qed

end
