(* ===== verification/Line_Diff_Sections.thy ===== *)
theory Line_Diff_Sections
  imports Line_Diff_Patch
begin

text \<open>
  The hunks of the line diff as text: well formed for the diff parser, and for a file that appears or
  disappears the whole of it.
\<close>

subsection \<open>Counts and markers\<close>

lemma count_append [simp]:
  "count_old_lines (xs @ ys) = count_old_lines xs + count_old_lines ys"
  "count_new_lines (xs @ ys) = count_new_lines xs + count_new_lines ys"
  "count_old_lines [] = 0" "count_new_lines [] = 0"
  by (simp_all add: count_old_lines_def count_new_lines_def)

lemma count_side_line:
  "count_old_lines (side_line s m i) = (if m = CHR '' '' \<or> m = CHR ''-'' then 1 else 0)"
  "count_new_lines (side_line s m i) = (if m = CHR '' '' \<or> m = CHR ''+'' then 1 else 0)"
  by (auto simp: side_line_def count_Cons is_old_side_def is_new_side_def starts_char_def no_newline_line_def)

lemma count_side_lines:
  "count_old_lines (side_lines s i j m) = (if m = CHR '' '' \<or> m = CHR ''-'' then j - i else 0)"
  "count_new_lines (side_lines s i j m) = (if m = CHR '' '' \<or> m = CHR ''+'' then j - i else 0)"
proof -
  have "count_old_lines (concat (map (side_line s m) xs)) = (if m = CHR '' '' \<or> m = CHR ''-'' then length xs else 0) \<and>
      count_new_lines (concat (map (side_line s m) xs)) = (if m = CHR '' '' \<or> m = CHR ''+'' then length xs else 0)" for xs
    by (induction xs) (simp_all add: count_side_line)
  from this [of "[i..<j]"]
  show "count_old_lines (side_lines s i j m) = (if m = CHR '' '' \<or> m = CHR ''-'' then j - i else 0)"
    "count_new_lines (side_lines s i j m) = (if m = CHR '' '' \<or> m = CHR ''+'' then j - i else 0)"
    by (simp_all add: side_lines_def)
qed

lemma count_block_lines:
  "blocks_span i j bs stop stop' a b \<Longrightarrow>
   count_old_lines (block_lines before after i bs stop) = stop - i \<and>
   count_new_lines (block_lines before after i bs stop) = stop' - j"
proof (induction bs arbitrary: i j)
  case Nil
  then show ?case by (simp add: count_side_lines)
next
  case (Cons c bs)
  then have span: "blocks_span (bk_old_end c) (bk_new_end c) bs stop stop' a b" by simp
  have c: "i \<le> bk_old_start c" "bk_new_start c = j + (bk_old_start c - i)" "bk_old_start c \<le> bk_old_end c"
    "bk_new_start c \<le> bk_new_end c" using Cons.prems by auto
  have "bk_old_start c - i + (bk_old_end c - bk_old_start c) + (stop - bk_old_end c) = stop - i"
    "bk_old_start c - i + (bk_new_end c - bk_new_start c) + (stop' - bk_new_end c) = stop' - j"
    using c span_bounds [OF span] by linarith+
  with Cons.IH [OF span] show ?case by (simp add: count_side_lines)
qed

definition is_body_char :: "char \<Rightarrow> bool" where
  "is_body_char m \<longleftrightarrow> m = CHR '' '' \<or> m = CHR ''+'' \<or> m = CHR ''-''"

lemma markers_weaken: "markers_ok False ls \<Longrightarrow> markers_ok b ls"
  by (cases ls) auto

lemma markers_side_lines:
  assumes "is_body_char m" and "markers_ok False rest"
  shows "markers_ok b (side_lines s i j m @ rest)"
proof -
  have "markers_ok b (concat (map (side_line s m) xs) @ rest)" for b xs
  proof (induction xs arbitrary: b)
    case Nil
    with assms(2) show ?case by (simp add: markers_weaken)
  next
    case (Cons x xs)
    have body: "is_hunk_body_line (m # l)" for l
      using assms(1) by (auto simp: is_body_char_def is_hunk_body_line_def starts_char_def)
    have "\<not> is_hunk_body_line no_newline_line" "starts_char backslash no_newline_line"
      by (simp_all add: is_hunk_body_line_def starts_char_def no_newline_line_def backslash_def)
    then have "markers_ok b ((m # l) # (if u then [no_newline_line] else []) @ ys)" if "\<And>b. markers_ok b ys" for l u ys
      using that body by simp
    from this [OF Cons] show ?case by (simp only: side_line_def list.map concat.simps append_assoc append_Cons)
  qed
  then show ?thesis by (simp add: side_lines_def)
qed

lemma markers_block_lines: "markers_ok b (block_lines before after i bs stop)"
proof (induction bs arbitrary: i b)
  case Nil
  show ?case using markers_side_lines [of "CHR '' ''" "[]"] by (simp add: is_body_char_def)
next
  case (Cons c bs)
  show ?case by (auto intro!: markers_side_lines Cons simp: is_body_char_def)
qed

lemma free_append [simp]: "newline_free (xs @ ys) \<longleftrightarrow> newline_free xs \<and> newline_free ys"
  by (auto simp: newline_free_def)

lemma free_side_lines:
  assumes "side_ok s" and "is_body_char m"
  shows "newline_free (side_lines s i j m)"
proof -
  have "newline_char \<notin> set (sd_lines s ! k)" if "k < length (sd_lines s)" for k
    using assms(1) that by (simp add: side_ok_def newline_free_def)
  moreover have "newline_char \<noteq> m" using assms(2) by (auto simp: is_body_char_def)
  moreover have "newline_char \<notin> set no_newline_line" by (simp add: no_newline_line_def)
  ultimately show ?thesis by (auto simp: side_lines_def newline_free_def side_line_def)
qed

lemma free_block_lines:
  assumes "side_ok before" "side_ok after"
  shows "newline_free (block_lines before after i bs stop)"
  using assms by (induction bs arbitrary: i) (simp_all add: free_side_lines is_body_char_def)

lemma hunks_ok:
  assumes "side_ok before" "side_ok after" and "length (sd_lines before) < max_safe_integer" "length (sd_lines after) < max_safe_integer"
    and "groups_match i j gs (comparison_keys before) (comparison_keys after)"
  shows "list_all hunk_ok (map (hunk_of before after) gs)"
  using assms(5)
proof (induction gs arbitrary: i j)
  case (Cons g gs)
  from Cons.prems have span: "blocks_span (old_from g) (new_from g) (hg_blocks g) (old_to g) (new_to g)
      (comparison_keys before) (comparison_keys after)"
    and rest: "groups_match (old_to g) (new_to g) gs (comparison_keys before) (comparison_keys after)"
    unfolding groups_match.simps by blast+
  note front = group_front(3-6) [OF Cons.prems]
  have "hunk_ok (hunk_of before after g)"
    using count_block_lines [OF span] markers_block_lines free_block_lines [OF assms(1,2)] front assms(3,4)
    by (auto simp: hunk_ok_def hunk_of_def range_start_def)
  with Cons.IH [OF rest] show ?case by simp
qed simp

lemma groups_nonempty: "groups_match i j gs a b \<Longrightarrow> g \<in> set gs \<Longrightarrow> hg_blocks g \<noteq> []"
  by (induction gs arbitrary: i j) auto

lemma diff_hunk_lines:
  assumes "groups_match 0 0 (hunk_groups bs (length (sd_lines before))) a b"
  shows "unified_diff_hunks before after bs = concat (map (\<lambda>h. render_hunk_header h # hunk_lines h)
    (map (hunk_of before after) (hunk_groups bs (length (sd_lines before)))))"
proof -
  have "map (render_hunk before after) (hunk_groups bs (length (sd_lines before))) =
      map ((\<lambda>h. render_hunk_header h # hunk_lines h) \<circ> hunk_of before after) (hunk_groups bs (length (sd_lines before)))"
    using groups_nonempty [OF assms] by (intro map_cong refl) (simp add: render_hunk_of)
  then show ?thesis unfolding unified_diff_hunks_def map_map by (rule arg_cong)
qed

subsection \<open>One side empty\<close>

lemma common_run_zero: "common_run 0 same n = n"
  by (subst common_run.simps) simp

lemma blocks_of_creation:
  assumes "sd_lines before = []"
  shows "line_change_blocks before after m = (if sd_lines after = [] then []
    else [\<lparr> bk_old_start = 0, bk_old_end = 0, bk_new_start = 0, bk_new_end = length (sd_lines after) \<rparr>])"
proof -
  have "comparison_keys before = []" using assms by (simp add: comparison_keys_def)
  then show ?thesis
    by (simp add: line_change_blocks_def search_line_changes_def common_prefix_length_def common_suffix_length_def
        common_run_zero Let_def)
qed

lemma blocks_of_deletion:
  assumes "sd_lines after = []"
  shows "line_change_blocks before after m = (if sd_lines before = [] then []
    else [\<lparr> bk_old_start = 0, bk_old_end = length (sd_lines before), bk_new_start = 0, bk_new_end = 0 \<rparr>])"
proof -
  have "comparison_keys after = []" using assms by (simp add: comparison_keys_def)
  moreover have "comparison_keys before = [] \<longleftrightarrow> sd_lines before = []" "length (comparison_keys before) = length (sd_lines before)"
    by (auto simp: comparison_keys_def)
  ultimately show ?thesis
    by (simp add: line_change_blocks_def search_line_changes_def common_prefix_length_def common_suffix_length_def
        common_run_zero Let_def)
qed

lemma created_segment:
  "y \<le> n \<Longrightarrow> n \<le> length (sd_lines after) \<Longrightarrow>
   \<exists>q. created_lines (side_lines after y n (CHR ''+'')) (produced_to after 0 y) previous = Inr (produced_to after 0 n, q)"
proof (induction "n - y" arbitrary: y previous)
  case (Suc k)
  then have y: "y < n" by simp
  let ?l = "CHR ''+'' # sd_lines after ! y"
  let ?p' = "(produced_to after 0 y)\<lparr> prod_lines := prod_lines (produced_to after 0 y) @ [sd_lines after ! y] \<rparr>"
  have chars: "\<not> starts_char no_newline_marker ?l" "starts_char (CHR ''+'') ?l"
    by (simp_all add: starts_char_def no_newline_marker_def)
  have mark: "(if unended after y then mark_last_produced ?p' else Inr ?p') = Inr (produced_to after 0 (y + 1))"
    using mark_produced [of 0 y after] y Suc.prems by simp
  have "k = n - (y + 1)" "y + 1 \<le> n" using Suc.hyps(2) by auto
  from Suc.hyps(1) [OF this Suc.prems(2)] obtain q where
    q: "created_lines (side_lines after (y + 1) n (CHR ''+'')) (produced_to after 0 (y + 1)) prev = Inr (produced_to after 0 n, q prev)"
    for prev by metis
  show ?case
    using y Suc.prems chars mark q marker_line
    by (cases "unended after y") (auto simp: side_lines_Cons side_line_if)
qed simp

lemma line_diff_creates:
  fixes new :: string
  defines "before \<equiv> line_diff_side []" and "after \<equiv> line_diff_side new"
  assumes "change_kind f = ChangeCreate"
    and "change_hunks f = map (hunk_of before after) (hunk_groups (line_change_blocks before after m) (length (sd_lines before)))"
  shows "compute_file_content f None allow = \<lparr> out_content = Some new, out_conflicts = [] \<rparr>"
proof -
  let ?n = "length (sd_lines after)"
  have none: "sd_lines before = []" by (simp add: before_def line_diff_side_def)
  have whole: "render_lines (sd_lines after) (sd_missing after) = new" by (simp add: after_def side_of_text)
  have ok: "side_ok after" by (simp add: after_def side_of_text)
  show ?thesis
  proof (cases "sd_lines after = []")
    case True
    then have "change_hunks f = []" using assms(4) by (simp add: blocks_of_creation [OF none])
    moreover have "new = []" using whole True by (simp add: render_lines_def)
    ultimately show ?thesis
      by (simp add: compute_file_content_def assms(3) created_content_def marked_line_not_last_def render_lines_def)
  next
    case False
    then have hunks: "\<exists>h. change_hunks f = [h] \<and> hunk_lines h = side_lines after 0 ?n (CHR ''+'')"
      using assms(4) by (simp add: blocks_of_creation [OF none] none hunk_of_def old_from_def old_to_def)
    obtain q where "created_lines (side_lines after 0 ?n (CHR ''+'')) (produced_to after 0 0) [] = Inr (produced_to after 0 ?n, q)"
      using created_segment [of 0 ?n after "[]"] by auto
    moreover have "produced_to after 0 0 = \<lparr> prod_lines = [], marked_at = None \<rparr>" by (simp add: produced_to_def)
    moreover have "produced_to after 0 ?n = \<lparr> prod_lines = sd_lines after, marked_at = (if sd_missing after then Some (?n - 1) else None) \<rparr>"
      using False ok by (auto simp: produced_to_def unended_def side_ok_def)
    ultimately show ?thesis using hunks whole
      by (auto simp: compute_file_content_def assms(3) created_content_def marked_line_not_last_def)
  qed
qed

lemma removed_old_side:
  "map tl (filter is_old_side (side_lines s 0 (length (sd_lines s)) (CHR ''-''))) = sd_lines s"
proof -
  have "filter is_old_side (side_line s (CHR ''-'') i) = [CHR ''-'' # sd_lines s ! i]" if "i < length (sd_lines s)" for i
    using that by (simp add: side_line_if is_old_side_def starts_char_def no_newline_line_def)
  then have "map (\<lambda>i. map tl (filter is_old_side (side_line s (CHR ''-'') i))) [0..<length (sd_lines s)] =
      map (\<lambda>i. [sd_lines s ! i]) [0..<length (sd_lines s)]"
    by (intro map_cong refl) simp
  then have "concat (map (\<lambda>i. map tl (filter is_old_side (side_line s (CHR ''-'') i))) [0..<length (sd_lines s)]) =
      concat (map (\<lambda>i. [sd_lines s ! i]) [0..<length (sd_lines s)])" by (rule arg_cong)
  then show ?thesis by (simp add: side_lines_def filter_concat map_concat comp_def map_nth)
qed

lemma line_diff_deletes:
  fixes old :: string
  defines "before \<equiv> line_diff_side old" and "after \<equiv> line_diff_side []"
  assumes "change_kind f = ChangeDelete"
    and "change_hunks f = map (hunk_of before after) (hunk_groups (line_change_blocks before after m) (length (sd_lines before)))"
  shows "compute_file_content f (Some old) allow = \<lparr> out_content = None, out_conflicts = [] \<rparr>"
proof -
  have none: "sd_lines after = []" by (simp add: after_def line_diff_side_def)
  have whole: "render_lines (sd_lines before) (sd_missing before) = old" by (simp add: before_def side_of_text)
  show ?thesis
  proof (cases "sd_lines before = []")
    case True
    then have "change_hunks f = []" using assms(4) by (simp add: blocks_of_deletion [OF none])
    then show ?thesis by (simp add: compute_file_content_def assms(3) verify_delete_pre_image_def)
  next
    case False
    then have "\<exists>h. change_hunks f = [h] \<and> hunk_lines h = side_lines before 0 (length (sd_lines before)) (CHR ''-'')"
      using assms(4) by (simp add: blocks_of_deletion [OF none] hunk_of_def old_from_def old_to_def)
    with removed_old_side [of before] whole show ?thesis
      by (cases "sd_missing before") (auto simp: compute_file_content_def assms(3) verify_delete_pre_image_def Let_def)
  qed
qed

end
