(* ===== verification/Replacement_Edits.thy ===== *)
theory Replacement_Edits
  imports Line_Diff
begin

text \<open>
  Exact-text replacement edits
  (\<open>packages/keiko-server/src/coding-runtime/codingToolReplacementEdits.ts\<close>): renames, edits and
  deletions that are checked against hash-bound reads and materialized into one unified diff.

  The read port is a parameter that answers the n-th read of a call for a path, so the workspace may
  change between two reads; it is given the number of reads made so far, which every function that
  reads passes on. The digest is a parameter too. A refusal keeps its code, its reason and its
  message. Offsets into a text are byte offsets: a match of well-formed UTF-8 text starts and ends
  where a match of its code units does. The one place where the code compares a number of code units
  with a bound counts them (\<open>js_length\<close>).
\<close>

subsection \<open>Data\<close>

record replacement_edit =
  re_file :: string
  old_string :: string
  new_string :: string
  replace_all :: "bool option"

record replacement_rename =
  rename_from :: string
  rename_to :: string

text \<open>The document version of an entry is never read here and is left out.\<close>

record bound_file =
  bf_file :: string
  bf_hash :: "string option"

record replacement_changeset =
  rc_edits :: "replacement_edit list"
  rc_deletions :: "string list option"
  rc_renames :: "replacement_rename list option"
  rc_files :: "bound_file list"
  rc_selected :: "string list option"

record editor_changeset =
  ec_patch :: string
  ec_files :: "bound_file list"
  ec_selected :: "string list option"

datatype refusal_code = InvalidEdits | ContentHashMismatch | PreconditionRequired | LimitExceeded

datatype replacement_refusal =
    DigestUnbound | StaleDigest | FileMissing | CreateOverContent | IdenticalStrings | OldStringNotFound
  | OldStringAmbiguous | NoChange | PathConflict | SelectionGap | TargetExists | ResultTooLarge
  | PatchTooLarge | ChangedLinesExceeded | WholeFileTooLarge

datatype failure =
    Refused refusal_code replacement_refusal string
  | ReadFailed string string

record section_change =
  fc_section :: string
  fc_binding :: bound_file

datatype edit_step =
    RenameStep string string "replacement_edit list"
  | EditStep string "replacement_edit list"
  | DeleteStep string

text \<open>A read answers a text or the reason it failed.\<close>

type_synonym read_port = "nat \<Rightarrow> string \<Rightarrow> string + string"

text \<open>An operation that reads: from the number of reads made to its outcome and the new number.\<close>

type_synonym 'a reading = "nat \<Rightarrow> (failure + 'a) \<times> nat"

definition answer :: "failure + 'a \<Rightarrow> 'a reading" where
  "answer r = (\<lambda>n. (r, n))"

definition and_then :: "'a reading \<Rightarrow> ('a \<Rightarrow> 'b reading) \<Rightarrow> 'b reading" where
  "and_then m f = (\<lambda>n. case m n of (Inl e, n') \<Rightarrow> (Inl e, n') | (Inr a, n') \<Rightarrow> f a n')"

definition read_text :: "read_port \<Rightarrow> string \<Rightarrow> (string + string) reading" where
  "read_text read path = (\<lambda>n. (Inr (read n path), Suc n))"

definition js_length :: "string \<Rightarrow> nat" where
  "js_length s = utf16_len (code_points s)"

abbreviation carriage_return :: char where
  "carriage_return \<equiv> CHR 0x0D"

definition crlf :: string where
  "crlf = [carriage_return, newline_char]"

definition editor_patch_max_bytes :: nat where
  "editor_patch_max_bytes = 8 * 1048576"

definition editor_max_changed_lines :: nat where
  "editor_max_changed_lines = 1000000"

definition text_read_max_bytes :: nat where
  "text_read_max_bytes = 1048576"

definition empty_content_digest :: "(string \<Rightarrow> string) \<Rightarrow> string" where
  "empty_content_digest digest = digest []"

definition result_ceiling_message :: string where
  "result_ceiling_message = ''larger than '' @ nat_digits text_read_max_bytes @
     '' bytes, which no governed read could return; split the edits or narrow replaceAll.''"

subsection \<open>Occurrences\<close>

text \<open>\<open>s.indexOf(needle)\<close>, with None for -1.\<close>

fun index_of :: "string \<Rightarrow> string \<Rightarrow> nat option" where
  "index_of needle s =
     (if starts_with needle s then Some 0
      else case s of [] \<Rightarrow> None | _ # r \<Rightarrow> map_option Suc (index_of needle r))"

declare index_of.simps [simp del]

lemma starts_with_length: "starts_with p s \<Longrightarrow> length p \<le> length s"
  by (auto simp: starts_with_iff)

lemma index_of_bound: "index_of needle s = Some i \<Longrightarrow> i + length needle \<le> length s"
proof (induction s arbitrary: i)
  case (Cons c s)
  then show ?case
    using starts_with_length [of needle "c # s"]
    by (fastforce simp: index_of.simps [of needle "c # s"] split: if_splits)
qed (auto simp: index_of.simps dest: starts_with_length split: if_splits)

lemma index_of_shrinks: "index_of needle s = Some i \<Longrightarrow> needle \<noteq> [] \<Longrightarrow> length s - (i + length needle) < length s"
  using index_of_bound [of needle s i] by (cases needle) auto

text \<open>
  The loop of \<open>occurrencesOf\<close> from the offset \<open>pos\<close>: \<open>rest\<close> is what is left of the text there. No
  caller passes the empty needle, on which the loop would find the same place forever.
\<close>

function occurrences_from :: "string \<Rightarrow> nat \<Rightarrow> string \<Rightarrow> nat list" where
  "occurrences_from needle pos rest =
     (if needle = [] then []
      else case index_of needle rest of
        None \<Rightarrow> []
      | Some i \<Rightarrow> (pos + i) # occurrences_from needle (pos + i + length needle) (drop (i + length needle) rest))"
  by pat_completeness auto
termination
  by (relation "measure (\<lambda>(needle, pos, rest). length rest)") (auto dest: index_of_shrinks)

declare occurrences_from.simps [simp del]

definition occurrences_of :: "string \<Rightarrow> string \<Rightarrow> nat list" where
  "occurrences_of haystack needle = occurrences_from needle 0 haystack"

subsection \<open>Line endings\<close>

text \<open>\<open>s.replaceAll("\r\n", "\n")\<close>.\<close>

fun lf_text :: "string \<Rightarrow> string" where
  "lf_text [] = []"
| "lf_text [c] = [c]"
| "lf_text (c # d # r) =
     (if c = carriage_return \<and> d = newline_char then newline_char # lf_text r else c # lf_text (d # r))"

record normalized_text =
  norm_text :: string
  norm_collapsed :: "nat list"

text \<open>The loop of \<open>normalizeLineEndings\<close> on what is left of the text.\<close>

function normalize_loop :: "string \<Rightarrow> string \<Rightarrow> nat list \<Rightarrow> normalized_text" where
  "normalize_loop out rest collapsed =
     (case index_of crlf rest of
        None \<Rightarrow> \<lparr> norm_text = out @ rest, norm_collapsed = collapsed \<rparr>
      | Some i \<Rightarrow>
          let out' = out @ take i rest
          in normalize_loop (out' @ newline) (drop (i + 2) rest) (collapsed @ [length out']))"
  by pat_completeness auto
termination
  by (relation "measure (\<lambda>(out, rest, collapsed). length rest)") (auto dest: index_of_shrinks simp: crlf_def)

declare normalize_loop.simps [simp del]

definition normalize_line_endings :: "string \<Rightarrow> normalized_text" where
  "normalize_line_endings s =
     (if \<not> contains crlf s then \<lparr> norm_text = s, norm_collapsed = [] \<rparr> else normalize_loop [] s [])"

text \<open>The binary search of \<open>originalOffset\<close>; \<open>mid\<close> is always an index of the list.\<close>

function search_offset :: "nat list \<Rightarrow> nat \<Rightarrow> nat \<Rightarrow> nat \<Rightarrow> nat" where
  "search_offset collapsed k low high =
     (if low < high
      then let mid = (low + high) div 2
           in if mid < length collapsed \<and> collapsed ! mid < k
              then search_offset collapsed k (mid + 1) high
              else search_offset collapsed k low mid
      else low)"
  by pat_completeness auto
termination
  by (relation "measure (\<lambda>(collapsed, k, low, high). high - low)") auto

declare search_offset.simps [simp del]

definition original_offset :: "nat list \<Rightarrow> nat \<Rightarrow> nat" where
  "original_offset collapsed k = k + search_offset collapsed k 0 (length collapsed)"

text \<open>\<open>previous\<close> is whether the character before is a carriage return.\<close>

fun endings_from :: "bool \<Rightarrow> string \<Rightarrow> string list" where
  "endings_from previous [] = []"
| "endings_from previous (c # r) =
     (if c = newline_char then (if previous then crlf else newline) # endings_from False r
      else endings_from (c = carriage_return) r)"

definition line_endings_of :: "string \<Rightarrow> string list" where
  "line_endings_of s = endings_from False s"

definition majority_line_ending :: "string \<Rightarrow> string" where
  "majority_line_ending content =
     (let endings = line_endings_of content;
          windows = length (filter (\<lambda>e. e = crlf) endings)
      in if windows > length endings - windows then crlf else newline)"

text \<open>\<open>pick\<close> reads the lists from the start or from the end.\<close>

function common_line_run :: "string list \<Rightarrow> string list \<Rightarrow> (nat \<Rightarrow> nat \<Rightarrow> nat) \<Rightarrow> nat \<Rightarrow> nat" where
  "common_line_run a b pick run =
     (if run < length a \<and> run < length b \<and> a ! pick run (length a) = b ! pick run (length b)
      then common_line_run a b pick (run + 1) else run)"
  by pat_completeness auto
termination
  by (relation "measure (\<lambda>(a, b, pick, run). length a - run)") auto

declare common_line_run.simps [simp del]

record ending_choice =
  ch_lines :: "string list"
  ch_region_lines :: "string list"
  ch_endings :: "string list"
  ch_lead :: nat
  ch_trail :: nat
  ch_majority :: string

definition ending_or :: "string list \<Rightarrow> nat \<Rightarrow> string \<Rightarrow> string" where
  "ending_or endings i majority = (if i < length endings then endings ! i else majority)"

definition line_ending :: "nat \<Rightarrow> ending_choice \<Rightarrow> string" where
  "line_ending index ch =
     (let from_end = length (ch_lines ch) - 1 - index
      in if index < ch_lead ch then ending_or (ch_endings ch) index (ch_majority ch)
         else if from_end < ch_trail ch
         then ending_or (ch_endings ch) (length (ch_region_lines ch) - 1 - from_end) (ch_majority ch)
         else if length (ch_lines ch) = length (ch_region_lines ch)
         then ending_or (ch_endings ch) index (ch_majority ch) else ch_majority ch)"

definition with_region_endings :: "string \<Rightarrow> string \<Rightarrow> string \<Rightarrow> string" where
  "with_region_endings region replacement majority =
     (let parts = split_lines replacement
      in if length parts = 1 then replacement
         else let region_lines = butlast (split_lines (lf_text region));
                  lns = butlast parts;
                  lead = common_line_run lns region_lines (\<lambda>i n. i) 0;
                  trail = common_line_run (drop lead lns) (drop lead region_lines) (\<lambda>i n. n - 1 - i) 0;
                  choice = \<lparr> ch_lines = lns, ch_region_lines = region_lines,
                    ch_endings = line_endings_of region, ch_lead = lead, ch_trail = trail,
                    ch_majority = majority \<rparr>
              in concat (map (\<lambda>i. lns ! i @ line_ending i choice) [0..<length lns]) @ last parts)"

definition slice :: "string \<Rightarrow> nat \<Rightarrow> nat \<Rightarrow> string" where
  "slice s i j = take (j - i) (drop i s)"

text \<open>One round of the loop of \<open>spliced\<close>: the text so far and the offset read up to.\<close>

definition splice_step ::
  "string \<Rightarrow> normalized_text \<Rightarrow> string \<Rightarrow> string \<Rightarrow> string \<Rightarrow> string \<times> nat \<Rightarrow> nat \<Rightarrow> string \<times> nat" where
  "splice_step content normalized needle replacement majority st start =
     (let i = original_offset (norm_collapsed normalized) start;
          j = original_offset (norm_collapsed normalized) (start + length needle)
      in (fst st @ slice content (snd st) i @ with_region_endings (slice content i j) replacement majority, j))"

definition spliced :: "string \<Rightarrow> normalized_text \<Rightarrow> nat list \<Rightarrow> string \<Rightarrow> string \<Rightarrow> string" where
  "spliced content normalized starts needle replacement =
     (let st = foldl (splice_step content normalized needle replacement (majority_line_ending content)) ([], 0) starts
      in fst st @ drop (snd st) content)"

end
