(* ===== verification/Replacement_Materialize.thy ===== *)
theory Replacement_Materialize
  imports Replacement_Edits
begin

text \<open>
  The rest of \<open>codingToolReplacementEdits.ts\<close>: the edits of one file, the checks made before anything
  is read, the steps of a call in their order, and the changeset assembled from them.
\<close>

subsection \<open>Edits of one file\<close>

definition result_too_large :: "string \<Rightarrow> failure" where
  "result_too_large path = Refused LimitExceeded ResultTooLarge
     (''The edits make '' @ path @ '' '' @ result_ceiling_message)"

definition replace_in :: "string \<Rightarrow> string \<Rightarrow> replacement_edit \<Rightarrow> failure + string" where
  "replace_in path content e =
     (let exact = (if carriage_return \<in> set (old_string e) then occurrences_of content (old_string e) else []);
          normalized = (if exact \<noteq> [] then \<lparr> norm_text = content, norm_collapsed = [] \<rparr>
            else normalize_line_endings content);
          needle = (if exact \<noteq> [] then old_string e else lf_text (old_string e));
          starts = (if exact \<noteq> [] then exact else occurrences_of (norm_text normalized) needle)
      in if starts = []
         then Inl (Refused InvalidEdits OldStringNotFound (''oldString was not found in '' @ path @
           ''; copy the exact current text from a fresh read.''))
         else if length starts > 1 \<and> replace_all e \<noteq> Some True
         then Inl (Refused InvalidEdits OldStringAmbiguous (''oldString matches '' @ nat_digits (length starts) @
           '' places in '' @ path @ ''; add surrounding lines or set replaceAll.''))
         else
           let replacement = lf_text (new_string e);
               growth = int (js_length replacement) + int (length (occurrences_of replacement newline)) -
                 int (js_length needle)
           in if int (js_length content) + int (length starts) * growth > int text_read_max_bytes
              then Inl (result_too_large path)
              else Inr (spliced content normalized starts needle replacement))"

definition apply_edit :: "string \<Rightarrow> string option \<Rightarrow> replacement_edit \<Rightarrow> bool \<Rightarrow> failure + string" where
  "apply_edit path content e first =
     (if old_string e = []
      then if first \<and> (content = None \<or> content = Some []) then Inr (new_string e)
           else Inl (Refused InvalidEdits CreateOverContent
             (''An empty oldString only creates a new file; '' @ path @ '' has content.''))
      else case content of
        None \<Rightarrow> Inl (Refused InvalidEdits FileMissing
          (path @ '' does not exist; create it with an empty oldString.''))
      | Some c \<Rightarrow>
          if old_string e = new_string e
          then Inl (Refused InvalidEdits IdenticalStrings
            (''oldString and newString are identical for '' @ path @ ''.''))
          else replace_in path c e)"

text \<open>\<open>content ?? ""\<close>.\<close>

definition or_empty :: "string option \<Rightarrow> string" where
  "or_empty content = (case content of None \<Rightarrow> [] | Some c \<Rightarrow> c)"

fun apply_edits_from :: "bool \<Rightarrow> string \<Rightarrow> string option \<Rightarrow> replacement_edit list \<Rightarrow> failure + string" where
  "apply_edits_from first path content [] = Inr (or_empty content)"
| "apply_edits_from first path content (e # es) =
     (case apply_edit path content e first of
        Inl r \<Rightarrow> Inl r
      | Inr c \<Rightarrow>
          if length c > text_read_max_bytes then Inl (result_too_large path)
          else apply_edits_from False path (Some c) es)"

definition apply_edits :: "string \<Rightarrow> string option \<Rightarrow> replacement_edit list \<Rightarrow> failure + string" where
  "apply_edits path before es = apply_edits_from True path before es"

subsection \<open>The plan\<close>

text \<open>A map in the order its keys were first set.\<close>

type_synonym edit_groups = "(string \<times> replacement_edit list) list"

fun push_edit :: "edit_groups \<Rightarrow> replacement_edit \<Rightarrow> edit_groups" where
  "push_edit [] e = [(re_file e, [e])]"
| "push_edit ((path, es) # groups) e =
     (if path = re_file e then (path, es @ [e]) # groups else (path, es) # push_edit groups e)"

definition edits_by_file :: "replacement_edit list \<Rightarrow> edit_groups" where
  "edits_by_file es = foldl push_edit [] es"

definition has_edits :: "edit_groups \<Rightarrow> string \<Rightarrow> bool" where
  "has_edits groups path \<longleftrightarrow> path \<in> set (map fst groups)"

definition rename_conflict :: "string \<Rightarrow> string \<Rightarrow> string list \<Rightarrow> edit_groups \<Rightarrow> string option" where
  "rename_conflict source target claimed groups =
     (if source = target then Some (source @ '' is renamed to itself.'')
      else if source \<in> set claimed \<or> target \<in> set claimed
      then Some ((if source \<in> set claimed then source else target) @ '' is named more than once in this call.'')
      else if has_edits groups source
      then Some (source @ '' no longer exists after the renames in this call; address its edits to '' @ target @ ''.'')
      else None)"

text \<open>The loop over the renames: the claimed paths and the sources, or the first conflict.\<close>

fun claim_renames ::
  "edit_groups \<Rightarrow> string list \<Rightarrow> string list \<Rightarrow> replacement_rename list \<Rightarrow> string + string list \<times> string list" where
  "claim_renames groups claimed sources [] = Inr (claimed, sources)"
| "claim_renames groups claimed sources (r # rs) =
     (case rename_conflict (rename_from r) (rename_to r) claimed groups of
        Some m \<Rightarrow> Inl m
      | None \<Rightarrow> claim_renames groups (claimed @ [rename_from r, rename_to r]) (sources @ [rename_from r]) rs)"

fun claim_deletions :: "edit_groups \<Rightarrow> string list \<Rightarrow> string list \<Rightarrow> string list \<Rightarrow> string option" where
  "claim_deletions groups sources claimed [] = None"
| "claim_deletions groups sources claimed (d # ds) =
     (if d \<in> set sources then Some (d @ '' no longer exists after the renames in this call.'')
      else if d \<in> set claimed then Some (d @ '' is named more than once in this call.'')
      else if has_edits groups d
      then Some (d @ '' is both edited and deleted in this call; drop one of them.'')
      else claim_deletions groups sources (claimed @ [d]) ds)"

definition operation_conflict :: "replacement_rename list \<Rightarrow> string list \<Rightarrow> edit_groups \<Rightarrow> string option" where
  "operation_conflict renames deletions groups =
     (case claim_renames groups [] [] renames of
        Inl m \<Rightarrow> Some m
      | Inr (claimed, sources) \<Rightarrow> claim_deletions groups sources claimed deletions)"

definition selection_gap :: "string list option \<Rightarrow> string list \<Rightarrow> string option" where
  "selection_gap selected touched =
     (case selected of None \<Rightarrow> None
      | Some s \<Rightarrow> map_option (\<lambda>path. ''List '' @ path @ '' in selectedFiles.'')
          (List.find (\<lambda>path. path \<notin> set s) touched))"

definition or_none :: "'a list option \<Rightarrow> 'a list" where
  "or_none xs = (case xs of None \<Rightarrow> [] | Some ys \<Rightarrow> ys)"

definition plan_steps :: "replacement_changeset \<Rightarrow> failure + edit_step list" where
  "plan_steps cs =
     (let renames = or_none (rc_renames cs);
          deletions = or_none (rc_deletions cs);
          groups = edits_by_file (rc_edits cs)
      in case operation_conflict renames deletions groups of
        Some m \<Rightarrow> Inl (Refused InvalidEdits PathConflict m)
      | None \<Rightarrow>
          let touched = concat (map (\<lambda>r. [rename_from r, rename_to r]) renames) @ map fst groups @ deletions
          in case selection_gap (rc_selected cs) touched of
            Some m \<Rightarrow> Inl (Refused InvalidEdits SelectionGap m)
          | None \<Rightarrow>
              let targets = map rename_to renames;
                  steps = map (\<lambda>r. RenameStep (rename_from r) (rename_to r)
                      (or_none (map_of groups (rename_to r)))) renames @
                    map (\<lambda>g. EditStep (fst g) (snd g)) (filter (\<lambda>g. fst g \<notin> set targets) groups) @
                    map DeleteStep deletions
              in if steps = []
                 then Inl (Refused InvalidEdits NoChange
                   ''The changeset changes nothing; add an edit, a rename or a deletion.'')
                 else Inr steps)"

subsection \<open>Reads bound to a digest\<close>

definition declared_entry :: "bound_file list \<Rightarrow> string \<Rightarrow> string option" where
  "declared_entry files path = Option.bind (List.find (\<lambda>b. bf_file b = path) files) bf_hash"

definition declared_hash :: "bound_file list \<Rightarrow> string \<Rightarrow> failure + string" where
  "declared_hash files path =
     (case declared_entry files path of
        Some h \<Rightarrow> Inr h
      | None \<Rightarrow> Inl (Refused PreconditionRequired DigestUnbound
          (''List '' @ path @ '' in files with the digest from its latest keiko_workspace_read.'')))"

definition not_found :: string where
  "not_found = ''not-found''"

definition current_text ::
  "(string \<Rightarrow> string) \<Rightarrow> read_port \<Rightarrow> string \<Rightarrow> string \<Rightarrow> string option reading" where
  "current_text digest read path expected =
     and_then (read_text read path) (\<lambda>r. answer (
       let bound = (\<lambda>before.
         if digest (or_empty before) \<noteq> expected
         then Inl (Refused ContentHashMismatch StaleDigest
           (path @ '' changed since the read that produced its digest; re-read it before editing.''))
         else Inr before)
       in case r of
            Inr t \<Rightarrow> bound (Some t)
          | Inl reason \<Rightarrow> if reason \<noteq> not_found then Inl (ReadFailed reason path) else bound None))"

definition existing_source ::
  "(string \<Rightarrow> string) \<Rightarrow> read_port \<Rightarrow> bound_file list \<Rightarrow> string \<Rightarrow> (string \<times> string) reading" where
  "existing_source digest read files path =
     (case declared_hash files path of
        Inl e \<Rightarrow> answer (Inl e)
      | Inr expected \<Rightarrow>
          and_then (current_text digest read path expected) (\<lambda>before. answer (
            case before of
              None \<Rightarrow> Inl (Refused InvalidEdits FileMissing (path @ '' does not exist.''))
            | Some t \<Rightarrow> Inr (t, expected))))"

definition rename_target_refusal ::
  "(string \<Rightarrow> string) \<Rightarrow> read_port \<Rightarrow> bound_file list \<Rightarrow> string \<Rightarrow> unit reading" where
  "rename_target_refusal digest read files target =
     (let declared = declared_entry files target
      in if declared \<noteq> Some (empty_content_digest digest)
         then answer (Inl (Refused
           (if declared = None then PreconditionRequired else ContentHashMismatch)
           (if declared = None then DigestUnbound else StaleDigest)
           (''List '' @ target @ '' in files with the empty-content SHA-256 '' @ empty_content_digest digest @
            ''; a rename target is a new file.'')))
         else and_then (read_text read target) (\<lambda>r. answer (
           case r of
             Inr _ \<Rightarrow> Inl (Refused InvalidEdits TargetExists
               (target @ '' already exists; a rename target must be a new path.''))
           | Inl reason \<Rightarrow> if reason = not_found then Inr () else Inl (ReadFailed reason target))))"

subsection \<open>Steps\<close>

definition unified_diff_section :: "string \<Rightarrow> string option \<Rightarrow> string option \<Rightarrow> string" where
  "unified_diff_section path before after =
     (let old_header = (if before = None then ''--- /dev/null'' else ''--- a/'' @ path);
          new_header = (if after = None then ''+++ /dev/null'' else ''+++ b/'' @ path);
          header = old_header @ newline @ new_header @ newline;
          old_side = line_diff_side (or_empty before);
          new_side = line_diff_side (or_empty after);
          hunks = unified_diff_hunks old_side new_side (line_change_blocks old_side new_side max_edit_distance)
      in if hunks = [] then header else header @ join_lines hunks @ newline)"

definition section_of :: "string \<Rightarrow> string option \<Rightarrow> string option \<Rightarrow> string \<Rightarrow> section_change" where
  "section_of path before after hash = \<lparr> fc_section = unified_diff_section path before after,
     fc_binding = \<lparr> bf_file = path, bf_hash = Some hash \<rparr> \<rparr>"

definition materialize_file ::
  "(string \<Rightarrow> string) \<Rightarrow> read_port \<Rightarrow> bound_file list \<Rightarrow> string \<Rightarrow> replacement_edit list \<Rightarrow> section_change list reading" where
  "materialize_file digest read files path es =
     (case declared_hash files path of
        Inl e \<Rightarrow> answer (Inl e)
      | Inr expected \<Rightarrow>
          and_then (current_text digest read path expected) (\<lambda>before. answer (
            case apply_edits path before es of
              Inl e \<Rightarrow> Inl e
            | Inr content \<Rightarrow>
                if content = or_empty before
                then Inl (Refused InvalidEdits NoChange (''The edits leave '' @ path @ '' unchanged.''))
                else Inr [section_of path before (Some content) expected])))"

definition materialize_rename ::
  "(string \<Rightarrow> string) \<Rightarrow> read_port \<Rightarrow> bound_file list \<Rightarrow> string \<Rightarrow> string \<Rightarrow> replacement_edit list \<Rightarrow>
   section_change list reading" where
  "materialize_rename digest read files source target es =
     and_then (existing_source digest read files source) (\<lambda>(before, expected).
     and_then (rename_target_refusal digest read files target) (\<lambda>_. answer (
       case apply_edits target (Some before) es of
         Inl e \<Rightarrow> Inl e
       | Inr content \<Rightarrow> Inr
           [section_of source (Some before) None expected,
            section_of target None (Some content) (empty_content_digest digest)])))"

definition materialize_deletion ::
  "(string \<Rightarrow> string) \<Rightarrow> read_port \<Rightarrow> bound_file list \<Rightarrow> string \<Rightarrow> section_change list reading" where
  "materialize_deletion digest read files path =
     and_then (existing_source digest read files path) (\<lambda>(before, expected).
       answer (Inr [section_of path (Some before) None expected]))"

fun materialize_step ::
  "(string \<Rightarrow> string) \<Rightarrow> read_port \<Rightarrow> bound_file list \<Rightarrow> edit_step \<Rightarrow> section_change list reading" where
  "materialize_step digest read files (RenameStep source target es) =
     materialize_rename digest read files source target es"
| "materialize_step digest read files (EditStep path es) = materialize_file digest read files path es"
| "materialize_step digest read files (DeleteStep path) = materialize_deletion digest read files path"

subsection \<open>Limits\<close>

definition is_changed_line :: "string \<Rightarrow> bool" where
  "is_changed_line line \<longleftrightarrow> starts_char (CHR ''+'') line \<or> starts_char (CHR ''-'') line"

text \<open>The scan of \<open>changedLineCount\<close> on what is left of the section, at line \<open>number\<close>.\<close>

function changed_lines_from :: "nat \<Rightarrow> string \<Rightarrow> nat" where
  "changed_lines_from number rest =
     (if rest = [] then 0
      else let line = takeWhile (\<lambda>c. c \<noteq> newline_char) rest
           in (if number \<ge> 2 \<and> is_changed_line line then 1 else 0) +
              changed_lines_from (number + 1) (drop (length line + 1) rest))"
  by pat_completeness auto
termination
  by (relation "measure (\<lambda>(number, rest). length rest)") auto

declare changed_lines_from.simps [simp del]

definition changed_line_count :: "string \<Rightarrow> nat" where
  "changed_line_count s = changed_lines_from 0 s"

definition section_bytes :: "section_change list \<Rightarrow> nat" where
  "section_bytes cs = (\<Sum>c\<leftarrow>cs. length (fc_section c))"

definition section_changed_lines :: "section_change list \<Rightarrow> nat" where
  "section_changed_lines cs = (\<Sum>c\<leftarrow>cs. changed_line_count (fc_section c))"

text \<open>The message of a whole-file refusal; \<open>verb\<close> and \<open>noun\<close> name the operation.\<close>

definition whole_file_message :: "string \<Rightarrow> string \<Rightarrow> string \<Rightarrow> nat \<Rightarrow> nat \<Rightarrow> string" where
  "whole_file_message path verb noun line_total byte_total =
     path @ '' cannot be '' @ verb @ '' with keiko_changeset_edit: a '' @ noun @ '' renders the whole file ('' @
     nat_digits line_total @ '' changed lines, '' @ nat_digits byte_total @ '' bytes), more than one call may carry ('' @
     nat_digits editor_max_changed_lines @ '' lines, '' @ nat_digits editor_patch_max_bytes @
     '' bytes). Leave it in place and report it to the operator.''"

definition whole_file_refusal :: "edit_step \<Rightarrow> section_change list \<Rightarrow> failure option" where
  "whole_file_refusal step changes =
     (let judge = (\<lambda>path verb noun.
        if section_bytes changes \<le> editor_patch_max_bytes \<and> section_changed_lines changes \<le> editor_max_changed_lines
        then None
        else Some (Refused LimitExceeded WholeFileTooLarge
          (whole_file_message path verb noun (section_changed_lines changes) (section_bytes changes))))
      in case step of
           EditStep path es \<Rightarrow> None
         | RenameStep source target es \<Rightarrow> judge source ''moved'' ''rename''
         | DeleteStep path \<Rightarrow> judge path ''deleted'' ''deletion'')"

definition assembled :: "section_change list \<Rightarrow> failure + editor_changeset" where
  "assembled changes =
     (if section_bytes changes > editor_patch_max_bytes
      then Inl (Refused LimitExceeded PatchTooLarge (''The materialized changeset exceeds '' @
        nat_digits editor_patch_max_bytes @ '' bytes; split it into smaller calls.''))
      else if section_changed_lines changes > editor_max_changed_lines
      then Inl (Refused LimitExceeded ChangedLinesExceeded (''The materialized changeset changes '' @
        nat_digits (section_changed_lines changes) @ '' lines, more than the '' @
        nat_digits editor_max_changed_lines @ '' one call may change; split the edits into smaller calls.''))
      else Inr \<lparr> ec_patch = concat (map fc_section changes), ec_files = map fc_binding changes,
        ec_selected = Some (map (bf_file \<circ> fc_binding) changes) \<rparr>)"

text \<open>The loop over the steps, with the changes so far.\<close>

fun materialize_steps ::
  "(string \<Rightarrow> string) \<Rightarrow> read_port \<Rightarrow> bound_file list \<Rightarrow> section_change list \<Rightarrow> edit_step list \<Rightarrow>
   section_change list reading" where
  "materialize_steps digest read files changes [] = answer (Inr changes)"
| "materialize_steps digest read files changes (step # steps) =
     and_then (materialize_step digest read files step) (\<lambda>cs.
       case whole_file_refusal step cs of
         Some e \<Rightarrow> answer (Inl e)
       | None \<Rightarrow> materialize_steps digest read files (changes @ cs) steps)"

definition materialize_replacement_changeset ::
  "(string \<Rightarrow> string) \<Rightarrow> read_port \<Rightarrow> replacement_changeset \<Rightarrow> failure + editor_changeset" where
  "materialize_replacement_changeset digest read cs =
     (case plan_steps cs of
        Inl e \<Rightarrow> Inl e
      | Inr steps \<Rightarrow> fst (and_then (materialize_steps digest read (rc_files cs) [] steps)
          (\<lambda>changes. answer (assembled changes)) 0))"

text \<open>The bytes a request carries; a plain changeset on the left, a replacement one on the right.\<close>

definition changeset_payload_bytes :: "editor_changeset + replacement_changeset \<Rightarrow> nat" where
  "changeset_payload_bytes changeset = (case changeset of
     Inl plain \<Rightarrow> length (ec_patch plain)
   | Inr cs \<Rightarrow> sum_list (map length (concat (map (\<lambda>e. [old_string e, new_string e]) (rc_edits cs)) @
       or_none (rc_deletions cs) @
       concat (map (\<lambda>r. [rename_from r, rename_to r]) (or_none (rc_renames cs))))))"

end
