(* ===== verification/Replacement_Sections.thy ===== *)
theory Replacement_Sections
  imports Line_Diff_Sections Replacement_Materialize
begin

text \<open>
  The sections of a materialized changeset, as the patch engine reads them: each parses to one file
  change, and applying that change to the text it was made from gives the text it was made for.
\<close>

subsection \<open>Terminated lines\<close>

definition terminated :: "string list \<Rightarrow> string" where
  "terminated ls = concat (map (\<lambda>l. l @ newline) ls)"

lemma terminated_simps [simp]:
  "terminated [] = []" "terminated (l # ls) = l @ newline @ terminated ls"
  "terminated (xs @ ys) = terminated xs @ terminated ys"
  by (simp_all add: terminated_def)

lemma join_terminated: "ls \<noteq> [] \<Longrightarrow> join_lines ls @ newline = terminated ls"
proof (induction ls)
  case (Cons l ls)
  then show ?case by (cases "ls = []") (simp_all add: join_lines_def join_Cons)
qed simp

lemma split_terminated: "newline_free ls \<Longrightarrow> split_lines (terminated ls) = ls @ [[]]"
  by (induction ls) (simp_all add: split_lines_def newline_def newline_free_def split_on_append)

subsection \<open>The file change of a section\<close>

definition section_blocks :: "string option \<Rightarrow> string option \<Rightarrow> change_block list" where
  "section_blocks before after = line_change_blocks (line_diff_side (or_empty before)) (line_diff_side (or_empty after))
     max_edit_distance"

definition section_hunks :: "string option \<Rightarrow> string option \<Rightarrow> patch_hunk list" where
  "section_hunks before after =
     (let was = line_diff_side (or_empty before); now = line_diff_side (or_empty after)
      in map (hunk_of was now) (hunk_groups (section_blocks before after) (length (sd_lines was))))"

definition section_file :: "string \<Rightarrow> string option \<Rightarrow> string option \<Rightarrow> patch_file" where
  "section_file path before after = \<lparr> change_path = path,
     change_kind = (if before = None then ChangeCreate else if after = None then ChangeDelete else ChangeModify),
     change_hunks = section_hunks before after,
     added_lines = (\<Sum>h\<leftarrow>section_hunks before after. plus_lines (hunk_lines h)),
     removed_lines = (\<Sum>h\<leftarrow>section_hunks before after. minus_lines (hunk_lines h)) \<rparr>"

text \<open>A text no longer than a governed read returns, so that the parser can read its line numbers back.\<close>

definition readable_size :: "string option \<Rightarrow> bool" where
  "readable_size t \<longleftrightarrow> length (or_empty t) \<le> text_read_max_bytes"

lemma side_lines_short:
  assumes "readable_size t"
  shows "length (sd_lines (line_diff_side (or_empty t))) < max_safe_integer"
proof -
  have len: "length (split_on c s) \<le> Suc (length s)" for c s
    by (induction s) (auto split: list.splits)
  have "length (sd_lines (line_diff_side (or_empty t))) \<le> Suc (length (or_empty t))"
    using len [of newline_char "or_empty t"] len [of newline_char "butlast (or_empty t)"]
    by (auto simp: line_diff_side_def split_lines_def)
  with assms show ?thesis by (simp add: readable_size_def text_read_max_bytes_def max_safe_integer_def)
qed

lemma section_groups:
  fixes before after :: "string option"
  defines "bs \<equiv> section_blocks before after" and "was \<equiv> line_diff_side (or_empty before)"
    and "now \<equiv> line_diff_side (or_empty after)"
  shows "groups_match 0 0 (hunk_groups bs (length (sd_lines was)))
    (comparison_keys was) (comparison_keys now)"
proof -
  have "length (comparison_keys was) = length (sd_lines was)"
    by (auto simp: comparison_keys_def)
  with hunk_groups_match [OF search_blocks_match, of was now max_edit_distance] show ?thesis
    by (simp add: bs_def was_def now_def section_blocks_def)
qed

lemma section_file_ok:
  assumes "readable_size before" "readable_size after"
  shows "file_ok (section_file path before after)"
  using hunks_ok [OF side_of_text(2) side_of_text(2) side_lines_short [OF assms(1)] side_lines_short [OF assms(2)]
      section_groups]
  by (simp add: file_ok_def section_file_def section_hunks_def Let_def)

lemma section_renders:
  assumes "before \<noteq> None \<or> after \<noteq> None"
  shows "unified_diff_section path before after = terminated (render_file_lines (section_file path before after))"
proof -
  let ?d = "line_diff_side (or_empty before)" and ?e = "line_diff_side (or_empty after)"
  let ?ls = "unified_diff_hunks ?d ?e (section_blocks before after)"
  have lines: "?ls = concat (map (\<lambda>h. render_hunk_header h # hunk_lines h) (section_hunks before after))"
    using diff_hunk_lines [OF section_groups] by (simp add: section_hunks_def Let_def)
  have tail: "(if ?ls = [] then s else s @ join_lines ?ls @ newline) = s @ terminated ?ls" for s
    using join_terminated [of ?ls] by (cases "?ls = []") simp_all
  have head: "(if before = None then ''--- /dev/null'' else ''--- a/'' @ path) @ newline @
      (if after = None then ''+++ /dev/null'' else ''+++ b/'' @ path) @ newline =
      terminated (render_header (section_file path before after))"
    using assms by (auto simp: render_header_def section_file_def)
  have "unified_diff_section path before after = terminated (render_header (section_file path before after)) @ terminated ?ls"
    unfolding unified_diff_section_def Let_def section_blocks_def [symmetric] tail head [symmetric]
    by simp
  then show ?thesis by (simp add: render_file_lines_def lines section_file_def)
qed

lemma section_applies:
  assumes "before \<noteq> None \<or> after \<noteq> None"
  shows "compute_file_content (section_file path before after) before allow = \<lparr> out_content = after, out_conflicts = [] \<rparr>"
proof (cases before)
  case None
  with assms obtain new where "after = Some new" by auto
  with None show ?thesis
    using line_diff_creates [of "section_file path before after" new max_edit_distance allow]
    by (simp add: section_file_def section_hunks_def section_blocks_def or_empty_def Let_def)
next
  case (Some old)
  show ?thesis
  proof (cases after)
    case None
    with Some show ?thesis
      using line_diff_deletes [of "section_file path before after" old max_edit_distance allow]
      by (simp add: section_file_def section_hunks_def section_blocks_def or_empty_def Let_def)
  next
    case new: (Some new)
    with Some show ?thesis
      using line_diff_hunks_apply [of "section_file path before after" old new max_edit_distance allow]
      by (simp add: section_file_def section_hunks_def section_blocks_def or_empty_def Let_def)
  qed
qed

subsection \<open>Parsing the sections\<close>

lemma empty_line_keeps:
  assumes "finishes st files"
  shows "\<exists>st'. handle_line st [] = Inr st' \<and> finishes st' files"
proof (cases "ps_current st")
  case None
  with assms show ?thesis by (simp add: handle_line_def starts_with_def)
next
  case (Some f)
  with assms have fin: "finish_file (ps_files st) f = Inr files" and act: "\<not> hunk_active f"
    by (simp_all add: finishes_def)
  from fin obtain g where g: "finish_hunk f = Inr g" by (auto simp: finish_file_def)
  have "acc_current f = None \<longrightarrow> g = f" "acc_current g = None"
    using g by (auto simp: finish_hunk_def split: option.splits if_splits)
  then have "finish_hunk g = Inr g" "\<not> hunk_active g" by (simp_all add: finish_hunk_def hunk_active_def)
  moreover have "handle_body_line [] f = Inr g"
    using g \<open>acc_current f = None \<longrightarrow> g = f\<close>
    by (cases "acc_current f") (simp_all add: handle_body_line_def starts_char_def is_hunk_body_line_def)
  moreover have "finish_file (ps_files st) g = Inr files"
    using fin g \<open>finish_hunk g = Inr g\<close> by (simp add: finish_file_def)
  ultimately show ?thesis using Some act
    by (simp add: handle_line_def starts_with_def is_hunk_body_line_def starts_char_def is_signature_delimiter_def
        with_current_def finishes_def)
qed

lemma parse_terminated:
  assumes "list_all file_ok fs" and "list_all (\<lambda>f. renderable_path (change_path f)) fs"
  shows "parse_unified_diff (terminated (concat (map render_file_lines fs))) = Inr fs"
proof -
  let ?ls = "concat (map render_file_lines fs)" and ?s = "\<lparr> ps_files = [], ps_current = None \<rparr>"
  have "newline_free ?ls"
    using assms render_free by (fastforce simp: newline_free_def list_all_iff)
  then have split: "split_lines (terminated ?ls) = ?ls @ [[]]" by (rule split_terminated)
  have "finishes ?s []" by (simp add: finishes_def)
  from handle_files [OF assms this] obtain st where st: "rfold handle_line ?s ?ls = Inr st" "finishes st fs" by auto
  from empty_line_keeps [OF st(2)] obtain st' where "handle_line st [] = Inr st'" "finishes st' fs" by auto
  then show ?thesis
    unfolding parse_unified_diff_def split rfold_append st(1)
    by (auto simp: finishes_def split: option.splits)
qed

end
