(* ===== verification/Replacement_Plan.thy ===== *)
theory Replacement_Plan
  imports Replacement_Sections
begin

text \<open>
  What a materialized replacement changeset is: one effect per touched file, taken from a bound read,
  each path once, inside the limits, and read back by the patch engine as exactly those effects.
\<close>

subsection \<open>Readings\<close>

lemma fst_answer [simp]: "fst (answer r n) = r"
  by (simp add: answer_def)

lemma and_then_Inr:
  "fst (and_then m f n) = Inr b \<longleftrightarrow> (\<exists>a n'. m n = (Inr a, n') \<and> fst (f a n') = Inr b)"
  by (cases "m n"; cases "fst (m n)") (auto simp: and_then_def)

lemma case_Inr: "(case r of Inl e \<Rightarrow> Inl e | Inr x \<Rightarrow> f x) = Inr y \<longleftrightarrow> (\<exists>x. r = Inr x \<and> f x = Inr y)"
  by (cases r) auto

lemma read_text_Inr: "read_text read path n = (Inr r, n') \<longleftrightarrow> r = read n path \<and> n' = Suc n"
  by (auto simp: read_text_def)

subsection \<open>Effects\<close>

text \<open>One touched file: its path, the text it had and the text it gets, None for an absent file.\<close>

type_synonym file_effect = "string \<times> string option \<times> string option"

definition was_read :: "read_port \<Rightarrow> string \<Rightarrow> string option \<Rightarrow> bool" where
  "was_read read path before \<longleftrightarrow>
     (\<exists>k. read k path = (case before of None \<Rightarrow> Inl not_found | Some t \<Rightarrow> Inr t))"

fun step_effect :: "edit_step \<Rightarrow> file_effect list \<Rightarrow> bool" where
  "step_effect (RenameStep source target es) effs \<longleftrightarrow>
     (\<exists>t new. effs = [(source, Some t, None), (target, None, Some new)] \<and> apply_edits target (Some t) es = Inr new)"
| "step_effect (EditStep path es) effs \<longleftrightarrow>
     (\<exists>before new. effs = [(path, before, Some new)] \<and> apply_edits path before es = Inr new \<and> new \<noteq> or_empty before)"
| "step_effect (DeleteStep path) effs \<longleftrightarrow> (\<exists>t. effs = [(path, Some t, None)])"

fun effect_change :: "(string \<Rightarrow> string) \<Rightarrow> file_effect \<Rightarrow> section_change" where
  "effect_change digest (path, before, after) = section_of path before after (digest (or_empty before))"

fun effect_file :: "file_effect \<Rightarrow> patch_file" where
  "effect_file (path, before, after) = section_file path before after"

fun sound_effect :: "(string \<Rightarrow> string) \<Rightarrow> read_port \<Rightarrow> bound_file list \<Rightarrow> file_effect \<Rightarrow> bool" where
  "sound_effect digest read files (path, before, after) \<longleftrightarrow> was_read read path before \<and>
     declared_entry files path = Some (digest (or_empty before)) \<and> (before \<noteq> None \<or> after \<noteq> None)"

subsection \<open>One step\<close>

lemma declared_hash_Inr: "declared_hash files path = Inr h \<longleftrightarrow> declared_entry files path = Some h"
  by (simp add: declared_hash_def split: option.splits)

lemma current_text_sound:
  assumes "fst (current_text digest read path expected n) = Inr before"
  shows "was_read read path before" "digest (or_empty before) = expected"
proof -
  have "read n path = (case before of None \<Rightarrow> Inl not_found | Some t \<Rightarrow> Inr t) \<and> digest (or_empty before) = expected"
    using assms
    by (auto simp: current_text_def and_then_Inr read_text_Inr Let_def split: sum.splits if_splits)
  then show "was_read read path before" "digest (or_empty before) = expected" by (auto simp: was_read_def)
qed

lemma existing_source_sound:
  assumes "fst (existing_source digest read files path n) = Inr (t, h)"
  shows "sound_effect digest read files (path, Some t, after)" "h = digest t"
proof -
  from assms obtain before n' where h: "declared_entry files path = Some h"
    and cur: "current_text digest read path h n = (Inr before, n')" and t: "before = Some t"
    by (auto simp: existing_source_def and_then_Inr declared_hash_Inr split: sum.splits option.splits)
  from cur have "fst (current_text digest read path h n) = Inr before" by simp
  from current_text_sound [OF this] h t
  show "sound_effect digest read files (path, Some t, after)" "h = digest t" by (auto simp: or_empty_def)
qed

lemma rename_target_sound:
  assumes "fst (rename_target_refusal digest read files path n) = Inr u"
  shows "sound_effect digest read files (path, None, Some new)"
  using assms
  by (auto simp: rename_target_refusal_def Let_def and_then_Inr read_text_Inr was_read_def or_empty_def
      empty_content_digest_def split: sum.splits if_splits)

lemma materialize_step_effect:
  assumes "fst (materialize_step digest read files step n) = Inr cs"
  shows "\<exists>effs. step_effect step effs \<and> cs = map (effect_change digest) effs \<and>
    list_all (sound_effect digest read files) effs"
proof (cases step)
  case (RenameStep source target es)
  with assms obtain t h n1 n2 new where
    src: "existing_source digest read files source n = (Inr (t, h), n1)" and
    tgt: "rename_target_refusal digest read files target n1 = (Inr (), n2)" and
    new: "apply_edits target (Some t) es = Inr new" and
    cs: "cs = [section_of source (Some t) None h, section_of target None (Some new) (empty_content_digest digest)]"
    by (auto simp: materialize_rename_def and_then_Inr case_Inr split: prod.splits)
  from src have "fst (existing_source digest read files source n) = Inr (t, h)" by simp
  note s = existing_source_sound(1) [OF this, where after = None] existing_source_sound(2) [OF this]
  from tgt have "fst (rename_target_refusal digest read files target n1) = Inr ()" by simp
  note r = rename_target_sound [OF this, of new]
  show ?thesis
    using RenameStep new cs s r
    by (intro exI [of _ "[(source, Some t, None), (target, None, Some new)]"])
       (simp add: or_empty_def empty_content_digest_def del: sound_effect.simps)
next
  case (EditStep path es)
  with assms obtain h before n1 new where
    h: "declared_entry files path = Some h" and
    cur: "current_text digest read path h n = (Inr before, n1)" and
    new: "apply_edits path before es = Inr new" "new \<noteq> or_empty before" and
    cs: "cs = [section_of path before (Some new) h]"
  proof (cases "declared_hash files path")
    case (Inr h')
    with assms EditStep show ?thesis
      by (auto simp: materialize_file_def and_then_Inr case_Inr declared_hash_Inr intro: that split: if_splits)
  qed (use assms EditStep in \<open>simp add: materialize_file_def\<close>)
  from cur have "fst (current_text digest read path h n) = Inr before" by simp
  note c = current_text_sound [OF this]
  show ?thesis
    using EditStep h new cs c by (intro exI [of _ "[(path, before, Some new)]"]) simp
next
  case (DeleteStep path)
  with assms obtain t h n1 where
    src: "existing_source digest read files path n = (Inr (t, h), n1)" and
    cs: "cs = [section_of path (Some t) None h]"
    by (auto simp: materialize_deletion_def and_then_Inr split: prod.splits)
  from src have "fst (existing_source digest read files path n) = Inr (t, h)" by simp
  note s = existing_source_sound(1) [OF this, where after = None] existing_source_sound(2) [OF this]
  show ?thesis
    using DeleteStep cs s by (intro exI [of _ "[(path, Some t, None)]"]) (simp add: or_empty_def del: sound_effect.simps)
qed

lemma materialize_steps_effects:
  assumes "fst (materialize_steps digest read files changes steps n) = Inr cs"
  shows "\<exists>effs. list_all2 step_effect steps effs \<and> cs = changes @ map (effect_change digest) (concat effs) \<and>
    list_all (sound_effect digest read files) (concat effs)"
  using assms
proof (induction steps arbitrary: changes n)
  case Nil
  then show ?case by (intro exI [of _ "[]"]) simp
next
  case (Cons step steps)
  then obtain new n' where step: "materialize_step digest read files step n = (Inr new, n')"
    and rest: "fst (materialize_steps digest read files (changes @ new) steps n') = Inr cs"
    by (auto simp: and_then_Inr split: option.splits)
  from step have "fst (materialize_step digest read files step n) = Inr new" by simp
  from materialize_step_effect [OF this] obtain e where e: "step_effect step e" "new = map (effect_change digest) e"
    "list_all (sound_effect digest read files) e" by blast
  from Cons.IH [OF rest] obtain es where es: "list_all2 step_effect steps es"
    "cs = (changes @ new) @ map (effect_change digest) (concat es)" "list_all (sound_effect digest read files) (concat es)"
    by blast
  from e es show ?case by (intro exI [of _ "e # es"]) simp
qed

lemma materialized_effects:
  assumes "materialize_replacement_changeset digest read cs = Inr ch"
  obtains steps effs where "plan_steps cs = Inr steps" and "list_all2 step_effect steps effs"
    and "assembled (map (effect_change digest) (concat effs)) = Inr ch"
    and "list_all (sound_effect digest read (rc_files cs)) (concat effs)"
proof -
  from assms obtain steps changes n where steps: "plan_steps cs = Inr steps"
    and run: "materialize_steps digest read (rc_files cs) [] steps 0 = (Inr changes, n)" and ch: "assembled changes = Inr ch"
    by (auto simp: materialize_replacement_changeset_def and_then_Inr case_Inr)
  from run have "fst (materialize_steps digest read (rc_files cs) [] steps 0) = Inr changes" by simp
  from materialize_steps_effects [OF this] steps ch that show thesis by auto
qed

subsection \<open>Every path once\<close>

lemma push_edit_set: "set (map fst (push_edit groups e)) = insert (re_file e) (set (map fst groups))"
  by (induction groups e rule: push_edit.induct) auto

lemma push_edit_distinct: "distinct (map fst groups) \<Longrightarrow> distinct (map fst (push_edit groups e))"
proof (induction groups e rule: push_edit.induct)
  case (2 path es groups e)
  then show ?case using push_edit_set [of groups e] by auto
qed simp

lemma edits_by_file_distinct: "distinct (map fst (edits_by_file es))"
proof -
  have "distinct (map fst groups) \<Longrightarrow> distinct (map fst (foldl push_edit groups es))" for groups
    by (induction es arbitrary: groups) (simp_all add: push_edit_distinct)
  then show ?thesis by (simp add: edits_by_file_def)
qed

lemma claim_renames_sound:
  assumes "claim_renames groups claimed sources rs = Inr (claimed', sources')" and "distinct claimed"
  shows "claimed' = claimed @ concat (map (\<lambda>r. [rename_from r, rename_to r]) rs)" "distinct claimed'"
    "\<forall>r\<in>set rs. \<not> has_edits groups (rename_from r)"
proof -
  have "claimed' = claimed @ concat (map (\<lambda>r. [rename_from r, rename_to r]) rs) \<and> distinct claimed' \<and>
      (\<forall>r\<in>set rs. \<not> has_edits groups (rename_from r))"
    using assms
  proof (induction rs arbitrary: claimed sources)
    case (Cons r rs)
    then have "rename_conflict (rename_from r) (rename_to r) claimed groups = None"
      and rest: "claim_renames groups (claimed @ [rename_from r, rename_to r]) (sources @ [rename_from r]) rs =
        Inr (claimed', sources')" by (auto split: option.splits)
    then have "distinct (claimed @ [rename_from r, rename_to r])" "\<not> has_edits groups (rename_from r)"
      using Cons.prems(2) by (auto simp: rename_conflict_def split: if_splits)
    note IH = Cons.IH [OF rest this(1)]
    have "claimed' = claimed @ concat (map (\<lambda>r. [rename_from r, rename_to r]) (r # rs))"
      using conjunct1 [OF IH] by simp
    moreover have "\<forall>r'\<in>set (r # rs). \<not> has_edits groups (rename_from r')"
      using IH \<open>\<not> has_edits groups (rename_from r)\<close> by simp
    ultimately show ?case using IH by blast
  qed simp
  then show "claimed' = claimed @ concat (map (\<lambda>r. [rename_from r, rename_to r]) rs)" "distinct claimed'"
    "\<forall>r\<in>set rs. \<not> has_edits groups (rename_from r)" by blast+
qed

lemma claim_deletions_sound:
  assumes "claim_deletions groups sources claimed ds = None" and "distinct claimed"
  shows "distinct (claimed @ ds)" "\<forall>d\<in>set ds. \<not> has_edits groups d"
proof -
  have "distinct (claimed @ ds) \<and> (\<forall>d\<in>set ds. \<not> has_edits groups d)"
    using assms
  proof (induction ds arbitrary: claimed)
    case (Cons d ds)
    then have "claim_deletions groups sources (claimed @ [d]) ds = None" "distinct (claimed @ [d])" "\<not> has_edits groups d"
      by (auto split: if_splits)
    from Cons.IH [OF this(1,2)] this(3) show ?case by simp
  qed simp
  then show "distinct (claimed @ ds)" "\<forall>d\<in>set ds. \<not> has_edits groups d" by blast+
qed

fun step_paths :: "edit_step \<Rightarrow> string list" where
  "step_paths (RenameStep source target es) = [source, target]"
| "step_paths (EditStep path es) = [path]"
| "step_paths (DeleteStep path) = [path]"

lemma step_effect_paths: "step_effect step effs \<Longrightarrow> map fst effs = step_paths step"
  by (cases step) auto

lemma effects_paths: "list_all2 step_effect steps effs \<Longrightarrow> map fst (concat effs) = concat (map step_paths steps)"
  by (induction rule: list_all2_induct) (simp_all add: step_effect_paths)

definition touched_paths :: "replacement_changeset \<Rightarrow> string list" where
  "touched_paths cs = concat (map (\<lambda>r. [rename_from r, rename_to r]) (or_none (rc_renames cs))) @
     map fst (edits_by_file (rc_edits cs)) @ or_none (rc_deletions cs)"

lemma selection_covers: "selection_gap selected touched = None \<Longrightarrow> selected = Some s \<Longrightarrow> set touched \<subseteq> set s"
  by (auto simp: selection_gap_def find_None_iff)

lemma plan_steps_paths:
  assumes "plan_steps cs = Inr steps"
  shows "distinct (concat (map step_paths steps))" "set (concat (map step_paths steps)) = set (touched_paths cs)"
    "rc_selected cs = Some s \<Longrightarrow> set (touched_paths cs) \<subseteq> set s" "steps \<noteq> []"
proof -
  let ?rs = "or_none (rc_renames cs)" and ?ds = "or_none (rc_deletions cs)" and ?g = "edits_by_file (rc_edits cs)"
  let ?ends = "concat (map (\<lambda>r. [rename_from r, rename_to r]) ?rs)"
  let ?own = "filter (\<lambda>g. fst g \<notin> set (map rename_to ?rs)) ?g"
  from assms have none: "operation_conflict ?rs ?ds ?g = None" "selection_gap (rc_selected cs) (touched_paths cs) = None"
    and steps: "steps = map (\<lambda>r. RenameStep (rename_from r) (rename_to r) (or_none (map_of ?g (rename_to r)))) ?rs @
      map (\<lambda>g. EditStep (fst g) (snd g)) ?own @ map DeleteStep ?ds" and "steps \<noteq> []"
    unfolding plan_steps_def Let_def touched_paths_def by (auto split: option.splits if_splits)
  from none(1) obtain claimed sources where c: "claim_renames ?g [] [] ?rs = Inr (claimed, sources)"
    "claim_deletions ?g sources claimed ?ds = None"
    by (auto simp: operation_conflict_def split: sum.splits prod.splits)
  note r = claim_renames_sound [OF c(1), simplified]
  note d = claim_deletions_sound [OF c(2) r(2)]
  have paths: "concat (map step_paths steps) = ?ends @ map fst ?own @ ?ds"
    by (simp add: steps comp_def)
  have own: "set (map fst ?own) = set (map fst ?g) - set (map rename_to ?rs)" by auto
  have apart: "fst g \<notin> set ?ends" if "g \<in> set ?own" for g
  proof
    assume "fst g \<in> set ?ends"
    with that obtain x where "x \<in> set ?rs" "fst g = rename_from x" by auto
    moreover from that have "has_edits ?g (fst g)" by (simp add: has_edits_def)
    ultimately show False using r(3) by auto
  qed
  have "distinct (map fst ?own)" using edits_by_file_distinct [of "rc_edits cs"] by (rule distinct_map_filter)
  moreover have "distinct ?ends" "distinct ?ds" "set ?ends \<inter> set ?ds = {}" using d(1) unfolding r(1) distinct_append by blast+
  moreover have "set (map fst ?own) \<inter> set ?ds = {}" using d(2) by (auto simp: has_edits_def)
  moreover have "set ?ends \<inter> set (map fst ?own) = {}" using apart by fastforce
  ultimately show "distinct (concat (map step_paths steps))"
    unfolding paths distinct_append set_append by blast
  have "set (map rename_to ?rs) \<subseteq> set ?ends" by auto
  then have "set ?ends \<union> set (map fst ?own) = set ?ends \<union> set (map fst ?g)" unfolding own by blast
  then show "set (concat (map step_paths steps)) = set (touched_paths cs)"
    unfolding paths touched_paths_def set_append by blast
  show "rc_selected cs = Some s \<Longrightarrow> set (touched_paths cs) \<subseteq> set s" by (rule selection_covers [OF none(2)])
  show "steps \<noteq> []" by fact
qed

end
