(* ===== verification/Replacement_Endings.thy ===== *)
theory Replacement_Endings
  imports Replacement_Materialize
begin

text \<open>
  Line endings under a replacement: where a normalized offset lies in the original text, and what the
  spliced text is once its line endings are read as line feeds.
\<close>

subsection \<open>Normalization\<close>

lemma crlf_parts [simp]: "length crlf = 2" "crlf \<noteq> []"
  by (simp_all add: crlf_def)

lemma starts_crlf [simp]:
  "starts_with crlf (c # d # r) \<longleftrightarrow> c = carriage_return \<and> d = newline_char"
  "\<not> starts_with crlf [c]" "\<not> starts_with crlf []"
  by (auto simp: starts_with_def crlf_def)

text \<open>The normalized indexes of the collapsed line feeds of a text that starts at \<open>k\<close>.\<close>

fun collapsed_at :: "nat \<Rightarrow> string \<Rightarrow> nat list" where
  "collapsed_at k [] = []"
| "collapsed_at k [c] = []"
| "collapsed_at k (c # d # r) =
     (if c = carriage_return \<and> d = newline_char then k # collapsed_at (Suc k) r else collapsed_at (Suc k) (d # r))"

lemma no_crlf: "index_of crlf s = None \<Longrightarrow> lf_text s = s \<and> collapsed_at k s = []"
  by (induction s arbitrary: k rule: lf_text.induct) (auto simp: index_of.simps split: if_splits)

lemma first_crlf:
  "index_of crlf s = Some i \<Longrightarrow>
   lf_text s = take i s @ newline @ lf_text (drop (i + 2) s) \<and> i + 2 \<le> length s \<and>
   collapsed_at k s = (k + i) # collapsed_at (k + i + 1) (drop (i + 2) s)"
proof (induction s arbitrary: i k rule: lf_text.induct)
  case (3 c d r)
  show ?case
  proof (cases "c = carriage_return \<and> d = newline_char")
    case True
    have "index_of crlf (c # d # r) = Some 0" using True by (subst index_of.simps) simp
    with True "3.prems" show ?thesis by (simp add: newline_def)
  next
    case False
    with "3.prems" obtain j where j: "index_of crlf (d # r) = Some j" "i = Suc j"
      by (auto simp: index_of.simps [of _ "c # d # r"])
    from "3.IH"(2) [OF False j(1), of "Suc k"] False j(2) show ?thesis by auto
  qed
qed (simp_all add: index_of.simps)

lemma normalize_loop_eq:
  "normalize_loop out rest collapsed =
     \<lparr> norm_text = out @ lf_text rest, norm_collapsed = collapsed @ collapsed_at (length out) rest \<rparr>"
proof (induction out rest collapsed rule: normalize_loop.induct)
  case (1 out rest collapsed)
  show ?case
  proof (cases "index_of crlf rest")
    case None
    with no_crlf [OF None] show ?thesis by (subst normalize_loop.simps) simp
  next
    case (Some i)
    note first = first_crlf [OF Some, of "length out"]
    have len: "length (out @ take i rest) = length out + i" using first by simp
    have "normalize_loop out rest collapsed =
        normalize_loop (out @ take i rest @ newline) (drop (i + 2) rest) (collapsed @ [length (out @ take i rest)])"
      by (subst normalize_loop.simps) (simp add: Some Let_def)
    with "1.IH" [OF Some refl] first show ?thesis
      by (simp add: newline_def)
  qed
qed

lemma contains_index: "contains p s \<longleftrightarrow> index_of p s \<noteq> None"
proof (induction s)
  case (Cons c s)
  then show ?case by (simp add: index_of.simps [of p "c # s"])
qed (auto simp: index_of.simps starts_with_def)

lemma normalize_eq: "normalize_line_endings s = \<lparr> norm_text = lf_text s, norm_collapsed = collapsed_at 0 s \<rparr>"
  using no_crlf [of s 0] by (auto simp: normalize_line_endings_def contains_index normalize_loop_eq)

subsection \<open>Offsets\<close>

lemma search_offset_splits:
  assumes "sorted cs" and "low \<le> high" "high \<le> length cs"
    and "\<forall>i<low. cs ! i < k" "\<forall>i. high \<le> i \<and> i < length cs \<longrightarrow> k \<le> cs ! i"
  defines "r \<equiv> search_offset cs k low high"
  shows "low \<le> r \<and> r \<le> high \<and> (\<forall>i<r. cs ! i < k) \<and> (\<forall>i. r \<le> i \<and> i < length cs \<longrightarrow> k \<le> cs ! i)"
  unfolding r_def using assms(1-5)
proof (induction cs k low high rule: search_offset.induct)
  case (1 cs k low high)
  show ?case
  proof (cases "low < high")
    case False
    then have "search_offset cs k low high = low" by (subst search_offset.simps) simp
    moreover have "low = high" using False "1.prems"(2) by simp
    ultimately show ?thesis using "1.prems"(4,5) by simp
  next
    case True
    let ?mid = "(low + high) div 2"
    have mid: "low \<le> ?mid" "?mid < high" "?mid < length cs" using True "1.prems"(3) by auto
    show ?thesis
    proof (cases "cs ! ?mid < k")
      case less: True
      have "cs ! i \<le> cs ! ?mid" if "i \<le> ?mid" for i
        using "1.prems"(1) that mid(3) by (simp add: sorted_nth_mono)
      then have "\<forall>i<?mid + 1. cs ! i < k" using less by (auto simp: less_Suc_eq_le intro: le_less_trans)
      then have "?mid + 1 \<le> search_offset cs k (?mid + 1) high \<and> search_offset cs k (?mid + 1) high \<le> high \<and>
          (\<forall>i<search_offset cs k (?mid + 1) high. cs ! i < k) \<and>
          (\<forall>i. search_offset cs k (?mid + 1) high \<le> i \<and> i < length cs \<longrightarrow> k \<le> cs ! i)"
        using "1.IH"(1) [OF True refl] mid less "1.prems" by simp
      moreover have "search_offset cs k low high = search_offset cs k (?mid + 1) high"
        using True mid(3) less by (subst search_offset.simps) (simp add: Let_def)
      ultimately show ?thesis using mid(1) by simp
    next
      case more: False
      have "k \<le> cs ! i" if "?mid \<le> i" "i < length cs" for i
        using sorted_nth_mono [OF "1.prems"(1) that] more by simp
      then have above: "\<forall>i. ?mid \<le> i \<and> i < length cs \<longrightarrow> k \<le> cs ! i" by blast
      have "\<not> (?mid < length cs \<and> cs ! ?mid < k)" using more by blast
      note IH = "1.IH"(2) [OF True refl this "1.prems"(1) mid(1) less_imp_le [OF mid(3)] "1.prems"(4) above]
      have "low \<le> search_offset cs k low ?mid \<and> search_offset cs k low ?mid \<le> ?mid \<and>
          (\<forall>i<search_offset cs k low ?mid. cs ! i < k) \<and>
          (\<forall>i. search_offset cs k low ?mid \<le> i \<and> i < length cs \<longrightarrow> k \<le> cs ! i)"
        by (rule IH)
      moreover have "search_offset cs k low high = search_offset cs k low ?mid"
        using True more by (subst search_offset.simps) (simp add: Let_def)
      ultimately show ?thesis using mid(2) by simp
    qed
  qed
qed

lemma original_offset_count:
  assumes "sorted cs"
  shows "original_offset cs k = k + length (filter (\<lambda>c. c < k) cs)"
proof -
  let ?r = "search_offset cs k 0 (length cs)"
  have r: "?r \<le> length cs" "\<forall>i<?r. cs ! i < k" "\<forall>i. ?r \<le> i \<and> i < length cs \<longrightarrow> k \<le> cs ! i"
    using search_offset_splits [OF assms, of 0 "length cs" k] by simp_all
  have "filter (\<lambda>c. c < k) (take ?r cs) = take ?r cs"
    using r(1,2) by (auto simp: filter_id_conv in_set_conv_nth)
  moreover have "filter (\<lambda>c. c < k) (drop ?r cs) = []"
    using r(1,3) by (auto simp: filter_empty_conv in_set_conv_nth not_less)
  ultimately have "filter (\<lambda>c. c < k) (take ?r cs @ drop ?r cs) = take ?r cs" by (simp only: filter_append append_Nil2)
  then show ?thesis using r(1) by (simp add: original_offset_def)
qed

lemma collapsed_bounds: "c \<in> set (collapsed_at k s) \<Longrightarrow> k \<le> c"
  by (induction k s rule: collapsed_at.induct) (fastforce split: if_splits)+

lemma collapsed_sorted: "sorted (collapsed_at k s)"
proof (induction k s rule: collapsed_at.induct)
  case (3 k c d r)
  then show ?case by (auto dest: collapsed_bounds)
qed simp_all

text \<open>The prefix of the original text that a normalized offset stands for.\<close>

lemma offset_prefix:
  fixes k m :: nat
  assumes "m \<le> length (lf_text s)"
  defines "q \<equiv> m + length (filter (\<lambda>c. c < k + m) (collapsed_at k s))"
  shows "lf_text (take q s) = take m (lf_text s) \<and> q \<le> length s \<and> lf_text (drop q s) = drop m (lf_text s)"
  unfolding q_def using assms(1)
proof (induction s arbitrary: k m rule: lf_text.induct)
  case (2 c)
  then show ?case by (cases m) auto
next
  case (3 c d r)
  show ?case
  proof (cases m)
    case 0
    have none: "filter (\<lambda>x. x < k) (collapsed_at k (c # d # r)) = []"
      using collapsed_bounds [of _ k "c # d # r"] by (fastforce simp: filter_empty_conv)
    show ?thesis unfolding 0 add_0_right none by simp
  next
    case (Suc j)
    show ?thesis
    proof (cases "c = carriage_return \<and> d = newline_char")
      case True
      with "3.IH"(1) [OF True, of j "Suc k"] "3.prems" Suc show ?thesis by simp
    next
      case False
      let ?q = "j + length (filter (\<lambda>c. c < Suc k + j) (collapsed_at (Suc k) (d # r)))"
      have IH: "lf_text (take ?q (d # r)) = take j (lf_text (d # r)) \<and> ?q \<le> length (d # r) \<and>
          lf_text (drop ?q (d # r)) = drop j (lf_text (d # r))"
        using "3.IH"(2) [OF False, of j "Suc k"] "3.prems" Suc False by simp
      have q: "m + length (filter (\<lambda>x. x < k + m) (collapsed_at k (c # d # r))) = Suc ?q" using Suc False by auto
      have step: "lf_text (c # take ?q (d # r)) = c # lf_text (take ?q (d # r))" using False by (cases ?q) auto
      show ?thesis
        unfolding q using IH step Suc False by (simp del: lf_text.simps(3)) simp
    qed
  qed
qed simp

lemma original_offset_prefix:
  assumes "m \<le> length (lf_text s)"
  shows "lf_text (take (original_offset (collapsed_at 0 s) m) s) = take m (lf_text s)"
    "original_offset (collapsed_at 0 s) m \<le> length s"
    "lf_text (drop (original_offset (collapsed_at 0 s) m) s) = drop m (lf_text s)"
  using offset_prefix [OF assms, of 0] original_offset_count [OF collapsed_sorted, of 0 s m] by simp_all

lemma original_offset_mono:
  assumes "m \<le> n"
  shows "original_offset (collapsed_at 0 s) m \<le> original_offset (collapsed_at 0 s) n"
proof -
  have "length (filter (\<lambda>c. c < m) cs) \<le> length (filter (\<lambda>c. c < n) cs)" for cs
    using assms by (induction cs) auto
  then show ?thesis using assms by (simp add: original_offset_count collapsed_sorted add_mono)
qed

lemma original_offset_zero: "original_offset (collapsed_at 0 s) 0 = 0"
  by (simp add: original_offset_count collapsed_sorted)

subsection \<open>Texts without a lone carriage return\<close>

definition paired :: "string \<Rightarrow> bool" where
  "paired s \<longleftrightarrow> carriage_return \<notin> set (lf_text s)"

lemma lf_text_append: "paired a \<Longrightarrow> lf_text (a @ b) = lf_text a @ lf_text b"
  unfolding paired_def
proof (induction a rule: lf_text.induct)
  case (2 c)
  then show ?case by (cases b) auto
next
  case (3 c d r)
  then show ?case by (auto split: if_splits)
qed simp

lemma paired_append: "paired a \<Longrightarrow> paired (a @ b) \<longleftrightarrow> paired b"
  by (auto simp: paired_def lf_text_append [unfolded paired_def])

lemma lf_text_free: "carriage_return \<notin> set s \<Longrightarrow> lf_text s = s"
  by (induction s rule: lf_text.induct) auto

lemma paired_free: "carriage_return \<notin> set s \<Longrightarrow> paired s"
  by (simp add: paired_def lf_text_free)

lemma lf_text_ending: "e = crlf \<or> e = newline \<Longrightarrow> lf_text e = newline \<and> paired e"
  by (auto simp: crlf_def newline_def paired_def)

subsection \<open>Replaced regions\<close>

definition is_ending :: "string \<Rightarrow> bool" where
  "is_ending e \<longleftrightarrow> e = crlf \<or> e = newline"

lemma endings_from_endings: "e \<in> set (endings_from b s) \<Longrightarrow> is_ending e"
  by (induction b s rule: endings_from.induct) (auto simp: is_ending_def split: if_splits)

lemma majority_ending: "is_ending (majority_line_ending s)"
  by (simp add: majority_line_ending_def is_ending_def Let_def)

lemma line_ending_ending:
  assumes "\<forall>e\<in>set (ch_endings ch). is_ending e" and "is_ending (ch_majority ch)"
  shows "is_ending (line_ending i ch)"
  using assms by (simp add: line_ending_def ending_or_def Let_def)

lemma join_lines_parts: "ps \<noteq> [] \<Longrightarrow> join_lines ps = concat (map (\<lambda>l. l @ newline) (butlast ps)) @ last ps"
proof (induction ps)
  case (Cons p ps)
  then show ?case by (cases "ps = []") (simp_all add: join_lines_def join_Cons)
qed simp

lemma lines_with_endings:
  assumes "\<forall>i\<in>set is. carriage_return \<notin> set (f i) \<and> is_ending (e i)"
  shows "lf_text (concat (map (\<lambda>i. f i @ e i) is)) = concat (map (\<lambda>i. f i @ newline) is) \<and>
    paired (concat (map (\<lambda>i. f i @ e i) is))"
  using assms
proof (induction "is")
  case Nil
  show ?case by (simp add: paired_def)
next
  case (Cons i "is")
  then have f: "paired (f i)" "lf_text (f i) = f i" and e: "lf_text (e i) = newline" "paired (e i)"
    using paired_free lf_text_free lf_text_ending by (auto simp: is_ending_def)
  with Cons show ?case by (simp add: lf_text_append paired_append)
qed

lemma with_region_endings_lf:
  assumes "carriage_return \<notin> set replacement" and "is_ending majority"
  shows "lf_text (with_region_endings region replacement majority) = replacement \<and>
    paired (with_region_endings region replacement majority)"
proof (cases "length (split_lines replacement) = 1")
  case True
  then show ?thesis using lf_text_free [OF assms(1)] paired_free [OF assms(1)]
    by (simp add: with_region_endings_def)
next
  case False
  let ?parts = "split_lines replacement"
  let ?lns = "butlast ?parts"
  have sub: "set l \<subseteq> set replacement" if "l \<in> set ?parts" for l
  proof -
    have "set replacement = set (concat (map (\<lambda>l. l @ newline) (butlast ?parts)) @ last ?parts)"
      using join_lines_parts [of ?parts] by simp
    moreover have "l \<in> set (butlast ?parts) \<or> l = last ?parts"
      using that by (metis append_butlast_last_id split_lines_not_Nil rotate1.simps(2) set_ConsD set_rotate1)
    ultimately show ?thesis by auto
  qed
  obtain ch where ch: "with_region_endings region replacement majority =
      concat (map (\<lambda>i. ?lns ! i @ line_ending i ch) [0..<length ?lns]) @ last ?parts"
    and ends: "ch_endings ch = line_endings_of region" "ch_majority ch = majority"
    using False unfolding with_region_endings_def Let_def by (auto intro: that)
  have e: "is_ending (line_ending i ch)" for i
    using ends assms(2) by (intro line_ending_ending) (auto simp: line_endings_of_def intro: endings_from_endings)
  have "carriage_return \<notin> set (?lns ! i)" if "i < length ?lns" for i
    using sub [OF in_set_butlastD [OF nth_mem [OF that]]] assms(1) by blast
  with e have front: "lf_text (concat (map (\<lambda>i. ?lns ! i @ line_ending i ch) [0..<length ?lns])) =
        concat (map (\<lambda>i. ?lns ! i @ newline) [0..<length ?lns]) \<and>
      paired (concat (map (\<lambda>i. ?lns ! i @ line_ending i ch) [0..<length ?lns]))"
    by (intro lines_with_endings) simp
  have same: "map (\<lambda>i. ?lns ! i @ newline) [0..<length ?lns] = map (\<lambda>l. l @ newline) ?lns"
    by (rule nth_equalityI) simp_all
  have tail: "lf_text (last ?parts) = last ?parts" "paired (last ?parts)"
    using sub [of "last ?parts"] assms(1) by (auto intro: lf_text_free paired_free)
  have whole: "concat (map (\<lambda>l. l @ newline) ?lns) @ last ?parts = replacement"
    using join_lines_parts [of ?parts] by simp
  show ?thesis
    unfolding ch lf_text_append [OF conjunct2 [OF front]] paired_append [OF conjunct2 [OF front]] conjunct1 [OF front]
      same tail(1) whole using tail(2) by blast
qed

subsection \<open>Replacing all occurrences\<close>

text \<open>The reference: every occurrence in turn, from the left, none overlapping the one before.\<close>

function replace_occurrences :: "string \<Rightarrow> string \<Rightarrow> string \<Rightarrow> string" where
  "replace_occurrences needle new s =
     (if needle = [] then s
      else case index_of needle s of
        None \<Rightarrow> s
      | Some i \<Rightarrow> take i s @ new @ replace_occurrences needle new (drop (i + length needle) s))"
  by pat_completeness auto
termination
  by (relation "measure (\<lambda>(needle, new, s). length s)") (auto dest: index_of_shrinks)

declare replace_occurrences.simps [simp del]

lemma slice_lf:
  assumes "paired s" and "m \<le> n" "n \<le> length (lf_text s)"
  shows "lf_text (slice s (original_offset (collapsed_at 0 s) m) (original_offset (collapsed_at 0 s) n)) = drop m (take n (lf_text s))"
    "paired (slice s (original_offset (collapsed_at 0 s) m) (original_offset (collapsed_at 0 s) n))"
proof -
  let ?o = "original_offset (collapsed_at 0 s)"
  have m: "m \<le> length (lf_text s)" using assms(2,3) by simp
  have pair: "paired (take (?o k) s)" if "k \<le> length (lf_text s)" for k
    using original_offset_prefix(1) [OF that] assms(1) by (auto simp: paired_def dest: in_set_takeD)
  have "?o n = ?o m + (?o n - ?o m)" using original_offset_mono [OF assms(2), of s] by simp
  then have split: "take (?o n) s = take (?o m) s @ slice s (?o m) (?o n)"
    unfolding slice_def by (metis take_add)
  have "take n (lf_text s) = take m (lf_text s) @ lf_text (slice s (?o m) (?o n))"
    using arg_cong [OF split, of lf_text]
    by (simp add: lf_text_append [OF pair [OF m]] original_offset_prefix(1) [OF m] original_offset_prefix(1) [OF assms(3)])
  moreover have "length (take m (lf_text s)) = m" using m by simp
  ultimately show "lf_text (slice s (?o m) (?o n)) = drop m (take n (lf_text s))"
    by (metis append_eq_conv_conj)
  show "paired (slice s (?o m) (?o n))"
    using pair [OF assms(3)] paired_append [OF pair [OF m]] split by metis
qed

lemma splice_replaces:
  fixes needle t :: string
  assumes "paired content" and "carriage_return \<notin> set new" and "is_ending majority"
    and "m \<le> length (lf_text content)" and "paired out"
  defines "cs \<equiv> collapsed_at 0 content"
  defines "st \<equiv> foldl (splice_step content \<lparr> norm_text = t, norm_collapsed = cs \<rparr> needle new majority)
    (out, original_offset cs m) (occurrences_from needle m (drop m (lf_text content)))"
  shows "paired (fst st @ drop (snd st) content) \<and>
    lf_text (fst st @ drop (snd st) content) = lf_text out @ replace_occurrences needle new (drop m (lf_text content))"
  unfolding st_def using assms(4,5)
proof (induction needle m "drop m (lf_text content)" arbitrary: out rule: occurrences_from.induct)
  case (1 needle m)
  let ?N = "lf_text content" and ?o = "original_offset cs"
  have tail: "paired (out @ drop (?o m) content) \<and> lf_text (out @ drop (?o m) content) = lf_text out @ drop m ?N"
    using original_offset_prefix(3) [OF "1.prems"(1)] "1.prems"(2) assms(1)
    by (auto simp: cs_def lf_text_append paired_append paired_def dest: in_set_dropD)
  show ?case
  proof (cases "needle = []")
    case True
    with tail show ?thesis by (simp add: occurrences_from.simps [of "[]"] replace_occurrences.simps [of "[]"])
  next
    case False
    show ?thesis
    proof (cases "index_of needle (drop m ?N)")
      case None
      with tail show ?thesis
        by (simp add: occurrences_from.simps [of needle] replace_occurrences.simps [of needle])
    next
      case (Some i)
      let ?n = "m + i + length needle"
      have n: "?n \<le> length ?N" using index_of_bound [OF Some] "1.prems"(1) by simp
      let ?gap = "slice content (?o m) (?o (m + i))"
      let ?new = "with_region_endings (slice content (?o (m + i)) (?o ?n)) new majority"
      let ?out = "out @ ?gap @ ?new"
      have gap: "lf_text ?gap = take i (drop m ?N)" "paired ?gap"
        using slice_lf [OF assms(1), of m "m + i"] n by (simp_all add: cs_def drop_take)
      have new: "lf_text ?new = new" "paired ?new" using with_region_endings_lf [OF assms(2,3)] by blast+
      have out: "paired ?out" "lf_text ?out = lf_text out @ take i (drop m ?N) @ new"
        using "1.prems"(2) gap new by (simp_all add: paired_append lf_text_append)
      have rest: "drop (i + length needle) (drop m ?N) = drop ?n ?N" by (simp add: ac_simps)
      have occ: "occurrences_from needle m (drop m ?N) = (m + i) # occurrences_from needle ?n (drop ?n ?N)"
        unfolding occurrences_from.simps [of needle m] using False Some rest by simp
      have rep: "replace_occurrences needle new (drop m ?N) = take i (drop m ?N) @ new @ replace_occurrences needle new (drop ?n ?N)"
        unfolding replace_occurrences.simps [of needle new "drop m ?N"] using False Some rest by simp
      have step: "splice_step content \<lparr> norm_text = t, norm_collapsed = cs \<rparr> needle new majority (out, ?o m) (m + i) = (?out, ?o ?n)"
        by (simp add: splice_step_def Let_def)
      have "occurrences_from needle ?n (drop (i + length needle) (drop m ?N)) = occurrences_from needle ?n (drop ?n ?N)"
        by (simp only: rest)
      with "1.hyps" [OF False Some rest n out(1)] show ?thesis
        unfolding occ rep foldl.simps step out(2) by simp
    qed
  qed
qed

end
