(* ===== verification/Replacement_Lines.thy ===== *)
theory Replacement_Lines
  imports Replacement_Endings
begin

text \<open>
  The lines a replacement leaves unchanged: a text is its lines with their endings, and the choice of
  endings gives every line of the common leading and trailing runs its own ending back.
\<close>

subsection \<open>Lines and endings\<close>

definition full_lines :: "string \<Rightarrow> string list" where
  "full_lines s = butlast (split_lines s)"

definition open_line :: "string \<Rightarrow> string" where
  "open_line s = last (split_lines s)"

lemma split_lines_simps [simp]:
  "split_lines [] = [[]]" "split_lines (newline_char # s) = [] # split_lines s"
  by (simp_all add: split_lines_def)

lemma lines_Cons:
  "full_lines (newline_char # s) = [] # full_lines s" "open_line (newline_char # s) = open_line s"
  "full_lines [] = []" "open_line [] = []"
  by (simp_all add: full_lines_def open_line_def)

lemma lines_other:
  assumes "c \<noteq> newline_char"
  shows "full_lines (c # s) = (case full_lines s of [] \<Rightarrow> [] | l # ls \<Rightarrow> (c # l) # ls)"
    "open_line (c # s) = (if full_lines s = [] then c # open_line s else open_line s)"
  using assms
  by (cases "split_lines s"; cases "tl (split_lines s)"; auto simp: full_lines_def open_line_def split_lines_def)+

definition with_endings :: "string list \<Rightarrow> string list \<Rightarrow> string" where
  "with_endings ls es = concat (map2 (@) ls es)"

lemma with_endings_append:
  "length ls = length es \<Longrightarrow> with_endings (ls @ ls') (es @ es') = with_endings ls es @ with_endings ls' es'"
  by (simp add: with_endings_def)

lemma endings_after: "s = [] \<or> hd s \<noteq> newline_char \<Longrightarrow> endings_from b s = endings_from False s"
  by (cases s) auto

lemma text_is_lines:
  "length (full_lines (lf_text s)) = length (line_endings_of s) \<and>
   s = with_endings (full_lines (lf_text s)) (line_endings_of s) @ open_line (lf_text s)"
proof (induction s rule: lf_text.induct)
  case 1
  then show ?case by (simp add: lines_Cons line_endings_of_def with_endings_def)
next
  case (2 c)
  then show ?case
    by (cases "c = newline_char") (simp_all add: lines_Cons lines_other line_endings_of_def with_endings_def newline_def)
next
  case (3 c d r)
  show ?case
  proof (cases "c = carriage_return \<and> d = newline_char")
    case True
    with "3.IH"(1) [OF True] show ?thesis
      by (simp add: lines_Cons line_endings_of_def with_endings_def crlf_def)
  next
    case False
    note IH = "3.IH"(2) [OF False]
    show ?thesis
    proof (cases "c = newline_char")
      case True
      then have lf: "lf_text (c # d # r) = newline_char # lf_text (d # r)" by simp
      have ends: "line_endings_of (c # d # r) = newline # line_endings_of (d # r)"
        using True by (simp add: line_endings_of_def)
      have "c # d # r = newline @ d # r" using True by (simp add: newline_def)
      with IH show ?thesis unfolding lf ends lines_Cons with_endings_def by simp
    next
      case other: False
      let ?t = "lf_text (d # r)"
      have lf: "lf_text (c # d # r) = c # ?t" using False by simp
      have "endings_from (c = carriage_return) (d # r) = endings_from False (d # r)"
        using False by (cases "c = carriage_return") (auto intro: endings_after)
      then have ends: "line_endings_of (c # d # r) = line_endings_of (d # r)"
        using other by (simp add: line_endings_of_def)
      show ?thesis
      proof (cases "full_lines ?t")
        case Nil
        with IH show ?thesis unfolding lf ends lines_other [OF other] by (simp add: with_endings_def)
      next
        case (Cons l ls)
        with IH obtain e es where es: "line_endings_of (d # r) = e # es" by (cases "line_endings_of (d # r)") auto
        from IH Cons es have "d # r = l @ e @ with_endings ls es @ open_line ?t" "length ls = length es"
          by (simp_all add: with_endings_def)
        then show ?thesis unfolding lf ends lines_other [OF other] Cons es by (simp add: with_endings_def)
      qed
    qed
  qed
qed

definition whole_lines :: "string \<Rightarrow> bool" where
  "whole_lines s \<longleftrightarrow> s = [] \<or> last s = newline_char"

lemma lines_append:
  assumes "whole_lines p"
  shows "full_lines (p @ s) = full_lines p @ full_lines s" "open_line (p @ s) = open_line s"
proof -
  have "split_lines (p @ s) = butlast (split_lines p) @ split_lines s"
    using assms
  proof (induction p)
    case (Cons c p)
    then have p: "p \<noteq> [] \<Longrightarrow> whole_lines p" "p = [] \<Longrightarrow> c = newline_char" by (auto simp: whole_lines_def split: if_splits)
    show ?case
    proof (cases "p = []")
      case True
      with p show ?thesis by (simp add: split_lines_def)
    next
      case False
      with Cons.IH p have IH: "split_lines (p @ s) = butlast (split_lines p) @ split_lines s" by simp
      show ?thesis
      proof (cases "c = newline_char")
        case True
        with IH show ?thesis by simp
      next
        case other: False
        have "newline_char \<in> set p" using p(1) [OF False] False last_in_set [of p] by (simp add: whole_lines_def)
        then obtain l m ls where "split_lines p = l # m # ls"
          by (metis False join_split_lines join_lines_def join.simps(2) list.exhaust split_lines_free
              split_lines_not_Nil list.set_intros(1))
        with IH other show ?thesis by (auto simp: split_lines_def)
      qed
    qed
  qed simp
  then show "full_lines (p @ s) = full_lines p @ full_lines s" "open_line (p @ s) = open_line s"
    by (simp_all add: full_lines_def open_line_def butlast_append)
qed

lemma open_whole: "whole_lines p \<Longrightarrow> open_line p = []"
  using lines_append(2) [of p "[]"] by (simp add: lines_Cons)

lemma whole_text: "whole_lines p \<Longrightarrow> concat (map (\<lambda>l. l @ newline) (full_lines p)) = p"
  using join_lines_parts [of "split_lines p"] open_whole [of p] by (simp add: full_lines_def open_line_def)

lemma lf_text_last: "a = [] \<or> last a \<noteq> carriage_return \<Longrightarrow> lf_text (a @ b) = lf_text a @ lf_text b"
proof (induction a rule: lf_text.induct)
  case (2 c)
  then show ?case by (cases b) auto
next
  case (3 c d r)
  then show ?case by (auto split: if_splits)
qed simp

lemma whole_lines_lf:
  assumes "whole_lines p"
  shows "lf_text (p @ s) = lf_text p @ lf_text s" "whole_lines (lf_text p)"
    "line_endings_of (p @ s) = line_endings_of p @ line_endings_of s"
proof -
  show "lf_text (p @ s) = lf_text p @ lf_text s" using assms by (intro lf_text_last) (auto simp: whole_lines_def)
  have nonempty: "c \<noteq> [] \<Longrightarrow> lf_text c \<noteq> []" for c by (induction c rule: lf_text.induct) auto
  have "whole_lines p \<Longrightarrow> p \<noteq> [] \<Longrightarrow> last (lf_text p) = newline_char"
  proof (induction p rule: lf_text.induct)
    case (3 c d r)
    then show ?case using nonempty [of r] nonempty [of "d # r"] by (auto simp: whole_lines_def split: if_splits)
  qed (auto simp: whole_lines_def)
  with assms show "whole_lines (lf_text p)" by (cases "p = []") (auto simp: whole_lines_def)
  have "endings_from b (p @ s) = endings_from b p @ endings_from (if p = [] then b else False) s" for b
    using assms
  proof (induction p arbitrary: b)
    case (Cons c p)
    have "p \<noteq> [] \<Longrightarrow> whole_lines p" "p = [] \<Longrightarrow> c = newline_char"
      using Cons.prems by (auto simp: whole_lines_def split: if_splits)
    with Cons.IH show ?case by (cases "p = []") auto
  qed simp
  then show "line_endings_of (p @ s) = line_endings_of p @ line_endings_of s"
    by (simp add: line_endings_of_def)
qed

subsection \<open>Common runs\<close>

lemma common_run_reaches:
  assumes "\<forall>i<n. a ! pick i (length a) = b ! pick i (length b)" and "n \<le> length a" "n \<le> length b"
  shows "n \<le> common_line_run a b pick 0"
proof -
  have "run \<le> n \<Longrightarrow> n \<le> common_line_run a b pick run" for run
  proof (induction "n - run" arbitrary: run)
    case 0
    have "run \<le> common_line_run a b pick run"
      by (induction a b pick run rule: common_line_run.induct) (subst common_line_run.simps, auto)
    with 0 show ?case by simp
  next
    case (Suc k)
    then have "run < n" by simp
    with assms have "common_line_run a b pick run = common_line_run a b pick (run + 1)"
      by (subst common_line_run.simps) auto
    with Suc.hyps(1) [of "run + 1"] Suc.hyps(2) \<open>run < n\<close> show ?case by simp
  qed
  then show ?thesis by simp
qed

lemma common_run_stops:
  assumes "n = length a \<or> n = length b \<or> a ! pick n (length a) \<noteq> b ! pick n (length b)"
  shows "run \<le> n \<Longrightarrow> common_line_run a b pick run \<le> n"
proof (induction "n - run" arbitrary: run)
  case 0
  with assms show ?case by (subst common_line_run.simps) auto
next
  case (Suc k)
  then have "common_line_run a b pick (run + 1) \<le> n" by simp
  with Suc.prems show ?case by (subst common_line_run.simps) auto
qed

lemma common_run_le: "common_line_run a b pick 0 \<le> length a" "common_line_run a b pick 0 \<le> length b"
  using common_run_stops [of "length a" a b pick 0] common_run_stops [of "length b" a b pick 0] by simp_all

subsection \<open>Unchanged lines\<close>

definition first_line :: "string \<Rightarrow> string" where
  "first_line s = takeWhile (\<lambda>c. c \<noteq> newline_char) s"

lemma first_full_line: "full_lines s = l # ls \<Longrightarrow> first_line s = l"
proof (induction s arbitrary: l ls)
  case (Cons c s)
  then show ?case
    by (cases "c = newline_char") (auto simp: lines_Cons lines_other first_line_def split: list.splits)
qed (simp add: lines_Cons)

lemma with_region_endings_lines:
  defines "lns r \<equiv> full_lines r"
  defines "lead region r \<equiv> common_line_run (full_lines r) (full_lines (lf_text region)) (\<lambda>i n. i) 0"
  shows "with_region_endings region r majority = concat (map (\<lambda>i. lns r ! i @ line_ending i
      \<lparr> ch_lines = lns r, ch_region_lines = full_lines (lf_text region), ch_endings = line_endings_of region,
        ch_lead = lead region r,
        ch_trail = common_line_run (drop (lead region r) (lns r)) (drop (lead region r) (full_lines (lf_text region)))
          (\<lambda>i n. n - 1 - i) 0,
        ch_majority = majority \<rparr>) [0..<length (lns r)]) @ open_line r"
proof (cases "length (split_lines r) = 1")
  case True
  then obtain l where "split_lines r = [l]" by (cases "split_lines r") auto
  moreover from this have "r = l" using join_split_lines [of r] by (simp add: join_lines_def)
  ultimately show ?thesis by (simp add: with_region_endings_def lns_def full_lines_def open_line_def)
next
  case False
  then show ?thesis
    unfolding with_region_endings_def lns_def lead_def Let_def full_lines_def open_line_def by simp
qed

lemma concat_map_endings:
  assumes "length ls = length es" and "\<And>i. i < length ls \<Longrightarrow> g (k + i) = ls ! i @ es ! i"
  shows "concat (map g [k..<k + length ls]) = with_endings ls es"
proof -
  have "map g [k..<k + length ls] = map2 (@) ls es"
    by (rule nth_equalityI) (use assms in auto)
  then show ?thesis by (simp add: with_endings_def)
qed

lemma upt_three: "[0..<a + b + c] = [0..<a] @ [a..<a + b] @ [a + b..<a + b + c]" for a b c :: nat
proof -
  have "[0..<a + b + c] = [0..<a + b] @ [a + b..<a + b + c]" by (rule upt_add_eq_append) simp
  moreover have "[0..<a + b] = [0..<a] @ [a..<a + b]" by (rule upt_add_eq_append) simp
  ultimately show ?thesis by simp
qed

lemma common_lines_kept:
  assumes "whole_lines p" "whole_lines x" and "whole_lines y" "carriage_return \<notin> set y" and "is_ending majority"
    and "x @ s = [] \<or> y @ s = [] \<or> first_line (lf_text (x @ s)) \<noteq> first_line (y @ lf_text s)"
  shows "\<exists>m. with_region_endings (p @ x @ s) (lf_text p @ y @ lf_text s) majority = p @ m @ s \<and> lf_text m = y"
proof -
  let ?region = "p @ x @ s" and ?r = "lf_text p @ y @ lf_text s"
  let ?P = "full_lines (lf_text p)" and ?X = "full_lines (lf_text x)" and ?Y = "full_lines y" and ?S = "full_lines (lf_text s)"
  let ?Pe = "line_endings_of p" and ?Xe = "line_endings_of x" and ?Se = "line_endings_of s"
  note lfp = whole_lines_lf [OF assms(1)] and lfx = whole_lines_lf [OF assms(2)]
  note len = conjunct1 [OF text_is_lines]
  have new: "full_lines ?r = ?P @ ?Y @ ?S" "open_line ?r = open_line (lf_text s)"
    by (simp_all add: lines_append [OF lfp(2)] lines_append [OF assms(3)])
  have old: "full_lines (lf_text ?region) = ?P @ ?X @ ?S"
    by (simp add: lfp(1) lfx(1) lines_append [OF lfp(2)] lines_append [OF lfx(2)])
  have ends: "line_endings_of ?region = ?Pe @ ?Xe @ ?Se" by (simp add: lfp(3) lfx(3))
  let ?lead = "common_line_run (?P @ ?Y @ ?S) (?P @ ?X @ ?S) (\<lambda>i n. i) 0"
  have differ: "?X @ ?S = [] \<or> ?Y @ ?S = [] \<or> hd (?X @ ?S) \<noteq> hd (?Y @ ?S)"
  proof (rule ccontr)
    assume eq: "\<not> ?thesis"
    have "full_lines (lf_text (x @ s)) = ?X @ ?S" "full_lines (y @ lf_text s) = ?Y @ ?S"
      by (simp_all add: lfx(1) lines_append [OF lfx(2)] lines_append [OF assms(3)])
    moreover from eq have "?X @ ?S \<noteq> []" "?Y @ ?S \<noteq> []" "hd (?X @ ?S) = hd (?Y @ ?S)" by blast+
    ultimately have "first_line (lf_text (x @ s)) = first_line (y @ lf_text s)"
      using first_full_line [of _ "hd (?X @ ?S)" "tl (?X @ ?S)"] first_full_line [of _ "hd (?Y @ ?S)" "tl (?Y @ ?S)"]
      by (metis list.collapse)
    moreover have "x @ s \<noteq> []" "y @ s \<noteq> []" using eq by (auto simp: lines_Cons)
    ultimately show False using assms(6) by blast
  qed
  have lead: "?lead = length ?P"
  proof (rule antisym)
    have "length ?P = length (?P @ ?Y @ ?S) \<or> length ?P = length (?P @ ?X @ ?S) \<or>
        (?P @ ?Y @ ?S) ! length ?P \<noteq> (?P @ ?X @ ?S) ! length ?P"
      using differ by (cases "?X @ ?S"; cases "?Y @ ?S") (auto simp: nth_append)
    then show "?lead \<le> length ?P" by (intro common_run_stops) auto
    show "length ?P \<le> ?lead" by (rule common_run_reaches) (auto simp: nth_append)
  qed
  let ?trail = "common_line_run (?Y @ ?S) (?X @ ?S) (\<lambda>i n. n - 1 - i) 0"
  have trail: "length ?S \<le> ?trail"
    by (rule common_run_reaches) (auto simp: nth_append)
  define ch where "ch = \<lparr> ch_lines = ?P @ ?Y @ ?S, ch_region_lines = ?P @ ?X @ ?S, ch_endings = ?Pe @ ?Xe @ ?Se,
      ch_lead = length ?P, ch_trail = ?trail, ch_majority = majority \<rparr>"
  let ?g = "\<lambda>i. (?P @ ?Y @ ?S) ! i @ line_ending i ch"
  have whole: "with_region_endings ?region ?r majority =
      concat (map ?g [0..<length (?P @ ?Y @ ?S)]) @ open_line (lf_text s)"
    unfolding with_region_endings_lines new old ends lead ch_def by simp
  have split: "[0..<length (?P @ ?Y @ ?S)] = [0..<length ?P] @ [length ?P..<length ?P + length ?Y] @
      [length ?P + length ?Y..<length ?P + length ?Y + length ?S]"
    by (simp only: length_append add.assoc [symmetric] upt_three)
  have front: "concat (map ?g [0..<0 + length ?P]) = with_endings ?P ?Pe"
    by (rule concat_map_endings) (use len [of p] in \<open>auto simp: nth_append line_ending_def ending_or_def ch_def\<close>)
  have rear: "concat (map ?g [length ?P + length ?Y..<(length ?P + length ?Y) + length ?S]) = with_endings ?S ?Se"
  proof (rule concat_map_endings)
    fix i assume i: "i < length ?S"
    have "length (ch_lines ch) - 1 - (length ?P + length ?Y + i) = length ?S - 1 - i"
      "length (ch_region_lines ch) - 1 - (length ?S - 1 - i) = length ?P + length ?X + i"
      using i by (simp_all add: ch_def)
    moreover have "length ?S - 1 - i < ?trail" using i trail by linarith
    ultimately have "line_ending (length ?P + length ?Y + i) ch = ?Se ! i"
      using i len [of p] len [of x] len [of s]
      by (simp add: line_ending_def ending_or_def ch_def nth_append Let_def)
    then show "?g (length ?P + length ?Y + i) = ?S ! i @ ?Se ! i" by (simp add: nth_append)
  qed (use len [of s] in simp)
  let ?m = "concat (map ?g [length ?P..<length ?P + length ?Y])"
  have "with_endings ?P ?Pe @ open_line (lf_text p) = p" "with_endings ?S ?Se @ open_line (lf_text s) = s"
    by (rule conjunct2 [OF text_is_lines, symmetric])+
  moreover have "open_line (lf_text p) = []" by (rule open_whole [OF lfp(2)])
  ultimately have "with_region_endings ?region ?r majority = p @ ?m @ s"
    using front rear unfolding whole split by simp
  moreover have "lf_text ?m = y"
  proof -
    have free: "carriage_return \<notin> set l" if "l \<in> set ?Y" for l
    proof -
      have "set l \<subseteq> set (concat (map (\<lambda>l. l @ newline) ?Y))" using that by auto
      then show ?thesis using assms(4) unfolding whole_text [OF assms(3)] by blast
    qed
    have is_end: "is_ending (line_ending i ch)" for i
      by (rule line_ending_ending)
        (use assms(5) in \<open>auto simp: ch_def line_endings_of_def intro: endings_from_endings\<close>)
    have "lf_text ?m = concat (map (\<lambda>i. (?P @ ?Y @ ?S) ! i @ newline) [length ?P..<length ?P + length ?Y])"
      by (rule conjunct1 [OF lines_with_endings]) (use free is_end in \<open>auto simp: nth_append\<close>)
    also have "map (\<lambda>i. (?P @ ?Y @ ?S) ! i @ newline) [length ?P..<length ?P + length ?Y] = map (\<lambda>l. l @ newline) ?Y"
      by (rule nth_equalityI) (auto simp: nth_append)
    finally show ?thesis by (simp add: whole_text [OF assms(3)])
  qed
  ultimately show ?thesis by blast
qed

end
