(* ===== verification/Replacement_Properties.thy ===== *)
theory Replacement_Properties
  imports Replacement_Plan Replacement_Lines
begin

text \<open>
  The properties of replacement edits. A materialized changeset is inside the limits of one call, names
  every touched path once, and is applied by the patch engine to exactly the planned texts. A
  replacement is the plain one once line endings are read as line feeds, and the lines it leaves
  unchanged keep their own endings.
\<close>

subsection \<open>Changed lines\<close>

lemma changed_lines_terminated:
  "newline_free ls \<Longrightarrow> changed_lines_from k (terminated ls) = length (filter is_changed_line (drop (2 - k) ls))"
proof (induction ls arbitrary: k)
  case Nil
  then show ?case by (simp add: changed_lines_from.simps)
next
  case (Cons l ls)
  then have free: "\<forall>c\<in>set l. c \<noteq> newline_char" and ls: "newline_free ls" by (auto simp: newline_free_def)
  have line: "takeWhile (\<lambda>c. c \<noteq> newline_char) (terminated (l # ls)) = l"
    using free by (simp add: newline_def takeWhile_append2)
  have rest: "drop (length l + 1) (terminated (l # ls)) = terminated ls" by (simp add: newline_def)
  have "terminated (l # ls) \<noteq> []" by (simp add: newline_def)
  then have step: "changed_lines_from k (terminated (l # ls)) =
      (if 2 \<le> k \<and> is_changed_line l then 1 else 0) + changed_lines_from (k + 1) (terminated ls)"
    unfolding changed_lines_from.simps [of k "terminated (l # ls)"] Let_def line rest by (simp only: if_False)
  consider "k = 0" | "k = 1" | "2 \<le> k" by linarith
  then show ?case
    using Cons.IH [OF ls, of "k + 1"] unfolding step by cases (simp_all del: terminated_simps)
qed

lemma changed_filter: "length (filter is_changed_line ls) = plus_lines ls + minus_lines ls"
  by (induction ls) (auto simp: count_Cons is_changed_line_def starts_char_def)

lemma changed_hunks:
  "length (filter is_changed_line (concat (map (\<lambda>h. render_hunk_header h # hunk_lines h) hs))) =
   (\<Sum>h\<leftarrow>hs. plus_lines (hunk_lines h)) + (\<Sum>h\<leftarrow>hs. minus_lines (hunk_lines h))"
proof (induction hs)
  case (Cons h hs)
  have "\<not> is_changed_line (render_hunk_header h)"
    by (simp add: is_changed_line_def render_hunk_header_def starts_char_def)
  with Cons show ?case by (simp add: changed_filter)
qed simp

lemma section_changed:
  assumes "before \<noteq> None \<or> after \<noteq> None" and "readable_size before" "readable_size after" and "renderable_path path"
  shows "changed_line_count (unified_diff_section path before after) =
    added_lines (section_file path before after) + removed_lines (section_file path before after)"
proof -
  let ?f = "section_file path before after"
  have "newline_free (render_file_lines ?f)"
    using section_file_ok [OF assms(2,3)] assms(4) by (intro render_free) (simp_all add: section_file_def)
  from changed_lines_terminated [OF this]
  have "changed_line_count (unified_diff_section path before after) = length (filter is_changed_line (drop 2 (render_file_lines ?f)))"
    by (simp only: changed_line_count_def section_renders [OF assms(1)] diff_zero)
  moreover have "length (render_header ?f) = 2" by (simp add: render_header_def split: change_kind.splits)
  ultimately have "changed_line_count (unified_diff_section path before after) =
      (\<Sum>h\<leftarrow>change_hunks ?f. plus_lines (hunk_lines h)) + (\<Sum>h\<leftarrow>change_hunks ?f. minus_lines (hunk_lines h))"
    by (simp only: render_file_lines_def drop_append changed_hunks) (simp add: changed_hunks)
  then show ?thesis by (simp add: section_file_def)
qed

subsection \<open>The effects of a changeset\<close>

lemma apply_edits_short:
  assumes "apply_edits path before es = Inr new" and "readable_size before"
  shows "readable_size (Some new)"
proof -
  have "apply_edits_from first path content es = Inr new \<Longrightarrow> length (or_empty content) \<le> text_read_max_bytes \<Longrightarrow>
      length new \<le> text_read_max_bytes" for first content
    by (induction es arbitrary: first content) (auto simp: or_empty_def split: sum.splits if_splits)
  with assms show ?thesis by (simp add: apply_edits_def readable_size_def or_empty_def)
qed

text \<open>A read port that answers no text longer than the governed ceiling.\<close>

definition bounded_reads :: "read_port \<Rightarrow> bool" where
  "bounded_reads read \<longleftrightarrow> (\<forall>k path t. read k path = Inr t \<longrightarrow> length t \<le> text_read_max_bytes)"

lemma was_read_short: "bounded_reads read \<Longrightarrow> was_read read path before \<Longrightarrow> readable_size before"
  by (auto simp: bounded_reads_def was_read_def readable_size_def or_empty_def split: option.splits)

lemma step_effect_short:
  assumes "step_effect step effs" and "\<forall>(p, b, a)\<in>set effs. readable_size b"
  shows "\<forall>(p, b, a)\<in>set effs. readable_size a"
proof -
  have "readable_size None" by (simp add: readable_size_def or_empty_def)
  with assms show ?thesis
    by (cases step) (auto intro: apply_edits_short)
qed

lemma effects_short:
  assumes "list_all2 step_effect steps effs" and "\<forall>e\<in>set (concat effs). readable_size (fst (snd e))"
  shows "\<forall>e\<in>set (concat effs). readable_size (snd (snd e))"
  using assms
proof (induction rule: list_all2_induct)
  case (Cons step steps e effs)
  then have "\<forall>x\<in>set e. readable_size (fst (snd x))" by simp
  then have "\<forall>(p, b, a)\<in>set e. readable_size b" by fastforce
  from step_effect_short [OF Cons.hyps(1) this] Cons.IH Cons.prems show ?case by auto
qed simp

lemma effect_section:
  assumes "sound_effect digest read files e" and "readable_size (fst (snd e))" "readable_size (snd (snd e))"
    and "renderable_path (fst e)"
  shows "fc_section (effect_change digest e) = terminated (render_file_lines (effect_file e))"
    "changed_line_count (fc_section (effect_change digest e)) = added_lines (effect_file e) + removed_lines (effect_file e)"
    "file_ok (effect_file e)" "renderable_path (change_path (effect_file e))"
    "compute_file_content (effect_file e) (fst (snd e)) allow = \<lparr> out_content = snd (snd e), out_conflicts = [] \<rparr>"
proof -
  obtain p b a where e: "e = (p, b, a)" by (cases e) auto
  from assms have one: "b \<noteq> None \<or> a \<noteq> None" and short: "readable_size b" "readable_size a" and p: "renderable_path p"
    by (simp_all add: e)
  show "fc_section (effect_change digest e) = terminated (render_file_lines (effect_file e))"
    by (simp add: e section_of_def section_renders [OF one])
  show "changed_line_count (fc_section (effect_change digest e)) = added_lines (effect_file e) + removed_lines (effect_file e)"
    by (simp add: e section_of_def section_changed [OF one short p])
  show "file_ok (effect_file e)" by (simp add: e section_file_ok [OF short])
  show "renderable_path (change_path (effect_file e))" using p by (simp add: e section_file_def)
  show "compute_file_content (effect_file e) (fst (snd e)) allow = \<lparr> out_content = snd (snd e), out_conflicts = [] \<rparr>"
    by (simp add: e section_applies [OF one])
qed

lemma assembled_parts:
  assumes "assembled changes = Inr ch"
  shows "ec_patch ch = concat (map fc_section changes)" "ec_files ch = map fc_binding changes"
    "ec_selected ch = Some (map bf_file (ec_files ch))" "length (ec_patch ch) \<le> editor_patch_max_bytes"
    "section_changed_lines changes \<le> editor_max_changed_lines"
proof -
  have "length (concat (map fc_section changes)) = section_bytes changes"
    by (simp add: section_bytes_def length_concat comp_def)
  with assms show "ec_patch ch = concat (map fc_section changes)" "ec_files ch = map fc_binding changes"
    "ec_selected ch = Some (map bf_file (ec_files ch))" "length (ec_patch ch) \<le> editor_patch_max_bytes"
    "section_changed_lines changes \<le> editor_max_changed_lines"
    by (auto simp: assembled_def split: if_splits)
qed

lemma effect_paths: "map (bf_file \<circ> fc_binding \<circ> effect_change digest) es = map fst es"
  by (auto simp: section_of_def)

lemma materialized_parses:
  assumes "materialize_replacement_changeset digest read cs = Inr ch"
    and "bounded_reads read" and "\<forall>b\<in>set (ec_files ch). renderable_path (bf_file b)"
  obtains steps effs where "plan_steps cs = Inr steps" and "list_all2 step_effect steps effs"
    and "list_all (sound_effect digest read (rc_files cs)) (concat effs)"
    and "parse_unified_diff (ec_patch ch) = Inr (map effect_file (concat effs))"
    and "\<forall>e\<in>set (concat effs). compute_file_content (effect_file e) (fst (snd e)) allow =
      \<lparr> out_content = snd (snd e), out_conflicts = [] \<rparr>"
    and "(\<Sum>f\<leftarrow>map effect_file (concat effs). added_lines f + removed_lines f) \<le> editor_max_changed_lines"
proof -
  obtain steps effs where plan: "plan_steps cs = Inr steps" and effs: "list_all2 step_effect steps effs"
    and ch: "assembled (map (effect_change digest) (concat effs)) = Inr ch"
    and sound: "list_all (sound_effect digest read (rc_files cs)) (concat effs)"
    using materialized_effects [OF assms(1)] .
  let ?es = "concat effs"
  note parts = assembled_parts [OF ch]
  have before: "\<forall>e\<in>set ?es. readable_size (fst (snd e))"
    using sound was_read_short [OF assms(2)] by (fastforce simp: list_all_iff)
  note after = effects_short [OF effs before]
  have "map bf_file (ec_files ch) = map fst ?es" using effect_paths by (simp add: parts(2) comp_assoc)
  then have paths: "\<forall>e\<in>set ?es. renderable_path (fst e)" using assms(3)
    by (metis (no_types, lifting) image_eqI image_iff set_map)
  have each: "sound_effect digest read (rc_files cs) e" "readable_size (fst (snd e))" "readable_size (snd (snd e))"
    "renderable_path (fst e)" if "e \<in> set ?es" for e
    using that sound [unfolded list_all_iff] before after paths by blast+
  note one = effect_section [OF each]
  have lines: "map (fc_section \<circ> effect_change digest) ?es = map (terminated \<circ> (render_file_lines \<circ> effect_file)) ?es"
    using one(1) by (intro map_cong refl) simp
  have whole: "concat (map (terminated \<circ> g) es) = terminated (concat (map g es))" for g and es :: "file_effect list"
    by (induction es) simp_all
  have patch: "ec_patch ch = terminated (concat (map render_file_lines (map effect_file ?es)))"
    by (simp only: parts(1) map_map lines whole)
  have parse: "parse_unified_diff (ec_patch ch) = Inr (map effect_file ?es)"
    unfolding patch using one(3,4) by (intro parse_terminated) (simp_all add: list_all_iff)
  have counts: "map (\<lambda>e. changed_line_count (fc_section (effect_change digest e))) ?es =
      map (\<lambda>e. added_lines (effect_file e) + removed_lines (effect_file e)) ?es"
    using one(2) by (intro map_cong refl) simp
  have sums: "section_changed_lines (map (effect_change digest) ?es) = (\<Sum>f\<leftarrow>map effect_file ?es. added_lines f + removed_lines f)"
    unfolding section_changed_lines_def map_map comp_def counts ..
  show thesis
  proof (rule that [OF plan effs sound parse])
    show "\<forall>e\<in>set ?es. compute_file_content (effect_file e) (fst (snd e)) allow =
        \<lparr> out_content = snd (snd e), out_conflicts = [] \<rparr>" using one(5) by blast
    show "(\<Sum>f\<leftarrow>map effect_file ?es. added_lines f + removed_lines f) \<le> editor_max_changed_lines"
      using parts(5) unfolding sums .
  qed
qed

subsection \<open>Edits and line endings\<close>

text \<open>What an edit makes of a text with plain line feeds; an empty old string creates the text.\<close>

definition edited_text :: "string \<Rightarrow> replacement_edit \<Rightarrow> string" where
  "edited_text t e = (if old_string e = [] then lf_text (new_string e)
     else replace_occurrences (old_string e) (lf_text (new_string e)) t)"

lemma paired_Nil: "paired []"
  by (simp add: paired_def)

lemma replace_in_edited:
  assumes "replace_in path content e = Inr result" and "old_string e \<noteq> []"
    and "carriage_return \<notin> set (old_string e)" and "paired content" and "paired (new_string e)"
  shows "paired result \<and> lf_text result = edited_text (lf_text content) e"
proof -
  let ?starts = "occurrences_of (lf_text content) (old_string e)" and ?new = "lf_text (new_string e)"
  have needle: "lf_text (old_string e) = old_string e" by (rule lf_text_free [OF assms(3)])
  have result: "result = spliced content (normalize_line_endings content) ?starts (old_string e) ?new"
    using assms(1,3) needle by (auto simp: replace_in_def Let_def normalize_eq split: if_splits)
  have "carriage_return \<notin> set ?new" using assms(5) by (simp add: paired_def)
  from splice_replaces [OF assms(4) this majority_ending [of content], of 0 "[]" "lf_text content" "old_string e"]
  show ?thesis
    using assms(2) unfolding result edited_text_def
    by (simp add: spliced_def Let_def normalize_eq occurrences_of_def original_offset_zero paired_Nil)
qed

lemma apply_edit_edited:
  assumes "apply_edit path content e first = Inr result"
    and "carriage_return \<notin> set (old_string e)" and "paired (or_empty content)" and "paired (new_string e)"
  shows "paired result \<and> lf_text result = edited_text (lf_text (or_empty content)) e"
proof (cases "old_string e = []")
  case True
  with assms show ?thesis by (auto simp: apply_edit_def edited_text_def split: if_splits)
next
  case False
  with assms(1) obtain c where "content = Some c" "replace_in path c e = Inr result"
    by (auto simp: apply_edit_def split: option.splits if_splits)
  with replace_in_edited [OF _ False assms(2) _ assms(4)] assms(3) show ?thesis by (simp add: or_empty_def)
qed

lemma apply_edits_from_edited:
  assumes "apply_edits_from first path content es = Inr result" and "paired (or_empty content)"
    and "\<forall>e\<in>set es. carriage_return \<notin> set (old_string e) \<and> paired (new_string e)"
  shows "paired result \<and> lf_text result = foldl edited_text (lf_text (or_empty content)) es"
  using assms
proof (induction es arbitrary: first content)
  case (Cons e es)
  then obtain c where c: "apply_edit path content e first = Inr c"
    and rest: "apply_edits_from False path (Some c) es = Inr result" by (auto split: sum.splits if_splits)
  have "paired c \<and> lf_text c = edited_text (lf_text (or_empty content)) e"
    using apply_edit_edited [OF c] Cons.prems by simp
  with Cons.IH [OF rest] Cons.prems show ?case by (simp add: or_empty_def)
qed simp

subsection \<open>A sample\<close>

definition sample_old :: string where
  "sample_old = ''a'' @ crlf"

definition sample_new :: string where
  "sample_new = ''a'' @ crlf @ ''b'' @ crlf"

definition sample_read :: read_port where
  "sample_read k path = (if path = ''f'' then Inr sample_old else if path = ''g'' then Inr ''x'' else Inl not_found)"

definition sample_edit :: replacement_edit where
  "sample_edit = \<lparr> re_file = ''f'', old_string = ''a'', new_string = ''a'' @ newline @ ''b'', replace_all = None \<rparr>"

definition sample_changeset :: replacement_changeset where
  "sample_changeset = \<lparr> rc_edits = [sample_edit], rc_deletions = Some [''g''], rc_renames = None,
     rc_files = [\<lparr> bf_file = ''f'', bf_hash = Some sample_old \<rparr>, \<lparr> bf_file = ''g'', bf_hash = Some ''x'' \<rparr>],
     rc_selected = None \<rparr>"

lemma sample_normal: "normalize_line_endings sample_old = \<lparr> norm_text = ''a'' @ newline, norm_collapsed = [1] \<rparr>"
  by code_simp

lemma sample_occurrences: "occurrences_of (''a'' @ newline) ''a'' = [0]" "occurrences_of (''a'' @ newline @ ''b'') newline = [1]"
  by code_simp+

lemma sample_lengths: "js_length ''a'' = 1" "js_length (''a'' @ newline @ ''b'') = 3" "js_length sample_old = 3"
  by (simp_all add: js_length_def utf16_len_def cp_len_def cp_value_def Let_def sample_old_def crlf_def newline_def)

lemma sample_spliced: "spliced sample_old \<lparr> norm_text = ''a'' @ newline, norm_collapsed = [1] \<rparr> [0] ''a'' (''a'' @ newline @ ''b'') = sample_new"
  by code_simp

lemma sample_applied: "apply_edits ''f'' (Some sample_old) [sample_edit] = Inr sample_new"
proof -
  have "lf_text ''a'' = ''a''" "lf_text (''a'' @ newline @ ''b'') = ''a'' @ newline @ ''b''"
    by (simp_all add: newline_def)
  then have "replace_in ''f'' sample_old sample_edit = Inr sample_new"
    using sample_normal sample_occurrences sample_lengths sample_spliced
    by (simp add: replace_in_def sample_edit_def text_read_max_bytes_def)
  moreover have "length sample_new \<le> text_read_max_bytes"
    by (simp add: sample_new_def crlf_def text_read_max_bytes_def)
  moreover have "old_string sample_edit \<noteq> []" "old_string sample_edit \<noteq> new_string sample_edit"
    by (simp_all add: sample_edit_def)
  ultimately show ?thesis by (simp add: apply_edits_def apply_edit_def or_empty_def)
qed

lemma sample_plan: "plan_steps sample_changeset = Inr [EditStep ''f'' [sample_edit], DeleteStep ''g'']"
  by code_simp

lemma sample_sections:
  "length (unified_diff_section ''f'' (Some sample_old) (Some sample_new)) \<le> 100"
  "length (unified_diff_section ''g'' (Some ''x'') None) \<le> 100"
  "changed_line_count (unified_diff_section ''f'' (Some sample_old) (Some sample_new)) = 1"
  "changed_line_count (unified_diff_section ''g'' (Some ''x'') None) = 1"
  by code_simp+

definition sample_result :: editor_changeset where
  "sample_result = \<lparr>
     ec_patch = unified_diff_section ''f'' (Some sample_old) (Some sample_new) @ unified_diff_section ''g'' (Some ''x'') None,
     ec_files = [\<lparr> bf_file = ''f'', bf_hash = Some sample_old \<rparr>, \<lparr> bf_file = ''g'', bf_hash = Some ''x'' \<rparr>],
     ec_selected = Some [''f'', ''g''] \<rparr>"

lemma sample_materialized: "materialize_replacement_changeset (\<lambda>s. s) sample_read sample_changeset = Inr sample_result"
proof -
  let ?f = "section_of ''f'' (Some sample_old) (Some sample_new) sample_old" and ?g = "section_of ''g'' (Some ''x'') None ''x''"
  have new: "sample_new \<noteq> sample_old" by (simp add: sample_new_def sample_old_def crlf_def)
  have "materialize_step (\<lambda>s. s) sample_read (rc_files sample_changeset) (EditStep ''f'' [sample_edit]) 0 = (Inr [?f], 1)"
    using sample_applied new
    by (simp add: materialize_file_def declared_hash_def declared_entry_def sample_changeset_def current_text_def
        and_then_def read_text_def answer_def sample_read_def or_empty_def)
  moreover have "materialize_step (\<lambda>s. s) sample_read (rc_files sample_changeset) (DeleteStep ''g'') 1 = (Inr [?g], 2)"
    by (simp add: materialize_deletion_def existing_source_def declared_hash_def declared_entry_def sample_changeset_def
        current_text_def and_then_def read_text_def answer_def sample_read_def or_empty_def)
  moreover have "section_bytes [?f] \<le> 100" "section_bytes [?g] \<le> 100" "section_changed_lines [?f] = 1" "section_changed_lines [?g] = 1"
    "section_bytes [?f, ?g] \<le> 200" "section_changed_lines [?f, ?g] = 2"
    using sample_sections by (simp_all add: section_bytes_def section_changed_lines_def section_of_def)
  ultimately show ?thesis
    unfolding materialize_replacement_changeset_def sample_plan
    by (simp add: and_then_def answer_def whole_file_refusal_def Let_def assembled_def editor_patch_max_bytes_def
        editor_max_changed_lines_def sample_result_def section_of_def)
qed

lemma sample_side_conditions: "bounded_reads sample_read" "\<forall>b\<in>set (ec_files sample_result). renderable_path (bf_file b)"
proof -
  show "bounded_reads sample_read"
    by (auto simp: bounded_reads_def sample_read_def sample_old_def crlf_def text_read_max_bytes_def split: if_splits)
  have "renderable_path ''f''" "renderable_path ''g''"
    by (simp_all add: renderable_path_def dev_null_def trim_def trim_cps_def cp_len_def cp_value_def is_js_ws_def Let_def)
  then show "\<forall>b\<in>set (ec_files sample_result). renderable_path (bf_file b)" by (simp add: sample_result_def)
qed

subsection \<open>Properties\<close>

text \<open>
  Claim C15. What the patch engine makes of a materialized changeset is what the steps of the call
  ask for: the steps are those of the plan, each with its effects (an edit gives the text its edits
  make of the text that was read, a deletion removes its file, a rename removes the source and
  creates the target with the edited text of the source); the patch parses to one file change per
  effect, in that order, and applying each change to the text that was read gives exactly the text
  of the effect, with no conflict. Two conditions: every path of the changeset is one a plain diff
  header can carry (no tab, line break or
  trailing blank; the code accepts more, and
  for such a path the patch names another one), and no read is longer than the read port's ceiling.
\<close>

theorem materialized_changes_apply:
  assumes "materialize_replacement_changeset digest read cs = Inr ch"
    and "bounded_reads read" and "\<forall>b\<in>set (ec_files ch). renderable_path (bf_file b)"
  shows "\<exists>steps effs fs. plan_steps cs = Inr steps \<and> list_all2 step_effect steps effs \<and>
    parse_unified_diff (ec_patch ch) = Inr fs \<and>
    list_all2 (\<lambda>(path, before, after) f. was_read read path before \<and> change_path f = path \<and>
      compute_file_content f before allow = \<lparr> out_content = after, out_conflicts = [] \<rparr>) (concat effs) fs"
proof -
  obtain steps effs where plan: "plan_steps cs = Inr steps" "list_all2 step_effect steps effs"
    and sound: "list_all (sound_effect digest read (rc_files cs)) (concat effs)"
    and parse: "parse_unified_diff (ec_patch ch) = Inr (map effect_file (concat effs))"
    and applies: "\<forall>e\<in>set (concat effs). compute_file_content (effect_file e) (fst (snd e)) allow =
      \<lparr> out_content = snd (snd e), out_conflicts = [] \<rparr>"
    using materialized_parses [OF assms, of allow] .
  have "list_all2 (\<lambda>(path, before, after) f. was_read read path before \<and> change_path f = path \<and>
      compute_file_content f before allow = \<lparr> out_content = after, out_conflicts = [] \<rparr>)
      (concat effs) (map effect_file (concat effs))"
  proof (intro list_all2_all_nthI)
    fix i assume "i < length (concat effs)"
    then have "concat effs ! i \<in> set (concat effs)" "map effect_file (concat effs) ! i = effect_file (concat effs ! i)"
      by (rule nth_mem, rule nth_map)
    moreover obtain p b a where "concat effs ! i = (p, b, a)" by (cases "concat effs ! i") auto
    ultimately show "(\<lambda>(path, before, after) f. was_read read path before \<and> change_path f = path \<and>
        compute_file_content f before allow = \<lparr> out_content = after, out_conflicts = [] \<rparr>)
        (concat effs ! i) (map effect_file (concat effs) ! i)"
      using sound applies by (fastforce simp: list_all_iff section_file_def simp del: set_concat)
  qed simp
  with plan parse show ?thesis by blast
qed

text \<open>A witness: one edited and one deleted file.\<close>

theorem materialized_changes_apply_witness:
  "\<exists>steps effs fs. plan_steps sample_changeset = Inr steps \<and> list_all2 step_effect steps effs \<and>
    parse_unified_diff (ec_patch sample_result) = Inr fs \<and>
    list_all2 (\<lambda>(path, before, after) f. was_read sample_read path before \<and> change_path f = path \<and>
      compute_file_content f before False = \<lparr> out_content = after, out_conflicts = [] \<rparr>) (concat effs) fs"
  by (rule materialized_changes_apply [OF sample_materialized sample_side_conditions])

text \<open>
  A materialized changeset is inside the limits of one call, as the editor route counts them:
  its patch is no longer than the patch cap, and the files the patch parses to add and remove together
  no more lines than the changed-line limit.
\<close>

theorem materialized_within_limits:
  assumes "materialize_replacement_changeset digest read cs = Inr ch"
    and "bounded_reads read" and "\<forall>b\<in>set (ec_files ch). renderable_path (bf_file b)"
  shows "length (ec_patch ch) \<le> editor_patch_max_bytes \<and>
    (\<exists>fs. parse_unified_diff (ec_patch ch) = Inr fs \<and>
      (\<Sum>f\<leftarrow>fs. added_lines f + removed_lines f) \<le> editor_max_changed_lines)"
proof -
  obtain steps effs where "assembled (map (effect_change digest) (concat effs)) = Inr ch"
    using materialized_effects [OF assms(1)] .
  then have "length (ec_patch ch) \<le> editor_patch_max_bytes" by (rule assembled_parts(4))
  moreover obtain steps effs where "parse_unified_diff (ec_patch ch) = Inr (map effect_file (concat effs))"
    "(\<Sum>f\<leftarrow>map effect_file (concat effs). added_lines f + removed_lines f) \<le> editor_max_changed_lines"
    using materialized_parses [OF assms] .
  ultimately show ?thesis by blast
qed

text \<open>A witness at the same changeset.\<close>

theorem materialized_within_limits_witness:
  "length (ec_patch sample_result) \<le> editor_patch_max_bytes \<and>
    (\<exists>fs. parse_unified_diff (ec_patch sample_result) = Inr fs \<and>
      (\<Sum>f\<leftarrow>fs. added_lines f + removed_lines f) \<le> editor_max_changed_lines)"
  by (rule materialized_within_limits [OF sample_materialized sample_side_conditions])

text \<open>
  Claim C17. A materialized changeset names every touched path exactly once, in its files and in its
  selection alike, and touches nothing else: the paths are those of the edits, the renames and the
  deletions, all of them inside the selection when the call gave one, and each is bound to the digest
  that the call declared for it.
\<close>

theorem materialized_paths_once:
  assumes "materialize_replacement_changeset digest read cs = Inr ch"
  shows "distinct (map bf_file (ec_files ch)) \<and> ec_selected ch = Some (map bf_file (ec_files ch)) \<and>
    set (map bf_file (ec_files ch)) = set (touched_paths cs) \<and>
    (\<forall>s. rc_selected cs = Some s \<longrightarrow> set (map bf_file (ec_files ch)) \<subseteq> set s) \<and>
    (\<forall>b\<in>set (ec_files ch). bf_hash b \<noteq> None \<and> declared_entry (rc_files cs) (bf_file b) = bf_hash b)"
proof -
  obtain steps effs where plan: "plan_steps cs = Inr steps" and effs: "list_all2 step_effect steps effs"
    and ch: "assembled (map (effect_change digest) (concat effs)) = Inr ch"
    and sound: "list_all (sound_effect digest read (rc_files cs)) (concat effs)"
    using materialized_effects [OF assms] .
  note parts = assembled_parts [OF ch] and paths = plan_steps_paths [OF plan]
  have files: "map bf_file (ec_files ch) = concat (map step_paths steps)"
    using effect_paths [of digest "concat effs"] effects_paths [OF effs] by (simp add: parts(2) comp_assoc)
  have "bf_hash b \<noteq> None \<and> declared_entry (rc_files cs) (bf_file b) = bf_hash b" if "b \<in> set (ec_files ch)" for b
  proof -
    from that parts(2) obtain e where e: "e \<in> set (concat effs)" "b = fc_binding (effect_change digest e)" by auto
    with sound have "sound_effect digest read (rc_files cs) e" unfolding list_all_iff by blast
    with e(2) show ?thesis by (cases e) (simp add: section_of_def)
  qed
  with paths(1-3) parts(3) files show ?thesis by simp
qed

text \<open>A witness at the same changeset.\<close>

theorem materialized_paths_once_witness:
  "distinct (map bf_file (ec_files sample_result)) \<and> ec_selected sample_result = Some (map bf_file (ec_files sample_result)) \<and>
    set (map bf_file (ec_files sample_result)) = set (touched_paths sample_changeset)"
  using materialized_paths_once [OF sample_materialized] by blast

text \<open>
  Claim C18. Edits whose old strings carry no carriage return are insensitive to the line endings of
  the text: when the text and the new strings carry a carriage return only before a line feed, the
  edited text, read with plain line feeds, is the text, read that way, with every edit made in turn
  by plain replacement of the occurrences; and again its carriage returns all stand before line
  feeds. (An old string with a carriage return is matched as it stands, so it finds fewer
  occurrences.)
\<close>

theorem replacement_ignores_line_endings:
  assumes "apply_edits path before es = Inr result" and "paired (or_empty before)"
    and "\<forall>e\<in>set es. carriage_return \<notin> set (old_string e) \<and> paired (new_string e)"
  shows "paired result \<and> lf_text result = foldl edited_text (lf_text (or_empty before)) es"
  using assms unfolding apply_edits_def by (rule apply_edits_from_edited)

text \<open>A witness: a line is added to a text with carriage returns.\<close>

theorem replacement_ignores_line_endings_witness:
  "paired sample_new \<and> lf_text sample_new = foldl edited_text (lf_text (or_empty (Some sample_old))) [sample_edit]"
proof (rule replacement_ignores_line_endings [OF sample_applied])
  show "paired (or_empty (Some sample_old))" by (simp add: paired_def or_empty_def sample_old_def crlf_def)
  show "\<forall>e\<in>set [sample_edit]. carriage_return \<notin> set (old_string e) \<and> paired (new_string e)"
    by (simp add: sample_edit_def paired_def newline_def)
qed

text \<open>
  The lines a replacement leaves unchanged keep their own endings: when the replaced region
  and the replacement share the leading lines \<open>p\<close>, no more of them, and what follows the replaced
  middle \<open>x\<close>, the new region has the bytes of both around a middle that is the new text once its line
  endings are read as line feeds, whatever mix of endings the region has.
\<close>

theorem unchanged_lines_keep_their_endings:
  assumes "whole_lines p" "whole_lines x" and "whole_lines y" "carriage_return \<notin> set y" and "is_ending majority"
    and "x @ s = [] \<or> y @ s = [] \<or> first_line (lf_text (x @ s)) \<noteq> first_line (y @ lf_text s)"
  shows "\<exists>m. with_region_endings (p @ x @ s) (lf_text p @ y @ lf_text s) majority = p @ m @ s \<and> lf_text m = y"
  using assms by (rule common_lines_kept)

text \<open>A witness: a line replaced by two between lines of either ending.\<close>

theorem unchanged_lines_keep_their_endings_witness:
  "\<exists>m. with_region_endings ((''a'' @ newline @ ''b'' @ crlf) @ (''c'' @ crlf) @ ''d'' @ newline)
    (lf_text (''a'' @ newline @ ''b'' @ crlf) @ (''e'' @ newline @ ''f'' @ newline) @ lf_text (''d'' @ newline)) crlf =
    (''a'' @ newline @ ''b'' @ crlf) @ m @ ''d'' @ newline \<and> lf_text m = ''e'' @ newline @ ''f'' @ newline"
  by (rule unchanged_lines_keep_their_endings)
    (simp_all add: whole_lines_def newline_def crlf_def is_ending_def first_line_def)

end
