(* ===== verification/Memory_Types.thy ===== *)
theory Memory_Types
  imports Complex_Main "HOL-Library.Multiset" Prelude
begin

text \<open>
  The data of governed memory: \<open>memory-contracts.ts\<close> and \<open>memory-records.ts\<close> of
  \<open>keiko-contracts\<close>, the table of status transitions, the words of a negation, and the runtime's
  strings and numbers as this part of the program uses them.

  A string is the list of its UTF-16 code units, so that \<open>length\<close>, \<open>slice\<close> and the order of strings
  are those of the list. Numbers a record holds are finite, as its validator demands, and are reals;
  a number of a request may be any of the runtime's.
\<close>

subsection \<open>Strings\<close>

type_synonym ustring = "nat list"

definition units :: "string \<Rightarrow> ustring" where
  "units s = map of_char s"

text \<open>The characters of a string, as a \<open>for\<close> loop reads them: a surrogate pair is one of them.\<close>

fun chars_of :: "ustring \<Rightarrow> ustring list" where
  "chars_of (a # b # r) =
     (if 0xD800 \<le> a \<and> a < 0xDC00 \<and> 0xDC00 \<le> b \<and> b < 0xE000 then [a, b] # chars_of r else [a] # chars_of (b # r))"
| "chars_of [a] = [[a]]"
| "chars_of [] = []"

fun code_point :: "ustring \<Rightarrow> nat" where
  "code_point [a, b] = 0x10000 + (a - 0xD800) * 0x400 + (b - 0xDC00)"
| "code_point (a # r) = a"
| "code_point [] = 0"

definition is_space :: "nat \<Rightarrow> bool" where
  "is_space n \<longleftrightarrow> is_js_ws n"

definition trim_units :: "ustring \<Rightarrow> ustring" where
  "trim_units s = rev (dropWhile is_space (rev (dropWhile is_space s)))"

definition join_units :: "ustring \<Rightarrow> ustring list \<Rightarrow> ustring" where
  "join_units sep xs = (case xs of [] \<Rightarrow> [] | x # r \<Rightarrow> x @ concat (map (\<lambda>y. sep @ y) r))"

text \<open>\<open>s.includes(t)\<close>.\<close>

fun includes_units :: "ustring \<Rightarrow> ustring \<Rightarrow> bool" where
  "includes_units [] t = (t = [])"
| "includes_units (a # r) t = (take (length t) (a # r) = t \<or> includes_units r t)"

subsection \<open>Numbers\<close>

datatype js_number = Num real | NaN | PosInf | NegInf

fun finite_value :: "js_number \<Rightarrow> real option" where
  "finite_value (Num x) = Some x"
| "finite_value _ = None"

definition clamp_unit :: "real \<Rightarrow> real" where
  "clamp_unit x = (if x \<ge> 1 then 1 else if x > 0 then x else 0)"

lemma clamp_unit_range: "0 \<le> clamp_unit x" "clamp_unit x \<le> 1"
  by (simp_all add: clamp_unit_def)

subsection \<open>Sorting\<close>

text \<open>
  \<open>Array.prototype.sort\<close> with a comparison is stable: an element goes behind every one it does not
  precede. \<open>before x y\<close> says the comparison of \<open>x\<close> and \<open>y\<close> is negative.
\<close>

fun insert_by :: "('a \<Rightarrow> 'a \<Rightarrow> bool) \<Rightarrow> 'a \<Rightarrow> 'a list \<Rightarrow> 'a list" where
  "insert_by before x [] = [x]"
| "insert_by before x (y # ys) = (if before y x then y # insert_by before x ys else x # y # ys)"

definition sort_by :: "('a \<Rightarrow> 'a \<Rightarrow> bool) \<Rightarrow> 'a list \<Rightarrow> 'a list" where
  "sort_by before xs = foldr (insert_by before) xs []"

subsection \<open>Vocabularies\<close>

datatype memory_type =
    Episodic | SemanticFact | Procedural | Preference | CorrectionMemory | DecisionMemory | NegativeMemory | PinnedMemory

datatype memory_status =
    MemProposed | MemAccepted | MemRejected | MemSuperseded | MemArchived | MemForgotten | MemConflicted | MemExpired

datatype memory_sensitivity = PublicMemory | ConfidentialMemory | RestrictedMemory

datatype memory_source = ExplicitUserInstruction | AcceptedCorrection | WorkflowOutcome | Consolidation | SystemDefault

datatype memory_edge_kind = EdgeRelated | EdgeDerivedFrom | EdgeSupersedes | EdgeCorrects | EdgeConflictsWith | EdgeTemporalPrecedes

datatype memory_scope =
    UserScope ustring
  | WorkspaceScope ustring
  | ProjectScope ustring
  | WorkflowScope ustring
  | GlobalScope

definition scope_coordinate_key :: "memory_scope \<Rightarrow> ustring" where
  "scope_coordinate_key s = (case s of
     GlobalScope \<Rightarrow> units ''global:''
   | UserScope u \<Rightarrow> units ''user:'' @ u
   | WorkspaceScope w \<Rightarrow> units ''workspace:'' @ w
   | ProjectScope p \<Rightarrow> units ''project:'' @ p
   | WorkflowScope w \<Rightarrow> units ''workflow:'' @ w)"

text \<open>The key tells scopes apart.\<close>

lemma scope_key_inj: "scope_coordinate_key a = scope_coordinate_key b \<longleftrightarrow> a = b"
  by (cases a; cases b) (simp_all add: scope_coordinate_key_def units_def of_char_def)

definition is_scope_reachable :: "memory_scope \<Rightarrow> memory_scope list \<Rightarrow> bool" where
  "is_scope_reachable candidate authorized \<longleftrightarrow>
     list_ex (\<lambda>s. scope_coordinate_key s = scope_coordinate_key candidate) authorized"

lemma is_scope_reachable_iff: "is_scope_reachable candidate authorized \<longleftrightarrow> candidate \<in> set authorized"
  by (auto simp: is_scope_reachable_def list_ex_iff scope_key_inj)

fun decay_multiplier :: "memory_type \<Rightarrow> real" where
  "decay_multiplier Episodic = 1 / 2"
| "decay_multiplier SemanticFact = 3 / 2"
| "decay_multiplier Procedural = 2"
| "decay_multiplier Preference = 3 / 2"
| "decay_multiplier CorrectionMemory = 1"
| "decay_multiplier DecisionMemory = 5 / 4"
| "decay_multiplier NegativeMemory = 1"
| "decay_multiplier PinnedMemory = 1"

definition decay_half_life_multiplier :: "memory_type \<Rightarrow> (memory_type \<Rightarrow> js_number option) \<Rightarrow> real" where
  "decay_half_life_multiplier t overrides =
     (case Option.bind (overrides t) finite_value of
        Some x \<Rightarrow> if x > 0 then x else decay_multiplier t
      | None \<Rightarrow> decay_multiplier t)"

subsection \<open>Status transitions\<close>

fun status_transitions :: "memory_status \<Rightarrow> memory_status list" where
  "status_transitions MemProposed = [MemAccepted, MemRejected, MemSuperseded, MemConflicted, MemExpired, MemForgotten]"
| "status_transitions MemAccepted = [MemSuperseded, MemArchived, MemForgotten, MemConflicted, MemExpired]"
| "status_transitions MemRejected = [MemForgotten]"
| "status_transitions MemSuperseded = [MemArchived, MemForgotten]"
| "status_transitions MemArchived = [MemAccepted, MemForgotten]"
| "status_transitions MemForgotten = []"
| "status_transitions MemConflicted = [MemAccepted, MemSuperseded, MemArchived, MemForgotten]"
| "status_transitions MemExpired = [MemAccepted, MemArchived, MemForgotten]"

text \<open>\<open>checkStatusTransition\<close>; the unknown statuses it also rejects are not values of the type.\<close>

datatype transition_check = TransitionOk | NoOpTransition | IllegalTransition

definition check_status_transition :: "memory_status \<Rightarrow> memory_status \<Rightarrow> transition_check" where
  "check_status_transition src target =
     (if src = target then NoOpTransition
      else if target \<notin> set (status_transitions src) then IllegalTransition else TransitionOk)"

subsection \<open>Records\<close>

record memory_provenance =
  mp_source :: memory_source
  mp_conversation :: "ustring option"
  mp_captured_at :: real
  mp_confidence :: real
  mp_sensitivity :: memory_sensitivity
  mp_rationale :: "ustring option"

record validity_interval =
  vi_from :: real
  vi_until :: "real option"

record memory_record =
  mr_id :: ustring
  mr_scope :: memory_scope
  mr_type :: memory_type
  mr_body :: ustring
  mr_provenance :: memory_provenance
  mr_validity :: validity_interval
  mr_status :: memory_status
  mr_pinned :: bool
  mr_tags :: "ustring list"
  mr_created_at :: real
  mr_updated_at :: real

record memory_edge =
  me_id :: ustring
  me_from :: ustring
  me_to :: ustring
  me_kind :: memory_edge_kind

subsection \<open>Negation\<close>

datatype negation_tier = EnglishParticle | EnglishQuantifier | GermanParticle

fun negation_vocabulary :: "negation_tier \<Rightarrow> ustring list" where
  "negation_vocabulary EnglishParticle = map units
     [''aint'', ''arent'', ''cannot'', ''cant'', ''couldnt'', ''didnt'', ''doesnt'', ''dont'', ''hadnt'', ''hasnt'',
      ''havent'', ''isnt'', ''mustnt'', ''neednt'', ''not'', ''shouldnt'', ''wasnt'', ''werent'', ''wont'', ''wouldnt'']"
| "negation_vocabulary EnglishQuantifier = map units [''never'', ''no'', ''none'', ''without'']"
| "negation_vocabulary GermanParticle = map units
     [''kein'', ''keine'', ''keinem'', ''keinen'', ''keiner'', ''keines'', ''nicht'', ''nie'', ''niemals'', ''ohne'']"

definition negation_tokens :: "negation_tier list \<Rightarrow> ustring list" where
  "negation_tokens tiers = remdups (concat (map negation_vocabulary tiers))"

definition has_negation_token :: "ustring list \<Rightarrow> ustring list \<Rightarrow> bool" where
  "has_negation_token tokens vocabulary \<longleftrightarrow> list_ex (\<lambda>t. t \<in> set vocabulary) tokens"

subsection \<open>Facts on errors\<close>

lemma rmap_Inl: "rmap f xs = Inl e \<Longrightarrow> list_ex (\<lambda>x. f x = Inl e) xs"
proof (induction xs)
  case (Cons x xs)
  then show ?case by (cases "f x"; cases "rmap f xs") auto
qed simp

lemma rfold_Inl: "rfold step s xs = Inl e \<Longrightarrow> \<exists>x\<in>set xs. \<exists>t. step t x = Inl e"
  by (induction xs arbitrary: s) (auto simp: rbind_Inl_iff)

subsection \<open>Facts on sorting\<close>

lemma mset_insert_by [simp]: "mset (insert_by before x xs) = add_mset x (mset xs)"
  by (induction xs) auto

lemma sort_by_Cons: "sort_by before (x # xs) = insert_by before x (sort_by before xs)"
  by (simp add: sort_by_def)

lemma mset_sort_by [simp]: "mset (sort_by before xs) = mset xs"
  by (induction xs) (simp_all add: sort_by_def)

lemma set_insert_by [simp]: "set (insert_by before x xs) = insert x (set xs)"
  by (induction xs) auto

lemma set_sort_by [simp]: "set (sort_by before xs) = set xs"
  by (metis mset_sort_by set_mset_mset)

lemma length_sort_by [simp]: "length (sort_by before xs) = length xs"
  by (metis mset_sort_by size_mset)

lemma distinct_sort_by [simp]: "distinct (sort_by before xs) = distinct xs"
  by (metis mset_sort_by mset_eq_imp_distinct_iff)

text \<open>
  A comparison that orders the elements of \<open>carrier\<close>: elements that are not told apart by it may
  differ. Sorting puts them in order, and where different elements are told apart, a list has one order
  whatever order it came in.
\<close>

locale weak_order =
  fixes before :: "'a \<Rightarrow> 'a \<Rightarrow> bool"
    and carrier :: "'a set"
  assumes asym: "x \<in> carrier \<Longrightarrow> y \<in> carrier \<Longrightarrow> before x y \<Longrightarrow> \<not> before y x"
    and trans: "x \<in> carrier \<Longrightarrow> y \<in> carrier \<Longrightarrow> z \<in> carrier \<Longrightarrow> \<not> before y x \<Longrightarrow> \<not> before z y \<Longrightarrow> \<not> before z x"
begin

lemma insert_sorted:
  assumes "x \<in> carrier" and "set xs \<subseteq> carrier" and "sorted_wrt (\<lambda>a b. \<not> before b a) xs"
  shows "sorted_wrt (\<lambda>a b. \<not> before b a) (insert_by before x xs)"
  using assms
proof (induction xs)
  case (Cons y ys)
  show ?case
  proof (cases "before y x")
    case True
    with Cons asym show ?thesis by auto
  next
    case False
    have "\<not> before z x" if "z \<in> set ys" for z
      by (rule trans [of x y z]) (use Cons.prems that False in auto)
    with False Cons.prems show ?thesis by auto
  qed
qed simp

lemma sort_sorted: "set xs \<subseteq> carrier \<Longrightarrow> sorted_wrt (\<lambda>a b. \<not> before b a) (sort_by before xs)"
proof (induction xs)
  case (Cons x xs)
  then show ?case using insert_sorted [of x "sort_by before xs"] by (simp add: sort_by_Cons)
qed (simp add: sort_by_def)

lemma sorted_unique:
  assumes "sorted_wrt (\<lambda>a b. \<not> before b a) xs" "sorted_wrt (\<lambda>a b. \<not> before b a) ys" and "mset xs = mset ys"
    and "\<And>x y. x \<in> set xs \<Longrightarrow> y \<in> set xs \<Longrightarrow> x \<noteq> y \<Longrightarrow> before x y \<or> before y x"
  shows "xs = ys"
  using assms
proof (induction xs arbitrary: ys)
  case (Cons x xs)
  then obtain y zs where ys: "ys = y # zs" by (cases ys) auto
  have members: "set (x # xs) = set (y # zs)" using Cons.prems(3) ys by (metis set_mset_mset)
  have "x = y"
  proof (rule ccontr)
    assume "x \<noteq> y"
    with members have y: "y \<in> set xs" and x: "x \<in> set zs" by auto
    with Cons.prems(1,2) ys have "\<not> before y x" "\<not> before x y" by auto
    with Cons.prems(4) [of x y] \<open>x \<noteq> y\<close> y show False by simp
  qed
  moreover have "xs = zs" by (rule Cons.IH) (use Cons.prems ys \<open>x = y\<close> in auto)
  ultimately show ?case using ys by simp
qed simp

lemma sort_order_free:
  assumes "mset xs = mset ys" and "set xs \<subseteq> carrier"
    and "\<And>x y. x \<in> set xs \<Longrightarrow> y \<in> set xs \<Longrightarrow> x \<noteq> y \<Longrightarrow> before x y \<or> before y x"
  shows "sort_by before xs = sort_by before ys"
proof (rule sorted_unique)
  have "set ys = set xs" using assms(1) by (metis set_mset_mset)
  with assms(2) show "sorted_wrt (\<lambda>a b. \<not> before b a) (sort_by before ys)" by (intro sort_sorted) simp
qed (use assms in \<open>simp_all add: sort_sorted\<close>)

end

end
