(* ===== verification/Memory_Envelopes.thy ===== *)
theory Memory_Envelopes
  imports Memory_Types
begin

text \<open>
  The envelopes of memory operations and their validators (\<open>memory-operations.ts\<close>,
  \<open>memory-operations-validation.ts\<close>, \<open>memory-internal.ts\<close>, \<open>memory-validation.ts\<close> of
  \<open>keiko-contracts\<close>). A validator gives the list of what is wrong; the checks that the types of the
  model make true (a record is an object, a reason is a supported code) leave nothing to report.
  \<open>nfkc\<close> is the runtime's normalization form KC.
\<close>

subsection \<open>Primitive checks\<close>

definition memory_body_max :: nat where
  "memory_body_max = 4096"

definition memory_rationale_max :: nat where
  "memory_rationale_max = 1024"

definition memory_reason_max :: nat where
  "memory_reason_max = 1024"

definition memory_tag_max :: nat where
  "memory_tag_max = 64"

definition memory_tags_max_count :: nat where
  "memory_tags_max_count = 32"

definition memory_id_max_length :: nat where
  "memory_id_max_length = 256"

definition forbidden_control :: "nat \<Rightarrow> bool" where
  "forbidden_control c \<longleftrightarrow> c \<le> 8 \<or> c = 11 \<or> c = 12 \<or> 14 \<le> c \<and> c \<le> 31 \<or> c = 127"

definition is_non_empty_trimmed :: "ustring \<Rightarrow> bool" where
  "is_non_empty_trimmed s \<longleftrightarrow> trim_units s \<noteq> []"

definition is_finite_non_negative :: "js_number \<Rightarrow> bool" where
  "is_finite_non_negative x \<longleftrightarrow> (case finite_value x of Some r \<Rightarrow> 0 \<le> r | None \<Rightarrow> False)"

definition is_unit_interval :: "js_number \<Rightarrow> bool" where
  "is_unit_interval x \<longleftrightarrow> (case finite_value x of Some r \<Rightarrow> 0 \<le> r \<and> r \<le> 1 | None \<Rightarrow> False)"

definition is_safe_text :: "nat \<Rightarrow> ustring \<Rightarrow> bool" where
  "is_safe_text max_chars s \<longleftrightarrow> s \<noteq> [] \<and> length s \<le> max_chars \<and> \<not> list_ex forbidden_control s"

definition report :: "bool \<Rightarrow> string \<Rightarrow> string list" where
  "report wrong message = (if wrong then [message] else [])"

definition tags_errors :: "string \<Rightarrow> ustring list \<Rightarrow> string list" where
  "tags_errors field tags =
     (if length tags > memory_tags_max_count then [field @ '' must have at most 32 entries'']
      else report (list_ex (\<lambda>t. t = [] \<or> length t > memory_tag_max \<or> list_ex forbidden_control t) tags)
        (field @ '' entry must be a non-empty bounded control-free string''))"

definition is_bidi_or_zero_width :: "nat \<Rightarrow> bool" where
  "is_bidi_or_zero_width cp \<longleftrightarrow> cp = 0x061C \<or> 0x200B \<le> cp \<and> cp \<le> 0x200F \<or> 0x202A \<le> cp \<and> cp \<le> 0x202E \<or>
     0x2060 \<le> cp \<and> cp \<le> 0x206F \<or> 0x2066 \<le> cp \<and> cp \<le> 0x2069 \<or> cp = 0xFEFF"

definition is_control_code_point :: "nat \<Rightarrow> bool" where
  "is_control_code_point cp \<longleftrightarrow> cp \<le> 0x1F \<or> 0x7F \<le> cp \<and> cp \<le> 0x9F"

definition is_strippable_control :: "nat \<Rightarrow> bool" where
  "is_strippable_control cp \<longleftrightarrow> cp \<notin> {9, 10, 13} \<and> is_control_code_point cp"

definition is_unsafe_format :: "nat \<Rightarrow> bool" where
  "is_unsafe_format cp \<longleftrightarrow> is_bidi_or_zero_width cp \<or> is_strippable_control cp \<or> cp = 0x2028 \<or> cp = 0x2029"

definition has_control_character :: "ustring \<Rightarrow> bool" where
  "has_control_character s \<longleftrightarrow> list_ex (\<lambda>ch. is_control_code_point (code_point ch)) (chars_of s)"

definition strip_unsafe_format :: "ustring \<Rightarrow> ustring" where
  "strip_unsafe_format s = concat (filter (\<lambda>ch. \<not> is_unsafe_format (code_point ch)) (chars_of s))"

definition memory_id_reason :: "(ustring \<Rightarrow> ustring) \<Rightarrow> ustring \<Rightarrow> string option" where
  "memory_id_reason nfkc v =
     (if v = [] \<or> trim_units v = [] then Some ''must be a non-empty string''
      else if v \<noteq> trim_units v then Some ''must not have leading or trailing whitespace''
      else if length v > memory_id_max_length then Some ''exceeds max length 256''
      else if nfkc v \<noteq> v then Some ''must be NFKC-normalised''
      else if has_control_character v \<or> strip_unsafe_format v \<noteq> v then Some ''contains control or invisible characters''
      else if list_ex (includes_units v) [units ''..'', units ''/'', [92]] then Some ''contains a forbidden path fragment''
      else None)"

definition id_errors :: "(ustring \<Rightarrow> ustring) \<Rightarrow> string \<Rightarrow> ustring \<Rightarrow> string list" where
  "id_errors nfkc field v = (case memory_id_reason nfkc v of None \<Rightarrow> [] | Some r \<Rightarrow> [field @ '' '' @ r])"

definition timestamp_errors :: "string \<Rightarrow> js_number \<Rightarrow> string list" where
  "timestamp_errors field x = report (\<not> is_finite_non_negative x) (field @ '' must be a finite non-negative number'')"

definition optional_text_errors :: "string \<Rightarrow> nat \<Rightarrow> ustring option \<Rightarrow> string list" where
  "optional_text_errors field max_chars s =
     (case s of None \<Rightarrow> [] | Some t \<Rightarrow> report (\<not> is_safe_text max_chars t) (field @ '' must be a bounded control-free string when set''))"

definition nested_errors :: "string \<Rightarrow> string list \<Rightarrow> string list" where
  "nested_errors prefix es = map (\<lambda>e. prefix @ ''.'' @ e) es"

subsection \<open>Scopes and validity\<close>

definition scope_errors :: "memory_scope \<Rightarrow> string list" where
  "scope_errors s = (case s of
     GlobalScope \<Rightarrow> []
   | UserScope u \<Rightarrow> report (\<not> is_non_empty_trimmed u) ''scope.userId must be a non-empty string for kind=user''
   | WorkspaceScope w \<Rightarrow> report (\<not> is_non_empty_trimmed w) ''scope.workspaceId must be a non-empty string for kind=workspace''
   | ProjectScope p \<Rightarrow> report (\<not> is_non_empty_trimmed p) ''scope.projectId must be a non-empty string for kind=project''
   | WorkflowScope w \<Rightarrow> report (\<not> is_non_empty_trimmed w) ''scope.workflowDefinitionId must be a non-empty string for kind=workflow'')"

definition validity_errors :: "js_number \<Rightarrow> js_number option \<Rightarrow> string list" where
  "validity_errors valid_from valid_until =
     timestamp_errors ''validity.validFrom'' valid_from @
     (case valid_until of
        None \<Rightarrow> []
      | Some u \<Rightarrow>
          if \<not> is_finite_non_negative u then [''validity.validUntil must be a finite non-negative number when set'']
          else report (is_finite_non_negative valid_from \<and> the (finite_value u) < the (finite_value valid_from))
            ''validity.validUntil must be greater than or equal to validFrom'')"

subsection \<open>Envelopes\<close>

text \<open>Pins, unpins and archives have one shape.\<close>

record status_envelope =
  st_memory :: ustring
  st_reviewer :: ustring
  st_at :: js_number
  st_reason :: "ustring option"

definition status_errors :: "(ustring \<Rightarrow> ustring) \<Rightarrow> string \<Rightarrow> string \<Rightarrow> status_envelope \<Rightarrow> string list" where
  "status_errors nfkc noun field env =
     id_errors nfkc (noun @ ''.memoryId'') (st_memory env) @
     id_errors nfkc (noun @ ''.reviewerId'') (st_reviewer env) @
     timestamp_errors (noun @ ''.'' @ field) (st_at env) @
     optional_text_errors (noun @ ''.reason'') memory_reason_max (st_reason env)"

definition pin_errors :: "(ustring \<Rightarrow> ustring) \<Rightarrow> status_envelope \<Rightarrow> string list" where
  "pin_errors nfkc env = status_errors nfkc ''pin'' ''pinnedAt'' env"

definition unpin_errors :: "(ustring \<Rightarrow> ustring) \<Rightarrow> status_envelope \<Rightarrow> string list" where
  "unpin_errors nfkc env = status_errors nfkc ''unpin'' ''unpinnedAt'' env"

definition archive_errors :: "(ustring \<Rightarrow> ustring) \<Rightarrow> status_envelope \<Rightarrow> string list" where
  "archive_errors nfkc env = status_errors nfkc ''archive'' ''archivedAt'' env"

datatype forget_reason =
    UserRequest | ExplicitUserRequest | ExpireAge | ExpireProposal | EvictOverflow | ValidityExpired
  | ProposedFaintAgedOut | ArchivedRetention

record forget_envelope =
  fe_memory :: ustring
  fe_reviewer :: ustring
  fe_at :: js_number
  fe_reason :: forget_reason

definition forget_errors :: "(ustring \<Rightarrow> ustring) \<Rightarrow> forget_envelope \<Rightarrow> string list" where
  "forget_errors nfkc env =
     id_errors nfkc ''forget.memoryId'' (fe_memory env) @
     id_errors nfkc ''forget.reviewerId'' (fe_reviewer env) @
     timestamp_errors ''forget.forgottenAt'' (fe_at env)"

record supersession =
  su_old :: ustring
  su_new :: ustring
  su_reviewer :: ustring
  su_at :: js_number
  su_reason :: ustring

definition supersession_errors :: "(ustring \<Rightarrow> ustring) \<Rightarrow> supersession \<Rightarrow> string list" where
  "supersession_errors nfkc env =
     id_errors nfkc ''supersession.oldMemoryId'' (su_old env) @
     id_errors nfkc ''supersession.newMemoryId'' (su_new env) @
     report (is_non_empty_trimmed (su_old env) \<and> is_non_empty_trimmed (su_new env) \<and> su_old env = su_new env)
       ''supersession.oldMemoryId and supersession.newMemoryId must differ'' @
     id_errors nfkc ''supersession.reviewerId'' (su_reviewer env) @
     timestamp_errors ''supersession.supersededAt'' (su_at env) @
     report (\<not> is_safe_text memory_reason_max (su_reason env)) ''supersession.reason must be a bounded control-free non-empty string''"

text \<open>An update of the validity interval, the one patch that governance builds.\<close>

record validity_update =
  vu_memory :: ustring
  vu_reviewer :: ustring
  vu_at :: js_number
  vu_from :: js_number
  vu_until :: js_number

definition update_errors :: "(ustring \<Rightarrow> ustring) \<Rightarrow> validity_update \<Rightarrow> string list" where
  "update_errors nfkc env =
     id_errors nfkc ''update.memoryId'' (vu_memory env) @
     id_errors nfkc ''update.reviewerId'' (vu_reviewer env) @
     timestamp_errors ''update.updatedAt'' (vu_at env) @
     nested_errors ''update'' (validity_errors (vu_from env) (Some (vu_until env)))"

text \<open>A proposal, with the provenance governance gives it.\<close>

record proposal =
  pr_id :: ustring
  pr_at :: js_number
  pr_scope :: memory_scope
  pr_type :: memory_type
  pr_body :: ustring
  pr_tags :: "ustring list"
  pr_source :: memory_source
  pr_captured_at :: js_number
  pr_confidence :: real
  pr_sensitivity :: memory_sensitivity
  pr_valid_from :: js_number
  pr_reason :: ustring

definition proposal_errors :: "(ustring \<Rightarrow> ustring) \<Rightarrow> proposal \<Rightarrow> string list" where
  "proposal_errors nfkc env =
     id_errors nfkc ''proposal.proposalId'' (pr_id env) @
     timestamp_errors ''proposal.proposedAt'' (pr_at env) @
     nested_errors ''proposal'' (scope_errors (pr_scope env)) @
     report (\<not> is_safe_text memory_body_max (pr_body env)) ''proposal.body must be a bounded control-free non-empty string'' @
     tags_errors ''proposal.tags'' (pr_tags env) @
     nested_errors ''proposal''
       (timestamp_errors ''provenance.capturedAt'' (pr_captured_at env) @
        report (\<not> is_unit_interval (Num (pr_confidence env))) ''provenance.confidence must be a finite number in [0, 1]'') @
     nested_errors ''proposal'' (validity_errors (pr_valid_from env) None) @
     optional_text_errors ''proposal.captureReason'' memory_rationale_max (Some (pr_reason env))"

subsection \<open>Facts on the checks\<close>

lemma report_Nil [simp]: "report wrong m = [] \<longleftrightarrow> \<not> wrong"
  by (simp add: report_def)

lemma nested_Nil [simp]: "nested_errors p es = [] \<longleftrightarrow> es = []"
  by (simp add: nested_errors_def)

lemma id_errors_Nil [simp]: "id_errors nfkc field v = [] \<longleftrightarrow> memory_id_reason nfkc v = None"
  by (simp add: id_errors_def split: option.split)

lemma timestamp_errors_Nil [simp]: "timestamp_errors field x = [] \<longleftrightarrow> is_finite_non_negative x"
  by (simp add: timestamp_errors_def)

lemma is_finite_non_negative_Num [simp]: "is_finite_non_negative (Num r) \<longleftrightarrow> 0 \<le> r"
  by (simp add: is_finite_non_negative_def)

lemma concat_chars_of: "concat (chars_of s) = s"
  by (induction s rule: chars_of.induct) simp_all

end
