(* ===== verification/Memory_Governance.thy ===== *)
theory Memory_Governance
  imports Memory_Envelopes
begin

text \<open>
  The governance operations on memories (\<open>keiko-memory-governance/src\<close>): pins, archives, forgetting,
  corrections, expiry, suppression, and the detection and resolution of conflicts. A builder either
  throws, and gives the code of its error, or gives an envelope its validator accepts. The details of
  an error are not modelled.
\<close>

datatype governance_error =
    EnvelopeInvalid "string list"
  | IllegalStatusTransition memory_status memory_status
  | InvalidResolution
  | InvalidThreshold
  | InvalidValidityWindow
  | IdempotentNoop
  | InvalidSelectorInput
  | MemoryNotEligible
  | AcknowledgementRequired

record governance_context =
  gc_reviewer :: ustring
  gc_now :: js_number

text \<open>The end of every builder: the envelope, if its validator has nothing to report.\<close>

definition checked :: "'a \<Rightarrow> string list \<Rightarrow> governance_error + 'a" where
  "checked env errors = (if errors \<noteq> [] then Inl (EnvelopeInvalid errors) else Inr env)"

subsection \<open>Pins and archives\<close>

definition build_pin :: "(ustring \<Rightarrow> ustring) \<Rightarrow> memory_record \<Rightarrow> governance_context \<Rightarrow> ustring option \<Rightarrow> governance_error + status_envelope" where
  "build_pin nfkc m ctx reason =
     (if mr_pinned m then Inl IdempotentNoop
      else let env = \<lparr> st_memory = mr_id m, st_reviewer = gc_reviewer ctx, st_at = gc_now ctx, st_reason = reason \<rparr>
        in checked env (pin_errors nfkc env))"

definition build_unpin :: "(ustring \<Rightarrow> ustring) \<Rightarrow> memory_record \<Rightarrow> governance_context \<Rightarrow> ustring option \<Rightarrow> governance_error + status_envelope" where
  "build_unpin nfkc m ctx reason =
     (if \<not> mr_pinned m then Inl IdempotentNoop
      else let env = \<lparr> st_memory = mr_id m, st_reviewer = gc_reviewer ctx, st_at = gc_now ctx, st_reason = reason \<rparr>
        in checked env (unpin_errors nfkc env))"

definition assert_archivable :: "memory_record \<Rightarrow> governance_error + unit" where
  "assert_archivable m =
     (if mr_status m = MemArchived then Inl IdempotentNoop
      else if mr_status m = MemForgotten then Inl MemoryNotEligible
      else if check_status_transition (mr_status m) MemArchived \<noteq> TransitionOk
      then Inl (IllegalStatusTransition (mr_status m) MemArchived) else Inr ())"

definition build_archive :: "(ustring \<Rightarrow> ustring) \<Rightarrow> memory_record \<Rightarrow> governance_context \<Rightarrow> ustring option \<Rightarrow> governance_error + status_envelope" where
  "build_archive nfkc m ctx reason = rbind (assert_archivable m) (\<lambda>_.
     let env = \<lparr> st_memory = mr_id m, st_reviewer = gc_reviewer ctx, st_at = gc_now ctx, st_reason = reason \<rparr>
     in checked env (archive_errors nfkc env))"

subsection \<open>Forgetting\<close>

datatype forget_selector =
    ById ustring
  | ByScope memory_scope
  | ByType memory_scope memory_type
  | BySourceConversation memory_scope ustring
  | ByTimeWindow memory_scope js_number

definition scope_equals :: "memory_scope \<Rightarrow> memory_scope \<Rightarrow> bool" where
  "scope_equals a b \<longleftrightarrow> scope_coordinate_key a = scope_coordinate_key b"

definition assert_selector_well_formed :: "forget_selector \<Rightarrow> governance_error + unit" where
  "assert_selector_well_formed sel = (case sel of
     ByTimeWindow _ age \<Rightarrow> if is_finite_non_negative age then Inr () else Inl InvalidSelectorInput
   | _ \<Rightarrow> Inr ())"

definition apply_selector :: "memory_record \<Rightarrow> forget_selector \<Rightarrow> real \<Rightarrow> bool" where
  "apply_selector m sel now = (case sel of
     ById i \<Rightarrow> mr_id m = i
   | ByScope s \<Rightarrow> scope_equals (mr_scope m) s
   | ByType s t \<Rightarrow> scope_equals (mr_scope m) s \<and> mr_type m = t
   | BySourceConversation s c \<Rightarrow> scope_equals (mr_scope m) s \<and> mp_conversation (mr_provenance m) = Some c
   | ByTimeWindow s age \<Rightarrow> scope_equals (mr_scope m) s \<and>
       (case finite_value age of Some a \<Rightarrow> mr_created_at m \<le> now - a | None \<Rightarrow> False))"

record select_options =
  so_now :: real
  so_protect_pinned :: "bool option"
  so_protect_archived :: "bool option"

definition select_memories_for_forget :: "memory_record list \<Rightarrow> forget_selector \<Rightarrow> select_options \<Rightarrow> governance_error + memory_record list" where
  "select_memories_for_forget ms sel opts = rbind (assert_selector_well_formed sel) (\<lambda>_.
     let protect_pinned = (case so_protect_pinned opts of None \<Rightarrow> True | Some b \<Rightarrow> b);
         protect_archived = (case so_protect_archived opts of None \<Rightarrow> False | Some b \<Rightarrow> b)
     in Inr (filter (\<lambda>m. \<not> (protect_pinned \<and> mr_pinned m) \<and> \<not> (protect_archived \<and> mr_status m = MemArchived) \<and>
          mr_status m \<noteq> MemForgotten \<and> apply_selector m sel (so_now opts)) ms))"

record forget_options =
  fo_reason :: "forget_reason option"
  fo_acknowledged :: "ustring list option"

definition assert_forgettable :: "memory_record \<Rightarrow> governance_error + unit" where
  "assert_forgettable m =
     (if check_status_transition (mr_status m) MemForgotten = TransitionOk then Inr ()
      else Inl (IllegalStatusTransition (mr_status m) MemForgotten))"

definition assert_archived_forget_acknowledged :: "memory_record \<Rightarrow> forget_options \<Rightarrow> governance_error + unit" where
  "assert_archived_forget_acknowledged m opts =
     (if mr_status m = MemArchived \<and> \<not> (case fo_acknowledged opts of None \<Rightarrow> False | Some ids \<Rightarrow> mr_id m \<in> set ids)
      then Inl AcknowledgementRequired else Inr ())"

definition build_forget_envelope ::
  "(ustring \<Rightarrow> ustring) \<Rightarrow> governance_context \<Rightarrow> forget_options \<Rightarrow> memory_record \<Rightarrow> governance_error + forget_envelope" where
  "build_forget_envelope nfkc ctx opts m =
     rbind (assert_forgettable m) (\<lambda>_. rbind (assert_archived_forget_acknowledged m opts) (\<lambda>_.
       let env = \<lparr> fe_memory = mr_id m, fe_reviewer = gc_reviewer ctx, fe_at = gc_now ctx,
             fe_reason = (case fo_reason opts of None \<Rightarrow> UserRequest | Some r \<Rightarrow> r) \<rparr>
       in checked env (forget_errors nfkc env)))"

definition build_forget_operations ::
  "(ustring \<Rightarrow> ustring) \<Rightarrow> memory_record list \<Rightarrow> governance_context \<Rightarrow> forget_options \<Rightarrow> governance_error + forget_envelope list" where
  "build_forget_operations nfkc ms ctx opts = rmap (build_forget_envelope nfkc ctx opts) ms"

subsection \<open>Corrections\<close>

record correction_input =
  ci_older :: memory_record
  ci_body :: ustring
  ci_context :: governance_context
  ci_proposal_id :: ustring
  ci_memory_id :: ustring
  ci_sensitivity :: "memory_sensitivity option"
  ci_reason :: "ustring option"

definition correction_reason :: "correction_input \<Rightarrow> ustring" where
  "correction_reason input = (case ci_reason input of None \<Rightarrow> units ''user-issued correction'' | Some r \<Rightarrow> r)"

definition build_proposal :: "correction_input \<Rightarrow> proposal" where
  "build_proposal input =
     (let older = ci_older input; ctx = ci_context input
      in \<lparr> pr_id = ci_proposal_id input, pr_at = gc_now ctx, pr_scope = mr_scope older, pr_type = CorrectionMemory,
           pr_body = ci_body input, pr_tags = mr_tags older, pr_source = AcceptedCorrection, pr_captured_at = gc_now ctx,
           pr_confidence = mp_confidence (mr_provenance older),
           pr_sensitivity = (case ci_sensitivity input of None \<Rightarrow> mp_sensitivity (mr_provenance older) | Some s \<Rightarrow> s),
           pr_valid_from = gc_now ctx, pr_reason = correction_reason input \<rparr>)"

definition build_supersession :: "correction_input \<Rightarrow> supersession" where
  "build_supersession input = \<lparr> su_old = mr_id (ci_older input), su_new = ci_memory_id input,
     su_reviewer = gc_reviewer (ci_context input), su_at = gc_now (ci_context input), su_reason = correction_reason input \<rparr>"

definition build_correction :: "(ustring \<Rightarrow> ustring) \<Rightarrow> correction_input \<Rightarrow> governance_error + proposal \<times> supersession" where
  "build_correction nfkc input =
     (if mr_id (ci_older input) = ci_memory_id input then Inl InvalidResolution
      else let p = build_proposal input; s = build_supersession input
        in rbind (checked p (proposal_errors nfkc p)) (\<lambda>_. rbind (checked s (supersession_errors nfkc s)) (\<lambda>_. Inr (p, s))))"

subsection \<open>Expiry\<close>

definition superseded_validity :: "memory_record \<Rightarrow> js_number \<Rightarrow> validity_interval option" where
  "superseded_validity m now =
     (case finite_value now of
        None \<Rightarrow> None
      | Some t \<Rightarrow>
          if t \<le> vi_from (mr_validity m) then None
          else if (case vi_until (mr_validity m) of None \<Rightarrow> False | Some u \<Rightarrow> u \<le> t) then None
          else Some \<lparr> vi_from = vi_from (mr_validity m), vi_until = Some t \<rparr>)"

definition build_expiration_update ::
  "(ustring \<Rightarrow> ustring) \<Rightarrow> memory_record \<Rightarrow> js_number \<Rightarrow> governance_context \<Rightarrow> governance_error + validity_update" where
  "build_expiration_update nfkc m until ctx =
     (case finite_value until of
        None \<Rightarrow> Inl InvalidValidityWindow
      | Some u \<Rightarrow>
          if u \<le> vi_from (mr_validity m) then Inl InvalidValidityWindow
          else let env = \<lparr> vu_memory = mr_id m, vu_reviewer = gc_reviewer ctx, vu_at = gc_now ctx,
                 vu_from = Num (vi_from (mr_validity m)), vu_until = until \<rparr>
            in checked env (update_errors nfkc env))"

subsection \<open>Suppression from retrieval\<close>

datatype suppression_reason =
    SuppressedArchived | SuppressedForgotten | SuppressedConflicted | SuppressedExpired | SuppressedProposed
  | SuppressedRejected | SuppressedStale

fun status_suppression :: "memory_status \<Rightarrow> suppression_reason option" where
  "status_suppression MemArchived = Some SuppressedArchived"
| "status_suppression MemForgotten = Some SuppressedForgotten"
| "status_suppression MemConflicted = Some SuppressedConflicted"
| "status_suppression MemRejected = Some SuppressedRejected"
| "status_suppression MemExpired = Some SuppressedExpired"
| "status_suppression MemProposed = Some SuppressedProposed"
| "status_suppression MemAccepted = None"
| "status_suppression MemSuperseded = None"

definition validity_suppression :: "memory_record \<Rightarrow> real \<Rightarrow> suppression_reason option" where
  "validity_suppression m now =
     (case vi_until (mr_validity m) of
        None \<Rightarrow> None
      | Some u \<Rightarrow> if u > now then None else Some SuppressedExpired)"

definition confidence_suppression :: "memory_record \<Rightarrow> real \<Rightarrow> suppression_reason option" where
  "confidence_suppression m threshold =
     (if mp_confidence (mr_provenance m) > threshold then None else Some SuppressedStale)"

definition resolve_threshold :: "js_number option \<Rightarrow> governance_error + real" where
  "resolve_threshold t =
     (let x = (case t of None \<Rightarrow> Num (3 / 10) | Some y \<Rightarrow> y)
      in if is_unit_interval x then Inr (the (finite_value x)) else Inl InvalidThreshold)"

definition is_memory_suppressed_from_retrieval ::
  "memory_record \<Rightarrow> real \<Rightarrow> js_number option \<Rightarrow> governance_error + suppression_reason option" where
  "is_memory_suppressed_from_retrieval m now options = rbind (resolve_threshold options) (\<lambda>threshold. Inr
     (case status_suppression (mr_status m) of
        Some r \<Rightarrow> Some r
      | None \<Rightarrow> (case validity_suppression m now of
          Some r \<Rightarrow> Some r
        | None \<Rightarrow> confidence_suppression m threshold)))"

end
