(* ===== verification/Memory_Conflict.thy ===== *)
theory Memory_Conflict
  imports Memory_Governance
begin

text \<open>
  The detection of conflicting memories and the transitions that resolve a conflict
  (\<open>keiko-memory-governance/src/conflict.ts\<close>).
\<close>

subsection \<open>Bodies as tokens\<close>

text \<open>
  \<open>toLowerCase\<close> as far as it matters here: besides the ASCII letters only the Kelvin sign and the
  dotted capital I become ASCII letters, and \<open>mapCharToSafe\<close> drops all others.
\<close>

definition lower_unit :: "nat \<Rightarrow> ustring" where
  "lower_unit c =
     (if 65 \<le> c \<and> c \<le> 90 then [c + 32] else if c = 0x212A then [107] else if c = 0x130 then [105, 0x307] else [c])"

definition to_lower :: "ustring \<Rightarrow> ustring" where
  "to_lower s = concat (map lower_unit s)"

definition map_char_to_safe :: "ustring \<Rightarrow> ustring" where
  "map_char_to_safe ch =
     (let code = code_point ch
      in if 97 \<le> code \<and> code \<le> 122 \<or> 48 \<le> code \<and> code \<le> 57 then ch
         else if ch \<in> {[32], [9], [10], [13]} then [32] else [])"

fun collapse_loop :: "bool \<Rightarrow> ustring \<Rightarrow> ustring" where
  "collapse_loop prev_space [] = []"
| "collapse_loop prev_space (c # r) =
     (if c = 32 \<and> prev_space then collapse_loop prev_space r else c # collapse_loop (c = 32) r)"

definition collapse_spaces :: "ustring \<Rightarrow> ustring" where
  "collapse_spaces s = trim_units (collapse_loop False s)"

definition normalize_body :: "ustring \<Rightarrow> ustring" where
  "normalize_body body = collapse_spaces (concat (map map_char_to_safe (chars_of (to_lower body))))"

text \<open>\<open>split(" ")\<close>.\<close>

fun split_spaces :: "ustring \<Rightarrow> ustring \<Rightarrow> ustring list" where
  "split_spaces word [] = [rev word]"
| "split_spaces word (c # r) = (if c = 32 then rev word # split_spaces [] r else split_spaces (c # word) r)"

definition tokenize_body :: "ustring \<Rightarrow> ustring list" where
  "tokenize_body body = (let norm = normalize_body body in if norm = [] then [] else split_spaces [] norm)"

definition jaccard_similarity :: "ustring \<Rightarrow> ustring \<Rightarrow> real" where
  "jaccard_similarity a b =
     (let a_tokens = remdups (tokenize_body a); b_tokens = remdups (tokenize_body b)
      in if a_tokens = [] \<and> b_tokens = [] then 1
         else let intersect = length (filter (\<lambda>t. t \<in> set b_tokens) a_tokens);
                  both = length a_tokens + length b_tokens - intersect
              in if both = 0 then 0 else real intersect / real both)"

definition governance_negation_tiers :: "negation_tier list" where
  "governance_negation_tiers = [EnglishParticle]"

definition has_negation :: "ustring \<Rightarrow> bool" where
  "has_negation body = has_negation_token (tokenize_body body) (negation_tokens governance_negation_tiers)"

definition affirm_markers :: "ustring list" where
  "affirm_markers = map units ['' yes '', '' true '', '' correct '', '' confirmed '']"

definition deny_markers :: "ustring list" where
  "deny_markers = map units ['' no '', '' false '', '' wrong '', '' denied '']"

definition has_any_marker :: "ustring \<Rightarrow> ustring list \<Rightarrow> bool" where
  "has_any_marker body markers = list_ex (includes_units ([32] @ normalize_body body @ [32])) markers"

subsection \<open>Detection\<close>

datatype conflict_reason = NegationFlip | PolarityMismatch | ValueMismatch

definition conflict_overlap_threshold :: real where
  "conflict_overlap_threshold = 4 / 10"

definition dedup_overlap_threshold :: real where
  "dedup_overlap_threshold = 85 / 100"

definition different_scope_or_type :: "memory_record \<Rightarrow> memory_record \<Rightarrow> bool" where
  "different_scope_or_type a b \<longleftrightarrow>
     mr_type a \<noteq> mr_type b \<or> scope_coordinate_key (mr_scope a) \<noteq> scope_coordinate_key (mr_scope b)"

definition detect_conflict_pair :: "memory_record \<Rightarrow> memory_record \<Rightarrow> conflict_reason option" where
  "detect_conflict_pair a b =
     (if different_scope_or_type a b then None
      else let overlap = jaccard_similarity (mr_body a) (mr_body b)
        in if overlap < conflict_overlap_threshold then None
           else if has_negation (mr_body a) \<noteq> has_negation (mr_body b) then Some NegationFlip
           else if has_any_marker (mr_body a) affirm_markers \<and> has_any_marker (mr_body b) deny_markers \<or>
             has_any_marker (mr_body a) deny_markers \<and> has_any_marker (mr_body b) affirm_markers then Some PolarityMismatch
           else if mr_body a \<noteq> mr_body b \<and> overlap < dedup_overlap_threshold then Some ValueMismatch
           else None)"

subsection \<open>Resolution\<close>

record status_change =
  sc_memory :: ustring
  sc_from :: memory_status
  sc_to :: memory_status
  sc_at :: js_number

record conflict_resolution =
  cr_winner :: ustring
  cr_losers :: "ustring list"

definition index_by_id :: "memory_record list \<Rightarrow> (ustring \<rightharpoonup> memory_record)" where
  "index_by_id ms = fold (\<lambda>m f. f(mr_id m \<mapsto> m)) ms Map.empty"

definition assert_resolution_well_formed :: "conflict_resolution \<Rightarrow> (ustring \<rightharpoonup> memory_record) \<Rightarrow> governance_error + unit" where
  "assert_resolution_well_formed r index =
     (if cr_losers r = [] then Inl InvalidResolution
      else if index (cr_winner r) = None then Inl InvalidResolution
      else if list_ex (\<lambda>l. l = cr_winner r \<or> index l = None) (cr_losers r) then Inl InvalidResolution
      else Inr ())"

definition build_loser_transition :: "memory_record \<Rightarrow> js_number \<Rightarrow> memory_status \<Rightarrow> governance_error + status_change" where
  "build_loser_transition loser now target =
     (if check_status_transition (mr_status loser) target \<noteq> TransitionOk
      then Inl (IllegalStatusTransition (mr_status loser) target)
      else Inr \<lparr> sc_memory = mr_id loser, sc_from = mr_status loser, sc_to = target, sc_at = now \<rparr>)"

definition build_loser_supersession :: "(ustring \<Rightarrow> ustring) \<Rightarrow> ustring \<Rightarrow> ustring \<Rightarrow> governance_context \<Rightarrow> governance_error + supersession" where
  "build_loser_supersession nfkc loser winner ctx =
     (let env = \<lparr> su_old = loser, su_new = winner, su_reviewer = gc_reviewer ctx, su_at = gc_now ctx,
        su_reason = units ''conflict-resolution'' \<rparr>
      in checked env (supersession_errors nfkc env))"

definition build_conflict_transitions ::
  "(ustring \<Rightarrow> ustring) \<Rightarrow> memory_record list \<Rightarrow> conflict_resolution \<Rightarrow> governance_context \<Rightarrow>
     governance_error + supersession list \<times> status_change list" where
  "build_conflict_transitions nfkc ms r ctx =
     (let index = index_by_id ms
      in rbind (assert_resolution_well_formed r index) (\<lambda>_.
         rbind (rmap (\<lambda>l. (case index l of
             None \<Rightarrow> Inl InvalidResolution
           | Some loser \<Rightarrow> rbind (build_loser_transition loser (gc_now ctx) MemConflicted) (\<lambda>t.
               rbind (build_loser_supersession nfkc l (cr_winner r) ctx) (\<lambda>s. Inr (s, t))))) (cr_losers r))
         (\<lambda>pairs. Inr (map fst pairs, map snd pairs))))"

subsection \<open>Facts\<close>

lemma jaccard_symmetric: "jaccard_similarity a b = jaccard_similarity b a"
proof -
  let ?a = "remdups (tokenize_body a)" and ?b = "remdups (tokenize_body b)"
  have "length (filter (\<lambda>t. t \<in> set ?b) ?a) = card (set ?a \<inter> set ?b)"
    by (simp add: distinct_length_filter Int_commute)
  moreover have "length (filter (\<lambda>t. t \<in> set ?a) ?b) = card (set ?a \<inter> set ?b)"
    by (simp add: distinct_length_filter)
  ultimately show ?thesis unfolding jaccard_similarity_def Let_def
    by (simp only: add.commute [of "length ?a"] conj_commute [of "?a = []"])
qed

lemma jaccard_range: "0 \<le> jaccard_similarity a b" "jaccard_similarity a b \<le> 1"
proof -
  let ?a = "remdups (tokenize_body a)" and ?b = "remdups (tokenize_body b)"
  let ?i = "length (filter (\<lambda>t. t \<in> set ?b) ?a)"
  have "?i \<le> length ?a" by simp
  moreover have "?i = card (set ?a \<inter> set ?b)" by (simp add: distinct_length_filter Int_commute)
  moreover have "card (set ?a \<inter> set ?b) \<le> length ?b"
    by (metis Int_lower2 List.finite_set card_mono distinct_card distinct_remdups)
  ultimately have "2 * ?i \<le> length ?a + length ?b" by linarith
  then show "0 \<le> jaccard_similarity a b" "jaccard_similarity a b \<le> 1"
    unfolding jaccard_similarity_def Let_def by (simp_all add: divide_le_eq_1)
qed

lemma index_by_id_Some: "index_by_id ms i = Some m \<Longrightarrow> m \<in> set ms \<and> mr_id m = i"
proof (induction ms rule: rev_induct)
  case (snoc x xs)
  then show ?case by (auto simp: index_by_id_def split: if_splits)
qed (simp add: index_by_id_def)

end
