(* ===== verification/Memory_Maintenance.thy ===== *)
theory Memory_Maintenance
  imports Memory_Conflict
begin

text \<open>
  The maintenance planner (\<open>keiko-memory-governance/src/maintenance.ts\<close>): the strength of a memory, the
  one decision the unattended pass makes about it, and the acknowledged plan for archived memories.
  \<open>collate\<close> is the runtime's \<open>localeCompare\<close>. A policy is the defaults with the caller's fields put
  over them; its half-life is not zero.
\<close>

subsection \<open>Strength\<close>

record access_stat =
  as_last :: real
  as_count :: real
  as_outcomes :: "real option"
  as_utility :: "real option"

record maintenance_policy =
  po_half_life :: real
  po_promote_strength :: real
  po_archive_max_strength :: real
  po_archive_min_age :: real
  po_forget_archived_min_age :: real
  po_forget_proposed_max_strength :: real
  po_forget_proposed_min_age :: real
  po_max_forget :: nat
  po_multipliers :: "(memory_type \<Rightarrow> js_number option) option"

definition day_ms :: real where
  "day_ms = 86400000"

definition maintenance_defaults :: maintenance_policy where
  "maintenance_defaults = \<lparr> po_half_life = 45 * day_ms, po_promote_strength = 45 / 100, po_archive_max_strength = 2 / 10,
     po_archive_min_age = 3 * day_ms, po_forget_archived_min_age = 30 * day_ms, po_forget_proposed_max_strength = 1 / 10,
     po_forget_proposed_min_age = 14 * day_ms, po_max_forget = 25, po_multipliers = None \<rparr>"

definition type_half_life :: "memory_record \<Rightarrow> real \<Rightarrow> (memory_type \<Rightarrow> js_number option) option \<Rightarrow> real" where
  "type_half_life m half_life multipliers =
     (case multipliers of None \<Rightarrow> half_life | Some f \<Rightarrow> half_life * decay_half_life_multiplier (mr_type m) f)"

definition last_touch :: "memory_record \<Rightarrow> access_stat option \<Rightarrow> real" where
  "last_touch m stat = (case stat of None \<Rightarrow> mr_created_at m | Some s \<Rightarrow> if as_count s > 0 then as_last s else mr_created_at m)"

definition recency_factor :: "memory_record \<Rightarrow> access_stat option \<Rightarrow> real \<Rightarrow> real \<Rightarrow> real" where
  "recency_factor m stat now half_life = exp (- ln 2 * (now - last_touch m stat) / half_life)"

definition access_count :: "access_stat option \<Rightarrow> real" where
  "access_count stat = (case stat of None \<Rightarrow> 0 | Some s \<Rightarrow> as_count s)"

definition utility_factor :: "access_stat option \<Rightarrow> real" where
  "utility_factor stat =
     (let count = (case Option.bind stat as_outcomes of None \<Rightarrow> 0 | Some n \<Rightarrow> n)
      in if count \<le> 0 then 1
         else 1 / 2 + clamp_unit ((case Option.bind stat as_utility of None \<Rightarrow> 0 | Some u \<Rightarrow> u) / count))"

definition effective_strength ::
  "memory_record \<Rightarrow> access_stat option \<Rightarrow> real \<Rightarrow> real \<Rightarrow> (memory_type \<Rightarrow> js_number option) option \<Rightarrow> real" where
  "effective_strength m stat now half_life multipliers =
     (if mr_pinned m then 1
      else clamp_unit (mp_confidence (mr_provenance m) * (1 + 15 / 100 * ln (1 + access_count stat)) *
        recency_factor m stat now (type_half_life m half_life multipliers) * utility_factor stat))"

subsection \<open>Decisions\<close>

record record_context =
  rc_record :: memory_record
  rc_strength :: real
  rc_age :: real
  rc_accesses :: real

datatype maintenance_decision =
    DecideForget forget_reason
  | DecideExpire forget_reason
  | DecideArchive
  | DecidePromote
  | DecideNone

definition is_validity_expired :: "memory_record \<Rightarrow> real \<Rightarrow> bool" where
  "is_validity_expired m now = (case vi_until (mr_validity m) of None \<Rightarrow> False | Some u \<Rightarrow> u \<le> now)"

definition should_forget :: "record_context \<Rightarrow> real \<Rightarrow> forget_reason option" where
  "should_forget c now =
     (if is_validity_expired (rc_record c) now \<and> mr_status (rc_record c) \<noteq> MemAccepted \<and>
        mr_status (rc_record c) \<noteq> MemArchived then Some ValidityExpired else None)"

definition should_expire :: "record_context \<Rightarrow> maintenance_policy \<Rightarrow> forget_reason option" where
  "should_expire c p =
     (if mr_status (rc_record c) = MemProposed \<and> rc_strength c < po_forget_proposed_max_strength p \<and>
        rc_accesses c = 0 \<and> rc_age c > po_forget_proposed_min_age p then Some ProposedFaintAgedOut else None)"

definition should_archive :: "record_context \<Rightarrow> maintenance_policy \<Rightarrow> bool" where
  "should_archive c p \<longleftrightarrow> mr_status (rc_record c) = MemAccepted \<and> rc_strength c < po_archive_max_strength p \<and>
     rc_age c > po_archive_min_age p"

definition should_promote :: "record_context \<Rightarrow> maintenance_policy \<Rightarrow> bool" where
  "should_promote c p \<longleftrightarrow> mr_status (rc_record c) = MemProposed \<and>
     mp_sensitivity (mr_provenance (rc_record c)) = PublicMemory \<and> rc_strength c \<ge> po_promote_strength p"

definition decide_for_live :: "record_context \<Rightarrow> maintenance_policy \<Rightarrow> real \<Rightarrow> maintenance_decision" where
  "decide_for_live c p now =
     (let promotion = (if should_promote c p then DecidePromote else DecideNone)
      in if mr_pinned (rc_record c) then promotion
         else case should_forget c now of
           Some r \<Rightarrow> DecideForget r
         | None \<Rightarrow> (case should_expire c p of
             Some r \<Rightarrow> DecideExpire r
           | None \<Rightarrow> if should_archive c p then DecideArchive else promotion))"

definition build_record_context :: "memory_record \<Rightarrow> access_stat option \<Rightarrow> real \<Rightarrow> maintenance_policy \<Rightarrow> record_context" where
  "build_record_context m stat now p = \<lparr> rc_record = m,
     rc_strength = effective_strength m stat now (po_half_life p) (po_multipliers p),
     rc_age = now - mr_created_at m, rc_accesses = access_count stat \<rparr>"

subsection \<open>The plan\<close>

record fade_candidate =
  fc_id :: ustring
  fc_reason :: forget_reason
  fc_strength :: real

record plan_accumulator =
  pa_promote :: "ustring list"
  pa_archive :: "ustring list"
  pa_expire :: "fade_candidate list"
  pa_forget :: "fade_candidate list"

definition apply_decision :: "record_context \<Rightarrow> maintenance_decision \<Rightarrow> plan_accumulator \<Rightarrow> plan_accumulator" where
  "apply_decision c d acc =
     (let i = mr_id (rc_record c)
      in case d of
           DecideForget r \<Rightarrow> acc\<lparr> pa_forget := pa_forget acc @ [\<lparr> fc_id = i, fc_reason = r, fc_strength = rc_strength c \<rparr>] \<rparr>
         | DecideExpire r \<Rightarrow> acc\<lparr> pa_expire := pa_expire acc @ [\<lparr> fc_id = i, fc_reason = r, fc_strength = rc_strength c \<rparr>] \<rparr>
         | DecideArchive \<Rightarrow> acc\<lparr> pa_archive := pa_archive acc @ [i] \<rparr>
         | DecidePromote \<Rightarrow> acc\<lparr> pa_promote := pa_promote acc @ [i] \<rparr>
         | DecideNone \<Rightarrow> acc)"

definition fade_before :: "(ustring \<Rightarrow> ustring \<Rightarrow> int) \<Rightarrow> fade_candidate \<Rightarrow> fade_candidate \<Rightarrow> bool" where
  "fade_before collate a b =
     (if fc_strength a \<noteq> fc_strength b then fc_strength a < fc_strength b else collate (fc_id a) (fc_id b) < 0)"

definition bound_fade :: "(ustring \<Rightarrow> ustring \<Rightarrow> int) \<Rightarrow> fade_candidate list \<Rightarrow> nat \<Rightarrow> (ustring \<times> forget_reason) list" where
  "bound_fade collate cs max_per_run =
     map (\<lambda>c. (fc_id c, fc_reason c)) (take max_per_run (sort_by (fade_before collate) cs))"

record maintenance_plan =
  pl_promote :: "ustring list"
  pl_archive :: "ustring list"
  pl_expire :: "(ustring \<times> forget_reason) list"
  pl_forget :: "(ustring \<times> forget_reason) list"

definition plan_step ::
  "(ustring \<rightharpoonup> access_stat) \<Rightarrow> maintenance_policy \<Rightarrow> real \<Rightarrow> memory_record \<Rightarrow> plan_accumulator \<Rightarrow> plan_accumulator" where
  "plan_step stats p now m acc =
     (if mr_status m = MemArchived then acc
      else let c = build_record_context m (stats (mr_id m)) now p in apply_decision c (decide_for_live c p now) acc)"

definition plan_decisions ::
  "memory_record list \<Rightarrow> (ustring \<rightharpoonup> access_stat) \<Rightarrow> maintenance_policy \<Rightarrow> real \<Rightarrow> plan_accumulator" where
  "plan_decisions ms stats p now =
     fold (plan_step stats p now) ms \<lparr> pa_promote = [], pa_archive = [], pa_expire = [], pa_forget = [] \<rparr>"

definition plan_memory_maintenance ::
  "(ustring \<Rightarrow> ustring \<Rightarrow> int) \<Rightarrow> memory_record list \<Rightarrow> (ustring \<rightharpoonup> access_stat) \<Rightarrow> maintenance_policy \<Rightarrow> real \<Rightarrow> maintenance_plan" where
  "plan_memory_maintenance collate ms stats p now =
     (let acc = plan_decisions ms stats p now
      in \<lparr> pl_promote = pa_promote acc, pl_archive = pa_archive acc,
           pl_expire = bound_fade collate (pa_expire acc) (po_max_forget p),
           pl_forget = bound_fade collate (pa_forget acc) (po_max_forget p) \<rparr>)"

definition plan_acknowledged_archived_forgets ::
  "(ustring \<Rightarrow> ustring \<Rightarrow> int) \<Rightarrow> memory_record list \<Rightarrow> real \<Rightarrow> maintenance_policy \<Rightarrow> bool \<Rightarrow>
     governance_error + (ustring \<times> forget_reason) list" where
  "plan_acknowledged_archived_forgets collate ms now p acknowledged =
     (if \<not> acknowledged then Inl AcknowledgementRequired
      else Inr (map (\<lambda>m. (mr_id m, ArchivedRetention))
        (take (po_max_forget p) (sort_by (\<lambda>a b. collate (mr_id a) (mr_id b) < 0)
          (filter (\<lambda>m. mr_status m = MemArchived \<and> \<not> mr_pinned m \<and>
             now - mr_updated_at m \<ge> po_forget_archived_min_age p) ms)))))"

end
