(* ===== verification/Memory_Properties.thy ===== *)
theory Memory_Properties
  imports Memory_Maintenance
begin

text \<open>
  What governance promises: the unattended pass destroys nothing a person has not given up, its
  decisions do not change back by waiting, forgetting needs consent, conflicts are seen from both sides
  alike, and a superseded memory keeps its past.
\<close>

subsection \<open>The decision about a memory\<close>

definition decision_for :: "(ustring \<rightharpoonup> access_stat) \<Rightarrow> maintenance_policy \<Rightarrow> real \<Rightarrow> memory_record \<Rightarrow> maintenance_decision" where
  "decision_for stats p now m =
     (if mr_status m = MemArchived then DecideNone
      else decide_for_live (build_record_context m (stats (mr_id m)) now p) p now)"

definition strength_at :: "(ustring \<rightharpoonup> access_stat) \<Rightarrow> maintenance_policy \<Rightarrow> real \<Rightarrow> memory_record \<Rightarrow> real" where
  "strength_at stats p now m = effective_strength m (stats (mr_id m)) now (po_half_life p) (po_multipliers p)"

text \<open>The members of a list on which the pass decides alike.\<close>

definition decided ::
  "(ustring \<rightharpoonup> access_stat) \<Rightarrow> maintenance_policy \<Rightarrow> real \<Rightarrow> (maintenance_decision \<Rightarrow> bool) \<Rightarrow> memory_record list \<Rightarrow> memory_record list" where
  "decided stats p now sel ms = filter (\<lambda>m. sel (decision_for stats p now m)) ms"

lemma build_context_simps [simp]:
  "rc_record (build_record_context m stat now p) = m" "rc_age (build_record_context m stat now p) = now - mr_created_at m"
  "rc_accesses (build_record_context m stat now p) = access_count stat"
  "rc_strength (build_record_context m stat now p) = effective_strength m stat now (po_half_life p) (po_multipliers p)"
  by (simp_all add: build_record_context_def)

lemma plan_decisions_lists:
  "pa_promote (plan_decisions ms stats p now) = map mr_id (decided stats p now (\<lambda>d. d = DecidePromote) ms)"
  "pa_archive (plan_decisions ms stats p now) = map mr_id (decided stats p now (\<lambda>d. d = DecideArchive) ms)"
  "map fc_id (pa_expire (plan_decisions ms stats p now)) = map mr_id (decided stats p now (\<lambda>d. \<exists>r. d = DecideExpire r) ms)"
  "map fc_id (pa_forget (plan_decisions ms stats p now)) = map mr_id (decided stats p now (\<lambda>d. \<exists>r. d = DecideForget r) ms)"
proof (induction ms rule: rev_induct)
  case (snoc m ms)
  have step: "plan_decisions (ms @ [m]) stats p now = plan_step stats p now m (plan_decisions ms stats p now)"
    by (simp add: plan_decisions_def)
  { case 1 then show ?case using snoc unfolding step
      by (simp add: plan_step_def decided_def decision_for_def apply_decision_def Let_def split: maintenance_decision.split) }
  { case 2 then show ?case using snoc unfolding step
      by (simp add: plan_step_def decided_def decision_for_def apply_decision_def Let_def split: maintenance_decision.split) }
  { case 3 then show ?case using snoc unfolding step
      by (simp add: plan_step_def decided_def decision_for_def apply_decision_def Let_def split: maintenance_decision.split) }
  { case 4 then show ?case using snoc unfolding step
      by (simp add: plan_step_def decided_def decision_for_def apply_decision_def Let_def split: maintenance_decision.split) }
qed (simp_all add: plan_decisions_def decided_def)

text \<open>A candidate for fading is a member of the list, with its strength and the reason decided.\<close>

lemma fade_candidate_sound:
  "c \<in> set (pa_forget (plan_decisions ms stats p now)) \<Longrightarrow>
     \<exists>m\<in>set ms. fc_id c = mr_id m \<and> fc_strength c = strength_at stats p now m \<and> decision_for stats p now m = DecideForget (fc_reason c)"
  "c \<in> set (pa_expire (plan_decisions ms stats p now)) \<Longrightarrow>
     \<exists>m\<in>set ms. fc_id c = mr_id m \<and> fc_strength c = strength_at stats p now m \<and> decision_for stats p now m = DecideExpire (fc_reason c)"
proof (induction ms rule: rev_induct)
  case (snoc m ms)
  have step: "plan_decisions (ms @ [m]) stats p now = plan_step stats p now m (plan_decisions ms stats p now)"
    by (simp add: plan_decisions_def)
  { case 1 then show ?case using snoc unfolding step
      by (auto simp: plan_step_def decision_for_def strength_at_def apply_decision_def Let_def split: maintenance_decision.splits if_splits) }
  { case 2 then show ?case using snoc unfolding step
      by (auto simp: plan_step_def decision_for_def strength_at_def apply_decision_def Let_def split: maintenance_decision.splits if_splits) }
qed (simp_all add: plan_decisions_def)

subsection \<open>What each decision takes\<close>

lemma decide_cases:
  "decision_for stats p now m = DecideForget r \<Longrightarrow>
     r = ValidityExpired \<and> \<not> mr_pinned m \<and> is_validity_expired m now \<and> mr_status m \<noteq> MemAccepted \<and> mr_status m \<noteq> MemArchived"
  "decision_for stats p now m = DecideExpire r \<Longrightarrow>
     r = ProposedFaintAgedOut \<and> \<not> mr_pinned m \<and> mr_status m = MemProposed \<and> \<not> is_validity_expired m now \<and>
     strength_at stats p now m < po_forget_proposed_max_strength p \<and> access_count (stats (mr_id m)) = 0 \<and>
     po_forget_proposed_min_age p < now - mr_created_at m"
  "decision_for stats p now m = DecideArchive \<Longrightarrow>
     \<not> mr_pinned m \<and> mr_status m = MemAccepted \<and> strength_at stats p now m < po_archive_max_strength p \<and>
     po_archive_min_age p < now - mr_created_at m"
  "decision_for stats p now m = DecidePromote \<Longrightarrow>
     mr_status m = MemProposed \<and> mp_sensitivity (mr_provenance m) = PublicMemory \<and> po_promote_strength p \<le> strength_at stats p now m"
  by (auto simp: decision_for_def decide_for_live_def should_forget_def should_expire_def should_archive_def should_promote_def
      strength_at_def Let_def split: if_splits option.splits)

text \<open>An effect of a plan is lawful when some record of the list gives cause for it.\<close>

definition lawful_forget :: "memory_record list \<Rightarrow> real \<Rightarrow> ustring \<times> forget_reason \<Rightarrow> bool" where
  "lawful_forget ms now e \<longleftrightarrow> snd e = ValidityExpired \<and> list_ex (\<lambda>m. mr_id m = fst e \<and> \<not> mr_pinned m \<and>
     is_validity_expired m now \<and> mr_status m \<noteq> MemAccepted \<and> mr_status m \<noteq> MemArchived \<and>
     check_status_transition (mr_status m) MemForgotten = TransitionOk) ms"

definition lawful_expire :: "memory_record list \<Rightarrow> (ustring \<rightharpoonup> access_stat) \<Rightarrow> maintenance_policy \<Rightarrow> real \<Rightarrow> ustring \<times> forget_reason \<Rightarrow> bool" where
  "lawful_expire ms stats p now e \<longleftrightarrow> snd e = ProposedFaintAgedOut \<and> list_ex (\<lambda>m. mr_id m = fst e \<and> \<not> mr_pinned m \<and>
     mr_status m = MemProposed \<and> \<not> is_validity_expired m now \<and> strength_at stats p now m < po_forget_proposed_max_strength p \<and>
     access_count (stats (mr_id m)) = 0 \<and> po_forget_proposed_min_age p < now - mr_created_at m \<and>
     check_status_transition (mr_status m) MemExpired = TransitionOk) ms"

definition lawful_archive :: "memory_record list \<Rightarrow> (ustring \<rightharpoonup> access_stat) \<Rightarrow> maintenance_policy \<Rightarrow> real \<Rightarrow> ustring \<Rightarrow> bool" where
  "lawful_archive ms stats p now i \<longleftrightarrow> list_ex (\<lambda>m. mr_id m = i \<and> \<not> mr_pinned m \<and> mr_status m = MemAccepted \<and>
     strength_at stats p now m < po_archive_max_strength p \<and> po_archive_min_age p < now - mr_created_at m \<and>
     check_status_transition (mr_status m) MemArchived = TransitionOk) ms"

definition lawful_promote :: "memory_record list \<Rightarrow> (ustring \<rightharpoonup> access_stat) \<Rightarrow> maintenance_policy \<Rightarrow> real \<Rightarrow> ustring \<Rightarrow> bool" where
  "lawful_promote ms stats p now i \<longleftrightarrow> list_ex (\<lambda>m. mr_id m = i \<and> mr_status m = MemProposed \<and>
     mp_sensitivity (mr_provenance m) = PublicMemory \<and> po_promote_strength p \<le> strength_at stats p now m \<and>
     check_status_transition (mr_status m) MemAccepted = TransitionOk) ms"

lemma bound_fade_mem: "e \<in> set (bound_fade collate cs n) \<Longrightarrow> \<exists>c\<in>set cs. e = (fc_id c, fc_reason c)"
  by (auto simp: bound_fade_def dest!: in_set_takeD)

lemma length_bound_fade: "length (bound_fade collate cs n) \<le> n"
  by (simp add: bound_fade_def)

lemma legal_effects:
  "check_status_transition MemProposed MemExpired = TransitionOk" "check_status_transition MemAccepted MemArchived = TransitionOk"
  "check_status_transition MemProposed MemAccepted = TransitionOk"
  by (simp_all add: check_status_transition_def)

lemma forgettable_status: "s \<noteq> MemForgotten \<Longrightarrow> check_status_transition s MemForgotten = TransitionOk"
  by (cases s) (simp_all add: check_status_transition_def)

text \<open>
  Claim C40. The unattended maintenance pass is conservative. Over records none of which is already
  forgotten (the vault lists none: it deletes what is forgotten) it forgets only memories that are
  not pinned, neither accepted nor archived, and whose declared validity has elapsed; it expires
  only faint, old, unpinned proposals that were never recalled; it archives only faint, old,
  unpinned accepted memories; and it promotes only public proposals that are strong enough, which
  may be pinned, as promotion takes nothing away. Each effect is a transition of the status table
  for a record of the list, and no more than the bound are forgotten or expired in one run.
\<close>

theorem maintenance_is_conservative:
  fixes collate ms stats p now
  defines "plan \<equiv> plan_memory_maintenance collate ms stats p now"
  assumes present: "list_all (\<lambda>m. mr_status m \<noteq> MemForgotten) ms"
  shows "list_all (lawful_forget ms now) (pl_forget plan) \<and> list_all (lawful_expire ms stats p now) (pl_expire plan) \<and>
    list_all (lawful_archive ms stats p now) (pl_archive plan) \<and> list_all (lawful_promote ms stats p now) (pl_promote plan) \<and>
    length (pl_forget plan) \<le> po_max_forget p \<and> length (pl_expire plan) \<le> po_max_forget p"
proof (intro conjI)
  let ?acc = "plan_decisions ms stats p now"
  note lists = plan_decisions_lists [of ms stats p now]
  show "length (pl_forget plan) \<le> po_max_forget p" "length (pl_expire plan) \<le> po_max_forget p"
    by (simp_all add: plan_def plan_memory_maintenance_def length_bound_fade Let_def)
  have "lawful_forget ms now e" if e: "e \<in> set (pl_forget plan)" for e
  proof -
    obtain c where "c \<in> set (pa_forget ?acc)" "e = (fc_id c, fc_reason c)"
      using bound_fade_mem e by (fastforce simp: plan_def plan_memory_maintenance_def Let_def)
    with fade_candidate_sound(1) obtain m where "m \<in> set ms" "e = (mr_id m, fc_reason c)"
      "decision_for stats p now m = DecideForget (fc_reason c)" by metis
    with decide_cases(1) [of stats p now m "fc_reason c"] forgettable_status [of "mr_status m"] present
    show ?thesis by (auto simp: lawful_forget_def list_ex_iff list_all_iff)
  qed
  then show "list_all (lawful_forget ms now) (pl_forget plan)" by (simp add: list_all_iff)
  have "lawful_expire ms stats p now e" if e: "e \<in> set (pl_expire plan)" for e
  proof -
    obtain c where "c \<in> set (pa_expire ?acc)" "e = (fc_id c, fc_reason c)"
      using bound_fade_mem e by (fastforce simp: plan_def plan_memory_maintenance_def Let_def)
    with fade_candidate_sound(2) obtain m where "m \<in> set ms" "e = (mr_id m, fc_reason c)"
      "decision_for stats p now m = DecideExpire (fc_reason c)" by metis
    with decide_cases(2) [of stats p now m "fc_reason c"]
    show ?thesis by (auto simp: lawful_expire_def list_ex_iff legal_effects intro!: bexI [of _ m])
  qed
  then show "list_all (lawful_expire ms stats p now) (pl_expire plan)" by (simp add: list_all_iff)
  show "list_all (lawful_archive ms stats p now) (pl_archive plan)"
    using decide_cases(3) [of stats p now] lists(2)
    by (auto simp: list_all_iff list_ex_iff plan_def plan_memory_maintenance_def Let_def decided_def lawful_archive_def
        legal_effects)
  show "list_all (lawful_promote ms stats p now) (pl_promote plan)"
    using decide_cases(4) [of stats p now] lists(1)
    by (auto simp: list_all_iff list_ex_iff plan_def plan_memory_maintenance_def Let_def decided_def lawful_promote_def
        legal_effects)
qed

subsection \<open>Time\<close>

text \<open>Confidence, half-life and counts as their validators and defaults give them.\<close>

definition sane_stat :: "access_stat option \<Rightarrow> bool" where
  "sane_stat stat \<longleftrightarrow> 0 \<le> access_count stat"

lemma decay_multiplier_positive: "0 < decay_half_life_multiplier t f"
proof -
  have "0 < decay_multiplier t" by (cases t) simp_all
  then show ?thesis by (simp add: decay_half_life_multiplier_def split: option.split)
qed

lemma type_half_life_positive: "0 < half_life \<Longrightarrow> 0 < type_half_life m half_life multipliers"
  by (simp add: type_half_life_def decay_multiplier_positive split: option.split)

lemma clamp_unit_mono: "x \<le> y \<Longrightarrow> clamp_unit x \<le> clamp_unit y"
  by (simp add: clamp_unit_def)

lemma utility_factor_positive: "0 < utility_factor stat"
proof -
  have "0 < 1 / 2 + clamp_unit x" for x using clamp_unit_range(1) [of x] by linarith
  then show ?thesis by (simp add: utility_factor_def Let_def)
qed

lemma strength_fades:
  assumes "0 \<le> mp_confidence (mr_provenance m)" and "0 < half_life" and "sane_stat stat" and "now \<le> later"
  shows "effective_strength m stat later half_life multipliers \<le> effective_strength m stat now half_life multipliers"
proof (cases "mr_pinned m")
  case False
  let ?h = "type_half_life m half_life multipliers"
  have h: "0 < ?h" by (rule type_half_life_positive [OF assms(2)])
  have "ln 2 * (now - last_touch m stat) \<le> ln (2::real) * (later - last_touch m stat)"
    using assms(4) by (intro mult_left_mono) simp_all
  then have "recency_factor m stat later ?h \<le> recency_factor m stat now ?h"
    unfolding recency_factor_def by (simp add: divide_right_mono h less_imp_le)
  moreover have "0 \<le> mp_confidence (mr_provenance m) * (1 + 15 / 100 * ln (1 + access_count stat))"
    using assms(1,3) by (intro mult_nonneg_nonneg add_nonneg_nonneg) (simp_all add: sane_stat_def)
  ultimately have "mp_confidence (mr_provenance m) * (1 + 15 / 100 * ln (1 + access_count stat)) * recency_factor m stat later ?h *
      utility_factor stat \<le> mp_confidence (mr_provenance m) * (1 + 15 / 100 * ln (1 + access_count stat)) *
      recency_factor m stat now ?h * utility_factor stat"
    using utility_factor_positive [of stat] by (intro mult_right_mono mult_left_mono) (simp_all add: less_imp_le)
  with False show ?thesis by (simp add: effective_strength_def clamp_unit_mono)
qed (simp add: effective_strength_def)

lemma strength_range: "0 \<le> effective_strength m stat now half_life multipliers" "effective_strength m stat now half_life multipliers \<le> 1"
  by (simp_all add: effective_strength_def clamp_unit_range)

lemma expired_stays: "is_validity_expired m now \<Longrightarrow> now \<le> later \<Longrightarrow> is_validity_expired m later"
  by (auto simp: is_validity_expired_def split: option.splits)

text \<open>
  Waiting does not rescue a memory. As long as a memory is neither recalled nor changed, its
  strength only fades, within the unit interval, and a pinned one keeps full strength; a decision to
  forget it stands at every later pass, one to archive it stands, and one to expire it stands until its
  declared validity elapses, when it turns into forgetting.
\<close>

theorem waiting_does_not_rescue:
  assumes "0 \<le> mp_confidence (mr_provenance m)" and "0 < po_half_life p" and "sane_stat (stats (mr_id m))" and "now \<le> later"
  shows "strength_at stats p later m \<le> strength_at stats p now m \<and> 0 \<le> strength_at stats p later m \<and>
    strength_at stats p now m \<le> 1 \<and> (mr_pinned m \<longrightarrow> strength_at stats p later m = 1) \<and>
    (case decision_for stats p now m of
       DecideForget r \<Rightarrow> decision_for stats p later m = DecideForget r
     | DecideExpire r \<Rightarrow> decision_for stats p later m = (if is_validity_expired m later then DecideForget ValidityExpired else DecideExpire r)
     | DecideArchive \<Rightarrow> decision_for stats p later m = DecideArchive
     | _ \<Rightarrow> True)"
proof -
  have fades: "strength_at stats p later m \<le> strength_at stats p now m"
    unfolding strength_at_def by (rule strength_fades [OF assms])
  have expired: "is_validity_expired m now \<Longrightarrow> is_validity_expired m later" using expired_stays assms(4) by blast
  have "(case decision_for stats p now m of
       DecideForget r \<Rightarrow> decision_for stats p later m = DecideForget r
     | DecideExpire r \<Rightarrow> decision_for stats p later m = (if is_validity_expired m later then DecideForget ValidityExpired else DecideExpire r)
     | DecideArchive \<Rightarrow> decision_for stats p later m = DecideArchive
     | _ \<Rightarrow> True)"
  proof (cases "decision_for stats p now m")
    case (DecideForget r)
    from decide_cases(1) [OF this] expired have "decision_for stats p later m = DecideForget r"
      by (simp add: decision_for_def decide_for_live_def should_forget_def)
    with DecideForget show ?thesis by simp
  next
    case (DecideExpire r)
    note c = decide_cases(2) [OF this]
    then have "strength_at stats p later m < po_forget_proposed_max_strength p" "po_forget_proposed_min_age p < later - mr_created_at m"
      using fades assms(4) by linarith+
    with c have "decision_for stats p later m = (if is_validity_expired m later then DecideForget ValidityExpired else DecideExpire r)"
      by (simp add: decision_for_def decide_for_live_def should_forget_def should_expire_def strength_at_def)
    with DecideExpire show ?thesis by simp
  next
    case DecideArchive
    note c = decide_cases(3) [OF this]
    then have "strength_at stats p later m < po_archive_max_strength p" "po_archive_min_age p < later - mr_created_at m"
      using fades assms(4) by linarith+
    with c have "decision_for stats p later m = DecideArchive"
      by (simp add: decision_for_def decide_for_live_def should_forget_def should_expire_def should_archive_def strength_at_def)
    with DecideArchive show ?thesis by simp
  qed simp_all
  note verdict = this
  have lo: "0 \<le> strength_at stats p later m" and hi: "strength_at stats p now m \<le> 1"
    unfolding strength_at_def by (rule strength_range)+
  have pin: "mr_pinned m \<longrightarrow> strength_at stats p later m = 1" by (simp add: strength_at_def effective_strength_def)
  show ?thesis by (intro conjI fades lo hi pin verdict)
qed

subsection \<open>One decision each, the faintest first\<close>

text \<open>What the runtime's comparison of strings is: a linear order of the strings it tells apart.\<close>

definition collation :: "(ustring \<Rightarrow> ustring \<Rightarrow> int) \<Rightarrow> bool" where
  "collation collate \<longleftrightarrow> (\<forall>x y. collate x y < 0 \<longrightarrow> \<not> collate y x < 0) \<and>
     (\<forall>x y z. \<not> collate y x < 0 \<longrightarrow> \<not> collate z y < 0 \<longrightarrow> \<not> collate z x < 0)"

lemma fade_order:
  assumes c: "collation collate"
  shows "weak_order (fade_before collate) UNIV"
proof
  have asym: "\<not> collate j i < 0" if "collate i j < 0" for i j using c that unfolding collation_def by blast
  have trans: "\<not> collate k i < 0" if "\<not> collate j i < 0" "\<not> collate k j < 0" for i j k
    using c that unfolding collation_def by blast
  fix x y z
  show "fade_before collate x y \<Longrightarrow> \<not> fade_before collate y x"
    using asym [of "fc_id x" "fc_id y"] by (simp add: fade_before_def split: if_splits)
  assume "\<not> fade_before collate y x" "\<not> fade_before collate z y"
  then have le: "fc_strength x \<le> fc_strength y" "fc_strength y \<le> fc_strength z"
    by (simp_all add: fade_before_def split: if_splits)
  show "\<not> fade_before collate z x"
  proof (cases "fc_strength z = fc_strength x")
    case True
    with le have "fc_strength x = fc_strength y" "fc_strength y = fc_strength z" by simp_all
    with \<open>\<not> fade_before collate y x\<close> \<open>\<not> fade_before collate z y\<close>
    have "\<not> collate (fc_id y) (fc_id x) < 0" "\<not> collate (fc_id z) (fc_id y) < 0" by (simp_all add: fade_before_def)
    then have "\<not> collate (fc_id z) (fc_id x) < 0" by (rule trans)
    with True show ?thesis by (simp add: fade_before_def)
  next
    case False
    with le show ?thesis by (simp add: fade_before_def)
  qed
qed

lemma distinct_decided:
  "distinct (map mr_id ms) \<Longrightarrow> distinct (map mr_id (decided stats p now sel ms))"
  by (simp add: decided_def distinct_map_filter)

lemma decided_disjoint:
  assumes "distinct (map mr_id ms)" and "\<And>d. \<not> (sel d \<and> sel' d)"
  shows "set (map mr_id (decided stats p now sel ms)) \<inter> set (map mr_id (decided stats p now sel' ms)) = {}"
  using assms by (auto simp: decided_def distinct_map inj_on_def)

lemma distinct_four:
  assumes "distinct as" "distinct bs" "distinct cs" "distinct ds"
    and "set as \<inter> set bs = {}" "set as \<inter> C = {}" "set as \<inter> D = {}" "set bs \<inter> C = {}" "set bs \<inter> D = {}" "C \<inter> D = {}"
    and "set cs \<subseteq> C" "set ds \<subseteq> D"
  shows "distinct (as @ bs @ cs @ ds)"
  using assms by auto

text \<open>
  A memory gets at most one decision, and the faintest fade first. In a list without repeated
  ids, no id occurs twice in the effects of a plan; what it forgets is a part of the candidates that no
  other candidate is fainter than, the whole of them or as many as the bound.
\<close>

theorem one_decision_faintest_first:
  fixes collate ms stats p now
  defines "plan \<equiv> plan_memory_maintenance collate ms stats p now"
    and "candidates \<equiv> pa_forget (plan_decisions ms stats p now)"
  assumes "distinct (map mr_id ms)" and "collation collate"
  shows "distinct (pl_promote plan @ pl_archive plan @ map fst (pl_expire plan) @ map fst (pl_forget plan)) \<and>
    (\<exists>kept rest. mset candidates = mset kept + mset rest \<and> pl_forget plan = map (\<lambda>c. (fc_id c, fc_reason c)) kept \<and>
       (rest = [] \<or> length kept = po_max_forget p) \<and>
       list_all (\<lambda>a. list_all (\<lambda>b. fc_strength a \<le> fc_strength b) rest) kept)"
proof
  let ?acc = "plan_decisions ms stats p now"
  note lists = plan_decisions_lists [of ms stats p now]
  have faded: "set (map fst (bound_fade collate cs n)) \<subseteq> set (map fc_id cs)"
    "distinct (map fc_id cs) \<Longrightarrow> distinct (map fst (bound_fade collate cs n))" for cs n
  proof -
    show "set (map fst (bound_fade collate cs n)) \<subseteq> set (map fc_id cs)" using bound_fade_mem by fastforce
    assume "distinct (map fc_id cs)"
    then have "distinct (map fc_id (sort_by (fade_before collate) cs))"
      by (metis mset_eq_imp_distinct_iff mset_map mset_sort_by)
    then show "distinct (map fst (bound_fade collate cs n))"
      by (simp add: bound_fade_def comp_def take_map [symmetric])
  qed
  note decided = distinct_decided [OF assms(3)] decided_disjoint [OF assms(3)]
  have d: "distinct (map mr_id (decided stats p now (\<lambda>d. d = DecidePromote) ms))"
    "distinct (map mr_id (decided stats p now (\<lambda>d. d = DecideArchive) ms))"
    "distinct (map mr_id (decided stats p now (\<lambda>d. \<exists>r. d = DecideExpire r) ms))"
    "distinct (map mr_id (decided stats p now (\<lambda>d. \<exists>r. d = DecideForget r) ms))"
    by (rule decided(1))+
  have plan: "pl_promote plan = pa_promote ?acc" "pl_archive plan = pa_archive ?acc"
    "pl_expire plan = bound_fade collate (pa_expire ?acc) (po_max_forget p)"
    "pl_forget plan = bound_fade collate (pa_forget ?acc) (po_max_forget p)"
    by (simp_all add: plan_def plan_memory_maintenance_def Let_def)
  show "distinct (pl_promote plan @ pl_archive plan @ map fst (pl_expire plan) @ map fst (pl_forget plan))"
  proof (rule distinct_four)
    show "distinct (pl_promote plan)" "distinct (pl_archive plan)" unfolding plan lists by (rule d)+
    show "distinct (map fst (pl_expire plan))" "distinct (map fst (pl_forget plan))"
      unfolding plan by (rule faded(2), unfold lists, rule d)+
    show "set (map fst (pl_expire plan)) \<subseteq> set (map fc_id (pa_expire ?acc))"
      "set (map fst (pl_forget plan)) \<subseteq> set (map fc_id (pa_forget ?acc))"
      unfolding plan by (rule faded(1))+
  qed (unfold plan lists, (rule decided(2); force)+)
  let ?sorted = "sort_by (fade_before collate) candidates"
  let ?kept = "take (po_max_forget p) ?sorted" and ?rest = "drop (po_max_forget p) ?sorted"
  have "sorted_wrt (\<lambda>a b. \<not> fade_before collate b a) (?kept @ ?rest)"
    using weak_order.sort_sorted [OF fade_order [OF assms(4)], of candidates] by simp
  then have ord: "\<not> fade_before collate b a" if "a \<in> set ?kept" "b \<in> set ?rest" for a b
    using that by (simp only: sorted_wrt_append) blast
  have "fc_strength a \<le> fc_strength b" if "a \<in> set ?kept" "b \<in> set ?rest" for a b
    using ord [OF that] by (simp add: fade_before_def split: if_splits)
  then have faint: "list_all (\<lambda>a. list_all (\<lambda>b. fc_strength a \<le> fc_strength b) ?rest) ?kept"
    by (simp only: list_all_iff) blast
  have parts: "mset candidates = mset ?kept + mset ?rest" by (simp flip: mset_append)
  have full: "?rest = [] \<or> length ?kept = po_max_forget p" by (auto simp: min_def)
  have forgets: "pl_forget plan = map (\<lambda>c. (fc_id c, fc_reason c)) ?kept"
    unfolding plan(4) by (simp add: bound_fade_def candidates_def)
  show "\<exists>kept rest. mset candidates = mset kept + mset rest \<and> pl_forget plan = map (\<lambda>c. (fc_id c, fc_reason c)) kept \<and>
       (rest = [] \<or> length kept = po_max_forget p) \<and>
       list_all (\<lambda>a. list_all (\<lambda>b. fc_strength a \<le> fc_strength b) rest) kept"
    using parts forgets full faint by blast
qed

end
