(* ===== verification/Memory_Consent.thy ===== *)
theory Memory_Consent
  imports Memory_Properties
begin

text \<open>
  What the governance builders promise: forgetting needs consent, conflicts are seen alike from both
  sides and demote only losers, and closing the window of a superseded memory keeps its past; with a
  sample vault, and two inputs on which the code departs from its comments.
\<close>

subsection \<open>A sample vault\<close>

definition sample_record :: "string \<Rightarrow> memory_status \<Rightarrow> bool \<Rightarrow> real option \<Rightarrow> string \<Rightarrow> memory_record" where
  "sample_record i status pinned until body = \<lparr> mr_id = units i, mr_scope = ProjectScope (units ''p''), mr_type = DecisionMemory,
     mr_body = units body, mr_provenance = \<lparr> mp_source = ExplicitUserInstruction, mp_conversation = None, mp_captured_at = 0,
       mp_confidence = 0, mp_sensitivity = ConfidentialMemory, mp_rationale = None \<rparr>,
     mr_validity = \<lparr> vi_from = 0, vi_until = until \<rparr>, mr_status = status, mr_pinned = pinned, mr_tags = [],
     mr_created_at = 0, mr_updated_at = 0 \<rparr>"

definition sample_vault :: "memory_record list" where
  "sample_vault = [sample_record ''a'' MemAccepted False None ''use tabs'', sample_record ''b'' MemProposed False (Some 10) ''use spaces'',
     sample_record ''c'' MemProposed False None ''no tabs'', sample_record ''d'' MemArchived False (Some 5) ''old'',
     sample_record ''e'' MemAccepted True None ''keep'']"

definition sample_context :: governance_context where
  "sample_context = \<lparr> gc_reviewer = units ''r'', gc_now = Num 20 \<rparr>"

definition sample_collate :: "ustring \<Rightarrow> ustring \<Rightarrow> int" where
  "sample_collate a b = (if a < b then - 1 else if b < a then 1 else 0)"

lemma sample_collation: "collation sample_collate"
  by (auto simp: collation_def sample_collate_def)

lemma unchanged_strength_zero: "mp_confidence (mr_provenance m) = 0 \<Longrightarrow> \<not> mr_pinned m \<Longrightarrow> effective_strength m stat now h f = 0"
  by (simp add: effective_strength_def clamp_unit_def)

subsection \<open>Waiting, at a record\<close>

theorem waiting_does_not_rescue_witness:
  "decision_for (\<lambda>i. None) maintenance_defaults (20 * day_ms) (sample_record ''a'' MemAccepted False None ''use tabs'') = DecideArchive \<and>
   decision_for (\<lambda>i. None) maintenance_defaults (50 * day_ms) (sample_record ''a'' MemAccepted False None ''use tabs'') = DecideArchive"
proof -
  let ?m = "sample_record ''a'' MemAccepted False None ''use tabs''"
  have now: "decision_for (\<lambda>i. None) maintenance_defaults (20 * day_ms) ?m = DecideArchive"
    by (simp add: decision_for_def decide_for_live_def should_forget_def should_expire_def should_archive_def sample_record_def
        is_validity_expired_def unchanged_strength_zero maintenance_defaults_def day_ms_def)
  from waiting_does_not_rescue [of ?m maintenance_defaults "\<lambda>i. None" "20 * day_ms" "50 * day_ms"] now
  show ?thesis by (simp add: sample_record_def maintenance_defaults_def day_ms_def sane_stat_def access_count_def)
qed

theorem one_decision_faintest_first_witness:
  "distinct (map mr_id sample_vault) \<and>
   distinct (pl_promote (plan_memory_maintenance sample_collate sample_vault (\<lambda>i. None) maintenance_defaults 20) @
     pl_archive (plan_memory_maintenance sample_collate sample_vault (\<lambda>i. None) maintenance_defaults 20) @
     map fst (pl_expire (plan_memory_maintenance sample_collate sample_vault (\<lambda>i. None) maintenance_defaults 20)) @
     map fst (pl_forget (plan_memory_maintenance sample_collate sample_vault (\<lambda>i. None) maintenance_defaults 20)))"
proof -
  have d: "distinct (map mr_id sample_vault)" by (simp add: sample_vault_def sample_record_def units_def of_char_def)
  from one_decision_faintest_first [OF d sample_collation, of "\<lambda>i. None" maintenance_defaults 20] d show ?thesis by blast
qed

theorem maintenance_is_conservative_witness:
  "pl_forget (plan_memory_maintenance sample_collate sample_vault (\<lambda>i. None) maintenance_defaults 20) = [(units ''b'', ValidityExpired)] \<and>
   lawful_forget sample_vault 20 (units ''b'', ValidityExpired)"
proof -
  let ?p = "maintenance_defaults"
  have "decided (\<lambda>i. None) ?p 20 (\<lambda>d. \<exists>r. d = DecideForget r) sample_vault =
      [sample_record ''b'' MemProposed False (Some 10) ''use spaces'']"
    by (simp add: decided_def sample_vault_def decision_for_def decide_for_live_def should_forget_def should_expire_def
        should_archive_def should_promote_def sample_record_def is_validity_expired_def unchanged_strength_zero maintenance_defaults_def day_ms_def)
  then have ids: "map fc_id (pa_forget (plan_decisions sample_vault (\<lambda>i. None) ?p 20)) = [units ''b'']"
    by (simp add: plan_decisions_lists(4) sample_record_def)
  then obtain c where c: "pa_forget (plan_decisions sample_vault (\<lambda>i. None) ?p 20) = [c]" "fc_id c = units ''b''" by (auto simp: map_eq_Cons_conv)
  then have plan: "pl_forget (plan_memory_maintenance sample_collate sample_vault (\<lambda>i. None) ?p 20) = [(units ''b'', fc_reason c)]"
    by (simp add: plan_memory_maintenance_def bound_fade_def sort_by_def maintenance_defaults_def Let_def)
  have "list_all (\<lambda>m. mr_status m \<noteq> MemForgotten) sample_vault" by (simp add: sample_vault_def sample_record_def)
  from maintenance_is_conservative [OF this, where collate = sample_collate and stats = "\<lambda>i. None" and p = ?p and now = 20] plan
  have "lawful_forget sample_vault 20 (units ''b'', fc_reason c)" by simp
  moreover from this have "fc_reason c = ValidityExpired" by (simp add: lawful_forget_def)
  ultimately show ?thesis using plan by simp
qed

subsection \<open>Forgetting\<close>

definition consented :: "forget_options \<Rightarrow> memory_record \<Rightarrow> bool" where
  "consented opts m \<longleftrightarrow> mr_status m \<noteq> MemForgotten \<and>
     (mr_status m \<noteq> MemArchived \<or> (\<exists>ids. fo_acknowledged opts = Some ids \<and> mr_id m \<in> set ids))"

lemma build_forget_envelope_Inr:
  "build_forget_envelope nfkc ctx opts m = Inr e \<longleftrightarrow> consented opts m \<and> forget_errors nfkc e = [] \<and>
     e = \<lparr> fe_memory = mr_id m, fe_reviewer = gc_reviewer ctx, fe_at = gc_now ctx,
       fe_reason = (case fo_reason opts of None \<Rightarrow> UserRequest | Some r \<Rightarrow> r) \<rparr>"
  using forgettable_status [of "mr_status m"]
  by (auto simp: build_forget_envelope_def assert_forgettable_def assert_archived_forget_acknowledged_def checked_def Let_def
      consented_def check_status_transition_def split: option.splits if_splits)

text \<open>
  Claim C39. Forgetting needs consent and is all or nothing. When a selection is forgotten, every
  memory selected gets exactly one valid envelope, in order and signed by the reviewer; all of them
  match the selector, none is pinned unless the caller gave up that protection, none is archived
  where the caller asked for that protection, none is already forgotten, and an archived one was
  acknowledged by its id. When one of them lacks consent, no envelope is built.
\<close>

theorem forgetting_needs_consent:
  assumes "select_memories_for_forget ms sel opts = Inr chosen"
  shows "list_all (\<lambda>m. m \<in> set ms \<and> apply_selector m sel (so_now opts) \<and> mr_status m \<noteq> MemForgotten \<and>
      (so_protect_pinned opts \<noteq> Some False \<longrightarrow> \<not> mr_pinned m) \<and>
      (so_protect_archived opts = Some True \<longrightarrow> mr_status m \<noteq> MemArchived)) chosen \<and>
    (case build_forget_operations nfkc chosen ctx fo of
       Inl e \<Rightarrow> list_ex (\<lambda>m. build_forget_envelope nfkc ctx fo m = Inl e) chosen
     | Inr envs \<Rightarrow> map fe_memory envs = map mr_id chosen \<and> list_all (consented fo) chosen \<and>
         list_all (\<lambda>e. forget_errors nfkc e = [] \<and> fe_reviewer e = gc_reviewer ctx) envs)"
proof
  show "list_all (\<lambda>m. m \<in> set ms \<and> apply_selector m sel (so_now opts) \<and> mr_status m \<noteq> MemForgotten \<and>
      (so_protect_pinned opts \<noteq> Some False \<longrightarrow> \<not> mr_pinned m) \<and>
      (so_protect_archived opts = Some True \<longrightarrow> mr_status m \<noteq> MemArchived)) chosen"
    using assms by (auto simp: select_memories_for_forget_def list_all_iff Let_def split: option.splits)
  show "case build_forget_operations nfkc chosen ctx fo of
       Inl e \<Rightarrow> list_ex (\<lambda>m. build_forget_envelope nfkc ctx fo m = Inl e) chosen
     | Inr envs \<Rightarrow> map fe_memory envs = map mr_id chosen \<and> list_all (consented fo) chosen \<and>
         list_all (\<lambda>e. forget_errors nfkc e = [] \<and> fe_reviewer e = gc_reviewer ctx) envs"
  proof (cases "build_forget_operations nfkc chosen ctx fo")
    case (Inl e)
    with rmap_Inl [of "build_forget_envelope nfkc ctx fo" chosen e] show ?thesis by (simp add: build_forget_operations_def)
  next
    case (Inr envs)
    then have "list_all2 (\<lambda>m e. build_forget_envelope nfkc ctx fo m = Inr e) chosen envs"
      unfolding build_forget_operations_def by (rule rmap_Inr_all2)
    then have "map fe_memory envs = map mr_id chosen \<and> list_all (consented fo) chosen \<and>
        list_all (\<lambda>e. forget_errors nfkc e = [] \<and> fe_reviewer e = gc_reviewer ctx) envs"
      by (induction rule: list_all2_induct) (simp_all add: build_forget_envelope_Inr)
    with Inr show ?thesis by simp
  qed
qed

theorem forgetting_needs_consent_witness:
  "select_memories_for_forget sample_vault (ByScope (ProjectScope (units ''p'')))
      \<lparr> so_now = 20, so_protect_pinned = None, so_protect_archived = None \<rparr> = Inr (butlast sample_vault) \<and>
   list_all (\<lambda>m. \<not> mr_pinned m) (butlast sample_vault) \<and>
   build_forget_operations (\<lambda>s. s) (butlast sample_vault) sample_context \<lparr> fo_reason = None, fo_acknowledged = None \<rparr> = Inl AcknowledgementRequired"
proof -
  let ?sel = "ByScope (ProjectScope (units ''p''))"
  let ?opts = "\<lparr> so_now = 20, so_protect_pinned = None, so_protect_archived = None \<rparr>"
  have sel: "select_memories_for_forget sample_vault ?sel ?opts = Inr (butlast sample_vault)"
    by (simp add: select_memories_for_forget_def assert_selector_well_formed_def sample_vault_def sample_record_def
        apply_selector_def scope_equals_def)
  have "build_forget_operations (\<lambda>s. s) (butlast sample_vault) sample_context \<lparr> fo_reason = None, fo_acknowledged = None \<rparr> = Inl AcknowledgementRequired"
    by (simp add: build_forget_operations_def sample_vault_def sample_record_def build_forget_envelope_def assert_forgettable_def
        check_status_transition_def assert_archived_forget_acknowledged_def checked_def sample_context_def forget_errors_def
        id_errors_def memory_id_reason_def units_def of_char_def trim_units_def is_space_def is_js_ws_def memory_id_max_length_def
        has_control_character_def is_control_code_point_def strip_unsafe_format_def is_unsafe_format_def is_bidi_or_zero_width_def
        is_strippable_control_def)
  with forgetting_needs_consent [OF sel] sel show ?thesis by (simp add: list_all_iff)
qed

subsection \<open>Conflicts\<close>

lemma conflict_order: "detect_conflict_pair a b = detect_conflict_pair b a"
  unfolding detect_conflict_pair_def different_scope_or_type_def Let_def jaccard_symmetric [of "mr_body b" "mr_body a"]
  by (intro if_cong) auto

text \<open>
  A conflict looks alike from both sides: exchanging the memories changes neither whether they
  conflict nor the reason. Only memories of one type and one scope conflict, and only when at least two
  fifths of their words are shared.
\<close>

theorem conflicts_are_symmetric:
  "detect_conflict_pair a b = detect_conflict_pair b a \<and>
   (detect_conflict_pair a b = None \<or> mr_type a = mr_type b \<and> mr_scope a = mr_scope b \<and>
      2 / 5 \<le> jaccard_similarity (mr_body a) (mr_body b))"
proof
  show "detect_conflict_pair a b = detect_conflict_pair b a" by (rule conflict_order)
  show "detect_conflict_pair a b = None \<or> mr_type a = mr_type b \<and> mr_scope a = mr_scope b \<and>
      2 / 5 \<le> jaccard_similarity (mr_body a) (mr_body b)"
    by (simp add: detect_conflict_pair_def different_scope_or_type_def scope_key_inj conflict_overlap_threshold_def Let_def)
qed

text \<open>A memory that says yes and no conflicts with one that says the same.\<close>

lemma same_words_conflict:
  "detect_conflict_pair (sample_record ''a'' MemAccepted False None ''yes or no'') (sample_record ''b'' MemAccepted False None ''yes or no'') =
     Some PolarityMismatch"
proof -
  let ?body = "units ''yes or no''"
  have norm: "normalize_body ?body = ?body"
    by (simp add: normalize_body_def collapse_spaces_def to_lower_def lower_unit_def map_char_to_safe_def units_def of_char_def
        trim_units_def is_space_def is_js_ws_def Let_def)
  have "jaccard_similarity ?body ?body = 1"
    by (simp add: jaccard_similarity_def Let_def tokenize_body_def norm)
  moreover have "has_any_marker ?body affirm_markers" "has_any_marker ?body deny_markers"
    unfolding has_any_marker_def norm by (simp_all add: affirm_markers_def deny_markers_def units_def of_char_def)
  ultimately show ?thesis
    by (simp add: detect_conflict_pair_def sample_record_def different_scope_or_type_def conflict_overlap_threshold_def Let_def)
qed

text \<open>
  Resolving a conflict demotes the losers and nothing else. When the transitions are built,
  the winner is a record of the set and not a loser, every loser was proposed or accepted and becomes
  conflicted, and each is superseded by the winner, once and in order.
\<close>

theorem resolution_demotes_losers:
  assumes "build_conflict_transitions nfkc ms r ctx = Inr (ss, ts)"
  shows "map sc_memory ts = cr_losers r \<and> map su_old ss = cr_losers r \<and> ts \<noteq> [] \<and> cr_winner r \<notin> set (cr_losers r) \<and>
    cr_winner r \<in> mr_id ` set ms \<and>
    list_all (\<lambda>t. sc_to t = MemConflicted \<and> (sc_from t = MemProposed \<or> sc_from t = MemAccepted)) ts \<and>
    list_all (\<lambda>s. su_new s = cr_winner r \<and> supersession_errors nfkc s = []) ss"
proof -
  let ?index = "index_by_id ms"
  let ?one = "\<lambda>l. (case ?index l of
             None \<Rightarrow> Inl InvalidResolution
           | Some loser \<Rightarrow> rbind (build_loser_transition loser (gc_now ctx) MemConflicted) (\<lambda>t.
               rbind (build_loser_supersession nfkc l (cr_winner r) ctx) (\<lambda>s. Inr (s, t))))"
  obtain pairs where ok: "assert_resolution_well_formed r ?index = Inr ()" and pairs: "rmap ?one (cr_losers r) = Inr pairs"
    and st: "ss = map fst pairs" "ts = map snd pairs"
    using assms unfolding build_conflict_transitions_def Let_def by auto
  from ok have losers: "cr_losers r \<noteq> []" "cr_winner r \<notin> set (cr_losers r)" and winner: "?index (cr_winner r) \<noteq> None"
    by (auto simp: assert_resolution_well_formed_def list_ex_iff split: if_splits)
  from winner obtain w where "?index (cr_winner r) = Some w" by blast
  then have "cr_winner r \<in> mr_id ` set ms" using index_by_id_Some [of ms "cr_winner r" w] by (auto intro: image_eqI [of _ _ w])
  moreover have each: "sc_memory (snd p) = l \<and> su_old (fst p) = l \<and> sc_to (snd p) = MemConflicted \<and>
      (sc_from (snd p) = MemProposed \<or> sc_from (snd p) = MemAccepted) \<and> su_new (fst p) = cr_winner r \<and>
      supersession_errors nfkc (fst p) = []" if one: "?one l = Inr p" for l p
  proof -
    obtain loser where loser: "?index l = Some loser" using one by (cases "?index l") auto
    then have "mr_id loser = l" using index_by_id_Some by blast
    moreover have "mr_status loser = MemProposed \<or> mr_status loser = MemAccepted"
      using one loser
      by (cases "mr_status loser") (auto simp: build_loser_transition_def check_status_transition_def split: if_splits)
    ultimately show ?thesis
      using one loser by (auto simp: build_loser_transition_def build_loser_supersession_def checked_def Let_def split: if_splits)
  qed
  have "map sc_memory (map snd pairs) = cr_losers r \<and> map su_old (map fst pairs) = cr_losers r \<and>
      list_all (\<lambda>t. sc_to t = MemConflicted \<and> (sc_from t = MemProposed \<or> sc_from t = MemAccepted)) (map snd pairs) \<and>
      list_all (\<lambda>s. su_new s = cr_winner r \<and> supersession_errors nfkc s = []) (map fst pairs)"
    using rmap_Inr_all2 [OF pairs]
  proof (induction rule: list_all2_induct)
    case (Cons l ls p ps)
    from each [OF Cons.hyps(1)] Cons.IH show ?case by simp
  qed simp
  ultimately show ?thesis using losers rmap_Inr_length [OF pairs] st by auto
qed

lemma good_id:
  "memory_id_reason (\<lambda>s. s) (units [c]) = None" if "is_alnum c"
proof -
  have c: "48 \<le> (of_char c :: nat)" "(of_char c :: nat) \<le> 122" "of_char c \<noteq> (92 :: nat)"
    using that by (auto simp: is_alnum_def Let_def)
  then have "\<not> is_space (of_char c)" by (simp add: is_space_def is_js_ws_def)
  with c show ?thesis
    by (simp add: memory_id_reason_def units_def trim_units_def memory_id_max_length_def has_control_character_def
        is_control_code_point_def strip_unsafe_format_def is_unsafe_format_def is_bidi_or_zero_width_def is_strippable_control_def)
qed

theorem resolution_demotes_losers_witness:
  "\<exists>ss ts. build_conflict_transitions (\<lambda>s. s) sample_vault \<lparr> cr_winner = units ''a'', cr_losers = [units ''c''] \<rparr> sample_context = Inr (ss, ts) \<and>
     map sc_memory ts = [units ''c''] \<and> map su_old ss = [units ''c'']"
proof -
  let ?r = "\<lparr> cr_winner = units ''a'', cr_losers = [units ''c''] \<rparr>"
  have "\<exists>ss ts. build_conflict_transitions (\<lambda>s. s) sample_vault ?r sample_context = Inr (ss, ts)"
    by (simp add: build_conflict_transitions_def index_by_id_def sample_vault_def sample_record_def assert_resolution_well_formed_def
        build_loser_transition_def check_status_transition_def build_loser_supersession_def checked_def supersession_errors_def
        good_id is_alnum_def sample_context_def is_safe_text_def memory_reason_max_def units_def [of "''conflict-resolution''"]
        forbidden_control_def of_char_def Let_def)
      (simp add: units_def of_char_def)
  then obtain ss ts where run: "build_conflict_transitions (\<lambda>s. s) sample_vault ?r sample_context = Inr (ss, ts)" by blast
  from resolution_demotes_losers [OF run] run show ?thesis by simp
qed

subsection \<open>The past of a superseded memory\<close>

definition believed :: "validity_interval \<Rightarrow> real \<Rightarrow> bool" where
  "believed v t \<longleftrightarrow> vi_from v \<le> t \<and> (case vi_until v of None \<Rightarrow> True | Some u \<Rightarrow> t < u)"

text \<open>
  Closing the window of a superseded memory keeps its past. What was believed at any time
  before the supersession stays believed, nothing is believed from then on, and the window that is
  written is one the validator accepts; when no window is written, the memory had not begun to hold or
  had already ended.
\<close>

theorem closing_keeps_the_past:
  "case superseded_validity m (Num now) of
     Some v \<Rightarrow> (\<forall>t. believed v t = (believed (mr_validity m) t \<and> t < now)) \<and>
       (vi_from v < 0 \<or> validity_errors (Num (vi_from v)) (map_option Num (vi_until v)) = [])
   | None \<Rightarrow> now \<le> vi_from (mr_validity m) \<or> (\<exists>u. vi_until (mr_validity m) = Some u \<and> u \<le> now)"
  by (auto simp: superseded_validity_def believed_def validity_errors_def is_finite_non_negative_def split: option.split)

text \<open>Yet the next unattended pass forgets a memory whose window was closed in this way.\<close>

lemma superseded_history_is_forgotten:
  assumes "superseded_validity m (Num now) = Some v" and "\<not> mr_pinned m" and "now \<le> later"
  shows "decision_for stats p later (m\<lparr> mr_status := MemSuperseded, mr_validity := v \<rparr>) = DecideForget ValidityExpired"
  using assms
  by (auto simp: superseded_validity_def decision_for_def decide_for_live_def should_forget_def is_validity_expired_def
      split: option.splits if_splits)

end
