(* ===== verification/Memory_Ranking.thy ===== *)
theory Memory_Ranking
  imports Memory_Types
begin

text \<open>
  The words of a memory text (\<open>memory-text.ts\<close> of \<open>keiko-contracts\<close>) and the hybrid ranker of
  \<open>keiko-memory-retrieval/src\<close>: the subscores, the two ways of fusing them, and the order of the result.

  \<open>pieces\<close> stands for the runtime's Unicode tables: it gives \<open>normalizeMemoryText(text).split(NON_WORD)\<close>.
  Weights and scores are reals, and a map of the caller holds finite numbers.
\<close>

subsection \<open>Words\<close>

definition stopwords :: "ustring list" where
  "stopwords = map units
     [''a'', ''an'', ''and'', ''are'', ''as'', ''at'', ''be'', ''by'', ''for'', ''from'', ''i'', ''is'', ''it'', ''my'', ''of'', ''on'',
      ''or'', ''the'', ''to'', ''what'', ''which'', ''with'', ''am'', ''auf'', ''aus'', ''bei'', ''bin'', ''das'', ''dem'', ''den'', ''der'',
      ''des'', ''die'', ''du'', ''ein'', ''eine'', ''einem'', ''einen'', ''einer'', ''er'', ''es'', ''fur'', ''fuer'', ''ich'', ''im'', ''in'',
      ''ist'', ''mit'', ''oder'', ''sind'', ''und'', ''vom'', ''von'', ''was'', ''welche'', ''welchem'', ''welchen'', ''welcher'', ''welches'',
      ''wie'', ''wir'', ''zu'', ''zum'', ''zur'']"

definition ends_with :: "ustring \<Rightarrow> ustring \<Rightarrow> bool" where
  "ends_with token suffix \<longleftrightarrow> length suffix \<le> length token \<and> drop (length token - length suffix) token = suffix"

fun stem_suffixes :: "ustring list \<Rightarrow> ustring \<Rightarrow> ustring" where
  "stem_suffixes [] token = token"
| "stem_suffixes (suffix # r) token =
     (if suffix = units ''s'' \<and> ends_with token (units ''ss'') then stem_suffixes r token
      else if length token \<ge> length suffix + 5 \<and> ends_with token suffix then take (length token - length suffix) token
      else stem_suffixes r token)"

definition stem_german_like_token :: "ustring \<Rightarrow> ustring" where
  "stem_german_like_token token =
     (if length token \<le> 5 then token
      else stem_suffixes (map units [''ungen'', ''ern'', ''en'', ''er'', ''es'', ''s'']) token)"

text \<open>The loop of \<open>tokenizeMemoryText\<close>; \<open>seen\<close> is what \<open>out\<close> holds.\<close>

fun tokenize_pieces :: "ustring list \<Rightarrow> ustring list \<Rightarrow> ustring list" where
  "tokenize_pieces out [] = out"
| "tokenize_pieces out (piece # r) =
     (if piece = [] \<or> piece \<in> set stopwords then tokenize_pieces out r
      else let normalized = stem_german_like_token piece
        in if normalized = [] \<or> normalized \<in> set stopwords \<or> normalized \<in> set out then tokenize_pieces out r
           else tokenize_pieces (out @ [normalized]) r)"

definition tokenize_memory_text :: "(ustring \<Rightarrow> ustring list) \<Rightarrow> ustring \<Rightarrow> ustring list" where
  "tokenize_memory_text pieces body = (if body = [] then [] else tokenize_pieces [] (pieces body))"

definition same_memory_word :: "ustring \<Rightarrow> ustring \<Rightarrow> bool" where
  "same_memory_word a b \<longleftrightarrow>
     a = b \<or> (let (shorter, longer) = (if length a < length b then (a, b) else (b, a))
       in length shorter \<ge> 4 \<and> length longer - length shorter \<le> 3 \<and> take (length shorter) longer = shorter)"

subsection \<open>Subscores\<close>

definition record_tokens :: "(ustring \<Rightarrow> ustring list) \<Rightarrow> memory_record \<Rightarrow> ustring list" where
  "record_tokens pieces m =
     remdups (tokenize_memory_text pieces (mr_body m) @ concat (map (tokenize_memory_text pieces) (mr_tags m)))"

definition lexical_relevance :: "(ustring \<Rightarrow> ustring list) \<Rightarrow> ustring option \<Rightarrow> memory_record \<Rightarrow> real" where
  "lexical_relevance pieces query m =
     (case query of None \<Rightarrow> 0 | Some q \<Rightarrow>
        let query_tokens = remdups (tokenize_memory_text pieces q); doc_tokens = record_tokens pieces m;
            intersection = length (filter (\<lambda>t. t \<in> set doc_tokens) query_tokens);
            both = length query_tokens + length doc_tokens - intersection
        in if query_tokens = [] \<or> doc_tokens = [] \<or> both = 0 then 0 else real intersection / real both)"

definition exponential_decay :: "real \<Rightarrow> real \<Rightarrow> real" where
  "exponential_decay age half_life =
     (if age \<le> 0 then 1
      else let decay = exp (- (ln 2 * age) / half_life) in if decay < 0 then 0 else if decay > 1 then 1 else decay)"

definition recency_score :: "real \<Rightarrow> real \<Rightarrow> real" where
  "recency_score updated now = exponential_decay (now - updated) (7 * 86400000)"

record reuse_stat =
  rs_count :: real
  rs_last :: real

definition reinforcement_strength :: "reuse_stat option \<Rightarrow> real \<Rightarrow> real" where
  "reinforcement_strength stat now =
     (case stat of None \<Rightarrow> 0 | Some s \<Rightarrow>
        let access_recency = exponential_decay (now - rs_last s) (45 * 86400000);
            count = (if rs_count s > 0 then rs_count s else 0);
            strength = (1 - exp (- count / 8)) * access_recency
        in if strength < 0 then 0 else if strength > 1 then 1 else strength)"

definition build_strength_by_id :: "(ustring \<rightharpoonup> reuse_stat) \<Rightarrow> real \<Rightarrow> (ustring \<rightharpoonup> real)" where
  "build_strength_by_id stats now i =
     (case stats i of None \<Rightarrow> None | Some s \<Rightarrow>
        let strength = reinforcement_strength (Some s) now in if strength > 0 then Some strength else None)"

definition proximity_kinds :: "memory_edge_kind list" where
  "proximity_kinds = [EdgeRelated, EdgeSupersedes, EdgeCorrects]"

definition graph_proximity_score :: "ustring \<Rightarrow> (ustring \<rightharpoonup> memory_edge list) \<Rightarrow> ustring list \<Rightarrow> real" where
  "graph_proximity_score i edges_by_memory high_rank =
     (case edges_by_memory i of None \<Rightarrow> 0 | Some edges \<Rightarrow>
        let count = length (filter (\<lambda>e. me_kind e \<in> set proximity_kinds \<and>
              (if me_from e = i then me_to e else me_from e) \<in> set high_rank) edges)
        in if count = 0 then 0 else 1 - 1 / (1 + real count))"

fun source_importance_of :: "memory_source \<Rightarrow> real" where
  "source_importance_of ExplicitUserInstruction = 1"
| "source_importance_of AcceptedCorrection = 85 / 100"
| "source_importance_of WorkflowOutcome = 6 / 10"
| "source_importance_of Consolidation = 5 / 10"
| "source_importance_of SystemDefault = 4 / 10"

definition source_importance :: "memory_record \<Rightarrow> real" where
  "source_importance m = source_importance_of (mp_source (mr_provenance m))"

text \<open>Weights and subscores have the same nine fields; a field is read by its key.\<close>

datatype signal = Relevance | Recency | Confidence | Pinned | CorrectionSignal | Graph | Semantic | Strength | Importance

type_synonym signals = "signal \<Rightarrow> real"

definition subscore_keys :: "signal list" where
  "subscore_keys = [Relevance, Recency, Confidence, Pinned, CorrectionSignal, Graph, Semantic, Strength, Importance]"

datatype fusion_mode = WeightedSum | ReciprocalRank

record rank_query =
  rq_text :: "ustring option"
  rq_now :: real
  rq_weights :: signals
  rq_semantic :: "(ustring \<rightharpoonup> real) option"
  rq_strength :: "(ustring \<rightharpoonup> real) option"
  rq_fusion :: "fusion_mode option"

definition supplied :: "(ustring \<rightharpoonup> real) option \<Rightarrow> ustring \<Rightarrow> real" where
  "supplied scores i = (case Option.bind scores (\<lambda>f. f i) of None \<Rightarrow> 0 | Some x \<Rightarrow> x)"

fun baseline_subscores :: "(ustring \<Rightarrow> ustring list) \<Rightarrow> memory_record \<Rightarrow> rank_query \<Rightarrow> signals" where
  "baseline_subscores pieces m q Relevance = lexical_relevance pieces (rq_text q) m"
| "baseline_subscores pieces m q Recency = recency_score (mr_updated_at m) (rq_now q)"
| "baseline_subscores pieces m q Confidence = mp_confidence (mr_provenance m)"
| "baseline_subscores pieces m q Pinned = (if mr_pinned m then 1 else 0)"
| "baseline_subscores pieces m q CorrectionSignal =
     (if mr_type m = CorrectionMemory \<or> mp_source (mr_provenance m) = AcceptedCorrection then 1 else 0)"
| "baseline_subscores pieces m q Graph = 0"
| "baseline_subscores pieces m q Semantic = supplied (rq_semantic q) (mr_id m)"
| "baseline_subscores pieces m q Strength = supplied (rq_strength q) (mr_id m)"
| "baseline_subscores pieces m q Importance = source_importance m"

subsection \<open>Entries\<close>

record included_memory =
  im_id :: ustring
  im_score :: real
  im_subscores :: signals
  im_reason :: ustring

definition weighted_score :: "signals \<Rightarrow> signals \<Rightarrow> real" where
  "weighted_score s w =
     (let raw = sum_list (map (\<lambda>k. s k * w k) subscore_keys); total_weight = sum_list (map w subscore_keys)
      in if total_weight \<le> 0 then 0 else raw / total_weight)"

fun signal_label :: "signal \<Rightarrow> string" where
  "signal_label Relevance = ''lexical relevance to query''"
| "signal_label Recency = ''recent update''"
| "signal_label Confidence = ''high provenance confidence''"
| "signal_label Pinned = ''pinned memory''"
| "signal_label CorrectionSignal = ''recent correction overrides older facts''"
| "signal_label Graph = ''graph proximity to other top memories''"
| "signal_label Semantic = ''semantic similarity to query''"
| "signal_label Strength = ''frequently recalled (reinforced)''"
| "signal_label Importance = ''authoritative source''"

definition inclusion_reason_text :: "signal \<Rightarrow> real \<Rightarrow> ustring" where
  "inclusion_reason_text k v =
     (if v \<le> 0 then units ''included by default ranking'' else units ''top signal: '' @ units (signal_label k))"

text \<open>The loop that keeps the first of the greatest values.\<close>

definition best_signal :: "signal \<times> real \<Rightarrow> (signal \<times> real) list \<Rightarrow> signal \<times> real" where
  "best_signal start parts = foldl (\<lambda>b p. if snd p > snd b then p else b) start parts"

definition top_contributor :: "signals \<Rightarrow> signals \<Rightarrow> ustring" where
  "top_contributor s w =
     (let (k, v) = best_signal (Recency, - 1) (map (\<lambda>k. (k, s k * w k))
        [Pinned, CorrectionSignal, Semantic, Strength, Relevance, Recency, Confidence, Importance, Graph])
      in inclusion_reason_text k v)"

definition entry_for :: "memory_record \<Rightarrow> signals \<Rightarrow> signals \<Rightarrow> included_memory" where
  "entry_for m s w = \<lparr> im_id = mr_id m, im_score = weighted_score s w, im_subscores = s, im_reason = top_contributor s w \<rparr>"

subsection \<open>Order\<close>

text \<open>\<open>compareEntries\<close> is negative.\<close>

definition compare_entries :: "included_memory \<Rightarrow> included_memory \<Rightarrow> memory_record \<Rightarrow> memory_record \<Rightarrow> bool" where
  "compare_entries a b ra rb =
     (if im_score a \<noteq> im_score b then im_score b < im_score a
      else if mr_updated_at ra \<noteq> mr_updated_at rb then mr_updated_at rb < mr_updated_at ra
      else im_id a < im_id b)"

definition rank_before :: "(ustring \<rightharpoonup> memory_record) \<Rightarrow> included_memory \<Rightarrow> included_memory \<Rightarrow> bool" where
  "rank_before recs a b =
     (case (recs (im_id a), recs (im_id b)) of
        (Some ra, Some rb) \<Rightarrow> compare_entries a b ra rb
      | _ \<Rightarrow> False)"

definition sort_by_rank :: "included_memory list \<Rightarrow> (ustring \<rightharpoonup> memory_record) \<Rightarrow> included_memory list" where
  "sort_by_rank entries recs = sort_by (rank_before recs) entries"

subsection \<open>Ranking\<close>

datatype retrieval_error =
    EmptyScopes
  | InvalidBudget
  | InvalidClock
  | InvalidUnitThreshold
  | InvalidWeight
  | PortFailure
  | RankingInvariantViolated

definition require_entry :: "('k \<rightharpoonup> 'v) \<Rightarrow> 'k \<Rightarrow> retrieval_error + 'v" where
  "require_entry f k = (case f k of None \<Rightarrow> Inl RankingInvariantViolated | Some v \<Rightarrow> Inr v)"

definition build_record_index :: "memory_record list \<Rightarrow> (ustring \<rightharpoonup> memory_record)" where
  "build_record_index ms = fold (\<lambda>m f. f(mr_id m \<mapsto> m)) ms Map.empty"

definition effective_weights :: "rank_query \<Rightarrow> signals" where
  "effective_weights q =
     (let w = (if rq_semantic q = None then (rq_weights q)(Semantic := 0) else rq_weights q)
      in if rq_strength q = None then w(Strength := 0) else w)"

definition entries_of :: "memory_record list \<Rightarrow> (ustring \<rightharpoonup> signals) \<Rightarrow> signals \<Rightarrow> retrieval_error + included_memory list" where
  "entries_of ms subs w = rmap (\<lambda>m. rbind (require_entry subs (mr_id m)) (\<lambda>s. Inr (entry_for m s w))) ms"

definition compute_final_subscores ::
  "(ustring \<Rightarrow> ustring list) \<Rightarrow> memory_record list \<Rightarrow> rank_query \<Rightarrow> signals \<Rightarrow> (ustring \<rightharpoonup> memory_edge list) option \<Rightarrow>
   nat option \<Rightarrow> (ustring \<rightharpoonup> memory_record) \<Rightarrow> retrieval_error + (ustring \<rightharpoonup> signals)" where
  "compute_final_subscores pieces ms q w edges_by_memory high_rank_count recs =
     (let base = fold (\<lambda>m f. f(mr_id m \<mapsto> baseline_subscores pieces m q)) ms Map.empty
      in case edges_by_memory of None \<Rightarrow> Inr base | Some edges \<Rightarrow>
         rbind (entries_of ms base w) (\<lambda>entries.
           let count = (case high_rank_count of None \<Rightarrow> 8 | Some n \<Rightarrow> n);
               high_rank = map im_id (take count (sort_by_rank entries recs))
           in rfold (\<lambda>f m. rbind (require_entry f (mr_id m)) (\<lambda>s.
                Inr (f(mr_id m \<mapsto> s(Graph := graph_proximity_score (mr_id m) edges high_rank))))) base ms))"

definition rrf_k :: real where
  "rrf_k = 60"

text \<open>
  \<open>buildRankBySignal\<close> for one signal: the values are looked up before the sort compares them.
\<close>

definition signal_before :: "ustring \<times> real \<Rightarrow> ustring \<times> real \<Rightarrow> bool" where
  "signal_before a b = (if snd a \<noteq> snd b then snd b < snd a else fst a < fst b)"

definition ranks_for_signal :: "memory_record list \<Rightarrow> (ustring \<rightharpoonup> signals) \<Rightarrow> signal \<Rightarrow> retrieval_error + (ustring \<rightharpoonup> nat)" where
  "ranks_for_signal ms subs sig =
     rbind (rmap (\<lambda>m. rbind (require_entry subs (mr_id m)) (\<lambda>s. Inr (mr_id m, s sig))) ms) (\<lambda>values.
       Inr (fold (\<lambda>(i, p) f. f(fst p \<mapsto> Suc i)) (enumerate 0 (sort_by signal_before values)) Map.empty))"

definition build_rank_by_signal ::
  "memory_record list \<Rightarrow> (ustring \<rightharpoonup> signals) \<Rightarrow> signal list \<Rightarrow> retrieval_error + (signal \<times> (ustring \<rightharpoonup> nat)) list" where
  "build_rank_by_signal ms subs signals = rmap (\<lambda>sig. rbind (ranks_for_signal ms subs sig) (\<lambda>r. Inr (sig, r))) signals"

definition max_fused :: "signals \<Rightarrow> signal list \<Rightarrow> real" where
  "max_fused w signals = foldl (\<lambda>total sig. total + w sig / (rrf_k + 1)) 0 signals"

definition rrf_entry ::
  "signals \<Rightarrow> (ustring \<rightharpoonup> signals) \<Rightarrow> signal list \<Rightarrow> (signal \<rightharpoonup> (ustring \<rightharpoonup> nat)) \<Rightarrow> signal \<Rightarrow> memory_record \<Rightarrow>
   retrieval_error + included_memory" where
  "rrf_entry w subs signals ranks first_signal m =
     rbind (rmap (\<lambda>sig. rbind (require_entry ranks sig) (\<lambda>r. rbind (require_entry r (mr_id m)) (\<lambda>rank.
         Inr (sig, w sig / (rrf_k + real rank))))) signals) (\<lambda>contribs.
       rbind (require_entry subs (mr_id m)) (\<lambda>s.
         let fused = foldl (\<lambda>total c. total + snd c) 0 contribs; (k, v) = best_signal (first_signal, - 1) contribs;
             best = max_fused w signals
         in Inr \<lparr> im_id = mr_id m, im_score = (if best > 0 then fused / best else 0), im_subscores = s,
              im_reason = inclusion_reason_text k v \<rparr>))"

definition rrf_rank ::
  "memory_record list \<Rightarrow> (ustring \<rightharpoonup> signals) \<Rightarrow> signals \<Rightarrow> (ustring \<rightharpoonup> memory_record) \<Rightarrow> retrieval_error + included_memory list" where
  "rrf_rank ms subs w recs =
     (let signals = filter (\<lambda>k. w k > 0) subscore_keys
      in case signals of
           [] \<Rightarrow> rbind (entries_of ms subs w) (\<lambda>entries. Inr (sort_by_rank entries recs))
         | first_signal # _ \<Rightarrow> rbind (build_rank_by_signal ms subs signals) (\<lambda>ranks.
             rbind (rmap (rrf_entry w subs signals (map_of ranks) first_signal) ms) (\<lambda>entries.
               Inr (sort_by_rank entries recs))))"

definition rank_memories ::
  "(ustring \<Rightarrow> ustring list) \<Rightarrow> memory_record list \<Rightarrow> rank_query \<Rightarrow> (ustring \<rightharpoonup> memory_edge list) option \<Rightarrow> nat option \<Rightarrow>
   retrieval_error + included_memory list" where
  "rank_memories pieces ms q edges_by_memory high_rank_count =
     (if ms = [] then Inr []
      else let recs = build_record_index ms; w = effective_weights q
        in rbind (compute_final_subscores pieces ms q w edges_by_memory high_rank_count recs) (\<lambda>subs.
             if rq_fusion q = Some ReciprocalRank then rrf_rank ms subs w recs
             else rbind (entries_of ms subs w) (\<lambda>entries. Inr (sort_by_rank entries recs))))"

end
