(* ===== verification/Memory_Context.thy ===== *)
theory Memory_Context
  imports Memory_Ranking
begin

text \<open>
  The token-budgeted assembler (\<open>keiko-memory-retrieval/src/context.ts\<close>): the estimate of a text, the
  clipping of a body to an allowance, and the greedy packing of a ranked list. Budgets and counts are
  integers, as the orchestrator demands. A charge is kept in tenths of a token, where the code multiplies
  a word count by 1.3; for up to 20,000 words the rounded product of the code and the exact one have the
  same ceiling and compare alike with an integer.
\<close>

subsection \<open>The estimate\<close>

text \<open>\<open>split(/\s+/)\<close> without its empty pieces.\<close>

fun split_white :: "ustring \<Rightarrow> ustring \<Rightarrow> ustring list" where
  "split_white word [] = [rev word]"
| "split_white word (c # r) = (if is_space c then rev word # split_white [] r else split_white (c # word) r)"

definition words_of :: "ustring \<Rightarrow> ustring list" where
  "words_of body = filter (\<lambda>w. w \<noteq> []) (split_white [] body)"

record token_charge =
  tc_ordinary :: int
  tc_long :: int

definition no_charge :: token_charge where
  "no_charge = \<lparr> tc_ordinary = 0, tc_long = 0 \<rparr>"

definition charge_word :: "token_charge \<Rightarrow> ustring \<Rightarrow> token_charge" where
  "charge_word c word =
     (if length word \<le> 24 then c\<lparr> tc_ordinary := tc_ordinary c + 1 \<rparr>
      else c\<lparr> tc_long := tc_long c + (int (length word) + 3) div 4 \<rparr>)"

definition charge_tenths :: "token_charge \<Rightarrow> int" where
  "charge_tenths c = tc_ordinary c * 13 + tc_long c * 10"

definition estimate_tokens :: "ustring \<Rightarrow> int" where
  "estimate_tokens body =
     (if body = [] then 0
      else let ws = words_of (trim_units body)
        in if ws = [] then 0 else (charge_tenths (foldl charge_word no_charge ws) + 9) div 10)"

subsection \<open>Clipping\<close>

definition ellipsis :: ustring where
  "ellipsis = [0x2026]"

fun clip_end :: "int \<Rightarrow> nat \<Rightarrow> ustring list \<Rightarrow> nat" where
  "clip_end max_chars stop [] = stop"
| "clip_end max_chars stop (ch # r) =
     (if stop > 0 \<and> int (stop + length ch) > max_chars then stop else clip_end max_chars (stop + length ch) r)"

definition clip_long_word_to_budget :: "ustring \<Rightarrow> int \<Rightarrow> ustring" where
  "clip_long_word_to_budget word budget =
     take (clip_end (max 1 (budget * 4 - 1)) 0 (chars_of word)) word @ ellipsis"

fun clip_with_ellipsis_upto :: "ustring list \<Rightarrow> int \<Rightarrow> nat \<Rightarrow> ustring" where
  "clip_with_ellipsis_upto kept budget 0 = []"
| "clip_with_ellipsis_upto kept budget (Suc n) =
     (let candidate = join_units [32] (take (Suc n) kept) @ ellipsis
      in if estimate_tokens candidate \<le> budget then candidate else clip_with_ellipsis_upto kept budget n)"

definition clip_with_ellipsis :: "ustring list \<Rightarrow> int \<Rightarrow> ustring" where
  "clip_with_ellipsis kept budget = clip_with_ellipsis_upto kept budget (length kept)"

text \<open>The loop over the words ends in a word to cut, or in the words that fit.\<close>

datatype clip_outcome = CutWord ustring | KeptWords "ustring list"

fun clip_loop :: "int \<Rightarrow> ustring list \<Rightarrow> token_charge \<Rightarrow> ustring list \<Rightarrow> clip_outcome" where
  "clip_loop budget kept charge [] = KeptWords kept"
| "clip_loop budget kept charge (word # r) =
     (let nxt = charge_word charge word
      in if charge_tenths nxt \<le> budget * 10 then clip_loop budget (kept @ [word]) nxt r
         else if kept \<noteq> [] then KeptWords kept else CutWord word)"

definition clip_to_token_budget :: "ustring \<Rightarrow> int \<Rightarrow> ustring" where
  "clip_to_token_budget body budget =
     (if budget * 10 < 13 then []
      else let ws = words_of body
        in case clip_loop budget [] no_charge ws of
             CutWord word \<Rightarrow> clip_long_word_to_budget word budget
           | KeptWords kept \<Rightarrow> if length kept = length ws then body else clip_with_ellipsis kept budget)"

definition clipped_words :: "ustring list \<Rightarrow> int \<Rightarrow> ustring" where
  "clipped_words ws n =
     (let excerpt = join_units [32] (take (nat n) ws) in if n < int (length ws) then excerpt @ ellipsis else excerpt)"

subsection \<open>Rendering\<close>

record context_entry =
  ce_id :: ustring
  ce_excerpt :: ustring
  ce_reason :: ustring
  ce_source :: memory_source
  ce_rationale :: "ustring option"
  ce_sensitivity :: memory_sensitivity
  ce_confidence :: real
  ce_status :: memory_status
  ce_captured_at :: real

definition render_entry :: "context_entry \<Rightarrow> ustring" where
  "render_entry e = units ''- ('' @ ce_reason e @ units '') '' @ ce_excerpt e"

definition render_text :: "context_entry list \<Rightarrow> ustring" where
  "render_text entries =
     (if entries = [] then [] else join_units [10] (units ''# Relevant memories'' # map render_entry entries))"

definition rendered_cost :: "context_entry list \<Rightarrow> int" where
  "rendered_cost entries = estimate_tokens (render_text entries)"

definition entry_for_rank :: "included_memory \<Rightarrow> memory_record \<Rightarrow> ustring \<Rightarrow> context_entry" where
  "entry_for_rank rank m excerpt =
     \<lparr> ce_id = im_id rank, ce_excerpt = excerpt, ce_reason = im_reason rank, ce_source = mp_source (mr_provenance m),
       ce_rationale = mp_rationale (mr_provenance m), ce_sensitivity = mp_sensitivity (mr_provenance m),
       ce_confidence = mp_confidence (mr_provenance m), ce_status = mr_status m,
       ce_captured_at = mp_captured_at (mr_provenance m) \<rparr>"

subsection \<open>Packing\<close>

text \<open>The binary search for the number of words that fit.\<close>

function search_excerpt ::
  "(context_entry \<Rightarrow> bool) \<Rightarrow> (int \<Rightarrow> context_entry) \<Rightarrow> int \<Rightarrow> int \<Rightarrow> context_entry option \<Rightarrow> context_entry option" where
  "search_excerpt fits candidate lo hi best =
     (if lo \<le> hi then
        let mid = (lo + hi) div 2
        in if fits (candidate mid) then search_excerpt fits candidate (mid + 1) hi (Some (candidate mid))
           else search_excerpt fits candidate lo (mid - 1) best
      else best)"
  by pat_completeness auto

termination by (relation "measure (\<lambda>(_, _, lo, hi, _). nat (hi + 1 - lo))") auto

declare search_excerpt.simps [simp del]

definition fit_entry_to_budget ::
  "context_entry list \<Rightarrow> included_memory \<Rightarrow> memory_record \<Rightarrow> int \<Rightarrow> int \<Rightarrow> context_entry option" where
  "fit_entry_to_budget entries rank m budget per_entry =
     (let ws = words_of (mr_body m); initial = clip_to_token_budget (mr_body m) per_entry;
          fits = (\<lambda>e. rendered_cost (entries @ [e]) \<le> budget)
      in if (initial \<noteq> [] \<or> ws = []) \<and> fits (entry_for_rank rank m initial) then Some (entry_for_rank rank m initial)
         else search_excerpt fits (\<lambda>n. entry_for_rank rank m (clipped_words ws n)) 1
           (min (int (length ws)) (max 1 (per_entry * 10 div 13))) None)"

datatype omitted_reason =
    SuppressedByStatus | BelowThreshold | BudgetExceeded | MaxIncludedExceeded | OutOfScope | TypeFiltered

record omitted_memory =
  om_id :: ustring
  om_reason :: omitted_reason
  om_detail :: "string option"

definition omit :: "ustring \<Rightarrow> omitted_reason \<Rightarrow> omitted_memory" where
  "omit i r = \<lparr> om_id = i, om_reason = r, om_detail = None \<rparr>"

record assembly_step =
  ay_included :: "included_memory list"
  ay_entries :: "context_entry list"
  ay_omitted :: "omitted_memory list"
  ay_used :: int

definition assemble_one ::
  "(ustring \<rightharpoonup> memory_record) \<Rightarrow> int \<Rightarrow> int \<Rightarrow> int \<Rightarrow> assembly_step \<Rightarrow> included_memory \<Rightarrow> assembly_step" where
  "assemble_one recs budget max_included per_entry st rank =
     (if int (length (ay_included st)) \<ge> max_included
      then st\<lparr> ay_omitted := ay_omitted st @ [omit (im_id rank) MaxIncludedExceeded] \<rparr>
      else case recs (im_id rank) of
          None \<Rightarrow> st\<lparr> ay_omitted := ay_omitted st @ [omit (im_id rank) OutOfScope] \<rparr>
        | Some m \<Rightarrow>
          (case fit_entry_to_budget (ay_entries st) rank m budget (max 1 (min per_entry (budget - ay_used st))) of
             None \<Rightarrow> st\<lparr> ay_omitted := ay_omitted st @ [omit (im_id rank) BudgetExceeded] \<rparr>
           | Some e \<Rightarrow> st\<lparr> ay_used := rendered_cost (ay_entries st @ [e]), ay_included := ay_included st @ [rank],
               ay_entries := ay_entries st @ [e] \<rparr>))"

definition greedy_assemble :: "included_memory list \<Rightarrow> (ustring \<rightharpoonup> memory_record) \<Rightarrow> int \<Rightarrow> int \<Rightarrow> assembly_step" where
  "greedy_assemble ranked recs budget max_included =
     (let slots = max 1 (min max_included (int (length ranked))); per_entry = max 1 (budget div slots)
      in foldl (assemble_one recs budget max_included per_entry)
           \<lparr> ay_included = [], ay_entries = [], ay_omitted = [], ay_used = 0 \<rparr> ranked)"

record assembled_context =
  ac_text :: ustring
  ac_memories :: "context_entry list"
  ac_included :: "included_memory list"
  ac_omitted :: "omitted_memory list"
  ac_tokens :: int
  ac_used :: int

definition assemble_context_block :: "included_memory list \<Rightarrow> memory_record list \<Rightarrow> int \<Rightarrow> int \<Rightarrow> assembled_context" where
  "assemble_context_block ranked ms budget max_included =
     (let step = greedy_assemble ranked (build_record_index ms) budget max_included
      in \<lparr> ac_text = render_text (ay_entries step), ac_memories = ay_entries step, ac_included = ay_included step,
           ac_omitted = ay_omitted step, ac_tokens = budget, ac_used = ay_used step \<rparr>)"

end
