(* ===== verification/Memory_Retrieval.thy ===== *)
theory Memory_Retrieval
  imports Memory_Context Memory_Governance
begin

text \<open>
  The retrieval of memories for a conversation (\<open>keiko-memory-retrieval/src\<close>): the suppression rule,
  the reordering for diversity, and the orchestrator of \<open>retrieve.ts\<close>.

  The port is a parameter: a function that throws gives \<open>None\<close>, and during one retrieval it answers
  the same question in the same way. A map that is only read is a function; a map that is walked is the list of its entries.
\<close>

subsection \<open>Suppression\<close>

definition unit_threshold :: "real \<Rightarrow> bool" where
  "unit_threshold t \<longleftrightarrow> 0 \<le> t \<and> t \<le> 1"

fun recall_status_suppression :: "memory_status \<Rightarrow> suppression_reason option" where
  "recall_status_suppression MemArchived = Some SuppressedArchived"
| "recall_status_suppression MemForgotten = Some SuppressedForgotten"
| "recall_status_suppression MemConflicted = Some SuppressedConflicted"
| "recall_status_suppression MemRejected = Some SuppressedRejected"
| "recall_status_suppression MemExpired = Some SuppressedExpired"
| "recall_status_suppression MemProposed = Some SuppressedProposed"
| "recall_status_suppression MemAccepted = None"
| "recall_status_suppression MemSuperseded = None"

definition recall_validity_suppression :: "memory_record \<Rightarrow> real \<Rightarrow> suppression_reason option" where
  "recall_validity_suppression m now =
     (case vi_until (mr_validity m) of
        None \<Rightarrow> None
      | Some u \<Rightarrow> if u > now then None else Some SuppressedExpired)"

definition recall_confidence_suppression :: "memory_record \<Rightarrow> real \<Rightarrow> suppression_reason option" where
  "recall_confidence_suppression m threshold =
     (if mp_confidence (mr_provenance m) > threshold then None else Some SuppressedStale)"

definition is_memory_suppressed :: "memory_record \<Rightarrow> real \<Rightarrow> real \<Rightarrow> retrieval_error + suppression_reason option" where
  "is_memory_suppressed m now threshold =
     (if \<not> unit_threshold threshold then Inl InvalidUnitThreshold
      else Inr (case recall_status_suppression (mr_status m) of
          Some r \<Rightarrow> Some r
        | None \<Rightarrow> (case recall_validity_suppression m now of
            Some r \<Rightarrow> Some r
          | None \<Rightarrow> recall_confidence_suppression m threshold)))"

fun suppression_name :: "suppression_reason \<Rightarrow> string" where
  "suppression_name SuppressedArchived = ''archived''"
| "suppression_name SuppressedForgotten = ''forgotten''"
| "suppression_name SuppressedConflicted = ''conflicted''"
| "suppression_name SuppressedExpired = ''expired''"
| "suppression_name SuppressedProposed = ''proposed''"
| "suppression_name SuppressedRejected = ''rejected''"
| "suppression_name SuppressedStale = ''stale-low-confidence''"

subsection \<open>Diversity\<close>

definition cosine_similarity :: "real list \<Rightarrow> real list \<Rightarrow> real" where
  "cosine_similarity a b =
     (if a = [] \<or> length a \<noteq> length b then 0
      else let (dot, na, nb) = foldl (\<lambda>(dot, na, nb) (x, y). (dot + x * y, na + x * x, nb + y * y)) (0, 0, 0) (zip a b)
        in if na = 0 \<or> nb = 0 then 0
           else let c = dot / (sqrt na * sqrt nb) in if c \<le> 0 then 0 else min c 1)"

definition max_similarity :: "real list option \<Rightarrow> real list list \<Rightarrow> real" where
  "max_similarity vec selected =
     (case vec of None \<Rightarrow> 0
      | Some v \<Rightarrow> foldl (\<lambda>best sv. let sim = cosine_similarity v sv in if sim > best then sim else best) 0 selected)"

text \<open>The running best starts below every number.\<close>

definition best_mmr_index :: "included_memory list \<Rightarrow> (ustring \<rightharpoonup> real list) \<Rightarrow> real list list \<Rightarrow> real \<Rightarrow> nat" where
  "best_mmr_index remaining embedding selected lam =
     fst (foldl (\<lambda>(pos, best) (i, cand).
         let v = lam * im_score cand - (1 - lam) * max_similarity (embedding (im_id cand)) selected
         in if (case best of None \<Rightarrow> True | Some b \<Rightarrow> v > b) then (i, Some v) else (pos, best))
       (0, None) (enumerate 0 remaining))"

fun mmr_loop ::
  "nat \<Rightarrow> (ustring \<rightharpoonup> real list) \<Rightarrow> real \<Rightarrow> included_memory list \<Rightarrow> included_memory list \<Rightarrow> real list list \<Rightarrow> included_memory list" where
  "mmr_loop 0 embedding lam remaining selected vectors = selected"
| "mmr_loop (Suc n) embedding lam remaining selected vectors =
     (if remaining = [] then selected
      else let pos = best_mmr_index remaining embedding vectors lam
        in if pos \<ge> length remaining then selected
           else let chosen = remaining ! pos
             in mmr_loop n embedding lam (take pos remaining @ drop (Suc pos) remaining) (selected @ [chosen])
                  (case embedding (im_id chosen) of None \<Rightarrow> vectors | Some v \<Rightarrow> vectors @ [v]))"

definition reorder_by_mmr :: "included_memory list \<Rightarrow> (ustring \<times> real list) list \<Rightarrow> real \<Rightarrow> included_memory list" where
  "reorder_by_mmr ranked embedding lam =
     (if length ranked \<le> 2 \<or> embedding = [] \<or> lam \<ge> 1 then ranked
      else mmr_loop (length ranked) (map_of embedding) lam ranked [] [])"

subsection \<open>Requests\<close>

record retrieval_request =
  rr_scopes :: "memory_scope list"
  rr_text :: "ustring option"
  rr_types :: "memory_type list option"
  rr_now :: js_number
  rr_budget :: "js_number option"
  rr_max :: "js_number option"
  rr_weights :: "signal \<Rightarrow> js_number option"
  rr_semantic_min :: "js_number option"
  rr_stale :: "js_number option"
  rr_superseded :: "bool option"
  rr_semantic :: "(ustring \<times> real) list option"
  rr_strength :: "(ustring \<rightharpoonup> real) option"
  rr_embedding :: "(ustring \<times> real list) list option"
  rr_lambda :: "js_number option"
  rr_fusion :: "fusion_mode option"

fun default_weight :: "signal \<Rightarrow> real" where
  "default_weight Relevance = 2 / 10"
| "default_weight Recency = 12 / 100"
| "default_weight Confidence = 12 / 100"
| "default_weight Pinned = 3 / 10"
| "default_weight CorrectionSignal = 1 / 10"
| "default_weight Graph = 15 / 100"
| "default_weight Semantic = 4 / 10"
| "default_weight Strength = 2 / 10"
| "default_weight Importance = 1 / 10"

definition default_budget_tokens :: real where "default_budget_tokens = 1500"
definition default_max_included :: real where "default_max_included = 12"
definition default_stale_threshold :: real where "default_stale_threshold = 3 / 10"
definition default_semantic_min_score :: real where "default_semantic_min_score = 3 / 10"
definition list_max_results :: nat where "list_max_results = 500"
definition default_mmr_lambda :: real where "default_mmr_lambda = 7 / 10"

record resolved_request =
  rv_now :: real
  rv_budget :: int
  rv_max :: int
  rv_weights :: signals
  rv_semantic_min :: real
  rv_stale :: real

definition or_default :: "js_number option \<Rightarrow> real \<Rightarrow> js_number" where
  "or_default x d = (case x of None \<Rightarrow> Num d | Some n \<Rightarrow> n)"

definition resolve_weights :: "retrieval_request \<Rightarrow> signal \<Rightarrow> js_number" where
  "resolve_weights r k = or_default (rr_weights r k) (default_weight k)"

definition assert_non_negative_weights :: "(signal \<Rightarrow> js_number) \<Rightarrow> retrieval_error + signals" where
  "assert_non_negative_weights w =
     (if list_all (\<lambda>k. case finite_value (w k) of None \<Rightarrow> False | Some x \<Rightarrow> 0 \<le> x) subscore_keys
      then Inr (\<lambda>k. case finite_value (w k) of None \<Rightarrow> 0 | Some x \<Rightarrow> x) else Inl InvalidWeight)"

definition assert_count :: "js_number \<Rightarrow> retrieval_error + int" where
  "assert_count n =
     (case finite_value n of None \<Rightarrow> Inl InvalidBudget
      | Some x \<Rightarrow> if of_int \<lfloor>x\<rfloor> = x \<and> 0 \<le> x then Inr \<lfloor>x\<rfloor> else Inl InvalidBudget)"

definition assert_unit_threshold :: "js_number \<Rightarrow> retrieval_error + real" where
  "assert_unit_threshold n =
     (case finite_value n of None \<Rightarrow> Inl InvalidUnitThreshold
      | Some x \<Rightarrow> if 0 \<le> x \<and> x \<le> 1 then Inr x else Inl InvalidUnitThreshold)"

definition assert_clock :: "js_number \<Rightarrow> retrieval_error + real" where
  "assert_clock n =
     (case finite_value n of None \<Rightarrow> Inl InvalidClock | Some x \<Rightarrow> if x < 0 then Inl InvalidClock else Inr x)"

definition validate_and_resolve :: "retrieval_request \<Rightarrow> retrieval_error + resolved_request" where
  "validate_and_resolve r =
     (if rr_scopes r = [] then Inl EmptyScopes
      else rbind (assert_clock (rr_now r)) (\<lambda>now.
        rbind (assert_count (or_default (rr_budget r) default_budget_tokens)) (\<lambda>budget.
        rbind (assert_count (or_default (rr_max r) default_max_included)) (\<lambda>max_included.
        rbind (assert_non_negative_weights (resolve_weights r)) (\<lambda>weights.
        rbind (assert_unit_threshold (or_default (rr_stale r) default_stale_threshold)) (\<lambda>stale.
        rbind (assert_unit_threshold (or_default (rr_semantic_min r) default_semantic_min_score)) (\<lambda>semantic_min.
        rbind (case rr_lambda r of None \<Rightarrow> Inr 0 | Some l \<Rightarrow> assert_unit_threshold l) (\<lambda>_.
          Inr \<lparr> rv_now = now, rv_budget = budget, rv_max = max_included, rv_weights = weights,
            rv_semantic_min = semantic_min, rv_stale = stale \<rparr>))))))))"

subsection \<open>Candidates\<close>

record list_options =
  lo_forgotten :: bool
  lo_archived :: bool
  lo_expired :: bool
  lo_max_results :: nat

record memory_query_port =
  pt_list :: "memory_scope \<Rightarrow> list_options \<Rightarrow> memory_record list option"
  pt_outgoing :: "(ustring \<Rightarrow> memory_edge list option) option"
  pt_incoming :: "(ustring \<Rightarrow> memory_edge list option) option"
  pt_edges :: "(ustring list \<Rightarrow> (ustring \<rightharpoonup> memory_edge list) option) option"

definition every_record :: list_options where
  "every_record = \<lparr> lo_forgotten = True, lo_archived = True, lo_expired = True, lo_max_results = list_max_results \<rparr>"

definition port_answer :: "'a option \<Rightarrow> retrieval_error + 'a" where
  "port_answer x = (case x of None \<Rightarrow> Inl PortFailure | Some a \<Rightarrow> Inr a)"

definition fetch_scoped :: "memory_query_port \<Rightarrow> memory_scope list \<Rightarrow> retrieval_error + memory_record list" where
  "fetch_scoped port scopes =
     rbind (rmap (\<lambda>s. port_answer (pt_list port s every_record)) scopes) (\<lambda>batches. Inr (concat batches))"

text \<open>The loop of \<open>dedupeById\<close> and \<open>dedupeEdges\<close>.\<close>

fun dedupe_by :: "('a \<Rightarrow> ustring) \<Rightarrow> ustring list \<Rightarrow> 'a list \<Rightarrow> 'a list" where
  "dedupe_by key seen [] = []"
| "dedupe_by key seen (x # r) =
     (if key x \<in> set seen then dedupe_by key seen r else x # dedupe_by key (key x # seen) r)"

definition dedupe_by_id :: "memory_record list \<Rightarrow> memory_record list" where
  "dedupe_by_id ms = dedupe_by mr_id [] ms"

definition dedupe_edges :: "memory_edge list \<Rightarrow> memory_edge list" where
  "dedupe_edges es = dedupe_by me_id [] es"

definition filter_one ::
  "retrieval_request \<Rightarrow> resolved_request \<Rightarrow> memory_record list \<times> omitted_memory list \<Rightarrow> memory_record \<Rightarrow>
   retrieval_error + memory_record list \<times> omitted_memory list" where
  "filter_one r v st m =
     (let (candidates, omitted) = st
      in if (case rr_types r of None \<Rightarrow> False | Some ts \<Rightarrow> mr_type m \<notin> set ts)
         then Inr (candidates, omitted @ [omit (mr_id m) TypeFiltered])
         else if mr_status m = MemSuperseded \<and> rr_superseded r \<noteq> Some True
         then Inr (candidates, omitted @ [(omit (mr_id m) SuppressedByStatus)\<lparr> om_detail := Some ''superseded'' \<rparr>])
         else rbind (is_memory_suppressed m (rv_now v) (rv_stale v)) (\<lambda>sup. case sup of
             Some reason \<Rightarrow> Inr (candidates, omitted @
               [(omit (mr_id m) SuppressedByStatus)\<lparr> om_detail := Some (suppression_name reason) \<rparr>])
           | None \<Rightarrow> Inr (candidates @ [m], omitted)))"

definition apply_filters ::
  "memory_record list \<Rightarrow> retrieval_request \<Rightarrow> resolved_request \<Rightarrow> retrieval_error + memory_record list \<times> omitted_memory list" where
  "apply_filters ms r v = rfold (filter_one r v) ([], []) ms"

subsection \<open>Edges\<close>

definition non_empty_edges :: "memory_record list \<Rightarrow> (ustring \<rightharpoonup> memory_edge list) \<Rightarrow> (ustring \<rightharpoonup> memory_edge list)" where
  "non_empty_edges candidates batched = foldl (\<lambda>f m.
     let edges = dedupe_edges (case batched (mr_id m) of None \<Rightarrow> [] | Some es \<Rightarrow> es)
     in if edges \<noteq> [] then f(mr_id m \<mapsto> edges) else f) Map.empty candidates"

definition listed :: "(ustring \<Rightarrow> memory_edge list option) option \<Rightarrow> ustring \<Rightarrow> retrieval_error + memory_edge list" where
  "listed f i = (case f of None \<Rightarrow> Inr [] | Some g \<Rightarrow> port_answer (g i))"

definition edges_per_candidate :: "memory_query_port \<Rightarrow> memory_record list \<Rightarrow> retrieval_error + (ustring \<rightharpoonup> memory_edge list)" where
  "edges_per_candidate port candidates = rfold (\<lambda>f m.
     rbind (listed (pt_outgoing port) (mr_id m)) (\<lambda>outgoing. rbind (listed (pt_incoming port) (mr_id m)) (\<lambda>incoming.
       let edges = dedupe_edges (outgoing @ incoming)
       in Inr (if edges \<noteq> [] then f(mr_id m \<mapsto> edges) else f)))) Map.empty candidates"

definition build_edges_index ::
  "memory_query_port \<Rightarrow> memory_record list \<Rightarrow> retrieval_error + (ustring \<rightharpoonup> memory_edge list) option" where
  "build_edges_index port candidates =
     (case pt_edges port of
        Some f \<Rightarrow> rbind (port_answer (f (map mr_id candidates))) (\<lambda>batched. Inr (Some (non_empty_edges candidates batched)))
      | None \<Rightarrow> if pt_outgoing port = None \<and> pt_incoming port = None then Inr None
          else rbind (edges_per_candidate port candidates) (\<lambda>f. Inr (Some f)))"

subsection \<open>The relevance floor\<close>

definition semantic_scores_above_floor :: "(ustring \<times> real) list option \<Rightarrow> real \<Rightarrow> (ustring \<times> real) list option" where
  "semantic_scores_above_floor scores floor_score = map_option (filter (\<lambda>(i, x). x \<ge> floor_score)) scores"

definition has_query_signal :: "(ustring \<Rightarrow> ustring list) \<Rightarrow> ustring option \<Rightarrow> (ustring \<times> real) list option \<Rightarrow> bool" where
  "has_query_signal pieces query scores \<longleftrightarrow>
     (case query of None \<Rightarrow> False | Some q \<Rightarrow> tokenize_memory_text pieces q \<noteq> []) \<or>
     (case scores of None \<Rightarrow> False | Some xs \<Rightarrow> list_ex (\<lambda>(i, x). x > 0) xs)"

definition floor_keeps :: "included_memory \<Rightarrow> bool" where
  "floor_keeps e \<longleftrightarrow>
     im_subscores e Pinned > 0 \<or> im_subscores e CorrectionSignal > 0 \<or>
     \<not> (im_subscores e Relevance = 0 \<and> im_subscores e Semantic = 0 \<and> im_subscores e Graph = 0)"

definition apply_relevance_floor ::
  "(ustring \<Rightarrow> ustring list) \<Rightarrow> included_memory list \<Rightarrow> ustring option \<Rightarrow> (ustring \<times> real) list option \<Rightarrow>
   included_memory list \<times> omitted_memory list" where
  "apply_relevance_floor pieces ranked query scores =
     (if \<not> has_query_signal pieces query scores then (ranked, [])
      else (filter floor_keeps ranked, map (\<lambda>e. omit (im_id e) BelowThreshold) (filter (\<lambda>e. \<not> floor_keeps e) ranked)))"

subsection \<open>The orchestrator\<close>

definition build_rank_query :: "retrieval_request \<Rightarrow> resolved_request \<Rightarrow> (ustring \<times> real) list option \<Rightarrow> rank_query" where
  "build_rank_query r v scores = \<lparr> rq_text = rr_text r, rq_now = rv_now v, rq_weights = rv_weights v,
     rq_semantic = map_option map_of scores, rq_strength = rr_strength r, rq_fusion = rr_fusion r \<rparr>"

definition reorder_selection :: "included_memory list \<Rightarrow> retrieval_request \<Rightarrow> included_memory list" where
  "reorder_selection ranked r =
     (case rr_embedding r of None \<Rightarrow> ranked
      | Some embedding \<Rightarrow> reorder_by_mmr ranked embedding
          (case Option.bind (rr_lambda r) finite_value of None \<Rightarrow> default_mmr_lambda | Some l \<Rightarrow> l))"

definition empty_result :: "int \<Rightarrow> assembled_context" where
  "empty_result budget = \<lparr> ac_text = [], ac_memories = [], ac_included = [], ac_omitted = [], ac_tokens = budget, ac_used = 0 \<rparr>"

definition retrieve_memory_context ::
  "(ustring \<Rightarrow> ustring list) \<Rightarrow> retrieval_request \<Rightarrow> memory_query_port \<Rightarrow> retrieval_error + assembled_context" where
  "retrieve_memory_context pieces r port =
     rbind (validate_and_resolve r) (\<lambda>v.
       if rv_max v = 0 \<or> rv_budget v = 0 then Inr (empty_result (rv_budget v))
       else rbind (fetch_scoped port (rr_scopes r)) (\<lambda>fetched.
         rbind (apply_filters (dedupe_by_id fetched) r v) (\<lambda>(candidates, filtered_out).
         rbind (build_edges_index port candidates) (\<lambda>edges.
           let scores = semantic_scores_above_floor (rr_semantic r) (rv_semantic_min v)
           in rbind (rank_memories pieces candidates (build_rank_query r v scores) edges None) (\<lambda>ranked.
             let (kept, below) = apply_relevance_floor pieces ranked (rr_text r) scores;
                 block = assemble_context_block (reorder_selection kept r) candidates (rv_budget v) (rv_max v)
             in Inr (block\<lparr> ac_omitted := filtered_out @ below @ ac_omitted block \<rparr>))))))"

end
