(* ===== verification/Memory_Ranked.thy ===== *)
theory Memory_Ranked
  imports Memory_Ranking
begin

text \<open>
  What the ranker promises: it never fails, it keeps every memory once and puts the best first, the
  order of its input does not matter, and every score lies between 0 and 1.
\<close>

subsection \<open>Maps filled by a loop\<close>

lemma fold_upd_other: "i \<notin> k ` set xs \<Longrightarrow> fold (\<lambda>x f. f(k x \<mapsto> v x)) xs g i = g i"
  by (induction xs arbitrary: g) auto

lemma fold_upd_mem: "distinct (map k xs) \<Longrightarrow> x \<in> set xs \<Longrightarrow> fold (\<lambda>x f. f(k x \<mapsto> v x)) xs g (k x) = Some (v x)"
  by (induction xs arbitrary: g) (auto simp: fold_upd_other)

lemma fold_upd_map_of:
  "distinct (map k xs) \<Longrightarrow> fold (\<lambda>x f. f(k x \<mapsto> v x)) xs Map.empty = map_of (map (\<lambda>x. (k x, v x)) xs)"
proof (rule ext)
  fix i
  assume d: "distinct (map k xs)"
  show "fold (\<lambda>x f. f(k x \<mapsto> v x)) xs Map.empty i = map_of (map (\<lambda>x. (k x, v x)) xs) i"
  proof (cases "i \<in> k ` set xs")
    case True
    then obtain x where "x \<in> set xs" "i = k x" by blast
    with d show ?thesis by (simp add: fold_upd_mem map_of_eq_Some_iff comp_def)
  next
    case False
    moreover from this have "map_of (map (\<lambda>x. (k x, v x)) xs) i = None" by (simp add: map_of_eq_None_iff image_image)
    ultimately show ?thesis by (simp add: fold_upd_other)
  qed
qed

lemma map_of_keyed:
  "distinct (map k xs) \<Longrightarrow> x \<in> set xs \<Longrightarrow> map_of (map (\<lambda>x. (k x, v x)) xs) (k x) = Some (v x)"
  by (simp add: map_of_eq_Some_iff comp_def)

lemma map_of_keyed_perm:
  assumes "mset xs = mset ys" and "distinct (map k xs)"
  shows "map_of (map (\<lambda>x. (k x, v x)) xs) = map_of (map (\<lambda>x. (k x, v x)) ys)"
proof -
  have d: "distinct (map k ys)" using assms by (metis mset_map mset_eq_imp_distinct_iff)
  from assms(1) have "set xs = set ys" by (metis set_mset_mset)
  with assms(2) d show ?thesis by (subst map_of_inject_set) (simp_all add: comp_def)
qed

lemma rmap_total: "(\<And>x. x \<in> set xs \<Longrightarrow> f x = Inr (g x)) \<Longrightarrow> rmap f xs = Inr (map g xs)"
  by (induction xs) auto

subsection \<open>The orders\<close>

interpretation ranked: weak_order "rank_before recs" "{e. recs (im_id e) \<noteq> None}" for recs
  by unfold_locales
    (auto simp: rank_before_def compare_entries_def split: if_splits)

interpretation signalled: weak_order signal_before UNIV
  by unfold_locales (auto simp: signal_before_def split: if_splits)


subsection \<open>What each stage computes\<close>

text \<open>The subscores of a memory, written down without the maps the code keeps.\<close>

definition baseline_entries :: "(ustring \<Rightarrow> ustring list) \<Rightarrow> memory_record list \<Rightarrow> rank_query \<Rightarrow> signals \<Rightarrow> included_memory list" where
  "baseline_entries pieces ms q w = map (\<lambda>m. entry_for m (baseline_subscores pieces m q) w) ms"

definition high_rank_ids ::
  "(ustring \<Rightarrow> ustring list) \<Rightarrow> memory_record list \<Rightarrow> rank_query \<Rightarrow> signals \<Rightarrow> nat option \<Rightarrow> ustring list" where
  "high_rank_ids pieces ms q w limit = map im_id (take (case limit of None \<Rightarrow> 8 | Some n \<Rightarrow> n)
     (sort_by_rank (baseline_entries pieces ms q w) (build_record_index ms)))"

definition final_subscores ::
  "(ustring \<Rightarrow> ustring list) \<Rightarrow> rank_query \<Rightarrow> (ustring \<rightharpoonup> memory_edge list) option \<Rightarrow> ustring list \<Rightarrow> memory_record \<Rightarrow> signals" where
  "final_subscores pieces q edges high m =
     (case edges of None \<Rightarrow> baseline_subscores pieces m q
      | Some e \<Rightarrow> (baseline_subscores pieces m q)(Graph := graph_proximity_score (mr_id m) e high))"

lemma require_entry_Some [simp]: "f k = Some v \<Longrightarrow> require_entry f k = Inr v"
  by (simp add: require_entry_def)

lemma index_map_of: "distinct (map mr_id ms) \<Longrightarrow> build_record_index ms = map_of (map (\<lambda>m. (mr_id m, m)) ms)"
  using fold_upd_map_of [of mr_id ms "\<lambda>m. m"] by (simp add: build_record_index_def)

lemma index_mem [simp]: "distinct (map mr_id ms) \<Longrightarrow> m \<in> set ms \<Longrightarrow> build_record_index ms (mr_id m) = Some m"
  using map_of_keyed [of mr_id ms m "\<lambda>m. m"] by (simp add: index_map_of)

lemma entry_id [simp]: "im_id (entry_for m s w) = mr_id m"
  by (simp add: entry_for_def)

lemma entries_of_total:
  assumes "\<And>m. m \<in> set ms \<Longrightarrow> subs (mr_id m) = Some (f m)"
  shows "entries_of ms subs w = Inr (map (\<lambda>m. entry_for m (f m) w) ms)"
  unfolding entries_of_def by (rule rmap_total) (simp add: assms)

lemma graph_pass:
  assumes "distinct (map mr_id ms)" and "\<And>m. m \<in> set ms \<Longrightarrow> f (mr_id m) = Some (b m)"
  shows "\<exists>g. rfold (\<lambda>f m. rbind (require_entry f (mr_id m)) (\<lambda>s. Inr (f(mr_id m \<mapsto> u m s)))) f ms = Inr g \<and>
    (\<forall>m\<in>set ms. g (mr_id m) = Some (u m (b m))) \<and> (\<forall>i. i \<notin> mr_id ` set ms \<longrightarrow> g i = f i)"
  using assms
proof (induction ms arbitrary: f)
  case (Cons m ms)
  let ?f = "f(mr_id m \<mapsto> u m (b m))"
  have "\<And>n. n \<in> set ms \<Longrightarrow> ?f (mr_id n) = Some (b n)"
  proof -
    fix n
    assume n: "n \<in> set ms"
    with Cons.prems(1) have "mr_id n \<noteq> mr_id m" by simp (metis image_eqI)
    with n Cons.prems(2) [of n] show "?f (mr_id n) = Some (b n)" by simp
  qed
  moreover have "distinct (map mr_id ms)" "mr_id m \<notin> mr_id ` set ms" using Cons.prems(1) by simp_all
  ultimately obtain g where g:
    "rfold (\<lambda>f m. rbind (require_entry f (mr_id m)) (\<lambda>s. Inr (f(mr_id m \<mapsto> u m s)))) ?f ms = Inr g"
    "\<forall>n\<in>set ms. g (mr_id n) = Some (u n (b n))" "\<forall>i. i \<notin> mr_id ` set ms \<longrightarrow> g i = ?f i"
    using Cons.IH [of ?f] by blast
  have "\<forall>n\<in>set (m # ms). g (mr_id n) = Some (u n (b n))"
    using g(2,3) \<open>mr_id m \<notin> mr_id ` set ms\<close> by simp
  moreover have "rfold (\<lambda>f m. rbind (require_entry f (mr_id m)) (\<lambda>s. Inr (f(mr_id m \<mapsto> u m s)))) f (m # ms) = Inr g"
    using g(1) Cons.prems(2) [of m] by (simp only: rfold.simps require_entry_Some list.set_intros rbind.simps)
  moreover have "\<forall>i. i \<notin> mr_id ` set (m # ms) \<longrightarrow> g i = f i" using g(3) by simp
  ultimately show ?case by blast
qed simp

lemma final_subscores_computed:
  assumes "distinct (map mr_id ms)"
  shows "\<exists>subs. compute_final_subscores pieces ms q w edges limit (build_record_index ms) = Inr subs \<and>
    (\<forall>m\<in>set ms. subs (mr_id m) = Some (final_subscores pieces q edges (high_rank_ids pieces ms q w limit) m))"
proof -
  let ?base = "fold (\<lambda>m f. f(mr_id m \<mapsto> baseline_subscores pieces m q)) ms Map.empty"
  have base: "\<And>m. m \<in> set ms \<Longrightarrow> ?base (mr_id m) = Some (baseline_subscores pieces m q)"
    using fold_upd_mem [OF assms, where v = "\<lambda>m. baseline_subscores pieces m q"] by blast
  have entries: "entries_of ms ?base w = Inr (baseline_entries pieces ms q w)"
    unfolding baseline_entries_def by (rule entries_of_total) (rule base)
  show ?thesis
  proof (cases edges)
    case None
    with base show ?thesis by (simp add: compute_final_subscores_def final_subscores_def)
  next
    case (Some e)
    let ?high = "high_rank_ids pieces ms q w limit"
    from graph_pass [where f = ?base and b = "\<lambda>m. baseline_subscores pieces m q" and ms = ms
        and u = "\<lambda>m s. s(Graph := graph_proximity_score (mr_id m) e ?high)"] assms base obtain g where
      "rfold (\<lambda>f m. rbind (require_entry f (mr_id m)) (\<lambda>s.
          Inr (f(mr_id m \<mapsto> s(Graph := graph_proximity_score (mr_id m) e ?high))))) ?base ms = Inr g"
      "\<forall>m\<in>set ms. g (mr_id m) = Some ((baseline_subscores pieces m q)(Graph := graph_proximity_score (mr_id m) e ?high))"
      by blast
    with Some entries show ?thesis
      by (simp add: compute_final_subscores_def final_subscores_def Let_def high_rank_ids_def)
  qed
qed

subsection \<open>The ranked list\<close>

definition signal_values :: "(memory_record \<Rightarrow> signals) \<Rightarrow> memory_record list \<Rightarrow> signal \<Rightarrow> (ustring \<times> real) list" where
  "signal_values f ms sig = map (\<lambda>m. (mr_id m, f m sig)) ms"

definition signal_ranks :: "(memory_record \<Rightarrow> signals) \<Rightarrow> memory_record list \<Rightarrow> signal \<Rightarrow> (ustring \<rightharpoonup> nat)" where
  "signal_ranks f ms sig =
     fold (\<lambda>(i, p) g. g(fst p \<mapsto> Suc i)) (enumerate 0 (sort_by signal_before (signal_values f ms sig))) Map.empty"

definition signal_share :: "(memory_record \<Rightarrow> signals) \<Rightarrow> signals \<Rightarrow> memory_record list \<Rightarrow> memory_record \<Rightarrow> signal \<Rightarrow> real" where
  "signal_share f w ms m sig = w sig / (rrf_k + real (the (signal_ranks f ms sig (mr_id m))))"

definition fused_entry ::
  "(memory_record \<Rightarrow> signals) \<Rightarrow> signals \<Rightarrow> memory_record list \<Rightarrow> signal list \<Rightarrow> memory_record \<Rightarrow> included_memory" where
  "fused_entry f w ms signals m =
     (let contribs = map (\<lambda>sig. (sig, signal_share f w ms m sig)) signals;
          (k, v) = best_signal (hd signals, - 1) contribs
      in \<lparr> im_id = mr_id m,
           im_score = (if max_fused w signals > 0 then foldl (\<lambda>t c. t + snd c) 0 contribs / max_fused w signals else 0),
           im_subscores = f m, im_reason = inclusion_reason_text k v \<rparr>)"

definition positive_signals :: "signals \<Rightarrow> signal list" where
  "positive_signals w = filter (\<lambda>k. w k > 0) subscore_keys"

definition ranked_entry ::
  "fusion_mode option \<Rightarrow> (memory_record \<Rightarrow> signals) \<Rightarrow> signals \<Rightarrow> memory_record list \<Rightarrow> memory_record \<Rightarrow> included_memory" where
  "ranked_entry fusion f w ms m =
     (if fusion = Some ReciprocalRank \<and> positive_signals w \<noteq> [] then fused_entry f w ms (positive_signals w) m
      else entry_for m (f m) w)"

lemma ranked_entry_id [simp]: "im_id (ranked_entry fusion f w ms m) = mr_id m"
  by (simp add: ranked_entry_def fused_entry_def Let_def split: prod.split)

lemma signal_ranks_mem:
  assumes "distinct (map mr_id ms)" and "m \<in> set ms"
  shows "\<exists>r. signal_ranks f ms sig (mr_id m) = Some r \<and> 0 < r"
proof -
  let ?sorted = "sort_by signal_before (signal_values f ms sig)"
  have keys: "map (\<lambda>x. fst (snd x)) (enumerate 0 ?sorted) = map fst ?sorted"
    by (simp flip: map_map [unfolded comp_def])
  have "mset (map fst ?sorted) = mset (map mr_id ms)"
    by (simp only: mset_map mset_sort_by signal_values_def) (simp add: image_mset.compositionality comp_def)
  then have d: "distinct (map fst ?sorted)" using assms(1) by (metis mset_eq_imp_distinct_iff)
  have "(mr_id m, f m sig) \<in> set ?sorted" using assms(2) by (simp add: signal_values_def)
  then have "(mr_id m, f m sig) \<in> snd ` set (enumerate 0 ?sorted)" by (metis list.set_map map_snd_enumerate)
  then obtain i where "(i, (mr_id m, f m sig)) \<in> set (enumerate 0 ?sorted)" by auto
  from fold_upd_mem [of "\<lambda>x. fst (snd x)" "enumerate 0 ?sorted", where v = "\<lambda>x. Suc (fst x)", OF _ this] d keys
  show ?thesis by (auto simp: signal_ranks_def case_prod_unfold)
qed

lemma ranks_computed:
  assumes "distinct (map mr_id ms)" and "\<And>m. m \<in> set ms \<Longrightarrow> subs (mr_id m) = Some (f m)"
  shows "build_rank_by_signal ms subs signals = Inr (map (\<lambda>sig. (sig, signal_ranks f ms sig)) signals)"
proof -
  have "rmap (\<lambda>m. rbind (require_entry subs (mr_id m)) (\<lambda>s. Inr (mr_id m, s sig))) ms = Inr (signal_values f ms sig)" for sig
    unfolding signal_values_def by (rule rmap_total) (simp add: assms)
  then show ?thesis unfolding build_rank_by_signal_def by (intro rmap_total) (simp add: ranks_for_signal_def signal_ranks_def)
qed

lemma rrf_entry_computed:
  assumes "distinct (map mr_id ms)" and subs: "\<And>m. m \<in> set ms \<Longrightarrow> subs (mr_id m) = Some (f m)"
    and "m \<in> set ms" and "signals \<noteq> []" and "distinct signals"
  shows "rrf_entry w subs signals (map_of (map (\<lambda>sig. (sig, signal_ranks f ms sig)) signals)) (hd signals) m =
    Inr (fused_entry f w ms signals m)"
proof -
  let ?ranks = "map_of (map (\<lambda>sig. (sig, signal_ranks f ms sig)) signals)"
  have "rmap (\<lambda>sig. rbind (require_entry ?ranks sig) (\<lambda>r. rbind (require_entry r (mr_id m)) (\<lambda>rank.
         Inr (sig, w sig / (rrf_k + real rank))))) signals = Inr (map (\<lambda>sig. (sig, signal_share f w ms m sig)) signals)"
  proof (rule rmap_total)
    fix sig
    assume "sig \<in> set signals"
    with map_of_keyed [of "\<lambda>s. s" signals sig "signal_ranks f ms"] assms(5)
    have "?ranks sig = Some (signal_ranks f ms sig)" by simp
    moreover obtain r where "signal_ranks f ms sig (mr_id m) = Some r" using signal_ranks_mem assms(1,3) by blast
    ultimately show "rbind (require_entry ?ranks sig) (\<lambda>r. rbind (require_entry r (mr_id m)) (\<lambda>rank.
         Inr (sig, w sig / (rrf_k + real rank)))) = Inr (sig, signal_share f w ms m sig)"
      by (simp add: signal_share_def)
  qed
  with subs assms(3) show ?thesis by (simp add: rrf_entry_def fused_entry_def Let_def split: prod.split)
qed

lemma positive_signals_distinct: "distinct (positive_signals w)"
  by (simp add: positive_signals_def subscore_keys_def)

lemma rank_memories_computed:
  fixes pieces q edges limit
  defines "w \<equiv> effective_weights q"
  assumes d: "distinct (map mr_id ms)"
  shows "rank_memories pieces ms q edges limit = Inr (sort_by_rank
    (map (ranked_entry (rq_fusion q) (final_subscores pieces q edges (high_rank_ids pieces ms q w limit)) w ms) ms)
    (build_record_index ms))"
proof (cases "ms = []")
  case True
  then show ?thesis by (simp add: rank_memories_def sort_by_rank_def sort_by_def)
next
  case False
  let ?f = "final_subscores pieces q edges (high_rank_ids pieces ms q w limit)"
  from final_subscores_computed [OF d] obtain subs where
    run: "compute_final_subscores pieces ms q w edges limit (build_record_index ms) = Inr subs"
    and subs: "\<And>m. m \<in> set ms \<Longrightarrow> subs (mr_id m) = Some (?f m)" by blast
  have entries: "entries_of ms subs w = Inr (map (\<lambda>m. entry_for m (?f m) w) ms)"
    by (rule entries_of_total) (rule subs)
  show ?thesis
  proof (cases "rq_fusion q = Some ReciprocalRank \<and> positive_signals w \<noteq> []")
    case True
    then obtain k ks where pos: "positive_signals w = k # ks" by (cases "positive_signals w") auto
    have "rmap (rrf_entry w subs (k # ks) (map_of (map (\<lambda>sig. (sig, signal_ranks ?f ms sig)) (k # ks))) k) ms =
        Inr (map (fused_entry ?f w ms (k # ks)) ms)"
    proof (rule rmap_total)
      fix m
      assume m: "m \<in> set ms"
      have dist: "distinct (k # ks)" using positive_signals_distinct [of w] pos by simp
      show "rrf_entry w subs (k # ks) (map_of (map (\<lambda>sig. (sig, signal_ranks ?f ms sig)) (k # ks))) k m =
          Inr (fused_entry ?f w ms (k # ks) m)"
        using rrf_entry_computed [where subs = subs and f = ?f and signals = "k # ks", OF d _ m _ dist] subs by simp
    qed
    with True pos ranks_computed [where subs = subs and f = ?f and signals = "k # ks", OF d] subs run \<open>ms \<noteq> []\<close> show ?thesis
      by (simp add: rank_memories_def rrf_rank_def ranked_entry_def [abs_def] Let_def flip: w_def positive_signals_def)
  next
    case False
    then have "map (\<lambda>m. entry_for m (?f m) w) ms = map (ranked_entry (rq_fusion q) ?f w ms) ms"
      by (auto simp: ranked_entry_def)
    with entries have "entries_of ms subs w = Inr (map (ranked_entry (rq_fusion q) ?f w ms) ms)" by simp
    with False run \<open>ms \<noteq> []\<close> show ?thesis
      by (auto simp: rank_memories_def rrf_rank_def Let_def simp flip: w_def positive_signals_def split: list.split)
  qed
qed

subsection \<open>The order of the input\<close>

lemma rank_total:
  "recs (im_id a) \<noteq> None \<Longrightarrow> recs (im_id b) \<noteq> None \<Longrightarrow> im_id a \<noteq> im_id b \<Longrightarrow> rank_before recs a b \<or> rank_before recs b a"
  by (auto simp: rank_before_def compare_entries_def)

lemma index_perm:
  assumes "distinct (map mr_id ms)" and "mset ms = mset ns"
  shows "build_record_index ms = build_record_index ns"
proof -
  have "distinct (map mr_id ns)" using assms by (metis mset_map mset_eq_imp_distinct_iff)
  then show ?thesis using assms by (simp add: index_map_of map_of_keyed_perm [of ms ns])
qed

lemma sort_entries_perm:
  assumes "distinct (map mr_id ms)" and "mset ms = mset ns" and ids: "\<And>m. im_id (e m) = mr_id m"
  shows "sort_by_rank (map e ms) (build_record_index ms) = sort_by_rank (map e ns) (build_record_index ns)"
proof -
  have known: "build_record_index ms (im_id (e m)) \<noteq> None" if "m \<in> set ms" for m
    using assms(1) that by (simp add: ids)
  have "sort_by (rank_before (build_record_index ms)) (map e ms) = sort_by (rank_before (build_record_index ms)) (map e ns)"
  proof (rule ranked.sort_order_free)
    show "mset (map e ms) = mset (map e ns)" using assms(2) by (metis mset_map)
    show "set (map e ms) \<subseteq> {a. build_record_index ms (im_id a) \<noteq> None}" using known by auto
  next
    fix a b
    assume "a \<in> set (map e ms)" "b \<in> set (map e ms)" "a \<noteq> b"
    then obtain m n where "a = e m" "b = e n" "m \<in> set ms" "n \<in> set ms" "m \<noteq> n" by auto
    moreover from this assms(1) have "mr_id m \<noteq> mr_id n" by (auto simp: distinct_map inj_on_def)
    ultimately show "rank_before (build_record_index ms) a b \<or> rank_before (build_record_index ms) b a"
      using known by (intro rank_total) (auto simp: ids)
  qed
  then show ?thesis using index_perm assms(1,2) by (simp add: sort_by_rank_def)
qed

lemma signal_ranks_perm:
  assumes "distinct (map mr_id ms)" and "mset ms = mset ns"
  shows "signal_ranks f ms sig = signal_ranks f ns sig"
proof -
  have "sort_by signal_before (signal_values f ms sig) = sort_by signal_before (signal_values f ns sig)"
  proof (rule signalled.sort_order_free)
    show "mset (signal_values f ms sig) = mset (signal_values f ns sig)" using assms(2) by (simp add: signal_values_def)
    fix x y
    assume "x \<in> set (signal_values f ms sig)" "y \<in> set (signal_values f ms sig)" "x \<noteq> y"
    with assms(1) have "fst x \<noteq> fst y" by (auto simp: signal_values_def distinct_map inj_on_def)
    then show "signal_before x y \<or> signal_before y x" by (auto simp: signal_before_def)
  qed simp
  then show ?thesis by (simp add: signal_ranks_def)
qed

lemma ranking_complete:
  assumes d: "distinct (map mr_id ms)"
  shows "\<exists>entries. rank_memories pieces ms q edges limit = Inr entries \<and> mset (map im_id entries) = mset (map mr_id ms) \<and>
       sorted_wrt (\<lambda>a b. \<not> rank_before (build_record_index ms) b a) entries"
proof -
  let ?w = "effective_weights q"
  let ?e = "ranked_entry (rq_fusion q) (final_subscores pieces q edges (high_rank_ids pieces ms q ?w limit)) ?w ms"
  have "sorted_wrt (\<lambda>a b. \<not> rank_before (build_record_index ms) b a) (sort_by_rank (map ?e ms) (build_record_index ms))"
    unfolding sort_by_rank_def by (rule ranked.sort_sorted) (use d in auto)
  moreover have "mset (map im_id (sort_by_rank (map ?e ms) (build_record_index ms))) = mset (map mr_id ms)"
    by (simp only: mset_map sort_by_rank_def mset_sort_by) (simp add: image_mset.compositionality comp_def)
  ultimately show ?thesis unfolding rank_memories_computed [OF d] by blast
qed

lemma ranked_entries:
  assumes "distinct (map mr_id ms)" and "rank_memories pieces ms q edges limit = Inr entries" and "e \<in> set entries"
  shows "\<exists>m\<in>set ms. im_id e = mr_id m \<and>
    im_subscores e = final_subscores pieces q edges (high_rank_ids pieces ms q (effective_weights q) limit) m"
proof -
  from assms rank_memories_computed [OF assms(1), of pieces q edges limit] obtain m where "m \<in> set ms"
    "e = ranked_entry (rq_fusion q) (final_subscores pieces q edges (high_rank_ids pieces ms q (effective_weights q) limit))
      (effective_weights q) ms m"
    by (auto simp: sort_by_rank_def)
  then show ?thesis
    by (intro bexI [of _ m]) (simp_all add: ranked_entry_def fused_entry_def entry_for_def Let_def split: prod.split)
qed

text \<open>
  The ranking is a function of the set of memories. Over memories with different ids the
  ranker never hits its internal guard, with or without edges and in both fusion modes; it gives every
  memory one entry, no entry comes behind one it beats, and the order in which the memories arrive
  changes nothing of the result.
\<close>

theorem ranking_ignores_order:
  assumes d: "distinct (map mr_id ms)" and p: "mset ms = mset ns"
  shows "rank_memories pieces ms q edges limit = rank_memories pieces ns q edges limit \<and>
    (\<exists>entries. rank_memories pieces ms q edges limit = Inr entries \<and> mset (map im_id entries) = mset (map mr_id ms) \<and>
       sorted_wrt (\<lambda>a b. \<not> rank_before (build_record_index ms) b a) entries)"
proof
  have dn: "distinct (map mr_id ns)" using d p by (metis mset_map mset_eq_imp_distinct_iff)
  let ?w = "effective_weights q"
  have high: "high_rank_ids pieces ms q ?w limit = high_rank_ids pieces ns q ?w limit"
    unfolding high_rank_ids_def baseline_entries_def by (subst sort_entries_perm [OF d p]) simp_all
  have "ranked_entry fusion f ?w ms = ranked_entry fusion f ?w ns" for fusion f
    unfolding ranked_entry_def fused_entry_def signal_share_def signal_ranks_perm [OF d p] ..
  then show "rank_memories pieces ms q edges limit = rank_memories pieces ns q edges limit"
    unfolding rank_memories_computed [OF d] rank_memories_computed [OF dn] high
    by (subst sort_entries_perm [OF d p]) simp_all
  show "\<exists>entries. rank_memories pieces ms q edges limit = Inr entries \<and> mset (map im_id entries) = mset (map mr_id ms) \<and>
       sorted_wrt (\<lambda>a b. \<not> rank_before (build_record_index ms) b a) entries" by (rule ranking_complete [OF d])
qed

subsection \<open>Scores\<close>

definition in_unit :: "real \<Rightarrow> bool" where
  "in_unit x \<longleftrightarrow> 0 \<le> x \<and> x \<le> 1"

lemma share_in_unit: "a \<le> b \<Longrightarrow> in_unit (real a / real b)"
  by (cases "b = 0") (simp_all add: in_unit_def)

lemma overlap_unit:
  assumes "distinct xs" and "distinct ys"
  shows "in_unit (if xs = [] \<or> ys = [] \<or> length xs + length ys - length (filter (\<lambda>t. t \<in> set ys) xs) = 0 then 0
    else real (length (filter (\<lambda>t. t \<in> set ys) xs)) / real (length xs + length ys - length (filter (\<lambda>t. t \<in> set ys) xs)))"
proof -
  have "card (set (filter (\<lambda>t. t \<in> set ys) xs)) \<le> card (set ys)" by (rule card_mono) auto
  with assms have "length (filter (\<lambda>t. t \<in> set ys) xs) \<le> length ys" by (simp only: distinct_card distinct_filter)
  then have "length (filter (\<lambda>t. t \<in> set ys) xs) \<le> length xs + length ys - length (filter (\<lambda>t. t \<in> set ys) xs)"
    using length_filter_le [of "\<lambda>t. t \<in> set ys" xs] by linarith
  from share_in_unit [OF this] show ?thesis by (simp only: in_unit_def split: if_split) simp
qed

lemma lexical_relevance_unit: "in_unit (lexical_relevance pieces query m)"
proof (cases query)
  case (Some q)
  show ?thesis unfolding Some lexical_relevance_def record_tokens_def Let_def option.case
    by (rule overlap_unit) simp_all
qed (simp add: lexical_relevance_def in_unit_def)

lemma decay_unit: "in_unit (exponential_decay age half_life)"
  by (simp add: exponential_decay_def in_unit_def Let_def)

lemma graph_unit: "in_unit (graph_proximity_score i edges high)"
  by (simp add: graph_proximity_score_def in_unit_def Let_def field_simps split: option.split)

lemma importance_unit: "in_unit (source_importance m)"
  by (cases "mp_source (mr_provenance m)") (simp_all add: source_importance_def in_unit_def)

text \<open>What the caller owes: weights that are not negative, and scores between 0 and 1.\<close>

definition fair_query :: "rank_query \<Rightarrow> memory_record list \<Rightarrow> bool" where
  "fair_query q ms \<longleftrightarrow> (\<forall>k. 0 \<le> rq_weights q k) \<and>
     (\<forall>m\<in>set ms. in_unit (mp_confidence (mr_provenance m)) \<and>
        in_unit (supplied (rq_semantic q) (mr_id m)) \<and> in_unit (supplied (rq_strength q) (mr_id m)))"

lemma subscores_unit:
  assumes "fair_query q ms" and "m \<in> set ms"
  shows "in_unit (final_subscores pieces q edges high m k)"
proof -
  have "in_unit (baseline_subscores pieces m q k)" for k
    using assms lexical_relevance_unit decay_unit importance_unit
    by (cases k) (auto simp: fair_query_def recency_score_def in_unit_def)
  then show ?thesis using graph_unit by (simp add: final_subscores_def split: option.split)
qed

lemma weighted_unit:
  assumes "\<And>k. in_unit (s k)" and "\<And>k. 0 \<le> w k"
  shows "in_unit (weighted_score s w)"
proof -
  have "0 \<le> s k * w k \<and> s k * w k \<le> w k" for k
    using assms(1) [of k] assms(2) [of k] by (simp add: in_unit_def mult_left_le_one_le)
  then have "0 \<le> sum_list (map (\<lambda>k. s k * w k) ks) \<and> sum_list (map (\<lambda>k. s k * w k) ks) \<le> sum_list (map w ks)" for ks
    by (induction ks) (auto intro: add_mono)
  then show ?thesis unfolding weighted_score_def Let_def in_unit_def
    by (auto simp: divide_nonneg_pos divide_le_eq_1)
qed

lemma foldl_plus: "foldl (\<lambda>t c. t + f c) (a :: real) cs = a + sum_list (map f cs)"
  by (induction cs arbitrary: a) simp_all

lemma fused_unit:
  assumes "distinct (map mr_id ms)" and "m \<in> set ms" and "\<And>k. k \<in> set signals \<Longrightarrow> 0 \<le> w k"
  shows "in_unit (im_score (fused_entry f w ms signals m))"
proof -
  have share: "0 \<le> signal_share f w ms m k \<and> signal_share f w ms m k \<le> w k / (rrf_k + 1)" if "k \<in> set signals" for k
  proof -
    obtain r where "signal_ranks f ms k (mr_id m) = Some r" "0 < r" using signal_ranks_mem assms(1,2) by blast
    moreover from this assms(3) [OF that] have "w k / (60 + real r) \<le> w k / 61" by (intro divide_left_mono) auto
    ultimately show ?thesis using assms(3) [OF that] by (simp add: signal_share_def rrf_k_def)
  qed
  let ?sum = "sum_list (map (signal_share f w ms m) signals)"
  have "0 \<le> ?sum" using share by (intro sum_list_nonneg) auto
  moreover have "?sum \<le> max_fused w signals"
    unfolding max_fused_def foldl_plus using share by (simp add: sum_list_mono)
  moreover have "im_score (fused_entry f w ms signals m) = (if max_fused w signals > 0 then ?sum / max_fused w signals else 0)"
    by (simp add: fused_entry_def Let_def foldl_plus comp_def split: prod.split)
  ultimately show ?thesis by (auto simp: in_unit_def divide_nonneg_pos divide_le_eq_1)
qed

text \<open>
  A score is a number between 0 and 1. When the weights are not negative and confidences and
  the caller's semantic and reinforcement scores lie between 0 and 1, then so does every subscore and
  every score of the ranking, whichever way the signals are fused.
\<close>

theorem scores_lie_in_unit:
  assumes d: "distinct (map mr_id ms)" and fair: "fair_query q ms"
    and run: "rank_memories pieces ms q edges limit = Inr entries"
  shows "list_all (\<lambda>e. in_unit (im_score e) \<and> (\<forall>k. in_unit (im_subscores e k))) entries"
proof -
  let ?w = "effective_weights q"
  let ?f = "final_subscores pieces q edges (high_rank_ids pieces ms q ?w limit)"
  have "entries = sort_by_rank (map (ranked_entry (rq_fusion q) ?f ?w ms) ms) (build_record_index ms)"
    using run rank_memories_computed [OF d, of pieces q edges limit] by simp
  then have "set entries = ranked_entry (rq_fusion q) ?f ?w ms ` set ms" by (simp add: sort_by_rank_def)
  moreover have "in_unit (im_score (ranked_entry (rq_fusion q) ?f ?w ms m)) \<and>
      (\<forall>k. in_unit (im_subscores (ranked_entry (rq_fusion q) ?f ?w ms m) k))" if m: "m \<in> set ms" for m
  proof
    have w: "0 \<le> ?w k" for k using fair by (simp add: effective_weights_def fair_query_def Let_def)
    note sub = subscores_unit [OF fair m]
    have "im_subscores (ranked_entry (rq_fusion q) ?f ?w ms m) = ?f m"
      by (simp add: ranked_entry_def fused_entry_def entry_for_def Let_def split: prod.split)
    with sub show "\<forall>k. in_unit (im_subscores (ranked_entry (rq_fusion q) ?f ?w ms m) k)" by simp
    have "im_score (entry_for m (?f m) ?w) = weighted_score (?f m) ?w" by (simp add: entry_for_def)
    with weighted_unit [of "?f m" ?w, OF sub w] fused_unit [of ms m "positive_signals ?w" ?w ?f] d m w
    show "in_unit (im_score (ranked_entry (rq_fusion q) ?f ?w ms m))" by (simp add: ranked_entry_def)
  qed
  ultimately show ?thesis by (simp add: list_all_iff)
qed

subsection \<open>At two memories\<close>

definition ranked_sample :: "string \<Rightarrow> bool \<Rightarrow> memory_record" where
  "ranked_sample i pinned = \<lparr> mr_id = units i, mr_scope = ProjectScope (units ''p''), mr_type = DecisionMemory,
     mr_body = units i, mr_provenance = \<lparr> mp_source = ExplicitUserInstruction, mp_conversation = None, mp_captured_at = 0,
       mp_confidence = 1, mp_sensitivity = ConfidentialMemory, mp_rationale = None \<rparr>,
     mr_validity = \<lparr> vi_from = 0, vi_until = None \<rparr>, mr_status = MemAccepted, mr_pinned = pinned, mr_tags = [],
     mr_created_at = 0, mr_updated_at = 5 \<rparr>"

definition sample_query :: "fusion_mode \<Rightarrow> rank_query" where
  "sample_query mode = \<lparr> rq_text = None, rq_now = 5, rq_weights = (\<lambda>_. 1), rq_semantic = None, rq_strength = None,
     rq_fusion = Some mode \<rparr>"

lemma sample_ids: "distinct (map mr_id [ranked_sample ''a'' False, ranked_sample ''b'' True])"
  by (simp add: ranked_sample_def units_def of_char_def)

theorem ranking_ignores_order_witness:
  "rank_memories (\<lambda>s. [s]) [ranked_sample ''a'' False, ranked_sample ''b'' True] (sample_query ReciprocalRank) None None =
   rank_memories (\<lambda>s. [s]) [ranked_sample ''b'' True, ranked_sample ''a'' False] (sample_query ReciprocalRank) None None"
  using ranking_ignores_order [OF sample_ids, of "[ranked_sample ''b'' True, ranked_sample ''a'' False]"] by simp

theorem scores_lie_in_unit_witness:
  "\<exists>entries. rank_memories (\<lambda>s. [s]) [ranked_sample ''a'' False, ranked_sample ''b'' True] (sample_query ReciprocalRank) None None = Inr entries \<and>
     length entries = 2 \<and> list_all (\<lambda>e. in_unit (im_score e)) entries"
proof -
  let ?ms = "[ranked_sample ''a'' False, ranked_sample ''b'' True]"
  have "\<exists>entries. rank_memories (\<lambda>s. [s]) ?ms (sample_query ReciprocalRank) None None = Inr entries \<and> length entries = 2"
    unfolding rank_memories_computed [OF sample_ids] by (simp add: sort_by_rank_def)
  then obtain entries where run: "rank_memories (\<lambda>s. [s]) ?ms (sample_query ReciprocalRank) None None = Inr entries"
    and two: "length entries = 2" by blast
  have "fair_query (sample_query ReciprocalRank) ?ms"
    by (simp add: fair_query_def sample_query_def ranked_sample_def supplied_def in_unit_def)
  from scores_lie_in_unit [OF sample_ids this run] run two show ?thesis by (simp add: list_all_iff)
qed

end
