(* ===== verification/Memory_Packing.thy ===== *)
theory Memory_Packing
  imports Memory_Context Memory_Ranked "HOL-Library.Sublist"
begin

text \<open>
  What the assembler promises: a clipped body keeps its allowance and a body that fits is not touched,
  and the packed block keeps the budget and accounts for every memory of the ranking.
\<close>

subsection \<open>Words\<close>

lemma split_white_space_end: "is_space c \<Longrightarrow> split_white w (s @ [c]) = split_white w s @ [[]]"
  by (induction w s rule: split_white.induct) auto

lemma words_of_Nil [simp]: "words_of [] = []"
  by (simp add: words_of_def)

lemma words_of_space: "is_space c \<Longrightarrow> words_of (c # r) = words_of r"
  by (simp add: words_of_def)

lemma words_of_drop: "words_of (dropWhile is_space s) = words_of s"
  by (induction s) (simp_all add: words_of_space)

lemma words_of_space_end: "is_space c \<Longrightarrow> words_of (s @ [c]) = words_of s"
  by (simp add: words_of_def split_white_space_end)

lemma words_of_drop_end: "words_of (rev (dropWhile is_space (rev s))) = words_of s"
  by (induction s rule: rev_induct) (simp_all add: words_of_space_end)

lemma words_of_trim [simp]: "words_of (trim_units s) = words_of s"
  by (simp add: trim_units_def words_of_drop_end words_of_drop)

lemma split_white_solid: "list_all (\<lambda>c. \<not> is_space c) s \<Longrightarrow> split_white w s = [rev w @ s]"
  by (induction s arbitrary: w) simp_all

lemma words_of_solid: "list_all (\<lambda>c. \<not> is_space c) s \<Longrightarrow> s \<noteq> [] \<Longrightarrow> words_of s = [s]"
  by (simp add: words_of_def split_white_solid)

lemma split_white_words:
  "list_all (\<lambda>c. \<not> is_space c) w \<Longrightarrow> v \<in> set (split_white w s) \<Longrightarrow> list_all (\<lambda>c. \<not> is_space c) v"
  by (induction w s rule: split_white.induct) (auto split: if_splits)

lemma words_of_mem: "v \<in> set (words_of s) \<Longrightarrow> v \<noteq> [] \<and> list_all (\<lambda>c. \<not> is_space c) v"
  using split_white_words [of "[]" v s] by (auto simp: words_of_def)

subsection \<open>Charges\<close>

definition word_cost :: "ustring \<Rightarrow> int" where
  "word_cost w = (if length w \<le> 24 then 13 else (int (length w) + 3) div 4 * 10)"

lemma word_cost_nonneg: "0 \<le> word_cost w"
  by (simp add: word_cost_def)

lemma charge_word_cost [simp]: "charge_tenths (charge_word c w) = charge_tenths c + word_cost w"
  by (simp add: charge_tenths_def charge_word_def word_cost_def algebra_simps)

lemma charge_words: "charge_tenths (foldl charge_word c ws) = charge_tenths c + sum_list (map word_cost ws)"
  by (induction ws arbitrary: c) simp_all

lemma no_charge_tenths [simp]: "charge_tenths no_charge = 0"
  by (simp add: no_charge_def charge_tenths_def)

lemma estimate_words: "estimate_tokens s = (sum_list (map word_cost (words_of s)) + 9) div 10"
  by (simp add: estimate_tokens_def charge_words Let_def)

lemma estimate_le: "estimate_tokens s \<le> n \<longleftrightarrow> sum_list (map word_cost (words_of s)) \<le> n * 10"
  by (simp only: estimate_words) linarith

lemma estimate_Nil [simp]: "estimate_tokens [] = 0"
  by (simp add: estimate_tokens_def)

subsection \<open>Clipping\<close>

lemma clip_loop_fits:
  "charge_tenths charge + sum_list (map word_cost ws) \<le> budget * 10 \<Longrightarrow> clip_loop budget kept charge ws = KeptWords (kept @ ws)"
proof (induction ws arbitrary: kept charge)
  case (Cons w ws)
  have "0 \<le> sum_list (map word_cost ws)" by (rule sum_list_nonneg) (auto simp: word_cost_nonneg)
  with Cons.prems have "charge_tenths charge + word_cost w \<le> budget * 10" by simp
  with Cons show ?case by (simp add: Let_def algebra_simps)
qed simp

lemma clip_loop_outcome:
  "case clip_loop budget kept charge ws of
     CutWord w \<Rightarrow> w \<in> set ws
   | KeptWords ks \<Rightarrow> \<exists>n. ks = kept @ take n ws \<and>
       (charge_tenths charge \<le> budget * 10 \<longrightarrow> charge_tenths charge + sum_list (map word_cost (take n ws)) \<le> budget * 10)"
proof (induction ws arbitrary: kept charge)
  case (Cons w ws)
  show ?case
  proof (cases "charge_tenths (charge_word charge w) \<le> budget * 10")
    case True
    with Cons [of "kept @ [w]" "charge_word charge w"] show ?thesis
      by (auto simp: Let_def algebra_simps split: clip_outcome.splits intro: exI [of _ "Suc _"])
  next
    case False
    then show ?thesis by (auto simp: Let_def intro!: exI [of _ 0])
  qed
qed simp

lemma chars_length: "ch \<in> set (chars_of s) \<Longrightarrow> length ch \<le> 2"
  by (induction s rule: chars_of.induct) (auto split: if_splits)

lemma clip_end_le:
  "2 \<le> m \<Longrightarrow> int stop \<le> m \<Longrightarrow> list_all (\<lambda>ch. length ch \<le> 2) cs \<Longrightarrow> int (clip_end m stop cs) \<le> m"
proof (induction cs arbitrary: stop)
  case (Cons ch cs)
  show ?case
  proof (cases "stop > 0 \<and> int (stop + length ch) > m")
    case False
    with Cons.prems have "int (stop + length ch) \<le> m" by auto
    with Cons.IH [OF Cons.prems(1) this] Cons.prems(3) False show ?thesis by simp
  qed (use Cons.prems in simp)
qed simp

lemma clip_long_word_cost:
  assumes "list_all (\<lambda>c. \<not> is_space c) w" and "13 \<le> n * 10"
  shows "estimate_tokens (clip_long_word_to_budget w n) \<le> n"
proof -
  let ?k = "clip_end (max 1 (n * 4 - 1)) 0 (chars_of w)"
  let ?clipped = "take ?k w @ ellipsis"
  have n: "2 \<le> n" using assms(2) by linarith
  then have "int ?k \<le> n * 4 - 1" using clip_end_le [of "max 1 (n * 4 - 1)" 0 "chars_of w"] chars_length
    by (simp add: list_all_iff)
  then have len: "int (length ?clipped) \<le> n * 4" by (simp add: ellipsis_def)
  have "list_all (\<lambda>c. \<not> is_space c) ?clipped"
    using assms(1) by (auto simp: list_all_iff ellipsis_def is_space_def is_js_ws_def dest: in_set_takeD)
  then have "words_of ?clipped = [?clipped]" by (rule words_of_solid) (simp add: ellipsis_def)
  moreover have "word_cost ?clipped \<le> n * 10" using len n unfolding word_cost_def by (simp split: if_split) linarith
  ultimately show ?thesis by (simp add: estimate_le clip_long_word_to_budget_def)
qed

lemma clip_with_ellipsis_cost: "0 \<le> n \<Longrightarrow> estimate_tokens (clip_with_ellipsis_upto kept n k) \<le> n"
  by (induction k) (simp_all add: Let_def)

text \<open>
  A clipped body keeps its allowance. For every allowance that is not negative the excerpt is
  estimated at no more than it, however long the words of the body are, and a body that fits an
  allowance of two tokens or more is not changed.
\<close>

theorem clip_keeps_the_allowance:
  assumes "0 \<le> n"
  shows "estimate_tokens (clip_to_token_budget body n) \<le> n \<and>
    (estimate_tokens body \<le> n \<and> 2 \<le> n \<longrightarrow> clip_to_token_budget body n = body)"
proof
  let ?ws = "words_of body"
  show "estimate_tokens (clip_to_token_budget body n) \<le> n"
  proof (cases "n * 10 < 13")
    case False
    have outcome: "case clip_loop n [] no_charge ?ws of
        CutWord w \<Rightarrow> w \<in> set ?ws
      | KeptWords ks \<Rightarrow> \<exists>k. ks = take k ?ws \<and> sum_list (map word_cost (take k ?ws)) \<le> n * 10"
      using clip_loop_outcome [where budget = n and kept = "[]" and charge = no_charge and ws = ?ws] assms by (simp split: clip_outcome.splits)
    show ?thesis
    proof (cases "clip_loop n [] no_charge ?ws")
      case (CutWord w)
      with outcome have "list_all (\<lambda>c. \<not> is_space c) w" using words_of_mem by auto
      with clip_long_word_cost [of w n] CutWord False show ?thesis by (simp add: clip_to_token_budget_def Let_def)
    next
      case (KeptWords ks)
      with outcome obtain k where k: "ks = take k ?ws" "sum_list (map word_cost (take k ?ws)) \<le> n * 10" by auto
      with KeptWords False clip_with_ellipsis_cost [OF assms] show ?thesis
        by (auto simp: clip_to_token_budget_def clip_with_ellipsis_def estimate_le Let_def)
    qed
  qed (use assms in \<open>simp add: clip_to_token_budget_def\<close>)
  show "estimate_tokens body \<le> n \<and> 2 \<le> n \<longrightarrow> clip_to_token_budget body n = body"
    using clip_loop_fits [where budget = n and kept = "[]" and charge = no_charge and ws = ?ws] by (simp add: estimate_le clip_to_token_budget_def Let_def)
qed

theorem clip_keeps_the_allowance_witness:
  "estimate_tokens (clip_to_token_budget (replicate 4096 120) 2) \<le> 2 \<and>
   clip_to_token_budget (units ''use tabs'') 3 = units ''use tabs''"
proof -
  have "estimate_tokens (units ''use tabs'') \<le> 3"
    by (simp add: estimate_words words_of_def units_def of_char_def is_space_def is_js_ws_def word_cost_def)
  with clip_keeps_the_allowance [of 2 "replicate 4096 120"] clip_keeps_the_allowance [of 3 "units ''use tabs''"]
  show ?thesis by simp
qed

subsection \<open>Packing\<close>

lemma search_excerpt_Some:
  "search_excerpt fits candidate lo hi best = Some e \<Longrightarrow>
   best = Some e \<or> fits e \<and> (\<exists>n. lo \<le> n \<and> n \<le> hi \<and> e = candidate n)"
proof (induction fits candidate lo hi best rule: search_excerpt.induct)
  case (1 fits candidate lo hi best)
  let ?mid = "(lo + hi) div 2"
  show ?case
  proof (cases "lo \<le> hi")
    case True
    then have mid: "lo \<le> ?mid" "?mid \<le> hi" by simp_all
    show ?thesis
    proof (cases "fits (candidate ?mid)")
      case fits: True
      with True "1.prems" have "search_excerpt fits candidate (?mid + 1) hi (Some (candidate ?mid)) = Some e"
        by (subst (asm) search_excerpt.simps) (simp add: Let_def)
      from "1.IH"(1) [OF True refl fits this] mid fits show ?thesis by force
    next
      case no: False
      with True "1.prems" have "search_excerpt fits candidate lo (?mid - 1) best = Some e"
        by (subst (asm) search_excerpt.simps) (simp add: Let_def)
      from "1.IH"(2) [OF True refl no this] mid show ?thesis by force
    qed
  next
    case False
    with "1.prems" show ?thesis by (subst (asm) search_excerpt.simps) simp
  qed
qed

lemma join_not_Nil: "ws \<noteq> [] \<Longrightarrow> list_all (\<lambda>w. w \<noteq> []) ws \<Longrightarrow> join_units sep ws \<noteq> []"
  by (cases ws) (simp_all add: join_units_def)

lemma clipped_words_not_Nil:
  assumes "1 \<le> n" and "words_of s \<noteq> []"
  shows "clipped_words (words_of s) n \<noteq> []"
proof -
  have "list_all (\<lambda>w. w \<noteq> []) (take (nat n) (words_of s))"
    using words_of_mem by (auto simp: list_all_iff dest: in_set_takeD)
  moreover have "take (nat n) (words_of s) \<noteq> []" using assms by simp
  ultimately have "join_units [32] (take (nat n) (words_of s)) \<noteq> []" by (intro join_not_Nil)
  then show ?thesis unfolding clipped_words_def Let_def by (simp only: append_is_Nil_conv split: if_split) blast
qed

text \<open>An entry of the block: it renders a ranked memory, and has words when its body has.\<close>

definition entry_of :: "(ustring \<rightharpoonup> memory_record) \<Rightarrow> included_memory \<Rightarrow> context_entry \<Rightarrow> bool" where
  "entry_of recs rank e \<longleftrightarrow> (\<exists>m. recs (im_id rank) = Some m \<and> e = entry_for_rank rank m (ce_excerpt e) \<and>
     (words_of (mr_body m) = [] \<or> ce_excerpt e \<noteq> []))"

lemma fit_entry_fits:
  assumes "fit_entry_to_budget entries rank m budget per_entry = Some e" and "recs (im_id rank) = Some m"
  shows "rendered_cost (entries @ [e]) \<le> budget \<and> entry_of recs rank e"
proof -
  let ?ws = "words_of (mr_body m)"
  consider x where "?ws = [] \<or> x \<noteq> []" "rendered_cost (entries @ [entry_for_rank rank m x]) \<le> budget" "e = entry_for_rank rank m x"
    | n where "rendered_cost (entries @ [e]) \<le> budget" "1 \<le> n" "n \<le> int (length ?ws)" "e = entry_for_rank rank m (clipped_words ?ws n)"
    using assms(1) by (auto simp: fit_entry_to_budget_def Let_def split: if_splits dest!: search_excerpt_Some)
  then show ?thesis
  proof cases
    case 1
    with assms(2) show ?thesis by (simp add: entry_of_def entry_for_rank_def)
  next
    case 2
    then have "?ws \<noteq> []" by auto
    with 2 assms(2) clipped_words_not_Nil [of n "mr_body m"] show ?thesis by (simp add: entry_of_def entry_for_rank_def)
  qed
qed

text \<open>What the loop keeps true after it has seen \<open>done_ranks\<close>.\<close>

definition packed :: "(ustring \<rightharpoonup> memory_record) \<Rightarrow> int \<Rightarrow> int \<Rightarrow> included_memory list \<Rightarrow> assembly_step \<Rightarrow> bool" where
  "packed recs budget max_included seen st \<longleftrightarrow>
     ay_used st = rendered_cost (ay_entries st) \<and> ay_used st \<le> budget \<and>
     int (length (ay_included st)) \<le> max_included \<and> list_all2 (entry_of recs) (ay_included st) (ay_entries st) \<and>
     subseq (ay_included st) seen \<and>
     mset (map im_id seen) = mset (map im_id (ay_included st)) + mset (map om_id (ay_omitted st))"

lemma assemble_one_packed:
  assumes "packed recs budget max_included seen st"
  shows "packed recs budget max_included (seen @ [rank]) (assemble_one recs budget max_included per_entry st rank)"
proof -
  have keep: "subseq (ay_included st) (seen @ [rank])"
    using assms list_emb_append_mono [of "(=)" "ay_included st" seen "[]" "[rank]"] by (simp add: packed_def)
  show ?thesis
  proof (cases "int (length (ay_included st)) \<ge> max_included")
    case True
    with assms keep show ?thesis by (simp add: assemble_one_def packed_def omit_def)
  next
    case room: False
    show ?thesis
    proof (cases "recs (im_id rank)")
      case None
      with room assms keep show ?thesis by (simp add: assemble_one_def packed_def omit_def)
    next
      case (Some m)
      let ?fit = "fit_entry_to_budget (ay_entries st) rank m budget (max 1 (min per_entry (budget - ay_used st)))"
      show ?thesis
      proof (cases ?fit)
        case None
        with room Some assms keep show ?thesis by (simp add: assemble_one_def packed_def omit_def)
      next
        case fit: (Some e)
        from fit_entry_fits [OF this, of recs] Some
        have "rendered_cost (ay_entries st @ [e]) \<le> budget" "entry_of recs rank e" by auto
        with room Some fit assms show ?thesis
          by (auto simp: assemble_one_def packed_def list_all2_appendI)
      qed
    qed
  qed
qed

lemma greedy_packed:
  assumes "0 \<le> budget" and "0 \<le> max_included"
  shows "packed recs budget max_included ranked (greedy_assemble ranked recs budget max_included)"
proof -
  have "packed recs budget max_included (seen @ ranks) (foldl (assemble_one recs budget max_included p) st ranks)"
    if "packed recs budget max_included seen st" for seen ranks p st
    using that
  proof (induction ranks arbitrary: seen st)
    case (Cons r ranks)
    from Cons.IH [OF assemble_one_packed [OF Cons.prems]] show ?case by simp
  qed simp
  note steps = this
  have "packed recs budget max_included [] \<lparr> ay_included = [], ay_entries = [], ay_omitted = [], ay_used = 0 \<rparr>"
    using assms by (simp add: packed_def rendered_cost_def render_text_def)
  from steps [OF this] show ?thesis by (simp add: greedy_assemble_def Let_def del: max.absorb1 max.absorb2)
qed

text \<open>
  The context block keeps its budget and accounts for every candidate. The text of the block
  is estimated at what the result reports, which is no more than the budget, and at most the asked number
  of memories are in it; they come in the order of the ranking, each with an entry of its own record that
  has words whenever the record has; and every ranked memory is either included or omitted, once.
\<close>

theorem block_keeps_its_budget:
  assumes "0 \<le> budget" and "0 \<le> max_included"
  shows "let block = assemble_context_block ranked ms budget max_included in
    ac_used block = estimate_tokens (ac_text block) \<and> ac_used block \<le> budget \<and> ac_text block = render_text (ac_memories block) \<and>
    int (length (ac_included block)) \<le> max_included \<and> subseq (ac_included block) ranked \<and>
    list_all2 (entry_of (build_record_index ms)) (ac_included block) (ac_memories block) \<and>
    mset (map im_id ranked) = mset (map im_id (ac_included block)) + mset (map om_id (ac_omitted block))"
  using greedy_packed [OF assms, of "build_record_index ms" ranked]
  by (simp add: assemble_context_block_def packed_def rendered_cost_def Let_def)

definition packing_sample :: "assembled_context" where
  "packing_sample = assemble_context_block
     (map (\<lambda>m. entry_for m (\<lambda>_. 1) (\<lambda>_. 1)) [ranked_sample ''a'' True, ranked_sample ''b'' False])
     [ranked_sample ''a'' True, ranked_sample ''b'' False] 20 1"

theorem block_keeps_its_budget_witness:
  "ac_used packing_sample = estimate_tokens (ac_text packing_sample) \<and> ac_used packing_sample \<le> 20 \<and>
   length (ac_included packing_sample) \<le> 1 \<and>
   mset (map im_id (ac_included packing_sample)) + mset (map om_id (ac_omitted packing_sample)) = {#units ''a'', units ''b''#}"
proof -
  let ?ms = "[ranked_sample ''a'' True, ranked_sample ''b'' False]"
  have ids: "mr_id (ranked_sample i p) = units i" for i p by (simp add: ranked_sample_def)
  note block = block_keeps_its_budget [of 20 1 "map (\<lambda>m. entry_for m (\<lambda>_. 1) (\<lambda>_. 1)) ?ms" ?ms,
      folded packing_sample_def, unfolded Let_def, simplified]
  have "int (length (ac_included packing_sample)) \<le> 1" using block by simp
  moreover have "mset (map im_id (ac_included packing_sample)) + mset (map om_id (ac_omitted packing_sample)) = {#units ''a'', units ''b''#}"
    using block by (simp add: ids)
  ultimately show ?thesis using block by (intro conjI) (assumption | (elim conjE, assumption) | simp)+
qed

end
