(* ===== verification/Memory_Recall.thy ===== *)
theory Memory_Recall
  imports Memory_Retrieval Memory_Packing Memory_Ranked
begin

text \<open>
  What retrieval promises: only live memories of the asked scopes reach a prompt, every fetched memory is
  accounted for once, standing rules survive the relevance floor, and it fails only by its request or
  its port.
\<close>

subsection \<open>Duplicates\<close>

lemma dedupe_keys: "key ` set (dedupe_by key seen xs) = key ` set xs - set seen"
  by (induction key seen xs rule: dedupe_by.induct) auto

lemma dedupe_distinct: "distinct (map key (dedupe_by key seen xs))"
  by (induction key seen xs rule: dedupe_by.induct) (simp_all add: dedupe_keys)

lemma dedupe_subset: "set (dedupe_by key seen xs) \<subseteq> set xs"
  by (induction key seen xs rule: dedupe_by.induct) auto

lemma dedupe_by_id_ids: "distinct (map mr_id (dedupe_by_id ms))" "mr_id ` set (dedupe_by_id ms) = mr_id ` set ms"
  "set (dedupe_by_id ms) \<subseteq> set ms"
  using dedupe_distinct [of mr_id "[]" ms] dedupe_keys [of mr_id "[]" ms] dedupe_subset [of mr_id "[]" ms]
  by (simp_all add: dedupe_by_id_def)

subsection \<open>Filters\<close>

text \<open>A memory a request may recall, and the twin of the governance rule.\<close>

definition recallable :: "retrieval_request \<Rightarrow> resolved_request \<Rightarrow> memory_record \<Rightarrow> bool" where
  "recallable r v m \<longleftrightarrow>
     (case rr_types r of None \<Rightarrow> True | Some ts \<Rightarrow> mr_type m \<in> set ts) \<and>
     (mr_status m = MemAccepted \<or> mr_status m = MemSuperseded \<and> rr_superseded r = Some True) \<and>
     (case vi_until (mr_validity m) of None \<Rightarrow> True | Some u \<Rightarrow> rv_now v < u) \<and>
     rv_stale v < mp_confidence (mr_provenance m)"

lemma suppression_rules_agree:
  assumes "unit_threshold t"
  shows "\<exists>verdict. is_memory_suppressed m now t = Inr verdict \<and>
    is_memory_suppressed_from_retrieval m now (Some (Num t)) = Inr verdict"
  using assms
  by (cases "mr_status m") (auto simp: is_memory_suppressed_def is_memory_suppressed_from_retrieval_def resolve_threshold_def
      is_unit_interval_def unit_threshold_def recall_validity_suppression_def validity_suppression_def
      recall_confidence_suppression_def confidence_suppression_def split: option.split)

definition kept_out :: "retrieval_request \<Rightarrow> resolved_request \<Rightarrow> memory_record \<Rightarrow> omitted_memory \<Rightarrow> bool" where
  "kept_out r v m ob \<longleftrightarrow> om_id ob = mr_id m \<and> (om_reason ob = TypeFiltered \<or> om_reason ob = SuppressedByStatus)"

lemma filter_one_verdict:
  assumes "unit_threshold (rv_stale v)"
  shows "if recallable r v m then filter_one r v (cs, os) m = Inr (cs @ [m], os)
    else \<exists>ob. kept_out r v m ob \<and> filter_one r v (cs, os) m = Inr (cs, os @ [ob])"
  using assms
  by (cases "mr_status m")
    (auto simp: filter_one_def recallable_def kept_out_def omit_def is_memory_suppressed_def recall_validity_suppression_def
      recall_confidence_suppression_def split: option.splits)

lemma filters_verdict:
  assumes "unit_threshold (rv_stale v)"
  shows "\<exists>outs. rfold (filter_one r v) (cs, os) ms = Inr (cs @ filter (recallable r v) ms, os @ outs) \<and>
    list_all2 (kept_out r v) (filter (\<lambda>m. \<not> recallable r v m) ms) outs"
proof (induction ms arbitrary: cs os)
  case (Cons m ms)
  show ?case
  proof (cases "recallable r v m")
    case True
    with filter_one_verdict [OF assms, of r m cs os] Cons [of "cs @ [m]" os] show ?thesis by simp
  next
    case False
    with filter_one_verdict [OF assms, of r m cs os] obtain ob where
      "kept_out r v m ob" "filter_one r v (cs, os) m = Inr (cs, os @ [ob])" by auto
    moreover obtain outs where "rfold (filter_one r v) (cs, os @ [ob]) ms = Inr (cs @ filter (recallable r v) ms, (os @ [ob]) @ outs)"
      "list_all2 (kept_out r v) (filter (\<lambda>m. \<not> recallable r v m) ms) outs" using Cons by blast
    ultimately show ?thesis using False by (intro exI [of _ "ob # outs"]) simp
  qed
qed simp

lemma kept_out_ids: "list_all2 (kept_out r v) ms outs \<Longrightarrow> map om_id outs = map mr_id ms"
  by (induction rule: list_all2_induct) (simp_all add: kept_out_def)

lemma kept_out_reasons: "list_all2 (kept_out r v) ms outs \<Longrightarrow> list_all (\<lambda>ob. om_reason ob \<noteq> BelowThreshold) outs"
  by (induction rule: list_all2_induct) (auto simp: kept_out_def)

subsection \<open>Diversity\<close>

lemma best_index_bound:
  "xs \<noteq> [] \<Longrightarrow> best_mmr_index xs embedding vectors lam < length xs"
proof -
  let ?step = "\<lambda>(pos, best) (i, cand).
         let v = lam * im_score cand - (1 - lam) * max_similarity (embedding (im_id cand)) vectors
         in if (case best of None \<Rightarrow> True | Some b \<Rightarrow> v > b) then (i, Some v) else (pos, best)"
  have "fst (foldl ?step st ps) = fst st \<or> fst (foldl ?step st ps) \<in> fst ` set ps" for st ps
  proof (induction ps arbitrary: st)
    case (Cons p ps)
    have "fst (?step st p) = fst st \<or> fst (?step st p) = fst p" by (auto simp: Let_def split: prod.split option.split)
    with Cons [of "?step st p"] show ?case by auto
  qed simp
  from this [of "(0, None)" "enumerate 0 xs"] show "xs \<noteq> [] \<Longrightarrow> best_mmr_index xs embedding vectors lam < length xs"
    by (auto simp: best_mmr_index_def in_set_enumerate_eq)
qed

lemma mmr_loop_mset:
  "length remaining \<le> n \<Longrightarrow> mset (mmr_loop n embedding lam remaining selected vectors) = mset remaining + mset selected"
proof (induction n arbitrary: remaining selected vectors)
  case (Suc n)
  show ?case
  proof (cases "remaining = []")
    case False
    let ?pos = "best_mmr_index remaining embedding vectors lam"
    have pos: "?pos < length remaining" using False by (rule best_index_bound)
    let ?rest = "take ?pos remaining @ drop (Suc ?pos) remaining"
    have "mset remaining = mset ?rest + {#remaining ! ?pos#}"
      using pos by (subst id_take_nth_drop [OF pos]) (simp add: mset_append)
    moreover have "length ?rest \<le> n" using pos Suc.prems by simp
    ultimately show ?thesis using Suc.IH [of ?rest] pos False by (simp add: Let_def)
  qed simp
qed simp

lemma mmr_mset [simp]: "mset (reorder_by_mmr ranked embedding lam) = mset ranked"
  by (simp add: reorder_by_mmr_def mmr_loop_mset)

lemma reorder_mset [simp]: "mset (reorder_selection ranked r) = mset ranked"
  by (simp add: reorder_selection_def split: option.split)

subsection \<open>One retrieval\<close>

lemma validated:
  assumes "validate_and_resolve r = Inr v"
  shows "rr_scopes r \<noteq> []" "unit_threshold (rv_stale v)" "0 \<le> rv_budget v" "0 \<le> rv_max v"
proof -
  have "assert_count n = Inr k \<Longrightarrow> 0 \<le> k" for n k by (auto simp: assert_count_def split: option.splits if_splits)
  moreover have "assert_unit_threshold n = Inr x \<Longrightarrow> unit_threshold x" for n x
    by (auto simp: assert_unit_threshold_def unit_threshold_def split: option.splits if_splits)
  ultimately show "rr_scopes r \<noteq> []" "unit_threshold (rv_stale v)" "0 \<le> rv_budget v" "0 \<le> rv_max v"
    using assms by (auto simp: validate_and_resolve_def split: if_splits)
qed

definition recall_candidates :: "retrieval_request \<Rightarrow> resolved_request \<Rightarrow> memory_record list \<Rightarrow> memory_record list" where
  "recall_candidates r v fetched = filter (recallable r v) (dedupe_by_id fetched)"

lemma candidates_distinct: "distinct (map mr_id (recall_candidates r v fetched))"
  using dedupe_by_id_ids(1) [of fetched] by (simp add: recall_candidates_def distinct_map_filter)

text \<open>The stages of a retrieval that returns a block from the port.\<close>

definition recalled ::
  "(ustring \<Rightarrow> ustring list) \<Rightarrow> retrieval_request \<Rightarrow> resolved_request \<Rightarrow> memory_query_port \<Rightarrow> memory_record list \<Rightarrow>
   included_memory list \<Rightarrow> omitted_memory list \<Rightarrow> assembled_context \<Rightarrow> bool" where
  "recalled pieces r v port fetched ranked outs block \<longleftrightarrow>
     fetch_scoped port (rr_scopes r) = Inr fetched \<and>
     (let candidates = recall_candidates r v fetched; scores = semantic_scores_above_floor (rr_semantic r) (rv_semantic_min v);
          (kept, below) = apply_relevance_floor pieces ranked (rr_text r) scores;
          step = greedy_assemble (reorder_selection kept r) (build_record_index candidates) (rv_budget v) (rv_max v)
      in list_all2 (kept_out r v) (filter (\<lambda>m. \<not> recallable r v m) (dedupe_by_id fetched)) outs \<and>
         (\<exists>edges. rank_memories pieces candidates (build_rank_query r v scores) edges None = Inr ranked) \<and>
         ac_text block = render_text (ay_entries step) \<and> ac_memories block = ay_entries step \<and>
         ac_included block = ay_included step \<and> ac_omitted block = outs @ below @ ay_omitted step \<and>
         ac_tokens block = rv_budget v \<and> ac_used block = ay_used step)"

text \<open>A port none of whose calls throws.\<close>

definition port_answers :: "memory_query_port \<Rightarrow> bool" where
  "port_answers port \<longleftrightarrow> (\<forall>s. pt_list port s every_record \<noteq> None) \<and>
     (\<forall>f ids. pt_edges port = Some f \<longrightarrow> f ids \<noteq> None) \<and> (\<forall>f i. pt_outgoing port = Some f \<longrightarrow> f i \<noteq> None) \<and>
     (\<forall>f i. pt_incoming port = Some f \<longrightarrow> f i \<noteq> None)"

lemma port_answer_Inl: "port_answer x = Inl e \<longleftrightarrow> x = None \<and> e = PortFailure"
  by (auto simp: port_answer_def split: option.split)

lemma port_throws:
  "pt_list port s every_record = None \<Longrightarrow> \<not> port_answers port"
  "pt_edges port = Some f \<Longrightarrow> f ids = None \<Longrightarrow> \<not> port_answers port"
  "pt_outgoing port = Some g \<Longrightarrow> g i = None \<Longrightarrow> \<not> port_answers port"
  "pt_incoming port = Some g \<Longrightarrow> g i = None \<Longrightarrow> \<not> port_answers port"
  by (simp_all add: port_answers_def) (intro impI disjI2 disjI1 exI conjI; assumption)+

lemma listed_Inl:
  "listed (pt_outgoing port) i = Inl e \<Longrightarrow> e = PortFailure \<and> \<not> port_answers port"
  "listed (pt_incoming port) i = Inl e \<Longrightarrow> e = PortFailure \<and> \<not> port_answers port"
  by (cases "pt_outgoing port"; auto simp: listed_def port_answer_Inl dest: port_throws)
    (cases "pt_incoming port"; auto simp: listed_def port_answer_Inl dest: port_throws)

lemma retrieval_stages:
  assumes "validate_and_resolve r = Inr v" and "rv_max v \<noteq> 0" "rv_budget v \<noteq> 0"
  shows "case retrieve_memory_context pieces r port of
      Inr block \<Rightarrow> \<exists>fetched ranked outs. recalled pieces r v port fetched ranked outs block
    | Inl e \<Rightarrow> e = PortFailure \<and> \<not> port_answers port"
proof (cases "fetch_scoped port (rr_scopes r)")
  case (Inl e)
  then have "rmap (\<lambda>s. port_answer (pt_list port s every_record)) (rr_scopes r) = Inl e"
    by (simp add: fetch_scoped_def rbind_Inl_iff)
  then have "e = PortFailure \<and> \<not> port_answers port"
    by (auto dest!: rmap_Inl simp: list_ex_iff port_answer_Inl dest: port_throws)
  with assms Inl show ?thesis by (simp add: retrieve_memory_context_def)
next
  case (Inr fetched)
  let ?candidates = "recall_candidates r v fetched"
  obtain outs where filters: "apply_filters (dedupe_by_id fetched) r v = Inr (?candidates, outs)"
    and outs: "list_all2 (kept_out r v) (filter (\<lambda>m. \<not> recallable r v m) (dedupe_by_id fetched)) outs"
    using filters_verdict [OF validated(2) [OF assms(1)], of r "[]" "[]" "dedupe_by_id fetched"]
    by (auto simp: apply_filters_def recall_candidates_def)
  show ?thesis
  proof (cases "build_edges_index port ?candidates")
    case edge_error: (Inl e)
    have "edges_per_candidate port ?candidates = Inl e \<Longrightarrow> e = PortFailure \<and> \<not> port_answers port"
      by (auto simp: edges_per_candidate_def rbind_Inl_iff Let_def dest!: rfold_Inl dest: listed_Inl)
    with edge_error have "e = PortFailure \<and> \<not> port_answers port"
      by (auto simp: build_edges_index_def port_answer_Inl rbind_Inl_iff split: option.splits if_splits dest: port_throws)
    with assms Inr filters edge_error show ?thesis by (simp add: retrieve_memory_context_def)
  next
    case edges: (Inr edges)
    let ?scores = "semantic_scores_above_floor (rr_semantic r) (rv_semantic_min v)"
    obtain ranked where ranked: "rank_memories pieces ?candidates (build_rank_query r v ?scores) edges None = Inr ranked"
      using ranking_complete [OF candidates_distinct] by blast
    obtain kept below where split: "apply_relevance_floor pieces ranked (rr_text r) ?scores = (kept, below)" by fastforce
    let ?block = "assemble_context_block (reorder_selection kept r) ?candidates (rv_budget v) (rv_max v)"
    have "retrieve_memory_context pieces r port = Inr (?block\<lparr> ac_omitted := outs @ below @ ac_omitted ?block \<rparr>)"
      using assms Inr filters edges ranked split by (simp add: retrieve_memory_context_def Let_def)
    moreover have "recalled pieces r v port fetched ranked outs (?block\<lparr> ac_omitted := outs @ below @ ac_omitted ?block \<rparr>)"
      using Inr outs ranked split by (auto simp: recalled_def assemble_context_block_def Let_def)
    ultimately show ?thesis by auto
  qed
qed

lemma empty_retrieval:
  "validate_and_resolve r = Inr v \<Longrightarrow> rv_max v = 0 \<or> rv_budget v = 0 \<Longrightarrow>
   retrieve_memory_context pieces r port = Inr (empty_result (rv_budget v))"
  by (auto simp: retrieve_memory_context_def)

lemma invalid_retrieval: "validate_and_resolve r = Inl e \<Longrightarrow> retrieve_memory_context pieces r port = Inl e"
  by (simp add: retrieve_memory_context_def)

lemma retrieval_returned:
  assumes "retrieve_memory_context pieces r port = Inr block"
  obtains v where "validate_and_resolve r = Inr v" "block = empty_result (rv_budget v)" "rv_max v = 0 \<or> rv_budget v = 0"
    | v fetched ranked outs where "validate_and_resolve r = Inr v" "recalled pieces r v port fetched ranked outs block"
      "rv_max v \<noteq> 0" "rv_budget v \<noteq> 0"
proof -
  obtain v where v: "validate_and_resolve r = Inr v"
    using assms by (cases "validate_and_resolve r") (simp_all add: invalid_retrieval)
  show thesis
  proof (cases "rv_max v = 0 \<or> rv_budget v = 0")
    case True
    with empty_retrieval [OF v True, of pieces port] assms show thesis by (intro that(1) [OF v]) simp_all
  next
    case False
    with retrieval_stages [OF v, where pieces = pieces and port = port] assms
    obtain fetched ranked outs where "recalled pieces r v port fetched ranked outs block" by auto
    with False show thesis by (intro that(2) [OF v]) simp_all
  qed
qed

lemma fetched_mem:
  assumes "fetch_scoped port scopes = Inr fetched" and "m \<in> set fetched"
  shows "\<exists>s\<in>set scopes. \<exists>batch. pt_list port s every_record = Some batch \<and> m \<in> set batch"
proof -
  obtain batches where "rmap (\<lambda>s. port_answer (pt_list port s every_record)) scopes = Inr batches" "m \<in> set (concat batches)"
    using assms by (auto simp: fetch_scoped_def)
  then obtain s batch where "s \<in> set scopes" "port_answer (pt_list port s every_record) = Inr batch" "m \<in> set batch"
    using rmap_Inr_set by (metis (no_types, lifting) UN_E set_concat)
  then show ?thesis by (auto simp: port_answer_def split: option.splits)
qed

lemma kept_below:
  assumes "apply_relevance_floor pieces ranked query scores = (kept, below)"
  shows "mset (map im_id kept) + mset (map om_id below) = mset (map im_id ranked)" and "set kept \<subseteq> set ranked"
    and "\<And>e. e \<in> set ranked \<Longrightarrow> floor_keeps e \<Longrightarrow> e \<in> set kept"
proof -
  have "mset (map im_id (filter floor_keeps xs)) + mset (map im_id (filter (\<lambda>e. \<not> floor_keeps e) xs)) = mset (map im_id xs)" for xs
    by (induction xs) simp_all
  from this [of ranked] show "mset (map im_id kept) + mset (map om_id below) = mset (map im_id ranked)"
    using assms by (auto simp: apply_relevance_floor_def image_mset.compositionality comp_def omit_def split: if_splits)
  show "set kept \<subseteq> set ranked" "\<And>e. e \<in> set ranked \<Longrightarrow> floor_keeps e \<Longrightarrow> e \<in> set kept"
    using assms by (auto simp: apply_relevance_floor_def split: if_splits)
qed

text \<open>The facts the properties rest on, from the stages of one retrieval.\<close>

lemma recalled_facts:
  assumes v: "validate_and_resolve r = Inr v" and run: "recalled pieces r v port fetched ranked outs block"
  defines "candidates \<equiv> recall_candidates r v fetched"
  obtains kept below edges where
    "fetch_scoped port (rr_scopes r) = Inr fetched"
    "apply_relevance_floor pieces ranked (rr_text r) (semantic_scores_above_floor (rr_semantic r) (rv_semantic_min v)) = (kept, below)"
    "rank_memories pieces candidates (build_rank_query r v (semantic_scores_above_floor (rr_semantic r) (rv_semantic_min v))) edges None = Inr ranked"
    "mset (map im_id ranked) = mset (map mr_id candidates)"
    "packed (build_record_index candidates) (rv_budget v) (rv_max v) (reorder_selection kept r)
       (greedy_assemble (reorder_selection kept r) (build_record_index candidates) (rv_budget v) (rv_max v))"
    "ac_memories block = ay_entries (greedy_assemble (reorder_selection kept r) (build_record_index candidates) (rv_budget v) (rv_max v))"
    "ac_included block = ay_included (greedy_assemble (reorder_selection kept r) (build_record_index candidates) (rv_budget v) (rv_max v))"
    "ac_omitted block = outs @ below @ ay_omitted (greedy_assemble (reorder_selection kept r) (build_record_index candidates) (rv_budget v) (rv_max v))"
    "map om_id outs = map mr_id (filter (\<lambda>m. \<not> recallable r v m) (dedupe_by_id fetched))"
    "ac_text block = render_text (ac_memories block)" "ac_tokens block = rv_budget v"
    "ac_used block = rendered_cost (ac_memories block)"
proof -
  obtain kept below where split:
    "apply_relevance_floor pieces ranked (rr_text r) (semantic_scores_above_floor (rr_semantic r) (rv_semantic_min v)) = (kept, below)"
    by fastforce
  note packed = greedy_packed [OF validated(3,4) [OF v], of "build_record_index candidates" "reorder_selection kept r"]
  from run split obtain edges where
    ranked: "rank_memories pieces candidates (build_rank_query r v (semantic_scores_above_floor (rr_semantic r) (rv_semantic_min v))) edges None = Inr ranked"
    by (auto simp: recalled_def candidates_def Let_def)
  have "mset (map im_id ranked) = mset (map mr_id candidates)"
    using ranked ranking_complete [OF candidates_distinct [of r v fetched], folded candidates_def, of pieces
        "build_rank_query r v (semantic_scores_above_floor (rr_semantic r) (rv_semantic_min v))" edges None] by auto
  moreover have "ac_used block = rendered_cost (ac_memories block)"
    using run split packed by (simp add: recalled_def candidates_def packed_def Let_def)
  moreover have "map om_id outs = map mr_id (filter (\<lambda>m. \<not> recallable r v m) (dedupe_by_id fetched))"
    using run split by (intro kept_out_ids [of r v]) (simp add: recalled_def Let_def)
  ultimately show thesis
    by (intro that [OF _ split ranked _ packed]) (use run split in \<open>simp_all add: recalled_def candidates_def Let_def\<close>)
qed

subsection \<open>Properties\<close>

text \<open>
  Claim C9. Only live memories of the asked scopes reach a prompt. Whatever the port answers, every
  entry of a block shows a memory that the port listed for one of the requested scopes, of a
  requested type, accepted (or superseded when the request asks for those), whose validity has not
  ended and whose confidence is above the threshold; the entry carries that memory's own status,
  source and sensitivity. (How the entry's excerpt is cut from the memory's body is not part of this
  statement.)
\<close>

theorem only_live_memories_of_the_scopes:
  assumes "retrieve_memory_context pieces r port = Inr block"
  shows "\<exists>v. validate_and_resolve r = Inr v \<and> list_all (\<lambda>e. \<exists>m s batch. s \<in> set (rr_scopes r) \<and>
      pt_list port s every_record = Some batch \<and> m \<in> set batch \<and> recallable r v m \<and> ce_id e = mr_id m \<and>
      ce_status e = mr_status m \<and> ce_source e = mp_source (mr_provenance m) \<and>
      ce_sensitivity e = mp_sensitivity (mr_provenance m)) (ac_memories block)"
  using assms
proof (cases rule: retrieval_returned)
  case (1 v)
  then show ?thesis by (simp add: empty_result_def)
next
  case (2 v fetched ranked outs)
  from 2(1,2) show ?thesis
  proof (cases rule: recalled_facts)
    case (1 kept below edges)
    let ?candidates = "recall_candidates r v fetched"
    have each: "\<exists>m s batch. s \<in> set (rr_scopes r) \<and> pt_list port s every_record = Some batch \<and> m \<in> set batch \<and>
        recallable r v m \<and> ce_id e = mr_id m \<and> ce_status e = mr_status m \<and> ce_source e = mp_source (mr_provenance m) \<and>
        ce_sensitivity e = mp_sensitivity (mr_provenance m)"
      if e: "entry_of (build_record_index ?candidates) rank e" for rank e
    proof -
      from e obtain m where m: "build_record_index ?candidates (im_id rank) = Some m" "e = entry_for_rank rank m (ce_excerpt e)"
        by (auto simp: entry_of_def)
      from m(1) have known: "m \<in> set ?candidates" "mr_id m = im_id rank"
        using map_of_SomeD by (fastforce simp: index_map_of [OF candidates_distinct])+
      then have "m \<in> set fetched" "recallable r v m"
        using dedupe_by_id_ids(3) [of fetched] by (auto simp: recall_candidates_def)
      with fetched_mem [OF 1(1)] obtain s batch where
        "s \<in> set (rr_scopes r)" "pt_list port s every_record = Some batch" "m \<in> set batch" by blast
      moreover have "ce_id e = mr_id m" "ce_status e = mr_status m" "ce_source e = mp_source (mr_provenance m)"
        "ce_sensitivity e = mp_sensitivity (mr_provenance m)"
        using known(2) by (subst m(2), simp add: entry_for_rank_def)+
      ultimately show ?thesis using \<open>recallable r v m\<close> by blast
    qed
    have "list_all2 (entry_of (build_record_index ?candidates)) (ac_included block) (ac_memories block)"
      using 1(5) unfolding 1(6,7) by (simp add: packed_def)
    then have "list_all (\<lambda>e. \<exists>rank. entry_of (build_record_index ?candidates) rank e) (ac_memories block)"
      by (induction rule: list_all2_induct) auto
    with each 2(1) show ?thesis by (auto simp: list_all_iff)
  qed
qed

lemma add_four: "x + y + z = c \<Longrightarrow> c + d = e \<Longrightarrow> x + (d + (z + y)) = e" for x y z c d e :: "'a multiset"
  by (auto simp: ac_simps)

text \<open>
  Claim C10. Every fetched memory is accounted for once, inside the budget. A request whose maximum
  or budget is zero gets the empty result, without a word about what the port holds; under every
  other request each id that the port listed is exactly once either among the included or among the
  omitted memories. The text of the block is estimated at what the result reports, which is no more
  than the budget.
\<close>

theorem every_memory_is_accounted_for:
  assumes "retrieve_memory_context pieces r port = Inr block"
  shows "ac_used block = estimate_tokens (ac_text block) \<and> ac_used block \<le> ac_tokens block \<and>
    (\<exists>v. validate_and_resolve r = Inr v \<and> ac_tokens block = rv_budget v \<and>
      (if rv_max v = 0 \<or> rv_budget v = 0 then block = empty_result (rv_budget v)
       else \<exists>fetched. fetch_scoped port (rr_scopes r) = Inr fetched \<and>
         mset (map im_id (ac_included block)) + mset (map om_id (ac_omitted block)) = mset_set (mr_id ` set fetched)))"
  using assms
proof (cases rule: retrieval_returned)
  case (1 v)
  then show ?thesis using validated(3) [of r v] by (simp add: empty_result_def)
next
  case (2 v fetched ranked outs)
  from 2(1,2) show ?thesis
  proof (cases rule: recalled_facts)
    case (1 kept below edges)
    let ?step = "greedy_assemble (reorder_selection kept r) (build_record_index (recall_candidates r v fetched)) (rv_budget v) (rv_max v)"
    have "mset (map im_id (reorder_selection kept r)) = mset (map im_id kept)" by (metis mset_map reorder_mset)
    then have places: "mset (map im_id (ay_included ?step)) + mset (map om_id (ay_omitted ?step)) + mset (map om_id below) =
        mset (map mr_id (recall_candidates r v fetched))"
      using 1(4,5) kept_below(1) [OF 1(2)] by (simp only: packed_def)
    have "mset (map mr_id (filter P ms)) + mset (map mr_id (filter (\<lambda>m. \<not> P m) ms)) = mset (map mr_id ms)"
      for P and ms :: "memory_record list" by (induction ms) simp_all
    note parts = this
    have "mset (map im_id (ac_included block)) + mset (map om_id (ac_omitted block)) = mset (map mr_id (dedupe_by_id fetched))"
      unfolding 1(7,8) map_append mset_append 1(9) by (rule add_four [OF places parts [of "recallable r v" "dedupe_by_id fetched", folded recall_candidates_def]])
    also have "\<dots> = mset_set (mr_id ` set fetched)"
      using dedupe_by_id_ids(1,2) [of fetched] by (metis mset_set_set set_map)
    finally show ?thesis
      using 1(1,5,6,10,11,12) 2(1,3,4) by (auto simp: packed_def rendered_cost_def)
  qed
qed

lemma omission_reasons:
  "list_all (\<lambda>ob. om_reason ob \<in> {MaxIncludedExceeded, BudgetExceeded} \<or> om_reason ob = OutOfScope \<and> recs (om_id ob) = None)
     (ay_omitted (greedy_assemble ranked recs budget max_included))"
proof -
  have "list_all P (ay_omitted st) \<Longrightarrow> list_all P (ay_omitted (foldl (assemble_one recs budget max_included p) st ranks))"
    if "\<And>i. P (omit i MaxIncludedExceeded)" "\<And>i. P (omit i BudgetExceeded)" "\<And>i. recs i = None \<Longrightarrow> P (omit i OutOfScope)"
    for P p st ranks
  proof (induction ranks arbitrary: st)
    case (Cons rank ranks)
    have "list_all P (ay_omitted (assemble_one recs budget max_included p st rank))"
      using Cons.prems that by (auto simp: assemble_one_def split: option.split)
    then show ?case using Cons.IH by simp
  qed simp
  then show ?thesis by (simp add: greedy_assemble_def Let_def omit_def)
qed

definition standing_rule :: "memory_record \<Rightarrow> bool" where
  "standing_rule m \<longleftrightarrow> mr_pinned m \<or> mr_type m = CorrectionMemory \<or> mp_source (mr_provenance m) = AcceptedCorrection"

text \<open>
  Claim C37. A standing rule is left out only for lack of room. For a request whose maximum and
  budget are not zero, whatever its query says, a memory it may recall that is pinned, a correction
  or an accepted correction is included, or it is reported as beyond the number or the budget of the
  request; the relevance floor never drops it. (A request for nothing gets the empty result, which
  reports nothing.)
\<close>

theorem standing_rules_are_not_dropped:
  assumes run: "retrieve_memory_context pieces r port = Inr block" and v: "validate_and_resolve r = Inr v"
    and positive: "rv_max v \<noteq> 0" "rv_budget v \<noteq> 0"
    and fetched: "fetch_scoped port (rr_scopes r) = Inr fetched"
    and m: "m \<in> set (dedupe_by_id fetched)" "recallable r v m" "standing_rule m"
  shows "mr_id m \<in> im_id ` set (ac_included block) \<or>
    (\<exists>ob\<in>set (ac_omitted block). om_id ob = mr_id m \<and> (om_reason ob = MaxIncludedExceeded \<or> om_reason ob = BudgetExceeded))"
proof -
  let ?candidates = "recall_candidates r v fetched"
  from retrieval_stages [OF v positive, where pieces = pieces and port = port] run obtain fs ranked outs where
    stages: "recalled pieces r v port fs ranked outs block" by auto
  moreover from this fetched have "fs = fetched" by (simp add: recalled_def)
  ultimately have "recalled pieces r v port fetched ranked outs block" by simp
  with v show ?thesis
  proof (cases rule: recalled_facts)
    case (1 kept below edges)
    let ?step = "greedy_assemble (reorder_selection kept r) (build_record_index ?candidates) (rv_budget v) (rv_max v)"
    have known: "m \<in> set ?candidates" using m by (simp add: recall_candidates_def)
    have "mr_id m \<in> im_id ` set ranked" using known 1(4) by (metis image_eqI set_map set_mset_mset)
    then obtain e where e: "e \<in> set ranked" "im_id e = mr_id m" by auto
    from ranked_entries [OF candidates_distinct 1(3) e(1)] obtain n where n: "n \<in> set ?candidates" "im_id e = mr_id n"
      and sub: "im_subscores e = final_subscores pieces (build_rank_query r v (semantic_scores_above_floor (rr_semantic r) (rv_semantic_min v)))
        edges (high_rank_ids pieces ?candidates (build_rank_query r v (semantic_scores_above_floor (rr_semantic r) (rv_semantic_min v)))
          (effective_weights (build_rank_query r v (semantic_scores_above_floor (rr_semantic r) (rv_semantic_min v)))) None) n" by blast
    have "n = m" using n e(2) known candidates_distinct [of r v fetched] by (auto simp: distinct_map inj_on_def)
    with sub m(3) have "floor_keeps e"
      by (auto simp: floor_keeps_def standing_rule_def final_subscores_def split: option.split)
    then have "e \<in> set kept" using kept_below(3) [OF 1(2) e(1)] by blast
    then have "e \<in> set (reorder_selection kept r)" by (metis reorder_mset set_mset_mset)
    then have "mr_id m \<in> im_id ` set (reorder_selection kept r)" using e(2) by (metis image_eqI)
    then have "mr_id m \<in> set_mset (mset (map im_id (reorder_selection kept r)))" by (simp only: set_mset_mset set_map)
    also have "mset (map im_id (reorder_selection kept r)) = mset (map im_id (ay_included ?step)) + mset (map om_id (ay_omitted ?step))"
      using 1(5) by (simp only: packed_def)
    finally consider "mr_id m \<in> im_id ` set (ay_included ?step)" | ob where "ob \<in> set (ay_omitted ?step)" "om_id ob = mr_id m" by auto
    then show ?thesis
    proof cases
      case 1
      with \<open>ac_included block = ay_included ?step\<close> show ?thesis by simp
    next
      case 2
      with omission_reasons [of "build_record_index ?candidates" "reorder_selection kept r" "rv_budget v" "rv_max v"] known
      have "om_reason ob = MaxIncludedExceeded \<or> om_reason ob = BudgetExceeded"
        using index_mem [OF candidates_distinct, of m r v fetched] by (auto simp: list_all_iff)
      with 2 \<open>ac_omitted block = outs @ below @ ay_omitted ?step\<close> show ?thesis by auto
    qed
  qed
qed

lemma assert_errors:
  "assert_clock n = Inl e \<Longrightarrow> e = InvalidClock" "assert_count n = Inl e \<Longrightarrow> e = InvalidBudget"
  "assert_non_negative_weights w = Inl e \<Longrightarrow> e = InvalidWeight" "assert_unit_threshold n = Inl e \<Longrightarrow> e = InvalidUnitThreshold"
  by (auto simp: assert_clock_def assert_count_def assert_non_negative_weights_def assert_unit_threshold_def
      split: if_splits option.splits)

lemma validation_errors:
  "validate_and_resolve r = Inl e \<Longrightarrow> e \<in> {EmptyScopes, InvalidClock, InvalidBudget, InvalidWeight, InvalidUnitThreshold}"
  by (auto simp: validate_and_resolve_def rbind_Inl_iff dest: assert_errors split: if_splits option.splits)

text \<open>
  Claim C38. Retrieval fails only by its request or its port. A request that is not valid gives the
  error of its validation, whatever the port; for a valid one the only error is the port failure,
  and only when some call of the port, for any scope or memory, does not answer. The guard inside
  the ranker and the check of the suppression threshold never fire.
\<close>

theorem retrieval_fails_by_request_or_port:
  "case validate_and_resolve r of
     Inl e \<Rightarrow> retrieve_memory_context pieces r port = Inl e \<and> e \<in> {EmptyScopes, InvalidClock, InvalidBudget, InvalidWeight, InvalidUnitThreshold}
   | Inr v \<Rightarrow> (case retrieve_memory_context pieces r port of
         Inl e \<Rightarrow> e = PortFailure \<and> \<not> port_answers port
       | Inr block \<Rightarrow> ac_tokens block = rv_budget v)"
proof (cases "validate_and_resolve r")
  case (Inl e)
  then have "e \<in> {EmptyScopes, InvalidClock, InvalidBudget, InvalidWeight, InvalidUnitThreshold}"
    using validation_errors by blast
  with Inl show ?thesis by (simp add: invalid_retrieval)
next
  case (Inr v)
  show ?thesis
  proof (cases "rv_max v = 0 \<or> rv_budget v = 0")
    case True
    with Inr empty_retrieval [OF Inr True] show ?thesis by (simp add: empty_result_def)
  next
    case False
    then have stages: "case retrieve_memory_context pieces r port of
        Inr block \<Rightarrow> \<exists>fetched ranked outs. recalled pieces r v port fetched ranked outs block
      | Inl e \<Rightarrow> e = PortFailure \<and> \<not> port_answers port" by (intro retrieval_stages [OF Inr]) simp_all
    have "ac_tokens block = rv_budget v" if "recalled pieces r v port fetched ranked outs block" for fetched ranked outs block
      using Inr that by (cases rule: recalled_facts)
    with stages Inr show ?thesis by (auto split: sum.splits)
  qed
qed

subsection \<open>At two memories\<close>

definition sample_port :: memory_query_port where
  "sample_port = \<lparr> pt_list = (\<lambda>s _. if s = ProjectScope (units ''p'')
       then Some [ranked_sample ''a'' False, ranked_sample ''b'' True] else Some []),
     pt_outgoing = None, pt_incoming = None, pt_edges = None \<rparr>"

definition sample_request :: retrieval_request where
  "sample_request = \<lparr> rr_scopes = [ProjectScope (units ''p'')], rr_text = Some (units ''a''), rr_types = None, rr_now = Num 9,
     rr_budget = None, rr_max = Some (Num 1), rr_weights = (\<lambda>_. None), rr_semantic_min = None, rr_stale = None,
     rr_superseded = None, rr_semantic = None, rr_strength = None, rr_embedding = None, rr_lambda = None, rr_fusion = None \<rparr>"

definition sample_resolved :: resolved_request where
  "sample_resolved = \<lparr> rv_now = 9, rv_budget = 1500, rv_max = 1, rv_weights = default_weight, rv_semantic_min = 3 / 10, rv_stale = 3 / 10 \<rparr>"

lemma sample_resolves: "validate_and_resolve sample_request = Inr sample_resolved"
proof -
  have "resolve_weights sample_request = (\<lambda>k. Num (default_weight k))"
    by (rule ext) (simp add: resolve_weights_def sample_request_def or_default_def)
  moreover have "assert_non_negative_weights (\<lambda>k. Num (default_weight k)) = Inr default_weight"
    by (simp add: assert_non_negative_weights_def subscore_keys_def)
  moreover have "assert_unit_threshold (Num (3 / 10)) = Inr (3 / 10)" "assert_clock (Num 9) = Inr 9"
    "assert_count (Num 1500) = Inr 1500" "assert_count (Num 1) = Inr 1"
    by (simp_all add: assert_unit_threshold_def assert_clock_def assert_count_def)
  ultimately show ?thesis unfolding validate_and_resolve_def
    by (simp add: sample_resolved_def del: rbind_Inr_iff) (simp del: rbind_Inr_iff add: sample_request_def or_default_def default_budget_tokens_def
        default_stale_threshold_def default_semantic_min_score_def)
qed

lemma sample_returns: "\<exists>block. retrieve_memory_context (\<lambda>s. [s]) sample_request sample_port = Inr block"
proof -
  have "port_answers sample_port" by (simp add: port_answers_def sample_port_def)
  then show ?thesis using retrieval_stages [OF sample_resolves, where pieces = "\<lambda>s. [s]" and port = sample_port]
    by (cases "retrieve_memory_context (\<lambda>s. [s]) sample_request sample_port") (simp_all add: sample_resolved_def)
qed

theorem only_live_memories_of_the_scopes_witness:
  "\<exists>block. retrieve_memory_context (\<lambda>s. [s]) sample_request sample_port = Inr block \<and>
     list_all (\<lambda>e. ce_status e = MemAccepted) (ac_memories block)"
proof -
  obtain block where run: "retrieve_memory_context (\<lambda>s. [s]) sample_request sample_port = Inr block" using sample_returns by blast
  from only_live_memories_of_the_scopes [OF run] run show ?thesis
    by (auto simp: list_all_iff recallable_def sample_request_def)
qed

theorem every_memory_is_accounted_for_witness:
  "\<exists>block. retrieve_memory_context (\<lambda>s. [s]) sample_request sample_port = Inr block \<and> ac_used block \<le> 1500 \<and>
     mset (map im_id (ac_included block)) + mset (map om_id (ac_omitted block)) = {#units ''a'', units ''b''#}"
proof -
  obtain block where run: "retrieve_memory_context (\<lambda>s. [s]) sample_request sample_port = Inr block" using sample_returns by blast
  have "fetch_scoped sample_port (rr_scopes sample_request) = Inr [ranked_sample ''a'' False, ranked_sample ''b'' True]"
    by (simp add: fetch_scoped_def sample_port_def sample_request_def port_answer_def)
  moreover have "mset_set {units ''a'', units ''b''} = {#units ''a'', units ''b''#}" by (simp add: units_def of_char_def)
  ultimately show ?thesis
    using every_memory_is_accounted_for [OF run] run sample_resolves by (auto simp: sample_resolved_def ranked_sample_def)
qed

theorem standing_rules_are_not_dropped_witness:
  "\<exists>block. retrieve_memory_context (\<lambda>s. [s]) sample_request sample_port = Inr block \<and>
     units ''b'' \<in> im_id ` set (ac_included block) \<union> om_id ` set (ac_omitted block)"
proof -
  obtain block where run: "retrieve_memory_context (\<lambda>s. [s]) sample_request sample_port = Inr block" using sample_returns by blast
  let ?fetched = "[ranked_sample ''a'' False, ranked_sample ''b'' True]" and ?m = "ranked_sample ''b'' True"
  have fetched: "fetch_scoped sample_port (rr_scopes sample_request) = Inr ?fetched"
    by (simp add: fetch_scoped_def sample_port_def sample_request_def port_answer_def)
  have m: "?m \<in> set (dedupe_by_id ?fetched)" "recallable sample_request sample_resolved ?m" "standing_rule ?m" "mr_id ?m = units ''b''"
    by (simp_all add: dedupe_by_id_def ranked_sample_def units_def of_char_def recallable_def sample_request_def sample_resolved_def
        standing_rule_def)
  have "rv_max sample_resolved \<noteq> 0" "rv_budget sample_resolved \<noteq> 0" by (simp_all add: sample_resolved_def)
  from standing_rules_are_not_dropped [OF run sample_resolves this fetched m(1-3)] m(4)
  have "units ''b'' \<in> im_id ` set (ac_included block) \<union> om_id ` set (ac_omitted block)" by (metis UnCI image_eqI)
  with run show ?thesis by blast
qed

end
