(* ===== verification/Memory_Health.thy ===== *)
theory Memory_Health
  imports Memory_Maintenance
begin

text \<open>
  The structural health scan (\<open>keiko-memory-governance/src/health-scan.ts\<close>). A finding keeps what its
  reason text is built from instead of the text. \<open>fresh n\<close> is the id the \<open>n\<close>-th call of
  \<open>newFindingId\<close> gives, \<open>collate\<close> the runtime's \<open>localeCompare\<close>.
\<close>

subsection \<open>Findings\<close>

datatype finding_kind = OrphanMemory | MissingCrossReference | StaleNotArchived | DanglingReviewItem

fun kind_name :: "finding_kind \<Rightarrow> string" where
  "kind_name OrphanMemory = ''orphan-memory''"
| "kind_name MissingCrossReference = ''missing-cross-reference''"
| "kind_name StaleNotArchived = ''stale-not-archived''"
| "kind_name DanglingReviewItem = ''dangling-review-item''"

datatype finding_reason =
    NoEdges
  | Similar real real
  | StaleFor memory_status int int
  | Unresolved conflict_reason int int

record memory_ref =
  mf_memory :: ustring
  mf_type :: memory_type
  mf_status :: memory_status

record health_finding =
  hf_id :: ustring
  hf_kind :: finding_kind
  hf_memories :: "memory_ref list"
  hf_reason :: finding_reason
  hf_detected_at :: real

record health_policy =
  hp_similarity :: real
  hp_stale_window :: real
  hp_dangling_window :: real
  hp_max_records :: nat
  hp_max_partition :: nat

definition health_scan_defaults :: health_policy where
  "health_scan_defaults = \<lparr> hp_similarity = 55 / 100, hp_stale_window = 30 * day_ms, hp_dangling_window = 14 * day_ms,
     hp_max_records = 1000, hp_max_partition = 200 \<rparr>"

definition to_ref :: "memory_record \<Rightarrow> memory_ref" where
  "to_ref m = \<lparr> mf_memory = mr_id m, mf_type = mr_type m, mf_status = mr_status m \<rparr>"

text \<open>A finding before its id: the calls of \<open>newFindingId\<close> are numbered in the order they are made.\<close>

definition found :: "finding_kind \<Rightarrow> memory_record list \<Rightarrow> finding_reason \<Rightarrow> real \<Rightarrow> health_finding" where
  "found k ms r now = \<lparr> hf_id = [], hf_kind = k, hf_memories = map to_ref ms, hf_reason = r, hf_detected_at = now \<rparr>"

definition with_ids :: "(nat \<Rightarrow> ustring) \<Rightarrow> nat \<Rightarrow> health_finding list \<Rightarrow> health_finding list" where
  "with_ids fresh n fs = map (\<lambda>(i, f). f\<lparr> hf_id := fresh i \<rparr>) (enumerate n fs)"

subsection \<open>Bounds\<close>

definition id_before :: "(ustring \<Rightarrow> ustring \<Rightarrow> int) \<Rightarrow> memory_record \<Rightarrow> memory_record \<Rightarrow> bool" where
  "id_before collate a b \<longleftrightarrow> collate (mr_id a) (mr_id b) < 0"

definition sorted_by_id :: "(ustring \<Rightarrow> ustring \<Rightarrow> int) \<Rightarrow> memory_record list \<Rightarrow> memory_record list" where
  "sorted_by_id collate ms = sort_by (id_before collate) ms"

definition bound_records :: "(ustring \<Rightarrow> ustring \<Rightarrow> int) \<Rightarrow> memory_record list \<Rightarrow> nat \<Rightarrow> memory_record list \<times> bool" where
  "bound_records collate ms n = (if length ms \<le> n then (ms, False) else (take n (sorted_by_id collate ms), True))"

definition partition_key :: "memory_record \<Rightarrow> ustring \<times> memory_type" where
  "partition_key m = (scope_coordinate_key (mr_scope m), mr_type m)"

text \<open>The buckets of the map, in the order their keys were first set.\<close>

definition buckets :: "memory_record list \<Rightarrow> memory_record list list" where
  "buckets ms = map (\<lambda>k. filter (\<lambda>m. partition_key m = k) ms) (rev (remdups (rev (map partition_key ms))))"

definition partition_by_scope_and_type ::
  "(ustring \<Rightarrow> ustring \<Rightarrow> int) \<Rightarrow> memory_record list \<Rightarrow> nat \<Rightarrow> memory_record list list \<times> bool" where
  "partition_by_scope_and_type collate ms n =
     (map (\<lambda>b. if length b \<le> n then b else take n (sorted_by_id collate b)) (buckets ms),
      list_ex (\<lambda>b. length b > n) (buckets ms))"

text \<open>The two nested loops over a sorted partition.\<close>

fun pairs_of :: "'a list \<Rightarrow> ('a \<times> 'a) list" where
  "pairs_of [] = []"
| "pairs_of (x # xs) = map (\<lambda>y. (x, y)) xs @ pairs_of xs"

definition findings_of_pairs ::
  "(ustring \<Rightarrow> ustring \<Rightarrow> int) \<Rightarrow> (memory_record \<times> memory_record \<Rightarrow> health_finding option) \<Rightarrow> memory_record list list \<Rightarrow> health_finding list" where
  "findings_of_pairs collate evaluate partitions =
     concat (map (\<lambda>p. List.map_filter evaluate (pairs_of (sorted_by_id collate p))) partitions)"

subsection \<open>The detectors\<close>

definition find_orphan_memories :: "memory_record list \<Rightarrow> (ustring \<rightharpoonup> memory_edge list) \<Rightarrow> real \<Rightarrow> health_finding list" where
  "find_orphan_memories ms edges now = List.map_filter (\<lambda>m.
     if mr_status m \<noteq> MemAccepted then None
     else if (case edges (mr_id m) of None \<Rightarrow> False | Some es \<Rightarrow> es \<noteq> []) then None
     else Some (found OrphanMemory [m] NoEdges now)) ms"

definition has_edge_between :: "(ustring \<rightharpoonup> memory_edge list) \<Rightarrow> ustring \<Rightarrow> ustring \<Rightarrow> bool" where
  "has_edge_between edges a b =
     (case edges a of None \<Rightarrow> False | Some es \<Rightarrow> list_ex (\<lambda>e. me_from e = b \<or> me_to e = b) es)"

definition evaluate_cross_reference_pair ::
  "(ustring \<rightharpoonup> memory_edge list) \<Rightarrow> real \<Rightarrow> real \<Rightarrow> memory_record \<times> memory_record \<Rightarrow> health_finding option" where
  "evaluate_cross_reference_pair edges threshold now p =
     (let (a, b) = p
      in if has_edge_between edges (mr_id a) (mr_id b) then None
         else let score = jaccard_similarity (mr_body a) (mr_body b)
           in if score < threshold then None else Some (found MissingCrossReference [a, b] (Similar score threshold) now))"

definition find_missing_cross_references ::
  "(ustring \<Rightarrow> ustring \<Rightarrow> int) \<Rightarrow> memory_record list \<Rightarrow> (ustring \<rightharpoonup> memory_edge list) \<Rightarrow> real \<Rightarrow> real \<Rightarrow> nat \<Rightarrow> health_finding list \<times> bool" where
  "find_missing_cross_references collate ms edges threshold now n =
     (let (partitions, truncated) = partition_by_scope_and_type collate (filter (\<lambda>m. mr_status m = MemAccepted) ms) n
      in (findings_of_pairs collate (evaluate_cross_reference_pair edges threshold now) partitions, truncated))"

definition find_stale_not_archived :: "memory_record list \<Rightarrow> real \<Rightarrow> real \<Rightarrow> health_finding list" where
  "find_stale_not_archived ms now window = List.map_filter (\<lambda>m.
     if mr_status m \<notin> {MemSuperseded, MemConflicted} then None
     else let age = now - mr_updated_at m
       in if age < window then None
          else Some (found StaleNotArchived [m] (StaleFor (mr_status m) \<lfloor>age / day_ms\<rfloor> \<lfloor>window / day_ms\<rfloor>) now)) ms"

definition evaluate_dangling_pair :: "real \<Rightarrow> real \<Rightarrow> memory_record \<times> memory_record \<Rightarrow> health_finding option" where
  "evaluate_dangling_pair window now p =
     (let (a, b) = p
      in case detect_conflict_pair a b of
           None \<Rightarrow> None
         | Some reason \<Rightarrow> let age = now - min (mr_updated_at a) (mr_updated_at b)
             in if age < window then None
                else Some (found DanglingReviewItem [a, b] (Unresolved reason \<lfloor>age / day_ms\<rfloor> \<lfloor>window / day_ms\<rfloor>) now))"

definition find_dangling_review_items ::
  "(ustring \<Rightarrow> ustring \<Rightarrow> int) \<Rightarrow> memory_record list \<Rightarrow> real \<Rightarrow> real \<Rightarrow> nat \<Rightarrow> health_finding list \<times> bool" where
  "find_dangling_review_items collate ms window now n =
     (let (partitions, truncated) =
        partition_by_scope_and_type collate (filter (\<lambda>m. mr_status m \<in> {MemAccepted, MemProposed}) ms) n
      in (findings_of_pairs collate (evaluate_dangling_pair window now) partitions, truncated))"

subsection \<open>The scan\<close>

definition first_memory :: "health_finding \<Rightarrow> ustring" where
  "first_memory f = (case hf_memories f of [] \<Rightarrow> [] | r # _ \<Rightarrow> mf_memory r)"

definition finding_before :: "(ustring \<Rightarrow> ustring \<Rightarrow> int) \<Rightarrow> health_finding \<Rightarrow> health_finding \<Rightarrow> bool" where
  "finding_before collate a b =
     (if hf_kind a \<noteq> hf_kind b then collate (units (kind_name (hf_kind a))) (units (kind_name (hf_kind b))) < 0
      else if first_memory a \<noteq> first_memory b then collate (first_memory a) (first_memory b) < 0
      else collate (hf_id a) (hf_id b) < 0)"

record health_scan_result =
  hs_findings :: "health_finding list"
  hs_inspected :: nat
  hs_truncated :: bool

text \<open>Ids are drawn for the cross references first, then for the review items, the orphans and the stale ones.\<close>

definition scan_memory_health ::
  "(ustring \<Rightarrow> ustring \<Rightarrow> int) \<Rightarrow> (nat \<Rightarrow> ustring) \<Rightarrow> memory_record list \<Rightarrow> (ustring \<rightharpoonup> memory_edge list) \<Rightarrow> real \<Rightarrow> health_policy \<Rightarrow>
   health_scan_result" where
  "scan_memory_health collate fresh ms edges now p =
     (let (bounded, global_truncated) = bound_records collate ms (hp_max_records p);
          (cross, cross_truncated) = find_missing_cross_references collate bounded edges (hp_similarity p) now (hp_max_partition p);
          (dangling, dangling_truncated) = find_dangling_review_items collate bounded (hp_dangling_window p) now (hp_max_partition p);
          orphans = find_orphan_memories bounded edges now;
          stale = find_stale_not_archived bounded now (hp_stale_window p);
          n = length cross; k = n + length dangling; l = k + length orphans
      in \<lparr> hs_findings = sort_by (finding_before collate)
             (with_ids fresh k orphans @ with_ids fresh 0 cross @ with_ids fresh l stale @ with_ids fresh n dangling),
           hs_inspected = length bounded,
           hs_truncated = (global_truncated \<or> cross_truncated \<or> dangling_truncated) \<rparr>)"

end
