(* ===== verification/Memory_Health_Properties.thy ===== *)
theory Memory_Health_Properties
  imports Memory_Health Memory_Consent
begin

text \<open>
  What the health scan promises: as long as nothing is cut off, it reports exactly the memories and pairs
  its four rules describe.
\<close>

subsection \<open>Pairs and partitions\<close>

lemma pairs_of_mem: "(x, y) \<in> set (pairs_of xs) \<Longrightarrow> x \<in> set xs \<and> y \<in> set xs"
  by (induction xs) auto

lemma pairs_of_total: "x \<in> set xs \<Longrightarrow> y \<in> set xs \<Longrightarrow> x \<noteq> y \<Longrightarrow> (x, y) \<in> set (pairs_of xs) \<or> (y, x) \<in> set (pairs_of xs)"
  by (induction xs) auto

lemma map_filter_mem: "f \<in> set (List.map_filter g xs) \<longleftrightarrow> (\<exists>x\<in>set xs. g x = Some f)"
  by (force simp: List.map_filter_def)

lemma partition_key_eq: "partition_key a = partition_key b \<longleftrightarrow> mr_type a = mr_type b \<and> mr_scope a = mr_scope b"
  by (auto simp: partition_key_def scope_key_inj)

lemma buckets_set: "set (buckets ms) = (\<lambda>m. filter (\<lambda>x. partition_key x = partition_key m) ms) ` set ms"
  by (simp add: buckets_def image_image)

lemma partitions_whole:
  "\<not> snd (partition_by_scope_and_type collate ms n) \<Longrightarrow> fst (partition_by_scope_and_type collate ms n) = buckets ms"
  by (auto simp: partition_by_scope_and_type_def list_ex_iff intro!: map_idI)

lemma findings_of_pairs_mem:
  "f \<in> set (findings_of_pairs collate ev (buckets ns)) \<longleftrightarrow>
   (\<exists>m\<in>set ns. \<exists>x y. (x, y) \<in> set (pairs_of (sorted_by_id collate (filter (\<lambda>z. partition_key z = partition_key m) ns))) \<and> ev (x, y) = Some f)"
  by (simp add: findings_of_pairs_def map_filter_mem buckets_set Bex_def [of "set (pairs_of _)"] split_paired_Ex)

definition member_ids :: "health_finding \<Rightarrow> ustring set" where
  "member_ids f = set (map mf_memory (hf_memories f))"

text \<open>A rule on pairs that does not look at their order reports a pair exactly when it applies.\<close>

lemma pair_reported:
  assumes inj: "inj_on mr_id (set ms)" and ns: "set ns \<subseteq> set ms" and a: "a \<in> set ms" and b: "b \<in> set ms" and ab: "a \<noteq> b"
    and members: "\<And>x y f. ev (x, y) = Some f \<Longrightarrow> member_ids f = {mr_id x, mr_id y}"
    and symmetric: "(ev (a, b) = None) = (ev (b, a) = None)"
  shows "(\<exists>f\<in>set (findings_of_pairs collate ev (buckets ns)). member_ids f = {mr_id a, mr_id b}) \<longleftrightarrow>
    a \<in> set ns \<and> b \<in> set ns \<and> partition_key a = partition_key b \<and> ev (a, b) \<noteq> None"
proof
  assume "\<exists>f\<in>set (findings_of_pairs collate ev (buckets ns)). member_ids f = {mr_id a, mr_id b}"
  then obtain f where mem: "f \<in> set (findings_of_pairs collate ev (buckets ns))" and fm: "member_ids f = {mr_id a, mr_id b}" by blast
  from mem [unfolded findings_of_pairs_mem] obtain m x y where f: "ev (x, y) = Some f"
    and p: "(x, y) \<in> set (pairs_of (sorted_by_id collate (filter (\<lambda>z. partition_key z = partition_key m) ns)))" by blast
  from pairs_of_mem [OF p] have xy: "x \<in> set ns" "y \<in> set ns" "partition_key x = partition_key y"
    by (simp_all add: sorted_by_id_def)
  have "{mr_id x, mr_id y} = {mr_id a, mr_id b}" using members [OF f] fm by simp
  then consider "mr_id x = mr_id a" "mr_id y = mr_id b" | "mr_id x = mr_id b" "mr_id y = mr_id a"
    by (auto simp: doubleton_eq_iff)
  then have "x = a \<and> y = b \<or> x = b \<and> y = a"
  proof cases
    case 1
    have "x \<in> set ms" "y \<in> set ms" using xy(1,2) ns by auto
    with inj_onD [OF inj 1(1)] inj_onD [OF inj 1(2)] a b show ?thesis by simp
  next
    case 2
    have "x \<in> set ms" "y \<in> set ms" using xy(1,2) ns by auto
    with inj_onD [OF inj 2(1)] inj_onD [OF inj 2(2)] a b show ?thesis by simp
  qed
  with xy f symmetric show "a \<in> set ns \<and> b \<in> set ns \<and> partition_key a = partition_key b \<and> ev (a, b) \<noteq> None" by auto
next
  assume r: "a \<in> set ns \<and> b \<in> set ns \<and> partition_key a = partition_key b \<and> ev (a, b) \<noteq> None"
  let ?bucket = "sorted_by_id collate (filter (\<lambda>z. partition_key z = partition_key a) ns)"
  have "a \<in> set ?bucket" "b \<in> set ?bucket" using r by (simp_all add: sorted_by_id_def)
  from pairs_of_total [OF this ab] obtain x y where p: "(x, y) \<in> set (pairs_of ?bucket)" "x = a \<and> y = b \<or> x = b \<and> y = a" by blast
  with r symmetric obtain f where f: "ev (x, y) = Some f" by auto
  then have "f \<in> set (findings_of_pairs collate ev (buckets ns))" using r p(1) unfolding findings_of_pairs_mem by blast
  moreover have "member_ids f = {mr_id a, mr_id b}" using members [OF f] p(2) by auto
  ultimately show "\<exists>f\<in>set (findings_of_pairs collate ev (buckets ns)). member_ids f = {mr_id a, mr_id b}" by blast
qed

subsection \<open>The scan\<close>

definition reported :: "finding_kind \<Rightarrow> ustring set \<Rightarrow> health_finding list \<Rightarrow> bool" where
  "reported k ids fs \<longleftrightarrow> (\<exists>f\<in>set fs. hf_kind f = k \<and> member_ids f = ids)"

lemma reported_append [simp]: "reported k ids (fs @ gs) \<longleftrightarrow> reported k ids fs \<or> reported k ids gs"
  by (auto simp: reported_def)

lemma reported_sort [simp]: "reported k ids (sort_by before fs) = reported k ids fs"
  by (simp add: reported_def)

lemma reported_with_ids [simp]: "reported k ids (with_ids fresh n fs) = reported k ids fs"
proof -
  have "(\<exists>f\<in>set (with_ids fresh n fs). P f) \<longleftrightarrow> (\<exists>f\<in>set fs. P f)" if "\<And>f i. P (f\<lparr> hf_id := i \<rparr>) = P f" for P
  proof (induction fs arbitrary: n)
    case (Cons f fs)
    then show ?case using that by (simp add: with_ids_def)
  qed (simp add: with_ids_def)
  from this [of "\<lambda>f. hf_kind f = k \<and> member_ids f = ids"] show ?thesis by (simp add: reported_def member_ids_def)
qed

lemma reported_other: "(\<And>f. f \<in> set fs \<Longrightarrow> hf_kind f \<noteq> k) \<Longrightarrow> \<not> reported k ids fs"
  by (auto simp: reported_def)

lemma pair_findings_kind:
  assumes "\<And>p f. ev p = Some f \<Longrightarrow> hf_kind f = k" and "f \<in> set (findings_of_pairs collate ev ps)"
  shows "hf_kind f = k"
  using assms by (auto simp: findings_of_pairs_def map_filter_mem)

lemma single_reported:
  assumes "inj_on mr_id (set ms)" and "m \<in> set ms"
    and "\<And>x f. x \<in> set ms \<Longrightarrow> ev x = Some f \<Longrightarrow> member_ids f = {mr_id x} \<and> hf_kind f = k"
  shows "reported k {mr_id m} (List.map_filter ev ms) \<longleftrightarrow> ev m \<noteq> None"
proof
  assume "reported k {mr_id m} (List.map_filter ev ms)"
  then obtain x f where "x \<in> set ms" "ev x = Some f" "member_ids f = {mr_id m}" by (auto simp: reported_def map_filter_mem)
  with assms(3) [of x f] have "mr_id x = mr_id m" by simp
  with \<open>x \<in> set ms\<close> \<open>ev x = Some f\<close> inj_onD [OF assms(1) this] assms(2) show "ev m \<noteq> None" by simp
next
  assume "ev m \<noteq> None"
  then obtain f where f: "ev m = Some f" by blast
  have "f \<in> set (List.map_filter ev ms)" unfolding map_filter_mem by (rule bexI [of _ m]) (rule f assms(2))+
  with assms(3) [OF assms(2) f] show "reported k {mr_id m} (List.map_filter ev ms)" by (auto simp: reported_def)
qed

lemma scan_parts:
  assumes "\<not> hs_truncated (scan_memory_health collate fresh ms edges now p)"
  shows "reported k ids (hs_findings (scan_memory_health collate fresh ms edges now p)) \<longleftrightarrow>
    reported k ids (find_orphan_memories ms edges now) \<or>
    reported k ids (findings_of_pairs collate (evaluate_cross_reference_pair edges (hp_similarity p) now)
      (buckets (filter (\<lambda>m. mr_status m = MemAccepted) ms))) \<or>
    reported k ids (find_stale_not_archived ms now (hp_stale_window p)) \<or>
    reported k ids (findings_of_pairs collate (evaluate_dangling_pair (hp_dangling_window p) now)
      (buckets (filter (\<lambda>m. mr_status m \<in> {MemAccepted, MemProposed}) ms)))"
proof -
  have "bound_records collate ms (hp_max_records p) = (ms, False)"
    using assms by (auto simp: scan_memory_health_def bound_records_def Let_def split: prod.splits if_splits)
  with assms show ?thesis
    using partitions_whole [of collate "filter (\<lambda>m. mr_status m = MemAccepted) ms" "hp_max_partition p"]
      partitions_whole [of collate "filter (\<lambda>m. mr_status m \<in> {MemAccepted, MemProposed}) ms" "hp_max_partition p"]
    by (auto simp: scan_memory_health_def find_missing_cross_references_def find_dangling_review_items_def Let_def split: prod.splits)
qed

lemma conflict_partition: "detect_conflict_pair a b \<noteq> None \<Longrightarrow> partition_key a = partition_key b"
  by (auto simp: detect_conflict_pair_def different_scope_or_type_def partition_key_def split: if_splits)

text \<open>An index of edges lists an edge under both of its ends.\<close>

definition edges_agree :: "(ustring \<rightharpoonup> memory_edge list) \<Rightarrow> memory_record list \<Rightarrow> bool" where
  "edges_agree edges ms \<longleftrightarrow>
     (\<forall>a\<in>set ms. \<forall>b\<in>set ms. has_edge_between edges (mr_id a) (mr_id b) = has_edge_between edges (mr_id b) (mr_id a))"

text \<open>
  A scan that cut nothing off reports exactly what its rules say, whatever the order of the
  records and the runtime's collation. A memory is reported as an orphan exactly when it is accepted and
  has no edge, and as stale exactly when it has been superseded or conflicted for the window; two memories
  of one type and scope are reported as lacking a cross reference exactly when both are accepted, no edge
  joins them and their words overlap enough, and as a dangling review item exactly when both are live and
  have been in conflict for the window.
\<close>

theorem scan_reports_exactly:
  fixes collate fresh ms edges now p
  defines "fs \<equiv> hs_findings (scan_memory_health collate fresh ms edges now p)"
  assumes whole: "\<not> hs_truncated (scan_memory_health collate fresh ms edges now p)"
    and ids: "distinct (map mr_id ms)" and agree: "edges_agree edges ms"
    and a: "a \<in> set ms" and b: "b \<in> set ms" and ab: "mr_id a \<noteq> mr_id b"
  shows "(reported OrphanMemory {mr_id a} fs \<longleftrightarrow> mr_status a = MemAccepted \<and> (edges (mr_id a) = None \<or> edges (mr_id a) = Some [])) \<and>
    (reported StaleNotArchived {mr_id a} fs \<longleftrightarrow>
       (mr_status a = MemSuperseded \<or> mr_status a = MemConflicted) \<and> hp_stale_window p \<le> now - mr_updated_at a) \<and>
    (reported MissingCrossReference {mr_id a, mr_id b} fs \<longleftrightarrow> mr_status a = MemAccepted \<and> mr_status b = MemAccepted \<and>
       mr_type a = mr_type b \<and> mr_scope a = mr_scope b \<and> \<not> has_edge_between edges (mr_id a) (mr_id b) \<and>
       hp_similarity p \<le> jaccard_similarity (mr_body a) (mr_body b)) \<and>
    (reported DanglingReviewItem {mr_id a, mr_id b} fs \<longleftrightarrow> mr_status a \<in> {MemAccepted, MemProposed} \<and>
       mr_status b \<in> {MemAccepted, MemProposed} \<and> detect_conflict_pair a b \<noteq> None \<and>
       hp_dangling_window p \<le> now - min (mr_updated_at a) (mr_updated_at b))"
proof -
  let ?orphans = "find_orphan_memories ms edges now" and ?stale = "find_stale_not_archived ms now (hp_stale_window p)"
  let ?cross_rule = "evaluate_cross_reference_pair edges (hp_similarity p) now"
  let ?dangling_rule = "evaluate_dangling_pair (hp_dangling_window p) now"
  let ?accepted = "filter (\<lambda>m. mr_status m = MemAccepted) ms" and ?live = "filter (\<lambda>m. mr_status m \<in> {MemAccepted, MemProposed}) ms"
  let ?cross = "findings_of_pairs collate ?cross_rule (buckets ?accepted)"
  let ?dangling = "findings_of_pairs collate ?dangling_rule (buckets ?live)"
  have inj: "inj_on mr_id (set ms)" using ids by (simp add: distinct_map)
  have kinds: "f \<in> set ?orphans \<Longrightarrow> hf_kind f = OrphanMemory" "f \<in> set ?stale \<Longrightarrow> hf_kind f = StaleNotArchived"
    "f \<in> set ?cross \<Longrightarrow> hf_kind f = MissingCrossReference" "f \<in> set ?dangling \<Longrightarrow> hf_kind f = DanglingReviewItem" for f
  proof -
    show "f \<in> set ?orphans \<Longrightarrow> hf_kind f = OrphanMemory" "f \<in> set ?stale \<Longrightarrow> hf_kind f = StaleNotArchived"
      by (auto simp: find_orphan_memories_def find_stale_not_archived_def map_filter_mem found_def Let_def split: if_splits)
    have "?cross_rule q = Some g \<Longrightarrow> hf_kind g = MissingCrossReference" "?dangling_rule q = Some g \<Longrightarrow> hf_kind g = DanglingReviewItem" for q g
      by (auto simp: evaluate_cross_reference_pair_def evaluate_dangling_pair_def found_def Let_def
          split: prod.splits if_splits option.splits)
    then show "f \<in> set ?cross \<Longrightarrow> hf_kind f = MissingCrossReference" "f \<in> set ?dangling \<Longrightarrow> hf_kind f = DanglingReviewItem"
      by (blast intro: pair_findings_kind)+
  qed
  note parts = scan_parts [OF whole, folded fs_def]
  have split: "reported OrphanMemory i fs = reported OrphanMemory i ?orphans" "reported StaleNotArchived i fs = reported StaleNotArchived i ?stale"
    "reported MissingCrossReference i fs = reported MissingCrossReference i ?cross"
    "reported DanglingReviewItem i fs = reported DanglingReviewItem i ?dangling" for i
    unfolding parts using kinds by (auto simp: reported_def)
  have orphan: "reported OrphanMemory {mr_id a} ?orphans \<longleftrightarrow>
      mr_status a = MemAccepted \<and> (edges (mr_id a) = None \<or> edges (mr_id a) = Some [])"
    unfolding find_orphan_memories_def
    by (subst single_reported [OF inj a]) (auto simp: found_def member_ids_def to_ref_def split: if_splits option.splits)
  have stale: "reported StaleNotArchived {mr_id a} ?stale \<longleftrightarrow>
      (mr_status a = MemSuperseded \<or> mr_status a = MemConflicted) \<and> hp_stale_window p \<le> now - mr_updated_at a"
    unfolding find_stale_not_archived_def
    by (subst single_reported [OF inj a]) (auto simp: found_def member_ids_def to_ref_def Let_def split: if_splits)
  have in_pair: "member_ids f = {mr_id x, mr_id y}" if "?cross_rule (x, y) = Some f \<or> ?dangling_rule (x, y) = Some f" for x y f
    using that by (auto simp: evaluate_cross_reference_pair_def evaluate_dangling_pair_def found_def member_ids_def to_ref_def Let_def
        split: if_splits option.splits)
  have pair: "reported k {mr_id a, mr_id b} (findings_of_pairs collate ev (buckets ns)) \<longleftrightarrow>
      a \<in> set ns \<and> b \<in> set ns \<and> partition_key a = partition_key b \<and> ev (a, b) \<noteq> None"
    if "set ns \<subseteq> set ms" "\<And>x y f. ev (x, y) = Some f \<Longrightarrow> member_ids f = {mr_id x, mr_id y}" "(ev (a, b) = None) = (ev (b, a) = None)"
      "\<And>f. f \<in> set (findings_of_pairs collate ev (buckets ns)) \<Longrightarrow> hf_kind f = k" for k ev ns
  proof -
    have "a \<noteq> b" using ab by blast
    from pair_reported [OF inj that(1) a b this that(2,3), of collate] that(4) show ?thesis by (auto simp: reported_def)
  qed
  have cross: "reported MissingCrossReference {mr_id a, mr_id b} ?cross \<longleftrightarrow> mr_status a = MemAccepted \<and> mr_status b = MemAccepted \<and>
      mr_type a = mr_type b \<and> mr_scope a = mr_scope b \<and> \<not> has_edge_between edges (mr_id a) (mr_id b) \<and>
      hp_similarity p \<le> jaccard_similarity (mr_body a) (mr_body b)"
  proof (subst pair)
    show "(?cross_rule (a, b) = None) = (?cross_rule (b, a) = None)"
      using agree a b by (simp add: evaluate_cross_reference_pair_def edges_agree_def jaccard_symmetric [of "mr_body b"] Let_def)
  qed (use in_pair kinds(3) a b in \<open>auto simp: evaluate_cross_reference_pair_def partition_key_eq Let_def\<close>)
  have dangling: "reported DanglingReviewItem {mr_id a, mr_id b} ?dangling \<longleftrightarrow> mr_status a \<in> {MemAccepted, MemProposed} \<and>
      mr_status b \<in> {MemAccepted, MemProposed} \<and> detect_conflict_pair a b \<noteq> None \<and>
      hp_dangling_window p \<le> now - min (mr_updated_at a) (mr_updated_at b)"
  proof (subst pair)
    show "(?dangling_rule (a, b) = None) = (?dangling_rule (b, a) = None)"
      by (simp add: evaluate_dangling_pair_def conflict_order [of b a] min.commute Let_def split: option.split)
  qed (use in_pair kinds(4) a b conflict_partition [of a b] in \<open>auto simp: evaluate_dangling_pair_def Let_def split: option.splits\<close>)
  show ?thesis unfolding split by (intro conjI orphan stale cross dangling)
qed

lemma small_scan_whole:
  assumes "length ms \<le> hp_max_records p" and "length ms \<le> hp_max_partition p"
  shows "\<not> hs_truncated (scan_memory_health collate fresh ms edges now p)"
proof -
  have small: "\<not> snd (partition_by_scope_and_type collate (filter P ms) (hp_max_partition p))" for P
  proof -
    have "length (filter Q (filter P ms)) \<le> hp_max_partition p" for Q
      using length_filter_le [of Q "filter P ms"] length_filter_le [of P ms] assms(2) by linarith
    then show ?thesis by (auto simp: partition_by_scope_and_type_def list_ex_iff buckets_set not_less simp del: filter_filter)
  qed
  show ?thesis
    using small [of "\<lambda>m. mr_status m = MemAccepted"] small [of "\<lambda>m. mr_status m \<in> {MemAccepted, MemProposed}"] assms(1)
    by (auto simp: scan_memory_health_def bound_records_def find_missing_cross_references_def find_dangling_review_items_def Let_def
        split: prod.splits)
qed

theorem scan_reports_exactly_witness:
  "let fs = hs_findings (scan_memory_health sample_collate (\<lambda>n. [n]) sample_vault (\<lambda>_. None) 20 health_scan_defaults)
   in reported OrphanMemory {units ''a''} fs \<and> \<not> reported StaleNotArchived {units ''a''} fs"
proof -
  let ?a = "sample_record ''a'' MemAccepted False None ''use tabs''" and ?b = "sample_record ''b'' MemProposed False (Some 10) ''use spaces''"
  have whole: "\<not> hs_truncated (scan_memory_health sample_collate (\<lambda>n. [n]) sample_vault (\<lambda>_. None) 20 health_scan_defaults)"
    by (rule small_scan_whole) (simp_all add: sample_vault_def health_scan_defaults_def)
  have ids: "distinct (map mr_id sample_vault)" by (simp add: sample_vault_def sample_record_def units_def of_char_def)
  have agree: "edges_agree (\<lambda>_. None) sample_vault" by (simp add: edges_agree_def has_edge_between_def)
  have "?a \<in> set sample_vault" "?b \<in> set sample_vault" "mr_id ?a \<noteq> mr_id ?b"
    by (simp_all add: sample_vault_def) (simp add: sample_record_def units_def of_char_def)
  from scan_reports_exactly [OF whole ids agree this] show ?thesis by (simp add: sample_record_def Let_def)
qed

end
