(* ===== verification/Js_Values.thy ===== *)
theory Js_Values
  imports Json_Text
begin

text \<open>
  Values of the runtime as code that captures untrusted input sees them, and the canonical JSON text of
  one (\<open>packages/keiko-contracts/src/canonical-json.ts\<close>).

  Objects live in a heap: a value refers to one by its address, so that two values may share an object
  and an object may reach itself. An own property has a string or a symbol for a key and is a data
  property, with its value, or an accessor; both may be enumerable. Proxies are not modelled. A thrown
  \<open>TypeError\<close> is its message.
\<close>

subsection \<open>Values and objects\<close>

text \<open>\<open>JsOpaque\<close> is a function, a symbol or a bigint; \<open>JsNonFinite\<close> a number that is not finite.\<close>

datatype js_value =
    JsUndefined
  | JsNull
  | JsBool bool
  | JsNum rat
  | JsNonFinite
  | JsStr string
  | JsOpaque
  | JsRef nat

datatype js_key = StringKey string | SymbolKey nat

datatype js_prop = DataProp js_value bool | AccessorProp bool

datatype js_prototype = NoPrototype | ObjectPrototype | ArrayPrototype | OtherPrototype

text \<open>\<open>js_length\<close> is the length of an array; \<open>js_props\<close> are the own properties but for \<open>length\<close>.\<close>

record js_object =
  js_length :: "nat option"
  js_proto :: js_prototype
  js_props :: "(js_key \<times> js_prop) list"

type_synonym js_heap = "js_object list"

definition deref :: "js_heap \<Rightarrow> nat \<Rightarrow> js_object option" where
  "deref h a = (if a < length h then Some (h ! a) else None)"

definition own_property :: "js_object \<Rightarrow> js_key \<Rightarrow> js_prop option" where
  "own_property ob k = map_of (js_props ob) k"

fun is_symbol :: "js_key \<Rightarrow> bool" where
  "is_symbol (SymbolKey n) = True"
| "is_symbol (StringKey s) = False"

fun key_text :: "js_key \<Rightarrow> string" where
  "key_text (StringKey s) = s"
| "key_text (SymbolKey n) = []"

fun is_enumerable :: "js_prop \<Rightarrow> bool" where
  "is_enumerable (DataProp v e) = e"
| "is_enumerable (AccessorProp e) = e"

text \<open>\<open>Object.keys\<close>.\<close>

definition enumerable_keys :: "js_object \<Rightarrow> string list" where
  "enumerable_keys ob =
     map (key_text \<circ> fst) (filter (\<lambda>p. \<not> is_symbol (fst p) \<and> is_enumerable (snd p)) (js_props ob))"

definition index_key :: "nat \<Rightarrow> js_key" where
  "index_key i = StringKey (int_text (int i))"

text \<open>Own keys are distinct.\<close>

definition heap_ok :: "js_heap \<Rightarrow> bool" where
  "heap_ok h \<longleftrightarrow> list_all (\<lambda>ob. distinct (map fst (js_props ob))) h"

subsection \<open>Canonical text\<close>

definition data_value :: "js_prop option \<Rightarrow> string + js_value" where
  "data_value p = (case p of
     None \<Rightarrow> Inr JsUndefined
   | Some (DataProp v e) \<Rightarrow> Inr v
   | Some (AccessorProp e) \<Rightarrow> Inl ''Canonical JSON cannot contain an accessor.'')"

definition encode_array :: "(js_value \<Rightarrow> string + string) \<Rightarrow> js_object \<Rightarrow> nat \<Rightarrow> string + string" where
  "encode_array enc ob n =
     rbind (rmap (\<lambda>i. rbind (data_value (own_property ob (index_key i))) enc) [0..<n])
       (\<lambda>ts. Inr (''['' @ join '','' ts @ '']''))"

definition encode_member ::
  "(js_value \<Rightarrow> string + string) \<Rightarrow> js_object \<Rightarrow> string list \<Rightarrow> string \<Rightarrow> string + string list" where
  "encode_member enc ob entries k =
     rbind (data_value (own_property ob (StringKey k))) (\<lambda>item.
       if item = JsUndefined then Inr entries
       else rbind (enc item) (\<lambda>t. Inr (entries @ [json_quote k @ '':'' @ t])))"

definition encode_object :: "(js_value \<Rightarrow> string + string) \<Rightarrow> js_object \<Rightarrow> string + string" where
  "encode_object enc ob =
     (if js_proto ob \<noteq> NoPrototype \<and> js_proto ob \<noteq> ObjectPrototype
      then Inl ''Canonical JSON requires a plain object.''
      else if list_ex (\<lambda>p. is_symbol (fst p)) (js_props ob)
      then Inl ''Canonical JSON cannot contain symbol keys.''
      else rbind (rfold (encode_member enc ob) [] (sort_key js_units (enumerable_keys ob)))
        (\<lambda>entries. Inr (CHR 0x7B # join '','' entries @ [CHR 0x7D])))"

text \<open>
  \<open>ancs\<close> are the objects being encoded, which \<open>encode\<close> adds on entry and deletes on exit. An address
  outside the heap is no value of the program.
\<close>

function encode :: "js_heap \<Rightarrow> nat list \<Rightarrow> js_value \<Rightarrow> string + string" where
  "encode h ancs v = (case v of
     JsUndefined \<Rightarrow> Inr ''null''
   | JsNull \<Rightarrow> Inr ''null''
   | JsStr s \<Rightarrow> Inr (json_quote s)
   | JsBool b \<Rightarrow> Inr (stringify (JBool b))
   | JsNonFinite \<Rightarrow> Inl ''Canonical JSON requires a finite number.''
   | JsNum r \<Rightarrow> Inr (number_text r)
   | JsOpaque \<Rightarrow> Inl ''Unsupported canonical JSON value.''
   | JsRef a \<Rightarrow>
       (if a \<in> set ancs then Inl ''Canonical JSON cannot contain a cycle.''
        else if a < length h then
          (case js_length (h ! a) of
             Some n \<Rightarrow> encode_array (encode h (a # ancs)) (h ! a) n
           | None \<Rightarrow> encode_object (encode h (a # ancs)) (h ! a))
        else Inl ''Unsupported canonical JSON value.''))"
  by pat_completeness auto
termination
  by (relation "measure (\<lambda>(h, ancs, v). card ({..<length h} - set ancs))") (auto intro!: diff_less simp: card_gt_0_iff)

declare encode.simps [simp del]

definition canonicalise_js :: "js_heap \<Rightarrow> js_value \<Rightarrow> string + string" where
  "canonicalise_js h v = encode h [] v"

subsection \<open>What a value says\<close>

text \<open>The items of a plain array and the members of a plain object: enumerable data properties only.\<close>

definition index_child :: "js_object \<Rightarrow> nat \<Rightarrow> js_value option" where
  "index_child ob i = (case own_property ob (index_key i) of
     Some (DataProp c True) \<Rightarrow> Some c
   | _ \<Rightarrow> None)"

definition array_children :: "js_object \<Rightarrow> js_value list option" where
  "array_children ob = (case js_length ob of
     None \<Rightarrow> None
   | Some n \<Rightarrow>
       if js_proto ob = ArrayPrototype \<and> length (js_props ob) = n \<and> list_all (\<lambda>i. index_child ob i \<noteq> None) [0..<n]
       then Some (map (the \<circ> index_child ob) [0..<n]) else None)"

fun member_child :: "js_key \<times> js_prop \<Rightarrow> (string \<times> js_value) option" where
  "member_child (StringKey k, DataProp c True) = Some (k, c)"
| "member_child _ = None"

definition object_children :: "js_object \<Rightarrow> (string \<times> js_value) list option" where
  "object_children ob =
     (if js_length ob = None \<and> (js_proto ob = NoPrototype \<or> js_proto ob = ObjectPrototype)
         \<and> list_all (\<lambda>p. member_child p \<noteq> None) (js_props ob) \<and> distinct (map fst (js_props ob))
      then Some (map (the \<circ> member_child) (js_props ob)) else None)"

text \<open>A value of the runtime that is this JSON value: plain data, the members in own-key order.\<close>

fun says :: "js_heap \<Rightarrow> js_value \<Rightarrow> jvalue \<Rightarrow> bool" where
  "says h v JNull \<longleftrightarrow> v = JsNull"
| "says h v (JBool b) \<longleftrightarrow> v = JsBool b"
| "says h v (JNum r) \<longleftrightarrow> v = JsNum r"
| "says h v (JStr s) \<longleftrightarrow> v = JsStr s"
| "says h v (JArr js) \<longleftrightarrow> (case v of
     JsRef a \<Rightarrow> (case deref h a of
       Some ob \<Rightarrow> (case array_children ob of
         Some cs \<Rightarrow> list_all2 (\<lambda>c j. says h c j) cs js
       | None \<Rightarrow> False)
     | None \<Rightarrow> False)
   | _ \<Rightarrow> False)"
| "says h v (JObj kvs) \<longleftrightarrow> (case v of
     JsRef a \<Rightarrow> (case deref h a of
       Some ob \<Rightarrow> (case object_children ob of
         Some cs \<Rightarrow> list_all2 (\<lambda>c kv. fst c = fst kv \<and> says h (snd c) (snd kv)) cs kvs
       | None \<Rightarrow> False)
     | None \<Rightarrow> False)
   | _ \<Rightarrow> False)"

subsection \<open>Facts about what a value says\<close>

lemma says_JArr:
  "says h v (JArr js) \<longleftrightarrow> (\<exists>a ob cs. v = JsRef a \<and> deref h a = Some ob \<and> array_children ob = Some cs
     \<and> list_all2 (says h) cs js)"
  by (auto split: js_value.splits option.splits)

lemma says_JObj:
  "says h v (JObj kvs) \<longleftrightarrow> (\<exists>a ob cs. v = JsRef a \<and> deref h a = Some ob \<and> object_children ob = Some cs
     \<and> list_all2 (\<lambda>c kv. fst c = fst kv \<and> says h (snd c) (snd kv)) cs kvs)"
  by (auto split: js_value.splits option.splits)

declare says.simps(5, 6) [simp del]

lemma array_childrenE:
  assumes "array_children ob = Some cs"
  obtains "js_length ob = Some (length cs)" "js_proto ob = ArrayPrototype" "length (js_props ob) = length cs"
    "\<And>i. i < length cs \<Longrightarrow> own_property ob (index_key i) = Some (DataProp (cs ! i) True)"
proof -
  obtain n where n: "js_length ob = Some n" and ok: "js_proto ob = ArrayPrototype" "length (js_props ob) = n"
      "\<forall>i<n. index_child ob i \<noteq> None" and cs: "cs = map (the \<circ> index_child ob) [0..<n]"
    using assms by (auto simp: array_children_def list_all_iff split: option.splits if_splits)
  have "own_property ob (index_key i) = Some (DataProp (cs ! i) True)" if "i < n" for i
    using ok(3) that by (fastforce simp: cs index_child_def split: option.splits js_prop.splits bool.splits)
  with n ok cs show thesis by (auto intro!: that)
qed

lemma array_childrenI:
  assumes "js_length ob = Some (length cs)" "js_proto ob = ArrayPrototype" "length (js_props ob) = length cs"
    and own: "\<And>i. i < length cs \<Longrightarrow> own_property ob (index_key i) = Some (DataProp (cs ! i) True)"
  shows "array_children ob = Some cs"
  using assms by (auto simp: array_children_def list_all_iff index_child_def intro!: nth_equalityI)

lemma member_child_iff: "member_child p = Some (k, c) \<longleftrightarrow> p = (StringKey k, DataProp c True)"
  by (cases p rule: member_child.cases) auto

lemma object_children_iff:
  "object_children ob = Some cs \<longleftrightarrow>
     js_length ob = None \<and> (js_proto ob = NoPrototype \<or> js_proto ob = ObjectPrototype)
     \<and> distinct (map fst cs) \<and> js_props ob = map (\<lambda>c. (StringKey (fst c), DataProp (snd c) True)) cs"
proof -
  have P: "list_all (\<lambda>p. member_child p \<noteq> None) ps \<and> cs = map (the \<circ> member_child) ps
      \<longleftrightarrow> ps = map (\<lambda>c. (StringKey (fst c), DataProp (snd c) True)) cs" for ps
  proof (induction ps arbitrary: cs)
    case (Cons p ps)
    show ?case
    proof (cases "member_child p")
      case None
      then show ?thesis by (cases cs) auto
    next
      case (Some kc)
      then have "p = (StringKey (fst kc), DataProp (snd kc) True)"
        using member_child_iff [of p "fst kc" "snd kc"] by simp
      with Cons.IH [of "tl cs"] Some show ?thesis by (cases cs) auto
    qed
  qed auto
  have D: "distinct (map fst (map (\<lambda>c. (StringKey (fst c), DataProp (snd c) True)) cs))
      \<longleftrightarrow> distinct (map fst cs)" for cs :: "(string \<times> js_value) list"
    by (simp add: distinct_map inj_on_def)
  have E: "object_children ob = Some cs \<longleftrightarrow>
      js_length ob = None \<and> (js_proto ob = NoPrototype \<or> js_proto ob = ObjectPrototype) \<and> distinct (map fst (js_props ob))
      \<and> (list_all (\<lambda>p. member_child p \<noteq> None) (js_props ob) \<and> cs = map (the \<circ> member_child) (js_props ob))"
    by (auto simp: object_children_def)
  show ?thesis unfolding E P using D [of cs] by (cases "js_props ob = map (\<lambda>c. (StringKey (fst c), DataProp (snd c) True)) cs") simp_all
qed

lemma size_item: "j \<in> set js \<Longrightarrow> size j < size (JArr js)"
  by (simp add: less_Suc_eq_le size_list_estimation')

lemma size_member: "kv \<in> set kvs \<Longrightarrow> size (snd kv) < size (JObj kvs)"
  by (induction kvs) (auto simp: less_Suc_eq_le)

lemma says_scalar:
  "says h JsNull j \<longleftrightarrow> j = JNull" "says h (JsBool b) j \<longleftrightarrow> j = JBool b"
  "says h (JsNum r) j \<longleftrightarrow> j = JNum r" "says h (JsStr s) j \<longleftrightarrow> j = JStr s"
  "\<not> says h JsUndefined j" "\<not> says h JsNonFinite j" "\<not> says h JsOpaque j"
  by (cases j; auto simp: says_JArr says_JObj)+

lemma says_unique: "says h v j \<Longrightarrow> says h v j' \<Longrightarrow> j = j'"
proof (induction j arbitrary: v j' rule: measure_induct_rule [where f = size])
  case (less j)
  show ?case
  proof (cases j)
    case (JArr js)
    with less.prems obtain a ob cs where v: "v = JsRef a" "deref h a = Some ob" "array_children ob = Some cs"
      and js: "list_all2 (says h) cs js" by (auto simp: says_JArr)
    have len: "object_children ob = None"
      using v(3) by (auto elim!: array_childrenE simp: object_children_def)
    with less.prems(2) v obtain js' where j': "j' = JArr js'" "list_all2 (says h) cs js'"
      by (cases j') (auto simp: says_JArr says_JObj)
    have "list_all2 (=) js js'"
    proof (rule list_all2_all_nthI)
      show "length js = length js'" using js j' by (simp add: list_all2_lengthD [symmetric])
      fix i assume i: "i < length js"
      then have "size (js ! i) < size j" unfolding JArr by (intro size_item nth_mem)
      moreover have "says h (cs ! i) (js ! i)" "says h (cs ! i) (js' ! i)"
        using i js j'(2) by (metis list_all2_conv_all_nth)+
      ultimately show "js ! i = js' ! i" by (rule less.IH)
    qed
    with JArr j' show ?thesis by (simp add: list.rel_eq)
  next
    case (JObj kvs)
    with less.prems obtain a ob cs where v: "v = JsRef a" "deref h a = Some ob" "object_children ob = Some cs"
      and kvs: "list_all2 (\<lambda>c kv. fst c = fst kv \<and> says h (snd c) (snd kv)) cs kvs" by (auto simp: says_JObj)
    have len: "array_children ob = None"
      using v(3) by (auto simp: object_children_iff array_children_def)
    with less.prems(2) v obtain kvs' where j': "j' = JObj kvs'"
        "list_all2 (\<lambda>c kv. fst c = fst kv \<and> says h (snd c) (snd kv)) cs kvs'"
      by (cases j') (auto simp: says_JArr says_JObj)
    have "list_all2 (=) kvs kvs'"
    proof (rule list_all2_all_nthI)
      show "length kvs = length kvs'" using kvs j' by (simp add: list_all2_lengthD [symmetric])
      fix i assume i: "i < length kvs"
      then have smaller: "size (snd (kvs ! i)) < size j" unfolding JObj by (intro size_member nth_mem)
      have "fst (cs ! i) = fst (kvs ! i) \<and> says h (snd (cs ! i)) (snd (kvs ! i))"
        using i kvs by (simp add: list_all2_conv_all_nth)
      moreover have "fst (cs ! i) = fst (kvs' ! i) \<and> says h (snd (cs ! i)) (snd (kvs' ! i))"
        using i kvs j'(2) by (simp add: list_all2_conv_all_nth)
      ultimately show "kvs ! i = kvs' ! i"
        using less.IH [OF smaller, of "snd (cs ! i)" "snd (kvs' ! i)"] by (simp add: prod_eq_iff)
    qed
    with JObj j' show ?thesis by (simp add: list.rel_eq)
  qed (use less.prems in \<open>simp_all add: says_scalar\<close>)
qed

subsection \<open>The text of a value is that of the JSON value it says\<close>

lemma insort_key_map: "insort_key f (g x) (map g xs) = map g (insort_key (\<lambda>x. f (g x)) x xs)"
  by (induction xs) simp_all

lemma sort_key_map: "sort_key f (map g xs) = map g (sort_key (\<lambda>x. f (g x)) xs)"
  by (induction xs) (simp_all add: insort_key_map)

lemma rfold_members:
  assumes "\<And>k t. (k, t) \<in> set kts \<Longrightarrow> \<exists>c e. own_property ob (StringKey k) = Some (DataProp c e) \<and> c \<noteq> JsUndefined \<and> enc c = Inr t"
  shows "rfold (encode_member enc ob) entries (map fst kts) = Inr (entries @ map (\<lambda>kt. json_quote (fst kt) @ '':'' @ snd kt) kts)"
  using assms
proof (induction kts arbitrary: entries)
  case (Cons kt kts)
  obtain c e where "own_property ob (StringKey (fst kt)) = Some (DataProp c e)" "c \<noteq> JsUndefined" "enc c = Inr (snd kt)"
    using Cons.prems [of "fst kt" "snd kt"] by auto
  then have "encode_member enc ob entries (fst kt) = Inr (entries @ [json_quote (fst kt) @ '':'' @ snd kt])"
    by (simp add: encode_member_def data_value_def)
  moreover have "rfold (encode_member enc ob) es (map fst kts) = Inr (es @ map (\<lambda>kt. json_quote (fst kt) @ '':'' @ snd kt) kts)" for es
    using Cons.IH Cons.prems by simp
  ultimately show ?case by simp
qed simp

lemma rmap_Inr_map: "(\<And>x. x \<in> set xs \<Longrightarrow> f x = Inr (g x)) \<Longrightarrow> rmap f xs = Inr (map g xs)"
  by (induction xs) simp_all

lemma encode_says:
  "says h v j \<Longrightarrow> (\<And>a. a \<in> set ancs \<Longrightarrow> \<exists>ja. says h (JsRef a) ja \<and> size j < size ja) \<Longrightarrow>
     encode h ancs v = Inr (canonicalise (json_text j))"
proof (induction j arbitrary: v ancs rule: measure_induct_rule [where f = size])
  case (less j)
  show ?case
  proof (cases j)
    case (JArr js)
    then obtain a ob cs where v: "v = JsRef a" "deref h a = Some ob" and cs: "array_children ob = Some cs"
      and js: "list_all2 (says h) cs js" using less.prems(1) by (auto simp: says_JArr)
    have fresh: "a \<notin> set ancs" using less.prems says_unique v(1) by blast
    have item: "encode h (a # ancs) (cs ! i) = Inr (canonicalise (json_text (js ! i)))" if "i < length js" for i
    proof (rule less.IH)
      show s: "size (js ! i) < size j" unfolding JArr using that by (intro size_item nth_mem)
      show "says h (cs ! i) (js ! i)" using js that by (simp add: list_all2_conv_all_nth)
      show "\<exists>ja. says h (JsRef b) ja \<and> size (js ! i) < size ja" if "b \<in> set (a # ancs)" for b
        using that less.prems s v(1) by (auto intro: less_trans)
    qed
    have "encode_array (encode h (a # ancs)) ob (length js) = Inr (canonicalise (json_text j))"
    proof -
      have "rmap (\<lambda>i. rbind (data_value (own_property ob (index_key i))) (encode h (a # ancs))) [0..<length js]
          = Inr (map (\<lambda>i. canonicalise (json_text (js ! i))) [0..<length js])"
        using cs js item by (intro rmap_Inr_map) (auto elim!: array_childrenE simp: data_value_def list_all2_lengthD)
      moreover have "map (\<lambda>i. canonicalise (json_text (js ! i))) [0..<length js] = map (\<lambda>x. canonicalise (json_text x)) js"
        by (intro nth_equalityI) simp_all
      ultimately show ?thesis using JArr by (simp add: encode_array_def canonicalise_def comp_def)
    qed
    with v cs js fresh show ?thesis
      by (auto simp: encode.simps deref_def list_all2_lengthD elim!: array_childrenE split: if_splits)
  next
    case (JObj kvs)
    then obtain a ob cs where v: "v = JsRef a" "deref h a = Some ob" and cs: "object_children ob = Some cs"
      and kvs: "list_all2 (\<lambda>c kv. fst c = fst kv \<and> says h (snd c) (snd kv)) cs kvs" using less.prems(1) by (auto simp: says_JObj)
    note ob = cs [unfolded object_children_iff]
    have fresh: "a \<notin> set ancs" using less.prems says_unique v(1) by blast
    have item: "encode h (a # ancs) (snd (cs ! i)) = Inr (canonicalise (json_text (snd (kvs ! i))))" if "i < length kvs" for i
    proof (rule less.IH)
      show s: "size (snd (kvs ! i)) < size j" unfolding JObj using that by (intro size_member nth_mem)
      show "says h (snd (cs ! i)) (snd (kvs ! i))" using kvs that by (simp add: list_all2_conv_all_nth)
      show "\<exists>ja. says h (JsRef b) ja \<and> size (snd (kvs ! i)) < size ja" if "b \<in> set (a # ancs)" for b
        using that less.prems s v(1) by (auto intro: less_trans)
    qed
    define kts where "kts = map (\<lambda>kv. (fst kv, canonicalise (json_text (snd kv)))) kvs"
    have keys: "enumerable_keys ob = map fst kts"
      using ob kvs by (auto simp: enumerable_keys_def kts_def comp_def list_all2_conv_all_nth intro!: nth_equalityI)
    have "rfold (encode_member (encode h (a # ancs)) ob) [] (map fst (sort_key (js_units \<circ> fst) kts))
        = Inr ([] @ map (\<lambda>kt. json_quote (fst kt) @ '':'' @ snd kt) (sort_key (js_units \<circ> fst) kts))"
    proof (rule rfold_members)
      fix k t assume "(k, t) \<in> set (sort_key (js_units \<circ> fst) kts)"
      then obtain i where i: "i < length kvs" "k = fst (kvs ! i)" "t = canonicalise (json_text (snd (kvs ! i)))"
        by (auto simp: kts_def in_set_conv_nth)
      have i': "i < length cs" "fst (cs ! i) = k" "says h (snd (cs ! i)) (snd (kvs ! i))"
        using i kvs by (auto simp: list_all2_conv_all_nth)
      have "own_property ob (StringKey k) = Some (DataProp (snd (cs ! i)) True)"
        unfolding own_property_def
      proof (rule map_of_is_SomeI)
        show "distinct (map fst (js_props ob))" using ob by (auto simp: distinct_map inj_on_def)
        show "(StringKey k, DataProp (snd (cs ! i)) True) \<in> set (js_props ob)"
          using ob i' by (auto intro!: image_eqI [of _ _ "cs ! i"])
      qed
      with item [OF i(1)] i' i(3) show "\<exists>c e. own_property ob (StringKey k) = Some (DataProp c e) \<and> c \<noteq> JsUndefined \<and>
          encode h (a # ancs) c = Inr t"
        by (intro exI [of _ "snd (cs ! i)"] exI [of _ True]) (auto simp: says_scalar)
    qed
    moreover have "canonicalise (json_text j)
        = CHR 0x7B # join '','' (map (\<lambda>kt. json_quote (fst kt) @ '':'' @ snd kt) (sort_key (js_units \<circ> fst) kts)) @ [CHR 0x7D]"
      by (simp add: JObj canonicalise_def kts_def sort_key_map comp_def)
    ultimately have "encode_object (encode h (a # ancs)) ob = Inr (canonicalise (json_text j))"
      using ob by (auto simp: encode_object_def keys sort_key_map list_ex_iff comp_def)
    with v ob fresh show ?thesis by (auto simp: encode.simps deref_def split: if_splits)
  qed (use less.prems in \<open>simp_all add: says_scalar encode.simps canonicalise_def\<close>)
qed

end
