(* ===== verification/Catalog_Json.thy ===== *)
theory Catalog_Json
  imports Js_Values "HOL-Library.Multiset"
begin

text \<open>
  The capture of untrusted JSON in the governed tool catalog
  (\<open>packages/keiko-tool-catalog/src/json.ts\<close>, \<open>errors.ts\<close> and the limits of
  \<open>keiko-contracts/src/governed-tool-catalog.ts\<close>). A value is copied into a detached JSON value while its
  bytes, its depth, its strings, arrays and objects are held to their bounds. The copy's objects have no
  prototype; a copy is a JSON value here, its members in own-key order.
\<close>

subsection \<open>Errors\<close>

datatype catalog_failure =
    InvalidShape
  | InputBound
  | InvalidIdentity
  | DuplicateIdentity
  | InvalidSchema
  | UnsupportedSchema
  | AmbiguousEffects
  | MissingBounds
  | UnsupportedDialect
  | UnrepresentableProjection
  | IncompatibleVersion
  | InvalidCompatibility
  | ExpiredCompatibility
  | ResultContractFailed

record schema_mismatch =
  sm_missing_required :: "string list"
  sm_invalid_paths :: "string list"
  sm_unexpected :: nat
  sm_dropped :: nat

datatype catalog_error = ToolCatalogError catalog_failure "schema_mismatch option"

definition require_catalog :: "bool \<Rightarrow> catalog_failure \<Rightarrow> catalog_error + unit" where
  "require_catalog c reason = (if c then Inr () else Inl (ToolCatalogError reason None))"

lemma require_Inr [simp]: "require_catalog c reason = Inr u \<longleftrightarrow> c"
  by (simp add: require_catalog_def)

lemma require_True [simp]: "require_catalog True reason = Inr ()"
  by (simp add: require_catalog_def)

subsection \<open>Limits\<close>

text \<open>\<open>limits\<close> is one of the two objects the contract issues, or one of the caller's own.\<close>

datatype argument_limits = GenericLimits | ChangesetEditLimits | CallerLimits nat nat

definition max_result_bytes :: nat where "max_result_bytes = 262144"
definition max_schema_depth :: nat where "max_schema_depth = 16"
definition max_object_keys :: nat where "max_object_keys = 128"
definition max_array_items :: nat where "max_array_items = 1000"
definition max_advertisement_bytes :: nat where "max_advertisement_bytes = 512 * 1024 + 16 * 1024"
definition changeset_patch_bytes :: nat where "changeset_patch_bytes = 8 * 1048576"

fun max_argument_bytes :: "argument_limits \<Rightarrow> nat" where
  "max_argument_bytes GenericLimits = 262144"
| "max_argument_bytes ChangesetEditLimits = 3 * changeset_patch_bytes + 1048576"
| "max_argument_bytes (CallerLimits b s) = b"

fun max_string_bytes :: "argument_limits \<Rightarrow> nat" where
  "max_string_bytes GenericLimits = 65536"
| "max_string_bytes ChangesetEditLimits = changeset_patch_bytes"
| "max_string_bytes (CallerLimits b s) = s"

definition is_safe_number :: "rat \<Rightarrow> bool" where
  "is_safe_number r \<longleftrightarrow> of_int \<lfloor>r\<rfloor> = r \<and> \<bar>r\<bar> \<le> 9007199254740991"

subsection \<open>Copying\<close>

text \<open>The bytes spent so far are passed along; \<open>ancestors\<close> is passed down.\<close>

record copy_budget =
  cb_bytes :: nat
  cb_depth :: nat
  cb_string :: nat

definition charge_bytes :: "copy_budget \<Rightarrow> nat \<Rightarrow> string \<Rightarrow> catalog_error + nat" where
  "charge_bytes B bytes t =
     rbind (require_catalog (bytes + length t \<le> cb_bytes B) InputBound) (\<lambda>u. Inr (bytes + length t))"

definition catalog_scalar :: "copy_budget \<Rightarrow> js_value \<Rightarrow> nat \<Rightarrow> catalog_error + jvalue \<times> nat" where
  "catalog_scalar B v bytes =
     rbind (case v of
         JsNull \<Rightarrow> Inr JNull
       | JsBool b \<Rightarrow> Inr (JBool b)
       | JsNum r \<Rightarrow> Inr (JNum r)
       | JsStr s \<Rightarrow> rbind (require_catalog (length s \<le> cb_string B) InputBound) (\<lambda>u. Inr (JStr s))
       | _ \<Rightarrow> Inl (ToolCatalogError InvalidShape None))
       (\<lambda>j. rbind (charge_bytes B bytes (stringify_value j)) (\<lambda>n. Inr (j, n)))"

definition is_unsafe_key :: "string \<Rightarrow> bool" where
  "is_unsafe_key k \<longleftrightarrow> k = ''__proto__'' \<or> k = ''prototype'' \<or> k = ''constructor''"

fun data_entry :: "js_key \<times> js_prop \<Rightarrow> catalog_error + string \<times> js_value" where
  "data_entry (StringKey k, DataProp c e) =
     rbind (require_catalog e InvalidShape) (\<lambda>u.
     rbind (require_catalog (\<not> is_unsafe_key k) InvalidShape) (\<lambda>u. Inr (k, c)))"
| "data_entry p = Inl (ToolCatalogError InvalidShape None)"

definition data_entries :: "js_object \<Rightarrow> catalog_error + (string \<times> js_value) list" where
  "data_entries ob =
     rbind (require_catalog (list_all (\<lambda>p. \<not> is_symbol (fst p)) (js_props ob)) InvalidShape) (\<lambda>u.
     rbind (rmap data_entry (js_props ob)) (\<lambda>es. Inr (sort_key (js_units \<circ> fst) es)))"

type_synonym copier = "js_value \<Rightarrow> nat \<Rightarrow> catalog_error + jvalue \<times> nat"

fun copy_items :: "copier \<Rightarrow> copy_budget \<Rightarrow> js_object \<Rightarrow> nat list \<Rightarrow> nat \<Rightarrow> catalog_error + jvalue list \<times> nat" where
  "copy_items copy B ob [] bytes = Inr ([], bytes)"
| "copy_items copy B ob (i # is) bytes = (case own_property ob (index_key i) of
     Some (DataProp c True) \<Rightarrow>
       rbind (if i > 0 then charge_bytes B bytes '','' else Inr bytes) (\<lambda>b1.
       rbind (copy c b1) (\<lambda>(j, b2).
       rbind (copy_items copy B ob is b2) (\<lambda>(js, b3). Inr (j # js, b3))))
   | _ \<Rightarrow> Inl (ToolCatalogError InvalidShape None))"

definition copy_array :: "copier \<Rightarrow> copy_budget \<Rightarrow> js_object \<Rightarrow> nat \<Rightarrow> nat \<Rightarrow> catalog_error + jvalue \<times> nat" where
  "copy_array copy B ob n bytes =
     rbind (require_catalog (js_proto ob = ArrayPrototype) InvalidShape) (\<lambda>u.
     rbind (require_catalog (n \<le> max_array_items) InputBound) (\<lambda>u.
     rbind (require_catalog (length (js_props ob) + 1 = n + 1) InvalidShape) (\<lambda>u.
     rbind (charge_bytes B bytes ''[]'') (\<lambda>b1.
     rbind (copy_items copy B ob [0..<n] b1) (\<lambda>(js, b2). Inr (JArr js, b2))))))"

fun copy_entries ::
  "copier \<Rightarrow> copy_budget \<Rightarrow> nat \<Rightarrow> (string \<times> js_value) list \<Rightarrow> jvalue obj \<Rightarrow> nat \<Rightarrow> catalog_error + jvalue obj \<times> nat" where
  "copy_entries copy B n [] ob bytes = Inr (ob, bytes)"
| "copy_entries copy B n ((k, c) # es) ob bytes =
     rbind (charge_bytes B bytes ((if n = 0 then [] else '','') @ json_quote k @ '':'')) (\<lambda>b1.
     rbind (copy c b1) (\<lambda>(j, b2). copy_entries copy B (n + 1) es (obj_put k j ob) b2))"

definition copy_object :: "copier \<Rightarrow> copy_budget \<Rightarrow> js_object \<Rightarrow> nat \<Rightarrow> catalog_error + jvalue \<times> nat" where
  "copy_object copy B ob bytes =
     rbind (require_catalog (js_proto ob = NoPrototype \<or> js_proto ob = ObjectPrototype) InvalidShape) (\<lambda>u.
     rbind (require_catalog (length (js_props ob) \<le> max_object_keys) InputBound) (\<lambda>u.
     rbind (charge_bytes B bytes [CHR 0x7B, CHR 0x7D]) (\<lambda>b1.
     rbind (data_entries ob) (\<lambda>es.
     rbind (copy_entries copy B 0 es [] b1) (\<lambda>(kvs, b2). Inr (JObj kvs, b2))))))"

function copy_value :: "js_heap \<Rightarrow> copy_budget \<Rightarrow> nat list \<Rightarrow> nat \<Rightarrow> copier" where
  "copy_value h B ancs depth v bytes =
     (if \<not> depth \<le> cb_depth B then Inl (ToolCatalogError InputBound None)
      else case v of
        JsRef a \<Rightarrow> (case deref h a of
          None \<Rightarrow> Inl (ToolCatalogError InvalidShape None)
        | Some ob \<Rightarrow>
            if a \<in> set ancs then Inl (ToolCatalogError InvalidShape None)
            else (case js_length ob of
              Some n \<Rightarrow> copy_array (\<lambda>c b. copy_value h B (a # ancs) (depth + 1) c b) B ob n bytes
            | None \<Rightarrow> copy_object (\<lambda>c b. copy_value h B (a # ancs) (depth + 1) c b) B ob bytes))
      | _ \<Rightarrow> catalog_scalar B v bytes)"
  by pat_completeness auto
termination
  by (relation "measure (\<lambda>(h, B, ancs, depth, v, bytes). cb_depth B + 1 - depth)") auto

declare copy_value.simps [simp del]

definition copy_within_bounds ::
  "js_heap \<Rightarrow> js_value \<Rightarrow> rat option \<Rightarrow> nat \<Rightarrow> argument_limits \<Rightarrow> catalog_error + jvalue" where
  "copy_within_bounds h v requested depth limits =
     rbind (require_catalog (limits = GenericLimits \<or> limits = ChangesetEditLimits) InputBound) (\<lambda>u.
       let max_bytes = (case requested of Some r \<Rightarrow> r | None \<Rightarrow> of_nat (max_argument_bytes limits));
           ceiling = (if limits = GenericLimits then max max_result_bytes max_advertisement_bytes
                      else max_argument_bytes limits)
       in rbind (require_catalog (is_safe_number max_bytes \<and> 0 < max_bytes \<and> max_bytes \<le> of_nat ceiling) InputBound) (\<lambda>u.
          rbind (copy_value h \<lparr> cb_bytes = nat \<lfloor>max_bytes\<rfloor>, cb_depth = depth, cb_string = max_string_bytes limits \<rparr> [] 1 v 0)
            (\<lambda>(j, n). Inr j)))"

definition copy_catalog_json :: "js_heap \<Rightarrow> js_value \<Rightarrow> rat option \<Rightarrow> argument_limits \<Rightarrow> catalog_error + jvalue" where
  "copy_catalog_json h v requested limits = copy_within_bounds h v requested max_schema_depth limits"

definition copy_catalog_envelope :: "js_heap \<Rightarrow> js_value \<Rightarrow> catalog_error + jvalue" where
  "copy_catalog_envelope h v =
     copy_within_bounds h v (Some (of_nat (max_argument_bytes GenericLimits))) (max_schema_depth + 6) GenericLimits"

definition catalog_bytes :: "jvalue \<Rightarrow> nat" where
  "catalog_bytes j = length (stringify_value j)"

subsection \<open>Reading a captured value\<close>

text \<open>\<open>None\<close> is \<open>undefined\<close>.\<close>

definition catalog_object :: "jvalue option \<Rightarrow> catalog_error + jvalue obj" where
  "catalog_object v = (case v of Some (JObj kvs) \<Rightarrow> Inr kvs | _ \<Rightarrow> Inl (ToolCatalogError InvalidShape None))"

definition exact_catalog_keys :: "jvalue obj \<Rightarrow> string list \<Rightarrow> catalog_error + unit" where
  "exact_catalog_keys ob keys =
     require_catalog (length (obj_keys ob) = length keys \<and> list_all (\<lambda>k. k \<in> set (obj_keys ob)) keys) InvalidShape"

definition catalog_string :: "jvalue option \<Rightarrow> catalog_error + string" where
  "catalog_string v = (case v of
     Some (JStr s) \<Rightarrow> rbind (require_catalog (s \<noteq> []) InvalidShape) (\<lambda>u. Inr s)
   | _ \<Rightarrow> Inl (ToolCatalogError InvalidShape None))"

definition catalog_positive :: "jvalue option \<Rightarrow> nat \<Rightarrow> catalog_error + nat" where
  "catalog_positive v maximum = (case v of
     Some (JNum r) \<Rightarrow>
       rbind (require_catalog (is_safe_number r \<and> r > 0 \<and> r \<le> of_nat maximum) InvalidShape) (\<lambda>u. Inr (nat \<lfloor>r\<rfloor>))
   | _ \<Rightarrow> Inl (ToolCatalogError InvalidShape None))"

definition catalog_array :: "jvalue option \<Rightarrow> catalog_error + jvalue list" where
  "catalog_array v = (case v of Some (JArr js) \<Rightarrow> Inr js | _ \<Rightarrow> Inl (ToolCatalogError InvalidShape None))"

section \<open>What the capture accepts\<close>

text \<open>
  What the capture accepts and returns: exactly the plain data within the bounds, and the bytes charged
  are those of the copy's JSON text.
\<close>

subsection \<open>The specification\<close>

text \<open>The members of a copy are created in key order; own-key order then puts index keys first.\<close>

definition put_members :: "jvalue obj \<Rightarrow> jvalue obj \<Rightarrow> jvalue obj" where
  "put_members kvs ob = fold (\<lambda>kv ob. obj_put (fst kv) (snd kv) ob) kvs ob"

fun ordered_json :: "jvalue \<Rightarrow> jvalue" where
  "ordered_json (JArr js) = JArr (map ordered_json js)"
| "ordered_json (JObj kvs) =
     JObj (put_members (sort_key (js_units \<circ> fst) (map (\<lambda>kv. (fst kv, ordered_json (snd kv))) kvs)) [])"
| "ordered_json JNull = JNull"
| "ordered_json (JBool b) = JBool b"
| "ordered_json (JNum r) = JNum r"
| "ordered_json (JStr s) = JStr s"

text \<open>The bounds on shape: strings of at most \<open>ms\<close> bytes, at most \<open>d\<close> levels.\<close>

fun json_fits :: "nat \<Rightarrow> nat \<Rightarrow> jvalue \<Rightarrow> bool" where
  "json_fits ms d (JArr js) \<longleftrightarrow> 0 < d \<and> length js \<le> max_array_items \<and> list_all (\<lambda>j. json_fits ms (d - 1) j) js"
| "json_fits ms d (JObj kvs) \<longleftrightarrow> 0 < d \<and> length kvs \<le> max_object_keys \<and>
     list_all (\<lambda>kv. \<not> is_unsafe_key (fst kv) \<and> json_fits ms (d - 1) (snd kv)) kvs"
| "json_fits ms d (JStr s) \<longleftrightarrow> 0 < d \<and> length s \<le> ms"
| "json_fits ms d j \<longleftrightarrow> 0 < d"

subsection \<open>Sizes of texts\<close>

definition entry_bytes :: "string \<times> jvalue \<Rightarrow> nat" where
  "entry_bytes kv = length (json_quote (fst kv)) + 1 + catalog_bytes (snd kv)"

lemma catalog_bytes_JArr: "catalog_bytes (JArr js) = 2 + sum_list (map catalog_bytes js) + (length js - 1)"
  by (simp add: catalog_bytes_def [abs_def] stringify_value_def length_join comp_def)

lemma catalog_bytes_JObj: "catalog_bytes (JObj kvs) = 2 + sum_list (map entry_bytes kvs) + (length kvs - 1)"
  by (simp add: catalog_bytes_def [abs_def] entry_bytes_def [abs_def] stringify_value_def length_join comp_def)

lemma mset_insert_index: "mset (obj_insert_index k v ob) = add_mset (k, v) (mset ob)"
  by (induction ob) auto

lemma mset_obj_put: "k \<notin> set (obj_keys ob) \<Longrightarrow> mset (obj_put k v ob) = add_mset (k, v) (mset ob)"
  by (simp add: obj_put_def mset_insert_index)

lemma mset_put_members:
  "distinct (map fst kvs @ obj_keys ob) \<Longrightarrow> mset (put_members kvs ob) = mset kvs + mset ob"
proof (induction kvs arbitrary: ob)
  case (Cons kv kvs)
  then have "mset (put_members kvs (obj_put (fst kv) (snd kv) ob)) = mset kvs + mset (obj_put (fst kv) (snd kv) ob)"
    by (intro Cons.IH) (auto simp: distinct_keys_put)
  with Cons.prems show ?case by (simp add: put_members_def mset_obj_put)
qed (simp add: put_members_def)

lemma bytes_put_members:
  assumes "distinct (map fst kvs)"
  shows "catalog_bytes (JObj (put_members kvs [])) = 2 + sum_list (map entry_bytes kvs) + (length kvs - 1)"
proof -
  have m: "mset (put_members kvs []) = mset kvs"
    using mset_put_members [of kvs "[]"] assms by (simp add: obj_keys_def)
  then have "sum_list (map entry_bytes (put_members kvs [])) = sum_list (map entry_bytes kvs)"
    by (metis mset_map sum_mset_sum_list)
  moreover have "length (put_members kvs []) = length kvs" using m by (metis size_mset)
  ultimately show ?thesis by (simp add: catalog_bytes_JObj)
qed

lemma charge_Inr [simp]: "charge_bytes B b t = Inr b' \<longleftrightarrow> b' = b + length t \<and> b' \<le> cb_bytes B"
  by (auto simp: charge_bytes_def)

subsection \<open>The loops over items and members\<close>

lemma copy_items_sound:
  assumes copy: "\<And>c b j b'. copy c b = Inr (j, b') \<Longrightarrow> good c \<and> j = f c \<and> b' = b + catalog_bytes (f c) \<and> b' \<le> cb_bytes B"
  shows "copy_items copy B ob is b = Inr (js, b') \<Longrightarrow>
    \<exists>cs. list_all2 (\<lambda>i c. own_property ob (index_key i) = Some (DataProp c True) \<and> good c) is cs \<and> js = map f cs \<and>
      b' = b + sum_list (map catalog_bytes js) + length (filter ((<) 0) is) \<and> (b \<le> cb_bytes B \<longrightarrow> b' \<le> cb_bytes B)"
proof (induction "is" arbitrary: b js b')
  case (Cons i "is")
  from Cons.prems obtain c where own: "own_property ob (index_key i) = Some (DataProp c True)"
    by (auto split: option.splits js_prop.splits bool.splits)
  with Cons.prems obtain b1 j b2 js' where b1: "(if i > 0 then charge_bytes B b '','' else Inr b) = Inr b1"
    and j: "copy c b1 = Inr (j, b2)" and js': "copy_items copy B ob is b2 = Inr (js', b')" "js = j # js'"
    by (auto split: prod.splits)
  from Cons.IH [OF js'(1)] obtain cs where
    "list_all2 (\<lambda>i c. own_property ob (index_key i) = Some (DataProp c True) \<and> good c) is cs" "js' = map f cs"
    "b' = b2 + sum_list (map catalog_bytes js') + length (filter ((<) 0) is)" "b2 \<le> cb_bytes B \<longrightarrow> b' \<le> cb_bytes B"
    by auto
  with copy [OF j] own b1 js'(2) show ?case by (intro exI [of _ "c # cs"]) (auto split: if_splits)
qed simp

lemma copy_items_complete:
  assumes copy: "\<And>c b. good c \<Longrightarrow> b + catalog_bytes (f c) \<le> cb_bytes B \<Longrightarrow> copy c b = Inr (f c, b + catalog_bytes (f c))"
  shows "list_all2 (\<lambda>i c. own_property ob (index_key i) = Some (DataProp c True) \<and> good c) is cs \<Longrightarrow>
    b + sum_list (map (catalog_bytes \<circ> f) cs) + length (filter ((<) 0) is) \<le> cb_bytes B \<Longrightarrow>
    copy_items copy B ob is b = Inr (map f cs, b + sum_list (map (catalog_bytes \<circ> f) cs) + length (filter ((<) 0) is))"
proof (induction "is" cs arbitrary: b rule: list_all2_induct)
  case (Cons i "is" c cs)
  define b1 where "b1 = (if i > 0 then b + 1 else b)"
  have "(if i > 0 then charge_bytes B b '','' else Inr b) = Inr b1" using Cons.prems by (auto simp: b1_def)
  moreover have "copy c b1 = Inr (f c, b1 + catalog_bytes (f c))"
    using Cons by (intro copy) (auto simp: b1_def split: if_splits)
  moreover have "copy_items copy B ob is (b1 + catalog_bytes (f c)) = Inr (map f cs,
      b1 + catalog_bytes (f c) + sum_list (map (catalog_bytes \<circ> f) cs) + length (filter ((<) 0) is))"
    using Cons.prems by (intro Cons.IH) (auto simp: b1_def split: if_splits)
  ultimately show ?case using Cons.hyps by (simp add: b1_def comp_def)
qed simp

lemma copy_entries_sound:
  assumes copy: "\<And>c b j b'. copy c b = Inr (j, b') \<Longrightarrow> good c \<and> j = f c \<and> b' = b + catalog_bytes (f c) \<and> b' \<le> cb_bytes B"
  shows "copy_entries copy B n es ob b = Inr (kvs, b') \<Longrightarrow>
    list_all (\<lambda>e. good (snd e)) es \<and> kvs = put_members (map (\<lambda>e. (fst e, f (snd e))) es) ob \<and>
      b' = b + sum_list (map (\<lambda>e. entry_bytes (fst e, f (snd e))) es) + (length es - (if n = 0 then 1 else 0)) \<and>
      (b \<le> cb_bytes B \<longrightarrow> b' \<le> cb_bytes B)"
proof (induction es arbitrary: n ob b)
  case (Cons e es)
  from Cons.prems obtain b1 j b2 where b1: "charge_bytes B b ((if n = 0 then [] else '','') @ json_quote (fst e) @ '':'') = Inr b1"
    and j: "copy (snd e) b1 = Inr (j, b2)" and rest: "copy_entries copy B (n + 1) es (obj_put (fst e) j ob) b2 = Inr (kvs, b')"
    by (cases e) auto
  from Cons.IH [OF rest] copy [OF j] b1 show ?case by (auto simp: put_members_def entry_bytes_def)
qed (simp add: put_members_def)

lemma copy_entries_complete:
  assumes copy: "\<And>c b. good c \<Longrightarrow> b + catalog_bytes (f c) \<le> cb_bytes B \<Longrightarrow> copy c b = Inr (f c, b + catalog_bytes (f c))"
  shows "list_all (\<lambda>e. good (snd e)) es \<Longrightarrow>
    b + sum_list (map (\<lambda>e. entry_bytes (fst e, f (snd e))) es) + (length es - (if n = 0 then 1 else 0)) \<le> cb_bytes B \<Longrightarrow>
    copy_entries copy B n es ob b = Inr (put_members (map (\<lambda>e. (fst e, f (snd e))) es) ob,
      b + sum_list (map (\<lambda>e. entry_bytes (fst e, f (snd e))) es) + (length es - (if n = 0 then 1 else 0)))"
proof (induction es arbitrary: n ob b)
  case (Cons e es)
  define b1 where "b1 = b + length ((if n = 0 then [] else '','') @ json_quote (fst e) @ '':'')"
  have le: "b1 + catalog_bytes (f (snd e)) + sum_list (map (\<lambda>e. entry_bytes (fst e, f (snd e))) es) + length es \<le> cb_bytes B"
    using Cons.prems(2) by (auto simp: b1_def entry_bytes_def split: if_splits)
  then have "charge_bytes B b ((if n = 0 then [] else '','') @ json_quote (fst e) @ '':'') = Inr b1"
    by (simp add: b1_def)
  moreover have "copy (snd e) b1 = Inr (f (snd e), b1 + catalog_bytes (f (snd e)))"
    using Cons.prems(1) le by (intro copy) auto
  moreover have "copy_entries copy B (n + 1) es (obj_put (fst e) (f (snd e)) ob) (b1 + catalog_bytes (f (snd e))) =
      Inr (put_members (map (\<lambda>e. (fst e, f (snd e))) es) (obj_put (fst e) (f (snd e)) ob),
        b1 + catalog_bytes (f (snd e)) + sum_list (map (\<lambda>e. entry_bytes (fst e, f (snd e))) es) + length es)"
    using Cons.IH [of "b1 + catalog_bytes (f (snd e))" "n + 1"] Cons.prems(1) le by simp
  ultimately show ?case by (cases e) (simp add: put_members_def b1_def entry_bytes_def)
qed (simp add: put_members_def)

subsection \<open>The copy of a value is the JSON value it says\<close>

definition said :: "js_heap \<Rightarrow> js_value \<Rightarrow> jvalue" where
  "said h c = (THE j. says h c j)"

lemma said_eq: "says h c j \<Longrightarrow> said h c = j"
  unfolding said_def by (rule the_equality) (auto dest: says_unique)

definition plain_within :: "js_heap \<Rightarrow> nat \<Rightarrow> nat \<Rightarrow> js_value \<Rightarrow> bool" where
  "plain_within h ms d c \<longleftrightarrow> says h c (said h c) \<and> json_fits ms d (said h c)"

lemma plain_withinI: "says h c j \<Longrightarrow> json_fits ms d j \<Longrightarrow> plain_within h ms d c"
  by (simp add: plain_within_def said_eq)

lemma data_entries_Inr:
  "data_entries ob = Inr es \<longleftrightarrow>
     (\<exists>cs. js_props ob = map (\<lambda>c. (StringKey (fst c), DataProp (snd c) True)) cs \<and>
        list_all (\<lambda>c. \<not> is_unsafe_key (fst c)) cs \<and> es = sort_key (js_units \<circ> fst) cs)"
proof -
  have entry: "data_entry p = Inr c \<longleftrightarrow> p = (StringKey (fst c), DataProp (snd c) True) \<and> \<not> is_unsafe_key (fst c)" for p c
    by (cases p rule: data_entry.cases) auto
  have "rmap data_entry ps = Inr cs \<longleftrightarrow> ps = map (\<lambda>c. (StringKey (fst c), DataProp (snd c) True)) cs \<and>
      list_all (\<lambda>c. \<not> is_unsafe_key (fst c)) cs" for ps cs
  proof (induction ps arbitrary: cs)
    case (Cons p ps)
    then show ?case using entry by (cases cs) auto
  qed auto
  then show ?thesis by (auto simp: data_entries_def list_all_iff)
qed

lemma says_array:
  "deref h a = Some ob \<Longrightarrow> array_children ob = Some cs \<Longrightarrow> list_all (\<lambda>c. says h c (said h c)) cs \<Longrightarrow>
     says h (JsRef a) (JArr (map (said h) cs))"
  by (auto simp: says_JArr list_all2_conv_all_nth list_all_length)

lemma says_object:
  "deref h a = Some ob \<Longrightarrow> object_children ob = Some cs \<Longrightarrow> list_all (\<lambda>c. says h (snd c) (said h (snd c))) cs \<Longrightarrow>
     says h (JsRef a) (JObj (map (\<lambda>c. (fst c, said h (snd c))) cs))"
  by (auto simp: says_JObj list_all2_conv_all_nth list_all_length)

lemma ordered_object:
  "ordered_json (JObj (map (\<lambda>c. (fst c, said h (snd c))) cs)) =
     JObj (put_members (map (\<lambda>c. (fst c, ordered_json (said h (snd c)))) (sort_key (js_units \<circ> fst) cs)) [])"
  by (simp add: sort_key_map comp_def)

lemma ordered_object_bytes:
  assumes "distinct (map fst cs)"
  shows "catalog_bytes (JObj (put_members (map (\<lambda>c. (fst c, ordered_json (said h (snd c)))) (sort_key (js_units \<circ> fst) cs)) [])) =
     2 + sum_list (map (\<lambda>c. entry_bytes (fst c, ordered_json (said h (snd c)))) (sort_key (js_units \<circ> fst) cs)) + (length cs - 1)"
proof -
  have "distinct (map fst (map (\<lambda>c. (fst c, ordered_json (said h (snd c)))) (sort_key (js_units \<circ> fst) cs)))"
    using assms by (simp add: comp_def distinct_map inj_on_def)
  from bytes_put_members [OF this] show ?thesis by (simp add: comp_def)
qed

lemma positive_indices: "length (filter ((<) 0) [0..<n]) = n - 1"
  by (cases n) (simp_all add: upt_conv_Cons del: upt_Suc)

lemma copy_value_sound:
  assumes "heap_ok h"
  shows "cb_depth B + 1 - d = n \<Longrightarrow> copy_value h B ancs d c b = Inr (j, b') \<Longrightarrow>
    plain_within h (cb_string B) n c \<and> j = ordered_json (said h c) \<and>
      b' = b + catalog_bytes (ordered_json (said h c)) \<and> b' \<le> cb_bytes B"
proof (induction n arbitrary: ancs d c b j b')
  case (Suc n)
  note step = Suc.prems(2) [unfolded copy_value.simps [of h B ancs d c b]]
  have copy: "plain_within h (cb_string B) n c' \<and> j' = ordered_json (said h c') \<and>
      b2 = b1 + catalog_bytes (ordered_json (said h c')) \<and> b2 \<le> cb_bytes B"
    if "copy_value h B as (d + 1) c' b1 = Inr (j', b2)" for as c' b1 j' b2
  proof -
    have "cb_depth B + 1 - (d + 1) = n" using Suc.prems(1) by linarith
    from Suc.IH [OF this that] show ?thesis .
  qed
  show ?case
  proof (cases c)
    case (JsRef a)
    with step obtain ob where ob: "deref h a = Some ob" by (auto split: option.splits if_splits)
    let ?copy = "\<lambda>c b. copy_value h B (a # ancs) (d + 1) c b"
    note sub = copy [of "a # ancs"]
    show ?thesis
    proof (cases "js_length ob")
      case (Some m)
      with step ob JsRef have "copy_array ?copy B ob m b = Inr (j, b')" by (auto split: if_splits)
      then obtain js where ok: "js_proto ob = ArrayPrototype" "m \<le> max_array_items" "length (js_props ob) = m"
        and js: "copy_items ?copy B ob [0..<m] (b + 2) = Inr (js, b')" "j = JArr js"
        by (auto simp: copy_array_def)
      from copy_items_sound [where copy = ?copy and B = B and good = "plain_within h (cb_string B) n"
          and f = "\<lambda>c. ordered_json (said h c)", OF sub js(1)] obtain cs where
        cs: "list_all2 (\<lambda>i c. own_property ob (index_key i) = Some (DataProp c True) \<and> plain_within h (cb_string B) n c) [0..<m] cs"
        and j: "js = map (\<lambda>c. ordered_json (said h c)) cs"
        and b': "b' = b + 2 + sum_list (map catalog_bytes js) + (m - 1)" "b + 2 \<le> cb_bytes B \<longrightarrow> b' \<le> cb_bytes B"
        by (auto simp: positive_indices)
      have len: "length cs = m" using cs by (simp add: list_all2_conv_all_nth)
      have "array_children ob = Some cs"
        using cs len ok Some by (intro array_childrenI) (auto simp: list_all2_conv_all_nth)
      moreover have all: "list_all (plain_within h (cb_string B) n) cs"
        using cs by (auto simp: list_all2_conv_all_nth list_all_length)
      ultimately have "says h (JsRef a) (JArr (map (said h) cs))"
        using ob by (intro says_array) (auto simp: plain_within_def list_all_iff)
      moreover have "b + 2 \<le> cb_bytes B"
        using \<open>copy_array ?copy B ob m b = Inr (j, b')\<close> by (auto simp: copy_array_def)
      ultimately show ?thesis using all ok(2) len b' j js(2) JsRef
        by (auto simp: said_eq plain_within_def list_all_iff catalog_bytes_JArr comp_def)
    next
      case None
      with step ob JsRef have "copy_object ?copy B ob b = Inr (j, b')" by (auto split: if_splits)
      then obtain es kvs where ok: "js_proto ob = NoPrototype \<or> js_proto ob = ObjectPrototype"
          "length (js_props ob) \<le> max_object_keys" "b + 2 \<le> cb_bytes B"
        and es: "data_entries ob = Inr es" "copy_entries ?copy B 0 es [] (b + 2) = Inr (kvs, b')" "j = JObj kvs"
        by (auto simp: copy_object_def)
      from es(1) obtain cs where cs: "js_props ob = map (\<lambda>c. (StringKey (fst c), DataProp (snd c) True)) cs"
        "list_all (\<lambda>c. \<not> is_unsafe_key (fst c)) cs" "es = sort_key (js_units \<circ> fst) cs"
        by (auto simp: data_entries_Inr)
      have "distinct (map fst (js_props ob))"
        using assms ob by (auto simp: heap_ok_def deref_def list_all_length split: if_splits)
      then have dist: "distinct (map fst cs)" by (auto simp: cs(1) distinct_map inj_on_def)
      have kvs: "list_all (\<lambda>e. plain_within h (cb_string B) n (snd e)) es"
          "kvs = put_members (map (\<lambda>e. (fst e, ordered_json (said h (snd e)))) es) []"
          "b' = b + 2 + sum_list (map (\<lambda>e. entry_bytes (fst e, ordered_json (said h (snd e)))) es) + (length es - 1)"
          "b' \<le> cb_bytes B"
        using copy_entries_sound [where copy = ?copy and B = B and good = "plain_within h (cb_string B) n"
              and f = "\<lambda>c. ordered_json (said h c)", OF sub es(2)] ok(3) by auto
      from kvs(1) have all: "list_all (\<lambda>e. plain_within h (cb_string B) n (snd e)) cs" by (simp add: cs(3) list_all_iff)
      have "says h (JsRef a) (JObj (map (\<lambda>c. (fst c, said h (snd c))) cs))"
        using ob ok None dist cs(1) all by (intro says_object) (auto simp: object_children_iff plain_within_def list_all_iff)
      then show ?thesis using all cs ok(2) dist kvs es(3) JsRef
        by (auto simp: said_eq plain_within_def list_all_iff ordered_object ordered_object_bytes simp del: ordered_json.simps)
    qed
  qed (use step in \<open>auto simp: catalog_scalar_def catalog_bytes_def plain_within_def said_eq says_scalar split: if_splits\<close>)
qed (simp add: copy_value.simps split: if_splits)

lemma json_fits_pos: "json_fits ms d j \<Longrightarrow> 0 < d"
  by (cases j) auto

lemma copy_value_complete:
  "says h c j \<Longrightarrow> json_fits (cb_string B) (cb_depth B + 1 - d) j \<Longrightarrow>
     (\<And>a. a \<in> set ancs \<Longrightarrow> \<exists>ja. says h (JsRef a) ja \<and> size j < size ja) \<Longrightarrow>
     b + catalog_bytes (ordered_json j) \<le> cb_bytes B \<Longrightarrow>
     copy_value h B ancs d c b = Inr (ordered_json j, b + catalog_bytes (ordered_json j))"
proof (induction j arbitrary: ancs d c b rule: measure_induct_rule [where f = size])
  case (less j)
  have depth: "d \<le> cb_depth B" using json_fits_pos [OF less.prems(2)] by simp
  let ?good = "\<lambda>c'. \<exists>j'. says h c' j' \<and> size j' < size j \<and> json_fits (cb_string B) (cb_depth B + 1 - (d + 1)) j'"
  let ?f = "\<lambda>c. ordered_json (said h c)"
  have sub: "copy_value h B (a # ancs) (d + 1) c' b1 = Inr (?f c', b1 + catalog_bytes (?f c'))"
    if "c = JsRef a" and good: "?good c'" and le: "b1 + catalog_bytes (?f c') \<le> cb_bytes B" for a c' b1
  proof -
    from good obtain j' where j': "says h c' j'" "size j' < size j" "json_fits (cb_string B) (cb_depth B + 1 - (d + 1)) j'"
      by blast
    have "copy_value h B (a # ancs) (d + 1) c' b1 = Inr (ordered_json j', b1 + catalog_bytes (ordered_json j'))"
    proof (rule less.IH [OF j'(2,1,3)])
      show "\<exists>ja. says h (JsRef x) ja \<and> size j' < size ja" if "x \<in> set (a # ancs)" for x
        using that less.prems(1,3) j'(2) \<open>c = JsRef a\<close> by (auto intro: less_trans)
      show "b1 + catalog_bytes (ordered_json j') \<le> cb_bytes B" using le j'(1) by (simp add: said_eq)
    qed
    with j'(1) show ?thesis by (simp add: said_eq)
  qed
  show ?case
  proof (cases j)
    case (JArr js)
    then obtain a ob cs where v: "c = JsRef a" "deref h a = Some ob" and cs: "array_children ob = Some cs"
      and js: "list_all2 (says h) cs js" using less.prems(1) by (auto simp: says_JArr)
    have fresh: "a \<notin> set ancs" using less.prems(1,3) says_unique v(1) by blast
    have len: "length js = length cs" using js by (simp add: list_all2_lengthD)
    have js_eq: "map ordered_json js = map ?f cs"
      using js by (auto simp: list_all2_conv_all_nth said_eq intro!: nth_equalityI)
    have good: "list_all2 (\<lambda>i c. own_property ob (index_key i) = Some (DataProp c True) \<and> ?good c) [0..<length cs] cs"
      using cs js less.prems(2) JArr
      by (auto elim!: array_childrenE simp: list_all2_conv_all_nth list_all_length intro!: exI [of _ "js ! _"] size_item
          dest: size_item [OF nth_mem])
    have bytes: "catalog_bytes (ordered_json j) = 2 + sum_list (map (catalog_bytes \<circ> ?f) cs) + (length cs - 1)"
      using len by (simp add: JArr catalog_bytes_JArr js_eq comp_def)
    have room: "b + 2 \<le> cb_bytes B" using less.prems(4) bytes by simp
    have "copy_items (\<lambda>c b. copy_value h B (a # ancs) (d + 1) c b) B ob [0..<length cs] (b + 2) =
        Inr (map ?f cs, b + 2 + sum_list (map (catalog_bytes \<circ> ?f) cs) + length (filter ((<) 0) [0..<length cs]))"
      using copy_items_complete [where good = ?good and f = ?f, OF sub [OF v(1)] good] less.prems(4)
      by (simp add: positive_indices bytes)
    then have "copy_array (\<lambda>c b. copy_value h B (a # ancs) (d + 1) c b) B ob (length cs) b =
        Inr (ordered_json j, b + catalog_bytes (ordered_json j))"
      unfolding bytes using cs less.prems(2) len room
      by (auto elim!: array_childrenE simp: copy_array_def JArr js_eq positive_indices)
    with v fresh cs depth show ?thesis
      by (auto simp: copy_value.simps [of h B ancs d "JsRef a" b] elim!: array_childrenE)
  next
    case (JObj kvs)
    then obtain a ob cs where v: "c = JsRef a" "deref h a = Some ob" and cs: "object_children ob = Some cs"
      and kvs: "list_all2 (\<lambda>c kv. fst c = fst kv \<and> says h (snd c) (snd kv)) cs kvs" using less.prems(1) by (auto simp: says_JObj)
    note ob = cs [unfolded object_children_iff]
    have fresh: "a \<notin> set ancs" using less.prems(1,3) says_unique v(1) by blast
    have len: "length kvs = length cs" using kvs by (simp add: list_all2_lengthD)
    have kvs_eq: "kvs = map (\<lambda>c. (fst c, said h (snd c))) cs"
      using kvs by (auto simp: list_all2_conv_all_nth said_eq prod_eq_iff intro!: nth_equalityI)
    let ?es = "sort_key (js_units \<circ> fst) cs"
    have safe: "list_all (\<lambda>c. \<not> is_unsafe_key (fst c)) cs"
      using less.prems(2) by (simp add: JObj kvs_eq list_all_iff)
    have "?good (snd e)" if "e \<in> set cs" for e
    proof -
      from that obtain i where i: "i < length cs" "e = cs ! i" by (auto simp: in_set_conv_nth)
      with kvs len have "says h (snd e) (snd (kvs ! i))" by (simp add: list_all2_conv_all_nth)
      moreover have "size (snd (kvs ! i)) < size j" unfolding JObj using i len by (intro size_member nth_mem) simp
      moreover have "json_fits (cb_string B) (cb_depth B + 1 - (d + 1)) (snd (kvs ! i))"
        using less.prems(2) i len by (simp add: JObj list_all_length)
      ultimately show ?thesis by blast
    qed
    then have good: "list_all (\<lambda>e. ?good (snd e)) ?es" by (simp add: list_all_iff)
    have bytes: "catalog_bytes (ordered_json j) =
        2 + sum_list (map (\<lambda>c. entry_bytes (fst c, ?f (snd c))) ?es) + (length cs - 1)"
      unfolding JObj kvs_eq ordered_object using ob by (intro ordered_object_bytes) simp
    have room: "b + 2 \<le> cb_bytes B" using less.prems(4) bytes by simp
    have "copy_entries (\<lambda>c b. copy_value h B (a # ancs) (d + 1) c b) B 0 ?es [] (b + 2) =
        Inr (put_members (map (\<lambda>e. (fst e, ?f (snd e))) ?es) [],
          b + 2 + sum_list (map (\<lambda>e. entry_bytes (fst e, ?f (snd e))) ?es) + (length ?es - 1))"
      using copy_entries_complete [where good = ?good and f = ?f and n = 0 and ob = "[]", OF sub [OF v(1)] good] less.prems(4)
      by (simp add: bytes)
    moreover have "data_entries ob = Inr ?es" using ob safe by (auto simp: data_entries_Inr)
    ultimately have "copy_object (\<lambda>c b. copy_value h B (a # ancs) (d + 1) c b) B ob b =
        Inr (ordered_json j, b + catalog_bytes (ordered_json j))"
      unfolding bytes using ob less.prems(2) room
      by (auto simp: copy_object_def JObj kvs_eq ordered_object simp del: ordered_json.simps)
    with v fresh ob depth show ?thesis by (auto simp: copy_value.simps [of h B ancs d "JsRef a" b])
  qed (use less.prems depth in \<open>auto simp: says_scalar copy_value.simps catalog_scalar_def catalog_bytes_def\<close>)
qed

text \<open>The bytes a caller is granted, where its request and limits are legal.\<close>

definition byte_grant :: "rat option \<Rightarrow> argument_limits \<Rightarrow> nat option" where
  "byte_grant requested limits =
     (let r = (case requested of Some r \<Rightarrow> r | None \<Rightarrow> of_nat (max_argument_bytes limits));
          ceiling = (if limits = GenericLimits then max_advertisement_bytes else max_argument_bytes limits)
      in if (limits = GenericLimits \<or> limits = ChangesetEditLimits) \<and> is_safe_number r \<and> 0 < r \<and> r \<le> of_nat ceiling
         then Some (nat \<lfloor>r\<rfloor>) else None)"

lemma copy_within_Inr:
  "copy_within_bounds h v requested depth limits = Inr j \<longleftrightarrow>
     (\<exists>n b. byte_grant requested limits = Some n \<and>
        copy_value h \<lparr> cb_bytes = n, cb_depth = depth, cb_string = max_string_bytes limits \<rparr> [] 1 v 0 = Inr (j, b))"
  by (auto simp: copy_within_bounds_def byte_grant_def Let_def max_result_bytes_def max_advertisement_bytes_def max_def)

lemma copy_within_iff:
  assumes "heap_ok h"
  shows "copy_within_bounds h v requested depth limits = Inr j \<longleftrightarrow>
     (\<exists>n j0. byte_grant requested limits = Some n \<and> says h v j0 \<and> j = ordered_json j0 \<and>
        json_fits (max_string_bytes limits) depth j0 \<and> catalog_bytes j \<le> n)"
proof -
  let ?B = "\<lambda>n. \<lparr> cb_bytes = n, cb_depth = depth, cb_string = max_string_bytes limits \<rparr>"
  have "(\<exists>b. copy_value h (?B n) [] 1 v 0 = Inr (j, b)) \<longleftrightarrow>
      (\<exists>j0. says h v j0 \<and> j = ordered_json j0 \<and> json_fits (max_string_bytes limits) depth j0 \<and> catalog_bytes j \<le> n)" for n
  proof
    assume "\<exists>b. copy_value h (?B n) [] 1 v 0 = Inr (j, b)"
    then obtain b where "copy_value h (?B n) [] 1 v 0 = Inr (j, b)" ..
    from copy_value_sound [OF assms _ this, of depth]
    show "\<exists>j0. says h v j0 \<and> j = ordered_json j0 \<and> json_fits (max_string_bytes limits) depth j0 \<and> catalog_bytes j \<le> n"
      by (auto simp: plain_within_def)
  next
    assume "\<exists>j0. says h v j0 \<and> j = ordered_json j0 \<and> json_fits (max_string_bytes limits) depth j0 \<and> catalog_bytes j \<le> n"
    then show "\<exists>b. copy_value h (?B n) [] 1 v 0 = Inr (j, b)"
      using copy_value_complete [where B = "?B n" and ancs = "[]" and d = 1 and b = 0] by fastforce
  qed
  then show ?thesis unfolding copy_within_Inr by blast
qed

end
