(* ===== verification/Catalog_Schema.thy ===== *)
theory Catalog_Schema
  imports Catalog_Json
begin

text \<open>
  The closed schema dialect of the governed tool catalog
  (\<open>packages/keiko-tool-catalog/src/schema.ts\<close>): compiling a schema and describing why a value does not
  match a compiled one.

  A schema is a JSON object. The regular expression engine is a parameter of the environment, and so is
  the external dialect, which \<open>external-schema.ts\<close> hands to a third-party validator. Recursive functions
  are given their own recursive call as an argument where the code has them call each other.
\<close>

subsection \<open>Congruence rules for nested recursion\<close>

lemma rbind_cong [fundef_cong]:
  "r = r' \<Longrightarrow> (\<And>a. r' = Inr a \<Longrightarrow> f a = g a) \<Longrightarrow> rbind r f = rbind r' g"
  by (cases r') auto

lemma rmap_cong [fundef_cong]:
  "xs = ys \<Longrightarrow> (\<And>x. x \<in> set ys \<Longrightarrow> f x = g x) \<Longrightarrow> rmap f xs = rmap g ys"
proof (induction xs arbitrary: ys)
  case (Cons x xs)
  from Cons.IH [of xs] Cons.prems have "rmap f xs = rmap g xs" "f x = g x" by auto
  with Cons.prems(1) show ?case by auto
qed simp

lemma rfold_cong [fundef_cong]:
  "xs = ys \<Longrightarrow> s = t \<Longrightarrow> (\<And>u x. x \<in> set ys \<Longrightarrow> f u x = g u x) \<Longrightarrow> rfold f s xs = rfold g t ys"
proof (induction xs arbitrary: ys s t)
  case (Cons x xs)
  have "rfold f u xs = rfold g u xs" for u using Cons.IH [of xs u u] Cons.prems by auto
  moreover have "f t x = g t x" using Cons.prems(1,3) by auto
  ultimately show ?case using Cons.prems(1,2) by (auto intro: rbind_cong)
qed simp

subsection \<open>Environment and constants\<close>

type_synonym schema = "jvalue obj"

record schema_env =
  regex_valid :: "string \<Rightarrow> bool"
  regex_test :: "string \<Rightarrow> string \<Rightarrow> bool"
  external_compile :: "schema \<Rightarrow> catalog_error + schema"
  external_mismatch :: "schema \<Rightarrow> jvalue \<Rightarrow> catalog_error + schema_mismatch option"

definition schema_types :: "string list" where
  "schema_types = [''object'', ''array'', ''string'', ''number'', ''integer'', ''boolean'', ''null'']"

definition common_keys :: "string list" where
  "common_keys = [''type'', ''description'', ''enum'', ''const'']"

definition type_keys :: "string \<Rightarrow> string list" where
  "type_keys t =
     (if t = ''object'' then [''properties'', ''required'', ''additionalProperties'']
      else if t = ''array'' then [''items'', ''minItems'', ''maxItems'']
      else if t = ''string'' then [''minLength'', ''maxLength'', ''pattern'']
      else if t = ''number'' \<or> t = ''integer'' then [''minimum'', ''maximum'']
      else [])"

definition schema_error :: "catalog_failure \<Rightarrow> catalog_error + 'a" where
  "schema_error reason = Inl (ToolCatalogError reason None)"

definition external_dialects :: "string list" where
  "external_dialects = [''https://json-schema.org/draft/2020-12/schema'',
     ''https://json-schema.org/draft/2019-09/schema'', ''http://json-schema.org/draft-07/schema#'']"

definition is_external_dialect :: "jvalue option \<Rightarrow> bool" where
  "is_external_dialect v = (case v of Some (JStr s) \<Rightarrow> s \<in> set external_dialects | _ \<Rightarrow> False)"

subsection \<open>Compiling\<close>

definition canonical_text :: "jvalue \<Rightarrow> string" where
  "canonical_text v = canonicalise (json_text v)"

definition check_bound :: "schema \<Rightarrow> bool \<Rightarrow> string \<Rightarrow> catalog_error + unit" where
  "check_bound schema integers key = (case obj_get schema key of
     None \<Rightarrow> Inr ()
   | Some (JNum r) \<Rightarrow> require_catalog (integers \<longrightarrow> is_safe_number r \<and> 0 \<le> r) InvalidSchema
   | Some v \<Rightarrow> schema_error InvalidSchema)"

definition numeric_bounds :: "schema \<Rightarrow> string \<Rightarrow> string \<Rightarrow> bool \<Rightarrow> catalog_error + unit" where
  "numeric_bounds schema lower upper integers =
     rbind (check_bound schema integers lower) (\<lambda>u.
     rbind (check_bound schema integers upper) (\<lambda>u.
       case (obj_get schema lower, obj_get schema upper) of
         (Some (JNum l), Some (JNum m)) \<Rightarrow> require_catalog (l \<le> m) InvalidSchema
       | _ \<Rightarrow> Inr ()))"

fun js_typeof :: "jvalue \<Rightarrow> string" where
  "js_typeof (JBool b) = ''boolean''"
| "js_typeof (JNum r) = ''number''"
| "js_typeof (JStr s) = ''string''"
| "js_typeof v = ''object''"

definition scalar_matches :: "string \<Rightarrow> jvalue \<Rightarrow> bool" where
  "scalar_matches t v =
     (if t = ''null'' then v = JNull
      else if t = ''integer'' then (case v of JNum r \<Rightarrow> is_safe_number r | _ \<Rightarrow> False)
      else js_typeof v = t)"

definition normalized_enum :: "schema \<Rightarrow> string \<Rightarrow> catalog_error + jvalue list option" where
  "normalized_enum schema t = (case obj_get schema ''enum'' of
     None \<Rightarrow> Inr None
   | Some e \<Rightarrow>
       rbind (catalog_array (Some e)) (\<lambda>vs.
       rbind (require_catalog (t \<noteq> ''object'' \<and> t \<noteq> ''array'' \<and> vs \<noteq> []) InvalidSchema) (\<lambda>u.
       rbind (require_catalog (list_all (scalar_matches t) vs) InvalidSchema) (\<lambda>u.
       rbind (require_catalog (distinct (map canonical_text vs)) InvalidSchema) (\<lambda>u.
         Inr (Some (sort_key (js_units \<circ> canonical_text) vs)))))))"

definition string_schema :: "schema_env \<Rightarrow> schema \<Rightarrow> catalog_error + unit" where
  "string_schema env schema =
     rbind (numeric_bounds schema ''minLength'' ''maxLength'' True) (\<lambda>u.
       case obj_get schema ''pattern'' of
         None \<Rightarrow> Inr ()
       | Some p \<Rightarrow> rbind (catalog_string (Some p)) (\<lambda>source. require_catalog (regex_valid env source) InvalidSchema))"

type_synonym normalizer = "schema \<Rightarrow> catalog_error + schema"

definition normalize_property :: "normalizer \<Rightarrow> string \<times> jvalue \<Rightarrow> catalog_error + string \<times> jvalue" where
  "normalize_property rec kv =
     rbind (catalog_object (Some (snd kv))) (\<lambda>s. rbind (rec s) (\<lambda>n. Inr (fst kv, JObj n)))"

definition object_schema :: "normalizer \<Rightarrow> normalizer" where
  "object_schema rec schema =
     rbind (catalog_object (obj_get schema ''properties'')) (\<lambda>properties.
     rbind (catalog_array (obj_get schema ''required'')) (\<lambda>names.
     rbind (rmap (\<lambda>v. catalog_string (Some v)) names) (\<lambda>texts.
     let required = sort_key js_units texts in
     rbind (require_catalog (distinct required) InvalidSchema) (\<lambda>u.
     rbind (require_catalog (list_all (\<lambda>k. k \<in> set (obj_keys properties)) required) InvalidSchema) (\<lambda>u.
     rbind (case obj_get schema ''additionalProperties'' of
         Some (JBool b) \<Rightarrow> Inr ()
       | Some (JObj e) \<Rightarrow> Inr ()
       | _ \<Rightarrow> schema_error InvalidSchema) (\<lambda>u.
     rbind (rmap (normalize_property rec) properties) (\<lambda>normalized.
     rbind (case obj_get schema ''additionalProperties'' of
         Some (JObj e) \<Rightarrow> rbind (rec e) (\<lambda>n. Inr (JObj n))
       | Some v \<Rightarrow> Inr v
       | None \<Rightarrow> schema_error InvalidSchema) (\<lambda>extra.
       Inr (obj_put ''additionalProperties'' extra
             (obj_put ''required'' (JArr (map JStr required))
               (obj_put ''properties'' (JObj normalized) schema)))))))))))"

definition normalize_typed_schema :: "schema_env \<Rightarrow> normalizer \<Rightarrow> string \<Rightarrow> normalizer" where
  "normalize_typed_schema env rec t schema =
     (if t = ''object'' then object_schema rec schema
      else if t = ''array'' then
        rbind (numeric_bounds schema ''minItems'' ''maxItems'' True) (\<lambda>u.
        rbind (catalog_object (obj_get schema ''items'')) (\<lambda>s.
        rbind (rec s) (\<lambda>n. Inr (obj_put ''items'' (JObj n) schema))))
      else
        rbind (if t = ''string'' then string_schema env schema else Inr ()) (\<lambda>u.
        rbind (if t = ''number'' \<or> t = ''integer'' then numeric_bounds schema ''minimum'' ''maximum'' False
               else Inr ()) (\<lambda>u. Inr schema)))"

text \<open>The schemas a schema is made of.\<close>

definition child_schema :: "schema \<Rightarrow> schema \<Rightarrow> bool" where
  "child_schema schema s \<longleftrightarrow>
     (\<exists>ps k. obj_get schema ''properties'' = Some (JObj ps) \<and> (k, JObj s) \<in> set ps) \<or>
     obj_get schema ''additionalProperties'' = Some (JObj s) \<or> obj_get schema ''items'' = Some (JObj s)"

lemma catalog_object_Inr [simp]: "catalog_object v = Inr kvs \<longleftrightarrow> v = Some (JObj kvs)"
  by (auto simp: catalog_object_def split: option.splits json.splits)

lemma object_schema_cong [fundef_cong]:
  assumes "s = t" and "\<And>c. child_schema t c \<Longrightarrow> f c = g c"
  shows "object_schema f s = object_schema g t"
proof -
  have members: "normalize_property f kv = normalize_property g kv"
    if "obj_get t ''properties'' = Some (JObj ps)" "kv \<in> set ps" for ps kv
    unfolding normalize_property_def using that
    by (intro rbind_cong refl assms(2)) (cases kv, auto simp: child_schema_def)
  show ?thesis unfolding object_schema_def assms(1) Let_def
    by (intro rbind_cong refl rmap_cong members)
       (auto split: option.splits json.splits intro!: rbind_cong assms(2) simp: child_schema_def)
qed

lemma normalize_typed_schema_cong [fundef_cong]:
  assumes "env = env'" "ty = ty'" "s = t" and "\<And>c. child_schema t c \<Longrightarrow> f c = g c"
  shows "normalize_typed_schema env f ty s = normalize_typed_schema env' g ty' t"
proof -
  have "object_schema f t = object_schema g t" using assms(4) by (intro object_schema_cong) auto
  then show ?thesis unfolding normalize_typed_schema_def assms(1-3)
    by (auto intro!: rbind_cong assms(4) simp: child_schema_def)
qed

lemma size_in_obj: "(k, v) \<in> set ob \<Longrightarrow> size v < size (JObj ob)"
  using size_member [of "(k, v)" ob] by simp

lemma child_schema_size: "child_schema schema s \<Longrightarrow> size (JObj s) < size (JObj schema)"
  unfolding child_schema_def by (auto dest!: obj_get_Some_in size_in_obj simp del: json.size)

lemma child_schema_enum [simp]: "child_schema (obj_put ''enum'' v schema) s = child_schema schema s"
  by (simp add: child_schema_def obj_get_put)

function normalize_schema :: "schema_env \<Rightarrow> schema \<Rightarrow> catalog_error + schema" where
  "normalize_schema env schema =
     rbind (catalog_string (obj_get schema ''type'')) (\<lambda>t.
     rbind (require_catalog (t \<in> set schema_types) UnsupportedSchema) (\<lambda>u.
     rbind (require_catalog (list_all (\<lambda>k. k \<in> set common_keys \<or> k \<in> set (type_keys t)) (obj_keys schema))
       UnsupportedSchema) (\<lambda>u.
     rbind (case obj_get schema ''description'' of
         None \<Rightarrow> Inr [] | Some d \<Rightarrow> catalog_string (Some d)) (\<lambda>u.
     rbind (case obj_get schema ''const'' of
         None \<Rightarrow> Inr () | Some c \<Rightarrow> require_catalog (scalar_matches t c) InvalidSchema) (\<lambda>u.
     rbind (normalized_enum schema t) (\<lambda>values.
     rbind (case (values, obj_get schema ''const'') of
         (Some vs, Some c) \<Rightarrow> require_catalog (list_ex (\<lambda>v. canonical_text v = canonical_text c) vs) InvalidSchema
       | _ \<Rightarrow> Inr ()) (\<lambda>u.
     normalize_typed_schema env (\<lambda>s. normalize_schema env s) t
       (case values of None \<Rightarrow> schema | Some vs \<Rightarrow> obj_put ''enum'' (JArr vs) schema))))))))"
  by pat_completeness auto
termination
  by (relation "measure (\<lambda>(env, schema). size (JObj schema))")
     (auto split: option.splits simp del: json.size dest!: child_schema_size)

declare normalize_schema.simps [simp del]

definition compile_catalog_schema :: "schema_env \<Rightarrow> js_heap \<Rightarrow> js_value \<Rightarrow> catalog_error + schema" where
  "compile_catalog_schema env h v =
     rbind (copy_catalog_json h v None GenericLimits) (\<lambda>j.
     rbind (catalog_object (Some j)) (\<lambda>schema.
       if is_external_dialect (obj_get schema ''$schema'') then external_compile env schema
       else normalize_schema env schema))"

section \<open>Matching against a compiled schema\<close>

text \<open>
  Matching a value against a compiled schema, and the account of why it fails
  (\<open>packages/keiko-tool-catalog/src/schema.ts\<close>, from \<open>withinNumericBounds\<close> on). The walk adds to a
  collector, which is passed along; a set of paths is the list of its members in insertion order.

  A compiled object schema keeps its properties in an ordinary object (\<open>Object.fromEntries\<close>), so a
  member's name is also looked up in \<open>Object.prototype\<close>.
\<close>

subsection \<open>The collector\<close>

record mismatch_collector =
  mc_missing :: "string list"
  mc_invalid :: "string list"
  mc_unexpected :: nat

definition set_add :: "string \<Rightarrow> string list \<Rightarrow> string list" where
  "set_add x xs = (if x \<in> set xs then xs else xs @ [x])"

definition join_schema_path :: "string \<Rightarrow> string \<Rightarrow> string" where
  "join_schema_path path key = (if path = [] then key else path @ ''.'' @ key)"

definition shown_path :: "string \<Rightarrow> string" where
  "shown_path path = (if path = [] then [CHR 0x24] else path)"

definition note_invalid :: "mismatch_collector \<Rightarrow> string \<Rightarrow> bool \<times> mismatch_collector" where
  "note_invalid out path = (False, out\<lparr> mc_invalid := set_add (shown_path path) (mc_invalid out) \<rparr>)"

definition note_missing :: "mismatch_collector \<Rightarrow> string \<Rightarrow> mismatch_collector" where
  "note_missing out path = out\<lparr> mc_missing := set_add path (mc_missing out) \<rparr>"

definition max_mismatch_paths :: nat where "max_mismatch_paths = 16"

definition capped_paths :: "string list \<Rightarrow> string list \<times> nat" where
  "capped_paths paths =
     (let sorted = sort_key js_units paths
      in (take max_mismatch_paths sorted, length sorted - max_mismatch_paths))"

subsection \<open>Looking a member up\<close>

datatype looked_up = Declared jvalue | Inherited | Undeclared

definition object_prototype_keys :: "string list" where
  "object_prototype_keys = [''constructor'', ''hasOwnProperty'', ''isPrototypeOf'', ''propertyIsEnumerable'',
     ''toLocaleString'', ''toString'', ''valueOf'', ''__defineGetter__'', ''__defineSetter__'',
     ''__lookupGetter__'', ''__lookupSetter__'', ''__proto__'']"

definition property_lookup :: "jvalue obj \<Rightarrow> string \<Rightarrow> looked_up" where
  "property_lookup properties k = (case obj_get properties k of
     Some v \<Rightarrow> Declared v
   | None \<Rightarrow> if k \<in> set object_prototype_keys then Inherited else Undeclared)"

subsection \<open>Matching\<close>

definition within_numeric_bounds :: "schema \<Rightarrow> rat \<Rightarrow> string \<Rightarrow> string \<Rightarrow> bool" where
  "within_numeric_bounds schema r lower upper \<longleftrightarrow>
     (case obj_get schema lower of Some (JNum m) \<Rightarrow> m \<le> r | _ \<Rightarrow> True) \<and>
     (case obj_get schema upper of Some (JNum m) \<Rightarrow> r \<le> m | _ \<Rightarrow> True)"

definition string_matches :: "schema_env \<Rightarrow> schema \<Rightarrow> string \<Rightarrow> catalog_error + bool" where
  "string_matches env schema s =
     (if \<not> within_numeric_bounds schema (of_nat (length (code_points s))) ''minLength'' ''maxLength'' then Inr False
      else case obj_get schema ''pattern'' of
        None \<Rightarrow> Inr True
      | Some p \<Rightarrow> rbind (catalog_string (Some p)) (\<lambda>source. Inr (regex_test env source s)))"

definition scalar_within_schema :: "schema_env \<Rightarrow> schema \<Rightarrow> string \<Rightarrow> jvalue \<Rightarrow> catalog_error + bool" where
  "scalar_within_schema env schema t v =
     (if \<not> scalar_matches t v then Inr False
      else case v of
        JStr s \<Rightarrow> string_matches env schema s
      | JNum r \<Rightarrow> Inr (within_numeric_bounds schema r ''minimum'' ''maximum'')
      | _ \<Rightarrow> Inr True)"

type_synonym matcher = "schema \<Rightarrow> jvalue \<Rightarrow> string \<Rightarrow> mismatch_collector \<Rightarrow> catalog_error + bool \<times> mismatch_collector"

definition check_required ::
  "jvalue obj \<Rightarrow> string \<Rightarrow> bool \<times> mismatch_collector \<Rightarrow> string \<Rightarrow> bool \<times> mismatch_collector" where
  "check_required value path acc key =
     (if key \<in> set (obj_keys value) then acc
      else (False, note_missing (snd acc) (join_schema_path path key)))"

definition check_member ::
  "matcher \<Rightarrow> schema \<Rightarrow> jvalue obj \<Rightarrow> string \<Rightarrow> bool \<times> mismatch_collector \<Rightarrow> string \<times> jvalue
     \<Rightarrow> catalog_error + bool \<times> mismatch_collector" where
  "check_member collect schema properties path acc kv = (case property_lookup properties (fst kv) of
     Declared p \<Rightarrow>
       rbind (catalog_object (Some p)) (\<lambda>s.
       rbind (collect s (snd kv) (join_schema_path path (fst kv)) (snd acc)) (\<lambda>(m, out). Inr (m \<and> fst acc, out)))
   | Inherited \<Rightarrow> schema_error InvalidShape
   | Undeclared \<Rightarrow>
       (if obj_get schema ''additionalProperties'' = Some (JBool False) then
          Inr (False, (snd acc)\<lparr> mc_unexpected := mc_unexpected (snd acc) + 1 \<rparr>)
        else if obj_get schema ''additionalProperties'' \<noteq> Some (JBool True) then
          rbind (catalog_object (obj_get schema ''additionalProperties'')) (\<lambda>s.
          rbind (collect s (snd kv) (join_schema_path path ''*'') (snd acc)) (\<lambda>(m, out). Inr (m \<and> fst acc, out)))
        else Inr acc))"

definition collect_object_mismatch ::
  "matcher \<Rightarrow> schema \<Rightarrow> jvalue obj \<Rightarrow> string \<Rightarrow> mismatch_collector \<Rightarrow> catalog_error + bool \<times> mismatch_collector" where
  "collect_object_mismatch collect schema value path out =
     rbind (catalog_object (obj_get schema ''properties'')) (\<lambda>properties.
     rbind (catalog_array (obj_get schema ''required'')) (\<lambda>names.
     rbind (rmap (\<lambda>v. catalog_string (Some v)) names) (\<lambda>required.
       rfold (check_member collect schema properties path)
         (foldl (check_required value path) (True, out) required) value)))"

definition check_item ::
  "matcher \<Rightarrow> schema \<Rightarrow> string \<Rightarrow> bool \<times> mismatch_collector \<Rightarrow> jvalue \<Rightarrow> catalog_error + bool \<times> mismatch_collector" where
  "check_item collect items path acc child =
     rbind (collect items child (path @ ''[]'') (snd acc)) (\<lambda>(m, out). Inr (m \<and> fst acc, out))"

definition collect_array_mismatch ::
  "matcher \<Rightarrow> schema \<Rightarrow> jvalue \<Rightarrow> string \<Rightarrow> mismatch_collector \<Rightarrow> catalog_error + bool \<times> mismatch_collector" where
  "collect_array_mismatch collect schema value path out = (case value of
     JArr js \<Rightarrow>
       (if \<not> within_numeric_bounds schema (of_nat (length js)) ''minItems'' ''maxItems''
        then Inr (note_invalid out path)
        else rbind (catalog_object (obj_get schema ''items'')) (\<lambda>items.
          rfold (check_item collect items path) (True, out) js))
   | _ \<Rightarrow> Inr (note_invalid out path))"

definition collect_typed_mismatch :: "schema_env \<Rightarrow> matcher \<Rightarrow> matcher" where
  "collect_typed_mismatch env collect schema value path out =
     rbind (catalog_string (obj_get schema ''type'')) (\<lambda>t.
       if t = ''object'' then
         (case value of
            JObj kvs \<Rightarrow> collect_object_mismatch collect schema kvs path out
          | _ \<Rightarrow> Inr (note_invalid out path))
       else if t = ''array'' then collect_array_mismatch collect schema value path out
       else rbind (scalar_within_schema env schema t value) (\<lambda>m.
         Inr (if m then (True, out) else note_invalid out path)))"

text \<open>The values directly inside a value.\<close>

definition child_value :: "jvalue \<Rightarrow> jvalue \<Rightarrow> bool" where
  "child_value v c \<longleftrightarrow> (\<exists>kvs k. v = JObj kvs \<and> (k, c) \<in> set kvs) \<or> (\<exists>js. v = JArr js \<and> c \<in> set js)"

lemma child_value_size: "child_value v c \<Longrightarrow> size c < size v"
  unfolding child_value_def by (auto dest: size_in_obj size_item)

lemma collect_typed_mismatch_cong [fundef_cong]:
  assumes "env = env'" "s = s'" "v = w" "path = path'" "out = out'"
    and rec: "\<And>s c p u. child_value w c \<Longrightarrow> f s c p u = g s c p u"
  shows "collect_typed_mismatch env f s v path out = collect_typed_mismatch env' g s' w path' out'"
proof -
  have members: "check_member f s ps p acc kv = check_member g s ps p acc kv"
    if "w = JObj kvs" "kv \<in> set kvs" for s ps p acc kv kvs
  proof -
    have child: "child_value w (snd kv)" using that by (cases kv) (auto simp: child_value_def)
    show ?thesis by (simp add: check_member_def rec [OF child] split: looked_up.splits)
  qed
  have items: "check_item f s p acc c = check_item g s p acc c" if "w = JArr js" "c \<in> set js" for s p acc c js
    using rec [of c] that by (simp add: check_item_def child_value_def)
  show ?thesis unfolding assms(1-5) collect_typed_mismatch_def collect_object_mismatch_def collect_array_mismatch_def
    by (auto split: json.splits intro!: rbind_cong rfold_cong members items)
qed

function collect_mismatch :: "schema_env \<Rightarrow> schema \<Rightarrow> jvalue \<Rightarrow> string \<Rightarrow> mismatch_collector \<Rightarrow> catalog_error + bool \<times> mismatch_collector" where
  "collect_mismatch env schema value path out =
     rbind (collect_typed_mismatch env (\<lambda>s c p u. collect_mismatch env s c p u) schema value path out) (\<lambda>(m, out1).
       if \<not> m then Inr (False, out1)
       else if (case obj_get schema ''const'' of None \<Rightarrow> False | Some c \<Rightarrow> canonical_text value \<noteq> canonical_text c)
       then Inr (note_invalid out1 path)
       else case obj_get schema ''enum'' of
         None \<Rightarrow> Inr (True, out1)
       | Some e \<Rightarrow> rbind (catalog_array (Some e)) (\<lambda>vs.
           Inr (if list_ex (\<lambda>x. canonical_text x = canonical_text value) vs then (True, out1)
                else note_invalid out1 path)))"
  by pat_completeness auto
termination
  by (relation "measure (\<lambda>(env, schema, value, path, out). size value)") (auto dest: child_value_size)

declare collect_mismatch.simps [simp del]

definition describe_catalog_schema_mismatch ::
  "schema_env \<Rightarrow> schema \<Rightarrow> jvalue \<Rightarrow> catalog_error + schema_mismatch option" where
  "describe_catalog_schema_mismatch env schema value =
     (if is_external_dialect (obj_get schema ''$schema'') then external_mismatch env schema value
      else rbind (collect_mismatch env schema value [] \<lparr> mc_missing = [], mc_invalid = [], mc_unexpected = 0 \<rparr>)
        (\<lambda>(m, out).
          if m then Inr None
          else
            let missing = capped_paths (mc_missing out);
                invalid = capped_paths (mc_invalid out)
            in Inr (Some \<lparr> sm_missing_required = fst missing, sm_invalid_paths = fst invalid,
                 sm_unexpected = mc_unexpected out, sm_dropped = snd missing + snd invalid \<rparr>)))"

definition matches_catalog_schema :: "schema_env \<Rightarrow> schema \<Rightarrow> jvalue \<Rightarrow> catalog_error + bool" where
  "matches_catalog_schema env schema value =
     rbind (describe_catalog_schema_mismatch env schema value) (\<lambda>m. Inr (m = None))"

end
