(* ===== verification/Catalog_Conformance.thy ===== *)
theory Catalog_Conformance
  imports Catalog_Schema
begin

text \<open>
  What a compiled schema is, what it means for a value to conform to it, and that the matcher decides
  conformance.
\<close>

subsection \<open>Inversion of the checks\<close>

lemma catalog_array_Inr [simp]: "catalog_array v = Inr js \<longleftrightarrow> v = Some (JArr js)"
  by (auto simp: catalog_array_def split: option.splits json.splits)

lemma catalog_string_Inr [simp]: "catalog_string v = Inr s \<longleftrightarrow> v = Some (JStr s) \<and> s \<noteq> []"
  by (auto simp: catalog_string_def split: option.splits json.splits)

lemma schema_error_Inr [simp]: "schema_error r \<noteq> Inr x"
  by (simp add: schema_error_def)

lemma rmap_strings: "rmap (\<lambda>v. catalog_string (Some v)) vs = Inr ss \<longleftrightarrow> vs = map JStr ss \<and> [] \<notin> set ss"
proof (induction vs arbitrary: ss)
  case (Cons v vs)
  then show ?case by (cases ss) auto
qed auto

subsection \<open>Compiled schemas\<close>

text \<open>The shape of one node: what the matcher reads without a further check.\<close>

definition node_ok :: "schema \<Rightarrow> bool" where
  "node_ok s \<longleftrightarrow> (\<exists>t. obj_get s ''type'' = Some (JStr t) \<and> t \<in> set schema_types \<and>
     (\<forall>e. obj_get s ''enum'' = Some e \<longrightarrow> (\<exists>vs. e = JArr vs)) \<and>
     (\<forall>p. t = ''string'' \<and> obj_get s ''pattern'' = Some p \<longrightarrow> (\<exists>r. p = JStr r \<and> r \<noteq> [])) \<and>
     (t = ''object'' \<longrightarrow>
        (\<exists>ps. obj_get s ''properties'' = Some (JObj ps) \<and> list_all (\<lambda>kv. \<exists>c. snd kv = JObj c) ps) \<and>
        (\<exists>rs. obj_get s ''required'' = Some (JArr (map JStr rs)) \<and> [] \<notin> set rs) \<and>
        (\<exists>e. obj_get s ''additionalProperties'' = Some e \<and> ((\<exists>b. e = JBool b) \<or> (\<exists>c. e = JObj c)))) \<and>
     (t = ''array'' \<longrightarrow> (\<exists>c. obj_get s ''items'' = Some (JObj c))))"

inductive schema_ok :: "schema \<Rightarrow> bool" where
  node: "node_ok s \<Longrightarrow> obj_get s ''$schema'' = None \<Longrightarrow> (\<And>c. child_schema s c \<Longrightarrow> schema_ok c) \<Longrightarrow> schema_ok s"

inductive_cases schema_okE: "schema_ok s"

text \<open>What compiling one node has checked and what it hands on.\<close>

definition with_enum :: "jvalue list option \<Rightarrow> schema \<Rightarrow> schema" where
  "with_enum values schema = (case values of None \<Rightarrow> schema | Some vs \<Rightarrow> obj_put ''enum'' (JArr vs) schema)"

lemma normalize_schema_Inr:
  assumes "normalize_schema env s = Inr n"
  obtains t vals where "obj_get s ''type'' = Some (JStr t)" "t \<in> set schema_types"
    "list_all (\<lambda>k. k \<in> set common_keys \<or> k \<in> set (type_keys t)) (obj_keys s)"
    "normalized_enum s t = Inr vals"
    "\<And>c. obj_get s ''const'' = Some c \<Longrightarrow> scalar_matches t c"
    "\<And>vs c. vals = Some vs \<Longrightarrow> obj_get s ''const'' = Some c \<Longrightarrow> list_ex (\<lambda>v. canonical_text v = canonical_text c) vs"
    "\<And>d. obj_get s ''description'' = Some d \<Longrightarrow> \<exists>u. catalog_string (Some d) = Inr u"
    "normalize_typed_schema env (normalize_schema env) t (with_enum vals s) = Inr n"
proof -
  obtain t vals d u v where "catalog_string (obj_get s ''type'') = Inr t" "t \<in> set schema_types"
    "list_all (\<lambda>k. k \<in> set common_keys \<or> k \<in> set (type_keys t)) (obj_keys s)"
    "(case obj_get s ''description'' of None \<Rightarrow> Inr [] | Some d \<Rightarrow> catalog_string (Some d)) = Inr d"
    "(case obj_get s ''const'' of None \<Rightarrow> Inr () | Some c \<Rightarrow> require_catalog (scalar_matches t c) InvalidSchema) = Inr u"
    "normalized_enum s t = Inr vals"
    "(case (vals, obj_get s ''const'') of
         (Some vs, Some c) \<Rightarrow> require_catalog (list_ex (\<lambda>v. canonical_text v = canonical_text c) vs) InvalidSchema
       | _ \<Rightarrow> Inr ()) = Inr v"
    "normalize_typed_schema env (normalize_schema env) t (with_enum vals s) = Inr n"
    using assms unfolding normalize_schema.simps [of env s] with_enum_def
    by (auto simp only: rbind_Inr_iff require_Inr)
  then show thesis by (intro that [of t vals]) (auto split: option.splits)
qed

lemma normalized_enum_Inr:
  "normalized_enum s t = Inr vals \<Longrightarrow>
     (vals = None \<and> obj_get s ''enum'' = None) \<or>
     (\<exists>vs. obj_get s ''enum'' = Some (JArr vs) \<and> vals = Some (sort_key (js_units \<circ> canonical_text) vs) \<and> vs \<noteq> [] \<and>
        t \<noteq> ''object'' \<and> t \<noteq> ''array'' \<and> list_all (scalar_matches t) vs \<and> distinct (map canonical_text vs))"
  by (auto simp: normalized_enum_def split: option.splits)

lemma obj_get_with_enum [simp]:
  "k \<noteq> ''enum'' \<Longrightarrow> obj_get (with_enum vals s) k = obj_get s k"
  by (simp add: with_enum_def obj_get_put split: option.splits)

lemma object_schema_Inr:
  assumes "object_schema f s = Inr n"
  obtains ps rs ps' extra extra' where "obj_get s ''properties'' = Some (JObj ps)"
    "obj_get s ''required'' = Some (JArr (map JStr rs))" "[] \<notin> set rs" "distinct rs"
    "\<And>k. k \<in> set rs \<Longrightarrow> k \<in> set (obj_keys ps)"
    "rmap (normalize_property f) ps = Inr ps'" "obj_get s ''additionalProperties'' = Some extra"
    "(\<exists>b. extra = JBool b \<and> extra' = JBool b) \<or> (\<exists>e e'. extra = JObj e \<and> f e = Inr e' \<and> extra' = JObj e')"
    "n = obj_put ''additionalProperties'' extra' (obj_put ''required'' (JArr (map JStr (sort_key js_units rs)))
           (obj_put ''properties'' (JObj ps') s))"
  using assms unfolding object_schema_def Let_def
  by (auto simp: rmap_strings list_all_iff split: option.splits json.splits)

lemma normalize_property_Inr:
  "normalize_property f kv = Inr kv' \<longleftrightarrow>
     (\<exists>c n. snd kv = JObj c \<and> f c = Inr n \<and> kv' = (fst kv, JObj n))"
  by (auto simp: normalize_property_def)

lemma foreign_key_absent:
  "list_all (\<lambda>k. k \<in> set common_keys \<or> k \<in> set (type_keys t)) (obj_keys s) \<Longrightarrow>
     k \<notin> set common_keys \<Longrightarrow> k \<notin> set (type_keys t) \<Longrightarrow> obj_get s k = None"
  by (auto simp: obj_get_None_iff list_all_iff)

lemma normalize_ok: "normalize_schema env s = Inr n \<Longrightarrow> schema_ok n"
proof (induction "size (JObj s)" arbitrary: s n rule: less_induct)
  case less
  note IH = less.hyps [OF child_schema_size]
  from less.prems obtain t vals where t: "obj_get s ''type'' = Some (JStr t)" "t \<in> set schema_types"
    and keys: "list_all (\<lambda>k. k \<in> set common_keys \<or> k \<in> set (type_keys t)) (obj_keys s)"
    and enum: "normalized_enum s t = Inr vals"
    and typed: "normalize_typed_schema env (normalize_schema env) t (with_enum vals s) = Inr n"
    by (rule normalize_schema_Inr)
  note absent = foreign_key_absent [OF keys]
  have e: "\<exists>vs. e = JArr vs" if "obj_get (with_enum vals s) ''enum'' = Some e" for e
    using normalized_enum_Inr [OF enum] that by (auto simp: with_enum_def obj_get_put)
  have dollar: "obj_get s ''$schema'' = None"
    by (rule absent) (simp_all add: common_keys_def type_keys_def)
  consider (object) "t = ''object''" | (array) "t = ''array''" | (scalar) "t \<noteq> ''object''" "t \<noteq> ''array''" by blast
  then show ?case
  proof cases
    case object
    then have "object_schema (normalize_schema env) (with_enum vals s) = Inr n"
      using typed by (simp add: normalize_typed_schema_def)
    then obtain ps rs ps' extra extra' where ps: "obj_get s ''properties'' = Some (JObj ps)"
      and rs: "obj_get s ''required'' = Some (JArr (map JStr rs))" "[] \<notin> set rs"
      and ps': "rmap (normalize_property (normalize_schema env)) ps = Inr ps'"
      and extra: "obj_get s ''additionalProperties'' = Some extra"
        "(\<exists>b. extra = JBool b \<and> extra' = JBool b) \<or>
           (\<exists>e e'. extra = JObj e \<and> normalize_schema env e = Inr e' \<and> extra' = JObj e')"
      and n: "n = obj_put ''additionalProperties'' extra' (obj_put ''required'' (JArr (map JStr (sort_key js_units rs)))
           (obj_put ''properties'' (JObj ps') (with_enum vals s)))"
      by (rule object_schema_Inr) auto
    have items: "obj_get s ''items'' = None"
      by (rule absent) (simp_all add: common_keys_def type_keys_def object)
    have member: "\<exists>c. snd kv = JObj c \<and> schema_ok c" if "kv \<in> set ps'" for kv
    proof -
      from rmap_Inr_set [OF ps' that] obtain q c n' where q: "q \<in> set ps" "snd q = JObj c"
        "normalize_schema env c = Inr n'" "kv = (fst q, JObj n')" by (auto simp: normalize_property_Inr)
      then have "(fst q, JObj c) \<in> set ps" by (metis prod.collapse)
      with ps have "child_schema s c" by (auto simp: child_schema_def)
      from IH [OF this q(3)] q(4) show ?thesis by simp
    qed
    have "schema_ok e'" if "extra = JObj e" "normalize_schema env e = Inr e'" for e e'
      using IH [of e e'] that extra(1) by (simp add: child_schema_def)
    with extra(2) have extra_ok: "schema_ok c" if "extra' = JObj c" for c using that by auto
    have kids: "schema_ok c" if "child_schema n c" for c
      using that member extra_ok items by (fastforce simp: n child_schema_def obj_get_put)
    have shape: "list_all (\<lambda>kv. \<exists>c. snd kv = JObj c) ps'" using member unfolding list_all_iff by blast
    have at_n: "obj_get n ''type'' = Some (JStr t)" "obj_get n ''properties'' = Some (JObj ps')"
        "obj_get n ''required'' = Some (JArr (map JStr (sort_key js_units rs)))"
        "obj_get n ''additionalProperties'' = Some extra'" "obj_get n ''enum'' = obj_get (with_enum vals s) ''enum''"
      using t by (simp_all add: n obj_get_put)
    have required: "\<exists>rs'. obj_get n ''required'' = Some (JArr (map JStr rs')) \<and> [] \<notin> set rs'"
      using rs(2) by (intro exI [of _ "sort_key js_units rs"]) (simp add: at_n)
    have closed: "\<exists>e. obj_get n ''additionalProperties'' = Some e \<and> ((\<exists>b. e = JBool b) \<or> (\<exists>c. e = JObj c))"
      using extra(2) by (auto simp: at_n)
    have "node_ok n"
      unfolding node_ok_def
    proof (intro exI [of _ t] conjI impI allI)
      show "\<exists>vs. x = JArr vs" if "obj_get n ''enum'' = Some x" for x using e that by (simp add: at_n(5))
      show "\<exists>ps. obj_get n ''properties'' = Some (JObj ps) \<and> list_all (\<lambda>kv. \<exists>c. snd kv = JObj c) ps"
        using at_n(2) shape by blast
    qed (use t(2) at_n(1) required closed object in simp_all)
    moreover have "obj_get n ''$schema'' = None" using dollar by (simp add: n obj_get_put)
    ultimately show ?thesis using kids by (rule schema_ok.node)
  next
    case array
    then obtain c n' where c: "obj_get s ''items'' = Some (JObj c)" "normalize_schema env c = Inr n'"
      and n: "n = obj_put ''items'' (JObj n') (with_enum vals s)"
      using typed by (auto simp: normalize_typed_schema_def)
    have no: "obj_get s ''properties'' = None" "obj_get s ''additionalProperties'' = None"
      by (rule absent; simp add: common_keys_def type_keys_def array)+
    have "schema_ok n'" using IH [of c n'] c by (simp add: child_schema_def)
    with no have kids: "schema_ok c'" if "child_schema n c'" for c' using that by (simp add: n child_schema_def obj_get_put)
    have "node_ok n" unfolding node_ok_def using t array e by (intro exI [of _ t]) (auto simp: n obj_get_put)
    moreover have "obj_get n ''$schema'' = None" using dollar by (simp add: n obj_get_put)
    ultimately show ?thesis using kids by (rule schema_ok.node)
  next
    case scalar
    then have n: "n = with_enum vals s" and str: "t = ''string'' \<Longrightarrow> \<exists>u. string_schema env (with_enum vals s) = Inr u"
      using typed by (auto simp: normalize_typed_schema_def split: if_splits)
    have no: "obj_get s ''properties'' = None" "obj_get s ''additionalProperties'' = None" "obj_get s ''items'' = None"
      by (rule absent; simp add: common_keys_def type_keys_def scalar)+
    then have kids: "schema_ok c'" if "child_schema n c'" for c' using that by (simp add: n child_schema_def)
    have pattern: "\<exists>r. q = JStr r \<and> r \<noteq> []" if "t = ''string''" "obj_get s ''pattern'' = Some q" for q
      using str [OF that(1)] that(2) by (auto simp: string_schema_def)
    have "node_ok n" unfolding node_ok_def
    proof (rule exI [of _ t], intro conjI allI impI)
      show "\<exists>vs. x = JArr vs" if "obj_get n ''enum'' = Some x" for x using e that by (simp add: n)
      show "\<exists>r. q = JStr r \<and> r \<noteq> []" if "t = ''string'' \<and> obj_get n ''pattern'' = Some q" for q
        using pattern [of q] that by (simp add: n)
    qed (use t scalar in \<open>simp_all add: n\<close>)
    moreover have "obj_get n ''$schema'' = None" using dollar by (simp add: n obj_get_put)
    ultimately show ?thesis using kids by (rule schema_ok.node)
  qed
qed

subsection \<open>Conformance\<close>

text \<open>
  What the dialect means: no errors, no paths, no collector. A string's length is its number of code
  points, an undeclared member is decided by \<open>additionalProperties\<close>.
\<close>

definition required_names :: "schema \<Rightarrow> string list" where
  "required_names s = (case obj_get s ''required'' of
     Some (JArr vs) \<Rightarrow> map (\<lambda>v. case v of JStr k \<Rightarrow> k | _ \<Rightarrow> []) vs | _ \<Rightarrow> [])"

definition member_schema :: "schema \<Rightarrow> string \<Rightarrow> schema option" where
  "member_schema s k = (case obj_get s ''properties'' of
     Some (JObj ps) \<Rightarrow> (case obj_get ps k of Some (JObj c) \<Rightarrow> Some c | _ \<Rightarrow> None)
   | _ \<Rightarrow> None)"

definition scalar_conforms :: "schema_env \<Rightarrow> schema \<Rightarrow> string \<Rightarrow> jvalue \<Rightarrow> bool" where
  "scalar_conforms env s t v \<longleftrightarrow> scalar_matches t v \<and> (case v of
     JStr x \<Rightarrow> within_numeric_bounds s (of_nat (length (code_points x))) ''minLength'' ''maxLength'' \<and>
       (case obj_get s ''pattern'' of Some (JStr p) \<Rightarrow> regex_test env p x | _ \<Rightarrow> True)
   | JNum r \<Rightarrow> within_numeric_bounds s r ''minimum'' ''maximum''
   | _ \<Rightarrow> True)"

definition allowed_value :: "schema \<Rightarrow> jvalue \<Rightarrow> bool" where
  "allowed_value s v \<longleftrightarrow>
     (case obj_get s ''const'' of Some c \<Rightarrow> canonical_text v = canonical_text c | None \<Rightarrow> True) \<and>
     (case obj_get s ''enum'' of Some (JArr vs) \<Rightarrow> list_ex (\<lambda>x. canonical_text x = canonical_text v) vs | _ \<Rightarrow> True)"

fun conforms :: "schema_env \<Rightarrow> schema \<Rightarrow> jvalue \<Rightarrow> bool" where
  "conforms env s (JObj kvs) \<longleftrightarrow>
     obj_get s ''type'' = Some (JStr ''object'') \<and> allowed_value s (JObj kvs) \<and>
     list_all (\<lambda>k. k \<in> set (obj_keys kvs)) (required_names s) \<and>
     list_all (\<lambda>kv. case member_schema s (fst kv) of
         Some c \<Rightarrow> conforms env c (snd kv)
       | None \<Rightarrow> (case obj_get s ''additionalProperties'' of
           Some (JBool b) \<Rightarrow> b
         | Some (JObj c) \<Rightarrow> conforms env c (snd kv)
         | _ \<Rightarrow> False)) kvs"
| "conforms env s (JArr js) \<longleftrightarrow>
     obj_get s ''type'' = Some (JStr ''array'') \<and> allowed_value s (JArr js) \<and>
     within_numeric_bounds s (of_nat (length js)) ''minItems'' ''maxItems'' \<and>
     (case obj_get s ''items'' of Some (JObj c) \<Rightarrow> list_all (\<lambda>j. conforms env c j) js | _ \<Rightarrow> False)"
| "conforms env s v \<longleftrightarrow> allowed_value s v \<and> (case obj_get s ''type'' of
     Some (JStr t) \<Rightarrow> t \<noteq> ''object'' \<and> t \<noteq> ''array'' \<and> scalar_conforms env s t v | _ \<Rightarrow> False)"

text \<open>No object inside the value has a member named as a member of \<open>Object.prototype\<close>.\<close>

fun plain_names :: "jvalue \<Rightarrow> bool" where
  "plain_names (JObj kvs) \<longleftrightarrow> list_all (\<lambda>kv. fst kv \<notin> set object_prototype_keys \<and> plain_names (snd kv)) kvs"
| "plain_names (JArr js) \<longleftrightarrow> list_all plain_names js"
| "plain_names v \<longleftrightarrow> True"

subsection \<open>The matcher decides conformance\<close>

lemma rfold_flags:
  assumes "\<And>acc x. x \<in> set xs \<Longrightarrow> \<exists>out. f acc x = Inr (fst acc \<and> P x, out)"
  shows "\<exists>out. rfold f acc xs = Inr (fst acc \<and> list_all P xs, out)"
  using assms
proof (induction xs arbitrary: acc)
  case (Cons x xs)
  obtain out where "f acc x = Inr (fst acc \<and> P x, out)" using Cons.prems [of x acc] by auto
  moreover obtain out' where "rfold f (fst acc \<and> P x, out) xs = Inr ((fst acc \<and> P x) \<and> list_all P xs, out')"
    using Cons.IH [of "(fst acc \<and> P x, out)"] Cons.prems by auto
  ultimately show ?case by auto
qed (cases acc, auto)

lemma check_required_flag:
  "fst (foldl (check_required kvs path) acc rs) \<longleftrightarrow> fst acc \<and> list_all (\<lambda>k. k \<in> set (obj_keys kvs)) rs"
  by (induction rs arbitrary: acc) (auto simp: check_required_def)

lemma node_okE:
  assumes "node_ok s"
  obtains t where "obj_get s ''type'' = Some (JStr t)" "t \<in> set schema_types"
    "\<And>e. obj_get s ''enum'' = Some e \<Longrightarrow> \<exists>vs. e = JArr vs"
    "\<And>p. t = ''string'' \<Longrightarrow> obj_get s ''pattern'' = Some p \<Longrightarrow> \<exists>r. p = JStr r \<and> r \<noteq> []"
    "t = ''object'' \<Longrightarrow> \<exists>ps rs. obj_get s ''properties'' = Some (JObj ps) \<and> list_all (\<lambda>kv. \<exists>c. snd kv = JObj c) ps \<and>
       obj_get s ''required'' = Some (JArr (map JStr rs)) \<and> [] \<notin> set rs"
    "t = ''object'' \<Longrightarrow> (\<exists>b. obj_get s ''additionalProperties'' = Some (JBool b)) \<or>
       (\<exists>c. obj_get s ''additionalProperties'' = Some (JObj c))"
    "t = ''array'' \<Longrightarrow> \<exists>c. obj_get s ''items'' = Some (JObj c)"
  using assms unfolding node_ok_def by (elim exE conjE) (rule that, auto)

lemma scalar_decided:
  assumes "node_ok s" "obj_get s ''type'' = Some (JStr t)"
  shows "scalar_within_schema env s t v = Inr (scalar_conforms env s t v)"
proof -
  have "t = ''string''" if "scalar_matches t (JStr x)" for x
    using that by (auto simp: scalar_matches_def split: if_splits)
  with assms show ?thesis
    by (auto simp: scalar_within_schema_def scalar_conforms_def string_matches_def elim!: node_okE
        split: json.splits option.splits)
qed

lemma collect_typed_flag:
  assumes "\<And>out. \<exists>out'. collect_typed_mismatch env (\<lambda>s c p u. collect_mismatch env s c p u) s v path out = Inr (m, out')"
    and "node_ok s"
  shows "\<exists>out'. collect_mismatch env s v path out = Inr (m \<and> allowed_value s v, out')"
proof -
  obtain out' where "collect_typed_mismatch env (\<lambda>s c p u. collect_mismatch env s c p u) s v path out = Inr (m, out')"
    using assms(1) by blast
  note typed = this
  have enum: "\<exists>vs. e = JArr vs" if "obj_get s ''enum'' = Some e" for e using assms(2) that by (auto simp: node_ok_def)
  show ?thesis
  proof (cases "obj_get s ''enum''")
    case None
    then show ?thesis unfolding collect_mismatch.simps [of env s v path out] typed allowed_value_def
      by (cases "obj_get s ''const''") (simp_all add: note_invalid_def)
  next
    case (Some e)
    with enum obtain vs where "obj_get s ''enum'' = Some (JArr vs)" by blast
    then show ?thesis unfolding collect_mismatch.simps [of env s v path out] typed allowed_value_def
      by (cases "obj_get s ''const''") (simp_all add: note_invalid_def catalog_array_def)
  qed
qed

lemma typed_of_type:
  "obj_get s ''type'' = Some (JStr t) \<Longrightarrow> t \<in> set schema_types \<Longrightarrow>
     collect_typed_mismatch env rec s v path out =
       (if t = ''object'' then (case v of JObj kvs \<Rightarrow> collect_object_mismatch rec s kvs path out | _ \<Rightarrow> Inr (note_invalid out path))
        else if t = ''array'' then collect_array_mismatch rec s v path out
        else rbind (scalar_within_schema env s t v) (\<lambda>m. Inr (if m then (True, out) else note_invalid out path)))"
  by (auto simp: collect_typed_mismatch_def catalog_string_def schema_types_def require_catalog_def)

lemma scalar_flag:
  assumes "node_ok s" "obj_get s ''type'' = Some (JStr t)" "t \<in> set schema_types" "t \<noteq> ''object''" "t \<noteq> ''array''"
  shows "\<exists>out'. collect_typed_mismatch env rec s v path out = Inr (scalar_conforms env s t v, out')"
  using assms by (simp add: typed_of_type scalar_decided note_invalid_def)

lemma member_decided:
  assumes "schema_ok s" "obj_get s ''type'' = Some (JStr ''object'')" "obj_get s ''properties'' = Some (JObj ps)"
    and rec: "\<And>c p u. schema_ok c \<Longrightarrow> \<exists>u'. rec c (snd kv) p u = Inr (conforms env c (snd kv), u')"
    and plain: "fst kv \<notin> set object_prototype_keys"
  shows "\<exists>u. check_member rec s ps path acc kv = Inr (fst acc \<and> (case member_schema s (fst kv) of
         Some c \<Rightarrow> conforms env c (snd kv)
       | None \<Rightarrow> (case obj_get s ''additionalProperties'' of
           Some (JBool b) \<Rightarrow> b | Some (JObj c) \<Rightarrow> conforms env c (snd kv) | _ \<Rightarrow> False)), u)"
proof -
  from assms(1) have node: "node_ok s" and kids: "\<And>c. child_schema s c \<Longrightarrow> schema_ok c" by (auto elim: schema_okE)
  from node assms(2) have closed: "(\<exists>b. obj_get s ''additionalProperties'' = Some (JBool b)) \<or>
      (\<exists>c. obj_get s ''additionalProperties'' = Some (JObj c))" and objs: "list_all (\<lambda>kv. \<exists>c. snd kv = JObj c) ps"
    using assms(3) by (auto elim!: node_okE)
  show ?thesis
  proof (cases "obj_get ps (fst kv)")
    case (Some v)
    then have mem: "(fst kv, v) \<in> set ps" by (rule obj_get_Some_in)
    with objs obtain c where v: "v = JObj c" by (auto simp: list_all_iff)
    with mem assms(3) have "schema_ok c" by (intro kids) (auto simp: child_schema_def)
    from rec [OF this] obtain u' where "rec c (snd kv) (join_schema_path path (fst kv)) (snd acc) = Inr (conforms env c (snd kv), u')"
      by blast
    with Some v assms(3) show ?thesis
      by (auto simp: check_member_def property_lookup_def catalog_object_def member_schema_def)
  next
    case None
    note undeclared = this
    show ?thesis
    proof (cases "\<exists>c. obj_get s ''additionalProperties'' = Some (JObj c)")
      case True
      then obtain c where c: "obj_get s ''additionalProperties'' = Some (JObj c)" ..
      then have "schema_ok c" by (intro kids) (simp add: child_schema_def)
      from rec [OF this] obtain u' where "rec c (snd kv) (join_schema_path path ''*'') (snd acc) = Inr (conforms env c (snd kv), u')"
        by blast
      with undeclared c assms(3) plain show ?thesis
        by (auto simp: check_member_def property_lookup_def catalog_object_def member_schema_def)
    next
      case False
      with closed obtain b where "obj_get s ''additionalProperties'' = Some (JBool b)" by blast
      with undeclared assms(3) plain show ?thesis
        by (cases b; cases acc) (auto simp: check_member_def property_lookup_def member_schema_def)
    qed
  qed
qed

lemma required_names_eq: "obj_get s ''required'' = Some (JArr (map JStr rs)) \<Longrightarrow> required_names s = rs"
  by (simp add: required_names_def comp_def)

lemma collect_decides:
  "schema_ok s \<Longrightarrow> plain_names v \<Longrightarrow> \<exists>out'. collect_mismatch env s v path out = Inr (conforms env s v, out')"
proof (induction v arbitrary: s path out rule: measure_induct_rule [where f = size])
  case (less v)
  let ?rec = "\<lambda>s c p u. collect_mismatch env s c p u"
  from less.prems(1) have node: "node_ok s" and kids: "\<And>c. child_schema s c \<Longrightarrow> schema_ok c" by (auto elim: schema_okE)
  from node obtain t where t: "obj_get s ''type'' = Some (JStr t)" "t \<in> set schema_types" by (rule node_okE)
  note typed = typed_of_type [OF t] and decided = collect_typed_flag [OF _ node]
  have never: "conforms env s v = False" "\<exists>out'. collect_typed_mismatch env ?rec s v path out = Inr (False, out')"
    if "t = ''object'' \<Longrightarrow> \<not> (\<exists>kvs. v = JObj kvs)" "t = ''array'' \<Longrightarrow> \<not> (\<exists>js. v = JArr js)" "t = ''object'' \<or> t = ''array''" for out
    using that t by (cases v; auto simp: typed collect_array_mismatch_def note_invalid_def)+
  consider (object) kvs where "t = ''object''" "v = JObj kvs" | (array) js where "t = ''array''" "v = JArr js"
    | (wrong) "t = ''object'' \<or> t = ''array''" "t = ''object'' \<Longrightarrow> \<not> (\<exists>kvs. v = JObj kvs)" "t = ''array'' \<Longrightarrow> \<not> (\<exists>js. v = JArr js)"
    | (scalar) "t \<noteq> ''object''" "t \<noteq> ''array''" by blast
  then show ?case
  proof cases
    case object
    from node obtain ps rs where ps: "obj_get s ''properties'' = Some (JObj ps)"
      and rs: "obj_get s ''required'' = Some (JArr (map JStr rs))" "[] \<notin> set rs"
      using t object by (auto elim!: node_okE)
    let ?P = "\<lambda>kv. case member_schema s (fst kv) of
         Some c \<Rightarrow> conforms env c (snd kv)
       | None \<Rightarrow> (case obj_get s ''additionalProperties'' of
           Some (JBool b) \<Rightarrow> b | Some (JObj c) \<Rightarrow> conforms env c (snd kv) | _ \<Rightarrow> False)"
    have step: "\<exists>u. check_member ?rec s ps path acc kv = Inr (fst acc \<and> ?P kv, u)" if "kv \<in> set kvs" for acc kv path
    proof (rule member_decided [OF less.prems(1)])
      show "\<exists>u'. collect_mismatch env c (snd kv) p u = Inr (conforms env c (snd kv), u')" if "schema_ok c" for c p u
        using \<open>kv \<in> set kvs\<close> less.prems(2) that
        by (intro less.IH) (auto simp: object list_all_iff dest: size_member simp del: json.size)
      show "fst kv \<notin> set object_prototype_keys" using that less.prems(2) object by (auto simp: list_all_iff)
    qed (use t object ps in auto)
    have "\<exists>out'. collect_typed_mismatch env ?rec s v path out =
        Inr (list_all (\<lambda>k. k \<in> set (obj_keys kvs)) rs \<and> list_all ?P kvs, out')" for out
      using rfold_flags [of kvs "check_member ?rec s ps path" ?P "foldl (check_required kvs path) (True, out) rs", OF step]
        rs(2) by (simp add: typed object collect_object_mismatch_def catalog_object_def ps rs(1) catalog_array_def
          rmap_strings [THEN iffD2] check_required_flag)
    from decided [OF this] show ?thesis by (simp add: object t required_names_eq [OF rs(1)] conj_ac)
  next
    case array
    from node obtain c where c: "obj_get s ''items'' = Some (JObj c)" using t array by (auto elim!: node_okE)
    then have "schema_ok c" by (intro kids) (simp add: child_schema_def)
    then have step: "\<exists>u. check_item ?rec c path acc j = Inr (fst acc \<and> conforms env c j, u)" if "j \<in> set js" for acc j path
    proof -
      have "\<exists>u. collect_mismatch env c j (path @ ''[]'') (snd acc) = Inr (conforms env c j, u)"
        using \<open>schema_ok c\<close> that less.prems(2)
        by (intro less.IH) (auto simp: array list_all_iff dest: size_item simp del: json.size)
      then show ?thesis by (auto simp: check_item_def)
    qed
    have "\<exists>out'. collect_typed_mismatch env ?rec s v path out =
        Inr (within_numeric_bounds s (of_nat (length js)) ''minItems'' ''maxItems'' \<and> list_all (conforms env c) js, out')" for out
      using rfold_flags [of js "check_item ?rec c path" "conforms env c" "(True, out)", OF step]
      by (auto simp: typed array collect_array_mismatch_def c catalog_object_def note_invalid_def)
    from decided [OF this] show ?thesis by (simp add: array t c conj_ac)
  next
    case wrong
    from decided [OF never(2) [OF wrong(2,3,1)]] never(1) [OF wrong(2,3,1)] show ?thesis by simp
  next
    case scalar
    then have "\<not> scalar_matches t (JObj kvs)" "\<not> scalar_matches t (JArr js)" for kvs js
      by (simp_all add: scalar_matches_def)
    then have "conforms env s v \<longleftrightarrow> scalar_conforms env s t v \<and> allowed_value s v"
      using t(1) scalar by (cases v) (simp_all add: scalar_conforms_def [of env s t "JObj _"] scalar_conforms_def [of env s t "JArr _"] conj_commute)
    with decided [OF scalar_flag [OF node t scalar]] show ?thesis by simp
  qed
qed

section \<open>Compiling again\<close>

text \<open>Compiling a compiled schema gives it back.\<close>

lemma distinct_map_sort: "distinct (map f (sort_key k xs)) \<longleftrightarrow> distinct (map f xs)"
  by (metis mset_eq_imp_distinct_iff mset_map mset_sort)

lemma sort_key_sort_key [simp]: "sort_key k (sort_key k xs) = sort_key k xs"
  by (intro sort_key_id_if_sorted) (rule sorted_sort_key)

lemma enum_again:
  assumes "normalized_enum raw t = Inr vals" "obj_get s ''enum'' = obj_get (with_enum vals raw) ''enum''"
  shows "normalized_enum s t = Inr vals" "with_enum vals s = s"
proof -
  from normalized_enum_Inr [OF assms(1)] show "normalized_enum s t = Inr vals"
  proof (elim disjE exE conjE)
    fix vs assume vs: "vals = Some (sort_key (js_units \<circ> canonical_text) vs)" "vs \<noteq> []" "t \<noteq> ''object''" "t \<noteq> ''array''"
      "list_all (scalar_matches t) vs" "distinct (map canonical_text vs)"
    have e: "obj_get s ''enum'' = Some (JArr (sort_key (js_units \<circ> canonical_text) vs))"
      by (simp add: assms(2) vs(1) with_enum_def obj_get_put)
    have "sort_key (js_units \<circ> canonical_text) vs \<noteq> []"
      using vs(2) by (metis length_0_conv length_sort)
    with vs e show ?thesis
      by (simp add: normalized_enum_def catalog_array_def distinct_map_sort list_all_iff)
  qed (use assms(2) in \<open>simp add: normalized_enum_def with_enum_def\<close>)
  show "with_enum vals s = s"
    using assms(2) by (cases vals) (simp_all add: with_enum_def obj_get_put obj_put_same)
qed

lemma normalize_schema_typed:
  assumes "obj_get s ''type'' = Some (JStr t)" "t \<in> set schema_types"
    "list_all (\<lambda>k. k \<in> set common_keys \<or> k \<in> set (type_keys t)) (obj_keys s)"
    "\<And>d. obj_get s ''description'' = Some d \<Longrightarrow> \<exists>u. catalog_string (Some d) = Inr u"
    "\<And>c. obj_get s ''const'' = Some c \<Longrightarrow> scalar_matches t c"
    "normalized_enum s t = Inr vals"
    "\<And>vs c. vals = Some vs \<Longrightarrow> obj_get s ''const'' = Some c \<Longrightarrow> list_ex (\<lambda>v. canonical_text v = canonical_text c) vs"
  shows "normalize_schema env s = normalize_typed_schema env (normalize_schema env) t (with_enum vals s)"
proof -
  have "t \<noteq> []" using assms(2) by (auto simp: schema_types_def)
  then have ty: "catalog_string (obj_get s ''type'') = Inr t" by (simp add: assms(1))
  obtain d where d: "(case obj_get s ''description'' of None \<Rightarrow> Inr [] | Some d \<Rightarrow> catalog_string (Some d)) = Inr d"
    using assms(4) by (cases "obj_get s ''description''") auto
  have c: "(case obj_get s ''const'' of None \<Rightarrow> Inr () | Some c \<Rightarrow> require_catalog (scalar_matches t c) InvalidSchema) = Inr ()"
    using assms(5) by (auto split: option.splits)
  have m: "(case (vals, obj_get s ''const'') of
         (Some vs, Some c) \<Rightarrow> require_catalog (list_ex (\<lambda>v. canonical_text v = canonical_text c) vs) InvalidSchema
       | _ \<Rightarrow> Inr ()) = Inr ()"
    using assms(7) by (auto split: option.splits)
  show ?thesis unfolding normalize_schema.simps [of env s] ty rbind.simps assms(6) d c m with_enum_def
    using assms(2,3) by simp
qed

lemma object_schema_again:
  assumes "obj_get s ''properties'' = Some (JObj ps)" "obj_get s ''required'' = Some (JArr (map JStr (sort_key js_units rs)))"
    "[] \<notin> set rs" "distinct rs" "\<And>k. k \<in> set rs \<Longrightarrow> k \<in> set (obj_keys ps)"
    "rmap (normalize_property f) ps = Inr ps" "obj_get s ''additionalProperties'' = Some extra"
    "(\<exists>b. extra = JBool b) \<or> (\<exists>e. extra = JObj e \<and> f e = Inr e)"
  shows "object_schema f s = Inr s"
proof -
  have texts: "rmap (\<lambda>v. catalog_string (Some v)) (map JStr (sort_key js_units rs)) = Inr (sort_key js_units rs)"
    using assms(3) by (simp add: rmap_strings)
  have names: "distinct (sort_key js_units rs)" "list_all (\<lambda>k. k \<in> set (obj_keys ps)) (sort_key js_units rs)"
    using assms(4,5) distinct_map_sort [of "\<lambda>x. x" js_units rs] by (auto simp: list_all_iff)
  from assms(8) show ?thesis
    using assms(1,2,6,7) texts names
    by (auto simp: object_schema_def catalog_object_def catalog_array_def obj_put_same)
qed

lemma keys_with_enum:
  "normalized_enum raw t = Inr vals \<Longrightarrow> set (obj_keys (with_enum vals raw)) = set (obj_keys raw)"
  using normalized_enum_Inr [of raw t vals] obj_get_None_iff [of raw "''enum''"]
  by (auto simp: with_enum_def)

lemma rmap_again:
  "rmap (normalize_property f) ps = Inr ps' \<Longrightarrow>
     (\<And>k c n. (k, JObj c) \<in> set ps \<Longrightarrow> f c = Inr n \<Longrightarrow> g n = Inr n) \<Longrightarrow>
     rmap (normalize_property g) ps' = Inr ps' \<and> map fst ps' = map fst ps"
proof (induction ps arbitrary: ps')
  case (Cons kv ps)
  from Cons.prems(1) obtain c n ps2 where kv: "snd kv = JObj c" "f c = Inr n" "ps' = (fst kv, JObj n) # ps2"
    and rest: "rmap (normalize_property f) ps = Inr ps2"
    by (auto simp: normalize_property_Inr)
  have "(fst kv, JObj c) \<in> set (kv # ps)" using kv(1) by (cases kv) auto
  then have "g n = Inr n" using Cons.prems(2) kv(2) by blast
  then have "normalize_property g (fst kv, JObj n) = Inr (fst kv, JObj n)" by (simp add: normalize_property_Inr)
  moreover have "rmap (normalize_property g) ps2 = Inr ps2 \<and> map fst ps2 = map fst ps"
    using Cons.IH [OF rest] Cons.prems(2) by auto
  ultimately show ?case using kv(3) by simp
qed simp

lemma normalize_again: "normalize_schema env raw = Inr s \<Longrightarrow> normalize_schema env s = Inr s"
proof (induction "size (JObj raw)" arbitrary: raw s rule: less_induct)
  case less
  note IH = less.hyps [OF child_schema_size]
  from less.prems obtain t vals where t: "obj_get raw ''type'' = Some (JStr t)" "t \<in> set schema_types"
    and keys: "list_all (\<lambda>k. k \<in> set common_keys \<or> k \<in> set (type_keys t)) (obj_keys raw)"
    and enum: "normalized_enum raw t = Inr vals"
    and const: "\<And>c. obj_get raw ''const'' = Some c \<Longrightarrow> scalar_matches t c"
      "\<And>vs c. vals = Some vs \<Longrightarrow> obj_get raw ''const'' = Some c \<Longrightarrow> list_ex (\<lambda>v. canonical_text v = canonical_text c) vs"
    and desc: "\<And>d. obj_get raw ''description'' = Some d \<Longrightarrow> \<exists>u. catalog_string (Some d) = Inr u"
    and typed: "normalize_typed_schema env (normalize_schema env) t (with_enum vals raw) = Inr s"
    by (rule normalize_schema_Inr) blast
  have again: "normalize_schema env s = Inr s"
    if frame: "\<And>k. k \<in> {''type'', ''description'', ''const''} \<Longrightarrow> obj_get s k = obj_get raw k"
        "obj_get s ''enum'' = obj_get (with_enum vals raw) ''enum''" "set (obj_keys s) = set (obj_keys raw)"
      and once: "normalize_typed_schema env (normalize_schema env) t s = Inr s"
  proof -
    have k: "list_all (\<lambda>k. k \<in> set common_keys \<or> k \<in> set (type_keys t)) (obj_keys s)"
      using keys frame(3) by (simp add: list_all_iff)
    have "normalize_schema env s = normalize_typed_schema env (normalize_schema env) t (with_enum vals s)"
      using frame(1) t desc const enum_again(1) [OF enum frame(2)] k by (intro normalize_schema_typed) auto
    with once enum_again(2) [OF enum frame(2)] show ?thesis by simp
  qed
  note keys_enum = keys_with_enum [OF enum]
  consider (object) "t = ''object''" | (array) "t = ''array''" | (scalar) "t \<noteq> ''object''" "t \<noteq> ''array''" by blast
  then show ?case
  proof cases
    case object
    then have "object_schema (normalize_schema env) (with_enum vals raw) = Inr s"
      using typed by (simp add: normalize_typed_schema_def)
    then obtain ps rs ps' extra extra' where ps: "obj_get raw ''properties'' = Some (JObj ps)"
      and req: "obj_get raw ''required'' = Some (JArr (map JStr rs))"
      and rs: "[] \<notin> set rs" "distinct rs" "\<And>k. k \<in> set rs \<Longrightarrow> k \<in> set (obj_keys ps)"
      and ps': "rmap (normalize_property (normalize_schema env)) ps = Inr ps'"
      and extra: "obj_get raw ''additionalProperties'' = Some extra"
        "(\<exists>b. extra = JBool b \<and> extra' = JBool b) \<or>
           (\<exists>e e'. extra = JObj e \<and> normalize_schema env e = Inr e' \<and> extra' = JObj e')"
      and n: "s = obj_put ''additionalProperties'' extra' (obj_put ''required'' (JArr (map JStr (sort_key js_units rs)))
           (obj_put ''properties'' (JObj ps') (with_enum vals raw)))"
      by (rule object_schema_Inr) auto
    have kids: "rmap (normalize_property (normalize_schema env)) ps' = Inr ps' \<and> map fst ps' = map fst ps"
    proof (rule rmap_again [OF ps'])
      fix k c m assume "(k, JObj c) \<in> set ps" "normalize_schema env c = Inr m"
      then show "normalize_schema env m = Inr m" using ps by (intro IH [of c m]) (auto simp: child_schema_def)
    qed
    have closed: "(\<exists>b. extra' = JBool b) \<or> (\<exists>e. extra' = JObj e \<and> normalize_schema env e = Inr e)"
      using extra(2)
    proof (elim disjE exE conjE)
      fix e e' assume e: "extra = JObj e" "normalize_schema env e = Inr e'" "extra' = JObj e'"
      then have "child_schema raw e" using extra(1) by (simp add: child_schema_def)
      from IH [OF this e(2)] e(3) show ?thesis by blast
    qed blast
    have "object_schema (normalize_schema env) s = Inr s"
    proof (rule object_schema_again [where ps = ps' and rs = rs and extra = extra'])
      show "k \<in> set (obj_keys ps')" if "k \<in> set rs" for k using rs(3) [OF that] kids by (simp add: obj_keys_def)
    qed (use kids closed rs in \<open>simp_all add: n obj_get_put\<close>)
    then have once: "normalize_typed_schema env (normalize_schema env) t s = Inr s"
      by (simp add: normalize_typed_schema_def object)
    have have_keys: "''properties'' \<in> set (obj_keys raw)" "''required'' \<in> set (obj_keys raw)" "''additionalProperties'' \<in> set (obj_keys raw)"
      using ps req extra(1) by (metis obj_get_None_iff option.distinct(1))+
    show ?thesis
    proof (rule again [OF _ _ _ once])
      show "obj_get s k = obj_get raw k" if "k \<in> {''type'', ''description'', ''const''}" for k
        using that by (elim insertE) (simp_all add: n obj_get_put)
      show "obj_get s ''enum'' = obj_get (with_enum vals raw) ''enum''" by (simp add: n obj_get_put)
      show "set (obj_keys s) = set (obj_keys raw)" using have_keys by (simp add: n keys_enum insert_absorb)
    qed
  next
    case array
    then obtain c n' u where c: "obj_get raw ''items'' = Some (JObj c)" "normalize_schema env c = Inr n'"
      and bounds: "numeric_bounds (with_enum vals raw) ''minItems'' ''maxItems'' True = Inr u"
      and n: "s = obj_put ''items'' (JObj n') (with_enum vals raw)"
      using typed by (auto simp: normalize_typed_schema_def)
    have "normalize_schema env n' = Inr n'" using IH [of c n'] c by (simp add: child_schema_def)
    moreover have "numeric_bounds s ''minItems'' ''maxItems'' True = Inr u"
      using bounds by (simp add: n numeric_bounds_def check_bound_def obj_get_put)
    ultimately have once: "normalize_typed_schema env (normalize_schema env) t s = Inr s"
      by (simp add: normalize_typed_schema_def array n obj_get_put catalog_object_def obj_put_same)
    have "''items'' \<in> set (obj_keys raw)" using c(1) by (metis obj_get_None_iff option.distinct(1))
    then have same: "set (obj_keys s) = set (obj_keys raw)" by (simp add: n keys_enum insert_absorb)
    show ?thesis
    proof (rule again [OF _ _ same once])
      show "obj_get s k = obj_get raw k" if "k \<in> {''type'', ''description'', ''const''}" for k
        using that by (elim insertE) (simp_all add: n obj_get_put)
    qed (simp add: n obj_get_put)
  next
    case scalar
    then have n: "s = with_enum vals raw" using typed by (auto simp: normalize_typed_schema_def split: if_splits)
    with typed show ?thesis using keys_enum by (intro again) auto
  qed
qed

end
