(* ===== verification/Catalog_Reports.thy ===== *)
theory Catalog_Reports
  imports Catalog_Conformance
begin

text \<open>
  The account a rejection carries: what it can name, that it is never empty, and the only error the
  matcher throws.
\<close>

subsection \<open>The paths a schema can name\<close>

inductive names_path :: "schema \<Rightarrow> string \<Rightarrow> string \<Rightarrow> bool" where
  here: "names_path s path (shown_path path)"
| missing: "k \<in> set (required_names s) \<Longrightarrow> names_path s path (join_schema_path path k)"
| member: "obj_get s ''properties'' = Some (JObj ps) \<Longrightarrow> obj_get ps k = Some (JObj c) \<Longrightarrow>
    names_path c (join_schema_path path k) q \<Longrightarrow> names_path s path q"
| additional: "obj_get s ''additionalProperties'' = Some (JObj c) \<Longrightarrow>
    names_path c (join_schema_path path ''*'') q \<Longrightarrow> names_path s path q"
| item: "obj_get s ''items'' = Some (JObj c) \<Longrightarrow> names_path c (path @ ''[]'') q \<Longrightarrow> names_path s path q"

definition shows_something :: "mismatch_collector \<Rightarrow> bool" where
  "shows_something out \<longleftrightarrow> mc_missing out \<noteq> [] \<or> mc_invalid out \<noteq> [] \<or> 0 < mc_unexpected out"

definition paths_in :: "string set \<Rightarrow> mismatch_collector \<Rightarrow> bool" where
  "paths_in S out \<longleftrightarrow> set (mc_missing out) \<subseteq> S \<and> set (mc_invalid out) \<subseteq> S \<and>
     distinct (mc_missing out) \<and> distinct (mc_invalid out)"

text \<open>A step from one answer to the next: no path outside the set, and a mismatch shows.\<close>

definition answer_ok :: "string set \<Rightarrow> mismatch_collector \<Rightarrow> bool \<times> mismatch_collector \<Rightarrow> bool" where
  "answer_ok S out r \<longleftrightarrow> paths_in S (snd r) \<and> (fst r \<or> shows_something (snd r)) \<and>
     (shows_something out \<longrightarrow> shows_something (snd r))"

lemma set_set_add [simp]: "set (set_add x xs) = insert x (set xs)"
  by (auto simp: set_add_def)

lemma distinct_set_add [simp]: "distinct (set_add x xs) = distinct xs"
  by (simp add: set_add_def)

lemma set_add_nonempty [simp]: "set_add x xs \<noteq> []"
  by (auto simp: set_add_def)

lemma answer_ok_refl: "paths_in S out \<Longrightarrow> answer_ok S out (True, out)"
  by (simp add: answer_ok_def)

lemma answer_ok_invalid:
  "paths_in S out \<Longrightarrow> shown_path path \<in> S \<Longrightarrow> answer_ok S u (note_invalid out path)"
  by (simp add: answer_ok_def note_invalid_def paths_in_def shows_something_def)

lemma answer_ok_trans:
  "answer_ok S out acc \<Longrightarrow> answer_ok S (snd acc) (m, u) \<Longrightarrow> answer_ok S out (m \<and> fst acc, u)"
  by (auto simp: answer_ok_def)

lemma answer_ok_unexpected:
  "answer_ok S out acc \<Longrightarrow> answer_ok S out (False, (snd acc)\<lparr> mc_unexpected := mc_unexpected (snd acc) + 1 \<rparr>)"
  by (simp add: answer_ok_def paths_in_def shows_something_def)

lemma answer_ok_required:
  "answer_ok S out acc \<Longrightarrow> join_schema_path path ` set rs \<subseteq> S \<Longrightarrow>
     answer_ok S out (foldl (check_required kvs path) acc rs)"
proof (induction rs arbitrary: acc)
  case (Cons k rs)
  have "answer_ok S out (check_required kvs path acc k)"
    using Cons.prems by (auto simp: check_required_def answer_ok_def paths_in_def shows_something_def note_missing_def)
  with Cons show ?case by simp
qed simp

lemma rfold_keeps:
  "(\<And>s x t. x \<in> set xs \<Longrightarrow> I s \<Longrightarrow> f s x = Inr t \<Longrightarrow> I t) \<Longrightarrow> I s \<Longrightarrow> rfold f s xs = Inr t \<Longrightarrow> I t"
proof (induction xs arbitrary: s)
  case (Cons x xs)
  from Cons.prems(3) obtain u where u: "f s x = Inr u" "rfold f u xs = Inr t" by auto
  have "I u" using Cons.prems(1) [of x s u] Cons.prems(2) u(1) by simp
  then show ?case using Cons.prems(1) u(2) by (intro Cons.IH [of u]) auto
qed simp

lemma check_member_answer:
  assumes rec: "\<And>c p u r. collect c (snd kv) p u = Inr r \<Longrightarrow> paths_in S u \<Longrightarrow>
      (\<And>q. names_path c p q \<Longrightarrow> names_path s path q) \<Longrightarrow> answer_ok S u r"
    and ps: "obj_get s ''properties'' = Some (JObj ps)" and acc: "answer_ok S out acc"
    and step: "check_member collect s ps path acc kv = Inr acc'"
  shows "answer_ok S out acc'"
proof -
  have u: "paths_in S (snd acc)" using acc by (simp add: answer_ok_def)
  have called: "answer_ok S out acc'"
    if "acc' = (m \<and> fst acc, u')" "collect c (snd kv) p (snd acc) = Inr (m, u')" "\<And>q. names_path c p q \<Longrightarrow> names_path s path q"
    for c p m u'
    using answer_ok_trans [OF acc rec [OF that(2) u that(3)]] that(1) by simp
  show ?thesis
  proof (cases "property_lookup ps (fst kv)")
    case (Declared x)
    with step obtain c m u' where c: "x = JObj c" "acc' = (m \<and> fst acc, u')"
      "collect c (snd kv) (join_schema_path path (fst kv)) (snd acc) = Inr (m, u')" by (auto simp: check_member_def)
    have "obj_get ps (fst kv) = Some (JObj c)"
      using Declared c(1) by (auto simp: property_lookup_def split: option.splits if_splits)
    from called [OF c(2,3)] names_path.member [OF ps this] show ?thesis by blast
  next
    case Inherited
    with step show ?thesis by (simp add: check_member_def)
  next
    case Undeclared
    note looked = this
    consider (closed) "acc' = (False, (snd acc)\<lparr> mc_unexpected := mc_unexpected (snd acc) + 1 \<rparr>)" | (free) "acc' = acc"
      | (schema) c m u' where "obj_get s ''additionalProperties'' = Some (JObj c)" "acc' = (m \<and> fst acc, u')"
        "collect c (snd kv) (join_schema_path path ''*'') (snd acc) = Inr (m, u')"
      using step looked by (auto simp: check_member_def split: if_splits)
    then show ?thesis
    proof cases
      case closed
      show ?thesis unfolding closed by (rule answer_ok_unexpected [OF acc])
    next
      case free
      with acc show ?thesis by simp
    next
      case schema
      from called [OF schema(2,3)] names_path.additional [OF schema(1)] show ?thesis by blast
    qed
  qed
qed

lemma check_item_answer:
  assumes rec: "\<And>p u r. collect c j p u = Inr r \<Longrightarrow> paths_in S u \<Longrightarrow>
      (\<And>q. names_path c p q \<Longrightarrow> names_path s path q) \<Longrightarrow> answer_ok S u r"
    and c: "obj_get s ''items'' = Some (JObj c)" and acc: "answer_ok S out acc"
    and step: "check_item collect c path acc j = Inr acc'"
  shows "answer_ok S out acc'"
proof -
  from step obtain m u' where m: "acc' = (m \<and> fst acc, u')" "collect c j (path @ ''[]'') (snd acc) = Inr (m, u')"
    by (auto simp: check_item_def)
  have "answer_ok S (snd acc) (m, u')"
    using rec [OF m(2)] names_path.item [OF c] acc by (simp add: answer_ok_def)
  with acc show ?thesis by (simp add: m(1) answer_ok_trans)
qed

lemma collect_answer:
  "collect_mismatch env s v path out = Inr r \<Longrightarrow> Collect (names_path s path) \<subseteq> S \<Longrightarrow> paths_in S out \<Longrightarrow> answer_ok S out r"
proof (induction v arbitrary: s path out r rule: measure_induct_rule [where f = size])
  case (less v)
  let ?rec = "\<lambda>s c p u. collect_mismatch env s c p u"
  have "shown_path path \<in> S" using less.prems(2) names_path.here by blast
  note noted = answer_ok_invalid [OF _ this] and same = answer_ok_refl [OF less.prems(3)]
  have sub: "answer_ok S u r'" if "size v' < size v" "collect_mismatch env c v' p u = Inr r'" "paths_in S u"
      "\<And>q. names_path c p q \<Longrightarrow> names_path s path q" for c v' p u r'
    using less.IH [OF that(1,2)] that(3,4) less.prems(2) by blast
  have obj: "answer_ok S out r1" if kvs: "v = JObj kvs" and r1: "collect_object_mismatch ?rec s kvs path out = Inr r1" for kvs r1
  proof -
    from r1 obtain ps rs where ps: "obj_get s ''properties'' = Some (JObj ps)"
      and rs: "obj_get s ''required'' = Some (JArr (map JStr rs))"
      and walk: "rfold (check_member ?rec s ps path) (foldl (check_required kvs path) (True, out) rs) kvs = Inr r1"
      by (auto simp: collect_object_mismatch_def rmap_strings)
    have "join_schema_path path ` set rs \<subseteq> S"
      using less.prems(2) names_path.missing [of _ s path] required_names_eq [OF rs] by auto
    then have "answer_ok S out (foldl (check_required kvs path) (True, out) rs)"
      by (intro answer_ok_required same)
    then show ?thesis using walk
    proof (rule rfold_keeps [rotated])
      fix acc kv acc' assume kv: "kv \<in> set kvs" and acc: "answer_ok S out acc" "check_member ?rec s ps path acc kv = Inr acc'"
      have "size (snd kv) < size v" using kvs kv by (simp add: size_member del: json.size)
      with sub show "answer_ok S out acc'" by (intro check_member_answer [OF _ ps acc]) blast
    qed
  qed
  have arr: "answer_ok S out r1" if walked: "collect_array_mismatch ?rec s v path out = Inr r1" for r1
  proof (cases "\<exists>js. v = JArr js \<and> within_numeric_bounds s (of_nat (length js)) ''minItems'' ''maxItems''")
    case True
    then obtain js c where js: "v = JArr js" and c: "obj_get s ''items'' = Some (JObj c)"
      and walk: "rfold (check_item ?rec c path) (True, out) js = Inr r1"
      using walked by (auto simp: collect_array_mismatch_def)
    show ?thesis using same walk
    proof (rule rfold_keeps [rotated])
      fix acc j acc' assume j: "j \<in> set js" and acc: "answer_ok S out acc" "check_item ?rec c path acc j = Inr acc'"
      have "size j < size v" using js j by (simp add: size_item del: json.size)
      with sub show "answer_ok S out acc'" by (intro check_item_answer [OF _ c acc]) blast
    qed
  next
    case False
    then have "r1 = note_invalid out path" using walked by (auto simp: collect_array_mismatch_def split: json.splits)
    then show ?thesis using noted [OF less.prems(3)] by simp
  qed
  have typed: "answer_ok S out r1" if "collect_typed_mismatch env ?rec s v path out = Inr r1" for r1
    using that by (auto simp: collect_typed_mismatch_def intro: obj arr noted [OF less.prems(3)] same split: json.splits if_splits)
  from less.prems(1) obtain m out1 where t: "collect_typed_mismatch env ?rec s v path out = Inr (m, out1)"
    and r: "r = (False, out1) \<and> \<not> m \<or> r = note_invalid out1 path \<or> r = (True, out1) \<and> m"
    unfolding collect_mismatch.simps [of env s v path out] by (auto split: if_splits option.splits)
  from typed [OF t] have a: "answer_ok S out (m, out1)" .
  then have "answer_ok S u (note_invalid out1 path)" for u by (intro noted) (simp add: answer_ok_def)
  with a r show ?case by auto
qed

subsection \<open>Errors of the matcher\<close>

lemma rfold_error:
  "rfold f s xs = Inl e \<Longrightarrow> (\<And>s x. x \<in> set xs \<Longrightarrow> f s x = Inl e \<Longrightarrow> P) \<Longrightarrow> P"
  by (induction xs arbitrary: s) (auto simp: rbind_Inl_iff)

lemma rmap_error: "rmap f xs = Inl e \<Longrightarrow> (\<And>x. x \<in> set xs \<Longrightarrow> f x = Inl e \<Longrightarrow> P) \<Longrightarrow> P"
  by (induction xs) (auto simp: rbind_Inl_iff)

definition shape_error :: catalog_error where
  "shape_error = ToolCatalogError InvalidShape None"

lemma reading_errors:
  "catalog_object v = Inl e \<Longrightarrow> e = shape_error" "catalog_array v = Inl e \<Longrightarrow> e = shape_error"
  "catalog_string v = Inl e \<Longrightarrow> e = shape_error"
  by (auto simp: catalog_object_def catalog_array_def catalog_string_def shape_error_def require_catalog_def
      split: option.splits json.splits if_splits)

lemma scalar_within_errors: "scalar_within_schema env s t v = Inl e \<Longrightarrow> e = shape_error"
  by (auto simp: scalar_within_schema_def string_matches_def rbind_Inl_iff dest: reading_errors
      split: json.splits option.splits if_splits)

lemma collect_errors: "collect_mismatch env s v path out = Inl e \<Longrightarrow> e = shape_error"
proof (induction v arbitrary: s path out rule: measure_induct_rule [where f = size])
  case (less v)
  let ?rec = "\<lambda>s c p u. collect_mismatch env s c p u"
  have member: "e = shape_error"
    if "v = JObj kvs" "kv \<in> set kvs" "check_member ?rec s ps path acc kv = Inl e" for kvs kv ps acc
  proof -
    have "size (snd kv) < size v" using that by (simp add: size_member del: json.size)
    with that(3) less.IH [of "snd kv"] show ?thesis
      by (auto simp: check_member_def rbind_Inl_iff schema_error_def shape_error_def [symmetric] dest: reading_errors
          split: looked_up.splits if_splits)
  qed
  have item: "e = shape_error" if "v = JArr js" "j \<in> set js" "check_item ?rec c path acc j = Inl e" for js j c acc
  proof -
    have "size j < size v" using that by (simp add: size_item del: json.size)
    with that(3) less.IH [of j] show ?thesis by (auto simp: check_item_def rbind_Inl_iff)
  qed
  have "e = shape_error" if "collect_object_mismatch ?rec s kvs path out = Inl e" "v = JObj kvs" for kvs
    using that by (auto simp: collect_object_mismatch_def rbind_Inl_iff dest: reading_errors elim!: rfold_error rmap_error
        intro: member [OF that(2)])
  moreover have "e = shape_error" if "collect_array_mismatch ?rec s v path out = Inl e"
    using that by (auto simp: collect_array_mismatch_def rbind_Inl_iff dest: reading_errors elim!: rfold_error intro: item
        split: json.splits if_splits)
  moreover have "e = shape_error \<or> collect_typed_mismatch env ?rec s v path out = Inl e"
    using less.prems unfolding collect_mismatch.simps [of env s v path out]
    by (auto simp: rbind_Inl_iff dest: reading_errors split: if_splits option.splits)
  ultimately show ?case
    by (auto simp: collect_typed_mismatch_def rbind_Inl_iff dest: reading_errors scalar_within_errors
        split: json.splits if_splits)
qed

section \<open>Theorems on the catalog's capture and schemas\<close>

subsection \<open>Samples\<close>

text \<open>An object with an array in it; an object that is its own member; a schema and its compiled form.\<close>

definition sample_heap :: js_heap where
  "sample_heap =
     [\<lparr> js_length = None, js_proto = ObjectPrototype,
        js_props = [(StringKey ''b'', DataProp (JsRef 1) True), (StringKey ''a'', DataProp (JsStr ''x'') True)] \<rparr>,
      \<lparr> js_length = Some 1, js_proto = ArrayPrototype, js_props = [(index_key 0, DataProp (JsBool True) True)] \<rparr>]"

definition sample_json :: jvalue where
  "sample_json = JObj [(''b'', JArr [JBool True]), (''a'', JStr ''x'')]"

definition cyclic_heap :: js_heap where
  "cyclic_heap = [\<lparr> js_length = None, js_proto = ObjectPrototype, js_props = [(StringKey ''me'', DataProp (JsRef 0) True)] \<rparr>]"

definition sample_env :: schema_env where
  "sample_env = \<lparr> regex_valid = (\<lambda>p. True), regex_test = (\<lambda>p s. s = p),
     external_compile = (\<lambda>s. Inr s), external_mismatch = (\<lambda>s v. Inr None) \<rparr>"

definition sample_raw :: schema where
  "sample_raw = [(''type'', JStr ''object''),
     (''properties'', JObj [(''a'', JObj [(''type'', JStr ''string'')]), (''b'', JObj [(''type'', JStr ''array''), (''items'', JObj [(''type'', JStr ''boolean'')])])]),
     (''required'', JArr [JStr ''b'', JStr ''a'']), (''additionalProperties'', JBool False)]"

definition sample_schema :: schema where
  "sample_schema = [(''type'', JStr ''object''),
     (''properties'', JObj [(''a'', JObj [(''type'', JStr ''string'')]), (''b'', JObj [(''type'', JStr ''array''), (''items'', JObj [(''type'', JStr ''boolean'')])])]),
     (''required'', JArr [JStr ''a'', JStr ''b'']), (''additionalProperties'', JBool False)]"

lemma sample_says: "says sample_heap (JsRef 0) sample_json"
  by (simp add: sample_heap_def sample_json_def says_JObj says_JArr deref_def object_children_def array_children_def
      index_child_def own_property_def)

lemma sample_heap_ok: "heap_ok sample_heap" "heap_ok cyclic_heap"
  by (simp_all add: heap_ok_def sample_heap_def cyclic_heap_def)

lemma sample_units: "js_units ''a'' = [97]" "js_units ''b'' = [98]"
  by (simp_all add: js_units_def cp_units_def cp_len_def cp_value_def Let_def)

lemma sample_parts:
  "normalize_schema sample_env [(''type'', JStr ''string'')] = Inr [(''type'', JStr ''string'')]"
  "normalize_schema sample_env [(''type'', JStr ''array''), (''items'', JObj [(''type'', JStr ''boolean'')])] =
     Inr [(''type'', JStr ''array''), (''items'', JObj [(''type'', JStr ''boolean'')])]"
  by code_simp+

lemma sample_compiled: "normalize_schema sample_env sample_raw = Inr sample_schema"
proof -
  have "normalize_schema sample_env sample_raw =
      normalize_typed_schema sample_env (normalize_schema sample_env) ''object'' (with_enum None sample_raw)"
    by (rule normalize_schema_typed)
       (simp_all add: sample_raw_def schema_types_def common_keys_def type_keys_def obj_get_def obj_keys_def normalized_enum_def)
  then show ?thesis
    by (simp add: normalize_typed_schema_def object_schema_def with_enum_def sample_raw_def sample_schema_def obj_get_def
        obj_keys_def sample_units normalize_property_def catalog_object_def catalog_array_def catalog_string_def sample_parts
        obj_put_def Let_def)
qed

subsection \<open>The theorems\<close>

text \<open>
  Claim C29. The canonical text of a value of the runtime depends only on the JSON value it says: for every
  value made of plain data, however its objects are shared in the heap, \<open>canonicalise\<close> walks the heap
  without meeting an error and returns the canonical text of that JSON value.
\<close>

theorem canonical_text_of_data:
  "says h v j \<Longrightarrow> canonicalise_js h v = Inr (canonicalise (json_text j))"
  unfolding canonicalise_js_def by (rule encode_says) auto

theorem canonical_text_of_data_witness:
  "canonicalise_js sample_heap (JsRef 0) = Inr (canonicalise (json_text sample_json))"
  by (rule canonical_text_of_data [OF sample_says])

text \<open>
  Claim C25. The capture of untrusted JSON is exact. It succeeds only within a legal byte grant, and
  then for exactly the values made of plain enumerable data whose depth, strings, arrays and objects
  are within the bounds, that have no unsafe key, and whose JSON text is no longer than the grant;
  what it returns is the JSON value they say, the members put in key order. The text's numbers are
  printed as \<open>JSON.stringify\<close> prints them, with exponents where it has them.
\<close>

theorem capture_is_exact:
  assumes "heap_ok h"
  shows "copy_catalog_json h v requested limits = Inr j \<longleftrightarrow>
     (\<exists>n j0. byte_grant requested limits = Some n \<and> says h v j0 \<and> j = ordered_json j0 \<and>
        json_fits (max_string_bytes limits) max_schema_depth j0 \<and> catalog_bytes j \<le> n)"
  unfolding copy_catalog_json_def by (rule copy_within_iff [OF assms])

theorem capture_is_exact_witness:
  "copy_catalog_json sample_heap (JsRef 0) None GenericLimits = Inr (JObj [(''a'', JStr ''x''), (''b'', JArr [JBool True])])"
proof -
  have "ordered_json sample_json = JObj [(''a'', JStr ''x''), (''b'', JArr [JBool True])]"
    by (simp add: sample_json_def sample_units put_members_def obj_put_def obj_keys_def is_index_key_def is_digit_def)
  moreover have "byte_grant None GenericLimits = Some 262144"
    by (simp add: byte_grant_def is_safe_number_def max_advertisement_bytes_def)
  moreover have "json_fits (max_string_bytes GenericLimits) max_schema_depth sample_json"
    by (simp add: sample_json_def max_schema_depth_def max_array_items_def max_object_keys_def is_unsafe_key_def)
  moreover have "catalog_bytes (JObj [(''a'', JStr ''x''), (''b'', JArr [JBool True])]) \<le> 262144"
    by (simp add: catalog_bytes_def stringify_value_def json_quote_def json_escape_def dquote_def)
  ultimately show ?thesis
    using capture_is_exact [OF sample_heap_ok(1), of "JsRef 0" None GenericLimits] sample_says by metis
qed

text \<open>The objects a plain object or array refers to.\<close>

definition refers :: "js_heap \<Rightarrow> nat \<Rightarrow> nat \<Rightarrow> bool" where
  "refers h a b \<longleftrightarrow> (\<exists>ob. deref h a = Some ob \<and>
     ((\<exists>cs. array_children ob = Some cs \<and> JsRef b \<in> set cs) \<or> (\<exists>cs. object_children ob = Some cs \<and> JsRef b \<in> snd ` set cs)))"

lemma refers_smaller: "says h (JsRef a) j \<Longrightarrow> refers h a b \<Longrightarrow> \<exists>j'. says h (JsRef b) j' \<and> size j' < size j"
proof -
  assume j: "says h (JsRef a) j" and "refers h a b"
  then obtain ob where ob: "deref h a = Some ob"
    and child: "(\<exists>cs. array_children ob = Some cs \<and> JsRef b \<in> set cs) \<or> (\<exists>cs. object_children ob = Some cs \<and> JsRef b \<in> snd ` set cs)"
    by (auto simp: refers_def)
  have disjoint: "array_children ob = None \<or> object_children ob = None"
    by (auto simp: array_children_def object_children_def)
  show ?thesis
  proof (cases j)
    case (JArr js)
    with j ob obtain cs where cs: "array_children ob = Some cs" "list_all2 (says h) cs js" by (auto simp: says_JArr)
    with child disjoint obtain i where "i < length cs" "cs ! i = JsRef b" by (auto simp: in_set_conv_nth)
    with cs(2) have "says h (JsRef b) (js ! i)" "js ! i \<in> set js" by (auto simp: list_all2_conv_all_nth)
    with JArr size_item [of "js ! i" js] show ?thesis by blast
  next
    case (JObj kvs)
    with j ob obtain cs where cs: "object_children ob = Some cs"
      "list_all2 (\<lambda>c kv. fst c = fst kv \<and> says h (snd c) (snd kv)) cs kvs" by (auto simp: says_JObj)
    with child disjoint obtain i where "i < length cs" "snd (cs ! i) = JsRef b" by (auto simp: in_set_conv_nth)
    with cs(2) have "says h (JsRef b) (snd (kvs ! i))" "kvs ! i \<in> set kvs" by (auto simp: list_all2_conv_all_nth)
    with JObj size_member [of "kvs ! i" kvs] show ?thesis by blast
  qed (use j in simp_all)
qed

lemma reaching_smaller:
  "(refers h)\<^sup>+\<^sup>+ a b \<Longrightarrow> says h (JsRef a) j \<Longrightarrow> \<exists>j'. says h (JsRef b) j' \<and> size j' < size j"
proof (induction rule: tranclp_induct)
  case (base b)
  then show ?case by (rule refers_smaller [rotated])
next
  case (step b c)
  then obtain j' where "says h (JsRef b) j'" "size j' < size j" by blast
  with refers_smaller [OF _ step.hyps(2)] show ?case by (meson less_trans)
qed

text \<open>
  Claim C28. Cyclic data is refused: neither the capture of an argument nor that of an envelope returns for
  an object that reaches itself, or for one from which such an object can be reached; and both come to
  an end with an error, whatever the limits.
\<close>

theorem cycles_are_refused:
  assumes "heap_ok h" "(refers h)\<^sup>*\<^sup>* a b" "(refers h)\<^sup>+\<^sup>+ b b"
  shows "(\<exists>e. copy_catalog_json h (JsRef a) requested limits = Inl e) \<and> (\<exists>e. copy_catalog_envelope h (JsRef a) = Inl e)"
proof -
  have "\<not> says h (JsRef a) j" for j
  proof
    assume "says h (JsRef a) j"
    with rtranclpD [OF assms(2)] obtain j' where j': "says h (JsRef b) j'" using reaching_smaller by blast
    from reaching_smaller [OF assms(3) j'] says_unique [OF j'] show False by blast
  qed
  then have "copy_within_bounds h (JsRef a) r d l \<noteq> Inr j" for r d l j
    by (simp add: copy_within_iff [OF assms(1)])
  then show ?thesis unfolding copy_catalog_json_def copy_catalog_envelope_def by (metis sum.exhaust)
qed

theorem cycles_are_refused_witness:
  "(\<exists>e. copy_catalog_json cyclic_heap (JsRef 0) None ChangesetEditLimits = Inl e) \<and> (\<exists>e. copy_catalog_envelope cyclic_heap (JsRef 0) = Inl e)"
proof -
  have "refers cyclic_heap 0 0"
    by (simp add: refers_def cyclic_heap_def deref_def object_children_def)
  then show ?thesis by (intro cycles_are_refused [OF sample_heap_ok(2), of 0 0]) auto
qed

lemma compiled_is_closed: "normalize_schema env raw = Inr s \<Longrightarrow> \<not> is_external_dialect (obj_get s ''$schema'')"
  using normalize_ok [of env raw s] by (auto simp: is_external_dialect_def elim: schema_okE)

text \<open>
  Claim C26. Matching a value against a compiled schema decides conformance, for every value that
  has, at any depth, no member named as a member of \<open>Object.prototype\<close>
  (\<open>plain_names\<close>): the matcher throws nothing, reports a mismatch exactly when the
  value does not conform to the schema's plain meaning, and the boolean match agrees. For values
  with such a member it can throw (see the claim on inherited names and the finding at
  \<open>schema.ts\<close>).
\<close>

theorem matching_decides_conformance:
  assumes "normalize_schema env raw = Inr s" "plain_names v"
  shows "(\<exists>m. describe_catalog_schema_mismatch env s v = Inr m \<and> (m = None \<longleftrightarrow> conforms env s v)) \<and>
     matches_catalog_schema env s v = Inr (conforms env s v)"
proof -
  obtain out where "collect_mismatch env s v [] \<lparr> mc_missing = [], mc_invalid = [], mc_unexpected = 0 \<rparr> = Inr (conforms env s v, out)"
    using collect_decides [OF normalize_ok [OF assms(1)] assms(2)] by blast
  with compiled_is_closed [OF assms(1)] show ?thesis
    by (simp add: matches_catalog_schema_def describe_catalog_schema_mismatch_def Let_def)
qed

theorem matching_decides_conformance_witness:
  "matches_catalog_schema sample_env sample_schema (JObj [(''b'', JArr [JBool True, JNull])]) = Inr False"
proof -
  have "plain_names (JObj [(''b'', JArr [JBool True, JNull])])" by code_simp
  moreover have "\<not> conforms sample_env sample_schema (JObj [(''b'', JArr [JBool True, JNull])])"
    by (simp add: sample_schema_def obj_get_def required_names_def obj_keys_def)
  ultimately show ?thesis using matching_decides_conformance [OF sample_compiled] by simp
qed

text \<open>
  Claim C27. A rejection is explained in the schema's own words. Every path an account lists is one the
  schema alone determines, whatever the value holds; the account of a rejection is never empty; its two
  lists are sorted, without repetition and at most sixteen long, and paths are dropped only from a full
  list.
\<close>

theorem reports_name_only_the_schema:
  assumes "normalize_schema env raw = Inr s" "describe_catalog_schema_mismatch env s v = Inr (Some m)"
  shows "list_all (names_path s []) (sm_missing_required m @ sm_invalid_paths m) \<and>
     (sm_missing_required m \<noteq> [] \<or> sm_invalid_paths m \<noteq> [] \<or> 0 < sm_unexpected m) \<and>
     distinct (sm_missing_required m) \<and> distinct (sm_invalid_paths m) \<and>
     sorted (map js_units (sm_missing_required m)) \<and> sorted (map js_units (sm_invalid_paths m)) \<and>
     length (sm_missing_required m) \<le> 16 \<and> length (sm_invalid_paths m) \<le> 16 \<and>
     (sm_dropped m = 0 \<or> length (sm_missing_required m) = 16 \<or> length (sm_invalid_paths m) = 16)"
proof -
  let ?out = "\<lparr> mc_missing = [], mc_invalid = [], mc_unexpected = 0 \<rparr>"
  from assms(2) compiled_is_closed [OF assms(1)] obtain out where
    out: "collect_mismatch env s v [] ?out = Inr (False, out)" and
    m: "m = \<lparr> sm_missing_required = fst (capped_paths (mc_missing out)), sm_invalid_paths = fst (capped_paths (mc_invalid out)),
          sm_unexpected = mc_unexpected out, sm_dropped = snd (capped_paths (mc_missing out)) + snd (capped_paths (mc_invalid out)) \<rparr>"
    by (auto simp: describe_catalog_schema_mismatch_def Let_def split: if_splits)
  have "answer_ok (Collect (names_path s [])) ?out (False, out)"
    using out by (rule collect_answer) (auto simp: paths_in_def)
  then have paths: "paths_in (Collect (names_path s [])) out" and "shows_something out" by (auto simp: answer_ok_def)
  moreover have "sort_key js_units ps = [] \<longleftrightarrow> ps = []" for ps by (metis length_0_conv length_sort)
  ultimately have shown: "sm_missing_required m \<noteq> [] \<or> sm_invalid_paths m \<noteq> [] \<or> 0 < sm_unexpected m"
    by (auto simp: m shows_something_def capped_paths_def max_mismatch_paths_def)
  have capped: "set (fst (capped_paths ps)) \<subseteq> set ps" "distinct ps \<Longrightarrow> distinct (fst (capped_paths ps))"
    "sorted (map js_units (fst (capped_paths ps)))" "length (fst (capped_paths ps)) \<le> 16"
    "snd (capped_paths ps) = 0 \<or> length (fst (capped_paths ps)) = 16" for ps
    using distinct_map_sort [of "\<lambda>x. x" js_units ps] sorted_wrt_take [of "(\<le>)" "map js_units (sort_key js_units ps)" 16]
    by (auto simp: capped_paths_def max_mismatch_paths_def Let_def take_map dest!: in_set_takeD)
  show ?thesis using shown paths capped [of "mc_missing out"] capped [of "mc_invalid out"]
    by (auto simp: m paths_in_def list_all_iff)
qed

theorem reports_name_only_the_schema_witness:
  "\<exists>m. describe_catalog_schema_mismatch sample_env sample_schema (JObj [(''a'', JNull), (''secret'', JNull)]) = Inr (Some m) \<and>
     list_all (names_path sample_schema []) (sm_missing_required m @ sm_invalid_paths m)"
proof -
  define v where "v = (JObj [(''a'', JNull), (''secret'', JNull)] :: jvalue)"
  have "plain_names v" unfolding v_def by code_simp
  moreover have "\<not> conforms sample_env sample_schema v"
    by (simp add: v_def sample_schema_def obj_get_def member_schema_def required_names_def obj_keys_def)
  ultimately obtain out where "collect_mismatch sample_env sample_schema v [] \<lparr> mc_missing = [], mc_invalid = [], mc_unexpected = 0 \<rparr> = Inr (False, out)"
    using collect_decides [OF normalize_ok [OF sample_compiled], of v sample_env "[]"] by metis
  with compiled_is_closed [OF sample_compiled] obtain m where "describe_catalog_schema_mismatch sample_env sample_schema v = Inr (Some m)"
    by (simp add: describe_catalog_schema_mismatch_def Let_def)
  with reports_name_only_the_schema [OF sample_compiled this] show ?thesis unfolding v_def by blast
qed

lemma rfold_reaches: "rfold f s xs = Inr t \<Longrightarrow> x \<in> set xs \<Longrightarrow> \<exists>u w. f u x = Inr w"
  by (induction xs arbitrary: s) auto

text \<open>
  Claim C30. A member named as a member of \<open>Object.prototype\<close> that a compiled object schema does not declare
  is neither counted as undeclared nor judged by \<open>additionalProperties\<close>: looking it up finds the inherited
  function, and the matcher throws \<open>invalid-shape\<close> without an account, even where the value conforms.
\<close>

theorem inherited_names_are_refused:
  assumes "normalize_schema env raw = Inr s" "obj_get s ''type'' = Some (JStr ''object'')"
    "obj_get s ''properties'' = Some (JObj ps)" "(k, c) \<in> set kvs" "k \<in> set object_prototype_keys" "obj_get ps k = None"
  shows "describe_catalog_schema_mismatch env s (JObj kvs) = Inl (ToolCatalogError InvalidShape None)"
proof -
  let ?out = "\<lparr> mc_missing = [], mc_invalid = [], mc_unexpected = 0 \<rparr>"
  let ?rec = "\<lambda>s c p u. collect_mismatch env s c p u"
  have never: "check_member ?rec s ps [] acc (k, c) \<noteq> Inr r" for acc r
    using assms(5,6) by (simp add: check_member_def property_lookup_def)
  have "collect_mismatch env s (JObj kvs) [] ?out \<noteq> Inr r" for r
  proof
    assume "collect_mismatch env s (JObj kvs) [] ?out = Inr r"
    then obtain r1 where "collect_typed_mismatch env ?rec s (JObj kvs) [] ?out = Inr r1"
      unfolding collect_mismatch.simps [of env s "JObj kvs" "[]" ?out] by auto
    then obtain rs where "rfold (check_member ?rec s ps []) (foldl (check_required kvs []) (True, ?out) rs) kvs = Inr r1"
      using assms(2,3) by (auto simp: collect_typed_mismatch_def collect_object_mismatch_def)
    from rfold_reaches [OF this assms(4)] never show False by blast
  qed
  then obtain e where e: "collect_mismatch env s (JObj kvs) [] ?out = Inl e" by (metis sum.exhaust)
  with collect_errors [OF e] compiled_is_closed [OF assms(1)] show ?thesis
    by (simp add: describe_catalog_schema_mismatch_def shape_error_def)
qed

definition open_schema :: schema where
  "open_schema = [(''type'', JStr ''object''), (''properties'', JObj []), (''required'', JArr []), (''additionalProperties'', JBool True)]"

theorem inherited_names_are_refused_witness:
  "conforms sample_env open_schema (JObj [(''toString'', JNull)]) \<and>
     describe_catalog_schema_mismatch sample_env open_schema (JObj [(''toString'', JNull)]) = Inl (ToolCatalogError InvalidShape None)"
proof
  show "conforms sample_env open_schema (JObj [(''toString'', JNull)])"
    by (simp add: open_schema_def obj_get_def allowed_value_def member_schema_def required_names_def)
  have compiled: "normalize_schema sample_env open_schema = Inr open_schema" by code_simp
  show "describe_catalog_schema_mismatch sample_env open_schema (JObj [(''toString'', JNull)]) = Inl (ToolCatalogError InvalidShape None)"
    by (rule inherited_names_are_refused [OF compiled, where ps = "[]" and k = "''toString''" and c = JNull])
       (simp_all add: open_schema_def obj_get_def object_prototype_keys_def)
qed

text \<open>
  Compiling a schema is idempotent: a compiled schema is accepted again and comes back unchanged,
  its required names and enumerations already sorted.
\<close>

theorem compiling_is_idempotent:
  "normalize_schema env raw = Inr s \<Longrightarrow> normalize_schema env s = Inr s"
  by (rule normalize_again)

theorem compiling_is_idempotent_witness: "normalize_schema sample_env sample_schema = Inr sample_schema"
  by (rule compiling_is_idempotent [OF sample_compiled])

end
