(* ===== verification/Spec2Isabelle.thy ===== *)
theory Spec2Isabelle
  imports Harness_Session Server_Compactor Layout_Roundtrip Patch_Findings Patch_Preview
    Circuit_Properties Retry_Properties Replacement_Properties
    Memory_Consent Memory_Recall Memory_Health_Properties Catalog_Reports
begin

text \<open>
  A verification library for Keiko, a local assistant for software work written in TypeScript
  (\<open>packages/*\<close>). It covers the agent harness, which drives a language model through a bounded state
  machine and lets it call governed tools; the patch engine, by which such a run changes files; the
  gateway's resilience towards its providers; the governed memory of the assistant; and the layout of
  the editor.

  \<^bold>\<open>The program.\<close> A session (\<open>keiko-harness/src/session.ts\<close>) resolves the limits and the plan of a
  task, builds the run context, emits \<open>run:started\<close> and runs the loop (\<open>loop.ts\<close>). The loop holds one
  state of \<open>HarnessStateName\<close>, checks the guards of that state, calls its handler (\<open>planner.ts\<close>,
  \<open>executor.ts\<close>, \<open>patcher.ts\<close>) and records the transition. The model-call handler asks the model
  port, the tool-call handler runs the model's tool calls through the governed catalog
  (\<open>catalog-runtime.ts\<close>), whose dispatcher charges a reservation ledger (\<open>catalog-budget.ts\<close>).
  Everything observable is an event of the emitter (\<open>emitter.ts\<close>), which fans it out to sinks.
  Too large a conversation is handed to a compaction port; the server's implementation is
  \<open>keiko-server/src/harness-context-compactor.ts\<close>.

  A run changes files only through patches. \<open>keiko-contracts/src/unified-diff.ts\<close> parses a diff,
  \<open>keiko-tools/src/patch.ts\<close> inspects it against a read-only file system (paths, limits, sources,
  alignment, conflicts), \<open>patch-content.ts\<close> computes what each file becomes, and \<open>applyPatch\<close> plans
  and commits the writes through a writer, rolling back on failure; \<open>writer.ts\<close> is the writer that
  replaces files on disk inside the workspace root. A coding run of the server may instead send exact-text
  replacements; they are checked against hash-bound reads and materialized, by a line diff, into a patch
  for the same engine. The calls to a model behind the port go through the gateway's circuit breaker and
  its retry loop (\<open>keiko-model-gateway/src/resilience.ts\<close>).

  What the assistant remembers are records of \<open>keiko-contracts/src/memory-records.ts\<close>. Every change of
  their status goes through a builder of \<open>keiko-memory-governance\<close>, which checks the transition and
  validates the envelope; an unattended pass plans decay, and a scan reports structural problems.
  \<open>keiko-memory-retrieval\<close> asks a port for the memories of the requested scopes, suppresses, ranks and
  packs them into a block of text inside a token budget.

  The arguments and results of tools are untrusted JSON. \<open>keiko-tool-catalog/src/json.ts\<close> captures a
  value of the runtime into a detached copy inside its bounds, \<open>schema.ts\<close> compiles the schemas of a tool
  and matches a captured value against them, and \<open>keiko-contracts/src/canonical-json.ts\<close> gives the text by
  which values are compared.

  \<^bold>\<open>Theories.\<close>
  \<^item> \<open>Prelude\<close>: errors as sums, text and UTF-8 helpers, JavaScript objects as ordered association
    lists, JSON rendering, canonical JSON, and the locale of operations that keep an invariant.
  \<^item> \<open>Harness_Types\<close>: the data of \<open>keiko-contracts/src/harness.ts\<close>.
  \<^item> \<open>Task_Plans\<close>: \<open>tasks/*.ts\<close>, prompts and capabilities of each task.
  \<^item> \<open>Event_Emitter\<close>: \<open>emitter.ts\<close> and \<open>sinks.ts\<close>; sequence numbers, redaction, quarantine.
  \<^item> \<open>Harness_Context\<close>: \<open>context.ts\<close>, the ports as parameters, deadline and cancellation.
  \<^item> \<open>Catalog_Budget\<close>: \<open>catalog-budget.ts\<close> and the receipts of \<open>governed-tool-lifecycle.ts\<close>.
  \<^item> \<open>Catalog_Runtime\<close>: \<open>catalog-runtime.ts\<close>, \<open>catalog-call.ts\<close>, \<open>tool-audit.ts\<close>.
  \<^item> \<open>Json_Text\<close>: JSON parsing and its round trip with rendering.
  \<^item> \<open>Context_Compaction\<close>: \<open>tryCompact\<close> of \<open>loop.ts\<close> and the contract of its port, a locale.
  \<^item> \<open>Server_Compactor\<close>: the server's compactor, an interpretation of that contract.
  \<^item> \<open>Executor\<close>, \<open>Executor_Properties\<close>: the state handlers and what they guarantee.
  \<^item> \<open>Harness_Loop\<close>: \<open>loop.ts\<close>, its state machine as a step relation, and the run-level theorems.
  \<^item> \<open>Harness_Session\<close>: \<open>session.ts\<close>, the result of a session.
  \<^item> \<open>Editor_Layout\<close>: the pane tree, the tabs and the reducer of \<open>keiko-contracts/src/editor-layout.ts\<close>.
  \<^item> \<open>Layout_Invariant\<close>, \<open>Layout_Reducer\<close>, \<open>Layout_Properties\<close>: the validity of a layout, its
    preservation by every action, and what each action does to the open files.
  \<^item> \<open>Layout_Persistence\<close>, \<open>Layout_Roundtrip\<close>: reading untrusted layout texts of both schema versions,
    writing layouts, and the round trip.

  \<^item> \<open>Patch_Types\<close>, \<open>Unified_Diff\<close>, \<open>Patch_Normalize\<close>: the data of the patch workflow, the line-by-line
    diff parser and the repair of malformed hunk headers.
  \<^item> \<open>Diff_Invariant\<close>, \<open>Diff_Roundtrip\<close>: the invariant of the parser's state, an instance of the locale
    of steps that may throw, and parsing of what the engine renders.
  \<^item> \<open>Patch_Content\<close>, \<open>Patch_Semantics\<close>: hunk application and the reference edit it implements.
  \<^item> \<open>Workspace_Paths\<close>, \<open>Patch_Engine\<close>, \<open>Patch_Preview\<close>: containment of paths, inspection, alignment,
    rendering, projection, inversion and previews.
  \<^item> \<open>Patch_Apply\<close>, \<open>Patch_Plan\<close>: planning and the write phase with its rollback.
  \<^item> \<open>Patch_Commit\<close>: the contract of a writer, a locale, and what the write phase makes of it.
  \<^item> \<open>Workspace_Writer\<close>, \<open>Writer_Contract\<close>: the writer of \<open>writer.ts\<close>, an interpretation of that contract.
  \<^item> \<open>Patch_Properties\<close>, \<open>Patch_Safety\<close>, \<open>Patch_Findings\<close>: the theorems on patches, a
    concrete workspace they are instantiated at, and inputs on which the engine departs from its comments.

  \<^item> \<open>Line_Diff\<close>, \<open>Line_Diff_Search\<close>, \<open>Line_Diff_Blocks\<close>: the line diff of
    \<open>keiko-server/src/gitDelivery/lineDiff.ts\<close>, its bounded search, and that it is correct and shortest.
  \<^item> \<open>Line_Diff_Groups\<close>, \<open>Line_Diff_Hunks\<close>, \<open>Line_Diff_Patch\<close>, \<open>Line_Diff_Sections\<close>: its hunks as the
    patch engine reads and applies them.
  \<^item> \<open>Replacement_Edits\<close>, \<open>Replacement_Materialize\<close>: exact-text replacement edits,
    \<open>keiko-server/src/coding-runtime/codingToolReplacementEdits.ts\<close>.
  \<^item> \<open>Replacement_Sections\<close>, \<open>Replacement_Plan\<close>, \<open>Replacement_Endings\<close>, \<open>Replacement_Lines\<close>,
    \<open>Replacement_Properties\<close>: its sections in the patch engine, its plan, line endings, and the theorems.

  \<^item> \<open>Circuit_Breaker\<close>, \<open>Circuit_Invariant\<close>, \<open>Circuit_Properties\<close>: the circuit breaker of
    \<open>keiko-model-gateway/src/resilience.ts\<close>, its admissions, and what it promises its callers.
  \<^item> \<open>Retry_Loop\<close>, \<open>Retry_Frames\<close>, \<open>Retry_Invariant\<close>, \<open>Retry_Properties\<close>: the retry loop of the same
    file, \<open>executeWithRetry\<close>, its decisions, budgets and observer, what its steps change, and its theorems.

  \<^item> \<open>Memory_Types\<close>, \<open>Memory_Envelopes\<close>: the data of a memory, its status table, the envelopes and their
    validators, and the locale of comparisons that sort, which the ranking interprets.
  \<^item> \<open>Memory_Governance\<close>, \<open>Memory_Conflict\<close>, \<open>Memory_Maintenance\<close>, \<open>Memory_Health\<close>: the builders, the
    detection and resolution of conflicts, the maintenance planner and the health scan.
  \<^item> \<open>Memory_Properties\<close>, \<open>Memory_Consent\<close>, \<open>Memory_Health_Properties\<close>: what they promise.
  \<^item> \<open>Memory_Ranking\<close>, \<open>Memory_Context\<close>, \<open>Memory_Retrieval\<close>: \<open>ranking.ts\<close> with its subscores, \<open>context.ts\<close>,
    and \<open>retrieve.ts\<close> with \<open>suppression.ts\<close> and \<open>diversity.ts\<close>.
  \<^item> \<open>Memory_Ranked\<close>, \<open>Memory_Packing\<close>, \<open>Memory_Recall\<close>: the theorems on the order, the budget and the
    whole of a retrieval.

  \<^item> \<open>Js_Values\<close>: objects in a heap, their own properties and prototypes, canonical JSON over them, and
    what it means that a value of the runtime says a JSON value.
  \<^item> \<open>Catalog_Json\<close>, \<open>Catalog_Schema\<close>: \<open>json.ts\<close> and \<open>schema.ts\<close>, with the characterisation of the capture.
  \<^item> \<open>Catalog_Conformance\<close>, \<open>Catalog_Reports\<close>: what a compiled schema is and what conforming to it means,
    that the matcher decides it, what an account of a mismatch may name, and the theorems.

  \<^bold>\<open>State and effects.\<close> Mutable objects become records passed through the operations: \<open>run_ctx\<close> is
  \<open>RunContext\<close>, \<open>budget\<close> is \<open>HarnessCounterBudget\<close>, \<open>emitter\<close> is \<open>Emitter\<close> together with what its
  sinks hold. A thrown value is the left side of a sum. Code outside the repository and the ports the
  harness is handed are fields of an environment record, and answer by the number of awaits made
  before, so that any behaviour over time is an instance. Other code runs only while the loop awaits;
  it is the list \<open>async_at\<close> of deadline and cancel events for each await. A patch run sees the file
  system twice, at validation and at planning, as two arguments; its effect guard answers by the
  number of questions asked. The writer's system calls act on the map of regular files and take
  everything else (faults, links, directories, partial writes) from an environment that may depend on
  the state and the number of calls.

  \<^bold>\<open>Results.\<close> For every environment, the events of a run trace a path of the state machine, up to a last
  move of the safety net that only limits beyond its bound admit; runs end without the safety net under
  limits whose step budget is below its bound; counters stay in their
  limits; failure records match outcomes; read-only plans stay read-only; every tool call is answered
  once and has one outcome; the ledger accounts for every charge; results need a settled charge;
  redaction, sequence numbers and completeness of the record hold whatever the sinks do; the
  compactor is minimal, cumulative and keeps tool results paired. Accepted diffs are consistent, and
  what the engine renders parses back when its paths are ones a plain header can carry; a change is the
  reference edit, and its inverse restores the file when the headers are numbered as diff tools number
  them; applying passes every gate first, stays at accepted paths, and takes effect in full or not at
  all, given full writes and a rollback that goes through (of several sections for one file the last one
  counts). The line diff is correct and, inside its
  bounds, shortest; a materialized replacement changeset is applied by the engine to exactly the planned
  texts, names each path once, stays in its limits and keeps line endings. Layouts stay valid and,
  edited from a fresh one with the active pane always a pane that exists, survive persistence. The circuit breaker admits nothing during an outage, leaks no probe and recovers.
  A call under the retry loop ends, stays in its budgets, honours cooldowns, is settled once with its
  observer, and gets every attempt its provider's settings promise while no cooldown is named. Forgetting needs consent, conflict
  resolution demotes the losers, unattended maintenance is conservative, and the health scan reports what
  its rules say. Retrieval shows only live memories of the asked scopes, accounts for every memory the
  port listed inside its budget, never drops a standing rule for its wording, ranks independently of the
  order of its input, and fails only by its request or its port. The capture of JSON accepts exactly plain
  data within its bounds and refuses cycles; matching a compiled schema decides conformance where no member has a name of \<open>Object.prototype\<close>, and its
  account of a rejection is never empty and names nothing but the schema.

  \<^bold>\<open>Bounds.\<close> The loop of \<open>runLoop\<close> is bounded by \<open>MAX_LOOP_STEPS\<close>, which is the fuel of
  \<open>loop_steps\<close>; the step budget theorem shows when the bound is never reached. JSON parsing uses the
  length of its input as fuel; the round trip shows it is enough for rendered values. The search of the
  line diff stops at the code's own bounds, and then reports one block, which is still a correct diff.
  The retry loop takes its fuel as an argument; every call ends with more than \<open>call_rounds\<close> of it. Its
  retry count is an integer or NaN, so an infinite one is not covered. The capture recurses within its
  depth bound and canonical JSON within the objects of the heap, so neither needs fuel.

  \<^bold>\<open>Not modelled.\<close> The rounding of numbers to doubles (a number is the decimal its double is printed
  as); provider adapters, persistence, HTTP routes and the user interface; descriptors, projections,
  invocations and results of the tool catalog, its external schema dialect, which a third-party validator
  decides, and the engine of regular expressions, which are parameters; proxies; wall-clock scheduling
  beyond the order of events; the deny list and the real-path check of the workspace package, which are
  ports of the patch engine; the observer of the diff parser; Windows paths; the memory vault on SQLite,
  the capture of memories by a model and their consolidation.
\<close>

end
